(* ===== verification/Prelude.thy ===== *)
theory Prelude
  imports Main "HOL-Library.Word"
begin

text \<open>
  Shared vocabulary of the development: machine integers at their width, the result type
  of fallible Rust code with its sequencing operator, byte codecs in both byte orders,
  slices, Rust's checked and saturating arithmetic, and two interfaces that several
  components implement: registries of one-byte codes and invariants of transition systems.

  Conventions. A \<open>usize\<close> length is a \<open>nat\<close>; the operations that the source checks
  against \<open>usize\<close> overflow are written with \<open>usize_checked_add\<close>. A \<open>&str\<close> is the
  list of its Unicode scalar values (\<open>ustr\<close>) where the code looks at its characters,
  and its UTF-8 bytes where the code looks at the bytes. A point in time (\<open>Instant\<close>) and
  a duration are natural numbers of microseconds.
\<close>

unbundle bit_operations_syntax

section \<open>Types\<close>

type_synonym u8 = "8 word"
type_synonym u16 = "16 word"
type_synonym u32 = "32 word"
type_synonym u64 = "64 word"
type_synonym u128 = "128 word"
type_synonym bytes = "u8 list"
type_synonym ustr = "nat list"
type_synonym instant = nat
type_synonym duration = nat

section \<open>Proof collections\<close>

named_theorems result_simps \<open>rewriting of sequenced fallible computations\<close>
named_theorems codec_simps \<open>lengths and round trips of the byte codecs\<close>
named_theorems wire_defs \<open>definitions unfolded to evaluate concrete datagrams\<close>

section \<open>Results\<close>

text \<open>Rust's \<open>Result<T, E>\<close> is the sum type; \<open>?\<close> is \<open>rbind\<close>.\<close>

abbreviation (input) Ok :: "'a \<Rightarrow> 'e + 'a" where
  "Ok \<equiv> Inr"

abbreviation (input) Err :: "'e \<Rightarrow> 'e + 'a" where
  "Err \<equiv> Inl"

definition rbind :: "'e + 'a \<Rightarrow> ('a \<Rightarrow> 'e + 'b) \<Rightarrow> 'e + 'b" where
  "rbind m f = (case m of Inl e \<Rightarrow> Inl e | Inr x \<Rightarrow> f x)"

definition rmap :: "('a \<Rightarrow> 'b) \<Rightarrow> 'e + 'a \<Rightarrow> 'e + 'b" where
  "rmap f m = rbind m (\<lambda>x. Ok (f x))"

text \<open>Iterating a fallible step over a list, stopping at the first error
  (\<open>for x in xs { f(x)?; }\<close> collecting the results).\<close>

fun rmapM :: "('a \<Rightarrow> 'e + 'b) \<Rightarrow> 'a list \<Rightarrow> 'e + 'b list" where
  "rmapM f [] = Ok []"
| "rmapM f (x # xs) = rbind (f x) (\<lambda>y. rbind (rmapM f xs) (\<lambda>ys. Ok (y # ys)))"

text \<open>A loop over a list that updates a state and may stop at an error.\<close>

fun rfoldM :: "('s \<Rightarrow> 'a \<Rightarrow> 'e + 's) \<Rightarrow> 's \<Rightarrow> 'a list \<Rightarrow> 'e + 's" where
  "rfoldM f s [] = Ok s"
| "rfoldM f s (x # xs) = rbind (f s x) (\<lambda>s'. rfoldM f s' xs)"

definition ok_or :: "'e \<Rightarrow> 'a option \<Rightarrow> 'e + 'a" where
  "ok_or e m = (case m of None \<Rightarrow> Err e | Some x \<Rightarrow> Ok x)"

definition is_ok :: "'e + 'a \<Rightarrow> bool" where
  "is_ok m = (case m of Inl _ \<Rightarrow> False | Inr _ \<Rightarrow> True)"

definition result_ok :: "'e + 'a \<Rightarrow> 'a option" where
  "result_ok m = (case m of Inl _ \<Rightarrow> None | Inr x \<Rightarrow> Some x)"

lemma rbind_Err [simp, result_simps]: "rbind (Err e) f = Err e"
  by (simp add: rbind_def)

lemma rbind_Ok [simp, result_simps]: "rbind (Ok x) f = f x"
  by (simp add: rbind_def)

lemma rbind_cong [fundef_cong]:
  "m = m' \<Longrightarrow> (\<And>x. m' = Ok x \<Longrightarrow> f x = g x) \<Longrightarrow> rbind m f = rbind m' g"
  by (cases m') auto

lemma rbind_eq_Ok [result_simps]: "rbind m f = Ok y \<longleftrightarrow> (\<exists>x. m = Ok x \<and> f x = Ok y)"
  by (cases m) auto

lemma rbind_eq_Err [result_simps]:
  "rbind m f = Err e \<longleftrightarrow> m = Err e \<or> (\<exists>x. m = Ok x \<and> f x = Err e)"
  by (cases m) auto

lemma rbind_assoc [result_simps]: "rbind (rbind m f) g = rbind m (\<lambda>x. rbind (f x) g)"
  by (cases m) auto

lemma rmap_simps [simp, result_simps]: "rmap f (Err e) = Err e" "rmap f (Ok x) = Ok (f x)"
  by (simp_all add: rmap_def)

lemma rmap_eq_Ok [result_simps]: "rmap f m = Ok y \<longleftrightarrow> (\<exists>x. m = Ok x \<and> y = f x)"
  by (cases m) auto

lemma ok_or_simps [simp, result_simps]: "ok_or e None = Err e" "ok_or e (Some x) = Ok x"
  by (simp_all add: ok_or_def)

lemma ok_or_eq_Ok [result_simps]: "ok_or e m = Ok x \<longleftrightarrow> m = Some x"
  by (cases m) auto

lemma is_ok_simps [simp]: "\<not> is_ok (Err e)" "is_ok (Ok x)"
  by (simp_all add: is_ok_def)

lemma result_ok_simps [simp]: "result_ok (Err e) = None" "result_ok (Ok x) = Some x"
  by (simp_all add: result_ok_def)

lemma rmapM_Ok: "(\<And>x. x \<in> set xs \<Longrightarrow> f x = Ok (g x)) \<Longrightarrow> rmapM f xs = Ok (map g xs)"
  by (induction xs) auto

lemma rmapM_length: "rmapM f xs = Ok ys \<Longrightarrow> length ys = length xs"
  by (induction xs arbitrary: ys) (auto simp: result_simps)

lemma rmapM_eq_Ok_nth:
  "rmapM f xs = Ok ys \<Longrightarrow> i < length xs \<Longrightarrow> f (xs ! i) = Ok (ys ! i)"
  by (induction xs arbitrary: ys i) (auto simp: result_simps nth_Cons split: nat.splits)

lemma rmapM_eq_Ok_mem: "rmapM f xs = Ok ys \<Longrightarrow> y \<in> set ys \<longleftrightarrow> (\<exists>x \<in> set xs. f x = Ok y)"
  by (induction xs arbitrary: ys) (auto simp: result_simps)

lemma rfoldM_invariant:
  "rfoldM f s xs = Ok t \<Longrightarrow> I s \<Longrightarrow> (\<And>s x s'. x \<in> set xs \<Longrightarrow> I s \<Longrightarrow> f s x = Ok s' \<Longrightarrow> I s') \<Longrightarrow> I t"
proof (induction xs arbitrary: s)
  case (Cons x xs)
  then obtain s' where s': "f s x = Ok s'" "rfoldM f s' xs = Ok t" by (auto simp: rbind_eq_Ok)
  then have "I s'" using Cons.prems(3) [of x s s'] Cons.prems(2) by simp
  then show ?case using Cons.IH [OF s'(2)] Cons.prems(3) by (meson list.set_intros(2))
qed simp

section \<open>Arithmetic of the standard library\<close>

definition usize_checked_add :: "nat \<Rightarrow> nat \<Rightarrow> nat option" where
  "usize_checked_add a b = (if a + b < 2 ^ 64 then Some (a + b) else None)"

definition usize_saturating_mul :: "nat \<Rightarrow> nat \<Rightarrow> nat" where
  "usize_saturating_mul a b = min (a * b) (2 ^ 64 - 1)"

definition saturating_add_word :: "'a::len word \<Rightarrow> 'a word \<Rightarrow> 'a word" where
  "saturating_add_word a b = (if unat a + unat b < 2 ^ LENGTH('a) then a + b else - 1)"

definition u16_try_from :: "nat \<Rightarrow> u16 option" where
  "u16_try_from n = (if n < 2 ^ 16 then Some (of_nat n) else None)"

definition u8_try_from :: "nat \<Rightarrow> u8 option" where
  "u8_try_from n = (if n < 2 ^ 8 then Some (of_nat n) else None)"

text \<open>\<open>now.checked_duration_since(earlier)\<close>: \<open>None\<close> when \<open>earlier\<close> is later than \<open>now\<close>.\<close>

definition checked_duration_since :: "instant \<Rightarrow> instant \<Rightarrow> duration option" where
  "checked_duration_since now earlier = (if earlier \<le> now then Some (now - earlier) else None)"

lemma unat_of_nat_u8: "n < 256 \<Longrightarrow> unat (of_nat n :: u8) = n"
  by (simp add: unat_of_nat)

lemma unat_u8_less: "unat (b :: u8) < 256"
  using unsigned_less [of b] by simp

lemma unat_u16_less: "unat (b :: u16) < 65536"
  using unsigned_less [of b] by simp

lemma unat_ucast_u16_u32 [simp]: "unat (ucast (w :: u16) :: u32) = unat w"
  using unat_u16_less [of w] by (simp add: unsigned_ucast_eq take_bit_nat_eq_self)

lemma u16_try_from_unat: "u16_try_from n = Some w \<Longrightarrow> unat w = n"
  by (auto simp: u16_try_from_def unat_of_nat split: if_splits)

lemma u8_try_from_unat: "u8_try_from n = Some w \<Longrightarrow> unat w = n"
  by (auto simp: u8_try_from_def unat_of_nat split: if_splits)

lemma saturating_add_mono: "a \<le> saturating_add_word a b"
proof (cases "unat a + unat b < 2 ^ LENGTH('a)")
  case True
  then show ?thesis
    by (simp add: saturating_add_word_def word_le_nat_alt unat_word_ariths)
qed (simp add: saturating_add_word_def)

section \<open>Byte codecs\<close>

text \<open>\<open>to_le_bytes\<close>, \<open>to_be_bytes\<close>, \<open>from_le_bytes\<close>, \<open>from_be_bytes\<close> for a word of
  \<open>n\<close> bytes.\<close>

fun le_bytes :: "nat \<Rightarrow> 'a::len word \<Rightarrow> bytes" where
  "le_bytes 0 w = []"
| "le_bytes (Suc n) w = ucast w # le_bytes n (drop_bit 8 w)"

fun from_le :: "bytes \<Rightarrow> 'a::len word" where
  "from_le [] = 0"
| "from_le (b # bs) = ucast b OR push_bit 8 (from_le bs)"

definition be_bytes :: "nat \<Rightarrow> 'a::len word \<Rightarrow> bytes" where
  "be_bytes n w = rev (le_bytes n w)"

definition from_be :: "bytes \<Rightarrow> 'a::len word" where
  "from_be bs = from_le (rev bs)"

abbreviation u16_be :: "u16 \<Rightarrow> bytes" where "u16_be \<equiv> be_bytes 2"
abbreviation u16_le :: "u16 \<Rightarrow> bytes" where "u16_le \<equiv> le_bytes 2"
abbreviation u32_be :: "u32 \<Rightarrow> bytes" where "u32_be \<equiv> be_bytes 4"
abbreviation u32_le :: "u32 \<Rightarrow> bytes" where "u32_le \<equiv> le_bytes 4"
abbreviation u64_le :: "u64 \<Rightarrow> bytes" where "u64_le \<equiv> le_bytes 8"

text \<open>\<open>&input[a..b]\<close>; the callers have checked \<open>b \<le> length input\<close>.\<close>

definition slice_of :: "nat \<Rightarrow> nat \<Rightarrow> 'a list \<Rightarrow> 'a list" where
  "slice_of a b xs = take (b - a) (drop a xs)"

lemma length_le_bytes [simp, codec_simps]: "length (le_bytes n w) = n"
  by (induction n arbitrary: w) auto

lemma length_be_bytes [simp, codec_simps]: "length (be_bytes n w) = n"
  by (simp add: be_bytes_def)

lemma le_bytes_numeral [wire_defs]:
  "le_bytes (numeral k) w = ucast w # le_bytes (pred_numeral k) (drop_bit 8 w)"
  by (simp add: numeral_eq_Suc)

lemmas from_le_eval [wire_defs] = from_be_def from_le.simps be_bytes_def

lemma bit_from_le_bytes:
  "bit (from_le (le_bytes n (w :: 'a::len word)) :: 'a word) i \<longleftrightarrow> i < 8 * n \<and> bit w i"
proof (induction n arbitrary: w i)
  case 0
  then show ?case by simp
next
  case (Suc n)
  show ?case
    by (auto simp: bit_or_iff bit_push_bit_iff Suc.IH bit_ucast_iff bit_drop_bit_eq
        dest: bit_imp_le_length)
qed

lemma from_le_le_bytes:
  "LENGTH('a) \<le> 8 * n \<Longrightarrow> from_le (le_bytes n (w :: 'a::len word)) = w"
  by (rule bit_word_eqI) (simp add: bit_from_le_bytes)

lemma from_be_be_bytes:
  "LENGTH('a) \<le> 8 * n \<Longrightarrow> from_be (be_bytes n (w :: 'a::len word)) = w"
  by (simp add: from_be_def be_bytes_def from_le_le_bytes)

lemma drop_bit_from_le:
  assumes "8 + 8 * length bs \<le> LENGTH('a)"
  shows "drop_bit 8 (ucast (b :: u8) OR push_bit 8 (from_le bs :: 'a::len word)) = (from_le bs :: 'a word)"
proof (rule bit_word_eqI)
  fix i assume i: "i < LENGTH('a)"
  have bnd: "bit (from_le cs :: 'a word) j \<Longrightarrow> j < 8 * length cs" for cs :: bytes and j
  proof (induction cs arbitrary: j)
    case (Cons c cs)
    then show ?case
      by (cases "j < 8") (force simp: bit_or_iff bit_push_bit_iff bit_ucast_iff dest: bit_imp_le_length)+
  qed simp
  show "bit (drop_bit 8 (ucast b OR push_bit 8 (from_le bs :: 'a word))) i = bit (from_le bs :: 'a word) i"
    using i assms bnd [of bs i] bit_imp_le_length [of b "8 + i"]
    by (auto simp: bit_or_iff bit_push_bit_iff bit_ucast_iff bit_drop_bit_eq)
qed

lemma le_bytes_from_le:
  "8 * length bs \<le> LENGTH('a::len) \<Longrightarrow> le_bytes (length bs) (from_le bs :: 'a word) = bs"
proof (induction bs)
  case Nil
  then show ?case by simp
next
  case (Cons b bs)
  have "ucast (ucast b OR push_bit 8 (from_le bs) :: 'a word) = b"
    using Cons.prems
    by (intro bit_word_eqI) (auto simp: bit_or_iff bit_push_bit_iff bit_ucast_iff)
  moreover have "drop_bit 8 (ucast b OR push_bit 8 (from_le bs :: 'a word)) = (from_le bs :: 'a word)"
    using Cons.prems by (intro drop_bit_from_le) simp
  ultimately show ?case using Cons by simp
qed

lemma be_bytes_from_be:
  "8 * length bs \<le> LENGTH('a::len) \<Longrightarrow> be_bytes (length bs) (from_be bs :: 'a word) = bs"
  using le_bytes_from_le [of "rev bs", where 'a = 'a] by (simp add: be_bytes_def from_be_def)

lemma from_word_round_trips [simp, codec_simps]:
  "from_be (u16_be a) = a" "from_le (u16_le a) = a"
  "from_be (u32_be c) = c" "from_le (u32_le c) = c" "from_le (u64_le d) = d"
  by (simp_all add: from_be_be_bytes from_le_le_bytes)

lemma be_bytes_eq_iff:
  "LENGTH('a) \<le> 8 * n \<Longrightarrow> be_bytes n (v :: 'a::len word) = be_bytes n w \<longleftrightarrow> v = w"
  by (metis from_be_be_bytes)

lemma slice_of_append_skip:
  "length ps = n \<Longrightarrow> n \<le> a \<Longrightarrow> slice_of a b (ps @ xs) = slice_of (a - n) (b - n) xs"
  by (simp add: slice_of_def)

lemma slice_of_append_hit:
  "length ps = b \<Longrightarrow> slice_of 0 b (ps @ xs) = ps"
  by (simp add: slice_of_def)

lemma slice_of_all: "length ps = b \<Longrightarrow> slice_of 0 b ps = ps"
  by (simp add: slice_of_def)

lemma length_slice_of: "b \<le> length xs \<Longrightarrow> length (slice_of a b xs) = b - a"
  by (simp add: slice_of_def)

lemmas slice_simps = slice_of_append_skip slice_of_append_hit slice_of_all

section \<open>Lists\<close>

text \<open>Order-preserving removal of later duplicates, as \<open>HashSet::insert\<close> in a filter gives it.\<close>

fun dedup_seen :: "'a list \<Rightarrow> 'a list \<Rightarrow> 'a list" where
  "dedup_seen seen [] = []"
| "dedup_seen seen (x # xs) =
     (if x \<in> set seen then dedup_seen seen xs else x # dedup_seen (x # seen) xs)"

lemma set_dedup_seen: "set (dedup_seen seen xs) = set xs - set seen"
  by (induction xs arbitrary: seen) auto

lemma distinct_dedup_seen: "distinct (dedup_seen seen xs)"
  by (induction xs arbitrary: seen) (auto simp: set_dedup_seen)

lemma length_dedup_seen: "length (dedup_seen seen xs) \<le> length xs"
  by (induction xs arbitrary: seen) (auto intro: le_SucI)

lemma find_Some_iff_mem: "find P xs = Some x \<Longrightarrow> P x \<and> x \<in> set xs"
  by (induction xs) (auto split: if_splits)

section \<open>Registries of one-byte codes\<close>

text \<open>
  The \<open>repr(u8)\<close> enumerations with a \<open>TryFrom<u8>\<close>: the code of a value parses back to
  it, and a byte that parses is the code of its value.
\<close>

locale byte_registry =
  fixes code :: "'k \<Rightarrow> u8"
    and parse :: "u8 \<Rightarrow> 'e + 'k"
  assumes parse_code: "parse (code k) = Ok k"
    and code_parse: "parse b = Ok k \<Longrightarrow> code k = b"
begin

lemma code_eq_iff: "code k = code l \<longleftrightarrow> k = l"
  by (metis parse_code sum.inject(2))

lemma parse_eq_Ok_iff: "parse b = Ok k \<longleftrightarrow> b = code k"
  using code_parse parse_code by blast

lemma parse_rejects_iff: "(\<exists>e. parse b = Err e) \<longleftrightarrow> b \<notin> range code"
  by (cases "parse b") (auto simp: parse_code dest: code_parse)

end

section \<open>Fixed-size structures on the wire\<close>

text \<open>
  A structure that encodes to exactly \<open>size_of\<close> bytes and decodes from any input that
  starts with them. Two encodings can then be told apart inside any surrounding datagram.
\<close>

locale wire_struct =
  fixes encode :: "'s \<Rightarrow> bytes"
    and decode :: "bytes \<Rightarrow> 'e + 's"
    and size_of :: nat
  assumes encode_length: "length (encode s) = size_of"
    and decode_encode: "decode (encode s @ rest) = Ok s"
begin

lemma decode_encode_exact: "decode (encode s) = Ok s"
  using decode_encode [of s "[]"] by simp

lemma encode_append_eq_iff: "encode s @ xs = encode t @ ys \<longleftrightarrow> s = t \<and> xs = ys"
  by (metis append_eq_append_conv decode_encode_exact encode_length sum.inject(2))

lemma encode_inj: "encode s = encode t \<Longrightarrow> s = t"
  using encode_append_eq_iff [of s "[]" t "[]"] by simp

end

section \<open>Invariants of transition systems\<close>

inductive reachable_from :: "('s \<Rightarrow> bool) \<Rightarrow> ('s \<Rightarrow> 's \<Rightarrow> bool) \<Rightarrow> 's \<Rightarrow> bool"
  for initial :: "'s \<Rightarrow> bool" and step :: "'s \<Rightarrow> 's \<Rightarrow> bool" where
  reach_init: "initial s \<Longrightarrow> reachable_from initial step s"
| reach_step: "reachable_from initial step s \<Longrightarrow> step s t \<Longrightarrow> reachable_from initial step t"

locale invariant_system =
  fixes initial :: "'s \<Rightarrow> bool"
    and step :: "'s \<Rightarrow> 's \<Rightarrow> bool"
    and inv :: "'s \<Rightarrow> bool"
  assumes inv_initial: "initial s \<Longrightarrow> inv s"
    and inv_step: "inv s \<Longrightarrow> step s t \<Longrightarrow> inv t"
begin

lemma inv_reachable: "reachable_from initial step s \<Longrightarrow> inv s"
  by (induction rule: reachable_from.induct) (auto intro: inv_initial inv_step)

end

end
