(* ===== verification/Errors.thy ===== *)
theory Errors
  imports Prelude
begin

text \<open>
  The error type of the crate (\<open>src/error.rs\<close>), with the constructors of the source, the
  address types of \<open>std::net\<close> it mentions, and the kinds of I/O error the code tells apart.

  Where the source builds a message with \<open>format!\<close>, the payload here is the format string
  itself: the texts are for people, no code reads them back, and what tells two errors apart
  in the source (the constructor and its typed fields) is kept.
\<close>

section \<open>Addresses\<close>

datatype ip_addr = V4 u32 | V6 u128

record socket_addr =
  sa_ip :: ip_addr
  sa_port :: u16

fun is_ipv4 :: "ip_addr \<Rightarrow> bool" where
  "is_ipv4 (V4 _) = True"
| "is_ipv4 (V6 _) = False"

text \<open>\<open>Ipv4Addr::new\<close> and the classification methods of \<open>std::net\<close> that the code uses.\<close>

definition ipv4_new :: "u8 \<Rightarrow> u8 \<Rightarrow> u8 \<Rightarrow> u8 \<Rightarrow> u32" where
  "ipv4_new a b c d = from_be [a, b, c, d]"

definition ipv4_octets :: "u32 \<Rightarrow> bytes" where
  "ipv4_octets a = u32_be a"

definition v4_is_multicast :: "u32 \<Rightarrow> bool" where
  "v4_is_multicast a \<longleftrightarrow> drop_bit 28 a = 14"

definition v6_is_multicast :: "u128 \<Rightarrow> bool" where
  "v6_is_multicast a \<longleftrightarrow> drop_bit 120 a = 255"

fun is_unspecified :: "ip_addr \<Rightarrow> bool" where
  "is_unspecified (V4 a) = (a = 0)"
| "is_unspecified (V6 a) = (a = 0)"

fun is_loopback :: "ip_addr \<Rightarrow> bool" where
  "is_loopback (V4 a) = (drop_bit 24 a = 127)"
| "is_loopback (V6 a) = (a = 1)"

fun is_multicast :: "ip_addr \<Rightarrow> bool" where
  "is_multicast (V4 a) = v4_is_multicast a"
| "is_multicast (V6 a) = v6_is_multicast a"

abbreviation (input) v4_broadcast :: u32 where
  "v4_broadcast \<equiv> - 1"

section \<open>Errors\<close>

datatype error_kind =
    WouldBlock | TimedOut | Interrupted | WriteZero | NotFound | InvalidInput | InvalidData
  | AddrNotAvailable | OtherKind

datatype (plugins only: code size) error =
    Io error_kind
  | InvalidConfig string
  | PacketTooShort nat nat \<comment> \<open>minimum, actual\<close>
  | UnknownPacketType u8
  | UnknownEncryptionMethod u8
  | InvalidSignature
  | InvalidTlv nat string \<comment> \<open>offset, reason\<close>
  | TlvTooLarge string nat \<comment> \<open>kind, length\<close>
  | MissingTlv string
  | InvalidTlvValue string
  | Crypto string
  | AuthenticationRejected nat ustr \<comment> \<open>code, message\<close>
  | AuthenticationVerifyMismatch
  | Timeout string
  | InvalidPingResponse
  | SessionMismatch socket_addr
  | SessionClosed
  | InvalidFragment string
  | FragmentTooLarge
  | InvalidSegmentRouting string
  | SegmentRoutingPeerDown
  | FragmentEncryptionUnsupported
  | Tun string
  | CommandFailed string string \<comment> \<open>program, message\<close>
  | Managed string
  | LineNotFound ustr
  | LineUnavailable ustr error \<comment> \<open>line, the error whose text is the reason\<close>
  | CredentialStore string
  | Http string
  | Oidc string
  | Controller string
  | ControllerUnauthorized
  | ControllerRejected u16 ustr ustr \<comment> \<open>status, code, message\<close>
  | PostureVersionMismatch
  | PostureConfigUnavailable
  | PostureDenied
  | DeviceBindingBlocked int string \<comment> \<open>code, status\<close>

type_synonym 'a result = "error + 'a"

text \<open>\<open>Err(Error::Io(error))\<close> is the one error that ends a session's receive loop.\<close>

definition is_io_error :: "error \<Rightarrow> bool" where
  "is_io_error e = (case e of Io _ \<Rightarrow> True | _ \<Rightarrow> False)"

lemma ipv4_octets_new: "ipv4_octets (ipv4_new a b c d) = [a, b, c, d]"
  using be_bytes_from_be [of "[a, b, c, d]", where 'a = 32]
  by (simp add: ipv4_octets_def ipv4_new_def eval_nat_numeral)

lemma length_ipv4_octets [simp]: "length (ipv4_octets a) = 4"
  by (simp add: ipv4_octets_def)

end
