(* ===== verification/Packet_Types.thy ===== *)
theory Packet_Types
  imports Errors
begin

text \<open>
  The closed vocabularies of the wire format and the eight-byte standard header
  (\<open>src/protocol.rs\<close>, first half): packet types, encryption methods, TLV types, their
  one-byte codes and names, and \<open>PacketHeader::encode\<close> / \<open>decode\<close> / \<open>decode_inner\<close>.
\<close>

section \<open>Constants\<close>

abbreviation (input) HEADER_LEN :: nat where "HEADER_LEN \<equiv> 8"
abbreviation (input) SIGNATURE_LEN :: nat where "SIGNATURE_LEN \<equiv> 16"
abbreviation (input) CONTROL_PREFIX_LEN :: nat where "CONTROL_PREFIX_LEN \<equiv> 24"
abbreviation (input) PING_SESSION_ID :: u16 where "PING_SESSION_ID \<equiv> 0xffff"
abbreviation (input) PING_TOKEN :: u32 where "PING_TOKEN \<equiv> 0xffffffff"
abbreviation (input) ECHO_BODY_LEN :: nat where "ECHO_BODY_LEN \<equiv> 20"

section \<open>Packet types\<close>

datatype packet_type =
    OpenReject | OpenAck | Open | Data | EchoRequest | EchoResponse | Close | DataEncrypted
  | DataDup | DataEncryptedDup | IpFragment | DataIpv6 | IpFragmentIpv6 | SegmentRouting
  | PingRequest | PingResponse

fun packet_type_code :: "packet_type \<Rightarrow> u8" where
  "packet_type_code OpenReject = 0x11"
| "packet_type_code OpenAck = 0x12"
| "packet_type_code Open = 0x13"
| "packet_type_code Data = 0x14"
| "packet_type_code EchoRequest = 0x15"
| "packet_type_code EchoResponse = 0x16"
| "packet_type_code Close = 0x17"
| "packet_type_code DataEncrypted = 0x18"
| "packet_type_code DataDup = 0x19"
| "packet_type_code DataEncryptedDup = 0x20"
| "packet_type_code IpFragment = 0x22"
| "packet_type_code DataIpv6 = 0x23"
| "packet_type_code IpFragmentIpv6 = 0x24"
| "packet_type_code SegmentRouting = 0x28"
| "packet_type_code PingRequest = 0x29"
| "packet_type_code PingResponse = 0x2a"

definition packet_type_ALL :: "packet_type list" where
  "packet_type_ALL =
     [OpenReject, OpenAck, Open, Data, EchoRequest, EchoResponse, Close, DataEncrypted,
      DataDup, DataEncryptedDup, IpFragment, DataIpv6, IpFragmentIpv6, SegmentRouting,
      PingRequest, PingResponse]"

definition is_control :: "packet_type \<Rightarrow> bool" where
  "is_control t \<longleftrightarrow>
     t \<in> {OpenReject, OpenAck, Open, EchoRequest, EchoResponse, Close, PingRequest, PingResponse}"

definition is_data :: "packet_type \<Rightarrow> bool" where
  "is_data t \<longleftrightarrow> \<not> is_control t \<and> t \<noteq> SegmentRouting"

definition is_encrypted_data :: "packet_type \<Rightarrow> bool" where
  "is_encrypted_data t \<longleftrightarrow> t \<in> {DataEncrypted, DataEncryptedDup}"

definition packet_type_try_from :: "u8 \<Rightarrow> packet_type result" where
  "packet_type_try_from v =
     ok_or (UnknownPacketType v) (find (\<lambda>k. packet_type_code k = v) packet_type_ALL)"

fun packet_type_name :: "packet_type \<Rightarrow> string" where
  "packet_type_name OpenReject = ''OPEN_REJECT''"
| "packet_type_name OpenAck = ''OPEN_ACK''"
| "packet_type_name Open = ''OPEN''"
| "packet_type_name Data = ''DATA''"
| "packet_type_name EchoRequest = ''ECHO_REQUEST''"
| "packet_type_name EchoResponse = ''ECHO_RESPONSE''"
| "packet_type_name Close = ''CLOSE''"
| "packet_type_name DataEncrypted = ''DATA_ENCRYPTED''"
| "packet_type_name DataDup = ''DATA_DUP''"
| "packet_type_name DataEncryptedDup = ''DATA_ENC_DUP''"
| "packet_type_name IpFragment = ''IP_FRAGMENT''"
| "packet_type_name DataIpv6 = ''DATA_IPV6''"
| "packet_type_name IpFragmentIpv6 = ''IP_FRAGMENT_IPV6''"
| "packet_type_name SegmentRouting = ''SEGMENT_ROUTING''"
| "packet_type_name PingRequest = ''PING_REQUEST''"
| "packet_type_name PingResponse = ''PING_RESPONSE''"

section \<open>Encryption methods\<close>

datatype encryption_method = NoEncryption | Xor | Aes

fun encryption_code :: "encryption_method \<Rightarrow> u8" where
  "encryption_code NoEncryption = 0"
| "encryption_code Xor = 1"
| "encryption_code Aes = 2"

definition encryption_try_from :: "u8 \<Rightarrow> encryption_method result" where
  "encryption_try_from v =
     (if v = 0 then Ok NoEncryption
      else if v = 1 then Ok Xor
      else if v = 2 then Ok Aes
      else Err (UnknownEncryptionMethod v))"

definition ascii_lower :: "char \<Rightarrow> char" where
  "ascii_lower c =
     (if of_char c \<ge> (65 :: nat) \<and> of_char c \<le> (90 :: nat)
      then char_of (of_char c + (32 :: nat)) else c)"

definition encryption_from_str :: "string \<Rightarrow> encryption_method result" where
  "encryption_from_str value =
     (let v = map ascii_lower value in
      if v = ''none'' \<or> v = ''0'' then Ok NoEncryption
      else if v = ''xor'' \<or> v = ''1'' then Ok Xor
      else if v = ''aes'' \<or> v = ''aes128'' \<or> v = ''2'' then Ok Aes
      else Err (InvalidConfig ''unknown encryption method {value:?}''))"

fun encryption_name :: "encryption_method \<Rightarrow> string" where
  "encryption_name NoEncryption = ''none''"
| "encryption_name Xor = ''xor''"
| "encryption_name Aes = ''aes''"

section \<open>TLV types\<close>

datatype tlv_type =
    Username | Password | Mtu | Ip | Dns | Gateway | Netmask | Encrypt | DupPacket | Link
  | AuthVerify | ErrorMessage

fun tlv_code :: "tlv_type \<Rightarrow> u8" where
  "tlv_code Username = 0x01"
| "tlv_code Password = 0x02"
| "tlv_code Mtu = 0x03"
| "tlv_code Ip = 0x04"
| "tlv_code Dns = 0x05"
| "tlv_code Gateway = 0x06"
| "tlv_code Netmask = 0x07"
| "tlv_code Encrypt = 0x08"
| "tlv_code DupPacket = 0x09"
| "tlv_code Link = 0x0a"
| "tlv_code AuthVerify = 0x0f"
| "tlv_code ErrorMessage = 0x10"

definition tlv_type_ALL :: "tlv_type list" where
  "tlv_type_ALL =
     [Username, Password, Mtu, Ip, Dns, Gateway, Netmask, Encrypt, DupPacket, Link,
      AuthVerify, ErrorMessage]"

fun tlv_name :: "tlv_type \<Rightarrow> string" where
  "tlv_name Username = ''USERNAME''"
| "tlv_name Password = ''PASSWORD''"
| "tlv_name Mtu = ''MTU''"
| "tlv_name Ip = ''IP''"
| "tlv_name Dns = ''DNS''"
| "tlv_name Gateway = ''GATEWAY''"
| "tlv_name Netmask = ''NETMASK''"
| "tlv_name Encrypt = ''ENCRYPT''"
| "tlv_name DupPacket = ''DUP_PKT''"
| "tlv_name Link = ''LINK''"
| "tlv_name AuthVerify = ''AUTH_VERIFY''"
| "tlv_name ErrorMessage = ''ERR_MSG''"

definition tlv_type_try_from :: "u8 \<Rightarrow> tlv_type result" where
  "tlv_type_try_from v =
     ok_or (InvalidTlv 0 ''unknown type 0x{value:02x}'')
       (find (\<lambda>k. tlv_code k = v) tlv_type_ALL)"

section \<open>The standard header\<close>

record packet_header =
  packet_type :: packet_type
  encryption :: encryption_method
  session_id :: u16
  token :: u32

definition header_new ::
    "packet_type \<Rightarrow> encryption_method \<Rightarrow> u16 \<Rightarrow> u32 \<Rightarrow> packet_header" where
  "header_new t e s k = \<lparr>packet_type = t, encryption = e, session_id = s, token = k\<rparr>"

definition header_encode :: "packet_header \<Rightarrow> bytes" where
  "header_encode h =
     [packet_type_code (packet_type h), encryption_code (encryption h)]
       @ u16_be (session_id h) @ u32_be (token h)"

definition decode_inner :: "bytes \<Rightarrow> packet_header result" where
  "decode_inner input =
     (if length input < HEADER_LEN then Err (PacketTooShort HEADER_LEN (length input))
      else
        rbind (packet_type_try_from (input ! 0)) (\<lambda>t.
        rbind (encryption_try_from (input ! 1)) (\<lambda>e.
        Ok \<lparr>packet_type = t, encryption = e,
            session_id = from_be [input ! 2, input ! 3],
            token = from_be [input ! 4, input ! 5, input ! 6, input ! 7]\<rparr>)))"

definition header_decode :: "bytes \<Rightarrow> packet_header result" where
  "header_decode input =
     (if length input < HEADER_LEN then Err (PacketTooShort HEADER_LEN (length input))
      else if input ! 0 = packet_type_code SegmentRouting
      then Err (InvalidSegmentRouting ''SR envelope must be parsed as an SR header'')
      else decode_inner input)"

section \<open>The vocabularies are registries\<close>

instantiation packet_type :: enum
begin

definition enum_packet_type :: "packet_type list" where
  "enum_packet_type = packet_type_ALL"

definition enum_all_packet_type :: "(packet_type \<Rightarrow> bool) \<Rightarrow> bool" where
  "enum_all_packet_type P \<longleftrightarrow> list_all P packet_type_ALL"

definition enum_ex_packet_type :: "(packet_type \<Rightarrow> bool) \<Rightarrow> bool" where
  "enum_ex_packet_type P \<longleftrightarrow> list_ex P packet_type_ALL"

instance
proof
  have univ: "x \<in> set packet_type_ALL" for x
    by (cases x) (simp_all add: packet_type_ALL_def)
  then show "(UNIV :: packet_type set) = set enum_class.enum"
    by (auto simp: enum_packet_type_def)
  show "distinct (enum_class.enum :: packet_type list)"
    by (simp add: enum_packet_type_def packet_type_ALL_def)
  show "enum_class.enum_all P \<longleftrightarrow> Ball (UNIV :: packet_type set) P" for P
    using univ by (auto simp: enum_all_packet_type_def list_all_iff)
  show "enum_class.enum_ex P \<longleftrightarrow> Bex (UNIV :: packet_type set) P" for P
    using univ by (auto simp: enum_ex_packet_type_def list_ex_iff)
qed

end

lemma packet_type_try_from_code: "packet_type_try_from (packet_type_code k) = Ok k"
  by (cases k) (simp_all add: packet_type_try_from_def packet_type_ALL_def)

interpretation packet_registry: byte_registry packet_type_code packet_type_try_from
proof unfold_locales
  show "packet_type_try_from b = Ok k \<Longrightarrow> packet_type_code k = b" for b k
    by (auto simp: packet_type_try_from_def result_simps dest: find_Some_iff_mem)
qed (rule packet_type_try_from_code)

interpretation encryption_registry: byte_registry encryption_code encryption_try_from
proof unfold_locales
  show "encryption_try_from (encryption_code k) = Ok k" for k
    by (cases k) (simp_all add: encryption_try_from_def)
  show "encryption_try_from b = Ok k \<Longrightarrow> encryption_code k = b" for b k
    by (auto simp: encryption_try_from_def split: if_splits)
qed

lemma tlv_type_try_from_code: "tlv_type_try_from (tlv_code k) = Ok k"
  by (cases k) (simp_all add: tlv_type_try_from_def tlv_type_ALL_def)

interpretation tlv_registry: byte_registry tlv_code tlv_type_try_from
proof unfold_locales
  show "tlv_type_try_from b = Ok k \<Longrightarrow> tlv_code k = b" for b k
    by (auto simp: tlv_type_try_from_def result_simps dest: find_Some_iff_mem)
qed (rule tlv_type_try_from_code)

lemmas registry_simps [simp, codec_simps] =
  packet_registry.parse_code encryption_registry.parse_code tlv_registry.parse_code
  packet_registry.code_eq_iff encryption_registry.code_eq_iff tlv_registry.code_eq_iff

lemma packet_class_partition:
  "is_control t \<or> is_data t \<or> t = SegmentRouting" "is_encrypted_data t \<Longrightarrow> is_data t"
  by (auto simp: is_data_def is_encrypted_data_def is_control_def)

section \<open>Header round trip\<close>

lemma length_header_encode [simp, codec_simps]: "length (header_encode h) = HEADER_LEN"
  by (simp add: header_encode_def)

lemma list_of_be2: "[(be_bytes 2 w) ! 0, (be_bytes 2 w) ! Suc 0] = u16_be w"
  by (intro nth_equalityI) (auto simp: less_Suc_eq numeral_eq_Suc)

lemma list_of_be4:
  "[(be_bytes 4 w) ! 0, (be_bytes 4 w) ! Suc 0, (be_bytes 4 w) ! 2, (be_bytes 4 w) ! 3] = u32_be w"
  by (intro nth_equalityI) (auto simp: less_Suc_eq numeral_eq_Suc)

lemma u16_be_split: obtains a b where "u16_be w = [a, b]" "from_be [a, b] = w"
  using list_of_be2 [of w] from_word_round_trips(1) [of w] by metis

lemma octets_split: obtains a b c d where "ipv4_octets w = [a, b, c, d]" "ipv4_new a b c d = w"
proof -
  let ?b = "u32_be w"
  have b: "u32_be w = [?b ! 0, ?b ! 1, ?b ! 2, ?b ! 3]" by (simp add: list_of_be4)
  have "ipv4_new (?b ! 0) (?b ! 1) (?b ! 2) (?b ! 3) = from_be (u32_be w)"
    unfolding ipv4_new_def by (subst (5) b) (rule refl)
  then show thesis using that [of "?b ! 0" "?b ! 1" "?b ! 2" "?b ! 3"] b
    by (simp add: ipv4_octets_def)
qed

lemma decode_inner_encode [simp, codec_simps]: "decode_inner (header_encode h @ rest) = Ok h"
  by (simp add: decode_inner_def header_encode_def nth_append list_of_be2 list_of_be4)

interpretation header_wire: wire_struct header_encode decode_inner HEADER_LEN
  by unfold_locales simp_all

lemma header_decode_encode [codec_simps]:
  "packet_type h \<noteq> SegmentRouting \<Longrightarrow> header_decode (header_encode h @ rest) = Ok h"
  using packet_registry.code_eq_iff [of "packet_type h" SegmentRouting]
  by (simp add: header_decode_def) (simp add: header_encode_def)

lemma be2_of_from: "u16_be (from_be [a, b]) = [a, b]"
  using be_bytes_from_be [of "[a, b]", where 'a = 16] by (simp add: numeral_2_eq_2)

lemma be4_of_from: "u32_be (from_be [a, b, c, d]) = [a, b, c, d]"
  using be_bytes_from_be [of "[a, b, c, d]", where 'a = 32] by (simp add: eval_nat_numeral)

lemma take_8_nth:
  assumes "8 \<le> length xs"
  shows "take 8 xs = [xs ! 0, xs ! 1, xs ! 2, xs ! 3, xs ! 4, xs ! 5, xs ! 6, xs ! 7]"
  using assms by (intro nth_equalityI) (auto simp: less_Suc_eq numeral_eq_Suc)

lemma header_encode_decode_inner:
  assumes "decode_inner input = Ok h"
  shows "header_encode h = take HEADER_LEN input" "HEADER_LEN \<le> length input"
proof -
  show len: "HEADER_LEN \<le> length input"
    using assms by (auto simp: decode_inner_def split: if_splits)
  obtain t e where "packet_type_try_from (input ! 0) = Ok t" "encryption_try_from (input ! 1) = Ok e"
    and "h = \<lparr>packet_type = t, encryption = e, session_id = from_be [input ! 2, input ! 3],
              token = from_be [input ! 4, input ! 5, input ! 6, input ! 7]\<rparr>"
    using assms len by (auto simp: decode_inner_def result_simps)
  then show "header_encode h = take HEADER_LEN input"
    using len by (simp add: header_encode_def take_8_nth be2_of_from be4_of_from
        packet_registry.parse_eq_Ok_iff encryption_registry.parse_eq_Ok_iff)
qed

lemma header_decode_OkD:
  "header_decode input = Ok h \<Longrightarrow> decode_inner input = Ok h \<and> packet_type h \<noteq> SegmentRouting"
proof -
  assume a: "header_decode input = Ok h"
  then have d: "decode_inner input = Ok h" and ne: "input ! 0 \<noteq> packet_type_code SegmentRouting"
    and "HEADER_LEN \<le> length input"
    by (auto simp: header_decode_def split: if_splits)
  then have "packet_type_code (packet_type h) = input ! 0"
    using arg_cong [OF header_encode_decode_inner(1) [OF d], of "\<lambda>xs. xs ! 0"]
    by (simp add: header_encode_def)
  with d ne show ?thesis by auto
qed

end
