(* ===== verification/Crypto_Primitives.thy ===== *)
theory Crypto_Primitives
  imports Errors
begin

text \<open>
  The functions of the crates \<open>md-5\<close> and \<open>aes\<close> that the program calls. Their code is not
  part of the repository, so they are fields of a parameter of the model, and what the
  program relies on is a named hypothesis: a digest has 16 bytes, and a block cipher
  is length-preserving and inverted by its decryption on 16-byte blocks.
  The chunk-wise application \<open>chunks_exact_mut(16)\<close> shared by the session cipher and the
  Segment Routing outer cipher is defined here.
\<close>

abbreviation (input) KEY_LEN :: nat where "KEY_LEN \<equiv> 16"
abbreviation (input) AES_BLOCK_LEN :: nat where "AES_BLOCK_LEN \<equiv> 16"
abbreviation (input) XOR_KEY_LEN :: nat where "XOR_KEY_LEN \<equiv> 8"

record crypto_prims =
  md5_digest :: "bytes \<Rightarrow> bytes"
  aes128_encrypt_block :: "bytes \<Rightarrow> bytes \<Rightarrow> bytes"
  aes128_decrypt_block :: "bytes \<Rightarrow> bytes \<Rightarrow> bytes"
  aes256_encrypt_block :: "bytes \<Rightarrow> bytes \<Rightarrow> bytes"
  aes256_decrypt_block :: "bytes \<Rightarrow> bytes \<Rightarrow> bytes"

definition block_cipher_ok ::
    "nat \<Rightarrow> (bytes \<Rightarrow> bytes \<Rightarrow> bytes) \<Rightarrow> (bytes \<Rightarrow> bytes \<Rightarrow> bytes) \<Rightarrow> bool" where
  "block_cipher_ok klen enc dec \<longleftrightarrow>
     (\<forall>key block. length key = klen \<longrightarrow> length block = AES_BLOCK_LEN \<longrightarrow>
        length (enc key block) = AES_BLOCK_LEN \<and> length (dec key block) = AES_BLOCK_LEN \<and>
        dec key (enc key block) = block)"

definition prims_ok :: "crypto_prims \<Rightarrow> bool" where
  "prims_ok P \<longleftrightarrow>
     (\<forall>input. length (md5_digest P input) = KEY_LEN) \<and>
     block_cipher_ok 16 (aes128_encrypt_block P) (aes128_decrypt_block P) \<and>
     block_cipher_ok 32 (aes256_encrypt_block P) (aes256_decrypt_block P)"

text \<open>\<open>for block in bytes.chunks_exact_mut(16) { f(block) }\<close>: a final chunk of fewer than 16
  bytes is left as it is.\<close>

function crypt_chunks :: "(bytes \<Rightarrow> bytes) \<Rightarrow> bytes \<Rightarrow> bytes" where
  "crypt_chunks f bs =
     (if length bs < AES_BLOCK_LEN then bs
      else f (take AES_BLOCK_LEN bs) @ crypt_chunks f (drop AES_BLOCK_LEN bs))"
  by pat_completeness auto
termination
  by (relation "measure (\<lambda>(f, bs). length bs)") auto

declare crypt_chunks.simps [simp del]

section \<open>A concrete instance\<close>

text \<open>Primitives that satisfy the hypothesis and evaluate in the kernel: a digest that folds
  its input and a cipher that adds its key to the block byte by byte. They stand for the real
  algorithms in closed examples only.\<close>

definition demo_prims :: crypto_prims where
  "demo_prims =
     \<lparr>md5_digest = (\<lambda>bs. foldr (+) bs 0 # replicate 15 (of_nat (length bs))),
      aes128_encrypt_block = (\<lambda>k b. map2 (+) b k),
      aes128_decrypt_block = (\<lambda>k b. map2 (-) b k),
      aes256_encrypt_block = (\<lambda>k b. map2 (+) b (take 16 k)),
      aes256_decrypt_block = (\<lambda>k b. map2 (-) b (take 16 k))\<rparr>"

section \<open>Chunk-wise encryption\<close>

lemma prims_ok_md5 [simp]: "prims_ok P \<Longrightarrow> length (md5_digest P input) = KEY_LEN"
  by (simp add: prims_ok_def)

lemma crypt_chunks_Nil [simp]: "crypt_chunks f [] = []"
  by (simp add: crypt_chunks.simps)

lemma crypt_chunks_block:
  "length b = AES_BLOCK_LEN \<Longrightarrow> crypt_chunks f (b @ bs) = f b @ crypt_chunks f bs"
  by (simp add: crypt_chunks.simps [of f "b @ bs"])

lemma length_crypt_chunks:
  "(\<And>b. length b = AES_BLOCK_LEN \<Longrightarrow> length (f b) = AES_BLOCK_LEN) \<Longrightarrow>
   length (crypt_chunks f bs) = length bs"
proof (induction f bs rule: crypt_chunks.induct)
  case (1 f bs)
  then show ?case
    by (cases "length bs < AES_BLOCK_LEN") (simp_all add: crypt_chunks.simps [of f bs])
qed

lemma crypt_chunks_inverse:
  assumes "\<And>b. length b = AES_BLOCK_LEN \<Longrightarrow> length (f b) = AES_BLOCK_LEN"
    and "\<And>b. length b = AES_BLOCK_LEN \<Longrightarrow> g (f b) = b"
  shows "crypt_chunks g (crypt_chunks f bs) = bs"
  using assms
proof (induction f bs rule: crypt_chunks.induct)
  case (1 f bs)
  show ?case
  proof (cases "length bs < AES_BLOCK_LEN")
    case True
    then show ?thesis by (simp add: crypt_chunks.simps)
  next
    case False
    then have "crypt_chunks f bs = f (take AES_BLOCK_LEN bs) @ crypt_chunks f (drop AES_BLOCK_LEN bs)"
      by (simp add: crypt_chunks.simps [of f bs])
    with False 1 show ?thesis
      by (simp add: crypt_chunks_block)
  qed
qed

lemma block_cipher_chunks:
  assumes "block_cipher_ok klen enc dec" and "length key = klen"
  shows "crypt_chunks (dec key) (crypt_chunks (enc key) bs) = bs"
    and "length (crypt_chunks (enc key) bs) = length bs"
    and "length (crypt_chunks (dec key) bs) = length bs"
  using assms
  by (auto simp: block_cipher_ok_def intro!: crypt_chunks_inverse length_crypt_chunks)

lemma div_16_cases:
  fixes n :: nat
  obtains q where "n = 16 * q" "(16 - n mod 16) mod 16 = 0"
  | q r where "n = 16 * q + r" "0 < r" "r < 16" "(16 - n mod 16) mod 16 = 16 - r"
proof -
  define q where "q = n div 16"
  define r where "r = n mod 16"
  have n: "n = 16 * q + r" and r: "r < 16"
    by (simp_all add: q_def r_def)
  show ?thesis
  proof (cases "r = 0")
    case True
    with n show ?thesis by (intro that(1) [of q]) simp_all
  next
    case False
    with n r show ?thesis by (intro that(2) [of q r]) simp_all
  qed
qed

lemma length_zero_pad: "16 dvd (n + (16 - n mod 16) mod (16 :: nat))"
proof (cases rule: div_16_cases [of n])
  case (1 q)
  then show ?thesis by simp
next
  case (2 q r)
  have "16 * q + r + (16 - r) = 16 * (q + 1)"
    using 2(3) by simp
  then show ?thesis
    unfolding 2(4) unfolding 2(1) by (simp only: dvd_triv_left)
qed

lemma prims_ok_demo: "prims_ok demo_prims"
proof -
  have inverse: "map2 (-) (map2 (+) b k) k = b" if "length k = length b" for b k :: bytes
    using that by (induction k b rule: list_induct2) auto
  have "map2 (-) (map2 (+) b k) k = b" if "length b = 16" "length k = 16" for b k :: bytes
    using that by (intro inverse) simp
  then show ?thesis
    by (auto simp: prims_ok_def demo_prims_def block_cipher_ok_def)
qed

end
