(* ===== verification/Crypto.thy ===== *)
theory Crypto
  imports Packet_Types Crypto_Primitives
begin

text \<open>
  The data-plane cryptography of \<open>src/crypto.rs\<close>: Java-compatible text conversion, key
  derivation, password wrapping, and the three session ciphers behind the trait
  \<open>DataCipher\<close>. A trait object is a value of the datatype \<open>data_cipher\<close>; its methods are
  \<open>cipher_method\<close>, \<open>cipher_encrypt\<close> and \<open>cipher_decrypt\<close>. Zeroizing key material on drop
  has no effect on results and is not modelled.
\<close>

section \<open>Operations\<close>

definition md5 :: "crypto_prims \<Rightarrow> bytes \<Rightarrow> bytes" where
  "md5 P input = md5_digest P input"

definition java_us_ascii :: "ustr \<Rightarrow> bytes" where
  "java_us_ascii value = map (\<lambda>c. if c < 128 then of_nat c else 0x3f) value"

definition derive_session_key :: "crypto_prims \<Rightarrow> ustr \<Rightarrow> ustr \<Rightarrow> bytes" where
  "derive_session_key P username password =
     md5 P (java_us_ascii username @ java_us_ascii password)"

definition derive_password_key :: "crypto_prims \<Rightarrow> ustr \<Rightarrow> bytes" where
  "derive_password_key P username = md5 P ([0x6d, 0x77] @ java_us_ascii username)"

definition password_block :: "ustr \<Rightarrow> bytes" where
  "password_block password =
     (let password_bytes = java_us_ascii password;
          copy_len = min (length password_bytes) AES_BLOCK_LEN
      in take copy_len password_bytes @ replicate (AES_BLOCK_LEN - copy_len) 0)"

definition encrypt_password :: "crypto_prims \<Rightarrow> ustr \<Rightarrow> ustr \<Rightarrow> bytes" where
  "encrypt_password P password username =
     aes128_encrypt_block P (derive_password_key P username) (password_block password)"

datatype data_cipher = NoCipher | XorCipher bytes | AesCipher bytes

fun cipher_method :: "data_cipher \<Rightarrow> encryption_method" where
  "cipher_method NoCipher = NoEncryption"
| "cipher_method (XorCipher _) = Xor"
| "cipher_method (AesCipher _) = Aes"

definition cycle_take :: "nat \<Rightarrow> bytes \<Rightarrow> bytes" where
  "cycle_take n ks = map (\<lambda>i. ks ! (i mod length ks)) [0..<n]"

definition xor_apply :: "bytes \<Rightarrow> bytes \<Rightarrow> bytes" where
  "xor_apply key input =
     map (\<lambda>(byte, k). byte XOR k)
       (zip input (cycle_take (length input) (take XOR_KEY_LEN key)))"

definition aes_encrypt :: "crypto_prims \<Rightarrow> bytes \<Rightarrow> bytes \<Rightarrow> bytes result" where
  "aes_encrypt P key plaintext =
     (if plaintext = [] then Ok []
      else
        let padded_len = (length plaintext + AES_BLOCK_LEN - 1) div AES_BLOCK_LEN * AES_BLOCK_LEN;
            output = plaintext @ replicate (padded_len - length plaintext) 0
        in Ok (crypt_chunks (aes128_encrypt_block P key) output))"

definition aes_decrypt :: "crypto_prims \<Rightarrow> bytes \<Rightarrow> bytes \<Rightarrow> bytes result" where
  "aes_decrypt P key ciphertext =
     (if length ciphertext mod AES_BLOCK_LEN \<noteq> 0
      then Err (Crypto ''AES ciphertext length is not a multiple of 16'')
      else Ok (crypt_chunks (aes128_decrypt_block P key) ciphertext))"

fun cipher_encrypt :: "crypto_prims \<Rightarrow> data_cipher \<Rightarrow> bytes \<Rightarrow> bytes result" where
  "cipher_encrypt P NoCipher plaintext = Ok plaintext"
| "cipher_encrypt P (XorCipher key) plaintext = Ok (xor_apply key plaintext)"
| "cipher_encrypt P (AesCipher key) plaintext = aes_encrypt P key plaintext"

fun cipher_decrypt :: "crypto_prims \<Rightarrow> data_cipher \<Rightarrow> bytes \<Rightarrow> bytes result" where
  "cipher_decrypt P NoCipher ciphertext = Ok ciphertext"
| "cipher_decrypt P (XorCipher key) ciphertext = Ok (xor_apply key ciphertext)"
| "cipher_decrypt P (AesCipher key) ciphertext = aes_decrypt P key ciphertext"

definition create_cipher ::
    "crypto_prims \<Rightarrow> encryption_method \<Rightarrow> ustr \<Rightarrow> ustr \<Rightarrow> data_cipher result" where
  "create_cipher P m username password =
     Ok (case m of
           NoEncryption \<Rightarrow> NoCipher
         | Xor \<Rightarrow> XorCipher (derive_session_key P username password)
         | Aes \<Rightarrow> AesCipher (derive_session_key P username password))"

section \<open>Well-formed ciphers\<close>

text \<open>The key field is a \<open>[u8; 16]\<close> in the source.\<close>

fun cipher_wf :: "data_cipher \<Rightarrow> bool" where
  "cipher_wf NoCipher = True"
| "cipher_wf (XorCipher key) = (length key = KEY_LEN)"
| "cipher_wf (AesCipher key) = (length key = KEY_LEN)"

fun cipher_padding :: "data_cipher \<Rightarrow> nat \<Rightarrow> nat" where
  "cipher_padding (AesCipher _) n = (16 - n mod 16) mod 16"
| "cipher_padding _ n = 0"

lemma length_password_block: "length (password_block password) = AES_BLOCK_LEN"
  by (simp add: password_block_def Let_def)

lemma password_block_take:
  "password_block password = password_block (take 16 password)"
  by (cases "16 \<le> length password") (simp_all add: password_block_def java_us_ascii_def take_map)

lemma length_cycle_take [simp]: "length (cycle_take n ks) = n"
  by (simp add: cycle_take_def)

lemma xor_apply_self: "xor_apply key (xor_apply key input) = input"
proof -
  have "map2 (XOR) (map2 (XOR) xs ks) ks = xs" if "length ks = length xs" for xs ks :: bytes
    using that by (induction ks xs rule: list_induct2) (auto simp: xor.assoc)
  then show ?thesis
    by (simp add: xor_apply_def)
qed

lemma length_xor_apply [simp]: "length (xor_apply key input) = length input"
  by (simp add: xor_apply_def)

lemma padded_length:
  "(n + 16 - 1) div 16 * 16 = n + (16 - n mod 16) mod (16 :: nat)"
proof (cases rule: div_16_cases [of n])
  case (1 q)
  then show ?thesis by simp
next
  case (2 q r)
  have "n + 16 - 1 = (r - 1) + (q + 1) * 16"
    unfolding 2(1) using 2(2) by simp
  then have "(n + 16 - 1) div 16 = q + 1"
    using 2(3) by (simp only: div_mult_self1)
  then show ?thesis
    unfolding 2(4) using 2(1,3) by simp
qed

lemma aes_encrypt_eq:
  "aes_encrypt P key p =
     Ok (crypt_chunks (aes128_encrypt_block P key) (p @ replicate ((16 - length p mod 16) mod 16) 0))"
proof (cases "p = []")
  case False
  then show ?thesis
    unfolding aes_encrypt_def Let_def padded_length by simp
qed (simp add: aes_encrypt_def)

lemma cipher_round_trip:
  assumes "prims_ok P" and "cipher_wf c"
  obtains ct where "cipher_encrypt P c p = Ok ct"
    and "cipher_decrypt P c ct = Ok (p @ replicate (cipher_padding c (length p)) 0)"
    and "length ct = length p + cipher_padding c (length p)"
proof (cases c)
  case (AesCipher key)
  define pad where "pad = (16 - length p mod 16) mod 16"
  define ct where "ct = crypt_chunks (aes128_encrypt_block P key) (p @ replicate pad 0)"
  have "block_cipher_ok 16 (aes128_encrypt_block P) (aes128_decrypt_block P)" "length key = 16"
    using assms AesCipher by (simp_all add: prims_ok_def)
  note chunks = block_cipher_chunks [OF this]
  have len: "length ct = length p + pad"
    by (simp add: ct_def chunks)
  have "length ct mod 16 = 0"
    unfolding len using length_zero_pad [of "length p"] by (simp only: pad_def dvd_eq_mod_eq_0)
  then have "cipher_decrypt P c ct = Ok (p @ replicate pad 0)"
    by (simp add: AesCipher aes_decrypt_def) (simp add: ct_def chunks)
  moreover have "cipher_encrypt P c p = Ok ct"
    by (simp only: AesCipher cipher_encrypt.simps aes_encrypt_eq ct_def pad_def)
  moreover have "cipher_padding c (length p) = pad"
    by (simp only: AesCipher cipher_padding.simps pad_def)
  ultimately show ?thesis
    using len that by simp
next
  case NoCipher
  then show ?thesis by (intro that [of p]) simp_all
next
  case (XorCipher key)
  then show ?thesis by (intro that [of "xor_apply key p"]) (simp_all add: xor_apply_self)
qed

lemma create_cipher_wf:
  "prims_ok P \<Longrightarrow> create_cipher P m u p = Ok c \<Longrightarrow> cipher_wf c \<and> cipher_method c = m"
  by (cases m) (auto simp: create_cipher_def derive_session_key_def md5_def)

lemma cipher_padding_bound: "cipher_padding c n < 16"
  by (cases c) auto

section \<open>The interface \<open>DataCipher\<close>\<close>

text \<open>
  What the packet paths rely on: encryption succeeds, and decryption returns the plaintext
  followed by fewer than one block of zero bytes. The session removes the padding by the
  length field of the inner IP header, so this is exactly enough.
\<close>

locale cipher_contract =
  fixes lawful :: "'c \<Rightarrow> bool"
    and encrypt :: "'c \<Rightarrow> bytes \<Rightarrow> bytes result"
    and decrypt :: "'c \<Rightarrow> bytes \<Rightarrow> bytes result"
    and padding :: "'c \<Rightarrow> nat \<Rightarrow> nat"
  assumes encrypt_total: "lawful c \<Longrightarrow> \<exists>ct. encrypt c p = Ok ct"
    and decrypt_encrypt: "lawful c \<Longrightarrow> encrypt c p = Ok ct \<Longrightarrow>
          decrypt c ct = Ok (p @ replicate (padding c (length p)) 0)"
    and padding_bound: "padding c n < AES_BLOCK_LEN"
begin

lemma recovers_prefix:
  assumes "lawful c" and "encrypt c p = Ok ct"
  shows "\<exists>q. decrypt c ct = Ok q \<and> take (length p) q = p \<and> length q < length p + AES_BLOCK_LEN"
  using decrypt_encrypt [OF assms] padding_bound [of c "length p"] by auto

lemma same_length_injective:
  assumes "lawful c" and "encrypt c p = Ok ct" and "encrypt c q = Ok ct" and "length p = length q"
  shows "p = q"
proof -
  have "p @ replicate (padding c (length p)) 0 = q @ replicate (padding c (length q)) 0"
    using decrypt_encrypt [OF assms(1,2)] decrypt_encrypt [OF assms(1,3)] by (metis sum.inject(2))
  then show ?thesis
    unfolding assms(4) by (simp only: append_same_eq)
qed

end

interpretation session_cipher: cipher_contract
  "\<lambda>(P, c). prims_ok P \<and> cipher_wf c" "\<lambda>(P, c). cipher_encrypt P c"
  "\<lambda>(P, c). cipher_decrypt P c" "\<lambda>(P, c). cipher_padding c"
proof unfold_locales
  fix Pc :: "crypto_prims \<times> data_cipher" and p ct :: bytes and n :: nat
  obtain P c where Pc: "Pc = (P, c)" by fastforce
  show "\<exists>ct. (case Pc of (P, c) \<Rightarrow> cipher_encrypt P c) p = Ok ct"
    if "case Pc of (P, c) \<Rightarrow> prims_ok P \<and> cipher_wf c"
    using that Pc by (auto elim: cipher_round_trip)
  show "(case Pc of (P, c) \<Rightarrow> cipher_decrypt P c) ct =
          Ok (p @ replicate ((case Pc of (P, c) \<Rightarrow> cipher_padding c) (length p)) 0)"
    if "case Pc of (P, c) \<Rightarrow> prims_ok P \<and> cipher_wf c"
      "(case Pc of (P, c) \<Rightarrow> cipher_encrypt P c) p = Ok ct"
    using that Pc by (auto elim!: cipher_round_trip [of P c p])
  show "(case Pc of (P, c) \<Rightarrow> cipher_padding c) n < AES_BLOCK_LEN"
    using Pc cipher_padding_bound by simp
qed

end
