(* ===== verification/Protocol.thy ===== *)
theory Protocol
  imports Crypto
begin

text \<open>
  Framing of standard datagrams (\<open>src/protocol.rs\<close>, second half): TLVs with their tolerant
  and strict parsers, control signatures, \<open>encode_control\<close> / \<open>encode_data\<close> /
  \<open>decode_packet\<close>, and the builders of OPEN, CLOSE, echo and ping packets. The
  \<open>debug_assert!\<close>s on the packet class are compiled out of a release build and are not part
  of the model; the lemmas carry the class as a hypothesis instead.
\<close>

section \<open>TLVs\<close>

record tlv =
  tlv_kind :: tlv_type
  tlv_value :: bytes

definition tlv_new :: "tlv_type \<Rightarrow> bytes \<Rightarrow> tlv result" where
  "tlv_new k v =
     (if length v > 253 then Err (TlvTooLarge (tlv_name k) (length v))
      else Ok \<lparr>tlv_kind = k, tlv_value = v\<rparr>)"

text \<open>\<open>Tlv::encode\<close> appends to its output argument; the model returns the appended bytes.\<close>

definition tlv_encode :: "tlv \<Rightarrow> bytes result" where
  "tlv_encode t =
     rbind (ok_or (TlvTooLarge (tlv_name (tlv_kind t)) (length (tlv_value t)))
              (u8_try_from (length (tlv_value t) + 2)))
       (\<lambda>len. Ok ([tlv_code (tlv_kind t), len] @ tlv_value t))"

function parse_all_at :: "bytes \<Rightarrow> nat \<Rightarrow> tlv list result" where
  "parse_all_at input offset =
     (if length input - offset < 3 then Ok []
      else
        rbind (case tlv_type_try_from (input ! offset) of
                 Inl _ \<Rightarrow> Err (InvalidTlv offset ''unknown type 0x{:02x}'')
               | Inr k \<Rightarrow> Ok k) (\<lambda>k.
        let len = unat (input ! (offset + 1)) in
        if len < 2 then Err (InvalidTlv offset ''invalid total length {length}'')
        else if offset + len > length input
        then Err (InvalidTlv offset ''declared length {length} exceeds {} remaining bytes'')
        else
          rbind (parse_all_at input (offset + len)) (\<lambda>rest.
          Ok (\<lparr>tlv_kind = k, tlv_value = slice_of (offset + 2) (offset + len) input\<rparr> # rest))))"
  by pat_completeness auto
termination
  by (relation "measure (\<lambda>(input, offset). length input - offset)") auto

declare parse_all_at.simps [simp del]

definition parse_all :: "bytes \<Rightarrow> tlv list result" where
  "parse_all input = parse_all_at input 0"

definition parse_complete :: "bytes \<Rightarrow> tlv list result" where
  "parse_complete input =
     rbind (parse_all input) (\<lambda>attributes.
       let parsed_len = sum_list (map (\<lambda>t. length (tlv_value t) + 2) attributes) in
       if parsed_len \<noteq> length input
       then Err (InvalidTlv parsed_len ''trailing bytes do not form a complete TLV'')
       else Ok attributes)"

definition tlv_mtu :: "u16 \<Rightarrow> tlv" where
  "tlv_mtu mtu = \<lparr>tlv_kind = Mtu, tlv_value = u16_be mtu\<rparr>"

definition tlv_username :: "ustr \<Rightarrow> tlv result" where
  "tlv_username username = tlv_new Username (java_us_ascii username)"

definition tlv_encrypted_password :: "bytes \<Rightarrow> tlv" where
  "tlv_encrypted_password password = \<lparr>tlv_kind = Password, tlv_value = password\<rparr>"

definition tlv_encryption :: "encryption_method \<Rightarrow> tlv" where
  "tlv_encryption m = \<lparr>tlv_kind = Encrypt, tlv_value = [encryption_code m]\<rparr>"

definition tlv_link :: "u32 \<Rightarrow> tlv" where
  "tlv_link link = \<lparr>tlv_kind = Link, tlv_value = u32_be link\<rparr>"

definition tlv_auth_verify :: "u32 \<Rightarrow> tlv" where
  "tlv_auth_verify nonce = \<lparr>tlv_kind = AuthVerify, tlv_value = u32_be nonce\<rparr>"

definition as_integer :: "tlv \<Rightarrow> u32 result" where
  "as_integer t =
     (case tlv_value t of
        [v] \<Rightarrow> Ok (ucast v)
      | [a, b] \<Rightarrow> Ok (ucast (from_be [a, b] :: u16))
      | [a, b, c, d] \<Rightarrow> Ok (from_be [a, b, c, d])
      | _ \<Rightarrow> Err (InvalidTlvValue (tlv_name (tlv_kind t))))"

text \<open>\<open>value.get(..4)\<close>: the first four bytes, if there are that many.\<close>

definition first_u32 :: "tlv \<Rightarrow> u32 result" where
  "first_u32 t =
     (if length (tlv_value t) < 4 then Err (InvalidTlvValue (tlv_name (tlv_kind t)))
      else Ok (from_be (take 4 (tlv_value t))))"

definition first_ipv4 :: "tlv \<Rightarrow> u32 result" where
  "first_ipv4 t =
     (if length (tlv_value t) < 4 then Err (InvalidTlvValue (tlv_name (tlv_kind t)))
      else Ok (from_be (take 4 (tlv_value t))))"

definition find_tlv :: "tlv list \<Rightarrow> tlv_type \<Rightarrow> tlv option" where
  "find_tlv attributes k = find (\<lambda>t. tlv_kind t = k) attributes"

section \<open>Packets\<close>

record decoded_packet =
  header :: packet_header
  signature :: "bytes option"
  body :: bytes

definition calculate_signature :: "crypto_prims \<Rightarrow> packet_header \<Rightarrow> bytes" where
  "calculate_signature P h = md5 P (header_encode h @ [0x6d, 0x77])"

definition encode_control :: "crypto_prims \<Rightarrow> packet_header \<Rightarrow> bytes \<Rightarrow> bytes" where
  "encode_control P h b = header_encode h @ calculate_signature P h @ b"

definition encode_data :: "packet_header \<Rightarrow> bytes \<Rightarrow> bytes" where
  "encode_data h b = header_encode h @ b"

definition decode_packet :: "crypto_prims \<Rightarrow> bytes \<Rightarrow> decoded_packet result" where
  "decode_packet P input =
     rbind (header_decode input) (\<lambda>h.
       if is_control (packet_type h) then
         if packet_type h = Close \<and> length input = HEADER_LEN
         then Ok \<lparr>header = h, signature = None, body = []\<rparr>
         else if length input < CONTROL_PREFIX_LEN
         then Err (PacketTooShort CONTROL_PREFIX_LEN (length input))
         else
           let sig = slice_of HEADER_LEN CONTROL_PREFIX_LEN input in
           if sig \<noteq> calculate_signature P h then Err InvalidSignature
           else Ok \<lparr>header = h, signature = Some sig, body = drop CONTROL_PREFIX_LEN input\<rparr>
       else Ok \<lparr>header = h, signature = None, body = drop HEADER_LEN input\<rparr>)"

section \<open>Builders\<close>

definition open_attributes ::
    "crypto_prims \<Rightarrow> ustr \<Rightarrow> ustr \<Rightarrow> u16 \<Rightarrow> encryption_method \<Rightarrow> u32 option \<Rightarrow> u32 option
     \<Rightarrow> tlv list result" where
  "open_attributes P username password mtu enc first_hop_link auth_verify =
     rbind (tlv_username username) (\<lambda>user.
       Ok ([tlv_mtu mtu, user, tlv_encrypted_password (encrypt_password P password username),
            tlv_encryption enc]
           @ (case first_hop_link of None \<Rightarrow> [] | Some link \<Rightarrow> [tlv_link link])
           @ (case auth_verify of
                None \<Rightarrow> []
              | Some nonce \<Rightarrow> if nonce \<noteq> 0 then [tlv_auth_verify nonce] else [])))"

definition build_open ::
    "crypto_prims \<Rightarrow> ustr \<Rightarrow> ustr \<Rightarrow> u16 \<Rightarrow> encryption_method \<Rightarrow> u32 option \<Rightarrow> u32 option
     \<Rightarrow> bytes result" where
  "build_open P username password mtu enc first_hop_link auth_verify =
     rbind (open_attributes P username password mtu enc first_hop_link auth_verify) (\<lambda>attributes.
     rbind (rmapM tlv_encode attributes) (\<lambda>parts.
     Ok (encode_control P (header_new Open enc 0 0) (concat parts))))"

definition build_close :: "crypto_prims \<Rightarrow> packet_header \<Rightarrow> bytes" where
  "build_close P h =
     encode_control P (header_new Close (encryption h) (session_id h) (token h)) []"

definition build_probe_close :: "packet_header \<Rightarrow> bytes" where
  "build_probe_close h =
     header_encode (header_new Close (encryption h) (session_id h) (token h))"

record echo_delay_stats =
  current_micros :: u32
  minimum_micros :: u32
  maximum_micros :: u32

record echo_body =
  tick_micros :: u64
  delay_stats :: echo_delay_stats

definition echo_new :: "u64 \<Rightarrow> echo_delay_stats \<Rightarrow> echo_body" where
  "echo_new t d = \<lparr>tick_micros = t, delay_stats = d\<rparr>"

definition echo_encode :: "echo_body \<Rightarrow> bytes" where
  "echo_encode e =
     u64_le (tick_micros e) @ u32_le (current_micros (delay_stats e))
       @ u32_le (minimum_micros (delay_stats e)) @ u32_le (maximum_micros (delay_stats e))"

definition echo_decode :: "bytes \<Rightarrow> echo_body result" where
  "echo_decode b =
     (if length b < ECHO_BODY_LEN then Err (PacketTooShort ECHO_BODY_LEN (length b))
      else Ok \<lparr>tick_micros = from_le (slice_of 0 8 b),
               delay_stats = \<lparr>current_micros = from_le (slice_of 8 12 b),
                              minimum_micros = from_le (slice_of 12 16 b),
                              maximum_micros = from_le (slice_of 16 20 b)\<rparr>\<rparr>)"

definition build_echo_request :: "crypto_prims \<Rightarrow> packet_header \<Rightarrow> echo_body \<Rightarrow> bytes" where
  "build_echo_request P h echo =
     encode_control P (header_new EchoRequest (encryption h) (session_id h) (token h))
       (echo_encode echo)"

definition build_echo_response :: "crypto_prims \<Rightarrow> packet_header \<Rightarrow> bytes \<Rightarrow> bytes result" where
  "build_echo_response P request request_body =
     rbind (echo_decode request_body) (\<lambda>e.
     Ok (encode_control P
          (header_new EchoResponse (encryption request) (session_id request) (token request))
          (echo_encode e)))"

definition build_ping_request :: "crypto_prims \<Rightarrow> bytes" where
  "build_ping_request P =
     encode_control P (header_new PingRequest NoEncryption PING_SESSION_ID PING_TOKEN) []"

definition build_ping_response :: "crypto_prims \<Rightarrow> bytes" where
  "build_ping_response P =
     encode_control P (header_new PingResponse NoEncryption PING_SESSION_ID PING_TOKEN) []"

section \<open>TLV parsing\<close>

definition tlv_ok :: "tlv \<Rightarrow> bool" where
  "tlv_ok t \<longleftrightarrow> length (tlv_value t) \<le> 253"

text \<open>The bytes of a TLV whose length field fits.\<close>

definition tlv_bytes :: "tlv \<Rightarrow> bytes" where
  "tlv_bytes t = [tlv_code (tlv_kind t), of_nat (length (tlv_value t) + 2)] @ tlv_value t"

definition tlvs_bytes :: "tlv list \<Rightarrow> bytes" where
  "tlvs_bytes ts = concat (map tlv_bytes ts)"

lemma tlv_encode_ok: "tlv_ok t \<Longrightarrow> tlv_encode t = Ok (tlv_bytes t)"
  by (simp add: tlv_encode_def tlv_bytes_def tlv_ok_def u8_try_from_def)

lemma tlv_encode_too_large:
  "\<not> tlv_ok t \<Longrightarrow>
   tlv_encode t = Err (TlvTooLarge (tlv_name (tlv_kind t)) (length (tlv_value t)))"
  by (simp add: tlv_encode_def tlv_ok_def u8_try_from_def)

lemma tlv_new_cases: "tlv_new k v = (if length v \<le> 253 then Ok \<lparr>tlv_kind = k, tlv_value = v\<rparr>
    else Err (TlvTooLarge (tlv_name k) (length v)))"
  by (simp add: tlv_new_def)

lemma length_tlv_bytes: "length (tlv_bytes t) = length (tlv_value t) + 2"
  by (simp add: tlv_bytes_def)

lemma tlvs_bytes_simps [simp]:
  "tlvs_bytes [] = []" "tlvs_bytes (t # ts) = tlv_bytes t @ tlvs_bytes ts"
  by (simp_all add: tlvs_bytes_def)

lemma length_tlvs_bytes:
  "length (tlvs_bytes ts) = sum_list (map (\<lambda>t. length (tlv_value t) + 2) ts)"
  by (induction ts) (simp_all add: length_tlv_bytes)

lemma tlv_eta: "\<lparr>tlv_kind = tlv_kind t, tlv_value = tlv_value t\<rparr> = (t :: tlv)"
  by (cases t) simp

lemma parse_all_at_stop: "length input - offset < 3 \<Longrightarrow> parse_all_at input offset = Ok []"
  by (simp add: parse_all_at.simps)

lemma parse_all_at_tlv:
  assumes "tlv_ok t" and "3 \<le> length (tlv_bytes t @ rest)"
  shows "parse_all_at (pre @ tlv_bytes t @ rest) (length pre) =
           rbind (parse_all_at (pre @ tlv_bytes t @ rest) (length pre + length (tlv_bytes t)))
             (\<lambda>ts. Ok (t # ts))"
proof -
  define n where "n = length (tlv_value t) + 2"
  have t: "tlv_bytes t = [tlv_code (tlv_kind t), of_nat n] @ tlv_value t"
    by (simp only: tlv_bytes_def n_def)
  have "unat (of_nat n :: u8) = n"
    using assms(1) by (intro unat_of_nat_u8) (simp add: tlv_ok_def n_def)
  then show ?thesis
    using assms(2) unfolding t
    by (subst parse_all_at.simps) (auto simp: nth_append slice_of_def n_def tlv_eta)
qed

text \<open>The tolerant parser reads back every encoded list and ignores a suffix of one or two
  bytes. A last TLV with an empty value is itself such a suffix, so it must be followed by
  something for the parser to see it.\<close>

lemma parse_all_at_encoded:
  assumes "list_all tlv_ok ts" and "length suffix < 3"
    and "ts = [] \<or> tlv_value (last ts) \<noteq> [] \<or> suffix \<noteq> []"
  shows "parse_all_at (pre @ tlvs_bytes ts @ suffix) (length pre) = Ok ts"
  using assms
proof (induction ts arbitrary: pre)
  case Nil
  then show ?case by (simp add: parse_all_at_stop)
next
  case (Cons t ts)
  have long: "3 \<le> length (tlv_bytes t @ tlvs_bytes ts @ suffix)"
  proof (cases ts)
    case Nil
    with Cons.prems show ?thesis
      by (cases "tlv_value t"; cases suffix) (auto simp: length_tlv_bytes)
  qed (simp add: length_tlv_bytes)
  have IH: "parse_all_at ((pre @ tlv_bytes t) @ tlvs_bytes ts @ suffix) (length (pre @ tlv_bytes t)) = Ok ts"
    using Cons.prems by (intro Cons.IH) (auto split: if_splits)
  show ?case
    using Cons.prems parse_all_at_tlv [OF _ long, of pre] IH by simp
qed

text \<open>Whatever the tolerant parser accepts is an encoded list and a short suffix.\<close>

lemma parse_all_at_sound:
  "parse_all_at input offset = Ok ts \<Longrightarrow> offset \<le> length input \<Longrightarrow>
   list_all tlv_ok ts \<and> (\<exists>suffix. drop offset input = tlvs_bytes ts @ suffix \<and> length suffix < 3)"
proof (induction input offset arbitrary: ts rule: parse_all_at.induct)
  case (1 input offset)
  show ?case
  proof (cases "length input - offset < 3")
    case True
    then show ?thesis using "1.prems" by (simp add: parse_all_at_stop)
  next
    case False
    define len where "len = unat (input ! (offset + 1))"
    from False "1.prems"(1) obtain k rest where
      k: "tlv_type_try_from (input ! offset) = Ok k" and len: "2 \<le> len" "offset + len \<le> length input"
      and rest: "parse_all_at input (offset + len) = Ok rest"
      and ts: "ts = \<lparr>tlv_kind = k, tlv_value = slice_of (offset + 2) (offset + len) input\<rparr> # rest"
      by (auto simp: parse_all_at.simps [of input offset] result_simps Let_def len_def
          split: sum.splits if_splits)
    have IH: "list_all tlv_ok rest \<and>
        (\<exists>suffix. drop (offset + len) input = tlvs_bytes rest @ suffix \<and> length suffix < 3)"
      using "1.IH" [OF False, of k] k len rest by (simp add: len_def)
    have "len < 256"
      unfolding len_def by (rule unat_u8_less)
    have "drop offset input = [input ! offset, input ! (offset + 1)] @ drop (offset + 2) input"
      using False by (simp add: Cons_nth_drop_Suc)
    also have "drop (offset + 2) input =
        slice_of (offset + 2) (offset + len) input @ drop (offset + len) input"
    proof -
      have "len - 2 + (offset + 2) = offset + len"
        using len by linarith
      then have "drop (len - 2) (drop (offset + 2) input) = drop (offset + len) input"
        by (simp only: drop_drop)
      then show ?thesis
        using append_take_drop_id [of "len - 2" "drop (offset + 2) input"]
        by (simp add: slice_of_def)
    qed
    also have "input ! offset = tlv_code k"
      using k by (simp add: tlv_registry.parse_eq_Ok_iff)
    also have "input ! (offset + 1) =
        of_nat (length (slice_of (offset + 2) (offset + len) input) + 2)"
    proof -
      have "length (slice_of (offset + 2) (offset + len) input) + 2 = len"
        using len by (simp add: length_slice_of)
      then show ?thesis by (simp only: len_def) simp
    qed
    finally have "drop offset input = tlv_bytes (hd ts) @ drop (offset + len) input"
      by (simp add: ts tlv_bytes_def)
    moreover have "tlv_ok (hd ts)"
      using len \<open>len < 256\<close> by (simp add: ts tlv_ok_def length_slice_of)
    ultimately show ?thesis
      using IH by (auto simp: ts)
  qed
qed

lemma parse_all_encoded:
  assumes "list_all tlv_ok ts" and "length suffix < 3"
    and "ts = [] \<or> tlv_value (last ts) \<noteq> [] \<or> suffix \<noteq> []"
  shows "parse_all (tlvs_bytes ts @ suffix) = Ok ts"
  using parse_all_at_encoded [OF assms, of "[]"] by (simp add: parse_all_def)

lemma parse_all_sound:
  assumes "parse_all input = Ok ts"
  shows "list_all tlv_ok ts" and "\<exists>suffix. input = tlvs_bytes ts @ suffix \<and> length suffix < 3"
  using parse_all_at_sound [of input 0 ts] assms by (auto simp: parse_all_def)

lemma parse_complete_sound:
  assumes "parse_complete input = Ok ts"
  shows "input = tlvs_bytes ts" and "list_all tlv_ok ts" and "parse_all input = Ok ts"
proof -
  from assms have p: "parse_all input = Ok ts" and "length input = length (tlvs_bytes ts)"
    by (auto simp: parse_complete_def result_simps Let_def length_tlvs_bytes split: if_splits)
  with parse_all_sound [OF p] show "input = tlvs_bytes ts" "list_all tlv_ok ts" "parse_all input = Ok ts"
    by auto
qed

lemma parse_complete_encoded:
  assumes "list_all tlv_ok ts" and "ts = [] \<or> tlv_value (last ts) \<noteq> []"
  shows "parse_complete (tlvs_bytes ts) = Ok ts"
  using parse_all_encoded [of ts "[]"] assms
  by (auto simp: parse_complete_def Let_def length_tlvs_bytes)

section \<open>Packets: round trips and integrity\<close>

lemma length_calculate_signature [simp]:
  "prims_ok P \<Longrightarrow> length (calculate_signature P h) = SIGNATURE_LEN"
  by (simp add: calculate_signature_def md5_def)

lemma decode_packet_encode_control:
  assumes "prims_ok P" and "is_control (packet_type h)"
  shows "decode_packet P (encode_control P h b) =
           Ok \<lparr>header = h, signature = Some (calculate_signature P h), body = b\<rparr>"
proof -
  have "packet_type h \<noteq> SegmentRouting"
    using assms(2) by (auto simp: is_control_def)
  then have "header_decode (encode_control P h b) = Ok h"
    by (simp add: encode_control_def header_decode_encode)
  then show ?thesis
    using assms by (simp add: decode_packet_def encode_control_def slice_simps)
qed

lemma decode_packet_encode_data:
  assumes "is_data (packet_type h)"
  shows "decode_packet P (encode_data h b) = Ok \<lparr>header = h, signature = None, body = b\<rparr>"
  using assms
  by (simp add: decode_packet_def encode_data_def header_decode_encode is_data_def)

lemma decode_packet_probe_close:
  assumes "packet_type h = Close"
  shows "decode_packet P (header_encode h) = Ok \<lparr>header = h, signature = None, body = []\<rparr>"
  using assms header_decode_encode [of h "[]"]
  by (simp add: decode_packet_def is_control_def)

text \<open>An accepted datagram is one that the encoders produce for the decoded packet.\<close>

definition packet_image :: "crypto_prims \<Rightarrow> decoded_packet \<Rightarrow> bytes" where
  "packet_image P p =
     (case signature p of
        Some sig \<Rightarrow> header_encode (header p) @ sig @ body p
      | None \<Rightarrow> header_encode (header p) @ body p)"

lemma decode_packet_sound:
  assumes "decode_packet P input = Ok p"
  shows "packet_type (header p) \<noteq> SegmentRouting"
    and "input = packet_image P p"
    and "is_control (packet_type (header p)) \<Longrightarrow>
           signature p = Some (calculate_signature P (header p)) \<or>
           packet_type (header p) = Close \<and> signature p = None \<and> body p = []"
    and "\<not> is_control (packet_type (header p)) \<Longrightarrow> signature p = None"
proof -
  from assms obtain h where h: "header_decode input = Ok h"
    by (auto simp: decode_packet_def result_simps)
  note hd = header_decode_OkD [OF h]
  have inp: "header_encode h = take 8 input" "8 \<le> length input"
    using header_encode_decode_inner hd by blast+
  have split8: "input = header_encode h @ drop 8 input"
    by (simp add: inp)
  have split24: "input = header_encode h @ slice_of 8 24 input @ drop 24 input" if "24 \<le> length input"
  proof -
    have "drop 16 (drop 8 input) = drop 24 input" by simp
    then have "drop 8 input = slice_of 8 24 input @ drop 24 input"
      using append_take_drop_id [of 16 "drop 8 input"] by (simp add: slice_of_def)
    with split8 show ?thesis by simp
  qed
  from assms h hd split8 split24
  show "packet_type (header p) \<noteq> SegmentRouting" "input = packet_image P p"
    "is_control (packet_type (header p)) \<Longrightarrow>
       signature p = Some (calculate_signature P (header p)) \<or>
       packet_type (header p) = Close \<and> signature p = None \<and> body p = []"
    "\<not> is_control (packet_type (header p)) \<Longrightarrow> signature p = None"
    by (auto simp: decode_packet_def packet_image_def Let_def inp split: if_splits)
qed

section \<open>Builders\<close>

lemma length_java_us_ascii [simp]: "length (java_us_ascii s) = length s"
  by (simp add: java_us_ascii_def)

lemma open_attributes_ok:
  assumes "length username \<le> 253" and "prims_ok P"
  shows "\<exists>ts. open_attributes P username password mtu enc link nonce = Ok ts \<and>
           list_all tlv_ok ts \<and> ts \<noteq> [] \<and> tlv_value (last ts) \<noteq> []"
proof -
  have "length (encrypt_password P password username) = 16"
    using assms(2)
    by (auto simp: prims_ok_def block_cipher_ok_def encrypt_password_def derive_password_key_def
        md5_def length_password_block)
  with assms show ?thesis
    by (auto simp: open_attributes_def tlv_username_def tlv_new_def tlv_ok_def tlv_mtu_def
        tlv_encrypted_password_def tlv_encryption_def tlv_link_def tlv_auth_verify_def
        be_bytes_def split: option.splits) (simp_all add: wire_defs)
qed

lemma rmapM_tlv_encode: "list_all tlv_ok ts \<Longrightarrow> rmapM tlv_encode ts = Ok (map tlv_bytes ts)"
  by (intro rmapM_Ok) (simp add: tlv_encode_ok list_all_iff)

lemma build_open_decodes:
  assumes "length username \<le> 253" and "prims_ok P"
  obtains ts datagram where
    "open_attributes P username password mtu enc link nonce = Ok ts"
    "build_open P username password mtu enc link nonce = Ok datagram"
    "decode_packet P datagram =
       Ok \<lparr>header = header_new Open enc 0 0,
           signature = Some (calculate_signature P (header_new Open enc 0 0)),
           body = tlvs_bytes ts\<rparr>"
    "parse_complete (tlvs_bytes ts) = Ok ts"
proof -
  from open_attributes_ok [OF assms] obtain ts where
    ts: "open_attributes P username password mtu enc link nonce = Ok ts" and
    ok: "list_all tlv_ok ts" and last: "tlv_value (last ts) \<noteq> []"
    by blast
  have "build_open P username password mtu enc link nonce =
          Ok (encode_control P (header_new Open enc 0 0) (tlvs_bytes ts))"
    using ts ok by (simp add: build_open_def rmapM_tlv_encode tlvs_bytes_def)
  moreover have "parse_complete (tlvs_bytes ts) = Ok ts"
    using ok last by (intro parse_complete_encoded) auto
  ultimately show ?thesis
    using ts assms(2)
    by (intro that) (auto intro!: decode_packet_encode_control simp: header_new_def is_control_def)
qed

lemma length_echo_encode [simp, codec_simps]: "length (echo_encode e) = ECHO_BODY_LEN"
  by (simp add: echo_encode_def)

lemma echo_decode_encode [simp, codec_simps]: "echo_decode (echo_encode e @ rest) = Ok e"
  by (cases e) (simp add: echo_decode_def echo_encode_def slice_simps)

interpretation echo_wire: wire_struct echo_encode echo_decode ECHO_BODY_LEN
  by unfold_locales simp_all

lemma build_echo_response_of_request:
  assumes "prims_ok P"
    and "decode_packet P (build_echo_request P h echo) = Ok request"
  shows "\<exists>response.
      build_echo_response P (header request) (body request) = Ok response \<and>
      decode_packet P response =
        Ok \<lparr>header = header_new EchoResponse (encryption h) (session_id h) (token h),
            signature = Some (calculate_signature P
              (header_new EchoResponse (encryption h) (session_id h) (token h))),
            body = echo_encode echo\<rparr>"
proof -
  have "request = \<lparr>header = header_new EchoRequest (encryption h) (session_id h) (token h),
      signature = Some (calculate_signature P
        (header_new EchoRequest (encryption h) (session_id h) (token h))),
      body = echo_encode echo\<rparr>"
    using assms
    by (simp add: build_echo_request_def decode_packet_encode_control header_new_def is_control_def)
  then show ?thesis
    using assms(1) echo_wire.decode_encode_exact
    by (simp add: build_echo_response_def decode_packet_encode_control header_new_def is_control_def)
qed

section \<open>Properties\<close>

text \<open>(strict TLV parser). \<open>Tlv::parse_complete\<close> accepts exactly the concatenations of
  encoded TLVs with values of at most 253 bytes whose last value is not empty, and returns
  the TLVs that were encoded.\<close>

theorem parse_complete_iff:
  "parse_complete input = Ok ts \<longleftrightarrow>
     input = tlvs_bytes ts \<and> list_all tlv_ok ts \<and> (ts = [] \<or> tlv_value (last ts) \<noteq> [])"
proof
  assume a: "parse_complete input = Ok ts"
  note sound = parse_complete_sound [OF a]
  have "tlv_value (last ts) \<noteq> []" if "ts \<noteq> []"
  proof
    assume empty: "tlv_value (last ts) = []"
    define us where "us = butlast ts"
    have ts: "ts = us @ [last ts]"
      using that by (simp add: us_def)
    then have "tlvs_bytes ts = tlvs_bytes us @ tlv_bytes (last ts)"
      by (metis tlvs_bytes_simps append_Nil2 concat_append map_append tlvs_bytes_def)
    moreover have "list_all tlv_ok us"
      using sound(2) ts by (metis list_all_append)
    moreover have "length (tlv_bytes (last ts)) = 2"
      by (simp add: length_tlv_bytes empty)
    moreover from this have "tlv_bytes (last ts) \<noteq> []" by auto
    ultimately have "parse_all (tlvs_bytes ts) = Ok us"
      by (simp add: parse_all_encoded)
    with sound have "us = ts" by simp
    with ts show False by simp
  qed
  with sound show "input = tlvs_bytes ts \<and> list_all tlv_ok ts \<and> (ts = [] \<or> tlv_value (last ts) \<noteq> [])"
    by blast
next
  assume "input = tlvs_bytes ts \<and> list_all tlv_ok ts \<and> (ts = [] \<or> tlv_value (last ts) \<noteq> [])"
  then show "parse_complete input = Ok ts"
    using parse_complete_encoded by blast
qed

theorem parse_complete_iff_witness:
  "parse_complete [0x03, 0x04, 0x05, 0x78] = Ok [tlv_mtu 1400]"
  unfolding parse_complete_iff
  by (simp add: tlv_bytes_def tlv_mtu_def tlv_ok_def wire_defs)

text \<open>C1 (framing integrity). \<open>decode_packet\<close> accepts a datagram exactly when it is the image
  of the decoded packet: header, then for a control packet the MD5 signature of that very
  header, then the body. The only unsigned control packet it accepts is the header-only
  CLOSE; Segment Routing envelopes are never accepted here.\<close>

theorem decode_packet_iff:
  assumes "prims_ok P"
  shows "decode_packet P input = Ok p \<longleftrightarrow>
     input = packet_image P p \<and> packet_type (header p) \<noteq> SegmentRouting \<and>
     (if is_control (packet_type (header p))
      then signature p = Some (calculate_signature P (header p)) \<or>
           packet_type (header p) = Close \<and> signature p = None \<and> body p = []
      else signature p = None)"
    (is "_ \<longleftrightarrow> ?image")
proof
  assume "decode_packet P input = Ok p"
  from decode_packet_sound [OF this] show ?image by auto
next
  assume img: ?image
  obtain h s b where p: "p = \<lparr>header = h, signature = s, body = b\<rparr>" by (cases p)
  consider (signed) "is_control (packet_type h)" "s = Some (calculate_signature P h)"
    | (probe) "packet_type h = Close" "s = None" "b = []"
    | (data) "is_data (packet_type h)" "s = None"
    using img p by (auto simp: is_data_def split: if_splits)
  then show "decode_packet P input = Ok p"
  proof cases
    case signed
    with img p show ?thesis
      using decode_packet_encode_control [OF assms, of h b]
      by (simp add: packet_image_def encode_control_def)
  next
    case probe
    with img p show ?thesis
      using decode_packet_probe_close by (simp add: packet_image_def)
  next
    case data
    with img p show ?thesis
      using decode_packet_encode_data [of h P b] by (simp add: packet_image_def encode_data_def)
  qed
qed

theorem decode_packet_iff_witness:
  "prims_ok demo_prims \<and>
   decode_packet demo_prims (build_ping_request demo_prims) =
     Ok \<lparr>header = header_new PingRequest NoEncryption PING_SESSION_ID PING_TOKEN,
         signature = Some (calculate_signature demo_prims
           (header_new PingRequest NoEncryption PING_SESSION_ID PING_TOKEN)), body = []\<rparr>"
  unfolding decode_packet_iff [OF prims_ok_demo]
  by (simp add: prims_ok_demo packet_image_def build_ping_request_def encode_control_def
      header_new_def is_control_def)

text \<open>(OPEN). For a user name of at most 253 characters \<open>build_open\<close> succeeds, the
  result decodes as a signed OPEN with session 0 and token 0, and the strict TLV parser
  recovers from its body exactly MTU, USERNAME, the wrapped PASSWORD, ENCRYPT, and then LINK
  and a nonzero AUTH_VERIFY when they were given, in this order. A longer name is refused.\<close>

theorem build_open_attributes:
  assumes "prims_ok P"
  shows "if length username \<le> 253
     then \<exists>datagram p.
       build_open P username password mtu enc link nonce = Ok datagram \<and>
       decode_packet P datagram = Ok p \<and>
       header p = header_new Open enc 0 0 \<and>
       parse_complete (body p) = Ok
         ([tlv_mtu mtu, \<lparr>tlv_kind = Username, tlv_value = java_us_ascii username\<rparr>,
           tlv_encrypted_password (encrypt_password P password username), tlv_encryption enc]
          @ (case link of None \<Rightarrow> [] | Some l \<Rightarrow> [tlv_link l])
          @ (case nonce of None \<Rightarrow> []
             | Some n \<Rightarrow> if n = 0 then [] else [tlv_auth_verify n]))
     else build_open P username password mtu enc link nonce =
       Err (TlvTooLarge ''USERNAME'' (length username))"
proof (cases "length username \<le> 253")
  case True
  obtain ts datagram where
    ts: "open_attributes P username password mtu enc link nonce = Ok ts" and
    "build_open P username password mtu enc link nonce = Ok datagram"
    "decode_packet P datagram =
       Ok \<lparr>header = header_new Open enc 0 0,
           signature = Some (calculate_signature P (header_new Open enc 0 0)),
           body = tlvs_bytes ts\<rparr>"
    "parse_complete (tlvs_bytes ts) = Ok ts"
    using build_open_decodes [OF True assms] by metis
  moreover have "ts = [tlv_mtu mtu, \<lparr>tlv_kind = Username, tlv_value = java_us_ascii username\<rparr>,
           tlv_encrypted_password (encrypt_password P password username), tlv_encryption enc]
          @ (case link of None \<Rightarrow> [] | Some l \<Rightarrow> [tlv_link l])
          @ (case nonce of None \<Rightarrow> []
             | Some n \<Rightarrow> if n = 0 then [] else [tlv_auth_verify n])"
    using ts True
    by (auto simp: open_attributes_def tlv_username_def tlv_new_def split: option.splits)
  ultimately show ?thesis
    using True by (intro iffD2 [OF if_P]) auto
next
  case False
  then show ?thesis
    by (simp add: build_open_def open_attributes_def tlv_username_def tlv_new_def)
qed

theorem build_open_attributes_witness:
  "prims_ok demo_prims \<and>
   build_open demo_prims (replicate 254 97) [] 1400 Xor None (Some 7) =
     Err (TlvTooLarge ''USERNAME'' 254)"
  using build_open_attributes [OF prims_ok_demo, of "replicate 254 97" "[]" 1400 Xor None "Some 7"]
  by (simp add: prims_ok_demo)

text \<open>(echo). Answering a decoded heartbeat request gives a signed ECHO_RESPONSE of the
  same session that carries the request's tick and delay statistics unchanged.\<close>

theorem echo_response_echoes:
  assumes "prims_ok P"
    and "decode_packet P (build_echo_request P h echo) = Ok request"
  shows "\<exists>response p.
      build_echo_response P (header request) (body request) = Ok response \<and>
      decode_packet P response = Ok p \<and>
      header p = header_new EchoResponse (encryption h) (session_id h) (token h) \<and>
      echo_decode (body p) = Ok echo"
  using build_echo_response_of_request [OF assms] echo_wire.decode_encode_exact by force

theorem echo_response_echoes_witness:
  "\<exists>request response p.
      decode_packet demo_prims (build_echo_request demo_prims (header_new Close Xor 7 9)
        \<lparr>tick_micros = 1, delay_stats = \<lparr>current_micros = 2, minimum_micros = 3, maximum_micros = 4\<rparr>\<rparr>)
        = Ok request \<and>
      build_echo_response demo_prims (header request) (body request) = Ok response \<and>
      decode_packet demo_prims response = Ok p \<and>
      header p = header_new EchoResponse Xor 7 9"
proof -
  let ?h = "header_new Close Xor 7 9"
  let ?e = "\<lparr>tick_micros = 1, delay_stats = \<lparr>current_micros = 2, minimum_micros = 3, maximum_micros = 4\<rparr>\<rparr>"
  obtain request where "decode_packet demo_prims (build_echo_request demo_prims ?h ?e) = Ok request"
    by (simp add: build_echo_request_def decode_packet_encode_control [OF prims_ok_demo]
        header_new_def is_control_def)
  with echo_response_echoes [OF prims_ok_demo this] show ?thesis
    by (auto simp: header_new_def)
qed

end
