(* ===== verification/Fragment.thy ===== *)
theory Fragment
  imports Packet_Types
begin

text \<open>
  Fragment codec and inner IP lengths (\<open>src/fragment.rs\<close>): the eight-byte fragment prefix in
  its traditional (big-endian ID) and Segment Routing (little-endian ID) forms, the splitter
  \<open>fragment_sr_packet\<close>, and \<open>trim_ip_packet\<close>, which cuts cipher padding off by the length
  field of the inner IP header. The reassemblers are in \<open>Reassembly\<close>.
\<close>

section \<open>Definitions\<close>

abbreviation (input) FRAGMENT_PREFIX_LEN :: nat where "FRAGMENT_PREFIX_LEN \<equiv> 8"
abbreviation (input) MAX_FRAGMENT_OFFSET :: u16 where "MAX_FRAGMENT_OFFSET \<equiv> 0x1fff"
abbreviation (input) MAX_FRAGMENT_LENGTH :: u16 where "MAX_FRAGMENT_LENGTH \<equiv> 0x07ff"
abbreviation (input) MAX_REASSEMBLED_PACKET :: nat where "MAX_REASSEMBLED_PACKET \<equiv> 8192"

record fragment =
  frag_id :: u32
  end_of_packet :: bool
  from_in :: bool
  frag_offset :: u16
  frag_data :: bytes

datatype fragment_id_endian = Big | Little

definition end_offset :: "fragment \<Rightarrow> nat result" where
  "end_offset f =
     ok_or FragmentTooLarge (usize_checked_add (unat (frag_offset f)) (length (frag_data f)))"

definition fragment_parse :: "bytes \<Rightarrow> fragment_id_endian \<Rightarrow> fragment result" where
  "fragment_parse input endian =
     (if length input < FRAGMENT_PREFIX_LEN
      then Err (InvalidFragment ''fewer than eight prefix bytes'')
      else
        let id_bytes = slice_of 0 4 input;
            fid = (case endian of Big \<Rightarrow> from_be id_bytes | Little \<Rightarrow> from_le id_bytes);
            packed = (from_le (slice_of 4 8 input) :: u32)
        in
        if packed AND 0xfc000000 \<noteq> 0
        then Err (InvalidFragment ''reserved bits are non-zero'')
        else
          let eop = (packed AND 1 \<noteq> 0);
              fin = (packed AND 2 \<noteq> 0);
              off = (ucast (drop_bit 2 packed AND ucast MAX_FRAGMENT_OFFSET) :: u16);
              len = unat (drop_bit 15 packed AND ucast MAX_FRAGMENT_LENGTH)
          in
          if len = 0 then Err (InvalidFragment ''zero payload length'')
          else if length input - FRAGMENT_PREFIX_LEN < len
          then Err (InvalidFragment ''declared payload length exceeds datagram'')
          else
            let f = \<lparr>frag_id = fid, end_of_packet = eop, from_in = fin, frag_offset = off,
                     frag_data = slice_of FRAGMENT_PREFIX_LEN (FRAGMENT_PREFIX_LEN + len) input\<rparr>
            in
            rbind (end_offset f) (\<lambda>e.
              if e > MAX_REASSEMBLED_PACKET then Err FragmentTooLarge else Ok f))"

definition parse_traditional :: "bytes \<Rightarrow> fragment result" where
  "parse_traditional input = fragment_parse input Big"

definition parse_sr :: "bytes \<Rightarrow> fragment result" where
  "parse_sr input = fragment_parse input Little"

definition fragment_packed :: "u16 \<Rightarrow> u16 \<Rightarrow> bool \<Rightarrow> bool \<Rightarrow> u32" where
  "fragment_packed off len eop fin =
     push_bit 2 (ucast off) OR push_bit 15 (ucast len) OR of_bool eop OR push_bit 1 (of_bool fin)"

definition fragment_encode :: "fragment \<Rightarrow> fragment_id_endian \<Rightarrow> bytes result" where
  "fragment_encode f endian =
     (if frag_offset f > MAX_FRAGMENT_OFFSET
      then Err (InvalidFragment ''offset exceeds 13-bit field'')
      else
        rbind (ok_or (InvalidFragment ''payload exceeds 11-bit length field'')
                 (u16_try_from (length (frag_data f)))) (\<lambda>len.
        if len = 0 \<or> len > MAX_FRAGMENT_LENGTH
        then Err (InvalidFragment ''payload length is outside 1..=2047'')
        else
          rbind (end_offset f) (\<lambda>e.
          if e > MAX_REASSEMBLED_PACKET then Err FragmentTooLarge
          else
            let packed = fragment_packed (frag_offset f) len (end_of_packet f) (from_in f);
                id_bytes = (case endian of Big \<Rightarrow> u32_be (frag_id f) | Little \<Rightarrow> u32_le (frag_id f))
            in Ok (id_bytes @ u32_le packed @ frag_data f))))"

definition encode_traditional :: "fragment \<Rightarrow> bytes result" where
  "encode_traditional f = fragment_encode f Big"

definition encode_sr :: "fragment \<Rightarrow> bytes result" where
  "encode_sr f = fragment_encode f Little"

definition fragment_sr_packet :: "bytes \<Rightarrow> nat \<Rightarrow> u32 \<Rightarrow> (fragment \<times> fragment) result" where
  "fragment_sr_packet packet payload_mtu fid =
     (if payload_mtu = 0
         \<or> payload_mtu > unat MAX_FRAGMENT_LENGTH
         \<or> length packet \<le> payload_mtu
         \<or> length packet > usize_saturating_mul payload_mtu 2
         \<or> length packet > MAX_REASSEMBLED_PACKET
      then Err FragmentTooLarge
      else
        rbind (ok_or FragmentTooLarge (u16_try_from payload_mtu)) (\<lambda>second_offset.
        Ok (\<lparr>frag_id = fid, end_of_packet = False, from_in = False, frag_offset = 0,
             frag_data = take payload_mtu packet\<rparr>,
            \<lparr>frag_id = fid, end_of_packet = True, from_in = False, frag_offset = second_offset,
             frag_data = drop payload_mtu packet\<rparr>)))"

definition ip_version :: "bytes \<Rightarrow> u8" where
  "ip_version packet = drop_bit 4 (packet ! 0)"

definition trim_ip_packet :: "bytes \<Rightarrow> bytes result" where
  "trim_ip_packet packet =
     (if packet = [] then Err (InvalidFragment ''empty inner IP packet'')
      else
        rbind
          (if ip_version packet = 4 then
             if length packet < 20 then Err (InvalidFragment ''truncated IPv4 header'')
             else
               let header_length = unat (packet ! 0 AND 0x0f) * 4 in
               if header_length < 20 then Err (InvalidFragment ''invalid IPv4 header length'')
               else
                 let total_length = unat (from_be [packet ! 2, packet ! 3] :: u16) in
                 if total_length < header_length
                 then Err (InvalidFragment ''IPv4 total length is shorter than its header'')
                 else Ok total_length
           else if ip_version packet = 6 then
             if length packet < 40 then Err (InvalidFragment ''truncated IPv6 header'')
             else Ok (40 + unat (from_be [packet ! 4, packet ! 5] :: u16))
           else Err (InvalidFragment ''unknown inner IP version''))
          (\<lambda>expected.
             if expected = 0 \<or> expected > length packet
             then Err (InvalidFragment ''inner IP length exceeds decrypted payload'')
             else Ok (take expected packet)))"

section \<open>Valid fragments\<close>

definition fragment_ok :: "fragment \<Rightarrow> bool" where
  "fragment_ok f \<longleftrightarrow>
     frag_offset f \<le> MAX_FRAGMENT_OFFSET \<and> frag_data f \<noteq> [] \<and>
     length (frag_data f) \<le> 2047 \<and>
     unat (frag_offset f) + length (frag_data f) \<le> MAX_REASSEMBLED_PACKET"

lemma end_offset_small:
  "length (frag_data f) < 2 ^ 63 \<Longrightarrow> end_offset f = Ok (unat (frag_offset f) + length (frag_data f))"
  using unat_u16_less [of "frag_offset f"] by (simp add: end_offset_def usize_checked_add_def)

lemma end_offset_eq_Ok: "end_offset f = Ok e \<Longrightarrow> e = unat (frag_offset f) + length (frag_data f)"
  by (auto simp: end_offset_def result_simps usize_checked_add_def split: if_splits)

subsection \<open>The packed word\<close>

lemma bit_small_word:
  fixes w :: "'a::len word"
  assumes "unat w < 2 ^ n" and "bit w i"
  shows "i < n"
proof (rule ccontr)
  assume "\<not> i < n"
  moreover have "unat (take_bit n w) = unat w"
    using assms(1) by (simp add: unsigned_take_bit_eq take_bit_nat_eq_self)
  then have "take_bit n w = w"
    by (rule unsigned_word_eqI)
  ultimately show False
    using assms(2) by (metis bit_take_bit_iff)
qed

lemma mask_constants:
  "(0x1fff :: u32) = mask 13" "(0x7ff :: u32) = mask 11"
  "(0xfc000000 :: u32) = push_bit 26 (mask 6)"
  by (simp_all add: mask_eq_exp_minus_1 push_bit_eq_mult)

lemma low_bit_tests:
  fixes w :: "'a::len word"
  shows "w AND 1 \<noteq> 0 \<longleftrightarrow> bit w 0" and "1 < LENGTH('a) \<Longrightarrow> w AND 2 \<noteq> 0 \<longleftrightarrow> bit w 1"
  using bit_iff_and_push_bit_not_eq_0 [of w 0] bit_iff_and_push_bit_not_eq_0 [of w 1] by auto

lemma bit_fragment_packed:
  "bit (fragment_packed off len eop fin) i \<longleftrightarrow>
     i < 32 \<and> (2 \<le> i \<and> bit off (i - 2) \<or> 15 \<le> i \<and> bit len (i - 15) \<or> i = 0 \<and> eop \<or> i = 1 \<and> fin)"
  by (auto simp: fragment_packed_def bit_or_iff bit_push_bit_iff bit_ucast_iff bit_of_bool_iff
      bit_2_iff dest: bit_imp_le_length)

lemma fragment_packed_fields:
  fixes eop fin :: bool
  assumes "unat off < 2 ^ 13" and "unat len < 2 ^ 11"
  defines "w \<equiv> fragment_packed off len eop fin"
  shows "w AND 0xfc000000 = 0"
    and "w AND 1 \<noteq> 0 \<longleftrightarrow> eop"
    and "w AND 2 \<noteq> 0 \<longleftrightarrow> fin"
    and "(ucast (drop_bit 2 w AND 0x1fff) :: u16) = off"
    and "unat (drop_bit 15 w AND 0x7ff) = unat len"
proof -
  note off = bit_small_word [OF assms(1)] and len = bit_small_word [OF assms(2)]
  have bits: "bit w i \<longleftrightarrow>
     i < 32 \<and> (2 \<le> i \<and> bit off (i - 2) \<or> 15 \<le> i \<and> bit len (i - 15) \<or> i = 0 \<and> eop \<or> i = 1 \<and> fin)" for i
    unfolding w_def by (rule bit_fragment_packed)
  show "w AND 0xfc000000 = 0"
    unfolding mask_constants
    by (rule bit_word_eqI) (auto simp: bit_and_iff bits bit_push_bit_iff bit_mask_iff dest: off len)
  show "w AND 1 \<noteq> 0 \<longleftrightarrow> eop" "w AND 2 \<noteq> 0 \<longleftrightarrow> fin"
    by (auto simp: low_bit_tests bits dest: off len)
  show "(ucast (drop_bit 2 w AND 0x1fff) :: u16) = off"
    unfolding mask_constants
    by (rule bit_word_eqI)
      (auto simp: bit_ucast_iff bit_and_iff bit_drop_bit_eq bit_mask_iff bits dest: off len)
  have "drop_bit 15 w AND 0x7ff = (ucast len :: u32)"
    unfolding mask_constants
    by (rule bit_word_eqI)
      (auto simp: bit_ucast_iff bit_and_iff bit_drop_bit_eq bit_mask_iff bits dest: off len)
  then show "unat (drop_bit 15 w AND 0x7ff) = unat len"
    by simp
qed

lemma fragment_packed_of_fields:
  fixes w :: u32
  assumes "w AND 0xfc000000 = 0"
  shows "fragment_packed (ucast (drop_bit 2 w AND 0x1fff)) (ucast (drop_bit 15 w AND 0x7ff))
           (w AND 1 \<noteq> 0) (w AND 2 \<noteq> 0) = w"
proof (rule bit_word_eqI)
  fix i assume i: "i < LENGTH(32)"
  have "\<not> bit (w AND push_bit 26 (mask 6)) i"
    using assms by (simp flip: mask_constants)
  then have top: "26 \<le> i \<Longrightarrow> \<not> bit w i"
    using i by (auto simp: bit_and_iff bit_push_bit_iff bit_mask_iff)
  consider "i = 0" | "i = 1" | "2 \<le> i" "i < 15" "2 + (i - 2) = i"
    | "15 \<le> i" "i < 26" "15 + (i - 15) = i" "\<not> i - 2 < 13" | "26 \<le> i" "\<not> bit w i" "\<not> i - 2 < 13"
    using top by linarith
  then show "bit (fragment_packed (ucast (drop_bit 2 w AND 0x1fff)) (ucast (drop_bit 15 w AND 0x7ff))
      (w AND 1 \<noteq> 0) (w AND 2 \<noteq> 0)) i = bit w i"
    using i
    by cases (auto simp: low_bit_tests bit_fragment_packed mask_constants bit_ucast_iff
        bit_and_iff bit_drop_bit_eq bit_mask_iff)
qed

subsection \<open>Codec\<close>

lemma fragment_ok_length:
  assumes "fragment_ok f"
  shows "u16_try_from (length (frag_data f)) = Some (of_nat (length (frag_data f)))"
    and "unat (of_nat (length (frag_data f)) :: u16) = length (frag_data f)"
    and "(of_nat (length (frag_data f)) :: u16) \<noteq> 0"
    and "(of_nat (length (frag_data f)) :: u16) \<le> 0x7ff"
    and "unat (frag_offset f) < 2 ^ 13"
    and "end_offset f = Ok (unat (frag_offset f) + length (frag_data f))"
proof -
  let ?n = "length (frag_data f)"
  from assms have n: "?n \<le> 2047" "0 < ?n" by (auto simp: fragment_ok_def)
  then show u: "unat (of_nat ?n :: u16) = ?n"
    by (simp add: unat_of_nat)
  from n show "u16_try_from ?n = Some (of_nat ?n)"
    by (simp add: u16_try_from_def)
  from n u show "(of_nat ?n :: u16) \<noteq> 0" "(of_nat ?n :: u16) \<le> 0x7ff"
    by (auto simp: word_le_nat_alt simp flip: unat_eq_0)
  from assms show "unat (frag_offset f) < 2 ^ 13"
    by (simp add: fragment_ok_def word_le_nat_alt)
  from n show "end_offset f = Ok (unat (frag_offset f) + ?n)"
    by (intro end_offset_small) simp
qed

definition fragment_bytes :: "fragment \<Rightarrow> fragment_id_endian \<Rightarrow> bytes" where
  "fragment_bytes f endian =
     (case endian of Big \<Rightarrow> u32_be (frag_id f) | Little \<Rightarrow> u32_le (frag_id f))
       @ u32_le (fragment_packed (frag_offset f) (of_nat (length (frag_data f)))
           (end_of_packet f) (from_in f))
       @ frag_data f"

lemma fragment_encode_ok: "fragment_ok f \<Longrightarrow> fragment_encode f endian = Ok (fragment_bytes f endian)"
  using fragment_ok_length [of f]
  by (auto simp: fragment_encode_def fragment_bytes_def Let_def fragment_ok_def not_less [symmetric])

lemma fragment_encode_Ok_imp: "fragment_encode f endian = Ok b \<Longrightarrow> fragment_ok f"
proof -
  assume "fragment_encode f endian = Ok b"
  then obtain len e where "frag_offset f \<le> 0x1fff" "u16_try_from (length (frag_data f)) = Some len"
    "len \<noteq> 0" "len \<le> 0x7ff" "end_offset f = Ok e" "e \<le> 8192"
    by (auto simp: fragment_encode_def result_simps split: if_splits)
  moreover from this(2) have "unat len = length (frag_data f)"
    by (rule u16_try_from_unat)
  ultimately show "fragment_ok f"
    by (auto simp: fragment_ok_def word_le_nat_alt dest!: end_offset_eq_Ok simp flip: unat_eq_0)
qed

lemma fragment_parse_bytes:
  assumes "fragment_ok f"
  shows "fragment_parse (fragment_bytes f endian @ rest) endian = Ok f"
proof -
  note ok = fragment_ok_length [OF assms]
  let ?w = "fragment_packed (frag_offset f) (of_nat (length (frag_data f))) (end_of_packet f) (from_in f)"
  have "length (frag_data f) < 2 ^ 11" "frag_data f \<noteq> []"
    using assms by (auto simp: fragment_ok_def)
  then have fields: "?w AND 0xfc000000 = 0" "?w AND 1 \<noteq> 0 \<longleftrightarrow> end_of_packet f"
    "?w AND 2 \<noteq> 0 \<longleftrightarrow> from_in f" "(ucast (drop_bit 2 ?w AND 0x1fff) :: u16) = frag_offset f"
    "unat (drop_bit 15 ?w AND 0x7ff) = length (frag_data f)"
    using fragment_packed_fields [of "frag_offset f" "of_nat (length (frag_data f))"
        "end_of_packet f" "from_in f"] ok by simp_all
  define ids where
    "ids = (case endian of Big \<Rightarrow> u32_be (frag_id f) | Little \<Rightarrow> u32_le (frag_id f))"
  have ids: "length ids = 4"
    "(case endian of Big \<Rightarrow> from_be ids | Little \<Rightarrow> from_le ids) = frag_id f"
    by (cases endian; simp add: ids_def)+
  have "unat (frag_offset f) + length (frag_data f) \<le> 8192"
    using assms by (simp add: fragment_ok_def)
  moreover have eta: "\<lparr>frag_id = frag_id f, end_of_packet = end_of_packet f, from_in = from_in f,
      frag_offset = frag_offset f, frag_data = frag_data f\<rparr> = f"
    by (cases f) simp
  ultimately show ?thesis
    unfolding fragment_parse_def fragment_bytes_def ids_def [symmetric]
    using ids \<open>frag_data f \<noteq> []\<close> ok(6)
    by (simp add: slice_simps fields Let_def eta)
qed

lemma fragment_parse_sound:
  assumes "fragment_parse input endian = Ok f"
  shows "fragment_ok f" and "\<exists>rest. input = fragment_bytes f endian @ rest"
proof -
  define packed where "packed = (from_le (slice_of 4 8 input) :: u32)"
  define len where "len = unat (drop_bit 15 packed AND 0x7ff)"
  from assms have top: "packed AND 0xfc000000 = 0" and len: "len \<noteq> 0" "8 + len \<le> length input"
    and off: "frag_offset f = ucast (drop_bit 2 packed AND 0x1fff)"
    and flags: "end_of_packet f = (packed AND 1 \<noteq> 0)" "from_in f = (packed AND 2 \<noteq> 0)"
    and dat: "frag_data f = slice_of 8 (8 + len) input"
    and fid: "frag_id f = (case endian of Big \<Rightarrow> from_be (slice_of 0 4 input)
                            | Little \<Rightarrow> from_le (slice_of 0 4 input))"
    and end8: "unat (frag_offset f) + length (frag_data f) \<le> 8192"
    by (auto simp: fragment_parse_def Let_def packed_def len_def result_simps
        dest!: end_offset_eq_Ok split: if_splits)
  have lend: "length (frag_data f) = len"
    using len by (simp add: dat length_slice_of)
  have "drop_bit 15 packed AND 0x7ff \<le> 0x7ff" "drop_bit 2 packed AND 0x1fff \<le> 0x1fff"
    by (rule word_and_le1)+
  then have lenb: "len \<le> 2047" and offb: "unat (drop_bit 2 packed AND 0x1fff) \<le> 0x1fff"
    by (simp_all add: len_def word_le_nat_alt)
  have "unat (frag_offset f) = unat (drop_bit 2 packed AND 0x1fff)"
    unfolding off using offb by (simp add: unsigned_ucast_eq take_bit_nat_eq_self)
  then show ok: "fragment_ok f"
    using len lend lenb offb end8 by (auto simp: fragment_ok_def word_le_nat_alt)
  have "(of_nat len :: u16) = ucast (drop_bit 15 packed AND 0x7ff)"
    by (simp add: len_def)
  then have pk: "fragment_packed (frag_offset f) (of_nat (length (frag_data f))) (end_of_packet f) (from_in f) = packed"
    unfolding lend using fragment_packed_of_fields [OF top] by (simp add: off flags)
  have l4: "length (slice_of 0 4 input) = 4" "length (slice_of 4 8 input) = 4"
    using len by (simp_all add: length_slice_of)
  have ids: "(case endian of Big \<Rightarrow> u32_be (frag_id f) | Little \<Rightarrow> u32_le (frag_id f)) = slice_of 0 4 input"
    using be_bytes_from_be [of "slice_of 0 4 input", where 'a = 32]
      le_bytes_from_le [of "slice_of 0 4 input", where 'a = 32] l4
    by (simp add: fid split: fragment_id_endian.splits)
  have "u32_le packed = slice_of 4 8 input"
    using le_bytes_from_le [of "slice_of 4 8 input", where 'a = 32] l4 by (simp add: packed_def)
  then have "fragment_bytes f endian = slice_of 0 4 input @ slice_of 4 8 input @ slice_of 8 (8 + len) input"
    by (simp only: fragment_bytes_def ids pk) (simp only: dat)
  also have "\<dots> = take (8 + len) input"
    by (simp add: slice_of_def take_add drop_drop) (metis add.commute drop_drop numeral_Bit0 take_add take_drop)
  finally show "\<exists>rest. input = fragment_bytes f endian @ rest"
    by (metis append_take_drop_id)
qed

section \<open>Inner IP packets\<close>

text \<open>A packet whose own header announces exactly its length.\<close>

definition complete_ip_packet :: "bytes \<Rightarrow> bool" where
  "complete_ip_packet p \<longleftrightarrow>
     20 \<le> length p \<and>
     (ip_version p = 4 \<and> 20 \<le> unat (p ! 0 AND 0x0f) * 4 \<and>
        unat (p ! 0 AND 0x0f) * 4 \<le> length p \<and>
        length p = unat (from_be [p ! 2, p ! 3] :: u16)
      \<or> ip_version p = 6 \<and> length p = 40 + unat (from_be [p ! 4, p ! 5] :: u16))"

lemma ip_fields_prefix:
  assumes "20 \<le> length p"
  shows "ip_version (p @ rest) = ip_version p" "(p @ rest) ! 0 = p ! 0"
    "(p @ rest) ! 2 = p ! 2" "(p @ rest) ! 3 = p ! 3"
    "(p @ rest) ! 4 = p ! 4" "(p @ rest) ! 5 = p ! 5"
  using assms by (auto simp: ip_version_def nth_append)

lemma trim_ip_packet_complete:
  assumes "complete_ip_packet p"
  shows "trim_ip_packet (p @ rest) = Ok p"
proof -
  have len: "20 \<le> length p" using assms by (simp add: complete_ip_packet_def)
  then have "p \<noteq> []" by auto
  with assms show ?thesis
    by (auto simp: trim_ip_packet_def complete_ip_packet_def ip_fields_prefix [OF len] Let_def)
qed

lemma trim_ip_packet_prefix:
  assumes "trim_ip_packet q = Ok p"
  shows "complete_ip_packet p" and "\<exists>rest. q = p @ rest"
proof -
  from assms obtain n where n: "n \<le> length q" "p = take n q" and
    cases: "ip_version q = 4 \<and> 20 \<le> length q \<and> 20 \<le> unat (q ! 0 AND 0x0f) * 4 \<and>
        unat (q ! 0 AND 0x0f) * 4 \<le> n \<and> n = unat (from_be [q ! 2, q ! 3] :: u16)
      \<or> ip_version q = 6 \<and> 40 \<le> length q \<and> n = 40 + unat (from_be [q ! 4, q ! 5] :: u16)"
    by (auto simp: trim_ip_packet_def result_simps Let_def split: if_splits)
  then show "\<exists>rest. q = p @ rest"
    by (metis append_take_drop_id)
  have "20 \<le> length p" using n cases by auto
  then have "ip_version q = ip_version p" "q ! 0 = p ! 0" "q ! 2 = p ! 2" "q ! 3 = p ! 3"
    "q ! 4 = p ! 4" "q ! 5 = p ! 5"
    using ip_fields_prefix [of p] \<open>\<exists>rest. q = p @ rest\<close> by metis+
  with n cases show "complete_ip_packet p"
    by (auto simp: complete_ip_packet_def)
qed

lemma complete_ip_packet_version:
  "complete_ip_packet p \<Longrightarrow> p \<noteq> [] \<and> (ip_version p = 4 \<or> ip_version p = 6)"
  by (auto simp: complete_ip_packet_def)

section \<open>Splitting for Segment Routing\<close>

lemma fragment_sr_packet_split:
  assumes "fragment_sr_packet packet mtu fid = Ok (a, b)"
  shows "fragment_ok a" "fragment_ok b" "frag_data a @ frag_data b = packet"
    "frag_id a = fid" "frag_id b = fid" "frag_offset a = 0"
    "unat (frag_offset b) = length (frag_data a)"
    "\<not> end_of_packet a" "end_of_packet b" "length (frag_data a) = mtu"
proof -
  from assms obtain off where m: "mtu \<noteq> 0" "mtu \<le> 2047" "mtu < length packet"
    "length packet \<le> usize_saturating_mul mtu 2" "length packet \<le> 8192"
    and off: "u16_try_from mtu = Some off"
    and a: "a = \<lparr>frag_id = fid, end_of_packet = False, from_in = False, frag_offset = 0,
             frag_data = take mtu packet\<rparr>"
    and b: "b = \<lparr>frag_id = fid, end_of_packet = True, from_in = False, frag_offset = off,
             frag_data = drop mtu packet\<rparr>"
    by (auto simp: fragment_sr_packet_def result_simps split: if_splits)
  have "length packet \<le> mtu * 2"
    using m(4) by (simp add: usize_saturating_mul_def)
  moreover have "unat off = mtu" using u16_try_from_unat [OF off] .
  ultimately show "fragment_ok a" "fragment_ok b" "frag_data a @ frag_data b = packet"
    "frag_id a = fid" "frag_id b = fid" "frag_offset a = 0"
    "unat (frag_offset b) = length (frag_data a)"
    "\<not> end_of_packet a" "end_of_packet b" "length (frag_data a) = mtu"
    using m by (auto simp: a b fragment_ok_def word_le_nat_alt)
qed

lemma fragment_sr_packet_total:
  assumes "0 < mtu" "mtu \<le> 2047" "mtu < length packet" "length packet \<le> 2 * mtu"
  shows "\<exists>a b. fragment_sr_packet packet mtu fid = Ok (a, b)"
proof -
  have "length packet \<le> usize_saturating_mul mtu 2"
    using assms by (simp add: usize_saturating_mul_def)
  with assms show ?thesis
    by (simp add: fragment_sr_packet_def u16_try_from_def)
qed

section \<open>Properties\<close>

text \<open>(fragment codec). In both byte orders a datagram body parses to a fragment exactly
  when it starts with what \<open>Fragment::encode\<close> emits for that fragment: the two directions of
  the codec agree on every accepted input, and anything either direction refuses is refused
  by the other.\<close>

theorem fragment_parse_iff_encode:
  "fragment_parse input endian = Ok f \<longleftrightarrow>
     (\<exists>encoded rest. fragment_encode f endian = Ok encoded \<and> input = encoded @ rest)"
proof
  assume "fragment_parse input endian = Ok f"
  with fragment_parse_sound [OF this]
  show "\<exists>encoded rest. fragment_encode f endian = Ok encoded \<and> input = encoded @ rest"
    using fragment_encode_ok by blast
next
  assume "\<exists>encoded rest. fragment_encode f endian = Ok encoded \<and> input = encoded @ rest"
  then show "fragment_parse input endian = Ok f"
    using fragment_encode_Ok_imp fragment_encode_ok fragment_parse_bytes by force
qed

text \<open>(fragment bounds). A parsed fragment has a payload of 1 to 2047 bytes at an offset of at
  most 8191 that ends within 8192 bytes.\<close>

theorem fragment_parse_bounds:
  assumes "fragment_parse input endian = Ok f"
  shows "1 \<le> length (frag_data f) \<and> length (frag_data f) \<le> 2047 \<and>
    unat (frag_offset f) \<le> 8191 \<and>
    unat (frag_offset f) + length (frag_data f) \<le> MAX_REASSEMBLED_PACKET"
  using fragment_parse_sound(1) [OF assms] by (auto simp: fragment_ok_def word_le_nat_alt Suc_le_eq)

theorem fragment_parse_bounds_witness:
  "\<exists>f. fragment_parse [4, 3, 2, 1, 1, 128, 0, 0, 120] Little = Ok f \<and>
       length (frag_data f) \<le> 2047 \<and> frag_data f = [120]"
proof -
  let ?f = "\<lparr>frag_id = 0x01020304, end_of_packet = True, from_in = False, frag_offset = 0,
             frag_data = [120]\<rparr>"
  have p: "fragment_parse [4, 3, 2, 1, 1, 128, 0, 0, 120] Little = Ok ?f"
    by (simp add: fragment_parse_def slice_of_def end_offset_def usize_checked_add_def
        wire_defs Let_def)
  with fragment_parse_bounds [OF p] show ?thesis by simp
qed

text \<open>(padding removal). \<open>trim_ip_packet\<close> succeeds exactly when its input starts with an
  IPv4 or IPv6 packet whose header length fields are consistent and whose announced length
  is available, and it returns exactly that packet, whatever follows it.\<close>

theorem trim_ip_packet_iff:
  "trim_ip_packet q = Ok p \<longleftrightarrow> complete_ip_packet p \<and> (\<exists>rest. q = p @ rest)"
  using trim_ip_packet_complete trim_ip_packet_prefix by blast

text \<open>(SR splitting). For a payload MTU of 1 to 2047 the splitter accepts exactly the
  packets longer than the MTU and at most twice as long, and its two fragments are
  encodable, carry the same ID, adjoin without gap or overlap, and concatenate to the
  packet, the second one marked as the end.\<close>

theorem fragment_sr_packet_correct:
  assumes "0 < mtu" and "mtu \<le> 2047"
  shows "if mtu < length packet \<and> length packet \<le> 2 * mtu
     then \<exists>a b. fragment_sr_packet packet mtu fid = Ok (a, b) \<and>
       is_ok (encode_sr a) \<and> is_ok (encode_sr b) \<and>
       frag_id a = fid \<and> frag_id b = fid \<and>
       frag_offset a = 0 \<and> unat (frag_offset b) = length (frag_data a) \<and>
       frag_data a @ frag_data b = packet \<and> \<not> end_of_packet a \<and> end_of_packet b
     else fragment_sr_packet packet mtu fid = Err FragmentTooLarge"
proof (cases "mtu < length packet \<and> length packet \<le> 2 * mtu")
  case True
  then obtain a b where ab: "fragment_sr_packet packet mtu fid = Ok (a, b)"
    using fragment_sr_packet_total [of mtu packet fid] assms by blast
  note split = fragment_sr_packet_split [OF ab]
  have "is_ok (encode_sr a)" "is_ok (encode_sr b)"
    using split by (simp_all add: encode_sr_def fragment_encode_ok)
  with True ab split show ?thesis by auto
next
  case False
  then show ?thesis
    using assms by (auto simp: fragment_sr_packet_def usize_saturating_mul_def)
qed

theorem fragment_sr_packet_correct_witness:
  "(0::nat) < 2 \<and>
   (\<exists>a b. fragment_sr_packet [1, 2, 3] 2 9 = Ok (a, b) \<and> frag_data a @ frag_data b = [1, 2, 3])"
  using fragment_sr_packet_correct [of 2 "[1, 2, 3]" 9] by auto

end
