(* ===== verification/Collections.thy ===== *)
theory Collections
  imports Prelude "HOL-Library.AList"
begin

text \<open>
  The collections of the standard library that the program keeps state in. A
  \<open>HashMap\<close> is an association list with distinct keys, in the order of one of its
  iterations: \<open>get\<close> is \<^const>\<open>map_of\<close>, \<open>insert\<close> is \<^const>\<open>AList.update\<close>, \<open>remove\<close> is
  \<^const>\<open>AList.delete\<close>, \<open>retain\<close> is \<^const>\<open>filter\<close> and \<open>len\<close> is \<^const>\<open>length\<close>. Properties
  quantify over the list, hence over the iteration order.
\<close>

abbreviation map_ok :: "('k \<times> 'v) list \<Rightarrow> bool" where
  "map_ok m \<equiv> distinct (map fst m)"

text \<open>\<open>Iterator::min_by_key\<close>: the first element with the least key.\<close>

fun min_by_key :: "('a \<Rightarrow> 'k::linorder) \<Rightarrow> 'a list \<Rightarrow> 'a option" where
  "min_by_key f [] = None"
| "min_by_key f (x # xs) =
     (case min_by_key f xs of None \<Rightarrow> Some x | Some y \<Rightarrow> Some (if f x \<le> f y then x else y))"

lemma min_by_key_eq_None [simp]: "min_by_key f xs = None \<longleftrightarrow> xs = []"
  by (cases xs) (auto split: option.splits)

lemma min_by_key_least:
  "min_by_key f xs = Some x \<Longrightarrow> x \<in> set xs \<and> (\<forall>y \<in> set xs. f x \<le> f y)"
proof (induction xs arbitrary: x)
  case (Cons a xs)
  show ?case
  proof (cases "min_by_key f xs")
    case None
    with Cons.prems show ?thesis by auto
  next
    case (Some y)
    with Cons.IH [OF Some] Cons.prems show ?thesis by (auto split: if_splits)
  qed
qed simp

section \<open>Association lists with distinct keys\<close>

lemma map_ok_filter: "map_ok m \<Longrightarrow> map_ok (filter P m)"
  by (rule distinct_map_filter)

lemma map_ok_update: "map_ok m \<Longrightarrow> map_ok (AList.update k v m)"
  by (rule distinct_update)

lemma map_ok_delete: "map_ok m \<Longrightarrow> map_ok (AList.delete k m)"
  by (rule distinct_delete)

lemmas map_ok_intros = map_ok_filter map_ok_update map_ok_delete

lemma map_of_filter_Some:
  "map_ok m \<Longrightarrow> map_of (filter P m) k = Some v \<longleftrightarrow> map_of m k = Some v \<and> P (k, v)"
  by (auto simp: map_of_eq_Some_iff map_ok_filter)

lemma map_of_filter_case:
  "map_ok m \<Longrightarrow> map_of (filter P m) k =
     (case map_of m k of None \<Rightarrow> None | Some v \<Rightarrow> if P (k, v) then Some v else None)"
proof (induction m)
  case (Cons p m)
  show ?case
  proof (cases "fst p = k")
    case True
    with Cons.prems have "map_of m k = None" by (auto simp: map_of_eq_None_iff)
    with True Cons show ?thesis by (cases p) auto
  next
    case False
    with Cons show ?thesis by (cases p) auto
  qed
qed simp

lemma map_of_delete_neq: "k \<noteq> k' \<Longrightarrow> map_of (AList.delete k m) k' = map_of m k'"
  by (simp add: delete_conv')

lemma map_of_delete_same [simp]: "map_of (AList.delete k m) k = None"
  by (simp add: delete_conv')

lemma set_update_subset: "set (AList.update k v m) \<subseteq> insert (k, v) (set m)"
  by (induction m) auto

lemma set_delete_subset: "set (AList.delete k m) \<subseteq> set m"
  by (induction m) auto

lemma delete_absent: "k \<notin> fst ` set m \<Longrightarrow> AList.delete k m = m"
  by (induction m) auto

lemma update_absent: "map_of m k = None \<Longrightarrow> AList.update k v m = m @ [(k, v)]"
  by (induction m) (auto split: if_splits)

lemma length_update_absent: "map_of m k = None \<Longrightarrow> length (AList.update k v m) = Suc (length m)"
  by (simp add: update_absent)

lemma length_update_present:
  "map_of m k = Some u \<Longrightarrow> length (AList.update k v m) = length m"
  by (induction m) (auto split: if_splits)

lemma length_delete_present:
  "map_ok m \<Longrightarrow> map_of m k = Some v \<Longrightarrow> Suc (length (AList.delete k m)) = length m"
proof (induction m)
  case (Cons p m)
  show ?case
  proof (cases "fst p = k")
    case True
    with Cons.prems have "AList.delete k m = m"
      by (intro delete_absent) auto
    with True show ?thesis by (cases p) simp
  next
    case False
    with Cons show ?thesis by (cases p) auto
  qed
qed simp

lemma delete_update_same: "AList.delete k (AList.update k v m) = AList.delete k m"
  by (induction m) auto

section \<open>Totals over the values of a map\<close>

definition total_over :: "('v \<Rightarrow> nat) \<Rightarrow> ('k \<times> 'v) list \<Rightarrow> nat" where
  "total_over f m = sum_list (map (\<lambda>(k, v). f v) m)"

lemma total_over_simps [simp]:
  "total_over f [] = 0" "total_over f ((k, v) # m) = f v + total_over f m"
  "total_over f (m @ m') = total_over f m + total_over f m'"
  by (simp_all add: total_over_def)

lemma total_over_delete_absent:
  "map_of m k = None \<Longrightarrow> total_over f (AList.delete k m) = total_over f m"
  by (simp add: delete_absent map_of_eq_None_iff)

lemma total_over_delete:
  "map_ok m \<Longrightarrow> map_of m k = Some v \<Longrightarrow>
     total_over f (AList.delete k m) + f v = total_over f m"
proof (induction m)
  case (Cons p m)
  show ?case
  proof (cases "fst p = k")
    case True
    with Cons.prems have "AList.delete k m = m"
      by (intro delete_absent) auto
    with True Cons.prems show ?thesis by (cases p) simp
  next
    case False
    with Cons show ?thesis by (cases p) auto
  qed
qed simp

lemma total_over_update_present:
  "map_ok m \<Longrightarrow> map_of m k = Some u \<Longrightarrow>
     total_over f (AList.update k v m) + f u = total_over f m + f v"
  by (induction m) (auto split: if_splits)

lemma total_over_update_absent:
  "map_of m k = None \<Longrightarrow> total_over f (AList.update k v m) = total_over f m + f v"
  by (simp add: update_absent)

lemma total_over_bound:
  "(\<And>k v. (k, v) \<in> set m \<Longrightarrow> f v \<le> b) \<Longrightarrow> total_over f m \<le> length m * b"
proof (induction m)
  case (Cons p m)
  then have "total_over f m \<le> length m * b" and "f (snd p) \<le> b"
    by (auto, metis prod.collapse)
  then show ?case by (cases p) simp
qed simp

lemma total_over_member: "(k, v) \<in> set m \<Longrightarrow> f v \<le> total_over f m"
  by (induction m) auto

end
