(* ===== verification/Reassembly.thy ===== *)
theory Reassembly
  imports Fragment Collections "HOL-Library.Multiset"
begin

text \<open>
  Fragment reassembly (\<open>src/fragment.rs\<close>): the traditional two-fragment reassembler, which
  pairs fragments by ID and end-of-packet flag within 100 ms, and the Segment Routing
  reassembler, which collects fragments by offset under bounds on groups and bytes. Each
  operation returns its result together with the updated reassembler, errors included.
\<close>

section \<open>Traditional reassembly\<close>

abbreviation (input) TRADITIONAL_TIMEOUT :: duration where "TRADITIONAL_TIMEOUT \<equiv> 100000"
abbreviation (input) TRADITIONAL_MAX_GROUPS :: nat where "TRADITIONAL_MAX_GROUPS \<equiv> 256"
abbreviation (input) SR_TIMEOUT :: duration where "SR_TIMEOUT \<equiv> 2000000"
abbreviation (input) SR_MAX_GROUPS :: nat where "SR_MAX_GROUPS \<equiv> 16"
abbreviation (input) SR_MAX_BUFFERED_BYTES :: nat where "SR_MAX_BUFFERED_BYTES \<equiv> 262144"

record traditional_pending =
  tp_created :: instant
  tp_fragment :: fragment

record traditional_reassembler =
  trad_groups :: "((u8 \<times> u32) \<times> traditional_pending) list"

definition trad_new :: traditional_reassembler where
  "trad_new = \<lparr>trad_groups = []\<rparr>"

definition trad_clear :: "traditional_reassembler \<Rightarrow> traditional_reassembler" where
  "trad_clear r = r\<lparr>trad_groups := []\<rparr>"

definition trad_pending_groups :: "traditional_reassembler \<Rightarrow> nat" where
  "trad_pending_groups r = length (trad_groups r)"

definition trad_fresh :: "instant \<Rightarrow> traditional_pending \<Rightarrow> bool" where
  "trad_fresh now pending =
     (case checked_duration_since now (tp_created pending) of
        None \<Rightarrow> True
      | Some age \<Rightarrow> age \<le> TRADITIONAL_TIMEOUT)"

definition trad_purge_expired ::
  "instant \<Rightarrow> traditional_reassembler \<Rightarrow> traditional_reassembler" where
  "trad_purge_expired now r =
     r\<lparr>trad_groups := filter (\<lambda>(_, pending). trad_fresh now pending) (trad_groups r)\<rparr>"

definition trad_join :: "fragment \<Rightarrow> fragment \<Rightarrow> bytes option result" where
  "trad_join first fragment =
     (let (prefix, suffix) =
        (if end_of_packet first then (fragment, first) else (first, fragment))
      in
      rbind (ok_or FragmentTooLarge
               (usize_checked_add (length (frag_data prefix)) (length (frag_data suffix))))
        (\<lambda>total_length.
           if total_length > MAX_REASSEMBLED_PACKET then Err FragmentTooLarge
           else Ok (Some (frag_data prefix @ frag_data suffix))))"

definition trad_evict :: "traditional_reassembler \<Rightarrow> traditional_reassembler" where
  "trad_evict r =
     (if length (trad_groups r) \<ge> TRADITIONAL_MAX_GROUPS
      then (case min_by_key (\<lambda>(_, pending). tp_created pending) (trad_groups r) of
              None \<Rightarrow> r
            | Some (oldest, _) \<Rightarrow> r\<lparr>trad_groups := AList.delete oldest (trad_groups r)\<rparr>)
      else r)"

definition trad_insert_in_context ::
  "u8 \<Rightarrow> fragment \<Rightarrow> instant \<Rightarrow> traditional_reassembler \<Rightarrow>
     bytes option result \<times> traditional_reassembler" where
  "trad_insert_in_context ctx fragment now r0 =
     (let r = trad_purge_expired now r0 in
      if length (frag_data fragment) > MAX_REASSEMBLED_PACKET then (Err FragmentTooLarge, r)
      else
        let key = (ctx, frag_id fragment);
            entry = \<lparr>tp_created = now, tp_fragment = fragment\<rparr>
        in
        case map_of (trad_groups r) key of
          Some first \<Rightarrow>
            let removed = r\<lparr>trad_groups := AList.delete key (trad_groups r)\<rparr> in
            if end_of_packet (tp_fragment first) = end_of_packet fragment
            then (Ok None,
                  removed\<lparr>trad_groups := AList.update key entry (trad_groups removed)\<rparr>)
            else (trad_join (tp_fragment first) fragment, removed)
        | None \<Rightarrow>
            let evicted = trad_evict r in
            (Ok None, evicted\<lparr>trad_groups := AList.update key entry (trad_groups evicted)\<rparr>))"

definition trad_insert ::
  "fragment \<Rightarrow> instant \<Rightarrow> traditional_reassembler \<Rightarrow>
     bytes option result \<times> traditional_reassembler" where
  "trad_insert fragment now r = trad_insert_in_context 0 fragment now r"

section \<open>Segment Routing reassembly\<close>

record sr_fragment_group =
  grp_created :: instant
  grp_parts :: "fragment list"
  grp_buffered_bytes :: nat

record sr_reassembler =
  sr_groups :: "(u32 \<times> sr_fragment_group) list"
  sr_buffered_bytes :: nat

definition sr_new :: sr_reassembler where
  "sr_new = \<lparr>sr_groups = [], sr_buffered_bytes = 0\<rparr>"

definition sr_clear :: "sr_reassembler \<Rightarrow> sr_reassembler" where
  "sr_clear r = r\<lparr>sr_groups := [], sr_buffered_bytes := 0\<rparr>"

definition sr_pending_groups :: "sr_reassembler \<Rightarrow> nat" where
  "sr_pending_groups r = length (sr_groups r)"

definition sr_remove_group :: "u32 \<Rightarrow> sr_reassembler \<Rightarrow> sr_reassembler" where
  "sr_remove_group gid r =
     (case map_of (sr_groups r) gid of
        None \<Rightarrow> r
      | Some grp \<Rightarrow>
          r\<lparr>sr_groups := AList.delete gid (sr_groups r),
            sr_buffered_bytes := sr_buffered_bytes r - grp_buffered_bytes grp\<rparr>)"

definition sr_group_expired :: "instant \<Rightarrow> sr_fragment_group \<Rightarrow> bool" where
  "sr_group_expired now grp =
     (case checked_duration_since now (grp_created grp) of
        None \<Rightarrow> False
      | Some age \<Rightarrow> age > SR_TIMEOUT)"

definition sr_purge_expired :: "instant \<Rightarrow> sr_reassembler \<Rightarrow> sr_reassembler" where
  "sr_purge_expired now r =
     (let expired = map fst (filter (\<lambda>(_, grp). sr_group_expired now grp) (sr_groups r))
      in fold sr_remove_group expired r)"

definition part_start :: "fragment \<Rightarrow> nat" where
  "part_start part = unat (frag_offset part)"

definition part_end :: "fragment \<Rightarrow> nat" where
  "part_end part = part_start part + length (frag_data part)"

text \<open>The scan for a gapless run of parts up to the first end-of-packet part.\<close>

fun sr_scan :: "nat \<Rightarrow> fragment list \<Rightarrow> nat option result" where
  "sr_scan expected [] = Ok None"
| "sr_scan expected (part # parts) =
     (if part_start part \<noteq> expected then Ok None
      else rbind (end_offset part) (\<lambda>e.
        if end_of_packet part then Ok (Some e) else sr_scan e parts))"

text \<open>The copy loop, which stops once the packet is complete.\<close>

fun sr_copy :: "nat \<Rightarrow> bytes \<Rightarrow> fragment list \<Rightarrow> bytes" where
  "sr_copy total_length packet [] = packet"
| "sr_copy total_length packet (part # parts) =
     (if length packet = total_length then packet
      else sr_copy total_length (packet @ frag_data part) parts)"

definition sr_complete ::
  "u32 \<Rightarrow> sr_fragment_group \<Rightarrow> nat \<Rightarrow> sr_reassembler \<Rightarrow> bytes option result \<times> sr_reassembler" where
  "sr_complete gid grp total_length r =
     (if list_ex (\<lambda>part. part_start part \<ge> total_length) (grp_parts grp)
      then (Err (InvalidFragment ''data follows the EOP fragment''), sr_remove_group gid r)
      else
        let removed = r\<lparr>sr_groups := AList.delete gid (sr_groups r),
                        sr_buffered_bytes := sr_buffered_bytes r - grp_buffered_bytes grp\<rparr>;
            packet = sr_copy total_length [] (grp_parts grp)
        in
        if length packet \<noteq> total_length
        then (Err (InvalidFragment ''fragment coverage changed''), removed)
        else (Ok (Some packet), removed))"

definition overlaps :: "nat \<Rightarrow> nat \<Rightarrow> fragment \<Rightarrow> bool" where
  "overlaps new_start new_end part \<longleftrightarrow> new_start < part_end part \<and> part_start part < new_end"

definition sr_add_part ::
  "fragment \<Rightarrow> instant \<Rightarrow> nat \<Rightarrow> sr_reassembler \<Rightarrow> bytes option result \<times> sr_reassembler" where
  "sr_add_part fragment now new_end r =
     (let gid = frag_id fragment;
          new_start = part_start fragment;
          old = (case map_of (sr_groups r) gid of
                   Some grp \<Rightarrow> grp
                 | None \<Rightarrow> \<lparr>grp_created = now, grp_parts = [], grp_buffered_bytes = 0\<rparr>);
          entered = r\<lparr>sr_groups := AList.update gid old (sr_groups r)\<rparr>
      in
      if list_ex (overlaps new_start new_end) (grp_parts old)
      then (Err (InvalidFragment ''overlapping fragment offsets''), sr_remove_group gid entered)
      else
        let len = length (frag_data fragment);
            grp = old\<lparr>grp_buffered_bytes := grp_buffered_bytes old + len,
                        grp_parts := sort_key part_start (grp_parts old @ [fragment])\<rparr>;
            stored = entered\<lparr>sr_buffered_bytes := sr_buffered_bytes entered + len,
                             sr_groups := AList.update gid grp (sr_groups entered)\<rparr>
        in
        case sr_scan 0 (grp_parts grp) of
          Inl e \<Rightarrow> (Err e, stored)
        | Inr None \<Rightarrow> (Ok None, stored)
        | Inr (Some total_length) \<Rightarrow> sr_complete gid grp total_length stored)"

definition sr_insert ::
  "fragment \<Rightarrow> instant \<Rightarrow> sr_reassembler \<Rightarrow> bytes option result \<times> sr_reassembler" where
  "sr_insert fragment now r0 =
     (let r = sr_purge_expired now r0 in
      case end_offset fragment of
        Inl e \<Rightarrow> (Err e, r)
      | Inr new_end \<Rightarrow>
          if new_end > MAX_REASSEMBLED_PACKET then (Err FragmentTooLarge, r)
          else if (case map_of (sr_groups r) (frag_id fragment) of
                     None \<Rightarrow> False
                   | Some grp \<Rightarrow>
                       list_ex (\<lambda>part. frag_offset part = frag_offset fragment) (grp_parts grp))
          then (Ok None, r)
          else if map_of (sr_groups r) (frag_id fragment) = None
                  \<and> length (sr_groups r) \<ge> SR_MAX_GROUPS
          then (Err FragmentTooLarge, r)
          else if sr_buffered_bytes r + length (frag_data fragment) > SR_MAX_BUFFERED_BYTES
          then (Err FragmentTooLarge, r)
          else sr_add_part fragment now new_end r)"

section \<open>The interface of a bounded reassembler\<close>

text \<open>Feeding a reassembler a sequence of fragments with their arrival times, collecting the
  results.\<close>

fun feed :: "('f \<Rightarrow> instant \<Rightarrow> 's \<Rightarrow> 'r \<times> 's) \<Rightarrow> ('f \<times> instant) list \<Rightarrow> 's \<Rightarrow> 'r list \<times> 's" where
  "feed ins [] s = ([], s)"
| "feed ins ((f, now) # fs) s =
     (let (r, s') = ins f now s; (rs, s'') = feed ins fs s' in (r # rs, s''))"

text \<open>
  What the receive path relies on: an invariant that insertion keeps, a bound on the
  number of pending groups and on the bytes they hold, and a bound on a finished packet.
\<close>

locale bounded_reassembler =
  fixes insert_op :: "fragment \<Rightarrow> instant \<Rightarrow> 's \<Rightarrow> bytes option result \<times> 's"
    and ok :: "'s \<Rightarrow> bool"
    and groups_of :: "'s \<Rightarrow> nat"
    and bytes_of :: "'s \<Rightarrow> nat"
    and max_groups :: nat
    and max_bytes :: nat
  assumes insert_ok: "ok s \<Longrightarrow> ok (snd (insert_op f now s))"
    and packet_bounded:
      "ok s \<Longrightarrow> fst (insert_op f now s) = Ok (Some p) \<Longrightarrow> length p \<le> MAX_REASSEMBLED_PACKET"
    and ok_groups: "ok s \<Longrightarrow> groups_of s \<le> max_groups"
    and ok_bytes: "ok s \<Longrightarrow> bytes_of s \<le> max_bytes"
begin

lemma feed_ok: "ok s \<Longrightarrow> ok (snd (feed insert_op fs s))"
proof (induction fs arbitrary: s)
  case (Cons a fs)
  then show ?case using insert_ok
    by (cases a) (simp add: Let_def split_def)
qed simp

lemma feed_packets_bounded:
  "ok s \<Longrightarrow> Ok (Some p) \<in> set (fst (feed insert_op fs s)) \<Longrightarrow> length p \<le> MAX_REASSEMBLED_PACKET"
proof (induction fs arbitrary: s)
  case (Cons a fs)
  obtain f now where a: "a = (f, now)" by (cases a)
  from Cons.prems consider "fst (insert_op f now s) = Ok (Some p)"
    | "Ok (Some p) \<in> set (fst (feed insert_op fs (snd (insert_op f now s))))"
    by (auto simp: a Let_def split_def)
  then show ?case
    using Cons.IH Cons.prems insert_ok packet_bounded by cases blast+
qed simp

lemma feed_bounded:
  assumes "ok s"
  shows "groups_of (snd (feed insert_op fs s)) \<le> max_groups"
    and "bytes_of (snd (feed insert_op fs s)) \<le> max_bytes"
  using feed_ok [OF assms] ok_groups ok_bytes by blast+

end

section \<open>Invariant of the traditional reassembler\<close>

definition trad_ok :: "traditional_reassembler \<Rightarrow> bool" where
  "trad_ok r \<longleftrightarrow> map_ok (trad_groups r) \<and> length (trad_groups r) \<le> TRADITIONAL_MAX_GROUPS \<and>
     (\<forall>(k, pending) \<in> set (trad_groups r).
        snd k = frag_id (tp_fragment pending) \<and>
        length (frag_data (tp_fragment pending)) \<le> MAX_REASSEMBLED_PACKET)"

definition trad_buffered :: "traditional_reassembler \<Rightarrow> nat" where
  "trad_buffered r = total_over (\<lambda>pending. length (frag_data (tp_fragment pending))) (trad_groups r)"

lemma trad_okD:
  assumes "trad_ok r" "map_of (trad_groups r) k = Some pending"
  shows "snd k = frag_id (tp_fragment pending)"
    "length (frag_data (tp_fragment pending)) \<le> MAX_REASSEMBLED_PACKET"
  using assms map_of_SomeD by (fastforce simp: trad_ok_def)+

lemma trad_ok_new: "trad_ok trad_new" "trad_ok (trad_clear r)"
  by (simp_all add: trad_ok_def trad_new_def trad_clear_def)

lemma trad_ok_purge: "trad_ok r \<Longrightarrow> trad_ok (trad_purge_expired now r)"
  by (auto simp: trad_ok_def trad_purge_expired_def intro: map_ok_filter order.trans [OF length_filter_le])

lemma trad_ok_delete:
  "trad_ok r \<Longrightarrow> trad_ok (r\<lparr>trad_groups := AList.delete k (trad_groups r)\<rparr>)"
  using set_delete_subset [of k "trad_groups r"]
  by (auto simp: trad_ok_def map_ok_delete intro: order.trans [OF length_delete_le])

lemma trad_ok_evict: "trad_ok r \<Longrightarrow> trad_ok (trad_evict r)"
  by (auto simp: trad_evict_def trad_ok_delete split: option.splits)

lemma trad_evict_room:
  assumes "trad_ok r"
  shows "length (trad_groups (trad_evict r)) < TRADITIONAL_MAX_GROUPS"
proof (cases "length (trad_groups r) < TRADITIONAL_MAX_GROUPS")
  case False
  then obtain k pending where
    m: "min_by_key (\<lambda>(_, pending). tp_created pending) (trad_groups r) = Some (k, pending)"
    by (cases "min_by_key (\<lambda>(_, pending). tp_created pending) (trad_groups r)") auto
  with assms have "map_of (trad_groups r) k = Some pending"
    using min_by_key_least by (fastforce simp: trad_ok_def intro: map_of_is_SomeI)
  then have "Suc (length (AList.delete k (trad_groups r))) = length (trad_groups r)"
    using assms by (intro length_delete_present) (auto simp: trad_ok_def)
  with assms False m show ?thesis by (simp add: trad_evict_def trad_ok_def)
qed (simp add: trad_evict_def)

lemma trad_ok_enter:
  assumes "trad_ok r" "length (trad_groups r) < TRADITIONAL_MAX_GROUPS"
    and "snd k = frag_id f" "length (frag_data f) \<le> MAX_REASSEMBLED_PACKET"
  shows "trad_ok (r\<lparr>trad_groups := AList.update k \<lparr>tp_created = now, tp_fragment = f\<rparr> (trad_groups r)\<rparr>)"
proof -
  let ?g = "AList.update k \<lparr>tp_created = now, tp_fragment = f\<rparr> (trad_groups r)"
  have "length ?g \<le> TRADITIONAL_MAX_GROUPS"
    using assms(2) by (cases "map_of (trad_groups r) k")
      (auto simp: length_update_absent length_update_present)
  then show ?thesis
    using assms set_update_subset [of k "\<lparr>tp_created = now, tp_fragment = f\<rparr>" "trad_groups r"]
    by (auto simp: trad_ok_def map_ok_update)
qed

lemma trad_delete_room:
  assumes "trad_ok r" "map_of (trad_groups r) k = Some pending"
  shows "length (AList.delete k (trad_groups r)) < TRADITIONAL_MAX_GROUPS"
  using assms length_delete_present [of "trad_groups r" k pending] by (simp add: trad_ok_def)

lemma trad_ok_insert:
  assumes "trad_ok r"
  shows "trad_ok (snd (trad_insert_in_context ctx f now r))"
proof -
  let ?p = "trad_purge_expired now r"
  have p: "trad_ok ?p" using assms by (rule trad_ok_purge)
  show ?thesis
  proof (cases "map_of (trad_groups ?p) (ctx, frag_id f)")
    case None
    then show ?thesis
      using trad_ok_enter [OF trad_ok_evict [OF p] trad_evict_room [OF p]] p
      by (simp add: trad_insert_in_context_def Let_def)
  next
    case (Some first)
    then show ?thesis
      using trad_ok_enter [OF trad_ok_delete [OF p]] trad_ok_delete [OF p] trad_delete_room [OF p Some] p
      by (simp add: trad_insert_in_context_def Let_def)
  qed
qed

lemma trad_join_bounded:
  "trad_join a b = Ok (Some p) \<Longrightarrow> length p \<le> MAX_REASSEMBLED_PACKET"
  by (auto simp: trad_join_def usize_checked_add_def result_simps Let_def split: if_splits)

lemma trad_buffered_bound: "trad_ok r \<Longrightarrow> trad_buffered r \<le> 256 * MAX_REASSEMBLED_PACKET"
  unfolding trad_buffered_def trad_ok_def
  by (rule order.trans [OF total_over_bound]) auto

interpretation trad: bounded_reassembler "trad_insert_in_context ctx" trad_ok trad_pending_groups
  trad_buffered TRADITIONAL_MAX_GROUPS "256 * MAX_REASSEMBLED_PACKET"
proof
  show "trad_ok s \<Longrightarrow> trad_ok (snd (trad_insert_in_context ctx f now s))" for s f now
    by (rule trad_ok_insert)
  show "length p \<le> MAX_REASSEMBLED_PACKET"
    if "fst (trad_insert_in_context ctx f now s) = Ok (Some p)" for s f now p
    using that trad_join_bounded
    by (auto simp: trad_insert_in_context_def Let_def split: if_splits option.splits)
  show "trad_pending_groups s \<le> TRADITIONAL_MAX_GROUPS" if "trad_ok s" for s
    using that by (simp add: trad_ok_def trad_pending_groups_def)
  show "trad_buffered s \<le> 256 * MAX_REASSEMBLED_PACKET" if "trad_ok s" for s
    using that by (rule trad_buffered_bound)
qed

section \<open>Invariant of the Segment Routing reassembler\<close>

definition parts_bytes :: "fragment list \<Rightarrow> nat" where
  "parts_bytes parts = sum_list (map (\<lambda>p. length (frag_data p)) parts)"

text \<open>A group holds at least one part; its parts are ordered, disjoint, within the packet limit
  and of its own ID, and its byte count is theirs.\<close>

definition group_ok :: "u32 \<Rightarrow> sr_fragment_group \<Rightarrow> bool" where
  "group_ok gid grp \<longleftrightarrow>
     grp_parts grp \<noteq> [] \<and>
     grp_buffered_bytes grp = parts_bytes (grp_parts grp) \<and>
     sorted_wrt (\<lambda>p q. part_end p \<le> part_start q) (grp_parts grp) \<and>
     distinct (map part_start (grp_parts grp)) \<and>
     (\<forall>p \<in> set (grp_parts grp). frag_id p = gid \<and> part_end p \<le> MAX_REASSEMBLED_PACKET)"

definition sr_ok :: "sr_reassembler \<Rightarrow> bool" where
  "sr_ok r \<longleftrightarrow> map_ok (sr_groups r) \<and> length (sr_groups r) \<le> SR_MAX_GROUPS \<and>
     sr_buffered_bytes r = total_over grp_buffered_bytes (sr_groups r) \<and>
     (\<forall>(gid, grp) \<in> set (sr_groups r). group_ok gid grp)"

lemma sr_okD: "sr_ok r \<Longrightarrow> map_of (sr_groups r) gid = Some grp \<Longrightarrow> group_ok gid grp"
  using map_of_SomeD by (fastforce simp: sr_ok_def)

lemma sr_ok_new: "sr_ok sr_new" "sr_ok (sr_clear r)"
  by (simp_all add: sr_ok_def sr_new_def sr_clear_def)

lemma part_start_le_end: "part_start p \<le> part_end p"
  by (simp add: part_end_def)

lemma parts_bytes_bound_from:
  assumes "sorted_wrt (\<lambda>p q. part_end p \<le> part_start q) ps" "lo \<le> hi"
    and "\<forall>p \<in> set ps. lo \<le> part_start p \<and> part_end p \<le> hi"
  shows "lo + parts_bytes ps \<le> hi"
  using assms
proof (induction ps arbitrary: lo)
  case (Cons p ps)
  then have "part_end p + parts_bytes ps \<le> hi" by (intro Cons.IH) auto
  with Cons.prems show ?case by (simp add: parts_bytes_def part_end_def)
qed (simp add: parts_bytes_def)

lemma group_bytes_bound:
  "group_ok gid grp \<Longrightarrow> grp_buffered_bytes grp \<le> MAX_REASSEMBLED_PACKET"
  using parts_bytes_bound_from [of "grp_parts grp" 0 MAX_REASSEMBLED_PACKET]
  by (simp add: group_ok_def)

lemma sr_bytes_bound: "sr_ok r \<Longrightarrow> sr_buffered_bytes r \<le> 16 * MAX_REASSEMBLED_PACKET"
  using total_over_bound [of "sr_groups r" grp_buffered_bytes MAX_REASSEMBLED_PACKET] group_bytes_bound
  by (fastforce simp: sr_ok_def)

subsection \<open>Removal and expiry\<close>

lemma sr_groups_remove [simp]:
  "sr_groups (sr_remove_group gid r) = AList.delete gid (sr_groups r)"
  by (auto simp: sr_remove_group_def delete_absent map_of_eq_None_iff split: option.splits)

lemma sr_ok_remove:
  assumes "sr_ok r"
  shows "sr_ok (sr_remove_group gid r)"
proof (cases "map_of (sr_groups r) gid")
  case None
  then show ?thesis using assms by (simp add: sr_remove_group_def)
next
  case (Some grp)
  with assms show ?thesis
    using total_over_delete [of "sr_groups r" gid grp grp_buffered_bytes]
      set_delete_subset [of gid "sr_groups r"]
    by (auto simp: sr_ok_def sr_remove_group_def map_ok_delete
        intro: order.trans [OF length_delete_le])
qed

lemma sr_ok_remove_all: "sr_ok r \<Longrightarrow> sr_ok (fold sr_remove_group ids r)"
  by (induction ids arbitrary: r) (auto simp: sr_ok_remove)

lemma sr_ok_purge: "sr_ok r \<Longrightarrow> sr_ok (sr_purge_expired now r)"
  by (simp add: sr_purge_expired_def Let_def sr_ok_remove_all)

lemma map_of_remove_all:
  "map_of (sr_groups (fold sr_remove_group ids r)) gid =
     (if gid \<in> set ids then None else map_of (sr_groups r) gid)"
  by (induction ids arbitrary: r) (auto simp: delete_conv')

lemma map_of_purge:
  assumes "sr_ok r"
  shows "map_of (sr_groups (sr_purge_expired now r)) gid =
    (case map_of (sr_groups r) gid of
       None \<Rightarrow> None
     | Some grp \<Rightarrow> if sr_group_expired now grp then None else Some grp)"
proof -
  have "gid \<in> fst ` {x \<in> set (sr_groups r). case x of (_, grp) \<Rightarrow> sr_group_expired now grp} \<longleftrightarrow>
      (\<exists>grp. map_of (sr_groups r) gid = Some grp \<and> sr_group_expired now grp)"
    using assms by (force simp: sr_ok_def map_of_eq_Some_iff)
  then show ?thesis
    by (auto simp: sr_purge_expired_def Let_def map_of_remove_all split: option.splits)
qed

subsection \<open>Insertion\<close>

lemma sorted_wrt_of_key:
  fixes key :: "'a \<Rightarrow> 'k::linorder"
  assumes "sorted (map key xs)" "distinct (map key xs)"
    and "\<And>p q. p \<in> set xs \<Longrightarrow> q \<in> set xs \<Longrightarrow> key p < key q \<Longrightarrow> R p q"
  shows "sorted_wrt R xs"
proof -
  have "sorted_wrt (\<lambda>p q. key p < key q) xs"
    using strict_sorted_iff [of "map key xs"] assms(1,2) by (simp only: sorted_wrt_map)
  then show ?thesis
    by (rule sorted_wrt_mono_rel [rotated]) (use assms(3) in blast)
qed

lemma sorted_wrt_pair:
  assumes "sorted_wrt (\<lambda>p q. part_end p \<le> part_start q) xs"
    and "p \<in> set xs" "q \<in> set xs" "part_start p < part_start q"
  shows "part_end p \<le> part_start q"
  using assms
  by (induction xs) (auto dest: order.trans [OF part_start_le_end] leD)

lemma parts_bytes_mset: "mset xs = mset ys \<Longrightarrow> parts_bytes xs = parts_bytes ys"
  by (metis parts_bytes_def mset_map sum_mset_sum_list)

lemma group_ok_add:
  assumes old: "grp_parts old = [] \<and> grp_buffered_bytes old = 0 \<or> group_ok (frag_id f) old"
    and fresh: "part_start f \<notin> part_start ` set (grp_parts old)"
    and disjoint: "\<not> list_ex (overlaps (part_start f) (part_end f)) (grp_parts old)"
    and size: "part_end f \<le> MAX_REASSEMBLED_PACKET"
  shows "group_ok (frag_id f)
    (old\<lparr>grp_buffered_bytes := grp_buffered_bytes old + length (frag_data f),
         grp_parts := sort_key part_start (grp_parts old @ [f])\<rparr>)"
proof -
  let ?ps = "sort_key part_start (grp_parts old @ [f])"
  have set: "set ?ps = insert f (set (grp_parts old))" by simp
  have bytes: "parts_bytes ?ps = parts_bytes (grp_parts old) + length (frag_data f)"
    using parts_bytes_mset [of ?ps "grp_parts old @ [f]"] by (simp add: parts_bytes_def)
  have dist: "distinct (map part_start ?ps)"
  proof -
    have "mset (map part_start ?ps) = mset (map part_start (grp_parts old @ [f]))"
      by (metis mset_map mset_sort)
    moreover have "distinct (map part_start (grp_parts old @ [f]))"
      using old fresh by (auto simp: group_ok_def)
    ultimately show ?thesis by (metis mset_eq_imp_distinct_iff)
  qed
  have "sorted_wrt (\<lambda>p q. part_end p \<le> part_start q) ?ps"
  proof (rule sorted_wrt_of_key [OF sorted_sort_key dist])
    fix p q
    assume "p \<in> set ?ps" "q \<in> set ?ps" and less: "part_start p < part_start q"
    then consider "p \<in> set (grp_parts old)" "q \<in> set (grp_parts old)"
      | "p = f" "q \<in> set (grp_parts old)" | "q = f" "p \<in> set (grp_parts old)"
      using set by fastforce
    then show "part_end p \<le> part_start q"
    proof cases
      case 1
      then show ?thesis using old less sorted_wrt_pair by (auto simp: group_ok_def)
    next
      case 2
      then show ?thesis using disjoint less part_start_le_end [of q]
        by (fastforce simp: list_ex_iff overlaps_def)
    next
      case 3
      then show ?thesis using disjoint less part_start_le_end [of f]
        by (fastforce simp: list_ex_iff overlaps_def)
    qed
  qed
  moreover have "?ps \<noteq> []" using set by fastforce
  ultimately show ?thesis
    using old size bytes dist by (auto simp: group_ok_def parts_bytes_def)
qed

subsection \<open>Completion\<close>

fun contiguous :: "nat \<Rightarrow> fragment list \<Rightarrow> bool" where
  "contiguous e [] = True"
| "contiguous e (p # ps) = (part_start p = e \<and> contiguous (part_end p) ps)"

text \<open>A list of parts that forms one whole packet: gapless from offset 0, with the last part
  and no other marked as the end.\<close>

definition whole_packet :: "fragment list \<Rightarrow> bool" where
  "whole_packet parts \<longleftrightarrow> parts \<noteq> [] \<and> contiguous 0 parts \<and> end_of_packet (last parts) \<and>
     (\<forall>p \<in> set (butlast parts). \<not> end_of_packet p)"

abbreviation parts_data :: "fragment list \<Rightarrow> bytes" where
  "parts_data parts \<equiv> concat (map frag_data parts)"

lemma end_offset_eq: "part_end p < 2 ^ 64 \<Longrightarrow> end_offset p = Ok (part_end p)"
  by (simp add: end_offset_def usize_checked_add_def part_end_def part_start_def)

lemma end_offset_OkD: "end_offset p = Ok e \<Longrightarrow> e = part_end p"
  by (auto simp: end_offset_def usize_checked_add_def part_end_def part_start_def result_simps
      split: if_splits)

lemma sr_scan_ok: "\<forall>p \<in> set ps. part_end p < 2 ^ 64 \<Longrightarrow> is_ok (sr_scan e ps)"
  by (induction ps arbitrary: e) (auto simp: end_offset_eq)

lemma sr_scan_SomeD:
  assumes "sr_scan e ps = Ok (Some t)"
    and "sorted_wrt (\<lambda>p q. part_end p \<le> part_start q) ps" "\<forall>p \<in> set ps. part_start p < t"
  shows "ps \<noteq> [] \<and> contiguous e ps \<and> end_of_packet (last ps) \<and>
    (\<forall>p \<in> set (butlast ps). \<not> end_of_packet p) \<and> t = e + parts_bytes ps"
  using assms
proof (induction ps arbitrary: e)
  case (Cons p ps)
  from Cons.prems(1) have start: "part_start p = e" and e: "end_offset p = Ok (part_end p)"
    using end_offset_OkD by (auto simp: result_simps split: if_splits)
  show ?case
  proof (cases "end_of_packet p")
    case True
    with Cons.prems(1) start e have t: "t = part_end p" by simp
    have "ps = []"
    proof (rule ccontr)
      assume "ps \<noteq> []"
      then have "hd ps \<in> set ps" by simp
      with Cons.prems(2,3) t show False by fastforce
    qed
    with True start t show ?thesis by (simp add: parts_bytes_def part_end_def)
  next
    case False
    with Cons.prems start e have "sr_scan (part_end p) ps = Ok (Some t)" by simp
    then have "ps \<noteq> [] \<and> contiguous (part_end p) ps \<and> end_of_packet (last ps) \<and>
        (\<forall>p \<in> set (butlast ps). \<not> end_of_packet p) \<and> t = part_end p + parts_bytes ps"
      using Cons.prems by (intro Cons.IH) auto
    with False start show ?thesis by (auto simp: parts_bytes_def part_end_def)
  qed
qed simp

lemma sr_scan_whole:
  assumes "contiguous e ps" "ps \<noteq> []" "end_of_packet (last ps)"
    and "\<forall>p \<in> set (butlast ps). \<not> end_of_packet p" "\<forall>p \<in> set ps. part_end p < 2 ^ 64"
  shows "sr_scan e ps = Ok (Some (e + parts_bytes ps))"
  using assms
proof (induction ps arbitrary: e)
  case (Cons p ps)
  then show ?case
    by (cases "ps = []") (auto simp: end_offset_eq parts_bytes_def part_end_def)
qed simp

lemma sr_copy_contiguous:
  assumes "contiguous (length packet) ps" "\<forall>p \<in> set ps. part_start p < t"
  shows "sr_copy t packet ps = packet @ parts_data ps"
  using assms
proof (induction ps arbitrary: packet)
  case (Cons p ps)
  then have "sr_copy t (packet @ frag_data p) ps = (packet @ frag_data p) @ parts_data ps"
    by (intro Cons.IH) (auto simp: part_end_def)
  with Cons.prems show ?case by auto
qed simp

lemma length_parts_data: "length (parts_data ps) = parts_bytes ps"
  by (simp add: length_concat parts_bytes_def comp_def)

lemma sr_complete_outcome:
  assumes ok: "group_ok gid grp" and scan: "sr_scan 0 (grp_parts grp) = Ok (Some t)"
  shows "sr_complete gid grp t r =
    (if \<exists>p \<in> set (grp_parts grp). part_start p \<ge> t
     then (Err (InvalidFragment ''data follows the EOP fragment''), sr_remove_group gid r)
     else (Ok (Some (parts_data (grp_parts grp))),
           r\<lparr>sr_groups := AList.delete gid (sr_groups r),
             sr_buffered_bytes := sr_buffered_bytes r - grp_buffered_bytes grp\<rparr>))"
    and "\<forall>p \<in> set (grp_parts grp). part_start p < t \<Longrightarrow> whole_packet (grp_parts grp)"
proof -
  have facts: "whole_packet (grp_parts grp)" "sr_copy t [] (grp_parts grp) = parts_data (grp_parts grp)"
    "length (parts_data (grp_parts grp)) = t"
    if below: "\<forall>p \<in> set (grp_parts grp). part_start p < t"
    using sr_scan_SomeD [OF scan _ below] sr_copy_contiguous [of "[]" "grp_parts grp" t] ok below
    by (auto simp: whole_packet_def group_ok_def length_parts_data)
  then show "\<forall>p \<in> set (grp_parts grp). part_start p < t \<Longrightarrow> whole_packet (grp_parts grp)" by blast
  show "sr_complete gid grp t r =
    (if \<exists>p \<in> set (grp_parts grp). part_start p \<ge> t
     then (Err (InvalidFragment ''data follows the EOP fragment''), sr_remove_group gid r)
     else (Ok (Some (parts_data (grp_parts grp))),
           r\<lparr>sr_groups := AList.delete gid (sr_groups r),
             sr_buffered_bytes := sr_buffered_bytes r - grp_buffered_bytes grp\<rparr>))"
  proof (cases "\<exists>p \<in> set (grp_parts grp). part_start p \<ge> t")
    case True
    then show ?thesis by (simp add: sr_complete_def list_ex_iff)
  next
    case False
    then have "\<forall>p \<in> set (grp_parts grp). part_start p < t" by auto
    from facts [OF this] False show ?thesis by (simp add: sr_complete_def list_ex_iff Let_def)
  qed
qed

subsection \<open>Adding a part\<close>

text \<open>The group a fragment joins, and the group once it has joined.\<close>

definition sr_old_group :: "fragment \<Rightarrow> instant \<Rightarrow> sr_reassembler \<Rightarrow> sr_fragment_group" where
  "sr_old_group f now r =
     (case map_of (sr_groups r) (frag_id f) of
        Some grp \<Rightarrow> grp
      | None \<Rightarrow> \<lparr>grp_created = now, grp_parts = [], grp_buffered_bytes = 0\<rparr>)"

definition sr_new_group :: "fragment \<Rightarrow> sr_fragment_group \<Rightarrow> sr_fragment_group" where
  "sr_new_group f old =
     old\<lparr>grp_buffered_bytes := grp_buffered_bytes old + length (frag_data f),
         grp_parts := sort_key part_start (grp_parts old @ [f])\<rparr>"

definition sr_stored :: "fragment \<Rightarrow> instant \<Rightarrow> sr_reassembler \<Rightarrow> sr_reassembler" where
  "sr_stored f now r =
     r\<lparr>sr_buffered_bytes := sr_buffered_bytes r + length (frag_data f),
       sr_groups := AList.update (frag_id f) (sr_new_group f (sr_old_group f now r)) (sr_groups r)\<rparr>"

lemma update_twice [simp]: "AList.update k v (AList.update k u m) = AList.update k v m"
  by (induction m) auto

lemma sr_add_part_eq:
  "sr_add_part f now new_end r =
     (let old = sr_old_group f now r; grp = sr_new_group f old in
      if list_ex (overlaps (part_start f) new_end) (grp_parts old)
      then (Err (InvalidFragment ''overlapping fragment offsets''),
            sr_remove_group (frag_id f) (r\<lparr>sr_groups := AList.update (frag_id f) old (sr_groups r)\<rparr>))
      else case sr_scan 0 (grp_parts grp) of
             Inl e \<Rightarrow> (Err e, sr_stored f now r)
           | Inr None \<Rightarrow> (Ok None, sr_stored f now r)
           | Inr (Some t) \<Rightarrow> sr_complete (frag_id f) grp t (sr_stored f now r))"
  unfolding sr_add_part_def Let_def sr_old_group_def [symmetric]
  by (simp add: sr_new_group_def sr_stored_def split: sum.split option.split)

text \<open>The conditions under which \<open>insert\<close> reaches the group.\<close>

definition sr_admits :: "fragment \<Rightarrow> instant \<Rightarrow> sr_reassembler \<Rightarrow> bool" where
  "sr_admits f now r \<longleftrightarrow>
     part_end f \<le> MAX_REASSEMBLED_PACKET \<and>
     part_start f \<notin> part_start ` set (grp_parts (sr_old_group f now r)) \<and>
     (map_of (sr_groups r) (frag_id f) = None \<longrightarrow> length (sr_groups r) < SR_MAX_GROUPS)"

lemma sr_old_group_cases:
  assumes "sr_ok r"
  shows "grp_parts (sr_old_group f now r) = [] \<and> grp_buffered_bytes (sr_old_group f now r) = 0
     \<or> group_ok (frag_id f) (sr_old_group f now r)"
  using sr_okD [OF assms] by (auto simp: sr_old_group_def split: option.splits)

lemma sr_new_group_ok:
  assumes "sr_ok r" "sr_admits f now r"
    and "\<not> list_ex (overlaps (part_start f) (part_end f)) (grp_parts (sr_old_group f now r))"
  shows "group_ok (frag_id f) (sr_new_group f (sr_old_group f now r))"
  using group_ok_add [OF sr_old_group_cases [OF assms(1)]] assms(2,3)
  by (simp add: sr_admits_def sr_new_group_def)

lemma total_over_enter:
  assumes "sr_ok r"
  shows "total_over grp_buffered_bytes (AList.update (frag_id f) grp (sr_groups r)) +
      grp_buffered_bytes (sr_old_group f now r) =
    total_over grp_buffered_bytes (sr_groups r) + grp_buffered_bytes grp"
proof (cases "map_of (sr_groups r) (frag_id f)")
  case None
  then show ?thesis by (simp add: sr_old_group_def total_over_update_absent)
next
  case (Some old)
  then show ?thesis
    using assms total_over_update_present [of "sr_groups r" "frag_id f" old grp_buffered_bytes grp]
    by (simp add: sr_old_group_def sr_ok_def)
qed

lemma sr_ok_stored:
  assumes "sr_ok r" "sr_admits f now r"
    and "group_ok (frag_id f) (sr_new_group f (sr_old_group f now r))"
  shows "sr_ok (sr_stored f now r)"
proof -
  let ?g = "sr_new_group f (sr_old_group f now r)"
  let ?m = "AList.update (frag_id f) ?g (sr_groups r)"
  have "length ?m \<le> SR_MAX_GROUPS"
    using assms(1,2) by (cases "map_of (sr_groups r) (frag_id f)")
      (auto simp: sr_ok_def sr_admits_def length_update_absent length_update_present)
  moreover have "total_over grp_buffered_bytes ?m = sr_buffered_bytes r + length (frag_data f)"
    using total_over_enter [OF assms(1), of f ?g now] assms(1)
    by (simp add: sr_ok_def sr_new_group_def)
  ultimately show ?thesis
    using assms set_update_subset [of "frag_id f" ?g "sr_groups r"]
    by (auto simp: sr_ok_def sr_stored_def map_ok_update)
qed

lemma map_of_stored:
  "map_of (sr_groups (sr_stored f now r)) gid =
     (if gid = frag_id f then Some (sr_new_group f (sr_old_group f now r))
      else map_of (sr_groups r) gid)"
  by (simp add: sr_stored_def update_conv')

subsection \<open>The whole insertion\<close>

text \<open>Under the invariant the byte limit never decides: what \<open>insert\<close> does is determined by the
  packet limit, the duplicate check and the group limit alone.\<close>

lemma sr_insert_eq:
  fixes now :: instant
  assumes "sr_ok r0"
  defines "r \<equiv> sr_purge_expired now r0"
  shows "sr_insert f now r0 =
    (if part_end f > MAX_REASSEMBLED_PACKET then (Err FragmentTooLarge, r)
     else if part_start f \<in> part_start ` set (grp_parts (sr_old_group f now r)) then (Ok None, r)
     else if map_of (sr_groups r) (frag_id f) = None \<and> length (sr_groups r) \<ge> SR_MAX_GROUPS
     then (Err FragmentTooLarge, r)
     else sr_add_part f now (part_end f) r)"
proof (cases "part_end f > MAX_REASSEMBLED_PACKET")
  case True
  then show ?thesis
    by (simp add: sr_insert_def end_offset_def usize_checked_add_def part_end_def part_start_def
        r_def)
next
  case False
  have ok: "sr_ok r" using assms(1) unfolding r_def by (rule sr_ok_purge)
  have e: "end_offset f = Ok (part_end f)" using False by (intro end_offset_eq) simp
  have "length (frag_data f) \<le> MAX_REASSEMBLED_PACKET"
    using False by (simp add: part_end_def)
  then have room: "\<not> SR_MAX_BUFFERED_BYTES < sr_buffered_bytes r + length (frag_data f)"
    using sr_bytes_bound [OF ok] by simp
  have dup: "(case map_of (sr_groups r) (frag_id f) of
        None \<Rightarrow> False
      | Some grp \<Rightarrow> list_ex (\<lambda>part. frag_offset part = frag_offset f) (grp_parts grp)) \<longleftrightarrow>
      part_start f \<in> part_start ` set (grp_parts (sr_old_group f now r))"
    by (auto simp: sr_old_group_def part_start_def list_ex_iff image_iff word_unat_eq_iff
        split: option.splits) metis
  show ?thesis
    using False room by (simp add: sr_insert_def r_def [symmetric] e dup)
qed

lemma sr_remove_entered:
  assumes "sr_ok r"
  shows "sr_remove_group (frag_id f)
      (r\<lparr>sr_groups := AList.update (frag_id f) (sr_old_group f now r) (sr_groups r)\<rparr>) =
    sr_remove_group (frag_id f) r"
proof (cases "map_of (sr_groups r) (frag_id f)")
  case None
  then have "AList.delete (frag_id f) (sr_groups r) = sr_groups r"
    by (simp add: delete_absent map_of_eq_None_iff)
  with None show ?thesis
    by (simp add: sr_remove_group_def sr_old_group_def update_conv' delete_update_same)
next
  case (Some grp)
  then show ?thesis
    by (simp add: sr_remove_group_def sr_old_group_def update_conv' delete_update_same)
qed

text \<open>Adding a part has four outcomes: an overlap or bytes behind the end drop the group, an
  incomplete group is stored, and a complete one is delivered and removed.\<close>

lemma sr_add_part_cases:
  fixes f :: fragment and now :: instant
  assumes ok: "sr_ok r" and adm: "sr_admits f now r"
  defines "grp \<equiv> sr_new_group f (sr_old_group f now r)"
  obtains (overlap) e where
      "sr_add_part f now (part_end f) r = (Err e, sr_remove_group (frag_id f) r)"
    | (incomplete) "sr_add_part f now (part_end f) r = (Ok None, sr_stored f now r)"
      "sr_ok (sr_stored f now r)" "sr_scan 0 (grp_parts grp) = Ok None"
    | (trailing) e where
      "sr_add_part f now (part_end f) r = (Err e, sr_remove_group (frag_id f) (sr_stored f now r))"
      "sr_ok (sr_stored f now r)"
    | (complete) "sr_add_part f now (part_end f) r =
        (Ok (Some (parts_data (grp_parts grp))), sr_remove_group (frag_id f) (sr_stored f now r))"
      "sr_ok (sr_stored f now r)" "whole_packet (grp_parts grp)" "group_ok (frag_id f) grp"
proof (cases "list_ex (overlaps (part_start f) (part_end f)) (grp_parts (sr_old_group f now r))")
  case True
  then show thesis
    using overlap sr_remove_entered [OF ok] by (simp add: sr_add_part_eq Let_def)
next
  case False
  have g: "group_ok (frag_id f) grp"
    unfolding grp_def using sr_new_group_ok [OF ok adm False] .
  have st: "sr_ok (sr_stored f now r)"
    using sr_ok_stored [OF ok adm] g by (simp add: grp_def)
  have rm: "sr_remove_group (frag_id f) (sr_stored f now r) =
      (sr_stored f now r)\<lparr>sr_groups := AList.delete (frag_id f) (sr_groups (sr_stored f now r)),
         sr_buffered_bytes := sr_buffered_bytes (sr_stored f now r) - grp_buffered_bytes grp\<rparr>"
    by (simp add: sr_remove_group_def map_of_stored grp_def)
  have "is_ok (sr_scan 0 (grp_parts grp))"
    using g by (intro sr_scan_ok) (auto simp: group_ok_def)
  then consider "sr_scan 0 (grp_parts grp) = Ok None" |
    t where "sr_scan 0 (grp_parts grp) = Ok (Some t)"
    by (cases "sr_scan 0 (grp_parts grp)") (auto simp: is_ok_def)
  then show thesis
  proof cases
    case 1
    then show thesis
      using incomplete False st by (simp add: sr_add_part_eq Let_def grp_def)
  next
    case (2 t)
    note c = sr_complete_outcome [OF g 2]
    show thesis
    proof (cases "\<exists>p \<in> set (grp_parts grp). t \<le> part_start p")
      case True
      then show thesis
        using trailing False st 2 c(1) by (simp add: sr_add_part_eq Let_def grp_def)
    next
      case below: False
      then have "whole_packet (grp_parts grp)" using c(2) by force
      then show thesis
        using complete False st 2 c(1) below g rm by (simp add: sr_add_part_eq Let_def grp_def)
    qed
  qed
qed

lemma sr_ok_insert:
  assumes "sr_ok r"
  shows "sr_ok (snd (sr_insert f now r))"
proof -
  let ?p = "sr_purge_expired now r"
  have p: "sr_ok ?p" using assms by (rule sr_ok_purge)
  show ?thesis
  proof (cases "sr_admits f now ?p")
    case True
    then have ins: "sr_insert f now r = sr_add_part f now (part_end f) ?p"
      using sr_insert_eq [OF assms, of f now] by (auto simp: sr_admits_def)
    from p True show ?thesis
      using p sr_ok_remove by (cases rule: sr_add_part_cases) (simp_all add: ins)
  next
    case False
    then show ?thesis
      using sr_insert_eq [OF assms, of f now] p by (auto simp: sr_admits_def)
  qed
qed

lemma sr_insert_SomeD:
  fixes f :: fragment and now :: instant
  assumes ok: "sr_ok r" and res: "fst (sr_insert f now r) = Ok (Some packet)"
  defines "p \<equiv> sr_purge_expired now r"
  defines "grp \<equiv> sr_new_group f (sr_old_group f now p)"
  shows "whole_packet (grp_parts grp)" "packet = parts_data (grp_parts grp)"
    "group_ok (frag_id f) grp"
    "snd (sr_insert f now r) = sr_remove_group (frag_id f) (sr_stored f now p)"
proof -
  have p: "sr_ok p" using ok unfolding p_def by (rule sr_ok_purge)
  have adm: "sr_admits f now p" and ins: "sr_insert f now r = sr_add_part f now (part_end f) p"
    using res sr_insert_eq [OF ok, of f now] by (auto simp: sr_admits_def p_def split: if_splits)
  from p adm show "whole_packet (grp_parts grp)" "packet = parts_data (grp_parts grp)"
    "group_ok (frag_id f) grp"
    "snd (sr_insert f now r) = sr_remove_group (frag_id f) (sr_stored f now p)"
    using res by (cases rule: sr_add_part_cases; simp add: ins grp_def)+
qed

interpretation srr: bounded_reassembler sr_insert sr_ok sr_pending_groups sr_buffered_bytes
  SR_MAX_GROUPS "16 * MAX_REASSEMBLED_PACKET"
proof
  show "sr_ok s \<Longrightarrow> sr_ok (snd (sr_insert f now s))" for s f now
    by (rule sr_ok_insert)
  show "length p \<le> MAX_REASSEMBLED_PACKET"
    if "sr_ok s" "fst (sr_insert f now s) = Ok (Some p)" for s f now p
    using sr_insert_SomeD [OF that] group_bytes_bound
    by (auto simp: length_parts_data group_ok_def)
  show "sr_pending_groups s \<le> SR_MAX_GROUPS" if "sr_ok s" for s
    using that by (simp add: sr_ok_def sr_pending_groups_def)
  show "sr_buffered_bytes s \<le> 16 * MAX_REASSEMBLED_PACKET" if "sr_ok s" for s
    using that by (rule sr_bytes_bound)
qed

section \<open>Reassembly in any order\<close>

lemma contiguous_bounds:
  "contiguous e ps \<Longrightarrow> \<forall>p \<in> set ps. e \<le> part_start p \<and> part_end p \<le> e + parts_bytes ps"
proof (induction ps arbitrary: e)
  case (Cons p ps)
  then have "\<forall>q \<in> set ps. part_end p \<le> part_start q \<and> part_end q \<le> part_end p + parts_bytes ps"
    by simp
  with Cons.prems show ?case by (fastforce simp: parts_bytes_def part_end_def)
qed simp

lemma contiguous_disjoint:
  "contiguous e ps \<Longrightarrow> sorted_wrt (\<lambda>p q. part_end p \<le> part_start q) ps"
  by (induction ps arbitrary: e) (auto dest: contiguous_bounds)

lemma nonempty_part: "frag_data p \<noteq> [] \<Longrightarrow> part_start p < part_end p"
  by (simp add: part_end_def)

lemma contiguous_strict:
  assumes "contiguous e ps" "\<forall>p \<in> set ps. frag_data p \<noteq> []"
  shows "sorted (map part_start ps)" "distinct (map part_start ps)"
proof -
  have "sorted_wrt (\<lambda>p q. part_start p < part_start q) ps"
    by (rule sorted_wrt_mono_rel [OF _ contiguous_disjoint [OF assms(1)]])
      (use assms(2) nonempty_part in force)
  then have "sorted_wrt (<) (map part_start ps)" by (simp add: sorted_wrt_map)
  then show "sorted (map part_start ps)" "distinct (map part_start ps)"
    by (simp_all add: strict_sorted_iff)
qed

lemma sr_scan_later: "\<forall>p \<in> set ps. e < part_start p \<Longrightarrow> sr_scan e ps = Ok None"
  by (cases ps) auto

lemma sr_scan_missing:
  assumes "contiguous e ps" "\<forall>p \<in> set ps. frag_data p \<noteq> [] \<and> part_end p < 2 ^ 64"
    and "\<forall>p \<in> set (butlast ps). \<not> end_of_packet p" "\<exists>p \<in> set ps. \<not> P p"
  shows "sr_scan e (filter P ps) = Ok None"
  using assms
proof (induction ps arbitrary: e)
  case (Cons p ps)
  show ?case
  proof (cases "P p")
    case False
    have "\<forall>q \<in> set (filter P ps). e < part_start q"
      using Cons.prems(1,2) contiguous_bounds [of "part_end p" ps] nonempty_part [of p] by fastforce
    with False show ?thesis by (simp add: sr_scan_later)
  next
    case True
    with Cons.prems(4) have "ps \<noteq> []" "\<exists>q \<in> set ps. \<not> P q" by auto
    moreover from this Cons.prems have "sr_scan (part_end p) (filter P ps) = Ok None"
      by (intro Cons.IH) auto
    ultimately show ?thesis using True Cons.prems by (simp add: end_offset_eq)
  qed
qed simp

lemma sort_key_insert_filter:
  assumes "sorted (map key ps)" "distinct (map key ps)" "f \<in> set ps" "f \<notin> D"
  shows "sort_key key (filter (\<lambda>p. p \<in> D) ps @ [f]) = filter (\<lambda>p. p \<in> insert f D) ps"
proof (rule sort_key_inj_key_eq)
  have "distinct ps" using assms(2) by (simp add: distinct_map)
  then have "distinct (filter (\<lambda>p. p \<in> D) ps @ [f])" "distinct (filter (\<lambda>p. p \<in> insert f D) ps)"
    using assms(4) by auto
  then show "mset (filter (\<lambda>p. p \<in> D) ps @ [f]) = mset (filter (\<lambda>p. p \<in> insert f D) ps)"
    by (subst set_eq_iff_mset_eq_distinct [symmetric]) (use assms(3) in auto)
  show "inj_on key (set (filter (\<lambda>p. p \<in> D) ps @ [f]))"
    by (rule inj_on_subset [of key "set ps"]) (use assms(2,3) in \<open>auto simp: distinct_map\<close>)
  show "sorted (map key (filter (\<lambda>p. p \<in> insert f D) ps))"
    using assms(1) by (rule sorted_filter)
qed

text \<open>A set of fragments that can be sent for one packet.\<close>

definition sendable :: "u32 \<Rightarrow> fragment list \<Rightarrow> bool" where
  "sendable fid parts \<longleftrightarrow> whole_packet parts \<and> parts_bytes parts \<le> MAX_REASSEMBLED_PACKET \<and>
     (\<forall>p \<in> set parts. frag_id p = fid \<and> frag_data p \<noteq> [])"

lemma sendableD:
  assumes "sendable fid parts"
  shows "contiguous 0 parts" "\<forall>p \<in> set parts. frag_data p \<noteq> [] \<and> part_end p < 2 ^ 64"
    "sorted (map part_start parts)" "distinct (map part_start parts)" "distinct parts"
    "\<forall>p \<in> set parts. frag_id p = fid \<and> part_end p \<le> MAX_REASSEMBLED_PACKET"
    "\<forall>p \<in> set (butlast parts). \<not> end_of_packet p" "parts \<noteq> []"
    "sr_scan 0 parts = Ok (Some (parts_bytes parts))"
    "\<forall>p \<in> set parts. part_start p < parts_bytes parts"
proof -
  show c: "contiguous 0 parts" and "\<forall>p \<in> set (butlast parts). \<not> end_of_packet p" "parts \<noteq> []"
    using assms by (auto simp: sendable_def whole_packet_def)
  have b: "\<forall>p \<in> set parts. part_end p \<le> parts_bytes parts" using contiguous_bounds [OF c] by simp
  with assms show le: "\<forall>p \<in> set parts. frag_data p \<noteq> [] \<and> part_end p < 2 ^ 64"
    and "\<forall>p \<in> set parts. frag_id p = fid \<and> part_end p \<le> MAX_REASSEMBLED_PACKET"
    by (fastforce simp: sendable_def)+
  then show "sorted (map part_start parts)" "distinct (map part_start parts)"
    using contiguous_strict [OF c] by auto
  then show "distinct parts" by (simp add: distinct_map)
  show "sr_scan 0 parts = Ok (Some (parts_bytes parts))"
    using sr_scan_whole [OF c] assms le by (auto simp: sendable_def whole_packet_def)
  show "\<forall>p \<in> set parts. part_start p < parts_bytes parts"
    using b le nonempty_part by (meson order_less_le_trans)
qed

lemma sendable_disjoint:
  assumes "sendable fid parts" "f \<in> set parts" "f \<notin> D"
  shows "\<not> list_ex (overlaps (part_start f) (part_end f)) (filter (\<lambda>p. p \<in> D) parts)"
    "part_start f \<notin> part_start ` set (filter (\<lambda>p. p \<in> D) parts)"
proof -
  note s = sendableD [OF assms(1)]
  have ne: "part_start q \<noteq> part_start f" if "q \<in> D" "q \<in> set parts" for q
    using s(4) assms(2,3) that by (auto simp: distinct_map dest: inj_onD)
  then show "part_start f \<notin> part_start ` set (filter (\<lambda>p. p \<in> D) parts)" by fastforce
  show "\<not> list_ex (overlaps (part_start f) (part_end f)) (filter (\<lambda>p. p \<in> D) parts)"
    using ne sorted_wrt_pair [OF contiguous_disjoint [OF s(1)]] assms(2)
    by (fastforce simp: list_ex_iff overlaps_def not_less nat_neq_iff)
qed

text \<open>The reassembler has so far received exactly the parts in \<open>D\<close>, the first of them at \<open>t0\<close>.\<close>

definition collecting ::
  "u32 \<Rightarrow> fragment list \<Rightarrow> instant \<Rightarrow> fragment set \<Rightarrow> sr_reassembler \<Rightarrow> bool" where
  "collecting fid parts t0 D r \<longleftrightarrow> sr_ok r \<and>
     (if D = {} then map_of (sr_groups r) fid = None \<and> length (sr_groups r) < SR_MAX_GROUPS
      else \<exists>grp. map_of (sr_groups r) fid = Some grp \<and> grp_created grp = t0 \<and>
             grp_parts grp = filter (\<lambda>p. p \<in> D) parts)"

lemma length_purge: "length (sr_groups (sr_purge_expired now r)) \<le> length (sr_groups r)"
proof -
  have "length (sr_groups (fold sr_remove_group ids r)) \<le> length (sr_groups r)" for ids
  proof (induction ids arbitrary: r)
    case (Cons gid ids)
    have "length (sr_groups (fold sr_remove_group ids (sr_remove_group gid r)))
        \<le> length (sr_groups (sr_remove_group gid r))" by (rule Cons)
    also have "\<dots> \<le> length (sr_groups r)" by (simp add: length_delete_le)
    finally show ?case by simp
  qed simp
  then show ?thesis by (simp add: sr_purge_expired_def Let_def)
qed

lemma collecting_purge:
  assumes "collecting fid parts t0 D r" "now \<le> t0 + SR_TIMEOUT"
  shows "collecting fid parts t0 D (sr_purge_expired now r)"
proof -
  have ok: "sr_ok r" using assms(1) by (simp add: collecting_def)
  have "\<not> sr_group_expired now grp" if "grp_created grp = t0" for grp
    using assms(2) that by (auto simp: sr_group_expired_def checked_duration_since_def)
  moreover have "length (sr_groups (sr_purge_expired now r)) < SR_MAX_GROUPS"
    if "length (sr_groups r) < SR_MAX_GROUPS"
    using order.strict_trans1 [OF length_purge that] .
  ultimately show ?thesis
    using sr_ok_purge [OF ok] assms(1)
    by (cases "D = {}") (auto simp: collecting_def map_of_purge [OF ok])
qed

lemma collecting_old_group:
  assumes "collecting fid parts t0 D r" "frag_id f = fid" "D = {} \<longrightarrow> now = t0"
  shows "grp_created (sr_old_group f now r) = t0"
    "grp_parts (sr_old_group f now r) = filter (\<lambda>p. p \<in> D) parts"
  using assms by (auto simp: collecting_def sr_old_group_def split: if_splits option.splits)

lemma collecting_step:
  assumes col: "collecting fid parts t0 D r" and snd: "sendable fid parts"
    and f: "f \<in> set parts" "f \<notin> D" and t: "now \<le> t0 + SR_TIMEOUT" "D = {} \<longrightarrow> now = t0"
  shows "if set parts \<subseteq> insert f D
    then fst (sr_insert f now r) = Ok (Some (parts_data parts)) \<and>
         map_of (sr_groups (snd (sr_insert f now r))) fid = None
    else fst (sr_insert f now r) = Ok None \<and>
         collecting fid parts t0 (insert f D) (snd (sr_insert f now r))"
proof -
  let ?p = "sr_purge_expired now r"
  let ?g = "sr_new_group f (sr_old_group f now ?p)"
  note s = sendableD [OF snd] and dis = sendable_disjoint [OF snd f]
  have fid: "frag_id f = fid" using s(6) f by blast
  have col': "collecting fid parts t0 D ?p" using collecting_purge [OF col t(1)] .
  note old = collecting_old_group [OF col' fid t(2)]
  have ok: "sr_ok ?p" "sr_ok r" using col col' by (simp_all add: collecting_def)
  have adm: "sr_admits f now ?p"
  proof -
    have "map_of (sr_groups ?p) fid = None \<Longrightarrow> length (sr_groups ?p) < SR_MAX_GROUPS"
      using col' by (auto simp: collecting_def split: if_splits)
    moreover have "part_end f \<le> MAX_REASSEMBLED_PACKET" using s(6) f(1) by blast
    ultimately show ?thesis using dis(2) by (simp only: sr_admits_def old fid) blast
  qed
  have ins: "sr_insert f now r = sr_add_part f now (part_end f) ?p"
    using sr_insert_eq [OF ok(2), of f now] adm by (auto simp: sr_admits_def)
  have parts: "grp_parts ?g = filter (\<lambda>p. p \<in> insert f D) parts"
    using sort_key_insert_filter [OF s(3,4) f] by (simp add: sr_new_group_def old)
  have g: "group_ok fid ?g" using sr_new_group_ok [OF ok(1) adm] dis(1) old fid by simp
  show ?thesis
  proof (cases "set parts \<subseteq> insert f D")
    case True
    then have whole: "grp_parts ?g = parts" using parts by (simp add: filter_id_conv subset_iff)
    have "sr_complete fid ?g (parts_bytes parts) (sr_stored f now ?p) =
      (Ok (Some (parts_data parts)), sr_remove_group fid (sr_stored f now ?p))"
      using sr_complete_outcome(1) [OF g, of "parts_bytes parts"] s(9,10) whole fid
      by (auto simp: sr_remove_group_def map_of_stored leD)
    with True show ?thesis
      using dis(1) s(9) by (simp add: ins sr_add_part_eq Let_def old(2) fid whole)
  next
    case False
    then have "sr_scan 0 (grp_parts ?g) = Ok None"
      unfolding parts using s by (intro sr_scan_missing) auto
    then have "sr_add_part f now (part_end f) ?p = (Ok None, sr_stored f now ?p)"
      using dis(1) by (simp add: sr_add_part_eq Let_def old(2))
    moreover have "sr_ok (sr_stored f now ?p)" using sr_ok_stored [OF ok(1) adm] g fid by simp
    ultimately show ?thesis
      using False parts old(1) by (simp add: ins collecting_def map_of_stored fid sr_new_group_def)
  qed
qed

lemma collecting_feed:
  assumes "collecting fid parts t0 D r" "sendable fid parts" "fs \<noteq> []"
    and "distinct (map fst fs)" "set (map fst fs) \<inter> D = {}" "set (map fst fs) \<union> D = set parts"
    and "\<forall>(f, t) \<in> set fs. t \<le> t0 + SR_TIMEOUT" "D = {} \<longrightarrow> snd (hd fs) = t0"
  shows "fst (feed sr_insert fs r) = replicate (length fs - 1) (Ok None) @ [Ok (Some (parts_data parts))]
    \<and> map_of (sr_groups (snd (feed sr_insert fs r))) fid = None"
  using assms
proof (induction fs arbitrary: D r)
  case (Cons a fs)
  obtain f t where a: "a = (f, t)" by (cases a)
  have f: "f \<in> set parts" "f \<notin> D" using Cons.prems by (auto simp: a)
  have step: "if set parts \<subseteq> insert f D
    then fst (sr_insert f t r) = Ok (Some (parts_data parts)) \<and>
         map_of (sr_groups (snd (sr_insert f t r))) fid = None
    else fst (sr_insert f t r) = Ok None \<and>
         collecting fid parts t0 (insert f D) (snd (sr_insert f t r))"
    using Cons.prems by (intro collecting_step f) (auto simp: a)
  show ?case
  proof (cases "fs = []")
    case True
    with Cons.prems(6) have "set parts \<subseteq> insert f D" by (auto simp: a)
    with step True show ?thesis by (simp add: a Let_def split_def)
  next
    case False
    then obtain b where "b \<in> set fs" by (cases fs) auto
    with Cons.prems have "fst b \<in> set parts" "fst b \<notin> insert f D" by (auto simp: a)
    then have n: "\<not> set parts \<subseteq> insert f D" by blast
    then have "fst (feed sr_insert fs (snd (sr_insert f t r))) =
        replicate (length fs - 1) (Ok None) @ [Ok (Some (parts_data parts))] \<and>
      map_of (sr_groups (snd (feed sr_insert fs (snd (sr_insert f t r))))) fid = None"
      using step False Cons.prems by (intro Cons.IH [of "insert f D"]) (auto simp: a)
    with step n False show ?thesis by (cases fs) (simp_all add: a Let_def split_def)
  qed
qed simp

section \<open>Pairing of traditional fragments\<close>

lemma trad_map_of_purge:
  "trad_ok r \<Longrightarrow> map_of (trad_groups (trad_purge_expired now r)) k =
     (case map_of (trad_groups r) k of
        None \<Rightarrow> None
      | Some pending \<Rightarrow> if trad_fresh now pending then Some pending else None)"
  by (simp add: trad_purge_expired_def trad_ok_def map_of_filter_case split: option.split)

lemma trad_insert_first:
  assumes "map_of (trad_groups r) (ctx, frag_id f) = None" "trad_ok r"
    and "length (frag_data f) \<le> MAX_REASSEMBLED_PACKET"
  shows "fst (trad_insert_in_context ctx f now r) = Ok None"
    "map_of (trad_groups (snd (trad_insert_in_context ctx f now r))) (ctx, frag_id f) =
       Some \<lparr>tp_created = now, tp_fragment = f\<rparr>"
  using assms by (simp_all add: trad_insert_in_context_def Let_def trad_map_of_purge update_conv')

lemma trad_insert_second:
  assumes "trad_ok r" "map_of (trad_groups r) (ctx, frag_id g) = Some \<lparr>tp_created = t, tp_fragment = f\<rparr>"
    and "length (frag_data f) \<le> MAX_REASSEMBLED_PACKET" "length (frag_data g) \<le> MAX_REASSEMBLED_PACKET"
  shows "fst (trad_insert_in_context ctx g now r) =
      (if now > t + TRADITIONAL_TIMEOUT \<or> end_of_packet g = end_of_packet f then Ok None
       else if length (frag_data f) + length (frag_data g) > MAX_REASSEMBLED_PACKET
       then Err FragmentTooLarge
       else Ok (Some (if end_of_packet g then frag_data f @ frag_data g
                      else frag_data g @ frag_data f)))"
    "map_of (trad_groups (snd (trad_insert_in_context ctx g now r))) (ctx, frag_id g) =
      (if now > t + TRADITIONAL_TIMEOUT \<or> end_of_packet g = end_of_packet f
       then Some \<lparr>tp_created = now, tp_fragment = g\<rparr> else None)"
proof -
  have fresh: "trad_fresh now \<lparr>tp_created = t, tp_fragment = f\<rparr> \<longleftrightarrow> now \<le> t + TRADITIONAL_TIMEOUT"
    by (auto simp: trad_fresh_def checked_duration_since_def)
  show "fst (trad_insert_in_context ctx g now r) =
      (if now > t + TRADITIONAL_TIMEOUT \<or> end_of_packet g = end_of_packet f then Ok None
       else if length (frag_data f) + length (frag_data g) > MAX_REASSEMBLED_PACKET
       then Err FragmentTooLarge
       else Ok (Some (if end_of_packet g then frag_data f @ frag_data g
                      else frag_data g @ frag_data f)))"
    using assms fresh
    by (auto simp: trad_insert_in_context_def Let_def trad_map_of_purge trad_join_def
        usize_checked_add_def)
  show "map_of (trad_groups (snd (trad_insert_in_context ctx g now r))) (ctx, frag_id g) =
      (if now > t + TRADITIONAL_TIMEOUT \<or> end_of_packet g = end_of_packet f
       then Some \<lparr>tp_created = now, tp_fragment = g\<rparr> else None)"
    using assms fresh
    by (auto simp: trad_insert_in_context_def Let_def trad_map_of_purge update_conv')
qed

section \<open>Properties\<close>

text \<open>C2 (SR reassembly, any order). Whatever the reassembler received before, if it has no group
  of this ID and room for one, then the fragments of a packet delivered in any order within
  two seconds of the first give no packet until the last one arrives, then exactly the
  packet, and leave no group behind.\<close>

theorem sr_reassembles_any_order:
  assumes "sendable fid parts" and "mset (map fst fs) = mset parts"
    and "r = snd (feed sr_insert earlier sr_new)"
    and "map_of (sr_groups r) fid = None" and "sr_pending_groups r < SR_MAX_GROUPS"
    and "\<forall>(f, t) \<in> set fs. t \<le> snd (hd fs) + SR_TIMEOUT"
  shows "fst (feed sr_insert fs r) =
      replicate (length fs - 1) (Ok None) @ [Ok (Some (parts_data parts))] \<and>
    map_of (sr_groups (snd (feed sr_insert fs r))) fid = None"
proof (rule collecting_feed [of fid parts "snd (hd fs)" "{}"])
  have "sr_ok r" unfolding assms(3) by (rule srr.feed_ok [OF sr_ok_new(1)])
  with assms(4,5) show "collecting fid parts (snd (hd fs)) {} r"
    by (simp add: collecting_def sr_pending_groups_def)
  have "distinct (map fst fs)" "set (map fst fs) = set parts"
    using assms(2) sendableD(5) [OF assms(1)] mset_eq_imp_distinct_iff mset_eq_setD by metis+
  then show "distinct (map fst fs)" "set (map fst fs) \<inter> {} = {}" "set (map fst fs) \<union> {} = set parts"
    by auto
  show "fs \<noteq> []" using assms(2) sendableD(8) [OF assms(1)] by auto
qed (use assms in auto)

theorem sr_reassembles_any_order_witness:
  "fst (feed sr_insert
     [(\<lparr>frag_id = 7, end_of_packet = True, from_in = False, frag_offset = 2, frag_data = [3]\<rparr>, 10),
      (\<lparr>frag_id = 7, end_of_packet = False, from_in = False, frag_offset = 0, frag_data = [1, 2]\<rparr>, 20)]
     sr_new) = [Ok None, Ok (Some [1, 2, 3])]"
proof -
  let ?a = "\<lparr>frag_id = 7, end_of_packet = False, from_in = False, frag_offset = 0, frag_data = [1, 2]\<rparr>"
  let ?b = "\<lparr>frag_id = 7, end_of_packet = True, from_in = False, frag_offset = 2, frag_data = [3]\<rparr>"
  have "sendable 7 [?a, ?b]"
    by (simp add: sendable_def whole_packet_def parts_bytes_def part_start_def part_end_def)
  then show ?thesis
    using sr_reassembles_any_order [of 7 "[?a, ?b]" "[(?b, 10), (?a, 20)]" sr_new "[]"]
    by (simp add: sr_new_def sr_pending_groups_def)
qed

text \<open>(SR reassembly, soundness). A packet the SR reassembler delivers is the concatenation of a
  gapless sequence of fragments from offset 0 to the only end-of-packet fragment, all with
  the ID of the fragment just inserted and that fragment among them, every other one of them
  pending in an unexpired group before; the group is gone afterwards.\<close>

theorem sr_insert_sound:
  assumes "fst (sr_insert f now (snd (feed sr_insert earlier sr_new))) = Ok (Some packet)"
  shows "\<exists>parts. whole_packet parts \<and> packet = parts_data parts \<and> f \<in> set parts \<and>
    (\<forall>p \<in> set parts. frag_id p = frag_id f \<and> (p = f \<or>
       (\<exists>grp. map_of (sr_groups (snd (feed sr_insert earlier sr_new))) (frag_id f) = Some grp \<and>
              \<not> sr_group_expired now grp \<and> p \<in> set (grp_parts grp)))) \<and>
    map_of (sr_groups (snd (sr_insert f now (snd (feed sr_insert earlier sr_new))))) (frag_id f) = None"
proof -
  let ?r = "snd (feed sr_insert earlier sr_new)"
  have ok: "sr_ok ?r" by (rule srr.feed_ok [OF sr_ok_new(1)])
  note some = sr_insert_SomeD [OF ok assms]
  let ?old = "sr_old_group f now (sr_purge_expired now ?r)"
  let ?parts = "grp_parts (sr_new_group f ?old)"
  have set: "set ?parts = insert f (set (grp_parts ?old))" by (simp add: sr_new_group_def)
  have old: "\<exists>grp. map_of (sr_groups ?r) (frag_id f) = Some grp \<and> \<not> sr_group_expired now grp \<and>
      p \<in> set (grp_parts grp)" if "p \<in> set (grp_parts ?old)" for p
    using that by (auto simp: sr_old_group_def map_of_purge [OF ok] split: option.splits if_splits)
  have "\<forall>p \<in> set ?parts. frag_id p = frag_id f" using some(3) by (simp add: group_ok_def)
  then have "\<forall>p \<in> set ?parts. frag_id p = frag_id f \<and> (p = f \<or>
       (\<exists>grp. map_of (sr_groups ?r) (frag_id f) = Some grp \<and>
              \<not> sr_group_expired now grp \<and> p \<in> set (grp_parts grp)))"
    using old set by blast
  moreover have "map_of (sr_groups (snd (sr_insert f now ?r))) (frag_id f) = None"
    unfolding some(4) by simp
  moreover have "f \<in> set ?parts" using set by blast
  ultimately show ?thesis using some(1,2) by blast
qed

theorem sr_insert_sound_witness:
  "\<exists>parts. whole_packet parts \<and> [9, 8] = parts_data parts \<and>
     \<lparr>frag_id = 1, end_of_packet = True, from_in = False, frag_offset = 0, frag_data = [9, 8]\<rparr> \<in> set parts"
proof -
  let ?f = "\<lparr>frag_id = 1, end_of_packet = True, from_in = False, frag_offset = 0, frag_data = [9, 8]\<rparr>"
  have "fst (sr_insert ?f 0 (snd (feed sr_insert [] sr_new))) = Ok (Some [9, 8])"
    by (simp add: sr_insert_def sr_new_def sr_purge_expired_def end_offset_def usize_checked_add_def
        sr_add_part_def sr_complete_def part_start_def part_end_def Let_def)
  from sr_insert_sound [OF this] show ?thesis by blast
qed

text \<open>C7 (SR bounds). Fed any fragments at any times, the SR reassembler holds at most 16 groups and
  at most 131072 bytes, the counter \<open>buffered_bytes\<close> is the number of payload bytes held (so
  its subtractions never underflow), and every delivered packet has at most 8192 bytes. The
  configured byte limit of 262144 is therefore never reached.\<close>

theorem sr_reassembler_bounded:
  "sr_pending_groups (snd (feed sr_insert fs sr_new)) \<le> SR_MAX_GROUPS \<and>
   sr_buffered_bytes (snd (feed sr_insert fs sr_new)) \<le> 131072 \<and>
   sr_buffered_bytes (snd (feed sr_insert fs sr_new)) =
     sum_list (map (\<lambda>(_, grp). parts_bytes (grp_parts grp))
       (sr_groups (snd (feed sr_insert fs sr_new)))) \<and>
   (\<forall>p. Ok (Some p) \<in> set (fst (feed sr_insert fs sr_new)) \<longrightarrow> length p \<le> MAX_REASSEMBLED_PACKET)"
proof -
  let ?r = "snd (feed sr_insert fs sr_new)"
  have ok: "sr_ok ?r" by (rule srr.feed_ok [OF sr_ok_new(1)])
  have "sr_buffered_bytes ?r = sum_list (map (\<lambda>(_, grp). grp_buffered_bytes grp) (sr_groups ?r))"
    using ok by (simp add: sr_ok_def total_over_def)
  also have "map (\<lambda>(_, grp). grp_buffered_bytes grp) (sr_groups ?r) =
      map (\<lambda>(_, grp). parts_bytes (grp_parts grp)) (sr_groups ?r)"
    using ok by (intro map_cong) (auto simp: sr_ok_def group_ok_def)
  finally show ?thesis
    using srr.feed_bounded [OF sr_ok_new(1), of fs] srr.feed_packets_bounded [OF sr_ok_new(1), of _ fs]
    by simp
qed

theorem sr_reassembler_bounded_witness:
  "sr_buffered_bytes (snd (feed sr_insert
     [(\<lparr>frag_id = 1, end_of_packet = False, from_in = False, frag_offset = 0, frag_data = [9, 8]\<rparr>, 0)]
     sr_new)) \<le> 131072"
  using sr_reassembler_bounded
    [of "[(\<lparr>frag_id = 1, end_of_packet = False, from_in = False, frag_offset = 0, frag_data = [9, 8]\<rparr>, 0)]"]
  by blast

text \<open>(traditional pairing). After a fragment that starts a group, the next fragment of the same
  context and ID completes it exactly when it comes within 100 ms and has the other
  end-of-packet flag: the packet is the unflagged payload followed by the flagged one, or
  \<open>FragmentTooLarge\<close> when longer than 8192 bytes, and the group is gone. Otherwise the new
  fragment replaces the old one.\<close>

theorem trad_pairing:
  assumes "r = snd (feed (trad_insert_in_context ctx) earlier trad_new)"
    and "map_of (trad_groups r) (ctx, fid) = None"
    and "frag_id f = fid" "frag_id g = fid"
    and "length (frag_data f) \<le> MAX_REASSEMBLED_PACKET" "length (frag_data g) \<le> MAX_REASSEMBLED_PACKET"
  shows "fst (feed (trad_insert_in_context ctx) [(f, t1), (g, t2)] r) =
     [Ok None,
      if t2 > t1 + TRADITIONAL_TIMEOUT \<or> end_of_packet g = end_of_packet f then Ok None
      else if length (frag_data f) + length (frag_data g) > MAX_REASSEMBLED_PACKET
      then Err FragmentTooLarge
      else Ok (Some (if end_of_packet g then frag_data f @ frag_data g
                     else frag_data g @ frag_data f))] \<and>
    map_of (trad_groups (snd (feed (trad_insert_in_context ctx) [(f, t1), (g, t2)] r))) (ctx, fid) =
     (if t2 > t1 + TRADITIONAL_TIMEOUT \<or> end_of_packet g = end_of_packet f
      then Some \<lparr>tp_created = t2, tp_fragment = g\<rparr> else None)"
proof -
  have ok: "trad_ok r" unfolding assms(1) by (rule trad.feed_ok [OF trad_ok_new(1)])
  let ?r1 = "snd (trad_insert_in_context ctx f t1 r)"
  have ok1: "trad_ok ?r1" using trad_ok_insert [OF ok] .
  note first = trad_insert_first [of r ctx f t1] and
    second = trad_insert_second [OF ok1, of ctx g t1 f t2]
  show ?thesis
    using first second ok assms(2-6) by (simp add: Let_def split_def)
qed

theorem trad_pairing_witness:
  "fst (feed (trad_insert_in_context 4)
     [(\<lparr>frag_id = 1, end_of_packet = True, from_in = False, frag_offset = 2, frag_data = [3]\<rparr>, 0),
      (\<lparr>frag_id = 1, end_of_packet = False, from_in = False, frag_offset = 0, frag_data = [1, 2]\<rparr>, 100000)]
     trad_new) = [Ok None, Ok (Some [1, 2, 3])]"
  using trad_pairing [of trad_new 4 "[]" 1
      "\<lparr>frag_id = 1, end_of_packet = True, from_in = False, frag_offset = 2, frag_data = [3]\<rparr>"
      "\<lparr>frag_id = 1, end_of_packet = False, from_in = False, frag_offset = 0, frag_data = [1, 2]\<rparr>" 0 100000]
  by (simp add: trad_new_def)

text \<open>(traditional bounds). Fed any fragments at any times, the traditional reassembler holds at
  most 256 pending fragments, of at most 8192 bytes each, and delivers packets of at most 8192
  bytes.\<close>

theorem trad_reassembler_bounded:
  "trad_pending_groups (snd (feed (trad_insert_in_context ctx) fs trad_new)) \<le> TRADITIONAL_MAX_GROUPS \<and>
   trad_buffered (snd (feed (trad_insert_in_context ctx) fs trad_new)) \<le> 2097152 \<and>
   (\<forall>p. Ok (Some p) \<in> set (fst (feed (trad_insert_in_context ctx) fs trad_new)) \<longrightarrow>
        length p \<le> MAX_REASSEMBLED_PACKET)"
  using trad.feed_bounded [OF trad_ok_new(1), of ctx fs]
    trad.feed_packets_bounded [OF trad_ok_new(1), of _ ctx fs]
  by simp

theorem trad_reassembler_bounded_witness:
  "trad_pending_groups (snd (feed (trad_insert_in_context 6) [] trad_new)) \<le> 256"
  using trad_reassembler_bounded [of 6 "[]"] by blast


end
