(* ===== verification/Sr_Monitor.thy ===== *)
theory Sr_Monitor
  imports Packet_Types
begin

text \<open>
  The Segment Routing path monitor (\<open>src/sr.rs\<close>): the 40-byte monitor body, the client's
  \<open>SrMonitor\<close> with its round-trip statistics, and the passive \<open>SrMonitorResponder\<close>.
\<close>

section \<open>Monitor bodies\<close>

abbreviation (input) SR_MONITOR_BODY_LEN :: nat where "SR_MONITOR_BODY_LEN \<equiv> 40"
abbreviation (input) SR_PEER_DOWN_AFTER :: duration where "SR_PEER_DOWN_AFTER \<equiv> 5000000"

text \<open>The ASCII bytes of \<open>SRID\<close>.\<close>

abbreviation (input) SRID :: bytes where "SRID \<equiv> [0x53, 0x52, 0x49, 0x44]"

record sr_monitor_body =
  monitor_tick_micros :: u64
  current_delay_micros :: u32
  minimum_delay_micros :: u32
  maximum_delay_micros :: u32
  sr_id :: u32
  monitor_version :: u8
  monitor_marker :: u8
  monitor_flags :: u16
  tx_count :: u32
  rx_count :: u32

definition monitor_encode :: "sr_monitor_body \<Rightarrow> bytes" where
  "monitor_encode b =
     u64_le (monitor_tick_micros b) @ u32_le (current_delay_micros b) @ u32_le (minimum_delay_micros b) @
     u32_le (maximum_delay_micros b) @ SRID @ u32_be (sr_id b) @ [monitor_version b, monitor_marker b] @
     u16_le (monitor_flags b) @ u32_le (tx_count b) @ u32_le (rx_count b)"

definition monitor_decode :: "bytes \<Rightarrow> sr_monitor_body result" where
  "monitor_decode body =
     (if length body < SR_MONITOR_BODY_LEN then Err (PacketTooShort SR_MONITOR_BODY_LEN (length body))
      else if slice_of 20 24 body \<noteq> SRID
      then Err (InvalidSegmentRouting ''SR monitor magic does not equal SRID'')
      else Ok \<lparr>monitor_tick_micros = from_le (slice_of 0 8 body),
               current_delay_micros = from_le (slice_of 8 12 body),
               minimum_delay_micros = from_le (slice_of 12 16 body),
               maximum_delay_micros = from_le (slice_of 16 20 body),
               sr_id = from_be (slice_of 24 28 body),
               monitor_version = body ! 28,
               monitor_marker = body ! 29,
               monitor_flags = from_le (slice_of 30 32 body),
               tx_count = from_le (slice_of 32 36 body),
               rx_count = from_le (slice_of 36 40 body)\<rparr>)"

section \<open>Delay statistics\<close>

record delay_accumulator =
  da_current :: u32
  da_minimum :: u32
  da_maximum :: u32

definition delay_new :: delay_accumulator where
  "delay_new = \<lparr>da_current = 0, da_minimum = 0, da_maximum = 0\<rparr>"

definition delay_observe :: "u32 \<Rightarrow> delay_accumulator \<Rightarrow> delay_accumulator" where
  "delay_observe v d =
     \<lparr>da_current = v,
      da_minimum = (if da_minimum d = 0 then v else min (da_minimum d) v),
      da_maximum = max (da_maximum d) v\<rparr>"

section \<open>The monitor\<close>

datatype sr_monitor_state = MonIdle | Probing | Established | PeerDown

record sr_monitor =
  mon_state :: sr_monitor_state
  mon_sr_id :: u32
  mon_tx_count :: u32
  mon_rx_count :: u32
  mon_last_response :: "instant option"
  mon_delay :: delay_accumulator

definition monitor_new :: "u32 \<Rightarrow> sr_monitor" where
  "monitor_new srid =
     \<lparr>mon_state = MonIdle, mon_sr_id = srid, mon_tx_count = 0, mon_rx_count = 0,
      mon_last_response = None, mon_delay = delay_new\<rparr>"

definition monitor_request :: "u64 \<Rightarrow> sr_monitor \<Rightarrow> sr_monitor_body \<times> sr_monitor" where
  "monitor_request tick m0 =
     (let initial = (mon_state m0 = MonIdle \<or> mon_state m0 = PeerDown);
          m = (if initial
               then m0\<lparr>mon_tx_count := 1, mon_rx_count := 0, mon_state := Probing\<rparr>
               else m0\<lparr>mon_tx_count := mon_tx_count m0 + 1\<rparr>)
      in
      (\<lparr>monitor_tick_micros = tick,
        current_delay_micros = da_current (mon_delay m),
        minimum_delay_micros = da_minimum (mon_delay m),
        maximum_delay_micros = da_maximum (mon_delay m),
        sr_id = mon_sr_id m,
        monitor_version = 0,
        monitor_marker = 0x79,
        monitor_flags = of_bool initial,
        tx_count = mon_tx_count m,
        rx_count = mon_rx_count m\<rparr>, m))"

definition accept_response ::
  "sr_monitor_body \<Rightarrow> instant \<Rightarrow> u32 \<Rightarrow> sr_monitor \<Rightarrow> unit result \<times> sr_monitor" where
  "accept_response response now rtt m =
     (if sr_id response \<noteq> mon_sr_id m
      then (Err (InvalidSegmentRouting ''SR monitor response has the wrong SR ID''), m)
      else if monitor_flags response AND 0x0002 = 0
      then (Err (InvalidSegmentRouting ''SR monitor response does not enable counter processing''), m)
      else (Ok (), m\<lparr>mon_rx_count := rx_count response,
                     mon_last_response := Some now,
                     mon_delay := delay_observe rtt (mon_delay m),
                     mon_state := Established\<rparr>))"

definition update_peer_state :: "instant \<Rightarrow> sr_monitor \<Rightarrow> sr_monitor_state \<times> sr_monitor" where
  "update_peer_state now m0 =
     (let m = (case mon_last_response m0 of
                 None \<Rightarrow> m0
               | Some last_at \<Rightarrow>
                   (case checked_duration_since now last_at of
                      None \<Rightarrow> m0
                    | Some age \<Rightarrow>
                        if age > SR_PEER_DOWN_AFTER then m0\<lparr>mon_state := PeerDown\<rparr> else m0))
      in (mon_state m, m))"

record sr_monitor_responder =
  resp_active :: bool
  resp_receive_count :: u32

definition responder_new :: sr_monitor_responder where
  "responder_new = \<lparr>resp_active = False, resp_receive_count = 0\<rparr>"

definition monitor_respond ::
  "sr_monitor_body \<Rightarrow> sr_monitor_responder \<Rightarrow> sr_monitor_body option \<times> sr_monitor_responder" where
  "monitor_respond request r =
     (if monitor_flags request AND 0x0001 \<noteq> 0
      then (Some (request\<lparr>monitor_flags := 0x0003, rx_count := 1\<rparr>),
            r\<lparr>resp_active := True, resp_receive_count := 1\<rparr>)
      else if resp_active r
      then let n = resp_receive_count r + 1 in
           (Some (request\<lparr>monitor_flags := 0x0002, rx_count := n\<rparr>), r\<lparr>resp_receive_count := n\<rparr>)
      else (None, r))"

section \<open>The body codec\<close>

lemma length_monitor_encode [simp, codec_simps]: "length (monitor_encode b) = SR_MONITOR_BODY_LEN"
  by (simp add: monitor_encode_def)

lemma slice_of_Cons:
  "0 < a \<Longrightarrow> slice_of a b (x # xs) = slice_of (a - 1) (b - 1) xs"
  "0 < b \<Longrightarrow> slice_of 0 b (x # xs) = x # slice_of 0 (b - 1) xs"
  "slice_of 0 0 xs = []"
  by (cases a; cases b; simp add: slice_of_def)+

lemma monitor_decode_encode: "monitor_decode (monitor_encode b @ rest) = Ok b"
  by (simp add: monitor_decode_def monitor_encode_def slice_simps slice_of_Cons nth_append)

interpretation monitor_wire: wire_struct monitor_encode monitor_decode SR_MONITOR_BODY_LEN
  by unfold_locales (simp_all add: monitor_decode_encode)

lemma take_as_slices:
  assumes "a \<le> b" "b \<le> length xs"
  shows "take b xs = take a xs @ slice_of a b xs"
  using assms by (metis le_add_diff_inverse slice_of_def take_add)

lemma bytes_of_words:
  "length bs = 8 \<Longrightarrow> u64_le (from_le bs) = bs" "length bs = 4 \<Longrightarrow> u32_le (from_le bs) = bs"
  "length bs = 4 \<Longrightarrow> u32_be (from_be bs) = bs" "length bs = 2 \<Longrightarrow> u16_le (from_le bs) = bs"
  using le_bytes_from_le [of bs, where 'a = 64] le_bytes_from_le [of bs, where 'a = 32]
    be_bytes_from_be [of bs, where 'a = 32] le_bytes_from_le [of bs, where 'a = 16]
  by simp_all

lemma slice_two:
  assumes "Suc (Suc a) \<le> length xs"
  shows "slice_of a (Suc (Suc a)) xs = [xs ! a, xs ! Suc a]"
  using assms by (simp add: slice_of_def Cons_nth_drop_Suc [symmetric])

lemma monitor_decode_sound:
  assumes "monitor_decode body = Ok b"
  shows "monitor_encode b = take SR_MONITOR_BODY_LEN body" "SR_MONITOR_BODY_LEN \<le> length body"
proof -
  show len: "SR_MONITOR_BODY_LEN \<le> length body"
    using assms by (auto simp: monitor_decode_def split: if_splits)
  have magic: "slice_of 20 24 body = SRID"
    using assms len by (auto simp: monitor_decode_def split: if_splits)
  have "take SR_MONITOR_BODY_LEN body =
      slice_of 0 8 body @ slice_of 8 12 body @ slice_of 12 16 body @ slice_of 16 20 body @
      slice_of 20 24 body @ slice_of 24 28 body @ slice_of 28 30 body @ slice_of 30 32 body @
      slice_of 32 36 body @ slice_of 36 40 body"
    using len take_as_slices [of 36 40 body] take_as_slices [of 32 36 body]
      take_as_slices [of 30 32 body] take_as_slices [of 28 30 body] take_as_slices [of 24 28 body]
      take_as_slices [of 20 24 body] take_as_slices [of 16 20 body] take_as_slices [of 12 16 body]
      take_as_slices [of 8 12 body] take_as_slices [of 0 8 body]
    by simp
  moreover have "slice_of 28 30 body = [body ! 28, body ! 29]"
    using len slice_two [of 28 body] by (simp add: eval_nat_numeral)
  ultimately show "monitor_encode b = take SR_MONITOR_BODY_LEN body"
    using assms len magic
    by (auto simp: monitor_decode_def monitor_encode_def bytes_of_words length_slice_of)
qed

section \<open>One exchange\<close>

text \<open>A request that reaches a responder, and its answer that comes back at \<open>now\<close> with the
  measured round-trip time \<open>rtt\<close>; \<open>None\<close> when the responder stays silent or the answer is
  refused.\<close>

definition exchange ::
  "u64 \<Rightarrow> instant \<Rightarrow> u32 \<Rightarrow> sr_monitor \<times> sr_monitor_responder \<Rightarrow>
     (sr_monitor \<times> sr_monitor_responder) option" where
  "exchange tick now rtt = (\<lambda>(m, r).
     let (req, m') = monitor_request tick m in
     case monitor_respond req r of
       (None, _) \<Rightarrow> None
     | (Some response, r') \<Rightarrow>
         (case accept_response response now rtt m' of
            (Inl _, _) \<Rightarrow> None
          | (Inr _, m'') \<Rightarrow> Some (m'', r')))"

fun exchanges ::
  "(u64 \<times> instant \<times> u32) list \<Rightarrow> sr_monitor \<times> sr_monitor_responder \<Rightarrow>
     (sr_monitor \<times> sr_monitor_responder) option" where
  "exchanges [] s = Some s"
| "exchanges ((tick, now, rtt) # es) s =
     (case exchange tick now rtt s of None \<Rightarrow> None | Some s' \<Rightarrow> exchanges es s')"

lemma flag_bits [simp]: "(3 :: u16) AND 2 \<noteq> 0" "(2 :: u16) AND 2 \<noteq> 0" "(1 :: u16) AND 1 \<noteq> 0"
  by simp_all

lemma exchange_initial:
  assumes "mon_state m = MonIdle \<or> mon_state m = PeerDown"
  shows "exchange tick now rtt (m, r) =
    Some (m\<lparr>mon_tx_count := 1, mon_rx_count := 1, mon_state := Established,
            mon_last_response := Some now, mon_delay := delay_observe rtt (mon_delay m)\<rparr>,
          r\<lparr>resp_active := True, resp_receive_count := 1\<rparr>)"
  using assms by (auto simp: exchange_def monitor_request_def monitor_respond_def
      accept_response_def Let_def)

lemma exchange_next:
  assumes "mon_state m = Established \<or> mon_state m = Probing" "resp_active r"
  shows "exchange tick now rtt (m, r) =
    Some (m\<lparr>mon_tx_count := mon_tx_count m + 1, mon_rx_count := resp_receive_count r + 1,
            mon_state := Established,
            mon_last_response := Some now, mon_delay := delay_observe rtt (mon_delay m)\<rparr>,
          r\<lparr>resp_receive_count := resp_receive_count r + 1\<rparr>)"
  using assms by (auto simp: exchange_def monitor_request_def monitor_respond_def
      accept_response_def Let_def)

text \<open>The responder and the monitor agree on the number of probes since the last start.\<close>

definition in_sync :: "u32 \<Rightarrow> sr_monitor \<Rightarrow> sr_monitor_responder \<Rightarrow> bool" where
  "in_sync n m r \<longleftrightarrow> mon_state m = Established \<and> resp_active r \<and> mon_tx_count m = n \<and>
     mon_rx_count m = n \<and> resp_receive_count r = n"

lemma in_sync_exchanges:
  assumes "in_sync n m r"
  shows "\<exists>m' r'. exchanges es (m, r) = Some (m', r') \<and> in_sync (n + of_nat (length es)) m' r'"
  using assms
proof (induction es arbitrary: n m r)
  case (Cons e es)
  obtain tick now rtt where e: "e = (tick, now, rtt)" by (cases e)
  let ?m = "m\<lparr>mon_tx_count := mon_tx_count m + 1, mon_rx_count := resp_receive_count r + 1,
            mon_state := Established,
            mon_last_response := Some now, mon_delay := delay_observe rtt (mon_delay m)\<rparr>"
  let ?r = "r\<lparr>resp_receive_count := resp_receive_count r + 1\<rparr>"
  have "exchange tick now rtt (m, r) = Some (?m, ?r)"
    using Cons.prems by (intro exchange_next) (auto simp: in_sync_def)
  moreover have "in_sync (n + 1) ?m ?r" using Cons.prems by (simp add: in_sync_def)
  ultimately show ?case using Cons.IH [of "n + 1" ?m ?r] by (simp add: e ac_simps)
qed simp

text \<open>Requests whose answers are all lost, starting from a monitor that is already probing.\<close>

fun lost_requests ::
  "u64 list \<Rightarrow> sr_monitor \<times> sr_monitor_responder \<Rightarrow>
     sr_monitor_body option list \<times> sr_monitor \<times> sr_monitor_responder" where
  "lost_requests [] s = ([], s)"
| "lost_requests (tick # ticks) (m, r) =
     (let (req, m') = monitor_request tick m;
          (response, r') = monitor_respond req r;
          (responses, s') = lost_requests ticks (m', r')
      in (response # responses, s'))"

lemma lost_requests_silent:
  assumes "mon_state m = Probing" "\<not> resp_active r"
  shows "fst (lost_requests ticks (m, r)) = replicate (length ticks) None"
  using assms
proof (induction ticks arbitrary: m r)
  case (Cons tick ticks)
  let ?m = "m\<lparr>mon_tx_count := mon_tx_count m + 1\<rparr>"
  have "fst (lost_requests ticks (?m, r)) = replicate (length ticks) None"
    using Cons.prems by (intro Cons.IH) auto
  with Cons.prems show ?case
    by (simp add: monitor_request_def monitor_respond_def Let_def split_def)
qed simp

section \<open>Statistics\<close>

lemma delay_fold:
  assumes "0 \<notin> set (v # vs)"
  shows "fold delay_observe (v # vs) delay_new =
    \<lparr>da_current = last (v # vs), da_minimum = Min (set (v # vs)), da_maximum = Max (set (v # vs))\<rparr>"
  using assms
proof (induction vs rule: rev_induct)
  case Nil
  then show ?case by (simp add: delay_observe_def delay_new_def)
next
  case (snoc w vs)
  have IH: "fold delay_observe (v # vs) delay_new =
      \<lparr>da_current = last (v # vs), da_minimum = Min (set (v # vs)), da_maximum = Max (set (v # vs))\<rparr>"
    using snoc by auto
  have ne: "Min (set (v # vs)) \<noteq> 0"
    using snoc.prems Min_in [of "set (v # vs)"] by (metis Un_iff append_Cons finite_set list.distinct(1) set_append set_empty)
  have "fold delay_observe (v # vs @ [w]) delay_new = delay_observe w (fold delay_observe (v # vs) delay_new)"
    by simp
  also have "\<dots> = \<lparr>da_current = w, da_minimum = min (Min (set (v # vs))) w,
      da_maximum = max (Max (set (v # vs))) w\<rparr>"
    unfolding IH by (subst delay_observe_def) (use ne in simp)
  also have "\<dots> = \<lparr>da_current = w, da_minimum = Min (insert w (set (v # vs))),
      da_maximum = Max (insert w (set (v # vs)))\<rparr>"
    by (simp add: min.commute max.commute)
  also have "insert w (set (v # vs)) = set (v # vs @ [w])" by auto
  finally show ?case by simp
qed

section \<open>Properties\<close>

text \<open>(monitor body codec). \<open>SrMonitorBody::decode\<close> accepts exactly the inputs that start with
  the encoding of a body, and returns that body.\<close>

theorem monitor_decode_iff:
  "monitor_decode input = Ok b \<longleftrightarrow> (\<exists>rest. input = monitor_encode b @ rest)"
  using monitor_decode_sound monitor_decode_encode by (metis append_take_drop_id)

text \<open>(monitor and responder stay in step). A monitor that is idle or has seen its peer go
  down, answered by a responder in any state, establishes at once, and after any further
  lossless exchanges both sides count exactly the probes sent since, modulo \<open>2 ^ 32\<close>.\<close>

theorem monitor_exchanges_in_sync:
  assumes "mon_state m = MonIdle \<or> mon_state m = PeerDown" and "es \<noteq> []"
  shows "\<exists>m' r'. exchanges es (m, r) = Some (m', r') \<and> mon_state m' = Established \<and>
    mon_tx_count m' = of_nat (length es) \<and> mon_rx_count m' = of_nat (length es) \<and>
    resp_receive_count r' = of_nat (length es)"
proof -
  obtain tick now rtt es' where es: "es = (tick, now, rtt) # es'"
    using assms(2) by (metis neq_Nil_conv prod.collapse)
  let ?m = "m\<lparr>mon_tx_count := 1, mon_rx_count := 1, mon_state := Established,
            mon_last_response := Some now, mon_delay := delay_observe rtt (mon_delay m)\<rparr>"
  let ?r = "r\<lparr>resp_active := True, resp_receive_count := 1\<rparr>"
  have "in_sync 1 ?m ?r" by (simp add: in_sync_def)
  then obtain m' r' where "exchanges es' (?m, ?r) = Some (m', r')"
    "in_sync (1 + of_nat (length es')) m' r'"
    using in_sync_exchanges by blast
  then show ?thesis
    by (simp add: es exchange_initial [OF assms(1)] in_sync_def)
qed

theorem monitor_exchanges_in_sync_witness:
  "\<exists>m' r'. exchanges [(1, 10, 5), (2, 20, 7)] (monitor_new 9, responder_new) = Some (m', r') \<and>
     mon_tx_count m' = 2 \<and> resp_receive_count r' = 2"
  using monitor_exchanges_in_sync [of "monitor_new 9" "[(1, 10, 5), (2, 20, 7)]" responder_new]
  by (auto simp: monitor_new_def)

text \<open>(a lost first probe is never repaired). Only the first request of an idle monitor carries
  the start flag. If it does not reach the responder, the responder stays silent on every
  later request, however many are sent; the client gives up on the session instead.\<close>

theorem lost_first_probe_silences_responder:
  "fst (lost_requests ticks (snd (monitor_request tick (monitor_new srid)), responder_new)) =
     replicate (length ticks) None"
  by (rule lost_requests_silent) (simp_all add: monitor_request_def monitor_new_def responder_new_def)

text \<open>(delay statistics). As long as no round trip of zero microseconds is observed, the
  accumulator holds the last, the least and the greatest observation.\<close>

theorem delay_accumulator_correct:
  assumes "vs \<noteq> []" and "0 \<notin> set vs"
  shows "fold delay_observe vs delay_new =
    \<lparr>da_current = last vs, da_minimum = Min (set vs), da_maximum = Max (set vs)\<rparr>"
  using assms delay_fold by (cases vs) blast+

theorem delay_accumulator_correct_witness:
  "fold delay_observe [7, 3, 5] delay_new = \<lparr>da_current = 5, da_minimum = 3, da_maximum = 7\<rparr>"
  using delay_accumulator_correct [of "[7, 3, 5]"] by simp

text \<open>(zero is not kept as a minimum). The value 0 doubles as the marker of an empty
  accumulator, so after an observation of 0 the next observation replaces the minimum.\<close>

theorem delay_minimum_forgets_zero:
  "da_minimum (fold delay_observe (vs @ [0, v]) delay_new) = v"
  by (simp add: delay_observe_def)


end
