(* ===== verification/Segment_Routing.thy ===== *)
theory Segment_Routing
  imports Reassembly Sr_Monitor Crypto
begin

text \<open>
  Segment Routing transport (\<open>src/sr.rs\<close>): the SR envelope header and its return-path check,
  the outer cipher, and the encoding and decoding of datagrams, with fragments handed to the
  reassembler of \<open>Reassembly\<close>.
\<close>

section \<open>The envelope\<close>

abbreviation (input) MAX_LINKS :: nat where "MAX_LINKS \<equiv> 6"
abbreviation (input) SR_FIXED_HEADER_LEN :: nat where "SR_FIXED_HEADER_LEN \<equiv> 4"

datatype sr_encryption_algorithm = SrNone | SrAes128 | SrAes256

fun sr_algorithm_code :: "sr_encryption_algorithm \<Rightarrow> u8" where
  "sr_algorithm_code SrNone = 0"
| "sr_algorithm_code SrAes128 = 1"
| "sr_algorithm_code SrAes256 = 2"

definition sr_algorithm_try_from :: "u8 \<Rightarrow> sr_encryption_algorithm result" where
  "sr_algorithm_try_from v =
     (if v = 0 then Ok SrNone
      else if v = 1 then Ok SrAes128
      else if v = 2 then Ok SrAes256
      else Err (InvalidSegmentRouting ''unknown outer encryption algorithm''))"

record sr_header =
  next_id :: u8
  hdr_links :: "u32 list"
  hdr_algorithm :: sr_encryption_algorithm
  padding_length :: u8

definition link_in_range :: "u32 \<Rightarrow> bool" where
  "link_in_range link \<longleftrightarrow> 1 \<le> link \<and> link \<le> 0x00ffffff"

definition validate_links :: "u32 list \<Rightarrow> unit result" where
  "validate_links links =
     (if \<not> (1 \<le> length links \<and> length links \<le> MAX_LINKS)
      then Err (InvalidSegmentRouting ''link count is outside 1..=6'')
      else if list_ex (\<lambda>link. \<not> link_in_range link) links
      then Err (InvalidSegmentRouting ''link ID is outside 1..=0x00ffffff'')
      else Ok ())"

definition sr_outbound ::
  "u32 list \<Rightarrow> sr_encryption_algorithm \<Rightarrow> u8 \<Rightarrow> sr_header result" where
  "sr_outbound forward_links alg padding =
     rbind (validate_links forward_links) (\<lambda>_.
       if padding > 31 then Err (InvalidSegmentRouting ''padding length exceeds five-bit field'')
       else
         let links = rev forward_links in
         Ok \<lparr>next_id = of_nat (length links - 1), hdr_links = links,
             hdr_algorithm = alg, padding_length = padding\<rparr>)"

fun parse_links :: "bytes \<Rightarrow> u32 list result" where
  "parse_links (a # b # c # d # rest) =
     (let link = from_be [a, b, c, d] in
      if \<not> link_in_range link
      then Err (InvalidSegmentRouting ''link ID is outside 1..=0x00ffffff'')
      else rbind (parse_links rest) (\<lambda>links. Ok (link # links)))"
| "parse_links _ = Ok []"

definition sr_header_parse :: "bytes \<Rightarrow> (sr_header \<times> nat) result" where
  "sr_header_parse input =
     (if length input < SR_FIXED_HEADER_LEN
      then Err (PacketTooShort SR_FIXED_HEADER_LEN (length input))
      else if input ! 0 \<noteq> packet_type_code SegmentRouting
      then Err (InvalidSegmentRouting ''outer type is not SEGMENT_ROUTING'')
      else
        let link_count = unat (input ! 2) in
        if \<not> (1 \<le> link_count \<and> link_count \<le> MAX_LINKS)
        then Err (InvalidSegmentRouting ''link count is outside 1..=6'')
        else if unat (input ! 1) \<ge> link_count
        then Err (InvalidSegmentRouting ''next_id is outside the link array'')
        else
          let header_length = SR_FIXED_HEADER_LEN + 4 * link_count in
          if length input < header_length
          then Err (PacketTooShort header_length (length input))
          else
            let flag_byte = input ! 3 in
            rbind (sr_algorithm_try_from (flag_byte AND 0x07)) (\<lambda>alg.
            rbind (parse_links (slice_of 4 header_length input)) (\<lambda>links.
              Ok (\<lparr>next_id = input ! 1, hdr_links = links, hdr_algorithm = alg,
                   padding_length = drop_bit 3 flag_byte\<rparr>, header_length))))"

definition sr_header_encode :: "sr_header \<Rightarrow> bytes result" where
  "sr_header_encode h =
     rbind (validate_links (hdr_links h)) (\<lambda>_.
       if unat (next_id h) \<ge> length (hdr_links h)
       then Err (InvalidSegmentRouting ''next_id is outside the link array'')
       else if padding_length h > 31
       then Err (InvalidSegmentRouting ''padding length exceeds five-bit field'')
       else Ok ([packet_type_code SegmentRouting, next_id h, of_nat (length (hdr_links h)),
                 push_bit 3 (padding_length h) OR sr_algorithm_code (hdr_algorithm h)] @
                concat (map u32_be (hdr_links h))))"

definition validate_return_path :: "u32 list \<Rightarrow> sr_header \<Rightarrow> unit result" where
  "validate_return_path forward_links h =
     rbind (validate_links forward_links) (\<lambda>_.
       if next_id h \<noteq> 0
       then Err (InvalidSegmentRouting ''returned SR packet does not have next_id zero'')
       else if hdr_links h \<noteq> forward_links
       then Err (InvalidSegmentRouting ''returned SR path does not match configuration'')
       else Ok ())"

section \<open>The outer cipher\<close>

record sr_outer_cipher =
  outer_algorithm :: sr_encryption_algorithm
  outer_key :: bytes

definition required_key_length :: "sr_encryption_algorithm \<Rightarrow> nat" where
  "required_key_length alg = (case alg of SrNone \<Rightarrow> 0 | SrAes128 \<Rightarrow> 16 | SrAes256 \<Rightarrow> 32)"

definition outer_cipher_new :: "sr_encryption_algorithm \<Rightarrow> bytes \<Rightarrow> sr_outer_cipher result" where
  "outer_cipher_new alg raw_utf8_key =
     (let required = required_key_length alg in
      if length raw_utf8_key < required
      then Err (InvalidConfig ''SR {algorithm:?} key must contain at least {required} UTF-8 bytes'')
      else Ok \<lparr>outer_algorithm = alg,
               outer_key = take required raw_utf8_key @ replicate (32 - required) 0\<rparr>)"

definition crypt_blocks :: "crypto_prims \<Rightarrow> sr_outer_cipher \<Rightarrow> bool \<Rightarrow> bytes \<Rightarrow> bytes" where
  "crypt_blocks P oc encrypt bs =
     (case outer_algorithm oc of
        SrNone \<Rightarrow> bs
      | SrAes128 \<Rightarrow>
          crypt_chunks (if encrypt then aes128_encrypt_block P (take 16 (outer_key oc))
                        else aes128_decrypt_block P (take 16 (outer_key oc))) bs
      | SrAes256 \<Rightarrow>
          crypt_chunks (if encrypt then aes256_encrypt_block P (outer_key oc)
                        else aes256_decrypt_block P (outer_key oc)) bs)"

definition outer_encrypt :: "crypto_prims \<Rightarrow> sr_outer_cipher \<Rightarrow> bytes \<Rightarrow> (bytes \<times> u8) result" where
  "outer_encrypt P oc plaintext =
     (if outer_algorithm oc = SrNone then Ok (plaintext, 0)
      else
        let padding = (AES_BLOCK_LEN - length plaintext mod AES_BLOCK_LEN) mod AES_BLOCK_LEN;
            output = plaintext @ replicate padding 0
        in Ok (crypt_blocks P oc True output, of_nat padding))"

definition outer_decrypt :: "crypto_prims \<Rightarrow> sr_outer_cipher \<Rightarrow> bytes \<Rightarrow> u8 \<Rightarrow> bytes result" where
  "outer_decrypt P oc ciphertext padding =
     (if outer_algorithm oc = SrNone
      then if padding \<noteq> 0
           then Err (InvalidSegmentRouting ''unencrypted SR packet declares padding'')
           else Ok ciphertext
      else if ciphertext = [] \<or> length ciphertext mod AES_BLOCK_LEN \<noteq> 0
      then Err (InvalidSegmentRouting ''outer ciphertext is empty or not block-aligned'')
      else if unat padding \<ge> length ciphertext
      then Err (InvalidSegmentRouting ''outer padding is not smaller than plaintext'')
      else
        let output = crypt_blocks P oc False ciphertext in
        Ok (take (length output - unat padding) output))"

section \<open>Datagrams\<close>

record sr_session_tuple =
  tuple_session_id :: u16
  tuple_token :: u32
  tuple_encryption :: encryption_method

definition tuple_header :: "sr_session_tuple \<Rightarrow> packet_type \<Rightarrow> encryption_method \<Rightarrow> packet_header" where
  "tuple_header s t e = header_new t e (tuple_session_id s) (tuple_token s)"

definition sr_encode_fragment ::
  "u32 list \<Rightarrow> sr_session_tuple \<Rightarrow> packet_type \<Rightarrow> fragment \<Rightarrow> bytes result" where
  "sr_encode_fragment forward_links session t f =
     rbind (sr_outbound forward_links SrNone 0) (\<lambda>header.
     rbind (sr_header_encode header) (\<lambda>datagram.
     rbind (encode_sr f) (\<lambda>body.
       Ok (datagram @ header_encode (tuple_header session t NoEncryption) @ body))))"

definition sr_inner_payload ::
  "crypto_prims \<Rightarrow> u8 \<Rightarrow> bytes \<Rightarrow> sr_session_tuple \<Rightarrow> data_cipher \<Rightarrow>
     (packet_type \<times> encryption_method \<times> bytes) result" where
  "sr_inner_payload P v packet session session_cipher =
     (if v = 6 then Ok (DataIpv6, NoEncryption, packet)
      else
        case tuple_encryption session of
          NoEncryption \<Rightarrow> Ok (Data, NoEncryption, packet)
        | Xor \<Rightarrow> rbind (cipher_encrypt P session_cipher packet) (\<lambda>ct. Ok (DataEncrypted, Xor, ct))
        | Aes \<Rightarrow>
            if length packet mod AES_BLOCK_LEN \<noteq> 0 then Err FragmentEncryptionUnsupported
            else rbind (cipher_encrypt P session_cipher packet) (\<lambda>ct. Ok (DataEncrypted, Aes, ct)))"

definition sr_encode_data ::
  "crypto_prims \<Rightarrow> bytes \<Rightarrow> nat \<Rightarrow> u32 \<Rightarrow> u32 list \<Rightarrow> sr_session_tuple \<Rightarrow> data_cipher \<Rightarrow>
     sr_outer_cipher \<Rightarrow> bytes list result" where
  "sr_encode_data P packet0 payload_mtu fid forward_links session session_cipher outer =
     (if packet0 = [] then Err (InvalidFragment ''empty inner IP packet'')
      else
        let v = ip_version packet0 in
        if \<not> (v = 4 \<or> v = 6) then Err (InvalidFragment ''unknown inner IP version'')
        else
          rbind (trim_ip_packet packet0) (\<lambda>packet.
          if length packet > payload_mtu
          then
            if v = 4 \<and> tuple_encryption session \<noteq> NoEncryption \<or> outer_algorithm outer \<noteq> SrNone
            then Err FragmentEncryptionUnsupported
            else
              rbind (fragment_sr_packet packet payload_mtu fid) (\<lambda>(a, b).
                rmapM (sr_encode_fragment forward_links session
                         (if v = 4 then IpFragment else IpFragmentIpv6)) [a, b])
          else
            rbind (sr_inner_payload P v packet session session_cipher) (\<lambda>(t, inner_encryption, inner).
            if length inner > payload_mtu then Err FragmentEncryptionUnsupported
            else
              rbind (outer_encrypt P outer inner) (\<lambda>(outer_payload, padding).
              if length outer_payload > payload_mtu then Err FragmentEncryptionUnsupported
              else
                rbind (sr_outbound forward_links (outer_algorithm outer) padding) (\<lambda>header.
                rbind (sr_header_encode header) (\<lambda>encoded.
                  Ok [encoded @ header_encode (tuple_header session t inner_encryption) @
                      outer_payload]))))))"

datatype sr_decoded =
    SrData bytes
  | SrFragment packet_type fragment
  | SrEchoRequest sr_monitor_body
  | SrEchoResponse sr_monitor_body

definition sr_decode_data ::
  "crypto_prims \<Rightarrow> sr_header \<Rightarrow> packet_header \<Rightarrow> bytes \<Rightarrow> sr_session_tuple \<Rightarrow> data_cipher \<Rightarrow>
     sr_outer_cipher \<Rightarrow> sr_decoded result" where
  "sr_decode_data P h inner wire_payload session session_cipher outer =
     (if hdr_algorithm h \<noteq> outer_algorithm outer
      then Err (InvalidSegmentRouting ''outer algorithm does not match configuration'')
      else
        rbind (outer_decrypt P outer wire_payload (padding_length h)) (\<lambda>outer_plain.
        rbind
          (if packet_type inner = DataEncrypted
           then
             if encryption inner \<noteq> tuple_encryption session
                \<or> \<not> (tuple_encryption session = Xor \<or> tuple_encryption session = Aes)
             then Err (InvalidSegmentRouting ''inner encryption does not match session'')
             else cipher_decrypt P session_cipher outer_plain
           else if encryption inner \<noteq> NoEncryption
           then Err (InvalidSegmentRouting ''plain inner packet has a nonzero encryption method'')
           else Ok outer_plain) (\<lambda>plain.
        let expected_version = (if packet_type inner = DataIpv6 then 6 else 4) in
        rbind (trim_ip_packet plain) (\<lambda>packet.
          if ip_version packet \<noteq> expected_version
          then Err (InvalidSegmentRouting ''inner packet type does not match IP version'')
          else Ok (SrData packet)))))"

definition sr_decode_inner ::
  "crypto_prims \<Rightarrow> sr_header \<Rightarrow> packet_header \<Rightarrow> bytes \<Rightarrow> sr_session_tuple \<Rightarrow> data_cipher \<Rightarrow>
     sr_outer_cipher \<Rightarrow> sr_decoded result" where
  "sr_decode_inner P h inner wire_payload session session_cipher outer =
     (let plain_envelope = (hdr_algorithm h = SrNone \<and> padding_length h = 0 \<and>
                            encryption inner = NoEncryption)
      in
      if packet_type inner = EchoRequest \<or> packet_type inner = EchoResponse
      then
        if \<not> plain_envelope then Err (InvalidSegmentRouting ''SR echo packet is encrypted'')
        else rbind (monitor_decode wire_payload) (\<lambda>monitor.
               if packet_type inner = EchoRequest then Ok (SrEchoRequest monitor)
               else Ok (SrEchoResponse monitor))
      else if packet_type inner = IpFragment \<or> packet_type inner = IpFragmentIpv6
      then
        if \<not> plain_envelope then Err FragmentEncryptionUnsupported
        else rbind (parse_sr wire_payload) (\<lambda>f. Ok (SrFragment (packet_type inner) f))
      else if packet_type inner = Data \<or> packet_type inner = DataIpv6
              \<or> packet_type inner = DataEncrypted
      then sr_decode_data P h inner wire_payload session session_cipher outer
      else Err (InvalidSegmentRouting ''unsupported SR inner packet type''))"

definition decode_datagram ::
  "crypto_prims \<Rightarrow> bytes \<Rightarrow> u32 list \<Rightarrow> sr_session_tuple \<Rightarrow> data_cipher \<Rightarrow> sr_outer_cipher \<Rightarrow>
     sr_decoded result" where
  "decode_datagram P datagram forward_links session session_cipher outer =
     rbind (sr_header_parse datagram) (\<lambda>(h, sr_header_len).
     rbind (validate_return_path forward_links h) (\<lambda>_.
     if length datagram < sr_header_len + HEADER_LEN
     then Err (PacketTooShort (sr_header_len + HEADER_LEN) (length datagram))
     else
       rbind (decode_inner (drop sr_header_len datagram)) (\<lambda>inner.
       if session_id inner \<noteq> tuple_session_id session \<or> token inner \<noteq> tuple_token session
       then Err (InvalidSegmentRouting ''inner session tuple does not match'')
       else sr_decode_inner P h inner (drop (sr_header_len + HEADER_LEN) datagram)
              session session_cipher outer)))"

definition insert_fragment ::
  "packet_type \<Rightarrow> fragment \<Rightarrow> instant \<Rightarrow> sr_reassembler \<Rightarrow> bytes option result \<times> sr_reassembler" where
  "insert_fragment t f now r =
     (let (res, r') = sr_insert f now r in
      (rbind res (\<lambda>packet.
         case packet of
           None \<Rightarrow> Ok None
         | Some p0 \<Rightarrow>
             rbind (trim_ip_packet p0) (\<lambda>p.
               let expected = (if t = IpFragment then 4 else 6) in
               if ip_version p \<noteq> expected
               then Err (InvalidFragment ''reassembled IP version does not match SR fragment type'')
               else Ok (Some p))), r'))"

definition encode_monitor_datagram ::
  "packet_type \<Rightarrow> sr_monitor_body \<Rightarrow> u32 list \<Rightarrow> sr_session_tuple \<Rightarrow> bytes result" where
  "encode_monitor_datagram t body forward_links session =
     (if \<not> (t = EchoRequest \<or> t = EchoResponse)
      then Err (InvalidSegmentRouting ''monitor inner type is not echo'')
      else
        rbind (sr_outbound forward_links SrNone 0) (\<lambda>header.
        rbind (sr_header_encode header) (\<lambda>datagram.
          Ok (datagram @ header_encode (tuple_header session t NoEncryption) @
              monitor_encode body))))"

section \<open>The header codec\<close>

lemma sr_algorithm_code_small: "unat (sr_algorithm_code a) < 2 ^ 3"
  by (cases a) simp_all

interpretation sr_algorithm_registry: byte_registry sr_algorithm_code sr_algorithm_try_from
proof unfold_locales
  show "sr_algorithm_try_from (sr_algorithm_code k) = Ok k" for k
    by (cases k) (simp_all add: sr_algorithm_try_from_def)
  show "sr_algorithm_try_from b = Ok k \<Longrightarrow> sr_algorithm_code k = b" for b k
    by (auto simp: sr_algorithm_try_from_def split: if_splits)
qed

lemma mask_three: "(0x07 :: u8) = mask 3"
  by (simp add: mask_eq_exp_minus_1)

lemma flag_byte_fields:
  fixes p c :: u8
  assumes "unat p < 2 ^ 5" "unat c < 2 ^ 3"
  shows "(push_bit 3 p OR c) AND 0x07 = c" "drop_bit 3 (push_bit 3 p OR c) = p"
proof -
  note p = bit_small_word [OF assms(1)] and c = bit_small_word [OF assms(2)]
  show "(push_bit 3 p OR c) AND 0x07 = c"
    unfolding mask_three
    by (rule bit_word_eqI) (auto simp: bit_and_iff bit_or_iff bit_push_bit_iff bit_mask_iff dest: c)
  show "drop_bit 3 (push_bit 3 p OR c) = p"
    by (rule bit_word_eqI) (auto simp: bit_drop_bit_eq bit_or_iff bit_push_bit_iff dest: c p)
qed

lemma flag_byte_of_fields:
  fixes b :: u8
  shows "push_bit 3 (drop_bit 3 b) OR (b AND 0x07) = b" "unat (drop_bit 3 b) < 2 ^ 5"
proof -
  show "push_bit 3 (drop_bit 3 b) OR (b AND 0x07) = b"
    unfolding mask_three
    by (rule bit_word_eqI)
      (auto simp: bit_and_iff bit_or_iff bit_push_bit_iff bit_drop_bit_eq bit_mask_iff)
  have "unat (drop_bit 3 b) = unat b div 2 ^ 3"
    by (simp add: drop_bit_eq_div unat_div)
  then show "unat (drop_bit 3 b) < 2 ^ 5"
    using unat_u8_less [of b] by (simp add: div_less_iff_less_mult)
qed

lemma validate_links_iff:
  "validate_links ls = Ok () \<longleftrightarrow> 1 \<le> length ls \<and> length ls \<le> MAX_LINKS \<and> list_all link_in_range ls"
  by (auto simp: validate_links_def list_all_iff list_ex_iff split: if_splits)

lemma validate_links_rev [simp]: "validate_links (rev ls) = validate_links ls"
  by (simp add: validate_links_def list_ex_iff)

lemma parse_links_encode:
  "list_all link_in_range ls \<Longrightarrow> parse_links (concat (map u32_be ls)) = Ok ls"
proof (induction ls)
  case (Cons l ls)
  obtain a b c d where l: "u32_be l = [a, b, c, d]"
    using list_of_be4 [of l] by metis
  then have "from_be [a, b, c, d] = l" using from_word_round_trips(3) [of l] by simp
  with Cons l show ?case by (simp add: Let_def)
qed simp

lemma parse_links_sound:
  "parse_links bs = Ok ls \<Longrightarrow> list_all link_in_range ls \<and>
     concat (map u32_be ls) = take (4 * length ls) bs \<and> length ls = length bs div 4"
proof (induction bs arbitrary: ls rule: parse_links.induct)
  case (1 a b c d rest)
  then obtain ls' where ls: "ls = from_be [a, b, c, d] # ls'" "parse_links rest = Ok ls'"
    "link_in_range (from_be [a, b, c, d])"
    by (auto simp: Let_def result_simps split: if_splits)
  have "take (4 + m) (a # b # c # d # rest) = a # b # c # d # take m rest" for m
    by (simp add: numeral_eq_Suc)
  with 1 ls show ?case by (auto simp: Let_def be4_of_from)
qed auto

definition sr_header_ok :: "sr_header \<Rightarrow> bool" where
  "sr_header_ok h \<longleftrightarrow> validate_links (hdr_links h) = Ok () \<and> unat (next_id h) < length (hdr_links h) \<and>
     padding_length h \<le> 31"

definition sr_header_bytes :: "sr_header \<Rightarrow> bytes" where
  "sr_header_bytes h =
     [packet_type_code SegmentRouting, next_id h, of_nat (length (hdr_links h)),
      push_bit 3 (padding_length h) OR sr_algorithm_code (hdr_algorithm h)] @
     concat (map u32_be (hdr_links h))"

lemma length_concat_be4: "length (concat (map u32_be ls)) = 4 * length ls"
  by (induction ls) auto

lemma length_sr_header_bytes: "length (sr_header_bytes h) = 4 + 4 * length (hdr_links h)"
  by (simp add: sr_header_bytes_def length_concat_be4)

lemma sr_header_encode_iff:
  "sr_header_encode h = Ok bs \<longleftrightarrow> sr_header_ok h \<and> bs = sr_header_bytes h"
  by (auto simp: sr_header_encode_def sr_header_ok_def sr_header_bytes_def result_simps not_le not_less
      split: if_splits)

lemma sr_header_parse_bytes:
  assumes "sr_header_ok h"
  shows "sr_header_parse (sr_header_bytes h @ rest) = Ok (h, length (sr_header_bytes h))"
proof -
  let ?n = "length (hdr_links h)"
  have n: "1 \<le> ?n" "?n \<le> 6" "list_all link_in_range (hdr_links h)" "unat (next_id h) < ?n"
    "unat (padding_length h) < 2 ^ 5"
    using assms by (auto simp: sr_header_ok_def validate_links_iff word_le_nat_alt)
  then have u: "unat (of_nat ?n :: u8) = ?n" by (simp add: unat_of_nat)
  note flag = flag_byte_fields [OF n(5) sr_algorithm_code_small [of "hdr_algorithm h"]]
  have "slice_of 4 (4 + 4 * ?n) (sr_header_bytes h @ rest) = concat (map u32_be (hdr_links h))"
    by (simp add: sr_header_bytes_def slice_of_def length_concat_be4)
  moreover have "length (sr_header_bytes h @ rest) = 4 + 4 * ?n + length rest"
    by (simp add: length_sr_header_bytes)
  moreover have "(sr_header_bytes h @ rest) ! 0 = packet_type_code SegmentRouting"
    "(sr_header_bytes h @ rest) ! 1 = next_id h" "(sr_header_bytes h @ rest) ! 2 = of_nat ?n"
    "(sr_header_bytes h @ rest) ! 3 = push_bit 3 (padding_length h) OR sr_algorithm_code (hdr_algorithm h)"
    by (simp_all add: sr_header_bytes_def)
  ultimately show ?thesis
    using n flag parse_links_encode [OF n(3)]
    by (simp only: sr_header_parse_def u Let_def sr_algorithm_registry.parse_code)
      (simp add: length_sr_header_bytes)
qed

lemma sr_header_parse_sound:
  assumes "sr_header_parse input = Ok (h, n)"
  shows "sr_header_ok h" "input = sr_header_bytes h @ drop n input" "n = length (sr_header_bytes h)"
proof -
  define k where "k = unat (input ! 2)"
  from assms obtain alg ls where
    len: "4 \<le> length input" "4 + 4 * k \<le> length input" and t: "input ! 0 = packet_type_code SegmentRouting"
    and k: "1 \<le> k" "k \<le> 6" "unat (input ! 1) < k"
    and alg: "sr_algorithm_try_from (input ! 3 AND 0x07) = Ok alg"
    and ls: "parse_links (slice_of 4 (4 + 4 * k) input) = Ok ls"
    and h: "h = \<lparr>next_id = input ! 1, hdr_links = ls, hdr_algorithm = alg,
                 padding_length = drop_bit 3 (input ! 3)\<rparr>"
    and n: "n = 4 + 4 * k"
    by (auto simp: sr_header_parse_def result_simps Let_def k_def not_le not_less split: if_splits)
  have sl: "length (slice_of 4 (4 + 4 * k) input) = 4 * k" using len by (simp add: length_slice_of)
  note links = parse_links_sound [OF ls, unfolded sl]
  have lk: "length ls = k" using links by simp
  have code: "sr_algorithm_code alg = input ! 3 AND 0x07"
    using alg by (simp add: sr_algorithm_registry.parse_eq_Ok_iff)
  have pad: "drop_bit 3 (input ! 3) \<le> 31"
    using flag_byte_of_fields(2) [of "input ! 3"] by (simp add: word_le_nat_alt)
  show "sr_header_ok h"
    using links lk k pad by (auto simp: sr_header_ok_def validate_links_iff h)
  have body: "concat (map u32_be ls) = slice_of 4 (4 + 4 * k) input" using links lk sl by simp
  have "take 4 input = [input ! 0, input ! 1, input ! 2, input ! 3]"
    using len(1) by (intro nth_equalityI) (auto simp: less_Suc_eq numeral_eq_Suc)
  moreover have "(of_nat k :: u8) = input ! 2" by (simp add: k_def)
  ultimately have "sr_header_bytes h = take 4 input @ slice_of 4 (4 + 4 * k) input"
    using flag_byte_of_fields(1) [of "input ! 3"] t code body
    by (simp add: sr_header_bytes_def h lk)
  then have bytes: "sr_header_bytes h = take n input"
    using len take_as_slices [of 4 "4 + 4 * k" input] by (simp add: n)
  then show "input = sr_header_bytes h @ drop n input" by simp
  show "n = length (sr_header_bytes h)" using bytes len n by simp
qed

text \<open>The header a client emits: the configured path reversed, pointing at its last entry.\<close>

lemma sr_outbound_OkD:
  assumes "sr_outbound fl alg pad = Ok h"
  shows "h = \<lparr>next_id = of_nat (length fl - 1), hdr_links = rev fl, hdr_algorithm = alg, padding_length = pad\<rparr>"
    "validate_links fl = Ok ()" "sr_header_ok h" "sr_header_encode h = Ok (sr_header_bytes h)"
proof -
  show h: "h = \<lparr>next_id = of_nat (length fl - 1), hdr_links = rev fl, hdr_algorithm = alg, padding_length = pad\<rparr>"
    and v: "validate_links fl = Ok ()"
    using assms by (auto simp: sr_outbound_def result_simps split: if_splits)
  have "1 \<le> length fl" "length fl \<le> 6" "pad \<le> 31"
    using v assms by (auto simp: validate_links_iff sr_outbound_def result_simps split: if_splits)
  moreover from this have "unat (of_nat (length fl - 1) :: u8) < length fl"
    by (subst unat_of_nat_u8) auto
  ultimately show "sr_header_ok h" using v by (simp add: sr_header_ok_def h del: of_nat_diff)
  then show "sr_header_encode h = Ok (sr_header_bytes h)" by (simp add: sr_header_encode_iff)
qed

lemma sr_outbound_total:
  "validate_links fl = Ok () \<Longrightarrow> pad \<le> 31 \<Longrightarrow> \<exists>h. sr_outbound fl alg pad = Ok h"
  by (simp add: sr_outbound_def Let_def)

section \<open>The outer cipher\<close>

definition outer_wf :: "sr_outer_cipher \<Rightarrow> bool" where
  "outer_wf oc \<longleftrightarrow> length (outer_key oc) = 32"

lemma outer_cipher_new_wf:
  "outer_cipher_new alg key = Ok oc \<Longrightarrow> outer_wf oc \<and> outer_algorithm oc = alg"
  by (cases alg) (auto simp: outer_cipher_new_def outer_wf_def required_key_length_def Let_def
      split: if_splits)

lemma crypt_blocks_inverse:
  assumes "prims_ok P" "outer_wf oc"
  shows "crypt_blocks P oc False (crypt_blocks P oc True bs) = bs"
    "length (crypt_blocks P oc b bs) = length bs"
proof -
  have a: "block_cipher_ok 16 (aes128_encrypt_block P) (aes128_decrypt_block P)"
    "length (take 16 (outer_key oc)) = 16"
    and b: "block_cipher_ok 32 (aes256_encrypt_block P) (aes256_decrypt_block P)"
    "length (outer_key oc) = 32"
    using assms by (auto simp: prims_ok_def outer_wf_def)
  note inv = block_cipher_chunks [OF a] block_cipher_chunks [OF b]
  show "crypt_blocks P oc False (crypt_blocks P oc True bs) = bs"
    "length (crypt_blocks P oc b bs) = length bs"
    by (cases "outer_algorithm oc"; simp add: crypt_blocks_def inv)+
qed

lemma outer_round_trip:
  assumes "prims_ok P" "outer_wf oc" "p \<noteq> []"
  obtains ct pad where "outer_encrypt P oc p = Ok (ct, pad)" "outer_decrypt P oc ct pad = Ok p"
    "unat pad < 16" "length ct = length p + unat pad"
    "unat pad = (if outer_algorithm oc = SrNone then 0 else (16 - length p mod 16) mod 16)"
proof (cases "outer_algorithm oc = SrNone")
  case True
  then show thesis by (intro that [of p 0]) (simp_all add: outer_encrypt_def outer_decrypt_def)
next
  case False
  define n where "n = (16 - length p mod 16) mod 16"
  define ct where "ct = crypt_blocks P oc True (p @ replicate n 0)"
  have n: "n < 16" by (simp add: n_def)
  then have u: "unat (of_nat n :: u8) = n" by (simp add: unat_of_nat_u8)
  have len: "length ct = length p + n" by (simp add: ct_def crypt_blocks_inverse [OF assms(1,2)])
  have mod: "length ct mod 16 = 0"
    unfolding len n_def using length_zero_pad [of "length p"] by (simp only: dvd_eq_mod_eq_0)
  have enc: "outer_encrypt P oc p = Ok (ct, of_nat n)"
    using False by (simp only: outer_encrypt_def Let_def n_def ct_def if_False)
  have "ct \<noteq> []" using len assms(3) by auto
  then have "outer_decrypt P oc ct (of_nat n) = Ok p"
    using False mod assms(3) len
    by (simp add: outer_decrypt_def Let_def u crypt_blocks_inverse [OF assms(1,2)])
      (simp add: ct_def crypt_blocks_inverse [OF assms(1,2)])
  with enc n u len False show thesis
    by (intro that [of ct "of_nat n"]) (simp_all only: n_def if_False)
qed

section \<open>The return path\<close>

text \<open>What the far end of a path does with an envelope before it sends a datagram back: the
  links in the opposite order and the pointer at entry 0.\<close>

definition return_envelope :: "sr_header \<Rightarrow> sr_header" where
  "return_envelope h = h\<lparr>next_id := 0, hdr_links := rev (hdr_links h)\<rparr>"

definition sr_returned :: "bytes \<Rightarrow> bytes" where
  "sr_returned d =
     (case sr_header_parse d of
        Inl _ \<Rightarrow> d
      | Inr (h, n) \<Rightarrow> sr_header_bytes (return_envelope h) @ drop n d)"

lemma sr_returned_outbound:
  assumes "sr_outbound fl alg pad = Ok h"
  shows "sr_returned (sr_header_bytes h @ rest) = sr_header_bytes (return_envelope h) @ rest"
  using sr_header_parse_bytes [OF sr_outbound_OkD(3) [OF assms]] by (simp add: sr_returned_def)

lemma return_envelope_valid:
  assumes "sr_outbound fl alg pad = Ok h"
  shows "sr_header_ok (return_envelope h)" "validate_return_path fl (return_envelope h) = Ok ()"
    "hdr_algorithm (return_envelope h) = alg" "padding_length (return_envelope h) = pad"
  using sr_outbound_OkD [OF assms]
  by (auto simp: sr_header_ok_def return_envelope_def validate_return_path_def)

lemma decode_returned:
  assumes "sr_outbound fl alg pad = Ok h"
  shows "decode_datagram P (sr_returned (sr_header_bytes h @ header_encode (tuple_header s t e) @ payload))
      fl s c oc = sr_decode_inner P (return_envelope h) (tuple_header s t e) payload s c oc"
proof -
  let ?h = "return_envelope h" and ?i = "tuple_header s t e"
  note ret = return_envelope_valid [OF assms]
  have "session_id ?i = tuple_session_id s" "token ?i = tuple_token s"
    by (simp_all add: tuple_header_def header_new_def)
  then show ?thesis
    by (simp add: sr_returned_outbound [OF assms] decode_datagram_def sr_header_parse_bytes [OF ret(1)]
        ret(2))
qed

lemma tuple_header_fields [simp]:
  "packet_type (tuple_header s t e) = t" "encryption (tuple_header s t e) = e"
  by (simp_all add: tuple_header_def header_new_def)

section \<open>Whole packets\<close>

lemma sr_inner_payload_round_trip:
  assumes ok: "prims_ok P" "cipher_wf c" "cipher_method c = tuple_encryption s"
    and v: "ip_version p = 4 \<or> ip_version p = 6"
    and aes: "ip_version p = 4 \<and> tuple_encryption s = Aes \<longrightarrow> length p mod 16 = 0"
  obtains t e inner where "sr_inner_payload P (ip_version p) p s c = Ok (t, e, inner)"
    "length inner = length p" "t = Data \<or> t = DataIpv6 \<or> t = DataEncrypted"
    "(if t = DataIpv6 then 6 else 4) = ip_version p"
    "if t = DataEncrypted
     then e = tuple_encryption s \<and> (e = Xor \<or> e = Aes) \<and> cipher_decrypt P c inner = Ok p
     else e = NoEncryption \<and> inner = p"
proof (cases "ip_version p = 4 \<and> tuple_encryption s \<noteq> NoEncryption")
  case True
  obtain ct where ct: "cipher_encrypt P c p = Ok ct"
    "cipher_decrypt P c ct = Ok (p @ replicate (cipher_padding c (length p)) 0)"
    "length ct = length p + cipher_padding c (length p)"
    using cipher_round_trip [OF ok(1,2)] .
  have "cipher_padding c (length p) = 0"
    using ok(3) aes True by (cases c) auto
  moreover have "tuple_encryption s = Xor \<or> tuple_encryption s = Aes"
    using True by (cases "tuple_encryption s") auto
  ultimately show thesis using True ct aes
    by (intro that [of DataEncrypted "tuple_encryption s" ct])
      (auto simp: sr_inner_payload_def split: encryption_method.splits)
next
  case False
  then show thesis
    using v by (intro that [of "if ip_version p = 6 then DataIpv6 else Data" NoEncryption p])
      (auto simp: sr_inner_payload_def)
qed

lemma sr_data_round_trip:
  assumes ok: "prims_ok P" "cipher_wf c" "cipher_method c = tuple_encryption s" "outer_wf oc"
    and links: "validate_links fl = Ok ()" and raw: "trim_ip_packet raw = Ok p"
    and fits: "length p + (if outer_algorithm oc = SrNone then 0 else (16 - length p mod 16) mod 16) \<le> mtu"
    and aes: "ip_version p = 4 \<and> tuple_encryption s = Aes \<longrightarrow> length p mod 16 = 0"
  shows "\<exists>d. sr_encode_data P raw mtu fid fl s c oc = Ok [d] \<and>
    decode_datagram P (sr_returned d) fl s c oc = Ok (SrData p)"
proof -
  have p: "complete_ip_packet p" "p \<noteq> []" "ip_version p = 4 \<or> ip_version p = 6"
    using trim_ip_packet_prefix(1) [OF raw] complete_ip_packet_version by blast+
  obtain rest where raw': "raw = p @ rest" using trim_ip_packet_prefix(2) [OF raw] by blast
  have vraw: "raw \<noteq> []" "ip_version raw = ip_version p"
    using p(2) by (auto simp: raw' ip_version_def nth_append)
  obtain t e inner where i: "sr_inner_payload P (ip_version p) p s c = Ok (t, e, inner)"
    "length inner = length p" "t = Data \<or> t = DataIpv6 \<or> t = DataEncrypted"
    "(if t = DataIpv6 then 6 else 4) = ip_version p"
    "if t = DataEncrypted
     then e = tuple_encryption s \<and> (e = Xor \<or> e = Aes) \<and> cipher_decrypt P c inner = Ok p
     else e = NoEncryption \<and> inner = p"
    using sr_inner_payload_round_trip [OF ok(1-3) p(3) aes] by blast
  have "inner \<noteq> []" using i(2) p(2) by auto
  then obtain ct pad where o: "outer_encrypt P oc inner = Ok (ct, pad)" "outer_decrypt P oc ct pad = Ok inner"
    "unat pad < 16" "length ct = length inner + unat pad"
    "unat pad = (if outer_algorithm oc = SrNone then 0 else (16 - length inner mod 16) mod 16)"
    using outer_round_trip [OF ok(1,4)] by metis
  have "pad \<le> 31" using o(3) by (simp add: word_le_nat_alt)
  then obtain h where h: "sr_outbound fl (outer_algorithm oc) pad = Ok h"
    using sr_outbound_total [OF links] by blast
  have "length ct \<le> mtu" using fits by (simp only: o(4,5) i(2))
  moreover have "length p \<le> mtu" using fits by (rule add_leD1)
  ultimately have enc: "sr_encode_data P raw mtu fid fl s c oc =
      Ok [sr_header_bytes h @ header_encode (tuple_header s t e) @ ct]"
    using vraw raw p(3) i(1,2) o(1) h sr_outbound_OkD(4) [OF h]
    by (auto simp: sr_encode_data_def Let_def)
  have "sr_decode_inner P (return_envelope h) (tuple_header s t e) ct s c oc =
      sr_decode_data P (return_envelope h) (tuple_header s t e) ct s c oc"
    using i(3) by (auto simp: sr_decode_inner_def Let_def)
  also have "\<dots> = Ok (SrData p)"
    using i(4,5) o(2) trim_ip_packet_complete [OF p(1), of "[]"] return_envelope_valid(3,4) [OF h]
    by (auto simp: sr_decode_data_def Let_def split: if_splits)
  finally show ?thesis using enc decode_returned [OF h] by auto
qed

section \<open>Fragmented packets\<close>

lemma parse_encode_sr: "fragment_ok f \<Longrightarrow> encode_sr f = Ok b \<Longrightarrow> parse_sr b = Ok f"
  using fragment_parse_bytes [of f Little "[]"] fragment_encode_ok [of f Little]
  by (simp add: encode_sr_def parse_sr_def)

lemma sr_encode_fragment_round_trip:
  assumes "fragment_ok f" "validate_links fl = Ok ()" "t = IpFragment \<or> t = IpFragmentIpv6"
  obtains d where "sr_encode_fragment fl s t f = Ok d"
    "decode_datagram P (sr_returned d) fl s c oc = Ok (SrFragment t f)"
proof -
  obtain h where h: "sr_outbound fl SrNone 0 = Ok h" using sr_outbound_total [OF assms(2), where pad = 0 and alg = SrNone] by auto
  obtain b where b: "encode_sr f = Ok b" using fragment_encode_ok [OF assms(1)] by (auto simp: encode_sr_def)
  have "sr_encode_fragment fl s t f =
      Ok (sr_header_bytes h @ header_encode (tuple_header s t NoEncryption) @ b)"
    using sr_outbound_OkD(4) [OF h] by (simp add: sr_encode_fragment_def h b)
  moreover have "sr_decode_inner P (return_envelope h) (tuple_header s t NoEncryption) b s c oc =
      Ok (SrFragment t f)"
    using assms(3) parse_encode_sr [OF assms(1) b] return_envelope_valid(3,4) [OF h]
    by (auto simp: sr_decode_inner_def)
  ultimately show thesis using that decode_returned [OF h] by auto
qed

lemma split_sendable:
  assumes "fragment_sr_packet p mtu fid = Ok (a, b)"
  shows "sendable fid [a, b]" "parts_data [a, b] = p" "a \<noteq> b"
proof -
  note sp = fragment_sr_packet_split [OF assms]
  show "sendable fid [a, b]"
    using sp unfolding sendable_def whole_packet_def parts_bytes_def
    by (auto simp: part_start_def part_end_def fragment_ok_def)
  show "parts_data [a, b] = p" using sp by simp
  show "a \<noteq> b" using sp by auto
qed

lemma split_feed:
  assumes "fragment_sr_packet p mtu fid = Ok (a, b)" "fs = [a, b] \<or> fs = [b, a]"
    and "t2 \<le> t1 + SR_TIMEOUT"
  shows "fst (feed sr_insert (zip fs [t1, t2]) sr_new) = [Ok None, Ok (Some p)]"
proof -
  note sd = split_sendable [OF assms(1)]
  have col: "collecting fid [a, b] t1 {} sr_new"
    using sr_ok_new(1) by (simp add: collecting_def) (simp add: sr_new_def)
  have "fst (feed sr_insert (zip fs [t1, t2]) sr_new) =
      replicate (length (zip fs [t1, t2]) - 1) (Ok None) @ [Ok (Some (parts_data [a, b]))]"
    by (rule collecting_feed [OF col sd(1), THEN conjunct1]) (use assms(2,3) sd(3) in auto)
  then show ?thesis using assms(2) sd(2) by auto
qed

lemma insert_fragment_feed:
  assumes "fst (feed sr_insert [(f, t1), (g, t2)] r) = [Ok None, Ok (Some p)]" "complete_ip_packet p"
  shows "fst (feed (insert_fragment (if ip_version p = 4 then IpFragment else IpFragmentIpv6))
      [(f, t1), (g, t2)] r) = [Ok None, Ok (Some p)]"
  using assms trim_ip_packet_complete [OF assms(2), of "[]"] complete_ip_packet_version [OF assms(2)]
  by (auto simp: insert_fragment_def Let_def split_def)

section \<open>Monitor datagrams\<close>

lemma monitor_datagram_round_trip:
  assumes "validate_links fl = Ok ()" "t = EchoRequest \<or> t = EchoResponse"
  obtains d where "encode_monitor_datagram t body fl s = Ok d"
    "decode_datagram P (sr_returned d) fl s c oc =
       Ok (if t = EchoRequest then SrEchoRequest body else SrEchoResponse body)"
proof -
  obtain h where h: "sr_outbound fl SrNone 0 = Ok h"
    using sr_outbound_total [OF assms(1), where pad = 0 and alg = SrNone] by auto
  have "encode_monitor_datagram t body fl s =
      Ok (sr_header_bytes h @ header_encode (tuple_header s t NoEncryption) @ monitor_encode body)"
    using assms(2) sr_outbound_OkD(4) [OF h] by (simp add: encode_monitor_datagram_def h)
  moreover have "sr_decode_inner P (return_envelope h) (tuple_header s t NoEncryption)
      (monitor_encode body) s c oc = Ok (if t = EchoRequest then SrEchoRequest body else SrEchoResponse body)"
    using assms(2) return_envelope_valid(3,4) [OF h] monitor_wire.decode_encode_exact [of body]
    by (auto simp: sr_decode_inner_def)
  ultimately show thesis using that decode_returned [OF h] by auto
qed

section \<open>Properties\<close>

text \<open>(SR envelope codec). \<open>SrHeader::parse\<close> accepts exactly the inputs that start with what
  \<open>SrHeader::encode\<close> emits for a header, and returns that header with its length.\<close>

theorem sr_header_parse_iff:
  "sr_header_parse input = Ok (h, n) \<longleftrightarrow>
     (\<exists>encoded rest. sr_header_encode h = Ok encoded \<and> input = encoded @ rest \<and> n = length encoded)"
  using sr_header_parse_sound sr_header_parse_bytes sr_header_encode_iff by metis

text \<open>C6 (SR data round trip). With lawful ciphers, a valid path and a packet that fits the payload
  MTU after outer padding (and is block-aligned when the session uses AES on IPv4), \<open>encode_data\<close>
  emits one datagram, and that datagram, sent back along the reversed path, decodes to the
  packet without its trailing padding.\<close>

theorem sr_encode_decode_data:
  assumes "prims_ok P" and "cipher_wf c" and "cipher_method c = tuple_encryption s" and "outer_wf oc"
    and "validate_links fl = Ok ()" and "trim_ip_packet raw = Ok p"
    and "length p + (if outer_algorithm oc = SrNone then 0 else (16 - length p mod 16) mod 16) \<le> mtu"
    and "ip_version p = 4 \<and> tuple_encryption s = Aes \<longrightarrow> length p mod 16 = 0"
  shows "\<exists>d. sr_encode_data P raw mtu fid fl s c oc = Ok [d] \<and>
    decode_datagram P (sr_returned d) fl s c oc = Ok (SrData p)"
  by (rule sr_data_round_trip [OF assms])

theorem sr_encode_decode_data_witness:
  "\<exists>d. sr_encode_data demo_prims ([0x45, 0, 0, 20] @ replicate 16 7 @ [0, 0]) 64 1 [5, 9]
      \<lparr>tuple_session_id = 3, tuple_token = 4, tuple_encryption = Xor\<rparr> (XorCipher (replicate 16 1))
      \<lparr>outer_algorithm = SrAes128, outer_key = replicate 32 2\<rparr> = Ok [d]"
proof -
  have "trim_ip_packet ([0x45, 0, 0, 20] @ replicate 16 7 @ [0, 0]) = Ok ([0x45, 0, 0, 20] @ replicate 16 7)"
    by (rule trim_ip_packet_complete [of "[0x45, 0, 0, 20] @ replicate 16 7" "[0, 0]", simplified append_assoc])
      (simp add: complete_ip_packet_def ip_version_def from_be_def nth_append)
  then show ?thesis
    using sr_encode_decode_data [of demo_prims "XorCipher (replicate 16 1)"
        "\<lparr>tuple_session_id = 3, tuple_token = 4, tuple_encryption = Xor\<rparr>"
        "\<lparr>outer_algorithm = SrAes128, outer_key = replicate 32 2\<rparr>" "[5, 9]"
        "[0x45, 0, 0, 20] @ replicate 16 7 @ [0, 0]" "[0x45, 0, 0, 20] @ replicate 16 7" 64 1]
      prims_ok_demo
    by (auto simp: outer_wf_def validate_links_def link_in_range_def)
qed

text \<open>(SR fragmentation end to end). Without encryption, a packet longer than the payload MTU and
  at most twice as long leaves as two datagrams; sent back, they decode to two fragments
  which the reassembler, given them in either order within two seconds, turns back into
  exactly the packet.\<close>

theorem sr_fragments_round_trip:
  assumes "validate_links fl = Ok ()" and "trim_ip_packet raw = Ok p"
    and "0 < mtu" and "mtu \<le> 2047" and "mtu < length p" and "length p \<le> 2 * mtu"
    and "outer_algorithm oc = SrNone" and "ip_version p = 4 \<longrightarrow> tuple_encryption s = NoEncryption"
    and "t2 \<le> t1 + SR_TIMEOUT"
  shows "\<exists>d1 d2 t a b. sr_encode_data P raw mtu fid fl s c oc = Ok [d1, d2] \<and>
    decode_datagram P (sr_returned d1) fl s c oc = Ok (SrFragment t a) \<and>
    decode_datagram P (sr_returned d2) fl s c oc = Ok (SrFragment t b) \<and>
    fst (feed (insert_fragment t) [(a, t1), (b, t2)] sr_new) = [Ok None, Ok (Some p)] \<and>
    fst (feed (insert_fragment t) [(b, t1), (a, t2)] sr_new) = [Ok None, Ok (Some p)]"
proof -
  have p: "complete_ip_packet p" "p \<noteq> []" "ip_version p = 4 \<or> ip_version p = 6"
    using trim_ip_packet_prefix(1) [OF assms(2)] complete_ip_packet_version by blast+
  obtain rest where raw: "raw = p @ rest" using trim_ip_packet_prefix(2) [OF assms(2)] by blast
  have vraw: "raw \<noteq> []" "ip_version raw = ip_version p"
    using p(2) by (auto simp: raw ip_version_def nth_append)
  define t where "t = (if ip_version p = 4 then IpFragment else IpFragmentIpv6)"
  obtain a b where ab: "fragment_sr_packet p mtu fid = Ok (a, b)"
    using fragment_sr_packet_total assms(3-6) by blast
  note ok = fragment_sr_packet_split(1,2) [OF ab]
  have tt: "t = IpFragment \<or> t = IpFragmentIpv6" by (simp add: t_def)
  obtain d1 where d1: "sr_encode_fragment fl s t a = Ok d1"
    "decode_datagram P (sr_returned d1) fl s c oc = Ok (SrFragment t a)"
    using sr_encode_fragment_round_trip [OF ok(1) assms(1) tt] .
  obtain d2 where d2: "sr_encode_fragment fl s t b = Ok d2"
    "decode_datagram P (sr_returned d2) fl s c oc = Ok (SrFragment t b)"
    using sr_encode_fragment_round_trip [OF ok(2) assms(1) tt] .
  have "sr_encode_data P raw mtu fid fl s c oc = Ok [d1, d2]"
    using vraw p(3) assms(2,5,7,8) ab d1(1) d2(1)
    by (auto simp: sr_encode_data_def Let_def t_def)
  moreover have "fst (feed (insert_fragment t) [(a, t1), (b, t2)] sr_new) = [Ok None, Ok (Some p)]"
    "fst (feed (insert_fragment t) [(b, t1), (a, t2)] sr_new) = [Ok None, Ok (Some p)]"
    using insert_fragment_feed [OF _ p(1)] split_feed [OF ab, of "[a, b]" t2 t1]
      split_feed [OF ab, of "[b, a]" t2 t1] assms(9) by (simp_all only: t_def) simp_all
  ultimately show ?thesis using d1 d2 by blast
qed

theorem sr_fragments_round_trip_witness:
  "\<exists>d1 d2. sr_encode_data demo_prims ([0x45, 0, 0, 24] @ replicate 20 7) 20 1 [5, 9]
      \<lparr>tuple_session_id = 3, tuple_token = 4, tuple_encryption = NoEncryption\<rparr> NoCipher
      \<lparr>outer_algorithm = SrNone, outer_key = replicate 32 0\<rparr> = Ok [d1, d2]"
proof -
  have "trim_ip_packet (([0x45, 0, 0, 24] @ replicate 20 7) @ []) = Ok ([0x45, 0, 0, 24] @ replicate 20 7)"
    by (rule trim_ip_packet_complete) (simp add: complete_ip_packet_def ip_version_def from_be_def nth_append)
  then show ?thesis
    using sr_fragments_round_trip [of "[5, 9]" "[0x45, 0, 0, 24] @ replicate 20 7"
        "[0x45, 0, 0, 24] @ replicate 20 7" 20 "\<lparr>outer_algorithm = SrNone, outer_key = replicate 32 0\<rparr>"
        "\<lparr>tuple_session_id = 3, tuple_token = 4, tuple_encryption = NoEncryption\<rparr>" 0 0
        demo_prims 1 NoCipher]
    by (auto simp: validate_links_def link_in_range_def)
qed

text \<open>C10 (SR acceptance). Whatever \<open>decode_datagram\<close> accepts came over exactly the configured path,
  has the session's ID and token in its inner header, and, when it is a data packet, is an IP
  packet of exactly its announced length.\<close>

theorem sr_decode_authenticated:
  assumes "decode_datagram P d fl s c oc = Ok x"
  shows "\<exists>h n inner. sr_header_parse d = Ok (h, n) \<and> next_id h = 0 \<and> hdr_links h = fl \<and>
    decode_inner (drop n d) = Ok inner \<and> session_id inner = tuple_session_id s \<and>
    token inner = tuple_token s \<and> (\<forall>p. x = SrData p \<longrightarrow> complete_ip_packet p)"
proof -
  from assms obtain h n inner where "sr_header_parse d = Ok (h, n)" "validate_return_path fl h = Ok ()"
    "decode_inner (drop n d) = Ok inner" "session_id inner = tuple_session_id s"
    "token inner = tuple_token s"
    and x: "sr_decode_inner P h inner (drop (n + 8) d) s c oc = Ok x"
    by (auto simp: decode_datagram_def result_simps split: if_splits)
  moreover from this have "next_id h = 0" "hdr_links h = fl"
    by (auto simp: validate_return_path_def result_simps split: if_splits)
  moreover have "complete_ip_packet p" if "x = SrData p" for p
    using x that by (auto simp: sr_decode_inner_def sr_decode_data_def Let_def result_simps
        dest!: trim_ip_packet_prefix(1) split: if_splits)
  ultimately show ?thesis by blast
qed

theorem sr_decode_authenticated_witness:
  "\<exists>d h n. decode_datagram demo_prims d [5, 9]
      \<lparr>tuple_session_id = 3, tuple_token = 4, tuple_encryption = NoEncryption\<rparr> NoCipher
      \<lparr>outer_algorithm = SrNone, outer_key = replicate 32 0\<rparr> = Ok (SrEchoRequest (fst (monitor_request 1 (monitor_new 2))))
    \<and> sr_header_parse d = Ok (h, n) \<and> hdr_links h = [5, 9]"
proof -
  let ?s = "\<lparr>tuple_session_id = 3, tuple_token = 4, tuple_encryption = NoEncryption\<rparr>"
  let ?o = "\<lparr>outer_algorithm = SrNone, outer_key = replicate 32 0\<rparr>"
  let ?b = "fst (monitor_request 1 (monitor_new 2))"
  have "validate_links [5, 9] = Ok ()" by (simp add: validate_links_def link_in_range_def)
  then obtain d where "decode_datagram demo_prims d [5, 9] ?s NoCipher ?o = Ok (SrEchoRequest ?b)"
    using monitor_datagram_round_trip [of "[5, 9]" EchoRequest ?b ?s demo_prims NoCipher ?o] by auto
  from sr_decode_authenticated [OF this] this show ?thesis by blast
qed


end
