(* ===== verification/Config.thy ===== *)
theory Config
  imports Segment_Routing
begin

text \<open>
  Configuration (\<open>src/config.rs\<close>): the reconnect policy, the Segment Routing path and the
  client settings, with their validation. Name resolution (\<open>to_socket_addrs\<close>) asks the
  operating system, so it is a parameter \<open>resolver\<close>: the addresses of a server string, or the
  kind of I/O error.
\<close>

record reconnect_policy =
  rc_attempts :: u32
  initial_delay_ms :: u64
  max_delay_ms :: u64

definition reconnect_default :: reconnect_policy where
  "reconnect_default = \<lparr>rc_attempts = 10, initial_delay_ms = 1000, max_delay_ms = 30000\<rparr>"

record segment_routing_config =
  sr_config_id :: u32
  keepalive :: bool
  encrypt_algo :: sr_encryption_algorithm
  encrypt_key :: bytes
  config_links :: "u32 list"
  local_sr_id :: "u32 option"

definition sr_config_validate :: "segment_routing_config \<Rightarrow> unit result" where
  "sr_config_validate cfg =
     (if \<not> (1 \<le> length (config_links cfg) \<and> length (config_links cfg) \<le> 6)
         \<or> list_ex (\<lambda>link. \<not> (1 \<le> link \<and> link \<le> 0x00ffffff)) (config_links cfg)
      then Err (InvalidConfig ''segment-routing links must contain 1..=6 IDs in 1..=0x00ffffff'')
      else rbind (outer_cipher_new (encrypt_algo cfg) (encrypt_key cfg)) (\<lambda>_. Ok ()))"

definition monitor_sr_id :: "segment_routing_config \<Rightarrow> u32" where
  "monitor_sr_id cfg =
     (case local_sr_id cfg of
        Some v \<Rightarrow> if v \<noteq> 0 then v else sr_config_id cfg
      | None \<Rightarrow> sr_config_id cfg)"

record client_config =
  server :: ustr
  config_mtu :: u16
  config_encryption :: encryption_method
  receive_poll_ms :: u64
  reconnect :: reconnect_policy
  segment_routing :: "segment_routing_config option"

definition config_new :: "ustr \<Rightarrow> client_config" where
  "config_new srv =
     \<lparr>server = srv, config_mtu = 1400, config_encryption = Xor, receive_poll_ms = 250,
      reconnect = reconnect_default, segment_routing = None\<rparr>"

definition resolve_server ::
  "(ustr \<Rightarrow> error_kind + socket_addr list) \<Rightarrow> client_config \<Rightarrow> socket_addr result" where
  "resolve_server resolver cfg =
     (case resolver (server cfg) of
        Inl k \<Rightarrow> Err (Io k)
      | Inr [] \<Rightarrow> Err (InvalidConfig ''server resolved to no address'')
      | Inr (a # _) \<Rightarrow> Ok a)"

definition config_validate ::
  "(ustr \<Rightarrow> error_kind + socket_addr list) \<Rightarrow> client_config \<Rightarrow> unit result" where
  "config_validate resolver cfg =
     (if \<not> (576 \<le> config_mtu cfg \<and> config_mtu cfg \<le> 9000)
      then Err (InvalidConfig ''MTU {} is outside 576..=9000'')
      else if receive_poll_ms cfg = 0
      then Err (InvalidConfig ''receive_poll_ms must be greater than zero'')
      else if max_delay_ms (reconnect cfg) = 0
      then Err (InvalidConfig ''reconnect.max_delay_ms must be greater than zero'')
      else if initial_delay_ms (reconnect cfg) > max_delay_ms (reconnect cfg)
      then Err (InvalidConfig ''reconnect.initial_delay_ms must not exceed reconnect.max_delay_ms'')
      else
        rbind (case segment_routing cfg of Some sr \<Rightarrow> sr_config_validate sr | None \<Rightarrow> Ok ()) (\<lambda>_.
        rbind (resolve_server resolver cfg) (\<lambda>_. Ok ())))"

text \<open>A duration in milliseconds, in the microseconds of the model.\<close>

definition from_millis :: "u64 \<Rightarrow> duration" where
  "from_millis ms = unat ms * 1000"

definition receive_poll :: "client_config \<Rightarrow> duration" where
  "receive_poll cfg = from_millis (receive_poll_ms cfg)"

section \<open>What a validated configuration guarantees\<close>

lemma sr_config_validate_iff:
  "sr_config_validate cfg = Ok () \<longleftrightarrow>
     validate_links (config_links cfg) = Ok () \<and>
     (\<exists>oc. outer_cipher_new (encrypt_algo cfg) (encrypt_key cfg) = Ok oc)"
  by (auto simp: sr_config_validate_def validate_links_iff link_in_range_def list_all_iff list_ex_iff
      result_simps Suc_le_eq split: if_splits)

lemma config_validate_OkD:
  assumes "config_validate resolver cfg = Ok ()"
  shows "576 \<le> config_mtu cfg" "config_mtu cfg \<le> 9000" "receive_poll_ms cfg \<noteq> 0"
    "initial_delay_ms (reconnect cfg) \<le> max_delay_ms (reconnect cfg)"
    "\<And>sr. segment_routing cfg = Some sr \<Longrightarrow> sr_config_validate sr = Ok ()"
    "\<exists>a. resolve_server resolver cfg = Ok a"
  using assms by (auto simp: config_validate_def result_simps not_less split: if_splits option.splits)

text \<open>(configuration gate). A validated Segment Routing configuration is exactly one for which the
  transport can be set up: its path passes the transport's own link check, so an envelope can
  be built for every padding, and its key is long enough for the selected cipher. The two
  checks of the source, one in the configuration and one in the transport, agree.\<close>

theorem sr_config_usable_iff:
  "sr_config_validate cfg = Ok () \<longleftrightarrow>
     (\<exists>oc. outer_cipher_new (encrypt_algo cfg) (encrypt_key cfg) = Ok oc \<and>
        (\<exists>h. sr_outbound (config_links cfg) (outer_algorithm oc) 31 = Ok h))"
proof -
  have "(\<exists>h. sr_outbound fl alg 31 = Ok h) \<longleftrightarrow> validate_links fl = Ok ()" for fl alg
    by (auto simp: sr_outbound_def result_simps)
  then show ?thesis by (auto simp: sr_config_validate_iff)
qed


end
