(* ===== verification/Session_Open.thy ===== *)
theory Session_Open
  imports Protocol Config
begin

text \<open>
  Answers to an OPEN (\<open>src/client.rs\<close>): what the client takes from an \<open>OPEN_ACK\<close> and how it
  reads an \<open>OPEN_REJECT\<close>, with the string functions of the standard library they use.
\<close>

section \<open>Strings\<close>

definition ascii_str :: "string \<Rightarrow> ustr" where
  "ascii_str s = map of_char s"

text \<open>\<open>String::from_utf8_lossy\<close>: one scalar value per well-formed sequence and one replacement
  character per maximal ill-formed prefix. \<open>utf8_step\<close> gives the scalar value and the number of
  bytes consumed; a missing byte reads as 0, which continues no sequence.\<close>

definition byte_at :: "bytes \<Rightarrow> nat \<Rightarrow> nat" where
  "byte_at bs i = (if i < length bs then unat (bs ! i) else 0)"

definition is_cont :: "nat \<Rightarrow> bool" where
  "is_cont b \<longleftrightarrow> 0x80 \<le> b \<and> b \<le> 0xbf"

definition utf8_step :: "bytes \<Rightarrow> nat \<times> nat" where
  "utf8_step bs =
     (let a = byte_at bs 0; b = byte_at bs 1; c = byte_at bs 2; d = byte_at bs 3 in
      if a < 0x80 then (a, 1)
      else if 0xc2 \<le> a \<and> a \<le> 0xdf then
        if is_cont b then ((a - 0xc0) * 64 + (b - 0x80), 2) else (0xfffd, 1)
      else if 0xe0 \<le> a \<and> a \<le> 0xef then
        if \<not> is_cont b \<or> (a = 0xe0 \<and> b < 0xa0) \<or> (a = 0xed \<and> b > 0x9f) then (0xfffd, 1)
        else if \<not> is_cont c then (0xfffd, 2)
        else ((a - 0xe0) * 4096 + (b - 0x80) * 64 + (c - 0x80), 3)
      else if 0xf0 \<le> a \<and> a \<le> 0xf4 then
        if \<not> is_cont b \<or> (a = 0xf0 \<and> b < 0x90) \<or> (a = 0xf4 \<and> b > 0x8f) then (0xfffd, 1)
        else if \<not> is_cont c then (0xfffd, 2)
        else if \<not> is_cont d then (0xfffd, 3)
        else ((a - 0xf0) * 262144 + (b - 0x80) * 4096 + (c - 0x80) * 64 + (d - 0x80), 4)
      else (0xfffd, 1))"

function from_utf8_lossy :: "bytes \<Rightarrow> ustr" where
  "from_utf8_lossy bs =
     (if bs = [] then [] else fst (utf8_step bs) # from_utf8_lossy (drop (snd (utf8_step bs)) bs))"
  by pat_completeness auto
termination
  by (relation "measure length") (auto simp: utf8_step_def Let_def)

declare from_utf8_lossy.simps [simp del]

text \<open>\<open>str::trim\<close> removes the Unicode \<open>White_Space\<close> characters at both ends.\<close>

definition is_whitespace :: "nat \<Rightarrow> bool" where
  "is_whitespace c \<longleftrightarrow>
     9 \<le> c \<and> c \<le> 13 \<or> c = 0x20 \<or> c = 0x85 \<or> c = 0xa0 \<or> c = 0x1680 \<or>
     0x2000 \<le> c \<and> c \<le> 0x200a \<or> c = 0x2028 \<or> c = 0x2029 \<or> c = 0x202f \<or> c = 0x205f \<or> c = 0x3000"

definition str_trim :: "ustr \<Rightarrow> ustr" where
  "str_trim s = rev (dropWhile is_whitespace (rev (dropWhile is_whitespace s)))"

text \<open>\<open>str::to_uppercase\<close>, as far as a search for ASCII text can see it: the characters whose
  Unicode upper-case mapping contains an ASCII letter are mapped to it in full; every other
  character stays outside ASCII under its mapping, and is left as it is.\<close>

definition upper_char :: "nat \<Rightarrow> ustr" where
  "upper_char c =
     (if 0x61 \<le> c \<and> c \<le> 0x7a then [c - 0x20]
      else if c = 0x131 then ascii_str ''I''
      else if c = 0x17f then ascii_str ''S''
      else if c = 0xdf then ascii_str ''SS''
      else if c = 0x149 then 0x2bc # ascii_str ''N''
      else if c = 0x1f0 then ascii_str ''J'' @ [0x30c]
      else if c = 0x1e96 then ascii_str ''H'' @ [0x331]
      else if c = 0x1e97 then ascii_str ''T'' @ [0x308]
      else if c = 0x1e98 then ascii_str ''W'' @ [0x30a]
      else if c = 0x1e99 then ascii_str ''Y'' @ [0x30a]
      else if c = 0x1e9a then ascii_str ''A'' @ [0x2be]
      else if c = 0xfb00 then ascii_str ''FF''
      else if c = 0xfb01 then ascii_str ''FI''
      else if c = 0xfb02 then ascii_str ''FL''
      else if c = 0xfb03 then ascii_str ''FFI''
      else if c = 0xfb04 then ascii_str ''FFL''
      else if c = 0xfb05 \<or> c = 0xfb06 then ascii_str ''ST''
      else [c])"

definition to_uppercase :: "ustr \<Rightarrow> ustr" where
  "to_uppercase s = concat (map upper_char s)"

fun starts_with :: "ustr \<Rightarrow> ustr \<Rightarrow> bool" where
  "starts_with s [] = True"
| "starts_with [] (_ # _) = False"
| "starts_with (x # xs) (y # ys) = (x = y \<and> starts_with xs ys)"

fun contains_str :: "ustr \<Rightarrow> ustr \<Rightarrow> bool" where
  "contains_str [] k = (k = [])"
| "contains_str (x # xs) k = (starts_with (x # xs) k \<or> contains_str xs k)"

section \<open>Rejections\<close>

definition rejection_keywords :: "(string \<times> nat) list" where
  "rejection_keywords =
     [(''TOOLONG'', 2100), (''FREEIP'', 2111), (''PPPOECLNT'', 2108), (''PPOECLNT'', 2108),
      (''CLNT'', 2108), (''PPPOE_INSTAL'', 2112), (''PPOE_INSTAL'', 2112),
      (''PPPOEINSTALL'', 2112), (''PPOEINSTALL'', 2112), (''PPPOE'', 2112), (''PPOE'', 2112),
      (''FAIL'', 2116), (''NAME'', 2102), (''PASS'', 2105), (''ABLED'', 2103), (''PIRED'', 2104),
      (''FULL'', 2115), (''EMPTY'', 2115), (''POOL'', 2106), (''NO_ENTRY'', 2107), (''ENTRY'', 2107),
      (''BIND'', 2109), (''NULL'', 2110), (''POLL'', 2101)]"

definition keyword_code :: "(string \<times> nat) list \<Rightarrow> ustr \<Rightarrow> nat" where
  "keyword_code table uppercase =
     (case find (\<lambda>(keyword, _). contains_str uppercase (ascii_str keyword)) table of
        Some (_, code) \<Rightarrow> code
      | None \<Rightarrow> 2999)"

definition rejection_code :: "ustr \<Rightarrow> nat" where
  "rejection_code message = keyword_code rejection_keywords (to_uppercase (str_trim message))"

fun rejection_scan :: "bytes \<Rightarrow> u32 \<Rightarrow> nat list \<Rightarrow> bytes result" where
  "rejection_scan message nonce [] = Ok message"
| "rejection_scan message nonce (offset # offsets) =
     (case parse_complete (drop offset message) of
        Inl _ \<Rightarrow> rejection_scan message nonce offsets
      | Inr attributes \<Rightarrow>
          let has_username = (find_tlv attributes Username \<noteq> None) in
          (case find_tlv attributes AuthVerify of
             None \<Rightarrow> rejection_scan message nonce offsets
           | Some auth_verify \<Rightarrow>
               if \<not> has_username \<or> length (tlv_value auth_verify) \<noteq> 4
               then rejection_scan message nonce offsets
               else
                 rbind (first_u32 auth_verify) (\<lambda>v.
                   if v \<noteq> nonce then Err AuthenticationVerifyMismatch
                   else Ok (case find_tlv attributes ErrorMessage of
                              None \<Rightarrow> take offset message
                            | Some attribute \<Rightarrow> tlv_value attribute))))"

definition parse_rejection :: "bytes \<Rightarrow> u32 \<Rightarrow> error result" where
  "parse_rejection b nonce =
     rbind (rejection_scan b nonce [0..<length b]) (\<lambda>message_bytes.
       let message = str_trim (from_utf8_lossy message_bytes) in
       Ok (AuthenticationRejected (rejection_code message) message))"

section \<open>Acceptance\<close>

record session_info =
  peer :: socket_addr
  info_session_id :: u16
  info_token :: u32
  info_encryption :: encryption_method
  info_mtu :: u16
  info_address :: "ip_addr option"
  info_gateway :: "ip_addr option"
  info_dns_servers :: "ip_addr list"
  info_segment_routing :: bool

definition info_header :: "session_info \<Rightarrow> packet_type \<Rightarrow> packet_header" where
  "info_header i t = header_new t (info_encryption i) (info_session_id i) (info_token i)"

definition sr_tuple :: "session_info \<Rightarrow> sr_session_tuple" where
  "sr_tuple i = \<lparr>tuple_session_id = info_session_id i, tuple_token = info_token i,
                 tuple_encryption = info_encryption i\<rparr>"

text \<open>\<open>u16::try_from\<close> on a 32-bit value, then the range filter.\<close>

definition ack_mtu :: "tlv \<Rightarrow> u16 \<Rightarrow> u16" where
  "ack_mtu attribute requested_mtu =
     (case result_ok (as_integer attribute) of
        None \<Rightarrow> requested_mtu
      | Some v \<Rightarrow>
          (case u16_try_from (unat v) of
             None \<Rightarrow> requested_mtu
           | Some m \<Rightarrow> if 576 \<le> m \<and> m \<le> 9000 then m else requested_mtu))"

definition ack_attribute :: "u16 \<Rightarrow> tlv \<Rightarrow> session_info \<Rightarrow> session_info" where
  "ack_attribute requested_mtu attribute i =
     (case tlv_kind attribute of
        Mtu \<Rightarrow> i\<lparr>info_mtu := ack_mtu attribute requested_mtu\<rparr>
      | Ip \<Rightarrow>
          (case first_ipv4 attribute of
             Inr v \<Rightarrow> i\<lparr>info_address := Some (V4 v)\<rparr>
           | Inl _ \<Rightarrow> i)
      | Dns \<Rightarrow>
          (case first_ipv4 attribute of
             Inr v \<Rightarrow> if \<not> is_unspecified (V4 v) then i\<lparr>info_dns_servers := [V4 v]\<rparr> else i
           | Inl _ \<Rightarrow> i)
      | Gateway \<Rightarrow>
          (case first_ipv4 attribute of
             Inr v \<Rightarrow> i\<lparr>info_gateway := Some (V4 v)\<rparr>
           | Inl _ \<Rightarrow> i)
      | Encrypt \<Rightarrow>
          i\<lparr>info_encryption :=
              (if as_integer attribute = Ok 1 then Xor
               else if as_integer attribute = Ok 2 then Aes
               else NoEncryption)\<rparr>
      | _ \<Rightarrow> i)"

definition parse_open_ack ::
  "decoded_packet \<Rightarrow> socket_addr \<Rightarrow> u32 \<Rightarrow> u16 \<Rightarrow> session_info result" where
  "parse_open_ack packet pr expected_nonce requested_mtu =
     rbind (parse_all (body packet)) (\<lambda>attributes.
     rbind (case find_tlv attributes AuthVerify of
              None \<Rightarrow> Ok ()
            | Some attribute \<Rightarrow>
                rbind (first_u32 attribute) (\<lambda>v.
                  if v \<noteq> expected_nonce then Err AuthenticationVerifyMismatch else Ok ())) (\<lambda>_.
     Ok (fold (ack_attribute requested_mtu) attributes
           \<lparr>peer = pr, info_session_id = session_id (header packet), info_token = token (header packet),
            info_encryption = encryption (header packet), info_mtu = requested_mtu,
            info_address = None, info_gateway = None, info_dns_servers = [],
            info_segment_routing = False\<rparr>)))"

section \<open>Strings: facts\<close>

lemma ascii_step: "b < 0x80 \<Longrightarrow> utf8_step (b # bs) = (unat b, 1)"
  by (simp add: utf8_step_def byte_at_def Let_def word_less_nat_alt)

lemma from_utf8_lossy_ascii:
  "list_all (\<lambda>b. b < 0x80) bs \<Longrightarrow> from_utf8_lossy bs = map unat bs"
  by (induction bs) (simp_all add: from_utf8_lossy.simps ascii_step)

lemma contains_str_iff: "contains_str s k \<longleftrightarrow> (\<exists>pre post. s = pre @ k @ post)"
proof -
  have sw: "starts_with s k \<longleftrightarrow> (\<exists>post. s = k @ post)" for s k
    by (induction s k rule: starts_with.induct) auto
  show ?thesis
  proof (induction s k rule: contains_str.induct)
    case (2 x xs k)
    have "(\<exists>pre post. x # xs = pre @ k @ post) \<longleftrightarrow>
        (\<exists>post. x # xs = k @ post) \<or> (\<exists>pre post. xs = pre @ k @ post)"
      by (metis append_Cons append_Nil list.inject neq_Nil_conv)
    with 2 sw show ?case by simp
  qed simp
qed

lemma contains_str_mono: "contains_str s (a @ k @ b) \<Longrightarrow> contains_str s k"
  unfolding contains_str_iff by (metis append.assoc)

lemma contains_keyword:
  "contains_str s (ascii_str (a @ k @ b)) \<Longrightarrow> contains_str s (ascii_str k)"
  using contains_str_mono [of s "ascii_str a" "ascii_str k" "ascii_str b"] by (simp add: ascii_str_def)

lemma keyword_code_Cons:
  "keyword_code [] u = 2999"
  "keyword_code ((k, c) # table) u =
     (if contains_str u (ascii_str k) then c else keyword_code table u)"
  by (simp_all add: keyword_code_def)

section \<open>Attributes of an acknowledgement\<close>

text \<open>The last attribute of a kind that holds an IPv4 address.\<close>

definition last_ipv4 :: "tlv_type \<Rightarrow> tlv list \<Rightarrow> u32 option" where
  "last_ipv4 k ts =
     (let vs = List.map_filter (\<lambda>t. if tlv_kind t = k then result_ok (first_ipv4 t) else None) ts
      in if vs = [] then None else Some (last vs))"

lemma map_filter_append: "List.map_filter f (xs @ ys) = List.map_filter f xs @ List.map_filter f ys"
  by (simp add: List.map_filter_def)

lemma last_ipv4_snoc:
  "last_ipv4 k (ts @ [t]) =
     (case if tlv_kind t = k then result_ok (first_ipv4 t) else None of
        Some v \<Rightarrow> Some v
      | None \<Rightarrow> last_ipv4 k ts)"
  by (cases "if tlv_kind t = k then result_ok (first_ipv4 t) else None")
    (auto simp: last_ipv4_def map_filter_append List.map_filter_def Let_def split: if_splits)

lemma ack_fold_fields:
  "info_session_id (fold (ack_attribute m) ts i) = info_session_id i"
  "info_token (fold (ack_attribute m) ts i) = info_token i"
  "peer (fold (ack_attribute m) ts i) = peer i"
  "info_segment_routing (fold (ack_attribute m) ts i) = info_segment_routing i"
  by (induction ts arbitrary: i)
    (simp_all add: ack_attribute_def split: tlv_type.splits sum.splits)

lemma ack_fold_addresses:
  "info_address (fold (ack_attribute m) ts i) =
     (case last_ipv4 Ip ts of None \<Rightarrow> info_address i | Some v \<Rightarrow> Some (V4 v))"
  "info_gateway (fold (ack_attribute m) ts i) =
     (case last_ipv4 Gateway ts of None \<Rightarrow> info_gateway i | Some v \<Rightarrow> Some (V4 v))"
proof (induction ts rule: rev_induct)
  case (snoc t ts)
  { case 1 show ?case using snoc
      by (simp add: last_ipv4_snoc ack_attribute_def split: tlv_type.split sum.split option.split) }
  { case 2 show ?case using snoc
      by (simp add: last_ipv4_snoc ack_attribute_def split: tlv_type.split sum.split option.split) }
qed (simp_all add: last_ipv4_def List.map_filter_def)

definition info_bounded :: "session_info \<Rightarrow> bool" where
  "info_bounded i \<longleftrightarrow> 576 \<le> info_mtu i \<and> info_mtu i \<le> 9000 \<and> length (info_dns_servers i) \<le> 1 \<and>
     list_all (\<lambda>a. \<not> is_unspecified a) (info_dns_servers i)"

lemma ack_mtu_bounded: "576 \<le> m \<Longrightarrow> m \<le> 9000 \<Longrightarrow> 576 \<le> ack_mtu t m \<and> ack_mtu t m \<le> 9000"
  by (simp add: ack_mtu_def split: option.split)

lemma ack_fold_bounded:
  assumes "576 \<le> m" "m \<le> 9000"
  shows "info_bounded i \<Longrightarrow> info_bounded (fold (ack_attribute m) ts i)"
proof (induction ts arbitrary: i)
  case (Cons t ts)
  have "info_bounded (ack_attribute m t i)"
    using Cons.prems ack_mtu_bounded [OF assms]
    by (simp add: info_bounded_def ack_attribute_def split: tlv_type.split sum.split)
  with Cons.IH show ?case by simp
qed simp

section \<open>Structured rejections\<close>

text \<open>The nonce and the message of a suffix that is a complete TLV list with a user name and a
  four-byte nonce.\<close>

definition structured_at :: "bytes \<Rightarrow> nat \<Rightarrow> (u32 \<times> bytes) option" where
  "structured_at b offset =
     (case parse_complete (drop offset b) of
        Inl _ \<Rightarrow> None
      | Inr ts \<Rightarrow>
          (case (find_tlv ts Username, find_tlv ts AuthVerify) of
             (Some _, Some a) \<Rightarrow>
               if length (tlv_value a) = 4
               then Some (from_be (tlv_value a),
                          case find_tlv ts ErrorMessage of None \<Rightarrow> take offset b | Some t \<Rightarrow> tlv_value t)
               else None
           | _ \<Rightarrow> None))"

lemma rejection_scan_eq:
  "rejection_scan b nonce offsets =
     (case List.map_filter (structured_at b) offsets of
        [] \<Rightarrow> Ok b
      | (v, msg) # _ \<Rightarrow> if v = nonce then Ok msg else Err AuthenticationVerifyMismatch)"
proof (induction offsets)
  case (Cons offset offsets)
  show ?case
  proof (cases "structured_at b offset")
    case None
    have "rejection_scan b nonce (offset # offsets) = rejection_scan b nonce offsets"
      using None by (simp add: structured_at_def split: sum.splits option.splits if_splits)
    with None Cons show ?thesis by (simp add: List.map_filter_def)
  next
    case (Some vm)
    obtain v msg where vm: "vm = (v, msg)" by fastforce
    have "rejection_scan b nonce (offset # offsets) =
        (if v = nonce then Ok msg else Err AuthenticationVerifyMismatch)"
      using Some by (auto simp: vm structured_at_def first_u32_def split: sum.splits option.splits if_splits)
    with Some vm show ?thesis by (simp add: List.map_filter_def)
  qed
qed (simp add: List.map_filter_def)

section \<open>Properties\<close>

text \<open>(acknowledgement). A session taken from an \<open>OPEN_ACK\<close> has the ID and token of its header,
  the last well-formed address and gateway, an MTU in the protocol range whatever the server
  sent, at most one DNS server and that one specified; and if the answer carries a nonce, the
  first one is the nonce of the request.\<close>

theorem parse_open_ack_sound:
  assumes "parse_open_ack packet pr nonce requested = Ok i"
    and "576 \<le> requested" and "requested \<le> 9000"
  shows "info_session_id i = session_id (header packet) \<and> info_token i = token (header packet) \<and>
    peer i = pr \<and> info_bounded i \<and>
    (\<exists>ts. parse_all (body packet) = Ok ts \<and>
       info_address i = map_option V4 (last_ipv4 Ip ts) \<and>
       info_gateway i = map_option V4 (last_ipv4 Gateway ts) \<and>
       (\<forall>t. find_tlv ts AuthVerify = Some t \<longrightarrow> first_u32 t = Ok nonce))"
proof -
  from assms(1) obtain ts where ts: "parse_all (body packet) = Ok ts"
    and v: "\<forall>t. find_tlv ts AuthVerify = Some t \<longrightarrow> first_u32 t = Ok nonce"
    and i: "i = fold (ack_attribute requested) ts
           \<lparr>peer = pr, info_session_id = session_id (header packet), info_token = token (header packet),
            info_encryption = encryption (header packet), info_mtu = requested,
            info_address = None, info_gateway = None, info_dns_servers = [],
            info_segment_routing = False\<rparr>"
    by (auto simp: parse_open_ack_def result_simps split: option.splits if_splits)
  have "info_bounded i"
    unfolding i using assms(2,3) by (intro ack_fold_bounded) (auto simp: info_bounded_def)
  moreover have "info_address i = map_option V4 (last_ipv4 Ip ts)"
    "info_gateway i = map_option V4 (last_ipv4 Gateway ts)"
    unfolding i ack_fold_addresses by (simp_all split: option.split)
  ultimately show ?thesis using ts v by (auto simp: i ack_fold_fields)
qed

theorem parse_open_ack_sound_witness:
  "\<exists>i. parse_open_ack \<lparr>header = header_new OpenAck Xor 7 9, signature = None, body = [3, 4, 0, 1]\<rparr>
         \<lparr>sa_ip = V4 1, sa_port = 2\<rparr> 5 1400 = Ok i \<and> info_bounded i"
proof -
  let ?p = "\<lparr>header = header_new OpenAck Xor 7 9, signature = None, body = [3, 4, 0, 1]\<rparr>"
  have "parse_all (body ?p) = Ok [\<lparr>tlv_kind = Mtu, tlv_value = [0, 1]\<rparr>]"
    by (simp add: parse_all_def parse_all_at.simps tlv_type_try_from_def tlv_type_ALL_def slice_of_def)
  then have "\<exists>i. parse_open_ack ?p \<lparr>sa_ip = V4 1, sa_port = 2\<rparr> 5 1400 = Ok i"
    by (simp add: parse_open_ack_def find_tlv_def)
  then obtain i where i: "parse_open_ack ?p \<lparr>sa_ip = V4 1, sa_port = 2\<rparr> 5 1400 = Ok i" by blast
  from parse_open_ack_sound [OF this] i show ?thesis by auto
qed

text \<open>(rejection). The first suffix of the body that is a complete TLV list with a user name and a
  four-byte nonce decides: with the nonce of the request the message is its \<open>ErrorMessage\<close>, or
  the bytes before it; with another nonce the rejection is not believed. Without such a suffix
  the whole body is the message.\<close>

theorem parse_rejection_spec:
  "parse_rejection b nonce =
     (let rejected = (\<lambda>msg. let m = str_trim (from_utf8_lossy msg) in
                            AuthenticationRejected (rejection_code m) m) in
      case List.map_filter (structured_at b) [0..<length b] of
        [] \<Rightarrow> Ok (rejected b)
      | (v, msg) # _ \<Rightarrow>
          if v = nonce then Ok (rejected msg) else Err AuthenticationVerifyMismatch)"
  unfolding parse_rejection_def rejection_scan_eq
  by (simp add: Let_def split: list.split prod.split)

definition essential_keywords :: "(string \<times> nat) list" where
  "essential_keywords =
     [(''TOOLONG'', 2100), (''FREEIP'', 2111), (''CLNT'', 2108), (''PPOE'', 2112),
      (''FAIL'', 2116), (''NAME'', 2102), (''PASS'', 2105), (''ABLED'', 2103), (''PIRED'', 2104),
      (''FULL'', 2115), (''EMPTY'', 2115), (''POOL'', 2106), (''ENTRY'', 2107),
      (''BIND'', 2109), (''NULL'', 2110), (''POLL'', 2101)]"

lemma redundant_keywords:
  "contains_str s (ascii_str ''PPPOECLNT'') \<Longrightarrow> contains_str s (ascii_str ''CLNT'')"
  "contains_str s (ascii_str ''PPOECLNT'') \<Longrightarrow> contains_str s (ascii_str ''CLNT'')"
  "contains_str s (ascii_str ''PPPOE_INSTAL'') \<Longrightarrow> contains_str s (ascii_str ''PPOE'')"
  "contains_str s (ascii_str ''PPOE_INSTAL'') \<Longrightarrow> contains_str s (ascii_str ''PPOE'')"
  "contains_str s (ascii_str ''PPPOEINSTALL'') \<Longrightarrow> contains_str s (ascii_str ''PPOE'')"
  "contains_str s (ascii_str ''PPOEINSTALL'') \<Longrightarrow> contains_str s (ascii_str ''PPOE'')"
  "contains_str s (ascii_str ''PPPOE'') \<Longrightarrow> contains_str s (ascii_str ''PPOE'')"
  "contains_str s (ascii_str ''NO_ENTRY'') \<Longrightarrow> contains_str s (ascii_str ''ENTRY'')"
  using contains_keyword [of s "''PPPOE''" "''CLNT''" "''''"] contains_keyword [of s "''PPOE''" "''CLNT''" "''''"]
    contains_keyword [of s "''P''" "''PPOE''" "''_INSTAL''"] contains_keyword [of s "''''" "''PPOE''" "''_INSTAL''"]
    contains_keyword [of s "''P''" "''PPOE''" "''INSTALL''"] contains_keyword [of s "''''" "''PPOE''" "''INSTALL''"]
    contains_keyword [of s "''P''" "''PPOE''" "''''"] contains_keyword [of s "''NO_''" "''ENTRY''" "''''"]
  by simp_all

text \<open>(rejection codes). Eight rows of the keyword table never decide: the code of a message is the
  code of the first of sixteen keywords that occurs in it, ignoring case and surrounding white
  space.\<close>

theorem rejection_code_essential:
  "rejection_code m = keyword_code essential_keywords (to_uppercase (str_trim m))"
proof -
  let ?c = "\<lambda>k. contains_str (to_uppercase (str_trim m)) (ascii_str k)"
  note redundant = redundant_keywords [of "to_uppercase (str_trim m)"]
  have "?c ''CLNT'' \<or> \<not> ?c ''PPPOECLNT'' \<and> \<not> ?c ''PPOECLNT'' \<and> \<not> ?c ''CLNT''"
    "?c ''PPOE'' \<or> \<not> ?c ''PPPOE_INSTAL'' \<and> \<not> ?c ''PPOE_INSTAL'' \<and> \<not> ?c ''PPPOEINSTALL'' \<and>
       \<not> ?c ''PPOEINSTALL'' \<and> \<not> ?c ''PPPOE'' \<and> \<not> ?c ''PPOE''"
    "?c ''ENTRY'' \<or> \<not> ?c ''NO_ENTRY'' \<and> \<not> ?c ''ENTRY''"
    using redundant by blast+
  then show ?thesis
    unfolding rejection_code_def rejection_keywords_def essential_keywords_def keyword_code_Cons
    by (elim disjE conjE) (simp_all only: if_True if_False if_cancel)
qed

end
