(* ===== verification/Session.thy ===== *)
theory Session
  imports Session_Open
begin

text \<open>
  The data path of a session (\<open>src/client.rs\<close>): encapsulation of outbound packets, processing
  of received datagrams, the heartbeat tracker, and the two loops around them. What the
  operating system decides (clock readings, the results of writes to the tunnel device and of
  sends on the socket) is an argument of each operation; what the code asks of it is a log of
  effects in the order of the calls.
\<close>

section \<open>Environment and effects\<close>

datatype effect = DeviceWrite bytes | SocketSend bytes

record io_env =
  env_now :: instant
  env_micros :: u64
  env_write :: "bytes \<Rightarrow> error_kind + nat"
  env_send :: "bytes \<Rightarrow> error_kind + nat"

section \<open>Heartbeat\<close>

abbreviation (input) HEARTBEAT_TIMEOUT_US :: duration where "HEARTBEAT_TIMEOUT_US \<equiv> 20000000"
abbreviation (input) HEARTBEAT_MAX_MISSES :: u32 where "HEARTBEAT_MAX_MISSES \<equiv> 10"

record heartbeat_tracker =
  hb_last_response :: instant
  hb_missed :: u32
  hb_current :: u32
  hb_minimum :: u32
  hb_maximum :: u32

definition heartbeat_new :: "instant \<Rightarrow> heartbeat_tracker" where
  "heartbeat_new now =
     \<lparr>hb_last_response = now, hb_missed = 0, hb_current = 0, hb_minimum = 0, hb_maximum = 0\<rparr>"

definition heartbeat_request_body :: "u64 \<Rightarrow> heartbeat_tracker \<Rightarrow> echo_body \<times> heartbeat_tracker" where
  "heartbeat_request_body tick h0 =
     (let h = h0\<lparr>hb_missed := saturating_add_word (hb_missed h0) 1\<rparr> in
      (echo_new tick \<lparr>current_micros = hb_current h, minimum_micros = hb_minimum h,
                      maximum_micros = hb_maximum h\<rparr>, h))"

definition heartbeat_observe :: "instant \<Rightarrow> u32 \<Rightarrow> heartbeat_tracker \<Rightarrow> heartbeat_tracker" where
  "heartbeat_observe now rtt h =
     h\<lparr>hb_last_response := now, hb_missed := 0, hb_current := rtt,
       hb_minimum := (if hb_minimum h = 0 then rtt else min (hb_minimum h) rtt),
       hb_maximum := max (hb_maximum h) rtt\<rparr>"

definition heartbeat_timed_out :: "instant \<Rightarrow> heartbeat_tracker \<Rightarrow> bool" where
  "heartbeat_timed_out now h \<longleftrightarrow>
     hb_missed h \<ge> HEARTBEAT_MAX_MISSES \<or> now - hb_last_response h > HEARTBEAT_TIMEOUT_US"

text \<open>\<open>u32::try_from(now - tick).unwrap_or(u32::MAX)\<close>, after the check \<open>tick \<le> now\<close>.\<close>

definition rtt_micros :: "u64 \<Rightarrow> u64 \<Rightarrow> u32" where
  "rtt_micros now tick = (if unat (now - tick) < 2 ^ 32 then ucast (now - tick) else - 1)"

section \<open>Sessions\<close>

record sr_runtime =
  rt_config :: segment_routing_config
  rt_outer_cipher :: sr_outer_cipher

record session =
  ses_info :: session_info
  ses_cipher :: data_cipher
  ses_sr :: "sr_runtime option"

record rx_state =
  rx_legacy :: traditional_reassembler
  rx_sr :: sr_reassembler
  rx_responder :: sr_monitor_responder
  rx_heartbeat :: heartbeat_tracker
  rx_monitor :: "sr_monitor option"
  rx_log :: "effect list"

datatype packet_action = ActContinue | ActServerClose

definition validate_inner_packet :: "bytes \<Rightarrow> u8 option \<Rightarrow> bytes result" where
  "validate_inner_packet packet0 expected_version =
     rbind (trim_ip_packet packet0) (\<lambda>packet.
       case expected_version of
         Some expected \<Rightarrow>
           if ip_version packet \<noteq> expected
           then Err (InvalidFragment ''inner IP version does not match packet type'')
           else Ok packet
       | None \<Rightarrow> Ok packet)"

definition require_encryption :: "packet_header \<Rightarrow> encryption_method \<Rightarrow> unit result" where
  "require_encryption h expected =
     (if encryption h \<noteq> expected
      then Err (InvalidConfig ''packet encryption {} does not match expected {expected}'')
      else Ok ())"

definition write_inner_packet :: "io_env \<Rightarrow> bytes \<Rightarrow> rx_state \<Rightarrow> unit result \<times> rx_state" where
  "write_inner_packet env packet st =
     (let st' = st\<lparr>rx_log := rx_log st @ [DeviceWrite packet]\<rparr> in
      case env_write env packet of
        Inl k \<Rightarrow> (Err (Io k), st')
      | Inr written \<Rightarrow>
          if written \<noteq> length packet then (Err (Io WriteZero), st') else (Ok (), st'))"

definition socket_send :: "io_env \<Rightarrow> bytes \<Rightarrow> rx_state \<Rightarrow> unit result \<times> rx_state" where
  "socket_send env datagram st =
     (let st' = st\<lparr>rx_log := rx_log st @ [SocketSend datagram]\<rparr> in
      case env_send env datagram of
        Inl k \<Rightarrow> (Err (Io k), st')
      | Inr _ \<Rightarrow> (Ok (), st'))"

text \<open>The common tail of the handlers: stop with the error of a check, or perform the effect and
  continue.\<close>

definition perform ::
  "('a \<Rightarrow> rx_state \<Rightarrow> unit result \<times> rx_state) \<Rightarrow> 'a result \<Rightarrow> rx_state \<Rightarrow>
     packet_action result \<times> rx_state" where
  "perform eff r st =
     (case r of
        Inl e \<Rightarrow> (Err e, st)
      | Inr x \<Rightarrow> (case eff x st of (res, st') \<Rightarrow> (rmap (\<lambda>_. ActContinue) res, st')))"

definition process_fragment ::
  "io_env \<Rightarrow> decoded_packet \<Rightarrow> rx_state \<Rightarrow> packet_action result \<times> rx_state" where
  "process_fragment env packet st =
     (case rbind (require_encryption (header packet) NoEncryption) (\<lambda>_. parse_traditional (body packet)) of
        Inl e \<Rightarrow> (Err e, st)
      | Inr fragment \<Rightarrow>
          let expected_version = (if packet_type (header packet) = IpFragment then 4 else 6);
              (res, legacy) = trad_insert_in_context expected_version fragment (env_now env) (rx_legacy st);
              st' = st\<lparr>rx_legacy := legacy\<rparr>
          in
          (case res of
             Inl e \<Rightarrow> (Err e, st')
           | Inr None \<Rightarrow> (Ok ActContinue, st')
           | Inr (Some inner) \<Rightarrow>
               perform (write_inner_packet env)
                 (validate_inner_packet inner (Some expected_version)) st'))"

definition process_echo_response ::
  "io_env \<Rightarrow> decoded_packet \<Rightarrow> rx_state \<Rightarrow> packet_action result \<times> rx_state" where
  "process_echo_response env packet st =
     (case echo_decode (body packet) of
        Inl e \<Rightarrow> (Err e, st)
      | Inr response \<Rightarrow>
          if tick_micros response > env_micros env
          then (Err (InvalidConfig ''heartbeat echoed a future monotonic tick''), st)
          else
            (Ok ActContinue,
             st\<lparr>rx_heartbeat :=
                  heartbeat_observe (env_now env)
                    (rtt_micros (env_micros env) (tick_micros response)) (rx_heartbeat st)\<rparr>))"

definition process_standard_packet ::
  "crypto_prims \<Rightarrow> session \<Rightarrow> io_env \<Rightarrow> decoded_packet \<Rightarrow> rx_state \<Rightarrow>
     packet_action result \<times> rx_state" where
  "process_standard_packet P ses env packet st =
     (case packet_type (header packet) of
        Data \<Rightarrow>
          perform (write_inner_packet env)
            (rbind (require_encryption (header packet) NoEncryption)
               (\<lambda>_. validate_inner_packet (body packet) None)) st
      | DataDup \<Rightarrow>
          perform (write_inner_packet env)
            (rbind (require_encryption (header packet) NoEncryption)
               (\<lambda>_. validate_inner_packet (body packet) None)) st
      | DataIpv6 \<Rightarrow>
          perform (write_inner_packet env)
            (rbind (require_encryption (header packet) NoEncryption)
               (\<lambda>_. validate_inner_packet (body packet) (Some 6))) st
      | DataEncrypted \<Rightarrow>
          perform (write_inner_packet env)
            (rbind (require_encryption (header packet) (cipher_method (ses_cipher ses))) (\<lambda>_.
             rbind (cipher_decrypt P (ses_cipher ses) (body packet)) (\<lambda>plaintext.
               validate_inner_packet plaintext None))) st
      | DataEncryptedDup \<Rightarrow>
          perform (write_inner_packet env)
            (rbind (require_encryption (header packet) (cipher_method (ses_cipher ses))) (\<lambda>_.
             rbind (cipher_decrypt P (ses_cipher ses) (body packet)) (\<lambda>plaintext.
               validate_inner_packet plaintext None))) st
      | IpFragment \<Rightarrow> process_fragment env packet st
      | IpFragmentIpv6 \<Rightarrow> process_fragment env packet st
      | EchoResponse \<Rightarrow> process_echo_response env packet st
      | EchoRequest \<Rightarrow>
          perform (socket_send env) (build_echo_response P (header packet) (body packet)) st
      | Close \<Rightarrow> (Ok ActServerClose, st)
      | PingRequest \<Rightarrow> (Ok ActContinue, st)
      | PingResponse \<Rightarrow> (Ok ActContinue, st)
      | Open \<Rightarrow> (Ok ActContinue, st)
      | OpenAck \<Rightarrow> (Ok ActContinue, st)
      | OpenReject \<Rightarrow> (Ok ActContinue, st)
      | SegmentRouting \<Rightarrow> (Ok ActContinue, st))"

definition process_sr_packet ::
  "crypto_prims \<Rightarrow> session \<Rightarrow> io_env \<Rightarrow> bytes \<Rightarrow> rx_state \<Rightarrow> packet_action result \<times> rx_state" where
  "process_sr_packet P ses env datagram st =
     (case ses_sr ses of
        None \<Rightarrow> (Err (InvalidSegmentRouting ''received SR packet in traditional mode''), st)
      | Some runtime \<Rightarrow>
          let links = config_links (rt_config runtime); tuple = sr_tuple (ses_info ses) in
          (case decode_datagram P datagram links tuple (ses_cipher ses) (rt_outer_cipher runtime) of
             Inl e \<Rightarrow> (Err e, st)
           | Inr (SrData packet) \<Rightarrow> perform (write_inner_packet env) (Ok packet) st
           | Inr (SrFragment t fragment) \<Rightarrow>
               (let (res, reassembler) = insert_fragment t fragment (env_now env) (rx_sr st);
                    st' = st\<lparr>rx_sr := reassembler\<rparr>
                in
                case res of
                  Inl e \<Rightarrow> (Err e, st')
                | Inr None \<Rightarrow> (Ok ActContinue, st')
                | Inr (Some packet) \<Rightarrow> perform (write_inner_packet env) (Ok packet) st')
           | Inr (SrEchoRequest request) \<Rightarrow>
               if sr_id request \<noteq> monitor_sr_id (rt_config runtime)
               then (Err (InvalidSegmentRouting ''SR monitor request has the wrong SR ID''), st)
               else
                 (let (response, responder) = monitor_respond request (rx_responder st);
                      st' = st\<lparr>rx_responder := responder\<rparr>
                  in
                  case response of
                    None \<Rightarrow> (Ok ActContinue, st')
                  | Some answer \<Rightarrow>
                      perform (socket_send env)
                        (encode_monitor_datagram EchoResponse answer links tuple) st')
           | Inr (SrEchoResponse response) \<Rightarrow>
               (case rx_monitor st of
                  None \<Rightarrow>
                    (Err (InvalidSegmentRouting
                       ''received SR monitor response while monitoring is disabled''), st)
                | Some monitor \<Rightarrow>
                    if monitor_tick_micros response > env_micros env
                    then (Err (InvalidSegmentRouting ''SR response echoed a future tick''), st)
                    else
                      (case accept_response response (env_now env)
                              (rtt_micros (env_micros env) (monitor_tick_micros response)) monitor of
                         (res, monitor') \<Rightarrow>
                           (rmap (\<lambda>_. ActContinue) res, st\<lparr>rx_monitor := Some monitor'\<rparr>)))))"

section \<open>The receive loop\<close>

datatype session_end = LocalShutdown | ServerClose | HeartbeatTimeout | TransportFailure

datatype worker_failure = WfHeartbeatTimeout | WfTransport error_kind

text \<open>What one iteration reads: the two flags, a pending worker failure, the result of \<open>recv\<close> (an
  error kind or the datagram) and the environment of the handlers.\<close>

record rx_input =
  in_shutdown :: bool
  in_running :: bool
  in_failure :: "worker_failure option"
  in_recv :: "error_kind + bytes"
  in_env :: io_env

definition failure_end :: "worker_failure \<Rightarrow> session_end" where
  "failure_end f = (case f of WfHeartbeatTimeout \<Rightarrow> HeartbeatTimeout | WfTransport _ \<Rightarrow> TransportFailure)"

definition conclude :: "packet_action result \<times> rx_state \<Rightarrow> session_end option \<times> rx_state" where
  "conclude = (\<lambda>(action, st).
     case action of
       Inr ActContinue \<Rightarrow> (None, st)
     | Inr ActServerClose \<Rightarrow> (Some ServerClose, st)
     | Inl e \<Rightarrow> if is_io_error e then (Some TransportFailure, st) else (None, st))"

definition receive_datagram ::
  "crypto_prims \<Rightarrow> session \<Rightarrow> io_env \<Rightarrow> bytes \<Rightarrow> rx_state \<Rightarrow> session_end option \<times> rx_state" where
  "receive_datagram P ses env datagram st =
     (if datagram \<noteq> [] \<and> datagram ! 0 = packet_type_code SegmentRouting
      then conclude (process_sr_packet P ses env datagram st)
      else
        case decode_packet P datagram of
          Inl _ \<Rightarrow> (None, st)
        | Inr decoded \<Rightarrow>
            if session_id (header decoded) \<noteq> info_session_id (ses_info ses)
               \<or> token (header decoded) \<noteq> info_token (ses_info ses)
            then (None, st)
            else conclude (process_standard_packet P ses env decoded st))"

definition receive_iteration ::
  "crypto_prims \<Rightarrow> session \<Rightarrow> rx_input \<Rightarrow> rx_state \<Rightarrow> session_end option \<times> rx_state" where
  "receive_iteration P ses inp st =
     (if in_shutdown inp \<or> \<not> in_running inp then (Some LocalShutdown, st)
      else
        case in_failure inp of
          Some f \<Rightarrow> (Some (failure_end f), st)
        | None \<Rightarrow>
            (case in_recv inp of
               Inl k \<Rightarrow>
                 if k = WouldBlock \<or> k = TimedOut then (None, st) else (Some TransportFailure, st)
             | Inr datagram \<Rightarrow> receive_datagram P ses (in_env inp) datagram st))"

text \<open>The loop over the inputs of its iterations; \<open>None\<close> when they are used up before it ends.\<close>

fun receive_loop ::
  "crypto_prims \<Rightarrow> session \<Rightarrow> rx_input list \<Rightarrow> rx_state \<Rightarrow> session_end option \<times> rx_state" where
  "receive_loop P ses [] st = (None, st)"
| "receive_loop P ses (inp # inps) st =
     (case receive_iteration P ses inp st of
        (Some e, st') \<Rightarrow> (Some e, st')
      | (None, st') \<Rightarrow> receive_loop P ses inps st')"

definition rx_new :: "heartbeat_tracker \<Rightarrow> sr_monitor option \<Rightarrow> rx_state" where
  "rx_new hb mon =
     \<lparr>rx_legacy = trad_new, rx_sr = sr_new, rx_responder = responder_new, rx_heartbeat = hb,
      rx_monitor = mon, rx_log = []\<rparr>"

section \<open>The packet sender\<close>

definition encode_traditional_data ::
  "crypto_prims \<Rightarrow> bytes \<Rightarrow> session_info \<Rightarrow> data_cipher \<Rightarrow> bytes list result" where
  "encode_traditional_data P packet info c =
     (if length packet > unat (info_mtu info) then Err FragmentTooLarge
      else
        rbind
          (case info_encryption info of
             NoEncryption \<Rightarrow> Ok (Data, NoEncryption, packet)
           | _ \<Rightarrow> rbind (cipher_encrypt P c packet) (\<lambda>ct. Ok (DataEncrypted, info_encryption info, ct)))
          (\<lambda>(t, e, payload).
             Ok [encode_data (header_new t e (info_session_id info) (info_token info)) payload]))"

fun send_all :: "(bytes \<Rightarrow> error_kind + nat) \<Rightarrow> bytes list \<Rightarrow> worker_failure option \<times> bytes list" where
  "send_all send [] = (None, [])"
| "send_all send (d # ds) =
     (case send d of
        Inl k \<Rightarrow> (Some (WfTransport k), [d])
      | Inr _ \<Rightarrow> (case send_all send ds of (f, sent) \<Rightarrow> (f, d # sent)))"

text \<open>One iteration of the sender thread: what the device read returned, the next fragment ID and
  the behaviour of the socket; the result is the failure that ends the thread, if any, the next
  fragment ID and the datagrams handed to the socket.\<close>

definition sender_iteration ::
  "crypto_prims \<Rightarrow> session \<Rightarrow> (bytes \<Rightarrow> error_kind + nat) \<Rightarrow> u32 \<Rightarrow> error_kind + bytes \<Rightarrow>
     worker_failure option \<times> u32 \<times> bytes list" where
  "sender_iteration P ses send fid read =
     (case read of
        Inl k \<Rightarrow>
          if k = WouldBlock \<or> k = Interrupted then (None, fid, [])
          else (Some (WfTransport k), fid, [])
      | Inr buffer \<Rightarrow>
          if buffer = [] then (None, fid, [])
          else
            (case validate_inner_packet buffer None of
               Inl _ \<Rightarrow> (None, fid, [])
             | Inr inner \<Rightarrow>
                 (let (fid', datagrams) =
                    (case ses_sr ses of
                       Some runtime \<Rightarrow>
                         (fid + 1,
                          sr_encode_data P inner (unat (info_mtu (ses_info ses))) fid
                            (config_links (rt_config runtime)) (sr_tuple (ses_info ses))
                            (ses_cipher ses) (rt_outer_cipher runtime))
                     | None \<Rightarrow> (fid, encode_traditional_data P inner (ses_info ses) (ses_cipher ses)))
                  in
                  case datagrams of
                    Inl _ \<Rightarrow> (None, fid', [])
                  | Inr ds \<Rightarrow> (case send_all send ds of (f, sent) \<Rightarrow> (f, fid', sent)))))"

section \<open>Errors of the handlers\<close>

lemma trim_ip_packet_no_io:
  "trim_ip_packet b = Err e \<Longrightarrow> \<not> is_io_error e"
  by (auto simp: trim_ip_packet_def is_io_error_def result_simps Let_def split: if_splits)

lemma parse_links_no_io: "parse_links bs = Err e \<Longrightarrow> \<not> is_io_error e"
  by (induction bs rule: parse_links.induct)
    (auto simp: is_io_error_def result_simps Let_def split: if_splits)

lemma validate_links_no_io: "validate_links ls = Err e \<Longrightarrow> \<not> is_io_error e"
  by (auto simp: validate_links_def is_io_error_def split: if_splits)

lemma sr_header_parse_no_io: "sr_header_parse d = Err e \<Longrightarrow> \<not> is_io_error e"
  by (auto simp: sr_header_parse_def sr_algorithm_try_from_def result_simps Let_def is_io_error_def
      dest: parse_links_no_io split: if_splits)

lemma validate_return_path_no_io: "validate_return_path fl h = Err e \<Longrightarrow> \<not> is_io_error e"
  by (auto simp: validate_return_path_def result_simps is_io_error_def dest: validate_links_no_io
      split: if_splits)

lemma decode_inner_no_io: "decode_inner d = Err e \<Longrightarrow> \<not> is_io_error e"
  by (auto simp: decode_inner_def packet_type_try_from_def encryption_try_from_def result_simps
      ok_or_def is_io_error_def split: if_splits option.splits)

lemma monitor_decode_no_io: "monitor_decode d = Err e \<Longrightarrow> \<not> is_io_error e"
  by (auto simp: monitor_decode_def is_io_error_def split: if_splits)

lemma parse_sr_no_io: "parse_sr d = Err e \<Longrightarrow> \<not> is_io_error e"
  by (auto simp: parse_sr_def fragment_parse_def end_offset_def ok_or_def result_simps Let_def
      is_io_error_def split: if_splits option.splits)

lemma cipher_decrypt_no_io: "cipher_decrypt P c d = Err e \<Longrightarrow> \<not> is_io_error e"
  by (cases c) (auto simp: aes_decrypt_def is_io_error_def split: if_splits)

lemma outer_decrypt_no_io: "outer_decrypt P oc d pad = Err e \<Longrightarrow> \<not> is_io_error e"
  by (auto simp: outer_decrypt_def is_io_error_def Let_def split: if_splits)

lemmas no_io = trim_ip_packet_no_io sr_header_parse_no_io validate_return_path_no_io decode_inner_no_io
  monitor_decode_no_io parse_sr_no_io cipher_decrypt_no_io outer_decrypt_no_io

lemma sr_decode_inner_no_io:
  "sr_decode_inner P h i w s c oc = Err e \<Longrightarrow> \<not> is_io_error e"
proof -
  have "sr_decode_data P h i w s c oc = Err e \<Longrightarrow> \<not> is_io_error e"
    by (auto simp: sr_decode_data_def result_simps Let_def dest: no_io split: if_splits)
      (simp_all add: is_io_error_def)
  then show "sr_decode_inner P h i w s c oc = Err e \<Longrightarrow> \<not> is_io_error e"
    by (auto simp: sr_decode_inner_def result_simps Let_def dest: no_io split: if_splits)
      (simp_all add: is_io_error_def)
qed

lemma decode_datagram_no_io: "decode_datagram P d fl s c oc = Err e \<Longrightarrow> \<not> is_io_error e"
  by (auto simp: decode_datagram_def result_simps dest: no_io sr_decode_inner_no_io split: if_splits)
    (simp_all add: is_io_error_def)

section \<open>The invariant of the receive state\<close>

definition writes_ok :: "effect list \<Rightarrow> bool" where
  "writes_ok es \<longleftrightarrow> (\<forall>p. DeviceWrite p \<in> set es \<longrightarrow> complete_ip_packet p)"

definition rx_ok :: "rx_state \<Rightarrow> bool" where
  "rx_ok st \<longleftrightarrow> trad_ok (rx_legacy st) \<and> sr_ok (rx_sr st) \<and> writes_ok (rx_log st)"

lemma rx_ok_new: "rx_ok (rx_new hb mon)"
  by (simp add: rx_ok_def rx_new_def trad_ok_new sr_ok_new writes_ok_def)

lemma validate_inner_packet_OkD:
  assumes "validate_inner_packet b v = Ok p"
  shows "complete_ip_packet p" "\<exists>rest. b = p @ rest" "v = Some x \<Longrightarrow> ip_version p = x"
  using assms trim_ip_packet_prefix
  by (auto simp: validate_inner_packet_def result_simps split: option.splits if_splits)

lemma validate_inner_packet_complete:
  assumes "complete_ip_packet p"
  shows "validate_inner_packet (p @ rest) None = Ok p"
  using trim_ip_packet_complete [OF assms] by (simp add: validate_inner_packet_def)

lemma write_inner_packet_state:
  "snd (write_inner_packet env p st) = st\<lparr>rx_log := rx_log st @ [DeviceWrite p]\<rparr>"
  by (simp add: write_inner_packet_def Let_def split: sum.split)

lemma socket_send_state:
  "snd (socket_send env d st) = st\<lparr>rx_log := rx_log st @ [SocketSend d]\<rparr>"
  by (simp add: socket_send_def Let_def split: sum.split)

lemma perform_state:
  "snd (perform eff r st) = (case r of Inl _ \<Rightarrow> st | Inr x \<Rightarrow> snd (eff x st))"
  by (simp add: perform_def split_def split: sum.split)

lemma rx_ok_write: "rx_ok st \<Longrightarrow> complete_ip_packet p \<Longrightarrow>
    rx_ok (snd (perform (write_inner_packet env) (Ok p) st))"
  by (auto simp: perform_state write_inner_packet_state rx_ok_def writes_ok_def)

lemma rx_ok_perform_write:
  assumes "rx_ok st" "\<And>p. r = Ok p \<Longrightarrow> complete_ip_packet p"
  shows "rx_ok (snd (perform (write_inner_packet env) r st))"
  using assms rx_ok_write by (cases r) (auto simp: perform_state)

lemma rx_ok_perform_send:
  "rx_ok st \<Longrightarrow> rx_ok (snd (perform (socket_send env) r st))"
  by (auto simp: perform_state socket_send_state rx_ok_def writes_ok_def split: sum.split)

lemma rx_ok_fragment:
  assumes "rx_ok st"
  shows "rx_ok (snd (process_fragment env packet st))"
proof -
  let ?v = "if packet_type (header packet) = IpFragment then 4 else 6 :: u8"
  have st': "rx_ok (st\<lparr>rx_legacy := snd (trad_insert_in_context ?v f now (rx_legacy st))\<rparr>)" for f now
    using assms trad_ok_insert by (simp add: rx_ok_def)
  show ?thesis
    using assms st'
    by (auto simp: process_fragment_def Let_def split_def split: sum.split option.split
        intro!: rx_ok_perform_write dest: validate_inner_packet_OkD(1))
qed

lemma process_standard_ok:
  assumes "rx_ok st"
  shows "rx_ok (snd (process_standard_packet P ses env packet st))"
proof -
  have w: "rx_ok (snd (perform (write_inner_packet env)
      (rbind r (\<lambda>_. validate_inner_packet b v)) st))" for r :: "unit result" and b v
    using assms by (auto intro!: rx_ok_perform_write simp: result_simps dest: validate_inner_packet_OkD(1))
  have w2: "rx_ok (snd (perform (write_inner_packet env)
      (rbind r (\<lambda>_. rbind q (\<lambda>x. validate_inner_packet x v))) st))" for r :: "unit result" and q v
    using assms by (auto intro!: rx_ok_perform_write simp: result_simps dest: validate_inner_packet_OkD(1))
  have "rx_ok (snd (process_echo_response env packet st))"
    using assms by (simp add: process_echo_response_def rx_ok_def split: sum.split)
  then show ?thesis
    using w w2 rx_ok_perform_send [OF assms] rx_ok_fragment [OF assms] assms
    by (simp add: process_standard_packet_def split: packet_type.split)
qed

lemma insert_fragment_complete:
  "fst (insert_fragment t f now r) = Ok (Some p) \<Longrightarrow> complete_ip_packet p"
  by (auto simp: insert_fragment_def Let_def split_def result_simps split: option.splits if_splits
      dest: trim_ip_packet_prefix(1))

lemma sr_decode_complete: "decode_datagram P d fl s c oc = Ok (SrData p) \<Longrightarrow> complete_ip_packet p"
  by (auto simp: decode_datagram_def sr_decode_inner_def sr_decode_data_def Let_def result_simps
      dest: trim_ip_packet_prefix(1) split: if_splits)

lemma insert_fragment_state: "snd (insert_fragment t f now r) = snd (sr_insert f now r)"
  by (simp add: insert_fragment_def split_def Let_def)

lemma process_sr_ok:
  assumes "rx_ok st"
  shows "rx_ok (snd (process_sr_packet P ses env d st))"
proof -
  have frag: "rx_ok (st\<lparr>rx_sr := snd (insert_fragment t f now (rx_sr st))\<rparr>)" for t f now
    using assms sr_ok_insert by (simp add: rx_ok_def insert_fragment_state)
  have resp: "rx_ok (st\<lparr>rx_responder := r\<rparr>)" "rx_ok (st\<lparr>rx_monitor := m\<rparr>)" for r m
    using assms by (simp_all add: rx_ok_def)
  show ?thesis
    using assms frag resp
    by (auto simp: process_sr_packet_def Let_def split_def
        split: option.split sum.split sr_decoded.split
        intro!: rx_ok_perform_write rx_ok_perform_send
        dest: insert_fragment_complete sr_decode_complete)
qed

lemma conclude_state: "snd (conclude (a, st)) = st"
  by (simp add: conclude_def split: sum.split packet_action.split)

lemma conclude_snd: "snd (conclude x) = snd x"
  by (cases x) (simp add: conclude_state)

lemma receive_iteration_ok:
  assumes "rx_ok st"
  shows "rx_ok (snd (receive_iteration P ses inp st))"
  using assms process_standard_ok process_sr_ok
  by (simp add: receive_iteration_def receive_datagram_def conclude_snd split: option.split sum.split)

interpretation receive: invariant_system
  "\<lambda>st. \<exists>hb mon. st = rx_new hb mon"
  "\<lambda>st st'. \<exists>inp. st' = snd (receive_iteration P ses inp st)" rx_ok
  by unfold_locales (auto simp: rx_ok_new receive_iteration_ok)

lemma receive_loop_reachable:
  "reachable_from (\<lambda>st. \<exists>hb mon. st = rx_new hb mon)
     (\<lambda>st st'. \<exists>inp. st' = snd (receive_iteration P ses inp st)) st \<Longrightarrow>
   reachable_from (\<lambda>st. \<exists>hb mon. st = rx_new hb mon)
     (\<lambda>st st'. \<exists>inp. st' = snd (receive_iteration P ses inp st)) (snd (receive_loop P ses inps st))"
proof (induction inps arbitrary: st)
  case (Cons inp inps)
  obtain e st' where it: "receive_iteration P ses inp st = (e, st')" by fastforce
  have "reachable_from (\<lambda>st. \<exists>hb mon. st = rx_new hb mon)
     (\<lambda>st st'. \<exists>inp. st' = snd (receive_iteration P ses inp st)) st'"
    by (rule reach_step [OF Cons.prems]) (rule exI [of _ inp], simp add: it)
  with Cons.IH it show ?case by (cases e) auto
qed simp

lemma receive_loop_ok: "rx_ok (snd (receive_loop P ses inps (rx_new hb mon)))"
  by (rule receive.inv_reachable [OF receive_loop_reachable]) (blast intro: reach_init)

section \<open>Outbound and inbound paths together\<close>

text \<open>A device and a socket that accept everything, for closed examples.\<close>

definition demo_env :: io_env where
  "demo_env = \<lparr>env_now = 0, env_micros = 0, env_write = (\<lambda>p. Ok (length p)), env_send = (\<lambda>d. Ok (length d))\<rparr>"

definition demo_info :: session_info where
  "demo_info = \<lparr>peer = \<lparr>sa_ip = V4 1, sa_port = 6001\<rparr>, info_session_id = 3, info_token = 4,
     info_encryption = Xor, info_mtu = 1400, info_address = None, info_gateway = None,
     info_dns_servers = [], info_segment_routing = False\<rparr>"

definition demo_session :: session where
  "demo_session = \<lparr>ses_info = demo_info, ses_cipher = XorCipher (replicate 16 1), ses_sr = None\<rparr>"

definition demo_packet :: bytes where
  "demo_packet = [0x45, 0, 0, 20] @ replicate 16 7"

lemma demo_packet_complete: "complete_ip_packet demo_packet"
  by (simp add: complete_ip_packet_def demo_packet_def ip_version_def from_be_def nth_append)

lemma encode_data_not_sr:
  assumes "packet_type h \<noteq> SegmentRouting"
  shows "encode_data h b \<noteq> []" "encode_data h b ! 0 \<noteq> packet_type_code SegmentRouting"
  using assms packet_registry.code_eq_iff [of "packet_type h" SegmentRouting]
  by (simp_all add: encode_data_def header_encode_def)

lemma receive_standard:
  assumes "decode_packet P d = Ok p" "session_id (header p) = info_session_id (ses_info ses)"
    "token (header p) = info_token (ses_info ses)" "d ! 0 \<noteq> packet_type_code SegmentRouting"
  shows "receive_datagram P ses env d st = conclude (process_standard_packet P ses env p st)"
  using assms by (simp add: receive_datagram_def)

lemma decode_packet_first_byte:
  assumes "decode_packet P d = Ok p"
  shows "d ! 0 \<noteq> packet_type_code SegmentRouting"
proof -
  have "d = packet_image P p" "packet_type (header p) \<noteq> SegmentRouting"
    using decode_packet_sound(1,2) [OF assms] by auto
  then have "d ! 0 = packet_type_code (packet_type (header p))"
    by (auto simp: packet_image_def header_encode_def split: option.splits)
  with \<open>packet_type (header p) \<noteq> SegmentRouting\<close> show ?thesis
    by (metis packet_registry.code_eq_iff)
qed

lemma encode_traditional_round_trip:
  assumes ok: "prims_ok P" "cipher_wf c" "cipher_method c = info_encryption info"
    and p: "complete_ip_packet p" "length p \<le> unat (info_mtu info)"
  obtains t e ct where
    "encode_traditional_data P p info c =
       Ok [encode_data (header_new t e (info_session_id info) (info_token info)) ct]"
    "t = Data \<and> e = NoEncryption \<and> ct = p \<or>
     t = DataEncrypted \<and> e = cipher_method c \<and>
     (\<exists>n. cipher_decrypt P c ct = Ok (p @ replicate n 0))"
proof (cases "info_encryption info = NoEncryption")
  case True
  with p show thesis
    by (intro that [of Data NoEncryption p]) (simp_all add: encode_traditional_data_def)
next
  case False
  obtain ct where "cipher_encrypt P c p = Ok ct"
    "cipher_decrypt P c ct = Ok (p @ replicate (cipher_padding c (length p)) 0)"
    using cipher_round_trip [OF ok(1,2)] by blast
  with False p ok(3) show thesis
    by (intro that [of DataEncrypted "info_encryption info" ct])
      (auto simp: encode_traditional_data_def split: encryption_method.splits)
qed

lemma write_accepted:
  "env_write env p = Ok (length p) \<Longrightarrow>
     conclude (perform (write_inner_packet env) (Ok p) st) =
       (None, st\<lparr>rx_log := rx_log st @ [DeviceWrite p]\<rparr>)"
  by (simp add: perform_def write_inner_packet_def conclude_def Let_def)

section \<open>Properties\<close>

text \<open>C5 (tunnel transparency). A complete IP packet within the MTU leaves the sender as one datagram,
  and a session with the same parameters that receives this datagram writes exactly that
  packet to its device and changes nothing else, whatever the cipher.\<close>

theorem traditional_tunnel_transparent:
  assumes "prims_ok P" and "cipher_wf (ses_cipher ses)"
    and "cipher_method (ses_cipher ses) = info_encryption (ses_info ses)"
    and "complete_ip_packet p" and "length p \<le> unat (info_mtu (ses_info ses))"
    and "env_write env p = Ok (length p)"
  shows "\<exists>d. encode_traditional_data P p (ses_info ses) (ses_cipher ses) = Ok [d] \<and>
    receive_datagram P ses env d st = (None, st\<lparr>rx_log := rx_log st @ [DeviceWrite p]\<rparr>)"
proof -
  obtain t e ct where enc: "encode_traditional_data P p (ses_info ses) (ses_cipher ses) =
       Ok [encode_data (header_new t e (info_session_id (ses_info ses)) (info_token (ses_info ses))) ct]"
    and te: "t = Data \<and> e = NoEncryption \<and> ct = p \<or>
     t = DataEncrypted \<and> e = cipher_method (ses_cipher ses) \<and>
     (\<exists>n. cipher_decrypt P (ses_cipher ses) ct = Ok (p @ replicate n 0))"
    using encode_traditional_round_trip [OF assms(1-5)] by blast
  let ?h = "header_new t e (info_session_id (ses_info ses)) (info_token (ses_info ses))"
  have h: "is_data (packet_type ?h)" "session_id ?h = info_session_id (ses_info ses)"
    "token ?h = info_token (ses_info ses)" "packet_type ?h = t" "encryption ?h = e"
    using te by (auto simp: header_new_def is_data_def is_control_def)
  have dec: "decode_packet P (encode_data ?h ct) = Ok \<lparr>header = ?h, signature = None, body = ct\<rparr>"
    using decode_packet_encode_data [OF h(1)] .
  have "process_standard_packet P ses env \<lparr>header = ?h, signature = None, body = ct\<rparr> st =
      perform (write_inner_packet env) (Ok p) st"
    using te h(4,5) validate_inner_packet_complete [OF assms(4)] validate_inner_packet_complete [OF assms(4), of "[]"]
    by (auto simp: process_standard_packet_def require_encryption_def)
  then have "receive_datagram P ses env (encode_data ?h ct) st = (None, st\<lparr>rx_log := rx_log st @ [DeviceWrite p]\<rparr>)"
    using receive_standard [OF dec, of ses env st] decode_packet_first_byte [OF dec] h(2,3)
      write_accepted [OF assms(6)] by simp
  with enc show ?thesis by blast
qed

theorem traditional_tunnel_transparent_witness:
  "\<exists>d. encode_traditional_data demo_prims demo_packet (ses_info demo_session) (ses_cipher demo_session) = Ok [d] \<and>
    rx_log (snd (receive_datagram demo_prims demo_session demo_env d (rx_new (heartbeat_new 0) None))) =
      [DeviceWrite demo_packet]"
proof -
  have "length demo_packet = 20" by (simp add: demo_packet_def)
  then show ?thesis
    using traditional_tunnel_transparent [of demo_prims demo_session demo_packet demo_env
        "rx_new (heartbeat_new 0) None"] prims_ok_demo demo_packet_complete
    by (auto simp: demo_session_def demo_info_def demo_env_def rx_new_def)
qed

text \<open>C4 (only whole IP packets reach the device). Whatever the receive loop reads, in whatever order
  and with whatever results of the system calls, every packet it writes to the tunnel device is
  a complete IPv4 or IPv6 packet of exactly its announced length.\<close>

theorem device_writes_complete:
  assumes "DeviceWrite p \<in> set (rx_log (snd (receive_loop P ses inputs (rx_new hb mon))))"
  shows "complete_ip_packet p"
  using receive_loop_ok [of P ses inputs hb mon] assms by (simp add: rx_ok_def writes_ok_def)

theorem device_writes_complete_witness:
  "DeviceWrite demo_packet \<in> set (rx_log (snd (receive_loop demo_prims demo_session
     [\<lparr>in_shutdown = False, in_running = True, in_failure = None,
       in_recv = Ok (encode_data (header_new Data NoEncryption 3 4) demo_packet), in_env = demo_env\<rparr>]
     (rx_new (heartbeat_new 0) None)))) \<and> complete_ip_packet demo_packet"
proof -
  let ?h = "header_new Data NoEncryption 3 4"
  let ?in = "[\<lparr>in_shutdown = False, in_running = True, in_failure = None,
       in_recv = Ok (encode_data ?h demo_packet), in_env = demo_env\<rparr>]"
  have dec: "decode_packet demo_prims (encode_data ?h demo_packet) =
      Ok \<lparr>header = ?h, signature = None, body = demo_packet\<rparr>"
    by (rule decode_packet_encode_data) (simp add: header_new_def is_data_def is_control_def)
  have w: "env_write demo_env demo_packet = Ok (length demo_packet)" by (simp add: demo_env_def)
  have "receive_datagram demo_prims demo_session demo_env (encode_data ?h demo_packet) (rx_new (heartbeat_new 0) None)
      = (None, (rx_new (heartbeat_new 0) None)\<lparr>rx_log := [DeviceWrite demo_packet]\<rparr>)"
    using receive_standard [OF dec, of demo_session] decode_packet_first_byte [OF dec]
      write_accepted [OF w] validate_inner_packet_complete [OF demo_packet_complete, of "[]"]
    by (simp add: demo_session_def demo_info_def header_new_def process_standard_packet_def
        require_encryption_def rx_new_def)
  then have m: "DeviceWrite demo_packet \<in> set (rx_log (snd (receive_loop demo_prims demo_session ?in
      (rx_new (heartbeat_new 0) None))))"
    by (simp add: receive_iteration_def)
  with device_writes_complete [OF m] show ?thesis by blast
qed

text \<open>C3 (foreign datagrams are inert). A datagram that is not accepted as a packet of this session (it
  does not decode, or its session ID or token differ, or its Segment Routing envelope is
  refused) neither ends the session nor touches any of its state or the device.\<close>

theorem foreign_datagram_inert:
  assumes "\<not> (\<exists>p. decode_packet P d = Ok p \<and> session_id (header p) = info_session_id (ses_info ses) \<and>
                 token (header p) = info_token (ses_info ses))"
    and "\<not> (\<exists>runtime x. ses_sr ses = Some runtime \<and>
              decode_datagram P d (config_links (rt_config runtime)) (sr_tuple (ses_info ses))
                (ses_cipher ses) (rt_outer_cipher runtime) = Ok x)"
  shows "receive_datagram P ses env d st = (None, st)"
proof (cases "d \<noteq> [] \<and> d ! 0 = packet_type_code SegmentRouting")
  case True
  then show ?thesis
    using assms(2) decode_datagram_no_io
    by (auto simp: receive_datagram_def process_sr_packet_def conclude_def is_io_error_def Let_def
        split: option.splits sum.splits)
next
  case False
  then show ?thesis
    using assms(1) by (auto simp: receive_datagram_def split: sum.splits)
qed

theorem foreign_datagram_inert_witness:
  "receive_datagram demo_prims demo_session demo_env [1, 2] (rx_new (heartbeat_new 0) None) =
     (None, rx_new (heartbeat_new 0) None)"
proof (rule foreign_datagram_inert)
  have "decode_packet demo_prims [1, 2] = Err (PacketTooShort 8 2)"
    by (simp add: decode_packet_def header_decode_def)
  then show "\<not> (\<exists>p. decode_packet demo_prims [1, 2] = Ok p \<and>
      session_id (header p) = info_session_id (ses_info demo_session) \<and>
      token (header p) = info_token (ses_info demo_session))" by simp
qed (simp add: demo_session_def)

text \<open>(server close). A received datagram ends the session with \<open>ServerClose\<close> exactly when it is
  a \<open>CLOSE\<close> packet with the session's ID and token (signed, or the bare header form).\<close>

theorem server_close_iff:
  "fst (receive_datagram P ses env d st) = Some ServerClose \<longleftrightarrow>
     (\<exists>p. decode_packet P d = Ok p \<and> packet_type (header p) = Close \<and>
        session_id (header p) = info_session_id (ses_info ses) \<and>
        token (header p) = info_token (ses_info ses))"
proof -
  have perform: "fst (perform eff r s) \<noteq> Ok ActServerClose" for eff :: "'x \<Rightarrow> _" and r s
    by (auto simp: perform_def rmap_def rbind_def split_def split: sum.splits)
  have sr: "fst (process_sr_packet P ses env d st) \<noteq> Ok ActServerClose"
    using perform
    by (auto simp: process_sr_packet_def Let_def split_def rmap_def rbind_def
        split: option.splits sum.splits sr_decoded.splits)
  have std: "fst (process_standard_packet P ses env p st) = Ok ActServerClose \<longleftrightarrow>
      packet_type (header p) = Close" for p
    using perform
    by (auto simp: process_standard_packet_def process_fragment_def process_echo_response_def Let_def
        split_def split: packet_type.splits sum.splits option.splits)
  have conclude: "fst (conclude x) = Some ServerClose \<longleftrightarrow> fst x = Ok ActServerClose" for x
    by (cases x) (auto simp: conclude_def split: sum.splits packet_action.splits if_splits)
  show ?thesis
    using sr std decode_packet_first_byte
    by (auto simp: receive_datagram_def conclude split: sum.splits)
qed

section \<open>Heartbeat\<close>

fun unanswered :: "nat \<Rightarrow> heartbeat_tracker \<Rightarrow> heartbeat_tracker" where
  "unanswered 0 h = h"
| "unanswered (Suc n) h = unanswered n (snd (heartbeat_request_body 0 h))"

lemma unanswered_missed:
  "unat (hb_missed h) + n < 2 ^ 32 \<Longrightarrow>
     unat (hb_missed (unanswered n h)) = unat (hb_missed h) + n \<and>
     hb_last_response (unanswered n h) = hb_last_response h"
proof (induction n arbitrary: h)
  case (Suc n)
  let ?h = "snd (heartbeat_request_body 0 h)"
  have "unat (hb_missed ?h) = unat (hb_missed h) + 1" "hb_last_response ?h = hb_last_response h"
    using Suc.prems
    by (simp_all add: heartbeat_request_body_def saturating_add_word_def Let_def unat_word_ariths)
  with Suc.IH [of ?h] Suc.prems show ?case by simp
qed simp

text \<open>(heartbeat deadline). After any answer, the tracker times out exactly when ten requests in a
  row have stayed unanswered or more than 20 seconds have passed since that answer.\<close>

theorem heartbeat_timeout_iff:
  assumes "n < 2 ^ 32"
  shows "heartbeat_timed_out now (unanswered n (heartbeat_observe answered rtt h)) \<longleftrightarrow>
    n \<ge> 10 \<or> now > answered + HEARTBEAT_TIMEOUT_US"
proof -
  let ?h = "unanswered n (heartbeat_observe answered rtt h)"
  have "unat (hb_missed ?h) = n" "hb_last_response ?h = answered"
    using unanswered_missed [of "heartbeat_observe answered rtt h" n] assms
    by (simp_all add: heartbeat_observe_def)
  then show ?thesis
    by (auto simp: heartbeat_timed_out_def word_le_nat_alt)
qed

theorem heartbeat_timeout_iff_witness:
  "\<not> heartbeat_timed_out 20000005 (unanswered 9 (heartbeat_observe 5 7 (heartbeat_new 0)))"
  using heartbeat_timeout_iff [of 9 20000005 5 7 "heartbeat_new 0"] by simp


end
