(* ===== verification/Session_Runtime.thy ===== *)
theory Session_Runtime
  imports Session
begin

text \<open>
  The life of a session (\<open>src/client.rs\<close>): the authentication loop, the reconnect loop with
  its back-off, the interruptible wait, closing exactly once, the threads of a running session
  as an interleaving of their steps, and the ping probe. Clock readings, random numbers and the
  results of system calls are arguments. The pause of a second between two attempts to authenticate
  has no result and so no place in the loop; that the clock of the next attempt is later by at
  least this pause is the hypothesis of what is proved of its length.
\<close>

section \<open>Interruptible waiting\<close>

text \<open>\<open>running.load()\<close> at a given time since the start of the wait is the argument \<open>flag\<close>; a sleep
  takes exactly its duration. The result is the time waited.\<close>

function wait_from :: "duration \<Rightarrow> (duration \<Rightarrow> bool) \<Rightarrow> duration \<Rightarrow> duration" where
  "wait_from d flag elapsed =
     (if flag elapsed \<and> elapsed < d
      then wait_from d flag (elapsed + min (d - elapsed) 100000)
      else elapsed)"
  by pat_completeness auto
termination
  by (relation "measure (\<lambda>(d, flag, elapsed). d - elapsed)") auto

declare wait_from.simps [simp del]

definition wait_interruptibly :: "duration \<Rightarrow> (duration \<Rightarrow> bool) \<Rightarrow> duration" where
  "wait_interruptibly d flag = wait_from d flag 0"

section \<open>Authentication\<close>

abbreviation (input) AUTH_ATTEMPT_TIMEOUT :: duration where "AUTH_ATTEMPT_TIMEOUT \<equiv> 3000000"
abbreviation (input) AUTH_OVERALL_TIMEOUT :: duration where "AUTH_OVERALL_TIMEOUT \<equiv> 13000000"
abbreviation (input) AUTH_RETRY_DELAY :: duration where "AUTH_RETRY_DELAY \<equiv> 1000000"

definition authentication_attempt_timeout :: "duration \<Rightarrow> duration \<Rightarrow> duration option" where
  "authentication_attempt_timeout elapsed overall =
     (let remaining = overall - elapsed in
      if remaining = 0 then None else Some (min remaining AUTH_ATTEMPT_TIMEOUT))"

text \<open>One attempt as the loop sees it: the clock before it, the results of configuring the socket,
  of sending, of receiving, of configuring the socket for the session and of drawing the first fragment ID,
  and the clock after it.\<close>

record auth_round =
  ar_before :: duration
  ar_timeouts :: "error_kind + unit"
  ar_send :: "error_kind + nat"
  ar_recv :: "error_kind + bytes"
  ar_ack_timeouts :: "error_kind + unit"
  ar_fragment :: "u32 result"
  ar_after :: duration

datatype auth_step = AuthRetry | AuthDone "session result"

text \<open>The counter of fragment IDs is an argument of what sends; here it matters that drawing it may fail.\<close>

definition sr_runtime_new :: "segment_routing_config \<Rightarrow> u32 result \<Rightarrow> sr_runtime result" where
  "sr_runtime_new cfg fragment =
     rbind (outer_cipher_new (encrypt_algo cfg) (encrypt_key cfg)) (\<lambda>oc.
     rbind fragment (\<lambda>_.
       Ok \<lparr>rt_config = cfg, rt_outer_cipher = oc\<rparr>))"

definition accept_ack ::
  "crypto_prims \<Rightarrow> client_config \<Rightarrow> ustr \<Rightarrow> ustr \<Rightarrow> socket_addr \<Rightarrow> u32 \<Rightarrow>
     error_kind + unit \<Rightarrow> u32 result \<Rightarrow> decoded_packet \<Rightarrow> session result" where
  "accept_ack P cfg username password pr nonce timeouts fragment decoded =
     rbind (parse_open_ack decoded pr nonce (config_mtu cfg)) (\<lambda>info0.
     let info = info0\<lparr>info_segment_routing := (segment_routing cfg \<noteq> None)\<rparr> in
     rbind (case timeouts of Inl k \<Rightarrow> Err (Io k) | Inr _ \<Rightarrow> Ok ()) (\<lambda>_.
     rbind (create_cipher P (info_encryption info) username password) (\<lambda>c.
     rbind (case segment_routing cfg of
              None \<Rightarrow> Ok None
            | Some sr \<Rightarrow> rmap Some (sr_runtime_new sr fragment)) (\<lambda>runtime.
     Ok \<lparr>ses_info = info, ses_cipher = c, ses_sr = runtime\<rparr>))))"

definition auth_attempt ::
  "crypto_prims \<Rightarrow> client_config \<Rightarrow> ustr \<Rightarrow> ustr \<Rightarrow> socket_addr \<Rightarrow> u32 \<Rightarrow> auth_round \<Rightarrow> auth_step" where
  "auth_attempt P cfg username password pr nonce r =
     (case ar_timeouts r of
        Inl k \<Rightarrow> AuthDone (Err (Io k))
      | Inr _ \<Rightarrow>
          (case ar_send r of
             Inl k \<Rightarrow> AuthDone (Err (Io k))
           | Inr _ \<Rightarrow>
               (case ar_recv r of
                  Inl k \<Rightarrow>
                    if k = TimedOut \<or> k = WouldBlock then AuthRetry else AuthDone (Err (Io k))
                | Inr datagram \<Rightarrow>
                    (case decode_packet P datagram of
                       Inl e \<Rightarrow> AuthDone (Err e)
                     | Inr decoded \<Rightarrow>
                         if packet_type (header decoded) = OpenReject
                         then AuthDone (rbind (parse_rejection (body decoded) nonce) Err)
                         else if packet_type (header decoded) = OpenAck
                         then AuthDone (accept_ack P cfg username password pr nonce (ar_ack_timeouts r) (ar_fragment r) decoded)
                         else AuthRetry))))"

text \<open>The loop over its attempts: the outcome (\<open>None\<close> when the attempts given are used up) and the
  number of \<open>OPEN\<close> datagrams handed to the socket.\<close>

fun auth_loop ::
  "(auth_round \<Rightarrow> auth_step) \<Rightarrow> duration \<Rightarrow> auth_round list \<Rightarrow> session result option \<times> nat" where
  "auth_loop attempt overall [] = (None, 0)"
| "auth_loop attempt overall (r # rs) =
     (case authentication_attempt_timeout (ar_before r) overall of
        None \<Rightarrow> (Some (Err (Timeout ''authentication'')), 0)
      | Some _ \<Rightarrow>
          (case attempt r of
             AuthDone res \<Rightarrow> (Some res, 1)
           | AuthRetry \<Rightarrow>
               if ar_after r + AUTH_RETRY_DELAY \<ge> overall
               then (Some (Err (Timeout ''authentication'')), 1)
               else (case auth_loop attempt overall rs of (res, n) \<Rightarrow> (res, Suc n))))"

definition authenticate_with_budget ::
  "crypto_prims \<Rightarrow> (ustr \<Rightarrow> error_kind + socket_addr list) \<Rightarrow> client_config \<Rightarrow> ustr \<Rightarrow> ustr \<Rightarrow>
     error_kind + unit \<Rightarrow> u32 result \<Rightarrow> duration \<Rightarrow> auth_round list \<Rightarrow> session result option \<times> nat" where
  "authenticate_with_budget P resolver cfg username password connected nonce0 overall rounds =
     (case rbind (resolve_server resolver cfg) (\<lambda>pr.
           rbind (case connected of Inl k \<Rightarrow> Err (Io k) | Inr _ \<Rightarrow> Ok ()) (\<lambda>_.
           rbind nonce0 (\<lambda>nonce.
           rbind (build_open P username password (config_mtu cfg) (config_encryption cfg)
                    (case segment_routing cfg of
                       None \<Rightarrow> None
                     | Some sr \<Rightarrow> (case config_links sr of [] \<Rightarrow> None | l # _ \<Rightarrow> Some l))
                    (Some nonce)) (\<lambda>_.
           Ok (pr, nonce))))) of
        Inl e \<Rightarrow> (Some (Err e), 0)
      | Inr (pr, nonce) \<Rightarrow>
          auth_loop (auth_attempt P cfg username password pr nonce) overall rounds)"

section \<open>Reconnecting\<close>

definition ensure_same_tun_assignment :: "session_info \<Rightarrow> session_info \<Rightarrow> unit result" where
  "ensure_same_tun_assignment expected actual =
     (if info_address expected \<noteq> info_address actual
         \<or> info_gateway expected \<noteq> info_gateway actual
         \<or> info_mtu expected \<noteq> info_mtu actual
         \<or> info_segment_routing expected \<noteq> info_segment_routing actual
      then Err (InvalidConfig ''server changed the tunnel assignment during reconnection: expected address={:?}, gateway={:?}, mtu={}, sr={}; received address={:?}, gateway={:?}, mtu={}, sr={}'')
      else Ok ())"

text \<open>One round: the shutdown flag at its start, what authentication returns if it is tried, how the
  session ends and how long it ran, and the shutdown flag during the wait that follows.\<close>

record reconnect_round =
  rr_shutdown :: bool
  rr_auth :: "session_info result"
  rr_run :: "session_end result"
  rr_elapsed :: duration
  rr_flag :: "duration \<Rightarrow> bool"

datatype round_outcome = Finish "session_end result" | Retry u32 duration

definition reconnect_round_outcome ::
  "reconnect_policy \<Rightarrow> session_info option \<Rightarrow> session_info option \<Rightarrow> u32 \<Rightarrow> duration \<Rightarrow>
     reconnect_round \<Rightarrow> round_outcome" where
  "reconnect_round_outcome pol expected pending retry delay r =
     (case (case pending of Some i \<Rightarrow> Ok i | None \<Rightarrow> rr_auth r) of
        Inl _ \<Rightarrow> Retry retry delay
      | Inr info \<Rightarrow>
          (case (case expected of None \<Rightarrow> Ok () | Some x \<Rightarrow> ensure_same_tun_assignment x info) of
             Inl e \<Rightarrow> Finish (Err e)
           | Inr _ \<Rightarrow>
               (case rr_run r of
                  Inr LocalShutdown \<Rightarrow> Finish (Ok LocalShutdown)
                | Inr ServerClose \<Rightarrow> Finish (Ok ServerClose)
                | Inr _ \<Rightarrow>
                    if rr_elapsed r \<ge> HEARTBEAT_TIMEOUT_US
                    then Retry 0 (from_millis (initial_delay_ms pol))
                    else Retry retry delay
                | Inl _ \<Rightarrow> Retry retry delay)))"

text \<open>The loop, with the delay requested of and the time spent in each wait.\<close>

fun reconnect_loop ::
  "reconnect_policy \<Rightarrow> session_info option \<Rightarrow> session_info option \<Rightarrow> u32 \<Rightarrow> duration \<Rightarrow>
     reconnect_round list \<Rightarrow> session_end result option \<times> (duration \<times> duration) list" where
  "reconnect_loop pol expected pending retry delay [] = (None, [])"
| "reconnect_loop pol expected pending retry delay (r # rs) =
     (if rr_shutdown r then (Some (Ok LocalShutdown), [])
      else
        case reconnect_round_outcome pol expected pending retry delay r of
          Finish res \<Rightarrow> (Some res, [])
        | Retry retry' delay' \<Rightarrow>
            if retry' \<ge> rc_attempts pol
            then (Some (Err (Timeout ''reconnection budget exhausted'')), [])
            else
              (let waited = wait_interruptibly delay' (rr_flag r);
                   (res, waits) =
                     reconnect_loop pol expected None (retry' + 1)
                       (min (delay' * 2) (from_millis (max_delay_ms pol))) rs
               in (res, (delay', waited) # waits)))"

definition run_reconnecting ::
  "reconnect_policy \<Rightarrow> session_info option \<Rightarrow> reconnect_round list \<Rightarrow>
     session_end result option \<times> (duration \<times> duration) list" where
  "run_reconnecting pol initial_session rounds =
     reconnect_loop pol initial_session initial_session 0 (from_millis (initial_delay_ms pol)) rounds"

section \<open>Closing\<close>

record connection =
  conn_running :: bool
  close_sent :: bool
  conn_log :: "bytes list"

datatype close_op = OpShutdown | OpClose | OpCloseProbe | OpDrop

definition send_close_once :: "crypto_prims \<Rightarrow> session_info \<Rightarrow> connection \<Rightarrow> connection" where
  "send_close_once P info c =
     (if \<not> close_sent c
      then c\<lparr>close_sent := True, conn_log := conn_log c @ [build_close P (info_header info Close)]\<rparr>
      else c\<lparr>close_sent := True\<rparr>)"

definition close_step :: "crypto_prims \<Rightarrow> session_info \<Rightarrow> close_op \<Rightarrow> connection \<Rightarrow> connection" where
  "close_step P info op c0 =
     (let c = c0\<lparr>conn_running := False\<rparr> in
      case op of
        OpShutdown \<Rightarrow> c
      | OpClose \<Rightarrow> send_close_once P info c
      | OpDrop \<Rightarrow> send_close_once P info c
      | OpCloseProbe \<Rightarrow>
          if \<not> close_sent c
          then c\<lparr>close_sent := True, conn_log := conn_log c @ [build_probe_close (info_header info Close)]\<rparr>
          else c\<lparr>close_sent := True\<rparr>)"

section \<open>Ping\<close>

definition ping_response_ok :: "crypto_prims \<Rightarrow> bytes \<Rightarrow> unit result" where
  "ping_response_ok P d =
     (if length d \<noteq> CONTROL_PREFIX_LEN then Err InvalidPingResponse
      else
        rbind (decode_packet P d) (\<lambda>response.
          if packet_type (header response) \<noteq> PingResponse
             \<or> encryption (header response) \<noteq> NoEncryption
             \<or> session_id (header response) \<noteq> PING_SESSION_ID
             \<or> token (header response) \<noteq> PING_TOKEN
             \<or> body response \<noteq> []
          then Err InvalidPingResponse else Ok ()))"

definition ping_outcome :: "crypto_prims \<Rightarrow> error_kind + unit \<Rightarrow> error_kind + bytes \<Rightarrow> duration \<Rightarrow> duration result" where
  "ping_outcome P sent recv elapsed =
     (case sent of
        Inl k \<Rightarrow> Err (Io k)
      | Inr _ \<Rightarrow>
          (case recv of
             Inl k \<Rightarrow> if k = TimedOut \<or> k = WouldBlock then Err (Timeout ''ping'') else Err (Io k)
           | Inr d \<Rightarrow> rbind (ping_response_ok P d) (\<lambda>_. Ok elapsed)))"

section \<open>The threads of a running session\<close>

text \<open>
  \<open>run_active\<close> starts a sender and a heartbeat (or SR monitor) worker that share the flag
  \<open>running\<close> and a channel with the receive loop. A step is one atomic access of one thread: the
  receive loop loads the flags, then polls the channel, then receives; a failing heartbeat
  worker first sends its failure and then, in a separate step, clears \<open>running\<close>; a failing
  sender only sends. Anyone may request a shutdown.
\<close>

datatype rx_pc = RxTop | RxChecked | RxRecv | RxEnded session_end
datatype hb_pc = HbWorking | HbSent | HbDone
datatype tx_pc = TxWorking | TxDone

record threads =
  th_running :: bool
  th_shutdown :: bool
  th_channel :: "worker_failure list"
  th_rx :: rx_pc
  th_hb :: hb_pc
  th_tx :: tx_pc

definition threads_start :: "bool \<Rightarrow> threads" where
  "threads_start sd =
     \<lparr>th_running = True, th_shutdown = sd, th_channel = [], th_rx = RxTop, th_hb = HbWorking,
      th_tx = TxWorking\<rparr>"

inductive thread_step :: "threads \<Rightarrow> threads \<Rightarrow> bool" where
  rx_stop: "th_rx s = RxTop \<Longrightarrow> th_shutdown s \<or> \<not> th_running s \<Longrightarrow>
    thread_step s (s\<lparr>th_rx := RxEnded LocalShutdown\<rparr>)"
| rx_pass: "th_rx s = RxTop \<Longrightarrow> \<not> th_shutdown s \<Longrightarrow> th_running s \<Longrightarrow>
    thread_step s (s\<lparr>th_rx := RxChecked\<rparr>)"
| rx_failure: "th_rx s = RxChecked \<Longrightarrow> th_channel s = f # fs \<Longrightarrow>
    thread_step s (s\<lparr>th_rx := RxEnded (failure_end f), th_channel := fs\<rparr>)"
| rx_empty: "th_rx s = RxChecked \<Longrightarrow> th_channel s = [] \<Longrightarrow>
    thread_step s (s\<lparr>th_rx := RxRecv\<rparr>)"
| rx_continue: "th_rx s = RxRecv \<Longrightarrow> thread_step s (s\<lparr>th_rx := RxTop\<rparr>)"
| rx_close: "th_rx s = RxRecv \<Longrightarrow> thread_step s (s\<lparr>th_rx := RxEnded ServerClose\<rparr>)"
| rx_transport: "th_rx s = RxRecv \<Longrightarrow> thread_step s (s\<lparr>th_rx := RxEnded TransportFailure\<rparr>)"
| hb_fail: "th_hb s = HbWorking \<Longrightarrow> th_running s \<Longrightarrow>
    thread_step s (s\<lparr>th_hb := HbSent, th_channel := th_channel s @ [f]\<rparr>)"
| hb_clear: "th_hb s = HbSent \<Longrightarrow> thread_step s (s\<lparr>th_hb := HbDone, th_running := False\<rparr>)"
| hb_stop: "th_hb s = HbWorking \<Longrightarrow> \<not> th_running s \<Longrightarrow> thread_step s (s\<lparr>th_hb := HbDone\<rparr>)"
| tx_fail: "th_tx s = TxWorking \<Longrightarrow> th_running s \<Longrightarrow>
    thread_step s (s\<lparr>th_tx := TxDone, th_channel := th_channel s @ [WfTransport k]\<rparr>)"
| tx_stop: "th_tx s = TxWorking \<Longrightarrow> \<not> th_running s \<Longrightarrow> thread_step s (s\<lparr>th_tx := TxDone\<rparr>)"
| request_shutdown: "thread_step s (s\<lparr>th_shutdown := True\<rparr>)"

inductive_cases thread_stepE: "thread_step s t"

text \<open>The loop stops locally only for a reason, and \<open>running\<close> is cleared only by a failed worker.\<close>

definition threads_ok :: "threads \<Rightarrow> bool" where
  "threads_ok s \<longleftrightarrow>
     (th_rx s = RxEnded LocalShutdown \<longrightarrow> th_shutdown s \<or> \<not> th_running s) \<and>
     (\<not> th_running s \<longrightarrow> th_hb s = HbDone) \<and>
     (th_rx s = RxEnded HeartbeatTimeout \<longrightarrow> th_hb s \<noteq> HbWorking) \<and>
     (WfHeartbeatTimeout \<in> set (th_channel s) \<longrightarrow> th_hb s \<noteq> HbWorking)"

lemma failure_end_heartbeat [simp]: "failure_end f = HeartbeatTimeout \<longleftrightarrow> f = WfHeartbeatTimeout"
  "failure_end f \<noteq> LocalShutdown" "failure_end f \<noteq> ServerClose"
  by (auto simp: failure_end_def split: worker_failure.splits)

interpretation threads_sys: invariant_system "\<lambda>s. \<exists>sd. s = threads_start sd" thread_step threads_ok
proof
  show "\<exists>sd. s = threads_start sd \<Longrightarrow> threads_ok s" for s
    by (auto simp: threads_ok_def threads_start_def)
  show "threads_ok s \<Longrightarrow> thread_step s t \<Longrightarrow> threads_ok t" for s t
    by (erule thread_stepE) (auto simp: threads_ok_def)
qed

text \<open>Once \<open>running\<close> is cleared while the receive loop is not between its check and its poll, the
  channel is never read again.\<close>

lemma cleared_is_final:
  assumes "thread_step\<^sup>*\<^sup>* s t" "\<not> th_running s" "th_rx s \<noteq> RxChecked" "th_rx s \<noteq> RxEnded HeartbeatTimeout"
  shows "\<not> th_running t \<and> th_rx t \<noteq> RxChecked \<and> th_rx t \<noteq> RxEnded HeartbeatTimeout"
  using assms
proof (induction rule: rtranclp_induct)
  case (step t u)
  from step.IH [OF step.prems] step.hyps(2) show ?case
    by (auto elim!: thread_stepE)
qed auto

section \<open>Waiting: facts\<close>

lemma wait_from_bounds: "e \<le> wait_from d flag e \<and> wait_from d flag e \<le> max d e"
proof (induction d flag e rule: wait_from.induct)
  case (1 d flag e)
  then show ?case
    by (cases "flag e \<and> e < d") (force simp: wait_from.simps [of d flag e])+
qed

lemma wait_from_true: "e \<le> d \<Longrightarrow> wait_from d (\<lambda>_. True) e = d"
proof (induction "d - e" arbitrary: e rule: less_induct)
  case less
  show ?case
  proof (cases "e < d")
    case True
    then have "wait_from d (\<lambda>_. True) (e + min (d - e) 100000) = d"
      using less.prems by (intro less.hyps) auto
    with True show ?thesis by (subst wait_from.simps) simp
  next
    case False
    with less.prems show ?thesis by (subst wait_from.simps) simp
  qed
qed

lemma wait_from_responsive:
  "(\<And>s. t \<le> s \<Longrightarrow> \<not> flag s) \<Longrightarrow> e \<le> t + 100000 \<Longrightarrow> wait_from d flag e \<le> t + 100000"
proof (induction d flag e rule: wait_from.induct)
  case (1 d flag e)
  show ?case
  proof (cases "flag e \<and> e < d")
    case True
    then have "e < t" using 1(2) [of e] by (meson not_le)
    with True 1 show ?thesis by (simp add: wait_from.simps [of d flag e])
  next
    case False
    with 1(3) show ?thesis by (simp add: wait_from.simps [of d flag e] if_not_P)
  qed
qed

lemma wait_not_running: "\<not> flag 0 \<Longrightarrow> wait_interruptibly d flag = 0"
  by (simp add: wait_interruptibly_def wait_from.simps)

section \<open>Bounds of the loops\<close>

text \<open>The clock of the authentication loop: every attempt takes time, and between two attempts the
  loop sleeps for a second.\<close>

fun auth_clock :: "auth_round list \<Rightarrow> bool" where
  "auth_clock [] = True"
| "auth_clock [r] = (ar_before r \<le> ar_after r)"
| "auth_clock (r # q # rs) =
     (ar_before r \<le> ar_after r \<and> ar_after r + AUTH_RETRY_DELAY \<le> ar_before q \<and> auth_clock (q # rs))"

lemma auth_loop_bounded:
  assumes "auth_clock (r # rs)" "overall \<le> ar_before r + n * AUTH_RETRY_DELAY"
  shows "snd (auth_loop attempt overall (r # rs)) \<le> n \<and>
    (n < length (r # rs) \<longrightarrow> fst (auth_loop attempt overall (r # rs)) \<noteq> None)"
  using assms
proof (induction n arbitrary: r rs)
  case (Suc n)
  show ?case
  proof (cases rs)
    case Nil
    then show ?thesis
      by (simp add: authentication_attempt_timeout_def Let_def split: auth_step.split)
  next
    case (Cons q qs)
    with Suc.prems have "auth_clock (q # qs)" "overall \<le> ar_before q + n * AUTH_RETRY_DELAY"
      by (auto simp: algebra_simps)
    from Suc.IH [OF this] show ?thesis
      by (simp add: Cons authentication_attempt_timeout_def Let_def split_def split: auth_step.split
          del: auth_loop.simps(2))
        (subst auth_loop.simps(2), simp add: authentication_attempt_timeout_def Let_def split_def
          split: auth_step.split)
  qed
qed (simp add: authentication_attempt_timeout_def)

lemma unat_suc_less:
  fixes a b :: "'a::len word"
  assumes "unat a < unat b"
  shows "unat (a + 1) = unat a + 1"
proof -
  have "unat a + 1 < 2 ^ LENGTH('a)" using assms unsigned_less [of b] by (metis Suc_eq_plus1 Suc_leI le_less_trans)
  then show ?thesis by (simp add: unat_word_ariths)
qed

lemma round_outcome_keeps:
  assumes "reconnect_round_outcome pol ex pend retry delay r = Retry retry' delay'"
    and "rr_elapsed r < HEARTBEAT_TIMEOUT_US"
  shows "retry' = retry" "delay' = delay"
  using assms by (auto simp: reconnect_round_outcome_def split: option.splits sum.splits session_end.splits)

lemma reconnect_loop_bounded:
  assumes "\<forall>r \<in> set rs. rr_elapsed r < HEARTBEAT_TIMEOUT_US" "retry \<le> rc_attempts pol"
  shows "length (snd (reconnect_loop pol ex pend retry delay rs)) \<le> unat (rc_attempts pol) - unat retry \<and>
    (unat (rc_attempts pol) - unat retry < length rs \<longrightarrow>
       fst (reconnect_loop pol ex pend retry delay rs) \<noteq> None)"
  using assms
proof (induction rs arbitrary: pend retry delay)
  case (Cons r rs)
  show ?case
  proof (cases "rr_shutdown r")
    case False
    show ?thesis
    proof (cases "reconnect_round_outcome pol ex pend retry delay r")
      case (Retry retry' delay')
      with Cons.prems have eq: "retry' = retry" using round_outcome_keeps by auto
      show ?thesis
      proof (cases "rc_attempts pol \<le> retry")
        case True
        with False Retry eq show ?thesis by simp
      next
        case less: False
        then have lt: "unat retry < unat (rc_attempts pol)" by (simp add: word_less_nat_alt not_le)
        then have suc: "unat (retry + 1) = unat retry + 1" by (rule unat_suc_less)
        with lt have "retry + 1 \<le> rc_attempts pol" by (simp add: word_le_nat_alt)
        then have "length (snd (reconnect_loop pol ex None (retry + 1) delay'' rs)) \<le>
            unat (rc_attempts pol) - unat (retry + 1) \<and>
          (unat (rc_attempts pol) - unat (retry + 1) < length rs \<longrightarrow>
             fst (reconnect_loop pol ex None (retry + 1) delay'' rs) \<noteq> None)" for delay''
          using Cons.prems by (intro Cons.IH) auto
        from this [of "min (delay' * 2) (from_millis (max_delay_ms pol))"] lt suc show ?thesis
          using False less Retry eq by (simp add: Let_def split_def) arith
      qed
    qed (use False in simp)
  qed simp
qed simp

lemma reconnect_waits_zero:
  assumes "\<forall>r \<in> set rs. \<not> rr_flag r 0"
  shows "\<forall>(d, w) \<in> set (snd (reconnect_loop pol ex pend retry delay rs)). w = 0"
  using assms
proof (induction rs arbitrary: pend retry delay)
  case (Cons r rs)
  then show ?case
    by (auto simp: Let_def wait_not_running split_def split: round_outcome.splits)
qed simp

lemma backoff_cap: "min (min (d * 2) m * 2 ^ i) m = min (d * 2 ^ Suc i) (m :: nat)"
proof (cases "d * 2 \<le> m")
  case False
  have "m * 1 \<le> m * 2 ^ i" "m * 1 \<le> (d * 2) * 2 ^ i"
    using False by (intro mult_le_mono; simp)+
  with False show ?thesis by (simp add: min_absorb2 mult.assoc)
qed (simp add: min_absorb1 mult.assoc)

lemma backoff_schedule:
  assumes "\<forall>r \<in> set rs. \<not> rr_shutdown r \<and> (\<exists>e. rr_auth r = Err e)"
    and "retry \<le> rc_attempts pol" "unat (rc_attempts pol) - unat retry < length rs"
    and "delay \<le> from_millis (max_delay_ms pol)"
  shows "map fst (snd (reconnect_loop pol ex None retry delay rs)) =
    map (\<lambda>i. min (delay * 2 ^ i) (from_millis (max_delay_ms pol)))
      [0..<unat (rc_attempts pol) - unat retry] \<and>
    fst (reconnect_loop pol ex None retry delay rs) = Some (Err (Timeout ''reconnection budget exhausted''))"
  using assms
proof (induction rs arbitrary: retry delay)
  case (Cons r rs)
  let ?m = "from_millis (max_delay_ms pol)"
  have out: "reconnect_round_outcome pol ex None retry delay r = Retry retry delay"
    using Cons.prems(1) by (auto simp: reconnect_round_outcome_def)
  show ?case
  proof (cases "rc_attempts pol \<le> retry")
    case True
    with Cons.prems(2) have "retry = rc_attempts pol" by (rule antisym)
    with True out Cons.prems(1) show ?thesis by simp
  next
    case False
    then have lt: "unat retry < unat (rc_attempts pol)" by (simp add: word_less_nat_alt not_le)
    then have suc: "unat (retry + 1) = unat retry + 1" by (rule unat_suc_less)
    define n where "n = unat (rc_attempts pol) - unat (retry + 1)"
    have n: "unat (rc_attempts pol) - unat retry = Suc n" using lt suc by (simp add: n_def)
    have le: "retry + 1 \<le> rc_attempts pol" using lt suc by (simp add: word_le_nat_alt)
    have "map fst (snd (reconnect_loop pol ex None (retry + 1) (min (delay * 2) ?m) rs)) =
        map (\<lambda>i. min (min (delay * 2) ?m * 2 ^ i) ?m) [0..<n] \<and>
      fst (reconnect_loop pol ex None (retry + 1) (min (delay * 2) ?m) rs) =
        Some (Err (Timeout ''reconnection budget exhausted''))"
      unfolding n_def using Cons.prems le suc lt by (intro Cons.IH) auto
    moreover have "map (\<lambda>i. min (delay * 2 ^ i) ?m) [0..<Suc n] =
        delay # map (\<lambda>i. min (delay * 2 ^ Suc i) ?m) [0..<n]"
      using Cons.prems(4) by (simp add: upt_conv_Cons map_Suc_upt [symmetric] del: upt_Suc map_Suc_upt)
    ultimately show ?thesis
      using False out Cons.prems(1) unfolding n backoff_cap by (simp add: Let_def split_def)
  qed
qed simp

section \<open>Authentication: facts\<close>

lemma auth_loop_Ok:
  assumes "fst (auth_loop attempt overall rs) = Some (Ok ses)"
  shows "\<exists>r \<in> set rs. attempt r = AuthDone (Ok ses)"
  using assms
proof (induction rs)
  case (Cons r rs)
  then show ?case
    by (auto simp: split_def split: option.splits auth_step.splits if_splits)
qed simp

lemma accept_ack_info:
  assumes "accept_ack P cfg u pw pr nonce tm fragment decoded = Ok ses" "prims_ok P"
    and "576 \<le> config_mtu cfg" "config_mtu cfg \<le> 9000"
  shows "info_session_id (ses_info ses) = session_id (header decoded)"
    "info_token (ses_info ses) = token (header decoded)" "info_bounded (ses_info ses)"
    "cipher_wf (ses_cipher ses)" "cipher_method (ses_cipher ses) = info_encryption (ses_info ses)"
    "\<And>runtime. ses_sr ses = Some runtime \<Longrightarrow> outer_wf (rt_outer_cipher runtime)"
proof -
  from assms(1) obtain i c rt where
    i: "parse_open_ack decoded pr nonce (config_mtu cfg) = Ok i"
    and c: "create_cipher P (info_encryption i) u pw = Ok c"
    and rt: "(case segment_routing cfg of None \<Rightarrow> Ok None | Some sr \<Rightarrow> rmap Some (sr_runtime_new sr fragment)) = Ok rt"
    and ses: "ses = \<lparr>ses_info = i\<lparr>info_segment_routing := (segment_routing cfg \<noteq> None)\<rparr>,
                     ses_cipher = c, ses_sr = rt\<rparr>"
    by (auto simp: accept_ack_def result_simps Let_def)
  have "info_session_id i = session_id (header decoded) \<and> info_token i = token (header decoded) \<and> info_bounded i"
  proof -
    obtain ts where "i = fold (ack_attribute (config_mtu cfg)) ts
           \<lparr>peer = pr, info_session_id = session_id (header decoded), info_token = token (header decoded),
            info_encryption = encryption (header decoded), info_mtu = config_mtu cfg,
            info_address = None, info_gateway = None, info_dns_servers = [],
            info_segment_routing = False\<rparr>"
      using i by (auto simp: parse_open_ack_def result_simps)
    then show ?thesis
      using ack_fold_bounded [OF assms(3,4)] assms(3,4) by (auto simp: ack_fold_fields info_bounded_def)
  qed
  then show "info_session_id (ses_info ses) = session_id (header decoded)"
    "info_token (ses_info ses) = token (header decoded)" "info_bounded (ses_info ses)"
    by (simp_all add: ses info_bounded_def)
  show "cipher_wf (ses_cipher ses)" "cipher_method (ses_cipher ses) = info_encryption (ses_info ses)"
    using create_cipher_wf [OF assms(2) c] by (simp_all add: ses)
  show "outer_wf (rt_outer_cipher runtime)" if "ses_sr ses = Some runtime" for runtime
    using rt that outer_cipher_new_wf
    by (auto simp: ses sr_runtime_new_def result_simps split: option.splits)
qed

lemma auth_attempt_OkD:
  assumes "auth_attempt P cfg u pw pr nonce r = AuthDone (Ok ses)"
  shows "\<exists>d decoded. ar_recv r = Ok d \<and> decode_packet P d = Ok decoded \<and>
    packet_type (header decoded) = OpenAck \<and>
    accept_ack P cfg u pw pr nonce (ar_ack_timeouts r) (ar_fragment r) decoded = Ok ses"
  using assms by (auto simp: auth_attempt_def result_simps split: sum.splits if_splits)

section \<open>Closing: facts\<close>

lemma close_step_effect:
  "length (conn_log (close_step P info op c)) =
     length (conn_log c) + (if close_sent c \<or> op = OpShutdown then 0 else 1)"
  "close_sent (close_step P info op c) \<longleftrightarrow> close_sent c \<or> op \<noteq> OpShutdown"
  "\<not> conn_running (close_step P info op c)"
  by (cases op; simp add: close_step_def send_close_once_def Let_def)+

section \<open>Properties\<close>

text \<open>C9 (authentication is bounded). With the sleeps of one second between attempts, authentication
  under the overall budget of 13 seconds sends at most 13 \<open>OPEN\<close> datagrams and has an outcome
  after at most 14 attempts.\<close>

theorem authenticate_bounded:
  assumes "auth_clock rounds"
  shows "snd (authenticate_with_budget P resolver cfg u pw connected nonce AUTH_OVERALL_TIMEOUT rounds) \<le> 13 \<and>
    (13 < length rounds \<longrightarrow>
      fst (authenticate_with_budget P resolver cfg u pw connected nonce AUTH_OVERALL_TIMEOUT rounds) \<noteq> None)"
proof (cases rounds)
  case Nil
  then show ?thesis by (simp add: authenticate_with_budget_def split: sum.split)
next
  case (Cons r rs)
  then show ?thesis
    using assms auth_loop_bounded [of r rs AUTH_OVERALL_TIMEOUT 13]
    by (simp add: authenticate_with_budget_def del: auth_loop.simps split: sum.split)
qed

theorem authenticate_bounded_witness:
  "snd (authenticate_with_budget demo_prims (\<lambda>_. Ok [\<lparr>sa_ip = V4 1, sa_port = 2\<rparr>]) (config_new [])
     [] [] (Ok ()) (Ok 7) AUTH_OVERALL_TIMEOUT
     [\<lparr>ar_before = 0, ar_timeouts = Ok (), ar_send = Ok 1, ar_recv = Err TimedOut,
       ar_ack_timeouts = Ok (), ar_fragment = Ok 1, ar_after = 3000000\<rparr>]) \<le> 13"
  using authenticate_bounded [of "[\<lparr>ar_before = 0, ar_timeouts = Ok (), ar_send = Ok 1,
       ar_recv = Err TimedOut, ar_ack_timeouts = Ok (), ar_fragment = Ok 1, ar_after = 3000000\<rparr>]"]
  by simp

text \<open>C8 (authentication is sound). A session comes only from a received \<open>OPEN_ACK\<close> with a valid
  signature; it has the ID and token of that packet, bounded parameters, and ciphers that meet
  the contract the data path relies on.\<close>

theorem authenticate_sound:
  assumes "fst (authenticate_with_budget P resolver cfg u pw connected nonce overall rounds) = Some (Ok ses)"
    and "prims_ok P" and "config_validate resolver cfg = Ok ()"
  shows "\<exists>r d decoded. r \<in> set rounds \<and> ar_recv r = Ok d \<and> decode_packet P d = Ok decoded \<and>
    packet_type (header decoded) = OpenAck \<and>
    signature decoded = Some (calculate_signature P (header decoded)) \<and>
    info_session_id (ses_info ses) = session_id (header decoded) \<and>
    info_token (ses_info ses) = token (header decoded) \<and> info_bounded (ses_info ses) \<and>
    cipher_wf (ses_cipher ses) \<and> cipher_method (ses_cipher ses) = info_encryption (ses_info ses) \<and>
    (\<forall>runtime. ses_sr ses = Some runtime \<longrightarrow> outer_wf (rt_outer_cipher runtime))"
proof -
  from assms(1) obtain pr n where
    "fst (auth_loop (auth_attempt P cfg u pw pr n) overall rounds) = Some (Ok ses)"
    by (auto simp: authenticate_with_budget_def split: sum.splits)
  then obtain r where r: "r \<in> set rounds" "auth_attempt P cfg u pw pr n r = AuthDone (Ok ses)"
    using auth_loop_Ok by blast
  then obtain d decoded where d: "ar_recv r = Ok d" "decode_packet P d = Ok decoded"
    "packet_type (header decoded) = OpenAck"
    and a: "accept_ack P cfg u pw pr n (ar_ack_timeouts r) (ar_fragment r) decoded = Ok ses"
    using auth_attempt_OkD by blast
  have "signature decoded = Some (calculate_signature P (header decoded))"
    using decode_packet_sound(3) [OF d(2)] d(3) by (auto simp: is_control_def)
  moreover note accept_ack_info [OF a assms(2) config_validate_OkD(1,2) [OF assms(3)]]
  ultimately show ?thesis using r(1) d by blast
qed

theorem authenticate_sound_witness:
  "\<exists>ses. fst (authenticate_with_budget demo_prims (\<lambda>_. Ok [\<lparr>sa_ip = V4 1, sa_port = 2\<rparr>]) (config_new [])
     [] [] (Ok ()) (Ok 7) AUTH_OVERALL_TIMEOUT
     [\<lparr>ar_before = 0, ar_timeouts = Ok (), ar_send = Ok 1,
       ar_recv = Ok (encode_control demo_prims (header_new OpenAck Xor 3 4) []),
       ar_ack_timeouts = Ok (), ar_fragment = Ok 1, ar_after = 5\<rparr>]) = Some (Ok ses) \<and>
     info_session_id (ses_info ses) = 3 \<and> cipher_wf (ses_cipher ses)"
proof -
  let ?h = "header_new OpenAck Xor 3 4" and ?res = "\<lambda>_. Ok [\<lparr>sa_ip = V4 1, sa_port = 2\<rparr>]"
  let ?rounds = "[\<lparr>ar_before = 0, ar_timeouts = Ok (), ar_send = Ok 1,
       ar_recv = Ok (encode_control demo_prims ?h []), ar_ack_timeouts = Ok (), ar_fragment = Ok 1, ar_after = 5\<rparr>]"
  have dec: "decode_packet demo_prims (encode_control demo_prims ?h []) =
      Ok \<lparr>header = ?h, signature = Some (calculate_signature demo_prims ?h), body = []\<rparr>"
    by (rule decode_packet_encode_control [OF prims_ok_demo]) (simp add: header_new_def is_control_def)
  have open_ok: "\<exists>d. build_open demo_prims [] [] 1400 Xor None (Some 7) = Ok d"
    using build_open_decodes [OF _ prims_ok_demo, of "[]"] by (metis list.size(3) zero_le)
  obtain ses where ses: "accept_ack demo_prims (config_new []) [] [] \<lparr>sa_ip = V4 1, sa_port = 2\<rparr> 7 (Ok ()) (Ok 1)
      \<lparr>header = ?h, signature = Some (calculate_signature demo_prims ?h), body = []\<rparr> = Ok ses"
    by (simp add: accept_ack_def parse_open_ack_def parse_all_def parse_all_at.simps find_tlv_def
        config_new_def header_new_def create_cipher_def)
  then have step: "auth_attempt demo_prims (config_new []) [] [] \<lparr>sa_ip = V4 1, sa_port = 2\<rparr> 7 (hd ?rounds) =
      AuthDone (Ok ses)"
    by (simp add: auth_attempt_def dec) (simp add: header_new_def)
  have ok: "fst (authenticate_with_budget demo_prims ?res (config_new []) [] [] (Ok ()) (Ok 7)
      AUTH_OVERALL_TIMEOUT ?rounds) = Some (Ok ses)"
    using open_ok step
    by (auto simp: authenticate_with_budget_def resolve_server_def config_new_def
        authentication_attempt_timeout_def)
  have v: "config_validate ?res (config_new []) = Ok ()"
    by (simp add: config_validate_def config_new_def reconnect_default_def resolve_server_def)
  from authenticate_sound [OF ok prims_ok_demo v] obtain d decoded where
    "encode_control demo_prims ?h [] = d" "decode_packet demo_prims d = Ok decoded"
    "info_session_id (ses_info ses) = session_id (header decoded)" "cipher_wf (ses_cipher ses)" by auto
  with dec ok show ?thesis by (auto simp: header_new_def)
qed

text \<open>(interruptible wait). A wait lasts at most its duration, lasts all of it while the flag stays
  set, and ends within 100 ms once the flag is cleared for good.\<close>

theorem wait_interruptibly_correct:
  "wait_interruptibly d flag \<le> d \<and>
   ((\<forall>t. flag t) \<longrightarrow> wait_interruptibly d flag = d) \<and>
   (\<forall>t. (\<forall>s \<ge> t. \<not> flag s) \<longrightarrow> wait_interruptibly d flag \<le> t + 100000)"
proof -
  have "flag = (\<lambda>_. True)" if "\<forall>t. flag t" using that by auto
  then show ?thesis
    using wait_from_bounds [of 0 d flag] wait_from_true [of 0 d] wait_from_responsive [of _ flag 0 d]
    by (auto simp: wait_interruptibly_def)
qed

theorem wait_interruptibly_correct_witness:
  "wait_interruptibly 2000000 (\<lambda>_. True) = 2000000 \<and>
   wait_interruptibly 2000000 (\<lambda>t. t < 500000) \<le> 600000"
proof -
  have "wait_interruptibly 2000000 (\<lambda>t. t < 500000) \<le> 500000 + 100000"
    using wait_interruptibly_correct [of 2000000 "\<lambda>t. t < 500000"] by (meson not_less)
  with wait_interruptibly_correct [of 2000000 "\<lambda>_. True"] show ?thesis by simp
qed

text \<open>(reconnection budget). If no session lasts 20 seconds, the reconnect loop has an outcome after
  at most one more round than its configured attempts, and waits at most that many times.\<close>

theorem reconnect_bounded:
  assumes "\<forall>r \<in> set rounds. rr_elapsed r < HEARTBEAT_TIMEOUT_US"
  shows "length (snd (run_reconnecting pol initial_session rounds)) \<le> unat (rc_attempts pol) \<and>
    (unat (rc_attempts pol) < length rounds \<longrightarrow>
      fst (run_reconnecting pol initial_session rounds) \<noteq> None)"
  using reconnect_loop_bounded [OF assms, of 0 pol] by (simp add: run_reconnecting_def)

theorem reconnect_bounded_witness:
  "fst (run_reconnecting \<lparr>rc_attempts = 1, initial_delay_ms = 1, max_delay_ms = 2\<rparr> None
     (replicate 2 \<lparr>rr_shutdown = False, rr_auth = Err InvalidSignature, rr_run = Ok LocalShutdown,
        rr_elapsed = 0, rr_flag = (\<lambda>_. False)\<rparr>)) \<noteq> None"
  using reconnect_bounded [of "replicate 2 \<lparr>rr_shutdown = False, rr_auth = Err InvalidSignature,
        rr_run = Ok LocalShutdown, rr_elapsed = 0, rr_flag = (\<lambda>_. False)\<rparr>"
      "\<lparr>rc_attempts = 1, initial_delay_ms = 1, max_delay_ms = 2\<rparr>" None]
  by simp

text \<open>(back-off schedule). While every authentication fails, the delays the reconnect loop asks for
  double from the initial delay up to the configured maximum, once per configured attempt, and
  then the loop gives up.\<close>

theorem reconnect_backoff:
  assumes "\<forall>r \<in> set rounds. \<not> rr_shutdown r \<and> (\<exists>e. rr_auth r = Err e)"
    and "unat (rc_attempts pol) < length rounds"
    and "initial_delay_ms pol \<le> max_delay_ms pol"
  shows "map fst (snd (run_reconnecting pol None rounds)) =
    map (\<lambda>i. min (unat (initial_delay_ms pol) * 1000 * 2 ^ i) (unat (max_delay_ms pol) * 1000))
      [0..<unat (rc_attempts pol)] \<and>
    fst (run_reconnecting pol None rounds) = Some (Err (Timeout ''reconnection budget exhausted''))"
  using backoff_schedule [OF assms(1), of 0 pol "from_millis (initial_delay_ms pol)" None] assms(2,3)
  by (simp add: run_reconnecting_def from_millis_def word_le_nat_alt)

theorem reconnect_backoff_witness:
  "map fst (snd (run_reconnecting reconnect_default None
     (replicate 11 \<lparr>rr_shutdown = False, rr_auth = Err InvalidSignature, rr_run = Ok LocalShutdown,
        rr_elapsed = 0, rr_flag = (\<lambda>_. False)\<rparr>))) =
   [1000000, 2000000, 4000000, 8000000, 16000000, 30000000, 30000000, 30000000, 30000000, 30000000]"
  using reconnect_backoff [of "replicate 11 \<lparr>rr_shutdown = False, rr_auth = Err InvalidSignature,
        rr_run = Ok LocalShutdown, rr_elapsed = 0, rr_flag = (\<lambda>_. False)\<rparr>" reconnect_default]
  by (simp add: reconnect_default_def upt_conv_Cons)

text \<open>(the back-off is not waited for). The reconnect loop passes the shutdown flag where
  \<open>wait_interruptibly\<close> expects a flag that is set while waiting should go on. As long as no
  shutdown is requested, the time spent in every wait between two connection attempts is zero,
  whatever delay was asked for.\<close>

theorem reconnect_never_waits:
  assumes "\<forall>r \<in> set rounds. \<not> rr_flag r 0"
  shows "\<forall>(requested, waited) \<in> set (snd (run_reconnecting pol initial_session rounds)). waited = 0"
  using reconnect_waits_zero [OF assms] by (simp add: run_reconnecting_def)

theorem reconnect_never_waits_witness:
  "snd (run_reconnecting \<lparr>rc_attempts = 1, initial_delay_ms = 5, max_delay_ms = 9\<rparr> None
     [\<lparr>rr_shutdown = False, rr_auth = Err InvalidSignature, rr_run = Ok LocalShutdown,
        rr_elapsed = 0, rr_flag = (\<lambda>_. False)\<rparr>,
      \<lparr>rr_shutdown = False, rr_auth = Err InvalidSignature, rr_run = Ok LocalShutdown,
        rr_elapsed = 0, rr_flag = (\<lambda>_. False)\<rparr>]) = [(5000, 0)]"
  using reconnect_never_waits [of
      "[\<lparr>rr_shutdown = False, rr_auth = Err InvalidSignature, rr_run = Ok LocalShutdown,
        rr_elapsed = 0, rr_flag = (\<lambda>_. False)\<rparr>,
      \<lparr>rr_shutdown = False, rr_auth = Err InvalidSignature, rr_run = Ok LocalShutdown,
        rr_elapsed = 0, rr_flag = (\<lambda>_. False)\<rparr>]"
      "\<lparr>rc_attempts = 1, initial_delay_ms = 5, max_delay_ms = 9\<rparr>" None]
  by (simp add: run_reconnecting_def reconnect_round_outcome_def from_millis_def Let_def)

text \<open>(a lost heartbeat looks like a shutdown). Once a failed heartbeat worker has cleared
  \<open>running\<close>, a receive loop that is not between its flag check and its poll of the channel can
  never report \<open>HeartbeatTimeout\<close>: it ends with \<open>LocalShutdown\<close> although nobody asked for a
  shutdown, and the reconnect loop then returns instead of reconnecting.\<close>

theorem heartbeat_failure_becomes_shutdown:
  assumes "\<not> th_running s" and "th_rx s = RxTop \<or> th_rx s = RxRecv"
  shows "(\<forall>t. thread_step\<^sup>*\<^sup>* s t \<longrightarrow> th_rx t \<noteq> RxEnded HeartbeatTimeout) \<and>
    (\<exists>t. thread_step\<^sup>*\<^sup>* s t \<and> th_rx t = RxEnded LocalShutdown \<and> th_shutdown t = th_shutdown s) \<and>
    fst (run_reconnecting pol None [\<lparr>rr_shutdown = False, rr_auth = Ok info,
       rr_run = Ok LocalShutdown, rr_elapsed = el, rr_flag = (\<lambda>_. False)\<rparr>]) = Some (Ok LocalShutdown)"
proof (intro conjI)
  show "\<forall>t. thread_step\<^sup>*\<^sup>* s t \<longrightarrow> th_rx t \<noteq> RxEnded HeartbeatTimeout"
    using cleared_is_final assms by fastforce
  let ?top = "s\<lparr>th_rx := RxTop\<rparr>"
  have "thread_step\<^sup>*\<^sup>* s ?top"
  proof (cases "th_rx s = RxTop")
    case True
    then have "?top = s" by simp
    then show ?thesis by simp
  qed (use assms rx_continue in blast)
  moreover have "thread_step ?top (?top\<lparr>th_rx := RxEnded LocalShutdown\<rparr>)"
    using assms(1) by (intro rx_stop) simp_all
  ultimately have "thread_step\<^sup>*\<^sup>* s (?top\<lparr>th_rx := RxEnded LocalShutdown\<rparr>)" by simp
  then show "\<exists>t. thread_step\<^sup>*\<^sup>* s t \<and> th_rx t = RxEnded LocalShutdown \<and> th_shutdown t = th_shutdown s"
    by (intro exI [of _ "?top\<lparr>th_rx := RxEnded LocalShutdown\<rparr>"]) simp
  show "fst (run_reconnecting pol None [\<lparr>rr_shutdown = False, rr_auth = Ok info,
       rr_run = Ok LocalShutdown, rr_elapsed = el, rr_flag = (\<lambda>_. False)\<rparr>]) = Some (Ok LocalShutdown)"
    by (simp add: run_reconnecting_def reconnect_round_outcome_def)
qed

text \<open>The start of a session, a heartbeat worker that times out while the receive loop is blocked in
  \<open>recv\<close>, and the end it leads to.\<close>

theorem heartbeat_failure_becomes_shutdown_witness:
  "\<exists>s t. thread_step\<^sup>*\<^sup>* (threads_start False) s \<and> th_channel s = [WfHeartbeatTimeout] \<and>
     thread_step\<^sup>*\<^sup>* s t \<and> th_rx t = RxEnded LocalShutdown \<and> \<not> th_shutdown t"
proof -
  let ?s0 = "threads_start False"
  let ?s1 = "?s0\<lparr>th_rx := RxChecked\<rparr>"
  let ?s2 = "?s1\<lparr>th_rx := RxRecv\<rparr>"
  let ?s3 = "?s2\<lparr>th_hb := HbSent, th_channel := th_channel ?s2 @ [WfHeartbeatTimeout]\<rparr>"
  let ?s4 = "?s3\<lparr>th_hb := HbDone, th_running := False\<rparr>"
  have "thread_step ?s0 ?s1" by (rule rx_pass) (simp_all add: threads_start_def)
  moreover have "thread_step ?s1 ?s2" by (rule rx_empty) (simp_all add: threads_start_def)
  moreover have "thread_step ?s2 ?s3" by (rule hb_fail) (simp_all add: threads_start_def)
  moreover have "thread_step ?s3 ?s4" by (rule hb_clear) simp
  ultimately have r: "thread_step\<^sup>*\<^sup>* ?s0 ?s4"
    by (intro rtranclp.rtrancl_into_rtrancl [OF rtranclp.rtrancl_into_rtrancl
          [OF rtranclp.rtrancl_into_rtrancl [OF rtranclp.rtrancl_into_rtrancl
          [OF rtranclp.rtrancl_refl]]]])
  have "\<exists>t. thread_step\<^sup>*\<^sup>* ?s4 t \<and> th_rx t = RxEnded LocalShutdown \<and> th_shutdown t = th_shutdown ?s4"
    using heartbeat_failure_becomes_shutdown [of ?s4] by simp
  moreover have "th_channel ?s4 = [WfHeartbeatTimeout]" "\<not> th_shutdown ?s4" by (simp_all add: threads_start_def)
  ultimately show ?thesis using r by metis
qed

text \<open>(reasons of the threads' ends). In every interleaving, the receive loop ends locally only
  after a shutdown request or a failed heartbeat worker, and with a heartbeat timeout only if the
  worker failed.\<close>

theorem session_end_has_reason:
  assumes "reachable_from (\<lambda>s. \<exists>sd. s = threads_start sd) thread_step s"
  shows "(th_rx s = RxEnded LocalShutdown \<longrightarrow> th_shutdown s \<or> th_hb s = HbDone) \<and>
    (th_rx s = RxEnded HeartbeatTimeout \<longrightarrow> th_hb s \<noteq> HbWorking)"
  using threads_sys.inv_reachable [OF assms] by (auto simp: threads_ok_def)

theorem session_end_has_reason_witness:
  "\<exists>s. reachable_from (\<lambda>s. \<exists>sd. s = threads_start sd) thread_step s \<and>
     th_rx s = RxEnded LocalShutdown \<and> (th_shutdown s \<or> th_hb s = HbDone)"
proof -
  let ?s = "(threads_start True)\<lparr>th_rx := RxEnded LocalShutdown\<rparr>"
  have "thread_step (threads_start True) ?s" by (rule rx_stop) (simp_all add: threads_start_def)
  then have "reachable_from (\<lambda>s. \<exists>sd. s = threads_start sd) thread_step ?s"
    by (blast intro: reach_step reach_init)
  with session_end_has_reason [OF this] show ?thesis by auto
qed

text \<open>(one CLOSE). However the ways to end a session (\<open>shutdown\<close>, \<open>close\<close>, \<open>close_probe\<close>, dropping
  it) follow each other, at most one \<open>CLOSE\<close> datagram is sent, and exactly one as soon as one of
  the closing operations ran; afterwards the session is not running.\<close>

theorem close_at_most_once:
  "let final = fold (close_step P info) ops \<lparr>conn_running = True, close_sent = False, conn_log = []\<rparr>
   in length (conn_log final) = (if set ops \<subseteq> {OpShutdown} then 0 else 1) \<and>
      (conn_running final \<longleftrightarrow> ops = [])"
proof -
  have log: "length (conn_log (fold (close_step P info) ops c)) =
      length (conn_log c) + (if close_sent c \<or> set ops \<subseteq> {OpShutdown} then 0 else 1)" for c
    by (induction ops arbitrary: c) (auto simp: close_step_effect)
  moreover have "conn_running (fold (close_step P info) ops c) \<longleftrightarrow> ops = [] \<and> conn_running c" for c
    by (induction ops arbitrary: c) (auto simp: close_step_effect)
  ultimately show ?thesis by (simp add: Let_def)
qed

text \<open>(ping). The ping probe accepts exactly one answer: the 24-byte signed \<open>PING_RESPONSE\<close> with
  the ping session tuple.\<close>

theorem ping_accepts_exactly:
  assumes "prims_ok P"
  shows "ping_outcome P (Ok ()) (Ok d) elapsed = Ok elapsed \<longleftrightarrow> d = build_ping_response P"
proof -
  let ?h = "header_new PingResponse NoEncryption PING_SESSION_ID PING_TOKEN"
  have dec: "decode_packet P (build_ping_response P) =
      Ok \<lparr>header = ?h, signature = Some (calculate_signature P ?h), body = []\<rparr>"
    unfolding build_ping_response_def
    by (rule decode_packet_encode_control [OF assms]) (simp add: header_new_def is_control_def)
  have "ping_response_ok P (build_ping_response P) = Ok ()"
    unfolding ping_response_ok_def dec
    using assms by (simp add: build_ping_response_def encode_control_def header_new_def)
  moreover have "d = build_ping_response P" if ok: "ping_response_ok P d = Ok ()"
  proof -
    from ok obtain p where p: "decode_packet P d = Ok p" "packet_type (header p) = PingResponse"
      "header p = ?h" "body p = []"
      by (auto simp: ping_response_ok_def result_simps header_new_def split: if_splits)
    have "signature p = Some (calculate_signature P ?h)"
      using decode_packet_sound(3) [OF p(1)] p(2,3) by (auto simp: is_control_def)
    then show ?thesis
      using decode_packet_sound(2) [OF p(1)] p(3,4)
      by (simp add: packet_image_def build_ping_response_def encode_control_def)
  qed
  ultimately show ?thesis by (auto simp: ping_outcome_def result_simps)
qed

theorem ping_accepts_exactly_witness:
  "ping_outcome demo_prims (Ok ()) (Ok (build_ping_response demo_prims)) 12 = Ok 12"
  using ping_accepts_exactly [OF prims_ok_demo, of "build_ping_response demo_prims" 12] by simp

section \<open>The heartbeat workers\<close>

text \<open>One turn of a worker after its flag check: the failure that ends it, the state it shares with
  the receive loop, and the datagram it hands to the socket.\<close>

definition heartbeat_turn ::
  "crypto_prims \<Rightarrow> session_info \<Rightarrow> instant \<Rightarrow> u64 \<Rightarrow> (bytes \<Rightarrow> error_kind + nat) \<Rightarrow> heartbeat_tracker \<Rightarrow>
     worker_failure option \<times> heartbeat_tracker \<times> bytes list" where
  "heartbeat_turn P info now micros send h =
     (if heartbeat_timed_out now h then (Some WfHeartbeatTimeout, h, [])
      else
        let (echo, h') = heartbeat_request_body micros h;
            packet = build_echo_request P (info_header info EchoRequest) echo
        in
        case send packet of
          Inl k \<Rightarrow> (Some (WfTransport k), h', [packet])
        | Inr _ \<Rightarrow> (None, h', [packet]))"

definition sr_monitor_turn ::
  "session_info \<Rightarrow> sr_runtime \<Rightarrow> instant \<Rightarrow> instant \<Rightarrow> u64 \<Rightarrow> (bytes \<Rightarrow> error_kind + nat) \<Rightarrow> sr_monitor \<Rightarrow>
     worker_failure option \<times> sr_monitor \<times> bytes list" where
  "sr_monitor_turn info runtime started now micros send m0 =
     (let (state, m) = update_peer_state now m0 in
      if state = PeerDown \<or> (state = Probing \<and> now - started > SR_PEER_DOWN_AFTER)
      then (Some WfHeartbeatTimeout, m, [])
      else
        let (b, m') = monitor_request micros m in
        case encode_monitor_datagram EchoRequest b (config_links (rt_config runtime)) (sr_tuple info) of
          Inl _ \<Rightarrow> (Some WfHeartbeatTimeout, m', [])
        | Inr packet \<Rightarrow>
            (case send packet of
               Inl k \<Rightarrow> (Some (WfTransport k), m', [packet])
             | Inr _ \<Rightarrow> (None, m', [packet])))"

text \<open>Turns at the given clock readings with no answer in between.\<close>

fun heartbeat_turns ::
  "crypto_prims \<Rightarrow> session_info \<Rightarrow> (bytes \<Rightarrow> error_kind + nat) \<Rightarrow> (instant \<times> u64) list \<Rightarrow> heartbeat_tracker \<Rightarrow>
     worker_failure option \<times> bytes list" where
  "heartbeat_turns P info send [] h = (None, [])"
| "heartbeat_turns P info send ((now, micros) # ts) h =
     (case heartbeat_turn P info now micros send h of
        (Some f, _, sent) \<Rightarrow> (Some f, sent)
      | (None, h', sent) \<Rightarrow>
          (case heartbeat_turns P info send ts h' of (f, rest) \<Rightarrow> (f, sent @ rest)))"

lemma heartbeat_turns_unanswered:
  assumes "unat (hb_missed h) = m" "m \<le> 10"
    and "\<forall>(now, micros) \<in> set ts. now \<le> hb_last_response h + HEARTBEAT_TIMEOUT_US"
    and "\<forall>d. \<exists>n. send d = Ok n"
  shows "fst (heartbeat_turns P info send ts h) =
      (if 10 - m < length ts then Some WfHeartbeatTimeout else None) \<and>
    length (snd (heartbeat_turns P info send ts h)) = min (length ts) (10 - m)"
  using assms
proof (induction ts arbitrary: h m)
  case (Cons t ts)
  obtain now micros where t: "t = (now, micros)" by fastforce
  have now: "now \<le> hb_last_response h + HEARTBEAT_TIMEOUT_US" using Cons.prems(3) by (auto simp: t)
  have missed: "10 \<le> hb_missed h \<longleftrightarrow> m = 10"
    using Cons.prems(1,2) by (auto simp: word_le_nat_alt)
  show ?case
  proof (cases "m = 10")
    case True
    then show ?thesis
      using missed by (simp add: t heartbeat_turn_def heartbeat_timed_out_def)
  next
    case False
    let ?h = "snd (heartbeat_request_body micros h)"
    have alive: "\<not> heartbeat_timed_out now h"
      using False missed now by (auto simp: heartbeat_timed_out_def)
    have h': "unat (hb_missed ?h) = Suc m" "hb_last_response ?h = hb_last_response h"
      using Cons.prems(1,2) by (simp_all add: heartbeat_request_body_def saturating_add_word_def Let_def
          unat_word_ariths)
    have "fst (heartbeat_turns P info send ts ?h) =
        (if 10 - Suc m < length ts then Some WfHeartbeatTimeout else None) \<and>
      length (snd (heartbeat_turns P info send ts ?h)) = min (length ts) (10 - Suc m)"
      using Cons.prems False by (intro Cons.IH h'(1)) (auto simp: h'(2))
    moreover obtain n where "send (build_echo_request P (info_header info EchoRequest)
        (fst (heartbeat_request_body micros h))) = Ok n"
      using Cons.prems(4) by blast
    ultimately show ?thesis
      using alive False Cons.prems(2) by (auto simp: t heartbeat_turn_def Let_def split_def)
  qed
qed simp

text \<open>(heartbeat worker). With a working socket and no answers, a heartbeat worker whose turns all
  fall within 20 seconds of the session start sends exactly ten requests and reports a timeout on
  its eleventh turn.\<close>

theorem heartbeat_worker_gives_up:
  assumes "\<forall>(now, micros) \<in> set ts. now \<le> start + HEARTBEAT_TIMEOUT_US"
    and "\<forall>d. \<exists>n. send d = Ok n"
  shows "fst (heartbeat_turns P info send ts (heartbeat_new start)) =
      (if 10 < length ts then Some WfHeartbeatTimeout else None) \<and>
    length (snd (heartbeat_turns P info send ts (heartbeat_new start))) = min (length ts) 10"
  using heartbeat_turns_unanswered [of "heartbeat_new start" 0 ts send P info] assms
  by (simp add: heartbeat_new_def)

theorem heartbeat_worker_gives_up_witness:
  "fst (heartbeat_turns demo_prims demo_info (\<lambda>d. Ok (length d)) (replicate 11 (5, 6)) (heartbeat_new 0)) =
     Some WfHeartbeatTimeout"
proof -
  have "\<forall>(now, micros) \<in> set (replicate 11 (5 :: nat, 6 :: u64)). now \<le> 0 + HEARTBEAT_TIMEOUT_US"
    by simp
  from heartbeat_worker_gives_up [OF this, of "\<lambda>d. Ok (length d)" demo_prims demo_info] show ?thesis by simp
qed


end
