(* ===== verification/Dns_Policy.thy ===== *)
theory Dns_Policy
  imports Session_Open
begin

text \<open>
  DNS policy (\<open>src/dns/policy.rs\<close>): domain rules, the layers of settings and their resolution to
  the effective policy that the packet engine and the platform code consult. A name is its list
  of characters; where the source measures a name in bytes, only ASCII names pass, so the two
  measures agree on every name that is accepted.
\<close>

section \<open>Names\<close>

definition ascii_lower_char :: "nat \<Rightarrow> nat" where
  "ascii_lower_char c = (if 0x41 \<le> c \<and> c \<le> 0x5a then c + 0x20 else c)"

definition to_ascii_lowercase :: "ustr \<Rightarrow> ustr" where
  "to_ascii_lowercase s = map ascii_lower_char s"

abbreviation (input) DOT :: nat where "DOT \<equiv> 0x2e"

definition trim_end_dots :: "ustr \<Rightarrow> ustr" where
  "trim_end_dots s = rev (dropWhile (\<lambda>c. c = DOT) (rev s))"

definition normalize_name :: "ustr \<Rightarrow> ustr" where
  "normalize_name v = to_ascii_lowercase (trim_end_dots (str_trim v))"

text \<open>\<open>str::split('.')\<close>: the parts between the dots, at least one.\<close>

fun split_dots :: "ustr \<Rightarrow> ustr list" where
  "split_dots [] = [[]]"
| "split_dots (c # cs) =
     (if c = DOT then [] # split_dots cs
      else case split_dots cs of p # ps \<Rightarrow> (c # p) # ps | [] \<Rightarrow> [[c]])"

definition is_name_char :: "nat \<Rightarrow> bool" where
  "is_name_char c \<longleftrightarrow> 0x30 \<le> c \<and> c \<le> 0x39 \<or> 0x41 \<le> c \<and> c \<le> 0x5a \<or> 0x61 \<le> c \<and> c \<le> 0x7a \<or>
     c = 0x2d \<or> c = 0x5f"

definition validate_name :: "ustr \<Rightarrow> unit result" where
  "validate_name v =
     (if v = [] \<or> length v > 253 \<or> hd v = DOT \<or> last v = DOT \<or>
         list_ex (\<lambda>part. part = [] \<or> length part > 63 \<or> \<not> list_all is_name_char part) (split_dots v)
      then Err (InvalidConfig ''invalid {label} {value:?}'')
      else Ok ())"

definition ends_with :: "ustr \<Rightarrow> ustr \<Rightarrow> bool" where
  "ends_with s suffix \<longleftrightarrow> length suffix \<le> length s \<and> drop (length s - length suffix) s = suffix"

definition strip_suffix :: "ustr \<Rightarrow> ustr \<Rightarrow> ustr option" where
  "strip_suffix s suffix =
     (if ends_with s suffix then Some (take (length s - length suffix) s) else None)"

section \<open>Modes\<close>

datatype dns_server_mode = DnsServer | DnsCustom | DnsDisabled
datatype server_list_dns_mode = ListAuto | ListCustom | ListDisabled
datatype split_dns_mode = SplitOff | TunnelAll | SplitManaged | SplitCustom
datatype encrypted_dns_mode = EncInherit | EncBlock | EncAllow

definition dns_server_mode_from_str :: "ustr \<Rightarrow> dns_server_mode result" where
  "dns_server_mode_from_str v =
     (let s = to_ascii_lowercase (str_trim v) in
      if s = ascii_str ''server'' then Ok DnsServer
      else if s = ascii_str ''custom'' then Ok DnsCustom
      else if s = ascii_str ''disabled'' \<or> s = ascii_str ''disable'' then Ok DnsDisabled
      else Err (InvalidConfig ''invalid DNS mode {value:?}; expected server, custom, or disabled''))"

definition from_server_value :: "ustr \<Rightarrow> server_list_dns_mode" where
  "from_server_value v =
     (let s = to_ascii_lowercase (str_trim v) in
      if s = ascii_str ''custom'' then ListCustom
      else if s = ascii_str ''disable'' \<or> s = ascii_str ''disabled'' then ListDisabled
      else ListAuto)"

definition split_dns_mode_from_str :: "ustr \<Rightarrow> split_dns_mode result" where
  "split_dns_mode_from_str v =
     (let s = map (\<lambda>c. if c = 0x2d then 0x5f else c) (to_ascii_lowercase (str_trim v)) in
      if s = ascii_str ''off'' \<or> s = ascii_str ''disabled'' then Ok SplitOff
      else if s = ascii_str ''tunnel_all'' then Ok TunnelAll
      else if s = ascii_str ''managed'' then Ok SplitManaged
      else if s = ascii_str ''custom'' then Ok SplitCustom
      else Err (InvalidConfig ''invalid split-DNS mode {value:?}; expected off, tunnel-all, managed, or custom''))"

definition encrypted_dns_mode_from_str :: "ustr \<Rightarrow> encrypted_dns_mode result" where
  "encrypted_dns_mode_from_str v =
     (let s = to_ascii_lowercase (str_trim v) in
      if s = ascii_str ''inherit'' then Ok EncInherit
      else if s = ascii_str ''block'' then Ok EncBlock
      else if s = ascii_str ''allow'' then Ok EncAllow
      else Err (InvalidConfig ''invalid encrypted-DNS mode {value:?}; expected inherit, block, or allow''))"

section \<open>Domain rules\<close>

datatype domain_rule_kind = KindSuffix | KindDomain | KindExact

record domain_rule =
  rule_kind :: domain_rule_kind
  rule_domain :: ustr
  explicit_prefix :: bool

definition rule_parse :: "ustr \<Rightarrow> domain_rule result" where
  "rule_parse v =
     (let normalized = normalize_name v in
      if normalized = [] then Err (InvalidConfig ''DNS domain rule must not be empty'')
      else
        let (k, dom, explicit) =
          (if hd normalized = 0x2a then (KindSuffix, tl normalized, True)
           else if hd normalized = 0x40 then (KindDomain, tl normalized, True)
           else if hd normalized = 0x5e then (KindExact, tl normalized, True)
           else (KindSuffix, normalized, False))
        in rbind (validate_name dom) (\<lambda>_.
             Ok \<lparr>rule_kind = k, rule_domain = dom, explicit_prefix = explicit\<rparr>))"

definition rule_matches :: "domain_rule \<Rightarrow> ustr \<Rightarrow> bool" where
  "rule_matches r candidate0 =
     (let candidate = normalize_name candidate0 in
      case rule_kind r of
        KindSuffix \<Rightarrow> ends_with candidate (rule_domain r)
      | KindDomain \<Rightarrow>
          candidate = rule_domain r \<or>
          (case strip_suffix candidate (rule_domain r) of
             None \<Rightarrow> False
           | Some prefix \<Rightarrow> ends_with prefix [DOT])
      | KindExact \<Rightarrow> candidate = rule_domain r)"

definition rule_to_string :: "domain_rule \<Rightarrow> ustr" where
  "rule_to_string r =
     (case rule_kind r of
        KindSuffix \<Rightarrow> if explicit_prefix r then [0x2a] else []
      | KindDomain \<Rightarrow> [0x40]
      | KindExact \<Rightarrow> [0x5e]) @ rule_domain r"

section \<open>Settings\<close>

abbreviation (input) MAX_DOMAIN_RULES :: nat where "MAX_DOMAIN_RULES \<equiv> 100000"

record dns_defaults =
  def_server_mode :: server_list_dns_mode
  def_server_dns :: "u32 list"
  def_local_mode :: dns_server_mode
  def_local_dns :: "u32 list"
  def_split_mode :: split_dns_mode
  def_custom_domains :: "domain_rule list"
  def_managed_domain_filter :: bool
  def_managed_inclusive :: "domain_rule list"
  def_managed_exclusive :: "domain_rule list"
  def_block_encrypted_dns :: bool
  def_secure_dns_hosts :: "ustr list"
  def_controller_service :: bool

definition dns_defaults_default :: dns_defaults where
  "dns_defaults_default =
     \<lparr>def_server_mode = ListAuto, def_server_dns = [], def_local_mode = DnsServer, def_local_dns = [],
      def_split_mode = SplitOff, def_custom_domains = [], def_managed_domain_filter = False,
      def_managed_inclusive = [], def_managed_exclusive = [], def_block_encrypted_dns = False,
      def_secure_dns_hosts = [], def_controller_service = False\<rparr>"

record dns_overrides =
  ov_server_mode :: "dns_server_mode option"
  ov_servers :: "u32 list option"
  ov_split_mode :: "split_dns_mode option"
  ov_split_domains :: "domain_rule list option"
  ov_encrypted_dns :: "encrypted_dns_mode option"
  ov_doh_hosts :: "ustr list option"

definition dns_overrides_default :: dns_overrides where
  "dns_overrides_default =
     \<lparr>ov_server_mode = None, ov_servers = None, ov_split_mode = None, ov_split_domains = None,
      ov_encrypted_dns = None, ov_doh_hosts = None\<rparr>"

definition or_else :: "'a option \<Rightarrow> 'a option \<Rightarrow> 'a option" where
  "or_else a b = (case a of Some x \<Rightarrow> Some x | None \<Rightarrow> b)"

definition layered :: "dns_overrides \<Rightarrow> dns_overrides \<Rightarrow> dns_overrides" where
  "layered lower higher =
     \<lparr>ov_server_mode = or_else (ov_server_mode higher) (ov_server_mode lower),
      ov_servers = or_else (ov_servers higher) (ov_servers lower),
      ov_split_mode = or_else (ov_split_mode higher) (ov_split_mode lower),
      ov_split_domains = or_else (ov_split_domains higher) (ov_split_domains lower),
      ov_encrypted_dns = or_else (ov_encrypted_dns higher) (ov_encrypted_dns lower),
      ov_doh_hosts = or_else (ov_doh_hosts higher) (ov_doh_hosts lower)\<rparr>"

definition overrides_validate :: "dns_overrides \<Rightarrow> unit result" where
  "overrides_validate ov =
     (if (case ov_servers ov of None \<Rightarrow> False | Some ss \<Rightarrow> length ss > 2)
      then Err (InvalidConfig ''custom DNS accepts at most two IPv4 servers'')
      else if ov_server_mode ov = Some DnsCustom
              \<and> (case ov_servers ov of None \<Rightarrow> True | Some ss \<Rightarrow> ss = [])
      then Err (InvalidConfig ''custom DNS mode requires at least one --dns-server'')
      else if ov_split_mode ov = Some SplitCustom
              \<and> (case ov_split_domains ov of None \<Rightarrow> True | Some ds \<Rightarrow> ds = [])
      then Err (InvalidConfig ''custom split DNS requires at least one domain rule'')
      else if (case ov_split_domains ov of None \<Rightarrow> False | Some ds \<Rightarrow> length ds > MAX_DOMAIN_RULES)
      then Err (InvalidConfig ''split-DNS rule count exceeds {MAX_DOMAIN_RULES}'')
      else
        case ov_doh_hosts ov of
          None \<Rightarrow> Ok ()
        | Some hosts \<Rightarrow>
            if length hosts > MAX_DOMAIN_RULES
            then Err (InvalidConfig ''DoH host count exceeds {MAX_DOMAIN_RULES}'')
            else rbind (rmapM (\<lambda>host. validate_name (normalize_name host)) hosts) (\<lambda>_. Ok ()))"

section \<open>The effective policy\<close>

record effective_dns_policy =
  pol_server_mode :: dns_server_mode
  pol_servers :: "u32 list"
  pol_split_mode :: split_dns_mode
  pol_inclusive :: "domain_rule list"
  pol_exclusive :: "domain_rule list"
  pol_block_encrypted_dns :: bool
  pol_doh_hosts :: "ustr list"

definition dns_routing_enabled :: "effective_dns_policy \<Rightarrow> bool" where
  "dns_routing_enabled p \<longleftrightarrow>
     pol_server_mode p \<noteq> DnsDisabled \<and> pol_servers p \<noteq> [] \<and> pol_split_mode p \<noteq> SplitOff"

definition engine_enabled :: "effective_dns_policy \<Rightarrow> bool" where
  "engine_enabled p \<longleftrightarrow> pol_block_encrypted_dns p \<or> dns_routing_enabled p"

definition routes_through_tunnel :: "effective_dns_policy \<Rightarrow> ustr \<Rightarrow> bool" where
  "routes_through_tunnel p name =
     (case pol_split_mode p of
        SplitOff \<Rightarrow> True
      | TunnelAll \<Rightarrow> True
      | _ \<Rightarrow>
          if list_ex (\<lambda>r. rule_matches r name) (pol_exclusive p) then False
          else pol_inclusive p = [] \<or> list_ex (\<lambda>r. rule_matches r name) (pol_inclusive p))"

definition blocks_doh_host :: "effective_dns_policy \<Rightarrow> ustr \<Rightarrow> bool" where
  "blocks_doh_host p name0 \<longleftrightarrow>
     (let name = normalize_name name0 in
      pol_block_encrypted_dns p \<and> list_ex (\<lambda>blocked. blocked = name) (pol_doh_hosts p))"

definition is_usable_server :: "u32 \<Rightarrow> bool" where
  "is_usable_server a \<longleftrightarrow> a \<noteq> 0 \<and> \<not> v4_is_multicast a \<and> a \<noteq> v4_broadcast"

definition validate_custom_servers :: "u32 list \<Rightarrow> unit result" where
  "validate_custom_servers servers =
     (if servers = [] \<or> length servers > 2
      then Err (InvalidConfig ''custom DNS requires one or two IPv4 servers'')
      else if list_ex (\<lambda>s. \<not> is_usable_server s) servers
      then Err (InvalidConfig ''custom DNS server {server} is not a usable unicast IPv4 address'')
      else Ok ())"

definition dedup :: "'a list \<Rightarrow> 'a list" where
  "dedup values = dedup_seen [] values"

definition dedup_capped :: "domain_rule list \<Rightarrow> domain_rule list" where
  "dedup_capped values = take MAX_DOMAIN_RULES (dedup values)"

definition usable_v4 :: "ip_addr \<Rightarrow> u32 option" where
  "usable_v4 a = (case a of V4 x \<Rightarrow> if is_usable_server x then Some x else None | V6 _ \<Rightarrow> None)"

definition resolve_server_dns :: "dns_defaults \<Rightarrow> ip_addr list \<Rightarrow> u32 list" where
  "resolve_server_dns defaults open_ack_dns =
     (if def_server_mode defaults = ListDisabled then []
      else
        let configured = take 2 (dedup (filter is_usable_server (def_server_dns defaults))) in
        if def_server_mode defaults = ListCustom \<and> configured \<noteq> [] then configured
        else
          let open_ack = take 2 (dedup (List.map_filter usable_v4 open_ack_dns)) in
          if open_ack \<noteq> [] then open_ack
          else if def_controller_service defaults
          then [ipv4_new 1 1 1 1, ipv4_new 114 114 114 114]
          else [])"

definition normalize_names :: "ustr list \<Rightarrow> ustr list result" where
  "normalize_names values =
     rbind (rmapM (\<lambda>v. let n = normalize_name v in rbind (validate_name n) (\<lambda>_. Ok n)) values)
       (\<lambda>ns. Ok (dedup ns))"

definition DEFAULT_DOH_CANARY :: ustr where
  "DEFAULT_DOH_CANARY = ascii_str ''use-application-dns.net''"

definition resolve_domains ::
  "dns_defaults \<Rightarrow> split_dns_mode \<Rightarrow> domain_rule list \<Rightarrow> domain_rule list \<times> domain_rule list" where
  "resolve_domains defaults mode local_domains =
     (case mode of
        SplitOff \<Rightarrow> ([], [])
      | TunnelAll \<Rightarrow> ([], [])
      | SplitManaged \<Rightarrow>
          (dedup_capped (def_managed_inclusive defaults), dedup_capped (def_managed_exclusive defaults))
      | SplitCustom \<Rightarrow>
          (dedup_capped (local_domains @
             (if def_managed_domain_filter defaults then def_managed_inclusive defaults else [])),
           dedup_capped (def_managed_exclusive defaults)))"

definition unwrap_or :: "'a option \<Rightarrow> 'a \<Rightarrow> 'a" where
  "unwrap_or m d = (case m of Some x \<Rightarrow> x | None \<Rightarrow> d)"

definition resolve_policy ::
  "dns_defaults \<Rightarrow> dns_overrides \<Rightarrow> ip_addr list \<Rightarrow> effective_dns_policy result" where
  "resolve_policy defaults ov open_ack_dns =
     rbind (overrides_validate ov) (\<lambda>_.
     let requested = unwrap_or (ov_server_mode ov) (def_local_mode defaults);
         mode = (if requested = DnsServer \<and> def_server_mode defaults = ListDisabled
                 then DnsDisabled else requested)
     in
     rbind
       (case mode of
          DnsDisabled \<Rightarrow> Ok []
        | DnsCustom \<Rightarrow>
            (let servers = unwrap_or (ov_servers ov) (def_local_dns defaults) in
             rbind (validate_custom_servers servers) (\<lambda>_. Ok (dedup servers)))
        | DnsServer \<Rightarrow> Ok (resolve_server_dns defaults open_ack_dns)) (\<lambda>servers.
     let split = unwrap_or (ov_split_mode ov) (def_split_mode defaults);
         local_domains = unwrap_or (ov_split_domains ov) (def_custom_domains defaults);
         (incl, excl) = resolve_domains defaults split local_domains;
         block = (case unwrap_or (ov_encrypted_dns ov) EncInherit of
                    EncInherit \<Rightarrow> def_block_encrypted_dns defaults
                  | EncBlock \<Rightarrow> True
                  | EncAllow \<Rightarrow> False);
         hosts = def_secure_dns_hosts defaults @ unwrap_or (ov_doh_hosts ov) [] @ [DEFAULT_DOH_CANARY]
     in
     rbind (normalize_names hosts) (\<lambda>doh_hosts.
     Ok \<lparr>pol_server_mode = mode, pol_servers = servers, pol_split_mode = split,
         pol_inclusive = incl, pol_exclusive = excl, pol_block_encrypted_dns = block,
         pol_doh_hosts = doh_hosts\<rparr>)))"

definition policy_direct :: "ip_addr list \<Rightarrow> effective_dns_policy result" where
  "policy_direct open_ack_dns = resolve_policy dns_defaults_default dns_overrides_default open_ack_dns"

section \<open>Valid names\<close>

lemma set_split_dots: "set v \<subseteq> {DOT} \<union> \<Union> (set ` set (split_dots v))"
proof (induction v)
  case (Cons c cs)
  then show ?case
    by (cases "split_dots cs") auto
qed simp

lemma validate_name_OkD:
  assumes "validate_name v = Ok ()"
  shows "v \<noteq> []" "hd v \<noteq> DOT" "last v \<noteq> DOT" "length v \<le> 253" "\<forall>c \<in> set v. is_name_char c \<or> c = DOT"
proof -
  show "v \<noteq> []" "hd v \<noteq> DOT" "last v \<noteq> DOT" "length v \<le> 253"
    using assms by (auto simp: validate_name_def split: if_splits)
  have "\<forall>part \<in> set (split_dots v). \<forall>c \<in> set part. is_name_char c"
    using assms by (auto simp: validate_name_def list_ex_iff list_all_iff split: if_splits)
  then show "\<forall>c \<in> set v. is_name_char c \<or> c = DOT"
    using set_split_dots [of v] by blast
qed

lemma name_char_not_space: "is_name_char c \<or> c = DOT \<Longrightarrow> \<not> is_whitespace c"
  by (auto simp: is_name_char_def is_whitespace_def)

lemma dropWhile_hd_id: "s = [] \<or> \<not> P (hd s) \<Longrightarrow> dropWhile P s = s"
  by (cases s) auto

lemma trims_id:
  assumes "s \<noteq> []" "\<not> is_whitespace (hd s)" "\<not> is_whitespace (last s)" "last s \<noteq> DOT"
  shows "str_trim s = s" "trim_end_dots s = s"
  using assms by (simp_all add: str_trim_def trim_end_dots_def dropWhile_hd_id hd_rev)

lemma ascii_lower_idem [simp]: "ascii_lower_char (ascii_lower_char c) = ascii_lower_char c"
  by (simp add: ascii_lower_char_def)

definition is_lower :: "ustr \<Rightarrow> bool" where
  "is_lower s \<longleftrightarrow> to_ascii_lowercase s = s"

lemma is_lower_normalize: "is_lower (normalize_name v)"
  by (simp add: is_lower_def normalize_name_def to_ascii_lowercase_def)

lemma is_lower_tl: "is_lower s \<Longrightarrow> s \<noteq> [] \<Longrightarrow> is_lower (tl s)"
  by (cases s) (auto simp: is_lower_def to_ascii_lowercase_def)

text \<open>A prefix character that no trimming and no case folding touches, or none, before a valid
  lower-case name is its own normal form.\<close>

lemma normalize_prefixed:
  assumes "validate_name nm = Ok ()" "is_lower nm" "pre = [] \<or> (\<exists>c \<in> {0x2a, 0x40, 0x5e}. pre = [c])"
  shows "normalize_name (pre @ nm) = pre @ nm"
proof -
  note d = validate_name_OkD [OF assms(1)]
  have ends: "\<not> is_whitespace (hd nm)" "\<not> is_whitespace (last nm)"
    using d(1,5) name_char_not_space by (meson hd_in_set last_in_set)+
  have "\<not> is_whitespace 0x2a" "\<not> is_whitespace 0x40" "\<not> is_whitespace 0x5e"
    by (simp_all add: is_whitespace_def)
  then have h: "\<not> is_whitespace (hd (pre @ nm))" using assms(3) ends(1) by auto
  have "pre @ nm \<noteq> []" "\<not> is_whitespace (last (pre @ nm))" "last (pre @ nm) \<noteq> DOT"
    using d(1,3) ends(2) by simp_all
  note trims_id [OF this(1) h this(2,3)]
  then show ?thesis
    using assms(2,3) by (auto simp: normalize_name_def is_lower_def to_ascii_lowercase_def ascii_lower_char_def)
qed

lemma rule_parse_OkD:
  assumes "rule_parse v = Ok r"
  shows "validate_name (rule_domain r) = Ok ()" "is_lower (rule_domain r)"
    "rule_kind r \<noteq> KindSuffix \<longrightarrow> explicit_prefix r"
proof -
  let ?n = "normalize_name v"
  have "?n \<noteq> []" using assms by (auto simp: rule_parse_def Let_def split: if_splits)
  with assms show "validate_name (rule_domain r) = Ok ()" "is_lower (rule_domain r)"
    "rule_kind r \<noteq> KindSuffix \<longrightarrow> explicit_prefix r"
    using is_lower_normalize [of v] is_lower_tl [OF is_lower_normalize]
    by (auto simp: rule_parse_def Let_def result_simps split: if_splits)
qed

lemma rule_parse_to_string:
  assumes "validate_name (rule_domain r) = Ok ()" "is_lower (rule_domain r)"
    and "rule_kind r \<noteq> KindSuffix \<longrightarrow> explicit_prefix r"
  shows "rule_parse (rule_to_string r) = Ok r"
proof -
  note d = validate_name_OkD [OF assms(1)]
  have "hd (rule_domain r) \<noteq> 0x2a" "hd (rule_domain r) \<noteq> 0x40" "hd (rule_domain r) \<noteq> 0x5e"
    using d(1,2,5) by (auto simp: is_name_char_def dest!: bspec [OF _ hd_in_set])
  moreover have "normalize_name (rule_to_string r) = rule_to_string r"
    unfolding rule_to_string_def
    by (rule normalize_prefixed [OF assms(1,2)]) (auto split: domain_rule_kind.split)
  moreover have "r = \<lparr>rule_kind = rule_kind r, rule_domain = rule_domain r, explicit_prefix = explicit_prefix r\<rparr>"
    by simp
  ultimately show ?thesis
    using assms d(1)
    by (cases "rule_kind r") (auto simp: rule_parse_def rule_to_string_def Let_def)
qed

section \<open>Lists of servers and rules\<close>

lemma dedup_facts [simp]: "set (dedup xs) = set xs" "distinct (dedup xs)" "dedup xs = [] \<longleftrightarrow> xs = []"
  using set_dedup_seen [of "[]" xs] distinct_dedup_seen [of "[]" xs]
  by (auto simp: dedup_def simp flip: set_empty)

lemma length_dedup: "length (dedup xs) \<le> length xs"
  by (simp add: dedup_def length_dedup_seen)

lemma distinct_take_dedup: "distinct (take n (dedup xs))"
  by simp

lemma usable_v4_OkD: "x \<in> set (List.map_filter usable_v4 as) \<Longrightarrow> is_usable_server x"
  by (auto simp: List.map_filter_def usable_v4_def split: ip_addr.splits if_splits)

definition servers_ok :: "u32 list \<Rightarrow> bool" where
  "servers_ok ss \<longleftrightarrow> length ss \<le> 2 \<and> distinct ss \<and> list_all is_usable_server ss"

lemma servers_ok_take:
  "(\<And>x. x \<in> set xs \<Longrightarrow> is_usable_server x) \<Longrightarrow> servers_ok (take 2 (dedup xs))"
  using set_take_subset [of 2 "dedup xs"] by (auto simp: servers_ok_def list_all_iff)

lemma resolve_server_dns_ok: "servers_ok (resolve_server_dns defaults acks)"
proof -
  have "servers_ok [ipv4_new 1 1 1 1, ipv4_new 114 114 114 114]"
    by (simp add: servers_ok_def is_usable_server_def v4_is_multicast_def ipv4_new_def from_be_def)
  moreover have "servers_ok []" by (simp add: servers_ok_def)
  moreover have "servers_ok (take 2 (dedup (filter is_usable_server (def_server_dns defaults))))"
    "servers_ok (take 2 (dedup (List.map_filter usable_v4 acks)))"
    by (rule servers_ok_take; auto dest: usable_v4_OkD)+
  ultimately show ?thesis by (simp add: resolve_server_dns_def Let_def)
qed

lemma custom_servers_ok:
  "validate_custom_servers ss = Ok () \<Longrightarrow> servers_ok (dedup ss) \<and> ss \<noteq> []"
  using length_dedup [of ss]
  by (auto simp: validate_custom_servers_def servers_ok_def list_all_iff list_ex_iff split: if_splits)

lemma normalize_names_OkD:
  assumes "normalize_names vs = Ok ns"
  shows "distinct ns" "set ns = normalize_name ` set vs" "\<forall>n \<in> set ns. validate_name n = Ok ()"
proof -
  from assms obtain ms where ms: "rmapM (\<lambda>v. let n = normalize_name v in rbind (validate_name n) (\<lambda>_. Ok n)) vs = Ok ms"
    and ns: "ns = dedup ms" by (auto simp: normalize_names_def result_simps)
  have "ms = map normalize_name vs \<and> (\<forall>n \<in> set ms. validate_name n = Ok ())"
    using ms by (induction vs arbitrary: ms) (auto simp: Let_def result_simps)
  then show "distinct ns" "set ns = normalize_name ` set vs" "\<forall>n \<in> set ns. validate_name n = Ok ()"
    using ns by auto
qed

lemma canary_valid: "validate_name (normalize_name DEFAULT_DOH_CANARY) = Ok ()"
  "normalize_name DEFAULT_DOH_CANARY = DEFAULT_DOH_CANARY"
  by (simp_all add: DEFAULT_DOH_CANARY_def ascii_str_def normalize_name_def to_ascii_lowercase_def
      ascii_lower_char_def trim_end_dots_def str_trim_def is_whitespace_def validate_name_def is_name_char_def)

lemma ends_with_iff: "ends_with s t \<longleftrightarrow> (\<exists>pre. s = pre @ t)"
proof
  assume "ends_with s t"
  then have "s = take (length s - length t) s @ t"
    by (metis append_take_drop_id ends_with_def)
  then show "\<exists>pre. s = pre @ t" by blast
qed (auto simp: ends_with_def)

lemma strip_suffix_append [simp]: "strip_suffix (pre @ t) t = Some pre"
  by (simp add: strip_suffix_def ends_with_def)

lemma strip_suffix_eq_Some: "strip_suffix s t = Some pre \<longleftrightarrow> s = pre @ t"
  by (auto simp: strip_suffix_def ends_with_iff split: if_splits)

lemma or_else_laws:
  "or_else x (or_else y z) = or_else (or_else x y) z" "or_else x None = x" "or_else None x = x"
  "or_else (Some v) x = Some v"
  by (simp_all add: or_else_def split: option.split)

section \<open>Properties\<close>

text \<open>(domain rules match as documented). Against the normalised name, a suffix rule matches every
  name that ends with its text, a domain rule the domain itself and names that end with a dot and
  the domain, and an exact rule the name alone. So an exact match is a domain match, and a domain
  match is a suffix match.\<close>

theorem rule_matches_spec:
  "rule_matches r name \<longleftrightarrow>
     (case rule_kind r of
        KindSuffix \<Rightarrow> \<exists>pre. normalize_name name = pre @ rule_domain r
      | KindDomain \<Rightarrow> normalize_name name = rule_domain r \<or>
                      (\<exists>labels. normalize_name name = labels @ [DOT] @ rule_domain r)
      | KindExact \<Rightarrow> normalize_name name = rule_domain r)"
proof (cases "rule_kind r")
  case KindDomain
  have "(case strip_suffix n t of None \<Rightarrow> False | Some prefix \<Rightarrow> ends_with prefix [DOT]) \<longleftrightarrow>
      (\<exists>labels. n = labels @ [DOT] @ t)" for n t
  proof (cases "strip_suffix n t")
    case None
    then have "n \<noteq> labels @ [DOT] @ t" for labels
      using strip_suffix_append [of "labels @ [DOT]" t] by auto
    with None show ?thesis by simp
  next
    case (Some pre)
    then show ?thesis by (auto simp: strip_suffix_eq_Some ends_with_iff)
  qed
  with KindDomain show ?thesis by (simp add: rule_matches_def Let_def)
qed (simp_all add: rule_matches_def ends_with_iff Let_def)

text \<open>(domain rules round trip). Every rule that parses prints to a text that parses to the same
  rule.\<close>

theorem rule_parse_print:
  assumes "rule_parse v = Ok r"
  shows "rule_parse (rule_to_string r) = Ok r"
  using rule_parse_to_string rule_parse_OkD [OF assms] by blast

theorem rule_parse_print_witness:
  "\<exists>r. rule_parse (ascii_str '' @Example.COM. '') = Ok r \<and> rule_to_string r = ascii_str ''@example.com'' \<and>
     rule_parse (ascii_str ''@example.com'') = Ok r"
proof -
  let ?r = "\<lparr>rule_kind = KindDomain, rule_domain = ascii_str ''example.com'', explicit_prefix = True\<rparr>"
  have p: "rule_parse (ascii_str '' @Example.COM. '') = Ok ?r"
    by (simp add: rule_parse_def normalize_name_def str_trim_def trim_end_dots_def to_ascii_lowercase_def
        ascii_lower_char_def is_whitespace_def ascii_str_def validate_name_def is_name_char_def Let_def)
  have "rule_to_string ?r = ascii_str ''@example.com''" by (simp add: rule_to_string_def ascii_str_def)
  with rule_parse_print [OF p] p show ?thesis by auto
qed

text \<open>C11 (effective policy). A resolved policy has at most two servers, all distinct usable unicast
  addresses, and at least one in custom mode; none when DNS is disabled; rule lists without
  duplicates under the cap; and valid, distinct, normalised blocked hosts that include the
  application-DNS canary.\<close>

theorem resolve_policy_sound:
  assumes "resolve_policy defaults ov acks = Ok p"
  shows "servers_ok (pol_servers p) \<and> (pol_server_mode p = DnsCustom \<longrightarrow> pol_servers p \<noteq> []) \<and>
    (pol_server_mode p = DnsDisabled \<longrightarrow> pol_servers p = [] \<and> \<not> dns_routing_enabled p) \<and>
    distinct (pol_inclusive p) \<and> length (pol_inclusive p) \<le> MAX_DOMAIN_RULES \<and>
    distinct (pol_exclusive p) \<and> length (pol_exclusive p) \<le> MAX_DOMAIN_RULES \<and>
    distinct (pol_doh_hosts p) \<and> (\<forall>h \<in> set (pol_doh_hosts p). validate_name h = Ok ()) \<and>
    DEFAULT_DOH_CANARY \<in> set (pol_doh_hosts p)"
proof -
  define mode where "mode = (if unwrap_or (ov_server_mode ov) (def_local_mode defaults) = DnsServer \<and>
      def_server_mode defaults = ListDisabled then DnsDisabled
      else unwrap_or (ov_server_mode ov) (def_local_mode defaults))"
  define servers where "servers = unwrap_or (ov_servers ov) (def_local_dns defaults)"
  define hosts where "hosts = def_secure_dns_hosts defaults @ unwrap_or (ov_doh_hosts ov) [] @ [DEFAULT_DOH_CANARY]"
  define doms where "doms = resolve_domains defaults (unwrap_or (ov_split_mode ov) (def_split_mode defaults))
      (unwrap_or (ov_split_domains ov) (def_custom_domains defaults))"
  define blk where "blk = (case unwrap_or (ov_encrypted_dns ov) EncInherit of
      EncInherit \<Rightarrow> def_block_encrypted_dns defaults | EncBlock \<Rightarrow> True | EncAllow \<Rightarrow> False)"
  have "rbind (overrides_validate ov) (\<lambda>_.
      rbind (case mode of DnsServer \<Rightarrow> Ok (resolve_server_dns defaults acks)
          | DnsCustom \<Rightarrow> rbind (validate_custom_servers servers) (\<lambda>_. Ok (dedup servers))
          | DnsDisabled \<Rightarrow> Ok []) (\<lambda>ss.
      rbind (normalize_names hosts) (\<lambda>dh.
      Ok \<lparr>pol_server_mode = mode, pol_servers = ss,
         pol_split_mode = unwrap_or (ov_split_mode ov) (def_split_mode defaults),
         pol_inclusive = fst doms, pol_exclusive = snd doms, pol_block_encrypted_dns = blk,
         pol_doh_hosts = dh\<rparr>))) = Ok p"
    using assms unfolding resolve_policy_def Let_def split_def mode_def servers_def hosts_def doms_def blk_def .
  then obtain ss dh where
    ss: "(case mode of DnsServer \<Rightarrow> Ok (resolve_server_dns defaults acks)
          | DnsCustom \<Rightarrow> rbind (validate_custom_servers servers) (\<lambda>_. Ok (dedup servers))
          | DnsDisabled \<Rightarrow> Ok []) = Ok ss"
    and dh: "normalize_names hosts = Ok dh"
    and p: "p = \<lparr>pol_server_mode = mode, pol_servers = ss,
         pol_split_mode = unwrap_or (ov_split_mode ov) (def_split_mode defaults),
         pol_inclusive = fst doms, pol_exclusive = snd doms, pol_block_encrypted_dns = blk,
         pol_doh_hosts = dh\<rparr>"
    unfolding rbind_eq_Ok by blast
  have srv: "servers_ok ss" "mode = DnsCustom \<longrightarrow> ss \<noteq> []" "mode = DnsDisabled \<longrightarrow> ss = []"
    using ss resolve_server_dns_ok custom_servers_ok
    by (cases mode; auto simp: result_simps servers_ok_def)+
  have "distinct (fst doms) \<and> length (fst doms) \<le> MAX_DOMAIN_RULES \<and> distinct (snd doms) \<and>
      length (snd doms) \<le> MAX_DOMAIN_RULES"
    by (simp add: doms_def resolve_domains_def dedup_capped_def split: split_dns_mode.split)
  moreover have "DEFAULT_DOH_CANARY \<in> set dh"
    using normalize_names_OkD(2) [OF dh] canary_valid(2)
    by (metis Un_iff hosts_def image_eqI list.set_intros(1) set_append)
  ultimately show ?thesis
    using srv normalize_names_OkD(1,3) [OF dh] by (simp add: p dns_routing_enabled_def)
qed

text \<open>(the default policy resolves). \<open>EffectiveDnsPolicy::direct\<close> never panics: with the default
  settings, resolution succeeds for every list of servers in the acknowledgement, routes nothing
  by name and blocks nothing.\<close>

theorem policy_direct_total:
  "\<exists>p. policy_direct acks = Ok p \<and> \<not> engine_enabled p \<and> routes_through_tunnel p name \<and>
     pol_servers p = take 2 (dedup (List.map_filter usable_v4 acks))"
proof -
  have "normalize_names [DEFAULT_DOH_CANARY] = Ok [DEFAULT_DOH_CANARY]"
    using canary_valid by (simp add: normalize_names_def dedup_def Let_def)
  then show ?thesis
    by (auto simp: policy_direct_def resolve_policy_def overrides_validate_def dns_defaults_default_def
        dns_overrides_default_def unwrap_or_def resolve_domains_def resolve_server_dns_def Let_def
        engine_enabled_def dns_routing_enabled_def routes_through_tunnel_def)
qed

theorem resolve_policy_sound_witness:
  "\<exists>p. policy_direct [V4 0x08080808] = Ok p \<and> servers_ok (pol_servers p)"
proof -
  obtain p where p: "policy_direct [V4 0x08080808] = Ok p"
  proof -
    have "normalize_names [DEFAULT_DOH_CANARY] = Ok [DEFAULT_DOH_CANARY]"
      using canary_valid by (simp add: normalize_names_def dedup_def Let_def)
    then show thesis using that
      by (auto simp: policy_direct_def resolve_policy_def overrides_validate_def dns_defaults_default_def
          dns_overrides_default_def unwrap_or_def resolve_domains_def Let_def)
  qed
  with resolve_policy_sound [OF p [unfolded policy_direct_def]] show ?thesis by blast
qed

text \<open>(layers of settings). Merging layers of overrides is associative, the empty layer is neutral
  on both sides, and the higher layer decides every value it sets.\<close>

theorem layered_monoid:
  "layered (layered a b) c = layered a (layered b c) \<and>
   layered dns_overrides_default a = a \<and> layered a dns_overrides_default = a \<and>
   (\<forall>v. ov_servers b = Some v \<longrightarrow> ov_servers (layered a b) = Some v)"
  by (simp add: layered_def dns_overrides_default_def or_else_laws)

theorem layered_monoid_witness:
  "ov_servers (layered dns_overrides_default (dns_overrides_default\<lparr>ov_servers := Some [7]\<rparr>)) = Some [7]"
  using layered_monoid [of dns_overrides_default "dns_overrides_default\<lparr>ov_servers := Some [7]\<rparr>"] by simp


end
