(* ===== verification/Dns_Packet.thy ===== *)
theory Dns_Packet
  imports Dns_Policy Fragment
begin

text \<open>
  The DNS packet engine (\<open>src/dns/packet.rs\<close>): what happens to an outbound IPv4 packet under the
  effective policy, and the UDP answers the engine forges. The DNS message codec is the crate
  \<open>hickory-proto\<close>; its operations are fields of the parameter \<open>dns_lib\<close>, and a message is the
  record of what the engine reads and sets.
\<close>

section \<open>The DNS message library\<close>

datatype response_code = NoError | ServFail | NXDomain | OtherCode

text \<open>A question is a name, a type and a class. A domain name of the library compares without regard to case; it is represented by its
  lower-case text.\<close>

datatype rdata = RdA u32 | RdAaaa u128 | RdCname ustr | RdOther

record dns_record =
  rec_name :: ustr
  rec_ttl :: u32
  rec_data :: rdata

record dns_message =
  msg_id :: u16
  msg_op_code :: nat
  msg_is_query :: bool
  msg_recursion_desired :: bool
  msg_recursion_available :: bool
  msg_response_code :: response_code
  msg_queries :: "(ustr \<times> u16 \<times> u16) list"
  msg_truncation :: bool
  msg_max_payload :: u16
  msg_answers :: "dns_record list"

abbreviation (input) AAAA :: u16 where "AAAA \<equiv> 28"

record dns_lib =
  msg_from_vec :: "bytes \<Rightarrow> dns_message option"
  msg_to_vec :: "dns_message \<Rightarrow> bytes option"
  msg_response :: "u16 \<Rightarrow> nat \<Rightarrow> dns_message"

section \<open>Packets\<close>

abbreviation (input) IPV4_MIN_HEADER :: nat where "IPV4_MIN_HEADER \<equiv> 20"
abbreviation (input) UDP_HEADER :: nat where "UDP_HEADER \<equiv> 8"
abbreviation (input) DNS_PORT :: u16 where "DNS_PORT \<equiv> 53"
abbreviation (input) ENCRYPTED_DNS_PORT :: u16 where "ENCRYPTED_DNS_PORT \<equiv> 853"

record ipv4_packet =
  ip_source :: u32
  ip_destination :: u32
  ip_identification :: u16
  ip_protocol :: u8
  ip_fragmented :: bool
  ip_payload :: bytes

definition ipv4_parse :: "bytes \<Rightarrow> ipv4_packet option" where
  "ipv4_parse packet =
     (if length packet < IPV4_MIN_HEADER \<or> drop_bit 4 (packet ! 0) \<noteq> 4 then None
      else
        let header_length = unat (packet ! 0 AND 0x0f) * 4;
            total_length = unat (from_be [packet ! 2, packet ! 3] :: u16)
        in
        if header_length < IPV4_MIN_HEADER \<or> header_length > total_length \<or> total_length > length packet
        then None
        else
          let fragment = (from_be [packet ! 6, packet ! 7] :: u16) in
          Some \<lparr>ip_source = ipv4_new (packet ! 12) (packet ! 13) (packet ! 14) (packet ! 15),
                ip_destination = ipv4_new (packet ! 16) (packet ! 17) (packet ! 18) (packet ! 19),
                ip_identification = from_be [packet ! 4, packet ! 5],
                ip_protocol = packet ! 9,
                ip_fragmented = (fragment AND 0x3fff \<noteq> 0),
                ip_payload = slice_of header_length total_length packet\<rparr>)"

record udp_packet =
  udp_source_port :: u16
  udp_destination_port :: u16
  udp_payload :: bytes

definition udp_parse :: "bytes \<Rightarrow> udp_packet option" where
  "udp_parse packet =
     (if length packet < UDP_HEADER then None
      else
        let len = unat (from_be [packet ! 4, packet ! 5] :: u16) in
        if len < UDP_HEADER \<or> len > length packet then None
        else Some \<lparr>udp_source_port = from_be [packet ! 0, packet ! 1],
                   udp_destination_port = from_be [packet ! 2, packet ! 3],
                   udp_payload = slice_of UDP_HEADER len packet\<rparr>)"

section \<open>Checksums\<close>

fun add_bytes :: "u32 \<Rightarrow> bytes \<Rightarrow> u32" where
  "add_bytes acc (a # b # rest) = add_bytes (acc + ucast (from_be [a, b] :: u16)) rest"
| "add_bytes acc [a] = acc + push_bit 8 (ucast a)"
| "add_bytes acc [] = acc"

lemma fold_carry:
  fixes s :: u32
  shows "unat ((s AND 0xffff) + drop_bit 16 s) = unat s mod 65536 + unat s div 65536"
proof -
  have m: "(0xffff :: u32) = mask 16" by (simp add: mask_eq_exp_minus_1)
  have a: "unat (s AND 0xffff) = unat s mod 65536"
    unfolding m by (simp add: unsigned_and_eq take_bit_eq_mask [symmetric] take_bit_eq_mod unat_mod)
  have b: "unat (drop_bit 16 s) = unat s div 65536"
    by (simp add: drop_bit_eq_div unat_div)
  have "unat s < 2 ^ 32" using unsigned_less [of s] by simp
  then have "unat s mod 65536 + unat s div 65536 < 2 ^ 32" by (simp add: div_less_iff_less_mult)
  then show ?thesis by (simp add: unat_word_ariths a b)
qed

function finish_fold :: "u32 \<Rightarrow> u32" where
  "finish_fold s = (if drop_bit 16 s \<noteq> 0 then finish_fold ((s AND 0xffff) + drop_bit 16 s) else s)"
  by pat_completeness auto
termination
proof (relation "measure unat")
  fix s :: u32
  assume "drop_bit 16 s \<noteq> 0"
  then have "unat (drop_bit 16 s) \<noteq> 0" by (simp add: unat_eq_0)
  then have "unat s div 65536 \<noteq> 0" by (simp add: drop_bit_eq_div unat_div)
  then have "unat s mod 65536 + unat s div 65536 < unat s"
    using div_mult_mod_eq [of "unat s" 65536] by linarith
  then show "((s AND 0xffff) + drop_bit 16 s, s) \<in> measure unat"
    by (simp only: in_measure fold_carry)
qed simp

declare finish_fold.simps [simp del]

definition finish_checksum :: "u32 \<Rightarrow> u16" where
  "finish_checksum s =
     (let c = NOT (ucast (finish_fold s) :: u16) in if c = 0 then 0xffff else c)"

definition checksum :: "bytes \<Rightarrow> u16" where
  "checksum bs = finish_checksum (add_bytes 0 bs)"

definition udp_checksum :: "u32 \<Rightarrow> u32 \<Rightarrow> bytes \<Rightarrow> u16" where
  "udp_checksum source destination udp =
     finish_checksum
       (add_bytes
          (add_bytes (add_bytes 0 (ipv4_octets source)) (ipv4_octets destination) + 17 +
           (if length udp < 2 ^ 32 then of_nat (length udp) else - 1)) udp)"

text \<open>The packet buffer of \<open>build_udp_response\<close> as its fields; the checksum fields are 0 until they
  are computed.\<close>

definition response_ip_header :: "u16 \<Rightarrow> u16 \<Rightarrow> u16 \<Rightarrow> u32 \<Rightarrow> u32 \<Rightarrow> bytes" where
  "response_ip_header total_len ident ck source destination =
     [0x45, 0] @ u16_be total_len @ u16_be ident @ u16_be 0x4000 @ [64, 17] @ u16_be ck @
     ipv4_octets source @ ipv4_octets destination"

definition response_udp :: "u16 \<Rightarrow> u16 \<Rightarrow> u16 \<Rightarrow> u16 \<Rightarrow> bytes \<Rightarrow> bytes" where
  "response_udp source_port destination_port udp_len ck payload =
     u16_be source_port @ u16_be destination_port @ u16_be udp_len @ u16_be ck @ payload"

definition build_udp_response ::
  "u32 \<Rightarrow> u32 \<Rightarrow> u16 \<Rightarrow> u16 \<Rightarrow> u16 \<Rightarrow> bytes \<Rightarrow> bytes option" where
  "build_udp_response source destination source_port destination_port ident payload =
     (case usize_checked_add UDP_HEADER (length payload) of
        None \<Rightarrow> None
      | Some udp_length \<Rightarrow>
          (case usize_checked_add IPV4_MIN_HEADER udp_length of
             None \<Rightarrow> None
           | Some total_length \<Rightarrow>
               (case (u16_try_from udp_length, u16_try_from total_length) of
                  (Some udp_len, Some total_len) \<Rightarrow>
                    (let ip_ck = checksum (response_ip_header total_len ident 0 source destination);
                         udp_ck = udp_checksum source destination
                                    (response_udp source_port destination_port udp_len 0 payload)
                     in Some (response_ip_header total_len ident ip_ck source destination @
                              response_udp source_port destination_port udp_len udp_ck payload))
                | _ \<Rightarrow> None)))"

section \<open>The engine\<close>

record dns_relay_request =
  relay_dns_request :: bytes
  relay_source :: u32
  relay_destination :: u32
  relay_source_port :: u16
  relay_destination_port :: u16
  relay_identification :: u16

definition synthetic_response :: "dns_lib \<Rightarrow> dns_message \<Rightarrow> response_code \<Rightarrow> bytes option" where
  "synthetic_response L request code =
     (let response = msg_response L (msg_id request) (msg_op_code request) in
      msg_to_vec L (response\<lparr>msg_recursion_desired := msg_recursion_desired request,
                             msg_recursion_available := True,
                             msg_response_code := code,
                             msg_queries := msg_queries response @ msg_queries request\<rparr>))"

definition response_packet :: "dns_relay_request \<Rightarrow> bytes \<Rightarrow> bytes option" where
  "response_packet r dns_response =
     build_udp_response (relay_destination r) (relay_source r) (relay_destination_port r)
       (relay_source_port r) (relay_identification r) dns_response"

definition servfail_packet :: "dns_lib \<Rightarrow> dns_relay_request \<Rightarrow> bytes option" where
  "servfail_packet L r =
     (case msg_from_vec L (relay_dns_request r) of
        None \<Rightarrow> None
      | Some request \<Rightarrow>
          (case synthetic_response L request ServFail of
             None \<Rightarrow> None
           | Some response \<Rightarrow> response_packet r response))"

datatype dns_packet_action =
    DnsPass
  | DnsDrop
  | DnsInject bytes
  | DnsRelay dns_relay_request

definition transport_destination_port :: "ipv4_packet \<Rightarrow> u16 option" where
  "transport_destination_port p =
     (if (ip_protocol p = 6 \<or> ip_protocol p = 17) \<and> 4 \<le> length (ip_payload p)
      then Some (from_be [ip_payload p ! 2, ip_payload p ! 3]) else None)"

definition process_query ::
  "dns_lib \<Rightarrow> effective_dns_policy \<Rightarrow> ipv4_packet \<Rightarrow> udp_packet \<Rightarrow> dns_message \<Rightarrow> dns_packet_action" where
  "process_query L policy ipv4 udp request =
     (let (name, query_type, _) = hd (msg_queries request);
          synthetic =
            (if blocks_doh_host policy name then Some NXDomain
             else if dns_routing_enabled policy \<and> query_type = AAAA then Some NoError
             else None)
      in
      case synthetic of
        Some code \<Rightarrow>
          (case synthetic_response L request code of
             None \<Rightarrow> DnsPass
           | Some dns \<Rightarrow>
               (case build_udp_response (ip_destination ipv4) (ip_source ipv4)
                       (udp_destination_port udp) (udp_source_port udp) (ip_identification ipv4) dns of
                  None \<Rightarrow> DnsPass
                | Some packet \<Rightarrow> DnsInject packet))
      | None \<Rightarrow>
          if \<not> dns_routing_enabled policy then DnsPass
          else if routes_through_tunnel policy name then DnsPass
          else DnsRelay \<lparr>relay_dns_request = udp_payload udp,
                         relay_source = ip_source ipv4,
                         relay_destination = ip_destination ipv4,
                         relay_source_port = udp_source_port udp,
                         relay_destination_port = udp_destination_port udp,
                         relay_identification = ip_identification ipv4\<rparr>)"

definition dns_process :: "dns_lib \<Rightarrow> effective_dns_policy \<Rightarrow> bytes \<Rightarrow> dns_packet_action" where
  "dns_process L policy packet =
     (if \<not> engine_enabled policy then DnsPass
      else
        case ipv4_parse packet of
          None \<Rightarrow> DnsPass
        | Some ipv4 \<Rightarrow>
            if ip_fragmented ipv4 then DnsPass
            else if pol_block_encrypted_dns policy
                    \<and> transport_destination_port ipv4 = Some ENCRYPTED_DNS_PORT
            then DnsDrop
            else if ip_protocol ipv4 \<noteq> 17 then DnsPass
            else
              (case udp_parse (ip_payload ipv4) of
                 None \<Rightarrow> DnsPass
               | Some udp \<Rightarrow>
                   if udp_destination_port udp \<noteq> DNS_PORT then DnsPass
                   else
                     (case msg_from_vec L (udp_payload udp) of
                        None \<Rightarrow> DnsPass
                      | Some request \<Rightarrow>
                          if \<not> msg_is_query request \<or> length (msg_queries request) \<noteq> 1 then DnsPass
                          else process_query L policy ipv4 udp request)))"

section \<open>Checksum arithmetic\<close>

text \<open>The sum of the 16-bit words of a byte string, the last odd byte as a high byte.\<close>

fun word_sum :: "bytes \<Rightarrow> nat" where
  "word_sum (a # b # rest) = unat (from_be [a, b] :: u16) + word_sum rest"
| "word_sum [a] = unat a * 256"
| "word_sum [] = 0"

lemma word_sum_bound: "word_sum bs \<le> 32768 * (length bs + 1)"
proof (induction bs rule: word_sum.induct)
  case (1 a b rest)
  have "unat (from_be [a, b] :: u16) \<le> 65535" using unat_u16_less [of "from_be [a, b]"] by simp
  with 1 show ?case by simp
next
  case (2 a)
  then show ?case using unat_u8_less [of a] by simp
qed simp

lemma add_bytes_sum:
  "unat acc + word_sum bs < 2 ^ 32 \<Longrightarrow> unat (add_bytes acc bs) = unat acc + word_sum bs"
proof (induction acc bs rule: add_bytes.induct)
  case (1 acc a b rest)
  have "unat (acc + ucast (from_be [a, b] :: u16)) = unat acc + unat (from_be [a, b] :: u16)"
    using 1(2) by (simp add: unat_word_ariths)
  with 1 show ?case by simp
next
  case (2 acc a)
  have u: "unat (ucast a :: u32) = unat a"
    using unat_u8_less [of a] by (simp add: unsigned_ucast_eq take_bit_nat_eq_self)
  have "unat (push_bit 8 (ucast a :: u32)) = unat a * 256"
    using unat_u8_less [of a] by (simp add: push_bit_eq_mult unat_word_ariths u)
  with 2 show ?case by (simp add: unat_word_ariths)
qed simp

lemma finish_fold_spec:
  "unat (finish_fold s) \<le> 65535 \<and> unat (finish_fold s) mod 65535 = unat s mod 65535"
proof (induction s rule: finish_fold.induct)
  case (1 s)
  show ?case
  proof (cases "drop_bit 16 s = 0")
    case True
    have "unat (drop_bit 16 s) = unat s div 65536" by (simp add: drop_bit_eq_div unat_div)
    with True have "unat s div 65536 = 0" by simp
    with True show ?thesis by (subst (1 2) finish_fold.simps) (simp add: div_eq_0_iff)
  next
    case False
    let ?t = "(s AND 0xffff) + drop_bit 16 s"
    have "unat s = 65536 * (unat s div 65536) + unat s mod 65536" by simp
    then have "unat s = unat ?t + 65535 * (unat s div 65536)" unfolding fold_carry by linarith
    then have "unat s mod 65535 = unat ?t mod 65535" by (metis mod_mult_self2)
    moreover have "finish_fold s = finish_fold ?t" using False by (subst finish_fold.simps) simp
    ultimately show ?thesis using 1(1) [OF False] by simp
  qed
qed

lemma finish_checksum_spec:
  "(unat s + unat (finish_checksum s)) mod 65535 = 0" "finish_checksum s \<noteq> 0"
proof -
  define f where "f = finish_fold s"
  have f: "unat f \<le> 65535" "unat f mod 65535 = unat s mod 65535"
    using finish_fold_spec [of s] by (simp_all add: f_def)
  have u: "unat (ucast f :: u16) = unat f"
    using f(1) by (simp add: unsigned_ucast_eq take_bit_nat_eq_self)
  have "NOT (ucast f :: u16) = - 1 - ucast f" by (simp add: not_eq_complement)
  then have n: "unat (NOT (ucast f :: u16)) = 65535 - unat f"
    using f(1) u by (simp add: unsigned_minus_1_eq_mask mask_eq_exp_minus_1 unat_sub word_le_nat_alt)
  show "finish_checksum s \<noteq> 0" by (simp add: finish_checksum_def Let_def)
  have "(unat f + unat (finish_checksum s)) mod 65535 = 0"
  proof (cases "NOT (ucast f :: u16) = 0")
    case True
    then have "unat f = 65535" using n f(1) by simp
    with True show ?thesis by (simp add: finish_checksum_def f_def [symmetric] Let_def)
  next
    case False
    then show ?thesis using n f(1) by (simp add: finish_checksum_def f_def [symmetric] Let_def)
  qed
  then show "(unat s + unat (finish_checksum s)) mod 65535 = 0"
    by (metis f(2) mod_add_left_eq)
qed

lemma word_sum_append: "even (length xs) \<Longrightarrow> word_sum (xs @ ys) = word_sum xs + word_sum ys"
  by (induction xs rule: word_sum.induct) auto

lemma word_sum_u16 [simp]: "word_sum (u16_be w) = unat w"
proof -
  have "u16_be w = [u16_be w ! 0, u16_be w ! Suc 0]" by (simp only: list_of_be2)
  then have "word_sum (u16_be w) = unat (from_be (u16_be w) :: u16)"
    by (metis add.right_neutral word_sum.simps(1,3))
  then show ?thesis by simp
qed

section \<open>Forged answers\<close>

lemma length_response [simp]:
  "length (response_ip_header t i ck s d) = 20" "length (response_udp sp dp l ck payload) = 8 + length payload"
  by (simp_all add: response_ip_header_def response_udp_def)

lemma response_ip_parse:
  assumes "unat t = 20 + length udp"
  shows "ipv4_parse (response_ip_header t i ck s d @ udp) =
      Some \<lparr>ip_source = s, ip_destination = d, ip_identification = i, ip_protocol = 17,
            ip_fragmented = False, ip_payload = udp\<rparr>"
    and "complete_ip_packet (response_ip_header t i ck s d @ udp)"
proof -
  obtain t1 t2 where t: "u16_be t = [t1, t2]" "from_be [t1, t2] = t" using u16_be_split .
  obtain i1 i2 where i: "u16_be i = [i1, i2]" "from_be [i1, i2] = i" using u16_be_split .
  obtain c1 c2 where c: "u16_be ck = [c1, c2]" using u16_be_split by metis
  obtain s1 s2 s3 s4 where s: "ipv4_octets s = [s1, s2, s3, s4]" "ipv4_new s1 s2 s3 s4 = s"
    using octets_split .
  obtain d1 d2 d3 d4 where d: "ipv4_octets d = [d1, d2, d3, d4]" "ipv4_new d1 d2 d3 d4 = d"
    using octets_split .
  have f: "u16_be 0x4000 = [0x40, 0]" by (simp add: be_bytes_def le_bytes_numeral)
  have h: "response_ip_header t i ck s d =
      [0x45, 0, t1, t2, i1, i2, 0x40, 0, 64, 17, c1, c2, s1, s2, s3, s4, d1, d2, d3, d4]"
    by (simp add: response_ip_header_def t i c s d f)
  have g: "(from_be [0x40, 0] :: u16) AND 0x3fff = 0" by code_simp
  have w: "drop_bit 4 (0x45 :: u8) = 4" "unat ((0x45 :: u8) AND 0x0f) = 5" by code_simp+
  define p where "p = response_ip_header t i ck s d @ udp"
  have n: "p ! 0 = 0x45" "p ! 2 = t1" "p ! 3 = t2" "p ! 4 = i1" "p ! 5 = i2" "p ! 6 = 0x40" "p ! 7 = 0"
      "p ! 9 = 17" "p ! 12 = s1" "p ! 13 = s2" "p ! 14 = s3" "p ! 15 = s4"
      "p ! 16 = d1" "p ! 17 = d2" "p ! 18 = d3" "p ! 19 = d4" "length p = 20 + length udp"
    unfolding p_def h by simp_all
  have u: "slice_of 20 (20 + length udp) p = udp" unfolding p_def h slice_of_def by simp
  show "ipv4_parse (response_ip_header t i ck s d @ udp) =
      Some \<lparr>ip_source = s, ip_destination = d, ip_identification = i, ip_protocol = 17,
            ip_fragmented = False, ip_payload = udp\<rparr>"
    unfolding p_def [symmetric] ipv4_parse_def Let_def n t(2) i(2) s(2) d(2) g w assms
    by (simp add: u)
  show "complete_ip_packet (response_ip_header t i ck s d @ udp)"
    unfolding p_def [symmetric] complete_ip_packet_def ip_version_def n t(2) w assms by (simp add: n)
qed

lemma response_udp_parse:
  assumes "unat l = 8 + length payload"
  shows "udp_parse (response_udp sp dp l ck payload) =
    Some \<lparr>udp_source_port = sp, udp_destination_port = dp, udp_payload = payload\<rparr>"
proof -
  obtain a1 a2 where a: "u16_be sp = [a1, a2]" "from_be [a1, a2] = sp" using u16_be_split .
  obtain b1 b2 where b: "u16_be dp = [b1, b2]" "from_be [b1, b2] = dp" using u16_be_split .
  obtain l1 l2 where l: "u16_be l = [l1, l2]" "from_be [l1, l2] = l" using u16_be_split .
  obtain c1 c2 where c: "u16_be ck = [c1, c2]" using u16_be_split by metis
  show ?thesis
    using assms by (simp add: response_udp_def udp_parse_def a b l c Let_def slice_of_def)
qed

lemma response_ip_sum:
  "word_sum (response_ip_header t i ck s d) = word_sum (response_ip_header t i 0 s d) + unat ck"
  by (simp add: response_ip_header_def word_sum_append)

lemma response_udp_sum:
  "word_sum (response_udp sp dp l ck payload) = word_sum (response_udp sp dp l 0 payload) + unat ck"
  by (simp add: response_udp_def word_sum_append)

lemma checksum_complements:
  assumes "length bs \<le> 65535"
  shows "(word_sum bs + unat (checksum bs)) mod 65535 = 0"
proof -
  have "word_sum bs < 2 ^ 32" using word_sum_bound [of bs] assms by simp
  then have "unat (add_bytes 0 bs) = word_sum bs" using add_bytes_sum [of 0 bs] by simp
  then show ?thesis using finish_checksum_spec(1) [of "add_bytes 0 bs"] by (simp add: checksum_def)
qed

lemma udp_checksum_complements:
  assumes "length udp \<le> 65535"
  shows "(word_sum (ipv4_octets s @ ipv4_octets d) + 17 + length udp + word_sum udp +
      unat (udp_checksum s d udp)) mod 65535 = 0"
proof -
  let ?a = "word_sum (ipv4_octets s)" and ?b = "word_sum (ipv4_octets d)"
  have a: "?a \<le> 163840" "?b \<le> 163840" "word_sum udp \<le> 32768 * 65536"
    using word_sum_bound [of "ipv4_octets s"] word_sum_bound [of "ipv4_octets d"]
      word_sum_bound [of udp] assms by simp_all
  define acc where "acc = add_bytes (add_bytes 0 (ipv4_octets s)) (ipv4_octets d)"
  have acc: "unat acc = ?a + ?b"
    using a(1,2) by (simp add: acc_def add_bytes_sum)
  have l: "unat (of_nat (length udp) :: u32) = length udp" using assms by (simp add: unat_of_nat)
  then have acc2: "unat (acc + 17 + of_nat (length udp)) = ?a + ?b + 17 + length udp"
    using acc a assms by (simp add: unat_word_ariths)
  then have "unat (add_bytes (acc + 17 + of_nat (length udp)) udp) = ?a + ?b + 17 + length udp + word_sum udp"
    using a assms by (simp add: add_bytes_sum)
  moreover have "udp_checksum s d udp = finish_checksum (add_bytes (acc + 17 + of_nat (length udp)) udp)"
    using assms by (simp add: udp_checksum_def acc_def)
  ultimately show ?thesis
    using finish_checksum_spec(1) [of "add_bytes (acc + 17 + of_nat (length udp)) udp"]
    by (simp add: word_sum_append)
qed

lemma build_udp_response_eq:
  "build_udp_response s d sp dp i payload =
     (if length payload \<le> 65507
      then Some (response_ip_header (of_nat (28 + length payload)) i
                   (checksum (response_ip_header (of_nat (28 + length payload)) i 0 s d)) s d @
                 response_udp sp dp (of_nat (8 + length payload))
                   (udp_checksum s d (response_udp sp dp (of_nat (8 + length payload)) 0 payload)) payload)
      else None)"
  by (simp add: build_udp_response_def usize_checked_add_def u16_try_from_def Let_def)

section \<open>Properties\<close>

text \<open>(forged UDP answers are valid). An answer is built exactly when the payload fits an IPv4 packet.
  It is a complete unfragmented UDP packet between the given end points that carries exactly the
  payload, its header checksum verifies, and so does its UDP checksum over the pseudo header,
  which is not the reserved value zero.\<close>

theorem build_udp_response_valid:
  "(build_udp_response s d sp dp i payload = None \<longleftrightarrow> 65507 < length payload) \<and>
   (\<forall>packet. build_udp_response s d sp dp i payload = Some packet \<longrightarrow>
      complete_ip_packet packet \<and> word_sum (take 20 packet) mod 65535 = 0 \<and>
      (\<exists>udp. ipv4_parse packet =
           Some \<lparr>ip_source = s, ip_destination = d, ip_identification = i, ip_protocol = 17,
                 ip_fragmented = False, ip_payload = udp\<rparr> \<and>
         udp_parse udp = Some \<lparr>udp_source_port = sp, udp_destination_port = dp, udp_payload = payload\<rparr> \<and>
         (word_sum (ipv4_octets s @ ipv4_octets d) + 17 + length udp + word_sum udp) mod 65535 = 0 \<and>
         slice_of 6 8 udp \<noteq> [0, 0]))"
proof (cases "length payload \<le> 65507")
  case True
  define t l where "t = (of_nat (28 + length payload) :: u16)" and "l = (of_nat (8 + length payload) :: u16)"
  have tl: "unat t = 28 + length payload" "unat l = 8 + length payload"
    using True by (simp_all only: t_def l_def unat_of_nat) simp_all
  define ick uck where "ick = checksum (response_ip_header t i 0 s d)"
    and "uck = udp_checksum s d (response_udp sp dp l 0 payload)"
  define udp where "udp = response_udp sp dp l uck payload"
  have packet: "build_udp_response s d sp dp i payload = Some (response_ip_header t i ick s d @ udp)"
    using True by (simp only: build_udp_response_eq t_def l_def ick_def uck_def udp_def if_True)
  have "unat t = 20 + length udp" by (simp add: tl udp_def)
  note parse = response_ip_parse [OF this, of i ick s d]
  have "word_sum (response_ip_header t i ick s d) mod 65535 = 0"
    using checksum_complements [of "response_ip_header t i 0 s d"]
    unfolding response_ip_sum [of t i ick] unfolding ick_def by simp
  moreover have "(word_sum (ipv4_octets s @ ipv4_octets d) + 17 + length udp + word_sum udp) mod 65535 = 0"
    using udp_checksum_complements [of "response_udp sp dp l 0 payload" s d] True
    unfolding udp_def response_udp_sum [of sp dp l uck] unfolding uck_def by (simp add: ac_simps)
  moreover have "slice_of 6 8 udp \<noteq> [0, 0]"
  proof -
    have "uck \<noteq> 0" using finish_checksum_spec(2) by (simp add: uck_def udp_checksum_def)
    moreover have "slice_of 6 8 udp = u16_be uck"
      by (simp add: udp_def response_udp_def slice_of_def)
    moreover have "u16_be 0 = [0, 0]" by (simp add: be_bytes_def le_bytes_numeral)
    ultimately show ?thesis by (metis be_bytes_eq_iff from_word_round_trips(1))
  qed
  ultimately show ?thesis
    using packet parse response_udp_parse [OF tl(2)] True by (simp add: udp_def)
next
  case False
  then show ?thesis by (simp add: build_udp_response_eq)
qed

theorem build_udp_response_valid_witness:
  "\<exists>packet. build_udp_response 0x08080808 0x0a000001 53 4000 7 [1, 2, 3] = Some packet \<and>
     complete_ip_packet packet \<and> word_sum (take 20 packet) mod 65535 = 0"
  using build_udp_response_valid [where s = "0x08080808" and d = "0x0a000001" and sp = 53 and
      dp = 4000 and i = 7 and payload = "[1, 2, 3]"]
  by (cases "build_udp_response 0x08080808 0x0a000001 53 4000 7 [1, 2, 3]") auto

text \<open>(the engine's decisions). The engine drops a packet exactly when encrypted DNS is blocked and
  it is an unfragmented TCP or UDP packet to port 853; it hands a packet to the local relay only
  when DNS routing is on and the policy keeps the queried name out of the tunnel, and then with
  the packet's own end points; with everything off it passes every packet.\<close>

theorem dns_process_decisions:
  "(dns_process L policy packet = DnsDrop \<longleftrightarrow>
     pol_block_encrypted_dns policy \<and>
     (\<exists>ip. ipv4_parse packet = Some ip \<and> \<not> ip_fragmented ip \<and>
           transport_destination_port ip = Some ENCRYPTED_DNS_PORT)) \<and>
   (\<forall>r. dns_process L policy packet = DnsRelay r \<longrightarrow>
     dns_routing_enabled policy \<and>
     (\<exists>ip udp request. ipv4_parse packet = Some ip \<and> udp_parse (ip_payload ip) = Some udp \<and>
        msg_from_vec L (udp_payload udp) = Some request \<and>
        \<not> routes_through_tunnel policy (fst (hd (msg_queries request))) \<and>
        \<not> blocks_doh_host policy (fst (hd (msg_queries request))) \<and>
        relay_dns_request r = udp_payload udp \<and> relay_source r = ip_source ip \<and>
        relay_destination r = ip_destination ip \<and> relay_destination_port r = DNS_PORT)) \<and>
   (\<not> engine_enabled policy \<longrightarrow> dns_process L policy packet = DnsPass)"
proof (intro conjI)
  have q: "process_query L policy ip udp request \<noteq> DnsDrop" for ip udp request
    by (simp add: process_query_def Let_def split_def split: option.split)
  show "dns_process L policy packet = DnsDrop \<longleftrightarrow>
     pol_block_encrypted_dns policy \<and>
     (\<exists>ip. ipv4_parse packet = Some ip \<and> \<not> ip_fragmented ip \<and>
           transport_destination_port ip = Some ENCRYPTED_DNS_PORT)"
    using q by (auto simp: dns_process_def engine_enabled_def split: option.splits)
  have r: "dns_routing_enabled policy \<and> \<not> routes_through_tunnel policy (fst (hd (msg_queries request))) \<and>
      \<not> blocks_doh_host policy (fst (hd (msg_queries request))) \<and>
      relay_dns_request r = udp_payload udp \<and> relay_source r = ip_source ip \<and>
      relay_destination r = ip_destination ip \<and> relay_destination_port r = udp_destination_port udp"
    if "process_query L policy ip udp request = DnsRelay r" for ip udp request r
    using that by (auto simp: process_query_def Let_def split_def split: option.splits if_splits)
  show "\<forall>r. dns_process L policy packet = DnsRelay r \<longrightarrow>
     dns_routing_enabled policy \<and>
     (\<exists>ip udp request. ipv4_parse packet = Some ip \<and> udp_parse (ip_payload ip) = Some udp \<and>
        msg_from_vec L (udp_payload udp) = Some request \<and>
        \<not> routes_through_tunnel policy (fst (hd (msg_queries request))) \<and>
        \<not> blocks_doh_host policy (fst (hd (msg_queries request))) \<and>
        relay_dns_request r = udp_payload udp \<and> relay_source r = ip_source ip \<and>
        relay_destination r = ip_destination ip \<and> relay_destination_port r = DNS_PORT)"
    by (auto simp: dns_process_def split: option.splits if_splits dest!: r)
  show "\<not> engine_enabled policy \<longrightarrow> dns_process L policy packet = DnsPass"
    by (simp add: dns_process_def)
qed


definition demo_dns_lib :: dns_lib where
  "demo_dns_lib =
     \<lparr>msg_from_vec = (\<lambda>_. Some \<lparr>msg_id = 7, msg_op_code = 0, msg_is_query = True,
        msg_recursion_desired = True, msg_recursion_available = False,
        msg_response_code = NoError, msg_queries = [([0x61], 1, 1)],
        msg_truncation = False, msg_max_payload = 512, msg_answers = []\<rparr>),
      msg_to_vec = (\<lambda>m. Some (u16_be (msg_id m))),
      msg_response = (\<lambda>i o'. \<lparr>msg_id = i, msg_op_code = o', msg_is_query = False,
        msg_recursion_desired = False, msg_recursion_available = False,
        msg_response_code = NoError, msg_queries = [],
        msg_truncation = False, msg_max_payload = 512, msg_answers = []\<rparr>)\<rparr>"

definition demo_policy :: effective_dns_policy where
  "demo_policy =
     \<lparr>pol_server_mode = DnsServer, pol_servers = [0x0a000002], pol_split_mode = SplitCustom,
      pol_inclusive = [\<lparr>rule_kind = KindExact, rule_domain = [0x62], explicit_prefix = True\<rparr>],
      pol_exclusive = [], pol_block_encrypted_dns = False, pol_doh_hosts = []\<rparr>"

definition demo_query :: bytes where
  "demo_query = [0x45, 0, 0, 29, 0, 9, 0, 0, 64, 17, 0, 0, 10, 0, 0, 1, 10, 0, 0, 2,
                 0x10, 0, 0, 53, 0, 9, 0, 0, 1]"

theorem dns_process_decisions_witness:
  "\<exists>r. dns_process demo_dns_lib demo_policy demo_query = DnsRelay r \<and>
     relay_destination_port r = DNS_PORT \<and> dns_routing_enabled demo_policy"
proof -
  have "dns_process demo_dns_lib demo_policy demo_query =
      DnsRelay \<lparr>relay_dns_request = [1], relay_source = 0x0a000001, relay_destination = 0x0a000002,
                relay_source_port = 0x1000, relay_destination_port = 53, relay_identification = 9\<rparr>"
  proof -
    have "ipv4_parse demo_query = Some \<lparr>ip_source = 0x0a000001, ip_destination = 0x0a000002,
        ip_identification = 9, ip_protocol = 17, ip_fragmented = False,
        ip_payload = [0x10, 0, 0, 53, 0, 9, 0, 0, 1]\<rparr>"
      by (simp add: ipv4_parse_def demo_query_def from_be_def ipv4_new_def slice_of_def)
    moreover have "udp_parse [0x10, 0, 0, 53, 0, 9, 0, 0, 1] =
        Some \<lparr>udp_source_port = 0x1000, udp_destination_port = 53, udp_payload = [1]\<rparr>"
      by (simp add: udp_parse_def from_be_def slice_of_def)
    moreover have "\<not> routes_through_tunnel demo_policy [0x61]"
      by (simp add: routes_through_tunnel_def demo_policy_def rule_matches_def normalize_name_def
          str_trim_def is_whitespace_def trim_end_dots_def to_ascii_lowercase_def ascii_lower_char_def)
    ultimately show ?thesis
      by (simp add: dns_process_def process_query_def demo_dns_lib_def engine_enabled_def
          dns_routing_enabled_def blocks_doh_host_def Let_def) (simp_all add: demo_policy_def)
  qed
  then show ?thesis
    using dns_process_decisions [of demo_dns_lib demo_policy demo_query] by blast
qed

end
