(* ===== verification/Dns_Relay.thy ===== *)
theory Dns_Relay
  imports Dns_Packet
begin

text \<open>
  The DNS relay (\<open>src/dns/relay.rs\<close>): queries that stay out of the tunnel are sent to the physical
  resolvers. Its concurrency limit, which the DNS runtime repeats for its worker threads, is a
  counter moved by compare-and-exchange; the relay of one query is a loop over the resolvers
  that gives up when the relay's generation changes.

  Sockets answer through parameters: the result of one exchange over UDP and over TCP. What a query
  reads of the relay while other threads change it, its list of resolvers and its generation, are
  successive states of the relay, related by any number of steps of these threads.
\<close>

section \<open>Counting permits\<close>

text \<open>\<open>DnsRelay::acquire\<close> with \<open>RelayPermit::drop\<close>, and \<open>DnsRuntime::try_acquire_worker\<close> with
  \<open>WorkerCounter::drop\<close>: a thread loads the counter and then tries to exchange the value it saw,
  taking over the current value when the exchange fails, which it may do spuriously.\<close>

datatype permit_thread = PtIdle | PtSeen nat | PtHolding | PtRefused

record permits =
  pm_count :: nat
  pm_threads :: "permit_thread list"

definition permits_start :: "nat \<Rightarrow> permits" where
  "permits_start n = \<lparr>pm_count = 0, pm_threads = replicate n PtIdle\<rparr>"

inductive permit_step :: "nat \<Rightarrow> permits \<Rightarrow> permits \<Rightarrow> bool" for limit where
  load: "i < length (pm_threads s) \<Longrightarrow> pm_threads s ! i = PtIdle \<or> pm_threads s ! i = PtRefused \<Longrightarrow>
    permit_step limit s (s\<lparr>pm_threads := (pm_threads s)[i := PtSeen (pm_count s)]\<rparr>)"
| refuse: "i < length (pm_threads s) \<Longrightarrow> pm_threads s ! i = PtSeen c \<Longrightarrow> limit \<le> c \<Longrightarrow>
    permit_step limit s (s\<lparr>pm_threads := (pm_threads s)[i := PtRefused]\<rparr>)"
| exchanged: "i < length (pm_threads s) \<Longrightarrow> pm_threads s ! i = PtSeen c \<Longrightarrow> c < limit \<Longrightarrow> pm_count s = c \<Longrightarrow>
    permit_step limit s (s\<lparr>pm_count := c + 1, pm_threads := (pm_threads s)[i := PtHolding]\<rparr>)"
| failed: "i < length (pm_threads s) \<Longrightarrow> pm_threads s ! i = PtSeen c \<Longrightarrow> c < limit \<Longrightarrow>
    permit_step limit s (s\<lparr>pm_threads := (pm_threads s)[i := PtSeen (pm_count s)]\<rparr>)"
| release: "i < length (pm_threads s) \<Longrightarrow> pm_threads s ! i = PtHolding \<Longrightarrow>
    permit_step limit s (s\<lparr>pm_count := pm_count s - 1, pm_threads := (pm_threads s)[i := PtIdle]\<rparr>)"

inductive_cases permit_stepE: "permit_step limit s t"

definition holders :: "permit_thread list \<Rightarrow> nat" where
  "holders ts = length (filter (\<lambda>t. t = PtHolding) ts)"

definition permits_ok :: "nat \<Rightarrow> permits \<Rightarrow> bool" where
  "permits_ok limit s \<longleftrightarrow>
     pm_count s = holders (pm_threads s) \<and> pm_count s \<le> limit \<and>
     (\<forall>c. PtSeen c \<in> set (pm_threads s) \<longrightarrow> c \<le> limit)"

lemma holders_update:
  assumes "i < length ts"
  shows "holders (ts[i := t]) + (if ts ! i = PtHolding then 1 else 0) =
    holders ts + (if t = PtHolding then 1 else 0)"
proof -
  have "ts = take i ts @ ts ! i # drop (Suc i) ts" using assms by (rule id_take_nth_drop)
  then have "holders ts = holders (take i ts @ [ts ! i] @ drop (Suc i) ts)" by simp
  then show ?thesis using assms by (simp add: holders_def upd_conv_take_nth_drop)
qed

lemma holders_positive: "i < length ts \<Longrightarrow> ts ! i = PtHolding \<Longrightarrow> 0 < holders ts"
  by (simp add: holders_def filter_empty_conv) (metis nth_mem)

lemma permit_step_ok:
  assumes "permits_ok limit s" "permit_step limit s t"
  shows "permits_ok limit t"
  using assms(2,1)
proof cases
  case (load i)
  then show ?thesis
    using assms(1) holders_update [of i "pm_threads s" "PtSeen (pm_count s)"]
      set_update_subset_insert [of "pm_threads s" i "PtSeen (pm_count s)"]
    by (auto simp: permits_ok_def)
next
  case (refuse i c)
  then show ?thesis
    using assms(1) holders_update [of i "pm_threads s" PtRefused]
      set_update_subset_insert [of "pm_threads s" i PtRefused]
    by (auto simp: permits_ok_def)
next
  case (exchanged i c)
  then show ?thesis
    using assms(1) holders_update [of i "pm_threads s" PtHolding]
      set_update_subset_insert [of "pm_threads s" i PtHolding]
    by (auto simp: permits_ok_def)
next
  case (failed i c)
  then show ?thesis
    using assms(1) holders_update [of i "pm_threads s" "PtSeen (pm_count s)"]
      set_update_subset_insert [of "pm_threads s" i "PtSeen (pm_count s)"]
    by (auto simp: permits_ok_def)
next
  case (release i)
  then show ?thesis
    using assms(1) holders_update [of i "pm_threads s" PtIdle] holders_positive [of i "pm_threads s"]
      set_update_subset_insert [of "pm_threads s" i PtIdle]
    by (auto simp: permits_ok_def)
qed

interpretation permit_sys: invariant_system "\<lambda>s. \<exists>n. s = permits_start n" "permit_step limit" "permits_ok limit"
  for limit
proof
  show "\<exists>n. s = permits_start n \<Longrightarrow> permits_ok limit s" for s
    by (auto simp: permits_start_def permits_ok_def holders_def)
  show "permits_ok limit s \<Longrightarrow> permit_step limit s t \<Longrightarrow> permits_ok limit t" for s t
    by (rule permit_step_ok)
qed

section \<open>Exchanging a message with a resolver\<close>

abbreviation (input) MAX_UDP_DNS_MESSAGE :: nat where "MAX_UDP_DNS_MESSAGE \<equiv> 65507"

record relay_config =
  relay_timeout :: duration
  max_concurrent :: nat

definition relay_config_default :: relay_config where
  "relay_config_default = \<lparr>relay_timeout = 3000000, max_concurrent = 64\<rparr>"

record physical_resolver =
  pr_address :: socket_addr
  pr_interface_name :: "ustr option"
  pr_interface_index :: "u32 option"

text \<open>What a resolver's sockets yield for a request: the datagram received, and the bytes that can be
  read from the stream once the request is written.\<close>

record resolver_io =
  io_udp :: "physical_resolver \<Rightarrow> bytes \<Rightarrow> error_kind + bytes"
  io_tcp :: "physical_resolver \<Rightarrow> bytes \<Rightarrow> error_kind + bytes"

definition relay_exchange_udp :: "dns_lib \<Rightarrow> bytes \<Rightarrow> error_kind + bytes \<Rightarrow> error_kind + dns_message" where
  "relay_exchange_udp L request received =
     (case received of
        Inl k \<Rightarrow> Inl k
      | Inr datagram \<Rightarrow>
          let requested_size =
                max 512 (min MAX_UDP_DNS_MESSAGE
                  (case msg_from_vec L request of None \<Rightarrow> 512 | Some m \<Rightarrow> unat (msg_max_payload m)))
          in ok_or InvalidData (msg_from_vec L (take requested_size datagram)))"

definition relay_exchange_tcp :: "dns_lib \<Rightarrow> bytes \<Rightarrow> error_kind + bytes \<Rightarrow> error_kind + dns_message" where
  "relay_exchange_tcp L request stream =
     (case u16_try_from (length request) of
        None \<Rightarrow> Inl InvalidInput
      | Some _ \<Rightarrow>
          (case stream of
             Inl k \<Rightarrow> Inl k
           | Inr input \<Rightarrow>
               if length input < 2 then Inl OtherKind
               else
                 let len = unat (from_be (take 2 input) :: u16) in
                 if len = 0 then Inl InvalidData
                 else if length input < 2 + len then Inl OtherKind
                 else ok_or InvalidData (msg_from_vec L (slice_of 2 (2 + len) input))))"

definition relay_exchange ::
  "dns_lib \<Rightarrow> resolver_io \<Rightarrow> physical_resolver \<Rightarrow> bytes \<Rightarrow> error_kind + dns_message" where
  "relay_exchange L net resolver request =
     (let tcp = relay_exchange_tcp L request (io_tcp net resolver request) in
      case relay_exchange_udp L request (io_udp net resolver request) of
        Inr response \<Rightarrow> if msg_truncation response then tcp else Inr response
      | Inl k \<Rightarrow> if k = TimedOut \<or> k = WouldBlock then tcp else Inl k)"

definition validate_response :: "dns_message \<Rightarrow> dns_message \<Rightarrow> error_kind + unit" where
  "validate_response request response =
     (if msg_is_query response \<or> msg_id response \<noteq> msg_id request
         \<or> msg_op_code response \<noteq> msg_op_code request \<or> msg_queries response \<noteq> msg_queries request
      then Inl InvalidData else Inr ())"

section \<open>Relaying a query\<close>

text \<open>The argument \<open>gens k\<close> is the generation at its \<open>k\<close>-th reading, \<open>ids k\<close> the transaction ID taken
  from the shared counter there.\<close>

fun relay_loop ::
  "dns_lib \<Rightarrow> resolver_io \<Rightarrow> (nat \<Rightarrow> u64) \<Rightarrow> (nat \<Rightarrow> u16) \<Rightarrow> u64 \<Rightarrow> dns_message \<Rightarrow> nat \<Rightarrow>
     physical_resolver list \<Rightarrow> error_kind option \<Rightarrow> error_kind + bytes" where
  "relay_loop L net gens ids generation request k [] last_error =
     Inl (case last_error of Some e \<Rightarrow> e | None \<Rightarrow> TimedOut)"
| "relay_loop L net gens ids generation request k (r # rs) last_error =
     (if gens k \<noteq> generation then Inl Interrupted
      else
        let relayed = request\<lparr>msg_id := ids k\<rparr> in
        case msg_to_vec L relayed of
          None \<Rightarrow> Inl InvalidData
        | Some request_bytes \<Rightarrow>
            (case relay_exchange L net r request_bytes of
               Inl e \<Rightarrow> relay_loop L net gens ids generation request (k + 1) rs (Some e)
             | Inr response \<Rightarrow>
                 (case validate_response relayed response of
                    Inl e \<Rightarrow> relay_loop L net gens ids generation request (k + 1) rs (Some e)
                  | Inr _ \<Rightarrow>
                      if gens (k + 1) \<noteq> generation then Inl Interrupted
                      else
                        (case msg_to_vec L (response\<lparr>msg_id := msg_id request\<rparr>) of
                           None \<Rightarrow> Inl InvalidData
                         | Some answer \<Rightarrow>
                             if length answer > MAX_UDP_DNS_MESSAGE then Inl InvalidData
                             else Inr answer))))"

text \<open>\<open>update_resolvers\<close> and \<open>reset_generation\<close>: the resolvers and the generation of the relay.\<close>

record dns_relay =
  dr_resolvers :: "physical_resolver list"
  dr_generation :: u64

definition relay_new :: "physical_resolver list \<Rightarrow> dns_relay" where
  "relay_new resolvers = \<lparr>dr_resolvers = resolvers, dr_generation = 1\<rparr>"

definition update_resolvers :: "physical_resolver list \<Rightarrow> dns_relay \<Rightarrow> dns_relay" where
  "update_resolvers resolvers r = r\<lparr>dr_resolvers := resolvers, dr_generation := dr_generation r + 1\<rparr>"

definition reset_generation :: "dns_relay \<Rightarrow> dns_relay" where
  "reset_generation r = r\<lparr>dr_generation := dr_generation r + 1\<rparr>"

definition has_resolvers :: "dns_relay \<Rightarrow> bool" where
  "has_resolvers r \<longleftrightarrow> dr_resolvers r \<noteq> []"

text \<open>\<open>DnsRelay::relay\<close> looks at the shared state again and again, while other threads change it: \<open>view 0\<close> is
  what the first reading of the generation sees, \<open>view 1\<close> what reading the list of resolvers sees, and the later ones are
  the readings of the generation in the loop.\<close>

definition relay_query ::
  "dns_lib \<Rightarrow> resolver_io \<Rightarrow> relay_config \<Rightarrow> nat \<Rightarrow> (nat \<Rightarrow> dns_relay) \<Rightarrow>
     (nat \<Rightarrow> u16) \<Rightarrow> bytes \<Rightarrow> u64 \<Rightarrow> error_kind + bytes" where
  "relay_query L net config active view ids request generation =
     (if active \<ge> max_concurrent config then Inl WouldBlock
      else if dr_generation (view 0) \<noteq> generation then Inl Interrupted
      else
        case msg_from_vec L request of
          None \<Rightarrow> Inl InvalidInput
        | Some message \<Rightarrow>
            if \<not> msg_is_query message \<or> length (msg_queries message) \<noteq> 1 then Inl InvalidInput
            else if dr_resolvers (view 1) = [] then Inl NotFound
            else relay_loop L net (\<lambda>k. dr_generation (view (k + 1))) ids generation message 1 (dr_resolvers (view 1)) None)"

text \<open>How the shared state can change between two looks: the list is stored and the generation is counted up as two
  separate steps. The steps exclude that the 64-bit generation wraps around.\<close>

inductive relay_step :: "dns_relay \<Rightarrow> dns_relay \<Rightarrow> bool" where
  stored: "relay_step r (r\<lparr>dr_resolvers := resolvers\<rparr>)"
| counted: "dr_generation r \<noteq> - 1 \<Longrightarrow> relay_step r (r\<lparr>dr_generation := dr_generation r + 1\<rparr>)"

inductive_simps relay_step_iff: "relay_step r r'"

lemma relay_operations_steps:
  "dr_generation r \<noteq> - 1 \<Longrightarrow> relay_step\<^sup>*\<^sup>* r (update_resolvers resolvers r)"
  "dr_generation r \<noteq> - 1 \<Longrightarrow> relay_step\<^sup>*\<^sup>* r (reset_generation r)"
proof -
  assume g: "dr_generation r \<noteq> - 1"
  let ?s = "r\<lparr>dr_resolvers := resolvers\<rparr>"
  have "relay_step r ?s" by (rule stored)
  moreover have "relay_step ?s (update_resolvers resolvers r)" using counted [of ?s] g by (simp add: update_resolvers_def)
  ultimately show "relay_step\<^sup>*\<^sup>* r (update_resolvers resolvers r)" by (meson converse_rtranclp_into_rtranclp r_into_rtranclp)
  show "relay_step\<^sup>*\<^sup>* r (reset_generation r)" using counted [OF g] by (simp add: reset_generation_def)
qed

lemma relay_steps_generation: "relay_step\<^sup>*\<^sup>* r r' \<Longrightarrow> dr_generation r \<le> dr_generation r'"
proof (induction rule: rtranclp_induct)
  case (step s t)
  have "dr_generation s \<le> dr_generation t"
    using step(2) unatSuc [of "dr_generation s"]
    by (auto simp: relay_step_iff word_le_nat_alt add.commute eq_neg_iff_add_eq_0)
  with step(3) show ?case by simp
qed simp

lemma views_ordered:
  assumes "\<forall>i. relay_step\<^sup>*\<^sup>* (view i) (view (Suc i))" "i \<le> j"
  shows "dr_generation (view i) \<le> dr_generation (view j)"
  using lift_Suc_mono_le [where f = "\<lambda>i. dr_generation (view i)" and n = i and n' = j] relay_steps_generation assms by blast

text \<open>The relayed form of a query, and whether a resolver answers it.\<close>

definition answers_query ::
  "dns_lib \<Rightarrow> resolver_io \<Rightarrow> dns_message \<Rightarrow> u16 \<Rightarrow> physical_resolver \<Rightarrow> dns_message option" where
  "answers_query L net request relay_id r =
     (let relayed = request\<lparr>msg_id := relay_id\<rparr> in
      case msg_to_vec L relayed of
        None \<Rightarrow> None
      | Some bytes \<Rightarrow>
          (case relay_exchange L net r bytes of
             Inl _ \<Rightarrow> None
           | Inr response \<Rightarrow> if is_ok (validate_response relayed response) then Some response else None))"

lemma relay_loop_sound:
  assumes "relay_loop L net gens ids generation request k rs last_error = Inr answer"
  shows "\<exists>j response. j < length rs \<and> answers_query L net request (ids (k + j)) (rs ! j) = Some response \<and>
    msg_to_vec L (response\<lparr>msg_id := msg_id request\<rparr>) = Some answer \<and>
    length answer \<le> MAX_UDP_DNS_MESSAGE \<and>
    (\<forall>i < j. answers_query L net request (ids (k + i)) (rs ! i) = None) \<and>
    (\<forall>i \<le> Suc j. gens (k + i) = generation)"
  using assms
proof (induction rs arbitrary: k last_error)
  case (Cons r rs)
  let ?relayed = "request\<lparr>msg_id := ids k\<rparr>"
  have g: "gens k = generation" using Cons.prems by (auto split: if_splits)
  obtain bs where bs: "msg_to_vec L ?relayed = Some bs"
    using Cons.prems g by (cases "msg_to_vec L ?relayed") auto
  show ?case
  proof (cases "answers_query L net request (ids k) r")
    case None
    then obtain e where "relay_loop L net gens ids generation request (k + 1) rs (Some e) = Inr answer"
      using Cons.prems g bs by (auto simp: answers_query_def Let_def split: sum.splits if_splits)
    from Cons.IH [OF this] obtain j response where j: "j < length rs"
      "answers_query L net request (ids (Suc k + j)) (rs ! j) = Some response"
      "msg_to_vec L (response\<lparr>msg_id := msg_id request\<rparr>) = Some answer" "length answer \<le> MAX_UDP_DNS_MESSAGE"
      "\<forall>i < j. answers_query L net request (ids (Suc k + i)) (rs ! i) = None"
      "\<forall>i \<le> Suc j. gens (Suc k + i) = generation" by auto
    have "\<forall>i < Suc j. answers_query L net request (ids (k + i)) ((r # rs) ! i) = None"
      "\<forall>i \<le> Suc (Suc j). gens (k + i) = generation"
      using j(5,6) None g by (auto simp: All_less_Suc2 less_Suc_eq_le [symmetric])
    with j(1-4) show ?thesis by (intro exI [of _ "Suc j"] exI [of _ response]) auto
  next
    case (Some response)
    then have "relay_exchange L net r bs = Inr response" "validate_response ?relayed response = Inr ()"
      using bs by (auto simp: answers_query_def Let_def is_ok_def split: sum.splits if_splits)
    then have "gens (Suc k) = generation" "msg_to_vec L (response\<lparr>msg_id := msg_id request\<rparr>) = Some answer"
      "length answer \<le> MAX_UDP_DNS_MESSAGE"
      using Cons.prems g bs by (auto split: if_splits option.splits)
    with g Some show ?thesis
      by (intro exI [of _ 0] exI [of _ response]) (auto simp: le_Suc_eq)
  qed
qed simp

section \<open>Properties\<close>

text \<open>C29 (relay concurrency). However the threads interleave, and however often an exchange of the counter
  fails, the counter is the number of threads that hold a permit and never exceeds the limit.\<close>

theorem permits_never_exceed:
  assumes "reachable_from (\<lambda>s. \<exists>n. s = permits_start n) (permit_step limit) s"
  shows "pm_count s = holders (pm_threads s) \<and> holders (pm_threads s) \<le> limit"
  using permit_sys.inv_reachable [OF assms] by (auto simp: permits_ok_def)

theorem permits_never_exceed_witness:
  "\<exists>s. reachable_from (\<lambda>s. \<exists>n. s = permits_start n) (permit_step 1) s \<and>
     pm_threads s = [PtHolding, PtIdle] \<and> holders (pm_threads s) \<le> 1"
proof -
  let ?s0 = "permits_start 2"
  let ?s1 = "?s0\<lparr>pm_threads := [PtSeen 0, PtIdle]\<rparr>"
  let ?s2 = "?s1\<lparr>pm_count := 1, pm_threads := [PtHolding, PtIdle]\<rparr>"
  have "permit_step 1 ?s0 ?s1" using permit_step.load [of 0 ?s0 1]
    by (simp add: permits_start_def numeral_2_eq_2)
  moreover have "permit_step 1 ?s1 ?s2" using permit_step.exchanged [of 0 ?s1 0 1]
    by (simp add: permits_start_def)
  ultimately have "reachable_from (\<lambda>s. \<exists>n. s = permits_start n) (permit_step 1) ?s2"
    by (intro reachable_from.intros(2) [OF reachable_from.intros(2) [OF reachable_from.intros(1)]]) blast+
  from permits_never_exceed [OF this] this show ?thesis by (intro exI [of _ ?s2]) simp
qed

text \<open>C30 (relayed answers). While other threads store new resolvers and count up the generation as they like, an answer the
  relay returns comes from the first of the resolvers that answered the query with the same question, operation and
  transaction ID, of the list the relay had at a moment when its generation was the one asked for; it carries the ID of the
  original query, and fits a UDP packet; and the generation was the one asked for at every moment until the answer was
  accepted.\<close>

theorem relay_query_sound:
  assumes "\<forall>i. relay_step\<^sup>*\<^sup>* (view i) (view (Suc i))"
    and "relay_query L net config active view ids request generation = Inr answer"
  shows "\<exists>message j response. msg_from_vec L request = Some message \<and> j < length (dr_resolvers (view 1)) \<and>
    dr_generation (view 1) = generation \<and>
    answers_query L net message (ids (Suc j)) (dr_resolvers (view 1) ! j) = Some response \<and>
    msg_queries response = msg_queries message \<and> \<not> msg_is_query response \<and>
    (\<forall>i < j. answers_query L net message (ids (Suc i)) (dr_resolvers (view 1) ! i) = None) \<and>
    msg_to_vec L (response\<lparr>msg_id := msg_id message\<rparr>) = Some answer \<and>
    (\<forall>i \<le> j + 3. dr_generation (view i) = generation) \<and> length answer \<le> 65507 \<and> (\<forall>r. response_packet r answer \<noteq> None)"
proof -
  obtain message where m: "msg_from_vec L request = Some message" and g0: "dr_generation (view 0) = generation"
    and run: "relay_loop L net (\<lambda>k. dr_generation (view (k + 1))) ids generation message 1 (dr_resolvers (view 1)) None = Inr answer"
    using assms(2) by (auto simp: relay_query_def split: if_splits option.splits)
  let ?rs = "dr_resolvers (view 1)"
  from relay_loop_sound [OF run] obtain j response where j: "j < length ?rs"
    "answers_query L net message (ids (Suc j)) (?rs ! j) = Some response"
    "msg_to_vec L (response\<lparr>msg_id := msg_id message\<rparr>) = Some answer" "length answer \<le> 65507"
    "\<forall>i < j. answers_query L net message (ids (Suc i)) (?rs ! i) = None"
    "\<forall>i \<le> Suc j. dr_generation (view (1 + i + 1)) = generation" by auto
  have "msg_queries response = msg_queries message \<and> \<not> msg_is_query response"
    using j(2) by (auto simp: answers_query_def validate_response_def Let_def split: option.splits sum.splits if_splits)
  moreover have last: "dr_generation (view (j + 3)) = generation" using j(6) by (auto simp: eval_nat_numeral)
  have gens: "dr_generation (view i) = generation" if "i \<le> j + 3" for i
    using views_ordered [OF assms(1), of 0 i] views_ordered [OF assms(1) that] g0 last by simp
  moreover have "response_packet r answer \<noteq> None" for r
    using j(4) by (simp add: response_packet_def build_udp_response_eq)
  ultimately show ?thesis using m j(1-5) gens [of 1] by (intro exI [of _ message] exI [of _ j] exI [of _ response]) simp
qed

definition relay_demo_message :: "bool \<Rightarrow> dns_message" where
  "relay_demo_message is_query =
     \<lparr>msg_id = (if is_query then 9 else 5), msg_op_code = 0, msg_is_query = is_query,
      msg_recursion_desired = True, msg_recursion_available = False, msg_response_code = NoError,
      msg_queries = [([0x61], 1, 1)], msg_truncation = False, msg_max_payload = 512, msg_answers = []\<rparr>"

definition relay_demo_lib :: dns_lib where
  "relay_demo_lib =
     \<lparr>msg_from_vec = (\<lambda>b. if b = [1] then Some (relay_demo_message True)
                         else if b = [2] then Some (relay_demo_message False) else None),
      msg_to_vec = (\<lambda>m. Some (if msg_is_query m then [1] else [3])),
      msg_response = (\<lambda>i o'. (relay_demo_message False)\<lparr>msg_id := i\<rparr>)\<rparr>"

definition relay_demo_resolver :: physical_resolver where
  "relay_demo_resolver =
     \<lparr>pr_address = \<lparr>sa_ip = V4 0x08080808, sa_port = 53\<rparr>, pr_interface_name = None, pr_interface_index = None\<rparr>"

text \<open>The list of resolvers is replaced after the relay has read it, and the generation counted up after the answer.\<close>

definition relay_demo_view :: "nat \<Rightarrow> dns_relay" where
  "relay_demo_view i = (if i \<le> 1 then relay_new [relay_demo_resolver]
     else if i \<le> 3 then (relay_new [relay_demo_resolver])\<lparr>dr_resolvers := []\<rparr>
     else update_resolvers [] (relay_new [relay_demo_resolver]))"

theorem relay_query_sound_witness:
  "relay_query relay_demo_lib \<lparr>io_udp = (\<lambda>_ _. Inr [2]), io_tcp = (\<lambda>_ _. Inl TimedOut)\<rparr>
     relay_config_default 0 relay_demo_view (\<lambda>_. 5) [1] 1 = Inr [3] \<and>
   dr_generation (relay_demo_view 1) = 1 \<and> (\<forall>q. response_packet q [3] \<noteq> None)"
proof -
  have run: "relay_query relay_demo_lib \<lparr>io_udp = (\<lambda>_ _. Inr [2]), io_tcp = (\<lambda>_ _. Inl TimedOut)\<rparr>
     relay_config_default 0 relay_demo_view (\<lambda>_. 5) [1] 1 = Inr [3]"
    by (simp add: relay_query_def relay_config_default_def relay_demo_lib_def relay_demo_message_def relay_demo_view_def relay_new_def
        relay_exchange_def relay_exchange_udp_def validate_response_def)
  have "relay_step\<^sup>*\<^sup>* (relay_demo_view i) (relay_demo_view (Suc i))" for i
  proof -
    consider "relay_demo_view (Suc i) = relay_demo_view i" | "i = 1" | "i = 3" by (force simp: relay_demo_view_def)
    then show ?thesis
    proof cases
      case 2
      then show ?thesis using stored [of "relay_new [relay_demo_resolver]" "[]"] by (auto simp: relay_demo_view_def)
    next
      case 3
      then show ?thesis using counted [of "(relay_new [relay_demo_resolver])\<lparr>dr_resolvers := []\<rparr>"]
        by (auto simp: relay_demo_view_def relay_new_def update_resolvers_def)
    qed simp
  qed
  then have "\<forall>i. relay_step\<^sup>*\<^sup>* (relay_demo_view i) (relay_demo_view (Suc i))" by blast
  from relay_query_sound [OF this run] run show ?thesis by blast
qed

end
