(* ===== verification/Rust_Text.thy ===== *)
theory Rust_Text
  imports Session_Open
begin

text \<open>
  Text as the standard library of Rust handles it: decimal numbers, splitting at characters and
  at white space, lines. A text is the list of its Unicode scalar values.
\<close>

section \<open>Decimal numbers\<close>

text \<open>\<open>to_string\<close> and \<open>parse\<close> of the unsigned integer types; the parser takes the number of values
  of the type and, as in Rust, accepts one leading plus sign and leading zeros.\<close>

fun dec :: "nat \<Rightarrow> ustr" where
  "dec n = (if n < 10 then [0x30 + n] else dec (n div 10) @ [0x30 + n mod 10])"

declare dec.simps [simp del]

definition is_digit :: "nat \<Rightarrow> bool" where
  "is_digit c \<longleftrightarrow> 0x30 \<le> c \<and> c \<le> 0x39"

definition is_ascii_alphanumeric :: "nat \<Rightarrow> bool" where
  "is_ascii_alphanumeric c \<longleftrightarrow>
     0x30 \<le> c \<and> c \<le> 0x39 \<or> 0x41 \<le> c \<and> c \<le> 0x5a \<or> 0x61 \<le> c \<and> c \<le> 0x7a"

definition dec_value :: "ustr \<Rightarrow> nat" where
  "dec_value s = foldl (\<lambda>acc c. acc * 10 + (c - 0x30)) 0 s"

definition parse_uint :: "nat \<Rightarrow> ustr \<Rightarrow> nat option" where
  "parse_uint bound s =
     (let digits = (case s of c # cs \<Rightarrow> if c = 0x2b then cs else s | [] \<Rightarrow> []) in
      if digits = [] \<or> \<not> list_all is_digit digits \<or> bound \<le> dec_value digits then None
      else Some (dec_value digits))"

lemma dec_digits: "list_all is_digit (dec n)"
  by (induction n rule: dec.induct) (subst dec.simps, auto simp: is_digit_def [abs_def])

lemma dec_nonempty [simp]: "dec n \<noteq> []"
  by (subst dec.simps) simp

lemma dec_value_dec [simp]: "dec_value (dec n) = n"
proof (induction n rule: dec.induct)
  case (1 n)
  show ?case
  proof (cases "n < 10")
    case True
    then show ?thesis by (subst dec.simps) (simp add: dec_value_def)
  next
    case False
    then have "dec_value (dec (n div 10)) = n div 10" using 1 by simp
    with False show ?thesis by (subst dec.simps) (simp add: dec_value_def)
  qed
qed

lemma dec_char: "c \<in> set (dec n) \<Longrightarrow> is_digit c"
  using dec_digits [of n] by (simp add: list_all_iff)

lemma parse_uint_dec [simp]: "n < bound \<Longrightarrow> parse_uint bound (dec n) = Some n"
proof -
  assume n: "n < bound"
  obtain c cs where d: "dec n = c # cs" using dec_nonempty [of n] by (cases "dec n") auto
  then have "c \<noteq> 0x2b" using dec_char [of c n] by (auto simp: is_digit_def)
  then show ?thesis
    using n dec_digits [of n] dec_value_dec [of n] by (simp add: parse_uint_def d)
qed

lemma parse_uint_bound: "parse_uint bound s = Some n \<Longrightarrow> n < bound"
  by (auto simp: parse_uint_def Let_def split: if_splits)

section \<open>Splitting\<close>

definition split_once :: "nat \<Rightarrow> ustr \<Rightarrow> (ustr \<times> ustr) option" where
  "split_once c s =
     (if c \<in> set s then Some (takeWhile (\<lambda>x. x \<noteq> c) s, tl (dropWhile (\<lambda>x. x \<noteq> c) s)) else None)"

lemma split_once_append: "c \<notin> set a \<Longrightarrow> split_once c (a @ c # b) = Some (a, b)"
  by (induction a) (auto simp: split_once_def)

lemma split_once_Some_iff:
  "split_once c s = Some (a, b) \<longleftrightarrow> s = a @ c # b \<and> c \<notin> set a"
proof
  assume s: "split_once c s = Some (a, b)"
  then have "c \<in> set s" by (simp add: split_once_def split: if_splits)
  then obtain u v where "s = u @ c # v" "c \<notin> set u" by (meson split_list_first)
  with s show "s = a @ c # b \<and> c \<notin> set a" by (simp add: split_once_append)
qed (simp add: split_once_append)

fun split_char :: "nat \<Rightarrow> ustr \<Rightarrow> ustr list" where
  "split_char d [] = [[]]"
| "split_char d (c # cs) =
     (if c = d then [] # split_char d cs
      else case split_char d cs of p # ps \<Rightarrow> (c # p) # ps | [] \<Rightarrow> [[c]])"

definition split_whitespace :: "ustr \<Rightarrow> ustr list" where
  "split_whitespace s =
     filter (\<lambda>w. w \<noteq> []) (split_char 0x20 (map (\<lambda>c. if is_whitespace c then 0x20 else c) s))"

definition str_lines :: "ustr \<Rightarrow> ustr list" where
  "str_lines s =
     (let parts = split_char 0x0a s in
      map (\<lambda>l. if l \<noteq> [] \<and> last l = 0x0d then butlast l else l) (butlast parts) @
      (if last parts = [] then [] else [last parts]))"

end
