(* ===== verification/Routes.thy ===== *)
theory Routes
  imports Rust_Text
begin

text \<open>
  Routes of the tunnel interface (\<open>src/tun.rs\<close>): interface settings, CIDR prefixes, their
  subtraction, and the resolution of a routing policy to the prefixes that are installed.

  A prefix length is a \<open>nat\<close> (an \<open>u8\<close> in the source); every route the code builds satisfies
  \<open>route_ok\<close>, so the subtractions of the source never underflow. The texts of addresses are the
  business of \<open>std::net\<close>; the parser and printer are fields of the parameter \<open>addr_text\<close>, and
  \<open>addr_text_ok\<close> states what is relied on: a printed address has no slash and parses back, and an
  IPv4 address prints as its dotted quad. Name resolution is a parameter too.
\<close>

section \<open>Address texts\<close>

record addr_text =
  at_parse :: "ustr \<Rightarrow> ip_addr option"
  at_show :: "ip_addr \<Rightarrow> ustr"

abbreviation (input) SLASH :: nat where "SLASH \<equiv> 0x2f"

definition ipv4_display :: "u32 \<Rightarrow> ustr" where
  "ipv4_display a =
     (case map (dec \<circ> unat) (ipv4_octets a) of
        [p, q, r, s] \<Rightarrow> p @ 0x2e # q @ 0x2e # r @ 0x2e # s
      | _ \<Rightarrow> [])"

definition addr_text_ok :: "addr_text \<Rightarrow> bool" where
  "addr_text_ok T \<longleftrightarrow>
     (\<forall>a. at_parse T (at_show T a) = Some a \<and> SLASH \<notin> set (at_show T a)) \<and>
     (\<forall>a. at_show T (V4 a) = ipv4_display a)"

section \<open>Interface settings\<close>

record interface_settings =
  is_name :: "ustr option"
  is_address :: ip_addr
  is_netmask :: ip_addr
  is_gateway :: "ip_addr option"
  is_mtu :: u16

definition usable_gateway_address :: "ip_addr \<Rightarrow> bool" where
  "usable_gateway_address gateway \<longleftrightarrow>
     \<not> is_unspecified gateway \<and> \<not> is_loopback gateway \<and> \<not> is_multicast gateway \<and>
     gateway \<noteq> V4 v4_broadcast"

definition usable_gateway :: "ip_addr \<Rightarrow> ip_addr \<Rightarrow> bool" where
  "usable_gateway gateway address \<longleftrightarrow>
     is_ipv4 gateway = is_ipv4 address \<and> gateway \<noteq> address \<and> usable_gateway_address gateway"

datatype target_os = Linux | MacOs | Windows

definition platform_tun_name :: "target_os \<Rightarrow> ustr option \<Rightarrow> ustr option result" where
  "platform_tun_name os requested =
     (if requested = Some [] then Err (InvalidConfig ''TUN interface name must not be empty'')
      else if os = MacOs then
        (case requested of
           None \<Rightarrow> Ok None
         | Some name \<Rightarrow>
             if \<not> starts_with name (ascii_str ''utun'')
             then Err (InvalidConfig ''macOS TUN names must use the form utunN'')
             else
               let suffix = drop 4 name in
               if suffix = [] \<or> \<not> list_all is_digit suffix
               then Err (InvalidConfig ''macOS TUN names must use the form utunN'')
               else Ok (Some name))
      else Ok (Some (case requested of None \<Rightarrow> ascii_str ''openiwan0'' | Some name \<Rightarrow> name)))"

definition interface_settings_of :: "target_os \<Rightarrow> ustr option \<Rightarrow> session_info \<Rightarrow> interface_settings result" where
  "interface_settings_of os requested info =
     rbind (ok_or (MissingTlv ''IP'') (info_address info)) (\<lambda>address.
     rbind (platform_tun_name os requested) (\<lambda>name.
     Ok \<lparr>is_name = name, is_address = address,
         is_netmask = (case address of V4 _ \<Rightarrow> V4 v4_broadcast | V6 _ \<Rightarrow> V6 (- 1)),
         is_gateway = (case info_gateway info of
                         None \<Rightarrow> None
                       | Some gw \<Rightarrow> if usable_gateway gw address then Some gw else None),
         is_mtu = info_mtu info\<rparr>))"

section \<open>Prefixes\<close>

record route =
  network :: ip_addr
  prefix :: nat

definition word_network :: "'a::len word \<Rightarrow> nat \<Rightarrow> 'a word" where
  "word_network a p = a AND (if p = 0 then 0 else push_bit (LENGTH('a) - p) (- 1))"

fun network_address :: "ip_addr \<Rightarrow> nat \<Rightarrow> ip_addr" where
  "network_address (V4 a) p = V4 (word_network a p)"
| "network_address (V6 a) p = V6 (word_network a p)"

definition addr_bits :: "ip_addr \<Rightarrow> nat" where
  "addr_bits a = (if is_ipv4 a then 32 else 128)"

definition parse_allow_default :: "addr_text \<Rightarrow> ustr \<Rightarrow> route result" where
  "parse_allow_default T v =
     rbind (ok_or (InvalidConfig ''route {value:?} must use CIDR notation'') (split_once SLASH v)) (\<lambda>(a, p).
     rbind (ok_or (InvalidConfig ''invalid route address {address:?}'') (at_parse T a)) (\<lambda>address.
     rbind (ok_or (InvalidConfig ''invalid route prefix {prefix:?}'') (parse_uint 256 p)) (\<lambda>len.
     if len > addr_bits address
     then Err (InvalidConfig ''route prefix {prefix} exceeds {maximum}'')
     else Ok \<lparr>network = network_address address len, prefix = len\<rparr>)))"

definition route_parse :: "addr_text \<Rightarrow> ustr \<Rightarrow> route result" where
  "route_parse T v =
     rbind (parse_allow_default T v) (\<lambda>r.
       if prefix r = 0
       then Err (InvalidConfig ''default routes are not supported because the iWAN control endpoint must remain reachable outside the tunnel'')
       else Ok r)"

definition route_contains :: "route \<Rightarrow> ip_addr \<Rightarrow> bool" where
  "route_contains r candidate =
     (case (network r, candidate) of
        (V4 n, V4 c) \<Rightarrow> network_address (V4 c) (prefix r) = V4 n
      | (V6 n, V6 c) \<Rightarrow> network_address (V6 c) (prefix r) = V6 n
      | _ \<Rightarrow> False)"

definition contains_route :: "route \<Rightarrow> route \<Rightarrow> bool" where
  "contains_route r candidate \<longleftrightarrow>
     is_ipv4 (network r) = is_ipv4 (network candidate) \<and> prefix r \<le> prefix candidate \<and>
     route_contains r (network candidate)"

definition word_sibling :: "'a::len word \<Rightarrow> nat \<Rightarrow> 'a word" where
  "word_sibling n child_prefix = n OR push_bit (LENGTH('a) - child_prefix) 1"

fun sibling_address :: "ip_addr \<Rightarrow> nat \<Rightarrow> ip_addr" where
  "sibling_address (V4 n) child_prefix = V4 (word_sibling n child_prefix)"
| "sibling_address (V6 n) child_prefix = V6 (word_sibling n child_prefix)"

definition route_split :: "route \<Rightarrow> (route \<times> route) option" where
  "route_split r =
     (if prefix r = addr_bits (network r) then None
      else
        let child = prefix r + 1 in
        Some (\<lparr>network = network r, prefix = child\<rparr>,
              \<lparr>network = sibling_address (network r) child, prefix = child\<rparr>))"

definition route_to_string :: "addr_text \<Rightarrow> route \<Rightarrow> ustr" where
  "route_to_string T r = at_show T (network r) @ SLASH # dec (prefix r)"

text \<open>\<open>subtract_route\<close> recurses into the halves of a prefix. The recursion is bounded by the number
  of host bits left: a route that is no longer splittable contains no other one properly.\<close>

function subtract_route :: "route \<Rightarrow> route \<Rightarrow> route list" where
  "subtract_route r exclusion =
     (if is_ipv4 (network r) \<noteq> is_ipv4 (network exclusion) then [r]
      else if contains_route exclusion r then []
      else if \<not> contains_route r exclusion then [r]
      else
        case route_split r of
          None \<Rightarrow> []
        | Some (left, right) \<Rightarrow> subtract_route left exclusion @ subtract_route right exclusion)"
  by pat_completeness auto
termination
proof (relation "measure (\<lambda>(r, e). prefix e + 1 - prefix r)")
  fix r exclusion p l r'
  assume a: "\<not> contains_route exclusion r" "\<not> \<not> contains_route r exclusion" "route_split r = Some p" "(l, r') = p"
  then have "prefix r \<le> prefix exclusion" "prefix l = prefix r + 1" "prefix r' = prefix r + 1"
    by (auto simp: contains_route_def route_split_def Let_def split: if_splits)
  then show "((l, exclusion), r, exclusion) \<in> measure (\<lambda>(r, e). prefix e + 1 - prefix r)"
    "((r', exclusion), r, exclusion) \<in> measure (\<lambda>(r, e). prefix e + 1 - prefix r)"
    by auto
qed simp

declare subtract_route.simps [simp del]

section \<open>Routing policy\<close>

definition push_unique :: "'a list \<Rightarrow> 'a \<Rightarrow> 'a list" where
  "push_unique xs x = (if x \<in> set xs then xs else xs @ [x])"

definition host_route :: "ip_addr \<Rightarrow> route" where
  "host_route address = \<lparr>network = address, prefix = addr_bits address\<rparr>"

definition push_route :: "ip_addr option \<Rightarrow> route list \<Rightarrow> route \<Rightarrow> route list result" where
  "push_route excluded_peer routes r =
     (if (case excluded_peer of None \<Rightarrow> False | Some pr \<Rightarrow> route_contains r pr)
      then Err (InvalidConfig ''route {route} contains the active iWAN endpoint; choose a narrower route'')
      else Ok (push_unique routes r))"

definition parse_target :: "addr_text \<Rightarrow> ustr \<Rightarrow> ip_addr result" where
  "parse_target T v = ok_or (InvalidConfig ''invalid route IP {address:?}'') (at_parse T (str_trim v))"

definition resolve_domain :: "(ustr \<Rightarrow> error_kind + ip_addr list) \<Rightarrow> ustr \<Rightarrow> ip_addr list result" where
  "resolve_domain resolver v =
     (let domain = str_trim v in
      if domain = [] then Err (InvalidConfig ''route domain must not be empty'')
      else
        case resolver domain of
          Inl _ \<Rightarrow> Err (InvalidConfig ''failed to resolve route domain {domain:?}: {error}'')
        | Inr [] \<Rightarrow> Err (InvalidConfig ''route domain {domain:?} resolved to no addresses'')
        | Inr addresses \<Rightarrow> Ok addresses)"

definition resolve_route_targets ::
  "addr_text \<Rightarrow> (ustr \<Rightarrow> error_kind + ip_addr list) \<Rightarrow> ustr list \<Rightarrow> ustr list \<Rightarrow> ustr list \<Rightarrow>
     ip_addr option \<Rightarrow> ustr list result" where
  "resolve_route_targets T resolver cidrs addresses domains excluded_peer =
     rbind (rfoldM (\<lambda>rs v. rbind (route_parse T (str_trim v)) (push_route excluded_peer rs)) [] cidrs) (\<lambda>rs.
     rbind (rfoldM (\<lambda>rs v. rbind (parse_target T v) (\<lambda>a. push_route excluded_peer rs (host_route a)))
              rs addresses) (\<lambda>rs.
     rbind (rfoldM (\<lambda>rs v. rbind (resolve_domain resolver v) (\<lambda>as.
              rfoldM (\<lambda>rs a. push_route excluded_peer rs (host_route a)) rs as)) rs domains) (\<lambda>rs.
     Ok (map (route_to_string T) rs))))"

definition collect_route_targets ::
  "addr_text \<Rightarrow> (ustr \<Rightarrow> error_kind + ip_addr list) \<Rightarrow> route list \<Rightarrow> ustr list \<Rightarrow> ustr list \<Rightarrow>
     ustr list \<Rightarrow> route list result" where
  "collect_route_targets T resolver routes cidrs addresses domains =
     rbind (rfoldM (\<lambda>rs v. rmap (push_unique rs) (parse_allow_default T (str_trim v))) routes cidrs) (\<lambda>rs.
     rbind (rfoldM (\<lambda>rs v. rmap (\<lambda>a. push_unique rs (host_route a)) (parse_target T v)) rs addresses) (\<lambda>rs.
     rfoldM (\<lambda>rs v. rmap (\<lambda>as. foldl (\<lambda>rs a. push_unique rs (host_route a)) rs as)
                      (resolve_domain resolver v)) rs domains))"

definition subtract_all :: "route list \<Rightarrow> route list \<Rightarrow> route list" where
  "subtract_all routes exclusions =
     foldl (\<lambda>rs e. concat (map (\<lambda>r. subtract_route r e) rs)) routes exclusions"

definition resolve_route_policy ::
  "addr_text \<Rightarrow> (ustr \<Rightarrow> error_kind + ip_addr list) \<Rightarrow> ustr list \<Rightarrow> ustr list \<Rightarrow> ustr list \<Rightarrow>
     ustr list \<Rightarrow> ip_addr \<Rightarrow> bool \<Rightarrow> ustr list result" where
  "resolve_route_policy T resolver cidrs addresses domains exclusions excluded_peer full_ipv4 =
     rbind (if full_ipv4
            then rbind (parse_allow_default T (ascii_str ''0.0.0.0/1'')) (\<lambda>a.
                 rbind (parse_allow_default T (ascii_str ''128.0.0.0/1'')) (\<lambda>b. Ok [a, b]))
            else Ok []) (\<lambda>start.
     rbind (collect_route_targets T resolver start cidrs addresses domains) (\<lambda>routes.
     rbind (rmapM (\<lambda>v. parse_allow_default T (str_trim v)) exclusions) (\<lambda>excl.
     Ok (map (route_to_string T)
           (foldl push_unique [] (subtract_all routes (excl @ [host_route excluded_peer])))))))"

section \<open>Routes as sets of addresses\<close>

text \<open>A route stands for the addresses it contains; a well-formed one has its host bits clear.\<close>

definition covers :: "route \<Rightarrow> ip_addr set" where
  "covers r = {a. route_contains r a}"

definition route_ok :: "route \<Rightarrow> bool" where
  "route_ok r \<longleftrightarrow> prefix r \<le> addr_bits (network r) \<and> network_address (network r) (prefix r) = network r"

lemma bit_word_network:
  fixes a :: "'a::len word"
  assumes "p \<le> LENGTH('a)"
  shows "bit (word_network a p) i \<longleftrightarrow> bit a i \<and> LENGTH('a) - p \<le> i"
proof (cases "p = 0")
  case True
  then show ?thesis using bit_imp_le_length [of a i] by (auto simp: word_network_def)
next
  case False
  then show ?thesis
    using bit_imp_le_length [of a i]
    by (auto simp: word_network_def bit_and_iff bit_not_iff bit_mask_iff)
qed

lemma word_network_eq_iff:
  fixes a b :: "'a::len word"
  assumes "p \<le> LENGTH('a)"
  shows "word_network a p = word_network b p \<longleftrightarrow> (\<forall>i. LENGTH('a) - p \<le> i \<longrightarrow> bit a i = bit b i)"
  using assms by (auto simp: bit_eq_iff bit_word_network dest: bit_imp_le_length)

lemma word_network_idem [simp]:
  fixes a :: "'a::len word"
  shows "p \<le> LENGTH('a) \<Longrightarrow> word_network (word_network a p) p = word_network a p"
  by (simp add: word_network_eq_iff bit_word_network)

lemma word_network_full [simp]: "word_network (a :: 'a::len word) LENGTH('a) = a"
  by (rule bit_word_eqI) (simp add: bit_word_network)

lemma bit_word_sibling:
  fixes n :: "'a::len word"
  assumes "p < LENGTH('a)"
  shows "bit (word_sibling n (p + 1)) i \<longleftrightarrow> bit n i \<or> i = LENGTH('a) - (p + 1)"
  using assms bit_imp_le_length [of n i]
  by (auto simp: word_sibling_def bit_or_iff bit_exp_iff)

text \<open>Two aligned prefixes are nested or disjoint, and the halves of a prefix partition it.\<close>

lemma word_network_twice:
  fixes x :: "'a::len word"
  shows "p \<le> q \<Longrightarrow> q \<le> LENGTH('a) \<Longrightarrow> word_network (word_network x q) p = word_network x p"
  by (auto simp: word_network_eq_iff bit_word_network)

lemma word_prefix_halves:
  fixes n x :: "'a::len word"
  assumes p: "p < LENGTH('a)" and n: "word_network n p = n"
  shows "word_network x p = n \<longleftrightarrow>
      word_network x (p + 1) = n \<or> word_network x (p + 1) = word_sibling n (p + 1)"
    and "word_network n (p + 1) = n" "word_network (word_sibling n (p + 1)) (p + 1) = word_sibling n (p + 1)"
    and "n \<noteq> word_sibling n (p + 1)"
proof -
  let ?k = "LENGTH('a) - (p + 1)"
  have nb: "bit n i \<Longrightarrow> LENGTH('a) - p \<le> i" for i
    using bit_word_network [of p n i] n p by simp
  then have nb': "bit n i \<Longrightarrow> ?k \<le> i" for i by fastforce
  have nk: "\<not> bit n ?k" using nb [of ?k] p by auto
  show "word_network n (p + 1) = n"
    using p nb' by (intro bit_word_eqI) (auto simp: bit_word_network)
  show "word_network (word_sibling n (p + 1)) (p + 1) = word_sibling n (p + 1)"
    using p nb' by (intro bit_word_eqI) (auto simp: bit_word_network bit_word_sibling [OF p, simplified])
  show "n \<noteq> word_sibling n (p + 1)" using nk bit_word_sibling [OF p, of n ?k] by auto
  have split: "?k \<le> i \<longleftrightarrow> i = ?k \<or> LENGTH('a) - p \<le> i" for i using p by auto
  have a: "word_network x p = n \<longleftrightarrow> (\<forall>i. (bit x i \<and> LENGTH('a) - p \<le> i) = bit n i)"
    using p bit_word_network [of p x] by (metis bit_word_eqI less_imp_le)
  have b: "word_network x (p + 1) = n \<longleftrightarrow> (\<forall>i. (bit x i \<and> ?k \<le> i) = bit n i)"
    using p bit_word_network [of "p + 1" x] by (metis bit_word_eqI Suc_eq_plus1 Suc_leI)
  have c: "word_network x (p + 1) = word_sibling n (p + 1) \<longleftrightarrow>
      (\<forall>i. (bit x i \<and> ?k \<le> i) = (bit n i \<or> i = ?k))"
    using p bit_word_network [of "p + 1" x] bit_word_sibling [OF p, of n]
    by (metis bit_word_eqI Suc_eq_plus1 Suc_leI)
  have k: "\<not> LENGTH('a) - p \<le> ?k" using p by auto
  show "word_network x p = n \<longleftrightarrow>
      word_network x (p + 1) = n \<or> word_network x (p + 1) = word_sibling n (p + 1)"
    unfolding a b c split using nb nk k by (cases "bit x ?k") auto
qed

lemma network_address_family [simp]: "is_ipv4 (network_address a p) = is_ipv4 a"
  by (cases a) simp_all

lemma network_address_idem [simp]:
  "p \<le> addr_bits a \<Longrightarrow> network_address (network_address a p) p = network_address a p"
  by (cases a) (simp_all add: addr_bits_def)

lemma addr_bits_network [simp]: "addr_bits (network_address a p) = addr_bits a"
  by (simp add: addr_bits_def)

lemma in_covers_iff:
  "a \<in> covers r \<longleftrightarrow> is_ipv4 a = is_ipv4 (network r) \<and> network_address a (prefix r) = network r"
  by (cases a; cases "network r") (simp_all add: covers_def route_contains_def)

lemma route_contains_iff: "route_contains r a \<longleftrightarrow> a \<in> covers r"
  by (simp add: covers_def)

lemma network_address_full [simp]: "network_address a (addr_bits a) = a"
  using word_network_full [where 'a = 32] word_network_full [where 'a = 128]
  by (cases a) (simp_all add: addr_bits_def)

lemma host_route_ok [simp]: "route_ok (host_route a)"
  by (simp add: route_ok_def host_route_def)

lemma covers_host_route [simp]: "covers (host_route a) = {a}"
proof -
  have "network_address x (addr_bits a) = x" if "is_ipv4 x = is_ipv4 a" for x
    using that network_address_full [of x] by (simp add: addr_bits_def)
  then show ?thesis by (auto simp: in_covers_iff host_route_def)
qed

lemma network_in_covers: "route_ok r \<Longrightarrow> network r \<in> covers r"
  by (simp add: in_covers_iff route_ok_def)

lemma network_address_twice:
  "p \<le> q \<Longrightarrow> q \<le> addr_bits a \<Longrightarrow> network_address (network_address a q) p = network_address a p"
  by (cases a) (simp_all add: addr_bits_def word_network_twice)

lemma shorter_prefix:
  assumes "a \<in> covers c" "route_ok c" "p \<le> prefix c"
  shows "network_address a p = network_address (network c) p"
proof -
  have a: "network_address a (prefix c) = network c" "is_ipv4 a = is_ipv4 (network c)"
    using assms(1) by (auto simp: in_covers_iff)
  have "addr_bits a = addr_bits (network c)" by (simp only: addr_bits_def a(2))
  moreover have "prefix c \<le> addr_bits (network c)" using assms(2) by (simp only: route_ok_def)
  ultimately have "prefix c \<le> addr_bits a" by simp
  from network_address_twice [OF assms(3) this] show ?thesis unfolding a(1) by (rule sym)
qed

lemma contains_route_iff:
  assumes "route_ok r" "route_ok c" "prefix r \<le> prefix c"
  shows "contains_route r c \<longleftrightarrow> covers c \<subseteq> covers r"
proof
  assume r: "contains_route r c"
  show "covers c \<subseteq> covers r"
  proof
    fix a assume a: "a \<in> covers c"
    then have "network_address a (prefix r) = network_address (network c) (prefix r)"
      using assms by (intro shorter_prefix)
    then show "a \<in> covers r" using a r by (metis in_covers_iff contains_route_def route_contains_iff)
  qed
next
  assume "covers c \<subseteq> covers r"
  then have "network c \<in> covers r" using network_in_covers [OF assms(2)] by blast
  then show "contains_route r c"
    using assms(3) by (simp add: contains_route_def route_contains_iff in_covers_iff)
qed

lemma routes_nested_or_disjoint:
  assumes "route_ok r" "route_ok c" "prefix r \<le> prefix c" "\<not> contains_route r c"
  shows "covers r \<inter> covers c = {}"
proof (rule ccontr)
  assume "covers r \<inter> covers c \<noteq> {}"
  then obtain a where a: "a \<in> covers r" "a \<in> covers c" by blast
  have "network_address a (prefix r) = network_address (network c) (prefix r)"
    using assms a by (intro shorter_prefix)
  then have "contains_route r c"
    using a assms(3) by (metis in_covers_iff contains_route_def route_contains_iff)
  with assms(4) show False by contradiction
qed

lemma disjoint_or_contains:
  assumes "route_ok r" "route_ok e" "\<not> contains_route e r" "\<not> contains_route r e"
  shows "covers r \<inter> covers e = {}"
  using routes_nested_or_disjoint [of r e] routes_nested_or_disjoint [of e r] assms
  by (cases "prefix r \<le> prefix e") auto

lemma family_disjoint: "is_ipv4 (network r) \<noteq> is_ipv4 (network e) \<Longrightarrow> covers r \<inter> covers e = {}"
  by (auto simp: in_covers_iff)

lemma sibling_family [simp]: "is_ipv4 (sibling_address n p) = is_ipv4 n"
  by (cases n) simp_all

lemma address_halves:
  assumes "p < addr_bits n" "network_address n p = n"
  shows "is_ipv4 x = is_ipv4 n \<Longrightarrow> network_address x p = n \<longleftrightarrow>
      network_address x (p + 1) = n \<or> network_address x (p + 1) = sibling_address n (p + 1)"
    and "network_address n (p + 1) = n"
    and "network_address (sibling_address n (p + 1)) (p + 1) = sibling_address n (p + 1)"
    and "n \<noteq> sibling_address n (p + 1)"
proof -
  have "(is_ipv4 x = is_ipv4 n \<longrightarrow> (network_address x p = n \<longleftrightarrow>
      network_address x (p + 1) = n \<or> network_address x (p + 1) = sibling_address n (p + 1))) \<and>
    network_address n (p + 1) = n \<and>
    network_address (sibling_address n (p + 1)) (p + 1) = sibling_address n (p + 1) \<and>
    n \<noteq> sibling_address n (p + 1)"
  proof (cases n)
    case (V4 m)
    then have "p < LENGTH(32)" "word_network m p = m" using assms by (simp_all add: addr_bits_def)
    note h = word_prefix_halves [OF this]
    show ?thesis unfolding V4 using h(1) h(2-4) by (cases x) simp_all
  next
    case (V6 m)
    then have "p < LENGTH(128)" "word_network m p = m" using assms by (simp_all add: addr_bits_def)
    note h = word_prefix_halves [OF this]
    show ?thesis unfolding V6 using h(1) h(2-4) by (cases x) simp_all
  qed
  then show "is_ipv4 x = is_ipv4 n \<Longrightarrow> network_address x p = n \<longleftrightarrow>
      network_address x (p + 1) = n \<or> network_address x (p + 1) = sibling_address n (p + 1)"
    "network_address n (p + 1) = n"
    "network_address (sibling_address n (p + 1)) (p + 1) = sibling_address n (p + 1)"
    "n \<noteq> sibling_address n (p + 1)" by blast+
qed

lemma route_split_covers:
  assumes "route_ok r" "route_split r = Some (l, u)"
  shows "covers r = covers l \<union> covers u" "covers l \<inter> covers u = {}" "route_ok l" "route_ok u"
    "prefix l = prefix r + 1" "prefix u = prefix r + 1"
    "is_ipv4 (network l) = is_ipv4 (network r)" "is_ipv4 (network u) = is_ipv4 (network r)"
proof -
  have p: "prefix r < addr_bits (network r)" "network_address (network r) (prefix r) = network r"
    using assms by (auto simp: route_split_def route_ok_def split: if_splits)
  have lu: "l = \<lparr>network = network r, prefix = prefix r + 1\<rparr>"
    "u = \<lparr>network = sibling_address (network r) (prefix r + 1), prefix = prefix r + 1\<rparr>"
    using assms(2) by (auto simp: route_split_def Let_def split: if_splits)
  note h = address_halves [OF p]
  show "covers r = covers l \<union> covers u" using h(1) by (auto simp: lu in_covers_iff)
  show "covers l \<inter> covers u = {}" using h(4) by (auto simp: lu in_covers_iff)
  show "route_ok l" "route_ok u"
    using h(2,3) p(1) by (simp_all add: lu route_ok_def addr_bits_def)
  show "prefix l = prefix r + 1" "prefix u = prefix r + 1"
    "is_ipv4 (network l) = is_ipv4 (network r)" "is_ipv4 (network u) = is_ipv4 (network r)"
    by (simp_all add: lu)
qed

section \<open>Subtraction\<close>

definition covered :: "route list \<Rightarrow> ip_addr set" where
  "covered rs = (\<Union>r \<in> set rs. covers r)"

text \<open>No address is covered twice.\<close>

definition pairwise_disjoint :: "route list \<Rightarrow> bool" where
  "pairwise_disjoint rs \<longleftrightarrow> sorted_wrt (\<lambda>a b. covers a \<inter> covers b = {}) rs"

lemma covered_simps [simp]:
  "covered [] = {}" "covered (r # rs) = covers r \<union> covered rs" "covered (rs @ ss) = covered rs \<union> covered ss"
  by (auto simp: covered_def)

lemma pairwise_disjoint_append:
  "pairwise_disjoint (rs @ ss) \<longleftrightarrow>
     pairwise_disjoint rs \<and> pairwise_disjoint ss \<and> covered rs \<inter> covered ss = {}"
  by (auto simp: pairwise_disjoint_def sorted_wrt_append covered_def)

lemma unsplittable_equal:
  assumes "route_ok r" "route_ok e" "contains_route r e" "route_split r = None"
  shows "contains_route e r"
proof -
  have "prefix r = addr_bits (network r)" using assms(4) by (simp add: route_split_def split: if_splits)
  moreover have "prefix r \<le> prefix e" "prefix e \<le> addr_bits (network e)"
    "addr_bits (network e) = addr_bits (network r)"
    using assms by (auto simp: contains_route_def route_ok_def addr_bits_def)
  ultimately have p: "prefix e = addr_bits (network r)" "prefix r = addr_bits (network r)" by simp_all
  then have "network e \<in> covers r" using assms(3) by (simp add: contains_route_def route_contains_iff)
  then have "network r = network e"
    using p \<open>addr_bits (network e) = addr_bits (network r)\<close> by (metis in_covers_iff network_address_full)
  then show ?thesis
    using p network_in_covers [OF assms(2)] by (simp add: contains_route_def route_contains_iff)
qed

lemma subtract_route_spec:
  assumes "route_ok r" "route_ok e"
  shows "covered (subtract_route r e) = covers r - covers e \<and>
    pairwise_disjoint (subtract_route r e) \<and> list_all route_ok (subtract_route r e)"
  using assms
proof (induction r e rule: subtract_route.induct)
  case (1 r e)
  consider (family) "is_ipv4 (network r) \<noteq> is_ipv4 (network e)"
    | (inside) "is_ipv4 (network r) = is_ipv4 (network e)" "contains_route e r"
    | (apart) "is_ipv4 (network r) = is_ipv4 (network e)" "\<not> contains_route e r" "\<not> contains_route r e"
    | (cut) l u where "is_ipv4 (network r) = is_ipv4 (network e)" "\<not> contains_route e r" "contains_route r e"
        "route_split r = Some (l, u)"
    using unsplittable_equal [of r e] "1.prems" by (cases "route_split r") auto
  then show ?case
  proof cases
    case family
    then show ?thesis
      using family_disjoint [of r e] "1.prems"
      by (subst (1 2 3) subtract_route.simps) (auto simp: pairwise_disjoint_def)
  next
    case inside
    then have "covers r \<subseteq> covers e"
      using "1.prems" contains_route_iff [of e r] by (auto simp: contains_route_def)
    with inside show ?thesis
      by (subst (1 2 3) subtract_route.simps) (auto simp: pairwise_disjoint_def)
  next
    case apart
    then show ?thesis
      using disjoint_or_contains [of r e] "1.prems"
      by (subst (1 2 3) subtract_route.simps) (auto simp: pairwise_disjoint_def)
  next
    case cut
    have eq: "subtract_route r e = subtract_route l e @ subtract_route u e"
      using cut by (subst subtract_route.simps) simp
    note s = route_split_covers [OF "1.prems"(1) cut(4)]
    have "\<not> is_ipv4 (network r) \<noteq> is_ipv4 (network e)" "\<not> \<not> contains_route r e" using cut by simp_all
    then have l: "covered (subtract_route l e) = covers l - covers e \<and>
          pairwise_disjoint (subtract_route l e) \<and> list_all route_ok (subtract_route l e)"
      and u: "covered (subtract_route u e) = covers u - covers e \<and>
          pairwise_disjoint (subtract_route u e) \<and> list_all route_ok (subtract_route u e)"
      using "1.IH" cut(2,4) s(3,4) "1.prems"(2) by blast+
    show ?thesis
      unfolding eq using l u s(1,2) by (auto simp: pairwise_disjoint_append)
  qed
qed

lemmas subtract_route_facts =
  subtract_route_spec [THEN conjunct1]
  subtract_route_spec [THEN conjunct2, THEN conjunct1]
  subtract_route_spec [THEN conjunct2, THEN conjunct2]

lemma covered_concat: "covered (concat (map f rs)) = (\<Union>r \<in> set rs. covered (f r))"
  by (induction rs) auto

lemma subtract_all_spec:
  "list_all route_ok rs \<Longrightarrow> list_all route_ok es \<Longrightarrow>
   covered (subtract_all rs es) = covered rs - covered es \<and> list_all route_ok (subtract_all rs es)"
proof (induction es arbitrary: rs)
  case (Cons e es)
  let ?rs = "concat (map (\<lambda>r. subtract_route r e) rs)"
  have each: "covered (subtract_route r e) = covers r - covers e"
    "x \<in> set (subtract_route r e) \<Longrightarrow> route_ok x" if "r \<in> set rs" for r x
  proof -
    have "route_ok r" using Cons.prems(1) that by (simp add: list_all_iff)
    moreover have "route_ok e" using Cons.prems(2) by simp
    ultimately show "covered (subtract_route r e) = covers r - covers e"
      "x \<in> set (subtract_route r e) \<Longrightarrow> route_ok x"
      using subtract_route_spec by (blast, metis list_all_iff)
  qed
  have ok: "list_all route_ok ?rs"
    using each(2) by (auto simp: list_all_iff)
  have "covered ?rs = (\<Union>r \<in> set rs. covers r - covers e)"
    unfolding covered_concat by (rule SUP_cong) (simp_all add: each(1))
  then have "covered ?rs = covered rs - covers e" by (simp add: covered_def)
  then show ?case
    using Cons.IH [OF ok] Cons.prems(2) by (auto simp: subtract_all_def)
qed (simp add: subtract_all_def)

text \<open>How many prefixes a subtraction leaves: one per bit between the two lengths.\<close>

lemma subtract_route_length:
  assumes "route_ok r" "route_ok e" "contains_route r e"
  shows "length (subtract_route r e) = prefix e - prefix r"
  using assms
proof (induction r e rule: subtract_route.induct)
  case (1 r e)
  show ?case
  proof (cases "contains_route e r")
    case True
    then have "prefix e = prefix r" using "1.prems"(3) by (simp add: contains_route_def)
    then show ?thesis using True by (subst subtract_route.simps) (simp add: contains_route_def)
  next
    case False
    have fam: "is_ipv4 (network r) = is_ipv4 (network e)" using "1.prems"(3) by (simp add: contains_route_def)
    obtain l u where lu: "route_split r = Some (l, u)"
      using unsplittable_equal [OF "1.prems"] False by (cases "route_split r") auto
    note s = route_split_covers [OF "1.prems"(1) lu]
    have eq: "subtract_route r e = subtract_route l e @ subtract_route u e"
      using False lu "1.prems"(3) fam by (subst subtract_route.simps) simp
    have p: "prefix r < prefix e"
    proof (rule ccontr)
      assume "\<not> prefix r < prefix e"
      then have "prefix e = prefix r" using "1.prems"(3) by (simp add: contains_route_def)
      moreover have "network_address (network e) (prefix e) = network e" using "1.prems"(2) by (simp add: route_ok_def)
      ultimately have "network e = network r"
        using "1.prems"(3) by (simp add: contains_route_def route_contains_iff in_covers_iff)
      with False \<open>prefix e = prefix r\<close> show False
        using network_in_covers [OF "1.prems"(2)] by (simp add: contains_route_def route_contains_iff)
    qed
    have "network e \<in> covers r" using "1.prems"(3) by (simp add: contains_route_def route_contains_iff)
    then have "network e \<in> covers l \<or> network e \<in> covers u" using s(1) by blast
    have one: "length (subtract_route a e) + length (subtract_route b e) = prefix e - prefix r"
      if ab: "network e \<in> covers a" "covers a \<inter> covers b = {}" "route_ok a" "route_ok b"
        "prefix a = prefix r + 1" "prefix b = prefix r + 1" "is_ipv4 (network b) = is_ipv4 (network r)"
        and ih: "contains_route a e \<Longrightarrow> length (subtract_route a e) = prefix e - prefix a" for a b
    proof -
      have "contains_route a e"
        using ab p by (simp add: contains_route_def route_contains_iff in_covers_iff)
      moreover have "network e \<notin> covers b" using ab by blast
      then have nb: "\<not> contains_route b e" by (simp add: contains_route_def route_contains_iff)
      moreover have "\<not> contains_route e b"
      proof
        assume "contains_route e b"
        then have "prefix e = prefix b" "network b \<in> covers e"
          using p ab(6) by (auto simp: contains_route_def route_contains_iff)
        then have "network e = network b" using ab(4) by (simp add: in_covers_iff route_ok_def)
        with \<open>network e \<notin> covers b\<close> network_in_covers [OF ab(4)] show False by simp
      qed
      ultimately have "subtract_route b e = [b]"
        using ab(7) fam by (subst subtract_route.simps) simp
      with ih \<open>contains_route a e\<close> p ab(5) show ?thesis by simp
    qed
    have ih: "contains_route l e \<Longrightarrow> length (subtract_route l e) = prefix e - prefix l"
      "contains_route u e \<Longrightarrow> length (subtract_route u e) = prefix e - prefix u"
      using "1.IH"(1) [of "(l, u)" l u] "1.IH"(2) [of "(l, u)" l u] lu s(3,4) fam False "1.prems"(2,3) by auto
    from \<open>network e \<in> covers l \<or> network e \<in> covers u\<close> show ?thesis
    proof
      assume "network e \<in> covers l"
      then show ?thesis using one [of l u] s ih(1) by (simp add: eq)
    next
      assume "network e \<in> covers u"
      then show ?thesis using one [of u l] s ih(2) by (simp add: eq Int_commute)
    qed
  qed
qed

section \<open>Texts of routes\<close>

lemma parse_allow_default_ok: "parse_allow_default T v = Ok r \<Longrightarrow> route_ok r"
  by (auto simp: parse_allow_default_def route_ok_def result_simps split: if_splits)

lemma addr_bits_le: "addr_bits a \<le> 128"
  by (simp add: addr_bits_def)

lemma parse_route_to_string:
  assumes "addr_text_ok T" "route_ok r"
  shows "parse_allow_default T (route_to_string T r) = Ok r"
proof -
  have "split_once SLASH (route_to_string T r) = Some (at_show T (network r), dec (prefix r))"
    using assms(1) by (simp add: route_to_string_def split_once_append addr_text_ok_def)
  moreover have "prefix r < 256"
    using assms(2) addr_bits_le [of "network r"] by (simp add: route_ok_def)
  ultimately show ?thesis
    using assms by (simp add: parse_allow_default_def addr_text_ok_def route_ok_def)
qed

lemma reparse_routes:
  "addr_text_ok T \<Longrightarrow> list_all route_ok rs \<Longrightarrow>
   rmapM (parse_allow_default T) (map (route_to_string T) rs) = Ok rs"
  by (induction rs) (simp_all add: parse_route_to_string)

section \<open>What a policy asks for\<close>

definition targets :: "addr_text \<Rightarrow> (ustr \<Rightarrow> error_kind + ip_addr list) \<Rightarrow> ustr list \<Rightarrow> ustr list \<Rightarrow> ustr list \<Rightarrow> ip_addr set" where
  "targets T resolver cidrs addresses domains =
     (\<Union>v \<in> set cidrs. case parse_allow_default T (str_trim v) of Inl _ \<Rightarrow> {} | Inr r \<Rightarrow> covers r) \<union>
     (\<Union>v \<in> set addresses. case at_parse T (str_trim v) of None \<Rightarrow> {} | Some a \<Rightarrow> {a}) \<union>
     (\<Union>v \<in> set domains. case resolver (str_trim v) of Inl _ \<Rightarrow> {} | Inr as \<Rightarrow> set as)"

lemma push_unique_simps [simp]:
  "set (push_unique xs x) = insert x (set xs)" "distinct (push_unique xs x) = distinct xs"
  "covered (push_unique rs r) = covered rs \<union> covers r"
  "list_all Q (push_unique xs x) = (list_all Q xs \<and> Q x)"
  by (auto simp: push_unique_def covered_def list_all_iff)

lemma foldl_push_unique:
  "set (foldl push_unique ys xs) = set ys \<union> set xs" "distinct (foldl push_unique ys xs) = distinct ys"
  by (induction xs arbitrary: ys) auto

lemma push_hosts:
  "covered (foldl (\<lambda>rs a. push_unique rs (host_route a)) rs as) = covered rs \<union> set as"
  "list_all route_ok (foldl (\<lambda>rs a. push_unique rs (host_route a)) rs as) = list_all route_ok rs"
  by (induction as arbitrary: rs) auto

lemma resolve_domain_eq_Ok:
  "resolve_domain resolver v = Ok as \<longleftrightarrow> str_trim v \<noteq> [] \<and> resolver (str_trim v) = Inr as \<and> as \<noteq> []"
  by (auto simp: resolve_domain_def Let_def split: sum.splits list.splits)

text \<open>A loop that adds the addresses of each of its items.\<close>

lemma rfoldM_covered:
  assumes "rfoldM f rs xs = Ok rs'" "list_all Q rs"
    and "\<And>rs x rs'. f rs x = Ok rs' \<Longrightarrow> list_all Q rs \<Longrightarrow>
           list_all Q rs' \<and> covered rs' = covered rs \<union> g x"
  shows "list_all Q rs' \<and> covered rs' = covered rs \<union> (\<Union>x \<in> set xs. g x)"
  using assms(1,2)
proof (induction xs arbitrary: rs)
  case (Cons x xs)
  then obtain r where r: "f rs x = Ok r" "rfoldM f r xs = Ok rs'" by (auto simp: rbind_eq_Ok)
  note step = assms(3) [OF r(1) Cons.prems(2)]
  from Cons.IH [OF r(2)] step show ?case by auto
qed simp

lemma collect_route_targets_covered:
  assumes "collect_route_targets T resolver rs cidrs addresses domains = Ok rs'" "list_all route_ok rs"
  shows "list_all route_ok rs' \<and> covered rs' = covered rs \<union> targets T resolver cidrs addresses domains"
proof -
  obtain r1 r2 where
    1: "rfoldM (\<lambda>rs v. rmap (push_unique rs) (parse_allow_default T (str_trim v))) rs cidrs = Ok r1" and
    2: "rfoldM (\<lambda>rs v. rmap (\<lambda>a. push_unique rs (host_route a)) (parse_target T v)) r1 addresses = Ok r2" and
    3: "rfoldM (\<lambda>rs v. rmap (\<lambda>as. foldl (\<lambda>rs a. push_unique rs (host_route a)) rs as)
           (resolve_domain resolver v)) r2 domains = Ok rs'"
    using assms(1) by (auto simp: collect_route_targets_def rbind_eq_Ok)
  have a: "list_all route_ok r1 \<and> covered r1 =
      covered rs \<union> (\<Union>v \<in> set cidrs. case parse_allow_default T (str_trim v) of Inl _ \<Rightarrow> {} | Inr r \<Rightarrow> covers r)"
    by (rule rfoldM_covered [OF 1 assms(2)]) (auto simp: rmap_eq_Ok dest: parse_allow_default_ok)
  have b: "list_all route_ok r2 \<and> covered r2 =
      covered r1 \<union> (\<Union>v \<in> set addresses. case at_parse T (str_trim v) of None \<Rightarrow> {} | Some a \<Rightarrow> {a})"
    by (rule rfoldM_covered [OF 2]) (use a in \<open>auto simp: rmap_eq_Ok parse_target_def ok_or_eq_Ok\<close>)
  have c: "list_all route_ok rs' \<and> covered rs' =
      covered r2 \<union> (\<Union>v \<in> set domains. case resolver (str_trim v) of Inl _ \<Rightarrow> {} | Inr as \<Rightarrow> set as)"
    by (rule rfoldM_covered [OF 3]) (use b in \<open>auto simp: rmap_eq_Ok resolve_domain_eq_Ok push_hosts\<close>)
  from a b c show ?thesis by (auto simp: targets_def)
qed

lemma excluded_covered:
  assumes "rmapM (\<lambda>v. parse_allow_default T (str_trim v)) vs = Ok es"
  shows "list_all route_ok es"
    "covered es = (\<Union>v \<in> set vs. case parse_allow_default T (str_trim v) of Inl _ \<Rightarrow> {} | Inr r \<Rightarrow> covers r)"
  using assms
  by (induction vs arbitrary: es) (auto simp: rbind_eq_Ok dest: parse_allow_default_ok)

lemma default_route_covers: "route_ok r \<Longrightarrow> prefix r = 0 \<Longrightarrow> is_ipv4 a = is_ipv4 (network r) \<Longrightarrow> a \<in> covers r"
  by (cases a; cases "network r") (auto simp: in_covers_iff route_ok_def word_network_def)

lemma full_ipv4_halves:
  assumes "addr_text_ok T"
  obtains a b where "parse_allow_default T (ascii_str ''0.0.0.0/1'') = Ok a"
    "parse_allow_default T (ascii_str ''128.0.0.0/1'') = Ok b"
    "route_ok a" "route_ok b" "covers a \<union> covers b = {x. is_ipv4 x}"
proof -
  let ?a = "\<lparr>network = V4 0, prefix = 1\<rparr>" and ?b = "\<lparr>network = V4 0x80000000, prefix = 1\<rparr>"
  have oct: "ipv4_octets 0 = [0, 0, 0, 0]" "ipv4_octets 0x80000000 = [0x80, 0, 0, 0]"
    by (simp_all add: ipv4_octets_def be_bytes_def le_bytes_numeral)
  have d: "dec 0 = [0x30]" "dec (Suc 0) = [0x31]" "dec 128 = [0x31, 0x32, 0x38]"
    by (simp_all add: dec.simps)
  have shown: "at_show T (V4 0) = ascii_str ''0.0.0.0''" "at_show T (V4 0x80000000) = ascii_str ''128.0.0.0''"
    using assms by (simp_all add: addr_text_ok_def ipv4_display_def oct d ascii_str_def)
  have ok: "route_ok ?a" "route_ok ?b"
    by (simp_all add: route_ok_def addr_bits_def word_network_def mask_eq_exp_minus_1)
  have "ascii_str ''0.0.0.0/1'' = route_to_string T ?a" "ascii_str ''128.0.0.0/1'' = route_to_string T ?b"
    by (simp_all add: route_to_string_def shown d) (simp_all add: ascii_str_def)
  moreover have "covers ?a \<union> covers ?b = {x. is_ipv4 x}"
  proof -
    let ?all = "\<lparr>network = V4 0, prefix = 0\<rparr>"
    have "route_ok ?all" by (simp add: route_ok_def word_network_def)
    moreover have "route_split ?all = Some (?a, ?b)"
      by (simp add: route_split_def addr_bits_def word_sibling_def)
    ultimately have "covers ?all = covers ?a \<union> covers ?b" by (rule route_split_covers(1))
    moreover have "covers ?all = {x. is_ipv4 x}"
      using default_route_covers [OF \<open>route_ok ?all\<close>] by (auto simp: in_covers_iff)
    ultimately show ?thesis by simp
  qed
  ultimately show thesis using that [of ?a ?b] parse_route_to_string [OF assms] ok by metis
qed

text \<open>The routes of a policy as a set of addresses.\<close>

lemma route_policy_covered:
  assumes "addr_text_ok T"
    and "resolve_route_policy T resolver cidrs addresses domains exclusions pr full_ipv4 = Ok out"
  obtains rs where "out = map (route_to_string T) rs" "distinct rs" "list_all route_ok rs"
    and "covered rs = ((if full_ipv4 then {a. is_ipv4 a} else {}) \<union> targets T resolver cidrs addresses domains)
      - targets T resolver exclusions [] [] - {pr}"
proof -
  obtain start routes excl where
    start: "(if full_ipv4
            then rbind (parse_allow_default T (ascii_str ''0.0.0.0/1'')) (\<lambda>a.
                 rbind (parse_allow_default T (ascii_str ''128.0.0.0/1'')) (\<lambda>b. Ok [a, b]))
            else Ok []) = Ok start" and
    routes: "collect_route_targets T resolver start cidrs addresses domains = Ok routes" and
    excl: "rmapM (\<lambda>v. parse_allow_default T (str_trim v)) exclusions = Ok excl" and
    out: "out = map (route_to_string T) (foldl push_unique [] (subtract_all routes (excl @ [host_route pr])))"
    using assms(2) unfolding resolve_route_policy_def rbind_eq_Ok by blast
  define rs where "rs = foldl push_unique [] (subtract_all routes (excl @ [host_route pr]))"
  have s: "list_all route_ok start" "covered start = (if full_ipv4 then {a. is_ipv4 a} else {})"
  proof -
    obtain a b where ab: "parse_allow_default T (ascii_str ''0.0.0.0/1'') = Ok a"
      "parse_allow_default T (ascii_str ''128.0.0.0/1'') = Ok b"
      "route_ok a" "route_ok b" "covers a \<union> covers b = {x. is_ipv4 x}"
      using full_ipv4_halves [OF assms(1)] .
    then have "start = (if full_ipv4 then [a, b] else [])" using start by (simp split: if_splits)
    then show "list_all route_ok start" "covered start = (if full_ipv4 then {a. is_ipv4 a} else {})"
      using ab(3-5) by simp_all
  qed
  note r = collect_route_targets_covered [OF routes s(1)]
  note e = excluded_covered [OF excl]
  have sub: "covered (subtract_all routes (excl @ [host_route pr])) =
      covered routes - covered (excl @ [host_route pr]) \<and>
      list_all route_ok (subtract_all routes (excl @ [host_route pr]))"
    by (rule subtract_all_spec) (use r e(1) in simp_all)
  have rs: "distinct rs" "set rs = set (subtract_all routes (excl @ [host_route pr]))"
    by (simp_all add: rs_def foldl_push_unique)
  then have ok: "list_all route_ok rs" and cov: "covered rs = covered routes - covered excl - {pr}"
    using sub by (auto simp: covered_def list_all_iff)
  moreover have "targets T resolver exclusions [] [] = covered excl" by (simp add: targets_def e(2))
  moreover have "out = map (route_to_string T) rs" using out by (simp add: rs_def)
  ultimately show thesis using that [of rs] rs(1) r s(2) by simp
qed

section \<open>Properties\<close>

text \<open>C12 (routing policy is exact). When a policy resolves, its routes are well formed and distinct, they
  print to texts that parse back to them, and the addresses they cover are exactly the addresses
  asked for (all of IPv4 in full mode) less the exclusions and the tunnel's own peer. So traffic
  to the peer never enters the tunnel, and no route of the peer's family is a default route.\<close>

theorem resolve_route_policy_exact:
  assumes "addr_text_ok T"
    and "resolve_route_policy T resolver cidrs addresses domains exclusions pr full_ipv4 = Ok out"
  shows "\<exists>rs. out = map (route_to_string T) rs \<and> rmapM (parse_allow_default T) out = Ok rs \<and>
    distinct rs \<and> list_all route_ok rs \<and>
    covered rs = ((if full_ipv4 then {a. is_ipv4 a} else {}) \<union> targets T resolver cidrs addresses domains)
      - targets T resolver exclusions [] [] - {pr} \<and>
    (\<forall>r \<in> set rs. is_ipv4 (network r) = is_ipv4 pr \<longrightarrow> prefix r \<noteq> 0)"
proof -
  obtain rs where rs: "out = map (route_to_string T) rs" "distinct rs" "list_all route_ok rs"
    and cov: "covered rs = ((if full_ipv4 then {a. is_ipv4 a} else {}) \<union> targets T resolver cidrs addresses domains)
      - targets T resolver exclusions [] [] - {pr}"
    using route_policy_covered [OF assms] .
  have "prefix q \<noteq> 0" if "q \<in> set rs" "is_ipv4 (network q) = is_ipv4 pr" for q
  proof
    assume "prefix q = 0"
    then have "pr \<in> covers q" using that rs(3) default_route_covers [of q pr] by (simp add: list_all_iff)
    then show False using that(1) cov by (auto simp: covered_def)
  qed
  then show ?thesis using rs cov reparse_routes [OF assms(1) rs(3)] by blast
qed

text \<open>A printer and parser that meet the assumptions: dotted quads, and 128 letters for IPv6.\<close>

definition demo_text :: addr_text where
  "demo_text =
     \<lparr>at_parse = (\<lambda>s.
        case split_char 0x2e s of
          [a, b, c, d] \<Rightarrow>
            (case (parse_uint 256 a, parse_uint 256 b, parse_uint 256 c, parse_uint 256 d) of
               (Some a, Some b, Some c, Some d) \<Rightarrow>
                 Some (V4 (ipv4_new (of_nat a) (of_nat b) (of_nat c) (of_nat d)))
             | _ \<Rightarrow> None)
        | _ \<Rightarrow> Some (V6 (horner_sum of_bool 2 (map (\<lambda>c. c = 0x62) s)))),
      at_show = (\<lambda>a. case a of
          V4 a \<Rightarrow> ipv4_display a
        | V6 a \<Rightarrow> map (\<lambda>i. if bit a i then 0x62 else 0x61) [0..<128])\<rparr>"

lemma split_char_simps:
  "d \<notin> set p \<Longrightarrow> split_char d p = [p]" "d \<notin> set p \<Longrightarrow> split_char d (p @ d # s) = p # split_char d s"
  by (induction p) auto

lemma demo_text_ok: "addr_text_ok demo_text"
proof -
  have no: "0x2e \<notin> set (dec n)" "SLASH \<notin> set (dec n)" for n
    using dec_char [of "0x2e" n] dec_char [of SLASH n] by (auto simp: is_digit_def)
  have v4: "at_parse demo_text (ipv4_display a) = Some (V4 a) \<and> SLASH \<notin> set (ipv4_display a)" for a
  proof -
    obtain p q r s where o: "ipv4_octets a = [p, q, r, s]" "ipv4_new p q r s = a"
      using octets_split .
    show ?thesis
      using no by (simp add: demo_text_def ipv4_display_def o split_char_simps unat_u8_less)
  qed
  have v6: "at_parse demo_text (at_show demo_text (V6 a)) = Some (V6 a)" for a
  proof -
    let ?s = "map (\<lambda>i. if bit a i then 0x62 else 0x61) [0..<128] :: ustr"
    have "split_char 0x2e ?s = [?s]" by (rule split_char_simps(1)) auto
    moreover have "map (\<lambda>c. c = 0x62) ?s = map (bit a) [0..<128]" by auto
    moreover have "horner_sum of_bool 2 (map (bit a) [0..<128]) = a"
      by (simp only: horner_sum_bit_eq_take_bit) (simp add: take_bit_word_eq_self)
    ultimately show ?thesis unfolding demo_text_def by (simp del: map_map upt_rec_numeral)
  qed
  have s4: "at_show demo_text (V4 a) = ipv4_display a" for a by (simp add: demo_text_def)
  have "SLASH \<notin> set (at_show demo_text (V6 a))" for a by (auto simp: demo_text_def)
  then have "at_parse demo_text (at_show demo_text a) = Some a \<and> SLASH \<notin> set (at_show demo_text a)" for a
    using v4 v6 s4 by (cases a) simp_all
  then show ?thesis using s4 by (simp add: addr_text_ok_def)
qed

theorem resolve_route_policy_exact_witness:
  "\<exists>out rs. resolve_route_policy demo_text (\<lambda>_. Inr []) [] [] [] [] (V4 0x0a000001) True = Ok out \<and>
     out = map (route_to_string demo_text) rs \<and> covered rs = {a. is_ipv4 a} - {V4 0x0a000001}"
proof -
  obtain a b where "parse_allow_default demo_text (ascii_str ''0.0.0.0/1'') = Ok a"
    "parse_allow_default demo_text (ascii_str ''128.0.0.0/1'') = Ok b"
    using full_ipv4_halves [OF demo_text_ok] by metis
  then obtain out where
    out: "resolve_route_policy demo_text (\<lambda>_. Inr []) [] [] [] [] (V4 0x0a000001) True = Ok out"
    by (simp add: resolve_route_policy_def collect_route_targets_def)
  from resolve_route_policy_exact [OF demo_text_ok out] out show ?thesis by (auto simp: targets_def)
qed

text \<open>(explicit targets). Routes resolved from explicit targets cover exactly the addresses asked for;
  the resolution fails instead of covering the peer, and every resulting text is one that
  \<open>RouteGuard::configure\<close> accepts.\<close>

theorem resolve_route_targets_exact:
  assumes "addr_text_ok T"
    and "resolve_route_targets T resolver cidrs addresses domains pr = Ok out"
  shows "\<exists>rs. out = map (route_to_string T) rs \<and> rmapM (route_parse T) out = Ok rs \<and>
    covered rs = targets T resolver cidrs addresses domains \<and> (\<forall>p. pr = Some p \<longrightarrow> p \<notin> covered rs)"
proof -
  define Q where "Q r \<longleftrightarrow> route_ok r \<and> prefix r \<noteq> 0 \<and> (\<forall>p. pr = Some p \<longrightarrow> p \<notin> covers r)" for r
  obtain r1 r2 rs where
    1: "rfoldM (\<lambda>rs v. rbind (route_parse T (str_trim v)) (push_route pr rs)) [] cidrs = Ok r1" and
    2: "rfoldM (\<lambda>rs v. rbind (parse_target T v) (\<lambda>a. push_route pr rs (host_route a))) r1 addresses = Ok r2" and
    3: "rfoldM (\<lambda>rs v. rbind (resolve_domain resolver v) (\<lambda>as.
           rfoldM (\<lambda>rs a. push_route pr rs (host_route a)) rs as)) r2 domains = Ok rs" and
    out: "out = map (route_to_string T) rs"
    using assms(2) unfolding resolve_route_targets_def rbind_eq_Ok by blast
  have push: "push_route pr rs r = Ok rs' \<longleftrightarrow>
      (\<forall>p. pr = Some p \<longrightarrow> p \<notin> covers r) \<and> rs' = push_unique rs r" for rs r rs'
    by (auto simp: push_route_def route_contains_iff split: option.splits)
  have host: "prefix (host_route a) \<noteq> 0" for a by (simp add: host_route_def addr_bits_def)
  have a: "list_all Q r1 \<and> covered r1 = covered [] \<union>
      (\<Union>v \<in> set cidrs. case parse_allow_default T (str_trim v) of Inl _ \<Rightarrow> {} | Inr r \<Rightarrow> covers r)"
    by (rule rfoldM_covered [OF 1])
      (auto simp: route_parse_def Q_def push rbind_eq_Ok dest: parse_allow_default_ok split: if_splits)
  have b: "list_all Q r2 \<and> covered r2 =
      covered r1 \<union> (\<Union>v \<in> set addresses. case at_parse T (str_trim v) of None \<Rightarrow> {} | Some a \<Rightarrow> {a})"
    by (rule rfoldM_covered [OF 2])
      (use a host in \<open>auto simp: Q_def push rbind_eq_Ok parse_target_def ok_or_eq_Ok\<close>)
  have inner: "list_all Q rs' \<and> covered rs' = covered rs \<union> (\<Union>a \<in> set as. {a})"
    if "rfoldM (\<lambda>rs a. push_route pr rs (host_route a)) rs as = Ok rs'" "list_all Q rs" for rs as rs'
    by (rule rfoldM_covered [OF that]) (use host in \<open>auto simp: Q_def push\<close>)
  have c: "list_all Q rs \<and> covered rs =
      covered r2 \<union> (\<Union>v \<in> set domains. case resolver (str_trim v) of Inl _ \<Rightarrow> {} | Inr as \<Rightarrow> set as)"
    by (rule rfoldM_covered [OF 3])
      (use b in \<open>auto simp: rbind_eq_Ok resolve_domain_eq_Ok dest!: inner\<close>)
  have "route_parse T (route_to_string T r) = Ok r" if "r \<in> set rs" for r
    using c that parse_route_to_string [OF assms(1), of r] by (simp add: route_parse_def Q_def list_all_iff)
  then have "rmapM (route_parse T) out = Ok rs"
    unfolding out by (induction rs) simp_all
  moreover have "p \<notin> covered rs" if "pr = Some p" for p
    using c that by (auto simp: Q_def list_all_iff covered_def)
  ultimately show ?thesis using out a b c by (auto simp: targets_def)
qed

theorem resolve_route_targets_exact_witness:
  "\<exists>out rs. resolve_route_targets demo_text (\<lambda>_. Inr [V4 0x0a000002]) [] [] [[0x61]] (Some (V4 0x0a000001)) = Ok out \<and>
     out = map (route_to_string demo_text) rs \<and> covered rs = {V4 0x0a000002} \<and> V4 0x0a000001 \<notin> covered rs"
proof -
  have "str_trim [0x61] = [0x61]" by (simp add: str_trim_def is_whitespace_def)
  then obtain out where out: "resolve_route_targets demo_text (\<lambda>_. Inr [V4 0x0a000002]) [] [] [[0x61]]
      (Some (V4 0x0a000001)) = Ok out"
    by (simp add: resolve_route_targets_def resolve_domain_def push_route_def route_contains_iff)
  from resolve_route_targets_exact [OF demo_text_ok out] out \<open>str_trim [0x61] = [0x61]\<close>
  show ?thesis by (auto simp: targets_def)
qed

text \<open>(subtraction of a prefix). Cutting one prefix out of another that contains it covers exactly the
  remaining addresses, each once, with as many prefixes as the two lengths differ.\<close>

theorem subtract_route_exact:
  assumes "route_ok r" "route_ok e" "contains_route r e"
  shows "covered (subtract_route r e) = covers r - covers e \<and> pairwise_disjoint (subtract_route r e) \<and>
    list_all route_ok (subtract_route r e) \<and> length (subtract_route r e) = prefix e - prefix r"
  using subtract_route_spec [OF assms(1,2)] subtract_route_length [OF assms] by simp

theorem subtract_route_exact_witness:
  "length (subtract_route \<lparr>network = V4 0, prefix = 0\<rparr> (host_route (V4 0x0a000001))) = 32"
  using subtract_route_exact [of "\<lparr>network = V4 0, prefix = 0\<rparr>" "host_route (V4 0x0a000001)"]
  by (simp add: route_ok_def word_network_def contains_route_def route_contains_def host_route_def addr_bits_def)

end
