(* ===== verification/Route_Tables.thy ===== *)
theory Route_Tables
  imports Routes
begin

text \<open>
  Installing and removing routes (\<open>src/tun.rs\<close>): the commands issued on Linux and macOS with their
  rollback, and the route transaction of Windows over the trait \<open>RouteBackend\<close>.

  The external commands answer through a parameter that may depend on every command issued so
  far; the state of the model is the list of those commands. The routing table behind the
  Windows calls is likewise a parameter, with the documented effect of each call as the laws of
  the locale \<open>route_backend\<close>.
\<close>

section \<open>Commands\<close>

record command =
  cmd_program :: string
  cmd_args :: "ustr list"
  cmd_stdin :: ustr

record command_output =
  out_success :: bool
  out_stdout :: bytes

type_synonym answers = "command list \<Rightarrow> command \<Rightarrow> error_kind + command_output"

abbreviation (input) ip_args :: "string list \<Rightarrow> ustr list" where
  "ip_args \<equiv> map ascii_str"

text \<open>A command whose outcome matters, and one whose outcome is ignored (\<open>let _ = ...\<close>).\<close>

definition run_command :: "answers \<Rightarrow> command \<Rightarrow> command list \<Rightarrow> unit result \<times> command list" where
  "run_command answer c issued =
     (case answer issued c of
        Inl k \<Rightarrow> (Err (Io k), issued @ [c])
      | Inr out \<Rightarrow>
          if \<not> out_success out then (Err (CommandFailed (cmd_program c) ''{stderr}''), issued @ [c])
          else (Ok (), issued @ [c]))"

section \<open>Linux\<close>

definition parse_linux_route_snapshot :: "bytes \<Rightarrow> ustr list list" where
  "parse_linux_route_snapshot output =
     filter (\<lambda>arguments. arguments \<noteq> []) (map split_whitespace (str_lines (from_utf8_lossy output)))"

definition show_command :: "ustr \<Rightarrow> command" where
  "show_command r = \<lparr>cmd_program = ''ip'', cmd_args = ip_args [''-o'', ''route'', ''show'', ''exact''] @ [r], cmd_stdin = []\<rparr>"

definition replace_command :: "ustr \<Rightarrow> ustr \<Rightarrow> command" where
  "replace_command dev r =
     \<lparr>cmd_program = ''ip'', cmd_args = ip_args [''route'', ''replace''] @ [r, ascii_str ''dev'', dev], cmd_stdin = []\<rparr>"

definition del_command :: "ustr \<Rightarrow> ustr \<Rightarrow> command" where
  "del_command dev r =
     \<lparr>cmd_program = ''ip'', cmd_args = ip_args [''route'', ''del''] @ [r, ascii_str ''dev'', dev], cmd_stdin = []\<rparr>"

definition restore_command :: "ustr list \<Rightarrow> command" where
  "restore_command previous =
     \<lparr>cmd_program = ''ip'', cmd_args = ip_args [''route'', ''replace''] @ previous, cmd_stdin = []\<rparr>"

definition link_down_command :: "ustr \<Rightarrow> command" where
  "link_down_command dev =
     \<lparr>cmd_program = ''ip'', cmd_args = ip_args [''link'', ''set'', ''dev''] @ [dev, ascii_str ''down''], cmd_stdin = []\<rparr>"

definition snapshot_linux_route :: "answers \<Rightarrow> ustr \<Rightarrow> command list \<Rightarrow> ustr list list result \<times> command list" where
  "snapshot_linux_route answer r issued =
     (let c = show_command r in
      case answer issued c of
        Inl k \<Rightarrow> (Err (Io k), issued @ [c])
      | Inr out \<Rightarrow>
          if \<not> out_success out then (Err (CommandFailed ''ip'' ''{stderr}''), issued @ [c])
          else (Ok (parse_linux_route_snapshot (out_stdout out)), issued @ [c]))"

record linux_route_change =
  lrc_route :: ustr
  lrc_previous :: "ustr list list"

definition undo_commands :: "ustr \<Rightarrow> linux_route_change \<Rightarrow> command list" where
  "undo_commands dev change = del_command dev (lrc_route change) # map restore_command (lrc_previous change)"

text \<open>\<open>changes.pop()\<close> takes the last change first.\<close>

definition linux_rollback :: "ustr \<Rightarrow> linux_route_change list \<Rightarrow> command list \<Rightarrow> command list" where
  "linux_rollback dev changes issued = issued @ concat (map (undo_commands dev) (rev changes))"

fun linux_configure ::
  "answers \<Rightarrow> ustr \<Rightarrow> linux_route_change list \<Rightarrow> ustr list \<Rightarrow> command list \<Rightarrow>
     linux_route_change list result \<times> command list" where
  "linux_configure answer dev changes [] issued = (Ok changes, issued)"
| "linux_configure answer dev changes (r # rs) issued =
     (case snapshot_linux_route answer r issued of
        (Inl e, issued') \<Rightarrow> (Err e, linux_rollback dev changes issued')
      | (Inr previous, issued') \<Rightarrow>
          (case run_command answer (replace_command dev r) issued' of
             (Inl e, issued'') \<Rightarrow> (Err e, linux_rollback dev changes issued'')
           | (Inr _, issued'') \<Rightarrow>
               linux_configure answer dev (changes @ [\<lparr>lrc_route = r, lrc_previous = previous\<rparr>]) rs issued''))"

definition linux_cleanup :: "ustr \<Rightarrow> linux_route_change list \<Rightarrow> command list \<Rightarrow> command list" where
  "linux_cleanup dev changes issued = linux_rollback dev changes issued @ [link_down_command dev]"

section \<open>macOS\<close>

definition macos_family :: "ustr \<Rightarrow> ustr" where
  "macos_family r = (if 0x3a \<in> set r then ascii_str ''-inet6'' else ascii_str ''-net'')"

definition macos_command :: "string \<Rightarrow> ustr \<Rightarrow> ustr \<Rightarrow> command" where
  "macos_command verb dev r =
     \<lparr>cmd_program = ''route'',
      cmd_args = ip_args [''-n'', verb] @ [macos_family r, r, ascii_str ''-interface'', dev], cmd_stdin = []\<rparr>"

definition cleanup_macos_routes :: "ustr \<Rightarrow> ustr list \<Rightarrow> command list \<Rightarrow> command list" where
  "cleanup_macos_routes dev routes issued = issued @ map (macos_command ''delete'' dev) (rev routes)"

fun macos_configure :: "answers \<Rightarrow> ustr \<Rightarrow> ustr list \<Rightarrow> ustr list \<Rightarrow> command list \<Rightarrow> unit result \<times> command list" where
  "macos_configure answer dev installed [] issued = (Ok (), issued)"
| "macos_configure answer dev installed (r # rs) issued =
     (case run_command answer (macos_command ''add'' dev r) issued of
        (Inl e, issued') \<Rightarrow> (Err e, cleanup_macos_routes dev installed issued')
      | (Inr _, issued') \<Rightarrow> macos_configure answer dev (installed @ [r]) rs issued')"

definition macos_cleanup :: "ustr \<Rightarrow> ustr list \<Rightarrow> command list \<Rightarrow> command list" where
  "macos_cleanup dev routes issued =
     cleanup_macos_routes dev routes issued @
     [\<lparr>cmd_program = ''ifconfig'', cmd_args = [dev, ascii_str ''down''], cmd_stdin = []\<rparr>]"

section \<open>The route guard\<close>

text \<open>\<open>RouteGuard::configure\<close> on Linux: all texts are parsed before anything is installed. The guard
  remembers the changes and undoes them when it is dropped.\<close>

definition guard_configure ::
  "addr_text \<Rightarrow> answers \<Rightarrow> ustr \<Rightarrow> ustr list \<Rightarrow> command list \<Rightarrow> linux_route_change list result \<times> command list" where
  "guard_configure T answer dev routes issued =
     (case rmapM (route_parse T) routes of
        Inl e \<Rightarrow> (Err e, issued)
      | Inr rs \<Rightarrow> linux_configure answer dev [] (map (route_to_string T) rs) issued)"

section \<open>Windows\<close>

record route_request =
  req_route :: route
  next_hop :: "ip_addr option"

definition on_link :: "route \<Rightarrow> route_request" where
  "on_link r = \<lparr>req_route = r, next_hop = None\<rparr>"

definition windows_route_requests :: "route list \<Rightarrow> ip_addr option \<Rightarrow> route_request list" where
  "windows_route_requests routes gateway0 =
     (case (case gateway0 of None \<Rightarrow> None
            | Some g \<Rightarrow> if usable_gateway_address g then Some g else None) of
        None \<Rightarrow> map on_link routes
      | Some gateway \<Rightarrow>
          let gateway_route = host_route gateway in
          if \<not> list_ex (\<lambda>r. is_ipv4 (network r) = is_ipv4 gateway) routes then map on_link routes
          else
            on_link gateway_route #
            map (\<lambda>r. \<lparr>req_route = r,
                      next_hop = (if is_ipv4 (network r) = is_ipv4 gateway then Some gateway else None)\<rparr>)
              (filter (\<lambda>r. r \<noteq> gateway_route) routes))"

datatype 'row route_change = Created 'row | Replaced 'row

record ('row, 's) backend =
  be_desired :: "route_request \<Rightarrow> error_kind + 'row"
  be_get :: "'row \<Rightarrow> 's \<Rightarrow> error_kind + 'row option"
  be_equivalent :: "'row \<Rightarrow> 'row \<Rightarrow> bool"
  be_create :: "'row \<Rightarrow> 's \<Rightarrow> (error_kind + unit) \<times> 's"
  be_replace :: "'row \<Rightarrow> 's \<Rightarrow> (error_kind + unit) \<times> 's"
  be_delete :: "'row \<Rightarrow> 's \<Rightarrow> (error_kind + unit) \<times> 's"

definition undo_change :: "('row, 's) backend \<Rightarrow> 'row route_change \<Rightarrow> 's \<Rightarrow> (error_kind + unit) \<times> 's" where
  "undo_change B c s = (case c of Created row \<Rightarrow> be_delete B row s | Replaced previous \<Rightarrow> be_replace B previous s)"

text \<open>The rollback ignores the results of its calls; the model also records whether all succeeded.\<close>

fun undo_all :: "('row, 's) backend \<Rightarrow> 'row route_change list \<Rightarrow> 's \<Rightarrow> bool \<times> 's" where
  "undo_all B [] s = (True, s)"
| "undo_all B (c # cs) s =
     (case undo_change B c s of (r, s') \<Rightarrow> case undo_all B cs s' of (ok, s'') \<Rightarrow> (is_ok r \<and> ok, s''))"

definition rollback_route_transaction :: "('row, 's) backend \<Rightarrow> 'row route_change list \<Rightarrow> 's \<Rightarrow> bool \<times> 's" where
  "rollback_route_transaction B changes s = undo_all B (rev changes) s"

definition apply_request ::
  "('row, 's) backend \<Rightarrow> route_request \<Rightarrow> 'row route_change list \<Rightarrow> 's \<Rightarrow>
     (error_kind + 'row route_change list) \<times> 's" where
  "apply_request B req changes s =
     (case be_desired B req of
        Inl k \<Rightarrow> (Inl k, s)
      | Inr desired \<Rightarrow>
          (case be_get B desired s of
             Inl k \<Rightarrow> (Inl k, s)
           | Inr None \<Rightarrow>
               (case be_create B desired s of
                  (Inl k, s') \<Rightarrow> (Inl k, s')
                | (Inr _, s') \<Rightarrow> (Inr (changes @ [Created desired]), s'))
           | Inr (Some existing) \<Rightarrow>
               if be_equivalent B existing desired then (Inr changes, s)
               else
                 (case be_replace B desired s of
                    (Inl k, s') \<Rightarrow> (Inl k, s')
                  | (Inr _, s') \<Rightarrow> (Inr (changes @ [Replaced existing]), s'))))"

text \<open>The transaction: the changes made, or the error after rolling back, and whether the rollback was
  complete.\<close>

fun apply_route_transaction ::
  "('row, 's) backend \<Rightarrow> 'row route_change list \<Rightarrow> route_request list \<Rightarrow> 's \<Rightarrow>
     (error_kind + 'row route_change list) \<times> bool \<times> 's" where
  "apply_route_transaction B changes [] s = (Inr changes, True, s)"
| "apply_route_transaction B changes (req # reqs) s =
     (case apply_request B req changes s of
        (Inl k, s') \<Rightarrow> (Inl k, rollback_route_transaction B changes s')
      | (Inr changes', s') \<Rightarrow> apply_route_transaction B changes' reqs s')"

text \<open>The rows of the Windows forwarding table, with the fields the client sets.\<close>

record win_row =
  row_luid :: u64
  row_network :: ip_addr
  row_prefix :: nat
  row_next_hop :: ip_addr
  row_site_prefix :: nat
  row_metric :: u32
  row_protocol :: string
  row_valid_lifetime :: u32
  row_preferred_lifetime :: u32
  row_origin :: string

definition windows_desired :: "u64 \<Rightarrow> route_request \<Rightarrow> error_kind + win_row" where
  "windows_desired luid req =
     Inr \<lparr>row_luid = luid, row_network = network (req_route req), row_prefix = prefix (req_route req),
          row_next_hop = (case next_hop req of
                            Some h \<Rightarrow> h
                          | None \<Rightarrow> (case network (req_route req) of V4 _ \<Rightarrow> V4 0 | V6 _ \<Rightarrow> V6 0)),
          row_site_prefix = prefix (req_route req), row_metric = 0,
          row_protocol = ''MIB_IPPROTO_NETMGMT'', row_valid_lifetime = - 1,
          row_preferred_lifetime = - 1, row_origin = ''NlroManual''\<rparr>"

definition windows_equivalent :: "win_row \<Rightarrow> win_row \<Rightarrow> bool" where
  "windows_equivalent existing desired \<longleftrightarrow>
     row_metric existing = row_metric desired \<and> row_protocol existing = row_protocol desired \<and>
     row_valid_lifetime existing = row_valid_lifetime desired \<and>
     row_preferred_lifetime existing = row_preferred_lifetime desired \<and>
     row_origin existing = row_origin desired"

text \<open>\<open>WindowsRouteBackend\<close> over the calls of the IP helper library, which are the parameter \<open>api\<close>.\<close>

record ('s) ip_helper =
  ih_get :: "win_row \<Rightarrow> 's \<Rightarrow> error_kind + win_row"
  ih_create :: "win_row \<Rightarrow> 's \<Rightarrow> (error_kind + unit) \<times> 's"
  ih_set :: "win_row \<Rightarrow> 's \<Rightarrow> (error_kind + unit) \<times> 's"
  ih_delete :: "win_row \<Rightarrow> 's \<Rightarrow> (error_kind + unit) \<times> 's"

definition windows_backend :: "'s ip_helper \<Rightarrow> u64 \<Rightarrow> (win_row, 's) backend" where
  "windows_backend api luid =
     \<lparr>be_desired = windows_desired luid,
      be_get = (\<lambda>desired s. case ih_get api desired s of
                  Inr row \<Rightarrow> Inr (Some row)
                | Inl k \<Rightarrow> if k = NotFound then Inr None else Inl k),
      be_equivalent = windows_equivalent,
      be_create = ih_create api,
      be_replace = ih_set api,
      be_delete = (\<lambda>row s. case ih_delete api row s of
                  (Inr _, s') \<Rightarrow> (Inr (), s')
                | (Inl k, s') \<Rightarrow> if k = NotFound then (Inr (), s') else (Inl k, s'))\<rparr>"

definition windows_configure ::
  "'s ip_helper \<Rightarrow> u64 \<Rightarrow> ip_addr option \<Rightarrow> route list \<Rightarrow> 's \<Rightarrow> win_row route_change list result \<times> bool \<times> 's" where
  "windows_configure api luid gateway routes s =
     (case apply_route_transaction (windows_backend api luid) [] (windows_route_requests routes gateway) s of
        (Inl _, rest) \<Rightarrow> (Err (Tun ''configure Windows routes through Wintun: {error}; run openiwan from an elevated terminal''), rest)
      | (Inr changes, rest) \<Rightarrow> (Ok changes, rest))"

section \<open>The contract of a route backend\<close>

text \<open>Behind the calls is a table with at most one row per key. Besides the rows its clients made, which are its own
  rows, it may hold rows that the system maintains by itself: those appear and disappear as the system likes (Windows
  synthesizes host routes for an on-link prefix), and \<open>table\<close> is the view without them. A call that fails changes nothing
  in this view.\<close>

locale route_backend =
  fixes B :: "('row, 's) backend"
    and table :: "'s \<Rightarrow> 'key \<Rightarrow> 'row option"
    and key :: "'row \<Rightarrow> 'key"
    and own :: "'row \<Rightarrow> bool"
  assumes key_of_row: "table s k = Some row \<Longrightarrow> key row = k"
    and get_misses: "be_get B row s = Inr None \<Longrightarrow> table s (key row) = None"
    and get_finds: "be_get B row s = Inr (Some found) \<Longrightarrow>
      key found = key row \<and> table s (key row) = (if own found then Some found else None)"
    and create_adds: "be_create B row s = (r, s') \<Longrightarrow>
      table s' = (if is_ok r then (table s)(key row := if own row then Some row else None) else table s)"
    and replace_sets: "be_replace B row s = (r, s') \<Longrightarrow>
      table s' = (if is_ok r then (table s)(key row := if own row then Some row else None) else table s)"
    and delete_removes: "be_delete B row s = (r, s') \<Longrightarrow>
      table s' = (if is_ok r then (table s)(key row := None) else table s)"
    and desired_own: "be_desired B req = Inr row \<Longrightarrow> own row"
    and equivalent_own: "be_equivalent B found row \<Longrightarrow> own row \<Longrightarrow> own found"
begin

text \<open>What the table was before a change was made.\<close>

fun before :: "'row route_change \<Rightarrow> ('key \<Rightarrow> 'row option) \<Rightarrow> 'key \<Rightarrow> 'row option" where
  "before (Created row) t = t(key row := None)"
| "before (Replaced previous) t = t(key previous := if own previous then Some previous else None)"

lemma undo_change_restores:
  "undo_change B c s = (r, s') \<Longrightarrow> is_ok r \<Longrightarrow> table s' = before c (table s)"
  by (cases c) (auto simp: undo_change_def dest: delete_removes replace_sets)

lemma undo_all_restores:
  "undo_all B cs s = (True, s') \<Longrightarrow> table s' = fold before cs (table s)"
proof (induction cs arbitrary: s)
  case (Cons c cs)
  then obtain r t where r: "undo_change B c s = (r, t)" "undo_all B cs t = (True, s')" "is_ok r"
    by (auto split: prod.splits)
  then show ?case using Cons.IH [OF r(2)] undo_change_restores [OF r(1)] by simp
qed simp

text \<open>The changes recorded so far lead back to the table at the start of the transaction.\<close>

definition tracks :: "('key \<Rightarrow> 'row option) \<Rightarrow> 'row route_change list \<Rightarrow> 's \<Rightarrow> bool" where
  "tracks t0 changes s \<longleftrightarrow> fold before (rev changes) (table s) = t0"

lemma apply_request_tracks:
  assumes "apply_request B req changes s = (r, s')" "tracks t0 changes s"
  shows "case r of Inl _ \<Rightarrow> tracks t0 changes s' | Inr changes' \<Rightarrow> tracks t0 changes' s'"
proof (cases "be_desired B req")
  case (Inl k)
  then show ?thesis using assms by (auto simp: apply_request_def)
next
  case (Inr d)
  show ?thesis
  proof (cases "be_get B d s")
    case (Inl k)
    then show ?thesis using assms Inr by (auto simp: apply_request_def)
  next
    case get: (Inr found)
    have own: "own d" by (rule desired_own [OF Inr])
    show ?thesis
    proof (cases found)
      case None
      obtain q t where c: "be_create B d s = (q, t)" by fastforce
      have eq: "apply_request B req changes s =
          (case q of Inl k \<Rightarrow> (Inl k, t) | Inr _ \<Rightarrow> (Inr (changes @ [Created d]), t))"
        using Inr get None c by (simp add: apply_request_def)
      show ?thesis
        using assms eq create_adds [OF c] own get_misses [of d s] get None
        by (cases q) (auto simp: tracks_def fun_upd_idem)
    next
      case (Some old)
      have old: "key old = key d" "table s (key d) = (if own old then Some old else None)"
        using get_finds [of d s old] get Some by simp_all
      obtain q t where c: "be_replace B d s = (q, t)" by fastforce
      have eq: "apply_request B req changes s =
          (if be_equivalent B old d then (Inr changes, s)
           else case q of Inl k \<Rightarrow> (Inl k, t) | Inr _ \<Rightarrow> (Inr (changes @ [Replaced old]), t))"
        using Inr get Some c by (simp add: apply_request_def)
      have "before (Replaced old) ((table s)(key d := Some d)) = table s"
        using old by (simp add: fun_eq_iff)
      then show ?thesis
        using assms eq replace_sets [OF c] own old
        by (cases q) (auto simp: tracks_def split: if_splits)
    qed
  qed
qed

lemma transaction_tracks:
  assumes "apply_route_transaction B changes reqs s = (r, ok, s')" "tracks t0 changes s"
  shows "case r of Inl _ \<Rightarrow> ok \<longrightarrow> table s' = t0 | Inr changes' \<Rightarrow> ok \<and> tracks t0 changes' s'"
  using assms
proof (induction reqs arbitrary: changes s)
  case Nil
  then show ?case by auto
next
  case (Cons req reqs)
  obtain q t where q: "apply_request B req changes s = (q, t)" by fastforce
  note step = apply_request_tracks [OF q Cons.prems(2)]
  show ?case
  proof (cases q)
    case (Inl k)
    then have "r = Inl k" "rollback_route_transaction B changes t = (ok, s')" "tracks t0 changes t"
      using Cons.prems(1) q step by auto
    then show ?thesis
      using undo_all_restores [of "rev changes" t s']
      by (auto simp: rollback_route_transaction_def tracks_def)
  next
    case (Inr changes')
    then show ?thesis using Cons.IH [of changes' t] Cons.prems(1) q step by simp
  qed
qed

lemma transaction_all_or_nothing:
  assumes "apply_route_transaction B [] reqs s = (r, ok, s')"
  shows "(\<forall>k. r = Inl k \<longrightarrow> ok \<longrightarrow> table s' = table s) \<and>
    (\<forall>changes s''. r = Inr changes \<longrightarrow> rollback_route_transaction B changes s' = (True, s'') \<longrightarrow>
       table s'' = table s)"
  using transaction_tracks [OF assms, of "table s"] undo_all_restores
  by (auto simp: tracks_def rollback_route_transaction_def)

text \<open>After a successful transaction every requested row is in the table, or an equivalent one. A row counts as requested
  if some request has its key and wants it or an equivalent one.\<close>

definition requested :: "'row \<Rightarrow> bool" where
  "requested row \<longleftrightarrow> (\<exists>req d. be_desired B req = Inr d \<and> key row = key d \<and> (row = d \<or> be_equivalent B row d))"

lemma apply_request_installs:
  assumes "apply_request B req changes s = (Inr changes', s')"
  shows "\<exists>d. be_desired B req = Inr d \<and> (\<exists>row. table s' (key d) = Some row \<and> requested row) \<and>
    (\<forall>k. k \<noteq> key d \<longrightarrow> table s' k = table s k)"
proof -
  obtain d where d: "be_desired B req = Inr d" using assms by (auto simp: apply_request_def split: sum.splits)
  have own: "own d" by (rule desired_own [OF d])
  have r: "requested d" using d by (auto simp: requested_def)
  obtain found where get: "be_get B d s = Inr found" using assms d by (auto simp: apply_request_def split: sum.splits)
  show ?thesis
  proof (cases "\<exists>old. found = Some old \<and> be_equivalent B old d")
    case True
    then obtain old where old: "found = Some old" "be_equivalent B old d" by blast
    then have "s' = s" using assms d get by (simp add: apply_request_def)
    moreover have "table s (key d) = Some old" "key old = key d"
      using get_finds [of d s old] get old equivalent_own [OF old(2) own] by simp_all
    moreover then have "requested old" using d old(2) by (auto simp: requested_def)
    ultimately show ?thesis using d by auto
  next
    case False
    then have "table s' = (table s)(key d \<mapsto> d)"
      using assms d get own
      by (auto simp: apply_request_def split: option.splits sum.splits prod.splits if_splits dest!: create_adds replace_sets)
    with d r show ?thesis by auto
  qed
qed

lemma transaction_installs:
  assumes "apply_route_transaction B changes reqs s = (Inr changes', ok, s')" "req \<in> set reqs"
  shows "\<exists>d row. be_desired B req = Inr d \<and> table s' (key d) = Some row \<and> requested row"
proof -
  have keep: "\<exists>row. table s' k = Some row \<and> requested row"
    if "apply_route_transaction B changes reqs s = (Inr changes', ok, s')" "\<exists>row. table s k = Some row \<and> requested row"
    for changes reqs s k
    using that
  proof (induction reqs arbitrary: changes s)
    case (Cons req reqs)
    then obtain c t where c: "apply_request B req changes s = (Inr c, t)" by (auto split: prod.splits sum.splits)
    from apply_request_installs [OF c] Cons.prems(2) have "\<exists>row. table t k = Some row \<and> requested row" by metis
    then show ?case using Cons.IH [of c t] Cons.prems(1) c by simp
  qed simp
  show ?thesis using assms
  proof (induction reqs arbitrary: changes s)
    case (Cons q reqs)
    then obtain c t where c: "apply_request B q changes s = (Inr c, t)" by (auto split: prod.splits sum.splits)
    then have rest: "apply_route_transaction B c reqs t = (Inr changes', ok, s')" using Cons.prems(1) by simp
    from apply_request_installs [OF c] keep [OF rest] Cons.IH [OF rest] Cons.prems(2) show ?case by (metis set_ConsD)
  qed simp
qed

end

section \<open>The Windows backend\<close>

definition win_key :: "win_row \<Rightarrow> u64 \<times> ip_addr \<times> nat \<times> ip_addr" where
  "win_key row = (row_luid row, row_network row, row_prefix row, row_next_hop row)"

text \<open>The rows that Windows synthesizes by itself have the protocol \<open>Local\<close>.\<close>

definition win_own :: "win_row \<Rightarrow> bool" where
  "win_own row \<longleftrightarrow> row_protocol row \<noteq> ''MIB_IPPROTO_LOCAL''"

text \<open>The documented behaviour of the IP helper calls on a forwarding table keyed by interface,
  prefix and next hop, as far as it concerns rows that were not synthesized: a failing call changes none of them, and
  \<open>NotFound\<close> means there is no such row.\<close>

definition ip_helper_ok :: "'s ip_helper \<Rightarrow> ('s \<Rightarrow> u64 \<times> ip_addr \<times> nat \<times> ip_addr \<Rightarrow> win_row option) \<Rightarrow> bool" where
  "ip_helper_ok api table \<longleftrightarrow>
     (\<forall>s k row. table s k = Some row \<longrightarrow> win_key row = k) \<and>
     (\<forall>s row found. ih_get api row s = Inr found \<longrightarrow>
        win_key found = win_key row \<and> table s (win_key row) = (if win_own found then Some found else None)) \<and>
     (\<forall>s row. ih_get api row s = Inl NotFound \<longrightarrow> table s (win_key row) = None) \<and>
     (\<forall>s row r s'. ih_create api row s = (r, s') \<or> ih_set api row s = (r, s') \<longrightarrow>
        table s' = (if is_ok r then (table s)(win_key row := if win_own row then Some row else None) else table s)) \<and>
     (\<forall>s row r s'. ih_delete api row s = (r, s') \<longrightarrow>
        table s' = (if is_ok r then (table s)(win_key row := None) else table s)) \<and>
     (\<forall>s row s'. ih_delete api row s = (Inl NotFound, s') \<longrightarrow> table s (win_key row) = None)"

lemma windows_desired_own: "windows_desired luid req = Inr row \<Longrightarrow> win_own row"
  by (auto simp: windows_desired_def win_own_def)

lemma windows_backend_lawful:
  assumes "ip_helper_ok api table"
  shows "route_backend (windows_backend api luid) table win_key win_own"
proof
  fix row s r s' found k req
  show "table s k = Some row \<Longrightarrow> win_key row = k" using assms unfolding ip_helper_ok_def by blast
  show "be_get (windows_backend api luid) row s = Inr None \<Longrightarrow> table s (win_key row) = None"
    using assms by (auto simp: windows_backend_def ip_helper_ok_def split: sum.splits if_splits)
  show "win_key found = win_key row \<and> table s (win_key row) = (if win_own found then Some found else None)"
    if "be_get (windows_backend api luid) row s = Inr (Some found)"
  proof -
    have "ih_get api row s = Inr found" using that by (auto simp: windows_backend_def split: sum.splits if_splits)
    then show ?thesis using assms unfolding ip_helper_ok_def by blast
  qed
  show "be_create (windows_backend api luid) row s = (r, s') \<Longrightarrow>
      table s' = (if is_ok r then (table s)(win_key row := if win_own row then Some row else None) else table s)"
    "be_replace (windows_backend api luid) row s = (r, s') \<Longrightarrow>
      table s' = (if is_ok r then (table s)(win_key row := if win_own row then Some row else None) else table s)"
    using assms by (simp_all add: windows_backend_def ip_helper_ok_def)
  show "be_desired (windows_backend api luid) req = Inr row \<Longrightarrow> win_own row"
    by (simp add: windows_backend_def windows_desired_own)
  show "be_equivalent (windows_backend api luid) found row \<Longrightarrow> win_own row \<Longrightarrow> win_own found"
    by (simp add: windows_backend_def windows_equivalent_def win_own_def)
  assume d: "be_delete (windows_backend api luid) row s = (r, s')"
  obtain q t where q: "ih_delete api row s = (q, t)" by fastforce
  have t: "table t = (if is_ok q then (table s)(win_key row := None) else table s)"
    "q = Inl NotFound \<Longrightarrow> table s (win_key row) = None"
    using assms q unfolding ip_helper_ok_def by blast+
  show "table s' = (if is_ok r then (table s)(win_key row := None) else table s)"
    using d q t by (cases q) (auto simp: windows_backend_def fun_upd_idem split: if_splits)
qed

text \<open>A helper library over an in-memory table whose calls fail according to a plan. Creating an on-link prefix
  synthesizes a host row for its highest address, unless there is a row in its place.\<close>

record sim_state =
  sim_table :: "u64 \<times> ip_addr \<times> nat \<times> ip_addr \<Rightarrow> win_row option"
  sim_calls :: nat

definition sim_local :: "win_row \<Rightarrow> win_row" where
  "sim_local row = row
     \<lparr>row_network := (case row_network row of V4 a \<Rightarrow> V4 (or a (mask (32 - row_prefix row)))
                                            | V6 a \<Rightarrow> V6 (or a (mask (128 - row_prefix row)))),
      row_prefix := (case row_network row of V4 _ \<Rightarrow> 32 | V6 _ \<Rightarrow> 128), row_protocol := ''MIB_IPPROTO_LOCAL''\<rparr>"

definition sim_synthesize :: "win_row \<Rightarrow> (u64 \<times> ip_addr \<times> nat \<times> ip_addr \<Rightarrow> win_row option) \<Rightarrow>
    u64 \<times> ip_addr \<times> nat \<times> ip_addr \<Rightarrow> win_row option" where
  "sim_synthesize row t =
     (let host = sim_local row in
      if row_next_hop row \<in> {V4 0, V6 0} \<and> t (win_key host) = None then t(win_key host \<mapsto> host) else t)"

definition sim_update :: "(nat \<Rightarrow> bool) \<Rightarrow> (win_row \<Rightarrow> win_row option) \<Rightarrow> win_row \<Rightarrow> sim_state \<Rightarrow> (error_kind + unit) \<times> sim_state" where
  "sim_update faulty f row s =
     (let s' = s\<lparr>sim_calls := sim_calls s + 1\<rparr> in
      if faulty (sim_calls s) then (Inl OtherKind, s')
      else (Inr (), s'\<lparr>sim_table := (sim_table s)(win_key row := f row)\<rparr>))"

definition sim_create :: "(nat \<Rightarrow> bool) \<Rightarrow> win_row \<Rightarrow> sim_state \<Rightarrow> (error_kind + unit) \<times> sim_state" where
  "sim_create faulty row s =
     (case sim_update faulty Some row s of
        (Inl k, s') \<Rightarrow> (Inl k, s')
      | (Inr u, s') \<Rightarrow> (Inr u, s'\<lparr>sim_table := sim_synthesize row (sim_table s')\<rparr>))"

definition sim_helper :: "(nat \<Rightarrow> bool) \<Rightarrow> sim_state ip_helper" where
  "sim_helper faulty =
     \<lparr>ih_get = (\<lambda>row s. case sim_table s (win_key row) of
                  Some found \<Rightarrow> if win_key found = win_key row then Inr found else Inl OtherKind
                | None \<Rightarrow> Inl NotFound),
      ih_create = sim_create faulty, ih_set = sim_update faulty Some,
      ih_delete = sim_update faulty (\<lambda>_. None)\<rparr>"

text \<open>The view of the table keeps only rows that are filed under their own key and were not synthesized.\<close>

definition row_view :: "(u64 \<times> ip_addr \<times> nat \<times> ip_addr \<Rightarrow> win_row option) \<Rightarrow>
    u64 \<times> ip_addr \<times> nat \<times> ip_addr \<Rightarrow> win_row option" where
  "row_view t k = (case t k of Some row \<Rightarrow> if win_key row = k \<and> win_own row then Some row else None | None \<Rightarrow> None)"

abbreviation sim_view :: "sim_state \<Rightarrow> u64 \<times> ip_addr \<times> nat \<times> ip_addr \<Rightarrow> win_row option" where
  "sim_view s \<equiv> row_view (sim_table s)"

lemma sim_synthesize_view [simp]: "row_view (sim_synthesize row t) = row_view t"
  by (auto simp: fun_eq_iff row_view_def sim_synthesize_def sim_local_def win_own_def Let_def)

lemma sim_update_view:
  "(\<And>row'. f row = Some row' \<Longrightarrow> row' = row) \<Longrightarrow> sim_update faulty f row s = (r, s') \<Longrightarrow>
   sim_view s' = (if is_ok r then (sim_view s)(win_key row := if win_own row then f row else None) else sim_view s)"
  by (cases "f row") (auto simp: sim_update_def row_view_def Let_def fun_eq_iff split: if_splits)

lemma sim_create_view:
  assumes "sim_create faulty row s = (r, s')"
  shows "sim_view s' = (if is_ok r then (sim_view s)(win_key row := if win_own row then Some row else None) else sim_view s)"
proof -
  obtain q t where q: "sim_update faulty Some row s = (q, t)" by fastforce
  from sim_update_view [OF _ q] assms q show ?thesis by (cases q) (auto simp: sim_create_def)
qed

lemma sim_helper_ok: "ip_helper_ok (sim_helper faulty) sim_view"
  unfolding ip_helper_ok_def
proof (intro conjI allI impI)
  fix s :: sim_state and row found r s' k
  show "sim_view s k = Some row \<Longrightarrow> win_key row = k"
    by (auto simp: row_view_def split: option.splits if_splits)
  show "ih_get (sim_helper faulty) row s = Inr found \<Longrightarrow> win_key found = win_key row"
    "ih_get (sim_helper faulty) row s = Inr found \<Longrightarrow> sim_view s (win_key row) = (if win_own found then Some found else None)"
    "ih_get (sim_helper faulty) row s = Inl NotFound \<Longrightarrow> sim_view s (win_key row) = None"
    by (auto simp: sim_helper_def row_view_def split: option.splits if_splits)
  show "ih_create (sim_helper faulty) row s = (r, s') \<or> ih_set (sim_helper faulty) row s = (r, s') \<Longrightarrow>
      sim_view s' = (if is_ok r then (sim_view s)(win_key row := if win_own row then Some row else None) else sim_view s)"
    using sim_update_view [of Some row faulty s r s'] sim_create_view [of faulty row s r s'] by (auto simp: sim_helper_def)
  show "ih_delete (sim_helper faulty) row s = (r, s') \<Longrightarrow>
      sim_view s' = (if is_ok r then (sim_view s)(win_key row := None) else sim_view s)"
    using sim_update_view [of "\<lambda>_. None" row faulty s r s'] by (simp add: sim_helper_def)
  show "ih_delete (sim_helper faulty) row s = (Inl NotFound, s') \<Longrightarrow> sim_view s (win_key row) = None"
    by (auto simp: sim_helper_def sim_update_def Let_def split: if_splits)
qed

interpretation sim_routes: route_backend "windows_backend (sim_helper faulty) luid" sim_view win_key win_own
  for faulty luid
  by (rule windows_backend_lawful [OF sim_helper_ok])

section \<open>Requests\<close>

lemma windows_requests_routes:
  "set (map req_route (windows_route_requests routes gateway)) \<supseteq> set routes"
  by (auto simp: windows_route_requests_def on_link_def Let_def image_iff split: option.split)

section \<open>The command sequence on Linux\<close>

definition install_commands :: "ustr \<Rightarrow> linux_route_change \<Rightarrow> command list" where
  "install_commands dev change = [show_command (lrc_route change), replace_command dev (lrc_route change)]"

lemma snapshot_log: "snapshot_linux_route answer r issued = (res, log) \<Longrightarrow> log = issued @ [show_command r]"
  by (auto simp: snapshot_linux_route_def Let_def split: sum.splits if_splits)

lemma run_command_log: "run_command answer c issued = (res, log) \<Longrightarrow> log = issued @ [c]"
  by (auto simp: run_command_def split: sum.splits if_splits)

lemma linux_configure_log:
  assumes "linux_configure answer dev changes rs issued = (res, log)"
  shows "\<exists>cs. map lrc_route cs = take (length cs) rs \<and>
    (case res of
       Inr all \<Rightarrow> all = changes @ cs \<and> length cs = length rs \<and>
         log = issued @ concat (map (install_commands dev) cs)
     | Inl _ \<Rightarrow> length cs < length rs \<and>
         (\<exists>n \<in> {1, 2}. log = issued @ concat (map (install_commands dev) cs) @
            take n [show_command (rs ! length cs), replace_command dev (rs ! length cs)] @
            concat (map (undo_commands dev) (rev (changes @ cs)))))"
  using assms
proof (induction rs arbitrary: changes issued)
  case Nil
  then show ?case by (intro exI [of _ "[]"]) auto
next
  case (Cons r rs)
  obtain p1 l1 where s: "snapshot_linux_route answer r issued = (p1, l1)" by fastforce
  note l1 = snapshot_log [OF s]
  show ?case
  proof (cases p1)
    case (Inl e)
    then have "res = Err e" "log = linux_rollback dev changes l1" using Cons.prems s by auto
    then show ?thesis
      by (intro exI [of _ "[]"]) (auto simp: l1 linux_rollback_def numeral_2_eq_2)
  next
    case (Inr prev)
    obtain p2 l2 where c: "run_command answer (replace_command dev r) l1 = (p2, l2)" by fastforce
    note l2 = run_command_log [OF c]
    show ?thesis
    proof (cases p2)
      case (Inl e)
      then have "res = Err e" "log = linux_rollback dev changes l2" using Cons.prems s c Inr by auto
      then show ?thesis
        by (intro exI [of _ "[]"]) (auto simp: l1 l2 linux_rollback_def numeral_2_eq_2)
    next
      case (Inr u)
      let ?c = "\<lparr>lrc_route = r, lrc_previous = prev\<rparr>"
      have "linux_configure answer dev (changes @ [?c]) rs l2 = (res, log)"
        using Cons.prems s c \<open>p1 = Inr prev\<close> Inr by simp
      from Cons.IH [OF this] obtain cs where cs: "map lrc_route cs = take (length cs) rs"
        "case res of
           Inr all \<Rightarrow> all = (changes @ [?c]) @ cs \<and> length cs = length rs \<and>
             log = l2 @ concat (map (install_commands dev) cs)
         | Inl _ \<Rightarrow> length cs < length rs \<and>
             (\<exists>n \<in> {1, 2}. log = l2 @ concat (map (install_commands dev) cs) @
                take n [show_command (rs ! length cs), replace_command dev (rs ! length cs)] @
                concat (map (undo_commands dev) (rev ((changes @ [?c]) @ cs))))"
        by blast
      have "l2 @ concat (map (install_commands dev) cs) = issued @ concat (map (install_commands dev) (?c # cs))"
        by (simp add: l1 l2 install_commands_def)
      then show ?thesis
        using cs by (intro exI [of _ "?c # cs"]) (auto split: sum.splits simp flip: append_assoc)
    qed
  qed
qed

section \<open>Properties\<close>

text \<open>(routes are undone on Linux). Whatever the commands answer, the guard first checks every route text,
  then installs the routes in order, taking a snapshot of each. If a command fails, exactly the
  routes installed so far are deleted, last first, and each one's snapshot is put back after
  its deletion; if all succeed, dropping the guard does the same for all of them and then takes
  the link down.\<close>

theorem linux_guard_undoes:
  assumes "guard_configure T answer dev routes [] = (res, log)"
  shows "case rmapM (route_parse T) routes of
      Inl e \<Rightarrow> res = Err e \<and> log = []
    | Inr parsed \<Rightarrow>
        (\<exists>cs. map lrc_route cs = take (length cs) (map (route_to_string T) parsed) \<and>
          (case res of
             Inr all \<Rightarrow> all = cs \<and> length cs = length parsed \<and>
               linux_cleanup dev all log =
                 concat (map (install_commands dev) cs) @
                 concat (map (undo_commands dev) (rev cs)) @ [link_down_command dev]
           | Inl _ \<Rightarrow> length cs < length parsed \<and>
               (\<exists>attempt. set attempt \<subseteq> {show_command (route_to_string T (parsed ! length cs)),
                                       replace_command dev (route_to_string T (parsed ! length cs))} \<and>
                  log = concat (map (install_commands dev) cs) @ attempt @
                        concat (map (undo_commands dev) (rev cs)))))"
proof (cases "rmapM (route_parse T) routes")
  case (Inl e)
  then show ?thesis using assms by (auto simp: guard_configure_def)
next
  case (Inr parsed)
  then have run: "linux_configure answer dev [] (map (route_to_string T) parsed) [] = (res, log)"
    using assms by (simp add: guard_configure_def)
  from linux_configure_log [OF this] obtain cs where
    cs: "map lrc_route cs = take (length cs) (map (route_to_string T) parsed)" and
    rest: "case res of
       Inr all \<Rightarrow> all = cs \<and> length cs = length parsed \<and> log = concat (map (install_commands dev) cs)
     | Inl _ \<Rightarrow> length cs < length parsed \<and>
         (\<exists>n \<in> {1, 2}. log = concat (map (install_commands dev) cs) @
            take n [show_command (map (route_to_string T) parsed ! length cs),
                    replace_command dev (map (route_to_string T) parsed ! length cs)] @
            concat (map (undo_commands dev) (rev cs)))"
    unfolding append_Nil length_map by blast
  show ?thesis
  proof (cases res)
    case (Inl e)
    then obtain n where "length cs < length parsed"
      "log = concat (map (install_commands dev) cs) @
            take n [show_command (map (route_to_string T) parsed ! length cs),
                    replace_command dev (map (route_to_string T) parsed ! length cs)] @
            concat (map (undo_commands dev) (rev cs))"
      using rest unfolding \<open>res = Inl e\<close> sum.case by blast
    moreover have "set (take n [a, b]) \<subseteq> {a, b}" for a b :: command
      using set_take_subset [of n "[a, b]"] by auto
    ultimately show ?thesis using cs Inl \<open>rmapM (route_parse T) routes = Inr parsed\<close>
      by (simp only: sum.case nth_map) blast
  next
    case (Inr all)
    then show ?thesis using cs rest \<open>rmapM (route_parse T) routes = Inr parsed\<close>
      by (auto simp: linux_cleanup_def linux_rollback_def)
  qed
qed

theorem linux_guard_undoes_witness:
  "\<exists>cs. guard_configure demo_text (\<lambda>_ _. Inr \<lparr>out_success = True, out_stdout = []\<rparr>) [0x74]
      [route_to_string demo_text (host_route (V4 1))] [] = (Ok cs, concat (map (install_commands [0x74]) cs))
    \<and> linux_cleanup [0x74] cs (concat (map (install_commands [0x74]) cs)) =
       concat (map (install_commands [0x74]) cs) @ concat (map (undo_commands [0x74]) (rev cs)) @
       [link_down_command [0x74]]"
proof -
  let ?T = demo_text and ?r = "host_route (V4 1)" and ?a = "\<lambda>_ _. Inr \<lparr>out_success = True, out_stdout = []\<rparr>"
  have p: "route_parse ?T (route_to_string ?T ?r) = Ok ?r"
    by (simp add: route_parse_def parse_route_to_string [OF demo_text_ok host_route_ok])
      (simp add: host_route_def addr_bits_def)
  obtain cs where run: "guard_configure ?T ?a [0x74] [route_to_string ?T ?r] [] =
      (Ok cs, concat (map (install_commands [0x74]) cs))"
    by (simp add: guard_configure_def p snapshot_linux_route_def run_command_def install_commands_def)
  from linux_guard_undoes [OF run] run show ?thesis by (auto simp: p)
qed

text \<open>C15 (route transaction on Windows). With forwarding-table calls that behave as documented, where Windows may add
  and remove synthesized rows (of the protocol \<open>Local\<close>) as it likes, the configuration of the tunnel routes is all or
  nothing on the rows that are not synthesized: after a failure whose rollback calls all succeed these rows are what they
  were; after success every requested prefix has a row with the metric and protocol asked for, and undoing the recorded
  changes restores the rows.\<close>

theorem windows_routes_transactional:
  assumes "ip_helper_ok api table"
    and "windows_configure api luid gateway routes s = (res, complete, s')"
  shows "(\<forall>e. res = Err e \<longrightarrow> complete \<longrightarrow> table s' = table s) \<and>
    (\<forall>changes. res = Ok changes \<longrightarrow>
       (\<forall>r \<in> set routes. \<exists>k row. table s' k = Some row \<and> row_luid row = luid \<and>
          row_network row = network r \<and> row_prefix row = prefix r \<and>
          row_metric row = 0 \<and> row_protocol row = ''MIB_IPPROTO_NETMGMT'') \<and>
       (\<forall>s''. rollback_route_transaction (windows_backend api luid) changes s' = (True, s'') \<longrightarrow>
          table s'' = table s))"
proof -
  let ?B = "windows_backend api luid" and ?reqs = "windows_route_requests routes gateway"
  have L: "route_backend ?B table win_key win_own" by (rule windows_backend_lawful [OF assms(1)])
  obtain q where q: "apply_route_transaction ?B [] ?reqs s = (q, complete, s')"
    and res: "res = Err e \<Longrightarrow> \<exists>k. q = Inl k" "res = Ok changes \<Longrightarrow> q = Inr changes" for e changes
    using assms(2) by (auto simp: windows_configure_def split: prod.splits sum.splits)
  note all = route_backend.transaction_all_or_nothing [OF L q]
  have installed: "\<exists>k row. table s' k = Some row \<and> row_luid row = luid \<and>
      row_network row = network r \<and> row_prefix row = prefix r \<and> row_metric row = 0 \<and> row_protocol row = ''MIB_IPPROTO_NETMGMT''"
    if r: "r \<in> set routes" and ok: "res = Ok changes" for r changes
  proof -
    obtain req where req: "req \<in> set ?reqs" "req_route req = r"
      using windows_requests_routes [of routes gateway] r by fastforce
    from route_backend.transaction_installs [OF L _ req(1)] q res(2) [OF ok]
    obtain d row where d: "be_desired ?B req = Inr d" "table s' (win_key d) = Some row"
      "route_backend.requested ?B win_key row" by blast
    have "win_key row = win_key d" using route_backend.key_of_row [OF L d(2)] .
    then have "row_luid row = luid \<and> row_network row = network r \<and> row_prefix row = prefix r"
      using d(1) req(2) by (auto simp: windows_backend_def windows_desired_def win_key_def)
    moreover have "row_metric row = 0 \<and> row_protocol row = ''MIB_IPPROTO_NETMGMT''"
      using d(3) unfolding route_backend.requested_def [OF L]
      by (auto simp: windows_backend_def windows_desired_def windows_equivalent_def)
    ultimately show ?thesis using d(2) by blast
  qed
  show ?thesis using all res installed by blast
qed

theorem windows_routes_transactional_witness:
  "\<exists>changes s'. windows_configure (sim_helper (\<lambda>_. False)) 42 None [\<lparr>network = V4 0x0a000000, prefix = 8\<rparr>]
      \<lparr>sim_table = Map.empty, sim_calls = 0\<rparr> = (Ok changes, True, s') \<and>
    (\<exists>k row. sim_view s' k = Some row \<and> row_network row = V4 0x0a000000 \<and> row_prefix row = 8) \<and>
    (\<exists>k row. sim_table s' k = Some row \<and> row_network row = V4 0x0affffff \<and> \<not> win_own row)"
proof -
  let ?s = "\<lparr>sim_table = Map.empty, sim_calls = 0\<rparr>" and ?r = "\<lparr>network = V4 0x0a000000, prefix = 8\<rparr>"
  obtain changes s' where run: "windows_configure (sim_helper (\<lambda>_. False)) 42 None [?r] ?s = (Ok changes, True, s')"
    and host: "\<exists>k row. sim_table s' k = Some row \<and> row_network row = V4 0x0affffff \<and> \<not> win_own row"
    by (fastforce simp: windows_configure_def windows_route_requests_def windows_backend_def apply_request_def on_link_def
        windows_desired_def sim_helper_def sim_create_def sim_update_def sim_synthesize_def sim_local_def win_key_def win_own_def
        mask_eq_exp_minus_1)
  from windows_routes_transactional [OF sim_helper_ok run]
  have "\<exists>k row. sim_view s' k = Some row \<and> row_luid row = 42 \<and> row_network row = network ?r \<and> row_prefix row = prefix ?r"
    by simp blast
  then have "\<exists>k row. sim_view s' k = Some row \<and> row_network row = V4 0x0a000000 \<and> row_prefix row = 8"
    unfolding route.simps by blast
  with run host show ?thesis by blast
qed

text \<open>(Windows next hops). With a usable gateway of a family that occurs among the routes, the gateway's
  host route comes first and on-link, and every other route of that family goes through it.\<close>

theorem windows_requests_via_gateway:
  assumes "usable_gateway_address g" "r \<in> set routes" "is_ipv4 (network r) = is_ipv4 g" "r \<noteq> host_route g"
  shows "\<exists>rest. windows_route_requests routes (Some g) = on_link (host_route g) # rest \<and>
    \<lparr>req_route = r, next_hop = Some g\<rparr> \<in> set rest \<and>
    (\<forall>q \<in> set rest. req_route q \<noteq> host_route g \<and> (next_hop q = Some g \<longleftrightarrow> is_ipv4 (network (req_route q)) = is_ipv4 g))"
  using assms by (force simp: windows_route_requests_def list_ex_iff Let_def image_iff)

theorem windows_requests_via_gateway_witness:
  "\<exists>rest. windows_route_requests [\<lparr>network = V4 0x0a000000, prefix = 8\<rparr>] (Some (V4 0x64640103)) =
      on_link (host_route (V4 0x64640103)) # rest"
  using windows_requests_via_gateway [of "V4 0x64640103" "\<lparr>network = V4 0x0a000000, prefix = 8\<rparr>"
      "[\<lparr>network = V4 0x0a000000, prefix = 8\<rparr>]"]
  by (auto simp: usable_gateway_address_def v4_is_multicast_def host_route_def)

end
