(* ===== verification/Dns_Runtime.thy ===== *)
theory Dns_Runtime
  imports Dns_Relay Route_Tables
begin

text \<open>
  System DNS configuration on Linux (\<open>src/dns/platform.rs\<close>) and the DNS runtime
  (\<open>src/dns/runtime.rs\<close>): discovering the physical resolvers, the lease on the interface's DNS
  settings, activation and deactivation of a policy, relay workers, and the packet device that
  filters what enters the tunnel.

  The commands \<open>resolvectl\<close> and \<open>resolvconf\<close> answer through the parameter \<open>answers\<close>. The lock
  on the lease serialises the operations that change the runtime, so each of them is one step here. What a packet
  meets is the state between two operations: the threads that only read do not take that lock, and a packet
  filtered while an activation runs may see the new policy with the old lease, or the other way round. A lease is
  modelled together with the servers it was applied with.
\<close>

section \<open>Physical resolvers\<close>

record dns_platform_target =
  dpt_interface_name :: ustr
  dpt_platform_id :: "u64 option"

definition target_validate :: "dns_platform_target \<Rightarrow> unit result" where
  "target_validate t =
     (let n = dpt_interface_name t in
      if n = [] \<or> length n > 128 \<or>
         \<not> list_all (\<lambda>c. is_ascii_alphanumeric c \<or> c = 0x2e \<or> c = 0x5f \<or> c = 0x2d) n
      then Err (InvalidConfig ''DNS interface name contains unsupported characters'')
      else Ok ())"

definition parse_resolv_conf :: "addr_text \<Rightarrow> ustr \<Rightarrow> ip_addr list" where
  "parse_resolv_conf T contents =
     List.map_filter (\<lambda>line.
       case split_whitespace (takeWhile (\<lambda>c. c \<noteq> 0x23) line) of
         keyword # value # _ \<Rightarrow> if keyword = ascii_str ''nameserver'' then at_parse T value else None
       | _ \<Rightarrow> None) (str_lines contents)"

definition resolved_resolvers :: "addr_text \<Rightarrow> error_kind + command_output \<Rightarrow> ip_addr list" where
  "resolved_resolvers T output =
     (case output of
        Inl _ \<Rightarrow> []
      | Inr out \<Rightarrow>
          if \<not> out_success out then []
          else List.map_filter (\<lambda>field. at_parse T (rev (dropWhile (\<lambda>c. c = 0x3a) (rev field))))
                 (split_whitespace (from_utf8_lossy (out_stdout out))))"

fun field_after_dev :: "ustr list \<Rightarrow> ustr option" where
  "field_after_dev [] = None"
| "field_after_dev (f # fs) =
     (if f = ascii_str ''dev'' then (case fs of [] \<Rightarrow> None | g # _ \<Rightarrow> Some g) else field_after_dev fs)"

definition physical_interface ::
  "(ip_addr \<Rightarrow> error_kind + command_output) \<Rightarrow> (ustr \<Rightarrow> u32 option) \<Rightarrow> ip_addr \<Rightarrow> ustr option \<times> u32 option" where
  "physical_interface route_get interface_index address =
     (let name = (case route_get address of
                    Inl _ \<Rightarrow> None
                  | Inr out \<Rightarrow>
                      if \<not> out_success out then None
                      else field_after_dev (split_whitespace (from_utf8_lossy (out_stdout out))))
      in (name, case name of None \<Rightarrow> None | Some n \<Rightarrow> interface_index n))"

definition usable_resolver :: "ip_addr \<Rightarrow> bool" where
  "usable_resolver a \<longleftrightarrow> \<not> is_unspecified a \<and> \<not> is_loopback a \<and> \<not> is_multicast a"

definition discover_physical_resolvers ::
  "addr_text \<Rightarrow> error_kind + command_output \<Rightarrow> error_kind + ustr \<Rightarrow>
     (ip_addr \<Rightarrow> error_kind + command_output) \<Rightarrow> (ustr \<Rightarrow> u32 option) \<Rightarrow> physical_resolver list result" where
  "discover_physical_resolvers T resolvectl resolv_conf route_get interface_index =
     (case resolv_conf of
        Inl k \<Rightarrow> Err (Io k)
      | Inr contents \<Rightarrow>
          Ok (map (\<lambda>a. let (name, index) = physical_interface route_get interface_index a in
                       \<lparr>pr_address = \<lparr>sa_ip = a, sa_port = 53\<rparr>, pr_interface_name = name,
                        pr_interface_index = index\<rparr>)
                (take 8 (dedup_seen [] (filter usable_resolver
                  (resolved_resolvers T resolvectl @ parse_resolv_conf T contents))))))"

section \<open>Leases\<close>

datatype platform_lease = LeaseNone | LeaseResolved ustr | LeaseResolvconf ustr

definition resolvectl_command :: "ustr list \<Rightarrow> command" where
  "resolvectl_command args = \<lparr>cmd_program = ''resolvectl'', cmd_args = args, cmd_stdin = []\<rparr>"

definition resolvconf_command :: "ustr list \<Rightarrow> ustr \<Rightarrow> command" where
  "resolvconf_command args input = \<lparr>cmd_program = ''resolvconf'', cmd_args = args, cmd_stdin = input\<rparr>"

definition revert_command :: "ustr \<Rightarrow> command" where
  "revert_command dev = resolvectl_command [ascii_str ''revert'', dev]"

definition command_exists :: "answers \<Rightarrow> string \<Rightarrow> command list \<Rightarrow> bool \<times> command list" where
  "command_exists answer program issued =
     (let c = \<lparr>cmd_program = program, cmd_args = [ascii_str ''--help''], cmd_stdin = []\<rparr> in
      (is_ok (answer issued c), issued @ [c]))"

definition apply_resolved :: "answers \<Rightarrow> ustr \<Rightarrow> u32 list \<Rightarrow> command list \<Rightarrow> unit result \<times> command list" where
  "apply_resolved answer dev servers issued =
     (case run_command answer (resolvectl_command (ascii_str ''dns'' # dev # map ipv4_display servers)) issued of
        (Inl e, i) \<Rightarrow> (Err e, i)
      | (Inr _, i) \<Rightarrow>
          (case run_command answer (resolvectl_command [ascii_str ''domain'', dev, ascii_str ''~.'']) i of
             (Inl e, i) \<Rightarrow> (Err e, i @ [revert_command dev])
           | (Inr _, i) \<Rightarrow>
               (case run_command answer (resolvectl_command [ascii_str ''default-route'', dev, ascii_str ''yes'']) i of
                  (Inl e, i) \<Rightarrow> (Err e, i @ [revert_command dev])
                | (Inr _, i) \<Rightarrow> (Ok (), i))))"

definition resolvconf_input :: "u32 list \<Rightarrow> ustr" where
  "resolvconf_input servers = concat (map (\<lambda>s. ascii_str ''nameserver '' @ ipv4_display s @ [0x0a]) servers)"

definition apply_resolvconf :: "answers \<Rightarrow> ustr \<Rightarrow> u32 list \<Rightarrow> command list \<Rightarrow> unit result \<times> command list" where
  "apply_resolvconf answer dev servers issued =
     (let c = resolvconf_command [ascii_str ''-a'', dev] (resolvconf_input servers) in
      case answer issued c of
        Inl k \<Rightarrow> (Err (Io k), issued @ [c])
      | Inr out \<Rightarrow>
          if out_success out then (Ok (), issued @ [c])
          else (Err (CommandFailed ''resolvconf'' ''{stderr}''),
                issued @ [c, resolvconf_command [ascii_str ''-d'', dev] []]))"

definition lease_apply ::
  "answers \<Rightarrow> dns_platform_target \<Rightarrow> u32 list \<Rightarrow> command list \<Rightarrow> platform_lease result \<times> command list" where
  "lease_apply answer target servers issued =
     (case target_validate target of
        Inl e \<Rightarrow> (Err e, issued)
      | Inr _ \<Rightarrow>
          if servers = [] then (Ok LeaseNone, issued)
          else
            (case command_exists answer ''resolvectl'' issued of
               (True, i) \<Rightarrow>
                 (case apply_resolved answer (dpt_interface_name target) servers i of
                    (Inl e, i) \<Rightarrow> (Err e, i)
                  | (Inr _, i) \<Rightarrow> (Ok (LeaseResolved (dpt_interface_name target)), i))
             | (False, i) \<Rightarrow>
                 (case command_exists answer ''resolvconf'' i of
                    (True, i) \<Rightarrow>
                      (case apply_resolvconf answer (dpt_interface_name target) servers i of
                         (Inl e, i) \<Rightarrow> (Err e, i)
                       | (Inr _, i) \<Rightarrow> (Ok (LeaseResolvconf (dpt_interface_name target)), i))
                  | (False, i) \<Rightarrow>
                      (Err (CommandFailed ''resolvectl/resolvconf''
                         ''no supported link-scoped Linux DNS backend is installed''), i))))"

definition lease_drop :: "platform_lease \<Rightarrow> command list" where
  "lease_drop lease =
     (case lease of
        LeaseNone \<Rightarrow> []
      | LeaseResolved dev \<Rightarrow> [revert_command dev]
      | LeaseResolvconf dev \<Rightarrow> [resolvconf_command [ascii_str ''-d'', dev] []])"

section \<open>The runtime\<close>

record dns_runtime =
  drt_target :: dns_platform_target
  drt_defaults :: dns_defaults
  drt_overrides :: dns_overrides
  drt_policy :: effective_dns_policy
  drt_physical :: "physical_resolver list"
  drt_relay :: dns_relay
  drt_lease :: "(platform_lease \<times> u32 list) option"
  drt_active :: bool
  drt_physical_ipv6 :: bool

definition runtime_new ::
  "dns_platform_target \<Rightarrow> dns_defaults \<Rightarrow> dns_overrides \<Rightarrow> physical_resolver list \<Rightarrow> dns_runtime result" where
  "runtime_new target defaults overrides physical =
     rbind (target_validate target) (\<lambda>_.
     rbind (overrides_validate overrides) (\<lambda>_.
     rbind (resolve_policy defaults overrides []) (\<lambda>policy.
     Ok \<lparr>drt_target = target, drt_defaults = defaults, drt_overrides = overrides, drt_policy = policy,
         drt_physical = physical, drt_relay = relay_new physical, drt_lease = None, drt_active = False,
         drt_physical_ipv6 = True\<rparr>)))"

definition with_physical_ipv6 :: "bool \<Rightarrow> dns_runtime \<Rightarrow> dns_runtime" where
  "with_physical_ipv6 enabled rt = rt\<lparr>drt_physical_ipv6 := enabled\<rparr>"

definition filter_physical_resolvers ::
  "physical_resolver list \<Rightarrow> ip_addr list \<Rightarrow> bool \<Rightarrow> physical_resolver list" where
  "filter_physical_resolvers physical tunnel_servers physical_ipv6 =
     filter (\<lambda>r. (physical_ipv6 \<or> is_ipv4 (sa_ip (pr_address r))) \<and> sa_ip (pr_address r) \<notin> set tunnel_servers)
       physical"

definition update_inputs :: "dns_defaults \<Rightarrow> dns_overrides \<Rightarrow> dns_runtime \<Rightarrow> unit result \<times> dns_runtime" where
  "update_inputs defaults overrides rt =
     (case overrides_validate overrides of
        Inl e \<Rightarrow> (Err e, rt)
      | Inr _ \<Rightarrow> (Ok (), rt\<lparr>drt_defaults := defaults, drt_overrides := overrides\<rparr>))"

definition activate_policy ::
  "answers \<Rightarrow> effective_dns_policy \<Rightarrow> dns_runtime \<Rightarrow> command list \<Rightarrow> unit result \<times> dns_runtime \<times> command list" where
  "activate_policy answer policy rt issued =
     (let physical = filter_physical_resolvers (drt_physical rt) (map V4 (pol_servers policy)) (drt_physical_ipv6 rt);
          released = (case drt_lease rt of None \<Rightarrow> issued | Some (l, _) \<Rightarrow> issued @ lease_drop l)
      in
      case lease_apply answer (drt_target rt) (pol_servers policy) released of
        (Inl e, i) \<Rightarrow>
          (case lease_apply answer (drt_target rt) (pol_servers (drt_policy rt)) i of
             (Inr restored, i) \<Rightarrow>
               (Err e, rt\<lparr>drt_lease := Some (restored, pol_servers (drt_policy rt))\<rparr>, i)
           | (Inl _, i) \<Rightarrow> (Err e, rt\<lparr>drt_lease := None\<rparr>, i))
      | (Inr lease, i) \<Rightarrow>
          (Ok (), rt\<lparr>drt_policy := policy, drt_relay := update_resolvers physical (drt_relay rt),
                     drt_lease := Some (lease, pol_servers policy), drt_active := True\<rparr>, i))"

definition update_policy ::
  "answers \<Rightarrow> dns_defaults \<Rightarrow> dns_overrides \<Rightarrow> ip_addr list \<Rightarrow> dns_runtime \<Rightarrow> command list \<Rightarrow>
     unit result \<times> dns_runtime \<times> command list" where
  "update_policy answer defaults overrides session_dns rt issued =
     (case rbind (overrides_validate overrides) (\<lambda>_. resolve_policy defaults overrides session_dns) of
        Inl e \<Rightarrow> (Err e, rt, issued)
      | Inr policy \<Rightarrow>
          (case activate_policy answer policy rt issued of
             (Inl e, rt', i) \<Rightarrow> (Err e, rt', i)
           | (Inr _, rt', i) \<Rightarrow> (Ok (), rt'\<lparr>drt_defaults := defaults, drt_overrides := overrides\<rparr>, i)))"

definition runtime_activate ::
  "answers \<Rightarrow> physical_resolver list result \<Rightarrow> session_info \<Rightarrow> dns_runtime \<Rightarrow> command list \<Rightarrow>
     unit result \<times> dns_runtime \<times> command list" where
  "runtime_activate answer discovered info rt issued =
     (let rt = (case discovered of Inl _ \<Rightarrow> rt | Inr rs \<Rightarrow> rt\<lparr>drt_physical := rs\<rparr>) in
      case resolve_policy (drt_defaults rt) (drt_overrides rt) (info_dns_servers info) of
        Inl e \<Rightarrow> (Err e, rt, issued)
      | Inr policy \<Rightarrow> activate_policy answer policy rt issued)"

definition runtime_deactivate :: "dns_runtime \<Rightarrow> command list \<Rightarrow> dns_runtime \<times> command list" where
  "runtime_deactivate rt issued =
     (rt\<lparr>drt_active := False, drt_relay := reset_generation (drt_relay rt), drt_lease := None\<rparr>,
      case drt_lease rt of None \<Rightarrow> issued | Some (l, _) \<Rightarrow> issued @ lease_drop l)"

definition runtime_process :: "dns_lib \<Rightarrow> dns_runtime \<Rightarrow> bytes \<Rightarrow> dns_packet_action" where
  "runtime_process L rt packet =
     (if \<not> drt_active rt then DnsPass else dns_process L (drt_policy rt) packet)"

section \<open>Relay workers\<close>

text \<open>What a worker writes to the device once its relay has returned.\<close>

definition relay_worker :: "dns_lib \<Rightarrow> dns_relay_request \<Rightarrow> error_kind + bytes \<Rightarrow> bytes option" where
  "relay_worker L r result =
     (case result of
        Inr response \<Rightarrow> response_packet r response
      | Inl k \<Rightarrow> if k = Interrupted then None else servfail_packet L r)"

text \<open>\<open>spawn_relay\<close>: the packet written at once, whether a worker runs, and the worker count.\<close>

definition spawn_relay ::
  "dns_lib \<Rightarrow> dns_relay \<Rightarrow> nat \<Rightarrow> nat \<Rightarrow> bool \<Rightarrow> dns_relay_request \<Rightarrow> bytes option \<times> bool \<times> nat" where
  "spawn_relay L relay max_workers workers spawned r =
     (if workers \<ge> max_workers then (servfail_packet L r, False, workers)
      else if \<not> has_resolvers relay then (None, False, workers)
      else if spawned then (None, True, workers + 1)
      else (servfail_packet L r, False, workers))"

section \<open>The packet device\<close>

definition write_complete :: "(bytes \<Rightarrow> error_kind + nat) \<Rightarrow> bytes \<Rightarrow> error_kind + unit" where
  "write_complete dev_write packet =
     (case dev_write packet of
        Inl k \<Rightarrow> Inl k
      | Inr written \<Rightarrow> if written = length packet then Inr () else Inl WriteZero)"

datatype device_effect = DevInject bytes | DevRelay dns_relay_request

text \<open>\<open>DnsPacketDevice::read_packet\<close> over the packets the inner device yields: the result (\<open>None\<close> when
  they are used up) and what was done with the packets before it.\<close>

fun device_read ::
  "dns_lib \<Rightarrow> dns_runtime \<Rightarrow> (bytes \<Rightarrow> error_kind + nat) \<Rightarrow> (error_kind + bytes) list \<Rightarrow>
     (error_kind + bytes) option \<times> device_effect list" where
  "device_read L rt dev_write [] = (None, [])"
| "device_read L rt dev_write (Inl k # rest) = (Some (Inl k), [])"
| "device_read L rt dev_write (Inr packet # rest) =
     (case runtime_process L rt packet of
        DnsPass \<Rightarrow> (Some (Inr packet), [])
      | DnsDrop \<Rightarrow> device_read L rt dev_write rest
      | DnsInject response \<Rightarrow>
          (case write_complete dev_write response of
             Inl k \<Rightarrow> (Some (Inl k), [DevInject response])
           | Inr _ \<Rightarrow>
               (case device_read L rt dev_write rest of (r, es) \<Rightarrow> (r, DevInject response # es)))
      | DnsRelay request \<Rightarrow>
          if has_resolvers (drt_relay rt)
          then (case device_read L rt dev_write rest of (r, es) \<Rightarrow> (r, DevRelay request # es))
          else (Some (Inr packet), []))"

text \<open>\<open>activate_session\<close> and \<open>deactivate_session\<close> of the device, with the calls made on the inner
  device, whose own results are given.\<close>

datatype inner_call = InnerActivate | InnerDeactivate

definition device_activate ::
  "answers \<Rightarrow> unit result \<Rightarrow> physical_resolver list result \<Rightarrow> session_info \<Rightarrow> dns_runtime \<Rightarrow> command list \<Rightarrow>
     unit result \<times> dns_runtime \<times> command list \<times> inner_call list" where
  "device_activate answer inner discovered info rt issued =
     (case inner of
        Inl e \<Rightarrow> (Err e, rt, issued, [InnerActivate])
      | Inr _ \<Rightarrow>
          (case runtime_activate answer discovered info rt issued of
             (Inl e, rt', i) \<Rightarrow> (Err e, rt', i, [InnerActivate, InnerDeactivate])
           | (Inr _, rt', i) \<Rightarrow> (Ok (), rt', i, [InnerActivate])))"

definition device_deactivate ::
  "unit result \<Rightarrow> dns_runtime \<Rightarrow> command list \<Rightarrow> unit result \<times> dns_runtime \<times> command list \<times> inner_call list" where
  "device_deactivate inner rt issued =
     (case runtime_deactivate rt issued of (rt', i) \<Rightarrow> (inner, rt', i, [InnerDeactivate]))"

section \<open>Steps of the runtime\<close>

text \<open>The state of the system is the runtime with the commands issued; a step is one operation with any
  arguments and any answers of the commands.\<close>

inductive runtime_step :: "dns_runtime \<times> command list \<Rightarrow> dns_runtime \<times> command list \<Rightarrow> bool" where
  step_inputs: "update_inputs d ov rt = (res, rt') \<Longrightarrow> runtime_step (rt, i) (rt', i)"
| step_update: "update_policy answer d ov dns rt i = (res, rt', i') \<Longrightarrow> runtime_step (rt, i) (rt', i')"
| step_activate: "runtime_activate answer discovered info rt i = (res, rt', i') \<Longrightarrow> runtime_step (rt, i) (rt', i')"
| step_policy: "activate_policy answer policy rt i = (res, rt', i') \<Longrightarrow> runtime_step (rt, i) (rt', i')"
| step_deactivate: "runtime_deactivate rt i = (rt', i') \<Longrightarrow> runtime_step (rt, i) (rt', i')"

inductive_cases runtime_stepE: "runtime_step s t"

definition relay_filtered :: "dns_runtime \<Rightarrow> bool" where
  "relay_filtered rt \<longleftrightarrow>
     (\<forall>r \<in> set (dr_resolvers (drt_relay rt)).
        sa_ip (pr_address r) \<notin> V4 ` set (pol_servers (drt_policy rt)) \<and>
        (drt_physical_ipv6 rt \<or> is_ipv4 (sa_ip (pr_address r))))"

definition runtime_ok :: "dns_runtime \<times> command list \<Rightarrow> bool" where
  "runtime_ok s \<longleftrightarrow>
     (\<forall>l servers. drt_lease (fst s) = Some (l, servers) \<longrightarrow> servers = pol_servers (drt_policy (fst s))) \<and>
     (drt_active (fst s) \<longrightarrow> relay_filtered (fst s))"

lemma runtime_ok_iff:
  "runtime_ok (rt, i) \<longleftrightarrow>
     (\<forall>l servers. drt_lease rt = Some (l, servers) \<longrightarrow> servers = pol_servers (drt_policy rt)) \<and>
     (drt_active rt \<longrightarrow> relay_filtered rt)"
  by (simp add: runtime_ok_def)

lemma activate_policy_cases:
  assumes "activate_policy answer policy rt i = (res, rt', i')"
  shows "(\<exists>e l. res = Err e \<and> rt' = rt\<lparr>drt_lease := l\<rparr> \<and>
      (l = None \<or> (\<exists>r. l = Some (r, pol_servers (drt_policy rt))))) \<or>
    (\<exists>l. res = Ok () \<and> rt' = rt\<lparr>drt_policy := policy,
        drt_relay := update_resolvers (filter_physical_resolvers (drt_physical rt) (map V4 (pol_servers policy))
                       (drt_physical_ipv6 rt)) (drt_relay rt),
        drt_lease := Some (l, pol_servers policy), drt_active := True\<rparr>)"
  using assms by (auto simp: activate_policy_def Let_def split: prod.splits sum.splits)

lemma filtered_after_activation:
  "relay_filtered (rt\<lparr>drt_policy := policy,
        drt_relay := update_resolvers (filter_physical_resolvers ph (map V4 (pol_servers policy))
                       (drt_physical_ipv6 rt)) relay, drt_lease := l, drt_active := a\<rparr>)"
  by (auto simp: relay_filtered_def update_resolvers_def filter_physical_resolvers_def)

lemma activate_policy_ok:
  assumes "activate_policy answer policy rt i = (res, rt', i')" "runtime_ok (rt, i)"
  shows "runtime_ok (rt', i')"
  using activate_policy_cases [OF assms(1)]
proof (elim disjE exE conjE)
  fix e l assume "rt' = rt\<lparr>drt_lease := l\<rparr>" "l = None"
  then show ?thesis using assms(2) by (auto simp: runtime_ok_iff relay_filtered_def)
next
  fix e l r assume "rt' = rt\<lparr>drt_lease := l\<rparr>" "l = Some (r, pol_servers (drt_policy rt))"
  then show ?thesis using assms(2) by (auto simp: runtime_ok_iff relay_filtered_def)
next
  fix l assume "rt' = rt\<lparr>drt_policy := policy,
        drt_relay := update_resolvers (filter_physical_resolvers (drt_physical rt) (map V4 (pol_servers policy))
                       (drt_physical_ipv6 rt)) (drt_relay rt),
        drt_lease := Some (l, pol_servers policy), drt_active := True\<rparr>"
  then show ?thesis using filtered_after_activation by (simp add: runtime_ok_iff)
qed

lemma runtime_ok_irrelevant:
  "runtime_ok (rt\<lparr>drt_defaults := d, drt_overrides := ov\<rparr>, i) = runtime_ok (rt, i)"
  "runtime_ok (rt\<lparr>drt_physical := ph\<rparr>, i) = runtime_ok (rt, i)"
  by (simp_all add: runtime_ok_iff relay_filtered_def)

lemma runtime_step_ok:
  assumes "runtime_ok s" "runtime_step s t"
  shows "runtime_ok t"
  using assms(2)
proof cases
  case (step_inputs d ov rt res rt' i)
  then show ?thesis using assms(1) by (auto simp: update_inputs_def runtime_ok_irrelevant split: sum.splits)
next
  case (step_update answer d ov dns rt i res rt' i')
  show ?thesis
  proof (cases "rbind (overrides_validate ov) (\<lambda>_. resolve_policy d ov dns)")
    case (Inl e)
    then show ?thesis using step_update assms(1) by (auto simp: update_policy_def)
  next
    case (Inr policy)
    obtain r rt1 i1 where a: "activate_policy answer policy rt i = (r, rt1, i1)" by (metis surj_pair)
    have "runtime_ok (rt1, i1)" by (rule activate_policy_ok [OF a]) (use assms(1) step_update in simp)
    then show ?thesis using step_update Inr a
      by (cases r) (auto simp: update_policy_def runtime_ok_irrelevant)
  qed
next
  case (step_activate answer discovered info rt i res rt' i')
  define rt1 where "rt1 = (case discovered of Inl _ \<Rightarrow> rt | Inr rs \<Rightarrow> rt\<lparr>drt_physical := rs\<rparr>)"
  have ok: "runtime_ok (rt1, i)" using assms(1) step_activate
    by (auto simp: rt1_def runtime_ok_irrelevant split: sum.split)
  have "(\<exists>e. (res, rt', i') = (Err e, rt1, i)) \<or>
      (\<exists>policy. activate_policy answer policy rt1 i = (res, rt', i'))"
    using step_activate(3) unfolding runtime_activate_def rt1_def [symmetric] Let_def by (auto split: sum.splits)
  then show ?thesis using ok activate_policy_ok step_activate(2) by auto
next
  case (step_policy answer policy rt i res rt' i')
  then show ?thesis using assms(1) activate_policy_ok by simp
next
  case (step_deactivate rt i rt' i')
  then show ?thesis by (auto simp: runtime_deactivate_def runtime_ok_iff)
qed

definition runtime_start :: "dns_runtime \<times> command list \<Rightarrow> bool" where
  "runtime_start s \<longleftrightarrow> (\<exists>target d ov ph v6 rt.
     runtime_new target d ov ph = Ok rt \<and> s = (with_physical_ipv6 v6 rt, []))"

interpretation runtime_sys: invariant_system runtime_start runtime_step runtime_ok
proof
  show "runtime_start s \<Longrightarrow> runtime_ok s" for s
    by (auto simp: runtime_start_def runtime_new_def with_physical_ipv6_def runtime_ok_iff rbind_eq_Ok)
qed (rule runtime_step_ok)

section \<open>Properties\<close>

text \<open>C33 (leases and the relay follow the policy). In every sequence of operations of the runtime, whatever
  the system commands answer, the servers configured on the interface are those of the policy
  in force, and while the runtime is active the relay never sends a query to a server of the
  tunnel, nor over IPv6 when that is disabled.\<close>

theorem runtime_follows_policy:
  assumes "reachable_from runtime_start runtime_step (rt, issued)"
  shows "(\<forall>l servers. drt_lease rt = Some (l, servers) \<longrightarrow> servers = pol_servers (drt_policy rt)) \<and>
    (drt_active rt \<longrightarrow>
      (\<forall>r \<in> set (dr_resolvers (drt_relay rt)).
        sa_ip (pr_address r) \<notin> V4 ` set (pol_servers (drt_policy rt)) \<and>
        (drt_physical_ipv6 rt \<or> is_ipv4 (sa_ip (pr_address r)))))"
  using runtime_sys.inv_reachable [OF assms] by (auto simp: runtime_ok_iff relay_filtered_def)

text \<open>A runtime with one custom server, and a system on which every command succeeds.\<close>

definition demo_target :: dns_platform_target where
  "demo_target = \<lparr>dpt_interface_name = [0x74], dpt_platform_id = None\<rparr>"

definition all_succeed :: answers where
  "all_succeed = (\<lambda>_ _. Inr \<lparr>out_success = True, out_stdout = []\<rparr>)"

lemma demo_target_valid: "target_validate demo_target = Ok ()"
  by (simp add: target_validate_def demo_target_def is_ascii_alphanumeric_def)

lemma demo_runtime:
  obtains rt where "runtime_new demo_target dns_defaults_default dns_overrides_default [relay_demo_resolver] = Ok rt"
    "drt_lease rt = None" "\<not> drt_active rt" "drt_target rt = demo_target"
proof -
  have "overrides_validate dns_overrides_default = Ok ()"
    by (simp add: overrides_validate_def dns_overrides_default_def)
  moreover obtain p where "resolve_policy dns_defaults_default dns_overrides_default [] = Ok p"
    using policy_direct_total [of "[]"] by (auto simp: policy_direct_def)
  ultimately show thesis using that by (simp add: runtime_new_def demo_target_valid)
qed

theorem runtime_follows_policy_witness:
  "\<exists>rt issued. reachable_from runtime_start runtime_step (rt, issued) \<and> drt_active rt \<and>
     (\<forall>r \<in> set (dr_resolvers (drt_relay rt)). sa_ip (pr_address r) \<notin> V4 ` set (pol_servers (drt_policy rt)))"
proof -
  obtain rt where rt: "runtime_new demo_target dns_defaults_default dns_overrides_default [relay_demo_resolver] = Ok rt"
    "drt_lease rt = None" "drt_target rt = demo_target" by (rule demo_runtime) blast
  let ?rt = "with_physical_ipv6 False rt" and ?p = "(drt_policy rt)\<lparr>pol_servers := []\<rparr>"
  have "runtime_start (?rt, [])" using rt(1) unfolding runtime_start_def by blast
  then have start: "reachable_from runtime_start runtime_step (?rt, [])" by (rule reach_init)
  obtain rt' i where a: "activate_policy all_succeed ?p ?rt [] = (Ok (), rt', i)" "drt_active rt'"
    using rt(2,3) by (simp add: activate_policy_def lease_apply_def with_physical_ipv6_def demo_target_valid Let_def)
  from start runtime_step.step_policy [OF a(1)] have "reachable_from runtime_start runtime_step (rt', i)"
    by (rule reach_step)
  from runtime_follows_policy [OF this] this a(2) show ?thesis by blast
qed

text \<open>(a failed activation can leave a lease behind). If the runtime was not active and held no lease, and
  the new servers cannot be configured but those of the initial policy can, then the failed
  activation leaves the interface configured with the initial policy's servers although the
  runtime is still inactive.\<close>

theorem failed_activation_leaves_lease:
  assumes "drt_lease rt = None" "\<not> drt_active rt"
    and "lease_apply answer (drt_target rt) (pol_servers policy) issued = (Err e, i)"
    and "lease_apply answer (drt_target rt) (pol_servers (drt_policy rt)) i = (Ok l, i')"
  shows "\<exists>rt'. activate_policy answer policy rt issued = (Err e, rt', i') \<and> \<not> drt_active rt' \<and>
    drt_lease rt' = Some (l, pol_servers (drt_policy rt))"
  using assms by (simp add: activate_policy_def Let_def)

text \<open>A system whose \<open>resolvectl\<close> refuses the address 0.0.0.1.\<close>

definition refuses_one :: answers where
  "refuses_one = (\<lambda>_ c. Inr \<lparr>out_success = (ipv4_display 1 \<notin> set (cmd_args c)), out_stdout = []\<rparr>)"

theorem failed_activation_leaves_lease_witness:
  "\<exists>rt policy e rt' i l servers. drt_lease rt = None \<and>
     activate_policy refuses_one policy rt [] = (Err e, rt', i) \<and> drt_lease rt' = Some (l, servers) \<and> servers \<noteq> []"
proof -
  obtain rt0 :: dns_runtime where rt0: "drt_lease rt0 = None" "\<not> drt_active rt0" "drt_target rt0 = demo_target"
    by (rule demo_runtime) blast
  define rt where "rt = rt0\<lparr>drt_policy := (drt_policy rt0)\<lparr>pol_servers := [2]\<rparr>\<rparr>"
  let ?p = "(drt_policy rt0)\<lparr>pol_servers := [1]\<rparr>"
  have d: "ipv4_display 1 \<noteq> ipv4_display 2" "ipv4_display 1 \<noteq> [0x74]"
    by (simp_all add: ipv4_display_def ipv4_octets_def be_bytes_def le_bytes_numeral dec.simps)
  have one: "ipv4_display 1 = [0x30, 0x2e, 0x30, 0x2e, 0x30, 0x2e, 0x31]"
    by (simp add: ipv4_display_def ipv4_octets_def be_bytes_def le_bytes_numeral dec.simps)
  have n: "dpt_interface_name demo_target = [0x74]" by (simp add: demo_target_def)
  obtain e i where 1: "lease_apply refuses_one demo_target [1] [] = (Err e, i)"
    by (simp add: lease_apply_def demo_target_valid command_exists_def refuses_one_def apply_resolved_def
        run_command_def resolvectl_command_def)
  obtain l i' where 2: "lease_apply refuses_one demo_target [2] i = (Ok l, i')"
    using d n by (simp add: lease_apply_def demo_target_valid command_exists_def refuses_one_def apply_resolved_def
        run_command_def resolvectl_command_def one ascii_str_def)
  have "drt_lease rt = None" "\<not> drt_active rt"
    "lease_apply refuses_one (drt_target rt) (pol_servers ?p) [] = (Err e, i)"
    "lease_apply refuses_one (drt_target rt) (pol_servers (drt_policy rt)) i = (Ok l, i')"
    using rt0 1 2 by (simp_all add: rt_def)
  from failed_activation_leaves_lease [OF this] obtain rt' where
    "activate_policy refuses_one ?p rt [] = (Err e, rt', i')"
    "drt_lease rt' = Some (l, pol_servers (drt_policy rt))" by blast
  moreover have "pol_servers (drt_policy rt) \<noteq> []" by (simp add: rt_def)
  ultimately show ?thesis using \<open>drt_lease rt = None\<close> by blast
qed

lemma build_udp_response_ends:
  assumes "build_udp_response s d sp dp i payload = Some packet"
  shows "\<exists>udp. ipv4_parse packet = Some \<lparr>ip_source = s, ip_destination = d, ip_identification = i,
      ip_protocol = 17, ip_fragmented = False, ip_payload = udp\<rparr> \<and>
    udp_parse udp = Some \<lparr>udp_source_port = sp, udp_destination_port = dp, udp_payload = payload\<rparr>"
proof -
  have len: "length payload \<le> 65507" using assms by (simp add: build_udp_response_eq split: if_splits)
  define t l where "t = (of_nat (28 + length payload) :: u16)" and "l = (of_nat (8 + length payload) :: u16)"
  have tl: "unat t = 28 + length payload" "unat l = 8 + length payload"
    using len by (simp_all only: t_def l_def unat_of_nat) simp_all
  obtain c1 c2 where p: "packet = response_ip_header t i c1 s d @ response_udp sp dp l c2 payload"
    using assms len that [OF sym] by (simp only: build_udp_response_eq t_def l_def if_True option.inject)
  have "unat t = 20 + length (response_udp sp dp l c2 payload)" by (simp add: tl)
  from response_ip_parse(1) [OF this] response_udp_parse [OF tl(2)] show ?thesis unfolding p by blast
qed

text \<open>(relayed queries are answered). For a relayed query a worker writes at most one packet. Unless the
  relay's generation changed, an answer of the relay is written whenever it fits, and any
  failure is answered with a server failure; what is written goes from the server asked to the
  client that asked, on the ports of the query.\<close>

theorem relay_worker_answers:
  assumes "relay_worker L r result = Some packet"
  shows "(\<exists>payload udp. ipv4_parse packet = Some \<lparr>ip_source = relay_destination r,
        ip_destination = relay_source r, ip_identification = relay_identification r, ip_protocol = 17,
        ip_fragmented = False, ip_payload = udp\<rparr> \<and>
      udp_parse udp = Some \<lparr>udp_source_port = relay_destination_port r,
        udp_destination_port = relay_source_port r, udp_payload = payload\<rparr> \<and>
      (case result of
         Inr answer \<Rightarrow> payload = answer
       | Inl k \<Rightarrow> k \<noteq> Interrupted \<and> (\<exists>request. msg_from_vec L (relay_dns_request r) = Some request \<and>
                    synthetic_response L request ServFail = Some payload)))"
proof (cases result)
  case (Inr answer)
  then have "build_udp_response (relay_destination r) (relay_source r) (relay_destination_port r)
      (relay_source_port r) (relay_identification r) answer = Some packet"
    using assms by (simp add: relay_worker_def response_packet_def)
  from build_udp_response_ends [OF this] Inr show ?thesis by auto
next
  case (Inl k)
  then obtain request payload where k: "k \<noteq> Interrupted"
    and r: "msg_from_vec L (relay_dns_request r) = Some request" "synthetic_response L request ServFail = Some payload"
    and "build_udp_response (relay_destination r) (relay_source r) (relay_destination_port r)
      (relay_source_port r) (relay_identification r) payload = Some packet"
    using assms by (auto simp: relay_worker_def servfail_packet_def response_packet_def split: if_splits option.splits)
  from build_udp_response_ends [OF this(4)] Inl k r show ?thesis by auto
qed

theorem relay_worker_answers_witness:
  "\<exists>packet. relay_worker relay_demo_lib \<lparr>relay_dns_request = [1], relay_source = 0x0a000001,
      relay_destination = 0x0a000002, relay_source_port = 4096, relay_destination_port = 53,
      relay_identification = 9\<rparr> (Inr [3]) = Some packet \<and> ipv4_parse packet \<noteq> None"
proof -
  let ?r = "\<lparr>relay_dns_request = [1], relay_source = 0x0a000001, relay_destination = 0x0a000002,
      relay_source_port = 4096, relay_destination_port = 53, relay_identification = 9\<rparr>"
  obtain packet where "relay_worker relay_demo_lib ?r (Inr [3]) = Some packet"
    by (simp add: relay_worker_def response_packet_def build_udp_response_eq)
  from relay_worker_answers [OF this] this show ?thesis by auto
qed

text \<open>(what enters the tunnel). The device hands out only packets of the inner device, unchanged. A packet
  it hands out while the runtime is active is one the engine passes, or one it would relay
  while the relay has no resolver; so no packet that the policy drops ever enters the tunnel.\<close>

theorem device_read_filters:
  assumes "device_read L rt dev_write inputs = (Some (Inr packet), effects)"
  shows "Inr packet \<in> set inputs \<and>
    (runtime_process L rt packet = DnsPass \<or>
     (\<exists>request. runtime_process L rt packet = DnsRelay request \<and> \<not> has_resolvers (drt_relay rt))) \<and>
    (\<forall>response. DevInject response \<in> set effects \<longrightarrow>
       (\<exists>query. Inr query \<in> set inputs \<and> runtime_process L rt query = DnsInject response \<and>
          dev_write response = Inr (length response)))"
  using assms
proof (induction inputs arbitrary: effects)
  case (Cons inp inputs)
  show ?case
  proof (cases inp)
    case (Inl k)
    then show ?thesis using Cons.prems by simp
  next
    case (Inr b)
    show ?thesis
    proof (cases "runtime_process L rt b")
      case DnsPass
      then show ?thesis using Cons.prems Inr by auto
    next
      case DnsDrop
      then show ?thesis using Cons Inr by auto
    next
      case (DnsInject response)
      then obtain es where run: "device_read L rt dev_write inputs = (Some (Inr packet), es)"
        and w: "effects = DevInject response # es" "dev_write response = Inr (length response)"
        using Cons.prems Inr by (auto simp: write_complete_def split: sum.splits if_splits prod.splits)
      from Cons.IH [OF run] show ?thesis unfolding w(1) using Inr DnsInject w(2) by auto
    next
      case (DnsRelay request)
      show ?thesis
      proof (cases "has_resolvers (drt_relay rt)")
        case True
        then obtain es where run: "device_read L rt dev_write inputs = (Some (Inr packet), es)"
          and w: "effects = DevRelay request # es"
          using Cons.prems Inr DnsRelay by (auto split: prod.splits)
        from Cons.IH [OF run] show ?thesis unfolding w by auto
      next
        case False
        then show ?thesis using Cons.prems Inr DnsRelay by auto
      qed
    qed
  qed
qed simp

theorem device_read_filters_witness:
  "\<exists>rt. fst (device_read demo_dns_lib rt (\<lambda>_. Inl OtherKind) [Inr [1, 2]]) = Some (Inr [1, 2]) \<and>
     runtime_process demo_dns_lib rt [1, 2] = DnsPass"
proof -
  obtain rt :: dns_runtime where "\<not> drt_active rt" by (rule demo_runtime) blast
  then have run: "device_read demo_dns_lib rt (\<lambda>_. Inl OtherKind) [Inr [1, 2]] = (Some (Inr [1, 2]), [])"
    by (simp add: runtime_process_def)
  from device_read_filters [OF run] run \<open>\<not> drt_active rt\<close> show ?thesis
    by (auto simp: runtime_process_def intro!: exI [of _ rt])
qed

end
