(* ===== verification/Dns_Transport.thy ===== *)
theory Dns_Transport
  imports Dns_Relay
begin

text \<open>
  Name resolution through the tunnel (\<open>src/dns/transport.rs\<close>) and its configuration
  (\<open>src/dns/resolver.rs\<close>): a query per name of a CNAME chain, over UDP with a fallback to TCP, and
  the selection of addresses from an answer.

  The userspace network stack is a crate; what its sockets deliver is a parameter.
\<close>

section \<open>Resolver configuration\<close>

datatype resolve_via = ViaAuto | ViaTunnel | ViaSystem

record resolver_config =
  rcf_via :: resolve_via
  rcf_servers :: "socket_addr list"
  rcf_include_session_servers :: bool
  rcf_timeout :: duration

definition resolver_config_default :: resolver_config where
  "resolver_config_default =
     \<lparr>rcf_via = ViaAuto, rcf_servers = [], rcf_include_session_servers = True, rcf_timeout = 3000000\<rparr>"

definition resolver_config_validate :: "resolver_config \<Rightarrow> unit result" where
  "resolver_config_validate c =
     (if rcf_timeout c = 0 then Err (InvalidConfig ''DNS resolver timeout must be greater than zero'')
      else if list_ex (\<lambda>s. sa_port s = 0 \<or> is_unspecified (sa_ip s) \<or> is_multicast (sa_ip s)) (rcf_servers c)
      then Err (InvalidConfig ''DNS resolvers must be unicast addresses with a nonzero port'')
      else Ok ())"

definition resolver_config_new :: "resolve_via \<Rightarrow> socket_addr list \<Rightarrow> duration \<Rightarrow> resolver_config result" where
  "resolver_config_new via servers timeout =
     (let c = \<lparr>rcf_via = via, rcf_servers = servers, rcf_include_session_servers = True, rcf_timeout = timeout\<rparr>
      in rbind (resolver_config_validate c) (\<lambda>_. Ok c))"

definition with_session_servers :: "bool \<Rightarrow> resolver_config \<Rightarrow> resolver_config" where
  "with_session_servers b c = c\<lparr>rcf_include_session_servers := b\<rparr>"

section \<open>Selecting the addresses of an answer\<close>

abbreviation (input) MAX_CNAME_DEPTH :: nat where "MAX_CNAME_DEPTH \<equiv> 8"
abbreviation (input) UDP_RESPONSE_SIZE :: nat where "UDP_RESPONSE_SIZE \<equiv> 4096"
abbreviation (input) TYPE_A :: u16 where "TYPE_A \<equiv> 1"

record dns_lookup =
  lk_addresses :: "ip_addr list"
  lk_ttl :: duration

record parsed_response =
  ps_addresses :: "ip_addr list"
  ps_canonical_name :: "ustr option"
  ps_ttl :: u32

record cname_state =
  cs_accepted :: "ustr list"
  cs_canonical :: "ustr option"
  cs_ttl :: u32
  cs_changed :: bool

definition cname_record :: "cname_state \<Rightarrow> dns_record \<Rightarrow> cname_state" where
  "cname_record st r =
     (if rec_name r \<in> set (cs_accepted st) then
        (case rec_data r of
           RdCname target \<Rightarrow>
             if target \<in> set (cs_accepted st) then st
             else st\<lparr>cs_accepted := target # cs_accepted st, cs_canonical := Some target,
                     cs_ttl := min (cs_ttl st) (rec_ttl r), cs_changed := True\<rparr>
         | _ \<Rightarrow> st)
      else st)"

fun cname_rounds :: "nat \<Rightarrow> dns_record list \<Rightarrow> cname_state \<Rightarrow> cname_state" where
  "cname_rounds 0 answers st = st"
| "cname_rounds (Suc n) answers st =
     (let st' = foldl cname_record (st\<lparr>cs_changed := False\<rparr>) answers in
      if cs_changed st' then cname_rounds n answers st' else st')"

definition address_of :: "u16 \<Rightarrow> rdata \<Rightarrow> ip_addr option" where
  "address_of record_type d =
     (case d of
        RdA a \<Rightarrow> if record_type = TYPE_A then Some (V4 a) else None
      | RdAaaa a \<Rightarrow> if record_type = AAAA then Some (V6 a) else None
      | _ \<Rightarrow> None)"

fun collect_addresses :: "u16 \<Rightarrow> ustr list \<Rightarrow> u32 \<Rightarrow> dns_record list \<Rightarrow> ip_addr list \<times> u32" where
  "collect_addresses record_type accepted ttl [] = ([], ttl)"
| "collect_addresses record_type accepted ttl (r # rs) =
     (if rec_name r \<notin> set accepted then collect_addresses record_type accepted ttl rs
      else
        case address_of record_type (rec_data r) of
          None \<Rightarrow> collect_addresses record_type accepted ttl rs
        | Some a \<Rightarrow>
            (case collect_addresses record_type accepted (min ttl (rec_ttl r)) rs of
               (as, t) \<Rightarrow> (a # as, t)))"

definition parse_response :: "dns_message \<Rightarrow> u16 \<Rightarrow> ustr \<Rightarrow> u16 \<Rightarrow> error_kind + parsed_response" where
  "parse_response response tid name record_type =
     (if msg_id response \<noteq> tid \<or> msg_is_query response \<or> msg_op_code response \<noteq> 0 then Inl InvalidData
      else if msg_response_code response \<noteq> NoError then
        Inl (if msg_response_code response = NXDomain then NotFound else OtherKind)
      else if length (msg_queries response) \<noteq> 1 \<or> fst (msg_queries response ! 0) \<noteq> name
              \<or> fst (snd (msg_queries response ! 0)) \<noteq> record_type then Inl InvalidData
      else
        let st = cname_rounds MAX_CNAME_DEPTH (msg_answers response)
                   \<lparr>cs_accepted = [name], cs_canonical = None, cs_ttl = - 1, cs_changed = False\<rparr>;
            (addresses, ttl) = collect_addresses record_type (cs_accepted st) (cs_ttl st) (msg_answers response)
        in Inr \<lparr>ps_addresses = dedup_seen [] addresses, ps_canonical_name = cs_canonical st,
                ps_ttl = (if ttl = - 1 then 0 else ttl)\<rparr>)"

section \<open>Exchanging a query\<close>

definition build_query :: "dns_lib \<Rightarrow> (u16 \<Rightarrow> ustr \<Rightarrow> u16 \<Rightarrow> dns_message) \<Rightarrow> u16 \<Rightarrow> ustr \<Rightarrow> u16 \<Rightarrow> error_kind + bytes" where
  "build_query L new_query tid name record_type =
     ok_or InvalidData (msg_to_vec L ((new_query tid name record_type)\<lparr>msg_recursion_desired := True\<rparr>))"

text \<open>The datagrams that arrive at the socket with their sources; the query times out when none is
  the answer.\<close>

fun transport_udp :: "dns_lib \<Rightarrow> socket_addr \<Rightarrow> u16 \<Rightarrow> (socket_addr \<times> bytes) list \<Rightarrow> error_kind + dns_message" where
  "transport_udp L srv tid [] = Inl TimedOut"
| "transport_udp L srv tid ((source, datagram) # rest) =
     (if source \<noteq> srv then transport_udp L srv tid rest
      else
        case msg_from_vec L (take UDP_RESPONSE_SIZE datagram) of
          None \<Rightarrow> Inl InvalidData
        | Some response \<Rightarrow>
            if msg_id response = tid then Inr response else transport_udp L srv tid rest)"

definition transport_tcp :: "dns_lib \<Rightarrow> bytes \<Rightarrow> u16 \<Rightarrow> error_kind + bytes \<Rightarrow> error_kind + dns_message" where
  "transport_tcp L request tid stream =
     rbind (relay_exchange_tcp L request stream) (\<lambda>response.
       if msg_id response \<noteq> tid then Inl InvalidData else Inr response)"

record transport_io =
  tio_udp :: "nat \<Rightarrow> bytes \<Rightarrow> error_kind + (socket_addr \<times> bytes) list"
  tio_tcp :: "nat \<Rightarrow> bytes \<Rightarrow> error_kind + bytes"

definition transport_exchange ::
  "dns_lib \<Rightarrow> transport_io \<Rightarrow> nat \<Rightarrow> socket_addr \<Rightarrow> bytes \<Rightarrow> u16 \<Rightarrow> error_kind + dns_message" where
  "transport_exchange L net k srv request tid =
     rbind (rbind (tio_udp net k request) (transport_udp L srv tid)) (\<lambda>response.
       if msg_truncation response then transport_tcp L request tid (tio_tcp net k request)
       else Inr response)"

fun lookup_loop ::
  "dns_lib \<Rightarrow> (u16 \<Rightarrow> ustr \<Rightarrow> u16 \<Rightarrow> dns_message) \<Rightarrow> transport_io \<Rightarrow> (nat \<Rightarrow> u16) \<Rightarrow> socket_addr \<Rightarrow> u16 \<Rightarrow>
     nat \<Rightarrow> ustr list \<Rightarrow> nat \<Rightarrow> ustr \<Rightarrow> error_kind + dns_lookup" where
  "lookup_loop L new_query net ids srv record_type 0 visited k name = Inl InvalidData"
| "lookup_loop L new_query net ids srv record_type (Suc n) visited k name =
     (if name \<in> set visited then Inl InvalidData
      else
        rbind (build_query L new_query (ids k) name record_type) (\<lambda>request.
        rbind (transport_exchange L net k srv request (ids k)) (\<lambda>response.
        rbind (parse_response response (ids k) name record_type) (\<lambda>parsed.
        if ps_addresses parsed \<noteq> []
        then Inr \<lparr>lk_addresses = ps_addresses parsed, lk_ttl = unat (ps_ttl parsed) * 1000000\<rparr>
        else
          case ps_canonical_name parsed of
            None \<Rightarrow> Inl AddrNotAvailable
          | Some canonical \<Rightarrow>
              lookup_loop L new_query net ids srv record_type n (name # visited) (k + 1) canonical))))"

definition transport_lookup ::
  "dns_lib \<Rightarrow> (u16 \<Rightarrow> ustr \<Rightarrow> u16 \<Rightarrow> dns_message) \<Rightarrow> (ustr \<Rightarrow> ustr option) \<Rightarrow> transport_io \<Rightarrow> (nat \<Rightarrow> u16) \<Rightarrow>
     socket_addr \<Rightarrow> ustr \<Rightarrow> bool \<Rightarrow> error_kind + dns_lookup" where
  "transport_lookup L new_query name_of net ids srv host ipv4 =
     (case name_of host of
        None \<Rightarrow> Inl InvalidInput
      | Some name \<Rightarrow>
          lookup_loop L new_query net ids srv (if ipv4 then TYPE_A else AAAA) MAX_CNAME_DEPTH [] 0 name)"

section \<open>The closure of accepted names\<close>

text \<open>The alias relation of an answer section.\<close>

definition cname_step :: "dns_record list \<Rightarrow> ustr \<Rightarrow> ustr \<Rightarrow> bool" where
  "cname_step answers a b \<longleftrightarrow> (\<exists>r \<in> set answers. rec_name r = a \<and> rec_data r = RdCname b)"

text \<open>What every step of the loops keeps: accepted names are aliases of the queried one, and the time to
  live only decreases.\<close>

definition cname_inv :: "dns_record list \<Rightarrow> ustr \<Rightarrow> cname_state \<Rightarrow> bool" where
  "cname_inv answers name st \<longleftrightarrow>
     name \<in> set (cs_accepted st) \<and> (\<forall>n \<in> set (cs_accepted st). (cname_step answers)\<^sup>*\<^sup>* name n)"

lemma cname_record_inv:
  assumes "cname_inv answers name st" "r \<in> set answers"
  shows "cname_inv answers name (cname_record st r)"
proof -
  have "(cname_step answers)\<^sup>*\<^sup>* name t" if "rec_name r \<in> set (cs_accepted st)" "rec_data r = RdCname t" for t
  proof -
    have "(cname_step answers)\<^sup>*\<^sup>* name (rec_name r)" using assms(1) that by (simp add: cname_inv_def)
    moreover have "cname_step answers (rec_name r) t" using assms(2) that by (auto simp: cname_step_def)
    ultimately show ?thesis by simp
  qed
  then show ?thesis
    using assms(1) by (auto simp: cname_record_def cname_inv_def split: rdata.splits)
qed

lemma cname_pass_inv:
  "cname_inv answers name st \<Longrightarrow> set rs \<subseteq> set answers \<Longrightarrow> cname_inv answers name (foldl cname_record st rs)"
  by (induction rs arbitrary: st) (auto intro: cname_record_inv)

lemma cname_rounds_inv: "cname_inv answers name st \<Longrightarrow> cname_inv answers name (cname_rounds n answers st)"
proof (induction n arbitrary: st)
  case (Suc n)
  have "cname_inv answers name (st\<lparr>cs_changed := False\<rparr>)" using Suc.prems by (simp add: cname_inv_def)
  then have "cname_inv answers name (foldl cname_record (st\<lparr>cs_changed := False\<rparr>) answers)"
    by (rule cname_pass_inv) simp
  then show ?case using Suc.IH by (simp add: Let_def)
qed simp

lemma cname_record_unchanged: "cname_record st r = st \<or> cs_changed (cname_record st r)"
  by (auto simp: cname_record_def split: rdata.splits)

lemma cname_record_mono:
  "cs_changed st \<Longrightarrow> cs_changed (cname_record st r)" "set (cs_accepted st) \<subseteq> set (cs_accepted (cname_record st r))"
  by (auto simp: cname_record_def split: rdata.splits)

lemma cname_pass_mono:
  "(cs_changed st \<longrightarrow> cs_changed (foldl cname_record st rs)) \<and>
   set (cs_accepted st) \<subseteq> set (cs_accepted (foldl cname_record st rs))"
proof (induction rs arbitrary: st)
  case (Cons r rs)
  then show ?case using cname_record_mono [of st r] by (simp, blast)
qed simp

lemma cname_pass_unchanged:
  "\<not> cs_changed (foldl cname_record st rs) \<Longrightarrow>
   foldl cname_record st rs = st \<and> (\<forall>r \<in> set rs. cname_record st r = st)"
proof (induction rs arbitrary: st)
  case (Cons r rs)
  have "\<not> cs_changed (cname_record st r)"
    using Cons.prems cname_pass_mono [of "cname_record st r" rs] by auto
  then have "cname_record st r = st" using cname_record_unchanged by blast
  then show ?case using Cons by simp
qed simp

definition names_closed :: "dns_record list \<Rightarrow> ustr set \<Rightarrow> bool" where
  "names_closed answers ns \<longleftrightarrow> (\<forall>a b. a \<in> ns \<longrightarrow> cname_step answers a b \<longrightarrow> b \<in> ns)"

lemma fixpoint_closed:
  assumes "\<forall>r \<in> set answers. cname_record st r = st" "\<not> cs_changed st"
  shows "names_closed answers (set (cs_accepted st))"
proof -
  have "b \<in> set (cs_accepted st)" if "r \<in> set answers" "rec_name r \<in> set (cs_accepted st)"
    "rec_data r = RdCname b" for r b
  proof (rule ccontr)
    assume "b \<notin> set (cs_accepted st)"
    then have "cs_changed (cname_record st r)" using that by (simp add: cname_record_def)
    then show False using assms that(1) by simp
  qed
  then show ?thesis by (auto simp: names_closed_def cname_step_def)
qed

text \<open>Alias targets not accepted yet; every round but the last accepts one.\<close>

definition pending_targets :: "dns_record list \<Rightarrow> cname_state \<Rightarrow> ustr set" where
  "pending_targets answers st = {t. \<exists>r \<in> set answers. rec_data r = RdCname t} - set (cs_accepted st)"

lemma finite_targets: "finite {t. \<exists>r \<in> set answers. rec_data r = RdCname t}"
proof -
  have "{t. \<exists>r \<in> set answers. rec_data r = RdCname t} \<subseteq>
      (\<lambda>r. case rec_data r of RdCname t \<Rightarrow> t | _ \<Rightarrow> []) ` set answers"
    by (force simp: image_iff)
  then show ?thesis by (rule finite_subset) simp
qed

lemma cname_pass_progress:
  assumes "\<not> cs_changed st" "cs_changed (foldl cname_record st rs)" "set rs \<subseteq> set answers"
  shows "\<exists>t \<in> pending_targets answers st. t \<in> set (cs_accepted (foldl cname_record st rs))"
  using assms
proof (induction rs)
  case (Cons r rs)
  show ?case
  proof (cases "cname_record st r = st")
    case True
    then show ?thesis using Cons by simp
  next
    case False
    then obtain t where t: "rec_data r = RdCname t" "t \<notin> set (cs_accepted st)"
      "t \<in> set (cs_accepted (cname_record st r))"
      by (auto simp: cname_record_def split: rdata.splits if_splits)
    then have "t \<in> pending_targets answers st" using Cons.prems(3) by (auto simp: pending_targets_def)
    moreover have "t \<in> set (cs_accepted (foldl cname_record st (r # rs)))"
      using t(3) cname_pass_mono [of "cname_record st r" rs] by auto
    ultimately show ?thesis by blast
  qed
qed simp

lemma cname_rounds_closed:
  "card (pending_targets answers st) < n \<Longrightarrow>
   names_closed answers (set (cs_accepted (cname_rounds n answers st)))"
proof (induction n arbitrary: st)
  case (Suc n)
  let ?st = "st\<lparr>cs_changed := False\<rparr>"
  let ?pass = "foldl cname_record ?st answers"
  show ?case
  proof (cases "cs_changed ?pass")
    case False
    then show ?thesis using cname_pass_unchanged [of ?st answers] fixpoint_closed [of answers ?st] by simp
  next
    case True
    then obtain t where "t \<in> pending_targets answers ?st" "t \<in> set (cs_accepted ?pass)"
      using cname_pass_progress [of ?st answers answers] by auto
    moreover have "set (cs_accepted ?st) \<subseteq> set (cs_accepted ?pass)" using cname_pass_mono by blast
    ultimately have "pending_targets answers ?pass \<subset> pending_targets answers st"
      by (auto simp: pending_targets_def)
    moreover have "finite (pending_targets answers st)" using finite_targets by (simp add: pending_targets_def)
    ultimately have "card (pending_targets answers ?pass) < card (pending_targets answers st)"
      by (simp add: psubset_card_mono)
    then show ?thesis using Suc True by (simp add: Let_def)
  qed
qed simp

lemma cname_closure_complete:
  assumes "names_closed answers ns" "name \<in> ns" "(cname_step answers)\<^sup>*\<^sup>* name n"
  shows "n \<in> ns"
  using assms(3,2) assms(1) by (induction rule: rtranclp_induct) (auto simp: names_closed_def)

lemma collect_addresses_spec:
  "set (fst (collect_addresses record_type accepted ttl rs)) =
     {a. \<exists>r \<in> set rs. rec_name r \<in> set accepted \<and> address_of record_type (rec_data r) = Some a}"
  "snd (collect_addresses record_type accepted ttl rs) \<le> ttl"
  "r \<in> set rs \<Longrightarrow> rec_name r \<in> set accepted \<Longrightarrow> address_of record_type (rec_data r) \<noteq> None \<Longrightarrow>
     snd (collect_addresses record_type accepted ttl rs) \<le> rec_ttl r"
proof -
  have *: "set (fst (collect_addresses record_type accepted ttl rs)) =
     {a. \<exists>r \<in> set rs. rec_name r \<in> set accepted \<and> address_of record_type (rec_data r) = Some a} \<and>
   snd (collect_addresses record_type accepted ttl rs) \<le> ttl \<and>
   (\<forall>r \<in> set rs. rec_name r \<in> set accepted \<longrightarrow> address_of record_type (rec_data r) \<noteq> None \<longrightarrow>
     snd (collect_addresses record_type accepted ttl rs) \<le> rec_ttl r)"
  proof (induction rs arbitrary: ttl)
    case (Cons r rs)
    show ?case using Cons [of ttl] Cons [of "min ttl (rec_ttl r)"]
      by (auto split: option.split prod.split)
  qed simp
  show "set (fst (collect_addresses record_type accepted ttl rs)) =
     {a. \<exists>r \<in> set rs. rec_name r \<in> set accepted \<and> address_of record_type (rec_data r) = Some a}"
    "snd (collect_addresses record_type accepted ttl rs) \<le> ttl" using * by simp_all
  show "r \<in> set rs \<Longrightarrow> rec_name r \<in> set accepted \<Longrightarrow> address_of record_type (rec_data r) \<noteq> None \<Longrightarrow>
     snd (collect_addresses record_type accepted ttl rs) \<le> rec_ttl r" using * by blast
qed

text \<open>One pass over the answer follows aliases in the order they stand there; the rounds are passes one after the other, and a
  pass that changes nothing is the last one that could.\<close>

inductive alias_pass :: "dns_record list \<Rightarrow> ustr \<Rightarrow> ustr \<Rightarrow> bool" where
  stays: "alias_pass rs a a"
| skips: "alias_pass rs a b \<Longrightarrow> alias_pass (r # rs) a b"
| follows: "rec_data r = RdCname t \<Longrightarrow> alias_pass rs t b \<Longrightarrow> alias_pass (r # rs) (rec_name r) b"

inductive_simps alias_pass_Nil [simp]: "alias_pass [] a b"

lemma alias_pass_Cons:
  "alias_pass (r # rs) a b \<longleftrightarrow> alias_pass rs a b \<or> rec_name r = a \<and> (\<exists>t. rec_data r = RdCname t \<and> alias_pass rs t b)"
  by (auto intro: alias_pass.intros elim: alias_pass.cases)

lemma cname_record_accepted:
  "set (cs_accepted (cname_record st r)) =
     set (cs_accepted st) \<union> {t. rec_name r \<in> set (cs_accepted st) \<and> rec_data r = RdCname t}"
  by (auto simp: cname_record_def split: rdata.splits)

lemma cname_pass_accepted:
  "set (cs_accepted (foldl cname_record st rs)) = {b. \<exists>a \<in> set (cs_accepted st). alias_pass rs a b}"
proof (induction rs arbitrary: st)
  case (Cons r rs)
  then show ?case by (auto simp: cname_record_accepted alias_pass_Cons)
qed simp

lemma passes_fixed:
  assumes "{b. \<exists>a \<in> A. R a b} = A"
  shows "{b. \<exists>a \<in> A. (R ^^ n) a b} = A"
proof (induction n)
  case (Suc n)
  have "{b. \<exists>a \<in> A. (R ^^ Suc n) a b} = {b. \<exists>c \<in> {b. \<exists>a \<in> A. (R ^^ n) a b}. R c b}" by auto
  then show ?case using Suc assms by simp
qed simp

lemma cname_rounds_passes:
  "set (cs_accepted (cname_rounds n answers st)) = {b. \<exists>a \<in> set (cs_accepted st). (alias_pass answers ^^ n) a b}"
proof (induction n arbitrary: st)
  case (Suc n)
  let ?st = "foldl cname_record (st\<lparr>cs_changed := False\<rparr>) answers"
  have pass: "set (cs_accepted ?st) = {b. \<exists>a \<in> set (cs_accepted st). alias_pass answers a b}"
    using cname_pass_accepted [of "st\<lparr>cs_changed := False\<rparr>" answers] by simp
  show ?case
  proof (cases "cs_changed ?st")
    case True
    have "{b. \<exists>a \<in> set (cs_accepted st). (alias_pass answers ^^ Suc n) a b} =
        {b. \<exists>c \<in> set (cs_accepted ?st). (alias_pass answers ^^ n) c b}"
      unfolding pass by (auto simp: relpowp_commute [symmetric])
    with True Suc show ?thesis by (simp add: Let_def)
  next
    case False
    then have "?st = st\<lparr>cs_changed := False\<rparr>" using cname_pass_unchanged by blast
    then have "set (cs_accepted ?st) = set (cs_accepted st)" by simp
    with pass have "{b. \<exists>a \<in> set (cs_accepted st). alias_pass answers a b} = set (cs_accepted st)" by simp
    from passes_fixed [OF this, of "Suc n"] False \<open>set (cs_accepted ?st) = set (cs_accepted st)\<close> show ?thesis
      by (simp add: Let_def del: relpowp.simps)
  qed
qed simp

lemma few_aliases_closed:
  assumes "length (filter (\<lambda>r. \<exists>t. rec_data r = RdCname t) answers) < MAX_CNAME_DEPTH"
  shows "n \<in> set (cs_accepted (cname_rounds MAX_CNAME_DEPTH answers
      \<lparr>cs_accepted = [name], cs_canonical = None, cs_ttl = - 1, cs_changed = False\<rparr>)) \<longleftrightarrow> (cname_step answers)\<^sup>*\<^sup>* name n"
proof -
  let ?start = "\<lparr>cs_accepted = [name], cs_canonical = None, cs_ttl = - 1 :: u32, cs_changed = False\<rparr>"
  let ?last = "cname_rounds MAX_CNAME_DEPTH answers ?start" and ?cnames = "filter (\<lambda>r. \<exists>t. rec_data r = RdCname t) answers"
  have "cname_inv answers name ?start" by (simp add: cname_inv_def)
  from cname_rounds_inv [OF this] have inv: "cname_inv answers name ?last" .
  have "{t. \<exists>r \<in> set answers. rec_data r = RdCname t} \<subseteq> (\<lambda>r. case rec_data r of RdCname t \<Rightarrow> t | _ \<Rightarrow> []) ` set ?cnames"
    by (force simp: image_iff)
  then have "card (pending_targets answers ?start) \<le> card ((\<lambda>r. case rec_data r of RdCname t \<Rightarrow> t | _ \<Rightarrow> []) ` set ?cnames)"
    by (intro card_mono) (auto simp: pending_targets_def)
  also have "\<dots> \<le> length ?cnames" by (meson List.finite_set card_image_le card_length le_trans)
  finally have "names_closed answers (set (cs_accepted ?last))" using assms by (intro cname_rounds_closed) simp
  then show ?thesis
    using inv cname_closure_complete [of answers "set (cs_accepted ?last)" name n] by (auto simp: cname_inv_def)
qed

section \<open>Properties\<close>

text \<open>C31 (addresses of an answer). An accepted answer matches the query in ID and question. The addresses taken from it are
  exactly those of the requested type on records whose owner is reached from the queried name within eight passes over the
  answer, each of which follows aliases only in the order they stand in the answer; each address occurs once, and their common
  time to live is no longer than that of any of these records. With fewer than eight aliases in the answer eight passes reach
  every name that any number of aliases reaches.\<close>

theorem parse_response_exact:
  assumes "parse_response response tid name record_type = Inr p"
  shows "msg_id response = tid \<and> (\<exists>c. msg_queries response = [(name, record_type, c)]) \<and>
    set (ps_addresses p) =
      {a. \<exists>r \<in> set (msg_answers response). (alias_pass (msg_answers response) ^^ 8) name (rec_name r) \<and>
            address_of record_type (rec_data r) = Some a} \<and>
    distinct (ps_addresses p) \<and>
    (\<forall>r \<in> set (msg_answers response). (alias_pass (msg_answers response) ^^ 8) name (rec_name r) \<longrightarrow>
       address_of record_type (rec_data r) \<noteq> None \<longrightarrow> ps_ttl p \<le> rec_ttl r) \<and>
    (length (filter (\<lambda>r. \<exists>t. rec_data r = RdCname t) (msg_answers response)) < 8 \<longrightarrow>
       (\<forall>n. (alias_pass (msg_answers response) ^^ 8) name n \<longleftrightarrow> (cname_step (msg_answers response))\<^sup>*\<^sup>* name n))"
proof -
  let ?as = "msg_answers response"
  let ?st0 = "\<lparr>cs_accepted = [name], cs_canonical = None, cs_ttl = - 1 :: u32, cs_changed = False\<rparr>"
  define st where "st = cname_rounds MAX_CNAME_DEPTH ?as ?st0"
  have hd: "msg_id response = tid" "\<exists>c. msg_queries response = [(name, record_type, c)]"
    using assms(1) by (auto simp: parse_response_def length_Suc_conv split: if_splits)
  obtain addresses ttl where c: "collect_addresses record_type (cs_accepted st) (cs_ttl st) ?as = (addresses, ttl)"
    by fastforce
  have p: "p = \<lparr>ps_addresses = dedup_seen [] addresses, ps_canonical_name = cs_canonical st,
                ps_ttl = (if ttl = - 1 then 0 else ttl)\<rparr>"
    using assms(1) c by (auto simp: parse_response_def st_def Let_def split: if_splits)
  have acc: "n \<in> set (cs_accepted st) \<longleftrightarrow> (alias_pass ?as ^^ 8) name n" for n
    unfolding st_def by (subst cname_rounds_passes) simp
  note s = collect_addresses_spec [where record_type = record_type and accepted = "cs_accepted st" and
      ttl = "cs_ttl st" and rs = ?as, unfolded c fst_conv snd_conv]
  have "set (ps_addresses p) = {a. \<exists>r \<in> set ?as. (alias_pass ?as ^^ 8) name (rec_name r) \<and>
            address_of record_type (rec_data r) = Some a}"
    using s(1) by (simp add: p set_dedup_seen acc)
  moreover have "ps_ttl p \<le> rec_ttl r" if "r \<in> set ?as" "(alias_pass ?as ^^ 8) name (rec_name r)"
      "address_of record_type (rec_data r) \<noteq> None" for r
    using s(3) [OF that(1)] that acc by (simp add: p)
  moreover have "(alias_pass ?as ^^ 8) name n \<longleftrightarrow> (cname_step ?as)\<^sup>*\<^sup>* name n"
    if "length (filter (\<lambda>r. \<exists>t. rec_data r = RdCname t) ?as) < 8" for n
    using few_aliases_closed [OF that, of n name, folded st_def] acc by simp
  ultimately show ?thesis using hd by (auto simp: p distinct_dedup_seen)
qed

definition demo_answer :: dns_message where
  "demo_answer =
     \<lparr>msg_id = 7, msg_op_code = 0, msg_is_query = False, msg_recursion_desired = True,
      msg_recursion_available = True, msg_response_code = NoError, msg_queries = [([0x61], 1, 1)],
      msg_truncation = False, msg_max_payload = 512,
      msg_answers = [\<lparr>rec_name = [0x62], rec_ttl = 30, rec_data = RdA 0x0a000001\<rparr>,
                     \<lparr>rec_name = [0x61], rec_ttl = 60, rec_data = RdCname [0x62]\<rparr>]\<rparr>"

text \<open>A chain of aliases against the order of the answer needs a pass for each of them.\<close>

definition demo_chain :: "nat \<Rightarrow> dns_message" where
  "demo_chain n = demo_answer\<lparr>msg_queries := [([0], 1, 1)], msg_answers := \<lparr>rec_name = [n], rec_ttl = 30, rec_data = RdA 1\<rparr> #
     map (\<lambda>i. \<lparr>rec_name = [i], rec_ttl = 60, rec_data = RdCname [Suc i]\<rparr>) (rev [0..<n])\<rparr>"

theorem parse_response_exact_witness:
  "\<exists>p. parse_response (demo_chain 8) 7 [0] 1 = Inr p \<and> ps_addresses p = [V4 1] \<and>
     (\<exists>q. parse_response (demo_chain 9) 7 [0] 1 = Inr q \<and> ps_addresses q = [] \<and>
        \<not> (alias_pass (msg_answers (demo_chain 9)) ^^ 8) [0] [9])"
proof -
  have c: "case parse_response (demo_chain 8) 7 [0] 1 of Inl _ \<Rightarrow> False | Inr p \<Rightarrow> ps_addresses p = [V4 1]"
    "case parse_response (demo_chain 9) 7 [0] 1 of Inl _ \<Rightarrow> False | Inr p \<Rightarrow> ps_addresses p = []" by code_simp+
  then obtain p q where p: "parse_response (demo_chain 8) 7 [0] 1 = Inr p" "ps_addresses p = [V4 1]"
    and q: "parse_response (demo_chain 9) 7 [0] 1 = Inr q" "ps_addresses q = []" by (auto split: sum.splits)
  have "\<lparr>rec_name = [9], rec_ttl = 30, rec_data = RdA 1\<rparr> \<in> set (msg_answers (demo_chain 9))"
    by (simp add: demo_chain_def)
  moreover have "address_of 1 (RdA 1) = Some (V4 1)" by (simp add: address_of_def)
  ultimately have "\<not> (alias_pass (msg_answers (demo_chain 9)) ^^ 8) [0] [9]"
    using parse_response_exact [OF q(1)] q(2) by fastforce
  with p q show ?thesis by blast
qed

lemma address_of_family: "address_of record_type d = Some a \<Longrightarrow> is_ipv4 a \<longleftrightarrow> record_type = TYPE_A"
  by (auto simp: address_of_def split: rdata.splits if_splits)

lemma cname_rounds_numeral:
  "cname_rounds (numeral k) answers st =
     (let st' = foldl cname_record (st\<lparr>cs_changed := False\<rparr>) answers in
      if cs_changed st' then cname_rounds (pred_numeral k) answers st' else st')"
  by (simp add: numeral_eq_Suc)

lemma lookup_loop_numeral:
  "lookup_loop L new_query net ids srv record_type (numeral m) visited k name =
   lookup_loop L new_query net ids srv record_type (Suc (pred_numeral m)) visited k name"
  by (simp only: numeral_eq_Suc)

lemma parse_response_family:
  assumes "parse_response response tid name record_type = Inr p"
  shows "distinct (ps_addresses p) \<and> msg_id response = tid \<and>
    (\<forall>a \<in> set (ps_addresses p). is_ipv4 a \<longleftrightarrow> record_type = TYPE_A)"
proof -
  define st where "st = cname_rounds MAX_CNAME_DEPTH (msg_answers response)
      \<lparr>cs_accepted = [name], cs_canonical = None, cs_ttl = - 1 :: u32, cs_changed = False\<rparr>"
  obtain addresses ttl where
    c: "collect_addresses record_type (cs_accepted st) (cs_ttl st) (msg_answers response) = (addresses, ttl)"
    by fastforce
  have p: "ps_addresses p = dedup_seen [] addresses" "msg_id response = tid"
    using assms c by (auto simp: parse_response_def st_def Let_def split: if_splits)
  have "is_ipv4 a \<longleftrightarrow> record_type = TYPE_A" if "a \<in> set addresses" for a
    using that collect_addresses_spec(1) [of record_type "cs_accepted st" "cs_ttl st" "msg_answers response"] c
    by (auto dest: address_of_family)
  then show ?thesis using p by (simp add: set_dedup_seen distinct_dedup_seen)
qed

lemma lookup_loop_sound:
  "lookup_loop L new_query net ids srv record_type n visited k name = Inr r \<Longrightarrow>
   lk_addresses r \<noteq> [] \<and> distinct (lk_addresses r) \<and>
   (\<forall>a \<in> set (lk_addresses r). is_ipv4 a \<longleftrightarrow> record_type = TYPE_A)"
proof (induction n arbitrary: visited k name)
  case (Suc n)
  then obtain request response parsed where
    p: "parse_response response (ids k) name record_type = Inr parsed" and
    rest: "(if ps_addresses parsed \<noteq> []
        then Inr \<lparr>lk_addresses = ps_addresses parsed, lk_ttl = unat (ps_ttl parsed) * 1000000\<rparr>
        else case ps_canonical_name parsed of
            None \<Rightarrow> Inl AddrNotAvailable
          | Some canonical \<Rightarrow>
              lookup_loop L new_query net ids srv record_type n (name # visited) (k + 1) canonical) = Inr r"
    by (auto simp: rbind_eq_Ok split: if_splits)
  show ?case
  proof (cases "ps_addresses parsed = []")
    case True
    then show ?thesis using rest Suc.IH by (auto split: option.splits)
  next
    case False
    then show ?thesis using rest parse_response_family [OF p] by auto
  qed
qed simp

text \<open>(lookup). A successful lookup yields at least one address, each once, and only addresses of the
  requested family.\<close>

theorem transport_lookup_sound:
  assumes "transport_lookup L new_query name_of net ids srv host ipv4 = Inr r"
  shows "lk_addresses r \<noteq> [] \<and> distinct (lk_addresses r) \<and>
    (\<forall>a \<in> set (lk_addresses r). is_ipv4 a \<longleftrightarrow> ipv4)"
proof -
  obtain name where "lookup_loop L new_query net ids srv (if ipv4 then TYPE_A else AAAA) MAX_CNAME_DEPTH [] 0 name = Inr r"
    using assms by (auto simp: transport_lookup_def split: option.splits)
  from lookup_loop_sound [OF this] show ?thesis by (cases ipv4) auto
qed

definition demo_transport_lib :: dns_lib where
  "demo_transport_lib = \<lparr>msg_from_vec = (\<lambda>_. Some demo_answer), msg_to_vec = (\<lambda>_. Some [1]),
      msg_response = (\<lambda>_ _. demo_answer)\<rparr>"

theorem transport_lookup_sound_witness:
  "\<exists>r. transport_lookup demo_transport_lib (\<lambda>_ _ _. demo_answer) Some
      \<lparr>tio_udp = (\<lambda>_ _. Inr [(\<lparr>sa_ip = V4 1, sa_port = 53\<rparr>, [2])]), tio_tcp = (\<lambda>_ _. Inl TimedOut)\<rparr>
      (\<lambda>_. 7) \<lparr>sa_ip = V4 1, sa_port = 53\<rparr> [0x61] True = Inr r \<and> lk_addresses r \<noteq> []"
proof -
  obtain p where p: "parse_response demo_answer 7 [0x61] 1 = Inr p" "ps_addresses p \<noteq> []"
    by (simp add: parse_response_def demo_answer_def Let_def cname_rounds_numeral cname_record_def address_of_def)
  have "msg_id demo_answer = 7" "\<not> msg_truncation demo_answer" by (simp_all add: demo_answer_def)
  then obtain r where "transport_lookup demo_transport_lib (\<lambda>_ _ _. demo_answer) Some
      \<lparr>tio_udp = (\<lambda>_ _. Inr [(\<lparr>sa_ip = V4 1, sa_port = 53\<rparr>, [2])]), tio_tcp = (\<lambda>_ _. Inl TimedOut)\<rparr>
      (\<lambda>_. 7) \<lparr>sa_ip = V4 1, sa_port = 53\<rparr> [0x61] True = Inr r"
    using p unfolding transport_lookup_def option.case if_True lookup_loop_numeral lookup_loop.simps
    by (simp add: build_query_def transport_exchange_def demo_transport_lib_def)
  from transport_lookup_sound [OF this] this show ?thesis by blast
qed

end
