(* ===== verification/Utf8.thy ===== *)
theory Utf8
  imports Rust_Text
begin

text \<open>
  UTF-8 as the standard library encodes and checks it: the bytes of a text (\<open>as_bytes\<close>) and the
  strict decoder (\<open>String::from_utf8\<close>), which refuses what the lossy decoder of
  \<open>Session_Open\<close> replaces. Hexadecimal text of bytes.
\<close>

section \<open>Encoding\<close>

text \<open>A \<open>char\<close> is a Unicode scalar value.\<close>

definition is_scalar :: "nat \<Rightarrow> bool" where
  "is_scalar c \<longleftrightarrow> c < 0xd800 \<or> 0xe000 \<le> c \<and> c < 0x110000"

definition utf8_char :: "nat \<Rightarrow> bytes" where
  "utf8_char c =
     map of_nat
       (if c < 0x80 then [c]
        else if c < 0x800 then [0xc0 + c div 64, 0x80 + c mod 64]
        else if c < 0x10000 then [0xe0 + c div 4096, 0x80 + c div 64 mod 64, 0x80 + c mod 64]
        else [0xf0 + c div 262144, 0x80 + c div 4096 mod 64, 0x80 + c div 64 mod 64, 0x80 + c mod 64])"

definition utf8_bytes :: "ustr \<Rightarrow> bytes" where
  "utf8_bytes s = concat (map utf8_char s)"

function from_utf8 :: "bytes \<Rightarrow> ustr option" where
  "from_utf8 bs =
     (if bs = [] then Some []
      else if utf8_char (fst (utf8_step bs)) = take (snd (utf8_step bs)) bs
      then map_option (Cons (fst (utf8_step bs))) (from_utf8 (drop (snd (utf8_step bs)) bs))
      else None)"
  by pat_completeness auto
termination
  by (relation "measure length") (auto simp: utf8_step_def Let_def)

declare from_utf8.simps [simp del]

section \<open>The round trip\<close>

lemma utf8_bytes_simps [simp]:
  "utf8_bytes [] = []" "utf8_bytes (c # s) = utf8_char c @ utf8_bytes s"
  "utf8_bytes (s @ t) = utf8_bytes s @ utf8_bytes t"
  by (simp_all add: utf8_bytes_def)

lemma unat_byte: "n < 256 \<Longrightarrow> unat (of_nat n :: u8) = n"
  by (simp add: unat_of_nat)

lemma byte_at_map: "i < length xs \<Longrightarrow> xs ! i < 256 \<Longrightarrow> byte_at (map of_nat xs @ bs) i = xs ! i"
  by (simp add: byte_at_def nth_append unat_byte del: of_nat_add)

lemma div_64: "(c :: nat) div 64 = c div 4096 * 64 + c div 64 mod 64" "c div 4096 = c div 262144 * 64 + c div 4096 mod 64"
  using div_mult_mod_eq [of "c div 64" 64] div_mult_mod_eq [of "c div 4096" 64]
  by (simp_all add: div_mult2_eq [symmetric])

lemma mod_64: "(c :: nat) = c div 64 * 64 + c mod 64"
  by simp

lemma step_2:
  assumes "byte_at L 0 = 0xc0 + p" "byte_at L 1 = 0x80 + q" "2 \<le> p" "p < 32" "q < 64"
  shows "utf8_step L = (p * 64 + q, 2)"
  using assms(3-) unfolding utf8_step_def Let_def assms(1,2) by (simp add: is_cont_def)

lemma step_3:
  assumes "byte_at L 0 = 0xe0 + p" "byte_at L 1 = 0x80 + q" "byte_at L 2 = 0x80 + r"
    "p \<le> 15" "q < 64" "r < 64" "p = 0 \<Longrightarrow> 32 \<le> q" "p = 13 \<Longrightarrow> q < 32"
  shows "utf8_step L = (p * 4096 + q * 64 + r, 3)"
  using assms(4-) unfolding utf8_step_def Let_def assms(1-3) by (cases "p = 0"; cases "p = 13") (simp_all add: is_cont_def)

lemma step_4:
  assumes "byte_at L 0 = 0xf0 + p" "byte_at L 1 = 0x80 + q" "byte_at L 2 = 0x80 + r" "byte_at L 3 = 0x80 + s"
    "p \<le> 4" "q < 64" "r < 64" "s < 64" "p = 0 \<Longrightarrow> 16 \<le> q" "p = 4 \<Longrightarrow> q < 16"
  shows "utf8_step L = (p * 262144 + q * 4096 + r * 64 + s, 4)"
  using assms(5-) unfolding utf8_step_def Let_def assms(1-4) by (cases "p = 0"; cases "p = 4") (simp_all add: is_cont_def)

lemma utf8_step_4:
  assumes "c < 0x110000" "0x10000 \<le> c"
  shows "utf8_step (utf8_char c @ bs) = (c, 4)"
proof -
  define p q r s where "p = c div 262144" and "q = c div 4096 mod 64" and "r = c div 64 mod 64" and "s = c mod 64"
  have b: "p \<le> 4" "q < 64" "r < 64" "s < 64" using assms by (simp_all add: p_def q_def r_def s_def)
  have c: "c = p * 262144 + q * 4096 + r * 64 + s"
    using div_64 [of c] mod_64 [of c] unfolding p_def q_def r_def s_def by linarith
  have lo: "p = 0 \<Longrightarrow> 16 \<le> q" and hi: "p = 4 \<Longrightarrow> q < 16" using c assms b by linarith+
  have "utf8_char c = map of_nat [0xf0 + p, 0x80 + q, 0x80 + r, 0x80 + s]"
    using assms by (simp add: utf8_char_def p_def q_def r_def s_def)
  then have "byte_at (utf8_char c @ bs) 0 = 0xf0 + p" "byte_at (utf8_char c @ bs) 1 = 0x80 + q" "byte_at (utf8_char c @ bs) 2 = 0x80 + r" "byte_at (utf8_char c @ bs) 3 = 0x80 + s"
    using b by (simp_all add: byte_at_map del: list.map of_nat_add)
  from step_4 [OF this b lo hi] show ?thesis by (simp add: c [symmetric])
qed

lemma utf8_step_3:
  assumes "c < 0x10000" "0x800 \<le> c" "is_scalar c"
  shows "utf8_step (utf8_char c @ bs) = (c, 3)"
proof -
  define p q r where "p = c div 4096" and "q = c div 64 mod 64" and "r = c mod 64"
  have b: "p \<le> 15" "q < 64" "r < 64" using assms by (simp_all add: p_def q_def r_def)
  have c: "c = p * 4096 + q * 64 + r"
    using div_64 [of c] mod_64 [of c] unfolding p_def q_def r_def by linarith
  have lo: "p = 0 \<Longrightarrow> 32 \<le> q" and sur: "p = 13 \<Longrightarrow> q < 32"
    using c assms b unfolding is_scalar_def by linarith+
  have "utf8_char c = map of_nat [0xe0 + p, 0x80 + q, 0x80 + r]"
    using assms by (simp add: utf8_char_def p_def q_def r_def)
  then have "byte_at (utf8_char c @ bs) 0 = 0xe0 + p" "byte_at (utf8_char c @ bs) 1 = 0x80 + q" "byte_at (utf8_char c @ bs) 2 = 0x80 + r"
    using b by (simp_all add: byte_at_map del: list.map of_nat_add)
  from step_3 [OF this b lo sur] show ?thesis by (simp add: c [symmetric])
qed

lemma utf8_step_2:
  assumes "c < 0x800" "0x80 \<le> c"
  shows "utf8_step (utf8_char c @ bs) = (c, 2)"
proof -
  define p q where "p = c div 64" and "q = c mod 64"
  have b: "p < 32" "2 \<le> p" "q < 64" using assms by (simp_all add: p_def q_def)
  have c: "c = p * 64 + q" by (simp add: p_def q_def)
  have "utf8_char c = map of_nat [0xc0 + p, 0x80 + q]" using assms by (simp add: utf8_char_def p_def q_def)
  then have "byte_at (utf8_char c @ bs) 0 = 0xc0 + p" "byte_at (utf8_char c @ bs) 1 = 0x80 + q"
    using b by (simp_all add: byte_at_map del: list.map of_nat_add)
  from step_2 [OF this b(2,1,3)] show ?thesis by (simp add: c [symmetric])
qed

lemma utf8_step_char:
  assumes "is_scalar c"
  shows "utf8_step (utf8_char c @ bs) = (c, length (utf8_char c))"
proof -
  consider "c < 0x80" | "0x80 \<le> c" "c < 0x800" | "0x800 \<le> c" "c < 0x10000" | "0x10000 \<le> c" "c < 0x110000"
    using assms unfolding is_scalar_def by linarith
  then show ?thesis
  proof cases
    case 1
    then show ?thesis by (simp add: utf8_char_def utf8_step_def byte_at_def unat_byte Let_def)
  next
    case 2
    then show ?thesis using utf8_step_2 [of c bs] by (simp add: utf8_char_def)
  next
    case 3
    then show ?thesis using utf8_step_3 [of c bs] assms by (simp add: utf8_char_def)
  next
    case 4
    then show ?thesis using utf8_step_4 [of c bs] by (simp add: utf8_char_def)
  qed
qed

lemma utf8_char_nonempty [simp]: "utf8_char c \<noteq> []"
  by (simp add: utf8_char_def)

lemma from_utf8_bytes [simp]: "list_all is_scalar s \<Longrightarrow> from_utf8 (utf8_bytes s) = Some s"
proof (induction s)
  case (Cons c s)
  then show ?case by (subst from_utf8.simps) (simp add: utf8_step_char)
qed (simp add: from_utf8.simps)

lemma utf8_from_utf8: "from_utf8 bs = Some s \<Longrightarrow> utf8_bytes s = bs"
proof (induction bs arbitrary: s rule: from_utf8.induct)
  case (1 bs)
  show ?case
  proof (cases "bs = []")
    case True
    then show ?thesis using 1(2) by (simp add: from_utf8.simps)
  next
    case False
    with 1(2) obtain t where ok: "utf8_char (fst (utf8_step bs)) = take (snd (utf8_step bs)) bs"
      and t: "from_utf8 (drop (snd (utf8_step bs)) bs) = Some t" "s = fst (utf8_step bs) # t"
      by (subst (asm) from_utf8.simps) (auto split: if_splits)
    from 1(1) [OF False ok t(1)] show ?thesis by (simp add: t(2) ok)
  qed
qed

lemma ascii_utf8: "list_all (\<lambda>c. c < 0x80) s \<Longrightarrow> utf8_bytes s = map of_nat s"
  by (induction s) (simp_all add: utf8_char_def)

section \<open>Hexadecimal text\<close>

definition hex_digit :: "nat \<Rightarrow> nat" where
  "hex_digit n = (if n < 10 then 0x30 + n else 0x61 + (n - 10))"

definition hex_lower :: "bytes \<Rightarrow> ustr" where
  "hex_lower bs = concat (map (\<lambda>b. [hex_digit (unat b div 16), hex_digit (unat b mod 16)]) bs)"

lemma length_hex_lower [simp]: "length (hex_lower bs) = 2 * length bs"
  by (induction bs) (simp_all add: hex_lower_def)

lemma hex_lower_ascii: "c \<in> set (hex_lower bs) \<Longrightarrow> is_digit c \<or> 0x61 \<le> c \<and> c \<le> 0x66"
proof -
  have "is_digit (hex_digit n) \<or> 0x61 \<le> hex_digit n \<and> hex_digit n \<le> 0x66" if "n < 16" for n
    using that by (auto simp: hex_digit_def is_digit_def)
  moreover assume "c \<in> set (hex_lower bs)"
  then obtain b where "b \<in> set bs" "c = hex_digit (unat b div 16) \<or> c = hex_digit (unat b mod 16)"
    by (auto simp: hex_lower_def)
  moreover have "unat (b :: u8) div 16 < 16" "unat (b :: u8) mod 16 < 16" for b
    using unsigned_less [of b, where 'a = nat] by simp_all
  ultimately show ?thesis by blast
qed

end
