(* ===== verification/Managed_Security.thy ===== *)
theory Managed_Security
  imports Utf8 Routes "HOL-Library.List_Lexorder"
begin

text \<open>
  Signed requests to the controller (\<open>src/managed/security.rs\<close>) over the request types of
  \<open>src/managed/http.rs\<close>. The digests of the crates \<open>sha2\<close> and \<open>hmac\<close> and the parser of the crate
  \<open>url\<close> are the parameter \<open>sec_lib\<close>; a parsed URL is the record of the components the code reads.
  Clock readings and random bytes are arguments.
\<close>

section \<open>Requests\<close>

record http_request =
  req_method :: string
  req_url :: ustr
  req_headers :: "(ustr \<times> ustr) list"
  req_body :: bytes
  req_timeout :: "duration option"

record http_response =
  rsp_status :: u16
  rsp_body :: bytes

text \<open>\<open>HttpTransport::execute\<close>: the answer to a request after the requests made before it.\<close>

type_synonym transport = "http_request list \<Rightarrow> http_request \<Rightarrow> http_response result"

record url =
  url_scheme :: ustr
  url_host :: "ustr option"
  url_username :: ustr
  url_password :: "ustr option"
  url_path :: ustr
  url_query :: "ustr option"
  url_fragment :: "ustr option"

record sec_lib =
  sha256 :: "bytes \<Rightarrow> bytes"
  hmac_sha256 :: "bytes \<Rightarrow> bytes \<Rightarrow> bytes option"
  url_parse :: "ustr \<Rightarrow> url option"

section \<open>Percent decoding\<close>

definition hex_value :: "u8 \<Rightarrow> u8 option" where
  "hex_value b =
     (if 0x30 \<le> b \<and> b \<le> 0x39 then Some (b - 0x30)
      else if 0x61 \<le> b \<and> b \<le> 0x66 then Some (b - 0x61 + 10)
      else if 0x41 \<le> b \<and> b \<le> 0x46 then Some (b - 0x41 + 10)
      else None)"

text \<open>The decoding loop; \<open>None\<close> where the source returns the text unchanged.\<close>

fun percent_decode :: "bool \<Rightarrow> bytes \<Rightarrow> bytes option" where
  "percent_decode plus_as_space [] = Some []"
| "percent_decode plus_as_space (b # bs) =
     (if b = 0x2b \<and> plus_as_space then map_option (Cons 0x20) (percent_decode plus_as_space bs)
      else if b = 0x25 then
        (case bs of
           h # l # rest \<Rightarrow>
             (case hex_value h of
                None \<Rightarrow> None
              | Some high \<Rightarrow>
                  (case hex_value l of
                     None \<Rightarrow> None
                   | Some low \<Rightarrow>
                       map_option (Cons (push_bit 4 high OR low)) (percent_decode plus_as_space rest)))
         | _ \<Rightarrow> None)
      else map_option (Cons b) (percent_decode plus_as_space bs))"

definition decode_component :: "ustr \<Rightarrow> bool \<Rightarrow> ustr" where
  "decode_component s plus_as_space =
     (case percent_decode plus_as_space (utf8_bytes s) of
        None \<Rightarrow> s
      | Some decoded \<Rightarrow> (case from_utf8 decoded of None \<Rightarrow> s | Some t \<Rightarrow> t))"

section \<open>Canonical requests\<close>

text \<open>A \<open>BTreeMap\<close> is the list of its entries in the order of the keys; the order of Rust strings is
  the lexicographic order of their characters.\<close>

fun entry_or_insert :: "ustr \<Rightarrow> 'v \<Rightarrow> (ustr \<times> 'v) list \<Rightarrow> (ustr \<times> 'v) list" where
  "entry_or_insert k v [] = [(k, v)]"
| "entry_or_insert k v ((k', v') # m) =
     (if k = k' then (k', v') # m
      else if k < k' then (k, v) # (k', v') # m
      else (k', v') # entry_or_insert k v m)"

definition query_pair :: "ustr \<Rightarrow> ustr \<times> ustr" where
  "query_pair pair =
     (let (name, v) = (case split_once 0x3d pair of Some nv \<Rightarrow> nv | None \<Rightarrow> (pair, [])) in
      (decode_component name True, decode_component v True))"

fun join_with :: "ustr \<Rightarrow> ustr list \<Rightarrow> ustr" where
  "join_with sep [] = []"
| "join_with sep [x] = x"
| "join_with sep (x # y # ys) = x @ sep @ join_with sep (y # ys)"

definition canonical_query :: "ustr option \<Rightarrow> ustr" where
  "canonical_query raw =
     join_with (ascii_str ''&'')
       (map (\<lambda>(name, v). name @ ascii_str ''='' @ v)
         (foldl (\<lambda>m (name, v). entry_or_insert name v m) []
           (case raw of None \<Rightarrow> [] | Some q \<Rightarrow> map query_pair (split_char 0x26 q))))"

definition https_only :: "url \<Rightarrow> bool" where
  "https_only u \<longleftrightarrow>
     url_scheme u = ascii_str ''https'' \<and> url_host u \<noteq> None \<and> url_username u = [] \<and>
     url_password u = None \<and> url_fragment u = None"

abbreviation (input) LF :: ustr where "LF \<equiv> [0x0a]"

definition canonical_http_request ::
  "sec_lib \<Rightarrow> string \<Rightarrow> ustr \<Rightarrow> bytes \<Rightarrow> ustr \<Rightarrow> ustr \<Rightarrow> ustr result" where
  "canonical_http_request S meth endpoint exact_body timestamp nonce =
     (if meth = [] \<or> \<not> list_all (\<lambda>c. 0x41 \<le> c \<and> c \<le> 0x5a) (ascii_str meth)
      then Err (Controller ''mobile API method must be non-empty uppercase ASCII'')
      else case url_parse S endpoint of
        None \<Rightarrow> Err (Controller ''invalid mobile API URL: {error}'')
      | Some url \<Rightarrow>
          if \<not> https_only url
          then Err (Controller ''mobile API URL must be HTTPS without credentials or a fragment'')
          else
            (let path = decode_component (url_path url) False;
                 path = (if path = [] then ascii_str ''/'' else path)
             in Ok (ascii_str meth @ LF @ path @ LF @ canonical_query (url_query url) @ LF @
                    hex_lower (sha256 S exact_body) @ LF @ timestamp @ LF @ nonce)))"

definition sign_http_request ::
  "sec_lib \<Rightarrow> string \<Rightarrow> ustr \<Rightarrow> bytes \<Rightarrow> ustr \<Rightarrow> ustr \<Rightarrow> bytes \<Rightarrow> ustr result" where
  "sign_http_request S meth endpoint exact_body timestamp nonce app_secret =
     rbind (canonical_http_request S meth endpoint exact_body timestamp nonce) (\<lambda>canonical.
       case hmac_sha256 S app_secret (utf8_bytes canonical) of
         None \<Rightarrow> Err (Crypto ''invalid mobile API HMAC key'')
       | Some mac \<Rightarrow> Ok (hex_lower mac))"

section \<open>Credentials and headers\<close>

record api_credentials =
  app_id :: ustr
  app_secret :: ustr

definition platform_credentials :: "target_os \<Rightarrow> api_credentials" where
  "platform_credentials os =
     (case os of
        Linux \<Rightarrow> \<lparr>app_id = ascii_str ''mobile_android'', app_secret = ascii_str ''7fbJnRiEVWfBF68yjPpQpDeY''\<rparr>
      | _ \<Rightarrow> \<lparr>app_id = ascii_str ''mobile_windows'', app_secret = ascii_str ''CX0QM39kk3Uw8ErpZN3yJhQp''\<rparr>)"

definition auth_headers :: "ustr \<Rightarrow> ustr \<Rightarrow> ustr \<Rightarrow> ustr \<Rightarrow> (ustr \<times> ustr) list" where
  "auth_headers ident timestamp nonce sig =
     [(ascii_str ''X-Auth-AppId'', ident), (ascii_str ''X-Auth-Timestamp'', timestamp),
      (ascii_str ''X-Auth-Nonce'', nonce), (ascii_str ''X-Auth-Sign'', sig)]"

definition authentication_headers ::
  "sec_lib \<Rightarrow> string \<Rightarrow> ustr \<Rightarrow> bytes \<Rightarrow> ustr \<Rightarrow> ustr \<Rightarrow> api_credentials \<Rightarrow> (ustr \<times> ustr) list result" where
  "authentication_headers S meth endpoint exact_body timestamp nonce credentials =
     rmap (auth_headers (app_id credentials) timestamp nonce)
       (sign_http_request S meth endpoint exact_body timestamp nonce (utf8_bytes (app_secret credentials)))"

text \<open>The clock is the number of seconds since 1970, or \<open>None\<close> before it; the nonce is 16 random
  bytes.\<close>

record stamp =
  stamp_secs :: "nat option"
  stamp_random :: bytes

definition timestamp_now :: "stamp \<Rightarrow> ustr result" where
  "timestamp_now st =
     (case stamp_secs st of
        None \<Rightarrow> Err (Controller ''system clock is before the Unix epoch'')
      | Some secs \<Rightarrow> Ok (dec secs))"

definition random_nonce :: "stamp \<Rightarrow> ustr" where
  "random_nonce st = hex_lower (stamp_random st)"

definition mobile_api_headers ::
  "sec_lib \<Rightarrow> target_os \<Rightarrow> stamp \<Rightarrow> string \<Rightarrow> ustr \<Rightarrow> bytes \<Rightarrow> (ustr \<times> ustr) list result" where
  "mobile_api_headers S os st meth endpoint exact_body =
     rbind (timestamp_now st) (\<lambda>timestamp.
       authentication_headers S meth endpoint exact_body timestamp (random_nonce st) (platform_credentials os))"

definition mobile_api_headers_with_credentials ::
  "sec_lib \<Rightarrow> stamp \<Rightarrow> string \<Rightarrow> ustr \<Rightarrow> bytes \<Rightarrow> ustr \<Rightarrow> ustr \<Rightarrow> (ustr \<times> ustr) list result" where
  "mobile_api_headers_with_credentials S st meth endpoint exact_body ident secret =
     rbind (timestamp_now st) (\<lambda>timestamp.
     rbind (sign_http_request S meth endpoint exact_body timestamp (random_nonce st) (utf8_bytes secret)) (\<lambda>sig.
     Ok (auth_headers ident timestamp (random_nonce st) sig)))"

definition controller_secret :: "sec_lib \<Rightarrow> ustr \<Rightarrow> ustr result" where
  "controller_secret S ident =
     (if ident = [] then Err (Controller ''controller lookup has an empty app_id'')
      else if ident = ascii_str ''saas-panabit'' \<or> ident = ascii_str ''saas-unisase''
      then Ok (ascii_str ''def456_secret_for_android'')
      else if contains_str ident (ascii_str ''panabit'') then Ok (ascii_str ''lPrdS0GtGQShkK5MAc1zMAks'')
      else case hmac_sha256 S (utf8_bytes (ascii_str ''panabit_saas_secret_salt_v1_2025'')) (utf8_bytes ident) of
        None \<Rightarrow> Err (Crypto ''invalid controller secret derivation key'')
      | Some mac \<Rightarrow> Ok (take 24 (hex_lower mac)))"

definition controller_api_headers ::
  "sec_lib \<Rightarrow> stamp \<Rightarrow> string \<Rightarrow> ustr \<Rightarrow> bytes \<Rightarrow> ustr \<Rightarrow> (ustr \<times> ustr) list result" where
  "controller_api_headers S st meth endpoint exact_body ident =
     rbind (controller_secret S ident) (\<lambda>secret.
       mobile_api_headers_with_credentials S st meth endpoint exact_body ident secret)"

section \<open>The canonical query\<close>

text \<open>The specification: each name once, in order, with the value it has first.\<close>

definition query_spec :: "(ustr \<times> 'v) list \<Rightarrow> (ustr \<times> 'v) list" where
  "query_spec pairs = map (\<lambda>k. (k, the (map_of pairs k))) (sort (remdups (map fst pairs)))"

lemma entry_or_insert_keys:
  "sorted (map fst m) \<Longrightarrow> distinct (map fst m) \<Longrightarrow>
   sorted (map fst (entry_or_insert k v m)) \<and> distinct (map fst (entry_or_insert k v m)) \<and>
   set (map fst (entry_or_insert k v m)) = insert k (set (map fst m))"
proof (induction k v m rule: entry_or_insert.induct)
  case (2 k v k' v' m)
  then show ?case by (cases "k = k'"; cases "k < k'") (auto simp: less_le image_iff)
qed simp

lemma entry_or_insert_map_of:
  "sorted (map fst m) \<Longrightarrow> distinct (map fst m) \<Longrightarrow>
   map_of (entry_or_insert k v m) = (if map_of m k = None then (map_of m)(k \<mapsto> v) else map_of m)"
proof (induction k v m rule: entry_or_insert.induct)
  case (2 k v k' v' m)
  have "map_of m k = None" if "k < k'" using 2(2,3) that
    by (auto simp: map_of_eq_None_iff less_le)
  with 2 show ?case by (cases "k = k'"; cases "k < k'") (auto simp: fun_eq_iff)
qed (simp add: fun_eq_iff)

abbreviation btree :: "(ustr \<times> 'v) list \<Rightarrow> (ustr \<times> 'v) list \<Rightarrow> (ustr \<times> 'v) list" where
  "btree m pairs \<equiv> foldl (\<lambda>m (k, v). entry_or_insert k v m) m pairs"

lemma btree_fold:
  assumes "sorted (map fst m)" "distinct (map fst m)"
  shows "sorted (map fst (btree m pairs)) \<and> distinct (map fst (btree m pairs)) \<and>
    map_of (btree m pairs) = map_of pairs ++ map_of m"
  using assms
proof (induction pairs arbitrary: m)
  case (Cons p pairs)
  obtain k v where p: "p = (k, v)" by fastforce
  have "map_of pairs ++ map_of (entry_or_insert k v m) = map_of (p # pairs) ++ map_of m"
    using Cons.prems by (auto simp: entry_or_insert_map_of p fun_eq_iff map_add_def split: option.splits)
  then show ?case
    using Cons.IH [of "entry_or_insert k v m"] entry_or_insert_keys [of m k v] Cons.prems
    by (simp add: p fun_upd_def)
qed simp

lemma sorted_assoc_eq:
  assumes "sorted (map fst xs)" "distinct (map fst xs)"
  shows "xs = map (\<lambda>k. (k, the (map_of xs k))) (sort (remdups (map fst xs)))"
proof -
  have "sort (remdups (map fst xs)) = map fst xs"
    using assms by (simp add: distinct_remdups_id sorted_sort_id)
  moreover have "map ((\<lambda>k. (k, the (map_of xs k))) \<circ> fst) xs = xs"
    using assms(2) by (intro map_idI) auto
  ultimately show ?thesis by simp
qed

lemma btree_spec: "btree [] pairs = query_spec pairs"
proof -
  let ?r = "btree [] pairs"
  have r: "sorted (map fst ?r)" "distinct (map fst ?r)" "map_of ?r = map_of pairs"
    using btree_fold [of "[]" pairs] by simp_all
  then have "set (map fst ?r) = set (map fst pairs)" by (metis dom_map_of_conv_image_fst set_map)
  then have eq: "sort (remdups (map fst ?r)) = sort (remdups (map fst pairs))"
    by (metis sorted_list_of_set_sort_remdups)
  have "?r = map (\<lambda>k. (k, the (map_of ?r k))) (sort (remdups (map fst ?r)))"
    by (rule sorted_assoc_eq [OF r(1,2)])
  also have "\<dots> = query_spec pairs" unfolding query_spec_def r(3) eq by (rule refl)
  finally show ?thesis .
qed

lemma canonical_query_spec:
  "canonical_query raw =
     join_with (ascii_str ''&'') (map (\<lambda>(name, v). name @ ascii_str ''='' @ v)
       (query_spec (case raw of None \<Rightarrow> [] | Some q \<Rightarrow> map query_pair (split_char 0x26 q))))"
  by (simp only: canonical_query_def btree_spec)

lemma query_spec_first:
  assumes "map_of xs = map_of ys"
  shows "query_spec xs = query_spec ys"
proof -
  have "set (map fst xs) = set (map fst ys)" using assms by (metis dom_map_of_conv_image_fst list.set_map)
  then have "sort (remdups (map fst xs)) = sort (remdups (map fst ys))"
    by (metis sorted_list_of_set_sort_remdups)
  then show ?thesis using assms by (simp add: query_spec_def)
qed

section \<open>Percent encoding\<close>

text \<open>Percent encoding of every byte, the inverse that a sender may use for any component.\<close>

definition upper_hex :: "nat \<Rightarrow> u8" where
  "upper_hex n = (if n < 10 then 0x30 + of_nat n else 0x41 + of_nat (n - 10))"

definition percent_encode :: "bytes \<Rightarrow> ustr" where
  "percent_encode bs =
     concat (map (\<lambda>b. [0x25, unat (upper_hex (unat b div 16)), unat (upper_hex (unat b mod 16))]) bs)"

lemma hex_value_upper_hex: "n < 16 \<Longrightarrow> hex_value (upper_hex n) = Some (of_nat n)"
proof -
  have "list_all (\<lambda>n. hex_value (upper_hex n) = Some (of_nat n)) [0..<16]" by code_simp
  moreover assume "n < 16"
  ultimately show ?thesis by (simp add: list_all_iff)
qed

lemma upper_hex_ascii: "n < 16 \<Longrightarrow> unat (upper_hex n) < 0x80"
proof -
  have "list_all (\<lambda>n. unat (upper_hex n) < 0x80) [0..<16]" by code_simp
  moreover assume "n < 16"
  ultimately show ?thesis by (simp add: list_all_iff)
qed

lemma nibbles: "push_bit 4 (of_nat (unat (b :: u8) div 16)) OR of_nat (unat b mod 16) = b"
proof -
  have lt: "unat b div 16 < 256" using unsigned_less [of b, where 'a = nat] by simp
  have d: "of_nat (unat b div 16) = drop_bit 4 b"
    by (rule word_unat_eq_iff [THEN iffD2]) (simp add: unat_of_nat unat_drop_bit_eq drop_bit_nat_def mod_less lt)
  have t: "of_nat (unat b mod 16) = take_bit 4 b"
    by (rule word_unat_eq_iff [THEN iffD2]) (simp add: unat_of_nat unsigned_take_bit_eq take_bit_nat_def)
  show ?thesis unfolding d t by (rule bit_word_eqI) (auto simp: bit_simps not_le)
qed

lemma percent_encode_ascii: "list_all (\<lambda>c. c < 0x80) (percent_encode bs)"
proof -
  have "unat (b :: u8) div 16 < 16" for b using unsigned_less [of b, where 'a = nat] by simp
  then show ?thesis by (auto simp: percent_encode_def list_all_iff upper_hex_ascii)
qed

lemma percent_decode_encode:
  "percent_decode ps (map of_nat (percent_encode bs) :: bytes) = Some bs"
proof (induction bs)
  case (Cons b bs)
  have "unat b div 16 < 16" using unsigned_less [of b, where 'a = nat] by simp
  with Cons show ?case by (simp add: percent_encode_def hex_value_upper_hex nibbles)
qed (simp add: percent_encode_def)

lemma decode_component_encode:
  assumes "list_all is_scalar s"
  shows "decode_component (percent_encode (utf8_bytes s)) ps = s"
proof -
  have u: "utf8_bytes (percent_encode (utf8_bytes s)) = map of_nat (percent_encode (utf8_bytes s))"
    by (rule ascii_utf8 [OF percent_encode_ascii])
  show ?thesis unfolding decode_component_def u percent_decode_encode using assms by simp
qed

section \<open>What a signature covers\<close>

lemma append_LF_left:
  assumes "a @ LF @ x = b @ LF @ y" "0x0a \<notin> set a" "0x0a \<notin> set b"
  shows "a = b \<and> x = y"
proof -
  have "Some (a, x) = split_once 0x0a (a @ 0x0a # x)" by (rule split_once_append [OF assms(2), symmetric])
  also have "a @ 0x0a # x = b @ 0x0a # y" using assms(1) by (simp only: append.simps)
  also have "split_once 0x0a \<dots> = Some (b, y)" by (rule split_once_append [OF assms(3)])
  finally show ?thesis by (simp only: option.inject prod.inject)
qed

lemma append_LF_right:
  assumes "x @ LF @ a = y @ LF @ b" "0x0a \<notin> set a" "0x0a \<notin> set b"
  shows "a = b \<and> x = y"
proof -
  have "rev a @ LF @ rev x = rev b @ LF @ rev y" using arg_cong [OF assms(1), of rev] by simp
  from append_LF_left [OF this] assms(2,3) show ?thesis by simp
qed

lemma no_LF_hex: "0x0a \<notin> set (hex_lower bs)"
  using hex_lower_ascii [of "0x0a" bs] by (auto simp: is_digit_def)

lemma no_LF_dec: "0x0a \<notin> set (dec n)"
  using dec_char [of "0x0a" n] by (auto simp: is_digit_def)

lemma canonical_form:
  assumes "canonical_http_request S m e b t n = Ok text"
  shows "\<exists>mid. text = ascii_str m @ LF @ mid @ LF @ hex_lower (sha256 S b) @ LF @ t @ LF @ n \<and> 0x0a \<notin> set (ascii_str m)"
proof -
  from assms have m: "list_all (\<lambda>c. 0x41 \<le> c \<and> c \<le> 0x5a) (ascii_str m)"
    by (auto simp: canonical_http_request_def split: if_splits)
  obtain p q where "text = ascii_str m @ LF @ p @ LF @ q @ LF @ hex_lower (sha256 S b) @ LF @ t @ LF @ n"
    using assms by (auto simp: canonical_http_request_def Let_def split: if_splits option.splits)
  then show ?thesis using m by (intro exI [of _ "p @ LF @ q"]) (auto simp: list_all_iff)
qed

lemma canonical_binds:
  assumes "canonical_http_request S m e b t n = Ok text" "canonical_http_request S m' e' b' t' n' = Ok text"
    and "0x0a \<notin> set t" "0x0a \<notin> set t'" "0x0a \<notin> set n" "0x0a \<notin> set n'"
  shows "ascii_str m = ascii_str m' \<and> hex_lower (sha256 S b) = hex_lower (sha256 S b') \<and> t = t' \<and> n = n'"
proof -
  obtain x where x: "text = ascii_str m @ LF @ x @ LF @ hex_lower (sha256 S b) @ LF @ t @ LF @ n" "0x0a \<notin> set (ascii_str m)"
    using canonical_form [OF assms(1)] by blast
  obtain y where y: "text = ascii_str m' @ LF @ y @ LF @ hex_lower (sha256 S b') @ LF @ t' @ LF @ n'" "0x0a \<notin> set (ascii_str m')"
    using canonical_form [OF assms(2)] by blast
  have 1: "ascii_str m = ascii_str m'" "x @ LF @ hex_lower (sha256 S b) @ LF @ t @ LF @ n = y @ LF @ hex_lower (sha256 S b') @ LF @ t' @ LF @ n'"
    using append_LF_left [OF trans [OF x(1) [symmetric] y(1)] x(2) y(2)] by simp_all
  have 2: "n = n'" "x @ LF @ hex_lower (sha256 S b) @ LF @ t = y @ LF @ hex_lower (sha256 S b') @ LF @ t'"
    using append_LF_right [of "x @ LF @ hex_lower (sha256 S b) @ LF @ t" n] 1(2) assms(5,6) by simp_all
  have 3: "t = t'" "x @ LF @ hex_lower (sha256 S b) = y @ LF @ hex_lower (sha256 S b')"
    using append_LF_right [of "x @ LF @ hex_lower (sha256 S b)" t] 2(2) assms(3,4) by simp_all
  show ?thesis using append_LF_right [OF 3(2) no_LF_hex no_LF_hex] 1(1) 2(1) 3(1) by simp
qed

lemma hex_lower_inj: "hex_lower a = hex_lower b \<Longrightarrow> a = b"
proof (induction a arbitrary: b)
  case Nil
  then show ?case using length_hex_lower [of b] by (simp add: hex_lower_def)
next
  case (Cons x a)
  from Cons.prems have "length (hex_lower b) = 2 * Suc (length a)" by (metis length_hex_lower length_Cons)
  then obtain y b' where b: "b = y # b'" by (cases b) simp_all
  have inj: "m = n" if "hex_digit m = hex_digit n" "m < 16" "n < 16" for m n
    using that by (auto simp: hex_digit_def split: if_splits)
  have lt: "unat (z :: u8) div 16 < 16" for z using unsigned_less [of z, where 'a = nat] by simp
  from Cons.prems have "hex_digit (unat x div 16) = hex_digit (unat y div 16)"
    "hex_digit (unat x mod 16) = hex_digit (unat y mod 16)" "hex_lower a = hex_lower b'"
    by (simp_all add: b hex_lower_def)
  then have "unat x div 16 = unat y div 16" "unat x mod 16 = unat y mod 16" "a = b'"
    using inj lt Cons.IH by simp_all
  then show ?case by (metis b div_mult_mod_eq word_unat_eq_iff)
qed

section \<open>Properties\<close>

text \<open>C22 (the signature depends on the first value of each parameter). Two URLs that differ only in their query, and whose
  queries give every name, once decoded, the same first value, have the same signature, whatever the order of the parameters
  and whatever further values a repeated name has; and the query part of the signed text lists every name once, in ascending
  order, with the first value the URL gives it.\<close>

theorem signature_of_first_values:
  assumes "url_parse S e = Some u" "url_query u = Some q"
    and "url_parse S e' = Some (u\<lparr>url_query := Some q'\<rparr>)"
    and "map_of (map query_pair (split_char 0x26 q)) = map_of (map query_pair (split_char 0x26 q'))"
  shows "sign_http_request S meth e payload timestamp nonce secret =
      sign_http_request S meth e' payload timestamp nonce secret \<and>
    canonical_query (Some q) = join_with (ascii_str ''&'')
      (map (\<lambda>name. name @ ascii_str ''='' @ the (map_of (map query_pair (split_char 0x26 q)) name))
        (sort (remdups (map (\<lambda>p. fst (query_pair p)) (split_char 0x26 q)))))"
proof -
  let ?ps = "map query_pair (split_char 0x26 q)" and ?ps' = "map query_pair (split_char 0x26 q')"
  have eq: "canonical_query (Some q) = canonical_query (Some q')"
    using query_spec_first [OF assms(4)] by (simp add: canonical_query_spec)
  have "https_only (u\<lparr>url_query := Some q'\<rparr>) = https_only u" by (simp add: https_only_def)
  with eq have "canonical_http_request S meth e payload timestamp nonce = canonical_http_request S meth e' payload timestamp nonce"
    by (simp add: canonical_http_request_def assms(1-3))
  then show ?thesis by (simp add: sign_http_request_def canonical_query_spec query_spec_def comp_def)
qed

definition demo_url :: "ustr \<Rightarrow> url" where
  "demo_url q = \<lparr>url_scheme = ascii_str ''https'', url_host = Some (ascii_str ''h''), url_username = [],
     url_password = None, url_path = ascii_str ''/p'', url_query = Some q, url_fragment = None\<rparr>"

text \<open>A library whose URLs are all of the form \<open>https://h/p?query\<close>.\<close>

definition demo_sec_lib :: sec_lib where
  "demo_sec_lib = \<lparr>sha256 = (\<lambda>bs. bs), hmac_sha256 = (\<lambda>k m. Some (k @ m)), url_parse = (\<lambda>q. Some (demo_url q))\<rparr>"

theorem signature_of_first_values_witness:
  "sign_http_request demo_sec_lib ''POST'' (ascii_str ''b=1&a=2&a=3'') [1] [0x31] [0x32] [3] =
   sign_http_request demo_sec_lib ''POST'' (ascii_str ''a=2&b=1'') [1] [0x31] [0x32] [3] \<and>
   canonical_query (Some (ascii_str ''b=1&a=2&a=3'')) = ascii_str ''a=2&b=1''"
proof -
  have s: "map query_pair (split_char 0x26 (ascii_str ''b=1&a=2&a=3'')) =
      [(ascii_str ''b'', ascii_str ''1''), (ascii_str ''a'', ascii_str ''2''), (ascii_str ''a'', ascii_str ''3'')]"
    "map query_pair (split_char 0x26 (ascii_str ''a=2&b=1'')) =
      [(ascii_str ''a'', ascii_str ''2''), (ascii_str ''b'', ascii_str ''1'')]"
    by code_simp+
  have "ascii_str ''a'' \<noteq> ascii_str ''b''" by (simp add: ascii_str_def)
  then have "url_parse demo_sec_lib (ascii_str ''b=1&a=2&a=3'') = Some (demo_url (ascii_str ''b=1&a=2&a=3''))"
    "url_query (demo_url (ascii_str ''b=1&a=2&a=3'')) = Some (ascii_str ''b=1&a=2&a=3'')"
    "url_parse demo_sec_lib (ascii_str ''a=2&b=1'') =
       Some ((demo_url (ascii_str ''b=1&a=2&a=3''))\<lparr>url_query := Some (ascii_str ''a=2&b=1'')\<rparr>)"
    "map_of (map query_pair (split_char 0x26 (ascii_str ''b=1&a=2&a=3''))) = map_of (map query_pair (split_char 0x26 (ascii_str ''a=2&b=1'')))"
    unfolding s by (auto simp: demo_sec_lib_def demo_url_def fun_eq_iff)
  note all = signature_of_first_values [OF this, of "''POST''" "[1]" "[0x31]" "[0x32]" "[3]"]
  have "canonical_query (Some (ascii_str ''b=1&a=2&a=3'')) = ascii_str ''a=2&b=1''"
    by code_simp
  with all show ?thesis by blast
qed

text \<open>(what a signature covers). If two requests have the same signed text, they have the same method, the same
  body digest, the same time stamp and the same nonce, whatever their URLs contain.\<close>

theorem signed_text_binds:
  assumes "canonical_http_request S meth e payload (dec secs) (hex_lower nonce) = Ok text"
    and "canonical_http_request S meth' e' payload' (dec secs') (hex_lower nonce') = Ok text"
  shows "ascii_str meth = ascii_str meth' \<and> sha256 S payload = sha256 S payload' \<and> secs = secs' \<and> nonce = nonce'"
proof -
  have "ascii_str meth = ascii_str meth'" "hex_lower (sha256 S payload) = hex_lower (sha256 S payload')"
    "dec secs = dec secs'" "hex_lower nonce = hex_lower nonce'"
    using canonical_binds [OF assms no_LF_dec no_LF_dec no_LF_hex no_LF_hex] by simp_all
  then show ?thesis by (metis dec_value_dec hex_lower_inj)
qed

theorem signed_text_binds_witness:
  "\<exists>text. canonical_http_request demo_sec_lib ''POST'' (ascii_str ''a=1'') [7] (dec 5) (hex_lower [9]) = Ok text \<and>
     (\<forall>e payload secs nonce. canonical_http_request demo_sec_lib ''POST'' e payload (dec secs) (hex_lower nonce) = Ok text
        \<longrightarrow> payload = [7] \<and> secs = 5 \<and> nonce = [9])"
proof -
  have "list_all (\<lambda>c. 0x41 \<le> c \<and> c \<le> 0x5a) (ascii_str ''POST'')" by code_simp
  then obtain signed where t: "canonical_http_request demo_sec_lib ''POST'' (ascii_str ''a=1'') [7] (dec 5) (hex_lower [9]) = Ok signed"
    by (simp add: canonical_http_request_def demo_sec_lib_def demo_url_def https_only_def Let_def)
  have i: "sha256 demo_sec_lib b = b" for b by (simp add: demo_sec_lib_def)
  have "payload = [7] \<and> secs = 5 \<and> nonce = [9]"
    if "canonical_http_request demo_sec_lib ''POST'' e payload (dec secs) (hex_lower nonce) = Ok signed" for e payload secs nonce
    using signed_text_binds [OF t that] by (simp add: i)
  with t show ?thesis by blast
qed

end
