(* ===== verification/Json.thy ===== *)
theory Json
  imports Rust_Text
begin

text \<open>
  JSON values as the crate \<open>serde_json\<close> presents them: the constructors of its public type
  \<open>Value\<close> and the accessors the code calls. A number is an integer of at most 64 bits or a
  finite float, which is represented by its bits. Parsing, printing and the conversions of
  floats are the parameter \<open>json_lib\<close>.
\<close>

datatype json_number = NumInt int | NumFloat nat

datatype json =
    JNull
  | JBool bool
  | JNumber json_number
  | JString ustr
  | JArray "json list"
  | JObject "(ustr \<times> json) list"

type_synonym json_object = "(ustr \<times> json) list"

record json_lib =
  json_from_slice :: "bytes \<Rightarrow> json option"
  json_to_vec :: "json \<Rightarrow> bytes option"
  json_to_string :: "json \<Rightarrow> ustr"
  number_to_string :: "json_number \<Rightarrow> ustr"
  float_as_i32 :: "nat \<Rightarrow> int" \<comment> \<open>the cast \<open>as i32\<close> of a float\<close>
  parse_f64_as_i32 :: "ustr \<Rightarrow> int option" \<comment> \<open>\<open>parse::<f64>\<close>, finite values only, cast\<close>

fun as_object :: "json \<Rightarrow> json_object option" where
  "as_object (JObject m) = Some m"
| "as_object _ = None"

fun as_array :: "json \<Rightarrow> json list option" where
  "as_array (JArray xs) = Some xs"
| "as_array _ = None"

fun as_str :: "json \<Rightarrow> ustr option" where
  "as_str (JString s) = Some s"
| "as_str _ = None"

fun as_bool :: "json \<Rightarrow> bool option" where
  "as_bool (JBool b) = Some b"
| "as_bool _ = None"

definition in_i64 :: "int \<Rightarrow> bool" where
  "in_i64 n \<longleftrightarrow> - (2 ^ 63) \<le> n \<and> n < 2 ^ 63"

definition in_i32 :: "int \<Rightarrow> bool" where
  "in_i32 n \<longleftrightarrow> - (2 ^ 31) \<le> n \<and> n < 2 ^ 31"

fun as_i64 :: "json \<Rightarrow> int option" where
  "as_i64 (JNumber (NumInt n)) = (if in_i64 n then Some n else None)"
| "as_i64 _ = None"

text \<open>\<open>Map::get\<close> and \<open>Value::get\<close>, which looks into objects only.\<close>

definition obj_get :: "json_object \<Rightarrow> string \<Rightarrow> json option" where
  "obj_get m k = map_of m (ascii_str k)"

definition json_get :: "json \<Rightarrow> string \<Rightarrow> json option" where
  "json_get v k = Option.bind (as_object v) (\<lambda>m. obj_get m k)"

definition opt_and_then :: "'a option \<Rightarrow> ('a \<Rightarrow> 'b option) \<Rightarrow> 'b option" where
  "opt_and_then x f = Option.bind x f"

definition opt_filter :: "('a \<Rightarrow> bool) \<Rightarrow> 'a option \<Rightarrow> 'a option" where
  "opt_filter P x = (case x of None \<Rightarrow> None | Some v \<Rightarrow> if P v then Some v else None)"

definition opt_unwrap_or :: "'a \<Rightarrow> 'a option \<Rightarrow> 'a" where
  "opt_unwrap_or d x = (case x of None \<Rightarrow> d | Some v \<Rightarrow> v)"

lemma opt_simps [simp]:
  "opt_and_then None f = None" "opt_and_then (Some v) f = f v"
  "opt_filter P None = None" "opt_filter P (Some v) = (if P v then Some v else None)"
  "opt_unwrap_or d None = d" "opt_unwrap_or d (Some v) = v"
  by (simp_all add: opt_and_then_def opt_filter_def opt_unwrap_or_def)

lemma opt_filter_eq_Some [simp]: "opt_filter P x = Some v \<longleftrightarrow> x = Some v \<and> P v"
  by (cases x) auto

declare ok_or_eq_Ok [simp]

lemma opt_and_then_eq_Some: "opt_and_then x f = Some v \<longleftrightarrow> (\<exists>y. x = Some y \<and> f y = Some v)"
  by (cases x) simp_all

lemma as_str_eq_Some [simp]: "as_str v = Some s \<longleftrightarrow> v = JString s"
  by (cases v) simp_all

lemma as_object_eq_Some [simp]: "as_object v = Some m \<longleftrightarrow> v = JObject m"
  by (cases v) simp_all

lemma as_array_eq_Some [simp]: "as_array v = Some xs \<longleftrightarrow> v = JArray xs"
  by (cases v) simp_all

lemma as_bool_eq_Some [simp]: "as_bool v = Some b \<longleftrightarrow> v = JBool b"
  by (cases v) simp_all

end
