(* ===== verification/Managed_Lookup.thy ===== *)
theory Managed_Lookup
  imports Managed_Security Json Dns_Policy
begin

text \<open>
  Domain lookup (\<open>src/managed/lookup.rs\<close>): validation of domains, parsing of the answers, the
  requests to the two lookup servers, and the cache that bridges their outage. The file system
  is the parameter \<open>file_system\<close> over a state of its own, whose documented behaviour is the
  locale \<open>file_store\<close>.
\<close>

section \<open>Results\<close>

datatype lookup_source = SourceNetwork | SourceCache

datatype service_type = ServerList | Saas | ControllerService

definition service_type_parse :: "ustr \<Rightarrow> service_type result" where
  "service_type_parse v =
     (let s = to_ascii_lowercase v in
      if s = ascii_str ''serverlist'' then Ok ServerList
      else if s = ascii_str ''saas'' then Ok Saas
      else if s = ascii_str ''controller'' then Ok ControllerService
      else Err (Managed ''unsupported lookup service type {value:?}''))"

record lookup_result =
  complete_domain :: ustr
  original_domain :: ustr
  is_fuzzy_match :: bool
  lr_service_type :: service_type
  server_list_url :: "ustr option"
  saas_info :: "json option"
  controller_info :: "json option"
  lr_source :: lookup_source
  lr_raw :: json

definition active_domain :: "lookup_result \<Rightarrow> ustr" where
  "active_domain r = (if is_fuzzy_match r \<and> complete_domain r \<noteq> [] then complete_domain r else original_domain r)"

text \<open>\<open>optional_string\<close>: the first of the names whose member is a string, unless that is empty.\<close>

fun find_string :: "json_object \<Rightarrow> string list \<Rightarrow> ustr option" where
  "find_string m [] = None"
| "find_string m (k # ks) =
     (case opt_and_then (obj_get m k) as_str of Some s \<Rightarrow> Some s | None \<Rightarrow> find_string m ks)"

definition optional_string :: "json_object \<Rightarrow> string list \<Rightarrow> ustr option" where
  "optional_string m names = opt_filter (\<lambda>s. s \<noteq> []) (find_string m names)"

definition required_string :: "json_object \<Rightarrow> string list \<Rightarrow> ustr result" where
  "required_string m names = ok_or (Managed ''lookup response is missing {}'') (optional_string m names)"

definition object_string :: "json \<Rightarrow> string list \<Rightarrow> ustr option" where
  "object_string v names = opt_and_then (as_object v) (\<lambda>m. optional_string m names)"

definition controller_endpoint :: "lookup_result \<Rightarrow> string \<Rightarrow> ustr option" where
  "controller_endpoint r name =
     opt_filter (\<lambda>s. s \<noteq> [])
       (opt_and_then (controller_info r) (\<lambda>info.
        opt_and_then (json_get info ''url'') (\<lambda>u.
        opt_and_then (as_object u) (\<lambda>m.
        opt_and_then (obj_get m name) as_str))))"

definition auth_url :: "lookup_result \<Rightarrow> ustr option" where
  "auth_url r = controller_endpoint r ''auth''"

definition config_url_of :: "lookup_result \<Rightarrow> ustr option" where
  "config_url_of r = controller_endpoint r ''config''"

definition resolved_server_list_url :: "lookup_result \<Rightarrow> ustr option" where
  "resolved_server_list_url r =
     (case controller_endpoint r ''serverlist'' of Some u \<Rightarrow> Some u | None \<Rightarrow> server_list_url r)"

definition controller_app_id :: "lookup_result \<Rightarrow> ustr option" where
  "controller_app_id r = opt_and_then (controller_info r) (\<lambda>info. object_string info [''app_id''])"

section \<open>Validation and parsing\<close>

definition domain_char :: "nat \<Rightarrow> bool" where
  "domain_char c \<longleftrightarrow>
     is_ascii_alphanumeric c \<or> c = 0x2e \<or> c = 0x2d \<or> c = 0x40 \<or> c = 0x23 \<or> c = 0x24 \<or> c = 0x5f"

definition validate_domain :: "ustr \<Rightarrow> unit result" where
  "validate_domain domain =
     (if domain = [] then Err (Managed ''client domain cannot be empty'')
      else if length domain > 128 then Err (Managed ''client domain must not exceed 128 characters'')
      else if \<not> list_all domain_char domain then Err (Managed ''client domain contains unsupported characters'')
      else Ok ())"

definition response_data :: "json \<Rightarrow> json result" where
  "response_data v =
     (case as_object v of
        None \<Rightarrow> Err (Managed ''lookup response must be a JSON object'')
      | Some m \<Rightarrow>
          (case opt_and_then (obj_get m ''success'') as_bool of
             Some success \<Rightarrow>
               if \<not> success then Err (Managed ''lookup rejected request: {error}'')
               else ok_or (Managed ''successful lookup response has no data'') (obj_get m ''data'')
           | None \<Rightarrow> Ok v))"

definition parse_lookup :: "ustr \<Rightarrow> json \<Rightarrow> lookup_source \<Rightarrow> lookup_result result" where
  "parse_lookup domain raw source =
     rbind (ok_or (Managed ''lookup data must be a JSON object'') (as_object raw)) (\<lambda>m.
     rbind (required_string m [''type'']) (\<lambda>t.
     rbind (service_type_parse t) (\<lambda>service.
     let fuzzy = opt_unwrap_or False (opt_and_then (obj_get m ''isFuzzyMatch'') as_bool);
         complete = opt_unwrap_or domain (optional_string m [''completeDomain'']);
         list_url = optional_string m [''serverlistaddress'']
     in
     rbind (if fuzzy then validate_domain complete else Ok ()) (\<lambda>_.
     if service \<in> {ServerList, Saas} \<and> list_url = None
     then Err (Managed ''lookup response is missing serverlist URL'')
     else Ok \<lparr>complete_domain = complete, original_domain = domain, is_fuzzy_match = fuzzy,
              lr_service_type = service, server_list_url = list_url, saas_info = obj_get m ''saas_info'',
              controller_info = obj_get m ''controller_info'', lr_source = source, lr_raw = raw\<rparr>))))"

definition validate_lookup_endpoint :: "sec_lib \<Rightarrow> ustr \<Rightarrow> unit result" where
  "validate_lookup_endpoint S v =
     (case url_parse S v of
        None \<Rightarrow> Err (Managed ''invalid lookup URL: {error}'')
      | Some u \<Rightarrow>
          if \<not> https_only u \<or> url_path u \<noteq> ascii_str ''/lookup'' \<or> url_query u \<noteq> None
          then Err (Managed ''lookup URL must be an HTTPS /lookup endpoint'')
          else Ok ())"

section \<open>The cache\<close>

text \<open>A point of \<open>SystemTime\<close> is the number of milliseconds since 1970, or \<open>None\<close> before it.\<close>

type_synonym system_time = "nat option"

abbreviation (input) LOOKUP_CACHE_TTL_MS :: nat where "LOOKUP_CACHE_TTL_MS \<equiv> 604800000"

definition epoch_millis :: "system_time \<Rightarrow> nat result" where
  "epoch_millis t =
     (case t of
        None \<Rightarrow> Err (Managed ''system time predates Unix epoch'')
      | Some ms \<Rightarrow> if ms < 2 ^ 64 then Ok ms else Err (Managed ''system time is out of range''))"

record 's file_system =
  fs_read :: "ustr \<Rightarrow> 's \<Rightarrow> error_kind + bytes"
  fs_create_dir_all :: "ustr \<Rightarrow> 's \<Rightarrow> (error_kind + unit) \<times> 's"
  fs_write :: "ustr \<Rightarrow> bytes \<Rightarrow> 's \<Rightarrow> (error_kind + unit) \<times> 's"
  fs_rename :: "ustr \<Rightarrow> ustr \<Rightarrow> 's \<Rightarrow> (error_kind + unit) \<times> 's"

text \<open>The derived (de)serialization of \<open>CacheEntry\<close>.\<close>

record cache_codec =
  entry_encode :: "nat \<times> json \<Rightarrow> bytes option"
  entry_decode :: "bytes \<Rightarrow> (nat \<times> json) option"

text \<open>\<open>PathBuf::join\<close>: an absolute name replaces the directory.\<close>

definition path_join :: "ustr \<Rightarrow> ustr \<Rightarrow> ustr" where
  "path_join dir name = (if name \<noteq> [] \<and> hd name = SLASH then name else dir @ [SLASH] @ name)"

definition cache_new :: "ustr \<Rightarrow> ustr" where
  "cache_new dir = path_join dir (ascii_str ''lookup'')"

definition cache_path :: "ustr \<Rightarrow> ustr \<Rightarrow> ustr" where
  "cache_path dir domain = path_join dir (domain @ ascii_str ''.json'')"

text \<open>\<open>with_extension(\"json.tmp\")\<close> replaces the extension \<open>json\<close> of the path of a non-empty domain.\<close>

definition cache_temporary :: "ustr \<Rightarrow> ustr \<Rightarrow> ustr" where
  "cache_temporary dir domain = cache_path dir domain @ ascii_str ''.tmp''"

definition cache_read ::
  "'s file_system \<Rightarrow> cache_codec \<Rightarrow> ustr \<Rightarrow> ustr \<Rightarrow> system_time \<Rightarrow> 's \<Rightarrow> json option result" where
  "cache_read F C dir domain now s =
     (case fs_read F (cache_path dir domain) s of
        Inl k \<Rightarrow> if k = NotFound then Ok None else Err (Io k)
      | Inr content \<Rightarrow>
          (case entry_decode C content of
             None \<Rightarrow> Err (Managed ''invalid lookup cache {}: {error}'')
           | Some (cached_at, response) \<Rightarrow>
               rbind (epoch_millis now) (\<lambda>now_ms.
                 if now_ms - cached_at > LOOKUP_CACHE_TTL_MS then Ok None else Ok (Some response))))"

definition cache_write ::
  "'s file_system \<Rightarrow> cache_codec \<Rightarrow> ustr \<Rightarrow> ustr \<Rightarrow> json \<Rightarrow> system_time \<Rightarrow> 's \<Rightarrow> unit result \<times> 's" where
  "cache_write F C dir domain response now s =
     (case fs_create_dir_all F dir s of
        (Inl k, s) \<Rightarrow> (Err (Io k), s)
      | (Inr _, s) \<Rightarrow>
          (case epoch_millis now of
             Inl e \<Rightarrow> (Err e, s)
           | Inr ms \<Rightarrow>
               (case entry_encode C (ms, response) of
                  None \<Rightarrow> (Err (Managed ''serialize lookup cache: {error}''), s)
                | Some content \<Rightarrow>
                    (case fs_write F (cache_temporary dir domain) content s of
                       (Inl k, s) \<Rightarrow> (Err (Io k), s)
                     | (Inr _, s) \<Rightarrow>
                         (case fs_rename F (cache_temporary dir domain) (cache_path dir domain) s of
                            (Inl k, s) \<Rightarrow> (Err (Io k), s)
                          | (Inr _, s) \<Rightarrow> (Ok (), s))))))"

section \<open>Requests\<close>

text \<open>What a lookup needs from outside: the codecs, the target platform, the clock and random
  numbers of each request, and the transport.\<close>

record lookup_env =
  le_json :: json_lib
  le_sec :: sec_lib
  le_os :: target_os
  le_stamps :: "nat \<Rightarrow> stamp"
  le_transport :: transport

datatype 'a attempt = Done 'a | Abort error | Failed "error option"

definition lookup_body :: "json_lib \<Rightarrow> ustr \<Rightarrow> ustr \<Rightarrow> bytes result" where
  "lookup_body J domain device_id =
     ok_or (Managed ''serialize lookup request: {error}'')
       (json_to_vec J (JObject
          [(ascii_str ''domain'', JString domain), (ascii_str ''serviceType'', JString (ascii_str ''fgb'')),
           (ascii_str ''device_id'', JString device_id), (ascii_str ''oem_name'', JString (ascii_str ''panabit'')),
           (ascii_str ''app_version'', JString (ascii_str ''2.3.0''))]))"

definition lookup_headers :: "(ustr \<times> ustr) list \<Rightarrow> (ustr \<times> ustr) list" where
  "lookup_headers auth_hs =
     [(ascii_str ''Content-Type'', ascii_str ''application/json''),
      (ascii_str ''X-Mobile-Api-Version'', ascii_str ''4'')] @ auth_hs"

definition lookup_answer :: "json_lib \<Rightarrow> ustr \<Rightarrow> http_response result \<Rightarrow> (json \<times> lookup_result) result" where
  "lookup_answer J domain answer =
     rbind answer (\<lambda>response.
       if rsp_status response = 200 then
         rbind (ok_or (Managed ''invalid lookup response: {error}'') (json_from_slice J (rsp_body response))) (\<lambda>v.
         rbind (response_data v) (\<lambda>raw.
         rmap (Pair raw) (parse_lookup domain raw SourceNetwork)))
       else Err (Managed ''lookup returned HTTP {}''))"

fun endpoint_attempts ::
  "lookup_env \<Rightarrow> ustr \<Rightarrow> bytes \<Rightarrow> ustr \<Rightarrow> nat \<Rightarrow> error option \<Rightarrow> http_request list \<Rightarrow>
     (json \<times> lookup_result) attempt \<times> http_request list" where
  "endpoint_attempts E domain content endpoint 0 last_error log = (Failed last_error, log)"
| "endpoint_attempts E domain content endpoint (Suc n) last_error log =
     (case mobile_api_headers (le_sec E) (le_os E) (le_stamps E (length log)) ''POST'' endpoint content of
        Inl e \<Rightarrow> (Abort e, log)
      | Inr auth_hs \<Rightarrow>
          let request = \<lparr>req_method = ''POST'', req_url = endpoint, req_headers = lookup_headers auth_hs,
                         req_body = content, req_timeout = None\<rparr>
          in
          (case lookup_answer (le_json E) domain (le_transport E log request) of
             Inr r \<Rightarrow> (Done r, log @ [request])
           | Inl e \<Rightarrow> endpoint_attempts E domain content endpoint n (Some e) (log @ [request])))"

fun live_attempts ::
  "lookup_env \<Rightarrow> ustr \<Rightarrow> bytes \<Rightarrow> ustr list \<Rightarrow> error option \<Rightarrow> http_request list \<Rightarrow>
     (json \<times> lookup_result) result \<times> http_request list" where
  "live_attempts E domain content [] last_error log =
     (Err (opt_unwrap_or (Managed ''all lookup servers failed'') last_error), log)"
| "live_attempts E domain content (endpoint # endpoints) last_error log =
     (case validate_lookup_endpoint (le_sec E) endpoint of
        Inl e \<Rightarrow> (Err e, log)
      | Inr _ \<Rightarrow>
          (case endpoint_attempts E domain content endpoint 2 last_error log of
             (Done r, log) \<Rightarrow> (Ok r, log)
           | (Abort e, log) \<Rightarrow> (Err e, log)
           | (Failed last_error, log) \<Rightarrow> live_attempts E domain content endpoints last_error log))"

definition lookup_live ::
  "lookup_env \<Rightarrow> ustr list \<Rightarrow> ustr \<Rightarrow> ustr \<Rightarrow> (json \<times> lookup_result) result \<times> http_request list" where
  "lookup_live E endpoints domain device_id =
     (case lookup_body (le_json E) domain device_id of
        Inl e \<Rightarrow> (Err e, [])
      | Inr content \<Rightarrow> live_attempts E domain content endpoints None [])"

definition LOOKUP_ENDPOINTS :: "ustr list" where
  "LOOKUP_ENDPOINTS =
     [ascii_str ''https://lookup.gsase.com/lookup'', ascii_str ''https://lookupbak.hypersase.com/lookup'']"

text \<open>A cache is the directory it keeps its files in.\<close>

definition lookup_at ::
  "'s file_system \<Rightarrow> cache_codec \<Rightarrow> lookup_env \<Rightarrow> ustr list \<Rightarrow> ustr option \<Rightarrow> ustr \<Rightarrow> ustr \<Rightarrow> system_time \<Rightarrow> 's \<Rightarrow>
     lookup_result result \<times> http_request list \<times> 's" where
  "lookup_at F C E endpoints cache domain device_id now s =
     (case validate_domain domain of
        Inl e \<Rightarrow> (Err e, [], s)
      | Inr _ \<Rightarrow>
          if str_trim device_id = [] then (Err (Managed ''device id must not be empty''), [], s)
          else
            (case lookup_live E endpoints domain device_id of
               (Inr (raw, result), log) \<Rightarrow>
                 (Ok result, log,
                  case cache of
                    None \<Rightarrow> s
                  | Some dir \<Rightarrow>
                      let s = snd (cache_write F C dir domain raw now s) in
                      if active_domain result \<noteq> domain
                      then snd (cache_write F C dir (active_domain result) raw now s)
                      else s)
             | (Inl live_error, log) \<Rightarrow>
                 ((case cache of
                     None \<Rightarrow> Err live_error
                   | Some dir \<Rightarrow>
                       (case cache_read F C dir domain now s of
                          Inr (Some raw) \<Rightarrow>
                            (case parse_lookup domain raw SourceCache of
                               Inr result \<Rightarrow> Ok result
                             | Inl _ \<Rightarrow> Err live_error)
                        | _ \<Rightarrow> Err live_error)),
                  log, s)))"

section \<open>The contract of the file system\<close>

text \<open>\<open>view s p\<close> is the content of the file \<open>p\<close> in the state \<open>s\<close>. A write that fails may leave
  anything in its own file; a failed rename changes nothing.\<close>

locale file_store =
  fixes F :: "'s file_system" and view :: "'s \<Rightarrow> ustr \<Rightarrow> bytes option"
  assumes read_view: "fs_read F p s = (case view s p of Some content \<Rightarrow> Inr content | None \<Rightarrow> Inl NotFound)"
    and create_dir_view: "fs_create_dir_all F d s = (r, s') \<Longrightarrow> view s' = view s"
    and write_view: "fs_write F p content s = (Inr (), s') \<Longrightarrow> view s' = (view s)(p := Some content)"
    and write_fails: "fs_write F p content s = (Inl k, s') \<Longrightarrow> q \<noteq> p \<Longrightarrow> view s' q = view s q"
    and rename_view: "p \<noteq> q \<Longrightarrow> fs_rename F p q s = (Inr (), s') \<Longrightarrow> view s' = (view s)(q := view s p, p := None)"
    and rename_fails: "fs_rename F p q s = (Inl k, s') \<Longrightarrow> view s' = view s"
begin

lemma cache_write_ok:
  assumes "cache_write F C dir domain response now s = (Ok (), s')"
  shows "\<exists>ms content. epoch_millis now = Ok ms \<and> entry_encode C (ms, response) = Some content \<and>
    view s' = (view s)(cache_path dir domain := Some content, cache_temporary dir domain := None)"
proof -
  have ne: "cache_temporary dir domain \<noteq> cache_path dir domain" by (simp add: cache_temporary_def ascii_str_def)
  from assms obtain s1 ms content s2 where
    1: "fs_create_dir_all F dir s = (Inr (), s1)" and 2: "epoch_millis now = Ok ms" "entry_encode C (ms, response) = Some content"
    and 3: "fs_write F (cache_temporary dir domain) content s1 = (Inr (), s2)"
    and 4: "fs_rename F (cache_temporary dir domain) (cache_path dir domain) s2 = (Inr (), s')"
    by (auto simp: cache_write_def split: prod.splits sum.splits option.splits)
  from create_dir_view [OF 1] write_view [OF 3] rename_view [OF ne 4] 2 show ?thesis
    using ne by (auto simp: fun_eq_iff)
qed

lemma cache_write_frame:
  assumes "cache_write F C dir domain response now s = (r, s')"
    and "p \<noteq> cache_path dir domain" "p \<noteq> cache_temporary dir domain"
  shows "view s' p = view s p"
proof -
  have ne: "cache_temporary dir domain \<noteq> cache_path dir domain" by (simp add: cache_temporary_def ascii_str_def)
  obtain r1 s1 where 1: "fs_create_dir_all F dir s = (r1, s1)" by fastforce
  have v1: "view s1 = view s" by (rule create_dir_view [OF 1])
  show ?thesis
  proof (cases "\<exists>ms content. r1 = Inr () \<and> epoch_millis now = Ok ms \<and> entry_encode C (ms, response) = Some content")
    case False
    then have "s' = s1" using assms(1) 1 by (auto simp: cache_write_def split: sum.splits option.splits)
    then show ?thesis by (simp add: v1)
  next
    case True
    then obtain content r2 s2 where 2: "fs_write F (cache_temporary dir domain) content s1 = (r2, s2)"
      and w: "cache_write F C dir domain response now s =
        (case r2 of Inl k \<Rightarrow> (Err (Io k), s2)
         | Inr _ \<Rightarrow> (case fs_rename F (cache_temporary dir domain) (cache_path dir domain) s2 of
             (Inl k, s) \<Rightarrow> (Err (Io k), s) | (Inr _, s) \<Rightarrow> (Ok (), s)))"
      using 1 by (fastforce simp: cache_write_def split: prod.splits)
    show ?thesis
    proof (cases r2)
      case (Inl k)
      then show ?thesis using w assms write_fails [of _ _ s1 k s2 p] 2 v1 by simp
    next
      case (Inr u)
      then have v2: "view s2 p = view s p" using write_view [of _ _ s1 s2] 2 v1 assms(3) by simp
      obtain r3 s3 where 3: "fs_rename F (cache_temporary dir domain) (cache_path dir domain) s2 = (r3, s3)" by fastforce
      then have "s' = s3" using w assms(1) Inr by (auto split: sum.splits)
      then show ?thesis
        using v2 3 rename_view [OF ne, of s2 s3] rename_fails [of _ _ s2 _ s3] assms(2,3) by (cases r3) auto
    qed
  qed
qed

lemma cache_read_view:
  assumes "view s (cache_path dir domain) = Some content" "entry_decode C content = Some (at, response)"
    and "epoch_millis now = Ok ms" "ms - at \<le> LOOKUP_CACHE_TTL_MS"
  shows "cache_read F C dir domain now s = Ok (Some response)"
  using assms by (simp add: cache_read_def read_view)

end

text \<open>A file system in memory, on which chosen calls fail.\<close>

record mem_state =
  mem_calls :: nat
  mem_files :: "(ustr \<times> bytes) list"

definition mem_try :: "(nat \<Rightarrow> bool) \<Rightarrow> ((ustr \<times> bytes) list \<Rightarrow> (ustr \<times> bytes) list) \<Rightarrow> mem_state \<Rightarrow> (error_kind + unit) \<times> mem_state" where
  "mem_try faulty f s =
     (if faulty (mem_calls s) then (Inl OtherKind, s\<lparr>mem_calls := mem_calls s + 1\<rparr>)
      else (Inr (), \<lparr>mem_calls = mem_calls s + 1, mem_files = f (mem_files s)\<rparr>))"

definition mem_fs :: "(nat \<Rightarrow> bool) \<Rightarrow> mem_state file_system" where
  "mem_fs faulty = \<lparr>
     fs_read = (\<lambda>p s. case map_of (mem_files s) p of Some content \<Rightarrow> Inr content | None \<Rightarrow> Inl NotFound),
     fs_create_dir_all = (\<lambda>_. mem_try faulty (\<lambda>m. m)),
     fs_write = (\<lambda>p content. mem_try faulty (AList.update p content)),
     fs_rename = (\<lambda>p q s. case map_of (mem_files s) p of
        None \<Rightarrow> (Inl NotFound, s)
      | Some content \<Rightarrow> mem_try faulty (\<lambda>m. AList.delete p (AList.update q content m)) s)\<rparr>"

definition mem_view :: "mem_state \<Rightarrow> ustr \<Rightarrow> bytes option" where
  "mem_view s = map_of (mem_files s)"

interpretation mem_store: file_store "mem_fs faulty" mem_view
  by unfold_locales
    (auto simp: mem_fs_def mem_view_def mem_try_def update_conv' delete_conv' fun_eq_iff split: if_splits option.splits)

section \<open>Lookups\<close>

text \<open>\<open>accepted\<close>: the request at position \<open>i\<close> of a log was answered with a usable result.\<close>

definition accepted :: "lookup_env \<Rightarrow> ustr \<Rightarrow> http_request list \<Rightarrow> nat \<Rightarrow> (json \<times> lookup_result) result" where
  "accepted E domain log i = lookup_answer (le_json E) domain (le_transport E (take i log) (log ! i))"

definition attempts_ok :: "lookup_env \<Rightarrow> ustr \<Rightarrow> ustr \<Rightarrow> nat \<Rightarrow> http_request list \<Rightarrow> http_request list \<Rightarrow> (json \<times> lookup_result) option \<Rightarrow> bool" where
  "attempts_ok E domain endpoint n log log' r \<longleftrightarrow>
     (\<exists>new. log' = log @ new \<and> length new \<le> n \<and>
       (\<forall>q \<in> set new. req_method q = ''POST'' \<and> req_url q = endpoint) \<and>
       (\<forall>i. length log \<le> i \<and> i < length log' \<and> (r = None \<or> i + 1 < length log') \<longrightarrow> \<not> is_ok (accepted E domain log' i)) \<and>
       (\<forall>x. r = Some x \<longrightarrow> new \<noteq> [] \<and> accepted E domain log' (length log' - 1) = Ok x))"

lemma accepted_append: "i < length log \<Longrightarrow> accepted E domain (log @ new) i = accepted E domain log i"
  by (simp add: accepted_def nth_append)

lemma endpoint_attempts_ok:
  assumes "endpoint_attempts E domain content endpoint n last_error log = (r, log')"
  shows "attempts_ok E domain endpoint n log log' (case r of Done x \<Rightarrow> Some x | _ \<Rightarrow> None)"
  using assms
proof (induction n arbitrary: last_error log)
  case 0
  then show ?case by (auto simp: attempts_ok_def)
next
  case (Suc n)
  show ?case
  proof (cases "mobile_api_headers (le_sec E) (le_os E) (le_stamps E (length log)) ''POST'' endpoint content")
    case (Inl e)
    with Suc.prems show ?thesis by (auto simp: attempts_ok_def)
  next
    case (Inr hs)
    define q where "q = \<lparr>req_method = ''POST'', req_url = endpoint, req_headers = lookup_headers hs, req_body = content, req_timeout = None\<rparr>"
    have q: "req_method q = ''POST''" "req_url q = endpoint" by (simp_all add: q_def)
    have acc: "accepted E domain (log @ [q]) (length log) = lookup_answer (le_json E) domain (le_transport E log q)"
      by (simp add: accepted_def)
    show ?thesis
    proof (cases "lookup_answer (le_json E) domain (le_transport E log q)")
      case (Inr x)
      with Suc.prems \<open>_ = Inr hs\<close> have "r = Done x" "log' = log @ [q]" by (simp_all add: q_def Let_def)
      then show ?thesis using q acc Inr by (auto simp: attempts_ok_def intro!: exI [of _ "[q]"])
    next
      case (Inl e)
      with Suc.prems \<open>_ = Inr hs\<close> have "endpoint_attempts E domain content endpoint n (Some e) (log @ [q]) = (r, log')"
        by (simp add: q_def Let_def)
      from Suc.IH [OF this] obtain new where new: "log' = (log @ [q]) @ new" "length new \<le> n"
        "\<forall>q \<in> set new. req_method q = ''POST'' \<and> req_url q = endpoint"
        and rej: "\<forall>i. length (log @ [q]) \<le> i \<and> i < length log' \<and> ((case r of Done x \<Rightarrow> Some x | _ \<Rightarrow> None) = None \<or> i + 1 < length log')
            \<longrightarrow> \<not> is_ok (accepted E domain log' i)"
        and win: "\<forall>x. (case r of Done x \<Rightarrow> Some x | _ \<Rightarrow> None) = Some x \<longrightarrow> new \<noteq> [] \<and> accepted E domain log' (length log' - 1) = Ok x"
        unfolding attempts_ok_def by blast
      have first: "\<not> is_ok (accepted E domain log' (length log))"
        using acc Inl accepted_append [of "length log" "log @ [q]" E domain new] by (simp add: new(1))
      have "\<not> is_ok (accepted E domain log' i)"
        if "length log \<le> i" "i < length log'" "(case r of Done x \<Rightarrow> Some x | _ \<Rightarrow> None) = None \<or> i + 1 < length log'" for i
        using rej first that by (cases "i = length log") auto
      then show ?thesis unfolding attempts_ok_def
        using new q win by (intro exI [of _ "q # new"]) auto
    qed
  qed
qed

definition live_ok :: "lookup_env \<Rightarrow> ustr \<Rightarrow> ustr list \<Rightarrow> http_request list \<Rightarrow> http_request list \<Rightarrow> (json \<times> lookup_result) result \<Rightarrow> bool" where
  "live_ok E domain endpoints log log' r \<longleftrightarrow>
     (\<exists>new. log' = log @ new \<and> length new \<le> 2 * length endpoints \<and>
       (\<forall>q \<in> set new. req_method q = ''POST'' \<and> req_url q \<in> set endpoints) \<and>
       (\<forall>i. length log \<le> i \<and> i < length log' \<and> (\<not> is_ok r \<or> i + 1 < length log') \<longrightarrow> \<not> is_ok (accepted E domain log' i)) \<and>
       (\<forall>x. r = Ok x \<longrightarrow> new \<noteq> [] \<and> accepted E domain log' (length log' - 1) = Ok x))"

lemma live_attempts_ok:
  assumes "live_attempts E domain content endpoints last_error log = (r, log')"
  shows "live_ok E domain endpoints log log' r"
  using assms
proof (induction endpoints arbitrary: last_error log)
  case Nil
  then show ?case by (auto simp: live_ok_def)
next
  case (Cons endpoint endpoints)
  show ?case
  proof (cases "validate_lookup_endpoint (le_sec E) endpoint")
    case (Inl e)
    with Cons.prems show ?thesis by (auto simp: live_ok_def)
  next
    case (Inr u)
    obtain a log1 where a: "endpoint_attempts E domain content endpoint 2 last_error log = (a, log1)" by fastforce
    note ok1 = endpoint_attempts_ok [OF a]
    show ?thesis
    proof (cases a)
      case (Failed e)
      from ok1 Failed obtain n1 where n1: "log1 = log @ n1" "length n1 \<le> 2"
        "\<forall>q \<in> set n1. req_method q = ''POST'' \<and> req_url q = endpoint"
        and rej1: "\<forall>i. length log \<le> i \<and> i < length log1 \<longrightarrow> \<not> is_ok (accepted E domain log1 i)"
        by (auto simp: attempts_ok_def)
      have "live_attempts E domain content endpoints e log1 = (r, log')" using Cons.prems Inr a Failed by simp
      from Cons.IH [OF this] obtain n2 where n2: "log' = log1 @ n2" "length n2 \<le> 2 * length endpoints"
        "\<forall>q \<in> set n2. req_method q = ''POST'' \<and> req_url q \<in> set endpoints"
        and rej2: "\<forall>i. length log1 \<le> i \<and> i < length log' \<and> (\<not> is_ok r \<or> i + 1 < length log') \<longrightarrow> \<not> is_ok (accepted E domain log' i)"
        and win: "\<forall>x. r = Ok x \<longrightarrow> n2 \<noteq> [] \<and> accepted E domain log' (length log' - 1) = Ok x"
        unfolding live_ok_def by blast
      have "\<not> is_ok (accepted E domain log' i)"
        if "length log \<le> i" "i < length log'" "\<not> is_ok r \<or> i + 1 < length log'" for i
        using rej1 rej2 that accepted_append [of i log1 E domain n2]
        by (cases "i < length log1") (simp_all add: n2(1))
      then show ?thesis unfolding live_ok_def
        using n1 n2 win by (intro exI [of _ "n1 @ n2"]) auto
    next
      case (Done x)
      then have "r = Ok x" "log' = log1" using Cons.prems Inr a by simp_all
      with ok1 Done show ?thesis by (fastforce simp: attempts_ok_def live_ok_def)
    next
      case (Abort e)
      then have "r = Err e" "log' = log1" using Cons.prems Inr a by simp_all
      with ok1 Abort show ?thesis by (fastforce simp: attempts_ok_def live_ok_def)
    qed
  qed
qed

lemma parse_lookup_source:
  "parse_lookup domain raw src = rmap (\<lambda>r. r\<lparr>lr_source := src\<rparr>) (parse_lookup domain raw src')"
  by (auto simp: parse_lookup_def rmap_def rbind_def Let_def split: sum.splits)

lemma parse_lookup_fields:
  assumes "parse_lookup domain raw src = Ok r"
  shows "original_domain r = domain \<and> lr_source r = src \<and> lr_raw r = raw \<and>
    (is_fuzzy_match r \<longrightarrow> validate_domain (complete_domain r) = Ok ())"
  using assms by (auto simp: parse_lookup_def rbind_eq_Ok Let_def split: if_splits)

lemma active_domain_valid:
  assumes "parse_lookup domain raw src = Ok r" "validate_domain domain = Ok ()"
  shows "validate_domain (active_domain r) = Ok ()"
  using parse_lookup_fields [OF assms(1)] assms(2) by (auto simp: active_domain_def)

lemma lookup_answer_parsed:
  assumes "lookup_answer J domain answer = Ok (raw, r)"
  shows "parse_lookup domain raw SourceNetwork = Ok r"
  using assms by (auto simp: lookup_answer_def rbind_eq_Ok rmap_def split: if_splits)

lemma lookup_live_parsed:
  assumes "lookup_live E endpoints domain device = (Ok (raw, r), log)"
  shows "parse_lookup domain raw SourceNetwork = Ok r"
proof -
  from assms obtain content where "live_attempts E domain content endpoints None [] = (Ok (raw, r), log)"
    by (auto simp: lookup_live_def split: sum.splits)
  from live_attempts_ok [OF this] have "accepted E domain log (length log - 1) = Ok (raw, r)" by (auto simp: live_ok_def)
  then show ?thesis unfolding accepted_def by (rule lookup_answer_parsed)
qed

lemma domain_char_not_slash: "\<not> domain_char SLASH"
  by (simp add: domain_char_def is_ascii_alphanumeric_def)

lemma cache_path_valid:
  assumes "validate_domain domain = Ok ()"
  shows "cache_path dir domain = dir @ SLASH # domain @ ascii_str ''.json''"
    "cache_temporary dir domain = dir @ SLASH # domain @ ascii_str ''.json.tmp''"
    "SLASH \<notin> set domain"
proof -
  from assms have d: "domain \<noteq> []" "list_all domain_char domain"
    by (auto simp: validate_domain_def split: if_splits)
  then show s: "SLASH \<notin> set domain" using domain_char_not_slash by (auto simp: list_all_iff)
  with d(1) have "hd domain \<noteq> SLASH" by (metis hd_in_set)
  then show "cache_path dir domain = dir @ SLASH # domain @ ascii_str ''.json''"
    using d(1) by (simp add: cache_path_def path_join_def)
  then show "cache_temporary dir domain = dir @ SLASH # domain @ ascii_str ''.json.tmp''"
    by (simp add: cache_temporary_def ascii_str_def)
qed

lemma cache_path_inject:
  assumes "validate_domain a = Ok ()" "validate_domain b = Ok ()"
  shows "cache_path dir a = cache_path dir b \<longleftrightarrow> a = b" "cache_temporary dir a \<noteq> cache_path dir b"
proof -
  show "cache_path dir a = cache_path dir b \<longleftrightarrow> a = b" using assms by (simp add: cache_path_valid)
  have "last (ascii_str ''.json.tmp'') \<noteq> last (ascii_str ''.json'')" by code_simp
  then have "last (cache_temporary dir a) \<noteq> last (cache_path dir b)"
    using assms by (simp add: cache_path_valid ascii_str_def)
  then show "cache_temporary dir a \<noteq> cache_path dir b" by metis
qed

section \<open>Properties\<close>

text \<open>(lookup requests). A live lookup makes at most two requests to each endpoint. A result is what the
  last request was answered with, all earlier requests having failed; without a result no
  request was answered usably.\<close>

theorem lookup_live_sound:
  assumes "lookup_live E endpoints domain device = (res, log)"
  shows "length log \<le> 2 * length endpoints \<and>
    (\<forall>q \<in> set log. req_method q = ''POST'' \<and> req_url q \<in> set endpoints) \<and>
    (case res of
       Inr r \<Rightarrow> log \<noteq> [] \<and> lookup_answer (le_json E) domain (le_transport E (butlast log) (last log)) = Ok r \<and>
         (\<forall>i < length log - 1. \<not> is_ok (lookup_answer (le_json E) domain (le_transport E (take i log) (log ! i))))
     | Inl _ \<Rightarrow>
         (\<forall>i < length log. \<not> is_ok (lookup_answer (le_json E) domain (le_transport E (take i log) (log ! i)))))"
proof (cases "lookup_body (le_json E) domain device")
  case (Inl e)
  with assms show ?thesis by (auto simp: lookup_live_def)
next
  case (Inr content)
  with assms have "live_attempts E domain content endpoints None [] = (res, log)" by (simp add: lookup_live_def)
  from live_attempts_ok [OF this] have ok: "length log \<le> 2 * length endpoints"
    "\<forall>q \<in> set log. req_method q = ''POST'' \<and> req_url q \<in> set endpoints"
    "\<And>i. i < length log \<Longrightarrow> \<not> is_ok res \<or> i + 1 < length log \<Longrightarrow> \<not> is_ok (accepted E domain log i)"
    "\<And>x. res = Ok x \<Longrightarrow> log \<noteq> [] \<and> accepted E domain log (length log - 1) = Ok x"
    by (auto simp: live_ok_def)
  show ?thesis
  proof (cases res)
    case (Inl e)
    with ok show ?thesis by (simp add: accepted_def)
  next
    case (Inr r)
    with ok(4) have "log \<noteq> []" "accepted E domain log (length log - 1) = Ok r" by simp_all
    then show ?thesis using ok(1-3) Inr by (simp add: accepted_def last_conv_nth butlast_conv_take)
  qed
qed

text \<open>A lookup environment with one endpoint that always answers the same controller domain.\<close>

definition demo_raw :: json where
  "demo_raw = JObject [(ascii_str ''type'', JString (ascii_str ''controller''))]"

definition demo_json_lib :: json_lib where
  "demo_json_lib = \<lparr>json_from_slice = (\<lambda>_. Some demo_raw), json_to_vec = (\<lambda>_. Some []), json_to_string = (\<lambda>_. []),
     number_to_string = (\<lambda>_. []), float_as_i32 = (\<lambda>_. 0), parse_f64_as_i32 = (\<lambda>_. None)\<rparr>"

definition lookup_sec_lib :: sec_lib where
  "lookup_sec_lib = demo_sec_lib\<lparr>url_parse := (\<lambda>_. Some ((demo_url [])\<lparr>url_path := ascii_str ''/lookup'', url_query := None\<rparr>))\<rparr>"

definition demo_lookup_env :: "bool \<Rightarrow> lookup_env" where
  "demo_lookup_env up = \<lparr>le_json = demo_json_lib, le_sec = lookup_sec_lib, le_os = Linux,
     le_stamps = (\<lambda>_. \<lparr>stamp_secs = Some 0, stamp_random = []\<rparr>),
     le_transport = (\<lambda>_ _. if up then Ok \<lparr>rsp_status = 200, rsp_body = []\<rparr> else Err (Http ''request failed: {error}''))\<rparr>"

definition demo_result :: lookup_result where
  "demo_result = \<lparr>complete_domain = [0x61], original_domain = [0x61], is_fuzzy_match = False,
     lr_service_type = ControllerService, server_list_url = None, saas_info = None, controller_info = None,
     lr_source = SourceNetwork, lr_raw = demo_raw\<rparr>"

lemma demo_parse: "parse_lookup [0x61] demo_raw SourceNetwork = Ok demo_result"
  by code_simp

lemma demo_headers: "\<exists>hs. mobile_api_headers lookup_sec_lib Linux \<lparr>stamp_secs = Some 0, stamp_random = []\<rparr> ''POST'' e content = Ok hs"
proof -
  have "list_all (\<lambda>c. 0x41 \<le> c \<and> c \<le> 0x5a) (ascii_str ''POST'')" by code_simp
  then show ?thesis
    by (simp add: mobile_api_headers_def timestamp_now_def authentication_headers_def sign_http_request_def rmap_def
        canonical_http_request_def lookup_sec_lib_def demo_sec_lib_def demo_url_def https_only_def Let_def)
qed

lemma demo_endpoint: "validate_lookup_endpoint lookup_sec_lib e = Ok ()"
  by (simp add: validate_lookup_endpoint_def lookup_sec_lib_def demo_url_def https_only_def)

lemma demo_answer: "lookup_answer demo_json_lib [0x61] (le_transport (demo_lookup_env up) log q) =
    (if up then Ok (demo_raw, demo_result) else Err (Http ''request failed: {error}''))"
proof -
  have "response_data demo_raw = Ok demo_raw" by code_simp
  then show ?thesis by (simp add: lookup_answer_def demo_lookup_env_def demo_json_lib_def rmap_def demo_parse)
qed

lemma demo_live:
  "\<exists>log. lookup_live (demo_lookup_env up) [e] [0x61] device =
     (if up then Ok (demo_raw, demo_result) else Err (Http ''request failed: {error}''), log) \<and> log \<noteq> []"
proof -
  obtain hs where hs: "mobile_api_headers lookup_sec_lib Linux \<lparr>stamp_secs = Some 0, stamp_random = []\<rparr> ''POST'' e [] = Ok hs"
    using demo_headers by blast
  have E: "le_json (demo_lookup_env u) = demo_json_lib" "le_sec (demo_lookup_env u) = lookup_sec_lib"
    "le_os (demo_lookup_env u) = Linux" "le_stamps (demo_lookup_env u) = (\<lambda>_. \<lparr>stamp_secs = Some 0, stamp_random = []\<rparr>)" for u
    by (simp_all add: demo_lookup_env_def)
  have "lookup_body demo_json_lib [0x61] device = Ok []" by (simp add: lookup_body_def demo_json_lib_def)
  then show ?thesis
    by (auto simp: lookup_live_def E demo_endpoint numeral_2_eq_2 hs demo_answer Let_def)
qed

theorem lookup_live_sound_witness:
  "\<exists>log. lookup_live (demo_lookup_env True) [[0x65]] [0x61] [0x64] = (Ok (demo_raw, demo_result), log) \<and>
     length log \<le> 2 \<and> (\<forall>q \<in> set log. req_url q = [0x65])"
proof -
  obtain log where l: "lookup_live (demo_lookup_env True) [[0x65]] [0x61] [0x64] = (Ok (demo_raw, demo_result), log)"
    using demo_live [of True "[0x65]" "[0x64]"] by auto
  from lookup_live_sound [OF l] l show ?thesis by auto
qed

text \<open>C32 (the cache bridges an outage). After a live lookup of a domain with a working cache, a later lookup of the
  same domain that gets no live answer returns the same result, marked as cached, for seven days.\<close>

theorem lookup_survives_outage:
  assumes "file_store F view"
    and "\<And>d s. fst (fs_create_dir_all F d s) = Inr ()" "\<And>p content s. fst (fs_write F p content s) = Inr ()"
    and "\<And>p q s. view s p \<noteq> None \<Longrightarrow> fst (fs_rename F p q s) = Inr ()"
    and "\<And>content. entry_encode C (ms, lr_raw result) = Some content \<Longrightarrow> entry_decode C content = Some (ms, lr_raw result)"
    and "lookup_at F C E endpoints (Some dir) domain device now s = (Ok result, log, s')" "lr_source result = SourceNetwork"
    and "entry_encode C (ms, lr_raw result) \<noteq> None" "fst (lookup_live E' endpoints domain device) = Err e"
    and "now = Some ms" "ms < 2 ^ 64" "now' = Some ms'" "ms' < 2 ^ 64" "ms' \<le> ms + LOOKUP_CACHE_TTL_MS"
  shows "fst (lookup_at F C E' endpoints (Some dir) domain device now' s') = Ok (result\<lparr>lr_source := SourceCache\<rparr>)"
proof -
  note store = assms(1)
  from assms(6) have v: "validate_domain domain = Ok ()" and dev: "str_trim device \<noteq> []"
    by (auto simp: lookup_at_def split: sum.splits if_splits)
  have live: "\<exists>raw log'. lookup_live E endpoints domain device = (Ok (raw, result), log')"
    using assms(6,7) v dev by (auto simp: lookup_at_def split: sum.splits prod.splits option.splits dest!: parse_lookup_fields)
  then obtain raw log' where live: "lookup_live E endpoints domain device = (Ok (raw, result), log')" by blast
  note parsed = lookup_live_parsed [OF live]
  note va = active_domain_valid [OF parsed v]
  obtain content where c: "entry_encode C (ms, raw) = Some content" "entry_decode C content = Some (ms, raw)"
    using assms(5,8) parse_lookup_fields [OF parsed] by auto
  have written: "\<exists>s2. cache_write F C dir d raw now s1 = (Ok (), s2)" for d s1
  proof -
    obtain s2 where 1: "fs_create_dir_all F dir s1 = (Inr (), s2)" using assms(2) by (metis prod.collapse)
    obtain s3 where 2: "fs_write F (cache_temporary dir d) content s2 = (Inr (), s3)" using assms(3) by (metis prod.collapse)
    have "view s3 (cache_temporary dir d) \<noteq> None" using file_store.write_view [OF store 2] by simp
    then obtain s4 where 3: "fs_rename F (cache_temporary dir d) (cache_path dir d) s3 = (Inr (), s4)"
      using assms(4) by (metis prod.collapse)
    show ?thesis using 1 c 2 3 assms(10,11) by (simp add: cache_write_def epoch_millis_def)
  qed
  obtain s1 where w1: "cache_write F C dir domain raw now s = (Ok (), s1)" using written by blast
  have p1: "view s1 (cache_path dir domain) = Some content"
    using file_store.cache_write_ok [OF store w1] c(1) assms(10,11) cache_path_inject(2) [OF v v, of dir]
    by (auto simp: epoch_millis_def)
  have diff: "ms' - ms \<le> LOOKUP_CACHE_TTL_MS" using assms(14) by linarith
  have "view s' (cache_path dir domain) = Some content"
  proof (cases "active_domain result = domain")
    case True
    then have "s' = s1" using assms(6) v dev live w1 by (simp add: lookup_at_def)
    then show ?thesis by (simp add: p1)
  next
    case False
    then have "s' = snd (cache_write F C dir (active_domain result) raw now s1)"
      using assms(6) v dev live w1 by (simp add: lookup_at_def)
    then obtain r where "cache_write F C dir (active_domain result) raw now s1 = (r, s')" by (metis prod.collapse)
    from file_store.cache_write_frame [OF store this, of "cache_path dir domain"] p1 False
    show ?thesis using cache_path_inject [OF va v] cache_path_inject(1) [OF v va] by metis
  qed
  then have read: "cache_read F C dir domain now' s' = Ok (Some raw)"
    using assms(12,13) diff by (intro file_store.cache_read_view [OF store _ c(2)]) (simp_all add: epoch_millis_def)
  have "parse_lookup domain raw SourceCache = Ok (result\<lparr>lr_source := SourceCache\<rparr>)"
    using parse_lookup_source [of domain raw SourceCache SourceNetwork] parsed by (simp add: rmap_def)
  then show ?thesis
    using v dev assms(9) read by (auto simp: lookup_at_def split: prod.splits)
qed

text \<open>A codec that serializes one answer only, by its time in unary.\<close>

definition demo_codec :: cache_codec where
  "demo_codec = \<lparr>entry_encode = (\<lambda>(ms, v). if v = demo_raw then Some (replicate ms 0) else None),
     entry_decode = (\<lambda>content. Some (length content, demo_raw))\<rparr>"

definition demo_store :: mem_state where
  "demo_store = snd (cache_write (mem_fs (\<lambda>_. False)) demo_codec [0x63] [0x61] demo_raw (Some 7) \<lparr>mem_calls = 0, mem_files = []\<rparr>)"

lemma demo_lookup:
  "\<exists>log. lookup_at (mem_fs (\<lambda>_. False)) demo_codec (demo_lookup_env True) [[0x65]] (Some [0x63]) [0x61] [0x64] (Some 7)
      \<lparr>mem_calls = 0, mem_files = []\<rparr> = (Ok demo_result, log, demo_store)"
proof -
  obtain log where up: "lookup_live (demo_lookup_env True) [[0x65]] [0x61] [0x64] = (Ok (demo_raw, demo_result), log)"
    using demo_live [of True "[0x65]" "[0x64]"] by auto
  have v: "validate_domain [0x61] = Ok ()" by (simp add: validate_domain_def domain_char_def is_ascii_alphanumeric_def)
  have t: "str_trim [0x64] \<noteq> []" by (simp add: str_trim_def is_whitespace_def)
  have a: "active_domain demo_result = [0x61]" by (simp add: active_domain_def demo_result_def)
  show ?thesis unfolding lookup_at_def v up sum.case prod.case if_not_P [OF t] option.case a demo_store_def Let_def
    by simp
qed

theorem lookup_survives_outage_witness:
  "\<exists>log s'. lookup_at (mem_fs (\<lambda>_. False)) demo_codec (demo_lookup_env True) [[0x65]] (Some [0x63]) [0x61] [0x64] (Some 7)
        \<lparr>mem_calls = 0, mem_files = []\<rparr> = (Ok demo_result, log, s') \<and>
     fst (lookup_at (mem_fs (\<lambda>_. False)) demo_codec (demo_lookup_env False) [[0x65]] (Some [0x63]) [0x61] [0x64] (Some 8) s') =
       Ok (demo_result\<lparr>lr_source := SourceCache\<rparr>)"
proof -
  let ?F = "mem_fs (\<lambda>_. False)" and ?s = "\<lparr>mem_calls = 0, mem_files = []\<rparr>"
  have down: "fst (lookup_live (demo_lookup_env False) [[0x65]] [0x61] [0x64]) = Err (Http ''request failed: {error}'')"
    using demo_live [of False "[0x65]" "[0x64]"] by (metis fst_conv)
  obtain log where at: "lookup_at ?F demo_codec (demo_lookup_env True) [[0x65]] (Some [0x63]) [0x61] [0x64] (Some 7) ?s =
      (Ok demo_result, log, demo_store)" using demo_lookup by blast
  have "fst (lookup_at ?F demo_codec (demo_lookup_env False) [[0x65]] (Some [0x63]) [0x61] [0x64] (Some 8) demo_store) =
      Ok (demo_result\<lparr>lr_source := SourceCache\<rparr>)"
  proof (rule lookup_survives_outage [OF mem_store.file_store_axioms _ _ _ _ at _ _ down, where ms = 7 and ms' = 8])
    show "entry_decode demo_codec content = Some (7, lr_raw demo_result)"
      if "entry_encode demo_codec (7, lr_raw demo_result) = Some content" for content
      using that by (auto simp: demo_codec_def split: prod.splits if_splits)
    show "fst (fs_create_dir_all ?F d s) = Inr ()" "fst (fs_write ?F p content s) = Inr ()" for d s p content
      by (simp_all add: mem_fs_def mem_try_def)
    show "fst (fs_rename ?F p q s) = Inr ()" if "mem_view s p \<noteq> None" for p q s
      using that by (auto simp: mem_fs_def mem_try_def mem_view_def)
    show "entry_encode demo_codec (7, lr_raw demo_result) \<noteq> None" by (simp add: demo_codec_def demo_result_def)
    show "lr_source demo_result = SourceNetwork" by (simp add: demo_result_def)
  qed simp_all
  with at show ?thesis by blast
qed

text \<open>(cache files). Whatever a lookup answers, the only files it changes are directly in the cache directory, under
  the name of a valid domain with the extension \<open>.json\<close> or \<open>.json.tmp\<close>.\<close>

theorem lookup_writes_stay_in_cache:
  assumes "file_store F view" "lookup_at F C E endpoints cache domain device now s = (res, log, s')" "view s' p \<noteq> view s p"
  shows "\<exists>dir d ext. cache = Some dir \<and> p = dir @ SLASH # d @ ascii_str ext \<and> ext \<in> {''.json'', ''.json.tmp''} \<and>
    validate_domain d = Ok () \<and> SLASH \<notin> set d"
proof -
  from assms(2,3) obtain raw result dir where v: "validate_domain domain = Ok ()" and live: "lookup_live E endpoints domain device = (Ok (raw, result), log)"
    and dir: "cache = Some dir"
    and s': "s' = (let s1 = snd (cache_write F C dir domain raw now s) in
                   if active_domain result \<noteq> domain then snd (cache_write F C dir (active_domain result) raw now s1) else s1)"
    by (auto simp: lookup_at_def Let_def split: sum.splits if_splits prod.splits option.splits)
  note va = active_domain_valid [OF lookup_live_parsed [OF live] v]
  obtain r1 s1 where w1: "cache_write F C dir domain raw now s = (r1, s1)" by fastforce
  have frame: "p = cache_path dir d \<or> p = cache_temporary dir d"
    if "cache_write F C dir d raw now t = (r, t')" "view t' p \<noteq> view t p" for d t r t'
    using file_store.cache_write_frame [OF assms(1) that(1), of p] that(2) by blast
  have "\<exists>d. validate_domain d = Ok () \<and> (p = cache_path dir d \<or> p = cache_temporary dir d)"
  proof (cases "view s1 p = view s p")
    case False
    then show ?thesis using frame [OF w1] v by blast
  next
    case True
    then have "view s' p \<noteq> view s1 p" "s' = snd (cache_write F C dir (active_domain result) raw now s1)"
      using assms(3) s' w1 by (auto simp: Let_def split: if_splits)
    then show ?thesis using frame va by (metis prod.collapse)
  qed
  then obtain d where d: "validate_domain d = Ok ()" "p = cache_path dir d \<or> p = cache_temporary dir d" by blast
  then show ?thesis using cache_path_valid(1,2) [OF d(1), of dir] cache_path_valid(3) [OF d(1)] dir by (metis insert_iff)
qed

theorem lookup_writes_stay_in_cache_witness:
  "\<exists>res log s' p. lookup_at (mem_fs (\<lambda>_. False)) demo_codec (demo_lookup_env True) [[0x65]] (Some [0x63]) [0x61] [0x64] (Some 7)
        \<lparr>mem_calls = 0, mem_files = []\<rparr> = (res, log, s') \<and> mem_view s' p \<noteq> None \<and>
     (\<exists>d ext. p = [0x63] @ SLASH # d @ ascii_str ext \<and> SLASH \<notin> set d)"
proof -
  let ?F = "mem_fs (\<lambda>_. False)" and ?s = "\<lparr>mem_calls = 0, mem_files = []\<rparr>"
  obtain log where at: "lookup_at ?F demo_codec (demo_lookup_env True) [[0x65]] (Some [0x63]) [0x61] [0x64] (Some 7) ?s =
      (Ok demo_result, log, demo_store)" using demo_lookup by blast
  have "cache_temporary [0x63] [0x61] \<noteq> cache_path [0x63] [0x61]" by code_simp
  then have "mem_view demo_store (cache_path [0x63] [0x61]) \<noteq> None"
    by (simp add: demo_store_def cache_write_def mem_fs_def mem_try_def epoch_millis_def demo_codec_def mem_view_def delete_conv' update_conv')
  moreover have "mem_view ?s p = None" for p by (simp add: mem_view_def)
  ultimately show ?thesis
    using lookup_writes_stay_in_cache [OF mem_store.file_store_axioms at, of "cache_path [0x63] [0x61]"] at by fastforce
qed

end
