(* ===== verification/Managed_Controller.thy ===== *)
theory Managed_Controller
  imports Managed_Lookup Dns_Policy Routes
begin

text \<open>
  The controller's configuration (\<open>src/managed/controller.rs\<close>) and the passwords in it
  (\<open>src/managed/password.rs\<close>): typed views of the JSON answer to a \<open>/config\<close> request and the
  request itself. Base64 and AES-GCM come from crates and are the parameter \<open>aead_lib\<close>; the
  derived deserializer of a Segment Routing group is the parameter \<open>sr_group_from_value\<close>.
\<close>

section \<open>Numbers in texts\<close>

text \<open>\<open>parse\<close> and \<open>to_string\<close> of the signed integer types; \<open>m\<close> is the magnitude of the least value.\<close>

definition parse_int :: "nat \<Rightarrow> ustr \<Rightarrow> int option" where
  "parse_int m s =
     (if s \<noteq> [] \<and> hd s = 0x2d then
        let digits = tl s in
        if digits = [] \<or> \<not> list_all is_digit digits \<or> dec_value digits > m then None
        else Some (- int (dec_value digits))
      else map_option int (parse_uint m s))"

abbreviation parse_i32 :: "ustr \<Rightarrow> int option" where "parse_i32 \<equiv> parse_int (2 ^ 31)"
abbreviation parse_i64 :: "ustr \<Rightarrow> int option" where "parse_i64 \<equiv> parse_int (2 ^ 63)"

definition dec_int :: "int \<Rightarrow> ustr" where
  "dec_int n = (if n < 0 then 0x2d # dec (nat (- n)) else dec (nat n))"

definition eq_ignore_ascii_case :: "ustr \<Rightarrow> ustr \<Rightarrow> bool" where
  "eq_ignore_ascii_case a b \<longleftrightarrow> to_ascii_lowercase a = to_ascii_lowercase b"

definition parse_ipv4 :: "addr_text \<Rightarrow> ustr \<Rightarrow> u32 option" where
  "parse_ipv4 T s = (case at_parse T s of Some (V4 a) \<Rightarrow> Some a | _ \<Rightarrow> None)"

section \<open>Passwords\<close>

record aead_lib =
  base64_decode :: "ustr \<Rightarrow> bytes option"
  aes256_gcm_open :: "bytes \<Rightarrow> bytes \<Rightarrow> bytes \<Rightarrow> bytes \<Rightarrow> bytes option" \<comment> \<open>key, nonce, associated data, ciphertext with tag\<close>

abbreviation (input) NONCE_LENGTH :: nat where "NONCE_LENGTH \<equiv> 12"
abbreviation (input) MINIMUM_PAYLOAD_LENGTH :: nat where "MINIMUM_PAYLOAD_LENGTH \<equiv> 29"

definition decrypt_saas_password ::
  "sec_lib \<Rightarrow> aead_lib \<Rightarrow> ustr \<Rightarrow> ustr \<Rightarrow> ustr \<Rightarrow> ustr \<Rightarrow> ustr result" where
  "decrypt_saas_password S A ident domain username encoded =
     (if encoded = [] then Err (Crypto ''empty SaaS password payload'')
      else if domain = [] then Err (Crypto ''empty SaaS credential domain'')
      else if username = [] then Err (Crypto ''empty SaaS credential username'')
      else
        rbind (ok_or (Crypto ''invalid SaaS password Base64'') (base64_decode A encoded)) (\<lambda>payload.
        if length payload < MINIMUM_PAYLOAD_LENGTH then Err (Crypto ''SaaS password payload is too short'')
        else
          rbind (controller_secret S ident) (\<lambda>secret.
          let key = sha256 S (utf8_bytes (secret @ ascii_str ''|'' @ domain @ ascii_str ''|'' @ username));
              aad = utf8_bytes (domain @ ascii_str ''|'' @ username)
          in
          if length key \<noteq> 32 then Err (Crypto ''invalid SaaS password key'')
          else
            rbind (ok_or (Crypto ''SaaS password authentication failed'')
                    (aes256_gcm_open A key (take NONCE_LENGTH payload) aad (drop NONCE_LENGTH payload))) (\<lambda>plaintext.
            ok_or (Crypto ''SaaS password is not UTF-8'') (from_utf8 plaintext)))))"

section \<open>Members\<close>

record controller_configuration =
  cc_raw :: json
  cc_app_id :: "ustr option"
  cc_domain :: "ustr option"

definition config_from_raw :: "json \<Rightarrow> controller_configuration" where
  "config_from_raw raw = \<lparr>cc_raw = raw, cc_app_id = None, cc_domain = None\<rparr>"

definition nonempty_object_member :: "json \<Rightarrow> string \<Rightarrow> json option" where
  "nonempty_object_member v name =
     opt_filter (\<lambda>member. case as_object member of Some m \<Rightarrow> m \<noteq> [] | None \<Rightarrow> False) (json_get v name)"

definition cc_posture :: "controller_configuration \<Rightarrow> json option" where
  "cc_posture c = nonempty_object_member (cc_raw c) ''posture''"

definition cc_keepalive :: "controller_configuration \<Rightarrow> json option" where
  "cc_keepalive c = nonempty_object_member (cc_raw c) ''keepalive''"

definition array_items :: "json option \<Rightarrow> json list" where
  "array_items v = opt_unwrap_or [] (opt_and_then v as_array)"

definition nonempty_string_array :: "json option \<Rightarrow> ustr list" where
  "nonempty_string_array v = filter (\<lambda>s. s \<noteq> []) (map str_trim (List.map_filter as_str (array_items v)))"

definition string_member :: "json_object \<Rightarrow> string \<Rightarrow> string \<Rightarrow> ustr" where
  "string_member m name d = opt_unwrap_or (ascii_str d) (opt_and_then (obj_get m name) as_str)"

definition string_list :: "json_lib \<Rightarrow> json option \<Rightarrow> ustr list" where
  "string_list J v =
     List.map_filter (\<lambda>item.
       let s = (case item of
                  JString s \<Rightarrow> Some (str_trim s)
                | JNull \<Rightarrow> None
                | other \<Rightarrow> Some (str_trim (json_to_string J other)))
       in opt_filter (\<lambda>s. s \<noteq> []) s) (array_items v)"

definition parse_ipv4_list :: "json_lib \<Rightarrow> addr_text \<Rightarrow> json option \<Rightarrow> u32 list" where
  "parse_ipv4_list J T v = List.map_filter (parse_ipv4 T) (string_list J v)"

definition rule_option :: "ustr \<Rightarrow> domain_rule option" where
  "rule_option v = (case rule_parse v of Inr r \<Rightarrow> Some r | Inl _ \<Rightarrow> None)"

definition parse_domain_rules :: "json_lib \<Rightarrow> json option \<Rightarrow> domain_rule list" where
  "parse_domain_rules J v = List.map_filter rule_option (string_list J v)"

definition parse_dns_hosts :: "json_lib \<Rightarrow> json option \<Rightarrow> ustr list" where
  "parse_dns_hosts J v =
     List.map_filter (\<lambda>s. map_option rule_domain (rule_option (0x5e # s))) (string_list J v)"

section \<open>Device binding\<close>

datatype device_binding_status = BindPending | BindRejected | BindRevoked | BindLimitExceeded | BindCheckFailed

fun binding_code :: "device_binding_status \<Rightarrow> int" where
  "binding_code BindPending = 8000"
| "binding_code BindRejected = 8001"
| "binding_code BindRevoked = 8002"
| "binding_code BindLimitExceeded = 8003"
| "binding_code BindCheckFailed = -1"

fun binding_as_str :: "device_binding_status \<Rightarrow> string" where
  "binding_as_str BindPending = ''pending''"
| "binding_as_str BindRejected = ''rejected''"
| "binding_as_str BindRevoked = ''revoked''"
| "binding_as_str BindLimitExceeded = ''limitExceeded''"
| "binding_as_str BindCheckFailed = ''checkFailed''"

definition binding_from_code :: "int \<Rightarrow> device_binding_status option" where
  "binding_from_code code =
     (if code = 8000 then Some BindPending
      else if code = 8001 then Some BindRejected
      else if code = 8002 then Some BindRevoked
      else if code = 8003 then Some BindLimitExceeded
      else if code = -1 then Some BindCheckFailed
      else None)"

definition binding_from_name :: "ustr \<Rightarrow> device_binding_status option" where
  "binding_from_name name =
     (let s = to_ascii_lowercase name in
      if s = ascii_str ''pending'' then Some BindPending
      else if s = ascii_str ''rejected'' then Some BindRejected
      else if s = ascii_str ''revoked'' then Some BindRevoked
      else if s = ascii_str ''limitexceeded'' \<or> s = ascii_str ''limit_exceeded'' then Some BindLimitExceeded
      else if s = ascii_str ''checkfailed'' \<or> s = ascii_str ''check_failed'' then Some BindCheckFailed
      else None)"

definition cc_device_binding_status :: "controller_configuration \<Rightarrow> device_binding_status option" where
  "cc_device_binding_status c =
     opt_and_then (json_get (cc_raw c) ''device_binding_status'') (\<lambda>v0.
       let v = opt_unwrap_or v0 (opt_and_then (as_object v0) (\<lambda>m.
                 case obj_get m ''code'' of Some w \<Rightarrow> Some w | None \<Rightarrow> obj_get m ''status''))
       in
       case opt_filter in_i32 (as_i64 v) of
         Some code \<Rightarrow> binding_from_code code
       | None \<Rightarrow>
           opt_and_then (as_str v) (\<lambda>s0.
             let s = str_trim s0 in
             case parse_i32 s of
               Some code \<Rightarrow> binding_from_code code
             | None \<Rightarrow> binding_from_name s))"

definition enforce_device_binding :: "controller_configuration \<Rightarrow> unit result" where
  "enforce_device_binding c =
     (case cc_device_binding_status c of
        None \<Rightarrow> Ok ()
      | Some status \<Rightarrow> Err (DeviceBindingBlocked (binding_code status) (binding_as_str status)))"

section \<open>Filters and routing\<close>

record ip_filter_configuration =
  ipf_version :: ustr
  ipf_updated :: bool
  ipf_inclusive :: "ustr list"
  ipf_exclusive :: "ustr list"

definition ip_filter :: "controller_configuration \<Rightarrow> ip_filter_configuration option result" where
  "ip_filter c =
     (case json_get (cc_raw c) ''ipfilter'' of
        None \<Rightarrow> Ok None
      | Some raw \<Rightarrow>
          rbind (ok_or (Controller ''ipfilter must be an object'') (as_object raw)) (\<lambda>outer.
          rbind (ok_or (Controller ''ipfilter has no version'')
                  (opt_filter (\<lambda>s. s \<noteq> []) (opt_and_then (obj_get outer ''version'') as_str))) (\<lambda>version.
          let rules = opt_unwrap_or outer (opt_and_then (obj_get outer ''ipfilter'') as_object) in
          Ok (Some \<lparr>ipf_version = version,
                    ipf_updated = opt_unwrap_or True (opt_and_then (obj_get rules ''updated'') as_bool),
                    ipf_inclusive = nonempty_string_array (obj_get rules ''inclusive''),
                    ipf_exclusive = nonempty_string_array (obj_get rules ''exclusive'')\<rparr>))))"

datatype routing_mode = RouteAll | RouteIpFilter | RouteCustom

record routing_configuration =
  rcf_mode :: routing_mode
  rcf_custom_routes :: "ustr list"
  rcf_mtu_mode :: ustr
  rcf_custom_mtu :: int

definition routing :: "controller_configuration \<Rightarrow> routing_configuration option result" where
  "routing c =
     (case json_get (cc_raw c) ''routing'' of
        None \<Rightarrow> Ok None
      | Some v \<Rightarrow>
          rbind (ok_or (Controller ''routing policy must be an object'') (as_object v)) (\<lambda>m.
          let mode_text = to_ascii_lowercase (string_member m ''mode'' ''all'');
              mode = (if mode_text = ascii_str ''ipfilter'' then RouteIpFilter
                      else if mode_text = ascii_str ''custom'' then RouteCustom else RouteAll);
              custom = opt_unwrap_or [] (map_option
                 (\<lambda>routes. filter (\<lambda>r. r \<noteq> []) (map str_trim (split_char 0x2c routes)))
                 (opt_and_then (obj_get m ''custom_routes'') as_str))
          in
          Ok (Some \<lparr>rcf_mode = mode, rcf_custom_routes = custom, rcf_mtu_mode = string_member m ''mtu_mode'' ''server'',
                    rcf_custom_mtu = opt_unwrap_or 0 (opt_filter in_i32 (opt_and_then (obj_get m ''custom_mtu'') as_i64))\<rparr>)))"

definition cc_custom_routes :: "controller_configuration \<Rightarrow> ustr list result" where
  "cc_custom_routes c =
     rbind (routing c) (\<lambda>r.
       Ok (case opt_filter (\<lambda>r. rcf_mode r = RouteCustom) r of None \<Rightarrow> [] | Some r \<Rightarrow> rcf_custom_routes r))"

section \<open>DNS defaults\<close>

definition dns_section :: "json_lib \<Rightarrow> addr_text \<Rightarrow> json \<Rightarrow> dns_defaults \<Rightarrow> dns_defaults" where
  "dns_section J T raw d =
     (case opt_and_then (json_get raw ''dns'') as_object of
        None \<Rightarrow> d
      | Some m \<Rightarrow>
          d\<lparr>def_server_mode := from_server_value (string_member m ''mode'' ''auto''),
            def_server_dns := parse_ipv4_list J T (obj_get m ''servers'')\<rparr>)"

definition domainfilter_section :: "json_lib \<Rightarrow> json \<Rightarrow> dns_defaults \<Rightarrow> dns_defaults result" where
  "domainfilter_section J raw d =
     (case json_get raw ''domainfilter'' of
        None \<Rightarrow> Ok d
      | Some v \<Rightarrow>
          rbind (ok_or (Controller ''domainfilter must be an object'') (as_object v)) (\<lambda>m.
          Ok (d\<lparr>def_managed_domain_filter := eq_ignore_ascii_case (string_member m ''mode'' '''') (ascii_str ''domain_filter''),
                def_managed_inclusive := parse_domain_rules J (obj_get m ''inclusive''),
                def_managed_exclusive := parse_domain_rules J (obj_get m ''exclusive''),
                def_block_encrypted_dns := opt_unwrap_or False (opt_and_then (obj_get m ''drop_secure_dns'') as_bool),
                def_secure_dns_hosts := parse_dns_hosts J (obj_get m ''secure_dns_hosts'')\<rparr>)))"

definition custom_dns :: "addr_text \<Rightarrow> json_object \<Rightarrow> u32 list" where
  "custom_dns T m =
     List.map_filter (\<lambda>k.
       opt_and_then (opt_and_then (obj_get m k) as_str) (\<lambda>v.
         if str_trim v = [] then None else parse_ipv4 T (str_trim v))) [''custom_dns1'', ''custom_dns2'']"

definition split_setting :: "json_object \<Rightarrow> split_dns_mode result" where
  "split_setting m =
     (if opt_unwrap_or False (opt_and_then (obj_get m ''split_dns_enabled'') as_bool)
      then (case opt_filter (\<lambda>s. s \<noteq> []) (opt_and_then (obj_get m ''split_dns_mode'') as_str) of
              None \<Rightarrow> Ok SplitManaged
            | Some mode \<Rightarrow> split_dns_mode_from_str mode)
      else Ok SplitOff)"

definition routing_section :: "json_lib \<Rightarrow> addr_text \<Rightarrow> json \<Rightarrow> dns_defaults \<Rightarrow> dns_defaults result" where
  "routing_section J T raw d =
     (case json_get raw ''routing'' of
        None \<Rightarrow> Ok d
      | Some v \<Rightarrow>
          rbind (ok_or (Controller ''routing policy must be an object'') (as_object v)) (\<lambda>m.
          rbind (dns_server_mode_from_str (string_member m ''dns_mode'' ''server'')) (\<lambda>local_mode.
          rbind (split_setting m) (\<lambda>split.
          Ok (d\<lparr>def_local_mode := local_mode,
                def_local_dns := custom_dns T m,
                def_split_mode :=
                  (if split = SplitManaged \<and> \<not> def_managed_domain_filter d then TunnelAll else split),
                def_custom_domains := parse_domain_rules J (obj_get m ''split_dns_custom_domains''),
                def_block_encrypted_dns :=
                  opt_unwrap_or (def_block_encrypted_dns d)
                    (opt_and_then (obj_get m ''block_encrypted_dns_override'') as_bool),
                def_secure_dns_hosts :=
                  def_secure_dns_hosts d @ parse_dns_hosts J (obj_get m ''block_encrypted_dns_hosts'')\<rparr>)))))"

definition cc_dns_defaults ::
  "json_lib \<Rightarrow> addr_text \<Rightarrow> bool \<Rightarrow> controller_configuration \<Rightarrow> dns_defaults result" where
  "cc_dns_defaults J T controller_service c =
     rbind (domainfilter_section J (cc_raw c)
              (dns_section J T (cc_raw c) (dns_defaults_default\<lparr>def_controller_service := controller_service\<rparr>)))
       (routing_section J T (cc_raw c))"

section \<open>Servers\<close>

definition json_opt_i32 :: "json_lib \<Rightarrow> json option \<Rightarrow> int \<Rightarrow> int" where
  "json_opt_i32 J v d =
     (case v of
        None \<Rightarrow> d
      | Some v \<Rightarrow>
          (case as_i64 v of
             Some n \<Rightarrow> if in_i32 n then n else d
           | None \<Rightarrow>
               (case v of
                  JNumber (NumFloat f) \<Rightarrow> float_as_i32 J f
                | JNumber (NumInt n) \<Rightarrow> max (- (2 ^ 31)) (min (2 ^ 31 - 1) n)
                | JString s \<Rightarrow> opt_unwrap_or d (parse_f64_as_i32 J s)
                | _ \<Rightarrow> d)))"

definition json_opt_string :: "json_lib \<Rightarrow> json option \<Rightarrow> string \<Rightarrow> ustr" where
  "json_opt_string J v d =
     (case v of
        Some (JString s) \<Rightarrow> s
      | Some (JNumber n) \<Rightarrow> number_to_string J n
      | Some (JBool b) \<Rightarrow> ascii_str (if b then ''true'' else ''false'')
      | _ \<Rightarrow> ascii_str d)"

definition json_opt_bool :: "json option \<Rightarrow> bool \<Rightarrow> bool" where
  "json_opt_bool v d =
     (case v of
        Some (JBool b) \<Rightarrow> b
      | Some (JString s) \<Rightarrow>
          if eq_ignore_ascii_case s (ascii_str ''true'') then True
          else if eq_ignore_ascii_case s (ascii_str ''false'') then False
          else d
      | _ \<Rightarrow> d)"

record server_info =
  si_id :: ustr
  si_name :: ustr
  si_name_en :: ustr
  si_server_name :: ustr
  si_server_port :: int
  si_is_auto :: bool
  si_ip :: "ustr option"

definition server_info_parse :: "json_lib \<Rightarrow> json \<Rightarrow> server_info option" where
  "server_info_parse J v =
     opt_and_then (as_object v) (\<lambda>m.
       let sid = json_opt_i32 J (obj_get m ''id'') (-1);
           name = json_opt_string J (obj_get m ''name'') '''';
           server_name = json_opt_string J (obj_get m ''serverName'') ''''
       in
       if sid = -1 \<or> name = [] \<or> server_name = [] then None
       else Some \<lparr>si_id = dec_int sid, si_name = name, si_name_en = json_opt_string J (obj_get m ''name_en'') '''',
                  si_server_name = server_name, si_server_port = json_opt_i32 J (obj_get m ''serverPort'') 8000,
                  si_is_auto = json_opt_bool (obj_get m ''isauto'') False,
                  si_ip = opt_filter (\<lambda>s. s \<noteq> [])
                    (map_option (\<lambda>v. json_opt_string J (Some v) '''') (obj_get m ''ip''))\<rparr>)"

text \<open>The host of an endpoint, in brackets if it is a bare IPv6 address.\<close>

definition endpoint_text :: "ustr \<Rightarrow> ustr \<Rightarrow> ustr" where
  "endpoint_text host port =
     (if 0x3a \<in> set host \<and> \<not> starts_with host [0x5b]
      then [0x5b] @ host @ [0x5d, 0x3a] @ port else host @ [0x3a] @ port)"

definition server_endpoint :: "server_info \<Rightarrow> ustr" where
  "server_endpoint s = endpoint_text (si_server_name s) (dec_int (si_server_port s))"

definition present :: "json \<Rightarrow> string \<Rightarrow> bool" where
  "present raw k = (case json_get raw k of Some v \<Rightarrow> v \<noteq> JNull | None \<Rightarrow> False)"

definition iwan_servers :: "json_lib \<Rightarrow> controller_configuration \<Rightarrow> server_info list result" where
  "iwan_servers J c =
     (if present (cc_raw c) ''serverlist'' \<and> present (cc_raw c) ''sites''
      then Err (Controller ''mixed iWAN and SR config payload is invalid'')
      else case json_get (cc_raw c) ''serverlist'' of
        None \<Rightarrow> Ok []
      | Some v \<Rightarrow>
          rbind
            (case v of
               JArray values \<Rightarrow> Ok values
             | JObject m \<Rightarrow>
                 ok_or (Controller ''serverlist config has no serverlist array'')
                   (opt_and_then (obj_get m ''serverlist'') as_array)
             | _ \<Rightarrow> Err (Controller ''controller serverlist has an unexpected JSON type'')) (\<lambda>values.
          let servers = List.map_filter (server_info_parse J) values in
          if values = [] \<or> servers = [] then Err (Controller ''no valid servers found in configuration'')
          else Ok servers))"

record server_credentials =
  crd_username :: ustr
  crd_password :: ustr

definition credential_list :: "controller_configuration \<Rightarrow> json list option" where
  "credential_list c =
     (case json_get (cc_raw c) ''serverlist'' of
        Some (JArray servers) \<Rightarrow> Some servers
      | Some (JObject m) \<Rightarrow> opt_and_then (obj_get m ''serverlist'') as_array
      | _ \<Rightarrow> None)"

definition credential_entry ::
  "json_lib \<Rightarrow> sec_lib \<Rightarrow> aead_lib \<Rightarrow> ustr \<Rightarrow> ustr \<Rightarrow> json \<Rightarrow> (ustr \<times> server_credentials) result option" where
  "credential_entry J S A ident domain v =
     opt_and_then (as_object v) (\<lambda>m.
       let sid = json_opt_i32 J (obj_get m ''id'') (-1);
           username = json_opt_string J (obj_get m ''userName'') '''';
           encrypted = json_opt_string J (obj_get m ''passWord'') ''''
       in
       if sid = -1 \<or> username = [] \<or> encrypted = [] then None
       else Some (rbind (decrypt_saas_password S A ident domain username encrypted) (\<lambda>password.
                  if password = [] then Err (Crypto ''controller password decryption returned an empty value'')
                  else Ok (dec_int sid, \<lparr>crd_username = username, crd_password = password\<rparr>))))"

text \<open>A \<open>HashMap\<close> collected from pairs: a later pair replaces an earlier one with its key.\<close>

definition cc_server_credentials ::
  "json_lib \<Rightarrow> sec_lib \<Rightarrow> aead_lib \<Rightarrow> controller_configuration \<Rightarrow> (ustr \<times> server_credentials) list result" where
  "cc_server_credentials J S A c =
     (case (cc_app_id c, cc_domain c) of
        (Some ident, Some domain) \<Rightarrow>
          rbind (rmapM (\<lambda>r. r) (List.map_filter (credential_entry J S A ident domain) (opt_unwrap_or [] (credential_list c)))) (\<lambda>pairs.
          Ok (foldl (\<lambda>m (k, v). AList.update k v m) [] pairs))
      | _ \<Rightarrow>
          if (case credential_list c of
                None \<Rightarrow> False
              | Some servers \<Rightarrow>
                  list_ex (\<lambda>v. case as_object v of None \<Rightarrow> False | Some m \<Rightarrow> obj_get m ''passWord'' \<noteq> None) servers)
          then Err (Controller ''controller server credentials have no lookup decryption context'')
          else Ok [])"

section \<open>Segment Routing groups\<close>

record sr_ingress =
  ing_server_name :: ustr
  ing_server_port :: int
  ing_username :: ustr
  ing_password :: ustr
  ing_mtu :: int

record sr_entry =
  ent_id :: int
  ent_name :: ustr
  ent_keepalive :: "bool option"
  ent_encrypt_algo :: ustr
  ent_encrypt_key :: ustr
  ent_status :: ustr
  ent_ip :: ustr
  ent_ingress :: sr_ingress
  ent_links :: "int list"
  ent_local_sr_id :: "u32 option"

record sr_group =
  sg_id :: int
  sg_name :: ustr
  sg_name_en :: ustr
  sg_primary_index :: int
  sg_entries :: "sr_entry list"

definition decrypt_entry :: "sec_lib \<Rightarrow> aead_lib \<Rightarrow> ustr \<Rightarrow> ustr \<Rightarrow> sr_entry \<Rightarrow> sr_entry result" where
  "decrypt_entry S A ident domain e =
     (if ing_password (ent_ingress e) = [] then Ok e
      else
        rbind (decrypt_saas_password S A ident domain (ing_username (ent_ingress e)) (ing_password (ent_ingress e))) (\<lambda>decrypted.
        if decrypted = [] then Err (Crypto ''SR ingress password decryption returned an empty value'')
        else Ok (e\<lparr>ent_ingress := (ent_ingress e)\<lparr>ing_password := decrypted\<rparr>\<rparr>)))"

definition cc_sr_groups ::
  "(json \<Rightarrow> sr_group option) \<Rightarrow> sec_lib \<Rightarrow> aead_lib \<Rightarrow> controller_configuration \<Rightarrow> sr_group list result" where
  "cc_sr_groups sr_group_from_value S A c =
     (case json_get (cc_raw c) ''sites'' of
        None \<Rightarrow> Ok []
      | Some v \<Rightarrow>
          rbind (ok_or (Controller ''sites must be an array'') (as_array v)) (\<lambda>sites.
          rbind (rmapM (\<lambda>site. ok_or (Controller ''invalid SR group: {error}'') (sr_group_from_value site)) sites) (\<lambda>groups.
          case (cc_app_id c, cc_domain c) of
            (Some ident, Some domain) \<Rightarrow>
              rmapM (\<lambda>g. rbind (rmapM (decrypt_entry S A ident domain) (sg_entries g)) (\<lambda>es. Ok (g\<lparr>sg_entries := es\<rparr>))) groups
          | _ \<Rightarrow>
              if list_ex (\<lambda>g. list_ex (\<lambda>e. ing_password (ent_ingress e) \<noteq> []) (sg_entries g)) groups
              then Err (Controller ''SR ingress credentials have no lookup decryption context'')
              else Ok groups)))"

section \<open>The request\<close>

record config_parameters =
  cp_domain :: ustr
  cp_client_type :: ustr
  cp_app_id :: ustr
  cp_access_token :: "ustr option"
  cp_username :: "ustr option"
  cp_device_id :: ustr
  cp_posture_version :: "int option"

definition config_request :: "config_parameters \<Rightarrow> json" where
  "config_request p = JObject
     ([(ascii_str ''domain'', JString (cp_domain p)), (ascii_str ''type'', JString (cp_client_type p)),
       (ascii_str ''oem_name'', JString (ascii_str ''panabit'')), (ascii_str ''app_version'', JString (ascii_str ''2.3.0'')),
       (ascii_str ''device_id'', JString (cp_device_id p))] @
      (case opt_filter (\<lambda>s. s \<noteq> []) (cp_username p) of None \<Rightarrow> [] | Some u \<Rightarrow> [(ascii_str ''userName'', JString u)]) @
      (case cp_posture_version p of None \<Rightarrow> [] | Some v \<Rightarrow> [(ascii_str ''posture_version'', JNumber (NumInt v))]))"

definition exact_https_endpoint :: "sec_lib \<Rightarrow> ustr \<Rightarrow> ustr result" where
  "exact_https_endpoint S endpoint =
     (case url_parse S endpoint of
        None \<Rightarrow> Err (Controller ''invalid {name} URL: {error}'')
      | Some u \<Rightarrow>
          if \<not> https_only u then Err (Controller ''{name} URL must be HTTPS without credentials or a fragment'')
          else Ok endpoint)"

text \<open>The code and the message of a rejection are texts of the answer.\<close>

definition json_or_else :: "json option \<Rightarrow> json option \<Rightarrow> json option" where
  "json_or_else a b = (case a of Some v \<Rightarrow> Some v | None \<Rightarrow> b)"

definition rejection_fields :: "json_lib \<Rightarrow> bytes \<Rightarrow> ustr \<times> ustr" where
  "rejection_fields J content =
     (let v = opt_unwrap_or JNull (json_from_slice J content);
          err = json_get v ''error'';
          code = json_or_else (opt_and_then err (\<lambda>e. json_get e ''code''))
                   (json_or_else (opt_filter (\<lambda>e. case e of JString _ \<Rightarrow> True | JNumber _ \<Rightarrow> True | _ \<Rightarrow> False) err)
                     (json_get v ''code''));
          message = or_else (opt_and_then err (\<lambda>e.
                      opt_and_then (json_or_else (json_get e ''message'') (json_get e ''detail'')) as_str))
                    (or_else (opt_and_then (json_get v ''message'') as_str)
                       (opt_and_then (json_get v ''detail'') as_str))
      in
      (case code of
         Some (JString s) \<Rightarrow> s
       | Some (JNumber n) \<Rightarrow> number_to_string J n
       | _ \<Rightarrow> ascii_str ''unknown'',
       opt_unwrap_or (ascii_str ''controller rejected the request'') message))"

definition fetch_headers :: "(ustr \<times> ustr) list \<Rightarrow> ustr option \<Rightarrow> (ustr \<times> ustr) list" where
  "fetch_headers auth access =
     lookup_headers auth @
     (case access of None \<Rightarrow> [] | Some t \<Rightarrow> [(ascii_str ''Authorization'', ascii_str ''Bearer '' @ t)])"

text \<open>\<open>fetch\<close>, after the requests \<open>log\<close>.\<close>

definition controller_fetch ::
  "json_lib \<Rightarrow> sec_lib \<Rightarrow> stamp \<Rightarrow> transport \<Rightarrow> ustr \<Rightarrow> config_parameters \<Rightarrow> http_request list \<Rightarrow>
     controller_configuration result \<times> http_request list" where
  "controller_fetch J S st T config_url p log =
     (if cp_device_id p = [] then (Err (Managed ''device id must not be empty''), log)
      else case json_to_vec J (config_request p) of
        None \<Rightarrow> (Err (Controller ''serialize config request: {error}''), log)
      | Some content \<Rightarrow>
          if cp_app_id p = [] then (Err (Controller ''config request requires the controller app_id''), log)
          else
            (case rbind (exact_https_endpoint S config_url) (\<lambda>url.
                    rmap (Pair url) (controller_api_headers S st ''POST'' url content (cp_app_id p))) of
               Inl e \<Rightarrow> (Err e, log)
             | Inr (url, auth) \<Rightarrow>
                 let request = \<lparr>req_method = ''POST'', req_url = url, req_headers = fetch_headers auth (cp_access_token p),
                                req_body = content, req_timeout = None\<rparr>
                 in
                 (rbind (T log request) (\<lambda>response.
                    if rsp_status response = 200 then
                      rbind (ok_or (Controller ''invalid config response: {error}'') (json_from_slice J (rsp_body response))) (\<lambda>raw.
                      if as_object raw = None then Err (Controller ''config response must be a JSON object'')
                      else Ok \<lparr>cc_raw = raw, cc_app_id = Some (cp_app_id p), cc_domain = Some (cp_domain p)\<rparr>)
                    else if rsp_status response = 401 then Err ControllerUnauthorized
                    else (let (code, message) = rejection_fields J (rsp_body response) in
                          Err (ControllerRejected (rsp_status response) code message))),
                  log @ [request])))"

section \<open>What the lists contain\<close>

lemma map_filter_mem: "y \<in> set (List.map_filter f xs) \<longleftrightarrow> (\<exists>x \<in> set xs. f x = Some y)"
  by (force simp: List.map_filter_def)

definition rule_ok :: "domain_rule \<Rightarrow> bool" where
  "rule_ok r \<longleftrightarrow> validate_name (rule_domain r) = Ok () \<and> is_lower (rule_domain r)"

lemma rule_option_ok: "rule_option v = Some r \<Longrightarrow> rule_ok r"
  by (auto simp: rule_option_def rule_ok_def split: sum.splits dest: rule_parse_OkD)

lemma parse_domain_rules_ok: "r \<in> set (parse_domain_rules J v) \<Longrightarrow> rule_ok r"
  by (auto simp: parse_domain_rules_def map_filter_mem dest: rule_option_ok)

definition host_ok :: "ustr \<Rightarrow> bool" where
  "host_ok h \<longleftrightarrow> validate_name h = Ok () \<and> normalize_name h = h"

lemma parse_dns_hosts_ok: "h \<in> set (parse_dns_hosts J v) \<Longrightarrow> host_ok h"
proof -
  assume "h \<in> set (parse_dns_hosts J v)"
  then obtain r s where "rule_option s = Some r" "h = rule_domain r"
    by (auto simp: parse_dns_hosts_def map_filter_mem)
  then show ?thesis
    using rule_option_ok [of s r] normalize_prefixed [of h "[]"] by (simp add: host_ok_def rule_ok_def)
qed

lemma custom_dns_length: "length (custom_dns T m) \<le> 2"
  using length_filter_le by (simp add: custom_dns_def List.map_filter_simps split: option.split)

definition defaults_ok :: "dns_defaults \<Rightarrow> bool" where
  "defaults_ok d \<longleftrightarrow>
     list_all rule_ok (def_custom_domains d @ def_managed_inclusive d @ def_managed_exclusive d) \<and>
     list_all host_ok (def_secure_dns_hosts d) \<and> length (def_local_dns d) \<le> 2 \<and>
     (def_split_mode d = SplitManaged \<longrightarrow> def_managed_domain_filter d)"

lemma cc_dns_defaults_ok:
  assumes "cc_dns_defaults J T svc c = Ok d"
  shows "defaults_ok d"
proof -
  let ?d0 = "dns_section J T (cc_raw c) (dns_defaults_default\<lparr>def_controller_service := svc\<rparr>)"
  from assms obtain d1 where 1: "domainfilter_section J (cc_raw c) ?d0 = Ok d1" and 2: "routing_section J T (cc_raw c) d1 = Ok d"
    by (auto simp: cc_dns_defaults_def rbind_eq_Ok)
  have d0: "defaults_ok ?d0 \<and> def_split_mode ?d0 = SplitOff"
    by (simp add: dns_section_def defaults_ok_def dns_defaults_default_def split: option.split)
  then have d1: "defaults_ok d1 \<and> def_split_mode d1 = SplitOff"
    using 1 by (auto simp: domainfilter_section_def defaults_ok_def rbind_eq_Ok list_all_iff
        intro: parse_domain_rules_ok parse_dns_hosts_ok split: option.splits)
  then show ?thesis
    using 2 custom_dns_length by (auto simp: routing_section_def defaults_ok_def rbind_eq_Ok list_all_iff
        intro: parse_domain_rules_ok parse_dns_hosts_ok split: option.splits) (metis split_dns_mode.distinct)
qed

lemma normalize_names_ok:
  assumes "\<forall>v \<in> set vs. validate_name (normalize_name v) = Ok ()"
  shows "is_ok (normalize_names vs)"
proof -
  have "rmapM (\<lambda>v. let n = normalize_name v in rbind (validate_name n) (\<lambda>_. Ok n)) vs = Ok (map normalize_name vs)"
    using assms by (intro rmapM_Ok) (simp add: Let_def)
  then show ?thesis by (simp add: normalize_names_def)
qed

section \<open>Credentials\<close>

lemma map_of_foldl_update:
  "map_of (foldl (\<lambda>m (k, v). AList.update k v m) m pairs) = map_of m ++ map_of (rev pairs)"
  by (induction pairs arbitrary: m) (auto simp: update_conv' fun_eq_iff map_add_def split: option.splits)

lemma foldl_update_mem:
  assumes "map_of (foldl (\<lambda>m (k, v). AList.update k v m) [] pairs) k = Some v"
  shows "(k, v) \<in> set pairs"
  using map_of_SomeD [of "rev pairs" k v] assms by (simp add: map_of_foldl_update)

lemma decrypt_saas_password_OkD:
  assumes "decrypt_saas_password S A ident domain username encoded = Ok password"
  shows "\<exists>payload secret. base64_decode A encoded = Some payload \<and> 29 \<le> length payload \<and> controller_secret S ident = Ok secret \<and>
    aes256_gcm_open A (sha256 S (utf8_bytes (secret @ ascii_str ''|'' @ domain @ ascii_str ''|'' @ username)))
      (take 12 payload) (utf8_bytes (domain @ ascii_str ''|'' @ username)) (drop 12 payload) = Some (utf8_bytes password)"
  using assms by (auto simp: decrypt_saas_password_def rbind_eq_Ok Let_def not_less split: if_splits dest!: utf8_from_utf8)

section \<open>Properties\<close>

text \<open>(malformed list entries never fail the DNS policy). However malformed the lists in the controller's answer are, once
  its DNS settings are read the policy resolves, unless the controller asks for custom servers
  and gives none or an unusable one. Managed split DNS is only in force with a managed domain filter.\<close>

theorem controller_policy_resolves:
  assumes "cc_dns_defaults J T svc c = Ok d"
  shows "(is_ok (resolve_policy d dns_overrides_default acks) \<longleftrightarrow>
      (def_local_mode d = DnsCustom \<longrightarrow> def_local_dns d \<noteq> [] \<and> list_all is_usable_server (def_local_dns d))) \<and>
    (def_split_mode d = SplitManaged \<longrightarrow> def_managed_domain_filter d) \<and>
    (\<forall>r \<in> set (def_custom_domains d @ def_managed_inclusive d @ def_managed_exclusive d). validate_name (rule_domain r) = Ok ())"
proof -
  note ok = cc_dns_defaults_ok [OF assms]
  have v: "overrides_validate dns_overrides_default = Ok ()"
    by (simp add: overrides_validate_def dns_overrides_default_def)
  have o: "ov_server_mode dns_overrides_default = None" "ov_servers dns_overrides_default = None"
    "ov_split_mode dns_overrides_default = None" "ov_split_domains dns_overrides_default = None"
    "ov_encrypted_dns dns_overrides_default = None" "ov_doh_hosts dns_overrides_default = None"
    by (simp_all add: dns_overrides_default_def)
  have "is_ok (normalize_names (def_secure_dns_hosts d @ [DEFAULT_DOH_CANARY]))"
    using ok canary_valid by (intro normalize_names_ok) (auto simp: defaults_ok_def list_all_iff host_ok_def)
  then obtain hosts where h: "normalize_names (def_secure_dns_hosts d @ [DEFAULT_DOH_CANARY]) = Ok hosts"
    by (auto simp: is_ok_def split: sum.splits)
  have "is_ok (resolve_policy d dns_overrides_default acks) \<longleftrightarrow>
      (def_local_mode d = DnsCustom \<longrightarrow> validate_custom_servers (def_local_dns d) = Ok ())"
    using h by (cases "def_local_mode d"; cases "validate_custom_servers (def_local_dns d)")
      (auto simp: resolve_policy_def v o unwrap_or_def Let_def split: prod.split)
  moreover have "validate_custom_servers (def_local_dns d) = Ok () \<longleftrightarrow>
      def_local_dns d \<noteq> [] \<and> list_all is_usable_server (def_local_dns d)"
    using ok by (auto simp: validate_custom_servers_def defaults_ok_def list_all_iff list_ex_iff)
  ultimately show ?thesis using ok by (auto simp: defaults_ok_def list_all_iff rule_ok_def)
qed

theorem controller_policy_resolves_witness:
  "\<exists>d p. cc_dns_defaults demo_json_lib demo_text True (config_from_raw (JObject [])) = Ok d \<and>
     resolve_policy d dns_overrides_default [] = Ok p"
proof -
  obtain d where d: "cc_dns_defaults demo_json_lib demo_text True (config_from_raw (JObject [])) = Ok d" "def_local_mode d = DnsServer"
    by (simp add: cc_dns_defaults_def domainfilter_section_def dns_section_def routing_section_def config_from_raw_def
        json_get_def obj_get_def dns_defaults_default_def)
  then have "is_ok (resolve_policy d dns_overrides_default [])"
    using controller_policy_resolves [OF d(1), of "[]"] by simp
  with d(1) show ?thesis by (auto simp: is_ok_def split: sum.splits)
qed

text \<open>(server passwords are authentic). Every credential read from the controller's server list belongs to an entry of that
  list with its identifier and user name, and its password is the non-empty plaintext that AES-GCM
  authenticated under the key of the controller secret, the domain and that user name.\<close>

theorem server_credentials_authentic:
  assumes "cc_server_credentials J S A c = Ok creds" "map_of creds k = Some cr"
  shows "\<exists>ident domain m secret payload. cc_app_id c = Some ident \<and> cc_domain c = Some domain \<and>
    JObject m \<in> set (opt_unwrap_or [] (credential_list c)) \<and>
    k = dec_int (json_opt_i32 J (obj_get m ''id'') (-1)) \<and> json_opt_i32 J (obj_get m ''id'') (-1) \<noteq> -1 \<and>
    crd_username cr = json_opt_string J (obj_get m ''userName'') '''' \<and> crd_username cr \<noteq> [] \<and> crd_password cr \<noteq> [] \<and>
    base64_decode A (json_opt_string J (obj_get m ''passWord'') '''') = Some payload \<and>
    controller_secret S ident = Ok secret \<and>
    aes256_gcm_open A (sha256 S (utf8_bytes (secret @ ascii_str ''|'' @ domain @ ascii_str ''|'' @ crd_username cr)))
      (take 12 payload) (utf8_bytes (domain @ ascii_str ''|'' @ crd_username cr)) (drop 12 payload) = Some (utf8_bytes (crd_password cr))"
proof -
  from assms obtain ident domain pairs where ctx: "cc_app_id c = Some ident" "cc_domain c = Some domain"
    and pairs: "rmapM (\<lambda>r. r) (List.map_filter (credential_entry J S A ident domain) (opt_unwrap_or [] (credential_list c))) = Ok pairs"
    and creds: "creds = foldl (\<lambda>m (k, v). AList.update k v m) [] pairs"
    by (auto simp: cc_server_credentials_def rbind_eq_Ok split: option.splits if_splits)
  have "(k, cr) \<in> set pairs" using foldl_update_mem assms(2) by (simp add: creds)
  then obtain v where v: "v \<in> set (opt_unwrap_or [] (credential_list c))" "credential_entry J S A ident domain v = Some (Ok (k, cr))"
    using rmapM_eq_Ok_mem [OF pairs] by (auto simp: map_filter_mem)
  then obtain m where m: "v = JObject m" by (auto simp: credential_entry_def opt_and_then_eq_Some)
  from v(2) have e: "json_opt_i32 J (obj_get m ''id'') (-1) \<noteq> -1" "k = dec_int (json_opt_i32 J (obj_get m ''id'') (-1))"
    "crd_username cr = json_opt_string J (obj_get m ''userName'') ''''" "crd_username cr \<noteq> []" "crd_password cr \<noteq> []"
    and p: "decrypt_saas_password S A ident domain (crd_username cr) (json_opt_string J (obj_get m ''passWord'') '''') = Ok (crd_password cr)"
    by (auto simp: credential_entry_def m Let_def rbind_eq_Ok split: if_splits)
  from decrypt_saas_password_OkD [OF p] e ctx v(1) m show ?thesis by blast
qed

definition demo_server :: json where
  "demo_server = JObject [(ascii_str ''id'', JNumber (NumInt 7)), (ascii_str ''userName'', JString [0x75]),
     (ascii_str ''passWord'', JString [0x70])]"

definition demo_aead :: aead_lib where
  "demo_aead = \<lparr>base64_decode = (\<lambda>_. Some (replicate 29 0)), aes256_gcm_open = (\<lambda>_ _ _ _. Some [0x73])\<rparr>"

definition demo_sec_32 :: sec_lib where
  "demo_sec_32 = demo_sec_lib\<lparr>sha256 := (\<lambda>_. replicate 32 0)\<rparr>"

theorem server_credentials_authentic_witness:
  "\<exists>creds cr. cc_server_credentials demo_json_lib demo_sec_32 demo_aead
        \<lparr>cc_raw = JObject [(ascii_str ''serverlist'', JArray [demo_server])], cc_app_id = Some [0x61], cc_domain = Some [0x64]\<rparr> = Ok creds \<and>
     map_of creds (dec_int 7) = Some cr \<and> crd_password cr \<noteq> []"
proof -
  let ?c = "\<lparr>cc_raw = JObject [(ascii_str ''serverlist'', JArray [demo_server])], cc_app_id = Some [0x61], cc_domain = Some [0x64]\<rparr>"
  have u: "from_utf8 [0x73 :: u8] = Some [0x73]"
    using from_utf8_bytes [of "[0x73]"] by (simp add: is_scalar_def utf8_char_def)
  have g: "obj_get [(ascii_str ''id'', JNumber (NumInt 7)), (ascii_str ''userName'', JString [0x75]), (ascii_str ''passWord'', JString [0x70])] ''id'' = Some (JNumber (NumInt 7))"
    "obj_get [(ascii_str ''id'', JNumber (NumInt 7)), (ascii_str ''userName'', JString [0x75]), (ascii_str ''passWord'', JString [0x70])] ''userName'' = Some (JString [0x75])"
    "obj_get [(ascii_str ''id'', JNumber (NumInt 7)), (ascii_str ''userName'', JString [0x75]), (ascii_str ''passWord'', JString [0x70])] ''passWord'' = Some (JString [0x70])"
    by code_simp+
  have s: "\<exists>secret. controller_secret demo_sec_32 [0x61] = Ok secret"
    by (simp add: controller_secret_def demo_sec_32_def demo_sec_lib_def ascii_str_def)
  then have d: "decrypt_saas_password demo_sec_32 demo_aead [0x61] [0x64] [0x75] [0x70] = Ok [0x73]"
    using u by (auto simp: decrypt_saas_password_def demo_aead_def demo_sec_32_def Let_def)
  have e: "credential_entry demo_json_lib demo_sec_32 demo_aead [0x61] [0x64] demo_server =
      Some (Ok (dec_int 7, \<lparr>crd_username = [0x75], crd_password = [0x73]\<rparr>))"
    by (simp add: credential_entry_def demo_server_def g json_opt_i32_def json_opt_string_def in_i64_def in_i32_def Let_def d)
  have l: "credential_list ?c = Some [demo_server]"
    by (simp add: credential_list_def json_get_def obj_get_def)
  have c: "cc_server_credentials demo_json_lib demo_sec_32 demo_aead ?c = Ok [(dec_int 7, \<lparr>crd_username = [0x75], crd_password = [0x73]\<rparr>)]"
    by (simp add: cc_server_credentials_def l e List.map_filter_simps)
  have k: "map_of [(dec_int 7, \<lparr>crd_username = [0x75], crd_password = [0x73]\<rparr>)] (dec_int 7) = Some \<lparr>crd_username = [0x75], crd_password = [0x73]\<rparr>"
    by simp
  from server_credentials_authentic [OF c k] c k show ?thesis by blast
qed

end
