(* ===== verification/Managed_Posture.thy ===== *)
theory Managed_Posture
  imports Managed_Controller
begin

text \<open>
  Posture evaluation and keepalives (\<open>src/managed/posture.rs\<close>, \<open>src/managed/keepalive.rs\<close>): the
  version that decides whether a posture check is due, the request and the reading of its answer,
  and the keepalive exchange with its second attempt. The derived serializers of the keepalive
  messages and the setters of the crate \<open>url\<close> are parameters.
\<close>

section \<open>Posture\<close>

datatype posture_decision = Allow | Deny

record posture_evaluation =
  pe_local_allowed :: bool
  pe_decision :: posture_decision
  pe_failed_checks :: "json list"
  pe_user_notice :: "json option"
  pe_raw :: json

definition posture_allowed :: "posture_evaluation \<Rightarrow> bool" where
  "posture_allowed e \<longleftrightarrow> pe_local_allowed e \<and> pe_decision e = Allow"

definition posture_version :: "json \<Rightarrow> int result" where
  "posture_version configuration =
     rbind
       (case json_get configuration ''version'' of
          None \<Rightarrow> Ok 0
        | Some JNull \<Rightarrow> Ok 0
        | Some (JNumber n) \<Rightarrow> ok_or (Controller ''posture version is outside i64 range'') (as_i64 (JNumber n))
        | Some (JString s) \<Rightarrow> ok_or (Controller ''posture version is not a decimal integer'') (parse_i64 s)
        | Some _ \<Rightarrow> Err (Controller ''posture version must be an integer or decimal string'')) (\<lambda>version.
     if version < 0 then Err (Controller ''posture version must not be negative'') else Ok version)"

definition posture_gate_version :: "json \<Rightarrow> int option result" where
  "posture_gate_version configuration =
     rbind (posture_version configuration) (\<lambda>version. Ok (if version \<noteq> 0 then Some version else None))"

definition to_ascii_uppercase :: "ustr \<Rightarrow> ustr" where
  "to_ascii_uppercase s = map (\<lambda>c. if 0x61 \<le> c \<and> c \<le> 0x7a then c - 0x20 else c) s"

definition decision_text :: "json \<Rightarrow> ustr option" where
  "decision_text v =
     or_else (as_str v)
       (opt_and_then (as_object v) (\<lambda>m.
          opt_and_then (json_or_else (obj_get m ''decision'') (obj_get m ''status'')) as_str))"

definition ack_decision :: "json \<Rightarrow> posture_decision result" where
  "ack_decision v =
     (case map_option to_ascii_uppercase (decision_text v) of
        None \<Rightarrow> Err (Controller ''invalid posture_ack decision'')
      | Some s \<Rightarrow> if s = ascii_str ''DENY'' then Ok Deny else Ok Allow)"

definition parse_posture :: "json \<Rightarrow> posture_evaluation result" where
  "parse_posture v =
     rbind (ok_or (Controller ''posture response must be an object'') (as_object v)) (\<lambda>root.
     let raw = opt_unwrap_or v (obj_get root ''data'') in
     rbind (ok_or (Controller ''posture response data must be an object'') (as_object raw)) (\<lambda>m.
     rbind (ok_or (Controller ''posture response has no posture_ack'') (obj_get m ''posture_ack'')) (\<lambda>ack.
     rbind (ack_decision ack) (\<lambda>decision.
     Ok \<lparr>pe_local_allowed = (opt_and_then (obj_get m ''local_gate'') as_bool = Some True),
         pe_decision = decision,
         pe_failed_checks =
           (case opt_and_then (as_object ack) (\<lambda>a. obj_get a ''failed_checks'') of
              None \<Rightarrow> []
            | Some (JArray checks) \<Rightarrow> checks
            | Some other \<Rightarrow> [other]),
         pe_user_notice = opt_filter (\<lambda>n. as_object n \<noteq> None) (obj_get m ''user_notice''),
         pe_raw = raw\<rparr>))))"

text \<open>\<open>set_endpoint\<close> gives the text of a URL whose path is replaced and whose query and fragment are
  removed.\<close>

definition posture_endpoint :: "sec_lib \<Rightarrow> (url \<Rightarrow> ustr \<Rightarrow> ustr) \<Rightarrow> ustr \<Rightarrow> ustr result" where
  "posture_endpoint S set_endpoint config_url =
     (case url_parse S config_url of
        None \<Rightarrow> Err (Controller ''invalid config URL: {error}'')
      | Some u \<Rightarrow>
          if \<not> https_only u then Err (Controller ''config URL must be HTTPS without credentials or a fragment'')
          else
            (let path = rev (dropWhile (\<lambda>c. c = SLASH) (rev (url_path u)));
                 base = opt_unwrap_or path (strip_suffix path (ascii_str ''/config''))
             in Ok (set_endpoint u (base @ ascii_str ''/posture/evaluate''))))"

definition posture_request :: "ustr \<Rightarrow> int \<Rightarrow> json list \<Rightarrow> json" where
  "posture_request user_id version check_results =
     JObject [(ascii_str ''user_id'', JString user_id), (ascii_str ''version'', JNumber (NumInt version)),
       (ascii_str ''check_results'', JArray check_results)]"

definition posture_answer :: "json_lib \<Rightarrow> http_response \<Rightarrow> posture_evaluation result" where
  "posture_answer J response =
     (if rsp_status response = 200 then
        rbind (ok_or (Controller ''invalid posture response: {error}'') (json_from_slice J (rsp_body response))) parse_posture
      else if rsp_status response = 401 then Err ControllerUnauthorized
      else if rsp_status response = 409 then Err PostureVersionMismatch
      else if rsp_status response = 503 then Err PostureConfigUnavailable
      else Err (Controller ''posture evaluate returned HTTP {status}''))"

definition posture_evaluate ::
  "json_lib \<Rightarrow> sec_lib \<Rightarrow> (url \<Rightarrow> ustr \<Rightarrow> ustr) \<Rightarrow> transport \<Rightarrow> ustr \<Rightarrow> ustr option \<Rightarrow> ustr \<Rightarrow> int \<Rightarrow> json list \<Rightarrow>
     http_request list \<Rightarrow> posture_evaluation result \<times> http_request list" where
  "posture_evaluate J S set_endpoint T config_url access user_id version check_results log =
     (if user_id = [] then (Err (Controller ''posture user_id must not be empty''), log)
      else case json_to_vec J (posture_request user_id version check_results) of
        None \<Rightarrow> (Err (Controller ''serialize posture request: {error}''), log)
      | Some content \<Rightarrow>
          (case posture_endpoint S set_endpoint config_url of
             Inl e \<Rightarrow> (Err e, log)
           | Inr url \<Rightarrow>
               let request = \<lparr>req_method = ''POST'', req_url = url,
                              req_headers = fetch_headers [] (opt_filter (\<lambda>t. t \<noteq> []) access),
                              req_body = content, req_timeout = Some 40000000\<rparr>
               in (rbind (T log request) (posture_answer J), log @ [request])))"

section \<open>Keepalives\<close>

record keepalive_credentials =
  kc_access_token :: ustr
  kc_refresh_token :: ustr
  kc_app_id :: ustr
  kc_app_secret :: ustr
  kc_device_id :: ustr

definition keepalive_headers :: "ustr \<Rightarrow> (ustr \<times> ustr) list \<Rightarrow> (ustr \<times> ustr) list" where
  "keepalive_headers access auth =
     [(ascii_str ''Content-Type'', ascii_str ''application/json''), (ascii_str ''X-Mobile-Api-Version'', ascii_str ''3''),
      (ascii_str ''Authorization'', ascii_str ''Bearer '' @ access)] @ auth"

definition execute_once ::
  "sec_lib \<Rightarrow> stamp \<Rightarrow> transport \<Rightarrow> ustr \<Rightarrow> keepalive_credentials \<Rightarrow> bytes \<Rightarrow> http_request list \<Rightarrow>
     http_response result \<times> http_request list" where
  "execute_once S st T endpoint credentials content log =
     (case mobile_api_headers_with_credentials S st ''POST'' endpoint content (kc_app_id credentials) (kc_app_secret credentials) of
        Inl e \<Rightarrow> (Err e, log)
      | Inr auth \<Rightarrow>
          let request = \<lparr>req_method = ''POST'', req_url = endpoint,
                         req_headers = keepalive_headers (kc_access_token credentials) auth,
                         req_body = content, req_timeout = Some 5000000\<rparr>
          in (T log request, log @ [request]))"

text \<open>The answer to one attempt: to be returned, or the error to remember.\<close>

definition keepalive_answer :: "(bytes \<Rightarrow> 'r option) \<Rightarrow> http_response result \<Rightarrow> 'r result + error" where
  "keepalive_answer parse answer =
     (case answer of
        Inl e \<Rightarrow> Inr e
      | Inr response \<Rightarrow>
          if rsp_status response = 200 then
            (case parse (rsp_body response) of
               Some r \<Rightarrow> Inl (Ok r)
             | None \<Rightarrow> Inr (Controller ''invalid keepalive response: {error}''))
          else if rsp_status response = 401 then Inl (Err ControllerUnauthorized)
          else Inr (Controller ''keepalive returned HTTP {status}''))"

fun keepalive_attempts ::
  "sec_lib \<Rightarrow> (nat \<Rightarrow> stamp) \<Rightarrow> transport \<Rightarrow> (bytes \<Rightarrow> 'r option) \<Rightarrow> ustr \<Rightarrow> keepalive_credentials \<Rightarrow> bytes \<Rightarrow> nat \<Rightarrow>
     error \<Rightarrow> http_request list \<Rightarrow> 'r result \<times> http_request list" where
  "keepalive_attempts S stamps T parse endpoint credentials content 0 last_error log = (Err last_error, log)"
| "keepalive_attempts S stamps T parse endpoint credentials content (Suc n) last_error log =
     (case execute_once S (stamps n) T endpoint credentials content log of
        (answer, log) \<Rightarrow>
          (case keepalive_answer parse answer of
             Inl r \<Rightarrow> (r, log)
           | Inr e \<Rightarrow> keepalive_attempts S stamps T parse endpoint credentials content n e log))"

text \<open>The initial error stands for the \<open>expect\<close> that is never reached, since two attempts are made.\<close>

definition keepalive_send ::
  "sec_lib \<Rightarrow> (nat \<Rightarrow> stamp) \<Rightarrow> transport \<Rightarrow> (bytes \<Rightarrow> 'r option) \<Rightarrow> ustr \<Rightarrow> keepalive_credentials \<Rightarrow> bytes option \<Rightarrow>
     http_request list \<Rightarrow> 'r result \<times> http_request list" where
  "keepalive_send S stamps T parse endpoint credentials serialized log =
     (case serialized of
        None \<Rightarrow> (Err (Controller ''serialize keepalive request: {error}''), log)
      | Some content \<Rightarrow>
          keepalive_attempts S stamps T parse endpoint credentials content 2
            (Controller ''two keepalive attempts always produce an error'') log)"

section \<open>Properties\<close>

lemma parse_posture_allowed:
  assumes "parse_posture v = Ok e"
  shows "posture_allowed e \<longleftrightarrow>
    (\<exists>m ack s. as_object (pe_raw e) = Some m \<and> obj_get m ''local_gate'' = Some (JBool True) \<and>
       obj_get m ''posture_ack'' = Some ack \<and> decision_text ack = Some s \<and> to_ascii_uppercase s \<noteq> ascii_str ''DENY'')"
proof -
  from assms obtain m ack decision where e: "as_object (pe_raw e) = Some m" "obj_get m ''posture_ack'' = Some ack"
    "ack_decision ack = Ok decision" "pe_decision e = decision"
    "pe_local_allowed e \<longleftrightarrow> opt_and_then (obj_get m ''local_gate'') as_bool = Some True"
    by (auto simp: parse_posture_def rbind_eq_Ok Let_def)
  then show ?thesis
    by (auto simp: posture_allowed_def ack_decision_def opt_and_then_eq_Some split: option.splits if_splits)
qed

text \<open>(the posture gate). An evaluation lets the client pass only if the server answered 200 with an object that says
  \<open>local_gate\<close> true and whose acknowledgement carries a decision other than \<open>DENY\<close>, in any case of letters;
  one request is made, to the posture path of an HTTPS configuration URL.\<close>

theorem posture_gate_sound:
  assumes "posture_evaluate J S set_endpoint T config_url access user version checks log = (Ok e, log')" "posture_allowed e"
  shows "\<exists>q u base rsp v m ack s. log' = log @ [q] \<and> req_method q = ''POST'' \<and>
    url_parse S config_url = Some u \<and> https_only u \<and> req_url q = set_endpoint u (base @ ascii_str ''/posture/evaluate'') \<and>
    T log q = Ok rsp \<and> rsp_status rsp = 200 \<and> json_from_slice J (rsp_body rsp) = Some v \<and> parse_posture v = Ok e \<and>
    as_object (pe_raw e) = Some m \<and> obj_get m ''local_gate'' = Some (JBool True) \<and>
    obj_get m ''posture_ack'' = Some ack \<and> decision_text ack = Some s \<and> to_ascii_uppercase s \<noteq> ascii_str ''DENY''"
proof -
  from assms(1) obtain url q where q: "posture_endpoint S set_endpoint config_url = Ok url" "req_method q = ''POST''" "req_url q = url"
    "log' = log @ [q]" and r: "rbind (T log q) (posture_answer J) = Ok e"
    by (fastforce simp: posture_evaluate_def Let_def split: if_splits option.splits sum.splits)
  from q(1) obtain u base where u: "url_parse S config_url = Some u" "https_only u" "url = set_endpoint u (base @ ascii_str ''/posture/evaluate'')"
    by (auto simp: posture_endpoint_def Let_def split: option.splits if_splits)
  from r obtain rsp v where rsp: "T log q = Ok rsp" "rsp_status rsp = 200" "json_from_slice J (rsp_body rsp) = Some v" "parse_posture v = Ok e"
    by (auto simp: rbind_eq_Ok posture_answer_def split: if_splits)
  from parse_posture_allowed [OF rsp(4)] assms(2) obtain m ack s where "as_object (pe_raw e) = Some m"
    "obj_get m ''local_gate'' = Some (JBool True)" "obj_get m ''posture_ack'' = Some ack" "decision_text ack = Some s"
    "to_ascii_uppercase s \<noteq> ascii_str ''DENY''" by blast
  with q(2,3,4) u rsp show ?thesis by blast
qed

definition demo_posture_json :: json where
  "demo_posture_json = JObject [(ascii_str ''local_gate'', JBool True), (ascii_str ''posture_ack'', JString (ascii_str ''allow''))]"

definition demo_posture_lib :: json_lib where
  "demo_posture_lib = demo_json_lib\<lparr>json_from_slice := (\<lambda>_. Some demo_posture_json)\<rparr>"

lemma demo_posture:
  "\<exists>e log. posture_evaluate demo_posture_lib demo_sec_lib (\<lambda>_ p. p) (\<lambda>_ _. Ok \<lparr>rsp_status = 200, rsp_body = []\<rparr>) [0x71] None [0x75] 1 [] [] = (Ok e, log) \<and>
     posture_allowed e"
proof -
  have "case parse_posture demo_posture_json of Inl _ \<Rightarrow> False | Inr e \<Rightarrow> posture_allowed e" by code_simp
  then obtain e where "parse_posture demo_posture_json = Ok e" "posture_allowed e" by (auto split: sum.splits)
  then show ?thesis
    by (auto simp: posture_evaluate_def demo_posture_lib_def demo_json_lib_def posture_endpoint_def demo_sec_lib_def demo_url_def
        https_only_def posture_answer_def Let_def)
qed

theorem posture_gate_sound_witness:
  "\<exists>e q. posture_evaluate demo_posture_lib demo_sec_lib (\<lambda>_ p. p) (\<lambda>_ _. Ok \<lparr>rsp_status = 200, rsp_body = []\<rparr>) [0x71] None [0x75] 1 [] [] = (Ok e, [q]) \<and>
     posture_allowed e \<and> req_method q = ''POST''"
proof -
  obtain e log where e: "posture_evaluate demo_posture_lib demo_sec_lib (\<lambda>_ p. p) (\<lambda>_ _. Ok \<lparr>rsp_status = 200, rsp_body = []\<rparr>) [0x71] None [0x75] 1 [] [] = (Ok e, log)"
    "posture_allowed e" using demo_posture by blast
  from posture_gate_sound [OF this] obtain q where "log = [q]" "req_method q = ''POST''" by auto
  with e show ?thesis by blast
qed

definition keepalive_ok ::
  "transport \<Rightarrow> (bytes \<Rightarrow> 'r option) \<Rightarrow> ustr \<Rightarrow> nat \<Rightarrow> http_request list \<Rightarrow> http_request list \<Rightarrow> 'r result \<Rightarrow> bool" where
  "keepalive_ok T parse endpoint n log log' r \<longleftrightarrow>
     (\<exists>new. log' = log @ new \<and> length new \<le> n \<and> (\<forall>q \<in> set new. req_url q = endpoint \<and> req_method q = ''POST'') \<and>
       (\<forall>i. length log \<le> i \<and> i + 1 < length log' \<longrightarrow> \<not> isl (keepalive_answer parse (T (take i log') (log' ! i)))) \<and>
       (\<forall>x. r = Ok x \<longrightarrow> new \<noteq> [] \<and> keepalive_answer parse (T (butlast log') (last log')) = Inl (Ok x)))"

lemma keepalive_attempts_ok:
  assumes "keepalive_attempts S stamps T parse endpoint credentials content n err log = (r, log')" "\<not> is_ok r \<or> n \<noteq> 0"
  shows "keepalive_ok T parse endpoint n log log' r"
  using assms
proof (induction n arbitrary: err log)
  case 0
  then show ?case by (auto simp: keepalive_ok_def)
next
  case (Suc n)
  obtain a log1 where x: "execute_once S (stamps n) T endpoint credentials content log = (a, log1)" by fastforce
  then consider e where "a = Err e" "log1 = log"
    | q where "log1 = log @ [q]" "req_url q = endpoint" "req_method q = ''POST''" "a = T log q"
    by (fastforce simp: execute_once_def Let_def split: sum.splits)
  then show ?case
  proof cases
    case 1
    with Suc.prems x have k: "keepalive_attempts S stamps T parse endpoint credentials content n e log = (r, log')"
      by (simp add: keepalive_answer_def)
    then have "\<not> is_ok r \<or> n \<noteq> 0" by (cases n) auto
    from Suc.IH [OF k this] show ?thesis by (fastforce simp: keepalive_ok_def)
  next
    case (2 q)
    show ?thesis
    proof (cases "keepalive_answer parse a")
      case (Inl r')
      then have "r = r'" "log' = log @ [q]" using Suc.prems x 2 by simp_all
      then show ?thesis using 2 Inl by (auto simp: keepalive_ok_def)
    next
      case (Inr e)
      with Suc.prems x 2(1) have k: "keepalive_attempts S stamps T parse endpoint credentials content n e (log @ [q]) = (r, log')" by simp
      then have "\<not> is_ok r \<or> n \<noteq> 0" by (cases n) auto
      from Suc.IH [OF k this] obtain new where new: "log' = (log @ [q]) @ new" "length new \<le> n"
        "\<forall>q \<in> set new. req_url q = endpoint \<and> req_method q = ''POST''"
        and mid: "\<forall>i. length (log @ [q]) \<le> i \<and> i + 1 < length log' \<longrightarrow> \<not> isl (keepalive_answer parse (T (take i log') (log' ! i)))"
        and fin: "\<forall>x. r = Ok x \<longrightarrow> new \<noteq> [] \<and> keepalive_answer parse (T (butlast log') (last log')) = Inl (Ok x)"
        unfolding keepalive_ok_def by blast
      have "\<not> isl (keepalive_answer parse (T (take i log') (log' ! i)))" if "length log \<le> i" "i + 1 < length log'" for i
        using mid that Inr 2(4) by (cases "i = length log") (auto simp: new(1) nth_append)
      then show ?thesis unfolding keepalive_ok_def
        using new fin 2 by (intro exI [of _ "q # new"]) auto
    qed
  qed
qed

text \<open>(keepalive attempts). A keepalive makes at most two requests, all to its endpoint. A response is what the last
  request was answered with; an answer that is final, a readable 200 or a 401, is never followed by
  another request.\<close>

theorem keepalive_send_sound:
  assumes "keepalive_send S stamps T parse endpoint credentials serialized log = (res, log')"
  shows "\<exists>new. log' = log @ new \<and> length new \<le> 2 \<and> (\<forall>q \<in> set new. req_url q = endpoint \<and> req_method q = ''POST'') \<and>
    (\<forall>i. length log \<le> i \<and> i + 1 < length log' \<longrightarrow> \<not> isl (keepalive_answer parse (T (take i log') (log' ! i)))) \<and>
    (\<forall>x. res = Ok x \<longrightarrow> new \<noteq> [] \<and> keepalive_answer parse (T (butlast log') (last log')) = Inl (Ok x))"
proof (cases serialized)
  case None
  with assms show ?thesis by (auto simp: keepalive_send_def)
next
  case (Some content)
  with assms have "keepalive_attempts S stamps T parse endpoint credentials content 2
      (Controller ''two keepalive attempts always produce an error'') log = (res, log')" by (simp add: keepalive_send_def)
  from keepalive_attempts_ok [OF this] show ?thesis by (simp add: keepalive_ok_def)
qed

definition demo_keepalive_credentials :: keepalive_credentials where
  "demo_keepalive_credentials = \<lparr>kc_access_token = [1], kc_refresh_token = [2], kc_app_id = [3], kc_app_secret = [4], kc_device_id = [5]\<rparr>"

definition second_time :: transport where
  "second_time = (\<lambda>log _. if log = [] then Err (Http ''request failed: {error}'') else Ok \<lparr>rsp_status = 200, rsp_body = [7]\<rparr>)"

theorem keepalive_send_sound_witness:
  "\<exists>q q'. keepalive_send demo_sec_lib (\<lambda>_. \<lparr>stamp_secs = Some 0, stamp_random = []\<rparr>) second_time Some [0x65]
       demo_keepalive_credentials (Some []) [] = (Ok [7], [q, q']) \<and> req_url q = [0x65]"
proof -
  have "list_all (\<lambda>c. 0x41 \<le> c \<and> c \<le> 0x5a) (ascii_str ''POST'')" by code_simp
  then obtain hs where "mobile_api_headers_with_credentials demo_sec_lib \<lparr>stamp_secs = Some 0, stamp_random = []\<rparr> ''POST'' [0x65] []
      (kc_app_id demo_keepalive_credentials) (kc_app_secret demo_keepalive_credentials) = Ok hs"
    by (simp add: mobile_api_headers_with_credentials_def timestamp_now_def sign_http_request_def
        canonical_http_request_def demo_sec_lib_def demo_url_def https_only_def Let_def)
  then obtain q q' where r: "keepalive_send demo_sec_lib (\<lambda>_. \<lparr>stamp_secs = Some 0, stamp_random = []\<rparr>) second_time Some [0x65]
      demo_keepalive_credentials (Some []) [] = (Ok [7], [q, q'])"
    by (simp add: keepalive_send_def numeral_2_eq_2 execute_once_def keepalive_answer_def second_time_def Let_def)
  from keepalive_send_sound [OF r] have "req_url q = [0x65]" by auto
  with r show ?thesis by blast
qed

end
