(* ===== verification/Managed_Lines.thy ===== *)
theory Managed_Lines
  imports Managed_Posture
begin

text \<open>
  Lines of a managed domain (\<open>src/managed/workflow.rs\<close>, the part after the login flows): line
  preferences, the sanitizing of Segment Routing groups, the choice of an ingress by its latency,
  probing, and the client configuration of the chosen ingress.

  A ping asks the network, so its answers are a parameter: a function of the endpoints pinged
  before and the endpoint. The process-wide counter for local identifiers is passed along.
\<close>

section \<open>Line preferences\<close>

datatype line_preference = LineAuto | LineIwan ustr | LineSr int

definition line_to_string :: "line_preference \<Rightarrow> ustr" where
  "line_to_string p =
     (case p of
        LineAuto \<Rightarrow> ascii_str ''auto''
      | LineIwan server_id \<Rightarrow> ascii_str ''iwan:'' @ server_id
      | LineSr group_id \<Rightarrow> ascii_str ''sr:'' @ dec_int group_id)"

definition line_from_str :: "ustr \<Rightarrow> string + line_preference" where
  "line_from_str v0 =
     (let v = str_trim v0 in
      if eq_ignore_ascii_case v (ascii_str ''auto'') then Inr LineAuto
      else case split_once 0x3a v of
        None \<Rightarrow> Inl ''line must be auto, iwan:<server-id>, or sr:<group-id>''
      | Some (k0, n) \<Rightarrow>
          (let k = to_ascii_lowercase k0 in
           if k = ascii_str ''iwan'' then
             (case opt_filter (\<lambda>n. n \<noteq> -1) (parse_i32 n) of
                None \<Rightarrow> Inl ''iWAN server ID must be an integer other than -1''
              | Some n \<Rightarrow> Inr (LineIwan (dec_int n)))
           else if k = ascii_str ''sr'' then
             (case parse_i32 n of
                None \<Rightarrow> Inl ''SR group ID must be an integer''
              | Some n \<Rightarrow> Inr (LineSr n))
           else Inl ''line must be auto, iwan:<server-id>, or sr:<group-id>''))"

section \<open>Segment Routing entries\<close>

definition utf16_count :: "ustr \<Rightarrow> nat" where
  "utf16_count s = sum_list (map (\<lambda>c. if c < 0x10000 then 1 else 2) s)"

definition required_key_units :: "ustr \<Rightarrow> nat option" where
  "required_key_units algo =
     (if algo = ascii_str ''aes128'' then Some 16 else if algo = ascii_str ''aes256'' then Some 32 else None)"

definition normalize_sr_entry :: "sr_entry \<Rightarrow> sr_entry" where
  "normalize_sr_entry e0 =
     (let e1 = (if \<not> (576 \<le> ing_mtu (ent_ingress e0) \<and> ing_mtu (ent_ingress e0) \<le> 1500)
                then e0\<lparr>ent_ingress := (ent_ingress e0)\<lparr>ing_mtu := 1392\<rparr>\<rparr> else e0);
          e2 = (case required_key_units (ent_encrypt_algo e1) of
                  None \<Rightarrow> e1\<lparr>ent_encrypt_algo := ascii_str ''null'', ent_encrypt_key := []\<rparr>
                | Some minimum \<Rightarrow>
                    if utf16_count (ent_encrypt_key e1) < minimum
                    then e1\<lparr>ent_encrypt_algo := ascii_str ''null'', ent_encrypt_key := []\<rparr>
                    else e1)
      in if ent_keepalive e2 = Some True \<and> length (ent_links e2) < 6
         then e2\<lparr>ent_keepalive := Some False\<rparr> else e2)"

definition valid_sr_entry :: "addr_text \<Rightarrow> sr_entry \<Rightarrow> bool" where
  "valid_sr_entry T e \<longleftrightarrow>
     ing_server_name (ent_ingress e) \<noteq> [] \<and>
     1 \<le> ing_server_port (ent_ingress e) \<and> ing_server_port (ent_ingress e) \<le> 65535 \<and>
     ing_username (ent_ingress e) \<noteq> [] \<and> ing_password (ent_ingress e) \<noteq> [] \<and>
     1 \<le> length (ent_links e) \<and> length (ent_links e) \<le> 6 \<and>
     list_all (\<lambda>link. 1 \<le> link \<and> link \<le> 0x00ffffff) (ent_links e) \<and>
     parse_ipv4 T (ent_ip e) \<noteq> None"

text \<open>\<open>u32::try_from\<close> of an \<open>i32\<close>, with zero left out.\<close>

definition nonzero_u32 :: "int \<Rightarrow> u32 option" where
  "nonzero_u32 n = (if 0 < n then Some (word_of_int n) else None)"

text \<open>The loop of \<open>next_local_sr_id\<close>, for at most \<open>fuel\<close> candidates: the identifier and the counter.\<close>

fun next_local_sr_id :: "nat \<Rightarrow> u32 \<Rightarrow> u32 list \<Rightarrow> u32 list \<Rightarrow> (u32 \<times> u32) option" where
  "next_local_sr_id 0 counter assigned reserved = None"
| "next_local_sr_id (Suc fuel) counter assigned reserved =
     (let candidate = counter + 1 in
      if candidate \<noteq> 0 \<and> candidate \<notin> set reserved \<and> candidate \<notin> set assigned
      then Some (candidate, counter + 1)
      else next_local_sr_id fuel (counter + 1) assigned reserved)"

definition id_count :: "int \<Rightarrow> sr_entry list \<Rightarrow> nat" where
  "id_count n es = length (filter (\<lambda>e. ent_id e = n) es)"

definition reserved_ids :: "sr_group list \<Rightarrow> u32 list" where
  "reserved_ids groups =
     (let es = concat (map sg_entries groups) in
      List.map_filter (\<lambda>e. if id_count (ent_id e) es = 1 then nonzero_u32 (ent_id e) else None) es)"

text \<open>The entries of a group get their identifiers in order; the state is the set of assigned
  identifiers and the counter. The candidates tried are one more than the taken ones and zero.\<close>

definition pick_id :: "u32 list \<Rightarrow> sr_entry list \<Rightarrow> sr_entry \<Rightarrow> u32 list \<Rightarrow> u32 \<Rightarrow> (u32 \<times> u32) option" where
  "pick_id reserved all e assigned counter =
     (case opt_filter (\<lambda>n. id_count (ent_id e) all = 1 \<and> n \<notin> set assigned) (nonzero_u32 (ent_id e)) of
        Some n \<Rightarrow> Some (n, counter)
      | None \<Rightarrow> next_local_sr_id (length assigned + length reserved + 2) counter assigned reserved)"

fun assign_ids ::
  "u32 list \<Rightarrow> sr_entry list \<Rightarrow> sr_entry list \<Rightarrow> u32 list \<Rightarrow> u32 \<Rightarrow> (sr_entry list \<times> u32 list \<times> u32) option" where
  "assign_ids reserved all [] assigned counter = Some ([], assigned, counter)"
| "assign_ids reserved all (e # es) assigned counter =
     (case pick_id reserved all e assigned counter of
        None \<Rightarrow> None
      | Some (n, counter) \<Rightarrow>
          (case assign_ids reserved all es (n # assigned) counter of
             None \<Rightarrow> None
           | Some (es, assigned, counter) \<Rightarrow>
               Some ((normalize_sr_entry e)\<lparr>ent_local_sr_id := Some n\<rparr> # es, assigned, counter)))"

definition primary_of :: "int \<Rightarrow> 'a list \<Rightarrow> nat" where
  "primary_of index es = (if 0 \<le> index \<and> nat index < length es then nat index else 0)"

fun position :: "('a \<Rightarrow> bool) \<Rightarrow> 'a list \<Rightarrow> nat option" where
  "position P [] = None"
| "position P (x # xs) = (if P x then Some 0 else map_option Suc (position P xs))"

text \<open>One group: the group that is kept, if any, and the state.\<close>

definition sanitize_group ::
  "addr_text \<Rightarrow> u32 list \<Rightarrow> sr_group \<Rightarrow> u32 list \<Rightarrow> u32 \<Rightarrow> (sr_group option \<times> u32 list \<times> u32) option" where
  "sanitize_group T reserved g assigned counter =
     (let es = take 5 (sg_entries g) in
      if es = [] then Some (None, assigned, counter)
      else case assign_ids reserved es es assigned counter of
        None \<Rightarrow> None
      | Some (es', assigned, counter) \<Rightarrow>
          let primary_id = ent_local_sr_id (es' ! primary_of (sg_primary_index g) es);
              kept = filter (valid_sr_entry T) es'
          in
          if kept = [] then Some (None, assigned, counter)
          else Some (Some (g\<lparr>sg_entries := kept,
                 sg_primary_index := int (opt_unwrap_or 0 (opt_and_then primary_id
                   (\<lambda>n. position (\<lambda>e. ent_local_sr_id e = Some n) kept)))\<rparr>), assigned, counter))"

fun sanitize_all ::
  "addr_text \<Rightarrow> u32 list \<Rightarrow> sr_group list \<Rightarrow> u32 list \<Rightarrow> u32 \<Rightarrow> (sr_group list \<times> u32) option" where
  "sanitize_all T reserved [] assigned counter = Some ([], counter)"
| "sanitize_all T reserved (g # gs) assigned counter =
     (case sanitize_group T reserved g assigned counter of
        None \<Rightarrow> None
      | Some (kept, assigned, counter) \<Rightarrow>
          map_option (\<lambda>(gs, counter). ((case kept of None \<Rightarrow> gs | Some g \<Rightarrow> g # gs), counter))
            (sanitize_all T reserved gs assigned counter))"

definition sanitize_sr_groups :: "addr_text \<Rightarrow> sr_group list \<Rightarrow> u32 \<Rightarrow> (sr_group list \<times> u32) option" where
  "sanitize_sr_groups T groups counter = sanitize_all T (reserved_ids groups) groups [] counter"

definition ordered_sr_entries :: "sr_group \<Rightarrow> sr_entry list" where
  "ordered_sr_entries g =
     (let es = sg_entries g; primary = primary_of (sg_primary_index g) es in
      if primary < length es then es[0 := es ! primary, primary := es ! 0] else es)"

section \<open>Endpoints and configurations\<close>

definition format_endpoint :: "ustr \<Rightarrow> int \<Rightarrow> ustr result" where
  "format_endpoint host port =
     (if \<not> (0 \<le> port \<and> port \<le> 65535) then Err (InvalidConfig ''invalid server port {port}'')
      else if host = [] \<or> port = 0
      then Err (InvalidConfig ''server host must be non-empty and port must be 1..=65535'')
      else Ok (endpoint_text host (dec (nat port))))"

definition entry_endpoint :: "sr_entry \<Rightarrow> ustr result" where
  "entry_endpoint e = format_endpoint (ing_server_name (ent_ingress e)) (ing_server_port (ent_ingress e))"

definition entry_routing_config :: "sr_entry \<Rightarrow> segment_routing_config result" where
  "entry_routing_config e =
     rbind (if ent_encrypt_algo e = [] \<or> ent_encrypt_algo e = ascii_str ''null'' then Ok SrNone
            else if ent_encrypt_algo e = ascii_str ''aes128'' then Ok SrAes128
            else if ent_encrypt_algo e = ascii_str ''aes256'' then Ok SrAes256
            else Err (InvalidConfig ''unsanitized SR encryption algorithm {:?}'')) (\<lambda>algo.
     rbind (ok_or (InvalidConfig ''SR entry has no runtime local SRID'') (ent_local_sr_id e)) (\<lambda>local_id.
     rbind (rmapM (\<lambda>link. if 0 \<le> link then Ok (word_of_int link) else Err (InvalidConfig ''SR link must be positive''))
              (ent_links e)) (\<lambda>links.
     Ok \<lparr>sr_config_id = opt_unwrap_or local_id (nonzero_u32 (ent_id e)),
         keepalive = opt_unwrap_or False (ent_keepalive e), encrypt_algo = algo,
         encrypt_key = utf8_bytes (ent_encrypt_key e), config_links = links,
         local_sr_id = Some local_id\<rparr>)))"

datatype selected_ingress = SelIwan server_info duration | SelSr int sr_entry duration

fun ingress_latency :: "selected_ingress \<Rightarrow> duration" where
  "ingress_latency (SelIwan _ l) = l"
| "ingress_latency (SelSr _ _ l) = l"

fun ingress_preference :: "selected_ingress \<Rightarrow> line_preference" where
  "ingress_preference (SelIwan s _) = LineIwan (si_id s)"
| "ingress_preference (SelSr g _ _) = LineSr g"

record connection_credentials =
  con_username :: ustr
  con_password :: ustr

record prepared_connection =
  pc_domain :: ustr
  pc_ingress :: selected_ingress
  pc_configuration :: controller_configuration
  pc_service_type :: service_type
  pc_credentials :: connection_credentials

fun ingress_config :: "selected_ingress \<Rightarrow> client_config result" where
  "ingress_config (SelIwan s _) = Ok (config_new (server_endpoint s))"
| "ingress_config (SelSr _ e _) =
     rbind (entry_endpoint e) (\<lambda>endpoint.
     let cfg = config_new endpoint; mtu = ing_mtu (ent_ingress e);
         cfg = (if 576 \<le> mtu \<and> mtu \<le> 65535 then cfg\<lparr>config_mtu := word_of_int mtu\<rparr> else cfg)
     in rmap (\<lambda>sr. cfg\<lparr>segment_routing := Some sr\<rparr>) (entry_routing_config e))"

text \<open>The client is its configuration and credentials, which \<open>Client::new\<close> validates once more.\<close>

definition prepared_client ::
  "(ustr \<Rightarrow> error_kind + socket_addr list) \<Rightarrow> prepared_connection \<Rightarrow> (client_config \<times> connection_credentials) result" where
  "prepared_client resolver p =
     rbind (enforce_device_binding (pc_configuration p)) (\<lambda>_.
     rbind (ingress_config (pc_ingress p)) (\<lambda>cfg.
     rbind (config_validate resolver cfg) (\<lambda>_.
     rbind (config_validate resolver cfg) (\<lambda>_. Ok (cfg, pc_credentials p)))))"

definition client_for ::
  "(ustr \<Rightarrow> error_kind + socket_addr list) \<Rightarrow> selected_ingress \<Rightarrow> connection_credentials \<Rightarrow>
     (client_config \<times> connection_credentials) result" where
  "client_for resolver ingress credentials =
     prepared_client resolver \<lparr>pc_domain = [], pc_ingress = ingress, pc_configuration = config_from_raw JNull,
       pc_service_type = ServerList, pc_credentials = credentials\<rparr>"

section \<open>Selection\<close>

type_synonym pinger = "ustr list \<Rightarrow> ustr \<Rightarrow> duration result"

text \<open>\<open>ping_endpoint\<close>: three probes of the first address, of which the fastest counts.\<close>

definition ping_endpoint ::
  "(ustr \<Rightarrow> error_kind + socket_addr list) \<Rightarrow> (socket_addr \<Rightarrow> duration result list) \<Rightarrow> ustr \<Rightarrow> duration result" where
  "ping_endpoint resolver probes endpoint =
     (case resolver endpoint of
        Inl k \<Rightarrow> Err (Io k)
      | Inr [] \<Rightarrow> Err (InvalidConfig ''server resolved to no address'')
      | Inr (address # _) \<Rightarrow>
          (case List.map_filter (\<lambda>r. case r of Inr d \<Rightarrow> Some d | Inl _ \<Rightarrow> None) (probes address) of
             [] \<Rightarrow> Err (Timeout ''ping'')
           | d # ds \<Rightarrow> Ok (Min (set (d # ds)))))"

fun ping_servers :: "pinger \<Rightarrow> server_info list \<Rightarrow> ustr list \<Rightarrow> selected_ingress list \<times> ustr list" where
  "ping_servers ping [] log = ([], log)"
| "ping_servers ping (s # ss) log =
     (let endpoint = server_endpoint s; (rest, log') = ping_servers ping ss (log @ [endpoint]) in
      (case ping log endpoint of
         Inr latency \<Rightarrow> (SelIwan s latency # rest, log')
       | Inl _ \<Rightarrow> (rest, log')))"

fun ping_entries :: "pinger \<Rightarrow> int \<Rightarrow> sr_entry list \<Rightarrow> error option \<Rightarrow> ustr list \<Rightarrow> (error option + selected_ingress) \<times> ustr list" where
  "ping_entries ping group_id [] last_error log = (Inl last_error, log)"
| "ping_entries ping group_id (e # es) last_error log =
     (case entry_endpoint e of
        Inl err \<Rightarrow> ping_entries ping group_id es (Some err) log
      | Inr endpoint \<Rightarrow>
          (case ping log endpoint of
             Inr latency \<Rightarrow> (Inr (SelSr group_id e latency), log @ [endpoint])
           | Inl err \<Rightarrow> ping_entries ping group_id es (Some err) (log @ [endpoint])))"

fun ping_groups :: "pinger \<Rightarrow> sr_group list \<Rightarrow> ustr list \<Rightarrow> selected_ingress list \<times> ustr list" where
  "ping_groups ping [] log = ([], log)"
| "ping_groups ping (g # gs) log =
     (case ping_entries ping (sg_id g) (ordered_sr_entries g) None log of
        (r, log1) \<Rightarrow>
          (case ping_groups ping gs log1 of
             (rest, log2) \<Rightarrow> ((case r of Inr c \<Rightarrow> c # rest | Inl _ \<Rightarrow> rest), log2)))"

text \<open>\<open>select_ingress_with\<close> over the servers and the sanitized groups of the configuration.\<close>

definition select_ingress_with ::
  "pinger \<Rightarrow> server_info list \<Rightarrow> sr_group list \<Rightarrow> ustr list \<Rightarrow> selected_ingress result \<times> ustr list" where
  "select_ingress_with ping servers groups log =
     (let (c1, log1) = ping_servers ping servers log; (c2, log2) = ping_groups ping groups log1 in
      (ok_or (Timeout ''no ingress server answered ping'') (min_by_key ingress_latency (c1 @ c2)), log2))"

definition select_sr_group_with :: "pinger \<Rightarrow> sr_group \<Rightarrow> ustr list \<Rightarrow> selected_ingress result \<times> ustr list" where
  "select_sr_group_with ping g log =
     (case ping_entries ping (sg_id g) (ordered_sr_entries g) None log of
        (Inr c, log) \<Rightarrow> (Ok c, log)
      | (Inl e, log) \<Rightarrow> (Err (opt_unwrap_or (InvalidConfig ''SR group {group_id} contains no valid entry'') e), log))"

text \<open>\<open>select_ingress_with_preference\<close>: \<open>None\<close> only if an identifier is searched for without end.
  The servers and groups are those of the configuration; an error in reading them is given as such.\<close>

definition select_ingress ::
  "addr_text \<Rightarrow> pinger \<Rightarrow> server_info list result \<Rightarrow> sr_group list result \<Rightarrow> u32 \<Rightarrow> line_preference \<Rightarrow> ustr list \<Rightarrow>
     (selected_ingress result \<times> ustr list) option" where
  "select_ingress T ping servers groups counter preference log =
     (case preference of
        LineAuto \<Rightarrow>
          (case servers of
             Inl e \<Rightarrow> Some (Err e, log)
           | Inr ss \<Rightarrow>
               (case groups of
                  Inl e \<Rightarrow> Some (Err e, snd (ping_servers ping ss log))
                | Inr gs \<Rightarrow>
                    map_option (\<lambda>(gs, _). select_ingress_with ping ss gs log) (sanitize_sr_groups T gs counter)))
      | LineIwan server_id \<Rightarrow>
          (case servers of
             Inl e \<Rightarrow> Some (Err e, log)
           | Inr ss \<Rightarrow>
               (case find (\<lambda>s. si_id s = server_id) ss of
                  None \<Rightarrow> Some (Err (LineNotFound (line_to_string preference)), log)
                | Some s \<Rightarrow>
                    Some (case ping log (server_endpoint s) of
                            Inr latency \<Rightarrow> Ok (SelIwan s latency)
                          | Inl e \<Rightarrow> Err (LineUnavailable (line_to_string preference) e),
                          log @ [server_endpoint s])))
      | LineSr group_id \<Rightarrow>
          (case groups of
             Inl e \<Rightarrow> Some (Err e, log)
           | Inr gs \<Rightarrow>
               map_option (\<lambda>(gs, _).
                 case filter (\<lambda>g. sg_id g = group_id) gs of
                   [] \<Rightarrow> (Err (LineNotFound (line_to_string preference)), log)
                 | [g] \<Rightarrow>
                     (case select_sr_group_with ping g log of
                        (Inr c, log) \<Rightarrow> (Ok c, log)
                      | (Inl e, log) \<Rightarrow> (Err (LineUnavailable (line_to_string preference) e), log))
                 | _ \<Rightarrow> (Err (InvalidConfig ''controller returned duplicate SR group ID {group_id}''), log))
                 (sanitize_sr_groups T gs counter)))"

section \<open>Probing\<close>

record line_probe =
  lp_preference :: line_preference
  lp_name :: ustr
  lp_name_en :: ustr
  lp_endpoint :: "ustr option"
  lp_latency :: "duration option"
  lp_error :: "error option"

datatype line_target = TargetIwan server_info | TargetSr sr_group

fun probe_entries ::
  "(ustr \<Rightarrow> duration result) \<Rightarrow> sr_entry list \<Rightarrow> ustr option \<Rightarrow> error option \<Rightarrow> ustr option \<times> duration option \<times> error option" where
  "probe_entries ping [] selected last_error = (selected, None, last_error)"
| "probe_entries ping (e # es) selected last_error =
     (case entry_endpoint e of
        Inl err \<Rightarrow> probe_entries ping es selected (Some err)
      | Inr endpoint \<Rightarrow>
          (case ping endpoint of
             Inr measured \<Rightarrow> (Some endpoint, Some measured, None)
           | Inl err \<Rightarrow> probe_entries ping es (Some endpoint) (Some err)))"

text \<open>The error of a probe is the error whose text it reports.\<close>

fun probe_line_target :: "(ustr \<Rightarrow> duration result) \<Rightarrow> line_target \<Rightarrow> line_probe" where
  "probe_line_target ping (TargetIwan s) =
     (let endpoint = server_endpoint s; r = ping endpoint in
      \<lparr>lp_preference = LineIwan (si_id s), lp_name = si_name s, lp_name_en = si_name_en s, lp_endpoint = Some endpoint,
       lp_latency = (case r of Inr d \<Rightarrow> Some d | Inl _ \<Rightarrow> None), lp_error = (case r of Inl e \<Rightarrow> Some e | Inr _ \<Rightarrow> None)\<rparr>)"
| "probe_line_target ping (TargetSr g) =
     (let (endpoint, latency, err) = probe_entries ping (ordered_sr_entries g) None None in
      \<lparr>lp_preference = LineSr (sg_id g), lp_name = sg_name g, lp_name_en = sg_name_en g, lp_endpoint = endpoint,
       lp_latency = latency,
       lp_error = (if latency \<noteq> None then None
                   else or_else err (Some (Managed ''SR group {} contains no reachable entry'')))\<rparr>)"

text \<open>The workers of a batch of sixteen run at the same time and are joined in order; \<open>ping n\<close> is what
  the worker of the n-th target sees.\<close>

fun probe_batches :: "(nat \<Rightarrow> ustr \<Rightarrow> duration result) \<Rightarrow> nat \<Rightarrow> line_target list \<Rightarrow> line_probe list" where
  "probe_batches ping n ts =
     (if ts = [] then []
      else map (\<lambda>(i, t). probe_line_target (ping i) t) (enumerate n (take 16 ts)) @
           probe_batches ping (n + 16) (drop 16 ts))"

definition probe_lines ::
  "addr_text \<Rightarrow> (nat \<Rightarrow> ustr \<Rightarrow> duration result) \<Rightarrow> server_info list result \<Rightarrow> sr_group list result \<Rightarrow> u32 \<Rightarrow>
     line_probe list result option" where
  "probe_lines T ping servers groups counter =
     (case rbind servers (\<lambda>ss. rmap (Pair ss) groups) of
        Inl e \<Rightarrow> Some (Err e)
      | Inr (ss, gs) \<Rightarrow>
          map_option (\<lambda>(gs, _). Ok (probe_batches ping 0 (map TargetIwan ss @ map TargetSr gs)))
            (sanitize_sr_groups T gs counter))"

section \<open>Credentials\<close>

definition credentials_for_ingress ::
  "json_lib \<Rightarrow> sec_lib \<Rightarrow> aead_lib \<Rightarrow> selected_ingress \<Rightarrow> (ustr \<times> ustr) option \<Rightarrow> controller_configuration \<Rightarrow>
     connection_credentials result" where
  "credentials_for_ingress J S A ingress global c =
     (case ingress of
        SelIwan s _ \<Rightarrow>
          (case global of
             Some (username, password) \<Rightarrow> Ok \<lparr>con_username = username, con_password = password\<rparr>
           | None \<Rightarrow>
               rbind (cc_server_credentials J S A c) (\<lambda>creds.
               rmap (\<lambda>cr. \<lparr>con_username = crd_username cr, con_password = crd_password cr\<rparr>)
                 (ok_or (Controller ''configuration has no credentials for server {}'') (map_of creds (si_id s)))))
      | SelSr _ e _ \<Rightarrow>
          if ing_username (ent_ingress e) = [] \<or> ing_password (ent_ingress e) = []
          then Err (Controller ''selected SR ingress has no credentials'')
          else Ok \<lparr>con_username = ing_username (ent_ingress e), con_password = ing_password (ent_ingress e)\<rparr>)"

declare probe_batches.simps [simp del]

section \<open>Fresh identifiers\<close>

lemma next_local_SomeD:
  assumes "next_local_sr_id fuel counter assigned reserved = Some (n, counter')"
  shows "n \<noteq> 0" "n \<notin> set assigned" "n \<notin> set reserved"
  using assms by (induction fuel arbitrary: counter) (auto simp: Let_def split: if_splits)

lemma next_local_NoneD:
  assumes "next_local_sr_id fuel counter assigned reserved = None" "k < fuel"
  shows "counter + 1 + of_nat k \<in> insert 0 (set assigned \<union> set reserved)"
  using assms
proof (induction fuel arbitrary: counter k)
  case (Suc fuel)
  then have taken: "counter + 1 \<in> insert 0 (set assigned \<union> set reserved)"
    and rest: "next_local_sr_id fuel (counter + 1) assigned reserved = None"
    by (auto simp: Let_def split: if_splits)
  show ?case
  proof (cases k)
    case 0
    then show ?thesis using taken by simp
  next
    case (Suc j)
    with Suc.IH [OF rest, of j] Suc.prems(2) show ?thesis by (simp add: ac_simps)
  qed
qed simp

text \<open>More candidates than taken identifiers: one of them is free.\<close>

lemma next_local_total:
  assumes "length assigned + length reserved + 2 \<le> 2 ^ 32"
  shows "next_local_sr_id (length assigned + length reserved + 2) counter assigned reserved \<noteq> None"
proof
  let ?f = "length assigned + length reserved + 2" and ?U = "insert 0 (set assigned \<union> set reserved)"
  let ?c = "\<lambda>k. counter + 1 + (of_nat k :: u32)"
  assume "next_local_sr_id ?f counter assigned reserved = None"
  then have sub: "?c ` {..<?f} \<subseteq> ?U" using next_local_NoneD by blast
  have "inj_on ?c {..<?f}"
  proof (rule inj_onI)
    fix i j assume "i \<in> {..<?f}" "j \<in> {..<?f}" "?c i = ?c j"
    then have "(of_nat i :: u32) = of_nat j" "i < 2 ^ 32" "j < 2 ^ 32" using assms by simp_all
    then have "unat (of_nat i :: u32) = unat (of_nat j :: u32)" by simp
    then show "i = j" using \<open>i < 2 ^ 32\<close> \<open>j < 2 ^ 32\<close> by (simp add: unat_of_nat)
  qed
  then have "?f = card (?c ` {..<?f})" by (simp add: card_image)
  also have "\<dots> \<le> card ?U" using sub by (intro card_mono) simp_all
  also have "\<dots> \<le> Suc (card (set assigned \<union> set reserved))" by (simp add: card_insert_if)
  also have "\<dots> \<le> Suc (card (set assigned) + card (set reserved))" using card_Un_le by simp
  also have "\<dots> \<le> Suc (length assigned + length reserved)" using card_length [of assigned] card_length [of reserved] by simp
  finally show False by simp
qed

section \<open>Sanitized groups\<close>

abbreviation local_ids :: "sr_entry list \<Rightarrow> u32 option list" where
  "local_ids es \<equiv> map ent_local_sr_id es"

lemma nonzero_u32_SomeD: "in_i32 n \<Longrightarrow> nonzero_u32 n = Some w \<Longrightarrow> w \<noteq> 0"
proof -
  assume n: "in_i32 n" "nonzero_u32 n = Some w"
  then have "0 < n" "w = word_of_int n" "n < 2 ^ 31" by (auto simp: nonzero_u32_def in_i32_def split: if_splits)
  then have "uint w = n" by (simp add: uint_word_of_int_eq take_bit_int_eq_self)
  with \<open>0 < n\<close> show "w \<noteq> 0" by auto
qed

definition entries_in_range :: "sr_group list \<Rightarrow> bool" where
  "entries_in_range gs \<longleftrightarrow> (\<forall>g \<in> set gs. \<forall>e \<in> set (sg_entries g). in_i32 (ent_id e))"

lemma pick_id_SomeD:
  assumes "pick_id reserved all e assigned counter = Some (n, c)" "in_i32 (ent_id e)"
  shows "n \<noteq> 0" "n \<notin> set assigned"
proof -
  show "n \<notin> set assigned"
    using assms(1) next_local_SomeD(2) unfolding pick_id_def by (auto split: option.splits simp del: next_local_sr_id.simps)
  show "n \<noteq> 0"
    using assms next_local_SomeD(1) nonzero_u32_SomeD unfolding pick_id_def
    by (auto split: option.splits simp del: next_local_sr_id.simps)
qed

lemma pick_id_total:
  assumes "length assigned + length reserved + 2 \<le> 2 ^ 32"
  shows "\<exists>n c. pick_id reserved all e assigned counter = Some (n, c)"
  using next_local_total [OF assms, of counter] unfolding pick_id_def
  by (auto split: option.splits simp del: next_local_sr_id.simps)

lemma assign_ids_spec:
  assumes "assign_ids reserved all es assigned counter = Some (es', assigned', counter')" "\<forall>e \<in> set es. in_i32 (ent_id e)"
  shows "\<exists>ids. es' = map (\<lambda>(e, n). (normalize_sr_entry e)\<lparr>ent_local_sr_id := Some n\<rparr>) (zip es ids) \<and> length ids = length es \<and>
    assigned' = rev ids @ assigned \<and> distinct ids \<and> set ids \<inter> set assigned = {} \<and> 0 \<notin> set ids"
  using assms
proof (induction es arbitrary: assigned counter es')
  case (Cons e es)
  from Cons.prems(1) obtain n c es1 where p: "pick_id reserved all e assigned counter = Some (n, c)"
    and r: "assign_ids reserved all es (n # assigned) c = Some (es1, assigned', counter')"
    and es': "es' = (normalize_sr_entry e)\<lparr>ent_local_sr_id := Some n\<rparr> # es1"
    by (auto split: option.splits)
  have n: "n \<noteq> 0" "n \<notin> set assigned" using pick_id_SomeD [OF p] Cons.prems(2) by simp_all
  from Cons.IH [OF r] Cons.prems(2) obtain ids where
    "es1 = map (\<lambda>(e, n). (normalize_sr_entry e)\<lparr>ent_local_sr_id := Some n\<rparr>) (zip es ids)" "length ids = length es"
    "assigned' = rev ids @ (n # assigned)" "distinct ids" "set ids \<inter> set (n # assigned) = {}" "0 \<notin> set ids" by auto
  then show ?case using n es' by (intro exI [of _ "n # ids"]) auto
qed auto

lemma local_ids_assigned:
  "length ids = length es \<Longrightarrow> local_ids (map (\<lambda>(e, n). (normalize_sr_entry e)\<lparr>ent_local_sr_id := Some n\<rparr>) (zip es ids)) = map Some ids"
  by (induction es ids rule: list_induct2') auto

lemma position_less: "position P xs = Some i \<Longrightarrow> i < length xs"
  by (induction xs arbitrary: i) (auto split: if_splits)

definition key_ok :: "sr_entry \<Rightarrow> bool" where
  "key_ok e \<longleftrightarrow>
     ent_encrypt_algo e = ascii_str ''null'' \<or>
     (\<exists>minimum. required_key_units (ent_encrypt_algo e) = Some minimum \<and> minimum \<le> utf16_count (ent_encrypt_key e))"

definition entry_good :: "addr_text \<Rightarrow> sr_entry \<Rightarrow> bool" where
  "entry_good T e \<longleftrightarrow>
     valid_sr_entry T e \<and> (\<exists>n. ent_local_sr_id e = Some n \<and> n \<noteq> 0) \<and>
     576 \<le> ing_mtu (ent_ingress e) \<and> ing_mtu (ent_ingress e) \<le> 1500 \<and> key_ok e"

lemma normalize_good:
  "576 \<le> ing_mtu (ent_ingress (normalize_sr_entry e))" "ing_mtu (ent_ingress (normalize_sr_entry e)) \<le> 1500"
  "key_ok (normalize_sr_entry e)"
  by (auto simp: normalize_sr_entry_def key_ok_def Let_def required_key_units_def split: option.splits)

definition group_good :: "addr_text \<Rightarrow> sr_group \<Rightarrow> bool" where
  "group_good T g \<longleftrightarrow>
     sg_entries g \<noteq> [] \<and> length (sg_entries g) \<le> 5 \<and> 0 \<le> sg_primary_index g \<and>
     sg_primary_index g < int (length (sg_entries g)) \<and> list_all (entry_good T) (sg_entries g)"

lemma filter_local_ids: "distinct (local_ids es) \<Longrightarrow> distinct (local_ids (filter P es)) \<and> set (local_ids (filter P es)) \<subseteq> set (local_ids es)"
  by (auto intro: distinct_map_filter)

lemma group_kept:
  assumes "kept = (if K = [] then None else Some (g\<lparr>sg_entries := K, sg_primary_index := int i\<rparr>))"
    and "list_all (entry_good T) K" "length K \<le> 5" "distinct (local_ids K)" "set (local_ids K) \<subseteq> Some ` set ids"
    and "K \<noteq> [] \<Longrightarrow> i < length K"
    and "assigned' = rev ids @ assigned" "length ids \<le> length (sg_entries g)" "distinct ids" "set ids \<inter> set assigned = {}"
  shows "assigned' = rev ids @ assigned \<and> length ids \<le> length (sg_entries g) \<and> distinct ids \<and> set ids \<inter> set assigned = {} \<and>
    (\<forall>g'. kept = Some g' \<longrightarrow> group_good T g' \<and> sg_id g' = sg_id g \<and> distinct (local_ids (sg_entries g')) \<and>
       set (local_ids (sg_entries g')) \<subseteq> Some ` set ids)"
  using assms by (cases "K = []") (simp_all add: group_good_def)

lemma sanitize_group_spec:
  assumes "sanitize_group T reserved g assigned counter = Some (kept, assigned', counter')" "\<forall>e \<in> set (sg_entries g). in_i32 (ent_id e)"
  shows "\<exists>ids. assigned' = rev ids @ assigned \<and> length ids \<le> length (sg_entries g) \<and> distinct ids \<and> set ids \<inter> set assigned = {} \<and>
    (\<forall>g'. kept = Some g' \<longrightarrow> group_good T g' \<and> sg_id g' = sg_id g \<and> distinct (local_ids (sg_entries g')) \<and>
       set (local_ids (sg_entries g')) \<subseteq> Some ` set ids)"
proof (cases "take 5 (sg_entries g) = []")
  case True
  with assms(1) show ?thesis by (auto simp: sanitize_group_def intro: exI [of _ "[]"])
next
  case False
  let ?es = "take 5 (sg_entries g)"
  from False assms(1) obtain es' where a: "assign_ids reserved ?es ?es assigned counter = Some (es', assigned', counter')"
    and k: "kept = (if filter (valid_sr_entry T) es' = [] then None
      else Some (g\<lparr>sg_entries := filter (valid_sr_entry T) es',
        sg_primary_index := int (opt_unwrap_or 0 (opt_and_then (ent_local_sr_id (es' ! primary_of (sg_primary_index g) ?es))
          (\<lambda>n. position (\<lambda>e. ent_local_sr_id e = Some n) (filter (valid_sr_entry T) es'))))\<rparr>))"
    by (auto simp: sanitize_group_def Let_def split: option.splits if_splits)
  from assign_ids_spec [OF a] assms(2) obtain ids where es': "es' = map (\<lambda>(e, n). (normalize_sr_entry e)\<lparr>ent_local_sr_id := Some n\<rparr>) (zip ?es ids)"
    and ids: "length ids = length ?es" "assigned' = rev ids @ assigned" "distinct ids" "set ids \<inter> set assigned = {}" "0 \<notin> set ids"
    by (meson in_set_takeD)
  have l: "local_ids es' = map Some ids" unfolding es' by (rule local_ids_assigned [OF ids(1)])
  have d: "distinct (local_ids es')" "set (local_ids es') = Some ` set ids" using ids(3) by (simp_all add: l distinct_map)
  have good: "entry_good T e" if "e \<in> set es'" "valid_sr_entry T e" for e
  proof -
    from that(1) obtain e0 n where "e = (normalize_sr_entry e0)\<lparr>ent_local_sr_id := Some n\<rparr>" "n \<in> set ids"
      by (auto simp: es' dest: set_zip_rightD)
    then show ?thesis using normalize_good [of e0] that(2) ids(5) by (auto simp: entry_good_def key_ok_def)
  qed
  have len: "length es' \<le> 5" by (simp add: es' ids(1))
  define K where "K = filter (valid_sr_entry T) es'"
  define i where "i = opt_unwrap_or 0 (opt_and_then (ent_local_sr_id (es' ! primary_of (sg_primary_index g) ?es))
      (\<lambda>n. position (\<lambda>e. ent_local_sr_id e = Some n) K))"
  have K: "list_all (entry_good T) K" "length K \<le> 5" "distinct (local_ids K)" "set (local_ids K) \<subseteq> Some ` set ids"
    using good le_trans [OF length_filter_le len] filter_local_ids [OF d(1), of "valid_sr_entry T"] unfolding d(2) K_def
    by (simp_all add: list_all_iff)
  have i: "i < length K" if "K \<noteq> []"
    using that position_less
    by (cases "ent_local_sr_id (es' ! primary_of (sg_primary_index g) ?es)")
      (fastforce simp: i_def opt_and_then_def opt_unwrap_or_def split: option.splits)+
  have k': "kept = (if K = [] then None else Some (g\<lparr>sg_entries := K, sg_primary_index := int i\<rparr>))"
    using k by (simp only: K_def i_def)
  show ?thesis
    by (rule exI [of _ ids], rule group_kept [OF k' K i]) (use ids in simp_all)
qed

definition sr_ids :: "sr_group list \<Rightarrow> u32 option list" where
  "sr_ids gs = concat (map (\<lambda>g. local_ids (sg_entries g)) gs)"

lemma sanitize_all_spec:
  assumes "sanitize_all T reserved gs assigned counter = Some (gs', counter')" "entries_in_range gs"
  shows "list_all (group_good T) gs' \<and> distinct (sr_ids gs') \<and> set (sr_ids gs') \<inter> Some ` set assigned = {} \<and>
    set (map sg_id gs') \<subseteq> set (map sg_id gs)"
  using assms
proof (induction gs arbitrary: assigned counter gs')
  case (Cons g gs)
  from Cons.prems(1) obtain kept assigned1 counter1 gs1 where
    1: "sanitize_group T reserved g assigned counter = Some (kept, assigned1, counter1)"
    and 2: "sanitize_all T reserved gs assigned1 counter1 = Some (gs1, counter')"
    and gs': "gs' = (case kept of None \<Rightarrow> gs1 | Some g \<Rightarrow> g # gs1)"
    by (auto split: option.splits)
  from sanitize_group_spec [OF 1] Cons.prems(2) obtain ids where
    ids: "assigned1 = rev ids @ assigned" "set ids \<inter> set assigned = {}"
    and kept: "\<forall>g'. kept = Some g' \<longrightarrow> group_good T g' \<and> sg_id g' = sg_id g \<and> distinct (local_ids (sg_entries g')) \<and>
       set (local_ids (sg_entries g')) \<subseteq> Some ` set ids"
    by (auto simp: entries_in_range_def)
  have ih: "list_all (group_good T) gs1 \<and> distinct (sr_ids gs1) \<and> set (sr_ids gs1) \<inter> Some ` set assigned1 = {} \<and>
      set (map sg_id gs1) \<subseteq> set (map sg_id gs)"
    using Cons.IH [OF 2] Cons.prems(2) by (simp add: entries_in_range_def)
  show ?case
  proof (cases kept)
    case None
    then show ?thesis using ih by (auto simp: gs' ids(1))
  next
    case (Some g')
    with kept have g: "group_good T g'" "sg_id g' = sg_id g" "distinct (local_ids (sg_entries g'))" "set (local_ids (sg_entries g')) \<subseteq> Some ` set ids" by auto
    have "Some ` set ids \<inter> Some ` set assigned = {}" "set (sr_ids gs1) \<inter> Some ` set ids = {}" "set (sr_ids gs1) \<inter> Some ` set assigned = {}"
      using ih ids by auto
    with g(4) have "set (local_ids (sg_entries g')) \<inter> set (sr_ids gs1) = {}" "set (local_ids (sg_entries g')) \<inter> Some ` set assigned = {}"
      by blast+
    moreover have "sr_ids gs' = local_ids (sg_entries g') @ sr_ids gs1" "gs' = g' # gs1" by (simp_all add: gs' Some sr_ids_def)
    ultimately show ?thesis using g(1-3) ih \<open>set (sr_ids gs1) \<inter> Some ` set assigned = {}\<close>
      by (simp add: Int_Un_distrib2) blast
  qed
qed (simp add: sr_ids_def)

lemma assign_ids_total:
  assumes "length assigned + length es + length reserved + 2 \<le> 2 ^ 32"
  shows "\<exists>r. assign_ids reserved all es assigned counter = Some r"
  using assms
proof (induction es arbitrary: assigned counter)
  case (Cons e es)
  obtain n c where p: "pick_id reserved all e assigned counter = Some (n, c)"
    using pick_id_total [of assigned reserved all e counter] Cons.prems by auto
  obtain r where "assign_ids reserved all es (n # assigned) c = Some r" using Cons.IH [of "n # assigned" c] Cons.prems by auto
  then show ?case using p by (cases r) simp
qed simp

lemma sanitize_group_total:
  assumes "length assigned + length (sg_entries g) + length reserved + 2 \<le> 2 ^ 32"
  shows "\<exists>r. sanitize_group T reserved g assigned counter = Some r"
proof -
  have "length assigned + length (take 5 (sg_entries g)) + length reserved + 2 \<le> 2 ^ 32" using assms by simp
  from assign_ids_total [OF this] obtain r where
    "assign_ids reserved (take 5 (sg_entries g)) (take 5 (sg_entries g)) assigned counter = Some r" by blast
  then show ?thesis by (cases r) (simp add: sanitize_group_def Let_def)
qed

lemma sanitize_all_total:
  assumes "length assigned + length (concat (map sg_entries gs)) + length reserved + 2 \<le> 2 ^ 32" "entries_in_range gs"
  shows "\<exists>r. sanitize_all T reserved gs assigned counter = Some r"
  using assms
proof (induction gs arbitrary: assigned counter)
  case (Cons g gs)
  obtain kept assigned1 counter1 where 1: "sanitize_group T reserved g assigned counter = Some (kept, assigned1, counter1)"
    using sanitize_group_total [of assigned g reserved T counter] Cons.prems(1) by auto
  from sanitize_group_spec [OF 1] Cons.prems(2) have "length assigned1 \<le> length (sg_entries g) + length assigned"
    by (auto simp: entries_in_range_def)
  then obtain r where "sanitize_all T reserved gs assigned1 counter1 = Some r"
    using Cons.IH [of assigned1 counter1] Cons.prems by (auto simp: entries_in_range_def)
  then show ?case using 1 by (cases r) simp
qed simp

lemma reserved_ids_length: "length (reserved_ids gs) \<le> length (concat (map sg_entries gs))"
proof -
  have "length (List.map_filter f xs) \<le> length xs" for f :: "'a \<Rightarrow> 'b option" and xs
    by (simp add: List.map_filter_def)
  then show ?thesis by (simp only: reserved_ids_def Let_def)
qed

lemmas sanitize_spec = sanitize_all_spec [of T "reserved_ids gs" gs "[]" for T gs, folded sanitize_sr_groups_def]

lemma sanitize_total:
  assumes "entries_in_range gs" "2 * length (concat (map sg_entries gs)) + 2 \<le> 2 ^ 32"
  shows "\<exists>gs' counter'. sanitize_sr_groups T gs counter = Some (gs', counter')"
proof -
  have "length [] + length (concat (map sg_entries gs)) + length (reserved_ids gs) + 2 \<le> 2 ^ 32"
    using reserved_ids_length [of gs] assms(2) by simp
  from sanitize_all_total [OF this assms(1)] show ?thesis unfolding sanitize_sr_groups_def by fast
qed

text \<open>C21 (sanitized lines). The sanitizing of the Segment Routing groups a controller sends comes to an end
  whatever the process-wide counter is (wrap-around included), and what it keeps can be used as it is:
  every group has between one and five entries and a primary entry among them; every entry has a valid
  ingress, links, MTU and address and a key that is long enough for its algorithm; the local identifiers,
  which tell the monitoring replies of the lines apart, are never zero and never shared, within a group or
  between groups. The bound says that there are fewer than 2^31 entries.\<close>

theorem sanitize_unique_ids:
  assumes "entries_in_range gs" "2 * length (concat (map sg_entries gs)) + 2 \<le> 2 ^ 32"
  shows "\<exists>gs' counter'. sanitize_sr_groups T gs counter = Some (gs', counter') \<and> list_all (group_good T) gs' \<and>
    distinct (sr_ids gs') \<and> set (map sg_id gs') \<subseteq> set (map sg_id gs)"
proof -
  from sanitize_total [OF assms] obtain gs' counter' where s: "sanitize_sr_groups T gs counter = Some (gs', counter')" by blast
  from sanitize_spec [OF this assms(1)] s show ?thesis by auto
qed

definition demo_entry :: sr_entry where
  "demo_entry =
     \<lparr>ent_id = 7, ent_name = [], ent_keepalive = Some True, ent_encrypt_algo = ascii_str ''aes128'',
      ent_encrypt_key = replicate 16 0x6b, ent_status = [], ent_ip = ipv4_display 1,
      ent_ingress = \<lparr>ing_server_name = [0x76], ing_server_port = 443, ing_username = [0x75], ing_password = [0x70],
        ing_mtu = 1400\<rparr>,
      ent_links = [5], ent_local_sr_id = None\<rparr>"

definition demo_sr_group :: sr_group where
  "demo_sr_group = \<lparr>sg_id = 3, sg_name = [], sg_name_en = [], sg_primary_index = 1, sg_entries = [demo_entry, demo_entry]\<rparr>"

theorem sanitize_unique_ids_witness:
  "\<exists>gs' counter'. sanitize_sr_groups demo_text [demo_sr_group, demo_sr_group] (2 ^ 32 - 1) = Some (gs', counter') \<and> distinct (sr_ids gs')"
  using sanitize_unique_ids [of "[demo_sr_group, demo_sr_group]" demo_text "2 ^ 32 - 1"]
  by (auto simp: entries_in_range_def demo_sr_group_def demo_entry_def in_i32_def)

section \<open>From a line to a client\<close>

lemma utf16_le_utf8: "utf16_count s \<le> length (utf8_bytes s)"
  by (induction s) (auto simp: utf16_count_def utf8_char_def intro: add_mono)

lemma rmapM_links:
  "list_all (\<lambda>link. 1 \<le> link \<and> link \<le> 0x00ffffff) ls \<Longrightarrow>
     rmapM (\<lambda>link. if 0 \<le> link then Ok (word_of_int link) else Err e) ls = Ok (map word_of_int ls)"
  by (induction ls) auto

lemma link_word:
  assumes "1 \<le> n" "n \<le> 0x00ffffff"
  shows "1 \<le> (word_of_int n :: u32) \<and> (word_of_int n :: u32) \<le> 0x00ffffff"
  using assms by (simp add: word_le_def uint_word_of_int_eq take_bit_int_eq_self)

lemma mtu_word:
  assumes "576 \<le> n" "n \<le> 1500"
  shows "576 \<le> (word_of_int n :: u16) \<and> (word_of_int n :: u16) \<le> 9000"
  using assms by (simp add: word_le_def uint_word_of_int_eq take_bit_int_eq_self)

lemma entry_sr_config:
  assumes "entry_good T e"
  shows "\<exists>sr. entry_routing_config e = Ok sr \<and> sr_config_validate sr = Ok () \<and> local_sr_id sr = ent_local_sr_id e"
proof -
  let ?ls = "map word_of_int (ent_links e) :: u32 list"
  from assms have v: "valid_sr_entry T e" and k: "key_ok e" and n: "\<exists>n. ent_local_sr_id e = Some n" by (auto simp: entry_good_def)
  from v have ls: "list_all (\<lambda>link. 1 \<le> link \<and> link \<le> 0x00ffffff) (ent_links e)" "1 \<le> length ?ls" "length ?ls \<le> 6"
    by (simp_all add: valid_sr_entry_def)
  then have links: "\<not> list_ex (\<lambda>link. \<not> (1 \<le> link \<and> link \<le> 0x00ffffff)) ?ls"
    using link_word by (auto simp: list_ex_iff list_all_iff)
  have c: "\<exists>algo. (if ent_encrypt_algo e = [] \<or> ent_encrypt_algo e = ascii_str ''null'' then Ok SrNone
            else if ent_encrypt_algo e = ascii_str ''aes128'' then Ok SrAes128
            else if ent_encrypt_algo e = ascii_str ''aes256'' then Ok SrAes256
            else Err (InvalidConfig ''unsanitized SR encryption algorithm {:?}'')) = Ok algo \<and>
       required_key_length algo \<le> length (utf8_bytes (ent_encrypt_key e))"
    using k le_trans [OF _ utf16_le_utf8 [of "ent_encrypt_key e"]]
    by (auto simp: key_ok_def required_key_units_def required_key_length_def ascii_str_def split: if_splits)
  then obtain algo where a: "(if ent_encrypt_algo e = [] \<or> ent_encrypt_algo e = ascii_str ''null'' then Ok SrNone
            else if ent_encrypt_algo e = ascii_str ''aes128'' then Ok SrAes128
            else if ent_encrypt_algo e = ascii_str ''aes256'' then Ok SrAes256
            else Err (InvalidConfig ''unsanitized SR encryption algorithm {:?}'')) = Ok algo"
    and l: "required_key_length algo \<le> length (utf8_bytes (ent_encrypt_key e))" by blast
  from n obtain m where m: "ent_local_sr_id e = Some m" by blast
  show ?thesis unfolding entry_routing_config_def a rmapM_links [OF ls(1)] m
    using l links ls(2,3) by (simp add: ok_or_def sr_config_validate_def outer_cipher_new_def Let_def)
qed

definition line_usable :: "selected_ingress \<Rightarrow> client_config \<Rightarrow> bool" where
  "line_usable c cfg \<longleftrightarrow>
     (case c of
        SelIwan s _ \<Rightarrow> server cfg = server_endpoint s \<and> segment_routing cfg = None
      | SelSr _ e _ \<Rightarrow>
          entry_endpoint e = Ok (server cfg) \<and> config_mtu cfg = word_of_int (ing_mtu (ent_ingress e)) \<and>
          (\<exists>sr. segment_routing cfg = Some sr \<and> local_sr_id sr = ent_local_sr_id e))"

lemma entry_endpoint_good: "entry_good T e \<Longrightarrow> \<exists>ep. entry_endpoint e = Ok ep"
  by (auto simp: entry_good_def valid_sr_entry_def entry_endpoint_def format_endpoint_def)

lemma config_new_validate:
  assumes "576 \<le> config_mtu cfg \<and> config_mtu cfg \<le> 9000" "cfg = (config_new ep)\<lparr>config_mtu := m, segment_routing := r\<rparr>"
    and "\<And>sr. r = Some sr \<Longrightarrow> sr_config_validate sr = Ok ()"
  shows "config_validate resolver cfg = rmap (\<lambda>_. ()) (resolve_server resolver cfg)"
  using assms by (cases r) (simp_all add: config_validate_def config_new_def reconnect_default_def rmap_def)

lemma ingress_config_good:
  assumes "\<And>g e l. c = SelSr g e l \<Longrightarrow> entry_good T e"
  shows "\<exists>cfg. ingress_config c = Ok cfg \<and> line_usable c cfg \<and>
    config_validate resolver cfg = rmap (\<lambda>_. ()) (resolve_server resolver cfg)"
proof (cases c)
  case (SelIwan s l)
  have "config_new (server_endpoint s) = (config_new (server_endpoint s))\<lparr>config_mtu := 1400, segment_routing := None\<rparr>"
    by (simp add: config_new_def)
  from config_new_validate [OF _ this] show ?thesis by (simp add: SelIwan line_usable_def config_new_def)
next
  case (SelSr g e l)
  with assms have e: "entry_good T e" by blast
  from entry_sr_config [OF e] obtain sr where sr: "entry_routing_config e = Ok sr" "sr_config_validate sr = Ok ()" "local_sr_id sr = ent_local_sr_id e" by blast
  from entry_endpoint_good [OF e] obtain ep where ep: "entry_endpoint e = Ok ep" by blast
  have mtu: "576 \<le> ing_mtu (ent_ingress e)" "ing_mtu (ent_ingress e) \<le> 1500" using e by (simp_all add: entry_good_def)
  let ?cfg = "(config_new ep)\<lparr>config_mtu := word_of_int (ing_mtu (ent_ingress e)), segment_routing := Some sr\<rparr>"
  have "ingress_config c = Ok ?cfg" using mtu by (simp add: SelSr ep sr(1) Let_def)
  moreover have "config_validate resolver ?cfg = rmap (\<lambda>_. ()) (resolve_server resolver ?cfg)"
    by (rule config_new_validate [OF _ refl]) (use mtu_word [OF mtu] sr(2) in simp_all)
  moreover have "line_usable c ?cfg" by (simp add: SelSr line_usable_def ep sr(3) config_new_def)
  ultimately show ?thesis by blast
qed

section \<open>Which line is selected\<close>

text \<open>The latencies measured while a list of endpoints is pinged.\<close>

fun answered :: "pinger \<Rightarrow> ustr list \<Rightarrow> ustr list \<Rightarrow> duration list" where
  "answered ping log [] = []"
| "answered ping log (x # xs) =
     (case ping log x of Inr d \<Rightarrow> d # answered ping (log @ [x]) xs | Inl _ \<Rightarrow> answered ping (log @ [x]) xs)"

lemma answered_append: "answered ping log (xs @ ys) = answered ping log xs @ answered ping (log @ xs) ys"
  by (induction xs arbitrary: log) (auto split: sum.splits)

lemma ping_servers_spec:
  "\<exists>cs. ping_servers ping ss log = (cs, log @ map server_endpoint ss) \<and>
     map ingress_latency cs = answered ping log (map server_endpoint ss) \<and> (\<forall>c \<in> set cs. \<exists>s l. s \<in> set ss \<and> c = SelIwan s l)"
proof (induction ss arbitrary: log)
  case (Cons s ss)
  from Cons.IH [of "log @ [server_endpoint s]"] show ?case
    by (fastforce split: sum.splits)
qed simp

lemma ping_entries_spec:
  "\<exists>xs r. ping_entries ping g es err log = (r, log @ xs) \<and>
     answered ping log xs = (case r of Inr c \<Rightarrow> [ingress_latency c] | Inl _ \<Rightarrow> []) \<and>
     (\<forall>c. r = Inr c \<longrightarrow> (\<exists>e l. e \<in> set es \<and> c = SelSr g e l))"
proof (induction es arbitrary: err log)
  case (Cons e es)
  show ?case
  proof (cases "entry_endpoint e")
    case (Inl a)
    with Cons.IH [of "Some a" log] show ?thesis by auto
  next
    case (Inr ep)
    show ?thesis
    proof (cases "ping log ep")
      case (Inl a)
      from Cons.IH [of "Some a" "log @ [ep]"] obtain xs r where
        "ping_entries ping g es (Some a) (log @ [ep]) = (r, (log @ [ep]) @ xs)"
        "answered ping (log @ [ep]) xs = (case r of Inr c \<Rightarrow> [ingress_latency c] | Inl _ \<Rightarrow> [])"
        "\<forall>c. r = Inr c \<longrightarrow> (\<exists>e l. e \<in> set es \<and> c = SelSr g e l)" by blast
      with Inl Inr show ?thesis by (intro exI [of _ "ep # xs"] exI [of _ r]) auto
    next
      case (Inr d)
      with \<open>entry_endpoint e = Inr ep\<close> show ?thesis by (intro exI [of _ "[ep]"]) simp
    qed
  qed
qed simp

lemma ordered_entries_set: "set (ordered_sr_entries g) \<subseteq> set (sg_entries g)"
proof (cases "primary_of (sg_primary_index g) (sg_entries g) < length (sg_entries g)")
  case True
  then have "0 < length (sg_entries g)" by linarith
  from set_swap [OF this True] True show ?thesis by (simp add: ordered_sr_entries_def Let_def)
qed (simp add: ordered_sr_entries_def Let_def)

lemma ping_groups_spec:
  "\<exists>cs xs. ping_groups ping gs log = (cs, log @ xs) \<and> map ingress_latency cs = answered ping log xs \<and>
     (\<forall>c \<in> set cs. \<exists>g e l. g \<in> set gs \<and> e \<in> set (sg_entries g) \<and> c = SelSr (sg_id g) e l)"
proof (induction gs arbitrary: log)
  case (Cons g gs)
  from ping_entries_spec [of ping "sg_id g" "ordered_sr_entries g" None log] obtain xs r where
    1: "ping_entries ping (sg_id g) (ordered_sr_entries g) None log = (r, log @ xs)"
      "answered ping log xs = (case r of Inr c \<Rightarrow> [ingress_latency c] | Inl _ \<Rightarrow> [])"
      "\<forall>c. r = Inr c \<longrightarrow> (\<exists>e l. e \<in> set (sg_entries g) \<and> c = SelSr (sg_id g) e l)"
    using ordered_entries_set by blast
  from Cons.IH [of "log @ xs"] obtain cs ys where
    2: "ping_groups ping gs (log @ xs) = (cs, (log @ xs) @ ys)" "map ingress_latency cs = answered ping (log @ xs) ys"
      "\<forall>c \<in> set cs. \<exists>g e l. g \<in> set gs \<and> e \<in> set (sg_entries g) \<and> c = SelSr (sg_id g) e l" by blast
  show ?case
  proof (intro exI conjI)
    show "ping_groups ping (g # gs) log = ((case r of Inr c \<Rightarrow> c # cs | Inl _ \<Rightarrow> cs), log @ (xs @ ys))"
      by (simp add: 1(1) 2(1))
    show "map ingress_latency (case r of Inr c \<Rightarrow> c # cs | Inl _ \<Rightarrow> cs) = answered ping log (xs @ ys)"
      by (simp add: answered_append 1(2) 2(2) split: sum.splits)
    show "\<forall>c \<in> set (case r of Inr c \<Rightarrow> c # cs | Inl _ \<Rightarrow> cs). \<exists>g' e l. g' \<in> set (g # gs) \<and> e \<in> set (sg_entries g') \<and> c = SelSr (sg_id g') e l"
      using 1(3) 2(3) by (cases r) fastforce+
  qed
qed simp

definition from_lines :: "server_info list \<Rightarrow> sr_group list \<Rightarrow> selected_ingress \<Rightarrow> bool" where
  "from_lines ss gs c \<longleftrightarrow>
     (\<exists>s l. s \<in> set ss \<and> c = SelIwan s l) \<or> (\<exists>g e l. g \<in> set gs \<and> e \<in> set (sg_entries g) \<and> c = SelSr (sg_id g) e l)"

lemma select_with_spec:
  assumes "select_ingress_with ping ss gs log = (Ok c, log')"
  shows "from_lines ss gs c \<and> (\<exists>xs. log' = log @ map server_endpoint ss @ xs \<and>
    ingress_latency c \<in> set (answered ping log (map server_endpoint ss @ xs)) \<and>
    (\<forall>d \<in> set (answered ping log (map server_endpoint ss @ xs)). ingress_latency c \<le> d))"
proof -
  from ping_servers_spec [of ping ss log] obtain cs where
    1: "ping_servers ping ss log = (cs, log @ map server_endpoint ss)" "map ingress_latency cs = answered ping log (map server_endpoint ss)"
      "\<forall>c \<in> set cs. \<exists>s l. s \<in> set ss \<and> c = SelIwan s l" by blast
  from ping_groups_spec [of ping gs "log @ map server_endpoint ss"] obtain ds xs where
    2: "ping_groups ping gs (log @ map server_endpoint ss) = (ds, (log @ map server_endpoint ss) @ xs)"
      "map ingress_latency ds = answered ping (log @ map server_endpoint ss) xs"
      "\<forall>c \<in> set ds. \<exists>g e l. g \<in> set gs \<and> e \<in> set (sg_entries g) \<and> c = SelSr (sg_id g) e l" by blast
  from assms have m: "min_by_key ingress_latency (cs @ ds) = Some c" and l: "log' = log @ map server_endpoint ss @ xs"
    by (simp_all add: select_ingress_with_def 1(1) 2(1))
  have a: "answered ping log (map server_endpoint ss @ xs) = map ingress_latency (cs @ ds)"
    by (simp add: answered_append 1(2) 2(2))
  from min_by_key_least [OF m] have "c \<in> set (cs @ ds)" "\<forall>d \<in> set (cs @ ds). ingress_latency c \<le> ingress_latency d" by auto
  then have "from_lines ss gs c" "ingress_latency c \<in> set (map ingress_latency (cs @ ds))"
    "\<forall>d \<in> set (map ingress_latency (cs @ ds)). ingress_latency c \<le> d"
    unfolding from_lines_def using 1(3) 2(3) by auto
  with l show ?thesis unfolding a [symmetric] by blast
qed

lemma list_cases012:
  obtains "xs = []" | x where "xs = [x]" | x y ys where "xs = x # y # ys"
  by (cases xs rule: remdups_adj.cases) blast+

lemma select_ingress_from_lines:
  assumes "select_ingress T ping (Ok ss) (Ok gs) counter preference log = Some (Ok c, log')"
  shows "(preference = LineAuto \<or> ingress_preference c = preference) \<and>
    (\<exists>gs' counter'. from_lines ss gs' c \<and> (preference \<noteq> LineAuto \<and> (\<forall>g. preference \<noteq> LineSr g) \<and> gs' = [] \<or> sanitize_sr_groups T gs counter = Some (gs', counter')))"
proof (cases preference)
  case LineAuto
  with assms obtain gs' counter' where "sanitize_sr_groups T gs counter = Some (gs', counter')" "select_ingress_with ping ss gs' log = (Ok c, log')"
    by (auto simp: select_ingress_def)
  then show ?thesis using select_with_spec LineAuto by blast
next
  case (LineIwan server_id)
  with assms obtain s l where "find (\<lambda>s. si_id s = server_id) ss = Some s" "c = SelIwan s l"
    by (auto simp: select_ingress_def split: option.splits sum.splits)
  then show ?thesis using LineIwan by (auto simp: find_Some_iff from_lines_def intro!: exI [of _ "[]"])
next
  case (LineSr group_id)
  from assms [unfolded LineSr] obtain gs' counter' where s: "sanitize_sr_groups T gs counter = Some (gs', counter')"
    by (auto simp: select_ingress_def)
  with assms [unfolded LineSr] obtain g where g: "filter (\<lambda>g. sg_id g = group_id) gs' = [g]"
    by (cases "filter (\<lambda>g. sg_id g = group_id) gs'" rule: list_cases012) (auto simp: select_ingress_def)
  with assms [unfolded LineSr] s have c: "fst (select_sr_group_with ping g log) = Ok c"
    by (auto simp: select_ingress_def split: sum.splits prod.splits)
  have "g \<in> set (filter (\<lambda>g. sg_id g = group_id) gs')" by (simp add: g)
  then have "g \<in> set gs'" "sg_id g = group_id" by simp_all
  moreover from ping_entries_spec [of ping "sg_id g" "ordered_sr_entries g" None log] obtain xs r where
    "ping_entries ping (sg_id g) (ordered_sr_entries g) None log = (r, log @ xs)"
    "\<forall>c. r = Inr c \<longrightarrow> (\<exists>e l. e \<in> set (ordered_sr_entries g) \<and> c = SelSr (sg_id g) e l)" by blast
  with c obtain e l where "e \<in> set (ordered_sr_entries g)" "c = SelSr (sg_id g) e l"
    by (cases r) (auto simp: select_sr_group_with_def)
  ultimately show ?thesis using s LineSr ordered_entries_set [of g] by (auto simp: from_lines_def)
qed

lemma from_lines_good:
  assumes "from_lines ss gs c" "list_all (group_good T) gs" "c = SelSr g e l"
  shows "entry_good T e"
  using assms by (auto simp: from_lines_def group_good_def list_all_iff)

text \<open>C20 (selected line). A line that was asked for is the line that is used: a selection that succeeds is
  for the preferred server or group, and \<open>auto\<close> takes one of the lines the controller sent. Whatever line
  was selected, the client configuration of it can be built, has the endpoint, MTU and local identifier of
  that line, and passes the validation of the client as soon as the host name of the server resolves: the
  sanitizing leaves nothing for the later checks to refuse.\<close>

theorem selected_line_connects:
  assumes "select_ingress T ping (Ok ss) (Ok gs) counter preference log = Some (Ok c, log')" "entries_in_range gs"
  shows "(preference = LineAuto \<or> ingress_preference c = preference) \<and>
    (\<exists>cfg. ingress_config c = Ok cfg \<and> line_usable c cfg \<and>
      config_validate resolver cfg = rmap (\<lambda>_. ()) (resolve_server resolver cfg))"
proof -
  from select_ingress_from_lines [OF assms(1)] obtain gs' counter' where p: "preference = LineAuto \<or> ingress_preference c = preference"
    and f: "from_lines ss gs' c" and s: "gs' = [] \<or> sanitize_sr_groups T gs counter = Some (gs', counter')" by blast
  from s have "list_all (group_good T) gs'" using sanitize_spec assms(2) by fastforce
  then have "\<And>g e l. c = SelSr g e l \<Longrightarrow> entry_good T e" using from_lines_good [OF f] by blast
  then have "\<exists>cfg. ingress_config c = Ok cfg \<and> line_usable c cfg \<and>
      config_validate resolver cfg = rmap (\<lambda>_. ()) (resolve_server resolver cfg)" by (rule ingress_config_good)
  with p show ?thesis by blast
qed

text \<open>(fastest line). With the preference \<open>auto\<close> every traditional server is pinged, and the line selected is
  one that answered, with the least latency of all answers, those of the Segment Routing lines included.\<close>

theorem selected_line_fastest:
  assumes "select_ingress T ping (Ok ss) (Ok gs) counter LineAuto log = Some (Ok c, log')"
  shows "\<exists>xs. log' = log @ map server_endpoint ss @ xs \<and>
    ingress_latency c \<in> set (answered ping log (map server_endpoint ss @ xs)) \<and>
    (\<forall>d \<in> set (answered ping log (map server_endpoint ss @ xs)). ingress_latency c \<le> d)"
  using assms select_with_spec by (auto simp: select_ingress_def)

definition demo_line_server :: server_info where
  "demo_line_server = \<lparr>si_id = dec_int 4, si_name = [], si_name_en = [], si_server_name = [0x76], si_server_port = 443,
      si_is_auto = True, si_ip = None\<rparr>"

lemma demo_select:
  "\<exists>c log'. select_ingress demo_text (\<lambda>_ _. Ok 9) (Ok [demo_line_server]) (Ok [demo_sr_group]) 0 LineAuto [] = Some (Ok c, log')"
proof -
  have "entries_in_range [demo_sr_group]" "2 * length (concat (map sg_entries [demo_sr_group])) + 2 \<le> 2 ^ 32"
    by (auto simp: entries_in_range_def demo_sr_group_def demo_entry_def in_i32_def)
  from sanitize_total [OF this] obtain gs counter where "sanitize_sr_groups demo_text [demo_sr_group] 0 = Some (gs, counter)" by blast
  moreover from ping_groups_spec [of "\<lambda>_ _. Ok 9" gs "[server_endpoint demo_line_server]"] obtain cs xs where
    "ping_groups (\<lambda>_ _. Ok 9) gs [server_endpoint demo_line_server] = (cs, xs)" by blast
  ultimately show ?thesis by (auto simp: select_ingress_def select_ingress_with_def ok_or_def split: option.splits)
qed

theorem selected_line_connects_witness:
  "\<exists>c log' cfg. select_ingress demo_text (\<lambda>_ _. Ok 9) (Ok [demo_line_server]) (Ok [demo_sr_group]) 0 LineAuto [] = Some (Ok c, log') \<and>
     ingress_config c = Ok cfg \<and> config_validate (\<lambda>_. Inr [\<lparr>sa_ip = V4 1, sa_port = 443\<rparr>]) cfg = Ok ()"
proof -
  have r: "entries_in_range [demo_sr_group]" by (auto simp: entries_in_range_def demo_sr_group_def demo_entry_def in_i32_def)
  from demo_select obtain c log' where
    s: "select_ingress demo_text (\<lambda>_ _. Ok 9) (Ok [demo_line_server]) (Ok [demo_sr_group]) 0 LineAuto [] = Some (Ok c, log')" by blast
  from selected_line_connects [OF s r, of "\<lambda>_. Inr [\<lparr>sa_ip = V4 1, sa_port = 443\<rparr>]"] s show ?thesis by (auto simp: resolve_server_def rmap_def)
qed

theorem selected_line_fastest_witness:
  "\<exists>c log'. select_ingress demo_text (\<lambda>_ _. Ok 9) (Ok [demo_line_server]) (Ok [demo_sr_group]) 0 LineAuto [] = Some (Ok c, log') \<and>
     ingress_latency c \<le> 9"
proof -
  from demo_select obtain c log' where
    s: "select_ingress demo_text (\<lambda>_ _. Ok 9) (Ok [demo_line_server]) (Ok [demo_sr_group]) 0 LineAuto [] = Some (Ok c, log')" by blast
  from selected_line_fastest [OF s] s show ?thesis by auto
qed

section \<open>Line preferences as texts\<close>

definition line_text_ok :: "line_preference \<Rightarrow> bool" where
  "line_text_ok p \<longleftrightarrow>
     (case p of LineAuto \<Rightarrow> True | LineIwan s \<Rightarrow> (\<exists>n. in_i32 n \<and> n \<noteq> -1 \<and> s = dec_int n) | LineSr n \<Rightarrow> in_i32 n)"

lemma parse_dec_int: "in_i32 n \<Longrightarrow> parse_i32 (dec_int n) = Some n"
proof (cases "n < 0")
  case True
  assume "in_i32 n"
  with True show ?thesis using dec_digits [of "nat (- n)"] by (auto simp: parse_int_def dec_int_def in_i32_def Let_def)
next
  case False
  assume n: "in_i32 n"
  obtain c cs where d: "dec (nat n) = c # cs" using dec_nonempty [of "nat n"] by (cases "dec (nat n)") auto
  then have "is_digit c" using dec_char [of c "nat n"] by simp
  moreover have "parse_uint (2 ^ 31) (dec (nat n)) = Some (nat n)" using n False by (intro parse_uint_dec) (simp add: in_i32_def)
  ultimately show ?thesis using False d by (auto simp: parse_int_def dec_int_def is_digit_def)
qed

lemma dec_int_chars: "c \<in> set (dec_int n) \<Longrightarrow> is_digit c \<or> c = 0x2d"
  by (auto simp: dec_int_def dest: dec_char split: if_splits)

lemma dec_int_nonempty [simp]: "dec_int n \<noteq> []"
  by (simp add: dec_int_def)

lemma prefixed_id:
  assumes "k \<in> {ascii_str ''iwan'', ascii_str ''sr''}"
  shows "str_trim (k @ 0x3a # dec_int n) = k @ 0x3a # dec_int n" "split_once 0x3a (k @ 0x3a # dec_int n) = Some (k, dec_int n)"
    "\<not> eq_ignore_ascii_case (k @ 0x3a # dec_int n) (ascii_str ''auto'')" "to_ascii_lowercase k = k"
proof -
  have l: "\<not> is_whitespace (last (dec_int n))"
    using dec_int_chars [OF last_in_set [OF dec_int_nonempty [of n]]] by (auto simp: is_whitespace_def is_digit_def)
  show "str_trim (k @ 0x3a # dec_int n) = k @ 0x3a # dec_int n"
    using assms l by (auto simp: str_trim_def ascii_str_def dropWhile_hd_id hd_rev is_whitespace_def)
  show "split_once 0x3a (k @ 0x3a # dec_int n) = Some (k, dec_int n)"
    using assms by (intro split_once_append) (auto simp: ascii_str_def)
  show "\<not> eq_ignore_ascii_case (k @ 0x3a # dec_int n) (ascii_str ''auto'')" "to_ascii_lowercase k = k"
    using assms by (auto simp: eq_ignore_ascii_case_def ascii_str_def to_ascii_lowercase_def ascii_lower_char_def)
qed

lemma line_text_forms:
  "line_to_string (LineIwan s) = ascii_str ''iwan'' @ 0x3a # s" "line_to_string (LineSr n) = ascii_str ''sr'' @ 0x3a # dec_int n"
  by (simp_all add: line_to_string_def ascii_str_def)

text \<open>(line preference round trip). The text of a line preference is read back as that preference, for
  every preference a controller's lines give: \<open>auto\<close>, a server by its 32-bit identifier, which is never
  the reserved -1, and a Segment Routing group by any 32-bit identifier.\<close>

theorem line_preference_roundtrip:
  assumes "line_text_ok p"
  shows "line_from_str (line_to_string p) = Inr p"
proof (cases p)
  case LineAuto
  then show ?thesis
    by (simp add: line_from_str_def line_to_string_def ascii_str_def str_trim_def is_whitespace_def eq_ignore_ascii_case_def)
next
  case (LineIwan s)
  with assms obtain n where n: "in_i32 n" "n \<noteq> -1" "s = dec_int n" by (auto simp: line_text_ok_def)
  show ?thesis unfolding LineIwan line_text_forms n(3) line_from_str_def
    using n(2) by (simp add: prefixed_id parse_dec_int [OF n(1), simplified] Let_def opt_filter_def)
next
  case (LineSr n)
  with assms have n: "in_i32 n" by (simp add: line_text_ok_def)
  have "ascii_str ''sr'' \<noteq> ascii_str ''iwan''" by (simp add: ascii_str_def)
  then show ?thesis unfolding LineSr line_text_forms line_from_str_def
    by (simp add: prefixed_id parse_dec_int [OF n, simplified] Let_def)
qed

theorem line_preference_roundtrip_witness:
  "line_from_str (line_to_string (LineIwan (dec_int (-12)))) = Inr (LineIwan (dec_int (-12)))"
  by (rule line_preference_roundtrip) (simp add: line_text_ok_def, rule exI [of _ "-12"], simp add: in_i32_def)

end
