(* ===== verification/Managed_Auth.thy ===== *)
theory Managed_Auth
  imports Managed_Posture
begin

text \<open>
  Authentication of a managed domain (\<open>src/managed/auth.rs\<close>, \<open>src/managed/oidc.rs\<close>): the question which
  method a domain uses, and the authorization code flow with PKCE for domains that use OpenID Connect.

  Of the crates \<open>url\<close> and \<open>base64\<close> the parameter \<open>oidc_lib\<close> has what is used here beside the parser; it
  also has the decoders that \<open>serde\<close> derives for the two token answers. Random bytes and the clock are
  arguments.
\<close>

section \<open>The authentication method\<close>

datatype auth_method = MethodCredential | MethodOidc

record controller_oidc_config =
  oc_authorization_url :: ustr
  oc_token_url :: ustr
  oc_userinfo_endpoint :: "ustr option"
  oc_discovery_url :: "ustr option"
  oc_client_id :: ustr
  oc_kc_idp_hint :: "ustr option"
  oc_provider_hint :: "ustr option"
  oc_issuer :: "ustr option"
  oc_parameters :: json_object
  oc_metadata :: json_object

record controller_auth =
  ca_version :: "ustr option"
  ca_method :: auth_method
  ca_oidc :: "controller_oidc_config option"
  ca_keepalive :: "json option"
  ca_raw :: json

definition credential_auth :: controller_auth where
  "credential_auth = \<lparr>ca_version = None, ca_method = MethodCredential, ca_oidc = None, ca_keepalive = None, ca_raw = JNull\<rparr>"

definition optional_nonempty :: "json_object \<Rightarrow> string \<Rightarrow> ustr option" where
  "optional_nonempty m name = opt_filter (\<lambda>v. v \<noteq> []) (opt_and_then (obj_get m name) as_str)"

definition required_nonempty :: "json_object \<Rightarrow> string \<Rightarrow> ustr result" where
  "required_nonempty m name = ok_or (Controller ''OIDC config is missing {name}'') (optional_nonempty m name)"

definition optional_object :: "json_object \<Rightarrow> string \<Rightarrow> json_object" where
  "optional_object m name = opt_unwrap_or [] (opt_and_then (obj_get m name) as_object)"

definition validate_https :: "sec_lib \<Rightarrow> ustr \<Rightarrow> unit result" where
  "validate_https S v =
     (case url_parse S v of
        None \<Rightarrow> Err (Controller ''invalid {name}: {error}'')
      | Some u \<Rightarrow>
          if \<not> https_only u
          then Err (Controller ''{name} must be an HTTPS URL without credentials or a fragment'')
          else Ok ())"

definition validate_optional :: "sec_lib \<Rightarrow> ustr option \<Rightarrow> unit result" where
  "validate_optional S v = (case v of None \<Rightarrow> Ok () | Some u \<Rightarrow> validate_https S u)"

definition parse_oidc :: "sec_lib \<Rightarrow> json_object \<Rightarrow> controller_oidc_config result" where
  "parse_oidc S m =
     rbind (required_nonempty m ''authorization_endpoint'') (\<lambda>authorization_url.
     rbind (required_nonempty m ''token_endpoint'') (\<lambda>token_url.
     rbind (required_nonempty m ''client_id'') (\<lambda>client_id.
     rbind (validate_https S authorization_url) (\<lambda>_.
     rbind (validate_https S token_url) (\<lambda>_.
     let parameters = optional_object m ''parameters''; metadata = optional_object m ''metadata'';
         userinfo_endpoint = optional_nonempty m ''userinfo_endpoint''
     in
     rbind (validate_optional S userinfo_endpoint) (\<lambda>_.
     let discovery_url = optional_nonempty m ''discoveryUrl'' in
     rbind (validate_optional S discovery_url) (\<lambda>_.
     Ok \<lparr>oc_authorization_url = authorization_url, oc_token_url = token_url,
         oc_userinfo_endpoint = userinfo_endpoint, oc_discovery_url = discovery_url, oc_client_id = client_id,
         oc_kc_idp_hint = optional_nonempty m ''kc_idp_hint'', oc_provider_hint = optional_nonempty m ''provider_hint'',
         oc_issuer = optional_nonempty m ''issuer'', oc_parameters = parameters, oc_metadata = metadata\<rparr>)))))))"

definition auth_parse_response :: "sec_lib \<Rightarrow> json \<Rightarrow> controller_auth result" where
  "auth_parse_response S v =
     rbind (ok_or (Controller ''auth response must be an object'') (as_object v)) (\<lambda>root.
     rbind (ok_or (Controller ''auth response has no auth object'') (opt_and_then (obj_get root ''auth'') as_object)) (\<lambda>m.
     rbind (ok_or (Controller ''auth response has no method'') (opt_and_then (obj_get m ''method'') as_str)) (\<lambda>name.
     rbind (if to_ascii_lowercase name = ascii_str ''credential'' then Ok MethodCredential
            else if to_ascii_lowercase name = ascii_str ''oidc'' then Ok MethodOidc
            else Err (Controller ''invalid auth method {method:?}'')) (\<lambda>m_method.
     rbind (case m_method of
              MethodCredential \<Rightarrow> Ok None
            | MethodOidc \<Rightarrow>
                rbind (ok_or (Controller ''method=oidc response has no oidc object'')
                         (opt_and_then (obj_get m ''oidc'') as_object)) (\<lambda>o_m.
                rmap Some (parse_oidc S o_m))) (\<lambda>oidc.
     Ok \<lparr>ca_version = opt_and_then (obj_get root ''version'') as_str, ca_method = m_method, ca_oidc = oidc,
         ca_keepalive = obj_get root ''keepalive'', ca_raw = v\<rparr>)))))"

text \<open>The platform name: the systems modelled are the desktop ones.\<close>

definition client_platform :: "target_os \<Rightarrow> ustr" where
  "client_platform os =
     (case os of MacOs \<Rightarrow> ascii_str ''macos'' | Windows \<Rightarrow> ascii_str ''windows'' | Linux \<Rightarrow> ascii_str ''android'')"

definition auth_endpoint :: "sec_lib \<Rightarrow> lookup_result \<Rightarrow> ustr result" where
  "auth_endpoint S lookup =
     rbind (ok_or (Controller ''controller lookup has no auth URL'') (auth_url lookup)) (\<lambda>endpoint.
     case url_parse S endpoint of
       None \<Rightarrow> Err (Controller ''invalid auth URL: {error}'')
     | Some u \<Rightarrow> if \<not> https_only u then Err (Controller ''auth URL must use HTTPS'') else Ok endpoint)"

definition auth_request :: "ustr \<Rightarrow> ustr \<Rightarrow> ustr \<Rightarrow> json" where
  "auth_request domain client_type device_id = JObject
     [(ascii_str ''domain'', JString domain), (ascii_str ''type'', JString client_type),
      (ascii_str ''oem_name'', JString (ascii_str ''panabit'')), (ascii_str ''device_id'', JString device_id)]"

text \<open>The answer to one attempt: an authentication, or the error to remember and whether the
  attempts end with it.\<close>

definition auth_answer :: "json_lib \<Rightarrow> sec_lib \<Rightarrow> http_response result \<Rightarrow> (error \<times> bool) + controller_auth" where
  "auth_answer J S answer =
     (case answer of
        Inl e \<Rightarrow> Inl (e, False)
      | Inr response \<Rightarrow>
          if rsp_status response = 200 then
            (case rbind (ok_or (Controller ''invalid auth response: {error}'') (json_from_slice J (rsp_body response)))
                    (auth_parse_response S) of
               Inr a \<Rightarrow> Inr a
             | Inl e \<Rightarrow> Inl (e, False))
          else
            Inl (if rsp_status response = 401 then ControllerUnauthorized
                 else Controller ''auth returned HTTP {status}'',
                 400 \<le> rsp_status response \<and> rsp_status response \<le> 499))"

fun auth_attempts ::
  "json_lib \<Rightarrow> sec_lib \<Rightarrow> (nat \<Rightarrow> stamp) \<Rightarrow> transport \<Rightarrow> ustr \<Rightarrow> ustr \<Rightarrow> bytes \<Rightarrow> nat \<Rightarrow> error option \<Rightarrow> http_request list \<Rightarrow>
     controller_auth result \<times> http_request list" where
  "auth_attempts J S stamps T endpoint ident content 0 last_error log =
     (Err (opt_unwrap_or (Controller ''auth request failed'') last_error), log)"
| "auth_attempts J S stamps T endpoint ident content (Suc n) last_error log =
     (case controller_api_headers S (stamps (length log)) ''POST'' endpoint content ident of
        Inl e \<Rightarrow> (Err e, log)
      | Inr auth_hs \<Rightarrow>
          let request = \<lparr>req_method = ''POST'', req_url = endpoint, req_headers = lookup_headers auth_hs,
                         req_body = content, req_timeout = None\<rparr>
          in
          (case auth_answer J S (T log request) of
             Inr a \<Rightarrow> (Ok a, log @ [request])
           | Inl (e, stop) \<Rightarrow>
               if stop then (Err e, log @ [request])
               else auth_attempts J S stamps T endpoint ident content n (Some e) (log @ [request])))"

definition auth_fetch ::
  "json_lib \<Rightarrow> sec_lib \<Rightarrow> target_os \<Rightarrow> (nat \<Rightarrow> stamp) \<Rightarrow> transport \<Rightarrow> lookup_result \<Rightarrow> ustr \<Rightarrow> http_request list \<Rightarrow>
     controller_auth result \<times> http_request list" where
  "auth_fetch J S os stamps T lookup device_id log =
     (if lr_service_type lookup \<noteq> ControllerService then (Ok credential_auth, log)
      else if device_id = [] then (Err (Controller ''auth request device_id must not be empty''), log)
      else
        (case rbind (auth_endpoint S lookup) (\<lambda>endpoint.
              rbind (ok_or (Controller ''controller lookup has no app_id'') (controller_app_id lookup)) (\<lambda>ident.
              rbind (ok_or (Controller ''serialize auth request: {error}'')
                       (json_to_vec J (auth_request (active_domain lookup) (client_platform os) device_id))) (\<lambda>content.
              Ok (endpoint, ident, content)))) of
           Inl e \<Rightarrow> (Err e, log)
         | Inr (endpoint, ident, content) \<Rightarrow> auth_attempts J S stamps T endpoint ident content 3 None log))"

definition fetch_or_credential ::
  "json_lib \<Rightarrow> sec_lib \<Rightarrow> target_os \<Rightarrow> (nat \<Rightarrow> stamp) \<Rightarrow> transport \<Rightarrow> lookup_result \<Rightarrow> ustr \<Rightarrow> http_request list \<Rightarrow>
     controller_auth \<times> http_request list" where
  "fetch_or_credential J S os stamps T lookup device_id log =
     (case auth_fetch J S os stamps T lookup device_id log of
        (Inr a, log) \<Rightarrow> (a, log)
      | (Inl _, log) \<Rightarrow> (credential_auth, log))"

section \<open>OpenID Connect configurations\<close>

record oidc_config =
  oi_authorization_endpoint :: ustr
  oi_token_endpoint :: ustr
  oi_client_id :: ustr
  oi_redirect_uri :: ustr
  oi_scopes :: "ustr list"
  oi_organization :: ustr
  oi_provider :: ustr
  oi_additional :: "(ustr \<times> ustr) list"

text \<open>Collecting pairs into a \<open>BTreeMap\<close> (a later pair replaces an earlier one) and removing a key.\<close>

definition btree_collect :: "(ustr \<times> 'v) list \<Rightarrow> (ustr \<times> 'v) list" where
  "btree_collect ps = foldl (\<lambda>m (k, v). entry_or_insert k v m) [] (rev ps)"

definition btree_remove :: "ustr \<Rightarrow> (ustr \<times> 'v) list \<Rightarrow> 'v option \<times> (ustr \<times> 'v) list" where
  "btree_remove k m = (map_of m k, filter (\<lambda>(k', _). k' \<noteq> k) m)"

definition split_ascii_whitespace :: "ustr \<Rightarrow> ustr list" where
  "split_ascii_whitespace s =
     filter (\<lambda>w. w \<noteq> [])
       (split_char 0x20 (map (\<lambda>c. if c \<in> {0x09, 0x0a, 0x0c, 0x0d, 0x20} then 0x20 else c) s))"

definition default_scopes :: "ustr list" where
  "default_scopes = [ascii_str ''openid'', ascii_str ''profile'', ascii_str ''email'']"

definition provider_config :: "controller_oidc_config \<Rightarrow> ustr \<Rightarrow> oidc_config" where
  "provider_config c redirect_uri =
     (let ps = btree_collect (List.map_filter (\<lambda>(k, v). map_option (Pair k) (as_str v)) (oc_parameters c));
          ps = (case oc_kc_idp_hint c of None \<Rightarrow> ps | Some hint \<Rightarrow> entry_or_insert (ascii_str ''kc_idp_hint'') hint ps);
          (organization, ps) = btree_remove (ascii_str ''organization'') ps;
          (scope, ps) = btree_remove (ascii_str ''scope'') ps;
          scopes = opt_unwrap_or default_scopes
                     (opt_filter (\<lambda>ss. ss \<noteq> []) (map_option split_ascii_whitespace scope));
          (provider, ps) =
            (case oc_provider_hint c of
               Some p \<Rightarrow> (Some p, ps)
             | None \<Rightarrow>
                 (case btree_remove (ascii_str ''provider_hint'') ps of
                    (Some p, ps) \<Rightarrow> (Some p, ps)
                  | (None, ps) \<Rightarrow> btree_remove (ascii_str ''provider'') ps))
      in \<lparr>oi_authorization_endpoint = oc_authorization_url c, oi_token_endpoint = oc_token_url c,
          oi_client_id = oc_client_id c, oi_redirect_uri = redirect_uri, oi_scopes = scopes,
          oi_organization = opt_unwrap_or [] organization, oi_provider = opt_unwrap_or [] provider,
          oi_additional = ps\<rparr>)"

definition parse_https_url :: "sec_lib \<Rightarrow> ustr \<Rightarrow> url result" where
  "parse_https_url S v =
     (case url_parse S v of
        None \<Rightarrow> Err (Oidc ''invalid {name}: {error}'')
      | Some u \<Rightarrow>
          if \<not> https_only u then Err (Oidc ''{name} must be an HTTPS URL without credentials or a fragment'')
          else Ok u)"

definition oidc_config_validate :: "sec_lib \<Rightarrow> oidc_config \<Rightarrow> unit result" where
  "oidc_config_validate S c =
     (if str_trim (oi_client_id c) = [] \<or> str_trim (oi_redirect_uri c) = []
      then Err (Oidc ''{name} must not be empty'')
      else if \<not> list_ex (\<lambda>s. s = ascii_str ''openid'') (oi_scopes c)
      then Err (Oidc ''OIDC scopes must include openid'')
      else
        rbind (parse_https_url S (oi_authorization_endpoint c)) (\<lambda>_.
        rbind (parse_https_url S (oi_token_endpoint c)) (\<lambda>_.
        case url_parse S (oi_redirect_uri c) of
          None \<Rightarrow> Err (Oidc ''invalid redirect URI: {error}'')
        | Some redirect \<Rightarrow>
            if url_scheme redirect = [] \<or> url_query redirect \<noteq> None \<or> url_fragment redirect \<noteq> None
            then Err (Oidc ''redirect URI must have a scheme and no query or fragment'')
            else Ok ())))"

section \<open>The authorization code flow\<close>

record token_response =
  tk_access_token :: ustr
  tk_refresh_token :: ustr
  tk_id_token :: ustr
  tk_expires_in :: "int option"

record refresh_response =
  rf_access_token :: ustr
  rf_refresh_token :: ustr
  rf_expires_in :: "int option"

record oidc_lib =
  token_from_slice :: "bytes \<Rightarrow> token_response option"
  refresh_from_slice :: "bytes \<Rightarrow> refresh_response option"
  url_port :: "ustr \<Rightarrow> u16 option" \<comment> \<open>the port of the URL of a text\<close>
  query_pairs :: "ustr option \<Rightarrow> (ustr \<times> ustr) list" \<comment> \<open>the decoded pairs of a query\<close>
  append_pairs :: "ustr \<Rightarrow> (ustr \<times> ustr) list \<Rightarrow> ustr" \<comment> \<open>a URL with pairs added to its query\<close>
  form_serialize :: "(ustr \<times> ustr) list \<Rightarrow> bytes"
  base64url_encode :: "bytes \<Rightarrow> ustr"
  base64url_decode :: "ustr \<Rightarrow> bytes option"
  base64url_decode_padded :: "ustr \<Rightarrow> bytes option"

record pending_authorization =
  pa_authorization_url :: ustr
  pa_token_endpoint :: ustr
  pa_state :: ustr
  pa_nonce :: ustr
  pa_code_verifier :: ustr

record oidc_identity =
  id_access_token :: ustr
  id_refresh_token :: ustr
  id_user_id :: ustr
  id_username :: ustr
  id_expires_at :: int

text \<open>The random bytes that \<open>begin\<close> draws, in their order.\<close>

record oidc_random =
  rnd_verifier :: bytes
  rnd_state :: bytes
  rnd_nonce :: bytes

definition authorization_pairs :: "oidc_config \<Rightarrow> ustr \<Rightarrow> ustr \<Rightarrow> ustr \<Rightarrow> (ustr \<times> ustr) list" where
  "authorization_pairs c challenge state nonce =
     [(ascii_str ''client_id'', oi_client_id c), (ascii_str ''redirect_uri'', oi_redirect_uri c),
      (ascii_str ''response_type'', ascii_str ''code''), (ascii_str ''scope'', join_with [0x20] (oi_scopes c)),
      (ascii_str ''code_challenge'', challenge), (ascii_str ''code_challenge_method'', ascii_str ''S256''),
      (ascii_str ''state'', state), (ascii_str ''nonce'', nonce)] @
     (if oi_organization c \<noteq> [] then [(ascii_str ''organization'', oi_organization c)] else []) @
     (if oi_provider c \<noteq> [] then [(ascii_str ''provider'', oi_provider c)] else []) @
     oi_additional c"

definition oidc_begin :: "sec_lib \<Rightarrow> oidc_lib \<Rightarrow> oidc_random \<Rightarrow> oidc_config \<Rightarrow> pending_authorization result" where
  "oidc_begin S L rnd c =
     (let code_verifier = base64url_encode L (rnd_verifier rnd);
          code_challenge = base64url_encode L (sha256 S (utf8_bytes code_verifier));
          state = base64url_encode L (rnd_state rnd);
          nonce = base64url_encode L (rnd_nonce rnd)
      in
      rbind (parse_https_url S (oi_authorization_endpoint c)) (\<lambda>_.
      Ok \<lparr>pa_authorization_url = append_pairs L (oi_authorization_endpoint c) (authorization_pairs c code_challenge state nonce),
          pa_token_endpoint = oi_token_endpoint c, pa_state = state, pa_nonce = nonce, pa_code_verifier = code_verifier\<rparr>))"

definition validate_redirect_uri :: "sec_lib \<Rightarrow> oidc_lib \<Rightarrow> ustr \<Rightarrow> ustr \<Rightarrow> url \<Rightarrow> unit result" where
  "validate_redirect_uri S L expected_text actual_text actual =
     (case url_parse S expected_text of
        None \<Rightarrow> Err (Oidc ''invalid configured redirect URI: {error}'')
      | Some expected \<Rightarrow>
          if url_scheme expected \<noteq> url_scheme actual \<or> url_username expected \<noteq> url_username actual \<or>
             url_password expected \<noteq> url_password actual \<or> url_host expected \<noteq> url_host actual \<or>
             url_port L expected_text \<noteq> url_port L actual_text \<or> url_path expected \<noteq> url_path actual \<or>
             url_fragment actual \<noteq> None
          then Err (Oidc ''callback URL does not match the configured redirect URI'')
          else Ok ())"

definition token_request_body :: "oidc_lib \<Rightarrow> oidc_config \<Rightarrow> ustr \<Rightarrow> ustr \<Rightarrow> bytes" where
  "token_request_body L c code code_verifier =
     form_serialize L
       [(ascii_str ''client_id'', oi_client_id c), (ascii_str ''code'', code), (ascii_str ''code_verifier'', code_verifier),
        (ascii_str ''redirect_uri'', oi_redirect_uri c), (ascii_str ''grant_type'', ascii_str ''authorization_code'')]"

definition parse_jwt_payload :: "json_lib \<Rightarrow> oidc_lib \<Rightarrow> ustr \<Rightarrow> json result" where
  "parse_jwt_payload J L jwt =
     (case split_char 0x2e jwt of
        [] \<Rightarrow> Err (Oidc ''ID token has no header'')
      | hd_segment # rest \<Rightarrow>
          if hd_segment = [] then Err (Oidc ''ID token has no header'')
          else (case rest of
            [] \<Rightarrow> Err (Oidc ''ID token has no payload'')
          | payload # rest \<Rightarrow>
              if payload = [] then Err (Oidc ''ID token has no payload'')
              else (case rest of
                [] \<Rightarrow> Err (Oidc ''ID token has no signature segment'')
              | _ # rest \<Rightarrow>
                  if rest \<noteq> [] then Err (Oidc ''ID token has too many segments'')
                  else
                    rbind (ok_or (Oidc ''invalid ID token payload encoding: {error}'')
                             (or_else (base64url_decode L payload) (base64url_decode_padded L payload))) (\<lambda>decoded.
                    rbind (ok_or (Oidc ''invalid ID token payload: {error}'') (json_from_slice J decoded)) (\<lambda>claims.
                    if as_object claims = None then Err (Oidc ''JWT payload must be an object'') else Ok claims)))))"

definition parse_id_token :: "json_lib \<Rightarrow> oidc_lib \<Rightarrow> ustr \<Rightarrow> ustr \<Rightarrow> json result" where
  "parse_id_token J L jwt expected_nonce =
     rbind (parse_jwt_payload J L jwt) (\<lambda>claims.
     rbind (ok_or (Oidc ''ID token has no nonce'') (opt_and_then (json_get claims ''nonce'') as_str)) (\<lambda>nonce.
     if utf8_bytes nonce \<noteq> utf8_bytes expected_nonce then Err (Oidc ''ID token nonce mismatch'') else Ok claims))"

fun username_claim :: "json \<Rightarrow> string list \<Rightarrow> ustr option" where
  "username_claim claims [] = None"
| "username_claim claims (name # names) =
     (case opt_filter (\<lambda>v. str_trim v \<noteq> []) (opt_and_then (json_get claims name) as_str) of
        Some v \<Rightarrow> Some v
      | None \<Rightarrow> username_claim claims names)"

definition extract_username :: "json \<Rightarrow> ustr result" where
  "extract_username claims =
     ok_or (Oidc ''ID token does not contain a supported username claim'')
       (username_claim claims [''preferred_username'', ''email'', ''sub''])"

text \<open>The clock is the number of seconds since 1970, an \<open>i64\<close>.\<close>

definition granted_expiry :: "int \<Rightarrow> int option \<Rightarrow> int option" where
  "granted_expiry now expires_in =
     opt_and_then (opt_filter (\<lambda>s. s > 0) expires_in) (\<lambda>s. if in_i64 (now + s) then Some (now + s) else None)"

definition jwt_expiry :: "json_lib \<Rightarrow> oidc_lib \<Rightarrow> ustr \<Rightarrow> int option" where
  "jwt_expiry J L jwt =
     (case parse_jwt_payload J L jwt of Inl _ \<Rightarrow> None | Inr claims \<Rightarrow> opt_and_then (json_get claims ''exp'') as_i64)"

definition form_request :: "ustr \<Rightarrow> bytes \<Rightarrow> http_request" where
  "form_request endpoint content =
     \<lparr>req_method = ''POST'', req_url = endpoint,
      req_headers = [(ascii_str ''Content-Type'', ascii_str ''application/x-www-form-urlencoded'')],
      req_body = content, req_timeout = None\<rparr>"

text \<open>The checks on the callback, up to the authorization code. A \<open>HashMap\<close> keeps the last value of a name.\<close>

definition callback_code :: "sec_lib \<Rightarrow> oidc_lib \<Rightarrow> oidc_config \<Rightarrow> pending_authorization \<Rightarrow> ustr \<Rightarrow> ustr result" where
  "callback_code S L c p redirect_url =
     (case url_parse S redirect_url of
        None \<Rightarrow> Err (Oidc ''invalid callback URL: {error}'')
      | Some redirect \<Rightarrow>
          rbind (validate_redirect_uri S L (oi_redirect_uri c) redirect_url redirect) (\<lambda>_.
          let query = map_of (rev (query_pairs L (url_query redirect))) in
          if query (ascii_str ''error'') \<noteq> None then Err (Oidc ''authorization server returned {error}: {description}'')
          else
            rbind (ok_or (Oidc ''callback URL has no state'') (query (ascii_str ''state''))) (\<lambda>returned_state.
            if utf8_bytes returned_state \<noteq> utf8_bytes (pa_state p) then Err (Oidc ''callback state mismatch'')
            else ok_or (Oidc ''callback URL has no authorization code'') (query (ascii_str ''code'')))))"

definition token_identity ::
  "json_lib \<Rightarrow> oidc_lib \<Rightarrow> pending_authorization \<Rightarrow> int \<Rightarrow> http_response \<Rightarrow> oidc_identity result" where
  "token_identity J L p now response =
     (if rsp_status response \<noteq> 200 then Err (Oidc ''token endpoint returned HTTP {}'')
      else
        rbind (ok_or (Oidc ''invalid token response: {error}'') (token_from_slice L (rsp_body response))) (\<lambda>tk.
        if tk_access_token tk = [] \<or> tk_id_token tk = []
        then Err (Oidc ''token response is missing access_token or id_token'')
        else
          rbind (parse_id_token J L (tk_id_token tk) (pa_nonce p)) (\<lambda>claims.
          rbind (extract_username claims) (\<lambda>username.
          rbind (ok_or (Oidc ''ID token has no subject'')
                   (opt_filter (\<lambda>v. v \<noteq> []) (opt_and_then (json_get claims ''sub'') as_str))) (\<lambda>user_id.
          rbind (ok_or (Oidc ''token response has no expiry'')
                   (or_else (granted_expiry now (tk_expires_in tk))
                     (or_else (jwt_expiry J L (tk_access_token tk))
                       (opt_and_then (json_get claims ''exp'') as_i64)))) (\<lambda>expires_at.
          Ok \<lparr>id_access_token = tk_access_token tk, id_refresh_token = tk_refresh_token tk, id_user_id = user_id,
              id_username = username, id_expires_at = expires_at\<rparr>))))))"

definition oidc_complete ::
  "json_lib \<Rightarrow> sec_lib \<Rightarrow> oidc_lib \<Rightarrow> int \<Rightarrow> transport \<Rightarrow> oidc_config \<Rightarrow> pending_authorization \<Rightarrow> ustr \<Rightarrow> http_request list \<Rightarrow>
     oidc_identity result \<times> http_request list" where
  "oidc_complete J S L now T c p redirect_url log =
     (case callback_code S L c p redirect_url of
        Inl e \<Rightarrow> (Err e, log)
      | Inr code \<Rightarrow>
          let request = form_request (pa_token_endpoint p) (token_request_body L c code (pa_code_verifier p))
          in (rbind (T log request) (token_identity J L p now), log @ [request]))"

definition saturating_add_i64 :: "int \<Rightarrow> int \<Rightarrow> int" where
  "saturating_add_i64 a b = max (- (2 ^ 63)) (min (2 ^ 63 - 1) (a + b))"

definition refresh_identity ::
  "json_lib \<Rightarrow> oidc_lib \<Rightarrow> ustr \<Rightarrow> ustr \<Rightarrow> ustr \<Rightarrow> int \<Rightarrow> http_response \<Rightarrow> oidc_identity result" where
  "refresh_identity J L refresh_token user_id username now response =
     (if rsp_status response \<noteq> 200 then Err (Oidc ''refresh token endpoint returned HTTP {}; perform a fresh login'')
      else
        rbind (ok_or (Oidc ''invalid refresh token response: {error}'') (refresh_from_slice L (rsp_body response))) (\<lambda>tk.
        if rf_access_token tk = [] then Err (Oidc ''refresh token response is missing access_token'')
        else
          Ok \<lparr>id_access_token = rf_access_token tk,
              id_refresh_token = (if rf_refresh_token tk = [] then refresh_token else rf_refresh_token tk),
              id_user_id = user_id, id_username = username,
              id_expires_at = opt_unwrap_or (saturating_add_i64 now 300)
                (or_else (granted_expiry now (rf_expires_in tk)) (jwt_expiry J L (rf_access_token tk)))\<rparr>))"

definition oidc_refresh ::
  "json_lib \<Rightarrow> sec_lib \<Rightarrow> oidc_lib \<Rightarrow> int \<Rightarrow> transport \<Rightarrow> oidc_config \<Rightarrow> ustr \<Rightarrow> ustr \<Rightarrow> ustr \<Rightarrow> http_request list \<Rightarrow>
     oidc_identity result \<times> http_request list" where
  "oidc_refresh J S L now T c refresh_token user_id username log =
     (case oidc_config_validate S c of
        Inl e \<Rightarrow> (Err e, log)
      | Inr _ \<Rightarrow>
          if refresh_token = [] \<or> user_id = [] \<or> username = []
          then (Err (Oidc ''saved OIDC authentication is incomplete; perform a fresh login''), log)
          else
            let request = form_request (oi_token_endpoint c) (form_serialize L
                  [(ascii_str ''client_id'', oi_client_id c), (ascii_str ''grant_type'', ascii_str ''refresh_token''),
                   (ascii_str ''refresh_token'', refresh_token)])
            in (rbind (T log request) (refresh_identity J L refresh_token user_id username now), log @ [request]))"

section \<open>Properties\<close>

definition is_https :: "sec_lib \<Rightarrow> ustr \<Rightarrow> bool" where
  "is_https S v \<longleftrightarrow> (case url_parse S v of None \<Rightarrow> False | Some u \<Rightarrow> https_only u)"

lemma validate_https_iff: "validate_https S v = Ok () \<longleftrightarrow> is_https S v"
  by (auto simp: validate_https_def is_https_def split: option.splits)

lemma parse_https_url_iff: "(\<exists>u. parse_https_url S v = Ok u) \<longleftrightarrow> is_https S v"
  by (auto simp: parse_https_url_def is_https_def split: option.splits)

definition oidc_endpoints_https :: "sec_lib \<Rightarrow> controller_oidc_config \<Rightarrow> bool" where
  "oidc_endpoints_https S c \<longleftrightarrow>
     is_https S (oc_authorization_url c) \<and> is_https S (oc_token_url c) \<and> oc_client_id c \<noteq> [] \<and>
     pred_option (is_https S) (oc_userinfo_endpoint c) \<and> pred_option (is_https S) (oc_discovery_url c)"

lemma validate_optional_iff: "validate_optional S v = Ok () \<longleftrightarrow> pred_option (is_https S) v"
  by (cases v) (simp_all add: validate_optional_def validate_https_iff)

lemma required_nonempty_OkD: "required_nonempty m name = Ok v \<Longrightarrow> v \<noteq> []"
  by (simp add: required_nonempty_def optional_nonempty_def)

lemma parse_oidc_https:
  assumes "parse_oidc S m = Ok c"
  shows "oidc_endpoints_https S c"
proof -
  from assms obtain u where "validate_https S (oc_authorization_url c) = Ok ()" "validate_https S (oc_token_url c) = Ok ()"
    "required_nonempty m ''client_id'' = Ok (oc_client_id c)" "validate_optional S (oc_userinfo_endpoint c) = Ok ()"
    "validate_optional S (oc_discovery_url c) = Ok ()"
    unfolding parse_oidc_def Let_def rbind_eq_Ok by fastforce
  then show ?thesis
    using required_nonempty_OkD by (simp add: oidc_endpoints_https_def validate_https_iff validate_optional_iff)
qed

definition auth_ok :: "sec_lib \<Rightarrow> controller_auth \<Rightarrow> bool" where
  "auth_ok S a \<longleftrightarrow>
     (case ca_method a of
        MethodCredential \<Rightarrow> ca_oidc a = None
      | MethodOidc \<Rightarrow> (case ca_oidc a of None \<Rightarrow> False | Some c \<Rightarrow> oidc_endpoints_https S c))"

lemma auth_parse_ok:
  assumes "auth_parse_response S v = Ok a"
  shows "auth_ok S a"
proof -
  from assms obtain m_method oidc m where "ca_method a = m_method" "ca_oidc a = oidc"
    "(case m_method of MethodCredential \<Rightarrow> Ok None
      | MethodOidc \<Rightarrow> rbind (ok_or (Controller ''method=oidc response has no oidc object'')
                         (opt_and_then (obj_get m ''oidc'') as_object)) (\<lambda>o_m. rmap Some (parse_oidc S o_m))) = Ok oidc"
    by (auto simp: auth_parse_response_def rbind_eq_Ok)
  then show ?thesis
    by (cases m_method) (auto simp: auth_ok_def rbind_eq_Ok rmap_def dest: parse_oidc_https dest!: sym [of "Some _"] split: sum.splits)
qed

lemma auth_answer_ok: "auth_answer J S answer = Inr a \<Longrightarrow> auth_ok S a"
  by (auto simp: auth_answer_def rbind_eq_Ok dest: auth_parse_ok split: sum.splits if_splits)

text \<open>The outcome of some attempts, of which \<open>new\<close> are the requests made: the first answer that can be
  decoded is the result and the last one asked for.\<close>

definition auth_outcome ::
  "json_lib \<Rightarrow> sec_lib \<Rightarrow> transport \<Rightarrow> http_request list \<Rightarrow> http_request list \<Rightarrow> controller_auth result \<Rightarrow> bool" where
  "auth_outcome J S T log new r \<longleftrightarrow>
     (\<forall>i < length new. \<forall>a. auth_answer J S (T (log @ take i new) (new ! i)) = Inr a \<longrightarrow> r = Ok a \<and> Suc i = length new) \<and>
     (\<forall>a. r = Ok a \<longrightarrow> new \<noteq> [] \<and> auth_answer J S (T (log @ butlast new) (last new)) = Inr a)"

lemma auth_outcome_step:
  assumes "auth_outcome J S T (log @ [q]) new r" "auth_answer J S (T log q) = Inl e"
  shows "auth_outcome J S T log (q # new) r"
  using assms by (auto simp: auth_outcome_def nth_Cons take_Cons split: nat.splits)

lemma auth_attempts_spec:
  "\<exists>new r. auth_attempts J S stamps T endpoint ident content n err log = (r, log @ new) \<and> length new \<le> n \<and>
     auth_outcome J S T log new r \<and> (\<forall>q \<in> set new. req_method q = ''POST'' \<and> req_url q = endpoint)"
proof (induction n arbitrary: err log)
  case 0
  show ?case by (simp add: auth_outcome_def)
next
  case (Suc n)
  show ?case
  proof (cases "controller_api_headers S (stamps (length log)) ''POST'' endpoint content ident")
    case (Inl e)
    then show ?thesis by (intro exI [of _ "[]"]) (simp add: auth_outcome_def)
  next
    case (Inr hs)
    define q where "q = \<lparr>req_method = ''POST'', req_url = endpoint, req_headers = lookup_headers hs,
      req_body = content, req_timeout = None\<rparr>"
    have q: "req_method q = ''POST''" "req_url q = endpoint" by (simp_all add: q_def)
    have step: "auth_attempts J S stamps T endpoint ident content (Suc n) err log =
        (case auth_answer J S (T log q) of
           Inr a \<Rightarrow> (Ok a, log @ [q])
         | Inl (e, stop) \<Rightarrow> if stop then (Err e, log @ [q])
             else auth_attempts J S stamps T endpoint ident content n (Some e) (log @ [q]))"
      by (simp add: Inr Let_def flip: q_def)
    show ?thesis
    proof (cases "auth_answer J S (T log q)")
      case (Inr a)
      then show ?thesis unfolding step using q by (intro exI [of _ "[q]"]) (simp add: auth_outcome_def)
    next
      case a: (Inl es)
      obtain e stop where es: "es = (e, stop)" by fastforce
      show ?thesis
      proof (cases stop)
        case True
        then show ?thesis unfolding step using q a es by (intro exI [of _ "[q]"]) (simp add: auth_outcome_def)
      next
        case False
        from Suc.IH [of "Some e" "log @ [q]"] obtain new r where
          "auth_attempts J S stamps T endpoint ident content n (Some e) (log @ [q]) = (r, (log @ [q]) @ new)" "length new \<le> n"
          "auth_outcome J S T (log @ [q]) new r" "\<forall>q \<in> set new. req_method q = ''POST'' \<and> req_url q = endpoint" by blast
        then show ?thesis unfolding step using q a es False auth_outcome_step [of J S T log q _ _ es, OF _ a]
          by (intro exI [of _ "q # new"] exI [of _ r]) simp
      qed
    qed
  qed
qed

text \<open>C19 (the first answer that decodes). Asking for the authentication method makes at most three requests, all to the
  HTTPS address from the lookup. The first answer that can be decoded ends the asking and is the result; a result other than
  the fall-back is always such an answer, and one that says OpenID Connect has a configuration whose addresses are HTTPS URLs
  without credentials. An answer that announces OpenID Connect without such a configuration does not decode, so that a
  controller that gives no other answer within the attempts is treated as one with passwords.\<close>

theorem auth_first_decodable:
  assumes "fetch_or_credential J S os stamps T lookup device_id log = (a, log')"
  shows "\<exists>new. log' = log @ new \<and> length new \<le> 3 \<and> auth_ok S a \<and>
    (\<forall>q \<in> set new. auth_url lookup = Some (req_url q) \<and> is_https S (req_url q)) \<and>
    (\<forall>i < length new. \<forall>a'. auth_answer J S (T (log @ take i new) (new ! i)) = Inr a' \<longrightarrow> a = a' \<and> Suc i = length new) \<and>
    (a \<noteq> credential_auth \<longrightarrow> new \<noteq> [] \<and> auth_answer J S (T (log @ butlast new) (last new)) = Inr a) \<and>
    ((\<forall>i < length new. \<forall>a'. auth_answer J S (T (log @ take i new) (new ! i)) \<noteq> Inr a') \<longrightarrow> a = credential_auth)"
proof -
  have c: "auth_ok S credential_auth" by (simp add: auth_ok_def credential_auth_def)
  show ?thesis
  proof (cases "\<exists>endpoint ident content. auth_fetch J S os stamps T lookup device_id log =
      auth_attempts J S stamps T endpoint ident content 3 None log \<and> auth_endpoint S lookup = Ok endpoint")
    case False
    then have "\<exists>r. auth_fetch J S os stamps T lookup device_id log = (r, log) \<and> (\<forall>a. r = Ok a \<longrightarrow> a = credential_auth)"
      by (auto simp: auth_fetch_def rbind_eq_Ok split: sum.splits) blast
    then have "a = credential_auth \<and> log' = log" using assms by (auto simp: fetch_or_credential_def split: sum.splits)
    then show ?thesis using c by simp
  next
    case True
    then obtain endpoint ident content where f: "auth_fetch J S os stamps T lookup device_id log =
      auth_attempts J S stamps T endpoint ident content 3 None log" and e: "auth_endpoint S lookup = Ok endpoint" by blast
    from auth_attempts_spec [of J S stamps T endpoint ident content 3 None log] obtain new r where
      n: "auth_attempts J S stamps T endpoint ident content 3 None log = (r, log @ new)" "length new \<le> 3"
        "auth_outcome J S T log new r" "\<forall>q \<in> set new. req_method q = ''POST'' \<and> req_url q = endpoint" by blast
    have u: "auth_url lookup = Some endpoint" "is_https S endpoint"
      using e by (auto simp: auth_endpoint_def rbind_eq_Ok is_https_def split: option.splits if_splits)
    show ?thesis
    proof (cases r)
      case (Inl err)
      then have "a = credential_auth" "log' = log @ new" using assms f n(1) by (simp_all add: fetch_or_credential_def)
      then show ?thesis using n(2-4) u c Inl by (auto simp: auth_outcome_def)
    next
      case (Inr a')
      then have "a' = a" "log' = log @ new" using assms f n(1) by (simp_all add: fetch_or_credential_def)
      have l: "new \<noteq> [] \<Longrightarrow> take (length new - 1) new = butlast new \<and> new ! (length new - 1) = last new"
        by (simp add: butlast_conv_take last_conv_nth)
      have "new \<noteq> [] \<and> auth_answer J S (T (log @ butlast new) (last new)) = Inr a"
        using n(3) Inr \<open>a' = a\<close> by (simp add: auth_outcome_def)
      moreover from this l have some: "\<exists>i < length new. auth_answer J S (T (log @ take i new) (new ! i)) = Inr a"
        by (intro exI [of _ "length new - 1"]) simp
      moreover have "auth_ok S a" using calculation(1) auth_answer_ok by blast
      moreover have "\<forall>i < length new. \<forall>a'. auth_answer J S (T (log @ take i new) (new ! i)) = Inr a' \<longrightarrow> a = a' \<and> Suc i = length new"
        using n(3) Inr \<open>a' = a\<close> by (simp add: auth_outcome_def)
      ultimately show ?thesis using n(2,4) u \<open>log' = log @ new\<close> by (intro exI [of _ new]) (simp, blast)
    qed
  qed
qed

text \<open>The first request fails, the second one is answered with OpenID Connect.\<close>

definition demo_auth_json :: json where
  "demo_auth_json = JObject [(ascii_str ''auth'', JObject [(ascii_str ''method'', JString (ascii_str ''OIDC'')),
     (ascii_str ''oidc'', JObject [(ascii_str ''authorization_endpoint'', JString [0x61]),
        (ascii_str ''token_endpoint'', JString [0x74]), (ascii_str ''client_id'', JString [0x63])])])]"

definition demo_auth_lib :: json_lib where
  "demo_auth_lib = demo_json_lib\<lparr>json_from_slice := (\<lambda>_. Some demo_auth_json)\<rparr>"

definition demo_auth_lookup :: lookup_result where
  "demo_auth_lookup = demo_result\<lparr>controller_info := Some (JObject
     [(ascii_str ''app_id'', JString [0x61]), (ascii_str ''url'', JObject [(ascii_str ''auth'', JString [0x65])])])\<rparr>"

abbreviation demo_auth_transport :: transport where
  "demo_auth_transport \<equiv> \<lambda>log q. if log = [] then Err (Io TimedOut) else Ok \<lparr>rsp_status = 200, rsp_body = []\<rparr>"

lemma demo_auth_headers:
  "\<exists>hs. controller_api_headers demo_sec_lib \<lparr>stamp_secs = Some 0, stamp_random = []\<rparr> ''POST'' e content [0x61] = Ok hs"
proof -
  have "list_all (\<lambda>c. 0x41 \<le> c \<and> c \<le> 0x5a) (ascii_str ''POST'')" by code_simp
  moreover have "\<exists>secret. controller_secret demo_sec_lib [0x61] = Ok secret"
    by (simp add: controller_secret_def demo_sec_lib_def ascii_str_def)
  ultimately show ?thesis
    by (auto simp: controller_api_headers_def mobile_api_headers_with_credentials_def timestamp_now_def sign_http_request_def
        canonical_http_request_def demo_sec_lib_def demo_url_def https_only_def Let_def)
qed

lemma demo_auth_parsed: "\<exists>a. auth_parse_response demo_sec_lib demo_auth_json = Ok a \<and> ca_method a = MethodOidc"
proof -
  have "is_ok (auth_parse_response demo_sec_lib demo_auth_json)"
    "case auth_parse_response demo_sec_lib demo_auth_json of Inl _ \<Rightarrow> False | Inr a \<Rightarrow> ca_method a = MethodOidc" by code_simp+
  then show ?thesis by (auto split: sum.splits)
qed

theorem auth_first_decodable_witness:
  "\<exists>a q q'. fetch_or_credential demo_auth_lib demo_sec_lib Linux (\<lambda>_. \<lparr>stamp_secs = Some 0, stamp_random = []\<rparr>)
      demo_auth_transport demo_auth_lookup [0x64] [] = (a, [q, q']) \<and> ca_method a = MethodOidc \<and>
    auth_url demo_auth_lookup = Some (req_url q') \<and> auth_ok demo_sec_lib a"
proof -
  obtain a where a: "auth_parse_response demo_sec_lib demo_auth_json = Ok a" "ca_method a = MethodOidc"
    using demo_auth_parsed by blast
  have l: "lr_service_type demo_auth_lookup = ControllerService" "auth_endpoint demo_sec_lib demo_auth_lookup = Ok [0x65]"
    "controller_app_id demo_auth_lookup = Some [0x61]" by code_simp+
  obtain hs where hs: "controller_api_headers demo_sec_lib \<lparr>stamp_secs = Some 0, stamp_random = []\<rparr> ''POST'' [0x65] [] [0x61] = Ok hs"
    using demo_auth_headers by blast
  have e: "auth_answer demo_auth_lib demo_sec_lib (Err (Io TimedOut)) = Inl (Io TimedOut, False)"
    "auth_answer demo_auth_lib demo_sec_lib (Ok \<lparr>rsp_status = 200, rsp_body = []\<rparr>) = Inr a"
    by (simp_all add: auth_answer_def demo_auth_lib_def demo_json_lib_def ok_or_def a(1))
  have v: "json_to_vec demo_auth_lib x = Some []" for x by (simp add: demo_auth_lib_def demo_json_lib_def)
  have f: "auth_fetch demo_auth_lib demo_sec_lib Linux (\<lambda>_. \<lparr>stamp_secs = Some 0, stamp_random = []\<rparr>)
      demo_auth_transport demo_auth_lookup [0x64] [] =
    auth_attempts demo_auth_lib demo_sec_lib (\<lambda>_. \<lparr>stamp_secs = Some 0, stamp_random = []\<rparr>) demo_auth_transport [0x65] [0x61] [] 3 None []"
    by (simp add: auth_fetch_def l ok_or_def v)
  have "\<exists>q q'. auth_attempts demo_auth_lib demo_sec_lib (\<lambda>_. \<lparr>stamp_secs = Some 0, stamp_random = []\<rparr>) demo_auth_transport [0x65] [0x61] []
      (Suc (Suc (Suc 0))) None [] = (Ok a, [q, q'])"
    by (simp add: hs e Let_def)
  then obtain q q' where at: "auth_attempts demo_auth_lib demo_sec_lib (\<lambda>_. \<lparr>stamp_secs = Some 0, stamp_random = []\<rparr>)
      demo_auth_transport [0x65] [0x61] [] 3 None [] = (Ok a, [q, q'])" unfolding numeral_3_eq_3 by blast
  have f: "fetch_or_credential demo_auth_lib demo_sec_lib Linux (\<lambda>_. \<lparr>stamp_secs = Some 0, stamp_random = []\<rparr>)
      demo_auth_transport demo_auth_lookup [0x64] [] = (a, [q, q'])"
    unfolding fetch_or_credential_def f at by (simp only: prod.case sum.case)
  from auth_first_decodable [OF f] obtain new where new: "[q, q'] = [] @ new" "auth_ok demo_sec_lib a"
    "\<forall>q \<in> set new. auth_url demo_auth_lookup = Some (req_url q) \<and> is_https demo_sec_lib (req_url q)" by blast
  then have "q' \<in> set new" by (metis append_Nil list.set_intros)
  with new(2,3) f a(2) show ?thesis by blast
qed

text \<open>The checks of a callback that succeed together.\<close>

lemma callback_code_OkD:
  assumes "callback_code S L c p redirect_url = Ok code"
  shows "\<exists>expected actual query state. url_parse S (oi_redirect_uri c) = Some expected \<and> url_parse S redirect_url = Some actual \<and>
    url_scheme actual = url_scheme expected \<and> url_host actual = url_host expected \<and>
    url_port L redirect_url = url_port L (oi_redirect_uri c) \<and> url_path actual = url_path expected \<and> url_fragment actual = None \<and>
    query = map_of (rev (query_pairs L (url_query actual))) \<and> query (ascii_str ''error'') = None \<and>
    query (ascii_str ''state'') = Some state \<and> utf8_bytes state = utf8_bytes (pa_state p) \<and> query (ascii_str ''code'') = Some code"
proof -
  from assms obtain actual where a: "url_parse S redirect_url = Some actual" and
    1: "validate_redirect_uri S L (oi_redirect_uri c) redirect_url actual = Ok ()"
    by (auto simp: callback_code_def rbind_eq_Ok split: option.splits)
  from assms obtain state where "map_of (rev (query_pairs L (url_query actual))) (ascii_str ''error'') = None"
    "map_of (rev (query_pairs L (url_query actual))) (ascii_str ''state'') = Some state"
    "utf8_bytes state = utf8_bytes (pa_state p)" "map_of (rev (query_pairs L (url_query actual))) (ascii_str ''code'') = Some code"
    by (auto simp: callback_code_def a rbind_eq_Ok Let_def split: if_splits)
  moreover from 1 obtain expected where "url_parse S (oi_redirect_uri c) = Some expected" "url_scheme actual = url_scheme expected"
    "url_host actual = url_host expected" "url_port L redirect_url = url_port L (oi_redirect_uri c)"
    "url_path actual = url_path expected" "url_fragment actual = None"
    by (auto simp: validate_redirect_uri_def split: option.splits if_splits)
  ultimately show ?thesis using a by blast
qed

lemma username_claim_nonblank: "username_claim claims names = Some v \<Longrightarrow> str_trim v \<noteq> []"
  by (induction names) (auto split: option.splits)

lemma token_identity_OkD:
  assumes "token_identity J L p now response = Ok identity"
  shows "\<exists>tk claims nonce. rsp_status response = 200 \<and> token_from_slice L (rsp_body response) = Some tk \<and>
    id_access_token identity = tk_access_token tk \<and> tk_access_token tk \<noteq> [] \<and>
    parse_jwt_payload J L (tk_id_token tk) = Ok claims \<and> json_get claims ''nonce'' = Some (JString nonce) \<and>
    utf8_bytes nonce = utf8_bytes (pa_nonce p) \<and> json_get claims ''sub'' = Some (JString (id_user_id identity)) \<and>
    id_user_id identity \<noteq> [] \<and> str_trim (id_username identity) \<noteq> []"
proof -
  from assms have st: "rsp_status response = 200" by (auto simp: token_identity_def split: if_splits)
  with assms obtain tk where tk: "token_from_slice L (rsp_body response) = Some tk" and ne: "tk_access_token tk \<noteq> []"
    by (auto simp: token_identity_def rbind_eq_Ok split: if_splits)
  with assms st obtain claims where 1: "parse_id_token J L (tk_id_token tk) (pa_nonce p) = Ok claims"
    and i: "id_access_token identity = tk_access_token tk" "extract_username claims = Ok (id_username identity)"
      "opt_and_then (json_get claims ''sub'') as_str = Some (id_user_id identity)" "id_user_id identity \<noteq> []"
    by (auto simp: token_identity_def rbind_eq_Ok split: if_splits)
  from 1 obtain nonce where "parse_jwt_payload J L (tk_id_token tk) = Ok claims"
    "opt_and_then (json_get claims ''nonce'') as_str = Some nonce" "utf8_bytes nonce = utf8_bytes (pa_nonce p)"
    by (auto simp: parse_id_token_def rbind_eq_Ok split: if_splits)
  moreover have "str_trim (id_username identity) \<noteq> []"
    using i(2) username_claim_nonblank unfolding extract_username_def ok_or_eq_Ok by blast
  ultimately show ?thesis using st tk ne i by (auto simp: opt_and_then_eq_Some)
qed

text \<open>C18 (OpenID Connect login). An identity is obtained from a callback only if the callback goes to the
  configured redirect address, reports no error and returns the state of this authorization; exactly one
  request is then made, to the token endpoint the authorization was started with, carrying the code of the
  callback and the verifier whose SHA-256 digest is the challenge of the authorization URL; and the ID token
  of the answer carries the nonce of this authorization and a subject, which becomes the user. So neither a
  forged callback nor the answer to another authorization is taken.\<close>

theorem oidc_flow_sound:
  assumes "oidc_begin S L rnd c = Ok p" "oidc_complete J S L now T c p redirect_url log = (Ok identity, log')"
  shows "\<exists>code q response expected actual state tk claims nonce.
    pa_authorization_url p = append_pairs L (oi_authorization_endpoint c)
      (authorization_pairs c (base64url_encode L (sha256 S (utf8_bytes (pa_code_verifier p)))) (pa_state p) (pa_nonce p)) \<and>
    url_parse S (oi_redirect_uri c) = Some expected \<and> url_parse S redirect_url = Some actual \<and>
    url_scheme actual = url_scheme expected \<and> url_host actual = url_host expected \<and>
    url_port L redirect_url = url_port L (oi_redirect_uri c) \<and> url_path actual = url_path expected \<and>
    map_of (rev (query_pairs L (url_query actual))) (ascii_str ''error'') = None \<and>
    map_of (rev (query_pairs L (url_query actual))) (ascii_str ''state'') = Some state \<and> utf8_bytes state = utf8_bytes (pa_state p) \<and>
    map_of (rev (query_pairs L (url_query actual))) (ascii_str ''code'') = Some code \<and>
    log' = log @ [q] \<and> req_url q = oi_token_endpoint c \<and> req_body q = token_request_body L c code (pa_code_verifier p) \<and>
    T log q = Ok response \<and> rsp_status response = 200 \<and> token_from_slice L (rsp_body response) = Some tk \<and>
    id_access_token identity = tk_access_token tk \<and> tk_access_token tk \<noteq> [] \<and>
    parse_jwt_payload J L (tk_id_token tk) = Ok claims \<and> json_get claims ''nonce'' = Some (JString nonce) \<and>
    utf8_bytes nonce = utf8_bytes (pa_nonce p) \<and> json_get claims ''sub'' = Some (JString (id_user_id identity)) \<and>
    id_user_id identity \<noteq> [] \<and> str_trim (id_username identity) \<noteq> []"
proof -
  have b: "pa_token_endpoint p = oi_token_endpoint c" "pa_authorization_url p = append_pairs L (oi_authorization_endpoint c)
      (authorization_pairs c (base64url_encode L (sha256 S (utf8_bytes (pa_code_verifier p)))) (pa_state p) (pa_nonce p))"
    using assms(1) by (auto simp: oidc_begin_def rbind_eq_Ok Let_def)
  from assms(2) obtain code where c: "callback_code S L c p redirect_url = Ok code"
    by (auto simp: oidc_complete_def split: sum.splits)
  define q where "q = form_request (oi_token_endpoint c) (token_request_body L c code (pa_code_verifier p))"
  from assms(2) c obtain response where r: "log' = log @ [q]" "T log q = Ok response" "token_identity J L p now response = Ok identity"
    by (auto simp: oidc_complete_def Let_def b(1) rbind_eq_Ok simp flip: q_def)
  have "req_url q = oi_token_endpoint c" "req_body q = token_request_body L c code (pa_code_verifier p)"
    by (simp_all add: q_def form_request_def)
  with b(2) callback_code_OkD [OF c] token_identity_OkD [OF r(3)] r(1,2) show ?thesis by blast
qed

text \<open>A provider that answers with the nonce it was given: the callback is \<open>https://h/p\<close> with the state as its
  query.\<close>

definition demo_claims :: json where
  "demo_claims = JObject [(ascii_str ''nonce'', JString [0x6e]), (ascii_str ''sub'', JString [0x75])]"

definition demo_oidc_json :: json_lib where
  "demo_oidc_json = demo_json_lib\<lparr>json_from_slice := (\<lambda>_. Some demo_claims)\<rparr>"

definition demo_oidc_lib :: oidc_lib where
  "demo_oidc_lib =
     \<lparr>token_from_slice = (\<lambda>_. Some \<lparr>tk_access_token = [0x61], tk_refresh_token = [], tk_id_token = [0x68, 0x2e, 0x70, 0x2e],
        tk_expires_in = Some 60\<rparr>),
      refresh_from_slice = (\<lambda>_. Some \<lparr>rf_access_token = [0x62], rf_refresh_token = [], rf_expires_in = None\<rparr>),
      url_port = (\<lambda>_. None),
      query_pairs = (\<lambda>q. [(ascii_str ''state'', [0x6e]), (ascii_str ''code'', [0x63])]),
      append_pairs = (\<lambda>u _. u), form_serialize = (\<lambda>_. []), base64url_encode = (\<lambda>_. [0x6e]),
      base64url_decode = (\<lambda>_. Some []), base64url_decode_padded = (\<lambda>_. None)\<rparr>"

definition demo_oidc_config :: oidc_config where
  "demo_oidc_config = \<lparr>oi_authorization_endpoint = [0x61], oi_token_endpoint = [0x74], oi_client_id = [0x63], oi_redirect_uri = [0x72],
     oi_scopes = default_scopes, oi_organization = [], oi_provider = [], oi_additional = []\<rparr>"

definition demo_random :: oidc_random where
  "demo_random = \<lparr>rnd_verifier = [1], rnd_state = [2], rnd_nonce = [3]\<rparr>"

theorem oidc_flow_sound_witness:
  "\<exists>p identity q. oidc_begin demo_sec_lib demo_oidc_lib demo_random demo_oidc_config = Ok p \<and>
     oidc_complete demo_oidc_json demo_sec_lib demo_oidc_lib 1000 (\<lambda>_ _. Ok \<lparr>rsp_status = 200, rsp_body = []\<rparr>) demo_oidc_config p [0x72] [] =
       (Ok identity, [q]) \<and> id_user_id identity \<noteq> []"
proof -
  define p where "p = \<lparr>pa_authorization_url = [0x61], pa_token_endpoint = [0x74], pa_state = [0x6e], pa_nonce = [0x6e], pa_code_verifier = [0x6e]\<rparr>"
  have p: "oidc_begin demo_sec_lib demo_oidc_lib demo_random demo_oidc_config = Ok p"
    by (simp add: oidc_begin_def demo_oidc_lib_def demo_oidc_config_def parse_https_url_def demo_sec_lib_def demo_url_def https_only_def p_def)
  have c: "callback_code demo_sec_lib demo_oidc_lib demo_oidc_config p [0x72] = Ok [0x63]"
    by (simp add: callback_code_def validate_redirect_uri_def demo_oidc_lib_def demo_oidc_config_def demo_sec_lib_def demo_url_def p_def
        Let_def ascii_str_def)
  have "\<exists>identity. token_identity demo_oidc_json demo_oidc_lib p 1000 \<lparr>rsp_status = 200, rsp_body = []\<rparr> = Ok identity"
    by (auto simp: token_identity_def demo_oidc_lib_def demo_oidc_json_def demo_json_lib_def parse_id_token_def parse_jwt_payload_def
        demo_claims_def json_get_def obj_get_def ascii_str_def extract_username_def p_def str_trim_def is_whitespace_def
        granted_expiry_def in_i64_def or_else_def ok_or_def)
  then obtain identity log where
    o: "oidc_complete demo_oidc_json demo_sec_lib demo_oidc_lib 1000 (\<lambda>_ _. Ok \<lparr>rsp_status = 200, rsp_body = []\<rparr>) demo_oidc_config p [0x72] [] =
       (Ok identity, log)" by (auto simp: oidc_complete_def c Let_def)
  from oidc_flow_sound [OF p o] obtain q where "log = [q]" "id_user_id identity \<noteq> []" by auto
  with p o show ?thesis by blast
qed

lemma granted_expiry_range: "granted_expiry now e = Some t \<Longrightarrow> in_i64 t"
  by (auto simp: granted_expiry_def opt_and_then_eq_Some split: if_splits)

lemma as_i64_range: "as_i64 v = Some t \<Longrightarrow> in_i64 t"
  by (cases v rule: as_i64.cases) (auto split: if_splits)

lemma jwt_expiry_range: "jwt_expiry J L jwt = Some t \<Longrightarrow> in_i64 t"
  by (auto simp: jwt_expiry_def opt_and_then_eq_Some dest: as_i64_range split: sum.splits)

text \<open>(refreshed session). A refresh keeps the user and the username and never loses the refresh token: if the
  server sends no new one, the old one stays. It makes one request, to the HTTPS token endpoint, and the expiry it
  computes is a 64-bit number whatever the server and the clock say.\<close>

theorem oidc_refresh_keeps_session:
  assumes "oidc_refresh J S L now T c refresh_token user_id username log = (Ok identity, log')"
  shows "id_user_id identity = user_id \<and> id_username identity = username \<and> id_access_token identity \<noteq> [] \<and>
    id_refresh_token identity \<noteq> [] \<and> in_i64 (id_expires_at identity) \<and>
    (\<exists>q. log' = log @ [q] \<and> req_url q = oi_token_endpoint c \<and> is_https S (oi_token_endpoint c))"
proof -
  define q where "q = form_request (oi_token_endpoint c) (form_serialize L
      [(ascii_str ''client_id'', oi_client_id c), (ascii_str ''grant_type'', ascii_str ''refresh_token''),
       (ascii_str ''refresh_token'', refresh_token)])"
  from assms have v: "oidc_config_validate S c = Ok ()" and ne: "refresh_token \<noteq> []"
    by (auto simp: oidc_refresh_def split: sum.splits if_splits)
  with assms obtain response where l: "log' = log @ [q]" and r: "refresh_identity J L refresh_token user_id username now response = Ok identity"
    by (auto simp: oidc_refresh_def Let_def rbind_eq_Ok simp flip: q_def split: if_splits)
  from v have "\<exists>u. parse_https_url S (oi_token_endpoint c) = Ok u"
    by (auto simp: oidc_config_validate_def rbind_eq_Ok split: if_splits)
  then have h: "is_https S (oi_token_endpoint c)" by (simp add: parse_https_url_iff)
  from r obtain tk where tk: "refresh_from_slice L (rsp_body response) = Some tk" and ne': "rf_access_token tk \<noteq> []"
    and st: "rsp_status response = 200" by (auto simp: refresh_identity_def rbind_eq_Ok split: if_splits)
  from r have i: "identity = \<lparr>id_access_token = rf_access_token tk,
      id_refresh_token = (if rf_refresh_token tk = [] then refresh_token else rf_refresh_token tk),
      id_user_id = user_id, id_username = username,
      id_expires_at = opt_unwrap_or (saturating_add_i64 now 300)
        (or_else (granted_expiry now (rf_expires_in tk)) (jwt_expiry J L (rf_access_token tk)))\<rparr>"
    by (simp add: refresh_identity_def ok_or_def tk ne' st)
  have "in_i64 (id_expires_at identity)"
    unfolding i using granted_expiry_range jwt_expiry_range
    by (auto simp: opt_unwrap_or_def or_else_def in_i64_def saturating_add_i64_def split: option.splits)
  moreover have "req_url q = oi_token_endpoint c" by (simp add: q_def form_request_def)
  ultimately show ?thesis using ne ne' l h by (simp add: i)
qed

theorem oidc_refresh_keeps_session_witness:
  "\<exists>identity log. oidc_refresh demo_oidc_json (demo_sec_lib\<lparr>url_parse := (\<lambda>_. Some ((demo_url [])\<lparr>url_query := None\<rparr>))\<rparr>) demo_oidc_lib (2 ^ 63 - 1)
      (\<lambda>_ _. Ok \<lparr>rsp_status = 200, rsp_body = []\<rparr>) demo_oidc_config [0x72] [0x75] [0x6e] [] = (Ok identity, log) \<and>
     in_i64 (id_expires_at identity) \<and> id_refresh_token identity \<noteq> []"
proof -
  let ?S = "demo_sec_lib\<lparr>url_parse := (\<lambda>_. Some ((demo_url [])\<lparr>url_query := None\<rparr>))\<rparr>"
  have v: "oidc_config_validate ?S demo_oidc_config = Ok ()"
    by (simp add: oidc_config_validate_def demo_oidc_config_def parse_https_url_def demo_sec_lib_def demo_url_def https_only_def
        default_scopes_def ascii_str_def str_trim_def is_whitespace_def)
  have "\<exists>identity. refresh_identity demo_oidc_json demo_oidc_lib [0x72] [0x75] [0x6e] (2 ^ 63 - 1) \<lparr>rsp_status = 200, rsp_body = []\<rparr> = Ok identity"
    by (simp add: refresh_identity_def demo_oidc_lib_def ok_or_def)
  then obtain identity log where r: "oidc_refresh demo_oidc_json ?S demo_oidc_lib (2 ^ 63 - 1)
      (\<lambda>_ _. Ok \<lparr>rsp_status = 200, rsp_body = []\<rparr>) demo_oidc_config [0x72] [0x75] [0x6e] [] = (Ok identity, log)"
    by (auto simp: oidc_refresh_def v Let_def)
  from oidc_refresh_keeps_session [OF r] r show ?thesis by blast
qed

end
