(* ===== verification/Managed_Workflow.thy ===== *)
theory Managed_Workflow
  imports Managed_Lines Managed_Auth Session_Runtime
begin

text \<open>
  The login flows of a managed domain (\<open>src/managed/workflow.rs\<close>, \<open>DomainClient\<close>): discovery, the fetch of
  a configuration, and the two logins, each composed of the operations of the other managed components and, for
  a password, of one authentication with the server (\<open>Session_Runtime\<close>).

  A login is \<open>None\<close> only where one of its parts has not come to an end: the search for a free identifier, or the
  attempts of the authentication. Requests are kept in a log, as in \<open>Managed_Lookup\<close>.
\<close>

section \<open>Domains\<close>

record discovered_domain =
  dd_lookup :: lookup_result
  dd_auth :: controller_auth

text \<open>What the flows need from outside beside the network of the lookups.\<close>

record workflow_env =
  we_net :: lookup_env
  we_oidc :: oidc_lib
  we_aead :: aead_lib
  we_text :: addr_text
  we_set_endpoint :: "url \<Rightarrow> ustr \<Rightarrow> ustr"
  we_sr_group :: "json \<Rightarrow> sr_group option"
  we_ping :: pinger
  we_counter :: u32 \<comment> \<open>\<open>NEXT_LOCAL_SR_ID\<close> when a line is selected\<close>

abbreviation we_json :: "workflow_env \<Rightarrow> json_lib" where "we_json W \<equiv> le_json (we_net W)"
abbreviation we_sec :: "workflow_env \<Rightarrow> sec_lib" where "we_sec W \<equiv> le_sec (we_net W)"
abbreviation we_transport :: "workflow_env \<Rightarrow> transport" where "we_transport W \<equiv> le_transport (we_net W)"

definition discover ::
  "'s file_system \<Rightarrow> cache_codec \<Rightarrow> workflow_env \<Rightarrow> ustr option \<Rightarrow> ustr \<Rightarrow> ustr \<Rightarrow> system_time \<Rightarrow> 's \<Rightarrow>
     discovered_domain result \<times> http_request list \<times> 's" where
  "discover F C W cache domain device_id now s =
     (case lookup_at F C (we_net W) LOOKUP_ENDPOINTS cache domain device_id now s of
        (Inl e, log, s) \<Rightarrow> (Err e, log, s)
      | (Inr lookup, log, s) \<Rightarrow>
          (case fetch_or_credential (we_json W) (we_sec W) (le_os (we_net W)) (le_stamps (we_net W)) (we_transport W)
                  lookup device_id log of
             (auth, log) \<Rightarrow> (Ok \<lparr>dd_lookup = lookup, dd_auth = auth\<rparr>, log, s)))"

definition domain_oidc_config :: "discovered_domain \<Rightarrow> ustr \<Rightarrow> oidc_config result" where
  "domain_oidc_config domain redirect_uri =
     (if ca_method (dd_auth domain) \<noteq> MethodOidc then Err (Oidc ''the discovered domain does not use OIDC'')
      else rmap (\<lambda>c. provider_config c redirect_uri)
             (ok_or (Oidc ''OIDC auth response has no configuration'') (ca_oidc (dd_auth domain))))"

definition begin_oidc ::
  "workflow_env \<Rightarrow> oidc_random \<Rightarrow> discovered_domain \<Rightarrow> ustr \<Rightarrow> (oidc_config \<times> pending_authorization) result" where
  "begin_oidc W rnd domain redirect_uri =
     rbind (domain_oidc_config domain redirect_uri) (\<lambda>config.
     rbind (oidc_config_validate (we_sec W) config) (\<lambda>_.
     rmap (Pair config) (oidc_begin (we_sec W) (we_oidc W) rnd config)))"

definition complete_oidc ::
  "workflow_env \<Rightarrow> int \<Rightarrow> oidc_config \<times> pending_authorization \<Rightarrow> ustr \<Rightarrow> http_request list \<Rightarrow>
     oidc_identity result \<times> http_request list" where
  "complete_oidc W now pending redirect_url log =
     oidc_complete (we_json W) (we_sec W) (we_oidc W) now (we_transport W) (fst pending) (snd pending) redirect_url log"

definition refresh_oidc ::
  "workflow_env \<Rightarrow> int \<Rightarrow> discovered_domain \<Rightarrow> ustr \<Rightarrow> ustr \<Rightarrow> ustr \<Rightarrow> ustr \<Rightarrow> http_request list \<Rightarrow>
     oidc_identity result \<times> http_request list" where
  "refresh_oidc W now domain redirect_uri refresh_token user_id username log =
     (case domain_oidc_config domain redirect_uri of
        Inl e \<Rightarrow> (Err e, log)
      | Inr config \<Rightarrow>
          oidc_refresh (we_json W) (we_sec W) (we_oidc W) now (we_transport W) config refresh_token user_id username log)"

section \<open>Configurations\<close>

definition enabled_posture_version :: "int option \<Rightarrow> int option" where
  "enabled_posture_version v = opt_filter (\<lambda>v. v \<noteq> 0) v"

definition workflow_config_url :: "lookup_result \<Rightarrow> ustr result" where
  "workflow_config_url lookup = ok_or (Controller ''controller lookup has no config URL'') (config_url_of lookup)"

definition validate_https_endpoint :: "sec_lib \<Rightarrow> ustr \<Rightarrow> unit result" where
  "validate_https_endpoint S v =
     (case url_parse S v of
        None \<Rightarrow> Err (Controller ''invalid {name} URL: {error}'')
      | Some u \<Rightarrow>
          if \<not> https_only u then Err (Controller ''{name} URL must be HTTPS without credentials or a fragment'')
          else Ok ())"

definition serverlist_raw :: "json \<Rightarrow> json" where
  "serverlist_raw raw0 =
     (let raw = opt_unwrap_or raw0 (json_get raw0 ''data'') in
      if as_array raw \<noteq> None then JObject [(ascii_str ''serverlist'', raw)] else raw)"

definition fetch_serverlist ::
  "workflow_env \<Rightarrow> lookup_result \<Rightarrow> http_request list \<Rightarrow> controller_configuration result \<times> http_request list" where
  "fetch_serverlist W lookup log =
     (case rbind (ok_or (Controller ''lookup has no server list URL'') (resolved_server_list_url lookup)) (\<lambda>endpoint.
           rbind (validate_https_endpoint (we_sec W) endpoint) (\<lambda>_. Ok endpoint)) of
        Inl e \<Rightarrow> (Err e, log)
      | Inr endpoint \<Rightarrow>
          let request = \<lparr>req_method = ''GET'', req_url = endpoint, req_headers = [], req_body = [], req_timeout = None\<rparr>
          in
          (rbind (we_transport W log request) (\<lambda>response.
             if rsp_status response \<noteq> 200 then Err (Controller ''server list returned HTTP {}'')
             else rmap (\<lambda>raw. config_from_raw (serverlist_raw raw))
                    (ok_or (Controller ''invalid server list: {error}'') (json_from_slice (we_json W) (rsp_body response)))),
           log @ [request]))"

definition fetch_controller ::
  "workflow_env \<Rightarrow> discovered_domain \<Rightarrow> ustr \<Rightarrow> ustr option \<Rightarrow> ustr option \<Rightarrow> int option \<Rightarrow> http_request list \<Rightarrow>
     controller_configuration result \<times> http_request list" where
  "fetch_controller W domain device_id access username cached_version log =
     (case rbind (ok_or (Oidc ''OIDC config request requires an access token'') (opt_filter (\<lambda>t. t \<noteq> []) access)) (\<lambda>access.
           rbind (workflow_config_url (dd_lookup domain)) (\<lambda>url.
           rbind (ok_or (Controller ''controller lookup has no app_id'') (controller_app_id (dd_lookup domain))) (\<lambda>ident.
           Ok (access, url, ident)))) of
        Inl e \<Rightarrow> (Err e, log)
      | Inr (access, url, ident) \<Rightarrow>
          controller_fetch (we_json W) (we_sec W) (le_stamps (we_net W) (length log)) (we_transport W) url
            \<lparr>cp_domain = active_domain (dd_lookup domain), cp_client_type = client_platform (le_os (we_net W)),
             cp_app_id = ident, cp_access_token = Some access, cp_username = username, cp_device_id = device_id,
             cp_posture_version = cached_version\<rparr> log)"

definition fetch_configuration ::
  "workflow_env \<Rightarrow> discovered_domain \<Rightarrow> ustr \<Rightarrow> ustr option \<Rightarrow> ustr option \<Rightarrow> int option \<Rightarrow> http_request list \<Rightarrow>
     controller_configuration result \<times> http_request list" where
  "fetch_configuration W domain device_id access username cached_version log =
     (case (if lr_service_type (dd_lookup domain) = ControllerService \<and> ca_method (dd_auth domain) = MethodOidc
            then fetch_controller W domain device_id access username cached_version log
            else fetch_serverlist W (dd_lookup domain) log) of
        (r, log) \<Rightarrow> (rbind r (\<lambda>c. rbind (enforce_device_binding c) (\<lambda>_. Ok c)), log))"

definition select_line ::
  "workflow_env \<Rightarrow> controller_configuration \<Rightarrow> line_preference \<Rightarrow> selected_ingress result option" where
  "select_line W c line =
     map_option fst
       (select_ingress (we_text W) (we_ping W) (iwan_servers (we_json W) c)
          (cc_sr_groups (we_sr_group W) (we_sec W) (we_aead W) c) (we_counter W) line [])"

section \<open>Logins\<close>

text \<open>The one authentication of a password login: its randomness, its network and the result of sending the
  closing datagram.\<close>

record probe_env =
  pb_prims :: crypto_prims
  pb_resolver :: "ustr \<Rightarrow> error_kind + socket_addr list"
  pb_connected :: "error_kind + unit"
  pb_nonce :: "u32 result"
  pb_rounds :: "auth_round list"
  pb_close :: "error_kind + unit"

definition authenticate_once ::
  "probe_env \<Rightarrow> client_config \<Rightarrow> connection_credentials \<Rightarrow> session result option" where
  "authenticate_once B cfg cr =
     fst (authenticate_with_budget (pb_prims B) (pb_resolver B) cfg (con_username cr) (con_password cr) (pb_connected B)
            (pb_nonce B) AUTH_ATTEMPT_TIMEOUT (pb_rounds B))"

definition probe_credentials :: "probe_env \<Rightarrow> selected_ingress \<Rightarrow> connection_credentials \<Rightarrow> unit result option" where
  "probe_credentials B ingress credentials =
     (case client_for (pb_resolver B) ingress credentials of
        Inl e \<Rightarrow> Some (Err e)
      | Inr (cfg, cr) \<Rightarrow>
          map_option (\<lambda>r. rbind r (\<lambda>_. case pb_close B of Inl k \<Rightarrow> Err (Io k) | Inr _ \<Rightarrow> Ok ())) (authenticate_once B cfg cr))"

definition password_login_with_line ::
  "workflow_env \<Rightarrow> probe_env \<Rightarrow> discovered_domain \<Rightarrow> ustr \<Rightarrow> ustr \<Rightarrow> ustr \<Rightarrow> line_preference \<Rightarrow> http_request list \<Rightarrow>
     (prepared_connection result \<times> http_request list) option" where
  "password_login_with_line W B domain device_id username password line log =
     (if ca_method (dd_auth domain) = MethodOidc
      then Some (Err (Managed ''this domain uses single sign-on authentication''), log)
      else if username = [] \<or> password = []
      then Some (Err (Managed ''username and password must not be empty''), log)
      else case fetch_configuration W domain device_id None None None log of
        (Inl e, log) \<Rightarrow> Some (Err e, log)
      | (Inr c, log) \<Rightarrow>
          (case select_line W c line of
             None \<Rightarrow> None
           | Some (Inl e) \<Rightarrow> Some (Err e, log)
           | Some (Inr ingress) \<Rightarrow>
               (case credentials_for_ingress (we_json W) (we_sec W) (we_aead W) ingress (Some (username, password)) c of
                  Inl e \<Rightarrow> Some (Err e, log)
                | Inr credentials \<Rightarrow>
                    map_option (\<lambda>r. (rbind r (\<lambda>_.
                      Ok \<lparr>pc_domain = active_domain (dd_lookup domain), pc_ingress = ingress, pc_configuration = c,
                          pc_service_type = lr_service_type (dd_lookup domain), pc_credentials = credentials\<rparr>), log))
                      (probe_credentials B ingress credentials))))"

record oidc_login_options =
  opt_check_results :: "json list"
  opt_posture_version :: "int option"
  opt_line :: line_preference

text \<open>The posture version to evaluate: the one of the configuration, or the cached one.\<close>

definition login_posture_version :: "controller_configuration \<Rightarrow> int option \<Rightarrow> int option result" where
  "login_posture_version c cached =
     (case cc_posture c of Some posture \<Rightarrow> posture_gate_version posture | None \<Rightarrow> Ok cached)"

definition posture_gate ::
  "workflow_env \<Rightarrow> discovered_domain \<Rightarrow> oidc_identity \<Rightarrow> int option \<Rightarrow> json list \<Rightarrow> http_request list \<Rightarrow>
     unit result \<times> http_request list" where
  "posture_gate W domain identity version check_results log =
     (case version of
        None \<Rightarrow> (Ok (), log)
      | Some version \<Rightarrow>
          (case workflow_config_url (dd_lookup domain) of
             Inl e \<Rightarrow> (Err e, log)
           | Inr url \<Rightarrow>
               (case posture_evaluate (we_json W) (we_sec W) (we_set_endpoint W) (we_transport W) url
                       (Some (id_access_token identity)) (id_user_id identity) version check_results log of
                  (r, log) \<Rightarrow> (rbind r (\<lambda>e. if \<not> posture_allowed e then Err PostureDenied else Ok ()), log))))"

definition oidc_login_with_options ::
  "workflow_env \<Rightarrow> discovered_domain \<Rightarrow> ustr \<Rightarrow> oidc_identity \<Rightarrow> oidc_login_options \<Rightarrow> http_request list \<Rightarrow>
     (prepared_connection result \<times> http_request list) option" where
  "oidc_login_with_options W domain device_id identity options log =
     (if ca_method (dd_auth domain) \<noteq> MethodOidc
      then Some (Err (Managed ''this domain uses credential authentication''), log)
      else
        let cached = enabled_posture_version (opt_posture_version options) in
        case fetch_configuration W domain device_id (Some (id_access_token identity)) (Some (id_username identity)) cached log of
          (Inl e, log) \<Rightarrow> Some (Err e, log)
        | (Inr c, log) \<Rightarrow>
            (case login_posture_version c cached of
               Inl e \<Rightarrow> Some (Err e, log)
             | Inr version \<Rightarrow>
                 (case posture_gate W domain identity version (opt_check_results options) log of
                    (Inl e, log) \<Rightarrow> Some (Err e, log)
                  | (Inr _, log) \<Rightarrow>
                      map_option (\<lambda>r.
                        (rbind r (\<lambda>ingress.
                         rbind (credentials_for_ingress (we_json W) (we_sec W) (we_aead W) ingress None c) (\<lambda>credentials.
                         Ok \<lparr>pc_domain = active_domain (dd_lookup domain), pc_ingress = ingress, pc_configuration = c,
                             pc_service_type = lr_service_type (dd_lookup domain), pc_credentials = credentials\<rparr>)), log))
                        (select_line W c (opt_line options)))))"

text \<open>The logins with the default line, and the keepalives of a domain.\<close>

definition password_login ::
  "workflow_env \<Rightarrow> probe_env \<Rightarrow> discovered_domain \<Rightarrow> ustr \<Rightarrow> ustr \<Rightarrow> ustr \<Rightarrow> http_request list \<Rightarrow>
     (prepared_connection result \<times> http_request list) option" where
  "password_login W B domain device_id username password log =
     password_login_with_line W B domain device_id username password LineAuto log"

definition oidc_login ::
  "workflow_env \<Rightarrow> discovered_domain \<Rightarrow> ustr \<Rightarrow> oidc_identity \<Rightarrow> json list \<Rightarrow> int option \<Rightarrow> http_request list \<Rightarrow>
     (prepared_connection result \<times> http_request list) option" where
  "oidc_login W domain device_id identity check_results version log =
     oidc_login_with_options W domain device_id identity
       \<lparr>opt_check_results = check_results, opt_posture_version = version, opt_line = LineAuto\<rparr> log"

definition send_keepalive ::
  "workflow_env \<Rightarrow> (nat \<Rightarrow> stamp) \<Rightarrow> (bytes \<Rightarrow> 'r option) \<Rightarrow> ustr \<Rightarrow> keepalive_credentials \<Rightarrow> bytes option \<Rightarrow> http_request list \<Rightarrow>
     'r result \<times> http_request list" where
  "send_keepalive W stamps parse endpoint credentials serialized log =
     keepalive_send (we_sec W) stamps (we_transport W) parse endpoint credentials serialized log"

section \<open>What a login guarantees\<close>

lemma select_preference:
  assumes "select_ingress T ping servers groups counter line log = Some (Ok c, log')"
  shows "line = LineAuto \<or> ingress_preference c = line"
proof (cases line)
  case (LineIwan i)
  with assms obtain ss where s: "servers = Ok ss" by (auto simp: select_ingress_def split: sum.splits)
  have "select_ingress T ping (Ok ss) (Ok []) counter line log = Some (Ok c, log')"
    using assms by (simp add: LineIwan s select_ingress_def)
  from select_ingress_from_lines [OF this] show ?thesis by blast
next
  case (LineSr g)
  with assms obtain gs where s: "groups = Ok gs" by (auto simp: select_ingress_def split: sum.splits)
  have "select_ingress T ping (Ok []) (Ok gs) counter line log = Some (Ok c, log')"
    using assms by (simp add: LineSr s select_ingress_def)
  from select_ingress_from_lines [OF this] show ?thesis by blast
qed simp

lemma select_line_preference:
  "select_line W c line = Some (Ok ingress) \<Longrightarrow> line = LineAuto \<or> ingress_preference ingress = line"
  by (auto simp: select_line_def dest: select_preference)

lemma fetch_configuration_bound:
  assumes "fetch_configuration W domain device_id access username version log = (Ok c, log')"
  shows "enforce_device_binding c = Ok () \<and> (\<exists>q. log' = log @ [q])"
proof -
  have "\<exists>q. log' = log @ [q]" if "fetch_serverlist W (dd_lookup domain) log = (Ok c, log')" for c
    using that by (auto simp: fetch_serverlist_def Let_def split: sum.splits)
  moreover have "\<exists>q. log' = log @ [q]" if "fetch_controller W domain device_id access username version log = (Ok c, log')" for c
    using that by (auto simp: fetch_controller_def controller_fetch_def Let_def split: sum.splits option.splits if_splits prod.splits)
  ultimately show ?thesis using assms
    by (auto simp: fetch_configuration_def rbind_eq_Ok split: prod.splits if_splits)
qed

lemma posture_gate_OkD:
  assumes "posture_gate W domain identity version checks log = (Ok (), log')"
  shows "case version of None \<Rightarrow> log' = log
    | Some v \<Rightarrow> \<exists>url e. config_url_of (dd_lookup domain) = Some url \<and> posture_allowed e \<and>
        posture_evaluate (we_json W) (we_sec W) (we_set_endpoint W) (we_transport W) url (Some (id_access_token identity))
          (id_user_id identity) v checks log = (Ok e, log')"
  using assms by (cases version) (auto simp: posture_gate_def workflow_config_url_def rbind_eq_Ok split: sum.splits prod.splits if_splits)

text \<open>C16 (single sign-on gate). A login with an identity succeeds only for a domain that uses OpenID Connect, with a
  configuration whose device binding is not blocked, and past the posture gate: if the configuration names a posture
  version, or names none and a version other than zero is cached, then the evaluation of exactly that version, made
  with the access token of this identity, must have come back allowed. The line is the one asked for, and its
  credentials are those of the configuration.\<close>

theorem oidc_login_gated:
  assumes "oidc_login_with_options W domain device_id identity options log = Some (Ok prepared, log')"
  shows "ca_method (dd_auth domain) = MethodOidc \<and> enforce_device_binding (pc_configuration prepared) = Ok () \<and>
    (opt_line options = LineAuto \<or> ingress_preference (pc_ingress prepared) = opt_line options) \<and>
    credentials_for_ingress (we_json W) (we_sec W) (we_aead W) (pc_ingress prepared) None (pc_configuration prepared) = Ok (pc_credentials prepared) \<and>
    (\<exists>q version. login_posture_version (pc_configuration prepared) (enabled_posture_version (opt_posture_version options)) = Ok version \<and>
      (case version of None \<Rightarrow> log' = log @ [q]
       | Some v \<Rightarrow> \<exists>url e. config_url_of (dd_lookup domain) = Some url \<and> posture_allowed e \<and>
           posture_evaluate (we_json W) (we_sec W) (we_set_endpoint W) (we_transport W) url (Some (id_access_token identity))
             (id_user_id identity) v (opt_check_results options) (log @ [q]) = (Ok e, log')))"
proof -
  let ?cached = "enabled_posture_version (opt_posture_version options)"
  have m: "ca_method (dd_auth domain) = MethodOidc" using assms by (auto simp: oidc_login_with_options_def split: if_splits)
  with assms obtain c log1 where
    c: "fetch_configuration W domain device_id (Some (id_access_token identity)) (Some (id_username identity)) ?cached log = (Ok c, log1)"
    by (auto simp: oidc_login_with_options_def Let_def split: prod.splits sum.splits)
  with assms m obtain version where v: "login_posture_version c ?cached = Ok version"
    by (auto simp: oidc_login_with_options_def Let_def split: sum.splits)
  with assms m c obtain log2 where p: "posture_gate W domain identity version (opt_check_results options) log1 = (Ok (), log2)"
    by (auto simp: oidc_login_with_options_def Let_def split: prod.splits sum.splits)
  with assms m c v obtain ingress credentials where s: "select_line W c (opt_line options) = Some (Ok ingress)"
    and cr: "credentials_for_ingress (we_json W) (we_sec W) (we_aead W) ingress None c = Ok credentials" and l: "log' = log2"
    and pc: "pc_ingress prepared = ingress" "pc_configuration prepared = c" "pc_credentials prepared = credentials"
    by (auto simp: oidc_login_with_options_def Let_def rbind_eq_Ok)
  from fetch_configuration_bound [OF c] obtain q where b: "enforce_device_binding c = Ok ()" and q: "log1 = log @ [q]" by blast
  have "case version of None \<Rightarrow> log' = log @ [q]
       | Some v \<Rightarrow> \<exists>url e. config_url_of (dd_lookup domain) = Some url \<and> posture_allowed e \<and>
           posture_evaluate (we_json W) (we_sec W) (we_set_endpoint W) (we_transport W) url (Some (id_access_token identity))
             (id_user_id identity) v (opt_check_results options) (log @ [q]) = (Ok e, log')"
    using posture_gate_OkD [OF p] unfolding q l by (cases version) simp_all
  with m b v select_line_preference [OF s] cr pc show ?thesis by blast
qed

lemma authenticate_once_OkD:
  assumes "authenticate_once B cfg cr = Some (Ok ses)"
  shows "\<exists>r pr nonce d decoded. r \<in> set (pb_rounds B) \<and> resolve_server (pb_resolver B) cfg = Ok pr \<and> pb_nonce B = Ok nonce \<and>
    ar_recv r = Ok d \<and> decode_packet (pb_prims B) d = Ok decoded \<and> packet_type (header decoded) = OpenAck \<and>
    accept_ack (pb_prims B) cfg (con_username cr) (con_password cr) pr nonce (ar_ack_timeouts r) (ar_fragment r) decoded = Ok ses"
proof -
  from assms obtain pr nonce where a: "resolve_server (pb_resolver B) cfg = Ok pr" "pb_nonce B = Ok nonce"
    "fst (auth_loop (auth_attempt (pb_prims B) cfg (con_username cr) (con_password cr) pr nonce) AUTH_ATTEMPT_TIMEOUT (pb_rounds B)) = Some (Ok ses)"
    by (auto simp: authenticate_once_def authenticate_with_budget_def rbind_eq_Ok split: sum.splits)
  from auth_loop_Ok [OF a(3)] obtain r where "r \<in> set (pb_rounds B)"
    "auth_attempt (pb_prims B) cfg (con_username cr) (con_password cr) pr nonce r = AuthDone (Ok ses)" by blast
  with auth_attempt_OkD [OF this(2)] a(1,2) show ?thesis by blast
qed

text \<open>A configuration from a server list has no context to decrypt passwords with, so no Segment Routing entry
  of it has a password, and none is kept.\<close>

lemma assign_ids_passwords:
  "assign_ids reserved all es assigned counter = Some (es', r) \<Longrightarrow> e' \<in> set es' \<Longrightarrow>
     \<exists>e \<in> set es. ing_password (ent_ingress e') = ing_password (ent_ingress e)"
proof (induction es arbitrary: assigned counter es' r)
  case (Cons e es)
  from Cons.prems(1) obtain n c es1 r1 where 1: "assign_ids reserved all es (n # assigned) c = Some (es1, r1)"
    and es': "es' = (normalize_sr_entry e)\<lparr>ent_local_sr_id := Some n\<rparr> # es1"
    by (auto split: option.splits prod.splits)
  have "ing_password (ent_ingress (normalize_sr_entry e)) = ing_password (ent_ingress e)"
    by (simp add: normalize_sr_entry_def Let_def split: option.splits)
  then show ?case using Cons.IH [OF 1] Cons.prems(2) by (auto simp: es')
qed auto

definition no_passwords :: "sr_group list \<Rightarrow> bool" where
  "no_passwords gs \<longleftrightarrow> (\<forall>g \<in> set gs. \<forall>e \<in> set (sg_entries g). ing_password (ent_ingress e) = [])"

lemma sanitize_group_none:
  assumes "sanitize_group T reserved g assigned counter = Some (kept, r)" "no_passwords [g]"
  shows "kept = None"
proof (cases "take 5 (sg_entries g) = []")
  case True
  with assms(1) show ?thesis by (simp add: sanitize_group_def)
next
  case False
  with assms(1) obtain es' r' where a: "assign_ids reserved (take 5 (sg_entries g)) (take 5 (sg_entries g)) assigned counter = Some (es', r')"
    and k: "filter (valid_sr_entry T) es' = [] \<longrightarrow> kept = None"
    by (auto simp: sanitize_group_def Let_def split: option.splits prod.splits if_splits)
  have "\<not> valid_sr_entry T e" if "e \<in> set es'" for e
    using assign_ids_passwords [OF a that] assms(2) in_set_takeD by (fastforce simp: valid_sr_entry_def no_passwords_def)
  with k show ?thesis by (simp add: filter_empty_conv)
qed

lemma sanitize_all_none:
  "sanitize_all T reserved gs assigned counter = Some (gs', c) \<Longrightarrow> no_passwords gs \<Longrightarrow> gs' = []"
proof (induction gs arbitrary: assigned counter gs')
  case (Cons g gs)
  from Cons.prems(1) obtain kept assigned1 counter1 gs1 where
    1: "sanitize_group T reserved g assigned counter = Some (kept, assigned1, counter1)"
    and 2: "sanitize_all T reserved gs assigned1 counter1 = Some (gs1, c)" and gs': "gs' = (case kept of None \<Rightarrow> gs1 | Some g \<Rightarrow> g # gs1)"
    by (auto split: option.splits)
  then show ?case using sanitize_group_none [OF 1] Cons.IH [OF 2] Cons.prems(2) by (simp add: no_passwords_def)
qed simp

lemma plain_groups_no_passwords:
  assumes "cc_sr_groups f S A (config_from_raw raw) = Ok gs"
  shows "no_passwords gs"
  using assms by (auto simp: cc_sr_groups_def config_from_raw_def no_passwords_def rbind_eq_Ok list_ex_iff split: option.splits if_splits)

lemma select_ingress_plain:
  assumes "select_ingress T ping servers groups counter line log = Some (Ok c, log')" "\<And>gs. groups = Ok gs \<Longrightarrow> no_passwords gs"
  shows "\<exists>s l. c = SelIwan s l"
proof (cases groups)
  case (Inl e)
  then have "select_ingress T ping servers (Ok []) counter line log = Some (Ok c, log') \<and> (\<exists>ss. servers = Ok ss)"
    using assms(1) by (auto simp: select_ingress_def split: line_preference.splits sum.splits)
  then obtain ss where "select_ingress T ping (Ok ss) (Ok []) counter line log = Some (Ok c, log')" by blast
  from select_ingress_from_lines [OF this] show ?thesis
    by (auto simp: from_lines_def sanitize_sr_groups_def)
next
  case (Inr gs)
  have n: "no_passwords gs" using assms(2) Inr by blast
  obtain ss where "select_ingress T ping (Ok ss) (Ok gs) counter line log = Some (Ok c, log')"
    using assms(1) Inr by (cases servers; cases line) (auto simp: select_ingress_def)
  from select_ingress_from_lines [OF this] obtain gs' where "from_lines ss gs' c" "gs' = []"
    using sanitize_all_none [OF _ n] unfolding sanitize_sr_groups_def by blast
  then show ?thesis by (auto simp: from_lines_def)
qed

lemma serverlist_plain:
  "fetch_serverlist W lookup log = (Ok c, log') \<Longrightarrow> \<exists>raw. c = config_from_raw raw"
  by (auto simp: fetch_serverlist_def Let_def rbind_eq_Ok rmap_def split: sum.splits if_splits)

text \<open>C17 (password login). A login with a password succeeds only for a domain that does not use single sign-on, with a
  configuration whose device binding is not blocked, and after the server of the selected line has accepted the very
  credentials that are kept: a datagram of it was decoded as an \<open>OPEN_ACK\<close> with a valid signature and gave a session.
  They are the ones that were entered: the line is always a traditional one, because the server list of such a domain
  has no key to decrypt the passwords of Segment Routing entries with, and entries without one are dropped.\<close>

theorem password_login_probed:
  assumes "password_login_with_line W B domain device_id username password line log = Some (Ok prepared, log')"
  shows "ca_method (dd_auth domain) = MethodCredential \<and> username \<noteq> [] \<and> password \<noteq> [] \<and> (\<exists>q. log' = log @ [q]) \<and>
    enforce_device_binding (pc_configuration prepared) = Ok () \<and>
    (line = LineAuto \<or> ingress_preference (pc_ingress prepared) = line) \<and>
    (\<exists>s l. pc_ingress prepared = SelIwan s l) \<and> pc_credentials prepared = \<lparr>con_username = username, con_password = password\<rparr> \<and>
    (\<exists>cfg ses r pr nonce d decoded. ingress_config (pc_ingress prepared) = Ok cfg \<and> config_validate (pb_resolver B) cfg = Ok () \<and>
      r \<in> set (pb_rounds B) \<and> ar_recv r = Ok d \<and> decode_packet (pb_prims B) d = Ok decoded \<and> packet_type (header decoded) = OpenAck \<and>
      accept_ack (pb_prims B) cfg username password pr nonce (ar_ack_timeouts r) (ar_fragment r) decoded = Ok ses)"
proof -
  have m: "ca_method (dd_auth domain) \<noteq> MethodOidc" "username \<noteq> []" "password \<noteq> []"
    using assms by (auto simp: password_login_with_line_def split: if_splits)
  with assms obtain c log1 where c: "fetch_configuration W domain device_id None None None log = (Ok c, log1)"
    by (auto simp: password_login_with_line_def split: prod.splits sum.splits)
  with assms m obtain ingress where s: "select_line W c line = Some (Ok ingress)"
    by (auto simp: password_login_with_line_def split: option.splits sum.splits)
  with assms m c obtain credentials where
    cr: "credentials_for_ingress (we_json W) (we_sec W) (we_aead W) ingress (Some (username, password)) c = Ok credentials"
    by (auto simp: password_login_with_line_def split: sum.splits)
  with assms m c s have p: "probe_credentials B ingress credentials = Some (Ok ())" and l: "log' = log1"
    and pc: "pc_ingress prepared = ingress" "pc_configuration prepared = c" "pc_credentials prepared = credentials"
    by (auto simp: password_login_with_line_def rbind_eq_Ok)
  from p obtain cfg cr' ses where a: "client_for (pb_resolver B) ingress credentials = Ok (cfg, cr')" "authenticate_once B cfg cr' = Some (Ok ses)"
    by (auto simp: probe_credentials_def rbind_eq_Ok split: sum.splits)
  from a(1) have cr': "cr' = credentials" and "ingress_config ingress = Ok cfg" and "config_validate (pb_resolver B) cfg = Ok ()"
    by (auto simp: client_for_def prepared_client_def rbind_eq_Ok)
  moreover have i: "\<exists>s l. ingress = SelIwan s l"
  proof -
    from c m(1) have "\<exists>raw. c = config_from_raw raw"
      by (auto simp: fetch_configuration_def rbind_eq_Ok split: prod.splits dest: serverlist_plain)
    then show ?thesis using s select_ingress_plain plain_groups_no_passwords by (fastforce simp: select_line_def)
  qed
  moreover from cr i have "credentials = \<lparr>con_username = username, con_password = password\<rparr>"
    by (auto simp: credentials_for_ingress_def)
  moreover have "ca_method (dd_auth domain) = MethodCredential" using m(1) by (cases "ca_method (dd_auth domain)") simp_all
  ultimately show ?thesis unfolding l pc using m(2,3) fetch_configuration_bound [OF c] select_line_preference [OF s]
      authenticate_once_OkD [OF a(2) [unfolded cr']] by fastforce
qed

section \<open>Witnesses\<close>

text \<open>A controller domain with one server and a posture version, whose every answer is the same object.\<close>

definition demo_login_server :: json where
  "demo_login_server = JObject
     [(ascii_str ''id'', JNumber (NumInt 7)), (ascii_str ''name'', JString [0x6e]), (ascii_str ''serverName'', JString [0x76]),
      (ascii_str ''userName'', JString [0x75]), (ascii_str ''passWord'', JString [0x70])]"

definition demo_login_json :: json where
  "demo_login_json = JObject
     [(ascii_str ''serverlist'', JArray [demo_login_server]),
      (ascii_str ''posture'', JObject [(ascii_str ''version'', JNumber (NumInt 1))]),
      (ascii_str ''local_gate'', JBool True), (ascii_str ''posture_ack'', JString (ascii_str ''allow''))]"

definition demo_login_env :: workflow_env where
  "demo_login_env =
     \<lparr>we_net = (demo_lookup_env True)\<lparr>le_json := demo_json_lib\<lparr>json_from_slice := (\<lambda>_. Some demo_login_json)\<rparr>, le_sec := demo_sec_32\<rparr>,
      we_oidc = demo_oidc_lib, we_aead = demo_aead, we_text = demo_text, we_set_endpoint = (\<lambda>_ p. p), we_sr_group = (\<lambda>_. None),
      we_ping = (\<lambda>_ _. Ok 9), we_counter = 0\<rparr>"

definition demo_login_lookup :: lookup_result where
  "demo_login_lookup = demo_result\<lparr>server_list_url := Some [0x6c], controller_info := Some (JObject
     [(ascii_str ''app_id'', JString [0x61]), (ascii_str ''url'', JObject [(ascii_str ''config'', JString [0x63])])])\<rparr>"

definition demo_identity :: oidc_identity where
  "demo_identity = \<lparr>id_access_token = [0x61], id_refresh_token = [], id_user_id = [0x75], id_username = [0x75], id_expires_at = 0\<rparr>"

definition demo_options :: oidc_login_options where
  "demo_options = \<lparr>opt_check_results = [], opt_posture_version = None, opt_line = LineAuto\<rparr>"

definition demo_oidc_domain :: discovered_domain where
  "demo_oidc_domain = \<lparr>dd_lookup = demo_login_lookup, dd_auth = credential_auth\<lparr>ca_method := MethodOidc\<rparr>\<rparr>"

abbreviation demo_login_config :: controller_configuration where
  "demo_login_config \<equiv> \<lparr>cc_raw = demo_login_json, cc_app_id = Some [0x61], cc_domain = Some [0x61]\<rparr>"

lemma demo_env_simps:
  "le_json (we_net demo_login_env) = demo_json_lib\<lparr>json_from_slice := (\<lambda>_. Some demo_login_json)\<rparr>"
  "le_sec (we_net demo_login_env) = demo_sec_32" "le_os (we_net demo_login_env) = Linux"
  "le_stamps (we_net demo_login_env) = (\<lambda>_. \<lparr>stamp_secs = Some 0, stamp_random = []\<rparr>)"
  "le_transport (we_net demo_login_env) = (\<lambda>_ _. Ok \<lparr>rsp_status = 200, rsp_body = []\<rparr>)"
  "we_aead demo_login_env = demo_aead" "we_set_endpoint demo_login_env = (\<lambda>_ p. p)" "we_sr_group demo_login_env = (\<lambda>_. None)"
  "we_ping demo_login_env = (\<lambda>_ _. Ok 9)" "we_counter demo_login_env = 0"
  by (simp_all add: demo_login_env_def demo_lookup_env_def)

lemma demo_domain_simps:
  "active_domain demo_login_lookup = [0x61]" "config_url_of demo_login_lookup = Some [0x63]"
  "controller_app_id demo_login_lookup = Some [0x61]" "lr_service_type demo_login_lookup = ControllerService"
  "resolved_server_list_url demo_login_lookup = Some [0x6c]" "json_get demo_login_json ''data'' = None"
  by code_simp+

lemma demo_config_simps:
  "cc_device_binding_status demo_login_config = None" "cc_device_binding_status (config_from_raw demo_login_json) = None"
  "login_posture_version demo_login_config None = Ok (Some 1)"
  "json_get demo_login_json ''sites'' = None" "credential_list demo_login_config = Some [demo_login_server]"
  by code_simp+

lemma demo_servers:
  "\<exists>s. iwan_servers (demo_json_lib\<lparr>json_from_slice := (\<lambda>_. Some demo_login_json)\<rparr>) \<lparr>cc_raw = demo_login_json, cc_app_id = i, cc_domain = d\<rparr> = Ok [s] \<and>
     si_id s = dec_int 7 \<and> si_server_name s = [0x76]"
proof -
  have "case server_info_parse (demo_json_lib\<lparr>json_from_slice := (\<lambda>_. Some demo_login_json)\<rparr>) demo_login_server of
      Some s \<Rightarrow> si_id s = dec_int 7 \<and> si_server_name s = [0x76] | None \<Rightarrow> False" by code_simp
  then obtain s where s: "server_info_parse (demo_json_lib\<lparr>json_from_slice := (\<lambda>_. Some demo_login_json)\<rparr>) demo_login_server = Some s"
    "si_id s = dec_int 7" "si_server_name s = [0x76]" by (auto split: option.splits)
  have "json_get demo_login_json ''serverlist'' = Some (JArray [demo_login_server])" by code_simp
  then show ?thesis using s demo_config_simps(4) by (simp add: iwan_servers_def present_def List.map_filter_simps)
qed

lemma demo_headers_32:
  "\<exists>hs. controller_api_headers demo_sec_32 \<lparr>stamp_secs = Some 0, stamp_random = []\<rparr> ''POST'' e content [0x61] = Ok hs"
proof -
  have "list_all (\<lambda>c. 0x41 \<le> c \<and> c \<le> 0x5a) (ascii_str ''POST'')" by code_simp
  moreover have "\<exists>secret. controller_secret demo_sec_32 [0x61] = Ok secret"
    by (simp add: controller_secret_def demo_sec_32_def demo_sec_lib_def ascii_str_def)
  ultimately show ?thesis
    by (auto simp: controller_api_headers_def mobile_api_headers_with_credentials_def timestamp_now_def sign_http_request_def
        canonical_http_request_def demo_sec_32_def demo_sec_lib_def demo_url_def https_only_def Let_def)
qed

lemma demo_fetch:
  "\<exists>q. fetch_configuration demo_login_env demo_oidc_domain [0x64] (Some [0x61]) (Some [0x75]) None [] = (Ok demo_login_config, [q])"
proof -
  obtain hs where "controller_api_headers demo_sec_32 \<lparr>stamp_secs = Some 0, stamp_random = []\<rparr> ''POST'' [0x63] [] [0x61] = Ok hs"
    using demo_headers_32 by blast
  moreover have "as_object demo_login_json \<noteq> None" by (simp add: demo_login_json_def)
  moreover have "exact_https_endpoint demo_sec_32 [0x63] = Ok [0x63]"
    by (simp add: exact_https_endpoint_def demo_sec_32_def demo_sec_lib_def demo_url_def https_only_def)
  ultimately show ?thesis
    by (simp add: fetch_configuration_def fetch_controller_def demo_oidc_domain_def demo_domain_simps demo_env_simps credential_auth_def
        workflow_config_url_def controller_fetch_def demo_json_lib_def ok_or_def Let_def rmap_def enforce_device_binding_def demo_config_simps)
qed

lemma demo_credentials:
  "\<exists>cr. cc_server_credentials (demo_json_lib\<lparr>json_from_slice := (\<lambda>_. Some demo_login_json)\<rparr>) demo_sec_32 demo_aead demo_login_config = Ok [(dec_int 7, cr)]"
proof -
  have u: "from_utf8 [0x73 :: u8] = Some [0x73]"
    using from_utf8_bytes [of "[0x73]"] by (simp add: is_scalar_def utf8_char_def)
  have "\<exists>secret. controller_secret demo_sec_32 [0x61] = Ok secret"
    by (simp add: controller_secret_def demo_sec_32_def demo_sec_lib_def ascii_str_def)
  then have d: "decrypt_saas_password demo_sec_32 demo_aead [0x61] [0x61] [0x75] [0x70] = Ok [0x73]"
    using u by (auto simp: decrypt_saas_password_def demo_aead_def demo_sec_32_def Let_def)
  obtain m where m: "as_object demo_login_server = Some m" "obj_get m ''id'' = Some (JNumber (NumInt 7))"
    "obj_get m ''userName'' = Some (JString [0x75])" "obj_get m ''passWord'' = Some (JString [0x70])"
    by (simp add: demo_login_server_def obj_get_def ascii_str_def)
  have "credential_entry (demo_json_lib\<lparr>json_from_slice := (\<lambda>_. Some demo_login_json)\<rparr>) demo_sec_32 demo_aead [0x61] [0x61] demo_login_server =
      Some (Ok (dec_int 7, \<lparr>crd_username = [0x75], crd_password = [0x73]\<rparr>))"
    by (simp add: credential_entry_def m json_opt_i32_def json_opt_string_def in_i64_def in_i32_def Let_def d)
  then show ?thesis by (simp add: cc_server_credentials_def demo_config_simps List.map_filter_simps)
qed

lemma demo_posture_gate:
  "\<exists>log. posture_gate demo_login_env demo_oidc_domain demo_identity (Some 1) [] log0 = (Ok (), log)"
proof -
  have "case parse_posture demo_login_json of Inl _ \<Rightarrow> False | Inr e \<Rightarrow> posture_allowed e" by code_simp
  then obtain e where "parse_posture demo_login_json = Ok e" "posture_allowed e" by (auto split: sum.splits)
  then show ?thesis
    by (auto simp: posture_gate_def posture_evaluate_def demo_env_simps demo_oidc_domain_def demo_domain_simps workflow_config_url_def ok_or_def
        demo_identity_def demo_json_lib_def posture_endpoint_def demo_sec_32_def demo_sec_lib_def demo_url_def https_only_def posture_answer_def Let_def)
qed

lemma demo_select_line:
  "\<exists>s l. select_line demo_login_env \<lparr>cc_raw = demo_login_json, cc_app_id = i, cc_domain = d\<rparr> LineAuto = Some (Ok (SelIwan s l)) \<and>
     si_id s = dec_int 7"
  using demo_servers [of i d]
  by (auto simp: select_line_def demo_env_simps cc_sr_groups_def demo_config_simps select_ingress_def sanitize_sr_groups_def
      select_ingress_with_def Let_def ok_or_def)

theorem oidc_login_gated_witness:
  "\<exists>prepared log e url. oidc_login_with_options demo_login_env demo_oidc_domain [0x64] demo_identity demo_options [] = Some (Ok prepared, log) \<and>
     config_url_of (dd_lookup demo_oidc_domain) = Some url \<and> posture_allowed e"
proof -
  obtain q where f: "fetch_configuration demo_login_env demo_oidc_domain [0x64] (Some [0x61]) (Some [0x75]) None [] = (Ok demo_login_config, [q])"
    using demo_fetch by blast
  obtain log where p: "posture_gate demo_login_env demo_oidc_domain demo_identity (Some 1) [] [q] = (Ok (), log)"
    using demo_posture_gate by blast
  obtain s l where s: "select_line demo_login_env demo_login_config LineAuto = Some (Ok (SelIwan s l))" "si_id s = dec_int 7"
    using demo_select_line by blast
  obtain cr where c: "cc_server_credentials (demo_json_lib\<lparr>json_from_slice := (\<lambda>_. Some demo_login_json)\<rparr>) demo_sec_32 demo_aead demo_login_config = Ok [(dec_int 7, cr)]"
    using demo_credentials by blast
  have i: "id_access_token demo_identity = [0x61]" "id_username demo_identity = [0x75]" "opt_posture_version demo_options = None"
    "opt_check_results demo_options = []" "opt_line demo_options = LineAuto" "ca_method (dd_auth demo_oidc_domain) = MethodOidc"
    by (simp_all add: demo_identity_def demo_options_def demo_oidc_domain_def)
  obtain prepared where o: "oidc_login_with_options demo_login_env demo_oidc_domain [0x64] demo_identity demo_options [] = Some (Ok prepared, log)"
    by (simp add: oidc_login_with_options_def i enabled_posture_version_def f demo_config_simps p s credentials_for_ingress_def demo_env_simps c
        ok_or_def rmap_def)
  have "pc_configuration prepared = demo_login_config"
    using o by (auto simp: oidc_login_with_options_def i enabled_posture_version_def f demo_config_simps p s credentials_for_ingress_def
        demo_env_simps c ok_or_def rmap_def)
  with oidc_login_gated [OF o] o show ?thesis by (auto simp: demo_config_simps i enabled_posture_version_def)
qed

definition demo_password_domain :: discovered_domain where
  "demo_password_domain = \<lparr>dd_lookup = demo_login_lookup, dd_auth = credential_auth\<rparr>"

definition demo_probe :: probe_env where
  "demo_probe = \<lparr>pb_prims = demo_prims, pb_resolver = (\<lambda>_. Ok [\<lparr>sa_ip = V4 1, sa_port = 2\<rparr>]), pb_connected = Ok (), pb_nonce = Ok 7,
     pb_rounds = [\<lparr>ar_before = 0, ar_timeouts = Ok (), ar_send = Ok 1,
       ar_recv = Ok (encode_control demo_prims (header_new OpenAck Xor 3 4) []), ar_ack_timeouts = Ok (), ar_fragment = Ok 1, ar_after = 5\<rparr>],
     pb_close = Ok ()\<rparr>"

lemma demo_probe_simps:
  "pb_prims demo_probe = demo_prims" "pb_resolver demo_probe = (\<lambda>_. Ok [\<lparr>sa_ip = V4 1, sa_port = 2\<rparr>])"
  "pb_connected demo_probe = Ok ()" "pb_nonce demo_probe = Ok 7" "pb_close demo_probe = Ok ()"
  by (simp_all add: demo_probe_def)

lemma demo_authenticates:
  "\<exists>ses. authenticate_once demo_probe (config_new ep) \<lparr>con_username = [0x75], con_password = [0x70]\<rparr> = Some (Ok ses)"
proof -
  let ?h = "header_new OpenAck Xor 3 4" and ?u = "[0x75] :: ustr" and ?p = "[0x70] :: ustr"
  have dec: "decode_packet demo_prims (encode_control demo_prims ?h []) =
      Ok \<lparr>header = ?h, signature = Some (calculate_signature demo_prims ?h), body = []\<rparr>"
    by (rule decode_packet_encode_control [OF prims_ok_demo]) (simp add: header_new_def is_control_def)
  have open_ok: "\<exists>d. build_open demo_prims ?u ?p 1400 Xor None (Some 7) = Ok d"
    by (rule build_open_decodes [OF _ prims_ok_demo, of ?u ?p 1400 Xor None "Some 7"]) auto
  obtain ses where "accept_ack demo_prims (config_new ep) ?u ?p \<lparr>sa_ip = V4 1, sa_port = 2\<rparr> 7 (Ok ()) (Ok 1)
      \<lparr>header = ?h, signature = Some (calculate_signature demo_prims ?h), body = []\<rparr> = Ok ses"
    by (simp add: accept_ack_def parse_open_ack_def parse_all_def parse_all_at.simps find_tlv_def
        config_new_def header_new_def create_cipher_def)
  then have step: "auth_attempt demo_prims (config_new ep) ?u ?p \<lparr>sa_ip = V4 1, sa_port = 2\<rparr> 7 (hd (pb_rounds demo_probe)) = AuthDone (Ok ses)"
    by (simp add: auth_attempt_def demo_probe_def dec) (simp add: header_new_def)
  show ?thesis using open_ok step
    by (auto simp: authenticate_once_def authenticate_with_budget_def resolve_server_def config_new_def demo_probe_def
        authentication_attempt_timeout_def)
qed

lemma demo_password_login_at:
  assumes "dd_auth domain = credential_auth" "resolved_server_list_url (dd_lookup domain) = Some [0x6c]"
  shows "\<exists>prepared log. password_login_with_line demo_login_env demo_probe domain d [0x75] [0x70] LineAuto [] = Some (Ok prepared, log)"
proof -
  let ?c = "config_from_raw demo_login_json" and ?cr = "\<lparr>con_username = [0x75], con_password = [0x70]\<rparr>"
  have raw: "serverlist_raw demo_login_json = demo_login_json"
    by (simp add: serverlist_raw_def demo_domain_simps) (simp add: demo_login_json_def)
  have "validate_https_endpoint demo_sec_32 [0x6c] = Ok ()"
    by (simp add: validate_https_endpoint_def demo_sec_32_def demo_sec_lib_def demo_url_def https_only_def)
  then obtain log where f: "fetch_configuration demo_login_env domain d None None None [] = (Ok ?c, log)"
    using assms by (simp add: fetch_configuration_def fetch_serverlist_def demo_domain_simps demo_env_simps credential_auth_def
        demo_json_lib_def ok_or_def rmap_def Let_def raw enforce_device_binding_def demo_config_simps)
  obtain s l where s: "select_line demo_login_env ?c LineAuto = Some (Ok (SelIwan s l))"
    using demo_select_line unfolding config_from_raw_def by blast
  have "config_validate (pb_resolver demo_probe) (config_new (server_endpoint s)) = Ok ()"
    by (simp add: config_validate_def config_new_def reconnect_default_def resolve_server_def demo_probe_simps)
  moreover have "enforce_device_binding (config_from_raw JNull) = Ok ()" by code_simp
  ultimately have "client_for (pb_resolver demo_probe) (SelIwan s l) ?cr = Ok (config_new (server_endpoint s), ?cr)"
    by (simp add: client_for_def prepared_client_def)
  then have p: "probe_credentials demo_probe (SelIwan s l) ?cr = Some (Ok ())"
    using demo_authenticates [of "server_endpoint s"] by (auto simp: probe_credentials_def demo_probe_simps)
  show ?thesis
    using assms(1) by (simp add: password_login_with_line_def credential_auth_def f s credentials_for_ingress_def p)
qed

lemma demo_password_login:
  "\<exists>prepared log. password_login_with_line demo_login_env demo_probe demo_password_domain d [0x75] [0x70] LineAuto [] = Some (Ok prepared, log)"
  by (rule demo_password_login_at) (simp_all add: demo_password_domain_def demo_domain_simps)

theorem password_login_probed_witness:
  "\<exists>prepared log s l. password_login_with_line demo_login_env demo_probe demo_password_domain [0x64] [0x75] [0x70] LineAuto [] = Some (Ok prepared, log) \<and>
     pc_ingress prepared = SelIwan s l \<and> pc_credentials prepared = \<lparr>con_username = [0x75], con_password = [0x70]\<rparr>"
proof -
  obtain prepared log where
    o: "password_login_with_line demo_login_env demo_probe demo_password_domain [0x64] [0x75] [0x70] LineAuto [] = Some (Ok prepared, log)"
    using demo_password_login by blast
  from password_login_probed [OF o] o show ?thesis by blast
qed

end
