(* ===== verification/Forward.thy ===== *)
theory Forward
  imports Session_Runtime Dns_Transport Managed_Security Json
begin

text \<open>
  Forwarding of TCP connections over the tunnel without routes on the host
  (\<open>src/bin/openiwan/forward.rs\<close>): targets, the resolution of a target with its cache, the attempts of a
  connection, admission, and the devices between the session and the user-space network stack.

  The URL parser, the name and authority parsers and the TLS name check are the parameter \<open>forward_lib\<close>; the
  user-space stack (\<open>tokio-smoltcp\<close>) answers as the environment says. Durations are in microseconds, as in the
  other components.
\<close>

section \<open>Targets\<close>

datatype target_scheme = SchemeTcp | SchemeHttp | SchemeHttps

fun scheme_as_str :: "target_scheme \<Rightarrow> ustr" where
  "scheme_as_str SchemeTcp = ascii_str ''tcp''"
| "scheme_as_str SchemeHttp = ascii_str ''http''"
| "scheme_as_str SchemeHttps = ascii_str ''https''"

record forward_target =
  tgt_scheme :: target_scheme
  tgt_host :: ustr
  tgt_authority :: ustr
  tgt_port :: u16

datatype url_host_kind = HostDomain ustr | HostIp ip_addr

record forward_url = url +
  fu_host :: "url_host_kind option"
  fu_port :: "u16 option" \<comment> \<open>the port as written\<close>
  fu_known_port :: "u16 option" \<comment> \<open>that or the default of the scheme\<close>

record forward_lib =
  fl_url_parse :: "ustr \<Rightarrow> forward_url option"
  fl_name_is_root :: "ustr \<Rightarrow> bool option" \<comment> \<open>\<open>None\<close> where the text is no name\<close>
  fl_server_name_ok :: "ustr \<Rightarrow> bool"
  fl_authority_ok :: "ustr \<Rightarrow> bool"

text \<open>\<open>str::split_once\<close> with a text as the separator.\<close>

fun split_once_str :: "ustr \<Rightarrow> ustr \<Rightarrow> (ustr \<times> ustr) option" where
  "split_once_str sep [] = (if sep = [] then Some ([], []) else None)"
| "split_once_str sep (c # cs) =
     (if starts_with (c # cs) sep then Some ([], drop (length sep) (c # cs))
      else map_option (\<lambda>(a, b). (c # a, b)) (split_once_str sep cs))"

definition parse_target_host :: "addr_text \<Rightarrow> forward_lib \<Rightarrow> forward_url \<Rightarrow> ustr result" where
  "parse_target_host T F u =
     rbind (ok_or (InvalidConfig ''forward target URI has no host'') (fu_host u)) (\<lambda>h.
     rbind (case h of
              HostDomain domain \<Rightarrow>
                (case fl_name_is_root F domain of
                   None \<Rightarrow> Err (InvalidConfig ''invalid forward target host {domain:?}: {error}'')
                 | Some root \<Rightarrow>
                     if root then Err (InvalidConfig ''forward target URI must contain a non-root host'') else Ok domain)
            | HostIp a \<Rightarrow> Ok (at_show T a)) (\<lambda>host.
     case at_parse T host of
       Some a \<Rightarrow>
         if is_unspecified a \<or> is_multicast a
         then Err (InvalidConfig ''forward target must be a unicast, non-unspecified address'')
         else Ok host
     | None \<Rightarrow> Ok host))"

definition target_authority ::
  "addr_text \<Rightarrow> forward_lib \<Rightarrow> target_scheme \<Rightarrow> ustr \<Rightarrow> u16 \<Rightarrow> u16 option \<Rightarrow> ustr result" where
  "target_authority T F scheme host port explicit_port =
     (let display_host = (case at_parse T host of Some (V6 _) \<Rightarrow> [0x5b] @ host @ [0x5d] | _ \<Rightarrow> host);
          authority =
            (case (scheme, explicit_port) of
               (SchemeTcp, _) \<Rightarrow> display_host @ [0x3a] @ dec (unat port)
             | (_, Some port) \<Rightarrow> display_host @ [0x3a] @ dec (unat port)
             | (_, None) \<Rightarrow> display_host)
      in if \<not> fl_authority_ok F authority then Err (InvalidConfig ''invalid forward target authority: {error}'')
         else Ok authority)"

definition scheme_of :: "ustr \<Rightarrow> target_scheme option" where
  "scheme_of s =
     (if s = ascii_str ''tcp'' then Some SchemeTcp else if s = ascii_str ''http'' then Some SchemeHttp
      else if s = ascii_str ''https'' then Some SchemeHttps else None)"

text \<open>The default port of the HTTP schemes is always known; the error stands for the \<open>expect\<close>.\<close>

definition target_port :: "target_scheme \<Rightarrow> forward_url \<Rightarrow> u16 result" where
  "target_port scheme u =
     (if scheme = SchemeTcp
      then ok_or (InvalidConfig ''tcp:// forward targets must include an explicit port'') (fu_port u)
      else ok_or (InvalidConfig ''HTTP schemes have known default ports'') (fu_known_port u))"

definition target_parse :: "addr_text \<Rightarrow> forward_lib \<Rightarrow> ustr \<Rightarrow> forward_target result" where
  "target_parse T F v0 =
     (let v = str_trim v0 in
      if v = [] then Err (InvalidConfig ''forward target must not be empty'')
      else
        rbind (ok_or (InvalidConfig ''forward target must be an absolute URI using tcp://, http://, or https://'')
                 (split_once_str (ascii_str ''://'') v)) (\<lambda>(_, remainder).
        let raw_authority = takeWhile (\<lambda>c. c \<notin> {SLASH, 0x3f, 0x23}) remainder in
        rbind (ok_or (InvalidConfig ''invalid forward target URI; use tcp://, http://, or https://: {error}'')
                 (fl_url_parse F v)) (\<lambda>u.
        rbind (ok_or (InvalidConfig ''unsupported forward target scheme {scheme:?}; use tcp, http, or https'')
                 (scheme_of (url_scheme u))) (\<lambda>scheme.
        if 0x40 \<in> set raw_authority \<or> url_username u \<noteq> [] \<or> url_password u \<noteq> None
        then Err (InvalidConfig ''forward target URI must not contain user information'')
        else if (if scheme = SchemeTcp then url_path u \<noteq> [] else url_path u \<noteq> [SLASH]) \<or>
                url_query u \<noteq> None \<or> url_fragment u \<noteq> None
        then Err (InvalidConfig ''forward target must be an origin without a path, query, or fragment'')
        else
          rbind (parse_target_host T F u) (\<lambda>host.
          rbind (target_port scheme u) (\<lambda>port.
          if port = 0 then Err (InvalidConfig ''forward target port must be nonzero'')
          else if scheme = SchemeHttps \<and> \<not> fl_server_name_ok F host
          then Err (InvalidConfig ''HTTPS target host is not a valid TLS server identity: {error}'')
          else
            rbind (target_authority T F scheme host port (fu_port u)) (\<lambda>authority.
            Ok \<lparr>tgt_scheme = scheme, tgt_host = host, tgt_authority = authority, tgt_port = port\<rparr>)))))))"

definition target_display :: "forward_target \<Rightarrow> ustr" where
  "target_display t = scheme_as_str (tgt_scheme t) @ ascii_str ''://'' @ tgt_authority t"

definition target_is_http :: "forward_target \<Rightarrow> bool" where
  "target_is_http t \<longleftrightarrow> tgt_scheme t = SchemeHttp \<or> tgt_scheme t = SchemeHttps"

definition uses_tls :: "forward_target \<Rightarrow> bool" where
  "uses_tls t \<longleftrightarrow> tgt_scheme t = SchemeHttps"

definition parse_target_argument :: "addr_text \<Rightarrow> forward_lib \<Rightarrow> ustr \<Rightarrow> ustr result" where
  "parse_target_argument T F v = rmap (\<lambda>_. str_trim v) (target_parse T F v)"

text \<open>The TLS connector is built from certificate files and is not looked into.\<close>

record 'tls forward_config =
  fc_listen :: socket_addr
  fc_target :: forward_target
  fc_dns :: resolver_config
  fc_tls :: "'tls option"
  fc_connect_timeout :: duration

definition forward_config_new ::
  "addr_text \<Rightarrow> forward_lib \<Rightarrow> (ustr list \<Rightarrow> 'tls result) \<Rightarrow> socket_addr \<Rightarrow> ustr \<Rightarrow> resolver_config \<Rightarrow> ustr list \<Rightarrow> duration \<Rightarrow>
     'tls forward_config result" where
  "forward_config_new T F build_tls listen target_text dns ca_certificates connect_timeout =
     rbind (resolver_config_validate dns) (\<lambda>_.
     if \<not> is_loopback (sa_ip listen)
     then Err (InvalidConfig ''forward listen address {listen} is not a loopback address'')
     else if connect_timeout = 0 then Err (InvalidConfig ''connect timeout must be greater than zero'')
     else
       rbind (target_parse T F target_text) (\<lambda>target.
       if ca_certificates \<noteq> [] \<and> \<not> uses_tls target
       then Err (InvalidConfig ''--ca-cert is only valid for an https:// target'')
       else
         rbind (if uses_tls target then rmap Some (build_tls ca_certificates) else Ok None) (\<lambda>tls.
         Ok \<lparr>fc_listen = listen, fc_target = target, fc_dns = dns, fc_tls = tls,
             fc_connect_timeout = connect_timeout\<rparr>)))"

section \<open>The user-space network\<close>

definition session_random_seed :: "nat \<Rightarrow> session_info \<Rightarrow> 64 word" where
  "session_random_seed nanos info =
     of_nat nanos XOR push_bit 16 (ucast (info_token info)) XOR ucast (info_session_id info)"

record net_settings =
  ns_address :: ip_addr
  ns_prefix :: nat
  ns_gateways :: "ip_addr list"
  ns_random_seed :: "64 word"

definition build_userspace_net :: "nat \<Rightarrow> session_info \<Rightarrow> net_settings result" where
  "build_userspace_net nanos info =
     rbind (ok_or (MissingTlv ''IP'') (info_address info)) (\<lambda>address.
     Ok \<lparr>ns_address = address, ns_prefix = (if is_ipv4 address then 32 else 128),
         ns_gateways = (case info_gateway info of
                          Some g \<Rightarrow> if is_ipv4 g = is_ipv4 address then [g] else []
                        | None \<Rightarrow> []),
         ns_random_seed = session_random_seed nanos info\<rparr>)"

definition effective_dns_servers :: "socket_addr list \<Rightarrow> session_info \<Rightarrow> socket_addr list" where
  "effective_dns_servers configured info =
     foldl (\<lambda>servers a. let s = \<lparr>sa_ip = a, sa_port = 53\<rparr> in if s \<in> set servers then servers else servers @ [s])
       configured (filter (\<lambda>a. \<not> is_unspecified a \<and> \<not> is_multicast a) (info_dns_servers info))"

section \<open>The connector\<close>

datatype resolution_source = SourceFixed | SourceIwan socket_addr | SourceSystem

record cached_resolution =
  cr_addresses :: "socket_addr list"
  cr_source :: resolution_source
  cr_expires_at :: duration

record tcp_connector =
  tc_target :: forward_target
  tc_dns_mode :: resolve_via
  tc_dns_servers :: "socket_addr list"
  tc_timeout :: duration
  tc_ipv4 :: bool

text \<open>The state that the clones of a connector share: the cache and whether a default route exists.\<close>

record connector_state =
  kn_cache :: "cached_resolution option"
  kn_synthetic_route :: bool

definition build_tcp_connector ::
  "session_info \<Rightarrow> forward_target \<Rightarrow> resolver_config \<Rightarrow> duration \<Rightarrow> (tcp_connector \<times> connector_state) option" where
  "build_tcp_connector info target dns connect_timeout =
     map_option (\<lambda>address.
       (\<lparr>tc_target = target, tc_dns_mode = rcf_via dns,
         tc_dns_servers = (if rcf_include_session_servers dns then effective_dns_servers (rcf_servers dns) info
                           else rcf_servers dns),
         tc_timeout = connect_timeout, tc_ipv4 = is_ipv4 address\<rparr>,
        \<lparr>kn_cache = None,
         kn_synthetic_route = (case info_gateway info of
                                 Some g \<Rightarrow> is_ipv4 g = is_ipv4 address
                               | None \<Rightarrow> False)\<rparr>))
       (info_address info)"

text \<open>What one resolution meets: the clock before and after it, whether a default route can be added, the
  answers of the tunnel's resolvers (each a \<open>transport_lookup\<close>) and the answer of the host's resolver.\<close>

record resolve_env =
  re_now :: duration
  re_done :: duration
  re_add_route :: "ip_addr \<Rightarrow> bool"
  re_lookup :: "socket_addr \<Rightarrow> error_kind + dns_lookup"
  re_system :: "error_kind + socket_addr list"

abbreviation (input) SYSTEM_DNS_TTL :: duration where "SYSTEM_DNS_TTL \<equiv> 60000000"
abbreviation (input) MIN_DNS_TTL :: duration where "MIN_DNS_TTL \<equiv> 5000000"
abbreviation (input) MAX_DNS_TTL :: duration where "MAX_DNS_TTL \<equiv> 3600000000"

definition clamp_dns_ttl :: "duration \<Rightarrow> duration" where
  "clamp_dns_ttl ttl = (if ttl < MIN_DNS_TTL then MIN_DNS_TTL else if ttl > MAX_DNS_TTL then MAX_DNS_TTL else ttl)"

fun unique_addresses :: "socket_addr list \<Rightarrow> socket_addr list \<Rightarrow> socket_addr list" where
  "unique_addresses seen [] = seen"
| "unique_addresses seen (a # as) = unique_addresses (if a \<in> set seen then seen else seen @ [a]) as"

definition normalize_addresses :: "bool \<Rightarrow> socket_addr list \<Rightarrow> socket_addr list" where
  "normalize_addresses ipv4 as = unique_addresses [] (filter (\<lambda>a. is_ipv4 (sa_ip a) = ipv4) as)"

definition ensure_userspace_route :: "(ip_addr \<Rightarrow> bool) \<Rightarrow> ip_addr \<Rightarrow> bool \<Rightarrow> (error_kind + unit) \<times> bool" where
  "ensure_userspace_route add_route a route =
     (if route then (Inr (), True) else if add_route a then (Inr (), True) else (Inl OtherKind, False))"

fun iwan_servers_loop ::
  "tcp_connector \<Rightarrow> resolve_env \<Rightarrow> socket_addr list \<Rightarrow> error_kind option \<Rightarrow> bool \<Rightarrow> (error_kind + cached_resolution) \<times> bool" where
  "iwan_servers_loop C E [] last_error route = (Inl (opt_unwrap_or AddrNotAvailable last_error), route)"
| "iwan_servers_loop C E (srv # srvs) last_error route =
     (case ensure_userspace_route (re_add_route E) (sa_ip srv) route of
        (Inl k, route) \<Rightarrow> (Inl k, route)
      | (Inr _, route) \<Rightarrow>
          (case re_lookup E srv of
             Inl k \<Rightarrow> iwan_servers_loop C E srvs (Some k) route
           | Inr lookup \<Rightarrow>
               let addresses = normalize_addresses (tc_ipv4 C)
                     (map (\<lambda>a. \<lparr>sa_ip = a, sa_port = tgt_port (tc_target C)\<rparr>) (lk_addresses lookup))
               in
               if addresses = [] then iwan_servers_loop C E srvs (Some AddrNotAvailable) route
               else (Inr \<lparr>cr_addresses = addresses, cr_source = SourceIwan srv,
                          cr_expires_at = re_done E + clamp_dns_ttl (lk_ttl lookup)\<rparr>, route)))"

definition resolve_iwan_dns :: "tcp_connector \<Rightarrow> resolve_env \<Rightarrow> bool \<Rightarrow> (error_kind + cached_resolution) \<times> bool" where
  "resolve_iwan_dns C E route =
     (if tc_dns_servers C = [] then (Inl InvalidInput, route)
      else iwan_servers_loop C E (filter (\<lambda>s. is_ipv4 (sa_ip s) = tc_ipv4 C) (tc_dns_servers C)) None route)"

definition resolve_system_dns :: "tcp_connector \<Rightarrow> resolve_env \<Rightarrow> error_kind + cached_resolution" where
  "resolve_system_dns C E =
     (case re_system E of
        Inl k \<Rightarrow> Inl k
      | Inr as \<Rightarrow>
          let addresses = normalize_addresses (tc_ipv4 C) as in
          if addresses = [] then Inl AddrNotAvailable
          else Inr \<lparr>cr_addresses = addresses, cr_source = SourceSystem, cr_expires_at = re_done E + SYSTEM_DNS_TTL\<rparr>)"

definition resolve_uncached :: "tcp_connector \<Rightarrow> resolve_env \<Rightarrow> bool \<Rightarrow> (error_kind + cached_resolution) \<times> bool" where
  "resolve_uncached C E route =
     (case tc_dns_mode C of
        ViaTunnel \<Rightarrow> resolve_iwan_dns C E route
      | ViaSystem \<Rightarrow> (resolve_system_dns C E, route)
      | ViaAuto \<Rightarrow>
          if tc_dns_servers C = [] then (resolve_system_dns C E, route) else resolve_iwan_dns C E route)"

definition connector_resolve ::
  "addr_text \<Rightarrow> tcp_connector \<Rightarrow> resolve_env \<Rightarrow> connector_state \<Rightarrow> (error_kind + cached_resolution) \<times> connector_state" where
  "connector_resolve T C E st =
     (case at_parse T (tgt_host (tc_target C)) of
        Some a \<Rightarrow>
          (Inr \<lparr>cr_addresses = normalize_addresses (tc_ipv4 C) [\<lparr>sa_ip = a, sa_port = tgt_port (tc_target C)\<rparr>],
                cr_source = SourceFixed, cr_expires_at = re_done E + MAX_DNS_TTL\<rparr>, st)
      | None \<Rightarrow>
          (case opt_filter (\<lambda>r. cr_expires_at r > re_now E) (kn_cache st) of
             Some r \<Rightarrow> (Inr r, st)
           | None \<Rightarrow>
               (case resolve_uncached C E (kn_synthetic_route st) of
                  (Inl k, route) \<Rightarrow> (Inl k, st\<lparr>kn_synthetic_route := route\<rparr>)
                | (Inr r, route) \<Rightarrow> (Inr r, st\<lparr>kn_cache := Some r, kn_synthetic_route := route\<rparr>))))"

text \<open>A resolution under the time limit of the connector; \<open>cutoff\<close> says that the limit was reached, and whether a
  default route had been added until then.\<close>

definition timed_resolve ::
  "addr_text \<Rightarrow> tcp_connector \<Rightarrow> resolve_env \<Rightarrow> bool option \<Rightarrow> connector_state \<Rightarrow>
     (error_kind + cached_resolution) option \<times> connector_state" where
  "timed_resolve T C E cutoff st =
     (case cutoff of
        Some route \<Rightarrow> (None, st\<lparr>kn_synthetic_route := kn_synthetic_route st \<or> route\<rparr>)
      | None \<Rightarrow> (case connector_resolve T C E st of (r, st) \<Rightarrow> (Some r, st)))"

definition connector_preflight ::
  "addr_text \<Rightarrow> tcp_connector \<Rightarrow> resolve_env \<Rightarrow> bool option \<Rightarrow> connector_state \<Rightarrow> unit result \<times> connector_state" where
  "connector_preflight T C E cutoff st =
     (case timed_resolve T C E cutoff st of
        (None, st) \<Rightarrow> (Err (InvalidConfig ''DNS resolution for target {} timed out''), st)
      | (Some (Inl k), st) \<Rightarrow> (Err (InvalidConfig ''cannot resolve target {}: {error}''), st)
      | (Some (Inr r), st) \<Rightarrow>
          (case cr_addresses r of
             [] \<Rightarrow> (Err (InvalidConfig ''target {} has no {family} address matching the iWAN session''), st)
           | a # _ \<Rightarrow>
               (case ensure_userspace_route (re_add_route E) (sa_ip a) (kn_synthetic_route st) of
                  (r, route) \<Rightarrow>
                    (case r of Inl k \<Rightarrow> Err (Io k) | Inr _ \<Rightarrow> Ok (), st\<lparr>kn_synthetic_route := route\<rparr>))))"

text \<open>The attempts of a connection. An attempt on an address would take some time and end in some way; it is
  given up when its share of the remaining time is over. The result comes with the time elapsed and the flag for
  the default route.\<close>

definition attempt_budget :: "duration \<Rightarrow> nat \<Rightarrow> duration" where
  "attempt_budget remaining attempts_left = min remaining (max 1000 (remaining div min attempts_left (2 ^ 32 - 1)))"

fun connect_attempts ::
  "(ip_addr \<Rightarrow> bool) \<Rightarrow> (socket_addr \<Rightarrow> duration \<times> (error_kind + 'v)) \<Rightarrow> duration \<Rightarrow> socket_addr list \<Rightarrow> duration \<Rightarrow>
     error_kind option \<Rightarrow> bool \<Rightarrow> (error_kind + 'v) \<times> duration \<times> bool" where
  "connect_attempts add_route attempt limit [] elapsed last_error route =
     (Inl (opt_unwrap_or TimedOut last_error), elapsed, route)"
| "connect_attempts add_route attempt limit (a # as) elapsed last_error route =
     (case ensure_userspace_route add_route (sa_ip a) route of
        (Inl k, route) \<Rightarrow> (Inl k, elapsed, route)
      | (Inr _, route) \<Rightarrow>
          let remaining = limit - elapsed in
          if remaining = 0 then (Inl (opt_unwrap_or TimedOut last_error), elapsed, route)
          else
            let budget = attempt_budget remaining (Suc (length as)); (d, r) = attempt a in
            if d \<le> budget then
              (case r of
                 Inr v \<Rightarrow> (Inr v, elapsed + d, route)
               | Inl k \<Rightarrow> connect_attempts add_route attempt limit as (elapsed + d) (Some k) route)
            else connect_attempts add_route attempt limit as (elapsed + budget) (Some TimedOut) route)"

definition connect_with ::
  "addr_text \<Rightarrow> tcp_connector \<Rightarrow> resolve_env \<Rightarrow> bool option \<Rightarrow> (socket_addr \<Rightarrow> duration \<times> (error_kind + 'v)) \<Rightarrow> connector_state \<Rightarrow>
     (error_kind + 'v) \<times> duration \<times> connector_state" where
  "connect_with T C E cutoff attempt st =
     (case timed_resolve T C E cutoff st of
        (None, st) \<Rightarrow> (Inl TimedOut, tc_timeout C, st)
      | (Some (Inl k), st) \<Rightarrow> (Inl k, re_done E - re_now E, st)
      | (Some (Inr r), st) \<Rightarrow>
          if cr_addresses r = [] then (Inl AddrNotAvailable, re_done E - re_now E, st)
          else
            (case connect_attempts (re_add_route E) attempt (tc_timeout C) (cr_addresses r) (re_done E - re_now E) None
                    (kn_synthetic_route st) of
               (r, elapsed, route) \<Rightarrow> (r, elapsed, st\<lparr>kn_synthetic_route := route\<rparr>)))"

section \<open>Admission\<close>

abbreviation (input) MAX_CONNECTIONS :: nat where "MAX_CONNECTIONS \<equiv> 256"

datatype capacity_decision = CapAccept | CapRejectAndWarn | CapReject

definition capacity_decide :: "nat \<Rightarrow> bool \<Rightarrow> capacity_decision \<times> bool" where
  "capacity_decide active warning_active =
     (if active < MAX_CONNECTIONS then (CapAccept, warning_active)
      else if warning_active then (CapReject, warning_active)
      else (CapRejectAndWarn, True))"

definition reset_capacity_warning :: "nat \<Rightarrow> bool \<Rightarrow> bool" where
  "reset_capacity_warning active warning_active = (if active < MAX_CONNECTIONS then False else warning_active)"

text \<open>The loop of \<open>run_async\<close>: the connections, the flag, the warnings given so far and how the loop ended.\<close>

datatype loop_exit = ExitTunnel "session_end result option" | ExitAccept error_kind | ExitShutdown

record forward_state =
  fw_connections :: nat
  fw_warning :: bool
  fw_warnings :: nat
  fw_dropped :: nat
  fw_exit :: "loop_exit option"

definition forward_start :: forward_state where
  "forward_start = \<lparr>fw_connections = 0, fw_warning = False, fw_warnings = 0, fw_dropped = 0, fw_exit = None\<rparr>"

datatype forward_event =
    EvTunnel "session_end result option"
  | EvAccepted
  | EvAcceptFailed error_kind
  | EvJoined
  | EvTick bool \<comment> \<open>the shutdown flag at the tick\<close>

definition on_accepted :: "forward_state \<Rightarrow> forward_state" where
  "on_accepted s =
     (case capacity_decide (fw_connections s) (fw_warning s) of
        (CapAccept, w) \<Rightarrow> s\<lparr>fw_connections := fw_connections s + 1, fw_warning := w\<rparr>
      | (CapRejectAndWarn, w) \<Rightarrow> s\<lparr>fw_warning := w, fw_warnings := fw_warnings s + 1, fw_dropped := fw_dropped s + 1\<rparr>
      | (CapReject, w) \<Rightarrow> s\<lparr>fw_warning := w, fw_dropped := fw_dropped s + 1\<rparr>)"

definition on_joined :: "forward_state \<Rightarrow> forward_state" where
  "on_joined s =
     (let n = fw_connections s - 1
      in s\<lparr>fw_connections := n, fw_warning := reset_capacity_warning n (fw_warning s)\<rparr>)"

inductive forward_step :: "forward_state \<Rightarrow> forward_event \<Rightarrow> forward_state \<Rightarrow> bool" where
  step_tunnel: "fw_exit s = None \<Longrightarrow> forward_step s (EvTunnel r) (s\<lparr>fw_exit := Some (ExitTunnel r)\<rparr>)"
| step_accepted: "fw_exit s = None \<Longrightarrow> forward_step s EvAccepted (on_accepted s)"
| step_accept_failed: "fw_exit s = None \<Longrightarrow> forward_step s (EvAcceptFailed k) (s\<lparr>fw_exit := Some (ExitAccept k)\<rparr>)"
| step_joined: "fw_exit s = None \<Longrightarrow> 0 < fw_connections s \<Longrightarrow> forward_step s EvJoined (on_joined s)"
| step_tick: "fw_exit s = None \<Longrightarrow>
    forward_step s (EvTick stop) (if stop then s\<lparr>fw_exit := Some ExitShutdown\<rparr> else s)"

text \<open>A run of the loop: its events and the state it leads to.\<close>

inductive forward_run :: "forward_event list \<Rightarrow> forward_state \<Rightarrow> bool" where
  run_start: "forward_run [] forward_start"
| run_step: "forward_run es s \<Longrightarrow> forward_step s e s' \<Longrightarrow> forward_run (es @ [e]) s'"

inductive_simps forward_step_simps:
  "forward_step s (EvTunnel r) s'" "forward_step s EvAccepted s'" "forward_step s (EvAcceptFailed k) s'"
  "forward_step s EvJoined s'" "forward_step s (EvTick b) s'"

text \<open>The end of \<open>run_async\<close>: the result of the tunnel, which is waited for unless it ended the loop, comes before
  an error of the listener. A task that panicked gives \<open>None\<close>.\<close>

definition flatten_tunnel_result :: "session_end result option \<Rightarrow> session_end result" where
  "flatten_tunnel_result r = (case r of None \<Rightarrow> Err (Io OtherKind) | Some r \<Rightarrow> r)"

definition forward_result :: "loop_exit \<Rightarrow> session_end result option \<Rightarrow> session_end result" where
  "forward_result e awaited =
     rbind (flatten_tunnel_result (case e of ExitTunnel r \<Rightarrow> r | _ \<Rightarrow> awaited)) (\<lambda>end_reason.
       case e of ExitAccept k \<Rightarrow> Err (Io k) | _ \<Rightarrow> Ok end_reason)"

text \<open>\<open>preflight_connector\<close>: whichever of the tunnel and the preflight comes first; the flag says whether a shutdown
  was requested.\<close>

definition preflight_outcome :: "session_end result option option \<Rightarrow> unit result \<Rightarrow> session_end option result \<times> bool" where
  "preflight_outcome tunnel_first preflight =
     (case tunnel_first of
        Some r \<Rightarrow> (rmap Some (flatten_tunnel_result r), False)
      | None \<Rightarrow> (case preflight of Inl e \<Rightarrow> (Err e, True) | Inr _ \<Rightarrow> (Ok None, False)))"

section \<open>Devices and streams\<close>

text \<open>The packet device of the session: the packets of the user-space stack in order, and whether it still runs.\<close>

record channel_device =
  chd_outgoing :: "bytes list"
  chd_incoming :: "bytes list"
  chd_open :: bool

datatype channel_error = ChanWouldBlock | ChanBrokenPipe | ChanInvalidData

definition channel_read_packet :: "nat \<Rightarrow> channel_device \<Rightarrow> (channel_error + bytes) \<times> channel_device" where
  "channel_read_packet buffer_len d =
     (case chd_outgoing d of
        [] \<Rightarrow> (Inl (if chd_open d then ChanWouldBlock else ChanBrokenPipe), d)
      | packet # rest \<Rightarrow>
          (if length packet > buffer_len then Inl ChanInvalidData else Inr packet, d\<lparr>chd_outgoing := rest\<rparr>))"

definition channel_write_packet :: "bytes \<Rightarrow> channel_device \<Rightarrow> (channel_error + nat) \<times> channel_device" where
  "channel_write_packet packet d =
     (if chd_open d then (Inr (length packet), d\<lparr>chd_incoming := chd_incoming d @ [packet]\<rparr>)
      else (Inl ChanBrokenPipe, d))"

text \<open>The stream adapter: the answers of the inner stream to the calls made to it are given, and the calls are
  recorded.\<close>

datatype 'a poll = Pending | Ready "error_kind + 'a"

datatype inner_call = InWrite nat | InFlush bool | InShutdown \<comment> \<open>bytes taken; flushed\<close>

fun poll_ok :: "'a poll \<Rightarrow> bool" where
  "poll_ok (Ready (Inr _)) = True"
| "poll_ok _ = False"

record relay_stream =
  rs_write_flushed :: bool
  rs_calls :: "inner_call list"

definition relay_stream_new :: relay_stream where
  "relay_stream_new = \<lparr>rs_write_flushed = False, rs_calls = []\<rparr>"

definition relay_poll_write :: "nat poll \<Rightarrow> relay_stream \<Rightarrow> nat poll \<times> relay_stream" where
  "relay_poll_write answer s =
     (case answer of
        Ready (Inr n) \<Rightarrow>
          (answer, s\<lparr>rs_calls := rs_calls s @ [InWrite n], rs_write_flushed := (if n > 0 then False else rs_write_flushed s)\<rparr>)
      | _ \<Rightarrow> (answer, s\<lparr>rs_calls := rs_calls s @ [InWrite 0]\<rparr>))"

definition relay_poll_flush :: "unit poll \<Rightarrow> relay_stream \<Rightarrow> unit poll \<times> relay_stream" where
  "relay_poll_flush answer s =
     (answer, s\<lparr>rs_calls := rs_calls s @ [InFlush (poll_ok answer)],
        rs_write_flushed := (if poll_ok answer then True else rs_write_flushed s)\<rparr>)"

definition relay_poll_shutdown :: "unit poll \<Rightarrow> unit poll \<Rightarrow> relay_stream \<Rightarrow> unit poll \<times> relay_stream" where
  "relay_poll_shutdown flush_answer shutdown_answer s =
     (let finish = (\<lambda>s. (case shutdown_answer of Ready r \<Rightarrow> Ready r | Pending \<Rightarrow> Ready (Inr ()),
                        s\<lparr>rs_calls := rs_calls s @ [InShutdown]\<rparr>))
      in
      if rs_write_flushed s then finish s
      else
        let s = s\<lparr>rs_calls := rs_calls s @ [InFlush (poll_ok flush_answer)]\<rparr> in
        (case flush_answer of
           Ready (Inr _) \<Rightarrow> finish (s\<lparr>rs_write_flushed := True\<rparr>)
         | Ready (Inl k) \<Rightarrow> (Ready (Inl k), s)
         | Pending \<Rightarrow> (Pending, s)))"

section \<open>Resolutions\<close>

lemma unique_addresses_spec:
  "distinct seen \<Longrightarrow> distinct (unique_addresses seen as) \<and> set (unique_addresses seen as) = set seen \<union> set as"
  by (induction as arbitrary: seen) auto

lemma normalize_addresses_spec:
  "distinct (normalize_addresses v4 as)" "set (normalize_addresses v4 as) = {a \<in> set as. is_ipv4 (sa_ip a) = v4}"
  using unique_addresses_spec [of "[]"] by (auto simp: normalize_addresses_def)

text \<open>A resolution for a connector: every address belongs to the address family of the session and carries the port of
  the target, none is there twice, and the host's resolver is a source only where the mode allows it.\<close>

definition system_allowed :: "tcp_connector \<Rightarrow> bool" where
  "system_allowed C \<longleftrightarrow> tc_dns_mode C = ViaSystem \<or> tc_dns_mode C = ViaAuto \<and> tc_dns_servers C = []"

definition addresses_ok :: "tcp_connector \<Rightarrow> socket_addr list \<Rightarrow> bool" where
  "addresses_ok C as \<longleftrightarrow>
     distinct as \<and> (\<forall>a \<in> set as. is_ipv4 (sa_ip a) = tc_ipv4 C \<and> sa_port a = tgt_port (tc_target C))"

definition source_ok :: "tcp_connector \<Rightarrow> resolution_source \<Rightarrow> bool" where
  "source_ok C s \<longleftrightarrow>
     (case s of
        SourceFixed \<Rightarrow> False
      | SourceIwan srv \<Rightarrow> srv \<in> set (tc_dns_servers C) \<and> is_ipv4 (sa_ip srv) = tc_ipv4 C
      | SourceSystem \<Rightarrow> system_allowed C)"

definition resolution_ok :: "tcp_connector \<Rightarrow> cached_resolution \<Rightarrow> bool" where
  "resolution_ok C r \<longleftrightarrow> cr_addresses r \<noteq> [] \<and> addresses_ok C (cr_addresses r) \<and> source_ok C (cr_source r)"

text \<open>The host's resolver is asked for addresses with the port of the target and answers with that port.\<close>

definition system_ports :: "tcp_connector \<Rightarrow> resolve_env \<Rightarrow> bool" where
  "system_ports C E \<longleftrightarrow> (\<forall>as. re_system E = Inr as \<longrightarrow> (\<forall>a \<in> set as. sa_port a = tgt_port (tc_target C)))"

lemma iwan_loop_ok:
  assumes "iwan_servers_loop C E srvs err route = (Inr r, route')"
    "\<forall>s \<in> set srvs. s \<in> set (tc_dns_servers C) \<and> is_ipv4 (sa_ip s) = tc_ipv4 C"
  shows "resolution_ok C r"
  using assms
proof (induction srvs arbitrary: err route)
  case (Cons srv srvs)
  show ?case
  proof (cases "fst (ensure_userspace_route (re_add_route E) (sa_ip srv) route)")
    case (Inl k)
    with Cons.prems(1) show ?thesis by (cases "ensure_userspace_route (re_add_route E) (sa_ip srv) route") auto
  next
    case (Inr u)
    then obtain route1 where e: "ensure_userspace_route (re_add_route E) (sa_ip srv) route = (Inr u, route1)"
      by (cases "ensure_userspace_route (re_add_route E) (sa_ip srv) route") auto
    show ?thesis
    proof (cases "re_lookup E srv")
      case (Inl k)
      with Cons.prems e have "iwan_servers_loop C E srvs (Some k) route1 = (Inr r, route')" by simp
      from Cons.IH [OF this] Cons.prems(2) show ?thesis by simp
    next
      case (Inr lookup)
      let ?as = "normalize_addresses (tc_ipv4 C) (map (\<lambda>a. \<lparr>sa_ip = a, sa_port = tgt_port (tc_target C)\<rparr>) (lk_addresses lookup))"
      show ?thesis
      proof (cases "?as = []")
        case True
        with Cons.prems e Inr have "iwan_servers_loop C E srvs (Some AddrNotAvailable) route1 = (Inr r, route')" by simp
        from Cons.IH [OF this] Cons.prems(2) show ?thesis by simp
      next
        case False
        with Cons.prems(1) e Inr have "cr_addresses r = ?as" "cr_source r = SourceIwan srv" by (auto simp: Let_def)
        moreover have "addresses_ok C ?as" by (auto simp: addresses_ok_def normalize_addresses_spec)
        ultimately show ?thesis using False Cons.prems(2) by (auto simp: resolution_ok_def source_ok_def)
      qed
    qed
  qed
qed simp

lemma resolve_uncached_ok:
  assumes "resolve_uncached C E route = (Inr r, route')" "system_ports C E"
  shows "resolution_ok C r"
proof -
  have i: "resolution_ok C r" if "resolve_iwan_dns C E route = (Inr r, route')"
    using that iwan_loop_ok by (fastforce simp: resolve_iwan_dns_def split: if_splits)
  have s: "resolution_ok C r" if "resolve_system_dns C E = Inr r" "system_allowed C"
  proof -
    from that(1) obtain as where "re_system E = Inr as" "normalize_addresses (tc_ipv4 C) as \<noteq> []"
      "cr_addresses r = normalize_addresses (tc_ipv4 C) as" "cr_source r = SourceSystem"
      by (auto simp: resolve_system_dns_def Let_def split: sum.splits if_splits)
    then show ?thesis using assms(2) that(2)
      by (auto simp: resolution_ok_def source_ok_def addresses_ok_def normalize_addresses_spec system_ports_def)
  qed
  show ?thesis using assms(1) i s
    by (auto simp: resolve_uncached_def system_allowed_def split: resolve_via.splits if_splits)
qed

definition connector_ok :: "tcp_connector \<Rightarrow> connector_state \<Rightarrow> bool" where
  "connector_ok C st \<longleftrightarrow> pred_option (resolution_ok C) (kn_cache st)"

lemma connector_resolve_ok:
  assumes "connector_resolve T C E st = (r, st')" "connector_ok C st" "system_ports C E"
  shows "connector_ok C st' \<and> (\<forall>res. r = Inr res \<longrightarrow> addresses_ok C (cr_addresses res) \<and>
    (cr_source res = SourceFixed \<longleftrightarrow> at_parse T (tgt_host (tc_target C)) \<noteq> None) \<and> (cr_source res = SourceSystem \<longrightarrow> system_allowed C))"
proof (cases "at_parse T (tgt_host (tc_target C))")
  case (Some a)
  with assms(1,2) show ?thesis
    by (auto simp: connector_resolve_def addresses_ok_def normalize_addresses_spec)
next
  case None
  have src: "addresses_ok C (cr_addresses res) \<and> cr_source res \<noteq> SourceFixed \<and> (cr_source res = SourceSystem \<longrightarrow> system_allowed C)"
    if "resolution_ok C res" for res
    using that by (auto simp: resolution_ok_def source_ok_def)
  show ?thesis
  proof (cases "opt_filter (\<lambda>r. cr_expires_at r > re_now E) (kn_cache st)")
    case (Some res)
    then have "resolution_ok C res" using assms(2) by (auto simp: connector_ok_def)
    then show ?thesis using src assms(1,2) None Some by (auto simp: connector_resolve_def)
  next
    case miss: None
    obtain u route where u: "resolve_uncached C E (kn_synthetic_route st) = (u, route)" by fastforce
    show ?thesis
    proof (cases u)
      case (Inl k)
      then show ?thesis using assms(1,2) None miss u by (auto simp: connector_resolve_def connector_ok_def)
    next
      case (Inr res)
      with u resolve_uncached_ok assms(3) have "resolution_ok C res" by blast
      then show ?thesis using src assms(1,2) None miss u Inr by (auto simp: connector_resolve_def connector_ok_def)
    qed
  qed
qed

section \<open>Operations on a shared connector\<close>

text \<open>Any sequence of resolutions, preflights and connections of the clones of a connector.\<close>

inductive connector_run :: "addr_text \<Rightarrow> tcp_connector \<Rightarrow> connector_state \<Rightarrow> connector_state \<Rightarrow> bool" for T C st0 where
  run_init: "connector_run T C st0 st0"
| run_preflight: "connector_run T C st0 st \<Longrightarrow> system_ports C E \<Longrightarrow>
    connector_run T C st0 (snd (connector_preflight T C E cutoff st))"
| run_connect: "connector_run T C st0 st \<Longrightarrow> system_ports C E \<Longrightarrow>
    connector_run T C st0 (snd (snd (connect_with T C E cutoff (attempt :: socket_addr \<Rightarrow> duration \<times> (error_kind + unit)) st)))"

lemma timed_resolve_ok:
  assumes "connector_ok C st" "system_ports C E"
  shows "connector_ok C (snd (timed_resolve T C E cutoff st))"
  using connector_resolve_ok [OF _ assms] assms
  by (cases cutoff; cases "connector_resolve T C E st") (auto simp: timed_resolve_def connector_ok_def)

lemma connector_run_ok:
  assumes "connector_run T C st0 st" "connector_ok C st0"
  shows "connector_ok C st"
  using assms
proof (induction rule: connector_run.induct)
  case (run_preflight st E cutoff)
  then have "connector_ok C (snd (timed_resolve T C E cutoff st))" by (intro timed_resolve_ok)
  moreover have "kn_cache (snd (connector_preflight T C E cutoff st)) = kn_cache (snd (timed_resolve T C E cutoff st))"
    by (auto simp: connector_preflight_def split: prod.splits option.splits sum.splits list.splits)
  ultimately show ?case by (simp add: connector_ok_def)
next
  case (run_connect st E cutoff attempt)
  then have "connector_ok C (snd (timed_resolve T C E cutoff st))" by (intro timed_resolve_ok)
  moreover have "kn_cache (snd (snd (connect_with T C E cutoff attempt st))) = kn_cache (snd (timed_resolve T C E cutoff st))"
    by (auto simp: connect_with_def split: prod.splits option.splits sum.splits)
  ultimately show ?case by (simp add: connector_ok_def)
qed

lemma connector_ignores_host:
  assumes "\<not> system_allowed C"
  shows "connector_resolve T C (E\<lparr>re_system := x\<rparr>) st = connector_resolve T C E st"
proof -
  have loop: "iwan_servers_loop C (E\<lparr>re_system := x\<rparr>) srvs err route = iwan_servers_loop C E srvs err route" for srvs err route
    by (induction srvs arbitrary: err route) (auto simp: Let_def split: sum.splits prod.splits)
  have "resolve_uncached C (E\<lparr>re_system := x\<rparr>) route = resolve_uncached C E route" for route
    using assms by (cases "tc_dns_mode C") (simp_all add: resolve_uncached_def system_allowed_def resolve_iwan_dns_def loop)
  moreover have "re_now (E\<lparr>re_system := x\<rparr>) = re_now E" "re_done (E\<lparr>re_system := x\<rparr>) = re_done E" by simp_all
  ultimately show ?thesis unfolding connector_resolve_def by presburger
qed

text \<open>C25 (forward resolutions). Whatever preflights and connections were made before on a new connector, a resolution gives
  only addresses of the session's address family, each once and with the target's port, and it leaves the cache in that
  state. The host's resolver is a source only in system mode, or in automatic mode when there is no resolver in the
  tunnel; in all other cases its answer has no influence at all, so that names are not leaked past the tunnel.\<close>

theorem forward_resolution_sound:
  assumes "connector_run T C st0 st" "kn_cache st0 = None" "system_ports C E" "connector_resolve T C E st = (Inr r, st')"
  shows "addresses_ok C (cr_addresses r) \<and> connector_ok C st' \<and>
    (cr_source r = SourceFixed \<longleftrightarrow> at_parse T (tgt_host (tc_target C)) \<noteq> None) \<and> (cr_source r = SourceSystem \<longrightarrow> system_allowed C) \<and>
    (\<not> system_allowed C \<longrightarrow> (\<forall>x. connector_resolve T C (E\<lparr>re_system := x\<rparr>) st = connector_resolve T C E st))"
proof -
  have "connector_ok C st" using connector_run_ok [OF assms(1)] assms(2) by (simp add: connector_ok_def)
  note ok = connector_resolve_ok [OF assms(4) this assms(3)]
  show ?thesis using ok connector_ignores_host by blast
qed

text \<open>A connector for the name \<open>h.h.h.h\<close>, which is no address, with one resolver in the tunnel.\<close>

definition demo_connector :: tcp_connector where
  "demo_connector =
     \<lparr>tc_target = \<lparr>tgt_scheme = SchemeTcp, tgt_host = ascii_str ''h.h.h.h'', tgt_authority = [0x68], tgt_port = 22\<rparr>, tc_dns_mode = ViaAuto,
      tc_dns_servers = [\<lparr>sa_ip = V4 9, sa_port = 53\<rparr>], tc_timeout = 10000000, tc_ipv4 = True\<rparr>"

definition demo_resolve_env :: resolve_env where
  "demo_resolve_env =
     \<lparr>re_now = 0, re_done = 4000000, re_add_route = (\<lambda>_. True),
      re_lookup = (\<lambda>_. Inr \<lparr>lk_addresses = [V4 7, V6 1, V4 7], lk_ttl = 0\<rparr>), re_system = Inl NotFound\<rparr>"

lemma demo_resolves:
  "\<exists>r st'. connector_resolve demo_text demo_connector demo_resolve_env \<lparr>kn_cache = None, kn_synthetic_route = False\<rparr> = (Inr r, st') \<and>
     cr_addresses r = [\<lparr>sa_ip = V4 7, sa_port = 22\<rparr>]"
proof -
  have "at_parse demo_text (ascii_str ''h.h.h.h'') = None" by code_simp
  then have "connector_resolve demo_text demo_connector demo_resolve_env \<lparr>kn_cache = None, kn_synthetic_route = False\<rparr> =
     (Inr \<lparr>cr_addresses = [\<lparr>sa_ip = V4 7, sa_port = 22\<rparr>], cr_source = SourceIwan \<lparr>sa_ip = V4 9, sa_port = 53\<rparr>,
           cr_expires_at = 4000000 + clamp_dns_ttl 0\<rparr>,
      \<lparr>kn_cache = Some \<lparr>cr_addresses = [\<lparr>sa_ip = V4 7, sa_port = 22\<rparr>], cr_source = SourceIwan \<lparr>sa_ip = V4 9, sa_port = 53\<rparr>,
           cr_expires_at = 4000000 + clamp_dns_ttl 0\<rparr>, kn_synthetic_route = True\<rparr>)"
    by (simp add: connector_resolve_def demo_connector_def demo_resolve_env_def resolve_uncached_def resolve_iwan_dns_def
        ensure_userspace_route_def normalize_addresses_def)
  then show ?thesis by simp
qed

theorem forward_resolution_sound_witness:
  "\<exists>r st'. connector_resolve demo_text demo_connector demo_resolve_env \<lparr>kn_cache = None, kn_synthetic_route = False\<rparr> = (Inr r, st') \<and>
     cr_addresses r = [\<lparr>sa_ip = V4 7, sa_port = 22\<rparr>] \<and> addresses_ok demo_connector (cr_addresses r) \<and> connector_ok demo_connector st'"
proof -
  let ?st = "\<lparr>kn_cache = None, kn_synthetic_route = False\<rparr>"
  obtain r st' where r: "connector_resolve demo_text demo_connector demo_resolve_env ?st = (Inr r, st')"
    "cr_addresses r = [\<lparr>sa_ip = V4 7, sa_port = 22\<rparr>]" using demo_resolves by blast
  have run: "connector_run demo_text demo_connector ?st ?st" by (rule run_init)
  have none: "kn_cache ?st = None" by simp
  have ports: "system_ports demo_connector demo_resolve_env" by (simp add: system_ports_def demo_resolve_env_def)
  from forward_resolution_sound [OF run none ports r(1)] r show ?thesis by blast
qed

section \<open>Attempts\<close>

lemma attempt_budget_le: "attempt_budget r n \<le> r"
  by (simp add: attempt_budget_def)

lemma connect_attempts_time:
  assumes "elapsed \<le> limit"
  shows "fst (snd (connect_attempts add_route attempt limit as elapsed err route)) \<le> limit"
  using assms
proof (induction as arbitrary: elapsed err route)
  case (Cons a as)
  let ?b = "attempt_budget (limit - elapsed) (Suc (length as))"
  have b: "d \<le> ?b \<Longrightarrow> elapsed + d \<le> limit" for d
    using attempt_budget_le [of "limit - elapsed" "Suc (length as)"] Cons.prems by linarith
  show ?case
    by (cases "ensure_userspace_route add_route (sa_ip a) route"; cases "attempt a")
      (use Cons.prems in \<open>auto simp: Let_def intro: Cons.IH b split: sum.splits\<close>)
qed simp

text \<open>An address is reached if what is left at its turn is enough. The predicate \<open>ok\<close> says of a remaining time, a number of
  addresses left and the number of addresses to try before the one in question that this is so: it has to survive an
  attempt, which takes at most its budget.\<close>

lemma connect_attempts_reaches:
  assumes "\<And>R n i t. ok R (Suc n) (Suc i) \<Longrightarrow> t \<le> attempt_budget R (Suc n) \<Longrightarrow> ok (R - t) n i"
    "\<And>R n. ok R n 0 \<Longrightarrow> d \<le> attempt_budget R n" "\<And>R n i. ok R n i \<Longrightarrow> 0 < R"
    "i < length as" "attempt (as ! i) = (d, Inr v)" "ok (limit - elapsed) (length as) i" "route \<or> add_route (sa_ip (hd as))"
  shows "\<exists>v t r. connect_attempts add_route attempt limit as elapsed err route = (Inr v, t, r)"
  using assms(4-7)
proof (induction as arbitrary: i elapsed err route)
  case (Cons x xs)
  let ?b = "attempt_budget (limit - elapsed) (Suc (length xs))"
  have R: "0 < limit - elapsed" using assms(3) Cons.prems(3) by blast
  have e: "ensure_userspace_route add_route (sa_ip x) route = (Inr (), True)"
    using Cons.prems(4) by (cases route) (simp_all add: ensure_userspace_route_def)
  obtain d' r where at: "attempt x = (d', r)" by fastforce
  show ?case
  proof (cases i)
    case 0
    then have "d' = d" "r = Inr v" "d \<le> ?b" using at Cons.prems(2,3) assms(2) by simp_all
    then show ?thesis using R e at by (auto simp: Let_def)
  next
    case (Suc j)
    have ih: "\<exists>v t' r. connect_attempts add_route attempt limit xs (elapsed + t) err' True = (Inr v, t', r)" if "t \<le> ?b" for t err'
    proof -
      have "ok (limit - elapsed - t) (length xs) j" using assms(1) that Cons.prems(3) unfolding Suc list.size(4) add_Suc_right add_0_right by blast
      then show ?thesis using Cons.IH [of j "elapsed + t" True err'] Cons.prems(1,2) Suc by simp
    qed
    from ih [of d'] ih [of ?b] show ?thesis using R e at by (cases r) (auto simp: Let_def)
  qed
qed simp

lemma attempt_budget_eq: "0 < n \<Longrightarrow> n < 2 ^ 32 \<Longrightarrow> attempt_budget R n = min R (max 1000 (R div n))"
  by (simp add: attempt_budget_def)

text \<open>The two ways: the equal share of what was left at the start, and one millisecond for each address.\<close>

definition share_left :: "nat \<Rightarrow> nat \<Rightarrow> nat \<Rightarrow> nat \<Rightarrow> bool" where
  "share_left share R n i \<longleftrightarrow> i < n \<and> n < 2 ^ 32 \<and> 1000 \<le> share \<and> share * n \<le> R"

definition millis_left :: "nat \<Rightarrow> nat \<Rightarrow> nat \<Rightarrow> bool" where
  "millis_left R n i \<longleftrightarrow> i < n \<and> n < 2 ^ 32 \<and> (i + 1) * 1000 \<le> R"

lemma left_over_attempt:
  fixes R n t :: nat
  assumes "t \<le> R div Suc n" "share \<le> R div Suc n"
  shows "share * n \<le> R - t"
proof -
  have "R div Suc n * Suc n \<le> R" by (rule div_times_less_eq_dividend)
  then have "R div Suc n * n \<le> R - R div Suc n" by (simp add: algebra_simps)
  moreover have "share * n \<le> R div Suc n * n" using assms(2) by (rule mult_le_mono1)
  ultimately show ?thesis using assms(1) by linarith
qed

lemma share_left_step: "share_left share R (Suc n) (Suc i) \<Longrightarrow> t \<le> attempt_budget R (Suc n) \<Longrightarrow> share_left share (R - t) n i"
proof -
  assume a: "share_left share R (Suc n) (Suc i)" "t \<le> attempt_budget R (Suc n)"
  have s: "share \<le> R div Suc n" using a(1) by (simp add: share_left_def less_eq_div_iff_mult_less_eq del: mult_Suc_right)
  then have "1000 \<le> R div Suc n" using a(1) by (simp add: share_left_def)
  then have "t \<le> R div Suc n" using a by (simp add: attempt_budget_eq share_left_def)
  from left_over_attempt [OF this s] a(1) show ?thesis by (simp add: share_left_def)
qed

lemma millis_left_step: "millis_left R (Suc n) (Suc i) \<Longrightarrow> t \<le> attempt_budget R (Suc n) \<Longrightarrow> millis_left (R - t) n i"
proof -
  assume a: "millis_left R (Suc n) (Suc i)" "t \<le> attempt_budget R (Suc n)"
  have t: "t \<le> max 1000 (R div Suc n)" using a by (simp add: attempt_budget_eq millis_left_def)
  have "(i + 1) * 1000 \<le> R - t"
  proof (cases "R div Suc n \<le> 1000")
    case True
    then have "t \<le> 1000" using t by simp
    moreover have "(i + 2) * 1000 \<le> R" using a(1) by (simp add: millis_left_def)
    ultimately show ?thesis unfolding add_mult_distrib by linarith
  next
    case False
    then have "1000 * n \<le> R - t" using t left_over_attempt [of t R n 1000] by simp
    moreover have "(i + 1) * 1000 \<le> 1000 * n" using a(1) by (simp add: millis_left_def)
    ultimately show ?thesis by linarith
  qed
  then show ?thesis using a(1) by (simp add: millis_left_def)
qed

lemma connect_attempts_shares:
  fixes attempt :: "socket_addr \<Rightarrow> duration \<times> (error_kind + 'v)"
  assumes "i < length as" "length as < 2 ^ 32" "route \<or> add_route (sa_ip (hd as))" "attempt (as ! i) = (d, Inr v)"
    and "d \<le> share \<and> 1000 \<le> share \<and> share * length as \<le> limit - start \<or> d \<le> 1000 \<and> (i + 1) * 1000 \<le> limit - start"
  shows "\<exists>v t route'. connect_attempts add_route attempt limit as start None route = (Inr v, t, route')"
proof (cases "d \<le> share \<and> 1000 \<le> share \<and> share * length as \<le> limit - start")
  case True
  show ?thesis
  proof (rule connect_attempts_reaches [where ok = "share_left share" and i = i and d = d and v = v, OF share_left_step])
    show "d \<le> attempt_budget R n" if "share_left share R n 0" for R n
    proof -
      have "share \<le> R div n" using that by (simp add: share_left_def less_eq_div_iff_mult_less_eq)
      moreover have "R div n \<le> R" by (rule div_le_dividend)
      ultimately show ?thesis using that True by (simp add: share_left_def attempt_budget_eq)
    qed
    show "0 < R" if "share_left share R n j" for R n j using that by (auto simp: share_left_def intro: gr0I)
  qed (use assms True in \<open>auto simp: share_left_def\<close>)
next
  case False
  show ?thesis
  proof (rule connect_attempts_reaches [where ok = millis_left and i = i and d = d and v = v, OF millis_left_step])
    show "d \<le> attempt_budget R n" if "millis_left R n 0" for R n
      using that False assms(5) by (auto simp: millis_left_def attempt_budget_eq)
    show "0 < R" if "millis_left R n j" for R n j using that by (simp add: millis_left_def)
  qed (use assms False in \<open>auto simp: millis_left_def\<close>)
qed

text \<open>C26 (connection attempts). Connecting, the resolution included, ends within the connect timeout, with whatever result;
  and the time that is left after the resolution is divided fairly: an address that accepts a connection within the equal
  share of this time, if that is a millisecond or more, or within a millisecond, if there is that much for it and each address
  before it, is reached or another one before it, however slow or unreachable the addresses before it are.\<close>

theorem connect_fair_share:
  fixes attempt :: "socket_addr \<Rightarrow> duration \<times> (error_kind + 'v)"
  assumes "cutoff = None \<Longrightarrow> re_done E - re_now E \<le> tc_timeout C"
  shows "fst (snd (connect_with T C E cutoff attempt st)) \<le> tc_timeout C \<and>
    (\<forall>r st' i d v share.
       cutoff = None \<and> connector_resolve T C E st = (Inr r, st') \<and> i < length (cr_addresses r) \<and> length (cr_addresses r) < 2 ^ 32 \<and>
       (kn_synthetic_route st' \<or> re_add_route E (sa_ip (hd (cr_addresses r)))) \<and> attempt (cr_addresses r ! i) = (d, Inr v) \<and>
       (d \<le> share \<and> 1000 \<le> share \<and> share * length (cr_addresses r) \<le> tc_timeout C - (re_done E - re_now E) \<or>
        d \<le> 1000 \<and> (i + 1) * 1000 \<le> tc_timeout C - (re_done E - re_now E)) \<longrightarrow>
       (\<exists>v'. fst (connect_with T C E cutoff attempt st) = Inr v'))"
proof (intro conjI allI impI)
  show "fst (snd (connect_with T C E cutoff attempt st)) \<le> tc_timeout C"
  proof (cases cutoff)
    case (Some b)
    then show ?thesis by (simp add: connect_with_def timed_resolve_def)
  next
    case None
    note e = assms [OF None]
    obtain r st' where r: "connector_resolve T C E st = (r, st')" by fastforce
    have "fst (snd (connect_attempts (re_add_route E) attempt (tc_timeout C) as (re_done E - re_now E) None route)) \<le> tc_timeout C"
      for as route by (rule connect_attempts_time [OF e])
    moreover from this have "t \<le> tc_timeout C"
      if "connect_attempts (re_add_route E) attempt (tc_timeout C) as (re_done E - re_now E) None route = (q, t, route')" for as q t route route'
      using that by (metis fst_conv snd_conv)
    ultimately show ?thesis using e r None
      by (cases r) (auto simp: connect_with_def timed_resolve_def split: prod.splits)
  qed
next
  fix r :: cached_resolution and st' i d v share
  let ?as = "cr_addresses r" and ?left = "tc_timeout C - (re_done E - re_now E)"
  assume *: "cutoff = None \<and> connector_resolve T C E st = (Inr r, st') \<and> i < length ?as \<and> length ?as < 2 ^ 32 \<and>
    (kn_synthetic_route st' \<or> re_add_route E (sa_ip (hd ?as))) \<and> attempt (?as ! i) = (d, Inr v) \<and>
    (d \<le> share \<and> 1000 \<le> share \<and> share * length ?as \<le> ?left \<or> d \<le> 1000 \<and> (i + 1) * 1000 \<le> ?left)"
  then obtain v' t route where "connect_attempts (re_add_route E) attempt (tc_timeout C) ?as (re_done E - re_now E) None
      (kn_synthetic_route st') = (Inr v', t, route)"
    using connect_attempts_shares [of i ?as "kn_synthetic_route st'" "re_add_route E" attempt d v share "tc_timeout C" "re_done E - re_now E"] by blast
  moreover have "?as \<noteq> []" using * by auto
  ultimately show "\<exists>v'. fst (connect_with T C E cutoff attempt st) = Inr v'"
    using * by (simp add: connect_with_def timed_resolve_def)
qed

text \<open>Two addresses, of which the first never answers.\<close>

theorem connect_fair_share_witness:
  "\<exists>r st'. connector_resolve demo_text demo_connector (demo_resolve_env\<lparr>re_lookup := (\<lambda>_. Inr \<lparr>lk_addresses = [V4 7, V4 8], lk_ttl = 0\<rparr>)\<rparr>)
      \<lparr>kn_cache = None, kn_synthetic_route = False\<rparr> = (Inr r, st') \<and>
    cr_addresses r = [\<lparr>sa_ip = V4 7, sa_port = 22\<rparr>, \<lparr>sa_ip = V4 8, sa_port = 22\<rparr>] \<and>
    (\<exists>v. fst (connect_with demo_text demo_connector (demo_resolve_env\<lparr>re_lookup := (\<lambda>_. Inr \<lparr>lk_addresses = [V4 7, V4 8], lk_ttl = 0\<rparr>)\<rparr>)
      None (\<lambda>a. if sa_ip a = V4 7 then (99999999, Inl TimedOut) else (3000000, Inr ())) \<lparr>kn_cache = None, kn_synthetic_route = False\<rparr>) = Inr v)"
proof -
  let ?st = "\<lparr>kn_cache = None, kn_synthetic_route = False\<rparr>" and
    ?E = "demo_resolve_env\<lparr>re_lookup := (\<lambda>_. Inr \<lparr>lk_addresses = [V4 7, V4 8], lk_ttl = 0\<rparr>)\<rparr>" and
    ?at = "\<lambda>a. if sa_ip a = V4 7 then (99999999, Inl TimedOut) else (3000000, Inr ()) :: duration \<times> (error_kind + unit)"
  have "at_parse demo_text (ascii_str ''h.h.h.h'') = None" by code_simp
  then obtain r st' where r: "connector_resolve demo_text demo_connector ?E ?st = (Inr r, st')"
    "cr_addresses r = [\<lparr>sa_ip = V4 7, sa_port = 22\<rparr>, \<lparr>sa_ip = V4 8, sa_port = 22\<rparr>]"
    by (simp add: connector_resolve_def demo_connector_def demo_resolve_env_def resolve_uncached_def resolve_iwan_dns_def
        ensure_userspace_route_def normalize_addresses_def Let_def)
  have t: "tc_timeout demo_connector = 10000000" "re_done ?E - re_now ?E = 4000000" "re_add_route ?E a" for a
    by (simp_all add: demo_connector_def demo_resolve_env_def)
  have "re_done ?E - re_now ?E \<le> tc_timeout demo_connector" unfolding t by simp
  note all = conjunct2 [OF connect_fair_share [where T = demo_text and attempt = ?at and st = ?st and cutoff = None, OF this]]
  have "\<exists>v. fst (connect_with demo_text demo_connector ?E None ?at ?st) = Inr v"
    by (rule all [rule_format, of r st' 1 3000000 "()" 3000000]) (simp add: r, simp add: demo_connector_def demo_resolve_env_def)
  with r show ?thesis by blast
qed

section \<open>Admission: properties\<close>

definition count_event :: "forward_event \<Rightarrow> forward_event list \<Rightarrow> nat" where
  "count_event e es = length (filter (\<lambda>x. x = e) es)"

lemma count_event_snoc [simp]: "count_event e (es @ [x]) = count_event e es + (if x = e then 1 else 0)"
  by (simp add: count_event_def)

definition admission_ok :: "forward_event list \<Rightarrow> forward_state \<Rightarrow> bool" where
  "admission_ok es s \<longleftrightarrow>
     fw_connections s \<le> MAX_CONNECTIONS \<and>
     count_event EvAccepted es = fw_connections s + count_event EvJoined es + fw_dropped s \<and>
     (fw_warning s \<longrightarrow> fw_connections s = MAX_CONNECTIONS \<and> 0 < fw_warnings s) \<and>
     fw_warnings s \<le> fw_dropped s \<and> (0 < fw_dropped s \<longrightarrow> 0 < fw_warnings s) \<and>
     fw_warnings s \<le> count_event EvJoined es + (if fw_warning s then 1 else 0)"

lemma admission_step:
  assumes "forward_step s e s'" "admission_ok es s"
  shows "admission_ok (es @ [e]) s'"
  using assms
proof (cases e)
  case (EvTick b)
  with assms show ?thesis by (auto simp: forward_step_simps admission_ok_def)
next
  case EvAccepted
  with assms show ?thesis
    by (auto simp: forward_step_simps admission_ok_def on_accepted_def capacity_decide_def)
next
  case EvJoined
  with assms(1) obtain n where n: "fw_connections s = Suc n" and s': "s' = on_joined s"
    by (auto simp: forward_step_simps gr0_conv_Suc)
  then have "n < 256" using assms(2) by (simp add: admission_ok_def)
  then have "s' = s\<lparr>fw_connections := n, fw_warning := False\<rparr>"
    by (simp add: s' on_joined_def n reset_capacity_warning_def)
  with assms(2) n \<open>n < 256\<close> EvJoined show ?thesis by (cases "fw_warning s") (simp_all add: admission_ok_def)
qed (auto simp: forward_step_simps admission_ok_def)

text \<open>C27 (forward admission). In every run of the forwarding loop there are at most 256 connections at a time; every
  connection that was accepted is still served, has finished or was dropped; nothing is dropped without a warning having
  been given, and there is at most one warning more than connections that finished, however many are dropped.\<close>

theorem forward_admission:
  assumes "forward_run es s"
  shows "fw_connections s \<le> 256 \<and> count_event EvAccepted es = fw_connections s + count_event EvJoined es + fw_dropped s \<and>
    (0 < fw_dropped s \<longrightarrow> 0 < fw_warnings s) \<and> fw_warnings s \<le> count_event EvJoined es + 1"
proof -
  have "admission_ok es s"
    using assms
  proof (induction rule: forward_run.induct)
    case run_start
    show ?case by (simp add: admission_ok_def forward_start_def count_event_def)
  qed (rule admission_step)
  then show ?thesis by (auto simp: admission_ok_def split: if_splits)
qed

theorem forward_admission_witness: "\<exists>s. forward_run [EvAccepted, EvJoined] s \<and> fw_connections s \<le> 256"
proof -
  have "forward_run [EvAccepted] (on_accepted forward_start)"
    using run_step [OF run_start step_accepted] by (simp add: forward_start_def)
  then have r: "forward_run [EvAccepted, EvJoined] (on_joined (on_accepted forward_start))"
    using run_step [of "[EvAccepted]", OF _ step_joined] by (simp add: forward_start_def on_accepted_def capacity_decide_def)
  with forward_admission [OF r] show ?thesis by blast
qed

section \<open>The stream adapter: properties\<close>

datatype relay_op = RelayWrite "nat poll" | RelayFlush "unit poll" | RelayShutdown "unit poll" "unit poll"

fun relay_op_step :: "relay_op \<Rightarrow> relay_stream \<Rightarrow> relay_stream" where
  "relay_op_step (RelayWrite a) s = snd (relay_poll_write a s)"
| "relay_op_step (RelayFlush a) s = snd (relay_poll_flush a s)"
| "relay_op_step (RelayShutdown a b) s = snd (relay_poll_shutdown a b s)"

text \<open>The inner stream is shut down only while everything written has been flushed.\<close>

fun orderly :: "bool \<Rightarrow> inner_call list \<Rightarrow> bool" where
  "orderly flushed [] = True"
| "orderly flushed (InWrite n # cs) = orderly (flushed \<and> n = 0) cs"
| "orderly flushed (InFlush ok # cs) = orderly (flushed \<or> ok) cs"
| "orderly flushed (InShutdown # cs) = (flushed \<and> orderly flushed cs)"

fun flushed_after :: "bool \<Rightarrow> inner_call list \<Rightarrow> bool" where
  "flushed_after flushed [] = flushed"
| "flushed_after flushed (InWrite n # cs) = flushed_after (flushed \<and> n = 0) cs"
| "flushed_after flushed (InFlush ok # cs) = flushed_after (flushed \<or> ok) cs"
| "flushed_after flushed (InShutdown # cs) = flushed_after flushed cs"

lemma orderly_append: "orderly f (cs @ ds) \<longleftrightarrow> orderly f cs \<and> orderly (flushed_after f cs) ds"
  by (induction f cs rule: flushed_after.induct) auto

lemma flushed_after_append: "flushed_after f (cs @ ds) = flushed_after (flushed_after f cs) ds"
  by (induction f cs rule: flushed_after.induct) auto

definition relay_ok :: "relay_stream \<Rightarrow> bool" where
  "relay_ok s \<longleftrightarrow> orderly False (rs_calls s) \<and> rs_write_flushed s = flushed_after False (rs_calls s)"

lemma relay_op_step_ok: "relay_ok s \<Longrightarrow> relay_ok (relay_op_step op s)"
proof (cases op)
  case (RelayWrite a)
  then show "relay_ok s \<Longrightarrow> ?thesis"
    by (cases a; auto simp: relay_ok_def relay_poll_write_def orderly_append flushed_after_append split: sum.splits)
next
  case (RelayFlush a)
  then show "relay_ok s \<Longrightarrow> ?thesis"
    by (auto simp: relay_ok_def relay_poll_flush_def orderly_append flushed_after_append)
next
  case (RelayShutdown a b)
  then show "relay_ok s \<Longrightarrow> ?thesis"
    by (cases a; auto simp: relay_ok_def relay_poll_shutdown_def orderly_append flushed_after_append Let_def split: sum.splits)
qed

text \<open>(flush before close). Whatever the calls on a forwarded stream and the answers of the stream below are, the
  stream below is asked to close only when everything written to it has been flushed since, so that no data is lost by the
  early close.\<close>

theorem relay_flushes_before_close:
  "orderly False (rs_calls (fold relay_op_step ops relay_stream_new))"
proof -
  have "relay_ok s \<Longrightarrow> relay_ok (fold relay_op_step ops s)" for s
    by (induction ops arbitrary: s) (simp_all add: relay_op_step_ok)
  moreover have "relay_ok relay_stream_new" by (simp add: relay_ok_def relay_stream_new_def)
  ultimately show ?thesis unfolding relay_ok_def by blast
qed

section \<open>Configurations: properties\<close>

lemma target_parse_OkD:
  assumes "target_parse T F v = Ok t"
  shows "tgt_port t \<noteq> 0 \<and> fl_authority_ok F (tgt_authority t) \<and> (uses_tls t \<longrightarrow> fl_server_name_ok F (tgt_host t)) \<and>
    (\<forall>a. at_parse T (tgt_host t) = Some a \<longrightarrow> \<not> is_unspecified a \<and> \<not> is_multicast a)"
proof -
  from assms obtain u scheme host port where h: "parse_target_host T F u = Ok host" and p: "port \<noteq> 0"
    and s: "scheme = SchemeHttps \<longrightarrow> fl_server_name_ok F host"
    and a: "target_authority T F scheme host port (fu_port u) = Ok (tgt_authority t)"
    and t: "tgt_scheme t = scheme" "tgt_host t = host" "tgt_port t = port"
    by (auto simp: target_parse_def Let_def rbind_eq_Ok split: if_split_asm) blast+
  have "\<forall>x. at_parse T host = Some x \<longrightarrow> \<not> is_unspecified x \<and> \<not> is_multicast x"
    using h by (auto simp: parse_target_host_def rbind_eq_Ok split: option.splits if_splits)
  moreover have "fl_authority_ok F (tgt_authority t)" using a by (auto simp: target_authority_def Let_def split: if_splits)
  ultimately show ?thesis using p s t by (simp add: uses_tls_def)
qed

text \<open>(forward configuration). An accepted forward listens on a loopback address only, so it is not open to the network; its
  target has a port and is not a multicast or unspecified address; TLS is set up exactly for HTTPS targets, whose host
  is a valid TLS name; the time limit is positive and the resolvers are usable.\<close>

theorem forward_config_sound:
  assumes "forward_config_new T F build_tls listen target_text dns certs limit = Ok c"
  shows "is_loopback (sa_ip (fc_listen c)) \<and> 0 < fc_connect_timeout c \<and> resolver_config_validate (fc_dns c) = Ok () \<and>
    (uses_tls (fc_target c) \<longleftrightarrow> fc_tls c \<noteq> None) \<and> (certs \<noteq> [] \<longrightarrow> uses_tls (fc_target c)) \<and> tgt_port (fc_target c) \<noteq> 0 \<and>
    (uses_tls (fc_target c) \<longrightarrow> fl_server_name_ok F (tgt_host (fc_target c))) \<and>
    (\<forall>a. at_parse T (tgt_host (fc_target c)) = Some a \<longrightarrow> \<not> is_unspecified a \<and> \<not> is_multicast a)"
proof -
  from assms obtain t tls where "resolver_config_validate dns = Ok ()" "is_loopback (sa_ip listen)" "limit \<noteq> 0"
    and t: "target_parse T F target_text = Ok t" and "certs \<noteq> [] \<longrightarrow> uses_tls t"
    and "(if uses_tls t then rmap Some (build_tls certs) else Ok None) = Ok tls"
    and "c = \<lparr>fc_listen = listen, fc_target = t, fc_dns = dns, fc_tls = tls, fc_connect_timeout = limit\<rparr>"
    by (auto simp: forward_config_new_def rbind_eq_Ok split: if_split_asm)
  then show ?thesis using target_parse_OkD [OF t] by (auto simp: rmap_def rbind_eq_Ok split: if_splits sum.splits)
qed

definition demo_forward_lib :: forward_lib where
  "demo_forward_lib =
     \<lparr>fl_url_parse = (\<lambda>_. Some \<lparr>url_scheme = ascii_str ''tcp'', url_host = Some (ascii_str ''h.h.h.h''), url_username = [], url_password = None,
        url_path = [], url_query = None, url_fragment = None, fu_host = Some (HostDomain (ascii_str ''h.h.h.h'')), fu_port = Some 22,
        fu_known_port = Some 22\<rparr>),
      fl_name_is_root = (\<lambda>_. Some False), fl_server_name_ok = (\<lambda>_. True), fl_authority_ok = (\<lambda>_. True)\<rparr>"

lemma demo_forward_config:
  assumes "resolver_config_validate dns = Ok ()"
  shows "\<exists>c. forward_config_new demo_text demo_forward_lib (\<lambda>_. Ok ()) \<lparr>sa_ip = V4 0x7f000001, sa_port = 8022\<rparr> (ascii_str ''tcp://h.h.h.h:22'')
     dns [] 1000 = Ok c"
proof -
  let ?v = "ascii_str ''tcp://h.h.h.h:22''"
  have v: "str_trim ?v = ?v" "split_once_str (ascii_str ''://'') ?v = Some (ascii_str ''tcp'', ascii_str ''h.h.h.h:22'')"
    "?v \<noteq> []" "0x40 \<notin> set (takeWhile (\<lambda>c. c \<notin> {SLASH, 0x3f, 0x23}) (ascii_str ''h.h.h.h:22''))"
    "scheme_of (ascii_str ''tcp'') = Some SchemeTcp"
    by (simp_all add: str_trim_def ascii_str_def is_whitespace_def scheme_of_def)
  have none: "at_parse demo_text (ascii_str ''h.h.h.h'') = None" by code_simp
  define u where "u = the (fl_url_parse demo_forward_lib ?v)"
  have u: "fl_url_parse demo_forward_lib ?v = Some u" "url_scheme u = ascii_str ''tcp''" "url_username u = []" "url_password u = None"
    "url_path u = []" "url_query u = None" "url_fragment u = None" "fu_host u = Some (HostDomain (ascii_str ''h.h.h.h''))" "fu_port u = Some 22"
    by (simp_all add: u_def demo_forward_lib_def)
  have l: "fl_name_is_root demo_forward_lib h = Some False" "fl_authority_ok demo_forward_lib h" for h
    by (simp_all add: demo_forward_lib_def)
  have host: "parse_target_host demo_text demo_forward_lib u = Ok (ascii_str ''h.h.h.h'')"
    by (simp add: parse_target_host_def u l none ok_or_def)
  have "\<exists>t. target_parse demo_text demo_forward_lib ?v = Ok t \<and> tgt_scheme t = SchemeTcp"
    by (simp add: target_parse_def v u none ok_or_def Let_def host target_port_def target_authority_def l del: insert_iff)
  then obtain t where "target_parse demo_text demo_forward_lib ?v = Ok t" "tgt_scheme t = SchemeTcp" by blast
  moreover have "is_loopback (V4 0x7f000001)" by simp
  ultimately show ?thesis using assms by (simp add: forward_config_new_def uses_tls_def)
qed

theorem forward_config_sound_witness:
  "\<exists>c. forward_config_new demo_text demo_forward_lib (\<lambda>_. Ok ()) \<lparr>sa_ip = V4 0x7f000001, sa_port = 8022\<rparr> (ascii_str ''tcp://h.h.h.h:22'')
     resolver_config_default [] 1000 = Ok c \<and> is_loopback (sa_ip (fc_listen c))"
proof -
  have "resolver_config_validate resolver_config_default = Ok ()"
    by (simp add: resolver_config_validate_def resolver_config_default_def)
  from demo_forward_config [OF this] forward_config_sound show ?thesis by blast
qed

end
