(* ===== verification/Http_Forward.thy ===== *)
theory Http_Forward
  imports Forward Managed_Controller
begin

text \<open>
  HTTP forwarding (\<open>src/bin/openiwan/http_forward.rs\<close>): what the local proxy changes in requests and answers, and
  which connections it makes.

  The header map, the header values and the URIs of the crate \<open>http\<close> are the parameters \<open>header_lib\<close> and
  \<open>uri_lib\<close>, with their documented behaviour as the predicates \<open>header_lib_ok\<close> and \<open>uri_lib_ok\<close>. The answer
  of the HTTP client to a request is an argument.
\<close>

section \<open>The libraries\<close>

text \<open>Header names are lower-case texts; a value is a list of bytes.\<close>

record 'h header_lib =
  hl_get_all :: "'h \<Rightarrow> ustr \<Rightarrow> bytes list"
  hl_remove :: "ustr \<Rightarrow> 'h \<Rightarrow> 'h"
  hl_insert :: "ustr \<Rightarrow> bytes \<Rightarrow> 'h \<Rightarrow> 'h"
  hl_empty :: 'h
  hl_name :: "ustr \<Rightarrow> ustr option" \<comment> \<open>\<open>HeaderName::from_bytes\<close>\<close>
  hl_to_str :: "bytes \<Rightarrow> ustr option" \<comment> \<open>\<open>HeaderValue::to_str\<close>\<close>
  hl_from_str :: "ustr \<Rightarrow> bytes option" \<comment> \<open>\<open>HeaderValue::from_str\<close>\<close>

definition header_lib_ok :: "'h header_lib \<Rightarrow> bool" where
  "header_lib_ok H \<longleftrightarrow>
     (\<forall>h n m. hl_get_all H (hl_remove H n h) m = (if m = n then [] else hl_get_all H h m)) \<and>
     (\<forall>h n v m. hl_get_all H (hl_insert H n v h) m = (if m = n then [v] else hl_get_all H h m))"

record http_uri =
  uri_scheme :: "ustr option"
  uri_authority :: "ustr option"
  uri_path_and_query :: "ustr option"

record uri_lib =
  ul_build :: "ustr \<Rightarrow> ustr \<Rightarrow> ustr \<Rightarrow> http_uri option" \<comment> \<open>scheme, authority, path and query\<close>
  ul_authority_eq :: "ustr \<Rightarrow> ustr \<Rightarrow> bool" \<comment> \<open>an authority and a text\<close>

definition uri_lib_ok :: "uri_lib \<Rightarrow> bool" where
  "uri_lib_ok U \<longleftrightarrow>
     (\<forall>s a p u. ul_build U s a p = Some u \<longrightarrow> uri_scheme u = Some s \<and> uri_authority u = Some a \<and> uri_path_and_query u = Some p) \<and>
     (\<forall>a. ul_authority_eq U a a)"

section \<open>TLS roots\<close>

text \<open>\<open>build_tls_connector\<close> up to the configuration of the TLS crate: the number of usable roots.\<close>

fun add_ca_files ::
  "(ustr \<Rightarrow> 'cert list option option) \<Rightarrow> ('cert \<Rightarrow> bool) \<Rightarrow> ustr list \<Rightarrow> nat \<Rightarrow> nat result" where
  "add_ca_files read_file valid [] added = Ok added"
| "add_ca_files read_file valid (path # paths) added =
     (case read_file path of
        None \<Rightarrow> Err (InvalidConfig ''cannot open CA file {}: {error}'')
      | Some None \<Rightarrow> Err (InvalidConfig ''cannot parse CA file {}: {error}'')
      | Some (Some certificates) \<Rightarrow>
          if certificates = [] then Err (InvalidConfig ''CA file {} contains no certificates'')
          else if \<not> list_all valid certificates then Err (InvalidConfig ''invalid certificate in CA file {}: {error}'')
          else add_ca_files read_file valid paths (added + length certificates))"

definition build_tls_connector ::
  "nat \<Rightarrow> (ustr \<Rightarrow> 'cert list option option) \<Rightarrow> ('cert \<Rightarrow> bool) \<Rightarrow> (nat \<Rightarrow> 'tls result) \<Rightarrow> ustr list \<Rightarrow> 'tls result" where
  "build_tls_connector native_added read_file valid finish ca_certificates =
     rbind (add_ca_files read_file valid ca_certificates 0) (\<lambda>custom_added.
     if native_added + custom_added = 0 then Err (InvalidConfig ''no usable TLS root certificates were loaded'')
     else finish (native_added + custom_added))"

section \<open>Headers\<close>

definition hop_by_hop :: "ustr list" where
  "hop_by_hop = map ascii_str
     [''connection'', ''keep-alive'', ''proxy-authenticate'', ''proxy-authorization'', ''proxy-connection'', ''te'', ''trailer'',
      ''transfer-encoding'', ''upgrade'']"

definition connection_headers :: "'h header_lib \<Rightarrow> 'h \<Rightarrow> ustr list" where
  "connection_headers H hs =
     List.map_filter (\<lambda>name. hl_name H (str_trim name))
       (concat (map (split_char 0x2c) (List.map_filter (hl_to_str H) (hl_get_all H hs (ascii_str ''connection'')))))"

definition strip_hop_by_hop :: "'h header_lib \<Rightarrow> 'h \<Rightarrow> 'h" where
  "strip_hop_by_hop H hs = fold (hl_remove H) hop_by_hop (fold (hl_remove H) (connection_headers H hs) hs)"

definition relative_location :: "forward_url \<Rightarrow> ustr" where
  "relative_location location =
     url_path location @
     (case url_query location of None \<Rightarrow> [] | Some q \<Rightarrow> 0x3f # q) @
     (case url_fragment location of None \<Rightarrow> [] | Some f \<Rightarrow> 0x23 # f)"

definition same_host :: "addr_text \<Rightarrow> forward_target \<Rightarrow> url_host_kind option \<Rightarrow> bool" where
  "same_host T target h \<longleftrightarrow>
     (case h of
        Some (HostDomain d) \<Rightarrow> eq_ignore_ascii_case d (tgt_host target)
      | Some (HostIp a) \<Rightarrow> at_parse T (tgt_host target) = Some a
      | None \<Rightarrow> False)"

definition same_origin :: "addr_text \<Rightarrow> forward_target \<Rightarrow> forward_url \<Rightarrow> bool" where
  "same_origin T target location \<longleftrightarrow>
     url_scheme location = scheme_as_str (tgt_scheme target) \<and> same_host T target (fu_host location) \<and>
     fu_known_port location = Some (tgt_port target)"

definition rewrite_location :: "addr_text \<Rightarrow> forward_lib \<Rightarrow> 'h header_lib \<Rightarrow> forward_target \<Rightarrow> 'h \<Rightarrow> 'h" where
  "rewrite_location T F H target hs =
     (case hl_get_all H hs (ascii_str ''location'') of
        [] \<Rightarrow> hs
      | v # _ \<Rightarrow>
          (case opt_and_then (hl_to_str H v) (fl_url_parse F) of
             None \<Rightarrow> hs
           | Some location \<Rightarrow>
               if \<not> same_origin T target location then hs
               else
                 (case hl_from_str H (relative_location location) of
                    None \<Rightarrow> hs
                  | Some v \<Rightarrow> hl_insert H (ascii_str ''location'') v hs)))"

section \<open>Requests\<close>

record 'h proxy_message =
  pm_connect :: bool \<comment> \<open>the method is \<open>CONNECT\<close>\<close>
  pm_uri :: http_uri
  pm_headers :: 'h
  pm_http_11 :: bool

datatype proxy_status = UpstreamStatus u16 | BadRequest | GatewayTimeout | BadGateway

datatype proxy_body = UpstreamBody | MessageBody ustr

record 'h proxy_response =
  pr_status :: proxy_status
  pr_headers :: 'h
  pr_body :: proxy_body

text \<open>An error of the client is the chain of its sources, each an I/O error or not.\<close>

definition is_timeout_error :: "error_kind option list \<Rightarrow> bool" where
  "is_timeout_error chain \<longleftrightarrow> list_ex (\<lambda>k. k = Some TimedOut) chain"

definition error_response :: "'h header_lib \<Rightarrow> proxy_status \<Rightarrow> 'h proxy_response" where
  "error_response H status =
     \<lparr>pr_status = status,
      pr_headers = hl_insert H (ascii_str ''content-type'') (map of_nat (ascii_str ''text/plain; charset=utf-8'')) (hl_empty H),
      pr_body = MessageBody (case status of
        BadRequest \<Rightarrow> ascii_str ''bad request'' @ [0x0a]
      | GatewayTimeout \<Rightarrow> ascii_str ''target connection timed out'' @ [0x0a]
      | _ \<Rightarrow> ascii_str ''target unavailable'' @ [0x0a])\<rparr>"

definition request_uri :: "uri_lib \<Rightarrow> forward_target \<Rightarrow> http_uri \<Rightarrow> http_uri option" where
  "request_uri U target incoming =
     ul_build U (scheme_as_str (tgt_scheme target)) (tgt_authority target) (opt_unwrap_or [SLASH] (uri_path_and_query incoming))"

definition matches_target_uri :: "uri_lib \<Rightarrow> forward_target \<Rightarrow> http_uri \<Rightarrow> bool" where
  "matches_target_uri U target uri \<longleftrightarrow>
     uri_scheme uri = Some (scheme_as_str (tgt_scheme target)) \<and>
     (case uri_authority uri of None \<Rightarrow> False | Some a \<Rightarrow> ul_authority_eq U a (tgt_authority target))"

text \<open>\<open>HttpConnector::connect\<close>: the connection of the TCP connector, refused for other destinations. \<open>tls\<close> is
  the handshake, whose name was checked when the target was parsed.\<close>

datatype connect_refusal = PermissionDenied | InvalidServerName | ConnectFailed error_kind

definition http_connect ::
  "uri_lib \<Rightarrow> forward_lib \<Rightarrow> forward_target \<Rightarrow> (bool \<Rightarrow> error_kind + 'c) \<Rightarrow> http_uri \<Rightarrow> connect_refusal + 'c" where
  "http_connect U F target connect uri =
     (if \<not> matches_target_uri U target uri then Inl PermissionDenied
      else if uses_tls target \<and> \<not> fl_server_name_ok F (tgt_host target) then Inl InvalidServerName
      else (case connect (uses_tls target) of Inl k \<Rightarrow> Inl (ConnectFailed k) | Inr c \<Rightarrow> Inr c))"

text \<open>\<open>proxy_request\<close>: the answer for the local client, and the request sent to the target, if any.\<close>

definition forwarded_request ::
  "'h header_lib \<Rightarrow> forward_target \<Rightarrow> http_uri \<Rightarrow> bytes \<Rightarrow> 'h proxy_message \<Rightarrow> 'h proxy_message" where
  "forwarded_request H target uri host q =
     q\<lparr>pm_headers := hl_insert H (ascii_str ''host'') host (strip_hop_by_hop H (pm_headers q)),
       pm_uri := uri, pm_http_11 := True\<rparr>"

definition proxy_request ::
  "addr_text \<Rightarrow> forward_lib \<Rightarrow> 'h header_lib \<Rightarrow> uri_lib \<Rightarrow> forward_target \<Rightarrow>
     ('h proxy_message \<Rightarrow> error_kind option list + u16 \<times> 'h) \<Rightarrow> 'h proxy_message \<Rightarrow>
     'h proxy_response \<times> 'h proxy_message option" where
  "proxy_request T F H U target client q =
     (if pm_connect q \<or> hl_get_all H (pm_headers q) (ascii_str ''upgrade'') \<noteq> []
      then (error_response H BadRequest, None)
      else case request_uri U target (pm_uri q) of
        None \<Rightarrow> (error_response H BadRequest, None)
      | Some uri \<Rightarrow>
          (case hl_from_str H (tgt_authority target) of
             None \<Rightarrow> (error_response H BadGateway, None)
           | Some host \<Rightarrow>
               let q' = forwarded_request H target uri host q in
               (case client q' of
                  Inr (status, hs) \<Rightarrow>
                    \<lparr>pr_status = UpstreamStatus status,
                     pr_headers = rewrite_location T F H target (strip_hop_by_hop H hs), pr_body = UpstreamBody\<rparr>
                | Inl chain \<Rightarrow> error_response H (if is_timeout_error chain then GatewayTimeout else BadGateway),
                Some q')))"

section \<open>Properties\<close>

lemma fold_remove_get:
  assumes "header_lib_ok H"
  shows "hl_get_all H (fold (hl_remove H) ns h) m = (if m \<in> set ns then [] else hl_get_all H h m)"
  using assms by (induction ns arbitrary: h) (auto simp: header_lib_ok_def)

lemma strip_get:
  assumes "header_lib_ok H"
  shows "hl_get_all H (strip_hop_by_hop H h) m =
    (if m \<in> set hop_by_hop \<union> set (connection_headers H h) then [] else hl_get_all H h m)"
  by (simp add: strip_hop_by_hop_def fold_remove_get [OF assms])

lemma location_not_hop: "ascii_str ''location'' \<notin> set hop_by_hop" "ascii_str ''host'' \<notin> set hop_by_hop"
  by (simp_all add: hop_by_hop_def ascii_str_def)

lemma rewrite_get:
  assumes "header_lib_ok H"
  shows "m \<noteq> ascii_str ''location'' \<Longrightarrow> hl_get_all H (rewrite_location T F H target h) m = hl_get_all H h m"
    and "hl_get_all H h (ascii_str ''location'') = [] \<Longrightarrow> hl_get_all H (rewrite_location T F H target h) (ascii_str ''location'') = []"
  using assms by (auto simp: rewrite_location_def header_lib_ok_def split: list.splits option.splits)

text \<open>C28 (confined proxy). A request is sent on only if it is no \<open>CONNECT\<close> and asks for no upgrade. What is sent goes to the
  configured target and nowhere else (the connector accepts its address), names the target as its only \<open>Host\<close>, and has lost
  every hop-by-hop header and every header that \<open>Connection\<close> names, while all other headers are unchanged. The answer loses
  its hop-by-hop headers likewise.\<close>

theorem proxy_request_confined:
  assumes "header_lib_ok H" "uri_lib_ok U" "proxy_request T F H U target client q = (answer, Some sent)"
  shows "\<not> pm_connect q \<and> hl_get_all H (pm_headers q) (ascii_str ''upgrade'') = [] \<and>
    matches_target_uri U target (pm_uri sent) \<and>
    uri_path_and_query (pm_uri sent) = Some (opt_unwrap_or [SLASH] (uri_path_and_query (pm_uri q))) \<and>
    (\<exists>host. hl_from_str H (tgt_authority target) = Some host \<and> hl_get_all H (pm_headers sent) (ascii_str ''host'') = [host]) \<and>
    (\<forall>n. n \<noteq> ascii_str ''host'' \<longrightarrow> hl_get_all H (pm_headers sent) n =
       (if n \<in> set hop_by_hop \<union> set (connection_headers H (pm_headers q)) then [] else hl_get_all H (pm_headers q) n)) \<and>
    (\<forall>status hs n. client sent = Inr (status, hs) \<longrightarrow> n \<in> set hop_by_hop \<union> set (connection_headers H hs) \<longrightarrow>
       hl_get_all H (pr_headers answer) n = [])"
proof -
  from assms(3) obtain uri host where nc: "\<not> pm_connect q" "hl_get_all H (pm_headers q) (ascii_str ''upgrade'') = []"
    and uri: "request_uri U target (pm_uri q) = Some uri" and host: "hl_from_str H (tgt_authority target) = Some host"
    and sent: "sent = forwarded_request H target uri host q"
    by (auto simp: proxy_request_def Let_def split: if_splits option.splits)
  have u: "uri_scheme uri = Some (scheme_as_str (tgt_scheme target))" "uri_authority uri = Some (tgt_authority target)"
    "uri_path_and_query uri = Some (opt_unwrap_or [SLASH] (uri_path_and_query (pm_uri q)))" "ul_authority_eq U (tgt_authority target) (tgt_authority target)"
    using uri assms(2) by (auto simp: request_uri_def uri_lib_ok_def)
  have g: "hl_get_all H (pm_headers sent) n = (if n = ascii_str ''host'' then [host]
      else if n \<in> set hop_by_hop \<union> set (connection_headers H (pm_headers q)) then [] else hl_get_all H (pm_headers q) n)" for n
    using assms(1) strip_get [OF assms(1)] by (simp add: sent forwarded_request_def header_lib_ok_def)
  have a: "hl_get_all H (pr_headers answer) n = []" if "client sent = Inr (status, hs)" "n \<in> set hop_by_hop \<union> set (connection_headers H hs)" for status hs n
  proof -
    from assms(3) nc uri host sent that(1) have "pr_headers answer = rewrite_location T F H target (strip_hop_by_hop H hs)"
      by (auto simp: proxy_request_def Let_def)
    moreover have "hl_get_all H (strip_hop_by_hop H hs) n = []" using that(2) by (simp add: strip_get [OF assms(1)])
    ultimately show ?thesis using rewrite_get [OF assms(1)] by (cases "n = ascii_str ''location''") auto
  qed
  have "pm_uri sent = uri" by (simp add: sent forwarded_request_def)
  then show ?thesis using nc u host g a by (simp add: matches_target_uri_def)
qed

text \<open>(redirects). A redirect is rewritten to a relative one only if it points to the target itself (the same scheme, host and
  port); every other \<open>Location\<close> reaches the local client unchanged.\<close>

theorem rewrite_location_spec:
  assumes "header_lib_ok H" "hl_get_all H hs (ascii_str ''location'') = v # vs"
  shows "hl_get_all H (rewrite_location T F H target hs) (ascii_str ''location'') =
    (case opt_and_then (hl_to_str H v) (fl_url_parse F) of
       Some location \<Rightarrow>
         (if same_origin T target location
          then (case hl_from_str H (relative_location location) of Some w \<Rightarrow> [w] | None \<Rightarrow> v # vs)
          else v # vs)
     | None \<Rightarrow> v # vs)"
  using assms by (auto simp: rewrite_location_def header_lib_ok_def split: option.splits)

text \<open>A header map as a list of pairs.\<close>

definition demo_header_lib :: "(ustr \<times> bytes) list header_lib" where
  "demo_header_lib =
     \<lparr>hl_get_all = (\<lambda>h n. map snd (filter (\<lambda>p. fst p = n) h)), hl_remove = (\<lambda>n h. filter (\<lambda>p. fst p \<noteq> n) h),
      hl_insert = (\<lambda>n v h. filter (\<lambda>p. fst p \<noteq> n) h @ [(n, v)]), hl_empty = [], hl_name = (\<lambda>s. if s = [] then None else Some (to_ascii_lowercase s)),
      hl_to_str = (\<lambda>v. Some (map unat v)), hl_from_str = (\<lambda>s. Some (map of_nat s))\<rparr>"

lemma demo_header_lib_ok: "header_lib_ok demo_header_lib"
proof -
  have "map snd (filter (\<lambda>p. fst p = m) (filter (\<lambda>p. fst p \<noteq> n) h)) = (if m = n then [] else map snd (filter (\<lambda>p. fst p = m) h))"
    for h :: "(ustr \<times> bytes) list" and n m
    by (induction h) auto
  then show ?thesis by (simp add: header_lib_ok_def demo_header_lib_def)
qed

definition demo_uri_lib :: uri_lib where
  "demo_uri_lib = \<lparr>ul_build = (\<lambda>s a p. Some \<lparr>uri_scheme = Some s, uri_authority = Some a, uri_path_and_query = Some p\<rparr>),
     ul_authority_eq = eq_ignore_ascii_case\<rparr>"

lemma demo_uri_lib_ok: "uri_lib_ok demo_uri_lib"
  by (auto simp: uri_lib_ok_def demo_uri_lib_def eq_ignore_ascii_case_def)

definition demo_message :: "(ustr \<times> bytes) list proxy_message" where
  "demo_message = \<lparr>pm_connect = False, pm_uri = \<lparr>uri_scheme = None, uri_authority = None, uri_path_and_query = None\<rparr>,
     pm_headers = [(ascii_str ''connection'', map of_nat (ascii_str ''X-Secret'')), (ascii_str ''x-secret'', [1])], pm_http_11 = False\<rparr>"

theorem proxy_request_confined_witness:
  "\<exists>answer sent. proxy_request demo_text demo_forward_lib demo_header_lib demo_uri_lib (tc_target demo_connector) (\<lambda>_. Inl []) demo_message = (answer, Some sent) \<and>
     matches_target_uri demo_uri_lib (tc_target demo_connector) (pm_uri sent)"
proof -
  have "hl_get_all demo_header_lib (pm_headers demo_message) (ascii_str ''upgrade'') = []" "\<not> pm_connect demo_message"
    by (simp_all add: demo_header_lib_def demo_message_def ascii_str_def)
  moreover obtain u where "request_uri demo_uri_lib (tc_target demo_connector) (pm_uri demo_message) = Some u"
    by (simp add: request_uri_def demo_uri_lib_def)
  moreover have "hl_from_str demo_header_lib s = Some (map of_nat s)" for s by (simp add: demo_header_lib_def)
  ultimately obtain answer sent where
    p: "proxy_request demo_text demo_forward_lib demo_header_lib demo_uri_lib (tc_target demo_connector) (\<lambda>_. Inl []) demo_message = (answer, Some sent)"
    by (simp add: proxy_request_def Let_def)
  from proxy_request_confined [OF demo_header_lib_ok demo_uri_lib_ok p] p show ?thesis by blast
qed

theorem rewrite_location_spec_witness:
  "hl_get_all demo_header_lib (rewrite_location demo_text demo_forward_lib demo_header_lib (tc_target demo_connector) [(ascii_str ''location'', [1])])
     (ascii_str ''location'') = [[]]"
proof -
  have l: "hl_get_all demo_header_lib [(ascii_str ''location'', [1])] (ascii_str ''location'') = [[1]]"
    by (simp add: demo_header_lib_def)
  show ?thesis unfolding rewrite_location_spec [OF demo_header_lib_ok l]
    by (simp add: demo_header_lib_def demo_forward_lib_def same_origin_def same_host_def demo_connector_def relative_location_def eq_ignore_ascii_case_def)
qed

end
