(* ===== verification/Credentials.thy ===== *)
theory Credentials
  imports Managed_Lookup "HOL-Library.Sublist"
begin

text \<open>
  Saved credentials (\<open>src/bin/openiwan/credentials.rs\<close>). A credential is cut into chunks, each an
  entry of the key store of the operating system, and a manifest under the name of the account
  points at the chunks of the current generation and at generations still to be removed. The
  trait \<open>SecretStore\<close> is the record \<open>secret_store\<close>, its laws are the locale \<open>secret_vault\<close>. The
  crate \<open>keyring\<close> is the parameter \<open>keyring\<close> with the laws \<open>lawful_keyring\<close>, under which the
  store of the program satisfies \<open>secret_vault\<close>. The derived JSON codecs and SHA-256 are the
  parameter \<open>cred_codec\<close>.
\<close>

section \<open>Data\<close>

datatype stored_credential =
    StoredPassword (sc_username: ustr) (sc_password: ustr)
  | StoredOidc (sc_refresh_token: ustr) (sc_user_id: ustr) (sc_username: ustr)

record credential_envelope =
  env_version :: u32
  env_credential :: stored_credential

record chunk_set =
  cs_generation :: ustr
  cs_chunks :: u32

record current_chunk_set = chunk_set +
  cur_length :: u64
  cur_sha256 :: bytes

definition as_chunk_set :: "current_chunk_set \<Rightarrow> chunk_set" where
  "as_chunk_set c = \<lparr>cs_generation = cs_generation c, cs_chunks = cs_chunks c\<rparr>"

record credential_manifest =
  man_version :: u32
  man_current :: current_chunk_set
  man_obsolete :: "chunk_set list"

record cred_codec =
  manifest_to_vec :: "credential_manifest \<Rightarrow> bytes option"
  manifest_from_slice :: "bytes \<Rightarrow> credential_manifest option"
  envelope_to_vec :: "credential_envelope \<Rightarrow> bytes option"
  envelope_from_slice :: "bytes \<Rightarrow> credential_envelope option"
  cred_sha256 :: "bytes \<Rightarrow> bytes"

text \<open>What serializing and reading back promises.\<close>

definition cred_codec_ok :: "cred_codec \<Rightarrow> bool" where
  "cred_codec_ok C \<longleftrightarrow>
     (\<forall>m b. manifest_to_vec C m = Some b \<longrightarrow> manifest_from_slice C b = Some m) \<and>
     (\<forall>e b. envelope_to_vec C e = Some b \<longrightarrow> envelope_from_slice C b = Some e)"

abbreviation (input) CREDENTIAL_VERSION :: u32 where "CREDENTIAL_VERSION \<equiv> 1"
abbreviation (input) STORAGE_VERSION :: u32 where "STORAGE_VERSION \<equiv> 1"
abbreviation (input) SECRET_CHUNK_SIZE :: nat where "SECRET_CHUNK_SIZE \<equiv> 2048"
abbreviation (input) MAX_CREDENTIAL_CHUNKS :: u32 where "MAX_CREDENTIAL_CHUNKS \<equiv> 4096"
abbreviation (input) MAX_OBSOLETE_CHUNK_SETS :: nat where "MAX_OBSOLETE_CHUNK_SETS \<equiv> 16"

definition invalid_format :: "string \<Rightarrow> error" where
  "invalid_format message = CredentialStore (''invalid saved credentials: '' @ message)"

definition validate_account :: "ustr \<Rightarrow> unit result" where
  "validate_account account =
     (if account = [] then Err (CredentialStore ''profile has no credential-store identifier'') else Ok ())"

text \<open>\<open>{index:08x}\<close> of a \<open>u32\<close> is the hexadecimal text of its four bytes.\<close>

definition chunk_account :: "ustr \<Rightarrow> ustr \<Rightarrow> u32 \<Rightarrow> ustr" where
  "chunk_account account generation index =
     account @ ascii_str ''.chunk.'' @ generation @ ascii_str ''.'' @ hex_lower (u32_be index)"

definition new_generation :: "bytes option \<Rightarrow> ustr result" where
  "new_generation random =
     (case random of
        None \<Rightarrow> Err (CredentialStore ''system randomness is unavailable for credential storage'')
      | Some bs \<Rightarrow> Ok (hex_lower bs))"

definition lower_hex_byte :: "u8 \<Rightarrow> bool" where
  "lower_hex_byte b \<longleftrightarrow> 0x30 \<le> b \<and> b \<le> 0x39 \<or> 0x61 \<le> b \<and> b \<le> 0x66"

definition validate_chunk_set :: "ustr \<Rightarrow> u32 \<Rightarrow> unit result" where
  "validate_chunk_set generation chunks =
     (if length (utf8_bytes generation) \<noteq> 32 \<or> \<not> list_all lower_hex_byte (utf8_bytes generation)
      then Err (invalid_format ''metadata has an invalid generation'')
      else if chunks = 0 \<or> chunks > MAX_CREDENTIAL_CHUNKS
      then Err (invalid_format ''metadata has an invalid chunk count'')
      else Ok ())"

definition div_ceil :: "nat \<Rightarrow> nat \<Rightarrow> nat" where
  "div_ceil a b = (a + b - 1) div b"

fun validate_obsolete :: "ustr \<Rightarrow> chunk_set list \<Rightarrow> chunk_set list \<Rightarrow> unit result" where
  "validate_obsolete current before [] = Ok ()"
| "validate_obsolete current before (x # xs) =
     rbind (validate_chunk_set (cs_generation x) (cs_chunks x)) (\<lambda>_.
     if cs_generation x = current \<or> list_ex (\<lambda>other. cs_generation other = cs_generation x) before
     then Err (invalid_format ''metadata contains duplicate generations'')
     else validate_obsolete current (before @ [x]) xs)"

definition validate_manifest :: "credential_manifest \<Rightarrow> unit result" where
  "validate_manifest m =
     (if man_version m \<noteq> STORAGE_VERSION then Err (invalid_format ''unsupported storage version'')
      else rbind (validate_chunk_set (cs_generation (man_current m)) (cs_chunks (man_current m))) (\<lambda>_.
        let len = unat (cur_length (man_current m)) in
        if len = 0 \<or> div_ceil len SECRET_CHUNK_SIZE \<noteq> unat (cs_chunks (man_current m))
        then Err (invalid_format ''metadata has an inconsistent length'')
        else if length (man_obsolete m) > MAX_OBSOLETE_CHUNK_SETS
        then Err (invalid_format ''metadata contains too many stale entries'')
        else validate_obsolete (cs_generation (man_current m)) [] (man_obsolete m)))"

definition decode_manifest :: "cred_codec \<Rightarrow> bytes \<Rightarrow> credential_manifest result" where
  "decode_manifest C bs =
     rbind (ok_or (invalid_format ''metadata is not valid JSON'') (manifest_from_slice C bs)) (\<lambda>m.
     rbind (validate_manifest m) (\<lambda>_. Ok m))"

definition encode_manifest :: "cred_codec \<Rightarrow> credential_manifest \<Rightarrow> bytes result" where
  "encode_manifest C m =
     rbind (ok_or (CredentialStore ''serialize credential metadata'') (manifest_to_vec C m)) (\<lambda>bs.
     if length bs > SECRET_CHUNK_SIZE then Err (CredentialStore ''credential metadata is too large to store'') else Ok bs)"

section \<open>The store\<close>

record 's secret_store =
  ss_read :: "ustr \<Rightarrow> 's \<Rightarrow> bytes option result \<times> 's"
  ss_write :: "ustr \<Rightarrow> bytes \<Rightarrow> 's \<Rightarrow> unit result \<times> 's"
  ss_delete :: "ustr \<Rightarrow> 's \<Rightarrow> bool result \<times> 's"

datatype keyring_error = NoEntry | KeyringFailure

text \<open>The crate: opening an entry of a service, and the three operations on an entry.\<close>

record 's keyring =
  kr_new :: "ustr \<Rightarrow> ustr \<Rightarrow> 's \<Rightarrow> (keyring_error + unit) \<times> 's"
  kr_get :: "ustr \<Rightarrow> 's \<Rightarrow> (keyring_error + bytes) \<times> 's"
  kr_set :: "ustr \<Rightarrow> bytes \<Rightarrow> 's \<Rightarrow> (keyring_error + unit) \<times> 's"
  kr_delete :: "ustr \<Rightarrow> 's \<Rightarrow> (keyring_error + unit) \<times> 's"

definition store_error :: "string \<Rightarrow> error" where
  "store_error operation = CredentialStore (operation @ '' the operating-system credential store'')"

definition KEYRING_SERVICE :: ustr where
  "KEYRING_SERVICE = ascii_str ''org.openiwan.cli''"

definition keyring_entry :: "'s keyring \<Rightarrow> ustr \<Rightarrow> 's \<Rightarrow> unit result \<times> 's" where
  "keyring_entry K account s =
     (case kr_new K KEYRING_SERVICE account s of
        (Inl _, s) \<Rightarrow> (Err (store_error ''open''), s)
      | (Inr _, s) \<Rightarrow> (Ok (), s))"

definition os_read :: "'s keyring \<Rightarrow> ustr \<Rightarrow> 's \<Rightarrow> bytes option result \<times> 's" where
  "os_read K account s =
     (case keyring_entry K account s of
        (Inl e, s) \<Rightarrow> (Err e, s)
      | (Inr _, s) \<Rightarrow>
          (case kr_get K account s of
             (Inr bs, s) \<Rightarrow> (Ok (Some bs), s)
           | (Inl NoEntry, s) \<Rightarrow> (Ok None, s)
           | (Inl KeyringFailure, s) \<Rightarrow> (Err (store_error ''read''), s)))"

definition os_write :: "'s keyring \<Rightarrow> ustr \<Rightarrow> bytes \<Rightarrow> 's \<Rightarrow> unit result \<times> 's" where
  "os_write K account secret s =
     (case keyring_entry K account s of
        (Inl e, s) \<Rightarrow> (Err e, s)
      | (Inr _, s) \<Rightarrow>
          (case kr_set K account secret s of
             (Inr _, s) \<Rightarrow> (Ok (), s)
           | (Inl _, s) \<Rightarrow> (Err (store_error ''write''), s)))"

definition os_delete :: "'s keyring \<Rightarrow> ustr \<Rightarrow> 's \<Rightarrow> bool result \<times> 's" where
  "os_delete K account s =
     (case keyring_entry K account s of
        (Inl e, s) \<Rightarrow> (Err e, s)
      | (Inr _, s) \<Rightarrow>
          (case kr_delete K account s of
             (Inr _, s) \<Rightarrow> (Ok True, s)
           | (Inl NoEntry, s) \<Rightarrow> (Ok False, s)
           | (Inl KeyringFailure, s) \<Rightarrow> (Err (store_error ''delete''), s)))"

definition operating_system_store :: "'s keyring \<Rightarrow> 's secret_store" where
  "operating_system_store K = \<lparr>ss_read = os_read K, ss_write = os_write K, ss_delete = os_delete K\<rparr>"

section \<open>Loading, saving and deleting\<close>

definition chunk_indices :: "u32 \<Rightarrow> u32 list" where
  "chunk_indices n = map of_nat [0..<unat n]"

fun read_chunks :: "'s secret_store \<Rightarrow> ustr \<Rightarrow> ustr \<Rightarrow> u32 list \<Rightarrow> 's \<Rightarrow> bytes result \<times> 's" where
  "read_chunks S account generation [] s = (Ok [], s)"
| "read_chunks S account generation (i # is) s =
     (case ss_read S (chunk_account account generation i) s of
        (Inl e, s) \<Rightarrow> (Err e, s)
      | (Inr None, s) \<Rightarrow> (Err (invalid_format ''data chunk is missing''), s)
      | (Inr (Some chunk), s) \<Rightarrow>
          if length chunk > SECRET_CHUNK_SIZE then (Err (invalid_format ''data chunk is too large''), s)
          else (case read_chunks S account generation is s of
             (Inl e, s) \<Rightarrow> (Err e, s)
           | (Inr rest, s) \<Rightarrow> (Ok (chunk @ rest), s)))"

text \<open>The checks after the chunks are read.\<close>

definition open_envelope :: "cred_codec \<Rightarrow> current_chunk_set \<Rightarrow> bytes \<Rightarrow> stored_credential result" where
  "open_envelope C current bs =
     (if length bs \<noteq> unat (cur_length current) then Err (invalid_format ''data length is not the expected one'')
      else if cred_sha256 C bs \<noteq> cur_sha256 current then Err (invalid_format ''integrity check failed'')
      else rbind (ok_or (invalid_format ''data is not valid JSON'') (envelope_from_slice C bs)) (\<lambda>e.
        if env_version e \<noteq> CREDENTIAL_VERSION then Err (invalid_format ''unsupported credential version'')
        else Ok (env_credential e)))"

definition load_from :: "cred_codec \<Rightarrow> 's secret_store \<Rightarrow> ustr \<Rightarrow> 's \<Rightarrow> stored_credential option result \<times> 's" where
  "load_from C S account s =
     (case ss_read S account s of
        (Inl e, s) \<Rightarrow> (Err e, s)
      | (Inr None, s) \<Rightarrow> (Ok None, s)
      | (Inr (Some manifest_bytes), s) \<Rightarrow>
          (case decode_manifest C manifest_bytes of
             Inl e \<Rightarrow> (Err e, s)
           | Inr m \<Rightarrow>
               (case read_chunks S account (cs_generation (man_current m)) (chunk_indices (cs_chunks (man_current m))) s of
                  (Inl e, s) \<Rightarrow> (Err e, s)
                | (Inr bs, s) \<Rightarrow> (rmap Some (open_envelope C (man_current m) bs), s))))"

fun delete_chunks :: "'s secret_store \<Rightarrow> ustr \<Rightarrow> ustr \<Rightarrow> u32 list \<Rightarrow> 's \<Rightarrow> bool \<times> 's" where
  "delete_chunks S account generation [] s = (False, s)"
| "delete_chunks S account generation (i # is) s =
     (case ss_delete S (chunk_account account generation i) s of
        (r, s) \<Rightarrow> (case delete_chunks S account generation is s of (failed, s) \<Rightarrow> (\<not> is_ok r \<or> failed, s)))"

fun cleanup_chunk_sets :: "'s secret_store \<Rightarrow> ustr \<Rightarrow> chunk_set list \<Rightarrow> 's \<Rightarrow> chunk_set list \<times> 's" where
  "cleanup_chunk_sets S account [] s = ([], s)"
| "cleanup_chunk_sets S account (x # xs) s =
     (case delete_chunks S account (cs_generation x) (chunk_indices (cs_chunks x)) s of
        (failed, s) \<Rightarrow>
          (case cleanup_chunk_sets S account xs s of
             (remaining, s) \<Rightarrow> (if failed then x # remaining else remaining, s)))"

definition cleanup_new_chunks :: "'s secret_store \<Rightarrow> ustr \<Rightarrow> ustr \<Rightarrow> u32 \<Rightarrow> 's \<Rightarrow> 's" where
  "cleanup_new_chunks S account generation chunks s = snd (delete_chunks S account generation (chunk_indices chunks) s)"

definition replacement_manifest ::
  "cred_codec \<Rightarrow> 's secret_store \<Rightarrow> ustr \<Rightarrow> 's \<Rightarrow> credential_manifest option result \<times> 's" where
  "replacement_manifest C S account s =
     (case ss_read S account s of
        (Inl e, s) \<Rightarrow> (Err e, s)
      | (Inr None, s) \<Rightarrow> (Ok None, s)
      | (Inr (Some bs), s) \<Rightarrow> (Ok (result_ok (decode_manifest C bs)), s))"

text \<open>\<open>slice::chunks\<close>.\<close>

function slice_chunks :: "nat \<Rightarrow> 'a list \<Rightarrow> 'a list list" where
  "slice_chunks n xs = (if xs = [] \<or> n = 0 then [] else take n xs # slice_chunks n (drop n xs))"
  by auto
termination by (relation "measure (length o snd)") auto

declare slice_chunks.simps [simp del]

fun write_chunks :: "'s secret_store \<Rightarrow> ustr \<Rightarrow> ustr \<Rightarrow> u32 \<Rightarrow> bytes list \<Rightarrow> 's \<Rightarrow> (u32 \<times> error) option \<times> 's" where
  "write_chunks S account generation i [] s = (None, s)"
| "write_chunks S account generation i (c # cs) s =
     (case ss_write S (chunk_account account generation i) c s of
        (Inl e, s) \<Rightarrow> (Some (i, e), s)
      | (Inr _, s) \<Rightarrow> write_chunks S account generation (i + 1) cs s)"

text \<open>The manifest of a new generation, with the size limits of the data.\<close>

definition prepare_manifest ::
  "cred_codec \<Rightarrow> bytes option \<Rightarrow> chunk_set list \<Rightarrow> stored_credential \<Rightarrow> (bytes \<times> credential_manifest \<times> bytes) result" where
  "prepare_manifest C random obsolete credential =
     (if length obsolete > MAX_OBSOLETE_CHUNK_SETS
      then Err (CredentialStore ''too many stale credential entries could not be removed'')
      else
      rbind (ok_or (CredentialStore ''serialize credentials'')
        (envelope_to_vec C \<lparr>env_version = CREDENTIAL_VERSION, env_credential = credential\<rparr>)) (\<lambda>bs.
      let chunk_count = div_ceil (length bs) SECRET_CHUNK_SIZE in
      if chunk_count \<ge> 2 ^ 32 then Err (CredentialStore ''credentials are too large to store'')
      else if (of_nat chunk_count :: u32) = 0 \<or> (of_nat chunk_count :: u32) > MAX_CREDENTIAL_CHUNKS
      then Err (CredentialStore ''credentials are too large to store'')
      else
      rbind (new_generation random) (\<lambda>generation.
      let m = \<lparr>man_version = STORAGE_VERSION,
               man_current = \<lparr>cs_generation = generation, cs_chunks = of_nat chunk_count,
                              cur_length = of_nat (length bs), cur_sha256 = cred_sha256 C bs\<rparr>,
               man_obsolete = obsolete\<rparr>
      in rbind (encode_manifest C m) (\<lambda>manifest_bytes. Ok (bs, m, manifest_bytes)))))"

text \<open>After the new manifest is written: the older generations are removed, and the manifest is written again when
  fewer remain.\<close>

definition retire_obsolete :: "cred_codec \<Rightarrow> 's secret_store \<Rightarrow> ustr \<Rightarrow> credential_manifest \<Rightarrow> 's \<Rightarrow> 's" where
  "retire_obsolete C S account m s =
     (case cleanup_chunk_sets S account (man_obsolete m) s of
        (remaining, s) \<Rightarrow>
          if length remaining \<noteq> length (man_obsolete m)
          then (case encode_manifest C (m\<lparr>man_obsolete := remaining\<rparr>) of
                  Inr bs \<Rightarrow> snd (ss_write S account bs s)
                | Inl _ \<Rightarrow> s)
          else s)"

definition commit_chunks ::
  "cred_codec \<Rightarrow> 's secret_store \<Rightarrow> ustr \<Rightarrow> bytes \<Rightarrow> credential_manifest \<Rightarrow> bytes \<Rightarrow> 's \<Rightarrow> unit result \<times> 's" where
  "commit_chunks C S account bs m manifest_bytes s =
     (let generation = cs_generation (man_current m) in
      case write_chunks S account generation 0 (slice_chunks SECRET_CHUNK_SIZE bs) s of
        (Some (index, e), s) \<Rightarrow> (Err e, cleanup_new_chunks S account generation index s)
      | (None, s) \<Rightarrow>
          (case ss_write S account manifest_bytes s of
             (Inl e, s) \<Rightarrow> (Err e, cleanup_new_chunks S account generation (cs_chunks (man_current m)) s)
           | (Inr _, s) \<Rightarrow> (Ok (), retire_obsolete C S account m s)))"

definition save_to ::
  "cred_codec \<Rightarrow> 's secret_store \<Rightarrow> bytes option \<Rightarrow> ustr \<Rightarrow> stored_credential \<Rightarrow> 's \<Rightarrow> unit result \<times> 's" where
  "save_to C S random account credential s =
     (case replacement_manifest C S account s of
        (Inl e, s) \<Rightarrow> (Err e, s)
      | (Inr previous, s) \<Rightarrow>
          (case (case previous of
                   None \<Rightarrow> ([], s)
                 | Some p \<Rightarrow> (case cleanup_chunk_sets S account (man_obsolete p) s of
                     (remaining, s) \<Rightarrow> (remaining @ [as_chunk_set (man_current p)], s))) of
             (obsolete, s) \<Rightarrow>
               (case prepare_manifest C random obsolete credential of
                  Inl e \<Rightarrow> (Err e, s)
                | Inr (bs, m, manifest_bytes) \<Rightarrow> commit_chunks C S account bs m manifest_bytes s)))"

definition delete_from :: "cred_codec \<Rightarrow> 's secret_store \<Rightarrow> ustr \<Rightarrow> 's \<Rightarrow> bool result \<times> 's" where
  "delete_from C S account s =
     (case ss_read S account s of
        (Inl e, s) \<Rightarrow> (Err e, s)
      | (Inr None, s) \<Rightarrow> (Ok False, s)
      | (Inr (Some manifest_bytes), s) \<Rightarrow>
          (case decode_manifest C manifest_bytes of
             Inl e \<Rightarrow> (Err e, s)
           | Inr m \<Rightarrow>
               (case cleanup_chunk_sets S account (man_obsolete m @ [as_chunk_set (man_current m)]) s of
                  (remaining, s) \<Rightarrow>
                    if remaining \<noteq> []
                    then (Err (CredentialStore ''delete credential data from the operating-system credential store''), s)
                    else (case ss_delete S account s of
                       (Inl e, s) \<Rightarrow> (Err e, s)
                     | (Inr _, s) \<Rightarrow> (Ok True, s)))))"

text \<open>The operations of \<open>CredentialStore\<close>.\<close>

definition credential_load :: "cred_codec \<Rightarrow> 's keyring \<Rightarrow> ustr \<Rightarrow> 's \<Rightarrow> stored_credential option result \<times> 's" where
  "credential_load C K account s =
     (case validate_account account of
        Inl e \<Rightarrow> (Err e, s) | Inr _ \<Rightarrow> load_from C (operating_system_store K) account s)"

definition credential_save ::
  "cred_codec \<Rightarrow> 's keyring \<Rightarrow> bytes option \<Rightarrow> ustr \<Rightarrow> stored_credential \<Rightarrow> 's \<Rightarrow> unit result \<times> 's" where
  "credential_save C K random account credential s =
     (case validate_account account of
        Inl e \<Rightarrow> (Err e, s) | Inr _ \<Rightarrow> save_to C (operating_system_store K) random account credential s)"

definition credential_delete :: "cred_codec \<Rightarrow> 's keyring \<Rightarrow> ustr \<Rightarrow> 's \<Rightarrow> bool result \<times> 's" where
  "credential_delete C K account s =
     (case validate_account account of
        Inl e \<Rightarrow> (Err e, s) | Inr _ \<Rightarrow> delete_from C (operating_system_store K) account s)"

section \<open>Names and manifests\<close>

lemma chunk_account_inject [simp]:
  "chunk_account account g i = chunk_account account g' i' \<longleftrightarrow> g = g' \<and> i = i'"
proof
  assume "chunk_account account g i = chunk_account account g' i'"
  then have eq: "(g @ ascii_str ''.'') @ hex_lower (u32_be i) = (g' @ ascii_str ''.'') @ hex_lower (u32_be i')"
    by (simp add: chunk_account_def)
  have "length (hex_lower (u32_be i)) = length (hex_lower (u32_be i'))" by simp
  then have 1: "g @ ascii_str ''.'' = g' @ ascii_str ''.''" "hex_lower (u32_be i) = hex_lower (u32_be i')"
    using eq by (simp_all only: append_eq_append_conv disj_not1 simp_thms)
  have "u32_be i = u32_be i'" by (rule hex_lower_inj [OF 1(2)])
  then show "g = g' \<and> i = i'" using 1(1) be_bytes_eq_iff [of 4 i i'] by simp
qed simp

lemma chunk_account_neq [simp]: "chunk_account account g i \<noteq> account" "account \<noteq> chunk_account account g i"
  by (simp_all add: chunk_account_def ascii_str_def)

lemma utf8_hex_lower: "utf8_bytes (hex_lower bs) = map of_nat (hex_lower bs)"
proof (rule ascii_utf8)
  show "list_all (\<lambda>c. c < 0x80) (hex_lower bs)"
    using hex_lower_ascii [of _ bs] by (fastforce simp: list_all_iff is_digit_def)
qed

lemma hex_lower_bytes: "list_all lower_hex_byte (utf8_bytes (hex_lower bs))"
proof -
  have "lower_hex_byte (of_nat c)" if "is_digit c \<or> 0x61 \<le> c \<and> c \<le> 0x66" for c
    using that by (auto simp: lower_hex_byte_def is_digit_def word_le_nat_alt unat_of_nat_u8)
  then show ?thesis using hex_lower_ascii [of _ bs] by (auto simp: utf8_hex_lower list_all_iff)
qed

lemma unat_of_nat_small: "n < 2 ^ LENGTH('a) \<Longrightarrow> unat (of_nat n :: 'a::len word) = n"
  by (simp add: unsigned_of_nat take_bit_nat_eq_self)

lemma unat_of_nat_small_u32: "n < 2 ^ 32 \<Longrightarrow> unat (of_nat n :: u32) = n"
  by (rule unat_of_nat_small) simp

definition set_valid :: "ustr \<Rightarrow> u32 \<Rightarrow> bool" where
  "set_valid g n \<longleftrightarrow> validate_chunk_set g n = Ok ()"

definition generations :: "credential_manifest \<Rightarrow> ustr list" where
  "generations m = cs_generation (man_current m) # map cs_generation (man_obsolete m)"

lemma validate_obsolete_iff:
  "validate_obsolete current before xs = Ok () \<longleftrightarrow>
     (\<forall>x \<in> set xs. set_valid (cs_generation x) (cs_chunks x)) \<and> current \<notin> cs_generation ` set xs \<and>
     distinct (map cs_generation xs) \<and> cs_generation ` set before \<inter> cs_generation ` set xs = {}"
proof (induction xs arbitrary: before)
  case (Cons x xs)
  have "list_ex (\<lambda>other. cs_generation other = cs_generation x) before \<longleftrightarrow> cs_generation x \<in> cs_generation ` set before"
    by (simp add: list_ex_iff image_iff) metis
  then show ?case using Cons.IH [of "before @ [x]"] by (auto simp: rbind_eq_Ok set_valid_def)
qed simp

lemma validate_manifest_iff:
  "validate_manifest m = Ok () \<longleftrightarrow>
     man_version m = STORAGE_VERSION \<and> distinct (generations m) \<and> length (man_obsolete m) \<le> MAX_OBSOLETE_CHUNK_SETS \<and>
     set_valid (cs_generation (man_current m)) (cs_chunks (man_current m)) \<and>
     (\<forall>x \<in> set (man_obsolete m). set_valid (cs_generation x) (cs_chunks x)) \<and>
     cur_length (man_current m) \<noteq> 0 \<and>
     div_ceil (unat (cur_length (man_current m))) SECRET_CHUNK_SIZE = unat (cs_chunks (man_current m))"
  by (auto simp: validate_manifest_def validate_obsolete_iff generations_def Let_def rbind_eq_Ok set_valid_def [symmetric]
      unat_eq_0)

lemma decode_manifest_OkD:
  "decode_manifest C bs = Ok m \<Longrightarrow> manifest_from_slice C bs = Some m \<and> validate_manifest m = Ok ()"
  by (auto simp: decode_manifest_def result_simps)

lemma encode_decode_manifest:
  "cred_codec_ok C \<Longrightarrow> encode_manifest C m = Ok bs \<Longrightarrow> validate_manifest m = Ok () \<Longrightarrow> decode_manifest C bs = Ok m"
  by (auto simp: encode_manifest_def decode_manifest_def cred_codec_ok_def result_simps split: if_splits)

lemma prepare_manifest_OkD:
  assumes "prepare_manifest C (Some random) obsolete credential = Ok (bs, m, mb)" "length random = 16"
    and "distinct (hex_lower random # map cs_generation obsolete)"
    and "\<forall>x \<in> set obsolete. set_valid (cs_generation x) (cs_chunks x)"
  shows "validate_manifest m = Ok ()" "encode_manifest C m = Ok mb" "man_obsolete m = obsolete"
    and "cs_generation (man_current m) = hex_lower random" "cur_sha256 (man_current m) = cred_sha256 C bs"
    and "unat (cur_length (man_current m)) = length bs" "unat (cs_chunks (man_current m)) = div_ceil (length bs) SECRET_CHUNK_SIZE"
    and "envelope_to_vec C \<lparr>env_version = CREDENTIAL_VERSION, env_credential = credential\<rparr> = Some bs"
proof -
  define n where "n = div_ceil (length bs) SECRET_CHUNK_SIZE"
  from assms(1) have a: "envelope_to_vec C \<lparr>env_version = CREDENTIAL_VERSION, env_credential = credential\<rparr> = Some bs"
    "n < 2 ^ 32" "(of_nat n :: u32) \<noteq> 0" "(of_nat n :: u32) \<le> 4096" "length obsolete \<le> 16" "encode_manifest C m = Ok mb"
    "m = \<lparr>man_version = STORAGE_VERSION,
       man_current = \<lparr>cs_generation = hex_lower random, cs_chunks = of_nat n, cur_length = of_nat (length bs), cur_sha256 = cred_sha256 C bs\<rparr>,
       man_obsolete = obsolete\<rparr>"
    by (auto simp: prepare_manifest_def new_generation_def result_simps Let_def n_def split: if_splits)
  have un: "unat (of_nat n :: u32) = n" by (rule unat_of_nat_small) (use a(2) in simp)
  have n: "n \<noteq> 0" "n \<le> 4096" using a(3,4) un by (auto simp: word_le_nat_alt intro!: Nat.gr0I)
  have "length bs \<le> n * 2048" unfolding n_def div_ceil_def by linarith
  moreover have "length bs \<noteq> 0" using n(1) unfolding n_def div_ceil_def by (intro notI) simp
  ultimately have len: "unat (of_nat (length bs) :: u64) = length bs" "length bs \<noteq> 0" using n(2) by (auto intro!: unat_of_nat_small)
  have v: "set_valid (hex_lower random) (of_nat n)"
    using a(3,4) assms(2) hex_lower_bytes [of random]
    by (simp add: set_valid_def validate_chunk_set_def utf8_hex_lower)
  have "(of_nat (length bs) :: u64) \<noteq> 0" using len by (metis unat_0)
  then show "validate_manifest m = Ok ()"
    using a(5) len v assms(3,4) un by (simp add: a(7) validate_manifest_iff generations_def n_def)
  show "unat (cs_chunks (man_current m)) = div_ceil (length bs) SECRET_CHUNK_SIZE" using un by (simp add: a(7) n_def)
  show "encode_manifest C m = Ok mb" "man_obsolete m = obsolete" "cs_generation (man_current m) = hex_lower random"
    "cur_sha256 (man_current m) = cred_sha256 C bs" "unat (cur_length (man_current m)) = length bs"
    "envelope_to_vec C \<lparr>env_version = CREDENTIAL_VERSION, env_credential = credential\<rparr> = Some bs"
    using a(1,6,7) len by simp_all
qed

lemma div_ceil_step: "0 < n \<Longrightarrow> 0 < l \<Longrightarrow> div_ceil l n = Suc (div_ceil (l - n) n)"
proof -
  assume n: "0 < n" "0 < l"
  have 1: "div_ceil l n = Suc ((l - 1) div n)" using n div_add_self2 [of n "l - 1"] by (simp add: div_ceil_def)
  have "div_ceil (l - n) n = (l - 1) div n"
  proof (cases "l \<le> n")
    case True
    then show ?thesis using n by (simp add: div_ceil_def)
  next
    case False
    then have "l - n + n - 1 = l - 1" by simp
    then show ?thesis by (simp add: div_ceil_def)
  qed
  with 1 show ?thesis by simp
qed

lemma slice_chunks_spec:
  "0 < n \<Longrightarrow> concat (slice_chunks n xs) = xs \<and> (\<forall>c \<in> set (slice_chunks n xs). length c \<le> n) \<and>
     length (slice_chunks n xs) = div_ceil (length xs) n"
proof (induction n xs rule: slice_chunks.induct)
  case (1 n xs)
  show ?case
  proof (cases "xs = []")
    case False
    then have IH: "concat (slice_chunks n (drop n xs)) = drop n xs" "\<forall>c \<in> set (slice_chunks n (drop n xs)). length c \<le> n"
      "length (slice_chunks n (drop n xs)) = div_ceil (length (drop n xs)) n" using 1 by auto
    have "div_ceil (length xs) n = Suc (div_ceil (length (drop n xs)) n)"
      using div_ceil_step [of n "length xs"] False 1(2) by simp
    then show ?thesis using IH False 1(2) slice_chunks.simps [of n xs] by auto
  qed (use 1 in \<open>simp add: slice_chunks.simps [of n "[]"] div_ceil_def\<close>)
qed

lemma nth_chunk_indices: "k < unat n \<Longrightarrow> chunk_indices n ! k = of_nat k"
  by (simp add: chunk_indices_def)

lemma length_chunk_indices [simp]: "length (chunk_indices n) = unat n"
  by (simp add: chunk_indices_def)

section \<open>The contract of a store\<close>

text \<open>A store without failures, over its entries themselves; what is loaded from it is the meaning of the entries.\<close>

definition entry_store :: "(ustr \<Rightarrow> bytes option) secret_store" where
  "entry_store = \<lparr>ss_read = (\<lambda>a v. (Ok (v a), v)), ss_write = (\<lambda>a b v. (Ok (), v(a := Some b))),
     ss_delete = (\<lambda>a v. (Ok (v a \<noteq> None), v(a := None)))\<rparr>"

definition stored :: "cred_codec \<Rightarrow> (ustr \<Rightarrow> bytes option) \<Rightarrow> ustr \<Rightarrow> stored_credential option result" where
  "stored C v account = fst (load_from C entry_store account v)"

definition chunk_of :: "ustr \<Rightarrow> chunk_set list \<Rightarrow> ustr \<Rightarrow> bool" where
  "chunk_of account xs c \<longleftrightarrow>
     (\<exists>x \<in> set xs. \<exists>i \<in> set (chunk_indices (cs_chunks x)). c = chunk_account account (cs_generation x) i)"

lemma entry_store_simps [simp]:
  "ss_read entry_store a v = (Ok (v a), v)" "ss_write entry_store a b v = (Ok (), v(a := Some b))"
  "ss_delete entry_store a v = (Ok (v a \<noteq> None), v(a := None))"
  by (simp_all add: entry_store_def)

lemma entry_read_state:
  "read_chunks entry_store account g is v = (fst (read_chunks entry_store account g is v), v)"
  by (induction "is") (auto split: option.splits prod.splits sum.splits)

lemma stored_eq:
  assumes "v account = Some bs" "decode_manifest C bs = Ok m"
  shows "stored C v account =
    (case fst (read_chunks entry_store account (cs_generation (man_current m)) (chunk_indices (cs_chunks (man_current m))) v) of
       Inl e \<Rightarrow> Err e | Inr bs \<Rightarrow> rmap Some (open_envelope C (man_current m) bs))"
  using assms by (simp add: stored_def load_from_def split: prod.splits sum.splits)

text \<open>The result is the error of a failed read of the store.\<close>

definition read_error :: "'s secret_store \<Rightarrow> 'r result \<Rightarrow> bool" where
  "read_error S r \<longleftrightarrow> (\<exists>a t e t'. ss_read S a t = (Err e, t') \<and> r = Err e)"

lemma read_error_simps [simp]:
  "read_error S (Err e) \<longleftrightarrow> (\<exists>a t t'. ss_read S a t = (Err e, t'))" "\<not> read_error S (Ok x)"
  by (auto simp: read_error_def)

text \<open>A read does not change the entries, a failed write leaves them as they were, a failed deletion removes nothing but
  its own entry.\<close>

locale secret_vault =
  fixes S :: "'s secret_store" and view :: "'s \<Rightarrow> ustr \<Rightarrow> bytes option"
  assumes read_ok: "ss_read S a s = (Ok r, s') \<Longrightarrow> r = view s a"
    and read_view: "ss_read S a s = (x, s') \<Longrightarrow> view s' = view s"
    and write_ok: "ss_write S a b s = (Ok (), s') \<Longrightarrow> view s' = (view s)(a := Some b)"
    and write_fails: "ss_write S a b s = (Err e, s') \<Longrightarrow> view s' = view s"
    and delete_ok: "ss_delete S a s = (Ok d, s') \<Longrightarrow> view s' = (view s)(a := None)"
    and delete_fails: "ss_delete S a s = (Err e, s') \<Longrightarrow> view s' = view s \<or> view s' = (view s)(a := None)"
begin

lemma read_chunks_refines:
  "read_chunks S account g is s = (r, s') \<Longrightarrow>
     view s' = view s \<and> (r = fst (read_chunks entry_store account g is (view s)) \<or> read_error S r)"
proof (induction "is" arbitrary: s r s')
  case (Cons i "is")
  obtain x s1 where 1: "ss_read S (chunk_account account g i) s = (x, s1)" by fastforce
  note v1 = read_view [OF 1]
  show ?case
  proof (cases x)
    case (Inl e)
    then show ?thesis using Cons.prems 1 v1 by auto
  next
    case (Inr y)
    then have y: "y = view s (chunk_account account g i)" using read_ok 1 by blast
    show ?thesis
    proof (cases "\<exists>chunk. y = Some chunk \<and> length chunk \<le> SECRET_CHUNK_SIZE")
      case True
      obtain r2 s2 where 2: "read_chunks S account g is s1 = (r2, s2)" by fastforce
      show ?thesis using Cons.IH [OF 2] Cons.prems True 1 2 Inr v1 y entry_read_state [of account g "is" "view s"]
        by (cases r2; cases "fst (read_chunks entry_store account g is (view s))")
          (auto split: prod.splits sum.splits)
    qed (use Cons.prems 1 Inr v1 y in \<open>auto split: option.splits\<close>)
  qed
qed simp

lemma load_refines:
  assumes "load_from C S account s = (r, s')"
  shows "view s' = view s \<and> (r = stored C (view s) account \<or> read_error S r)"
proof -
  obtain x s1 where 1: "ss_read S account s = (x, s1)" by fastforce
  note v1 = read_view [OF 1]
  show ?thesis
  proof (cases x)
    case (Inl e)
    then show ?thesis using assms 1 v1 by (auto simp: load_from_def)
  next
    case (Inr y)
    then have y: "y = view s account" using read_ok 1 by blast
    show ?thesis
    proof (cases "\<exists>bs m. y = Some bs \<and> decode_manifest C bs = Ok m")
      case True
      then obtain bs m where m: "y = Some bs" "decode_manifest C bs = Ok m" by blast
      let ?g = "cs_generation (man_current m)" and ?is = "chunk_indices (cs_chunks (man_current m))"
      obtain r2 s2 where 2: "read_chunks S account ?g ?is s1 = (r2, s2)" by fastforce
      define q where "q = fst (read_chunks entry_store account ?g ?is (view s))"
      have "stored C (view s) account = (case q of Inl e \<Rightarrow> Err e | Inr bs \<Rightarrow> rmap Some (open_envelope C (man_current m) bs))"
        unfolding q_def by (rule stored_eq) (use m y in simp_all)
      moreover have "(r, s') = (case r2 of Inl e \<Rightarrow> (Err e, s2) | Inr bs \<Rightarrow> (rmap Some (open_envelope C (man_current m) bs), s2))"
        using assms 1 2 Inr m by (simp add: load_from_def split: sum.splits)
      moreover have "view s2 = view s" "r2 = q \<or> read_error S r2"
        using read_chunks_refines [OF 2] v1 by (simp_all add: q_def)
      ultimately show ?thesis by (cases r2) auto
    qed (use assms 1 Inr v1 y in
        \<open>auto simp: load_from_def stored_def split: option.splits sum.splits\<close>)
  qed
qed

lemma delete_one:
  assumes "ss_delete S a s = (r, s')"
  shows "c \<noteq> a \<Longrightarrow> view s' c = view s c" "view s c = None \<Longrightarrow> view s' c = None" "is_ok r \<Longrightarrow> view s' a = None"
proof -
  have "view s' = view s \<or> view s' = (view s)(a := None)" using assms delete_ok delete_fails by (cases r) auto
  then show "c \<noteq> a \<Longrightarrow> view s' c = view s c" "view s c = None \<Longrightarrow> view s' c = None" by auto
  show "is_ok r \<Longrightarrow> view s' a = None" using assms delete_ok by (cases r) auto
qed

lemma delete_chunks_view:
  "delete_chunks S account g is s = (failed, s') \<Longrightarrow>
     (c \<notin> chunk_account account g ` set is \<longrightarrow> view s' c = view s c) \<and> (view s c = None \<longrightarrow> view s' c = None) \<and>
     (\<not> failed \<longrightarrow> c \<in> chunk_account account g ` set is \<longrightarrow> view s' c = None)"
proof (induction "is" arbitrary: s failed s')
  case (Cons i "is")
  obtain r s1 where 1: "ss_delete S (chunk_account account g i) s = (r, s1)" by fastforce
  obtain f s2 where 2: "delete_chunks S account g is s1 = (f, s2)" by fastforce
  have "s' = s2" "failed \<longleftrightarrow> \<not> is_ok r \<or> f" using Cons.prems 1 2 by auto
  then show ?case using Cons.IH [OF 2] delete_one(1,2) [OF 1, of c] delete_one(3) [OF 1] by auto
qed simp

lemma cleanup_view:
  "cleanup_chunk_sets S account xs s = (remaining, s') \<Longrightarrow>
     (\<not> chunk_of account xs c \<longrightarrow> view s' c = view s c) \<and> (view s c = None \<longrightarrow> view s' c = None) \<and>
     subseq remaining xs \<and> (chunk_of account xs c \<longrightarrow> view s' c = None \<or> chunk_of account remaining c)"
proof (induction xs arbitrary: s remaining s')
  case (Cons x xs)
  obtain f s1 where 1: "delete_chunks S account (cs_generation x) (chunk_indices (cs_chunks x)) s = (f, s1)" by fastforce
  obtain rem s2 where 2: "cleanup_chunk_sets S account xs s1 = (rem, s2)" by fastforce
  have "s' = s2" "remaining = (if f then x # rem else rem)" using Cons.prems 1 2 by auto
  then show ?case using Cons.IH [OF 2] delete_chunks_view [OF 1, of c] by (auto simp: chunk_of_def)
qed (auto simp: chunk_of_def)

lemma write_chunks_view:
  "write_chunks S account g i cs s = (r, s') \<Longrightarrow> (\<And>k. k < length cs \<Longrightarrow> c \<noteq> chunk_account account g (i + of_nat k)) \<Longrightarrow>
     view s' c = view s c"
proof (induction cs arbitrary: i s)
  case (Cons b cs)
  obtain x s1 where 1: "ss_write S (chunk_account account g i) b s = (x, s1)" by fastforce
  have "view s1 c = view s c" using 1 write_ok write_fails Cons.prems(2) [of 0] by (cases x) auto
  moreover have "c \<noteq> chunk_account account g (i + 1 + of_nat k)" if "k < length cs" for k
    using Cons.prems(2) [of "Suc k"] that by (simp add: add.assoc)
  ultimately show ?case using Cons.IH [of "i + 1" s1] Cons.prems(1) 1 by (cases x) auto
qed simp

lemma write_chunks_ok:
  "write_chunks S account g (of_nat n) cs s = (None, s') \<Longrightarrow> n + length cs \<le> 2 ^ 32 \<Longrightarrow>
     (\<forall>k < length cs. view s' (chunk_account account g (of_nat (n + k))) = Some (cs ! k)) \<and>
     (\<forall>k < n. view s' (chunk_account account g (of_nat k)) = view s (chunk_account account g (of_nat k)))"
proof (induction cs arbitrary: n s)
  case (Cons b cs)
  obtain s1 where 1: "ss_write S (chunk_account account g (of_nat n)) b s = (Ok (), s1)"
    and 2: "write_chunks S account g (of_nat (Suc n)) cs s1 = (None, s')"
    using Cons.prems(1) by (auto simp: add.commute split: prod.splits sum.splits)
  have 3: "(of_nat j :: u32) = of_nat k \<longleftrightarrow> j = k" if "j < 2 ^ 32" "k < 2 ^ 32" for j k
    by (metis that unat_of_nat_small_u32)
  have IH: "\<forall>k < length cs. view s' (chunk_account account g (of_nat (Suc n + k))) = Some (cs ! k)"
    "\<forall>k < Suc n. view s' (chunk_account account g (of_nat k)) = view s1 (chunk_account account g (of_nat k))"
    using Cons.IH [OF 2] Cons.prems(2) by simp_all
  have v: "view s1 = (view s)(chunk_account account g (of_nat n) := Some b)" by (rule write_ok [OF 1])
  show ?case
  proof (intro conjI allI impI)
    fix k assume "k < length (b # cs)"
    then show "view s' (chunk_account account g (of_nat (n + k))) = Some ((b # cs) ! k)"
      using IH(1) IH(2) v by (cases k) (simp_all del: of_nat_Suc of_nat_add)
  next
    fix k assume "k < n"
    then show "view s' (chunk_account account g (of_nat k)) = view s (chunk_account account g (of_nat k))"
      using IH(2) v 3 [of k n] Cons.prems(2) by simp
  qed
qed simp

end

section \<open>Saving\<close>

text \<open>The generation drawn is none of those the manifest names, as 128 random bits are.\<close>

definition fresh_generation :: "cred_codec \<Rightarrow> (ustr \<Rightarrow> bytes option) \<Rightarrow> ustr \<Rightarrow> bytes \<Rightarrow> bool" where
  "fresh_generation C v account random \<longleftrightarrow>
     length random = 16 \<and>
     (\<forall>bs m. v account = Some bs \<longrightarrow> decode_manifest C bs = Ok m \<longrightarrow> hex_lower random \<notin> set (generations m))"

definition sets_of :: "credential_manifest \<Rightarrow> chunk_set list" where
  "sets_of m = man_obsolete m @ [as_chunk_set (man_current m)]"

text \<open>Every chunk of the account belongs to a set the manifest names.\<close>

definition tracked :: "cred_codec \<Rightarrow> (ustr \<Rightarrow> bytes option) \<Rightarrow> ustr \<Rightarrow> bool" where
  "tracked C v account \<longleftrightarrow>
     (\<forall>g i. v (chunk_account account g i) \<noteq> None \<longrightarrow>
        (\<exists>bs m. v account = Some bs \<and> decode_manifest C bs = Ok m \<and> chunk_of account (sets_of m) (chunk_account account g i)))"

definition previous_of :: "cred_codec \<Rightarrow> (ustr \<Rightarrow> bytes option) \<Rightarrow> ustr \<Rightarrow> credential_manifest option" where
  "previous_of C v account = (case v account of None \<Rightarrow> None | Some bs \<Rightarrow> result_ok (decode_manifest C bs))"

lemma previous_of_Some: "previous_of C v account = Some m \<longleftrightarrow> (\<exists>bs. v account = Some bs \<and> decode_manifest C bs = Ok m)"
  by (auto simp: previous_of_def result_ok_def split: option.splits sum.splits)

lemma set_subseq_subset: "subseq xs ys \<Longrightarrow> set xs \<subseteq> set ys"
  by (auto simp: subseq_conv_nths dest: in_set_nthsD)

lemma subseq_distinct: "subseq xs ys \<Longrightarrow> distinct ys \<Longrightarrow> distinct xs"
  by (auto simp: subseq_conv_nths distinct_nthsI)

lemma chunk_of_append: "chunk_of account (xs @ ys) c \<longleftrightarrow> chunk_of account xs c \<or> chunk_of account ys c"
  by (auto simp: chunk_of_def)

lemma chunk_of_generation: "chunk_of account xs (chunk_account account g i) \<Longrightarrow> g \<in> cs_generation ` set xs"
  by (auto simp: chunk_of_def)

lemma not_chunk_of_account: "\<not> chunk_of account xs account"
  by (auto simp: chunk_of_def)

lemma chunk_of_subseq: "subseq ys xs \<Longrightarrow> chunk_of account ys c \<Longrightarrow> chunk_of account xs c"
  by (auto simp: chunk_of_def dest: set_subseq_subset)

lemma generations_sets: "set (generations m) = cs_generation ` set (sets_of m)"
  by (auto simp: generations_def sets_of_def as_chunk_set_def)

lemma read_chunks_cong:
  "(\<And>i. i \<in> set is \<Longrightarrow> v' (chunk_account account g i) = v (chunk_account account g i)) \<Longrightarrow>
     fst (read_chunks entry_store account g is v') = fst (read_chunks entry_store account g is v)"
proof (induction "is")
  case (Cons i "is")
  then show ?case
    using entry_read_state [of account g "is" v] entry_read_state [of account g "is" v']
    by (auto split: option.splits prod.splits sum.splits)
qed simp

lemma stored_cong:
  assumes "v' account = v account"
    and "\<And>m i. previous_of C v account = Some m \<Longrightarrow>
           v' (chunk_account account (cs_generation (man_current m)) i) = v (chunk_account account (cs_generation (man_current m)) i)"
  shows "stored C v' account = stored C v account"
proof (cases "previous_of C v account")
  case None
  then show ?thesis using assms(1)
    by (auto simp: previous_of_def stored_def load_from_def result_ok_def split: option.splits sum.splits)
next
  case (Some m)
  then obtain bs where bs: "v account = Some bs" "decode_manifest C bs = Ok m" by (auto simp: previous_of_Some)
  then have "v' account = Some bs" using assms(1) by simp
  then show ?thesis using bs assms(2) [OF Some] by (simp add: stored_eq cong: read_chunks_cong)
qed

lemma read_entries:
  "list_all2 (\<lambda>i c. v (chunk_account account g i) = Some c \<and> length c \<le> SECRET_CHUNK_SIZE) is cs \<Longrightarrow>
     fst (read_chunks entry_store account g is v) = Ok (concat cs)"
proof (induction rule: list_all2_induct)
  case (Cons i "is" c cs)
  then show ?case using entry_read_state [of account g "is" v] by (auto split: prod.splits sum.splits)
qed simp

context secret_vault
begin

lemma replacement_view:
  "replacement_manifest C S account s = (r, s') \<Longrightarrow> view s' = view s \<and> (\<forall>p. r = Ok p \<longrightarrow> p = previous_of C (view s) account)"
  using read_ok [of account s] read_view [of account s]
  by (auto simp: replacement_manifest_def previous_of_def split: prod.splits sum.splits option.splits)

lemma cleanup_new_view:
  "(\<And>i. c \<noteq> chunk_account account g i) \<Longrightarrow> view (cleanup_new_chunks S account g n s) c = view s c"
  using delete_chunks_view [of account g "chunk_indices n" s _ _ c] by (cases "delete_chunks S account g (chunk_indices n) s")
    (auto simp: cleanup_new_chunks_def)

lemma commit_fails:
  assumes "commit_chunks C S account bs m mb s = (Err e, s')" "\<And>i. c \<noteq> chunk_account account (cs_generation (man_current m)) i"
  shows "view s' c = view s c"
proof -
  let ?g = "cs_generation (man_current m)"
  obtain w s1 where 1: "write_chunks S account ?g 0 (slice_chunks SECRET_CHUNK_SIZE bs) s = (w, s1)" by fastforce
  have v1: "view s1 c = view s c" using write_chunks_view [OF 1] assms(2) by blast
  show ?thesis
  proof (cases w)
    case None
    obtain x s2 where 2: "ss_write S account mb s1 = (x, s2)" by fastforce
    then show ?thesis using assms(1) 1 None v1 write_fails [of account mb s1 _ s2] cleanup_new_view [OF assms(2)]
      by (cases x) (auto simp: commit_chunks_def Let_def)
  qed (use assms 1 v1 cleanup_new_view [OF assms(2)] in \<open>auto simp: commit_chunks_def Let_def\<close>)
qed

text \<open>After the commit the manifest names the new generation; what is left of the older ones stays named.\<close>

lemma retire_view:
  assumes "cred_codec_ok C" "validate_manifest m = Ok ()" "encode_manifest C m = Ok mb" "view s account = Some mb"
  shows "\<exists>m'. previous_of C (view (retire_obsolete C S account m s)) account = Some m' \<and> man_current m' = man_current m \<and>
    (\<forall>c. c \<noteq> account \<longrightarrow> \<not> chunk_of account (man_obsolete m) c \<longrightarrow> view (retire_obsolete C S account m s) c = view s c) \<and>
    (\<forall>c. chunk_of account (man_obsolete m) c \<longrightarrow> view (retire_obsolete C S account m s) c \<noteq> None \<longrightarrow> chunk_of account (man_obsolete m') c)"
proof -
  obtain rem s1 where 1: "cleanup_chunk_sets S account (man_obsolete m) s = (rem, s1)" by fastforce
  note c1 = cleanup_view [OF 1]
  have a1: "view s1 account = Some mb" using c1 [of account] assms(4) not_chunk_of_account by simp
  define m2 where "m2 = m\<lparr>man_obsolete := rem\<rparr>"
  have sub: "subseq rem (man_obsolete m)" using c1 by blast
  then have v2: "validate_manifest m2 = Ok ()" using assms(2) set_subseq_subset [OF sub] list_emb_length [OF sub]
      subseq_map [OF sub, of cs_generation]
    by (auto simp: m2_def validate_manifest_iff generations_def dest: subseq_distinct)
  have kept: ?thesis if "view (retire_obsolete C S account m s) = view s1"
    using that c1 a1 encode_decode_manifest [OF assms(1,3,2)] chunk_of_subseq [OF sub]
    by (intro exI [of _ m]) (auto simp: previous_of_Some)
  show ?thesis
  proof (cases "retire_obsolete C S account m s = s1")
    case False
    then obtain bs x where bs: "encode_manifest C m2 = Ok bs" "ss_write S account bs s1 = (x, retire_obsolete C S account m s)"
      using 1 by (auto simp: retire_obsolete_def m2_def split: if_splits sum.splits) (metis surj_pair snd_conv)
    show ?thesis
    proof (cases x)
      case (Inr u)
      then have "view (retire_obsolete C S account m s) = (view s1)(account := Some bs)" using write_ok bs(2) by simp
      moreover have "view s1 c \<noteq> None \<Longrightarrow> chunk_of account (man_obsolete m) c \<Longrightarrow> chunk_of account rem c" for c
        using c1 [of c] by auto
      ultimately show ?thesis using c1 encode_decode_manifest [OF assms(1) bs(1) v2] not_chunk_of_account
        by (intro exI [of _ m2]) (auto simp: previous_of_Some m2_def)
    qed (use bs(2) write_fails kept in blast)
  qed (use kept in simp)
qed

lemma commit_ok:
  assumes "commit_chunks C S account bs m mb s = (Ok (), s')" "cred_codec_ok C" "validate_manifest m = Ok ()"
    and "encode_manifest C m = Ok mb" "unat (cs_chunks (man_current m)) = div_ceil (length bs) SECRET_CHUNK_SIZE"
  shows "\<exists>m'. previous_of C (view s') account = Some m' \<and> man_current m' = man_current m \<and>
    fst (read_chunks entry_store account (cs_generation (man_current m)) (chunk_indices (cs_chunks (man_current m))) (view s')) = Ok bs \<and>
    (\<forall>g i. view s' (chunk_account account g i) \<noteq> None \<longrightarrow>
       chunk_of account (sets_of m') (chunk_account account g i) \<or>
       view s (chunk_account account g i) \<noteq> None \<and> \<not> chunk_of account (man_obsolete m) (chunk_account account g i))"
proof -
  let ?cur = "man_current m" and ?cs = "slice_chunks SECRET_CHUNK_SIZE bs"
  let ?g = "cs_generation ?cur"
  note cs = slice_chunks_spec [of SECRET_CHUNK_SIZE bs, simplified]
  obtain s1 where 1: "write_chunks S account ?g (of_nat 0) ?cs s = (None, s1)"
    and c1: "(case ss_write S account mb s1 of (Inl e, s) \<Rightarrow> (Err e, cleanup_new_chunks S account ?g (cs_chunks ?cur) s)
       | (Inr _, s) \<Rightarrow> (Ok (), retire_obsolete C S account m s)) = (Ok (), s')"
    using assms(1) by (auto simp: commit_chunks_def Let_def split: prod.splits option.splits)
  obtain s2 where 2: "ss_write S account mb s1 = (Ok (), s2)" "s' = retire_obsolete C S account m s2"
    using c1 by (auto split: prod.splits sum.splits)
  have v2: "view s2 = (view s1)(account := Some mb)" by (rule write_ok [OF 2(1)])
  obtain m' where m': "previous_of C (view s') account = Some m'" "man_current m' = ?cur"
    "\<And>c. c \<noteq> account \<Longrightarrow> \<not> chunk_of account (man_obsolete m) c \<Longrightarrow> view s' c = view s2 c"
    "\<And>c. chunk_of account (man_obsolete m) c \<Longrightarrow> view s' c \<noteq> None \<Longrightarrow> chunk_of account (man_obsolete m') c"
    using retire_view [OF assms(2-4), of s2 account] v2 2(2) by auto
  have new: "\<not> chunk_of account (man_obsolete m) (chunk_account account ?g i)" for i
    using assms(3) chunk_of_generation [of account "man_obsolete m" ?g i] by (auto simp: validate_manifest_iff generations_def)
  have n: "unat (cs_chunks ?cur) = length ?cs" using assms(5) cs by simp
  have "unat (cs_chunks ?cur) < 2 ^ 32" using unsigned_less [of "cs_chunks ?cur", where 'a = nat] by simp
  then have "view s1 (chunk_account account ?g (of_nat k)) = Some (?cs ! k)" if "k < length ?cs" for k
    using write_chunks_ok [OF 1] that n by simp
  then have "view s' (chunk_account account ?g (of_nat k)) = Some (?cs ! k)" if "k < length ?cs" for k
    using m'(3) [OF _ new] v2 that by simp
  then have "list_all2 (\<lambda>i c. view s' (chunk_account account ?g i) = Some c \<and> length c \<le> SECRET_CHUNK_SIZE) (chunk_indices (cs_chunks ?cur)) ?cs"
    using n cs by (simp add: list_all2_conv_all_nth nth_chunk_indices)
  then have "fst (read_chunks entry_store account ?g (chunk_indices (cs_chunks ?cur)) (view s')) = Ok (concat ?cs)"
    by (rule read_entries)
  moreover have "concat ?cs = bs" using cs by simp
  moreover have "chunk_of account (sets_of m') c \<or> view s c \<noteq> None \<and> \<not> chunk_of account (man_obsolete m) c"
    if "view s' c \<noteq> None" "c = chunk_account account g i" for c g i
  proof (cases "chunk_of account (man_obsolete m) c \<or> chunk_of account [as_chunk_set ?cur] c")
    case True
    then show ?thesis using m'(2,4) that by (auto simp: sets_of_def chunk_of_append)
  next
    case False
    then have "view s' c = view s1 c" using m'(3) [of c] that v2 by simp
    moreover have "c \<noteq> chunk_account account ?g (0 + of_nat k)" if "k < length ?cs" for k
      using False that n by (auto simp: chunk_of_def as_chunk_set_def chunk_indices_def)
    ultimately show ?thesis using write_chunks_view [of account ?g 0 ?cs s None s1 c] 1 that False by simp
  qed
  ultimately show ?thesis using m'(1,2) by (intro exI [of _ m']) simp
qed

text \<open>Before anything is written: the older generations are removed where the store allows it.\<close>

lemma save_start:
  assumes "save_to C S (Some random) account credential s = (r, s')" "fresh_generation C (view s) account random"
  shows "(\<exists>e. r = Err e \<and> view s' = view s) \<or>
    (\<exists>obsolete s1. view s1 account = view s account \<and>
       distinct (hex_lower random # map cs_generation obsolete) \<and> (\<forall>x \<in> set obsolete. set_valid (cs_generation x) (cs_chunks x)) \<and>
       (\<forall>m i. previous_of C (view s) account = Some m \<longrightarrow>
          view s1 (chunk_account account (cs_generation (man_current m)) i) = view s (chunk_account account (cs_generation (man_current m)) i)) \<and>
       (\<forall>c. c \<noteq> account \<longrightarrow> view s1 c \<noteq> None \<longrightarrow>
          chunk_of account obsolete c \<or> view s c \<noteq> None \<and> (\<forall>m. previous_of C (view s) account = Some m \<longrightarrow> \<not> chunk_of account (sets_of m) c)) \<and>
       (case prepare_manifest C (Some random) obsolete credential of
          Inl e \<Rightarrow> (Err e, s1) | Inr (bs, m, mb) \<Rightarrow> commit_chunks C S account bs m mb s1) = (r, s'))"
proof -
  obtain x s0 where 0: "replacement_manifest C S account s = (x, s0)" by fastforce
  note v0 = replacement_view [OF 0]
  show ?thesis
  proof (cases x)
    case (Inl e)
    then show ?thesis using assms(1) 0 v0 by (intro disjI1) (auto simp: save_to_def)
  next
    case (Inr p)
    then have p: "p = previous_of C (view s) account" "view s0 = view s" using v0 by simp_all
    show ?thesis
    proof (cases p)
      case None
      then show ?thesis using assms(1) 0 Inr p by (intro disjI2 exI [of _ "[]"] exI [of _ s0]) (simp add: save_to_def)
    next
      case (Some m)
      obtain rem s1 where 1: "cleanup_chunk_sets S account (man_obsolete m) s0 = (rem, s1)" by fastforce
      note c1 = cleanup_view [OF 1, unfolded p(2)]
      have sub: "subseq rem (man_obsolete m)" using c1 by blast
      have m: "validate_manifest m = Ok ()" "hex_lower random \<notin> set (generations m)"
        using Some p(1) assms(2) by (auto simp: previous_of_Some fresh_generation_def dest: decode_manifest_OkD)
      have "distinct (hex_lower random # map cs_generation (rem @ [as_chunk_set (man_current m)]))"
        using m subseq_distinct [OF subseq_map [OF sub, of cs_generation]] set_subseq_subset [OF sub]
        by (auto simp: validate_manifest_iff generations_def as_chunk_set_def)
      moreover have "\<forall>x \<in> set (rem @ [as_chunk_set (man_current m)]). set_valid (cs_generation x) (cs_chunks x)"
        using m(1) set_subseq_subset [OF sub] by (auto simp: validate_manifest_iff as_chunk_set_def)
      moreover have "\<not> chunk_of account (man_obsolete m) (chunk_account account (cs_generation (man_current m)) i)" for i
        using m(1) chunk_of_generation by (fastforce simp: validate_manifest_iff generations_def)
      moreover have "view s1 account = view s account" using c1 not_chunk_of_account by simp
      moreover have "chunk_of account (rem @ [as_chunk_set (man_current m)]) c \<or> view s c \<noteq> None \<and> \<not> chunk_of account (sets_of m) c"
        if "view s1 c \<noteq> None" for c using c1 [of c] that by (auto simp: chunk_of_append sets_of_def)
      moreover have "(case prepare_manifest C (Some random) (rem @ [as_chunk_set (man_current m)]) credential of
          Inl e \<Rightarrow> (Err e, s1) | Inr (bs, m, mb) \<Rightarrow> commit_chunks C S account bs m mb s1) = (r, s')"
        using assms(1) 0 1 Inr Some by (simp add: save_to_def)
      moreover have "previous_of C (view s) account = Some m" using p(1) Some by simp
      ultimately show ?thesis using c1
        by (intro disjI2 exI [of _ "rem @ [as_chunk_set (man_current m)]"] exI [of _ s1]) (simp del: distinct.simps)
    qed
  qed
qed

lemma save_fails:
  assumes "save_to C S (Some random) account credential s = (Err e, s')" "fresh_generation C (view s) account random"
  shows "stored C (view s') account = stored C (view s) account"
  using save_start [OF assms]
proof (elim disjE exE conjE)
  fix obsolete s1
  assume a: "view s1 account = view s account" "distinct (hex_lower random # map cs_generation obsolete)"
    "\<forall>x \<in> set obsolete. set_valid (cs_generation x) (cs_chunks x)"
    "\<forall>m i. previous_of C (view s) account = Some m \<longrightarrow>
       view s1 (chunk_account account (cs_generation (man_current m)) i) = view s (chunk_account account (cs_generation (man_current m)) i)"
    "(case prepare_manifest C (Some random) obsolete credential of
       Inl e \<Rightarrow> (Err e, s1) | Inr (bs, m, mb) \<Rightarrow> commit_chunks C S account bs m mb s1) = (Err e, s')"
  have old: "view s' c = view s1 c" if "\<And>i. c \<noteq> chunk_account account (hex_lower random) i" for c
  proof (cases "prepare_manifest C (Some random) obsolete credential")
    case (Inr p)
    obtain bs m mb where p: "p = (bs, m, mb)" by (cases p)
    have "cs_generation (man_current m) = hex_lower random"
      using prepare_manifest_OkD(4) [OF _ _ a(2,3)] Inr p assms(2) by (auto simp: fresh_generation_def)
    then show ?thesis using commit_fails [of C account bs m mb s1 e s' c] a(5) Inr p that by simp
  qed (use a(5) in simp)
  show ?thesis
  proof (rule stored_cong)
    show "view s' account = view s account" using old [of account] a(1) by simp
    fix m i
    assume "previous_of C (view s) account = Some m"
    then show "view s' (chunk_account account (cs_generation (man_current m)) i) = view s (chunk_account account (cs_generation (man_current m)) i)"
      using old a(4) assms(2) by (force simp: previous_of_Some fresh_generation_def generations_def)
  qed
qed simp

lemma save_succeeds:
  assumes "save_to C S (Some random) account credential s = (Ok (), s')" "fresh_generation C (view s) account random" "cred_codec_ok C"
  shows "stored C (view s') account = Ok (Some credential)" "tracked C (view s) account \<Longrightarrow> tracked C (view s') account"
proof -
  from save_start [OF assms(1,2)] obtain obsolete s1 where
    a: "distinct (hex_lower random # map cs_generation obsolete)" "\<forall>x \<in> set obsolete. set_valid (cs_generation x) (cs_chunks x)"
    and old: "\<And>c. c \<noteq> account \<Longrightarrow> view s1 c \<noteq> None \<Longrightarrow>
      chunk_of account obsolete c \<or> view s c \<noteq> None \<and> (\<forall>m. previous_of C (view s) account = Some m \<longrightarrow> \<not> chunk_of account (sets_of m) c)"
    and c: "(case prepare_manifest C (Some random) obsolete credential of
       Inl e \<Rightarrow> (Err e, s1) | Inr (bs, m, mb) \<Rightarrow> commit_chunks C S account bs m mb s1) = (Ok (), s')"
    by blast
  from c obtain bs m mb where p: "prepare_manifest C (Some random) obsolete credential = Ok (bs, m, mb)"
    and w: "commit_chunks C S account bs m mb s1 = (Ok (), s')"
    by (cases "prepare_manifest C (Some random) obsolete credential") auto
  have r: "length random = 16" using assms(2) by (simp add: fresh_generation_def)
  note p = prepare_manifest_OkD [OF p r a]
  obtain m' where m': "previous_of C (view s') account = Some m'" "man_current m' = man_current m"
    "fst (read_chunks entry_store account (cs_generation (man_current m)) (chunk_indices (cs_chunks (man_current m))) (view s')) = Ok bs"
    "\<And>g i. view s' (chunk_account account g i) \<noteq> None \<Longrightarrow>
       chunk_of account (sets_of m') (chunk_account account g i) \<or>
       view s1 (chunk_account account g i) \<noteq> None \<and> \<not> chunk_of account (man_obsolete m) (chunk_account account g i)"
    using commit_ok [OF w assms(3) p(1,2,7)] by blast
  have "open_envelope C (man_current m) bs = Ok credential"
    using p(5,6,8) assms(3) by (simp add: open_envelope_def cred_codec_ok_def)
  then show "stored C (view s') account = Ok (Some credential)"
    using m'(1-3) by (auto simp: previous_of_Some stored_eq)
  show "tracked C (view s') account" if t: "tracked C (view s) account"
    unfolding tracked_def
  proof (intro allI impI)
    fix g i
    assume "view s' (chunk_account account g i) \<noteq> None"
    moreover have "\<not> (view s1 (chunk_account account g i) \<noteq> None \<and> \<not> chunk_of account obsolete (chunk_account account g i))"
      using old [of "chunk_account account g i"] t by (force simp: tracked_def previous_of_Some)
    ultimately show "\<exists>bs m. view s' account = Some bs \<and> decode_manifest C bs = Ok m \<and> chunk_of account (sets_of m) (chunk_account account g i)"
      using m'(1,4) p(3) by (fastforce simp: previous_of_Some)
  qed
qed

text \<open>A deletion that reports success has removed the manifest and every chunk it names, whatever is in the store.\<close>

lemma delete_clears:
  assumes "delete_from C S account s = (Ok d, s')"
  shows "view s' account = None" "view s c = None \<Longrightarrow> view s' c = None"
    and "view s account = Some bs \<Longrightarrow> decode_manifest C bs = Ok m \<Longrightarrow> chunk_of account (sets_of m) c \<Longrightarrow> view s' c = None"
proof -
  obtain x s0 where 0: "ss_read S account s = (Ok x, s0)" using assms(1) by (auto simp: delete_from_def split: prod.splits sum.splits)
  note v0 = read_view [OF 0] read_ok [OF 0]
  have "view s' account = None \<and> (view s c = None \<longrightarrow> view s' c = None) \<and>
    (view s account = Some bs \<longrightarrow> decode_manifest C bs = Ok m \<longrightarrow> chunk_of account (sets_of m) c \<longrightarrow> view s' c = None)"
  proof (cases x)
    case None
    then show ?thesis using assms 0 v0 by (auto simp: delete_from_def)
  next
    case (Some bs')
    obtain m' where m: "decode_manifest C bs' = Ok m'"
      using assms(1) 0 Some by (cases "decode_manifest C bs'") (auto simp: delete_from_def)
    obtain rem s1 where 1: "cleanup_chunk_sets S account (sets_of m') s0 = (rem, s1)" by fastforce
    have "rem = []" using assms(1) 0 Some m 1 by (auto simp: delete_from_def sets_of_def split: if_splits)
    then obtain y where 2: "ss_delete S account s1 = (Ok y, s')"
      using assms(1) 0 Some m 1 by (auto simp: delete_from_def sets_of_def split: prod.splits sum.splits)
    have "view s c = None \<or> chunk_of account (sets_of m') c \<Longrightarrow> view s1 c = None"
      using cleanup_view [OF 1, of c] v0 \<open>rem = []\<close> by (auto simp: chunk_of_def)
    then show ?thesis using delete_ok [OF 2] Some m v0 by auto
  qed
  then show "view s' account = None" "view s c = None \<Longrightarrow> view s' c = None"
    "view s account = Some bs \<Longrightarrow> decode_manifest C bs = Ok m \<Longrightarrow> chunk_of account (sets_of m) c \<Longrightarrow> view s' c = None" by blast+
qed

lemma delete_removes:
  assumes "delete_from C S account s = (Ok d, s')" "tracked C (view s) account"
  shows "view s' account = None \<and> view s' (chunk_account account g i) = None"
proof (cases "view s (chunk_account account g i)")
  case None
  then show ?thesis using delete_clears(1,2) [OF assms(1)] by simp
next
  case (Some b)
  then obtain bs m where "view s account = Some bs" "decode_manifest C bs = Ok m"
    "chunk_of account (sets_of m) (chunk_account account g i)" using assms(2) by (force simp: tracked_def)
  then show ?thesis using delete_clears(1,3) [OF assms(1)] by blast
qed

lemma delete_keeps_tracked:
  assumes "delete_from C S account s = (r, s')" "tracked C (view s) account"
  shows "tracked C (view s') account"
proof -
  obtain x s0 where 0: "ss_read S account s = (x, s0)" by fastforce
  note v0 = read_view [OF 0]
  show ?thesis
  proof (cases "\<exists>bs m. x = Ok (Some bs) \<and> decode_manifest C bs = Ok m")
    case False
    then have "s' = s0" using assms(1) 0 by (auto simp: delete_from_def split: sum.splits option.splits)
    then show ?thesis using v0 assms(2) by simp
  next
    case True
    then obtain bs m where m: "x = Ok (Some bs)" "decode_manifest C bs = Ok m" by blast
    then have a: "view s account = Some bs" using read_ok [of account s] 0 by simp
    obtain rem s1 where 1: "cleanup_chunk_sets S account (sets_of m) s0 = (rem, s1)" by fastforce
    have "chunk_of account (sets_of m) (chunk_account account g i)" if "view s1 (chunk_account account g i) \<noteq> None" for g i
      using cleanup_view [OF 1, of "chunk_account account g i"] that v0 assms(2) a m by (fastforce simp: tracked_def)
    moreover have "view s1 account = Some bs" using cleanup_view [OF 1, of account] a v0 not_chunk_of_account by simp
    ultimately have t1: "tracked C (view s1) account" using m(2) by (simp add: tracked_def)
    show ?thesis
    proof (cases "rem = []")
      case True
      obtain y s2 where 2: "ss_delete S account s1 = (y, s2)" by fastforce
      then have s2: "s' = s2" using assms(1) 0 1 m True by (auto simp: delete_from_def sets_of_def split: sum.splits)
      have "view s1 (chunk_account account g i) = None" for g i
        using cleanup_view [OF 1, of "chunk_account account g i"] v0 assms(2) a m True by (force simp: tracked_def chunk_of_def)
      then have "view s' (chunk_account account g i) = None" for g i using delete_one(2) [OF 2] s2 by simp
      then show ?thesis by (simp add: tracked_def)
    next
      case False
      then have "s' = s1" using assms(1) 0 1 m by (auto simp: delete_from_def sets_of_def)
      then show ?thesis using t1 by simp
    qed
  qed
qed

end

section \<open>The key store of the operating system\<close>

text \<open>What the crate documents: a failed write leaves the entry as it was, and reading or opening changes nothing.\<close>

locale lawful_keyring =
  fixes K :: "'s keyring" and view :: "'s \<Rightarrow> ustr \<Rightarrow> bytes option"
  assumes new_view: "kr_new K service a s = (x, s') \<Longrightarrow> view s' = view s"
    and get_view: "kr_get K a s = (y, s') \<Longrightarrow> view s' = view s"
    and get_ok: "kr_get K a s = (Inr b, s') \<Longrightarrow> view s a = Some b"
    and get_none: "kr_get K a s = (Inl NoEntry, s') \<Longrightarrow> view s a = None"
    and set_ok: "kr_set K a b s = (Inr (), s') \<Longrightarrow> view s' = (view s)(a := Some b)"
    and set_fails: "kr_set K a b s = (Inl e, s') \<Longrightarrow> view s' = view s"
    and remove_ok: "kr_delete K a s = (Inr (), s') \<Longrightarrow> view s' = (view s)(a := None)"
    and remove_none: "kr_delete K a s = (Inl NoEntry, s') \<Longrightarrow> view s' = view s \<and> view s a = None"
    and remove_fails: "kr_delete K a s = (Inl KeyringFailure, s') \<Longrightarrow> view s' = view s \<or> view s' = (view s)(a := None)"
begin

lemma entry_view: "keyring_entry K a s = (x, s') \<Longrightarrow> view s' = view s"
  using new_view by (auto simp: keyring_entry_def split: prod.splits sum.splits)

lemma os_read_view: "os_read K a s = (x, s') \<Longrightarrow> view s' = view s \<and> (\<forall>r. x = Ok r \<longrightarrow> r = view s a)"
  using entry_view [of a s] get_view [of a] get_ok [of a] get_none [of a]
  by (fastforce simp: os_read_def split: prod.splits sum.splits keyring_error.splits)

lemma os_write_view: "os_write K a b s = (x, s') \<Longrightarrow> view s' = (if is_ok x then (view s)(a := Some b) else view s)"
  using entry_view [of a s] set_ok [of a b] set_fails [of a b]
  by (fastforce simp: os_write_def split: prod.splits sum.splits)

lemma os_delete_view:
  assumes d: "os_delete K a s = (x, s')"
  shows "view s' = (view s)(a := None) \<or> \<not> is_ok x \<and> view s' = view s"
proof -
  obtain y s0 where 0: "keyring_entry K a s = (y, s0)" by fastforce
  obtain z s1 where 1: "kr_delete K a s0 = (z, s1)" by fastforce
  note v0 = entry_view [OF 0]
  show ?thesis
  proof (cases y)
    case (Inl e)
    then show ?thesis using d 0 v0 by (auto simp: os_delete_def)
  next
    case (Inr u)
    then have x: "s' = s1" "x = (case z of Inr _ \<Rightarrow> Ok True | Inl NoEntry \<Rightarrow> Ok False | Inl KeyringFailure \<Rightarrow> Err (store_error ''delete''))"
      using d 0 1 by (auto simp: os_delete_def split: sum.splits keyring_error.splits)
    consider "z = Inr ()" | "z = Inl NoEntry" | "z = Inl KeyringFailure" by (metis keyring_error.exhaust old.unit.exhaust sum.exhaust)
    then show ?thesis
    proof cases
      case 1
      then show ?thesis using remove_ok \<open>kr_delete K a s0 = (z, s1)\<close> v0 x(1) by simp
    next
      case 2
      then have "view s1 = view s" "view s a = None" using remove_none \<open>kr_delete K a s0 = (z, s1)\<close> v0 by metis+
      then show ?thesis using x(1) by (simp add: fun_upd_idem)
    next
      case 3
      then show ?thesis using remove_fails \<open>kr_delete K a s0 = (z, s1)\<close> v0 x by fastforce
    qed
  qed
qed

end

sublocale lawful_keyring \<subseteq> os: secret_vault "operating_system_store K" view
proof unfold_locales
  show "\<And>a s r s'. ss_read (operating_system_store K) a s = (Ok r, s') \<Longrightarrow> r = view s a"
    "\<And>a s x s'. ss_read (operating_system_store K) a s = (x, s') \<Longrightarrow> view s' = view s"
    using os_read_view by (auto simp: operating_system_store_def)
  show "\<And>a b s s'. ss_write (operating_system_store K) a b s = (Ok (), s') \<Longrightarrow> view s' = (view s)(a := Some b)"
    "\<And>a b s e s'. ss_write (operating_system_store K) a b s = (Err e, s') \<Longrightarrow> view s' = view s"
    using os_write_view by (fastforce simp: operating_system_store_def)+
  show "\<And>a s d s'. ss_delete (operating_system_store K) a s = (Ok d, s') \<Longrightarrow> view s' = (view s)(a := None)"
    "\<And>a s e s'. ss_delete (operating_system_store K) a s = (Err e, s') \<Longrightarrow> view s' = view s \<or> view s' = (view s)(a := None)"
    using os_delete_view by (fastforce simp: operating_system_store_def)+
qed

context lawful_keyring
begin

lemma vault: "secret_vault (operating_system_store K) view"
  by (fact os.secret_vault_axioms)

end

text \<open>A key store in memory, on which chosen calls fail.\<close>

definition sim_call :: "(nat \<Rightarrow> bool) \<Rightarrow> ((ustr \<times> bytes) list \<Rightarrow> (ustr \<times> bytes) list) \<Rightarrow> mem_state \<Rightarrow> (keyring_error + unit) \<times> mem_state" where
  "sim_call faulty f s = (case mem_try faulty f s of (Inl _, s) \<Rightarrow> (Inl KeyringFailure, s) | (Inr _, s) \<Rightarrow> (Inr (), s))"

definition sim_keyring :: "(nat \<Rightarrow> bool) \<Rightarrow> mem_state keyring" where
  "sim_keyring faulty = \<lparr>
     kr_new = (\<lambda>_ _. sim_call faulty (\<lambda>m. m)),
     kr_get = (\<lambda>a s. case sim_call faulty (\<lambda>m. m) s of
        (Inl e, s) \<Rightarrow> (Inl e, s)
      | (Inr _, s) \<Rightarrow> ((case map_of (mem_files s) a of None \<Rightarrow> Inl NoEntry | Some b \<Rightarrow> Inr b), s)),
     kr_set = (\<lambda>a b. sim_call faulty (AList.update a b)),
     kr_delete = (\<lambda>a s. case map_of (mem_files s) a of
        None \<Rightarrow> (Inl NoEntry, s) | Some _ \<Rightarrow> sim_call faulty (AList.delete a) s)\<rparr>"

interpretation sim_keys: lawful_keyring "sim_keyring faulty" mem_view
  by unfold_locales
    (auto simp: sim_keyring_def sim_call_def mem_view_def mem_try_def update_conv' delete_conv' fun_eq_iff
       split: if_splits option.splits)

interpretation sim_vault: secret_vault entry_store "\<lambda>v. v"
  by unfold_locales auto

section \<open>Properties\<close>

lemma save_then_load:
  assumes "lawful_keyring K view" "cred_codec_ok C" "fresh_generation C (view s) account random"
    and "credential_save C K (Some random) account credential s = (Ok (), s')"
    and "credential_load C K account s' = (r, s'')"
  shows "r = Ok (Some credential) \<or> read_error (operating_system_store K) r"
proof -
  note vault = lawful_keyring.vault [OF assms(1)]
  have save: "save_to C (operating_system_store K) (Some random) account credential s = (Ok (), s')"
    and load: "load_from C (operating_system_store K) account s' = (r, s'')"
    using assms(4,5) by (auto simp: credential_save_def credential_load_def split: sum.splits)
  show ?thesis
    using secret_vault.save_succeeds(1) [OF vault save assms(3,2)] secret_vault.load_refines [OF vault load] by simp
qed

text \<open>(a saved credential is the one loaded). After a save that reported success, loading gives that credential, or
  reports that the key store could not be read.\<close>

theorem saved_credential_loads:
  assumes "lawful_keyring K view" "cred_codec_ok C" "fresh_generation C (view s) account random"
    and "credential_save C K (Some random) account credential s = (Ok (), s')"
    and "credential_load C K account s' = (r, s'')"
  shows "r = Ok (Some credential) \<or> read_error (operating_system_store K) r"
  using assms by (rule save_then_load)

text \<open>C23 (a failed save keeps the old credential). When a save fails at any point, what could be loaded before it is still
  what is loaded after it.\<close>

theorem failed_save_keeps_credential:
  assumes "lawful_keyring K view" "credential_load C K account s = (Ok old, s0)" "fresh_generation C (view s0) account random"
    and "credential_save C K (Some random) account credential s0 = (Err e, s')"
    and "credential_load C K account s' = (r, s'')"
  shows "r = Ok old \<or> read_error (operating_system_store K) r"
proof -
  note vault = lawful_keyring.vault [OF assms(1)]
  have load0: "load_from C (operating_system_store K) account s = (Ok old, s0)"
    and save: "save_to C (operating_system_store K) (Some random) account credential s0 = (Err e, s')"
    and load: "load_from C (operating_system_store K) account s' = (r, s'')"
    using assms(2,4,5) by (auto simp: credential_save_def credential_load_def split: sum.splits)
  show ?thesis
    using secret_vault.load_refines [OF vault load0] secret_vault.save_fails [OF vault save assms(3)]
      secret_vault.load_refines [OF vault load] by auto
qed

text \<open>The history of an account: it starts without chunks, then come loads, deletions with any result and saves that
  succeed.\<close>

inductive credential_history :: "cred_codec \<Rightarrow> 's keyring \<Rightarrow> ('s \<Rightarrow> ustr \<Rightarrow> bytes option) \<Rightarrow> ustr \<Rightarrow> 's \<Rightarrow> bool" for C K view account where
  history_start: "(\<And>g i. view s (chunk_account account g i) = None) \<Longrightarrow> credential_history C K view account s"
| history_load: "credential_history C K view account s \<Longrightarrow> credential_load C K account s = (r, s') \<Longrightarrow>
    credential_history C K view account s'"
| history_save: "credential_history C K view account s \<Longrightarrow> fresh_generation C (view s) account random \<Longrightarrow>
    credential_save C K (Some random) account credential s = (Ok (), s') \<Longrightarrow> credential_history C K view account s'"
| history_delete: "credential_history C K view account s \<Longrightarrow> credential_delete C K account s = (d, s') \<Longrightarrow>
    credential_history C K view account s'"

lemma history_tracked:
  assumes "lawful_keyring K view" "cred_codec_ok C"
  shows "credential_history C K view account s \<Longrightarrow> tracked C (view s) account"
proof (induction rule: credential_history.induct)
  case (history_start s)
  then show ?case by (simp add: tracked_def)
next
  case (history_load s r s')
  then show ?case using secret_vault.load_refines [OF lawful_keyring.vault [OF assms(1)], of C account s r s']
    by (auto simp: credential_load_def split: sum.splits)
next
  case (history_save s random credential s')
  then show ?case using secret_vault.save_succeeds(2) [OF lawful_keyring.vault [OF assms(1)] _ _ assms(2), of random account credential s s']
    by (auto simp: credential_save_def split: sum.splits)
next
  case (history_delete s d s')
  then show ?case using secret_vault.delete_keeps_tracked [OF lawful_keyring.vault [OF assms(1)], of C account s d s']
    by (auto simp: credential_delete_def split: sum.splits)
qed

text \<open>(a deletion leaves no secret). After any such history, a deletion that reports success leaves neither the manifest
  nor a single chunk of any generation in the key store.\<close>

theorem deleted_credential_leaves_nothing:
  assumes "lawful_keyring K view" "cred_codec_ok C" "credential_history C K view account s"
    and "credential_delete C K account s = (Ok d, s')"
  shows "view s' account = None \<and> (\<forall>generation index. view s' (chunk_account account generation index) = None)"
proof -
  note vault = lawful_keyring.vault [OF assms(1)]
  have "delete_from C (operating_system_store K) account s = (Ok d, s')"
    using assms(4) by (auto simp: credential_delete_def split: sum.splits)
  from secret_vault.delete_removes [OF vault this history_tracked [OF assms(1-3)]] show ?thesis by simp
qed

section \<open>Witnesses\<close>

definition demo_generation :: bytes where
  "demo_generation = replicate 16 7"

definition demo_stored :: stored_credential where
  "demo_stored = StoredPassword [0x75] [0x70]"

definition demo_manifest :: credential_manifest where
  "demo_manifest = \<lparr>man_version = 1, man_current = \<lparr>cs_generation = hex_lower demo_generation, cs_chunks = 1,
     cur_length = 1, cur_sha256 = [2]\<rparr>, man_obsolete = []\<rparr>"

text \<open>A codec of one credential and its manifest.\<close>

definition demo_cred_codec :: cred_codec where
  "demo_cred_codec = \<lparr>
     manifest_to_vec = (\<lambda>m. if m = demo_manifest then Some [1] else None),
     manifest_from_slice = (\<lambda>b. if b = [1] then Some demo_manifest else None),
     envelope_to_vec = (\<lambda>e. if e = \<lparr>env_version = 1, env_credential = demo_stored\<rparr> then Some [2] else None),
     envelope_from_slice = (\<lambda>b. if b = [2] then Some \<lparr>env_version = 1, env_credential = demo_stored\<rparr> else None),
     cred_sha256 = (\<lambda>b. b)\<rparr>"

definition demo_keys :: mem_state where
  "demo_keys = \<lparr>mem_calls = 0, mem_files = []\<rparr>"

definition demo_saved :: "nat \<Rightarrow> mem_state" where
  "demo_saved n = \<lparr>mem_calls = n, mem_files = [(chunk_account [0x61] (hex_lower demo_generation) 0, [2]), ([0x61], [1])]\<rparr>"

lemma demo_codec_ok: "cred_codec_ok demo_cred_codec"
  by (simp add: cred_codec_ok_def demo_cred_codec_def)

lemma demo_fresh: "mem_files s = [] \<Longrightarrow> fresh_generation C (mem_view s) account demo_generation"
  by (simp add: fresh_generation_def mem_view_def demo_generation_def)

lemma demo_slice: "slice_chunks 2048 [x] = [[x]]"
  by (simp add: slice_chunks.simps [of 2048 "[x]"] slice_chunks.simps [of 2048 "[]"])

lemma demo_prepare:
  "prepare_manifest demo_cred_codec (Some demo_generation) [] demo_stored = Ok ([2], demo_manifest, [1])"
  by (simp add: prepare_manifest_def demo_cred_codec_def new_generation_def div_ceil_def encode_manifest_def demo_manifest_def)

lemmas demo_key_defs = sim_keyring_def sim_call_def mem_try_def operating_system_store_def os_read_def os_write_def
  os_delete_def keyring_entry_def

lemma demo_save:
  "credential_save demo_cred_codec (sim_keyring (\<lambda>_. False)) (Some demo_generation) [0x61] demo_stored demo_keys = (Ok (), demo_saved 6)"
  by (simp add: credential_save_def validate_account_def save_to_def replacement_manifest_def demo_key_defs demo_keys_def demo_prepare
      commit_chunks_def demo_slice retire_obsolete_def demo_manifest_def demo_saved_def)

theorem saved_credential_loads_witness:
  "\<exists>s'. credential_save demo_cred_codec (sim_keyring (\<lambda>_. False)) (Some demo_generation) [0x61] demo_stored demo_keys = (Ok (), s') \<and>
     (\<exists>r. r = fst (credential_load demo_cred_codec (sim_keyring (\<lambda>_. False)) [0x61] s') \<and>
        (r = Ok (Some demo_stored) \<or> read_error (operating_system_store (sim_keyring (\<lambda>_. False))) r))"
  using saved_credential_loads [OF sim_keys.lawful_keyring_axioms demo_codec_ok demo_fresh demo_save surjective_pairing] demo_save
  by (simp add: demo_keys_def)

lemma demo_load_empty:
  "credential_load demo_cred_codec (sim_keyring (\<lambda>n. n = 5)) [0x61] demo_keys = (Ok None, demo_keys\<lparr>mem_calls := 2\<rparr>)"
  by (simp add: credential_load_def validate_account_def load_from_def demo_key_defs demo_keys_def)

lemma demo_save_fails:
  "credential_save demo_cred_codec (sim_keyring (\<lambda>n. n = 5)) (Some demo_generation) [0x61] demo_stored (demo_keys\<lparr>mem_calls := 2\<rparr>) =
     (Err (store_error ''write''), demo_keys\<lparr>mem_calls := 6\<rparr>)"
  by (simp add: credential_save_def validate_account_def save_to_def replacement_manifest_def demo_key_defs demo_keys_def demo_prepare
      commit_chunks_def demo_slice demo_manifest_def cleanup_new_chunks_def chunk_indices_def)

theorem failed_save_keeps_credential_witness:
  "\<exists>e s'. credential_save demo_cred_codec (sim_keyring (\<lambda>n. n = 5)) (Some demo_generation) [0x61] demo_stored (demo_keys\<lparr>mem_calls := 2\<rparr>) = (Err e, s') \<and>
     (\<exists>r. r = fst (credential_load demo_cred_codec (sim_keyring (\<lambda>n. n = 5)) [0x61] s') \<and>
        (r = Ok None \<or> read_error (operating_system_store (sim_keyring (\<lambda>n. n = 5))) r))"
  using failed_save_keeps_credential
    [OF sim_keys.lawful_keyring_axioms demo_load_empty demo_fresh demo_save_fails surjective_pairing] demo_save_fails
  by (simp add: demo_keys_def)

lemma demo_delete:
  "\<exists>n. credential_delete demo_cred_codec (sim_keyring (\<lambda>_. False)) [0x61] (demo_saved 6) = (Ok True, \<lparr>mem_calls = n, mem_files = []\<rparr>)"
proof -
  have "decode_manifest demo_cred_codec [1] = Ok demo_manifest"
    using encode_decode_manifest [OF demo_codec_ok, of demo_manifest "[1]"] prepare_manifest_OkD(1,2) [OF demo_prepare]
    by (simp add: demo_generation_def)
  then show ?thesis
    by (simp add: credential_delete_def validate_account_def delete_from_def demo_key_defs demo_saved_def demo_manifest_def
        as_chunk_set_def chunk_indices_def)
qed

text \<open>(an orphaned chunk). When the first save of a credential cannot write the manifest and the chunk it has written cannot be
  deleted either, the save reports an error, but the chunk stays, and no later deletion finds it.\<close>

theorem failed_first_save_leaves_chunk:
  "\<exists>e s' s''. credential_save demo_cred_codec (sim_keyring (\<lambda>n. n \<in> {5, 6})) (Some demo_generation) [0x61] demo_stored demo_keys = (Err e, s') \<and>
     credential_delete demo_cred_codec (sim_keyring (\<lambda>n. n \<in> {5, 6})) [0x61] s' = (Ok False, s'') \<and>
     mem_view s'' (chunk_account [0x61] (hex_lower demo_generation) 0) \<noteq> None"
  by (simp add: credential_save_def validate_account_def save_to_def replacement_manifest_def demo_key_defs demo_keys_def demo_prepare
      commit_chunks_def demo_slice demo_manifest_def cleanup_new_chunks_def chunk_indices_def credential_delete_def delete_from_def mem_view_def)

theorem deleted_credential_leaves_nothing_witness:
  "\<exists>s'. credential_delete demo_cred_codec (sim_keyring (\<lambda>_. False)) [0x61] (demo_saved 6) = (Ok True, s') \<and>
     mem_view s' [0x61] = None \<and> (\<forall>generation index. mem_view s' (chunk_account [0x61] generation index) = None)"
proof -
  have "credential_history demo_cred_codec (sim_keyring (\<lambda>_. False)) mem_view [0x61] (demo_saved 6)"
    by (rule history_save [OF history_start demo_fresh demo_save]) (simp_all add: demo_keys_def mem_view_def)
  then show ?thesis
    using deleted_credential_leaves_nothing [OF sim_keys.lawful_keyring_axioms demo_codec_ok] demo_delete by blast
qed

end
