(* ===== verification/State_Store.thy ===== *)
theory State_Store
  imports Managed_Lines
begin

text \<open>
  The profiles of the command line program (\<open>src/bin/openiwan/state.rs\<close>): validation of the
  stored document, new identifiers, and the store, which replaces the document through a
  temporary file under a lock. The file system is the parameter \<open>state_fs\<close>; the locale
  \<open>state_files\<close> has what is relied on. The derived TOML codec is the parameter \<open>state_codec\<close>.
  The state of the process is its counter for temporary names with the state of the file system.
\<close>

section \<open>The document\<close>

datatype user_routing_mode = UserAll | UserCustom

record routing_overrides =
  ro_mode :: "user_routing_mode option"
  ro_routes :: "ustr list"
  ro_block_ipv6 :: bool

definition routing_overrides_default :: routing_overrides where
  "routing_overrides_default = \<lparr>ro_mode = None, ro_routes = [], ro_block_ipv6 = False\<rparr>"

record managed_profile =
  prof_domain :: ustr
  prof_device_id :: ustr
  prof_username :: "ustr option"
  prof_line :: line_preference
  prof_credential_id :: ustr
  prof_dns :: dns_overrides
  prof_routing :: routing_overrides

text \<open>The profiles are a \<open>BTreeMap\<close>, visited in the order of their names.\<close>

record cli_state =
  st_version :: u32
  st_device_id :: ustr
  st_default_profile :: "ustr option"
  st_profiles :: "(ustr \<times> managed_profile) list"

abbreviation (input) STATE_VERSION :: u32 where "STATE_VERSION \<equiv> 1"

definition cli_state_default :: cli_state where
  "cli_state_default = \<lparr>st_version = STATE_VERSION, st_device_id = [], st_default_profile = None, st_profiles = []\<rparr>"

definition validate_profile_name :: "ustr \<Rightarrow> unit result" where
  "validate_profile_name name =
     (if name = [] \<or> length (utf8_bytes name) > 64
        \<or> \<not> list_all (\<lambda>c. is_ascii_alphanumeric c \<or> c = 0x2e \<or> c = 0x5f \<or> c = 0x2d) name
      then Err (InvalidConfig ''profile name must contain 1 to 64 ASCII letters, digits, dots, underscores or hyphens'')
      else Ok ())"

definition validate_device_id :: "ustr \<Rightarrow> string \<Rightarrow> unit result" where
  "validate_device_id device_id label =
     (if str_trim device_id = [] \<or> length (utf8_bytes device_id) > 256
      then Err (InvalidConfig (label @ '' must contain 1 to 256 characters''))
      else Ok ())"

definition credential_id_ok :: "ustr \<Rightarrow> bool" where
  "credential_id_ok identifier \<longleftrightarrow>
     length (utf8_bytes identifier) = 32 \<and>
     list_all (\<lambda>b. 0x30 \<le> b \<and> b \<le> 0x39 \<or> 0x61 \<le> b \<and> b \<le> 0x66) (utf8_bytes identifier)"

text \<open>Only routes are resolved here, so the resolver is never asked.\<close>

definition profile_validate :: "addr_text \<Rightarrow> managed_profile \<Rightarrow> unit result" where
  "profile_validate T p =
     rbind (validate_domain (prof_domain p)) (\<lambda>_.
     rbind (validate_device_id (prof_device_id p) ''profile device ID'') (\<lambda>_.
     if (case prof_username p of None \<Rightarrow> False | Some u \<Rightarrow> str_trim u = [] \<or> length (utf8_bytes u) > 256)
     then Err (InvalidConfig ''profile username must contain 1 to 256 characters'')
     else if prof_credential_id p \<noteq> [] \<and> \<not> credential_id_ok (prof_credential_id p)
     then Err (InvalidConfig ''profile credential ID must be 32 lowercase hexadecimal characters'')
     else
     rbind (overrides_validate (prof_dns p)) (\<lambda>_.
     rbind (resolve_route_targets T (\<lambda>_. Inr []) (ro_routes (prof_routing p)) [] [] None) (\<lambda>_. Ok ()))))"

definition profile_new :: "addr_text \<Rightarrow> ustr \<Rightarrow> ustr \<Rightarrow> managed_profile result" where
  "profile_new T domain device_id =
     (let p = \<lparr>prof_domain = domain, prof_device_id = device_id, prof_username = None, prof_line = LineAuto,
               prof_credential_id = [], prof_dns = dns_overrides_default, prof_routing = routing_overrides_default\<rparr>
      in rbind (profile_validate T p) (\<lambda>_. Ok p))"

fun validate_profiles :: "addr_text \<Rightarrow> (ustr \<times> managed_profile) list \<Rightarrow> unit result" where
  "validate_profiles T [] = Ok ()"
| "validate_profiles T ((name, p) # ps) =
     rbind (validate_profile_name name) (\<lambda>_. rbind (profile_validate T p) (\<lambda>_. validate_profiles T ps))"

definition cli_state_validate :: "addr_text \<Rightarrow> cli_state \<Rightarrow> unit result" where
  "cli_state_validate T st =
     (if st_version st \<noteq> STATE_VERSION then Err (InvalidConfig ''unsupported CLI state version'')
      else rbind (if st_device_id st = [] then Ok () else validate_device_id (st_device_id st) ''generated device ID'') (\<lambda>_.
        case st_default_profile st of
          Some name \<Rightarrow>
            if map_of (st_profiles st) name = None then Err (InvalidConfig ''default profile not found: {name}'')
            else validate_profiles T (st_profiles st)
        | None \<Rightarrow> validate_profiles T (st_profiles st)))"

section \<open>Identifiers\<close>

definition new_credential_id :: "bytes option \<Rightarrow> ustr result" where
  "new_credential_id random =
     (case random of None \<Rightarrow> Err (Crypto ''system randomness is unavailable'') | Some bs \<Rightarrow> Ok (hex_lower bs))"

definition ensure_credential_id :: "bytes option \<Rightarrow> managed_profile \<Rightarrow> (ustr \<times> managed_profile) result" where
  "ensure_credential_id random p =
     (if prof_credential_id p = []
      then rbind (new_credential_id random) (\<lambda>i. Ok (i, p\<lparr>prof_credential_id := i\<rparr>))
      else Ok (prof_credential_id p, p))"

definition upper_digit :: "nat \<Rightarrow> nat" where
  "upper_digit n = (if n < 10 then 0x30 + n else 0x41 + (n - 10))"

definition hex_upper :: "bytes \<Rightarrow> ustr" where
  "hex_upper bs = concat (map (\<lambda>b. [upper_digit (unat b div 16), upper_digit (unat b mod 16)]) bs)"

definition uuid_bytes :: "bytes \<Rightarrow> bytes" where
  "uuid_bytes bs = bs[6 := (bs ! 6 AND 0x0f) OR 0x40, 8 := (bs ! 8 AND 0x3f) OR 0x80]"

definition uuid_text :: "bytes \<Rightarrow> ustr" where
  "uuid_text bs =
     hex_upper (take 4 bs) @ [0x2d] @ hex_upper (take 2 (drop 4 bs)) @ [0x2d] @ hex_upper (take 2 (drop 6 bs)) @ [0x2d] @
     hex_upper (take 2 (drop 8 bs)) @ [0x2d] @ hex_upper (drop 10 bs)"

definition new_device_id :: "bytes option \<Rightarrow> ustr result" where
  "new_device_id random =
     (case random of
        None \<Rightarrow> Err (Crypto ''system randomness is unavailable'')
      | Some bs \<Rightarrow> Ok (uuid_text (uuid_bytes bs)))"

section \<open>The file system\<close>

datatype file_kind = KindFile | KindDirectory | KindSymlink

record file_meta =
  meta_kind :: file_kind
  meta_mode :: u32

datatype open_error = AlreadyExists | OpenFailed error_kind

record 's state_fs =
  sf_unix :: bool
  sf_metadata :: "ustr \<Rightarrow> 's \<Rightarrow> (error_kind + file_meta) \<times> 's"
  sf_set_mode :: "ustr \<Rightarrow> u32 \<Rightarrow> 's \<Rightarrow> (error_kind + unit) \<times> 's"
  sf_create_dir_all :: "ustr \<Rightarrow> 's \<Rightarrow> (error_kind + unit) \<times> 's"
  sf_read :: "ustr \<Rightarrow> 's \<Rightarrow> (error_kind + ustr) \<times> 's"
  sf_open :: "ustr \<Rightarrow> bool \<Rightarrow> 's \<Rightarrow> (open_error + unit) \<times> 's"
  sf_write_all :: "ustr \<Rightarrow> ustr \<Rightarrow> 's \<Rightarrow> (error_kind + unit) \<times> 's"
  sf_sync :: "ustr \<Rightarrow> 's \<Rightarrow> (error_kind + unit) \<times> 's"
  sf_rename :: "ustr \<Rightarrow> ustr \<Rightarrow> 's \<Rightarrow> (error_kind + unit) \<times> 's"
  sf_remove :: "ustr \<Rightarrow> 's \<Rightarrow> (error_kind + unit) \<times> 's"
  sf_lock :: "ustr \<Rightarrow> 's \<Rightarrow> (error_kind + unit) \<times> 's"
  sf_unlock :: "ustr \<Rightarrow> 's \<Rightarrow> (error_kind + unit) \<times> 's"

record state_codec =
  to_string_pretty :: "cli_state \<Rightarrow> ustr option"
  toml_from_str :: "ustr \<Rightarrow> cli_state option"

definition state_codec_ok :: "state_codec \<Rightarrow> bool" where
  "state_codec_ok C \<longleftrightarrow> (\<forall>st t. to_string_pretty C st = Some t \<longrightarrow> toml_from_str C t = Some st)"

text \<open>Sequencing of calls that change the process and may fail.\<close>

type_synonym ('s, 'a) proc = "u64 \<times> 's \<Rightarrow> 'a result \<times> (u64 \<times> 's)"

definition pbind :: "('s, 'a) proc \<Rightarrow> ('a \<Rightarrow> ('s, 'b) proc) \<Rightarrow> ('s, 'b) proc" where
  "pbind m f c = (case m c of (Inl e, c) \<Rightarrow> (Err e, c) | (Inr x, c) \<Rightarrow> f x c)"

definition plift :: "'a result \<Rightarrow> ('s, 'a) proc" where
  "plift r c = (r, c)"

definition pio :: "('s \<Rightarrow> (error_kind + 'a) \<times> 's) \<Rightarrow> ('s, 'a) proc" where
  "pio f c = (case f (snd c) of (Inl k, s) \<Rightarrow> (Err (Io k), (fst c, s)) | (Inr x, s) \<Rightarrow> (Ok x, (fst c, s)))"

section \<open>The store\<close>

definition environment_path :: "(string \<Rightarrow> ustr option) \<Rightarrow> string \<Rightarrow> ustr option" where
  "environment_path env name = opt_filter (\<lambda>v. v \<noteq> []) (env name)"

definition default_state_directory :: "target_os \<Rightarrow> (string \<Rightarrow> ustr option) \<Rightarrow> ustr result" where
  "default_state_directory os env =
     (case env ''OPENIWAN_STATE_DIR'' of
        Some dir \<Rightarrow> Ok dir
      | None \<Rightarrow>
          (case os of
             Windows \<Rightarrow>
               ok_or (InvalidConfig ''LOCALAPPDATA and APPDATA are unset; set OPENIWAN_STATE_DIR'')
                 (map_option (\<lambda>p. path_join p (ascii_str ''OpeniWAN''))
                   (case environment_path env ''LOCALAPPDATA'' of Some p \<Rightarrow> Some p | None \<Rightarrow> environment_path env ''APPDATA''))
           | MacOs \<Rightarrow>
               ok_or (InvalidConfig ''HOME is unset; set OPENIWAN_STATE_DIR'')
                 (map_option (\<lambda>p. path_join p (ascii_str ''Library/Application Support/openiwan'')) (environment_path env ''HOME''))
           | Linux \<Rightarrow>
               (case environment_path env ''XDG_STATE_HOME'' of
                  Some p \<Rightarrow> Ok (path_join p (ascii_str ''openiwan''))
                | None \<Rightarrow>
                    ok_or (InvalidConfig ''XDG_STATE_HOME and HOME are unset; set OPENIWAN_STATE_DIR'')
                      (map_option (\<lambda>p. path_join p (ascii_str ''.local/state/openiwan'')) (environment_path env ''HOME'')))))"

definition state_store_new :: "target_os \<Rightarrow> (string \<Rightarrow> ustr option) \<Rightarrow> ustr option \<Rightarrow> ustr result" where
  "state_store_new os env override =
     rbind (case override of Some dir \<Rightarrow> Ok dir | None \<Rightarrow> default_state_directory os env) (\<lambda>dir.
     if dir = [] then Err (InvalidConfig ''CLI state directory must not be empty'') else Ok dir)"

definition cache_directory :: "ustr \<Rightarrow> ustr" where
  "cache_directory dir = path_join dir (ascii_str ''cache'')"

definition state_path :: "ustr \<Rightarrow> ustr" where
  "state_path dir = path_join dir (ascii_str ''profiles.toml'')"

definition lock_path :: "ustr \<Rightarrow> ustr" where
  "lock_path dir = path_join dir (ascii_str ''profiles.lock'')"

definition secure_directory :: "'s state_fs \<Rightarrow> ustr \<Rightarrow> ('s, unit) proc" where
  "secure_directory F path =
     pbind (pio (sf_metadata F path)) (\<lambda>meta.
     if meta_kind meta \<noteq> KindDirectory then plift (Err (InvalidConfig ''{}: expected a directory, not a symlink''))
     else if sf_unix F then pio (sf_set_mode F path 0x1c0) else plift (Ok ()))"

definition secure_file :: "'s state_fs \<Rightarrow> ustr \<Rightarrow> ('s, unit) proc" where
  "secure_file F path =
     pbind (pio (sf_metadata F path)) (\<lambda>meta.
     if meta_kind meta \<noteq> KindFile then plift (Err (InvalidConfig ''{}: expected a regular file''))
     else if sf_unix F \<and> meta_mode meta AND 0x3f \<noteq> 0
     then plift (Err (InvalidConfig ''{}: permissions allow access by group or other users''))
     else plift (Ok ()))"

text \<open>\<open>secure_open\<close>: with \<open>allow_existing\<close> an existing file is opened, else the file must be new.\<close>

definition secure_open :: "'s state_fs \<Rightarrow> ustr \<Rightarrow> bool \<Rightarrow> u64 \<times> 's \<Rightarrow> (open_error + unit) \<times> (u64 \<times> 's)" where
  "secure_open F path allow_existing c = (case sf_open F path allow_existing (snd c) of (r, s) \<Rightarrow> (r, (fst c, s)))"

definition ensure_directory :: "'s state_fs \<Rightarrow> ustr \<Rightarrow> ('s, unit) proc" where
  "ensure_directory F dir = pbind (pio (sf_create_dir_all F dir)) (\<lambda>_. secure_directory F dir)"

definition open_lock :: "'s state_fs \<Rightarrow> ustr \<Rightarrow> ('s, unit) proc" where
  "open_lock F dir c =
     (case secure_open F (lock_path dir) True c of
        (Inl AlreadyExists, c) \<Rightarrow> (Err (Io OtherKind), c)
      | (Inl (OpenFailed k), c) \<Rightarrow> (Err (Io k), c)
      | (Inr _, c) \<Rightarrow> secure_file F (lock_path dir) c)"

definition load_unlocked :: "'s state_fs \<Rightarrow> state_codec \<Rightarrow> addr_text \<Rightarrow> ustr \<Rightarrow> ('s, cli_state) proc" where
  "load_unlocked F C T dir c =
     (case sf_read F (state_path dir) (snd c) of
        (Inl k, s) \<Rightarrow> (if k = NotFound then Ok cli_state_default else Err (Io k), (fst c, s))
      | (Inr contents, s) \<Rightarrow>
          pbind (secure_file F (state_path dir)) (\<lambda>_.
          plift (rbind (ok_or (InvalidConfig ''invalid CLI state {}: {error}'') (toml_from_str C contents)) (\<lambda>st.
                 rbind (cli_state_validate T st) (\<lambda>_. Ok st)))) (fst c, s))"

definition state_load :: "'s state_fs \<Rightarrow> state_codec \<Rightarrow> addr_text \<Rightarrow> ustr \<Rightarrow> ('s, cli_state) proc" where
  "state_load F C T dir c =
     (case sf_metadata F dir (snd c) of
        (Inl k, s) \<Rightarrow> (if k = NotFound then Ok cli_state_default else Err (Io k), (fst c, s))
      | (Inr _, s) \<Rightarrow> pbind (secure_directory F dir) (\<lambda>_. load_unlocked F C T dir) (fst c, s))"

definition unique_temporary_path :: "ustr \<Rightarrow> nat \<Rightarrow> u64 \<Rightarrow> ustr" where
  "unique_temporary_path dir pid counter =
     path_join dir (ascii_str ''.profiles.toml.'' @ dec pid @ ascii_str ''.'' @ dec (unat counter) @ ascii_str ''.tmp'')"

fun open_temporary :: "'s state_fs \<Rightarrow> ustr \<Rightarrow> nat \<Rightarrow> nat \<Rightarrow> ('s, ustr) proc" where
  "open_temporary F dir pid 0 c = (Err (InvalidConfig ''could not allocate a unique CLI state temporary file''), c)"
| "open_temporary F dir pid (Suc n) c =
     (let path = unique_temporary_path dir pid (fst c) in
      case secure_open F path False (fst c + 1, snd c) of
        (Inr _, c) \<Rightarrow> (Ok path, c)
      | (Inl AlreadyExists, c) \<Rightarrow> open_temporary F dir pid n c
      | (Inl (OpenFailed k), c) \<Rightarrow> (Err (Io k), c))"

text \<open>\<open>sync_directory\<close> does nothing outside Unix.\<close>

definition sync_directory :: "'s state_fs \<Rightarrow> ustr \<Rightarrow> ('s, unit) proc" where
  "sync_directory F dir = (if sf_unix F then pio (sf_sync F dir) else plift (Ok ()))"

definition replace_document :: "'s state_fs \<Rightarrow> ustr \<Rightarrow> ustr \<Rightarrow> ustr \<Rightarrow> ('s, unit) proc" where
  "replace_document F dir temporary serialized =
     pbind (pio (sf_write_all F temporary serialized)) (\<lambda>_.
     pbind (pio (sf_sync F temporary)) (\<lambda>_.
     pbind (secure_file F temporary) (\<lambda>_.
     pbind (pio (sf_rename F temporary (state_path dir))) (\<lambda>_.
     pbind (secure_file F (state_path dir)) (\<lambda>_.
     sync_directory F dir)))))"

definition write_unlocked :: "'s state_fs \<Rightarrow> state_codec \<Rightarrow> ustr \<Rightarrow> nat \<Rightarrow> cli_state \<Rightarrow> ('s, unit) proc" where
  "write_unlocked F C dir pid st =
     pbind (plift (ok_or (InvalidConfig ''serialize CLI state: {error}'') (to_string_pretty C st))) (\<lambda>serialized.
     pbind (open_temporary F dir pid 16) (\<lambda>temporary c.
       case replace_document F dir temporary serialized c of
         (Inr _, c) \<Rightarrow> (Ok (), c)
       | (Inl e, c) \<Rightarrow> (Err e, snd (pio (sf_remove F temporary) c))))"

definition state_update ::
  "'s state_fs \<Rightarrow> state_codec \<Rightarrow> addr_text \<Rightarrow> ustr \<Rightarrow> nat \<Rightarrow> (cli_state \<Rightarrow> ('a \<times> cli_state) result) \<Rightarrow> ('s, 'a) proc" where
  "state_update F C T dir pid operation =
     pbind (ensure_directory F dir) (\<lambda>_.
     pbind (pio (sf_create_dir_all F (cache_directory dir))) (\<lambda>_.
     pbind (secure_directory F (cache_directory dir)) (\<lambda>_.
     pbind (open_lock F dir) (\<lambda>_.
     pbind (pio (sf_lock F (lock_path dir))) (\<lambda>_.
     pbind (load_unlocked F C T dir) (\<lambda>st.
     pbind (plift (operation st)) (\<lambda>(output, st).
     pbind (plift (cli_state_validate T st)) (\<lambda>_.
     pbind (write_unlocked F C dir pid st) (\<lambda>_.
     pbind (pio (sf_unlock F (lock_path dir))) (\<lambda>_.
     plift (Ok output)))))))))))"

definition assign_device_id :: "bytes option \<Rightarrow> cli_state \<Rightarrow> (ustr \<times> cli_state) result" where
  "assign_device_id random st =
     rbind (if st_device_id st = [] then rbind (new_device_id random) (\<lambda>i. Ok (st\<lparr>st_device_id := i\<rparr>)) else Ok st) (\<lambda>st.
     Ok (st_device_id st, st))"

definition state_device_id ::
  "'s state_fs \<Rightarrow> state_codec \<Rightarrow> addr_text \<Rightarrow> ustr \<Rightarrow> nat \<Rightarrow> bytes option \<Rightarrow> ('s, ustr) proc" where
  "state_device_id F C T dir pid random =
     pbind (state_load F C T dir) (\<lambda>st.
     if st_device_id st \<noteq> [] then plift (Ok (st_device_id st))
     else state_update F C T dir pid (assign_device_id random))"

section \<open>Reasoning about sequences of calls\<close>

text \<open>\<open>triple view P m Q\<close>: started where the files satisfy \<open>P\<close>, the call \<open>m\<close> ends with a result and files that satisfy \<open>Q\<close>.
  A quiet call changes no file outside a set.\<close>

definition triple ::
  "('s \<Rightarrow> 'v) \<Rightarrow> ('v \<Rightarrow> bool) \<Rightarrow> ('s, 'a) proc \<Rightarrow> ('a result \<Rightarrow> 'v \<Rightarrow> bool) \<Rightarrow> bool" where
  "triple view P m Q \<longleftrightarrow> (\<forall>c r c'. m c = (r, c') \<longrightarrow> P (view (snd c)) \<longrightarrow> Q r (view (snd c')))"

definition quiet :: "('s \<Rightarrow> ustr \<Rightarrow> ustr option) \<Rightarrow> ustr set \<Rightarrow> ('s, 'a) proc \<Rightarrow> bool" where
  "quiet view X m \<longleftrightarrow> (\<forall>c r c'. m c = (r, c') \<longrightarrow> (\<forall>q. q \<notin> X \<longrightarrow> view (snd c') q = view (snd c) q))"

lemma tripleD: "triple view P m Q \<Longrightarrow> m c = (r, c') \<Longrightarrow> P (view (snd c)) \<Longrightarrow> Q r (view (snd c'))"
  unfolding triple_def by blast

lemma quietD: "quiet view X m \<Longrightarrow> m c = (r, c') \<Longrightarrow> q \<notin> X \<Longrightarrow> view (snd c') q = view (snd c) q"
  unfolding quiet_def by blast

lemma quiet_allD: "quiet view {} m \<Longrightarrow> m c = (r, c') \<Longrightarrow> view (snd c') = view (snd c)"
  by (rule ext) (simp add: quietD)

lemma triple_bind:
  assumes "triple view P m (\<lambda>r v. case r of Inl e \<Rightarrow> Q (Inl e) v | Inr x \<Rightarrow> R x v)" "\<And>x. triple view (R x) (f x) Q"
  shows "triple view P (pbind m f) Q"
  unfolding triple_def
proof (intro allI impI)
  fix c r c'
  assume a: "pbind m f c = (r, c')" "P (view (snd c))"
  obtain x c1 where 1: "m c = (x, c1)" by (cases "m c")
  have "case x of Inl e \<Rightarrow> Q (Inl e) (view (snd c1)) | Inr x \<Rightarrow> R x (view (snd c1))"
    using tripleD [OF assms(1) 1 a(2)] .
  then show "Q r (view (snd c'))" using a(1) 1 tripleD [OF assms(2), of _ c1 r c'] by (cases x) (auto simp: pbind_def)
qed

lemma triple_quiet:
  assumes "quiet view X m" "\<And>v v'. P v \<Longrightarrow> (\<And>q. q \<notin> X \<Longrightarrow> v' q = v q) \<Longrightarrow> P v'"
  shows "triple view P m (\<lambda>_. P)"
  using assms by (auto simp: triple_def quiet_def)

lemma triple_conseq:
  "triple view P m Q \<Longrightarrow> (\<And>v. P' v \<Longrightarrow> P v) \<Longrightarrow> (\<And>r v. Q r v \<Longrightarrow> Q' r v) \<Longrightarrow> triple view P' m Q'"
  by (auto simp: triple_def)

text \<open>A quiet call in front: a failure ends with the files as they were, as far as \<open>P\<close> sees them.\<close>

lemma triple_step:
  assumes "quiet view X m" "\<And>v v'. P v \<Longrightarrow> (\<And>q. q \<notin> X \<Longrightarrow> v' q = v q) \<Longrightarrow> P v'" "\<And>e v. P v \<Longrightarrow> Q (Inl e) v"
    and "\<And>x. triple view P (f x) Q"
  shows "triple view P (pbind m f) Q"
proof (rule triple_bind)
  show "triple view P m (\<lambda>r v. case r of Inl e \<Rightarrow> Q (Inl e) v | Inr x \<Rightarrow> P v)"
    by (rule triple_conseq [OF triple_quiet [OF assms(1,2)]]) (auto split: sum.splits intro: assms(3))
qed (rule assms(4))

lemma triple_pure: "(\<And>x v. r = Ok x \<Longrightarrow> P v \<Longrightarrow> R x v) \<Longrightarrow> (\<And>e v. P v \<Longrightarrow> Q (Inl e) v) \<Longrightarrow> (\<And>x. triple view (R x) (f x) Q) \<Longrightarrow>
  triple view P (pbind (plift r) f) Q"
  by (rule triple_bind [where R = R]) (auto simp: triple_def plift_def split: sum.splits)

lemma quiet_plift: "quiet view X (plift r)"
  by (simp add: quiet_def plift_def)

lemma quiet_pio: "(\<And>s r s'. f s = (r, s') \<Longrightarrow> view s' = view s) \<Longrightarrow> quiet view X (pio f)"
  by (fastforce simp: quiet_def pio_def split: prod.splits sum.splits)

lemma quiet_pbind:
  assumes "quiet view X m" "\<And>x. quiet view X (f x)"
  shows "quiet view X (pbind m f)"
  unfolding quiet_def
proof (intro allI impI)
  fix c r c' q
  assume a: "pbind m f c = (r, c')" "q \<notin> X"
  obtain x c1 where 1: "m c = (x, c1)" by (cases "m c")
  then have "view (snd c1) q = view (snd c) q" using quietD [OF assms(1) _ a(2)] by blast
  then show "view (snd c') q = view (snd c) q"
    using a(1) 1 quietD [OF assms(2) _ a(2), of _ c1 r c'] by (cases x) (auto simp: pbind_def)
qed

lemma quiet_if: "quiet view X a \<Longrightarrow> quiet view X b \<Longrightarrow> quiet view X (if P then a else b)"
  by simp

lemmas quiet_intros = quiet_plift quiet_pbind quiet_if

text \<open>The state a document stands for, and the errors of files that are not accessible.\<close>

definition document :: "state_codec \<Rightarrow> addr_text \<Rightarrow> ustr option \<Rightarrow> cli_state result" where
  "document C T d =
     (case d of
        None \<Rightarrow> Ok cli_state_default
      | Some contents \<Rightarrow>
          rbind (ok_or (InvalidConfig ''invalid CLI state {}: {error}'') (toml_from_str C contents)) (\<lambda>st.
          rbind (cli_state_validate T st) (\<lambda>_. Ok st)))"

definition access_error :: "error \<Rightarrow> bool" where
  "access_error e \<longleftrightarrow> (\<exists>k. e = Io k) \<or> e \<in> InvalidConfig ` {''{}: expected a directory, not a symlink'',
     ''{}: expected a regular file'', ''{}: permissions allow access by group or other users''}"

lemma path_names:
  "state_path dir \<noteq> lock_path dir" "state_path dir \<noteq> unique_temporary_path dir pid n"
  by (simp_all add: state_path_def lock_path_def unique_temporary_path_def path_join_def ascii_str_def)

text \<open>The files of the program beside the document: the lock and its temporary files.\<close>

definition scratch_files :: "ustr \<Rightarrow> nat \<Rightarrow> ustr set" where
  "scratch_files dir pid = insert (lock_path dir) (range (unique_temporary_path dir pid))"

text \<open>\<open>replaced\<close>: the document is the new text, or it is as before and the call failed; nothing but the document and
  scratch files changed.\<close>

definition replaced :: "ustr \<Rightarrow> nat \<Rightarrow> (ustr \<Rightarrow> ustr option) \<Rightarrow> ustr \<Rightarrow> 'r result \<Rightarrow> (ustr \<Rightarrow> ustr option) \<Rightarrow> bool" where
  "replaced dir pid w t r v \<longleftrightarrow>
     (v (state_path dir) = Some t \<or> v (state_path dir) = w (state_path dir) \<and> \<not> is_ok r) \<and>
     (\<forall>q. q \<noteq> state_path dir \<longrightarrow> q \<notin> scratch_files dir pid \<longrightarrow> v q = w q)"

definition same_files :: "ustr \<Rightarrow> nat \<Rightarrow> (ustr \<Rightarrow> ustr option) \<Rightarrow> (ustr \<Rightarrow> ustr option) \<Rightarrow> bool" where
  "same_files dir pid w v \<longleftrightarrow> (\<forall>q. q \<notin> scratch_files dir pid \<longrightarrow> v q = w q)"

lemma document_not_scratch: "state_path dir \<notin> scratch_files dir pid"
  using path_names by (auto simp: scratch_files_def)

lemma same_files_lock:
  "same_files dir pid w v \<Longrightarrow> (\<And>q. q \<notin> {lock_path dir} \<Longrightarrow> v' q = v q) \<Longrightarrow> same_files dir pid w v'"
  by (auto simp: same_files_def scratch_files_def)

text \<open>\<open>updated\<close>: the operation ran on the state of the document and its result replaced it, or the document is as before
  and the update failed.\<close>

definition updated ::
  "state_codec \<Rightarrow> addr_text \<Rightarrow> ustr \<Rightarrow> nat \<Rightarrow> (cli_state \<Rightarrow> ('a \<times> cli_state) result) \<Rightarrow> (ustr \<Rightarrow> ustr option) \<Rightarrow> 'a result \<Rightarrow> (ustr \<Rightarrow> ustr option) \<Rightarrow> bool" where
  "updated C T dir pid operation w r v \<longleftrightarrow>
     (\<forall>q. q \<noteq> state_path dir \<longrightarrow> q \<notin> scratch_files dir pid \<longrightarrow> v q = w q) \<and>
     (v (state_path dir) = w (state_path dir) \<and> \<not> is_ok r \<or>
      (\<exists>old x new t. document C T (w (state_path dir)) = Ok old \<and> operation old = Ok (x, new) \<and> cli_state_validate T new = Ok () \<and>
         to_string_pretty C new = Some t \<and> v (state_path dir) = Some t \<and> (\<forall>y. r = Ok y \<longrightarrow> y = x)))"

lemma updated_fails: "same_files dir pid w v \<Longrightarrow> updated C T dir pid operation w (Inl e) v"
  by (simp add: updated_def same_files_def document_not_scratch)

lemma secure_file_error: "secure_file F p c = (Err e, c') \<Longrightarrow> access_error e"
  by (auto simp: secure_file_def pbind_def plift_def pio_def access_error_def split: prod.splits sum.splits if_splits)

lemma secure_directory_error: "secure_directory F p c = (Err e, c') \<Longrightarrow> access_error e"
  by (auto simp: secure_directory_def pbind_def plift_def pio_def access_error_def split: prod.splits sum.splits if_splits)

section \<open>The contract of the file system\<close>

text \<open>\<open>view s p\<close> is the content of the file \<open>p\<close>. A rename replaces its destination in one step or changes nothing; a file
  opened as new is empty; every other call touches at most the file it names.\<close>

locale state_files =
  fixes F :: "'s state_fs" and view :: "'s \<Rightarrow> ustr \<Rightarrow> ustr option"
  assumes read_ok: "sf_read F p s = (Inr t, s') \<Longrightarrow> view s p = Some t"
    and read_missing: "sf_read F p s = (Inl NotFound, s') \<Longrightarrow> view s p = None"
    and directory_missing: "sf_metadata F d s = (Inl NotFound, s') \<Longrightarrow> view s (path_join d name) = None"
    and read_view: "sf_read F p s = (x, s') \<Longrightarrow> view s' = view s"
    and metadata_view: "sf_metadata F p s = (y, s') \<Longrightarrow> view s' = view s"
    and set_mode_view: "sf_set_mode F p mode s = (z, s') \<Longrightarrow> view s' = view s"
    and create_dir_view: "sf_create_dir_all F p s = (z, s') \<Longrightarrow> view s' = view s"
    and sync_view: "sf_sync F p s = (z, s') \<Longrightarrow> view s' = view s"
    and lock_view: "sf_lock F p s = (z, s') \<Longrightarrow> view s' = view s"
    and unlock_view: "sf_unlock F p s = (z, s') \<Longrightarrow> view s' = view s"
    and open_new: "sf_open F p False s = (Inr (), s') \<Longrightarrow> view s p = None \<and> view s' = (view s)(p := Some [])"
    and open_fails: "sf_open F p b s = (Inl e, s') \<Longrightarrow> view s' = view s"
    and open_other: "sf_open F p b s = (w, s') \<Longrightarrow> q \<noteq> p \<Longrightarrow> view s' q = view s q"
    and write_ok: "view s p = Some [] \<Longrightarrow> sf_write_all F p t s = (Inr (), s') \<Longrightarrow> view s' = (view s)(p := Some t)"
    and write_other: "sf_write_all F p t s = (z, s') \<Longrightarrow> q \<noteq> p \<Longrightarrow> view s' q = view s q"
    and rename_ok: "p \<noteq> q \<Longrightarrow> sf_rename F p q s = (Inr (), s') \<Longrightarrow> view s' = (view s)(q := view s p, p := None)"
    and rename_fails: "sf_rename F p q s = (Inl k, s') \<Longrightarrow> view s' = view s"
    and remove_other: "sf_remove F p s = (z, s') \<Longrightarrow> q \<noteq> p \<Longrightarrow> view s' q = view s q"
begin

lemma quiet_secure_file: "quiet view X (secure_file F p)"
  unfolding secure_file_def by (intro quiet_intros quiet_pio) (rule metadata_view)

lemma quiet_secure_directory: "quiet view X (secure_directory F p)"
  unfolding secure_directory_def by (intro quiet_intros quiet_pio; (erule metadata_view | erule set_mode_view))

lemma quiet_ensure_directory: "quiet view X (ensure_directory F p)"
  unfolding ensure_directory_def by (intro quiet_intros quiet_pio quiet_secure_directory) (rule create_dir_view)

lemma quiet_sync_directory: "quiet view X (sync_directory F p)"
  unfolding sync_directory_def by (intro quiet_intros quiet_pio) (rule sync_view)

lemma quiet_open_lock: "quiet view {lock_path dir} (open_lock F dir)"
  unfolding quiet_def
proof (intro allI impI)
  fix c r c' q
  assume a: "open_lock F dir c = (r, c')" "q \<notin> {lock_path dir}"
  obtain x s1 where 1: "sf_open F (lock_path dir) True (snd c) = (x, s1)" by fastforce
  then have "view s1 q = view (snd c) q" using open_other a(2) by blast
  moreover have "view (snd c') q = view s1 q"
  proof (cases x)
    case (Inr u)
    then have "secure_file F (lock_path dir) (fst c, s1) = (r, c')" using a 1 by (simp add: open_lock_def secure_open_def)
    then show ?thesis using quiet_allD [OF quiet_secure_file] by fastforce
  qed (use a 1 in \<open>auto simp: open_lock_def secure_open_def split: open_error.splits\<close>)
  ultimately show "view (snd c') q = view (snd c) q" by simp
qed

lemma load_unlocked_spec:
  assumes "load_unlocked F C T dir c = (r, c')"
  shows "view (snd c') = view (snd c)"
    and "r = document C T (view (snd c) (state_path dir)) \<or> (\<exists>e. r = Err e \<and> access_error e)"
proof -
  obtain x s1 where 1: "sf_read F (state_path dir) (snd c) = (x, s1)" by fastforce
  note v1 = read_view [OF 1]
  obtain y c2 where 2: "secure_file F (state_path dir) (fst c, s1) = (y, c2)" by (cases "secure_file F (state_path dir) (fst c, s1)")
  have "view (snd c2) = view s1" using quiet_allD [OF quiet_secure_file 2] by simp
  then show "view (snd c') = view (snd c)" using assms 1 2 v1
    by (auto simp: load_unlocked_def pbind_def plift_def split: sum.splits)
  show "r = document C T (view (snd c) (state_path dir)) \<or> (\<exists>e. r = Err e \<and> access_error e)"
    using assms 1 2 read_ok [of "state_path dir" "snd c"] read_missing [of "state_path dir" "snd c"] secure_file_error [of F _ _ _ c2]
    by (cases x; cases y) (auto simp: load_unlocked_def pbind_def plift_def document_def access_error_def split: if_splits)
qed

lemma state_load_spec:
  assumes "state_load F C T dir c = (r, c')"
  shows "view (snd c') = view (snd c)"
    and "r = document C T (view (snd c) (state_path dir)) \<or> (\<exists>e. r = Err e \<and> access_error e)"
proof -
  obtain x s1 where 1: "sf_metadata F dir (snd c) = (x, s1)" by fastforce
  note v1 = metadata_view [OF 1]
  obtain y c2 where 2: "secure_directory F dir (fst c, s1) = (y, c2)" by (cases "secure_directory F dir (fst c, s1)")
  have v2: "view (snd c2) = view s1" using quiet_allD [OF quiet_secure_directory 2] by simp
  obtain z c3 where 3: "load_unlocked F C T dir c2 = (z, c3)" by (cases "load_unlocked F C T dir c2")
  show "view (snd c') = view (snd c)"
    using assms 1 2 3 v1 v2 load_unlocked_spec(1) [OF 3] by (auto simp: state_load_def pbind_def split: sum.splits)
  show "r = document C T (view (snd c) (state_path dir)) \<or> (\<exists>e. r = Err e \<and> access_error e)"
    using assms 1 2 3 v1 v2 load_unlocked_spec(2) [OF 3] secure_directory_error [of F dir _ _ c2]
      directory_missing [of dir "snd c" _ "ascii_str ''profiles.toml''"]
    by (cases x; cases y) (auto simp: state_load_def pbind_def document_def access_error_def state_path_def split: if_splits)
qed

lemma open_temporary_spec:
  "open_temporary F dir pid n c = (r, c') \<Longrightarrow>
     (case r of Inl e \<Rightarrow> view (snd c') = view (snd c)
      | Inr path \<Rightarrow> path \<in> range (unique_temporary_path dir pid) \<and> view (snd c') = (view (snd c))(path := Some []))"
proof (induction n arbitrary: c)
  case (Suc n)
  let ?path = "unique_temporary_path dir pid (fst c)"
  obtain x s1 where 1: "sf_open F ?path False (snd c) = (x, s1)" by fastforce
  show ?case
  proof (cases x)
    case (Inr u)
    then show ?thesis using Suc.prems 1 open_new [of ?path "snd c" s1] by (auto simp: Let_def secure_open_def)
  next
    case (Inl e)
    have "view s1 = view (snd c)" using open_fails 1 Inl by blast
    then show ?thesis using Suc.IH [of "(fst c + 1, s1)"] Suc.prems 1 Inl
      by (cases e) (auto simp: Let_def secure_open_def split: sum.splits)
  qed
qed auto

lemma replace_document_spec:
  assumes "tmp \<noteq> state_path dir" "tmp \<in> scratch_files dir pid"
  shows "triple view (\<lambda>v. v = w(tmp := Some [])) (replace_document F dir tmp t) (replaced dir pid w t)"
  unfolding replace_document_def
proof (rule triple_bind)
  let ?p = "state_path dir"
  let ?written = "\<lambda>v. v tmp = Some t \<and> v ?p = w ?p \<and> (\<forall>q. q \<noteq> ?p \<longrightarrow> q \<notin> scratch_files dir pid \<longrightarrow> v q = w q)"
  let ?done = "\<lambda>v. v ?p = Some t \<and> (\<forall>q. q \<noteq> ?p \<longrightarrow> q \<notin> scratch_files dir pid \<longrightarrow> v q = w q)"
  show "triple view (\<lambda>v. v = w(tmp := Some [])) (pio (sf_write_all F tmp t))
      (\<lambda>r v. case r of Inl e \<Rightarrow> replaced dir pid w t (Inl e) v | Inr x \<Rightarrow> ?written v)"
    unfolding triple_def
  proof (intro allI impI)
    fix c r c'
    assume a: "pio (sf_write_all F tmp t) c = (r, c')" "view (snd c) = w(tmp := Some [])"
    obtain x s1 where 1: "sf_write_all F tmp t (snd c) = (x, s1)" by fastforce
    have off: "view s1 q = w q" if "q \<noteq> tmp" for q using write_other [OF 1 that] a(2) that by simp
    have others: "view s1 q = w q" if "q \<notin> scratch_files dir pid" for q using off [of q] that assms(2) by metis
    show "case r of Inl e \<Rightarrow> replaced dir pid w t (Inl e) (view (snd c')) | Inr x \<Rightarrow> ?written (view (snd c'))"
      using a 1 off others write_ok [of "snd c" tmp t s1] assms by (cases x) (auto simp: pio_def replaced_def)
  qed
  have fail: "?written v \<Longrightarrow> replaced dir pid w t (Inl e) v" for v :: "ustr \<Rightarrow> ustr option" and e by (simp add: replaced_def)
  have fin: "?done v \<Longrightarrow> replaced dir pid w t r v" for v :: "ustr \<Rightarrow> ustr option" and r :: "unit result" by (simp add: replaced_def)
  have rename: "triple view ?written (pio (sf_rename F tmp ?p)) (\<lambda>r v. case r of Inl e \<Rightarrow> replaced dir pid w t (Inl e) v | Inr x \<Rightarrow> ?done v)"
    unfolding triple_def
  proof (intro allI impI)
    fix c r c'
    assume a: "pio (sf_rename F tmp ?p) c = (r, c')" "?written (view (snd c))"
    obtain x s1 where 1: "sf_rename F tmp ?p (snd c) = (x, s1)" by fastforce
    show "case r of Inl e \<Rightarrow> replaced dir pid w t (Inl e) (view (snd c')) | Inr x \<Rightarrow> ?done (view (snd c'))"
      using a 1 rename_ok [OF assms(1), of "snd c" s1] rename_fails [of tmp ?p "snd c" _ s1] assms
      by (cases x) (auto simp: pio_def replaced_def)
  qed
  fix x
  show "triple view ?written (pbind (pio (sf_sync F tmp)) (\<lambda>_. pbind (secure_file F tmp) (\<lambda>_. pbind (pio (sf_rename F tmp ?p))
      (\<lambda>_. pbind (secure_file F ?p) (\<lambda>_. sync_directory F dir))))) (replaced dir pid w t)"
  proof (rule triple_step [where X = "{}"], goal_cases)
    case 4
    show ?case
    proof (rule triple_step [where X = "{}"], goal_cases)
      case 4
      show ?case
        by (rule triple_bind [OF rename], rule triple_step [OF quiet_secure_file [of "{}"]], simp, erule fin,
          rule triple_conseq [OF triple_quiet [OF quiet_sync_directory [of "{}"], where P = ?done]]) (auto intro: fin)
    qed (auto intro: quiet_secure_file fail)
  qed (auto intro: quiet_pio sync_view fail)
qed

lemma write_unlocked_spec:
  assumes "write_unlocked F C dir pid st c = (r, c')"
  shows "view (snd c') = view (snd c) \<and> \<not> is_ok r \<or> (\<exists>t. to_string_pretty C st = Some t \<and> replaced dir pid (view (snd c)) t r (view (snd c')))"
proof (cases "to_string_pretty C st")
  case None
  then show ?thesis using assms by (auto simp: write_unlocked_def pbind_def plift_def)
next
  case (Some t)
  obtain x c1 where 1: "open_temporary F dir pid 16 c = (x, c1)" by (cases "open_temporary F dir pid 16 c")
  show ?thesis
  proof (cases x)
    case (Inl e)
    then show ?thesis using open_temporary_spec [OF 1] assms Some 1
      by (auto simp: write_unlocked_def pbind_def plift_def simp del: open_temporary.simps)
  next
    case (Inr tmp)
    obtain y c2 where 2: "replace_document F dir tmp t c1 = (y, c2)" by (cases "replace_document F dir tmp t c1")
    have tmp: "tmp \<noteq> state_path dir" "tmp \<in> scratch_files dir pid" and v1: "view (snd c1) = (view (snd c))(tmp := Some [])"
      using open_temporary_spec [OF 1] Inr path_names(2) by (auto simp: scratch_files_def) metis
    have y: "replaced dir pid (view (snd c)) t y (view (snd c2))"
      by (rule tripleD [OF replace_document_spec [OF tmp] 2]) (use v1 in simp)
    obtain z s3 where 3: "sf_remove F tmp (snd c2) = (z, s3)" by fastforce
    have res: "(r, c') = (case y of Inr _ \<Rightarrow> (Ok (), c2) | Inl e \<Rightarrow> (Err e, snd (pio (sf_remove F tmp) c2)))"
      using assms Some 1 2 Inr by (simp add: write_unlocked_def pbind_def plift_def del: open_temporary.simps)
    show ?thesis
    proof (cases y)
      case (Inl e)
      then have "snd c' = s3" "r = Err e" using res 3 by (auto simp: pio_def split: sum.splits)
      moreover have "view s3 q = view (snd c2) q" if "q \<noteq> tmp" for q using remove_other [OF 3 that] .
      then have "view s3 (state_path dir) = view (snd c2) (state_path dir)"
        "\<And>q. q \<notin> scratch_files dir pid \<Longrightarrow> view s3 q = view (snd c2) q" using tmp by metis+
      ultimately show ?thesis using y Some Inl by (simp add: replaced_def)
    qed (use res y Some in \<open>simp add: replaced_def\<close>)
  qed
qed

lemma update_loads:
  "triple view (same_files dir pid w) (load_unlocked F C T dir)
     (\<lambda>r v. case r of Inl e \<Rightarrow> updated C T dir pid operation w (Inl e) v
      | Inr old \<Rightarrow> same_files dir pid w v \<and> document C T (w (state_path dir)) = Ok old)"
  unfolding triple_def
proof (intro allI impI)
  fix c r c'
  assume a: "load_unlocked F C T dir c = (r, c')" "same_files dir pid w (view (snd c))"
  have "document C T (w (state_path dir)) = Ok old" if "r = Ok old" for old
    using load_unlocked_spec(2) [OF a(1)] a(2) that document_not_scratch by (simp add: same_files_def)
  then show "case r of Inl e \<Rightarrow> updated C T dir pid operation w (Inl e) (view (snd c'))
      | Inr old \<Rightarrow> same_files dir pid w (view (snd c')) \<and> document C T (w (state_path dir)) = Ok old"
    using load_unlocked_spec(1) [OF a(1)] a(2) updated_fails by (cases r) simp_all
qed

lemma update_stores:
  assumes "document C T (w (state_path dir)) = Ok old" "operation old = Ok (x, new)" "cli_state_validate T new = Ok ()"
  shows "triple view (same_files dir pid w)
    (pbind (write_unlocked F C dir pid new) (\<lambda>_. pbind (pio (sf_unlock F (lock_path dir))) (\<lambda>_. plift (Ok x))))
    (updated C T dir pid operation w)"
proof (rule triple_bind)
  show "triple view (same_files dir pid w) (write_unlocked F C dir pid new)
      (\<lambda>r v. case r of Inl e \<Rightarrow> updated C T dir pid operation w (Inl e) v | Inr _ \<Rightarrow> updated C T dir pid operation w (Ok x) v)"
    unfolding triple_def
  proof (intro allI impI)
    fix c r c'
    assume a: "write_unlocked F C dir pid new c = (r, c')" "same_files dir pid w (view (snd c))"
    then show "case r of Inl e \<Rightarrow> updated C T dir pid operation w (Inl e) (view (snd c'))
        | Inr _ \<Rightarrow> updated C T dir pid operation w (Ok x) (view (snd c'))"
      using write_unlocked_spec [OF a(1)] assms document_not_scratch
      by (cases r) (auto simp: updated_def replaced_def same_files_def)
  qed
  show "triple view (updated C T dir pid operation w (Ok x)) (pbind (pio (sf_unlock F (lock_path dir))) (\<lambda>_. plift (Ok x)))
      (updated C T dir pid operation w)"
    by (rule triple_step [where X = "{}"]) (auto intro: quiet_pio unlock_view simp: updated_def triple_def plift_def)
qed

lemma update_works:
  fixes operation :: "cli_state \<Rightarrow> ('r \<times> cli_state) result"
  assumes "document C T (w (state_path dir)) = Ok old"
  shows "triple view (same_files dir pid w) (pbind (plift (operation old)) (\<lambda>(output, st).
    pbind (plift (cli_state_validate T st)) (\<lambda>_. pbind (write_unlocked F C dir pid st) (\<lambda>_.
    pbind (pio (sf_unlock F (lock_path dir))) (\<lambda>_. plift (Ok output)))))) (updated C T dir pid operation w)"
proof (cases "operation old")
  case (Inl e)
  then show ?thesis by (auto simp: triple_def pbind_def plift_def updated_fails)
next
  case (Inr y)
  obtain x new where y: "y = (x, new)" by (cases y)
  show ?thesis
  proof (cases "cli_state_validate T new")
    case (Inl e)
    then show ?thesis using Inr y by (auto simp: triple_def pbind_def plift_def updated_fails)
  next
    case (Inr u)
    then show ?thesis using update_stores [of C T w dir old operation x new pid] assms \<open>operation old = Inr y\<close> y
      by (simp add: triple_def pbind_def plift_def)
  qed
qed

lemma state_update_spec:
  "triple view (\<lambda>v. v = w) (state_update F C T dir pid operation) (updated C T dir pid operation w)"
proof -
  have step: "triple view (same_files dir pid w) (pbind m f) (updated C T dir pid operation w)"
    if "quiet view {lock_path dir} m" "\<And>x. triple view (same_files dir pid w) (f x) (updated C T dir pid operation w)"
    for m :: "('s, unit) proc" and f
    by (rule triple_step [OF that(1) _ _ that(2)]) (erule same_files_lock, blast, erule updated_fails)
  have work: "triple view (\<lambda>v. same_files dir pid w v \<and> document C T (w (state_path dir)) = Ok old)
      (pbind (plift (operation old)) (\<lambda>(output, st). pbind (plift (cli_state_validate T st)) (\<lambda>_.
       pbind (write_unlocked F C dir pid st) (\<lambda>_. pbind (pio (sf_unlock F (lock_path dir))) (\<lambda>_. plift (Ok output))))))
      (updated C T dir pid operation w)" for old
    using update_works [of C T w dir old pid operation] by (simp add: triple_def)
  have "triple view (same_files dir pid w) (state_update F C T dir pid operation) (updated C T dir pid operation w)"
    unfolding state_update_def
    by (intro triple_bind [OF update_loads] step work quiet_ensure_directory quiet_secure_directory quiet_open_lock quiet_pio;
        erule create_dir_view lock_view)
  then show ?thesis by (rule triple_conseq) (simp_all add: same_files_def)
qed

end

section \<open>A file system in memory\<close>

text \<open>Directories exist when they were created; every call that changes something may be refused.\<close>

record mem_disk =
  disk_calls :: nat
  disk_dirs :: "ustr list"
  disk_files :: "(ustr \<times> ustr) list"

definition disk_call :: "(nat \<Rightarrow> bool) \<Rightarrow> (mem_disk \<Rightarrow> mem_disk) \<Rightarrow> mem_disk \<Rightarrow> (error_kind + unit) \<times> mem_disk" where
  "disk_call faulty f s =
     (let s = s\<lparr>disk_calls := disk_calls s + 1\<rparr> in if faulty (disk_calls s) then (Inl OtherKind, s) else (Inr (), f s))"

definition disk_view :: "mem_disk \<Rightarrow> ustr \<Rightarrow> ustr option" where
  "disk_view s = map_of (disk_files s)"

definition mem_disk_fs :: "(nat \<Rightarrow> bool) \<Rightarrow> mem_disk state_fs" where
  "mem_disk_fs faulty = \<lparr>
     sf_unix = True,
     sf_metadata = (\<lambda>p s.
       (if p \<in> set (disk_dirs s) then Inr \<lparr>meta_kind = KindDirectory, meta_mode = 0x1c0\<rparr>
        else if map_of (disk_files s) p \<noteq> None then Inr \<lparr>meta_kind = KindFile, meta_mode = 0x180\<rparr>
        else if list_ex (\<lambda>(q, _). \<exists>name \<in> set [drop (length p + 1) q, q]. path_join p name = q) (disk_files s) then Inl OtherKind
        else Inl NotFound, s)),
     sf_set_mode = (\<lambda>_ _. disk_call faulty (\<lambda>s. s)),
     sf_create_dir_all = (\<lambda>p. disk_call faulty (\<lambda>s. s\<lparr>disk_dirs := p # disk_dirs s\<rparr>)),
     sf_read = (\<lambda>p s. (case map_of (disk_files s) p of None \<Rightarrow> Inl NotFound | Some t \<Rightarrow> Inr t, s)),
     sf_open = (\<lambda>p existing s.
       case map_of (disk_files s) p of
         Some _ \<Rightarrow> (if existing then Inr () else Inl AlreadyExists, s)
       | None \<Rightarrow> (case disk_call faulty (\<lambda>s. s\<lparr>disk_files := (p, []) # disk_files s\<rparr>) s of
           (Inl k, s) \<Rightarrow> (Inl (OpenFailed k), s) | (Inr _, s) \<Rightarrow> (Inr (), s))),
     sf_write_all = (\<lambda>p t. disk_call faulty (\<lambda>s. s\<lparr>disk_files := AList.update p t (disk_files s)\<rparr>)),
     sf_sync = (\<lambda>_. disk_call faulty (\<lambda>s. s)),
     sf_rename = (\<lambda>p q s.
       case map_of (disk_files s) p of
         None \<Rightarrow> (Inl NotFound, s)
       | Some t \<Rightarrow> disk_call faulty (\<lambda>s. s\<lparr>disk_files := AList.delete p (AList.update q t (disk_files s))\<rparr>) s),
     sf_remove = (\<lambda>p. disk_call faulty (\<lambda>s. s\<lparr>disk_files := AList.delete p (disk_files s)\<rparr>)),
     sf_lock = (\<lambda>_. disk_call faulty (\<lambda>s. s)),
     sf_unlock = (\<lambda>_. disk_call faulty (\<lambda>s. s))\<rparr>"

lemma disk_call_cases:
  "disk_call faulty f s = (r, s') \<longleftrightarrow>
     (let s1 = s\<lparr>disk_calls := disk_calls s + 1\<rparr> in
      if faulty (disk_calls s1) then r = Inl OtherKind \<and> s' = s1 else r = Inr () \<and> s' = f s1)"
  by (auto simp: disk_call_def Let_def)

interpretation mem_disk: state_files "mem_disk_fs faulty" disk_view
proof unfold_locales
  fix d s s' name
  assume "sf_metadata (mem_disk_fs faulty) d s = (Inl NotFound, s')"
  then have n: "\<not> list_ex (\<lambda>(q, _). \<exists>name \<in> set [drop (length d + 1) q, q]. path_join d name = q) (disk_files s)"
    by (auto simp: mem_disk_fs_def split: if_splits)
  show "disk_view s (path_join d name) = None"
  proof (rule ccontr)
    assume "disk_view s (path_join d name) \<noteq> None"
    then obtain t where t: "(path_join d name, t) \<in> set (disk_files s)" by (auto simp: disk_view_def dest: map_of_SomeD)
    have "\<exists>m \<in> set [drop (length d + 1) (path_join d name), path_join d name]. path_join d m = path_join d name"
      by (auto simp: path_join_def)
    with t n show False by (fastforce simp: list_ex_iff)
  qed
qed (auto simp: mem_disk_fs_def disk_view_def disk_call_cases update_conv' delete_conv' fun_eq_iff Let_def split: if_splits option.splits prod.splits sum.splits)

section \<open>Properties\<close>

text \<open>C24 (updates of the profiles are atomic). Whatever fails, the stored document is afterwards either what it was or the
  complete text of a valid state that the operation made of the stored one, and the latter whenever the update reports
  success; no file but the document, the lock and the temporary files of the process changes.\<close>

theorem state_update_atomic:
  assumes "state_files F view" "state_update F C T dir pid operation (n, s) = (r, (n', s'))"
  shows "(\<forall>q. q \<noteq> state_path dir \<longrightarrow> q \<notin> scratch_files dir pid \<longrightarrow> view s' q = view s q) \<and>
    (view s' (state_path dir) = view s (state_path dir) \<and> \<not> is_ok r \<or>
     (\<exists>old x new t. document C T (view s (state_path dir)) = Ok old \<and> operation old = Ok (x, new) \<and> cli_state_validate T new = Ok () \<and>
        to_string_pretty C new = Some t \<and> view s' (state_path dir) = Some t \<and> (\<forall>y. r = Ok y \<longrightarrow> y = x)))"
  using tripleD [OF state_files.state_update_spec [OF assms(1)] assms(2)] by (simp add: updated_def)

text \<open>(an update is what is loaded next). After a successful update, loading gives the state the operation returned,
  unless the files themselves cannot be accessed.\<close>

theorem updated_state_loads:
  assumes "state_files F view" "state_codec_ok C" "state_update F C T dir pid operation (n, s) = (Ok x, c')"
    and "state_load F C T dir c' = (r, c'')"
  shows "\<exists>old new. document C T (view s (state_path dir)) = Ok old \<and> operation old = Ok (x, new) \<and>
    (r = Ok new \<or> (\<exists>e. r = Err e \<and> access_error e))"
proof -
  from tripleD [OF state_files.state_update_spec [OF assms(1)] assms(3)]
  obtain old new t where u: "document C T (view s (state_path dir)) = Ok old" "operation old = Ok (x, new)"
    "cli_state_validate T new = Ok ()" "to_string_pretty C new = Some t" "view (snd c') (state_path dir) = Some t"
    by (auto simp: updated_def)
  have "document C T (view (snd c') (state_path dir)) = Ok new"
    using u assms(2) by (simp add: document_def state_codec_ok_def)
  then show ?thesis using state_files.state_load_spec(2) [OF assms(1,4)] u by auto
qed

lemma new_device_id_nonempty: "new_device_id random = Ok i \<Longrightarrow> i \<noteq> []"
  by (auto simp: new_device_id_def uuid_text_def split: option.splits)

lemma assign_device_id_OkD:
  "assign_device_id random st = Ok (i, st') \<Longrightarrow> st_device_id st' = i \<and> i \<noteq> []"
  by (auto simp: assign_device_id_def result_simps new_device_id_nonempty split: if_splits)

text \<open>(the device has one identity). Once a device ID was returned, every later request, whatever random bytes it would
  draw, returns the same one, unless the files cannot be accessed.\<close>

theorem device_id_stable:
  assumes "state_files F view" "state_codec_ok C" "state_device_id F C T dir pid random (n, s) = (Ok i, c')"
    and "state_device_id F C T dir pid random' c' = (r, c'')"
  shows "i \<noteq> [] \<and> (r = Ok i \<or> (\<exists>e. r = Err e \<and> access_error e))"
proof -
  let ?p = "state_path dir"
  obtain x c1 where 1: "state_load F C T dir (n, s) = (x, c1)" by (cases "state_load F C T dir (n, s)")
  obtain st where x: "x = Ok st" using assms(3) 1 by (cases x) (auto simp: state_device_id_def pbind_def)
  have "\<exists>st. document C T (view (snd c') ?p) = Ok st \<and> st_device_id st = i \<and> i \<noteq> []"
  proof (cases "st_device_id st = []")
    case False
    then have "c' = c1" "i = st_device_id st" using assms(3) 1 x by (auto simp: state_device_id_def pbind_def plift_def)
    then show ?thesis using state_files.state_load_spec [OF assms(1) 1] x False by (intro exI [of _ st]) auto
  next
    case True
    then have "state_update F C T dir pid (assign_device_id random) c1 = (Ok i, c')"
      using assms(3) 1 x by (auto simp: state_device_id_def pbind_def)
    from tripleD [OF state_files.state_update_spec [OF assms(1)] this]
    obtain old new t where u: "assign_device_id random old = Ok (i, new)" "cli_state_validate T new = Ok ()"
      "to_string_pretty C new = Some t" "view (snd c') ?p = Some t"
      by (auto simp: updated_def)
    then have "document C T (view (snd c') ?p) = Ok new" using assms(2) by (simp add: document_def state_codec_ok_def)
    then show ?thesis using assign_device_id_OkD [OF u(1)] by blast
  qed
  then obtain st' where st': "document C T (view (snd c') ?p) = Ok st'" "st_device_id st' = i" "i \<noteq> []" by blast
  obtain y c2 where 2: "state_load F C T dir c' = (y, c2)" by (cases "state_load F C T dir c'")
  have "y = Ok st' \<or> (\<exists>e. y = Err e \<and> access_error e)" using state_files.state_load_spec(2) [OF assms(1) 2] st' by simp
  then show ?thesis using assms(4) 2 st' by (auto simp: state_device_id_def pbind_def plift_def)
qed

section \<open>Witnesses\<close>

definition demo_state_codec :: "cli_state \<Rightarrow> state_codec" where
  "demo_state_codec st0 = \<lparr>to_string_pretty = (\<lambda>st. if st = st0 then Some [1] else None),
     toml_from_str = (\<lambda>t. if t = [1] then Some st0 else None)\<rparr>"

definition demo_disk :: mem_disk where
  "demo_disk = \<lparr>disk_calls = 0, disk_dirs = [], disk_files = []\<rparr>"

lemma demo_state_codec_ok: "state_codec_ok (demo_state_codec st0)"
  by (simp add: state_codec_ok_def demo_state_codec_def)

lemma demo_default_valid: "cli_state_validate T cli_state_default = Ok ()"
  by (simp add: cli_state_validate_def cli_state_default_def)

lemma mem_disk_ops [simp]:
  "sf_unix (mem_disk_fs faulty)"
  "p \<in> set (disk_dirs s) \<Longrightarrow> sf_metadata (mem_disk_fs faulty) p s = (Inr \<lparr>meta_kind = KindDirectory, meta_mode = 0x1c0\<rparr>, s)"
  "p \<notin> set (disk_dirs s) \<Longrightarrow> map_of (disk_files s) p = Some t \<Longrightarrow>
     sf_metadata (mem_disk_fs faulty) p s = (Inr \<lparr>meta_kind = KindFile, meta_mode = 0x180\<rparr>, s)"
  "sf_read (mem_disk_fs faulty) p s = (case map_of (disk_files s) p of None \<Rightarrow> Inl NotFound | Some t \<Rightarrow> Inr t, s)"
  "sf_set_mode (mem_disk_fs (\<lambda>_. False)) p m s = (Inr (), s\<lparr>disk_calls := disk_calls s + 1\<rparr>)"
  "sf_sync (mem_disk_fs (\<lambda>_. False)) p s = (Inr (), s\<lparr>disk_calls := disk_calls s + 1\<rparr>)"
  "sf_lock (mem_disk_fs (\<lambda>_. False)) p s = (Inr (), s\<lparr>disk_calls := disk_calls s + 1\<rparr>)"
  "sf_unlock (mem_disk_fs (\<lambda>_. False)) p s = (Inr (), s\<lparr>disk_calls := disk_calls s + 1\<rparr>)"
  "sf_create_dir_all (mem_disk_fs (\<lambda>_. False)) p s = (Inr (), s\<lparr>disk_calls := disk_calls s + 1, disk_dirs := p # disk_dirs s\<rparr>)"
  "sf_write_all (mem_disk_fs (\<lambda>_. False)) p t s =
     (Inr (), s\<lparr>disk_calls := disk_calls s + 1, disk_files := AList.update p t (disk_files s)\<rparr>)"
  "map_of (disk_files s) p = None \<Longrightarrow> sf_open (mem_disk_fs (\<lambda>_. False)) p e s =
     (Inr (), s\<lparr>disk_calls := disk_calls s + 1, disk_files := (p, []) # disk_files s\<rparr>)"
  "map_of (disk_files s) p = Some t \<Longrightarrow> sf_rename (mem_disk_fs (\<lambda>_. False)) p q s =
     (Inr (), s\<lparr>disk_calls := disk_calls s + 1, disk_files := AList.delete p (AList.update q t (disk_files s))\<rparr>)"
  by (simp_all add: mem_disk_fs_def disk_call_def Let_def)

lemmas demo_disk_defs = pbind_def plift_def pio_def Let_def
  ensure_directory_def secure_directory_def secure_file_def open_lock_def secure_open_def load_unlocked_def
  write_unlocked_def replace_document_def sync_directory_def

lemma open_temporary_16:
  "map_of (disk_files s) (unique_temporary_path dir pid n) = None \<Longrightarrow>
     open_temporary (mem_disk_fs (\<lambda>_. False)) dir pid 16 (n, s) =
       (Ok (unique_temporary_path dir pid n),
        (n + 1, s\<lparr>disk_calls := disk_calls s + 1, disk_files := (unique_temporary_path dir pid n, []) # disk_files s\<rparr>))"
  using open_temporary.simps(2) [of "mem_disk_fs (\<lambda>_. False)" dir pid 15 "(n, s)"] by (simp add: secure_open_def Let_def)

definition demo_dir :: ustr where
  "demo_dir = [0x64]"

lemma demo_paths [simp]:
  "cache_directory demo_dir \<noteq> demo_dir" "lock_path demo_dir \<noteq> demo_dir" "state_path demo_dir \<noteq> demo_dir"
  "unique_temporary_path demo_dir pid n \<noteq> demo_dir" "lock_path demo_dir \<noteq> cache_directory demo_dir"
  "state_path demo_dir \<noteq> cache_directory demo_dir" "unique_temporary_path demo_dir pid n \<noteq> cache_directory demo_dir"
  "lock_path demo_dir \<noteq> unique_temporary_path demo_dir pid n" "lock_path demo_dir \<noteq> state_path demo_dir"
  "state_path demo_dir \<noteq> unique_temporary_path demo_dir pid n" "unique_temporary_path demo_dir pid n \<noteq> state_path demo_dir"
  "unique_temporary_path demo_dir pid n \<noteq> lock_path demo_dir" "state_path demo_dir \<noteq> lock_path demo_dir"
  by (simp_all add: demo_dir_def cache_directory_def lock_path_def state_path_def unique_temporary_path_def path_join_def ascii_str_def)

definition demo_written :: mem_disk where
  "demo_written = \<lparr>disk_calls = 12, disk_dirs = [cache_directory demo_dir, demo_dir],
     disk_files = [(lock_path demo_dir, []), (state_path demo_dir, [1])]\<rparr>"

lemma demo_update:
  assumes "operation cli_state_default = Ok (x, new)" "cli_state_validate T new = Ok ()"
  shows "state_update (mem_disk_fs (\<lambda>_. False)) (demo_state_codec new) T demo_dir 7 operation (0, demo_disk) = (Ok x, (1, demo_written))"
  using assms by (simp add: state_update_def demo_disk_defs demo_state_codec_def demo_disk_def open_temporary_16 demo_written_def
      del: open_temporary.simps)

lemma demo_update_kept:
  "state_update (mem_disk_fs (\<lambda>_. False)) (demo_state_codec cli_state_default) T demo_dir 7 (\<lambda>st. Ok (5 :: nat, st)) (0, demo_disk) =
     (Ok 5, (1, demo_written))"
  by (rule demo_update) (simp_all add: demo_default_valid)

theorem state_update_atomic_witness:
  "\<exists>r n' s'. state_update (mem_disk_fs (\<lambda>_. False)) (demo_state_codec cli_state_default) demo_text demo_dir 7 (\<lambda>st. Ok (5 :: nat, st))
       (0, demo_disk) = (r, (n', s')) \<and> disk_view s' [0x78] = disk_view demo_disk [0x78] \<and>
     (disk_view s' (state_path demo_dir) = disk_view demo_disk (state_path demo_dir) \<and> \<not> is_ok r \<or>
      disk_view s' (state_path demo_dir) = Some [1])"
proof -
  have "[0x78] \<notin> scratch_files demo_dir 7" "[0x78] \<noteq> state_path demo_dir"
    by (auto simp: scratch_files_def lock_path_def state_path_def unique_temporary_path_def path_join_def ascii_str_def demo_dir_def)
  then show ?thesis
    using state_update_atomic [OF mem_disk.state_files_axioms demo_update_kept [of demo_text]] demo_update_kept [of demo_text]
    by (auto simp: demo_state_codec_def split: if_splits)
qed

theorem updated_state_loads_witness:
  "\<exists>r. r = fst (state_load (mem_disk_fs (\<lambda>_. False)) (demo_state_codec cli_state_default) demo_text demo_dir (1, demo_written)) \<and>
     (r = Ok cli_state_default \<or> (\<exists>e. r = Err e \<and> access_error e))"
  using updated_state_loads [OF mem_disk.state_files_axioms demo_state_codec_ok
      demo_update_kept [of demo_text] surjective_pairing]
  by (auto simp: demo_disk_def disk_view_def document_def)

definition demo_id :: ustr where
  "demo_id = uuid_text (uuid_bytes (replicate 16 0))"

lemma demo_id_eq:
  "demo_id = [0x30, 0x30, 0x30, 0x30, 0x30, 0x30, 0x30, 0x30, 0x2d, 0x30, 0x30, 0x30, 0x30, 0x2d, 0x34, 0x30, 0x30, 0x30, 0x2d, 0x38, 0x30, 0x30, 0x30, 0x2d, 0x30, 0x30, 0x30, 0x30, 0x30, 0x30, 0x30, 0x30, 0x30, 0x30, 0x30, 0x30]"
  by code_simp

lemma demo_device_id:
  "state_device_id (mem_disk_fs (\<lambda>_. False)) (demo_state_codec (cli_state_default\<lparr>st_device_id := demo_id\<rparr>)) T demo_dir 7
     (Some (replicate 16 0)) (0, demo_disk) = (Ok demo_id, (1, demo_written))"
proof -
  have "cli_state_validate T (cli_state_default\<lparr>st_device_id := demo_id\<rparr>) = Ok ()"
    by (simp add: cli_state_validate_def cli_state_default_def validate_device_id_def demo_id_eq str_trim_def is_whitespace_def utf8_char_def)
  moreover have "assign_device_id (Some (replicate 16 0)) cli_state_default = Ok (demo_id, cli_state_default\<lparr>st_device_id := demo_id\<rparr>)"
    by (simp add: assign_device_id_def cli_state_default_def new_device_id_def demo_id_def)
  moreover have "state_load (mem_disk_fs (\<lambda>_. False)) C T demo_dir (0, demo_disk) = (Ok cli_state_default, (0, demo_disk))" for C
    by (simp add: state_load_def mem_disk_fs_def demo_disk_def)
  ultimately show ?thesis
    using demo_update [of "assign_device_id (Some (replicate 16 0))" demo_id]
    by (simp add: state_device_id_def pbind_def) (simp add: cli_state_default_def)
qed

theorem device_id_stable_witness:
  "\<exists>r. r = fst (state_device_id (mem_disk_fs (\<lambda>_. False)) (demo_state_codec (cli_state_default\<lparr>st_device_id := demo_id\<rparr>)) demo_text
       demo_dir 7 None (1, demo_written)) \<and> demo_id \<noteq> [] \<and> (r = Ok demo_id \<or> (\<exists>e. r = Err e \<and> access_error e))"
  using device_id_stable [OF mem_disk.state_files_axioms demo_state_codec_ok demo_device_id surjective_pairing] by blast

end
