(* ===== verification/Cli_Routing.thy ===== *)
theory Cli_Routing
  imports Managed_Workflow Http_Forward State_Store Dns_Runtime Credentials
begin

text \<open>
  What the command line program makes of its arguments (\<open>src/bin/openiwan.rs\<close>): durations and
  hexadecimal input, the DNS overrides, the routes of a direct and of a managed connection, the
  device that drops IPv6, and the configuration of a forward. A plan is what \<open>Client_Run\<close> sets up and runs.
\<close>

section \<open>Values\<close>

text \<open>\<open>parse_duration\<close>; the result is in microseconds.\<close>

definition parse_duration :: "ustr \<Rightarrow> duration option" where
  "parse_duration v =
     (let scaled = (\<lambda>number multiplier.
        opt_and_then (parse_uint (2 ^ 64) number) (\<lambda>n.
          if n * multiplier \<ge> 2 ^ 64 \<or> n * multiplier = 0 then None else Some (n * multiplier * 1000)))
      in case strip_suffix v (ascii_str ''ms'') of
           Some number \<Rightarrow> scaled number 1
         | None \<Rightarrow>
             (case strip_suffix v (ascii_str ''s'') of
                Some number \<Rightarrow> scaled number 1000
              | None \<Rightarrow>
                  (case strip_suffix v (ascii_str ''m'') of
                     Some number \<Rightarrow> scaled number 60000
                   | None \<Rightarrow> None)))"

definition parse_resolver :: "addr_text \<Rightarrow> (ustr \<Rightarrow> socket_addr option) \<Rightarrow> ustr \<Rightarrow> socket_addr option" where
  "parse_resolver T parse_socket v =
     (case at_parse T v of Some a \<Rightarrow> Some \<lparr>sa_ip = a, sa_port = 53\<rparr> | None \<Rightarrow> parse_socket v)"

definition is_ascii_whitespace :: "nat \<Rightarrow> bool" where
  "is_ascii_whitespace c \<longleftrightarrow> c \<in> {0x09, 0x0a, 0x0c, 0x0d, 0x20}"

definition hex_nibble :: "u8 \<Rightarrow> nat option" where
  "hex_nibble b =
     (if 0x30 \<le> b \<and> b \<le> 0x39 then Some (unat b - 0x30)
      else if 0x61 \<le> b \<and> b \<le> 0x66 then Some (unat b - 0x61 + 10)
      else if 0x41 \<le> b \<and> b \<le> 0x46 then Some (unat b - 0x41 + 10) else None)"

text \<open>\<open>u8::from_str_radix(_, 16)\<close> of a slice of two bytes, where a leading plus sign is skipped.\<close>

definition radix_pair :: "u8 \<Rightarrow> u8 \<Rightarrow> u8 option" where
  "radix_pair a b =
     (if a = 0x2b then map_option of_nat (hex_nibble b)
      else case (hex_nibble a, hex_nibble b) of (Some x, Some y) \<Rightarrow> Some (of_nat (16 * x + y)) | _ \<Rightarrow> None)"

text \<open>The slices of two bytes in turn. A slice that does not begin and end at the borders of characters panics: the
  result \<open>None\<close>.\<close>

definition is_continuation :: "u8 \<Rightarrow> bool" where
  "is_continuation b \<longleftrightarrow> 0x80 \<le> b \<and> b \<le> 0xbf"

fun hex_pairs :: "bytes \<Rightarrow> bytes result option" where
  "hex_pairs (a # b # rest) =
     (if is_continuation a \<or> (rest \<noteq> [] \<and> is_continuation (hd rest)) then None
      else case radix_pair a b of
        None \<Rightarrow> Some (Err (InvalidConfig ''invalid hex at digit {offset}''))
      | Some x \<Rightarrow> map_option (rmap (Cons x)) (hex_pairs rest))"
| "hex_pairs _ = Some (Ok [])"

definition compact_hex :: "ustr \<Rightarrow> ustr" where
  "compact_hex v = filter (\<lambda>c. \<not> is_ascii_whitespace c \<and> c \<noteq> 0x3a \<and> c \<noteq> 0x2d) v"

definition decode_hex :: "ustr \<Rightarrow> bytes result option" where
  "decode_hex v =
     (let compact = utf8_bytes (compact_hex v) in
      if odd (length compact) then Some (Err (InvalidConfig ''hexadecimal input has an odd number of digits''))
      else hex_pairs compact)"

definition encode_hex :: "bytes \<Rightarrow> ustr" where
  "encode_hex bs = hex_lower bs"

text \<open>What the command \<open>decode\<close> prints of a packet.\<close>

datatype packet_report =
    ReportSr sr_header packet_header bytes
  | ReportAttributes packet_header bool "tlv list"
  | ReportBody packet_header bool bytes

definition decode_report_sr :: "bytes \<Rightarrow> packet_report result" where
  "decode_report_sr bs =
     rbind (sr_header_parse bs) (\<lambda>(h, header_length).
     if header_length > length bs then Err (InvalidSegmentRouting ''missing SR inner header'')
     else
       rbind (decode_inner (drop header_length bs)) (\<lambda>inner.
       if header_length + HEADER_LEN > length bs then Err (InvalidSegmentRouting ''missing SR inner body'')
       else Ok (ReportSr h inner (drop (header_length + HEADER_LEN) bs))))"

definition decode_report :: "crypto_prims \<Rightarrow> bytes \<Rightarrow> packet_report result" where
  "decode_report P bs =
     (if bs \<noteq> [] \<and> hd bs = packet_type_code SegmentRouting then decode_report_sr bs
      else
        rbind (decode_packet P bs) (\<lambda>p.
        if packet_type (header p) \<in> {Open, OpenAck, OpenReject}
        then rmap (ReportAttributes (header p) (signature p \<noteq> None)) (parse_all (body p))
        else Ok (ReportBody (header p) (signature p \<noteq> None) (body p))))"

definition decode_command :: "crypto_prims \<Rightarrow> ustr \<Rightarrow> packet_report result option" where
  "decode_command P hex = map_option (\<lambda>r. rbind r (decode_report P)) (decode_hex hex)"

section \<open>Overrides from the command line\<close>

datatype dns_server_mode_arg = ServerInherit | ServerServer | ServerCustom | ServerDisabled
datatype split_dns_mode_arg = SplitInherit | SplitArgOff | SplitArgTunnelAll | SplitArgManaged | SplitArgCustom
datatype encrypted_dns_mode_arg = EncArgInherit | EncArgBlock | EncArgAllow

fun server_into_policy :: "dns_server_mode_arg \<Rightarrow> dns_server_mode option" where
  "server_into_policy ServerInherit = None"
| "server_into_policy ServerServer = Some DnsServer"
| "server_into_policy ServerCustom = Some DnsCustom"
| "server_into_policy ServerDisabled = Some DnsDisabled"

fun split_into_policy :: "split_dns_mode_arg \<Rightarrow> split_dns_mode option" where
  "split_into_policy SplitInherit = None"
| "split_into_policy SplitArgOff = Some SplitOff"
| "split_into_policy SplitArgTunnelAll = Some TunnelAll"
| "split_into_policy SplitArgManaged = Some SplitManaged"
| "split_into_policy SplitArgCustom = Some SplitCustom"

fun encrypted_into_policy :: "encrypted_dns_mode_arg \<Rightarrow> encrypted_dns_mode" where
  "encrypted_into_policy EncArgInherit = EncInherit"
| "encrypted_into_policy EncArgBlock = EncBlock"
| "encrypted_into_policy EncArgAllow = EncAllow"

record dns_override_args =
  da_mode :: "dns_server_mode_arg option"
  da_servers :: "u32 list"
  da_split_mode :: "split_dns_mode_arg option"
  da_split_domains :: "domain_rule list"
  da_encrypted :: "encrypted_dns_mode_arg option"
  da_doh_hosts :: "ustr list"

definition dns_args_default :: dns_override_args where
  "dns_args_default = \<lparr>da_mode = None, da_servers = [], da_split_mode = None, da_split_domains = [], da_encrypted = None, da_doh_hosts = []\<rparr>"

text \<open>The lists given replace the saved ones, and select the custom mode when no mode is given.\<close>

definition with_servers :: "dns_override_args \<Rightarrow> dns_overrides \<Rightarrow> dns_overrides" where
  "with_servers A t =
     (if da_servers A = [] then t
      else let t = t\<lparr>ov_servers := Some (da_servers A)\<rparr> in
        if da_mode A = None then t\<lparr>ov_server_mode := Some DnsCustom\<rparr> else t)"

definition with_split_domains :: "dns_override_args \<Rightarrow> dns_overrides \<Rightarrow> dns_overrides" where
  "with_split_domains A t =
     (if da_split_domains A = [] then t
      else let t = t\<lparr>ov_split_domains := Some (da_split_domains A)\<rparr> in
        if da_split_mode A = None then t\<lparr>ov_split_mode := Some SplitCustom\<rparr> else t)"

definition with_doh_hosts :: "dns_override_args \<Rightarrow> dns_overrides \<Rightarrow> dns_overrides" where
  "with_doh_hosts A t = (if da_doh_hosts A = [] then t else t\<lparr>ov_doh_hosts := Some (da_doh_hosts A)\<rparr>)"

definition applied_to :: "dns_override_args \<Rightarrow> dns_overrides \<Rightarrow> dns_overrides" where
  "applied_to A lower =
     (let t = (case da_mode A of
                 None \<Rightarrow> lower
               | Some mode \<Rightarrow>
                   (let t = lower\<lparr>ov_server_mode := server_into_policy mode\<rparr> in
                    if mode = ServerInherit then t\<lparr>ov_servers := None\<rparr> else t));
          t = with_servers A t;
          t = (case da_split_mode A of
                 None \<Rightarrow> t
               | Some mode \<Rightarrow>
                   (let t = t\<lparr>ov_split_mode := split_into_policy mode\<rparr> in
                    if mode = SplitInherit then t\<lparr>ov_split_domains := None\<rparr> else t));
          t = with_split_domains A t;
          t = (case da_encrypted A of None \<Rightarrow> t | Some mode \<Rightarrow> t\<lparr>ov_encrypted_dns := Some (encrypted_into_policy mode)\<rparr>)
      in with_doh_hosts A t)"

definition patch_profile :: "dns_override_args \<Rightarrow> dns_overrides \<Rightarrow> dns_overrides" where
  "patch_profile A t =
     (let t = (case da_mode A of None \<Rightarrow> t | Some mode \<Rightarrow> t\<lparr>ov_server_mode := server_into_policy mode\<rparr>);
          t = with_servers A t;
          t = (case da_split_mode A of None \<Rightarrow> t | Some mode \<Rightarrow> t\<lparr>ov_split_mode := split_into_policy mode\<rparr>);
          t = with_split_domains A t;
          t = (case da_encrypted A of
                 None \<Rightarrow> t
               | Some EncArgInherit \<Rightarrow> t\<lparr>ov_encrypted_dns := None\<rparr>
               | Some mode \<Rightarrow> t\<lparr>ov_encrypted_dns := Some (encrypted_into_policy mode)\<rparr>)
      in with_doh_hosts A t)"

record routing_override_args =
  ra_mode :: "user_routing_mode option"
  ra_block_ipv6 :: bool
  ra_allow_ipv6 :: bool

definition ipv6_override :: "routing_override_args \<Rightarrow> bool option" where
  "ipv6_override A = (if ra_block_ipv6 A then Some True else if ra_allow_ipv6 A then Some False else None)"

record route_args =
  rt_policy :: routing_override_args
  rt_routes :: "ustr list"
  rt_route_ips :: "ustr list"
  rt_route_domains :: "ustr list"

section \<open>Routes of a connection\<close>

definition append_ipv6_capture_routes :: "ustr list \<Rightarrow> bool \<Rightarrow> ustr list" where
  "append_ipv6_capture_routes routes block_ipv6 =
     (if block_ipv6 then routes @ [ascii_str ''::/1'', ascii_str ''8000::/1''] else routes)"

definition base_full_ipv4_exclusions :: "ustr list" where
  "base_full_ipv4_exclusions = [ascii_str ''169.254.0.0/16'', ascii_str ''224.0.0.0/4'', ascii_str ''127.0.0.0/8'']"

definition host_cidr :: "addr_text \<Rightarrow> ip_addr \<Rightarrow> ustr" where
  "host_cidr T a = at_show T a @ [SLASH] @ dec (if is_ipv4 a then 32 else 128)"

text \<open>The resolvers of the host stay outside the tunnel when they may be asked.\<close>

definition resolver_exclusions :: "addr_text \<Rightarrow> effective_dns_policy \<Rightarrow> physical_resolver list \<Rightarrow> bool \<Rightarrow> ustr list" where
  "resolver_exclusions T policy physical block_ipv6 =
     (if pol_server_mode policy = DnsDisabled \<or> pol_split_mode policy \<in> {SplitManaged, SplitCustom}
      then map (\<lambda>r. host_cidr T (sa_ip (pr_address r)))
             (filter (\<lambda>r. \<not> block_ipv6 \<or> is_ipv4 (sa_ip (pr_address r))) physical)
      else [])"

text \<open>What a connection is set up with: the inputs of the policy and the policy, the routes and the session as the interface
  sees it.\<close>

record connection_plan =
  plan_defaults :: dns_defaults
  plan_overrides :: dns_overrides
  plan_physical :: "physical_resolver list"
  plan_policy :: effective_dns_policy
  plan_routes :: "ustr list"
  plan_session :: session_info
  plan_block_ipv6 :: bool

definition direct_plan ::
  "addr_text \<Rightarrow> (ustr \<Rightarrow> error_kind + ip_addr list) \<Rightarrow> physical_resolver list result \<Rightarrow> route_args \<Rightarrow> dns_override_args \<Rightarrow> session_info \<Rightarrow>
     connection_plan result" where
  "direct_plan T resolver discover_physical args dns_args info =
     (let mode = opt_unwrap_or UserCustom (ra_mode (rt_policy args));
          block_ipv6 = opt_unwrap_or False (ipv6_override (rt_policy args));
          overrides = applied_to dns_args dns_overrides_default
      in if ov_split_mode overrides = Some SplitManaged
         then Err (InvalidConfig ''direct connect cannot use managed split DNS without controller domain rules'')
         else
         rbind (resolve_policy dns_defaults_default overrides (info_dns_servers info)) (\<lambda>policy.
         rbind discover_physical (\<lambda>physical.
         let route_ips = rt_route_ips args @
               map (at_show T) (filter (\<lambda>a. a \<noteq> sa_ip (peer info)) (map V4 (pol_servers policy)));
             exclusions = resolver_exclusions T policy physical block_ipv6 @
               (if mode = UserAll then base_full_ipv4_exclusions else [])
         in
         rbind (resolve_route_policy T resolver (append_ipv6_capture_routes (rt_routes args) block_ipv6) route_ips
                  (rt_route_domains args) exclusions (sa_ip (peer info)) (mode = UserAll)) (\<lambda>routes.
         Ok \<lparr>plan_defaults = dns_defaults_default, plan_overrides = overrides, plan_physical = physical,
             plan_policy = policy, plan_routes = routes,
             plan_session = info\<lparr>info_dns_servers := map V4 (pol_servers policy)\<rparr>, plan_block_ipv6 = block_ipv6\<rparr>))))"

section \<open>Routes of a managed connection\<close>

record routing_selection =
  sel_mode :: routing_mode
  sel_user_overridden :: bool
  sel_block_ipv6 :: bool

definition select_managed_routing :: "route_args \<Rightarrow> routing_overrides \<Rightarrow> routing_configuration option \<Rightarrow> routing_selection" where
  "select_managed_routing args profile controller =
     (let user = (case ra_mode (rt_policy args) of Some m \<Rightarrow> Some m | None \<Rightarrow> ro_mode profile) in
      \<lparr>sel_mode = (case user of
           Some UserAll \<Rightarrow> RouteAll
         | Some UserCustom \<Rightarrow> RouteCustom
         | None \<Rightarrow> (case controller of None \<Rightarrow> RouteAll | Some r \<Rightarrow> rcf_mode r)),
       sel_user_overridden = user \<noteq> None,
       sel_block_ipv6 = opt_unwrap_or (ro_block_ipv6 profile) (ipv6_override (rt_policy args))\<rparr>)"

definition valid_filter_cidr :: "addr_text \<Rightarrow> ustr \<Rightarrow> bool" where
  "valid_filter_cidr T v =
     (case split_once SLASH v of
        None \<Rightarrow> False
      | Some (address, p) \<Rightarrow>
          (case (at_parse T address, parse_uint 256 p) of
             (Some a, Some n) \<Rightarrow> n \<le> (if is_ipv4 a then 32 else 128)
           | _ \<Rightarrow> False))"

definition valid_filter_cidrs :: "addr_text \<Rightarrow> ustr list \<Rightarrow> ustr list" where
  "valid_filter_cidrs T vs = filter (valid_filter_cidr T) vs"

definition collect_managed_cidrs ::
  "addr_text \<Rightarrow> route_args \<Rightarrow> routing_overrides \<Rightarrow> routing_configuration option \<Rightarrow> ustr list \<Rightarrow> routing_selection \<Rightarrow> ustr list" where
  "collect_managed_cidrs T args profile controller inclusive sel =
     append_ipv6_capture_routes
       (ro_routes profile @ rt_routes args @ valid_filter_cidrs T inclusive @
        (case controller of
           Some r \<Rightarrow> if \<not> sel_user_overridden sel \<and> rcf_mode r = RouteCustom then rcf_custom_routes r else []
         | None \<Rightarrow> []))
       (sel_block_ipv6 sel)"

text \<open>The servers of the configuration: their endpoints, resolved where that works, sorted and without repetition.\<close>

definition sr_endpoints :: "sr_group \<Rightarrow> ustr list" where
  "sr_endpoints g =
     List.map_filter (\<lambda>e.
       let i = ent_ingress e in
       if 0 \<le> ing_server_port i \<and> ing_server_port i < 2 ^ 16 \<and> ing_server_port i \<noteq> 0 \<and> ing_server_name i \<noteq> []
       then Some (endpoint_text (ing_server_name i) (dec (nat (ing_server_port i)))) else None) (sg_entries g)"

definition managed_server_exclusions ::
  "json_lib \<Rightarrow> addr_text \<Rightarrow> (json \<Rightarrow> sr_group option) \<Rightarrow> sec_lib \<Rightarrow> aead_lib \<Rightarrow> (ustr \<Rightarrow> error_kind + socket_addr list) \<Rightarrow>
     controller_configuration \<Rightarrow> ustr list result" where
  "managed_server_exclusions J T sr_group_from_value S A resolver c =
     rbind (iwan_servers J c) (\<lambda>servers.
     rbind (cc_sr_groups sr_group_from_value S A c) (\<lambda>groups.
     let endpoints = map server_endpoint servers @ concat (map sr_endpoints groups);
         resolved = concat (map (\<lambda>e. case resolver e of
           Inl _ \<Rightarrow> [] | Inr as \<Rightarrow> map (\<lambda>a. host_cidr T (sa_ip a)) as) endpoints)
     in Ok (remdups_adj (sort (base_full_ipv4_exclusions @ resolved)))))"

definition managed_route_exclusions ::
  "addr_text \<Rightarrow> ustr list result \<Rightarrow> ip_filter_configuration option \<Rightarrow> physical_resolver list \<Rightarrow> effective_dns_policy \<Rightarrow> bool \<Rightarrow> ustr list result" where
  "managed_route_exclusions T server_exclusions ipf physical policy block_ipv6 =
     rbind server_exclusions (\<lambda>servers.
     Ok ((case ipf of None \<Rightarrow> [] | Some f \<Rightarrow> valid_filter_cidrs T (ipf_exclusive f)) @ servers @
         resolver_exclusions T policy physical block_ipv6))"

text \<open>The controller may set the size of packets on the interface.\<close>

definition interface_mtu :: "routing_configuration option \<Rightarrow> u16 \<Rightarrow> u16" where
  "interface_mtu controller m =
     (case controller of
        Some r \<Rightarrow>
          if rcf_mtu_mode r = ascii_str ''custom'' \<and> 0 \<le> rcf_custom_mtu r \<and> rcf_custom_mtu r < 2 ^ 16 \<and>
             576 \<le> rcf_custom_mtu r \<and> rcf_custom_mtu r \<le> 9000
          then of_int (rcf_custom_mtu r) else m
      | None \<Rightarrow> m)"

definition effective_ip_filter :: "routing_mode \<Rightarrow> controller_configuration \<Rightarrow> ip_filter_configuration option result" where
  "effective_ip_filter mode c =
     rbind (if mode = RouteAll then Ok None else ip_filter c) (\<lambda>f.
     Ok (opt_filter (\<lambda>f. ipf_inclusive f \<noteq> [] \<or> ipf_exclusive f \<noteq> []) f))"

definition managed_plan ::
  "workflow_env \<Rightarrow> (ustr \<Rightarrow> error_kind + ip_addr list) \<Rightarrow> (ustr \<Rightarrow> error_kind + socket_addr list) \<Rightarrow> physical_resolver list result \<Rightarrow>
     prepared_connection \<Rightarrow> route_args \<Rightarrow> dns_overrides \<Rightarrow> dns_override_args \<Rightarrow> routing_overrides \<Rightarrow> session_info \<Rightarrow>
     connection_plan result" where
  "managed_plan W resolver sockets discover_physical prepared args profile_dns dns_args profile_routing info =
     (let T = we_text W; c = pc_configuration prepared in
      rbind (cc_dns_defaults (we_json W) T (pc_service_type prepared = ControllerService) c) (\<lambda>defaults.
      let overrides = applied_to dns_args profile_dns in
      rbind (resolve_policy defaults overrides (info_dns_servers info)) (\<lambda>policy.
      rbind discover_physical (\<lambda>physical.
      rbind (routing c) (\<lambda>controller.
      let sel = select_managed_routing args profile_routing controller; mode = sel_mode sel; block_ipv6 = sel_block_ipv6 sel in
      rbind (effective_ip_filter mode c) (\<lambda>ipf.
      let full_ipv4 = (mode = RouteAll \<or> mode = RouteIpFilter \<and> ipf = None);
          inclusive = (case ipf of None \<Rightarrow> [] | Some f \<Rightarrow> ipf_inclusive f);
          cidrs = collect_managed_cidrs T args profile_routing controller inclusive sel @
            (if mode \<noteq> RouteAll then map (\<lambda>s. at_show T (V4 s) @ [SLASH] @ dec 32) (pol_servers policy) else [])
      in
      rbind (managed_route_exclusions T
               (managed_server_exclusions (we_json W) T (we_sr_group W) (we_sec W) (we_aead W) sockets c) ipf physical policy block_ipv6) (\<lambda>exclusions.
      rbind (resolve_route_policy T resolver cidrs (rt_route_ips args) (rt_route_domains args) exclusions (sa_ip (peer info)) full_ipv4) (\<lambda>routes.
      Ok \<lparr>plan_defaults = defaults, plan_overrides = overrides, plan_physical = physical,
          plan_policy = policy, plan_routes = routes,
          plan_session = info\<lparr>info_mtu := interface_mtu controller (info_mtu info), info_dns_servers := map V4 (pol_servers policy)\<rparr>,
          plan_block_ipv6 = block_ipv6\<rparr>))))))))"

section \<open>The device that drops IPv6\<close>

definition is_ipv6_packet :: "bytes \<Rightarrow> bool" where
  "is_ipv6_packet packet = (case packet of [] \<Rightarrow> False | b # _ \<Rightarrow> drop_bit 4 b = 6)"

text \<open>What successive reads of the inner device give; the reads left over are returned. Reading on after the last one is
  \<open>None\<close>.\<close>

fun v6_read_packet :: "bool \<Rightarrow> (error_kind + bytes) list \<Rightarrow> ((error_kind + bytes) \<times> (error_kind + bytes) list) option" where
  "v6_read_packet block_ipv6 [] = None"
| "v6_read_packet block_ipv6 (Inl k # rest) = Some (Inl k, rest)"
| "v6_read_packet block_ipv6 (Inr packet # rest) =
     (if \<not> block_ipv6 \<or> \<not> is_ipv6_packet packet then Some (Inr packet, rest) else v6_read_packet block_ipv6 rest)"

text \<open>A packet is written to the inner device or swallowed.\<close>

definition v6_write_packet :: "bool \<Rightarrow> (bytes \<Rightarrow> 's \<Rightarrow> (error_kind + nat) \<times> 's) \<Rightarrow> bytes \<Rightarrow> 's \<Rightarrow> (error_kind + nat) \<times> 's" where
  "v6_write_packet block_ipv6 inner packet s =
     (if block_ipv6 \<and> is_ipv6_packet packet then (Inr (length packet), s) else inner packet s)"

section \<open>Forwards\<close>

datatype resolve_via_arg = ViaArgAuto | ViaArgTunnel | ViaArgSystem

fun via_into :: "resolve_via_arg \<Rightarrow> resolve_via" where
  "via_into ViaArgAuto = ViaAuto"
| "via_into ViaArgTunnel = ViaTunnel"
| "via_into ViaArgSystem = ViaSystem"

record forward_options =
  fo_target :: ustr
  fo_resolve :: resolve_via_arg
  fo_dns_servers :: "socket_addr list"
  fo_dns_timeout :: duration
  fo_listen :: socket_addr
  fo_ca_certificates :: "ustr list"
  fo_connect_timeout :: duration

definition forward_dns_config :: "forward_options \<Rightarrow> ip_addr list \<Rightarrow> bool option \<Rightarrow> resolver_config result" where
  "forward_dns_config args configured auto_tunnel =
     (let include_session = (fo_dns_servers args = [] \<and> configured = [] \<and> auto_tunnel = None);
          servers = (if fo_dns_servers args = [] then map (\<lambda>a. \<lparr>sa_ip = a, sa_port = 53\<rparr>) configured else fo_dns_servers args);
          mode = (case (fo_resolve args, auto_tunnel) of
                    (ViaArgAuto, Some tunnel) \<Rightarrow> if tunnel \<and> servers \<noteq> [] then ViaTunnel else ViaSystem
                  | (m, _) \<Rightarrow> via_into m)
      in rmap (with_session_servers include_session) (resolver_config_new mode servers (fo_dns_timeout args)))"

definition build_forward_config_with_route ::
  "addr_text \<Rightarrow> forward_lib \<Rightarrow> (ustr list \<Rightarrow> 'tls result) \<Rightarrow> forward_options \<Rightarrow> ip_addr list \<Rightarrow> bool option \<Rightarrow> 'tls forward_config result" where
  "build_forward_config_with_route T F build_tls args configured auto_tunnel =
     rbind (forward_dns_config args configured auto_tunnel) (\<lambda>dns.
     forward_config_new T F build_tls (fo_listen args) (fo_target args) dns (fo_ca_certificates args) (fo_connect_timeout args))"

definition build_forward_config ::
  "addr_text \<Rightarrow> forward_lib \<Rightarrow> (ustr list \<Rightarrow> 'tls result) \<Rightarrow> forward_options \<Rightarrow> ip_addr list \<Rightarrow> 'tls forward_config result" where
  "build_forward_config T F build_tls args configured = build_forward_config_with_route T F build_tls args configured None"

text \<open>The forward of a managed connection: names that the policy routes through the tunnel are resolved there.\<close>

definition managed_auto_tunnel :: "addr_text \<Rightarrow> forward_lib \<Rightarrow> effective_dns_policy \<Rightarrow> ustr \<Rightarrow> bool option" where
  "managed_auto_tunnel T F policy target =
     map_option (routes_through_tunnel policy)
       (opt_filter (\<lambda>h. at_parse T h = None) (opt_and_then (fl_url_parse F target) url_host))"

definition managed_forward_config ::
  "workflow_env \<Rightarrow> forward_lib \<Rightarrow> (ustr list \<Rightarrow> 'tls result) \<Rightarrow> prepared_connection \<Rightarrow> forward_options \<Rightarrow> dns_overrides \<Rightarrow>
     session_info \<Rightarrow> 'tls forward_config result" where
  "managed_forward_config W F build_tls prepared args profile_dns info =
     rbind (cc_dns_defaults (we_json W) (we_text W) (pc_service_type prepared = ControllerService) (pc_configuration prepared)) (\<lambda>defaults.
     rbind (resolve_policy defaults profile_dns (info_dns_servers info)) (\<lambda>policy.
     build_forward_config_with_route (we_text W) F build_tls args (map V4 (pol_servers policy))
       (managed_auto_tunnel (we_text W) F policy (fo_target args))))"

section \<open>IPv6 is captured\<close>

text \<open>The texts of the two halves of IPv6, as \<open>Ipv6Addr\<close> reads them.\<close>

definition capture_text_ok :: "addr_text \<Rightarrow> bool" where
  "capture_text_ok T \<longleftrightarrow> at_parse T (ascii_str ''::'') = Some (V6 0) \<and> at_parse T (ascii_str ''8000::'') = Some (V6 (2 ^ 127))"

lemma capture_halves:
  assumes "capture_text_ok T"
  shows "\<exists>a b. parse_allow_default T (ascii_str ''::/1'') = Ok a \<and> parse_allow_default T (ascii_str ''8000::/1'') = Ok b \<and>
    covers a \<union> covers b = {x. \<not> is_ipv4 x}"
proof -
  let ?a = "\<lparr>network = V6 0, prefix = 1\<rparr>" and ?b = "\<lparr>network = V6 (2 ^ 127), prefix = 1\<rparr>"
  have one: "parse_uint 256 [0x31] = Some 1" by (simp add: parse_uint_def dec_value_def is_digit_def)
  have s: "split_once SLASH (ascii_str ''::/1'') = Some (ascii_str ''::'', [0x31])"
    "split_once SLASH (ascii_str ''8000::/1'') = Some (ascii_str ''8000::'', [0x31])"
    by (simp_all add: split_once_def ascii_str_def)
  have p: "parse_allow_default T (ascii_str ''::/1'') = Ok ?a" "parse_allow_default T (ascii_str ''8000::/1'') = Ok ?b"
    using assms by (simp_all add: parse_allow_default_def s one capture_text_ok_def addr_bits_def word_network_def mask_eq_exp_minus_1)
  let ?all = "\<lparr>network = V6 0, prefix = 0\<rparr>"
  have ok: "route_ok ?all" by (simp add: route_ok_def word_network_def)
  moreover have "route_split ?all = Some (?a, ?b)" by (simp add: route_split_def addr_bits_def word_sibling_def)
  ultimately have "covers ?all = covers ?a \<union> covers ?b" by (rule route_split_covers(1))
  moreover have "covers ?all = {x. \<not> is_ipv4 x}" using default_route_covers [OF ok] by (auto simp: in_covers_iff)
  ultimately show ?thesis using p by (intro exI [of _ ?a] exI [of _ ?b]) simp
qed

lemma capture_routes_target:
  assumes "capture_text_ok T" "a \<notin> {x. is_ipv4 x}"
  shows "a \<in> targets T resolver (append_ipv6_capture_routes routes True @ extra) addresses domains"
proof -
  obtain r q where r: "parse_allow_default T (ascii_str ''::/1'') = Ok r" "parse_allow_default T (ascii_str ''8000::/1'') = Ok q"
    "covers r \<union> covers q = {x. \<not> is_ipv4 x}"
    using capture_halves [OF assms(1)] by blast
  have "str_trim (ascii_str ''::/1'') = ascii_str ''::/1''" "str_trim (ascii_str ''8000::/1'') = ascii_str ''8000::/1''"
    by (simp_all add: str_trim_def is_whitespace_def ascii_str_def)
  moreover have "a \<in> covers r \<or> a \<in> covers q" using r(3) assms(2) by auto
  ultimately show ?thesis using r(1,2) by (auto simp: targets_def append_ipv6_capture_routes_def)
qed

text \<open>With the block, every IPv6 address that is neither excluded nor the peer is routed into the tunnel.\<close>

lemma ipv6_captured:
  assumes "addr_text_ok T" "capture_text_ok T"
    and "resolve_route_policy T resolver (append_ipv6_capture_routes routes True @ extra) addresses domains exclusions pr full = Ok out"
  shows "\<exists>rs. out = map (route_to_string T) rs \<and> {a. \<not> is_ipv4 a} - targets T resolver exclusions [] [] - {pr} \<subseteq> covered rs"
proof -
  obtain rs where rs: "out = map (route_to_string T) rs"
    "covered rs = ((if full then {a. is_ipv4 a} else {}) \<union>
        targets T resolver (append_ipv6_capture_routes routes True @ extra) addresses domains) - targets T resolver exclusions [] [] - {pr}"
    using route_policy_covered [OF assms(1,3)] by metis
  then show ?thesis using capture_routes_target [OF assms(2)] by blast
qed

text \<open>What a direct connection excludes is IPv4.\<close>

lemma str_trim_all: "(\<And>c. c \<in> set v \<Longrightarrow> \<not> is_whitespace c) \<Longrightarrow> str_trim v = v"
  unfolding str_trim_def by (metis dropWhile_eq_self_iff hd_in_set rev_rev_ident set_rev)

lemma ipv4_display_trim: "c \<in> set (ipv4_display a) \<Longrightarrow> \<not> is_whitespace c"
proof -
  assume c: "c \<in> set (ipv4_display a)"
  obtain p q r s where "ipv4_octets a = [p, q, r, s]" using octets_split .
  then have "ipv4_display a = dec (unat p) @ 0x2e # dec (unat q) @ 0x2e # dec (unat r) @ 0x2e # dec (unat s)"
    by (simp add: ipv4_display_def)
  with c show ?thesis using dec_char [of c] by (auto simp: is_whitespace_def is_digit_def)
qed

lemma host_cidr_ipv4:
  assumes "addr_text_ok T"
  shows "parse_allow_default T (str_trim (host_cidr T (V4 a))) = Ok \<lparr>network = V4 a, prefix = 32\<rparr>"
proof -
  let ?r = "\<lparr>network = V4 a, prefix = 32\<rparr>"
  have "\<not> is_whitespace c" if "c \<in> set (host_cidr T (V4 a))" for c
    using that assms ipv4_display_trim [of c a] dec_char [of c 32]
    by (auto simp: host_cidr_def addr_text_ok_def is_whitespace_def is_digit_def)
  then have "str_trim (host_cidr T (V4 a)) = host_cidr T (V4 a)" by (rule str_trim_all)
  moreover have "host_cidr T (V4 a) = route_to_string T ?r" by (simp add: host_cidr_def route_to_string_def)
  moreover have "route_ok ?r" using network_address_full [of "V4 a"] by (simp add: route_ok_def addr_bits_def)
  ultimately show ?thesis using parse_route_to_string [OF assms, of ?r] by simp
qed

lemma base_exclusion_ipv4:
  assumes "addr_text_ok T" "v \<in> set base_full_ipv4_exclusions"
  shows "\<exists>a p. parse_allow_default T (str_trim v) = Ok \<lparr>network = V4 a, prefix = p\<rparr>"
proof -
  have trim: "str_trim u = u" if "u \<in> set base_full_ipv4_exclusions" for u
    using that by (auto simp: base_full_ipv4_exclusions_def str_trim_def ascii_str_def is_whitespace_def)
  have show_eq: "base_full_ipv4_exclusions = map (\<lambda>(a, p). ipv4_display a @ [SLASH] @ dec p) [(0xa9fe0000, 16), (0xe0000000, 4), (0x7f000000, 8)]"
    by code_simp
  obtain a p where v: "v = ipv4_display a @ [SLASH] @ dec p" "(a, p) \<in> {(0xa9fe0000, 16), (0xe0000000, 4), (0x7f000000, 8)}"
    using assms(2) unfolding show_eq by auto
  have "v = route_to_string T \<lparr>network = V4 a, prefix = p\<rparr>" using v(1) assms(1) by (simp add: addr_text_ok_def route_to_string_def)
  moreover have "route_ok \<lparr>network = V4 a, prefix = p\<rparr>"
    using v(2) by (auto simp: route_ok_def word_network_def addr_bits_def mask_eq_exp_minus_1)
  ultimately show ?thesis using parse_route_to_string [OF assms(1)] trim [OF assms(2)] by metis
qed

lemma direct_exclusions_ipv4:
  assumes "addr_text_ok T"
    and "v \<in> set (resolver_exclusions T policy physical True @ (if full then base_full_ipv4_exclusions else []))"
  shows "\<exists>a p. parse_allow_default T (str_trim v) = Ok \<lparr>network = V4 a, prefix = p\<rparr>"
proof (cases "v \<in> set base_full_ipv4_exclusions")
  case True
  then show ?thesis by (rule base_exclusion_ipv4 [OF assms(1)])
next
  case False
  with assms(2) have "v \<in> set (resolver_exclusions T policy physical True)" by (auto split: if_split_asm)
  then have "\<exists>r :: physical_resolver. v = host_cidr T (sa_ip (pr_address r)) \<and> is_ipv4 (sa_ip (pr_address r))"
    unfolding resolver_exclusions_def by (auto split: if_split_asm)
  then obtain r :: physical_resolver where "v = host_cidr T (sa_ip (pr_address r))" "is_ipv4 (sa_ip (pr_address r))" by blast
  then show ?thesis using host_cidr_ipv4 [OF assms(1)] by (cases "sa_ip (pr_address r)") auto
qed

lemma targets_ipv4:
  assumes "\<And>v. v \<in> set cidrs \<Longrightarrow> \<exists>a p. parse_allow_default T (str_trim v) = Ok \<lparr>network = V4 a, prefix = p\<rparr>"
  shows "targets T resolver cidrs [] [] \<subseteq> {a. is_ipv4 a}"
  using assms by (fastforce simp: targets_def in_covers_iff)

section \<open>Properties\<close>

text \<open>C39 (IPv6 is blocked). When a direct connection blocks IPv6, its routes lead every IPv6 address but the server's own into the
  tunnel, nothing the interface reads from the device is an IPv6 packet, the first other outcome is what is read, and
  every IPv6 packet written is swallowed, reported as written in full.\<close>

theorem ipv6_blocked:
  assumes "addr_text_ok T" "capture_text_ok T"
    and "direct_plan T resolver discover_physical args dns_args info = Ok plan" "plan_block_ipv6 plan"
  shows "(\<exists>rs. plan_routes plan = map (route_to_string T) rs \<and> {a. \<not> is_ipv4 a} - {sa_ip (peer info)} \<subseteq> covered rs) \<and>
    v6_read_packet (plan_block_ipv6 plan) reads =
      (case dropWhile (\<lambda>r. \<exists>p. r = Inr p \<and> is_ipv6_packet p) reads of [] \<Rightarrow> None | r # rest \<Rightarrow> Some (r, rest)) \<and>
    v6_write_packet (plan_block_ipv6 plan) inner packet s =
      (if is_ipv6_packet packet then (Inr (length packet), s) else inner packet s)"
proof -
  let ?mode = "opt_unwrap_or UserCustom (ra_mode (rt_policy args))"
  obtain policy physical ips out where p: "plan_routes plan = out" "opt_unwrap_or False (ipv6_override (rt_policy args))"
    "resolve_route_policy T resolver (append_ipv6_capture_routes (rt_routes args) True @ []) ips (rt_route_domains args)
       (resolver_exclusions T policy physical True @ (if ?mode = UserAll then base_full_ipv4_exclusions else []))
       (sa_ip (peer info)) (?mode = UserAll) = Ok out"
    using assms(3,4) by (auto simp: direct_plan_def Let_def rbind_eq_Ok split: if_split_asm)
  obtain rs where rs: "out = map (route_to_string T) rs"
    "{a. \<not> is_ipv4 a} - targets T resolver (resolver_exclusions T policy physical True @ (if ?mode = UserAll then base_full_ipv4_exclusions else [])) [] [] -
       {sa_ip (peer info)} \<subseteq> covered rs"
    using ipv6_captured [OF assms(1,2) p(3)] by blast
  have "{a. \<not> is_ipv4 a} - {sa_ip (peer info)} \<subseteq> covered rs"
    using rs(2) targets_ipv4 [OF direct_exclusions_ipv4 [OF assms(1)]] by fast
  moreover have "v6_read_packet True reads =
      (case dropWhile (\<lambda>r. \<exists>p. r = Inr p \<and> is_ipv6_packet p) reads of [] \<Rightarrow> None | r # rest \<Rightarrow> Some (r, rest))"
    by (induction True reads rule: v6_read_packet.induct) simp_all
  ultimately show ?thesis using rs(1) p(1) assms(4) by (auto simp: v6_write_packet_def)
qed

text \<open>A printer and parser that know the two halves of IPv6 as well.\<close>

definition demo_capture_text :: addr_text where
  "demo_capture_text = demo_text\<lparr>at_parse := (at_parse demo_text)(ascii_str ''8000::'' := Some (V6 (2 ^ 127)))\<rparr>"

lemma demo_capture_text_ok: "addr_text_ok demo_capture_text" "capture_text_ok demo_capture_text"
proof -
  have "at_show demo_text a \<noteq> ascii_str ''8000::''" for a
  proof (cases a)
    case (V4 x)
    have "0x3a \<notin> set (ipv4_display x)"
    proof -
      obtain p q r s where "ipv4_octets x = [p, q, r, s]" using octets_split .
      then show ?thesis using dec_char [of "0x3a"] by (auto simp: ipv4_display_def is_digit_def)
    qed
    then show ?thesis using V4 by (auto simp: demo_text_def ascii_str_def)
  next
    case (V6 x)
    have "length (at_show demo_text a) = 128" by (simp add: demo_text_def V6)
    moreover have "length (ascii_str ''8000::'') = 6" by (simp add: ascii_str_def)
    ultimately show ?thesis by auto
  qed
  then show "addr_text_ok demo_capture_text" using demo_text_ok by (simp add: addr_text_ok_def demo_capture_text_def)
  have "at_parse demo_text (ascii_str ''::'') = Some (V6 0)" by code_simp
  then show "capture_text_ok demo_capture_text" by (simp add: capture_text_ok_def demo_capture_text_def ascii_str_def)
qed

definition demo_route_args :: route_args where
  "demo_route_args = \<lparr>rt_policy = \<lparr>ra_mode = None, ra_block_ipv6 = True, ra_allow_ipv6 = False\<rparr>, rt_routes = [], rt_route_ips = [], rt_route_domains = []\<rparr>"

section \<open>Hexadecimal input\<close>

lemma hex_nibble_digit: "n < 16 \<Longrightarrow> hex_nibble (of_nat (hex_digit n)) = Some n"
  by (simp add: numeral_nat less_Suc_eq) (elim disjE; simp add: hex_nibble_def hex_digit_def)

lemma hex_digit_plain: "n < 16 \<Longrightarrow> \<not> is_continuation (of_nat (hex_digit n)) \<and> (of_nat (hex_digit n) :: u8) \<noteq> 0x2b"
  by (simp add: numeral_nat less_Suc_eq) (elim disjE; simp add: is_continuation_def hex_digit_def)

lemma hex_pairs_lower: "hex_pairs (map of_nat (hex_lower bs)) = Some (Ok bs)"
proof (induction bs)
  case (Cons b bs)
  have lt: "unat b div 16 < 16" "unat b mod 16 < 16" using unsigned_less [of b, where 'a = nat] by simp_all
  have "radix_pair (of_nat (hex_digit (unat b div 16))) (of_nat (hex_digit (unat b mod 16))) = Some b"
    using lt by (simp add: radix_pair_def hex_nibble_digit hex_digit_plain)
  moreover have "rest = [] \<or> \<not> is_continuation (hd rest)" if "rest = map of_nat (hex_lower bs)" for rest
    using that hex_digit_plain unsigned_less [of "hd bs", where 'a = nat] by (cases bs) (simp_all add: hex_lower_def)
  ultimately show ?case using Cons hex_digit_plain [OF lt(1)] by (auto simp: hex_lower_def)
qed (simp add: hex_lower_def)

lemma hex_pairs_ascii: "list_all (\<lambda>b. b < 0x80) bs \<Longrightarrow> hex_pairs bs \<noteq> None"
proof (induction bs rule: hex_pairs.induct)
  case (1 a b rest)
  then have "\<not> is_continuation a" "rest \<noteq> [] \<longrightarrow> \<not> is_continuation (hd rest)" by (cases rest; force simp: is_continuation_def)+
  with 1 show ?case by (auto split: option.splits)
qed auto

lemma decode_hex_encoded: "compact_hex v = encode_hex bs \<Longrightarrow> decode_hex v = Some (Ok bs)"
  using hex_pairs_lower [of bs] by (simp add: decode_hex_def encode_hex_def utf8_hex_lower)

lemma header_encode_not_sr: "packet_type h \<noteq> SegmentRouting \<Longrightarrow> hd (header_encode h @ bs) \<noteq> packet_type_code SegmentRouting"
  by (cases "packet_type h") (simp_all add: header_encode_def)

text \<open>(decoding shows what was sent). The decoder shows an OPEN written in hexadecimal as what it is, whatever white space, colons and
  hyphens separate the digits: its header, that it is signed, and exactly the attributes it was built with, in
  order.\<close>

theorem decode_command_shows_open:
  assumes "prims_ok P" "length username \<le> 253" "build_open P username password mtu enc link nonce = Ok datagram"
    and "compact_hex v = encode_hex datagram"
  shows "\<exists>ts. open_attributes P username password mtu enc link nonce = Ok ts \<and>
    decode_command P v = Some (Ok (ReportAttributes (header_new Open enc 0 0) True ts))"
proof -
  obtain ts where ts: "open_attributes P username password mtu enc link nonce = Ok ts"
    "decode_packet P datagram = Ok \<lparr>header = header_new Open enc 0 0,
       signature = Some (calculate_signature P (header_new Open enc 0 0)), body = tlvs_bytes ts\<rparr>"
    "parse_complete (tlvs_bytes ts) = Ok ts"
    using build_open_decodes [OF assms(2,1), of password mtu enc link nonce] assms(3) by auto
  have "hd datagram \<noteq> packet_type_code SegmentRouting"
    using assms(3) header_encode_not_sr [of "header_new Open enc 0 0"]
    by (auto simp: build_open_def encode_control_def rbind_eq_Ok header_new_def)
  then show ?thesis
    using ts parse_complete_sound(3) [OF ts(3)]
    by (simp add: decode_command_def decode_hex_encoded [OF assms(4)] decode_report_def rmap_def header_new_def)
qed

theorem decode_command_shows_open_witness:
  "\<exists>datagram ts. build_open demo_prims [0x75] [0x70] 1400 Xor None None = Ok datagram \<and>
     decode_command demo_prims (encode_hex datagram) = Some (Ok (ReportAttributes (header_new Open Xor 0 0) True ts)) \<and> length ts = 4"
proof -
  have l: "length [0x75 :: nat] \<le> 253" by simp
  obtain datagram where d: "build_open demo_prims [0x75] [0x70] 1400 Xor None None = Ok datagram"
    using build_open_decodes [OF l prims_ok_demo] by blast
  have "compact_hex (encode_hex bs) = encode_hex bs" for bs
    using hex_lower_ascii [of _ bs] by (force simp: compact_hex_def encode_hex_def filter_id_conv is_ascii_whitespace_def is_digit_def)
  from decode_command_shows_open [OF prims_ok_demo l d this] d show ?thesis
    by (auto simp: open_attributes_def tlv_username_def tlv_new_def)
qed

text \<open>(hexadecimal input that panics). Only input beyond ASCII makes the decoder panic, and some does: the slice of two bytes may cut a
  character in two.\<close>

theorem decode_hex_panics:
  "decode_hex [0x61, 0xe9, 0x62] = None \<and> {v. decode_hex v = None} \<subseteq> {v. \<not> list_all (\<lambda>c. c < 0x80) v}"
proof -
  have "decode_hex v \<noteq> None" if "list_all (\<lambda>c. c < 0x80) v" for v
  proof -
    have "list_all (\<lambda>c. c < 0x80) (compact_hex v)" using that by (auto simp: compact_hex_def list_all_iff)
    then have "list_all (\<lambda>b :: u8. b < 0x80) (utf8_bytes (compact_hex v))"
      by (auto simp: ascii_utf8 list_all_iff word_less_nat_alt unat_of_nat)
    then show ?thesis using hex_pairs_ascii by (auto simp: decode_hex_def Let_def)
  qed
  moreover have "decode_hex [0x61, 0xe9, 0x62] = None" by code_simp
  ultimately show ?thesis by blast
qed

lemma demo_direct_policy:
  "\<exists>p. resolve_policy dns_defaults_default (applied_to dns_args_default dns_overrides_default) [] = Ok p \<and> pol_servers p = []"
proof -
  have "normalize_names [DEFAULT_DOH_CANARY] = Ok [DEFAULT_DOH_CANARY]"
    using canary_valid by (simp add: normalize_names_def dedup_def Let_def)
  then show ?thesis
    by (auto simp: applied_to_def dns_args_default_def with_servers_def with_split_domains_def with_doh_hosts_def resolve_policy_def
        overrides_validate_def dns_defaults_default_def dns_overrides_default_def unwrap_or_def resolve_domains_def
        resolve_server_dns_def dedup_def Let_def List.map_filter_simps)
qed

theorem ipv6_blocked_witness:
  "\<exists>plan rs. direct_plan demo_capture_text (\<lambda>_. Inr []) (Ok []) demo_route_args dns_args_default demo_info = Ok plan \<and>
     plan_routes plan = map (route_to_string demo_capture_text) rs \<and> {a. \<not> is_ipv4 a} \<subseteq> covered rs"
proof -
  obtain p where p: "resolve_policy dns_defaults_default (applied_to dns_args_default dns_overrides_default) [] = Ok p" "pol_servers p = []"
    using demo_direct_policy by blast
  obtain a b where ab: "parse_allow_default demo_capture_text (ascii_str ''::/1'') = Ok a" "parse_allow_default demo_capture_text (ascii_str ''8000::/1'') = Ok b"
    using capture_halves [OF demo_capture_text_ok(2)] by blast
  have trim: "str_trim (ascii_str ''::/1'') = ascii_str ''::/1''" "str_trim (ascii_str ''8000::/1'') = ascii_str ''8000::/1''"
    by (simp_all add: str_trim_def is_whitespace_def ascii_str_def)
  have none: "resolver_exclusions T policy [] b = []" for T policy b by (simp add: resolver_exclusions_def)
  have d: "ov_split_mode (applied_to dns_args_default dns_overrides_default) = None" by code_simp
  have "info_dns_servers demo_info = []" "sa_ip (peer demo_info) = V4 1" by (simp_all add: demo_info_def)
  with p ab trim d obtain plan where plan: "direct_plan demo_capture_text (\<lambda>_. Inr []) (Ok []) demo_route_args dns_args_default demo_info = Ok plan"
    "plan_block_ipv6 plan"
    by (simp add: direct_plan_def demo_route_args_def ipv6_override_def none append_ipv6_capture_routes_def
        resolve_route_policy_def collect_route_targets_def Let_def)
  from ipv6_blocked [OF demo_capture_text_ok plan, THEN conjunct1] obtain rs where
    rs: "plan_routes plan = map (route_to_string demo_capture_text) rs" "{a. \<not> is_ipv4 a} - {sa_ip (peer demo_info)} \<subseteq> covered rs" by blast
  have "{a. \<not> is_ipv4 a} \<subseteq> covered rs" using rs(2) by (auto simp: demo_info_def)
  with plan(1) rs(1) show ?thesis by blast
qed

section \<open>Names of a managed forward\<close>

lemma managed_forward_config_OkD:
  assumes "managed_forward_config W F build_tls prepared args profile_dns info = Ok c"
  shows "\<exists>defaults policy dns. cc_dns_defaults (we_json W) (we_text W) (pc_service_type prepared = ControllerService) (pc_configuration prepared) = Ok defaults \<and>
    resolve_policy defaults profile_dns (info_dns_servers info) = Ok policy \<and>
    forward_dns_config args (map V4 (pol_servers policy)) (managed_auto_tunnel (we_text W) F policy (fo_target args)) = Ok dns \<and>
    fc_dns c = dns"
proof -
  obtain defaults policy dns where d: "cc_dns_defaults (we_json W) (we_text W) (pc_service_type prepared = ControllerService) (pc_configuration prepared) = Ok defaults"
    "resolve_policy defaults profile_dns (info_dns_servers info) = Ok policy"
    "forward_dns_config args (map V4 (pol_servers policy)) (managed_auto_tunnel (we_text W) F policy (fo_target args)) = Ok dns"
    "forward_config_new (we_text W) F build_tls (fo_listen args) (fo_target args) dns (fo_ca_certificates args) (fo_connect_timeout args) = Ok c"
    using assms by (auto simp: managed_forward_config_def build_forward_config_with_route_def rbind_eq_Ok)
  from d(4) have "fc_dns c = dns" by (auto simp: forward_config_new_def rbind_eq_Ok split: if_split_asm)
  with d show ?thesis by blast
qed

lemma system_ignores_tunnel:
  assumes "tc_dns_mode C = ViaSystem"
  shows "connector_resolve T C (E\<lparr>re_lookup := x, re_add_route := y\<rparr>) st = connector_resolve T C E st"
proof -
  have "resolve_uncached C (E\<lparr>re_lookup := x, re_add_route := y\<rparr>) route = resolve_uncached C E route" for route
    using assms by (auto simp: resolve_uncached_def resolve_system_dns_def Let_def split: sum.split)
  then show ?thesis by (auto simp: connector_resolve_def split: option.split)
qed

text \<open>C40 (names of a managed forward). Where the name of the target is resolved is what the user asked for, the tunnel or the
  host; without a choice, it is the tunnel if the policy of the connection routes that name through the tunnel and there is
  a resolver to ask, and else the host. These resolvers are those given on the command line, or else those of the
  policy, and never those of the session besides. In the tunnel, the answer of the host's resolver has no influence, even
  when no resolver in the tunnel answers; on the host, neither the resolvers nor the route in the tunnel have any.\<close>

theorem managed_forward_private:
  assumes "managed_forward_config W F build_tls prepared args profile_dns info = Ok c"
    and "opt_and_then (fl_url_parse F (fo_target args)) url_host = Some h" "at_parse (we_text W) h = None"
    and "build_tcp_connector info (fc_target c) (fc_dns c) (fc_connect_timeout c) = Some (C, st)"
  shows "\<exists>defaults policy.
    cc_dns_defaults (we_json W) (we_text W) (pc_service_type prepared = ControllerService) (pc_configuration prepared) = Ok defaults \<and>
    resolve_policy defaults profile_dns (info_dns_servers info) = Ok policy \<and>
    tc_dns_servers C = (if fo_dns_servers args = [] then map (\<lambda>s. \<lparr>sa_ip = V4 s, sa_port = 53\<rparr>) (pol_servers policy) else fo_dns_servers args) \<and>
    tc_dns_mode C =
      (case fo_resolve args of
         ViaArgTunnel \<Rightarrow> ViaTunnel
       | ViaArgSystem \<Rightarrow> ViaSystem
       | ViaArgAuto \<Rightarrow> if routes_through_tunnel policy h \<and> tc_dns_servers C \<noteq> [] then ViaTunnel else ViaSystem) \<and>
    (tc_dns_mode C = ViaTunnel \<longrightarrow> (\<forall>E st x. connector_resolve T C (E\<lparr>re_system := x\<rparr>) st = connector_resolve T C E st)) \<and>
    (tc_dns_mode C = ViaSystem \<longrightarrow>
      (\<forall>E st x y. connector_resolve T C (E\<lparr>re_lookup := x, re_add_route := y\<rparr>) st = connector_resolve T C E st))"
proof -
  obtain defaults policy dns where d: "cc_dns_defaults (we_json W) (we_text W) (pc_service_type prepared = ControllerService) (pc_configuration prepared) = Ok defaults"
    "resolve_policy defaults profile_dns (info_dns_servers info) = Ok policy"
    "forward_dns_config args (map V4 (pol_servers policy)) (managed_auto_tunnel (we_text W) F policy (fo_target args)) = Ok dns" "fc_dns c = dns"
    using managed_forward_config_OkD [OF assms(1)] by blast
  let ?servers = "if fo_dns_servers args = [] then map (\<lambda>s. \<lparr>sa_ip = V4 s, sa_port = 53\<rparr>) (pol_servers policy) else fo_dns_servers args"
  have auto: "managed_auto_tunnel (we_text W) F policy (fo_target args) = Some (routes_through_tunnel policy h)"
    using assms(2,3) by (simp add: managed_auto_tunnel_def opt_filter_def)
  have dns: "rcf_via dns =
      (case fo_resolve args of
         ViaArgTunnel \<Rightarrow> ViaTunnel
       | ViaArgSystem \<Rightarrow> ViaSystem
       | ViaArgAuto \<Rightarrow> if routes_through_tunnel policy h \<and> ?servers \<noteq> [] then ViaTunnel else ViaSystem)"
    "rcf_servers dns = ?servers" "\<not> rcf_include_session_servers dns"
    using d(3) by (auto simp: forward_dns_config_def auto with_session_servers_def resolver_config_new_def rmap_def rbind_eq_Ok Let_def comp_def
        split: resolve_via_arg.split)
  have C: "tc_dns_servers C = ?servers" "tc_dns_mode C = rcf_via dns"
    using assms(4) dns(2,3) by (auto simp: build_tcp_connector_def d(4))
  have "tc_dns_mode C = ViaTunnel \<longrightarrow> (\<forall>E st x. connector_resolve T C (E\<lparr>re_system := x\<rparr>) st = connector_resolve T C E st)"
    by (auto simp: connector_ignores_host system_allowed_def)
  with d(1,2) C dns(1) show ?thesis
    by (intro exI [of _ defaults] exI [of _ policy]) (auto simp: system_ignores_tunnel split: resolve_via_arg.split)
qed

definition demo_policy_env :: workflow_env where
  "demo_policy_env = demo_login_env\<lparr>we_net := (we_net demo_login_env)\<lparr>le_json := demo_json_lib\<rparr>\<rparr>"

definition demo_policy_prepared :: prepared_connection where
  "demo_policy_prepared = \<lparr>pc_domain = [], pc_ingress = SelIwan demo_line_server 0, pc_configuration = config_from_raw (JObject []),
     pc_service_type = ControllerService, pc_credentials = \<lparr>con_username = [], con_password = []\<rparr>\<rparr>"

definition demo_forward_options :: forward_options where
  "demo_forward_options = \<lparr>fo_target = ascii_str ''tcp://h.h.h.h:22'', fo_resolve = ViaArgAuto, fo_dns_servers = [\<lparr>sa_ip = V4 9, sa_port = 53\<rparr>],
     fo_dns_timeout = 1000, fo_listen = \<lparr>sa_ip = V4 0x7f000001, sa_port = 8022\<rparr>, fo_ca_certificates = [], fo_connect_timeout = 1000\<rparr>"

abbreviation demo_addressed_info :: session_info where
  "demo_addressed_info \<equiv> demo_info\<lparr>info_address := Some (V4 5)\<rparr>"

lemma demo_default_policy:
  "\<exists>d p. cc_dns_defaults demo_json_lib demo_text True (config_from_raw (JObject [])) = Ok d \<and> resolve_policy d dns_overrides_default [] = Ok p"
proof -
  have "normalize_names [DEFAULT_DOH_CANARY] = Ok [DEFAULT_DOH_CANARY]"
    using canary_valid by (simp add: normalize_names_def dedup_def Let_def)
  then show ?thesis
    by (simp add: cc_dns_defaults_def domainfilter_section_def dns_section_def routing_section_def config_from_raw_def
        json_get_def obj_get_def dns_defaults_default_def resolve_policy_def overrides_validate_def dns_overrides_default_def
        unwrap_or_def Let_def split: prod.split)
qed

theorem managed_forward_private_witness:
  "\<exists>c C st. managed_forward_config demo_policy_env demo_forward_lib (\<lambda>_. Ok ()) demo_policy_prepared demo_forward_options dns_overrides_default
       demo_addressed_info = Ok c \<and>
     build_tcp_connector demo_addressed_info (fc_target c) (fc_dns c) (fc_connect_timeout c) = Some (C, st) \<and>
     tc_dns_servers C = [\<lparr>sa_ip = V4 9, sa_port = 53\<rparr>]"
proof -
  obtain d p where p: "cc_dns_defaults demo_json_lib demo_text True (config_from_raw (JObject [])) = Ok d" "resolve_policy d dns_overrides_default [] = Ok p"
    using demo_default_policy by blast
  let ?args = demo_forward_options
  have host: "opt_and_then (fl_url_parse demo_forward_lib (fo_target ?args)) url_host = Some (ascii_str ''h.h.h.h'')"
    by (simp add: demo_forward_lib_def opt_and_then_def)
  have name: "at_parse demo_text (ascii_str ''h.h.h.h'') = None" by code_simp
  have env: "we_text demo_policy_env = demo_text" "we_json demo_policy_env = demo_json_lib"
    by (simp_all add: demo_policy_env_def demo_login_env_def)
  let ?dns = "\<lparr>rcf_via = (if routes_through_tunnel p (ascii_str ''h.h.h.h'') then ViaTunnel else ViaSystem),
     rcf_servers = [\<lparr>sa_ip = V4 9, sa_port = 53\<rparr>], rcf_include_session_servers = False, rcf_timeout = 1000\<rparr>"
  have auto: "managed_auto_tunnel demo_text demo_forward_lib p (fo_target ?args) = Some (routes_through_tunnel p (ascii_str ''h.h.h.h''))"
    by (simp add: managed_auto_tunnel_def host name opt_filter_def)
  have dns: "forward_dns_config ?args servers (managed_auto_tunnel demo_text demo_forward_lib p (fo_target ?args)) = Ok ?dns" for servers
    unfolding auto by (simp add: forward_dns_config_def demo_forward_options_def resolver_config_new_def
        resolver_config_validate_def with_session_servers_def rmap_def v4_is_multicast_def)
  have "resolver_config_validate ?dns = Ok ()" by (simp add: resolver_config_validate_def v4_is_multicast_def)
  from demo_forward_config [OF this] obtain c where c: "forward_config_new demo_text demo_forward_lib (\<lambda>_. Ok ())
      (fo_listen ?args) (fo_target ?args) ?dns (fo_ca_certificates ?args) (fo_connect_timeout ?args) = Ok c"
    by (auto simp: demo_forward_options_def)
  have "info_dns_servers demo_addressed_info = []" by (simp add: demo_info_def)
  with p dns c have m: "managed_forward_config demo_policy_env demo_forward_lib (\<lambda>_. Ok ()) demo_policy_prepared ?args dns_overrides_default
      demo_addressed_info = Ok c"
    by (simp add: managed_forward_config_def env demo_policy_prepared_def build_forward_config_with_route_def)
  obtain C st where C: "build_tcp_connector demo_addressed_info (fc_target c) (fc_dns c) (fc_connect_timeout c) = Some (C, st)"
    by (auto simp: build_tcp_connector_def)
  have a: "fo_resolve ?args = ViaArgAuto" "fo_dns_servers ?args = [\<lparr>sa_ip = V4 9, sa_port = 53\<rparr>]" by (simp_all add: demo_forward_options_def)
  from managed_forward_private [OF m host name [folded env(1)] C] a m C show ?thesis by auto
qed

end
