(* ===== verification/Cli_Profiles.thy ===== *)
theory Cli_Profiles
  imports Cli_Routing
begin

text \<open>
  The profile commands and the saved logins of the command line program (\<open>src/bin/openiwan.rs\<close>). They work on the
  profiles of \<open>State_Store\<close> and the key store of \<open>Credentials\<close> at once: the state of a command is the process
  with its files, and the key store. The locale \<open>cli_world\<close> joins the laws of the two; the properties follow a login
  through its whole life: saved, found by the next command, removed with its profile.
\<close>

section \<open>Commands over files and keys\<close>

record ('s, 'k) cli_env =
  ce_fs :: "'s state_fs"
  ce_codec :: state_codec
  ce_text :: addr_text
  ce_dir :: ustr
  ce_pid :: nat
  ce_cred_codec :: cred_codec
  ce_keys :: "'k keyring"
  ce_device_random :: "bytes option"
  ce_id_random :: "bytes option"
  ce_generation_random :: "bytes option"

type_synonym ('s, 'k) cli_world_state = "(u64 \<times> 's) \<times> 'k"
type_synonym ('s, 'k, 'a) cli = "('s, 'k) cli_world_state \<Rightarrow> 'a result \<times> ('s, 'k) cli_world_state"

definition cbind :: "('s, 'k, 'a) cli \<Rightarrow> ('a \<Rightarrow> ('s, 'k, 'b) cli) \<Rightarrow> ('s, 'k, 'b) cli" where
  "cbind m f c = (case m c of (Inl e, c) \<Rightarrow> (Err e, c) | (Inr x, c) \<Rightarrow> f x c)"

definition cdone :: "'a result \<Rightarrow> ('s, 'k, 'a) cli" where
  "cdone r c = (r, c)"

definition on_files :: "('s, 'a) proc \<Rightarrow> ('s, 'k, 'a) cli" where
  "on_files m c = (case m (fst c) of (r, f) \<Rightarrow> (r, (f, snd c)))"

definition on_keys :: "('k \<Rightarrow> 'a result \<times> 'k) \<Rightarrow> ('s, 'k, 'a) cli" where
  "on_keys m c = (case m (snd c) of (r, k) \<Rightarrow> (r, (fst c, k)))"

definition store_load :: "('s, 'k) cli_env \<Rightarrow> ('s, 'k, cli_state) cli" where
  "store_load E = on_files (state_load (ce_fs E) (ce_codec E) (ce_text E) (ce_dir E))"

definition store_update :: "('s, 'k) cli_env \<Rightarrow> (cli_state \<Rightarrow> ('a \<times> cli_state) result) \<Rightarrow> ('s, 'k, 'a) cli" where
  "store_update E operation = on_files (state_update (ce_fs E) (ce_codec E) (ce_text E) (ce_dir E) (ce_pid E) operation)"

definition store_device_id :: "('s, 'k) cli_env \<Rightarrow> ('s, 'k, ustr) cli" where
  "store_device_id E = on_files (state_device_id (ce_fs E) (ce_codec E) (ce_text E) (ce_dir E) (ce_pid E) (ce_device_random E))"

definition login_load :: "('s, 'k) cli_env \<Rightarrow> ustr \<Rightarrow> ('s, 'k, stored_credential option) cli" where
  "login_load E account = on_keys (credential_load (ce_cred_codec E) (ce_keys E) account)"

definition login_save :: "('s, 'k) cli_env \<Rightarrow> ustr \<Rightarrow> stored_credential \<Rightarrow> ('s, 'k, unit) cli" where
  "login_save E account credential = on_keys (credential_save (ce_cred_codec E) (ce_keys E) (ce_generation_random E) account credential)"

definition login_delete :: "('s, 'k) cli_env \<Rightarrow> ustr \<Rightarrow> ('s, 'k, bool) cli" where
  "login_delete E account = on_keys (credential_delete (ce_cred_codec E) (ce_keys E) account)"

section \<open>The map of profiles\<close>

definition profile_not_found :: error where
  "profile_not_found = InvalidConfig ''profile not found: {name}''"

abbreviation no_default_profile :: error where
  "no_default_profile \<equiv> InvalidConfig ''no profile specified and no default profile is set''"

definition get_profile :: "cli_state \<Rightarrow> ustr \<Rightarrow> managed_profile result" where
  "get_profile st name = ok_or profile_not_found (map_of (st_profiles st) name)"

text \<open>Insertion into the ordered map, which replaces a value already there, and a change in place.\<close>

fun insert_profile :: "ustr \<Rightarrow> managed_profile \<Rightarrow> (ustr \<times> managed_profile) list \<Rightarrow> (ustr \<times> managed_profile) list" where
  "insert_profile n p [] = [(n, p)]"
| "insert_profile n p ((m, q) # ps) =
     (if n = m then (n, p) # ps
      else if ord_class.lexordp n m then (n, p) # (m, q) # ps else (m, q) # insert_profile n p ps)"

definition modify_profile :: "ustr \<Rightarrow> (managed_profile \<Rightarrow> ('a \<times> managed_profile) result) \<Rightarrow> cli_state \<Rightarrow> ('a \<times> cli_state) result" where
  "modify_profile name f st =
     rbind (get_profile st name) (\<lambda>p. rbind (f p) (\<lambda>(x, p').
     Ok (x, st\<lparr>st_profiles := map (\<lambda>(n, q). if n = name then (n, p') else (n, q)) (st_profiles st)\<rparr>)))"

section \<open>The context of a managed command\<close>

record managed_target =
  mt_profile :: "ustr option"
  mt_domain :: "ustr option"

record managed_context =
  ctx_profile_name :: "ustr option"
  ctx_domain :: ustr
  ctx_device_id :: ustr
  ctx_username :: "ustr option"
  ctx_line :: line_preference
  ctx_credential_id :: "ustr option"
  ctx_dns :: dns_overrides
  ctx_routing :: routing_overrides

definition target_profile_name :: "managed_target \<Rightarrow> cli_state \<Rightarrow> ustr option result" where
  "target_profile_name target persisted =
     (case mt_profile target of
        Some name \<Rightarrow> rbind (validate_profile_name name) (\<lambda>_. Ok (Some name))
      | None \<Rightarrow> Ok (if mt_domain target = None then st_default_profile persisted else None))"

definition context_profile :: "cli_state \<Rightarrow> ustr option \<Rightarrow> managed_profile option result" where
  "context_profile persisted name = (case name of None \<Rightarrow> Ok None | Some n \<Rightarrow> rmap Some (get_profile persisted n))"

definition make_context :: "ustr option \<Rightarrow> managed_profile option \<Rightarrow> ustr \<Rightarrow> ustr \<Rightarrow> managed_context" where
  "make_context name p domain device_id =
     \<lparr>ctx_profile_name = name, ctx_domain = domain, ctx_device_id = device_id,
      ctx_username = opt_and_then p prof_username,
      ctx_line = (case p of None \<Rightarrow> LineAuto | Some p \<Rightarrow> prof_line p),
      ctx_credential_id = opt_filter (\<lambda>i. i \<noteq> []) (map_option prof_credential_id p),
      ctx_dns = (case p of None \<Rightarrow> dns_overrides_default | Some p \<Rightarrow> prof_dns p),
      ctx_routing = (case p of None \<Rightarrow> routing_overrides_default | Some p \<Rightarrow> prof_routing p)\<rparr>"

definition resolve_managed_context :: "('s, 'k) cli_env \<Rightarrow> managed_target \<Rightarrow> bool \<Rightarrow> ('s, 'k, managed_context) cli" where
  "resolve_managed_context E target profile_required =
     cbind (store_load E) (\<lambda>persisted.
     cbind (cdone (target_profile_name target persisted)) (\<lambda>name.
     cbind (cdone (context_profile persisted name)) (\<lambda>p.
     if profile_required \<and> p = None then cdone (Err no_default_profile)
     else
     cbind (cdone (ok_or (InvalidConfig ''no domain specified and no default profile is set'')
       (case mt_domain target of Some d \<Rightarrow> Some d | None \<Rightarrow> map_option prof_domain p))) (\<lambda>domain.
     cbind (case p of Some p \<Rightarrow> cdone (Ok (prof_device_id p)) | None \<Rightarrow> store_device_id E) (\<lambda>device_id.
     cbind (cdone (validate_domain domain)) (\<lambda>_.
     if str_trim device_id = [] then cdone (Err (InvalidConfig ''device ID is empty''))
     else cdone (Ok (make_context name p domain device_id))))))))"

section \<open>Profile commands\<close>

datatype profile_dns_list_arg = ListServers | ListSplitDomains | ListDohHosts

record profile_routing_args =
  pr_overrides :: routing_override_args
  pr_unset_routing_mode :: bool
  pr_routes :: "ustr list"
  pr_unset_routes :: bool

record profile_set_args =
  ps_name :: ustr
  ps_domain :: "ustr option"
  ps_device_id :: "ustr option"
  ps_username :: "ustr option"
  ps_unset_username :: bool
  ps_line :: "line_preference option"
  ps_routing :: profile_routing_args
  ps_dns :: dns_override_args
  ps_reset_dns :: bool
  ps_unset_dns :: "profile_dns_list_arg list"

text \<open>Only routes are resolved here, so the resolver is never asked.\<close>

definition patch_profile_routing :: "addr_text \<Rightarrow> profile_routing_args \<Rightarrow> routing_overrides \<Rightarrow> routing_overrides result" where
  "patch_profile_routing T A t =
     (let t = (if pr_unset_routing_mode A then t\<lparr>ro_mode := None\<rparr>
               else case ra_mode (pr_overrides A) of Some m \<Rightarrow> t\<lparr>ro_mode := Some m\<rparr> | None \<Rightarrow> t)
      in
      rbind (if pr_unset_routes A then Ok (t\<lparr>ro_routes := []\<rparr>)
             else if pr_routes A \<noteq> []
             then rmap (\<lambda>routes. t\<lparr>ro_routes := routes\<rparr>) (resolve_route_targets T (\<lambda>_. Inr []) (pr_routes A) [] [] None)
             else Ok t) (\<lambda>t.
      Ok (case ipv6_override (pr_overrides A) of Some b \<Rightarrow> t\<lparr>ro_block_ipv6 := b\<rparr> | None \<Rightarrow> t)))"

definition authentication_changed :: "profile_set_args \<Rightarrow> managed_profile option \<Rightarrow> bool" where
  "authentication_changed A existing \<longleftrightarrow>
     (case existing of
        None \<Rightarrow> False
      | Some p \<Rightarrow>
          ps_domain A \<noteq> None \<and> ps_domain A \<noteq> Some (prof_domain p) \<or>
          ps_device_id A \<noteq> None \<and> ps_device_id A \<noteq> Some (prof_device_id p) \<or>
          ps_username A \<noteq> None \<and> ps_username A \<noteq> prof_username p \<or>
          ps_unset_username A \<and> prof_username p \<noteq> None)"

definition patch_profile_dns :: "profile_set_args \<Rightarrow> dns_overrides \<Rightarrow> dns_overrides" where
  "patch_profile_dns A t0 =
     (let t = patch_profile (ps_dns A) (if ps_reset_dns A then dns_overrides_default else t0);
          t = (if ListServers \<in> set (ps_unset_dns A) then t\<lparr>ov_servers := None\<rparr> else t);
          t = (if ListSplitDomains \<in> set (ps_unset_dns A) then t\<lparr>ov_split_domains := None\<rparr> else t)
      in if ListDohHosts \<in> set (ps_unset_dns A) then t\<lparr>ov_doh_hosts := None\<rparr> else t)"

definition patch_identity :: "profile_set_args \<Rightarrow> managed_profile \<Rightarrow> managed_profile" where
  "patch_identity A p =
     (let p = (case ps_domain A of Some d \<Rightarrow> p\<lparr>prof_domain := d\<rparr> | None \<Rightarrow> p);
          p = (case ps_device_id A of Some d \<Rightarrow> p\<lparr>prof_device_id := d\<rparr> | None \<Rightarrow> p);
          p = (case ps_username A of
                 Some u \<Rightarrow> p\<lparr>prof_username := Some u\<rparr>
               | None \<Rightarrow> if ps_unset_username A then p\<lparr>prof_username := None\<rparr> else p)
      in case ps_line A of Some l \<Rightarrow> p\<lparr>prof_line := l\<rparr> | None \<Rightarrow> p)"

text \<open>The profile to change, or a new one; the error for a missing device ID stands for the \<open>expect\<close>.\<close>

definition profile_to_set :: "addr_text \<Rightarrow> profile_set_args \<Rightarrow> ustr option \<Rightarrow> cli_state \<Rightarrow> managed_profile result" where
  "profile_to_set T A generated persisted =
     (case map_of (st_profiles persisted) (ps_name A) of
        Some p \<Rightarrow> Ok p
      | None \<Rightarrow>
          rbind (ok_or (InvalidConfig ''--domain is required to create a profile'') (ps_domain A)) (\<lambda>domain.
          rbind (ok_or (InvalidConfig ''generated above for a new profile'')
                   (case ps_device_id A of Some d \<Rightarrow> Some d | None \<Rightarrow> generated)) (\<lambda>device_id.
          profile_new T domain device_id)))"

definition apply_profile_set ::
  "addr_text \<Rightarrow> profile_set_args \<Rightarrow> bool \<Rightarrow> ustr option \<Rightarrow> cli_state \<Rightarrow> (unit \<times> cli_state) result" where
  "apply_profile_set T A changed generated persisted =
     rbind (profile_to_set T A generated persisted) (\<lambda>p.
     let p = patch_identity A p in
     rbind (patch_profile_routing T (ps_routing A) (prof_routing p)) (\<lambda>r.
     let p = p\<lparr>prof_routing := r, prof_dns := patch_profile_dns A (prof_dns p)\<rparr>;
         p = (if changed then p\<lparr>prof_credential_id := []\<rparr> else p)
     in
     rbind (profile_validate T p) (\<lambda>_.
     let st = persisted\<lparr>st_profiles := insert_profile (ps_name A) p (st_profiles persisted)\<rparr> in
     Ok ((), if st_profiles persisted = [] \<and> st_default_profile persisted = None
             then st\<lparr>st_default_profile := Some (ps_name A)\<rparr> else st))))"

text \<open>The command on the profiles it has loaded. The error of the last lookup stands for the panic of indexing.\<close>

definition forget_login :: "('s, 'k) cli_env \<Rightarrow> bool \<Rightarrow> managed_profile option \<Rightarrow> ('s, 'k, unit) cli" where
  "forget_login E changed existing =
     (case opt_filter (\<lambda>i. i \<noteq> []) (map_option prof_credential_id existing) of
        None \<Rightarrow> cdone (Ok ())
      | Some i \<Rightarrow> if changed then cbind (login_delete E i) (\<lambda>_. cdone (Ok ())) else cdone (Ok ()))"

definition change_profile :: "('s, 'k) cli_env \<Rightarrow> profile_set_args \<Rightarrow> cli_state \<Rightarrow> ('s, 'k, managed_profile \<times> ustr option) cli" where
  "change_profile E A persisted =
     (let existing = map_of (st_profiles persisted) (ps_name A); changed = authentication_changed A existing in
      cbind (if existing = None \<and> ps_device_id A = None
             then cbind (store_device_id E) (\<lambda>i. cdone (Ok (Some i))) else cdone (Ok None)) (\<lambda>generated.
      cbind (forget_login E changed existing) (\<lambda>_.
      cbind (store_update E (apply_profile_set (ce_text E) A changed generated)) (\<lambda>_.
      cbind (store_load E) (\<lambda>persisted.
      cbind (cdone (get_profile persisted (ps_name A))) (\<lambda>p.
      cdone (Ok (p, st_default_profile persisted))))))))"

definition set_profile :: "('s, 'k) cli_env \<Rightarrow> profile_set_args \<Rightarrow> ('s, 'k, managed_profile \<times> ustr option) cli" where
  "set_profile E A = cbind (cdone (validate_profile_name (ps_name A))) (\<lambda>_. cbind (store_load E) (change_profile E A))"

definition use_operation :: "ustr \<Rightarrow> cli_state \<Rightarrow> (unit \<times> cli_state) result" where
  "use_operation name st =
     (if map_of (st_profiles st) name = None then Err profile_not_found else Ok ((), st\<lparr>st_default_profile := Some name\<rparr>))"

definition use_profile :: "('s, 'k) cli_env \<Rightarrow> ustr \<Rightarrow> ('s, 'k, unit) cli" where
  "use_profile E name = cbind (cdone (validate_profile_name name)) (\<lambda>_. store_update E (use_operation name))"

definition show_profile :: "('s, 'k) cli_env \<Rightarrow> ustr option \<Rightarrow> ('s, 'k, ustr \<times> managed_profile \<times> ustr option) cli" where
  "show_profile E name =
     cbind (store_load E) (\<lambda>persisted.
     cbind (cdone (ok_or no_default_profile (case name of Some n \<Rightarrow> Some n | None \<Rightarrow> st_default_profile persisted))) (\<lambda>n.
     cbind (cdone (get_profile persisted n)) (\<lambda>p. cdone (Ok (n, p, st_default_profile persisted)))))"

definition remove_operation :: "ustr \<Rightarrow> cli_state \<Rightarrow> (unit \<times> cli_state) result" where
  "remove_operation name st =
     (if map_of (st_profiles st) name = None then Err profile_not_found
      else let st = st\<lparr>st_profiles := AList.delete name (st_profiles st)\<rparr> in
        Ok ((), if st_default_profile st = Some name then st\<lparr>st_default_profile := None\<rparr> else st))"

definition remove_loaded :: "('s, 'k) cli_env \<Rightarrow> ustr \<Rightarrow> managed_profile \<Rightarrow> ('s, 'k, unit) cli" where
  "remove_loaded E name p =
     (if prof_credential_id p = [] then store_update E (remove_operation name)
      else cbind (login_delete E (prof_credential_id p)) (\<lambda>_. store_update E (remove_operation name)))"

definition remove_profile :: "('s, 'k) cli_env \<Rightarrow> ustr \<Rightarrow> ('s, 'k, unit) cli" where
  "remove_profile E name =
     cbind (cdone (validate_profile_name name)) (\<lambda>_.
     cbind (store_load E) (\<lambda>persisted.
     cbind (cdone (get_profile persisted name)) (remove_loaded E name)))"

definition logout_operation :: "ustr \<Rightarrow> cli_state \<Rightarrow> (unit \<times> cli_state) result" where
  "logout_operation name = modify_profile name (\<lambda>p. Ok ((), p\<lparr>prof_credential_id := []\<rparr>))"

definition logout_loaded :: "('s, 'k) cli_env \<Rightarrow> ustr \<Rightarrow> managed_profile \<Rightarrow> ('s, 'k, ustr \<times> bool) cli" where
  "logout_loaded E n p =
     (if prof_credential_id p = [] then cdone (Ok (n, False))
      else
      cbind (login_delete E (prof_credential_id p)) (\<lambda>removed.
      cbind (store_update E (logout_operation n)) (\<lambda>_. cdone (Ok (n, removed)))))"

definition logout_profile :: "('s, 'k) cli_env \<Rightarrow> ustr option \<Rightarrow> ('s, 'k, ustr \<times> bool) cli" where
  "logout_profile E name =
     cbind (store_load E) (\<lambda>persisted.
     cbind (cdone (ok_or no_default_profile (case name of Some n \<Rightarrow> Some n | None \<Rightarrow> st_default_profile persisted))) (\<lambda>n.
     cbind (cdone (validate_profile_name n)) (\<lambda>_.
     cbind (cdone (get_profile persisted n)) (logout_loaded E n))))"

section \<open>Saving a login\<close>

definition identifier_operation :: "bytes option \<Rightarrow> ustr \<Rightarrow> cli_state \<Rightarrow> (ustr \<times> cli_state) result" where
  "identifier_operation random name = modify_profile name (ensure_credential_id random)"

definition ensure_context_credential_id :: "('s, 'k) cli_env \<Rightarrow> managed_context \<Rightarrow> ('s, 'k, ustr \<times> managed_context) cli" where
  "ensure_context_credential_id E ctx =
     (case ctx_credential_id ctx of
        Some i \<Rightarrow> cdone (Ok (i, ctx))
      | None \<Rightarrow>
          cbind (cdone (ok_or no_default_profile (ctx_profile_name ctx))) (\<lambda>name.
          cbind (store_update E (identifier_operation (ce_id_random E) name)) (\<lambda>i.
          cdone (Ok (i, ctx\<lparr>ctx_credential_id := Some i\<rparr>)))))"

definition username_operation :: "ustr \<Rightarrow> ustr \<Rightarrow> cli_state \<Rightarrow> (unit \<times> cli_state) result" where
  "username_operation name username = modify_profile name (\<lambda>p. Ok ((), p\<lparr>prof_username := Some username\<rparr>))"

definition sync_profile_username :: "('s, 'k) cli_env \<Rightarrow> managed_context \<Rightarrow> ustr \<Rightarrow> ('s, 'k, managed_context) cli" where
  "sync_profile_username E ctx username =
     cbind (cdone (ok_or no_default_profile (ctx_profile_name ctx))) (\<lambda>name.
     cbind (store_update E (username_operation name username)) (\<lambda>_.
     cdone (Ok (ctx\<lparr>ctx_username := Some username\<rparr>))))"

definition persist_managed_credential ::
  "('s, 'k) cli_env \<Rightarrow> managed_context \<Rightarrow> ustr \<Rightarrow> stored_credential \<Rightarrow> ('s, 'k, managed_context) cli" where
  "persist_managed_credential E ctx username credential =
     cbind (ensure_context_credential_id E ctx) (\<lambda>(i, ctx).
     cbind (login_save E i credential) (\<lambda>_. sync_profile_username E ctx username))"

definition save_oidc_identity :: "('s, 'k) cli_env \<Rightarrow> ustr \<Rightarrow> oidc_identity \<Rightarrow> ('s, 'k, unit) cli" where
  "save_oidc_identity E account identity =
     (if id_refresh_token identity = []
      then cdone (Err (CredentialStore ''the identity provider did not issue a refresh token; this login cannot be saved''))
      else login_save E account (StoredOidc (id_refresh_token identity) (id_user_id identity) (id_username identity)))"

definition persist_oidc_identity :: "('s, 'k) cli_env \<Rightarrow> managed_context \<Rightarrow> oidc_identity \<Rightarrow> ('s, 'k, managed_context) cli" where
  "persist_oidc_identity E ctx identity =
     cbind (ensure_context_credential_id E ctx) (\<lambda>(i, ctx).
     cbind (save_oidc_identity E i identity) (\<lambda>_. sync_profile_username E ctx (id_username identity)))"

definition load_stored_credential :: "('s, 'k) cli_env \<Rightarrow> ustr option \<Rightarrow> ('s, 'k, stored_credential option) cli" where
  "load_stored_credential E account = (case account of None \<Rightarrow> cdone (Ok None) | Some i \<Rightarrow> login_load E i)"

section \<open>The laws of files and keys\<close>

definition cli_document :: "('s, 'k) cli_env \<Rightarrow> ('s \<Rightarrow> ustr \<Rightarrow> ustr option) \<Rightarrow> ('s, 'k) cli_world_state \<Rightarrow> cli_state result" where
  "cli_document E fview c = document (ce_codec E) (ce_text E) (fview (snd (fst c)) (state_path (ce_dir E)))"

lemma cbind_OkE:
  assumes "cbind m f c = (Ok y, c')"
  obtains x c1 where "m c = (Ok x, c1)" "f x c1 = (Ok y, c')"
  using assms by (cases "m c") (auto simp: cbind_def split: sum.splits)

lemma cdone_simps [simp]:
  "cdone r c = (r', c') \<longleftrightarrow> r = r' \<and> c = c'" "cbind (cdone (Ok x)) f = f x" "cbind (cdone (Err e)) f = cdone (Err e)"
  by (auto simp: cdone_def cbind_def fun_eq_iff)

lemma cbind_cdoneE:
  assumes "cbind (cdone r) f c = (Ok y, c')"
  obtains x where "r = Ok x" "f x c = (Ok y, c')"
  using assms by (cases r) auto

lemma modify_profile_OkD:
  assumes "modify_profile name f st = Ok (x, st')"
  shows "\<exists>p p'. map_of (st_profiles st) name = Some p \<and> f p = Ok (x, p') \<and>
    map_of (st_profiles st') = (map_of (st_profiles st))(name := Some p') \<and> st_default_profile st' = st_default_profile st \<and> st_device_id st' = st_device_id st"
proof -
  obtain p p' where p: "map_of (st_profiles st) name = Some p" "f p = Ok (x, p')"
    "st' = st\<lparr>st_profiles := map (\<lambda>(n, q). if n = name then (n, p') else (n, q)) (st_profiles st)\<rparr>"
    using assms by (auto simp: modify_profile_def get_profile_def rbind_eq_Ok ok_or_def split: option.splits)
  have "map_of (map (\<lambda>(n, q). if n = name then (n, p') else (n, q)) ps) n =
      (if n = name \<and> map_of ps n \<noteq> None then Some p' else map_of ps n)" for ps n
    by (induction ps) auto
  then show ?thesis using p by (auto simp: fun_eq_iff)
qed

lemma map_of_insert_profile: "map_of (insert_profile n p ps) = (map_of ps)(n := Some p)"
  by (induction ps) (auto simp: fun_eq_iff)

locale cli_world =
  fixes E :: "('s, 'k) cli_env" and fview :: "'s \<Rightarrow> ustr \<Rightarrow> ustr option" and kview :: "'k \<Rightarrow> ustr \<Rightarrow> bytes option"
  assumes files: "state_files (ce_fs E) fview" and keys: "lawful_keyring (ce_keys E) kview"
    and codec: "state_codec_ok (ce_codec E)" and secrets: "cred_codec_ok (ce_cred_codec E)"
begin

lemma store_load_view: "store_load E c = (r, c') \<Longrightarrow> fview (snd (fst c')) = fview (snd (fst c)) \<and> snd c' = snd c"
  using state_files.state_load_spec(1) [OF files, of "ce_codec E" "ce_text E" "ce_dir E" "fst c"]
  by (auto simp: store_load_def on_files_def split: prod.splits)

lemma store_load_Ok: "store_load E c = (Ok st, c') \<Longrightarrow> cli_document E fview c = Ok st"
  using state_files.state_load_spec(2) [OF files, of "ce_codec E" "ce_text E" "ce_dir E" "fst c"]
  by (auto simp: store_load_def on_files_def cli_document_def split: prod.splits)

lemma store_update_keys: "store_update E operation c = (r, c') \<Longrightarrow> snd c' = snd c"
  by (auto simp: store_update_def on_files_def split: prod.splits)

lemma store_update_Ok:
  assumes "store_update E operation c = (Ok x, c')"
  shows "\<exists>old new. cli_document E fview c = Ok old \<and> operation old = Ok (x, new) \<and> cli_document E fview c' = Ok new"
proof -
  obtain f where f: "state_update (ce_fs E) (ce_codec E) (ce_text E) (ce_dir E) (ce_pid E) operation (fst c) = (Ok x, f)" "c' = (f, snd c)"
    using assms by (auto simp: store_update_def on_files_def split: prod.splits)
  from tripleD [OF state_files.state_update_spec [OF files] f(1) refl] f(2) codec show ?thesis
    by (fastforce simp: updated_def cli_document_def document_def state_codec_ok_def)
qed

lemma store_update_Err:
  assumes "store_update E operation c = (Err e, c')"
  shows "fview (snd (fst c')) (state_path (ce_dir E)) = fview (snd (fst c)) (state_path (ce_dir E)) \<or>
    (\<exists>old x new. cli_document E fview c = Ok old \<and> operation old = Ok (x, new) \<and> cli_document E fview c' = Ok new)"
proof -
  obtain f where f: "state_update (ce_fs E) (ce_codec E) (ce_text E) (ce_dir E) (ce_pid E) operation (fst c) = (Err e, f)" "c' = (f, snd c)"
    using assms by (auto simp: store_update_def on_files_def split: prod.splits)
  from tripleD [OF state_files.state_update_spec [OF files] f(1) refl] f(2) codec show ?thesis
    by (fastforce simp: updated_def cli_document_def document_def state_codec_ok_def)
qed

text \<open>Finding the identity of the device leaves the profiles alone.\<close>

lemma store_device_id_Ok:
  assumes "store_device_id E c = (Ok i, c')"
  shows "snd c' = snd c \<and> (\<exists>old new. cli_document E fview c = Ok old \<and> cli_document E fview c' = Ok new \<and>
    st_profiles new = st_profiles old \<and> st_default_profile new = st_default_profile old)"
proof -
  have unfold: "store_device_id E = cbind (store_load E) (\<lambda>st. if st_device_id st \<noteq> [] then cdone (Ok (st_device_id st))
      else store_update E (assign_device_id (ce_device_random E)))"
    by (rule ext) (auto simp: store_device_id_def state_device_id_def store_load_def store_update_def on_files_def cbind_def pbind_def plift_def
        cdone_def split: prod.splits sum.splits)
  from assms obtain st c1 where 1: "store_load E c = (Ok st, c1)"
    and 2: "(if st_device_id st \<noteq> [] then cdone (Ok (st_device_id st)) else store_update E (assign_device_id (ce_device_random E))) c1 = (Ok i, c')"
    unfolding unfold by (rule cbind_OkE)
  have doc: "cli_document E fview c = Ok st" "cli_document E fview c1 = Ok st"
    using store_load_Ok [OF 1] store_load_view [OF 1] by (simp_all add: cli_document_def)
  show ?thesis
  proof (cases "st_device_id st = []")
    case True
    with 2 have u: "store_update E (assign_device_id (ce_device_random E)) c1 = (Ok i, c')" by simp
    from store_update_Ok [OF u] store_update_keys [OF u] store_load_view [OF 1] doc show ?thesis
      by (auto simp: assign_device_id_def rbind_eq_Ok split: if_splits)
  next
    case False
    then show ?thesis using 2 doc store_load_view [OF 1] by auto
  qed
qed

lemma resolve_context_Ok:
  assumes "resolve_managed_context E target required c = (Ok ctx, c')"
  shows "snd c' = snd c \<and> (\<exists>old new name p. cli_document E fview c = Ok old \<and> cli_document E fview c' = Ok new \<and>
    st_profiles new = st_profiles old \<and> st_default_profile new = st_default_profile old \<and>
    target_profile_name target old = Ok name \<and> context_profile old name = Ok p \<and> (required \<longrightarrow> p \<noteq> None) \<and>
    (\<exists>domain device_id. ctx = make_context name p domain device_id))"
  using assms unfolding resolve_managed_context_def
proof (elim cbind_OkE, goal_cases)
  case (1 st c1 name c2 p c3)
  then have doc: "cli_document E fview c = Ok st" "cli_document E fview c1 = Ok st" "snd c1 = snd c"
    using store_load_Ok [OF 1(1)] store_load_view [OF 1(1)] by (simp_all add: cli_document_def)
  have p: "\<not> (required \<and> p = None)" using 1 by (auto split: if_splits)
  with 1(4) have "cbind (cdone (ok_or (InvalidConfig ''no domain specified and no default profile is set'')
       (case mt_domain target of Some d \<Rightarrow> Some d | None \<Rightarrow> map_option prof_domain p))) (\<lambda>domain.
     cbind (case p of Some p \<Rightarrow> cdone (Ok (prof_device_id p)) | None \<Rightarrow> store_device_id E) (\<lambda>device_id.
     cbind (cdone (validate_domain domain)) (\<lambda>_.
     if str_trim device_id = [] then cdone (Err (InvalidConfig ''device ID is empty''))
     else cdone (Ok (make_context name p domain device_id))))) c3 = (Ok ctx, c')" by simp
  then obtain domain device_id where 2: "(case p of Some p \<Rightarrow> cdone (Ok (prof_device_id p)) | None \<Rightarrow> store_device_id E) c1 = (Ok device_id, c')"
    "ctx = make_context name p domain device_id"
    using 1(2,3) by (elim cbind_OkE) (auto split: if_splits intro: that)
  have "\<exists>new. cli_document E fview c' = Ok new \<and> st_profiles new = st_profiles st \<and> st_default_profile new = st_default_profile st \<and> snd c' = snd c1"
  proof (cases p)
    case None
    then show ?thesis using store_device_id_Ok [of c1 device_id c'] 2 doc by auto
  next
    case (Some q)
    then show ?thesis using 2 doc by auto
  qed
  then show ?case using 1(2,3) 2 doc p by auto
qed

end

text \<open>The world of the examples: files and a key store in memory.\<close>

definition demo_cli :: "(nat \<Rightarrow> bool) \<Rightarrow> (nat \<Rightarrow> bool) \<Rightarrow> state_codec \<Rightarrow> cred_codec \<Rightarrow> (mem_disk, mem_state) cli_env" where
  "demo_cli disk_faulty key_faulty C K =
     \<lparr>ce_fs = mem_disk_fs disk_faulty, ce_codec = C, ce_text = demo_text, ce_dir = demo_dir, ce_pid = 7, ce_cred_codec = K,
      ce_keys = sim_keyring key_faulty, ce_device_random = Some (replicate 16 0), ce_id_random = Some (replicate 16 0),
      ce_generation_random = Some demo_generation\<rparr>"

text \<open>A profile with a saved login, the same one logged out or given to another user, and a codec of the three documents.\<close>

definition demo_id32 :: ustr where
  "demo_id32 = hex_lower (replicate 16 0)"

definition demo_cli_profile :: managed_profile where
  "demo_cli_profile = \<lparr>prof_domain = [0x61], prof_device_id = [0x61], prof_username = Some [0x75], prof_line = LineAuto,
     prof_credential_id = demo_id32, prof_dns = dns_overrides_default, prof_routing = routing_overrides_default\<rparr>"

definition demo_cli_state :: cli_state where
  "demo_cli_state = \<lparr>st_version = 1, st_device_id = [], st_default_profile = Some [0x61], st_profiles = [([0x61], demo_cli_profile)]\<rparr>"

definition demo_out_state :: cli_state where
  "demo_out_state = demo_cli_state\<lparr>st_profiles := [([0x61], demo_cli_profile\<lparr>prof_credential_id := []\<rparr>)]\<rparr>"

definition demo_other_state :: cli_state where
  "demo_other_state = demo_cli_state\<lparr>st_profiles := [([0x61], demo_cli_profile\<lparr>prof_username := Some [0x62], prof_credential_id := []\<rparr>)]\<rparr>"

definition demo_states :: "cli_state set" where
  "demo_states = {demo_cli_state, demo_out_state, demo_other_state}"

definition demo_code :: "cli_state \<Rightarrow> ustr" where
  "demo_code st = (if st = demo_out_state then [2] else if st = demo_other_state then [3] else [1])"

definition demo_profile_codec :: state_codec where
  "demo_profile_codec = \<lparr>to_string_pretty = (\<lambda>st. if st \<in> demo_states then Some (demo_code st) else None),
     toml_from_str = (\<lambda>t. if t = [1] then Some demo_cli_state else if t = [2] then Some demo_out_state
       else if t = [3] then Some demo_other_state else None)\<rparr>"

lemma demo_id32_nonempty [simp]: "demo_id32 \<noteq> []"
  by (simp add: demo_id32_def hex_lower_def)

lemma demo_states_differ [simp]: "demo_cli_state \<noteq> demo_out_state" "demo_out_state \<noteq> demo_cli_state"
  "demo_cli_state \<noteq> demo_other_state" "demo_other_state \<noteq> demo_cli_state" "demo_out_state \<noteq> demo_other_state"
  "demo_other_state \<noteq> demo_out_state"
proof -
  let ?p = "\<lambda>st. (prof_username (snd (hd (st_profiles st))), prof_credential_id (snd (hd (st_profiles st))))"
  have "distinct [?p demo_cli_state, ?p demo_out_state, ?p demo_other_state]"
    by (simp add: demo_cli_state_def demo_out_state_def demo_other_state_def demo_cli_profile_def)
  then show "demo_cli_state \<noteq> demo_out_state" "demo_out_state \<noteq> demo_cli_state"
    "demo_cli_state \<noteq> demo_other_state" "demo_other_state \<noteq> demo_cli_state" "demo_out_state \<noteq> demo_other_state"
    "demo_other_state \<noteq> demo_out_state" by auto
qed

lemma demo_states_in [simp]: "demo_cli_state \<in> demo_states" "demo_out_state \<in> demo_states" "demo_other_state \<in> demo_states"
  by (simp_all add: demo_states_def)

lemma demo_profile_codec_ok: "state_codec_ok demo_profile_codec"
  by (auto simp: state_codec_ok_def demo_profile_codec_def demo_code_def demo_states_def split: if_splits)

interpretation demo_world: cli_world "demo_cli disk_faulty key_faulty demo_profile_codec demo_cred_codec" disk_view mem_view
  by (rule cli_world.intro)
    (simp_all add: demo_cli_def mem_disk.state_files_axioms sim_keys.lawful_keyring_axioms demo_profile_codec_ok demo_codec_ok)

section \<open>A login is found again\<close>

context cli_world
begin

lemma login_load_view: "login_load E account c = (r, c') \<Longrightarrow> fst c' = fst c"
  by (auto simp: login_load_def on_keys_def split: prod.splits)

text \<open>What saving a credential under a context leaves.\<close>

lemma persist_Ok:
  assumes "persist_managed_credential E ctx username credential c = (Ok ctx', c')" "ctx_profile_name ctx = Some name"
    and "ce_generation_random E = Some random" "\<And>account. fresh_generation (ce_cred_codec E) (kview (snd c)) account random"
    and "cli_document E fview c = Ok old" "map_of (st_profiles old) name = Some p"
    and "ctx_credential_id ctx = opt_filter (\<lambda>i. i \<noteq> []) (Some (prof_credential_id p))"
  shows "\<exists>new q s0 s1. cli_document E fview c' = Ok new \<and> map_of (st_profiles new) name = Some q \<and> prof_username q = Some username \<and>
    prof_credential_id q \<noteq> [] \<and> st_default_profile new = st_default_profile old \<and>
    credential_save (ce_cred_codec E) (ce_keys E) (Some random) (prof_credential_id q) credential s0 = (Ok (), snd c') \<and> s0 = snd c"
proof -
  obtain i ctx1 c1 where 1: "ensure_context_credential_id E ctx c = (Ok (i, ctx1), c1)"
    and r: "cbind (login_save E i credential) (\<lambda>_. sync_profile_username E ctx1 username) c1 = (Ok ctx', c')"
    using assms(1) unfolding persist_managed_credential_def by (elim cbind_OkE) (auto split: prod.splits)
  from r obtain u c2 where 2: "login_save E i credential c1 = (Ok u, c2)" "sync_profile_username E ctx1 username c2 = (Ok ctx', c')"
    by (rule cbind_OkE)
  have k2: "credential_save (ce_cred_codec E) (ce_keys E) (Some random) i credential (snd c1) = (Ok (), snd c2)" "fst c2 = fst c1"
    using 2(1) assms(3) by (auto simp: login_save_def on_keys_def split: prod.splits)
  have id: "\<exists>mid q. cli_document E fview c1 = Ok mid \<and> map_of (st_profiles mid) name = Some q \<and> prof_credential_id q = i \<and>
      st_default_profile mid = st_default_profile old \<and> snd c1 = snd c \<and> ctx_profile_name ctx1 = Some name"
  proof (cases "ctx_credential_id ctx")
    case (Some j)
    then have "i = j" "ctx1 = ctx" "c1 = c" using 1 by (auto simp: ensure_context_credential_id_def)
    then show ?thesis using assms(2,5-7) Some by (auto simp: opt_filter_def split: if_splits)
  next
    case None
    then have empty: "prof_credential_id p = []" using assms(7) by (simp add: opt_filter_def split: if_splits)
    obtain u: "store_update E (identifier_operation (ce_id_random E) name) c = (Ok i, c1)" "ctx1 = ctx\<lparr>ctx_credential_id := Some i\<rparr>"
      using 1 None assms(2) by (auto simp: ensure_context_credential_id_def ok_or_def elim!: cbind_OkE)
    obtain new where new: "identifier_operation (ce_id_random E) name old = Ok (i, new)" "cli_document E fview c1 = Ok new"
      using store_update_Ok [OF u(1)] assms(5) by auto
    from modify_profile_OkD [OF new(1) [unfolded identifier_operation_def]] assms(6) empty new(2) store_update_keys [OF u(1)] u(2) assms(2)
    show ?thesis by (auto simp: ensure_credential_id_def rbind_eq_Ok split: if_splits)
  qed
  then obtain mid q where mid: "cli_document E fview c1 = Ok mid" "map_of (st_profiles mid) name = Some q" "prof_credential_id q = i"
    "st_default_profile mid = st_default_profile old" "snd c1 = snd c" "ctx_profile_name ctx1 = Some name" by blast
  have "cli_document E fview c2 = Ok mid" using mid(1) k2(2) by (simp add: cli_document_def)
  moreover obtain c3 x where u: "store_update E (username_operation name username) c2 = (Ok x, c3)" "c3 = c'"
    using 2(2) mid(6) by (auto simp: sync_profile_username_def ok_or_def elim!: cbind_OkE)
  ultimately obtain new where new: "username_operation name username mid = Ok (x, new)" "cli_document E fview c' = Ok new"
    using store_update_Ok [OF u(1)] by auto
  have "i \<noteq> []" using k2(1) by (auto simp: credential_save_def validate_account_def split: if_splits)
  from modify_profile_OkD [OF new(1) [unfolded username_operation_def]] mid k2(1) store_update_keys [OF u(1)] u(2) new(2) this
  show ?thesis by auto
qed

end

lemma persist_oidc_identity_Ok:
  assumes "persist_oidc_identity E ctx identity c = (Ok ctx', c')"
  shows "persist_managed_credential E ctx (id_username identity)
    (StoredOidc (id_refresh_token identity) (id_user_id identity) (id_username identity)) c = (Ok ctx', c')"
proof -
  obtain i ctx1 c1 where 1: "ensure_context_credential_id E ctx c = (Ok (i, ctx1), c1)"
    and r: "cbind (save_oidc_identity E i identity) (\<lambda>_. sync_profile_username E ctx1 (id_username identity)) c1 = (Ok ctx', c')"
    using assms unfolding persist_oidc_identity_def by (elim cbind_OkE) (auto split: prod.splits)
  have "id_refresh_token identity \<noteq> []" using r by (auto simp: save_oidc_identity_def)
  then show ?thesis using 1 r by (simp add: persist_managed_credential_def save_oidc_identity_def cbind_def)
qed

text \<open>C34 (a login is found by the next command). When a managed command resolved its profile and then saved the login, be it
  a user name with a password or the identity of a single sign-on, the next command for the same target runs as the user
  who logged in, and what it loads as the saved login is that password or the session of that identity (its refresh token,
  user ID and user name), unless the key store cannot be read.\<close>

theorem login_is_found:
  assumes "cli_world E fview kview" "ce_generation_random E = Some random"
    and "resolve_managed_context E target True c0 = (Ok ctx, c1)" "mt_domain target = None"
    and "\<And>account. fresh_generation (ce_cred_codec E) (kview (snd c1)) account random"
    and "persist_managed_credential E ctx username credential c1 = (Ok ctx', c2) \<or>
      (\<exists>identity. persist_oidc_identity E ctx identity c1 = (Ok ctx', c2) \<and> username = id_username identity \<and>
         credential = StoredOidc (id_refresh_token identity) (id_user_id identity) (id_username identity))"
    and "resolve_managed_context E target required c2 = (Ok ctx2, c3)"
    and "load_stored_credential E (ctx_credential_id ctx2) c3 = (r, c4)"
  shows "ctx_username ctx2 = Some username \<and>
    (r = Ok (Some credential) \<or> read_error (operating_system_store (ce_keys E)) r)"
proof -
  have saved: "persist_managed_credential E ctx username credential c1 = (Ok ctx', c2)"
    using assms(6) persist_oidc_identity_Ok by blast
  from cli_world.resolve_context_Ok [OF assms(1,3)] obtain old new name p domain device_id where
    1: "cli_document E fview c1 = Ok new" "st_profiles new = st_profiles old" "st_default_profile new = st_default_profile old"
    "target_profile_name target old = Ok name" "context_profile old name = Ok (Some p)" "ctx = make_context name (Some p) domain device_id"
    by auto
  then obtain n where n: "name = Some n" "map_of (st_profiles new) n = Some p"
    by (auto simp: context_profile_def get_profile_def ok_or_def rmap_def rbind_eq_Ok split: option.splits)
  from cli_world.persist_Ok [OF assms(1) saved _ assms(2,5) 1(1) n(2)] 1(6) n(1) obtain new2 q where
    2: "cli_document E fview c2 = Ok new2" "map_of (st_profiles new2) n = Some q" "prof_username q = Some username" "prof_credential_id q \<noteq> []"
    "st_default_profile new2 = st_default_profile new"
    "credential_save (ce_cred_codec E) (ce_keys E) (Some random) (prof_credential_id q) credential (snd c1) = (Ok (), snd c2)"
    by (auto simp: make_context_def)
  from cli_world.resolve_context_Ok [OF assms(1,7)] 2(1) obtain name2 p2 domain2 device2 where
    3: "target_profile_name target new2 = Ok name2" "context_profile new2 name2 = Ok p2" "ctx2 = make_context name2 p2 domain2 device2"
    "snd c3 = snd c2" by auto
  have "name2 = name" using 3(1) 1(3,4) 2(5) assms(4) by (auto simp: target_profile_name_def rbind_eq_Ok split: option.splits)
  then have p2: "p2 = Some q" using 3(2) n(1) 2(2) by (simp add: context_profile_def get_profile_def ok_or_def rmap_def)
  have ctx2: "ctx_username ctx2 = Some username" "ctx_credential_id ctx2 = Some (prof_credential_id q)"
    using 3(3) 2(3,4) p2 by (simp_all add: make_context_def opt_filter_def opt_and_then_def)
  have "credential_load (ce_cred_codec E) (ce_keys E) (prof_credential_id q) (snd c2) = (r, snd c4)"
    using assms(8) ctx2(2) 3(4) by (auto simp: load_stored_credential_def login_load_def on_keys_def split: prod.splits)
  with save_then_load [OF cli_world.keys [OF assms(1)] cli_world.secrets [OF assms(1)] assms(5) 2(6)] ctx2(1)
  show ?thesis by blast
qed

section \<open>Removing and changing profiles\<close>

text \<open>Between two states of the key store, the entry of an account and every chunk that it named are gone.\<close>

definition login_gone :: "('s, 'k) cli_env \<Rightarrow> ('k \<Rightarrow> ustr \<Rightarrow> bytes option) \<Rightarrow> ustr \<Rightarrow> 'k \<Rightarrow> 'k \<Rightarrow> bool" where
  "login_gone E kview account k k' \<longleftrightarrow> kview k' account = None \<and>
     (\<forall>bs m entry. kview k account = Some bs \<and> decode_manifest (ce_cred_codec E) bs = Ok m \<and> chunk_of account (sets_of m) entry \<longrightarrow>
        kview k' entry = None)"

context cli_world
begin

lemma login_delete_Ok:
  assumes "login_delete E account c = (Ok d, c')" "credential_history (ce_cred_codec E) (ce_keys E) kview account (snd c)"
  shows "fst c' = fst c \<and> kview (snd c') account = None \<and> (\<forall>generation index. kview (snd c') (chunk_account account generation index) = None)"
proof -
  have d: "delete_from (ce_cred_codec E) (operating_system_store (ce_keys E)) account (snd c) = (Ok d, snd c')" "fst c' = fst c"
    using assms(1) by (auto simp: login_delete_def on_keys_def credential_delete_def split: prod.splits sum.splits)
  from secret_vault.delete_removes [OF lawful_keyring.vault [OF keys] d(1) history_tracked [OF keys secrets assms(2)]] d(2)
  show ?thesis by simp
qed

lemma login_delete_gone:
  assumes "login_delete E account c = (Ok d, c')"
  shows "login_gone E kview account (snd c) (snd c')"
proof -
  have d: "delete_from (ce_cred_codec E) (operating_system_store (ce_keys E)) account (snd c) = (Ok d, snd c')"
    using assms by (auto simp: login_delete_def on_keys_def credential_delete_def split: prod.splits sum.splits)
  show ?thesis using secret_vault.delete_clears [OF lawful_keyring.vault [OF keys] d] unfolding login_gone_def by blast
qed

text \<open>Of a login that is gone, nothing is loaded any more.\<close>

lemma login_gone_load:
  assumes "login_gone E kview account k (snd c)" "login_load E account c = (Ok r, c')"
  shows "r = None"
proof -
  have "load_from (ce_cred_codec E) (operating_system_store (ce_keys E)) account (snd c) = (Ok r, snd c')"
    using assms(2) by (auto simp: login_load_def on_keys_def credential_load_def split: prod.splits sum.splits)
  from secret_vault.load_refines [OF lawful_keyring.vault [OF keys] this] assms(1) show ?thesis
    by (auto simp: login_gone_def stored_def load_from_def)
qed

lemma login_delete_files: "login_delete E account c = (r, c') \<Longrightarrow> fst c' = fst c"
  by (auto simp: login_delete_def on_keys_def split: prod.splits)

lemma forget_login_Ok:
  assumes "forget_login E changed existing c = (Ok u, c')"
  shows "fst c' = fst c \<and> (case existing of
      None \<Rightarrow> c' = c
    | Some p \<Rightarrow> if changed \<and> prof_credential_id p \<noteq> [] then login_gone E kview (prof_credential_id p) (snd c) (snd c') else c' = c)"
proof (cases "existing = None \<or> \<not> changed \<or> prof_credential_id (the existing) = []")
  case True
  then show ?thesis using assms by (auto simp: forget_login_def opt_filter_def split: option.splits if_splits)
next
  case False
  then obtain p d where p: "existing = Some p" "login_delete E (prof_credential_id p) c = (Ok d, c')"
    using assms by (auto simp: forget_login_def opt_filter_def elim!: cbind_OkE)
  then show ?thesis using login_delete_files [OF p(2)] login_delete_gone [OF p(2)] False by simp
qed

end

text \<open>The steps of both commands: the login is deleted before the profile is changed.\<close>

definition removal_operation :: "bool \<Rightarrow> ustr \<Rightarrow> cli_state \<Rightarrow> (unit \<times> cli_state) result" where
  "removal_operation whole name = (if whole then remove_operation name else logout_operation name)"

lemma removal_OkD:
  assumes "cli_world E fview kview" "cli_document E fview c = Ok st" "map_of (st_profiles st) name = Some p" "prof_credential_id p \<noteq> []"
    and "remove_profile E name c = (Ok (), c') \<or> logout_profile E (Some name) c = (Ok (name, removed), c')"
  obtains c1 d c2 whole where "store_load E c = (Ok st, c1)" "login_delete E (prof_credential_id p) c1 = (Ok d, c2)"
    "store_update E (removal_operation whole name) c2 = (Ok (), c')"
proof -
  have st: "st1 = st" if "store_load E c = (Ok st1, c1)" for st1 c1
    using cli_world.store_load_Ok [OF assms(1) that] assms(2) by simp
  have profile: "q = p" if "get_profile st name = Ok q" for q
    using that assms(3) by (simp add: get_profile_def ok_or_def)
  from assms(5) show ?thesis
  proof
    assume "remove_profile E name c = (Ok (), c')"
    then obtain st1 c1 q where 1: "store_load E c = (Ok st1, c1)" "get_profile st1 name = Ok q" "remove_loaded E name q c1 = (Ok (), c')"
      unfolding remove_profile_def by (elim cbind_cdoneE cbind_OkE)
    then obtain d c2 where "login_delete E (prof_credential_id p) c1 = (Ok d, c2)" "store_update E (remove_operation name) c2 = (Ok (), c')"
      using st profile assms(4) by (auto simp: remove_loaded_def elim!: cbind_OkE)
    then show ?thesis using that [of c1 d c2 True] 1(1) st by (simp add: removal_operation_def)
  next
    assume "logout_profile E (Some name) c = (Ok (name, removed), c')"
    then obtain st1 c1 n q where 1: "store_load E c = (Ok st1, c1)" "ok_or no_default_profile (Some name) = Ok n" "get_profile st1 n = Ok q"
      "logout_loaded E n q c1 = (Ok (name, removed), c')"
      unfolding logout_profile_def option.case by (elim cbind_cdoneE cbind_OkE) (rule that)
    then obtain d c2 where "login_delete E (prof_credential_id p) c1 = (Ok d, c2)" "store_update E (logout_operation name) c2 = (Ok (), c')"
      using st profile assms(4) by (auto simp: logout_loaded_def ok_or_def elim!: cbind_OkE)
    then show ?thesis using that [of c1 d c2 False] 1(1) st by (simp add: removal_operation_def)
  qed
qed

lemma removal_operation_profiles:
  assumes "removal_operation whole name st = Ok ((), new)" "map_of (st_profiles st) name = Some p"
  shows "(\<forall>q. map_of (st_profiles new) name = Some q \<longrightarrow> prof_credential_id q = []) \<and>
    (\<forall>n. n \<noteq> name \<longrightarrow> map_of (st_profiles new) n = map_of (st_profiles st) n)"
proof -
  have "map_of (st_profiles new) = (map_of (st_profiles st))(name := if whole then None else Some (p\<lparr>prof_credential_id := []\<rparr>))"
    using assms modify_profile_OkD [of name "\<lambda>p. Ok ((), p\<lparr>prof_credential_id := []\<rparr>)" st "()" new]
    by (cases whole) (auto simp: removal_operation_def remove_operation_def logout_operation_def delete_conv' Let_def split: if_splits)
  then show ?thesis by (auto split: if_splits)
qed

text \<open>C36 (a removed login is gone). When removing a profile or logging out of it reports success, the stored profiles no
  longer have a login under that name, the other profiles are as they were, and whatever was in the key store, the entry of
  the login and every chunk it named are gone, so that it cannot be loaded any more. If the login was only saved
  successfully, in any number of generations, no chunk of it is left at all (a first save that fails may leave one that no
  entry names).\<close>

theorem removed_login_is_gone:
  assumes "cli_world E fview kview" "cli_document E fview c = Ok st" "map_of (st_profiles st) name = Some p" "prof_credential_id p \<noteq> []"
    and "remove_profile E name c = (Ok (), c') \<or> logout_profile E (Some name) c = (Ok (name, removed), c')"
  shows "(\<exists>new. cli_document E fview c' = Ok new \<and>
      (\<forall>q. map_of (st_profiles new) name = Some q \<longrightarrow> prof_credential_id q = []) \<and>
      (\<forall>n. n \<noteq> name \<longrightarrow> map_of (st_profiles new) n = map_of (st_profiles st) n)) \<and>
    login_gone E kview (prof_credential_id p) (snd c) (snd c') \<and>
    (\<forall>r c''. login_load E (prof_credential_id p) c' = (Ok r, c'') \<longrightarrow> r = None) \<and>
    (credential_history (ce_cred_codec E) (ce_keys E) kview (prof_credential_id p) (snd c) \<longrightarrow>
      (\<forall>generation index. kview (snd c') (chunk_account (prof_credential_id p) generation index) = None))"
proof -
  obtain c1 d c2 whole where c1: "store_load E c = (Ok st, c1)" and
    1: "login_delete E (prof_credential_id p) c1 = (Ok d, c2)" "store_update E (removal_operation whole name) c2 = (Ok (), c')"
    by (rule removal_OkD [OF assms])
  have v1: "fview (snd (fst c1)) = fview (snd (fst c))" "snd c1 = snd c" using cli_world.store_load_view [OF assms(1) c1] by simp_all
  have gone: "fst c2 = fst c1" "login_gone E kview (prof_credential_id p) (snd c) (snd c2)"
    using cli_world.login_delete_files [OF assms(1) 1(1)] cli_world.login_delete_gone [OF assms(1) 1(1)] v1(2) by simp_all
  have history: "kview (snd c2) (chunk_account (prof_credential_id p) generation index) = None"
    if "credential_history (ce_cred_codec E) (ce_keys E) kview (prof_credential_id p) (snd c)" for generation index
    using cli_world.login_delete_Ok [OF assms(1) 1(1)] that v1(2) by simp
  have keys: "snd c' = snd c2" by (rule cli_world.store_update_keys [OF assms(1) 1(2)])
  have "cli_document E fview c2 = Ok st" using assms(2) gone(1) v1(1) by (simp add: cli_document_def)
  then obtain new where new: "removal_operation whole name st = Ok ((), new)" "cli_document E fview c' = Ok new"
    using cli_world.store_update_Ok [OF assms(1) 1(2)] by auto
  note removal_operation_profiles [OF new(1) assms(3)]
  moreover have "r = None" if "login_load E (prof_credential_id p) c' = (Ok r, c'')" for r c''
    using cli_world.login_gone_load [OF assms(1) _ that] gone(2) keys by simp
  ultimately show ?thesis using new(2) gone(2) history keys by auto
qed

lemma apply_profile_set_OkD:
  assumes "apply_profile_set T A changed generated st = Ok ((), new)"
  shows "\<exists>q p. map_of (st_profiles new) = (map_of (st_profiles st))(ps_name A := Some q) \<and> profile_validate T q = Ok () \<and>
    profile_to_set T A generated st = Ok p \<and>
    prof_credential_id q = (if changed then [] else prof_credential_id p) \<and>
    prof_domain q = prof_domain (patch_identity A p) \<and> prof_device_id q = prof_device_id (patch_identity A p) \<and>
    prof_username q = prof_username (patch_identity A p) \<and> prof_credential_id (patch_identity A p) = prof_credential_id p"
proof -
  have id: "prof_credential_id (patch_identity A p) = prof_credential_id p" for p
    by (simp add: patch_identity_def Let_def split: option.split)
  from assms show ?thesis
    by (fastforce simp: apply_profile_set_def rbind_eq_Ok Let_def map_of_insert_profile id split: if_splits)
qed

lemma unchanged_identity:
  assumes "\<not> authentication_changed A (Some p)"
  shows "prof_domain (patch_identity A p) = prof_domain p \<and> prof_device_id (patch_identity A p) = prof_device_id p \<and>
    prof_username (patch_identity A p) = prof_username p"
  using assms by (auto simp: authentication_changed_def patch_identity_def Let_def split: option.splits)

text \<open>C35 (changing a profile). A change that reports success leaves the profile it reports, which is valid, and all other
  profiles as they were. A login is kept exactly when nothing that identifies its owner was changed: then the domain,
  the device and the user are those it was saved for, and the key store is as it was. Otherwise the profile names no login,
  and the entry of the one it named and every chunk of that are deleted from the key store. A new profile has no login.\<close>

theorem set_profile_separates_logins:
  assumes "cli_world E fview kview" "cli_document E fview c = Ok st" "set_profile E A c = (Ok (q, dflt), c')"
  shows "\<exists>new. cli_document E fview c' = Ok new \<and> map_of (st_profiles new) = (map_of (st_profiles st))(ps_name A := Some q) \<and>
    profile_validate (ce_text E) q = Ok () \<and>
    (case map_of (st_profiles st) (ps_name A) of
       None \<Rightarrow> prof_credential_id q = [] \<and> snd c' = snd c
     | Some p \<Rightarrow> if authentication_changed A (Some p)
         then prof_credential_id q = [] \<and>
           (if prof_credential_id p = [] then snd c' = snd c else login_gone E kview (prof_credential_id p) (snd c) (snd c'))
         else prof_credential_id q = prof_credential_id p \<and> prof_domain q = prof_domain p \<and> prof_device_id q = prof_device_id p \<and>
           prof_username q = prof_username p \<and> snd c' = snd c)"
proof -
  note W = assms(1)
  let ?existing = "map_of (st_profiles st) (ps_name A)"
  let ?changed = "authentication_changed A ?existing"
  from assms(3) obtain st0 c1 where 1: "store_load E c = (Ok st0, c1)" "change_profile E A st0 c1 = (Ok (q, dflt), c')"
    unfolding set_profile_def by (elim cbind_cdoneE cbind_OkE)
  have doc1: "st0 = st" "cli_document E fview c1 = Ok st"
    using cli_world.store_load_Ok [OF W 1(1)] cli_world.store_load_view [OF W 1(1)] assms(2) by (simp_all add: cli_document_def)
  from 1(2) obtain generated c2 u c3 v c4 persisted c5 p' where
    2: "(if ?existing = None \<and> ps_device_id A = None
            then cbind (store_device_id E) (\<lambda>i. cdone (Ok (Some i))) else cdone (Ok None)) c1 = (Ok generated, c2)"
    and 3: "forget_login E ?changed ?existing c2 = (Ok u, c3)"
    and 4: "store_update E (apply_profile_set (ce_text E) A ?changed generated) c3 = (Ok v, c4)" "store_load E c4 = (Ok persisted, c5)"
      "get_profile persisted (ps_name A) = Ok p'" "cdone (Ok (p', st_default_profile persisted)) c5 = (Ok (q, dflt), c')"
    unfolding change_profile_def Let_def doc1(1) by (elim cbind_OkE [where c = c1] cbind_OkE cbind_cdoneE) (rule that)
  obtain st2 where doc2: "cli_document E fview c2 = Ok st2" "st_profiles st2 = st_profiles st"
    using 2 doc1(2) cli_world.store_device_id_Ok [OF W, of c1] by (fastforce split: if_splits elim!: cbind_OkE)
  have k2: "snd c2 = snd c"
    using 2 cli_world.store_load_view [OF W 1(1)] cli_world.store_device_id_Ok [OF W, of c1] by (fastforce split: if_splits elim!: cbind_OkE)
  note forget = cli_world.forget_login_Ok [OF W 3]
  have "fst c3 = fst c2" using forget by simp
  then have doc3: "cli_document E fview c3 = Ok st2" using doc2(1) by (simp add: cli_document_def)
  obtain new where new: "apply_profile_set (ce_text E) A ?changed generated st2 = Ok ((), new)" "cli_document E fview c4 = Ok new"
    using cli_world.store_update_Ok [OF W 4(1)] doc3 by auto
  have k': "snd c' = snd c3"
    using cli_world.store_update_keys [OF W 4(1)] cli_world.store_load_view [OF W 4(2)] 4(4) by simp
  have doc4: "persisted = new" "cli_document E fview c' = Ok new"
    using cli_world.store_load_Ok [OF W 4(2)] cli_world.store_load_view [OF W 4(2)] new(2) 4(4) by (simp_all add: cli_document_def)
  obtain p where p: "map_of (st_profiles new) = (map_of (st_profiles st))(ps_name A := Some q)" "profile_validate (ce_text E) q = Ok ()"
    "profile_to_set (ce_text E) A generated st2 = Ok p" "prof_credential_id q = (if ?changed then [] else prof_credential_id p)"
    "prof_domain q = prof_domain (patch_identity A p)" "prof_device_id q = prof_device_id (patch_identity A p)"
    "prof_username q = prof_username (patch_identity A p)"
    using apply_profile_set_OkD [OF new(1)] 4(3,4) doc4(1) doc2(2) by (auto simp: get_profile_def ok_or_def)
  show ?thesis
  proof (cases ?existing)
    case None
    then have "prof_credential_id p = []"
      using p(3) doc2(2) by (auto simp: profile_to_set_def profile_new_def rbind_eq_Ok Let_def)
    then show ?thesis using doc4(2) p(1,2,4) k2 forget k' None by (auto simp: authentication_changed_def)
  next
    case (Some p0)
    then have "p = p0" using p(3) doc2(2) by (simp add: profile_to_set_def)
    then show ?thesis using doc4(2) p k2 forget k' Some unchanged_identity [of A p0] by (auto split: if_splits)
  qed
qed

section \<open>Examples\<close>

text \<open>Files and keys that do not fail, with a codec of the saved logins: the one of a password, or that of a session.\<close>

abbreviation demo_codec_env :: "cred_codec \<Rightarrow> (mem_disk, mem_state) cli_env" where
  "demo_codec_env \<equiv> demo_cli (\<lambda>_. False) (\<lambda>_. False) demo_profile_codec"

abbreviation demo_cli_env :: "(mem_disk, mem_state) cli_env" where
  "demo_cli_env \<equiv> demo_codec_env demo_cred_codec"

definition demo_session :: stored_credential where
  "demo_session = StoredOidc [0x72] [0x69] [0x75]"

definition demo_session_codec :: cred_codec where
  "demo_session_codec = demo_cred_codec\<lparr>
     envelope_to_vec := (\<lambda>e. if e = \<lparr>env_version = 1, env_credential = demo_session\<rparr> then Some [2] else None),
     envelope_from_slice := (\<lambda>b. if b = [2] then Some \<lparr>env_version = 1, env_credential = demo_session\<rparr> else None)\<rparr>"

lemma demo_session_codec_ok: "cred_codec_ok demo_session_codec"
  by (simp add: cred_codec_ok_def demo_session_codec_def demo_cred_codec_def)

definition demo_login_keys :: "nat \<Rightarrow> mem_state" where
  "demo_login_keys n = \<lparr>mem_calls = n, mem_files = [(chunk_account demo_id32 (hex_lower demo_generation) 0, [2]), (demo_id32, [1])]\<rparr>"

text \<open>The files of the document and the lock, with some directories.\<close>

definition demo_disk_at :: "cli_state \<Rightarrow> nat \<Rightarrow> ustr list \<Rightarrow> mem_disk" where
  "demo_disk_at st n dirs = \<lparr>disk_calls = n, disk_dirs = dirs @ [cache_directory demo_dir, demo_dir],
     disk_files = [(lock_path demo_dir, []), (state_path demo_dir, demo_code st)]\<rparr>"

definition demo_ready :: "cli_state \<Rightarrow> (u64 \<times> mem_disk) \<Rightarrow> bool" where
  "demo_ready st c \<longleftrightarrow> (\<exists>n dirs. snd c = demo_disk_at st n dirs \<and> set dirs \<subseteq> {cache_directory demo_dir, demo_dir})"

lemma demo_profile_valid:
  "profile_validate demo_text demo_cli_profile = Ok ()" "profile_validate demo_text (demo_cli_profile\<lparr>prof_credential_id := []\<rparr>) = Ok ()"
  "profile_validate demo_text (demo_cli_profile\<lparr>prof_username := Some [0x62], prof_credential_id := []\<rparr>) = Ok ()"
proof -
  have "credential_id_ok demo_id32"
    using hex_lower_bytes [of "replicate 16 0"] by (simp add: credential_id_ok_def demo_id32_def utf8_hex_lower lower_hex_byte_def [abs_def])
  then show "profile_validate demo_text demo_cli_profile = Ok ()" "profile_validate demo_text (demo_cli_profile\<lparr>prof_credential_id := []\<rparr>) = Ok ()"
    "profile_validate demo_text (demo_cli_profile\<lparr>prof_username := Some [0x62], prof_credential_id := []\<rparr>) = Ok ()"
    by (simp_all add: profile_validate_def demo_cli_profile_def validate_domain_def domain_char_def is_ascii_alphanumeric_def validate_device_id_def
        str_trim_def is_whitespace_def utf8_char_def overrides_validate_def dns_overrides_default_def resolve_route_targets_def
        routing_overrides_default_def)
qed

lemma demo_cli_valid: "cli_state_validate demo_text demo_cli_state = Ok ()" "cli_state_validate demo_text demo_out_state = Ok ()"
  "cli_state_validate demo_text demo_other_state = Ok ()"
  by (simp_all add: cli_state_validate_def demo_cli_state_def demo_out_state_def demo_other_state_def demo_profile_valid validate_profile_name_def is_ascii_alphanumeric_def utf8_char_def)

lemma demo_codec_simps:
  "st \<in> demo_states \<Longrightarrow> to_string_pretty demo_profile_codec st = Some (demo_code st)"
  "st \<in> demo_states \<Longrightarrow> toml_from_str demo_profile_codec (demo_code st) = Some st"
  "st \<in> demo_states \<Longrightarrow> cli_state_validate demo_text st = Ok ()"
  by (auto simp: demo_states_def demo_profile_codec_def demo_code_def demo_cli_valid)

lemma mem_disk_open_existing:
  "map_of (disk_files s) p = Some t \<Longrightarrow> sf_open (mem_disk_fs faulty) p True s = (Inr (), s)"
  by (simp add: mem_disk_fs_def)

lemma demo_readyI: "set dirs \<subseteq> {cache_directory demo_dir, demo_dir} \<Longrightarrow> demo_ready st (m, demo_disk_at st n dirs)"
  by (auto simp: demo_ready_def)

lemma demo_dirs_files:
  assumes "set dirs \<subseteq> {cache_directory demo_dir, demo_dir}"
  shows "state_path demo_dir \<notin> set dirs" "lock_path demo_dir \<notin> set dirs" "unique_temporary_path demo_dir pid n \<notin> set dirs"
  using assms demo_paths by fastforce+

lemma demo_readyE:
  assumes "demo_ready st (fst c)"
  obtains m n dirs k where "c = ((m, demo_disk_at st n dirs), k)" "set dirs \<subseteq> {cache_directory demo_dir, demo_dir}"
  using assms by (cases c; cases "fst c") (auto simp: demo_ready_def)

lemma demo_load:
  assumes "demo_ready st (fst c)" "st \<in> demo_states"
  shows "\<exists>f. store_load (demo_codec_env K) c = (Ok st, (f, snd c)) \<and> demo_ready st f"
proof -
  obtain m n dirs k where c: "c = ((m, demo_disk_at st n dirs), k)" "set dirs \<subseteq> {cache_directory demo_dir, demo_dir}"
    using assms(1) by (rule demo_readyE)
  have "\<exists>n'. state_load (mem_disk_fs (\<lambda>_. False)) demo_profile_codec demo_text demo_dir (m, demo_disk_at st n dirs) = (Ok st, (m, demo_disk_at st n' dirs))"
    using demo_dirs_files [OF c(2)] demo_codec_simps [OF assms(2)]
    by (simp add: state_load_def demo_disk_defs demo_disk_at_def)
  then show ?thesis using demo_readyI [OF c(2)] by (fastforce simp: c store_load_def on_files_def demo_cli_def)
qed

lemma demo_store:
  assumes "demo_ready st (fst c)" "operation st = Ok (x, new)" "{st, new} \<subseteq> demo_states"
  shows "\<exists>f. store_update (demo_codec_env K) operation c = (Ok x, (f, snd c)) \<and> demo_ready new f"
proof -
  obtain m n dirs k where c: "c = ((m, demo_disk_at st n dirs), k)" "set dirs \<subseteq> {cache_directory demo_dir, demo_dir}"
    using assms(1) by (rule demo_readyE)
  have st: "st \<in> demo_states" "new \<in> demo_states" using assms(3) by auto
  have "\<exists>m' n'. state_update (mem_disk_fs (\<lambda>_. False)) demo_profile_codec demo_text demo_dir 7 operation (m, demo_disk_at st n dirs) =
      (Ok x, (m', demo_disk_at new n' (cache_directory demo_dir # demo_dir # dirs)))"
    using assms(2) demo_dirs_files [OF c(2)] demo_codec_simps [OF st(1)] demo_codec_simps [OF st(2)]
    by (simp add: state_update_def demo_disk_defs demo_disk_at_def mem_disk_open_existing open_temporary_16 del: open_temporary.simps)
  then show ?thesis using c(2) by (fastforce simp: c(1) store_update_def on_files_def demo_cli_def demo_ready_def)
qed

lemma demo_refused:
  assumes "demo_ready st (fst c)" "operation st = Err e" "st \<in> demo_states"
  shows "\<exists>f. store_update (demo_codec_env K) operation c = (Err e, (f, snd c)) \<and> demo_ready st f"
proof -
  obtain m n dirs k where c: "c = ((m, demo_disk_at st n dirs), k)" "set dirs \<subseteq> {cache_directory demo_dir, demo_dir}"
    using assms(1) by (rule demo_readyE)
  have "\<exists>n'. state_update (mem_disk_fs (\<lambda>_. False)) demo_profile_codec demo_text demo_dir 7 operation (m, demo_disk_at st n dirs) =
      (Err e, (m, demo_disk_at st n' (cache_directory demo_dir # demo_dir # dirs)))"
    using assms(2) demo_dirs_files [OF c(2)] demo_codec_simps [OF assms(3)]
    by (simp add: state_update_def demo_disk_defs demo_disk_at_def mem_disk_open_existing)
  then show ?thesis using c(2) by (fastforce simp: c(1) store_update_def on_files_def demo_cli_def demo_ready_def)
qed

lemma demo_login_save:
  "\<exists>k. login_save demo_cli_env demo_id32 demo_stored (f, demo_keys) = (Ok (), (f, demo_login_keys k))"
  by (simp add: login_save_def on_keys_def demo_cli_def credential_save_def validate_account_def save_to_def replacement_manifest_def
      demo_key_defs demo_keys_def demo_prepare commit_chunks_def demo_slice retire_obsolete_def demo_manifest_def demo_login_keys_def)

lemma demo_login_delete:
  "\<exists>n. login_delete demo_cli_env demo_id32 (f, demo_login_keys k) = (Ok True, (f, \<lparr>mem_calls = n, mem_files = []\<rparr>))"
proof -
  have "decode_manifest demo_cred_codec [1] = Ok demo_manifest"
    using encode_decode_manifest [OF demo_codec_ok, of demo_manifest "[1]"] prepare_manifest_OkD(1,2) [OF demo_prepare]
    by (simp add: demo_generation_def)
  then show ?thesis
    by (simp add: login_delete_def on_keys_def demo_cli_def credential_delete_def validate_account_def delete_from_def demo_key_defs
        demo_login_keys_def demo_manifest_def as_chunk_set_def chunk_indices_def)
qed

abbreviation demo_login_document :: "(u64 \<times> mem_disk) \<times> mem_state \<Rightarrow> cli_state result" where
  "demo_login_document \<equiv> cli_document demo_cli_env disk_view"

abbreviation demo_cli_target :: managed_target where
  "demo_cli_target \<equiv> \<lparr>mt_profile = None, mt_domain = None\<rparr>"

lemma cbind_Ok: "m c = (Ok x, c1) \<Longrightarrow> cbind m f c = f x c1"
  by (simp add: cbind_def)

definition demo_start :: "mem_state \<Rightarrow> (u64 \<times> mem_disk) \<times> mem_state" where
  "demo_start k = ((0, demo_disk_at demo_cli_state 0 []), k)"

lemma demo_start_ready [simp]: "demo_ready demo_cli_state (fst (demo_start k))" "snd (demo_start k) = k"
  by (simp_all add: demo_start_def demo_readyI)

lemma demo_ready_document:
  "demo_ready st (fst c) \<Longrightarrow> st \<in> demo_states \<Longrightarrow> demo_login_document c = Ok st"
  using demo_codec_simps [of st]
  by (auto simp: demo_ready_def cli_document_def document_def demo_cli_def disk_view_def demo_disk_at_def)

lemma demo_profile_lookup [simp]:
  "map_of (st_profiles demo_cli_state) [0x61] = Some demo_cli_profile" "st_default_profile demo_cli_state = Some [0x61]"
  "get_profile demo_cli_state [0x61] = Ok demo_cli_profile"
  by (simp_all add: demo_cli_state_def get_profile_def)

lemma demo_context:
  assumes "demo_ready demo_cli_state (fst c)"
  shows "\<exists>f. resolve_managed_context (demo_codec_env K) demo_cli_target b c =
    (Ok (make_context (Some [0x61]) (Some demo_cli_profile) [0x61] [0x61]), (f, snd c)) \<and> demo_ready demo_cli_state f"
proof -
  obtain f where f: "store_load (demo_codec_env K) c = (Ok demo_cli_state, (f, snd c))" "demo_ready demo_cli_state f" using demo_load [OF assms, where K = K] by auto
  have "prof_domain demo_cli_profile = [0x61]" "prof_device_id demo_cli_profile = [0x61]" by (simp_all add: demo_cli_profile_def)
  moreover have "validate_domain [0x61] = Ok ()" "str_trim [0x61 :: nat] \<noteq> []"
    by (simp_all add: validate_domain_def domain_char_def is_ascii_alphanumeric_def str_trim_def is_whitespace_def)
  ultimately show ?thesis using f
    by (simp add: resolve_managed_context_def cbind_Ok [where m = "store_load (demo_codec_env K)", OF f(1)] target_profile_name_def context_profile_def rmap_def)
qed

lemma demo_username: "username_operation [0x61] [0x75] demo_cli_state = Ok ((), demo_cli_state)"
  by (simp add: username_operation_def modify_profile_def) (simp add: demo_cli_state_def demo_cli_profile_def)

lemma demo_context_login:
  "ctx_credential_id (make_context (Some [0x61]) (Some demo_cli_profile) [0x61] [0x61]) = Some demo_id32"
  "ctx_profile_name (make_context (Some [0x61]) (Some demo_cli_profile) [0x61] [0x61]) = Some [0x61]"
  by (simp_all add: make_context_def opt_filter_def demo_cli_profile_def)

lemma demo_persist:
  assumes "demo_ready demo_cli_state f"
  shows "\<exists>ctx' f' n. persist_managed_credential demo_cli_env (make_context (Some [0x61]) (Some demo_cli_profile) [0x61] [0x61]) [0x75] demo_stored
    (f, demo_keys) = (Ok ctx', (f', demo_login_keys n)) \<and> demo_ready demo_cli_state f'"
proof -
  obtain n where s: "login_save demo_cli_env demo_id32 demo_stored (f, demo_keys) = (Ok (), (f, demo_login_keys n))"
    using demo_login_save by blast
  obtain f' where
    u: "store_update demo_cli_env (username_operation [0x61] [0x75]) (f, demo_login_keys n) = (Ok (), (f', demo_login_keys n))" "demo_ready demo_cli_state f'"
    using demo_store [where K = demo_cred_codec and operation = "username_operation [0x61] [0x75]", OF _ demo_username, of "(f, demo_login_keys n)"] assms by auto
  show ?thesis
    using u(2) by (auto simp: persist_managed_credential_def ensure_context_credential_id_def demo_context_login cbind_def s
        sync_profile_username_def u(1) ok_or_def)
qed

text \<open>The provider issued the identity of the session.\<close>

definition demo_login_identity :: oidc_identity where
  "demo_login_identity = \<lparr>id_access_token = [0x74], id_refresh_token = [0x72], id_user_id = [0x69], id_username = [0x75], id_expires_at = 0\<rparr>"

lemma demo_session_save:
  "\<exists>k. login_save (demo_codec_env demo_session_codec) demo_id32 demo_session (f, demo_keys) = (Ok (), (f, demo_login_keys k))"
proof -
  have "prepare_manifest demo_session_codec (Some demo_generation) [] demo_session = Ok ([2], demo_manifest, [1])"
    by (simp add: prepare_manifest_def demo_session_codec_def demo_cred_codec_def new_generation_def div_ceil_def encode_manifest_def demo_manifest_def)
  then show ?thesis
    by (simp add: login_save_def on_keys_def demo_cli_def credential_save_def validate_account_def save_to_def replacement_manifest_def
        demo_key_defs demo_keys_def commit_chunks_def demo_slice retire_obsolete_def demo_manifest_def demo_login_keys_def)
qed

lemma demo_persist_oidc:
  assumes "demo_ready demo_cli_state f"
  shows "\<exists>ctx' f' n. persist_oidc_identity (demo_codec_env demo_session_codec) (make_context (Some [0x61]) (Some demo_cli_profile) [0x61] [0x61])
    demo_login_identity (f, demo_keys) = (Ok ctx', (f', demo_login_keys n)) \<and> demo_ready demo_cli_state f'"
proof -
  let ?E = "demo_codec_env demo_session_codec"
  obtain n where s: "login_save ?E demo_id32 demo_session (f, demo_keys) = (Ok (), (f, demo_login_keys n))" using demo_session_save by blast
  obtain f' where
    u: "store_update ?E (username_operation [0x61] [0x75]) (f, demo_login_keys n) = (Ok (), (f', demo_login_keys n))" "demo_ready demo_cli_state f'"
    using demo_store [where K = demo_session_codec and operation = "username_operation [0x61] [0x75]", OF _ demo_username, of "(f, demo_login_keys n)"] assms by auto
  show ?thesis
    using u(2) s by (auto simp: persist_oidc_identity_def save_oidc_identity_def ensure_context_credential_id_def demo_context_login cbind_def
        sync_profile_username_def u(1) ok_or_def demo_login_identity_def demo_session_def)
qed

theorem login_is_found_witness:
  "\<exists>ctx f ctx' c2 ctx2 c3 r c4. resolve_managed_context (demo_codec_env demo_session_codec) demo_cli_target True (demo_start demo_keys) =
      (Ok ctx, (f, demo_keys)) \<and>
    persist_oidc_identity (demo_codec_env demo_session_codec) ctx demo_login_identity (f, demo_keys) = (Ok ctx', c2) \<and>
    resolve_managed_context (demo_codec_env demo_session_codec) demo_cli_target False c2 = (Ok ctx2, c3) \<and> ctx_username ctx2 = Some [0x75] \<and>
    load_stored_credential (demo_codec_env demo_session_codec) (ctx_credential_id ctx2) c3 = (r, c4) \<and>
    (r = Ok (Some (StoredOidc [0x72] [0x69] [0x75])) \<or> read_error (operating_system_store (ce_keys (demo_codec_env demo_session_codec))) r)"
proof -
  let ?ctx = "make_context (Some [0x61]) (Some demo_cli_profile) [0x61] [0x61]" and ?E = "demo_codec_env demo_session_codec"
  obtain f where 1: "resolve_managed_context ?E demo_cli_target True (demo_start demo_keys) = (Ok ?ctx, (f, demo_keys))" "demo_ready demo_cli_state f"
    using demo_context [of "demo_start demo_keys" demo_session_codec True] by auto
  obtain ctx' f' n where 2: "persist_oidc_identity ?E ?ctx demo_login_identity (f, demo_keys) = (Ok ctx', (f', demo_login_keys n))"
    "demo_ready demo_cli_state f'"
    using demo_persist_oidc [OF 1(2)] by blast
  obtain c3 where 3: "resolve_managed_context ?E demo_cli_target False (f', demo_login_keys n) = (Ok ?ctx, c3)"
    using demo_context [of "(f', demo_login_keys n)" demo_session_codec False] 2(2) by auto
  obtain r c4 where 4: "load_stored_credential ?E (ctx_credential_id ?ctx) c3 = (r, c4)"
    by (cases "load_stored_credential ?E (ctx_credential_id ?ctx) c3")
  have g: "ce_generation_random ?E = Some demo_generation" "mt_domain demo_cli_target = None" by (simp_all add: demo_cli_def)
  have world: "cli_world ?E disk_view mem_view"
    by (rule cli_world.intro)
      (simp_all add: demo_cli_def mem_disk.state_files_axioms sim_keys.lawful_keyring_axioms demo_profile_codec_ok demo_session_codec_ok)
  have fresh: "fresh_generation (ce_cred_codec ?E) (mem_view (snd (f, demo_keys))) account demo_generation" for account
    by (rule demo_fresh) (simp add: demo_keys_def)
  have identity: "\<exists>i. persist_oidc_identity ?E ?ctx i (f, demo_keys) = (Ok ctx', (f', demo_login_keys n)) \<and> [0x75] = id_username i \<and>
      StoredOidc [0x72] [0x69] [0x75] = StoredOidc (id_refresh_token i) (id_user_id i) (id_username i)"
    using 2(1) by (intro exI [of _ demo_login_identity]) (simp add: demo_login_identity_def)
  show ?thesis using login_is_found [OF world g(1) 1(1) g(2) fresh disjI2 [OF identity] 3 4] 1(1) 2(1) 3 4 by blast
qed

lemma demo_login_history: "\<exists>n. credential_history demo_cred_codec (sim_keyring (\<lambda>_. False)) mem_view demo_id32 (demo_login_keys n)"
proof -
  obtain n where "login_save demo_cli_env demo_id32 demo_stored (fst (demo_start demo_keys), demo_keys) = (Ok (), (fst (demo_start demo_keys), demo_login_keys n))"
    using demo_login_save by blast
  then have save: "credential_save demo_cred_codec (sim_keyring (\<lambda>_. False)) (Some demo_generation) demo_id32 demo_stored demo_keys = (Ok (), demo_login_keys n)"
    by (auto simp: login_save_def on_keys_def demo_cli_def split: prod.splits)
  have "credential_history demo_cred_codec (sim_keyring (\<lambda>_. False)) mem_view demo_id32 (demo_login_keys n)"
    by (rule history_save [OF history_start demo_fresh save]) (simp_all add: demo_keys_def mem_view_def)
  then show ?thesis by blast
qed

theorem removed_login_is_gone_witness:
  "\<exists>n removed c'. logout_profile demo_cli_env (Some [0x61]) (demo_start (demo_login_keys n)) = (Ok ([0x61], removed), c') \<and>
     mem_view (demo_login_keys n) demo_id32 \<noteq> None \<and> mem_view (snd c') demo_id32 = None"
proof -
  obtain n where h: "credential_history demo_cred_codec (sim_keyring (\<lambda>_. False)) mem_view demo_id32 (demo_login_keys n)"
    using demo_login_history by blast
  let ?c = "demo_start (demo_login_keys n)"
  have id: "prof_credential_id demo_cli_profile = demo_id32" by (simp add: demo_cli_profile_def)
  obtain f where 1: "store_load demo_cli_env ?c = (Ok demo_cli_state, (f, demo_login_keys n))" "demo_ready demo_cli_state f"
    using demo_load [where K = demo_cred_codec, of demo_cli_state ?c] by auto
  obtain k where 2: "login_delete demo_cli_env demo_id32 (f, demo_login_keys n) = (Ok True, (f, k))" using demo_login_delete by blast
  have op: "logout_operation [0x61] demo_cli_state = Ok ((), demo_out_state)"
    by (simp add: logout_operation_def modify_profile_def) (simp add: demo_cli_state_def demo_out_state_def)
  obtain f' where 3: "store_update demo_cli_env (logout_operation [0x61]) (f, k) = (Ok (), (f', k))"
    using demo_store [where K = demo_cred_codec and operation = "logout_operation [0x61]", OF _ op, of "(f, k)"] 1(2) by auto
  have "validate_profile_name [0x61] = Ok ()"
    by (simp add: validate_profile_name_def is_ascii_alphanumeric_def utf8_char_def)
  then have r: "logout_profile demo_cli_env (Some [0x61]) ?c = (Ok ([0x61], True), (f', k))"
    by (simp add: logout_profile_def cbind_Ok [where m = "store_load demo_cli_env", OF 1(1)] ok_or_def logout_loaded_def id
        cbind_Ok [where m = "login_delete demo_cli_env demo_id32", OF 2] cbind_Ok [where m = "store_update demo_cli_env (logout_operation [0x61])", OF 3])
  have doc: "demo_login_document ?c = Ok demo_cli_state" by (rule demo_ready_document) simp_all
  from removed_login_is_gone [OF demo_world.cli_world_axioms doc demo_profile_lookup(1) _ disjI2 [OF r]]
  have gone: "mem_view k demo_id32 = None" by (auto simp: id login_gone_def)
  have "mem_view (demo_login_keys n) demo_id32 \<noteq> None" by (simp add: mem_view_def demo_login_keys_def)
  with r gone show ?thesis by (intro exI [of _ n] exI [of _ True] exI [of _ "(f', k)"]) simp
qed

text \<open>The arguments give the profile another user name, which is blank.\<close>

definition demo_blank_user :: profile_set_args where
  "demo_blank_user =
     \<lparr>ps_name = [0x61], ps_domain = None, ps_device_id = None, ps_username = Some [0x20], ps_unset_username = False, ps_line = None,
      ps_routing = \<lparr>pr_overrides = \<lparr>ra_mode = None, ra_block_ipv6 = False, ra_allow_ipv6 = False\<rparr>, pr_unset_routing_mode = False,
        pr_routes = [], pr_unset_routes = False\<rparr>,
      ps_dns = dns_args_default, ps_reset_dns = False, ps_unset_dns = []\<rparr>"

lemma demo_other_profile:
  "apply_profile_set demo_text (demo_blank_user\<lparr>ps_username := Some [0x62]\<rparr>) True None demo_cli_state = Ok ((), demo_other_state)"
proof -
  let ?A = "demo_blank_user\<lparr>ps_username := Some [0x62]\<rparr>" and ?p = "demo_cli_profile\<lparr>prof_username := Some [0x62]\<rparr>"
  have "patch_identity ?A demo_cli_profile = ?p" by (simp add: patch_identity_def demo_blank_user_def)
  moreover have "patch_profile_routing demo_text (ps_routing ?A) r = Ok r" for r
    by (simp add: patch_profile_routing_def demo_blank_user_def ipv6_override_def)
  moreover have "patch_profile_dns ?A (prof_dns ?p) = prof_dns ?p"
    by (simp add: patch_profile_dns_def demo_blank_user_def patch_profile_def dns_args_default_def with_servers_def with_split_domains_def
        with_doh_hosts_def)
  moreover have "ps_name ?A = [0x61]" by (simp add: demo_blank_user_def)
  moreover have "?p\<lparr>prof_routing := prof_routing ?p, prof_dns := prof_dns ?p\<rparr> = ?p" by simp
  moreover have "demo_cli_state\<lparr>st_profiles := insert_profile [0x61] (?p\<lparr>prof_credential_id := []\<rparr>) (st_profiles demo_cli_state)\<rparr> = demo_other_state"
    by (simp add: demo_cli_state_def demo_other_state_def)
  ultimately show ?thesis by (simp add: apply_profile_set_def profile_to_set_def demo_profile_valid Let_def)
qed

theorem set_profile_separates_logins_witness:
  "\<exists>n q dflt c'. set_profile demo_cli_env (demo_blank_user\<lparr>ps_username := Some [0x62]\<rparr>) (demo_start (demo_login_keys n)) = (Ok (q, dflt), c') \<and>
     prof_credential_id q = [] \<and> mem_view (demo_login_keys n) demo_id32 \<noteq> None \<and> mem_view (snd c') demo_id32 = None"
proof -
  let ?A = "demo_blank_user\<lparr>ps_username := Some [0x62]\<rparr>" and ?k = "demo_login_keys 0" and ?c = "demo_start (demo_login_keys 0)"
  let ?q = "demo_cli_profile\<lparr>prof_username := Some [0x62], prof_credential_id := []\<rparr>"
  have A: "ps_name ?A = [0x61]" "authentication_changed ?A (Some demo_cli_profile)" "ce_text demo_cli_env = demo_text"
    by (simp_all add: demo_blank_user_def authentication_changed_def demo_cli_def demo_cli_profile_def)
  have id: "prof_credential_id demo_cli_profile = demo_id32" by (simp add: demo_cli_profile_def)
  obtain f where 1: "store_load demo_cli_env ?c = (Ok demo_cli_state, (f, ?k))" "demo_ready demo_cli_state f"
    using demo_load [where K = demo_cred_codec, of demo_cli_state ?c] by auto
  obtain m where d: "login_delete demo_cli_env demo_id32 (f, ?k) = (Ok True, (f, \<lparr>mem_calls = m, mem_files = []\<rparr>))"
    using demo_login_delete by blast
  let ?k1 = "\<lparr>mem_calls = m, mem_files = []\<rparr>"
  obtain f' where 2: "store_update demo_cli_env (apply_profile_set demo_text ?A True None) (f, ?k1) = (Ok (), (f', ?k1))"
    "demo_ready demo_other_state f'"
    using demo_store [where K = demo_cred_codec and operation = "apply_profile_set demo_text ?A True None", OF _ demo_other_profile, of "(f, ?k1)"] 1(2) by auto
  obtain f'' where 3: "store_load demo_cli_env (f', ?k1) = (Ok demo_other_state, (f'', ?k1))"
    using demo_load [where K = demo_cred_codec, of demo_other_state "(f', ?k1)"] 2(2) by auto
  have q: "get_profile demo_other_state [0x61] = Ok ?q" "st_default_profile demo_other_state = Some [0x61]"
    by (simp_all add: demo_other_state_def demo_cli_state_def get_profile_def ok_or_def)
  have "validate_profile_name [0x61] = Ok ()" by (simp add: validate_profile_name_def is_ascii_alphanumeric_def utf8_char_def)
  then have r: "set_profile demo_cli_env ?A ?c = (Ok (?q, Some [0x61]), (f'', ?k1))"
    using A q by (simp add: set_profile_def cbind_Ok [where m = "store_load demo_cli_env", OF 1(1)] change_profile_def forget_login_def id opt_filter_def
        cbind_Ok [where m = "login_delete demo_cli_env demo_id32", OF d])
      (simp add: cbind_def cdone_def d 2(1) 3)
  have doc: "demo_login_document ?c = Ok demo_cli_state" by (rule demo_ready_document) simp_all
  from set_profile_separates_logins [OF demo_world.cli_world_axioms doc r] A id
  have "login_gone demo_cli_env mem_view demo_id32 ?k ?k1" by auto
  then have "mem_view ?k1 demo_id32 = None" by (simp add: login_gone_def)
  moreover have "mem_view ?k demo_id32 \<noteq> None" by (simp add: mem_view_def demo_login_keys_def)
  ultimately show ?thesis using r by (intro exI [of _ 0] exI [of _ ?q] exI) auto
qed

section \<open>A refused change\<close>

text \<open>(a refused change loses the login). A change that is refused because the new user name is not valid leaves the
  stored profile as it was, with its saved login, but that login has been deleted from the key store.\<close>

theorem refused_change_loses_login:
  "\<exists>n e c'. set_profile demo_cli_env demo_blank_user (demo_start (demo_login_keys n)) = (Err e, c') \<and>
     demo_login_document c' = Ok demo_cli_state \<and> prof_credential_id demo_cli_profile = demo_id32 \<and>
     mem_view (demo_login_keys n) demo_id32 \<noteq> None \<and> mem_view (snd c') demo_id32 = None"
proof -
  obtain n where n: "credential_history demo_cred_codec (sim_keyring (\<lambda>_. False)) mem_view demo_id32 (demo_login_keys n)"
    using demo_login_history by blast
  let ?c = "demo_start (demo_login_keys n)" and ?A = demo_blank_user
  have A: "ps_name ?A = [0x61]" "authentication_changed ?A (Some demo_cli_profile)"
    by (simp_all add: demo_blank_user_def authentication_changed_def demo_cli_profile_def)
  have id: "prof_credential_id demo_cli_profile = demo_id32" by (simp add: demo_cli_profile_def)
  obtain f where 1: "store_load demo_cli_env ?c = (Ok demo_cli_state, (f, demo_login_keys n))" "demo_ready demo_cli_state f"
    using demo_load [where K = demo_cred_codec, of demo_cli_state ?c] by auto
  obtain m where 2: "login_delete demo_cli_env demo_id32 (f, demo_login_keys n) = (Ok True, (f, \<lparr>mem_calls = m, mem_files = []\<rparr>))"
    using demo_login_delete by blast
  obtain e where op: "apply_profile_set demo_text ?A True None demo_cli_state = Err e"
    by (simp add: apply_profile_set_def profile_to_set_def A(1) patch_profile_routing_def Let_def)
      (auto simp: demo_blank_user_def ipv6_override_def patch_identity_def profile_validate_def demo_cli_profile_def Let_def str_trim_def is_whitespace_def
        validate_domain_def domain_char_def is_ascii_alphanumeric_def validate_device_id_def utf8_char_def)
  obtain f' where 3: "store_update demo_cli_env (apply_profile_set demo_text ?A True None) (f, \<lparr>mem_calls = m, mem_files = []\<rparr>) =
      (Err e, (f', \<lparr>mem_calls = m, mem_files = []\<rparr>))" "demo_ready demo_cli_state f'"
    using demo_refused [where K = demo_cred_codec and operation = "apply_profile_set demo_text ?A True None", OF _ op, of "(f, \<lparr>mem_calls = m, mem_files = []\<rparr>)"] 1(2) by auto
  have "validate_profile_name [0x61] = Ok ()"
    by (simp add: validate_profile_name_def is_ascii_alphanumeric_def utf8_char_def)
  moreover have "ce_text demo_cli_env = demo_text" by (simp add: demo_cli_def)
  ultimately have "set_profile demo_cli_env ?A ?c = (Err e, (f', \<lparr>mem_calls = m, mem_files = []\<rparr>))"
    by (simp add: set_profile_def A cbind_Ok [where m = "store_load demo_cli_env", OF 1(1)] change_profile_def forget_login_def id opt_filter_def
        cbind_Ok [where m = "login_delete demo_cli_env demo_id32", OF 2])
      (simp add: cbind_def cdone_def 2 3(1))
  moreover have "demo_login_document (f', \<lparr>mem_calls = m, mem_files = []\<rparr>) = Ok demo_cli_state"
    by (rule demo_ready_document) (simp_all add: 3(2))
  ultimately show ?thesis using id by (intro exI [of _ n] exI) (auto simp: mem_view_def demo_login_keys_def)
qed

end
