(* ===== verification/Cli_Login.thy ===== *)
theory Cli_Login
  imports Cli_Profiles
begin

text \<open>
  The login of the command line program (\<open>src/bin/openiwan.rs\<close>): where passwords come from, the use of a saved login,
  the two ways to log in to a managed domain and what is saved afterwards. It composes the flows of \<open>Managed_Workflow\<close>
  with the saved logins of \<open>Cli_Profiles\<close>. The terminal, the variables of the environment and the files a user names are
  the parameter \<open>user_env\<close>.
\<close>

section \<open>Secrets of the user\<close>

record user_env =
  ue_unix :: bool
  ue_mode :: "ustr \<Rightarrow> error_kind + u32"
  ue_read_text :: "ustr \<Rightarrow> error_kind + ustr"
  ue_read :: "ustr \<Rightarrow> error_kind + bytes"
  ue_variable :: "ustr \<Rightarrow> ustr option"
  ue_password :: "error_kind + ustr"
  ue_line :: "error_kind + ustr"

definition validate_secret_file :: "user_env \<Rightarrow> ustr \<Rightarrow> unit result" where
  "validate_secret_file U path =
     (if \<not> ue_unix U then Ok ()
      else case ue_mode U path of
        Inl k \<Rightarrow> Err (Io k)
      | Inr mode \<Rightarrow>
          if mode AND 0x3f \<noteq> 0 then Err (InvalidConfig ''{}: permissions allow access by group or other users'') else Ok ())"

text \<open>\<open>lines().next()\<close>: a line ends with a line feed, and a carriage return before it belongs to the end.\<close>

definition first_line :: "ustr \<Rightarrow> ustr option" where
  "first_line s =
     (if s = [] then None
      else let l = takeWhile (\<lambda>c. c \<noteq> 0x0a) s in
        Some (if 0x0a \<in> set s \<and> l \<noteq> [] \<and> last l = 0x0d then butlast l else l))"

definition password_from_file :: "user_env \<Rightarrow> ustr \<Rightarrow> ustr result" where
  "password_from_file U path =
     rbind (validate_secret_file U path) (\<lambda>_.
     case ue_read_text U path of
       Inl k \<Rightarrow> Err (Io k)
     | Inr contents \<Rightarrow> ok_or (InvalidConfig ''password file is empty'') (opt_filter (\<lambda>p. p \<noteq> []) (first_line contents)))"

definition prompt_password :: "user_env \<Rightarrow> ustr result" where
  "prompt_password U =
     (case ue_password U of
        Inl k \<Rightarrow> Err (Io k)
      | Inr p \<Rightarrow> if p = [] then Err (InvalidConfig ''password must not be empty'') else Ok p)"

definition prompt_line :: "user_env \<Rightarrow> ustr result" where
  "prompt_line U =
     (case ue_line U of
        Inl k \<Rightarrow> Err (Io k)
      | Inr v \<Rightarrow> if str_trim v = [] then Err (InvalidConfig ''callback URL is empty'') else Ok (str_trim v))"

section \<open>A client from the command line\<close>

record connection_args =
  ca_config :: "ustr option"
  ca_server :: "ustr option"
  ca_username :: ustr
  ca_password_env :: ustr
  ca_password_file :: "ustr option"
  ca_mtu :: "u16 option"
  ca_encryption :: "encryption_method option"

definition read_secret :: "user_env \<Rightarrow> connection_args \<Rightarrow> ustr result" where
  "read_secret U A =
     (case ca_password_file A of
        Some path \<Rightarrow> password_from_file U path
      | None \<Rightarrow>
          (case opt_filter (\<lambda>p. p \<noteq> []) (ue_variable U (ca_password_env A)) of
             Some p \<Rightarrow> Ok p
           | None \<Rightarrow> prompt_password U))"

definition base_config :: "user_env \<Rightarrow> (ustr \<Rightarrow> client_config option) \<Rightarrow> connection_args \<Rightarrow> client_config result" where
  "base_config U parse_toml A =
     (case ca_config A of
        Some path \<Rightarrow>
          (case ue_read_text U path of
             Inl k \<Rightarrow> Err (Io k)
           | Inr contents \<Rightarrow> ok_or (InvalidConfig ''{}: {error}'') (parse_toml contents))
      | None \<Rightarrow> rmap config_new (ok_or (InvalidConfig ''specify --server or --config'') (ca_server A)))"

definition with_connection_args :: "connection_args \<Rightarrow> client_config \<Rightarrow> client_config" where
  "with_connection_args A cfg =
     (let cfg = (case ca_server A of Some s \<Rightarrow> cfg\<lparr>server := s\<rparr> | None \<Rightarrow> cfg);
          cfg = (case ca_mtu A of Some m \<Rightarrow> cfg\<lparr>config_mtu := m\<rparr> | None \<Rightarrow> cfg)
      in case ca_encryption A of Some e \<Rightarrow> cfg\<lparr>config_encryption := e\<rparr> | None \<Rightarrow> cfg)"

definition build_client ::
  "user_env \<Rightarrow> (ustr \<Rightarrow> client_config option) \<Rightarrow> (ustr \<Rightarrow> error_kind + socket_addr list) \<Rightarrow> connection_args \<Rightarrow>
     (client_config \<times> connection_credentials) result" where
  "build_client U parse_toml resolver A =
     rbind (base_config U parse_toml A) (\<lambda>cfg.
     let cfg = with_connection_args A cfg in
     rbind (read_secret U A) (\<lambda>password.
     rbind (config_validate resolver cfg) (\<lambda>_.
     Ok (cfg, \<lparr>con_username = ca_username A, con_password = password\<rparr>))))"

section \<open>Logging in\<close>

record managed_auth_args =
  ma_username :: "ustr option"
  ma_password_file :: "ustr option"
  ma_posture_results :: "ustr option"
  ma_non_interactive :: bool

datatype authentication_intent = FreshAndPersist | ReuseOrEphemeral

abbreviation (input) MANAGED_PASSWORD_ENV :: ustr where "MANAGED_PASSWORD_ENV \<equiv> ascii_str ''OPENIWAN_PASSWORD''"

definition MANAGED_OIDC_REDIRECT_URI :: ustr where
  "MANAGED_OIDC_REDIRECT_URI = ascii_str ''com.panabit.mobile://oauth2redirect''"

definition read_explicit_managed_secret :: "user_env \<Rightarrow> managed_auth_args \<Rightarrow> ustr option result" where
  "read_explicit_managed_secret U A =
     (case ma_password_file A of
        Some path \<Rightarrow> rmap Some (password_from_file U path)
      | None \<Rightarrow> Ok (opt_filter (\<lambda>p. p \<noteq> []) (ue_variable U MANAGED_PASSWORD_ENV)))"

definition read_posture_results :: "user_env \<Rightarrow> json_lib \<Rightarrow> ustr option \<Rightarrow> json list result" where
  "read_posture_results U J path =
     (case path of
        None \<Rightarrow> Ok []
      | Some path \<Rightarrow>
          (case ue_read U path of
             Inl k \<Rightarrow> Err (Io k)
           | Inr bs \<Rightarrow>
               rbind (ok_or (InvalidConfig ''{}: {error}'') (json_from_slice J bs)) (\<lambda>v.
               ok_or (InvalidConfig ''{}: expected a JSON array'') (as_array v))))"

definition saved_credentials_rejected :: "error \<Rightarrow> error" where
  "saved_credentials_rejected e = CredentialStore ''saved credentials rejected: {error}; run `openiwan managed login`''"

abbreviation other_method :: error where
  "other_method \<equiv> CredentialStore ''saved credentials use a different authentication method; run `openiwan managed login`''"

definition is_stored_oidc :: "stored_credential option \<Rightarrow> bool" where
  "is_stored_oidc s = (case s of Some (StoredOidc _ _ _) \<Rightarrow> True | _ \<Rightarrow> False)"

definition is_stored_password :: "stored_credential option \<Rightarrow> bool" where
  "is_stored_password s = (case s of Some (StoredPassword _ _) \<Rightarrow> True | _ \<Rightarrow> False)"

text \<open>The saved password, if it was saved for this user.\<close>

definition saved_password_of :: "stored_credential option \<Rightarrow> ustr \<Rightarrow> ustr option" where
  "saved_password_of s username =
     (case s of Some (StoredPassword u p) \<Rightarrow> if u = username then Some p else None | _ \<Rightarrow> None)"

definition password_username :: "managed_auth_args \<Rightarrow> managed_context \<Rightarrow> stored_credential option \<Rightarrow> ustr result" where
  "password_username A ctx s =
     ok_or (InvalidConfig ''--username is required for password authentication'')
       (case ma_username A of
          Some u \<Rightarrow> Some u
        | None \<Rightarrow>
            (case ctx_username ctx of
               Some u \<Rightarrow> Some u
             | None \<Rightarrow> (case s of Some (StoredPassword u _) \<Rightarrow> Some u | _ \<Rightarrow> None)))"

definition choose_password :: "user_env \<Rightarrow> managed_auth_args \<Rightarrow> ustr option \<Rightarrow> stored_credential option \<Rightarrow> ustr \<Rightarrow> ustr result" where
  "choose_password U A explicit s username =
     (case explicit of
        Some p \<Rightarrow> Ok p
      | None \<Rightarrow>
          (case saved_password_of s username of
             Some p \<Rightarrow> Ok p
           | None \<Rightarrow>
               if ma_non_interactive A
               then Err (CredentialStore ''no password available; run `openiwan managed login` or set OPENIWAN_PASSWORD'')
               else prompt_password U))"

text \<open>The user name and the password to log in with, and whether the latter is the saved one.\<close>

definition managed_password ::
  "('s, 'k) cli_env \<Rightarrow> user_env \<Rightarrow> managed_context \<Rightarrow> managed_auth_args \<Rightarrow> authentication_intent \<Rightarrow> ('s, 'k, ustr \<times> ustr \<times> bool) cli" where
  "managed_password E U ctx A intent =
     cbind (cdone (read_explicit_managed_secret U A)) (\<lambda>explicit.
     cbind (if explicit = None \<and> intent = ReuseOrEphemeral then load_stored_credential E (ctx_credential_id ctx)
            else cdone (Ok None)) (\<lambda>s.
     if is_stored_oidc s then cdone (Err other_method)
     else
     cbind (cdone (password_username A ctx s)) (\<lambda>username.
     cbind (cdone (choose_password U A explicit s username)) (\<lambda>password.
     cdone (Ok (username, password, saved_password_of s username \<noteq> None))))))"

text \<open>A login ends with the prepared connection and the context, or with an error; \<open>None\<close> is a login that does not end.\<close>

type_synonym ('s, 'k) login_outcome =
  "((prepared_connection \<times> managed_context) result \<times> http_request list \<times> ('s, 'k) cli_world_state) option"

definition login_error :: "bool \<Rightarrow> error \<Rightarrow> error" where
  "login_error used_saved e = (if used_saved then saved_credentials_rejected e else e)"

definition finish_login ::
  "authentication_intent \<Rightarrow> ('s, 'k, managed_context) cli \<Rightarrow> managed_context \<Rightarrow> prepared_connection \<Rightarrow> http_request list \<Rightarrow>
     ('s, 'k) cli_world_state \<Rightarrow> ('s, 'k) login_outcome" where
  "finish_login intent persist ctx prepared log c =
     (if intent = FreshAndPersist
      then case persist c of
             (Inl e, c) \<Rightarrow> Some (Err e, log, c)
           | (Inr ctx, c) \<Rightarrow> Some (Ok (prepared, ctx), log, c)
      else Some (Ok (prepared, ctx), log, c))"


text \<open>The error for a missing identifier stands for the \<open>expect\<close>.\<close>

definition refresh_saved_oidc ::
  "('s, 'k) cli_env \<Rightarrow> workflow_env \<Rightarrow> int \<Rightarrow> discovered_domain \<Rightarrow> managed_context \<Rightarrow> ustr \<Rightarrow> ustr \<Rightarrow> ustr \<Rightarrow> http_request list \<Rightarrow>
     ('s, 'k) cli_world_state \<Rightarrow> oidc_identity result \<times> http_request list \<times> ('s, 'k) cli_world_state" where
  "refresh_saved_oidc E W now domain ctx refresh_token user_id username log c =
     (case refresh_oidc W now domain MANAGED_OIDC_REDIRECT_URI refresh_token user_id username log of
        (Inl e, log) \<Rightarrow> (Err e, log, c)
      | (Inr identity, log) \<Rightarrow>
          (case cbind (cdone (ok_or (CredentialStore ''loaded above'') (ctx_credential_id ctx)))
                  (\<lambda>i. save_oidc_identity E i identity) c of
             (Inl e, c) \<Rightarrow> (Err e, log, c)
           | (Inr _, c) \<Rightarrow> (Ok identity, log, c)))"

definition interactive_oidc ::
  "workflow_env \<Rightarrow> user_env \<Rightarrow> oidc_random \<Rightarrow> int \<Rightarrow> discovered_domain \<Rightarrow> http_request list \<Rightarrow> oidc_identity result \<times> http_request list" where
  "interactive_oidc W U rnd now domain log =
     (case rbind (begin_oidc W rnd domain MANAGED_OIDC_REDIRECT_URI) (\<lambda>pending. rmap (Pair pending) (prompt_line U)) of
        Inl e \<Rightarrow> (Err e, log)
      | Inr (pending, redirect) \<Rightarrow> complete_oidc W now pending redirect log)"

text \<open>The identity to log in with: that of the saved session, or one from the browser.\<close>

definition managed_identity ::
  "('s, 'k) cli_env \<Rightarrow> workflow_env \<Rightarrow> user_env \<Rightarrow> oidc_random \<Rightarrow> int \<Rightarrow> discovered_domain \<Rightarrow> managed_context \<Rightarrow> managed_auth_args \<Rightarrow>
     stored_credential option \<Rightarrow> http_request list \<Rightarrow> ('s, 'k) cli_world_state \<Rightarrow>
     oidc_identity result \<times> http_request list \<times> ('s, 'k) cli_world_state" where
  "managed_identity E W U rnd now domain ctx A s log c =
     (case s of
        Some (StoredOidc refresh_token user_id username) \<Rightarrow>
          (case refresh_saved_oidc E W now domain ctx refresh_token user_id username log c of
             (Inl e, log, c) \<Rightarrow> (Err (saved_credentials_rejected e), log, c)
           | x \<Rightarrow> x)
      | _ \<Rightarrow>
          if ma_non_interactive A
          then (Err (CredentialStore ''no saved OIDC session; run `openiwan managed login`''), log, c)
          else (case interactive_oidc W U rnd now domain log of (r, log) \<Rightarrow> (r, log, c)))"

definition oidc_login_saved ::
  "('s, 'k) cli_env \<Rightarrow> workflow_env \<Rightarrow> user_env \<Rightarrow> discovered_domain \<Rightarrow> managed_context \<Rightarrow> managed_auth_args \<Rightarrow>
     line_preference \<Rightarrow> authentication_intent \<Rightarrow> bool \<Rightarrow> oidc_identity \<Rightarrow> http_request list \<Rightarrow> ('s, 'k) cli_world_state \<Rightarrow> ('s, 'k) login_outcome" where
  "oidc_login_saved E W U domain ctx A line intent used_saved identity log c =
     (case read_posture_results U (we_json W) (ma_posture_results A) of
        Inl e \<Rightarrow> Some (Err e, log, c)
      | Inr results \<Rightarrow>
          (case oidc_login_with_options W domain (ctx_device_id ctx) identity
                  \<lparr>opt_check_results = results, opt_posture_version = None, opt_line = line\<rparr> log of
             None \<Rightarrow> None
           | Some (Inl e, log) \<Rightarrow> Some (Err (login_error used_saved e), log, c)
           | Some (Inr prepared, log) \<Rightarrow> finish_login intent (persist_oidc_identity E ctx identity) ctx prepared log c))"

definition prepare_managed_oidc ::
  "('s, 'k) cli_env \<Rightarrow> workflow_env \<Rightarrow> user_env \<Rightarrow> oidc_random \<Rightarrow> int \<Rightarrow> discovered_domain \<Rightarrow> managed_context \<Rightarrow> managed_auth_args \<Rightarrow>
     line_preference \<Rightarrow> authentication_intent \<Rightarrow> http_request list \<Rightarrow> ('s, 'k) cli_world_state \<Rightarrow> ('s, 'k) login_outcome" where
  "prepare_managed_oidc E W U rnd now domain ctx A line intent log c =
     (case (if intent = ReuseOrEphemeral then load_stored_credential E (ctx_credential_id ctx) else cdone (Ok None)) c of
        (Inl e, c) \<Rightarrow> Some (Err e, log, c)
      | (Inr s, c) \<Rightarrow>
          if is_stored_password s then Some (Err other_method, log, c)
          else
            (case managed_identity E W U rnd now domain ctx A s log c of
               (Inl e, log, c) \<Rightarrow> Some (Err e, log, c)
             | (Inr identity, log, c) \<Rightarrow> oidc_login_saved E W U domain ctx A line intent (is_stored_oidc s) identity log c))"








section \<open>What a login keeps\<close>

lemma managed_password_OkD:
  assumes "managed_password E U ctx A intent c = (Ok (username, password, used), c')"
  shows "\<exists>explicit s. read_explicit_managed_secret U A = Ok explicit \<and>
    (if explicit = None \<and> intent = ReuseOrEphemeral then load_stored_credential E (ctx_credential_id ctx) c = (Ok s, c') else s = None \<and> c' = c) \<and>
    \<not> is_stored_oidc s \<and> choose_password U A explicit s username = Ok password \<and> password_username A ctx s = Ok username \<and>
    used = (saved_password_of s username \<noteq> None)"
proof -
  from assms obtain explicit s c1 where 1: "read_explicit_managed_secret U A = Ok explicit"
    "(if explicit = None \<and> intent = ReuseOrEphemeral then load_stored_credential E (ctx_credential_id ctx) else cdone (Ok None)) c = (Ok s, c1)"
    "(if is_stored_oidc s then cdone (Err other_method) else
     cbind (cdone (password_username A ctx s)) (\<lambda>username.
     cbind (cdone (choose_password U A explicit s username)) (\<lambda>password.
     cdone (Ok (username, password, saved_password_of s username \<noteq> None))))) c1 = (Ok (username, password, used), c')"
    unfolding managed_password_def by (elim cbind_cdoneE cbind_OkE)
  have o: "\<not> is_stored_oidc s" using 1(3) by (cases "is_stored_oidc s") simp_all
  with 1(3) obtain u p where "password_username A ctx s = Ok u" "choose_password U A explicit s u = Ok p"
    "cdone (Ok (u, p, saved_password_of s u \<noteq> None)) c1 = (Ok (username, password, used), c')"
    by (simp only: if_False) (elim cbind_cdoneE)
  then show ?thesis using 1(1,2) o by (auto split: if_splits)
qed


lemma load_stored_view:
  assumes "cli_world E fview kview" "load_stored_credential E account c = (r, c')"
  shows "kview (snd c') = kview (snd c)"
  using secret_vault.load_refines [OF lawful_keyring.vault [OF cli_world.keys [OF assms(1)]], of "ce_cred_codec E" _ "snd c"] assms(2)
  by (fastforce simp: load_stored_credential_def login_load_def on_keys_def credential_load_def split: option.splits prod.splits sum.splits)

text \<open>(a saved password is for its user). The password a login uses is the one the user gave in a file or a variable, or,
  when a login is reused, the one saved under the profile for exactly the user who logs in, or one typed at the prompt,
  which is not shown when the command may not ask.\<close>

theorem saved_password_for_its_user:
  assumes "managed_password E U ctx A intent c = (Ok (username, password, used), c')"
  shows "read_explicit_managed_secret U A = Ok (Some password) \<and> \<not> used \<or>
    read_explicit_managed_secret U A = Ok None \<and>
      (used \<and> intent = ReuseOrEphemeral \<and> (\<exists>i k. ctx_credential_id ctx = Some i \<and>
         credential_load (ce_cred_codec E) (ce_keys E) i (snd c) = (Ok (Some (StoredPassword username password)), k)) \<or>
       \<not> used \<and> \<not> ma_non_interactive A \<and> prompt_password U = Ok password)"
proof -
  from managed_password_OkD [OF assms] obtain explicit s where 1: "read_explicit_managed_secret U A = Ok explicit"
    "if explicit = None \<and> intent = ReuseOrEphemeral then load_stored_credential E (ctx_credential_id ctx) c = (Ok s, c') else s = None \<and> c' = c"
    "choose_password U A explicit s username = Ok password" "used = (saved_password_of s username \<noteq> None)" by blast
  show ?thesis
  proof (cases explicit)
    case (Some p)
    then show ?thesis using 1 by (simp add: choose_password_def saved_password_of_def)
  next
    case None
    show ?thesis
    proof (cases "saved_password_of s username")
      case None
      then show ?thesis using 1 \<open>explicit = None\<close> by (auto simp: choose_password_def split: if_splits)
    next
      case (Some p)
      then have s: "s = Some (StoredPassword username p)" by (auto simp: saved_password_of_def split: option.splits stored_credential.splits if_splits)
      then have l: "intent = ReuseOrEphemeral" "load_stored_credential E (ctx_credential_id ctx) c = (Ok s, c')"
        using 1(2) None by (auto split: if_splits)
      have p: "p = password" using 1(3) None Some by (simp add: choose_password_def)
      obtain i where i: "ctx_credential_id ctx = Some i" using l(2) s by (auto simp: load_stored_credential_def split: option.splits)
      have "credential_load (ce_cred_codec E) (ce_keys E) i (snd c) = (Ok s, snd c')"
        using l(2) i by (auto simp: load_stored_credential_def login_load_def on_keys_def split: prod.splits)
      then show ?thesis using 1(1,4) None Some s l(1) i p by auto
    qed
  qed
qed



text \<open>What saving an identity leaves of the one saved before.\<close>

lemma save_identity_loads:
  assumes "cli_world E fview kview" "ce_generation_random E = Some random" "fresh_generation (ce_cred_codec E) (kview (snd c)) i random"
    and "credential_load (ce_cred_codec E) (ce_keys E) i s = (Ok old, s0)" "kview s0 = kview (snd c)"
    and "save_oidc_identity E i identity c = (r, c')" "credential_load (ce_cred_codec E) (ce_keys E) i (snd c') = (l, k')"
  shows "read_error (operating_system_store (ce_keys E)) l \<or>
    (if is_ok r then l = Ok (Some (StoredOidc (id_refresh_token identity) (id_user_id identity) (id_username identity))) else l = Ok old)"
proof -
  let ?C = "ce_cred_codec E" and ?S = "operating_system_store (ce_keys E)"
  let ?new = "StoredOidc (id_refresh_token identity) (id_user_id identity) (id_username identity)"
  note vault = lawful_keyring.vault [OF cli_world.keys [OF assms(1)]]
  have old: "stored ?C (kview (snd c)) i = Ok old"
    using secret_vault.load_refines [OF vault, of ?C i s "Ok old" s0] assms(4,5)
    by (auto simp: credential_load_def split: sum.splits)
  have load: "load_from ?C ?S i (snd c') = (l, k')"
    using assms(4,7) by (auto simp: credential_load_def split: sum.splits)
  note l = secret_vault.load_refines [OF vault load]
  show ?thesis
  proof (cases "id_refresh_token identity = []")
    case True
    then have "c' = c" "r = Err (CredentialStore ''the identity provider did not issue a refresh token; this login cannot be saved'')"
      using assms(6) by (auto simp: save_oidc_identity_def)
    then show ?thesis using l old by (auto simp: is_ok_def)
  next
    case False
    then have s: "credential_save ?C (ce_keys E) (Some random) i ?new (snd c) = (r, snd c')"
      using assms(2,6) by (auto simp: save_oidc_identity_def login_save_def on_keys_def split: prod.splits)
    show ?thesis
    proof (cases r)
      case (Inr u)
      then show ?thesis
        using save_then_load [OF cli_world.keys [OF assms(1)] cli_world.secrets [OF assms(1)] assms(3), of ?new "snd c'" l k'] s assms(7)
        by (auto simp: is_ok_def)
    next
      case (Inl e)
      then have "save_to ?C ?S (Some random) i ?new (snd c) = (Err e, snd c')"
        using s assms(4) by (auto simp: credential_save_def credential_load_def split: sum.splits)
      from secret_vault.save_fails [OF vault this assms(3)] show ?thesis using l old Inl by (auto simp: is_ok_def)
    qed
  qed
qed

lemma ephemeral_login:
  assumes "oidc_login_saved E W U domain ctx A line ReuseOrEphemeral used identity log c = Some (r, log', c')"
  shows "c' = c"
proof (cases "read_posture_results U (we_json W) (ma_posture_results A)")
  case (Inl e)
  then show ?thesis using assms by (simp add: oidc_login_saved_def)
next
  case (Inr results)
  obtain z where z: "oidc_login_with_options W domain (ctx_device_id ctx) identity
      \<lparr>opt_check_results = results, opt_posture_version = None, opt_line = line\<rparr> log = z" by simp
  show ?thesis using assms by (simp add: oidc_login_saved_def Inr z finish_login_def split: option.splits prod.splits sum.splits)
qed

lemma save_oidc_identity_files: "save_oidc_identity E account identity c = (r, c') \<Longrightarrow> fst c' = fst c"
  by (auto simp: save_oidc_identity_def login_save_def on_keys_def split: if_splits prod.splits)

lemma managed_identity_files:
  assumes "managed_identity E W U rnd now domain ctx A s log c = (x, log', c')"
  shows "fst c' = fst c"
  using assms by (auto simp: managed_identity_def refresh_saved_oidc_def ok_or_def dest!: save_oidc_identity_files
      split: option.splits stored_credential.splits prod.splits sum.splits if_splits)

lemma reused_session_kept:
  assumes "cli_world E fview kview" "ce_generation_random E = Some random" "fresh_generation (ce_cred_codec E) (kview (snd c)) i random"
    and "ctx_credential_id ctx = Some i"
    and "credential_load (ce_cred_codec E) (ce_keys E) i s = (Ok (Some (StoredOidc refresh_token user_id username)), s0)" "kview s0 = kview (snd c)"
    and "kview s = kview (snd c)"
    and "managed_identity E W U rnd now domain ctx A (Some (StoredOidc refresh_token user_id username)) log c = (x, log', c')"
    and "credential_load (ce_cred_codec E) (ce_keys E) i (snd c') = (l, k')"
  shows "read_error (operating_system_store (ce_keys E)) l \<or>
    l = Ok (Some (StoredOidc refresh_token user_id username)) \<and> \<not> is_ok x \<or>
    (\<exists>identity log1. refresh_oidc W now domain MANAGED_OIDC_REDIRECT_URI refresh_token user_id username log = (Ok identity, log1) \<and>
       l = Ok (Some (StoredOidc (id_refresh_token identity) (id_user_id identity) (id_username identity))))"
proof -
  let ?old = "StoredOidc refresh_token user_id username" and ?C = "ce_cred_codec E" and ?S = "operating_system_store (ce_keys E)"
  note vault = lawful_keyring.vault [OF cli_world.keys [OF assms(1)]]
  obtain y log2 where refresh: "refresh_oidc W now domain MANAGED_OIDC_REDIRECT_URI refresh_token user_id username log = (y, log2)"
    by fastforce
  show ?thesis
  proof (cases y)
    case (Inl e)
    then have c': "c' = c" "\<not> is_ok x" using assms(8) refresh by (auto simp: managed_identity_def refresh_saved_oidc_def is_ok_def)
    have "load_from ?C ?S i s = (Ok (Some ?old), s0)" "load_from ?C ?S i (snd c) = (l, k')"
      using assms(5,9) c'(1) by (auto simp: credential_load_def split: sum.splits)
    from secret_vault.load_refines [OF vault this(1)] secret_vault.load_refines [OF vault this(2)] assms(7) c'(2) show ?thesis by auto
  next
    case (Inr identity)
    obtain z c3 where save: "save_oidc_identity E i identity c = (z, c3)" by (cases "save_oidc_identity E i identity c")
    have saved: "refresh_saved_oidc E W now domain ctx refresh_token user_id username log c = (rmap (\<lambda>_. identity) z, log2, c3)"
      unfolding refresh_saved_oidc_def refresh Inr assms(4) ok_or_def by (cases z) (simp_all add: save rmap_def)
    have x: "c' = c3" "is_ok x \<longrightarrow> is_ok z"
      using assms(8) unfolding managed_identity_def option.case stored_credential.case saved
      by (cases z; auto simp: rmap_def is_ok_def)+
    from save_identity_loads [OF assms(1,2,3,5,6) save assms(9) [unfolded x(1)]] show ?thesis
      using refresh Inr x(2) by (auto split: if_splits)
  qed
qed

text \<open>C38 (a saved session survives). When a command reuses a saved single sign-on session, then however it ends, the session
  can be loaded afterwards, unless the key store cannot be read: it is the one saved before, or the one the provider
  issued for it just now, and the latter whenever the login succeeds. The files, with the profiles, are left as they were.\<close>

theorem saved_session_survives:
  assumes "cli_world E fview kview" "ce_generation_random E = Some random" "fresh_generation (ce_cred_codec E) (kview (snd c)) i random"
    and "ctx_credential_id ctx = Some i"
    and "credential_load (ce_cred_codec E) (ce_keys E) i (snd c) = (Ok (Some (StoredOidc refresh_token user_id username)), k)"
    and "prepare_managed_oidc E W U rnd now domain ctx A line ReuseOrEphemeral log c = Some (r, log', c')"
    and "credential_load (ce_cred_codec E) (ce_keys E) i (snd c') = (l, k')"
  shows "fst c' = fst c \<and>
    (read_error (operating_system_store (ce_keys E)) l \<or>
     l = Ok (Some (StoredOidc refresh_token user_id username)) \<and> \<not> is_ok r \<or>
     (\<exists>identity log1. refresh_oidc W now domain MANAGED_OIDC_REDIRECT_URI refresh_token user_id username log = (Ok identity, log1) \<and>
        l = Ok (Some (StoredOidc (id_refresh_token identity) (id_user_id identity) (id_username identity)))))"
proof -
  let ?old = "StoredOidc refresh_token user_id username"
  define c1 where "c1 = (fst c, k)"
  have load: "load_stored_credential E (ctx_credential_id ctx) c = (Ok (Some ?old), c1)"
    using assms(4,5) by (simp add: load_stored_credential_def login_load_def on_keys_def c1_def)
  have view: "kview (snd c1) = kview (snd c)" using load_stored_view [OF assms(1) load] .
  obtain x log1 c2 where id: "managed_identity E W U rnd now domain ctx A (Some ?old) log c1 = (x, log1, c2)"
    by (cases "managed_identity E W U rnd now domain ctx A (Some ?old) log c1")
  have run: "(case x of Inl e \<Rightarrow> Some (Err e, log1, c2)
      | Inr identity \<Rightarrow> oidc_login_saved E W U domain ctx A line ReuseOrEphemeral True identity log1 c2) = Some (r, log', c')"
    using assms(6) by (cases x) (simp_all add: prepare_managed_oidc_def load id is_stored_password_def is_stored_oidc_def)
  have c2: "c' = c2 \<and> (is_ok r \<longrightarrow> is_ok x)"
  proof (cases x)
    case (Inl e)
    then show ?thesis using run by (auto simp: is_ok_def)
  next
    case (Inr identity)
    then show ?thesis using run ephemeral_login [of E W U domain ctx A line True identity log1 c2 r log' c'] by (simp add: is_ok_def)
  qed
  have files: "fst c' = fst c" using c2 managed_identity_files [OF id] by (simp add: c1_def)
  have fresh: "fresh_generation (ce_cred_codec E) (kview (snd c1)) i random" using assms(3) view by simp
  have keep: "kview k = kview (snd c1)" by (simp add: c1_def)
  have "credential_load (ce_cred_codec E) (ce_keys E) i (snd c2) = (l, k')" using assms(7) c2 by simp
  from reused_session_kept [OF assms(1,2) fresh assms(4,5) keep view [symmetric] id this] files c2 show ?thesis by auto
qed

section \<open>Examples\<close>

text \<open>A user who gives nothing, and one who sets the variable for the password.\<close>

definition demo_user :: "ustr option \<Rightarrow> user_env" where
  "demo_user variable = \<lparr>ue_unix = True, ue_mode = (\<lambda>_. Inl NotFound), ue_read_text = (\<lambda>_. Inl NotFound), ue_read = (\<lambda>_. Inl NotFound),
     ue_variable = (\<lambda>_. variable), ue_password = Inl NotFound, ue_line = Inl NotFound\<rparr>"

definition demo_auth_args :: managed_auth_args where
  "demo_auth_args = \<lparr>ma_username = None, ma_password_file = None, ma_posture_results = None, ma_non_interactive = True\<rparr>"

abbreviation demo_cli_context :: managed_context where
  "demo_cli_context \<equiv> make_context (Some [0x61]) (Some demo_cli_profile) [0x61] [0x61]"

lemma demo_context_simps:
  "ctx_username demo_cli_context = Some [0x75]" "ctx_credential_id demo_cli_context = Some demo_id32" "ctx_device_id demo_cli_context = [0x61]"
  by (simp_all add: make_context_def opt_and_then_def opt_filter_def demo_cli_profile_def)

lemma demo_load_login:
  assumes "manifest_from_slice K [1] = Some demo_manifest" "envelope_from_slice K [2] = Some \<lparr>env_version = 1, env_credential = x\<rparr>"
    "cred_sha256 K = (\<lambda>b. b)"
  shows "\<exists>n'. credential_load K (sim_keyring (\<lambda>_. False)) demo_id32 (demo_login_keys n) = (Ok (Some x), demo_login_keys n')"
proof -
  have "validate_manifest demo_manifest = Ok ()"
    using encode_decode_manifest [OF demo_codec_ok, of demo_manifest "[1]"] prepare_manifest_OkD(1,2) [OF demo_prepare]
    by (auto simp: demo_generation_def decode_manifest_def rbind_eq_Ok)
  then show ?thesis using assms
    by (simp add: credential_load_def validate_account_def load_from_def demo_key_defs demo_login_keys_def decode_manifest_def ok_or_def
        demo_manifest_def chunk_indices_def open_envelope_def rmap_def)
qed

theorem saved_password_for_its_user_witness:
  "\<exists>n c'. managed_password demo_cli_env (demo_user None) demo_cli_context demo_auth_args ReuseOrEphemeral (demo_start (demo_login_keys n)) =
       (Ok ([0x75], [0x70], True), c') \<and>
     (\<exists>k. credential_load demo_cred_codec (sim_keyring (\<lambda>_. False)) demo_id32 (demo_login_keys n) = (Ok (Some (StoredPassword [0x75] [0x70])), k))"
proof -
  let ?n = 0
  obtain n' where l: "credential_load demo_cred_codec (sim_keyring (\<lambda>_. False)) demo_id32 (demo_login_keys ?n) = (Ok (Some demo_stored), demo_login_keys n')"
    using demo_load_login [of demo_cred_codec demo_stored ?n] by (auto simp: demo_cred_codec_def)
  have "load_stored_credential demo_cli_env (Some demo_id32) (demo_start (demo_login_keys ?n)) =
      (Ok (Some demo_stored), (fst (demo_start (demo_login_keys ?n)), demo_login_keys n'))"
    using l by (simp add: load_stored_credential_def login_load_def on_keys_def demo_cli_def)
  then have m: "managed_password demo_cli_env (demo_user None) demo_cli_context demo_auth_args ReuseOrEphemeral (demo_start (demo_login_keys ?n)) =
       (Ok ([0x75], [0x70], True), (fst (demo_start (demo_login_keys ?n)), demo_login_keys n'))"
    by (simp add: managed_password_def read_explicit_managed_secret_def demo_user_def demo_auth_args_def opt_filter_def demo_context_simps cbind_def
        cdone_def is_stored_oidc_def demo_stored_def password_username_def ok_or_def choose_password_def saved_password_of_def)
  have "ce_cred_codec demo_cli_env = demo_cred_codec" "ce_keys demo_cli_env = sim_keyring (\<lambda>_. False)" by (simp_all add: demo_cli_def)
  with saved_password_for_its_user [OF m] have
    "\<exists>k. credential_load demo_cred_codec (sim_keyring (\<lambda>_. False)) demo_id32 (demo_login_keys ?n) = (Ok (Some (StoredPassword [0x75] [0x70])), k)"
    by (simp add: demo_context_simps)
  with m show ?thesis by blast
qed







text \<open>A saved single sign-on session.\<close>

definition demo_session_env :: "(mem_disk, mem_state) cli_env" where
  "demo_session_env = (demo_codec_env demo_session_codec)\<lparr>ce_generation_random := Some (replicate 16 8)\<rparr>"

lemma demo_session_world: "cli_world demo_session_env disk_view mem_view"
  by (rule cli_world.intro)
    (simp_all add: demo_session_env_def demo_cli_def mem_disk.state_files_axioms sim_keys.lawful_keyring_axioms demo_profile_codec_ok
      demo_session_codec_ok)

lemma demo_session_fresh: "fresh_generation demo_session_codec (mem_view (demo_login_keys n)) demo_id32 (replicate 16 8)"
proof -
  have "hex_lower (replicate 16 8) \<noteq> hex_lower demo_generation"
    using hex_lower_inj [of "replicate 16 8" demo_generation] by (auto simp: demo_generation_def)
  moreover have "m = demo_manifest" if "decode_manifest demo_session_codec [1] = Ok m" for m
    using that by (auto simp: decode_manifest_def rbind_eq_Ok ok_or_def demo_session_codec_def demo_cred_codec_def)
  ultimately show ?thesis
    by (auto simp: fresh_generation_def mem_view_def demo_login_keys_def generations_sets sets_of_def demo_manifest_def as_chunk_set_def)
qed

text \<open>The domain does not use single sign-on any more, so that the session cannot be refreshed.\<close>

theorem saved_session_survives_witness:
  "\<exists>e log' c' l k'. prepare_managed_oidc demo_session_env demo_login_env (demo_user None)
       demo_random 0 demo_password_domain demo_cli_context demo_auth_args LineAuto ReuseOrEphemeral [] (demo_start (demo_login_keys 0)) = Some (Err e, log', c') \<and>
     credential_load demo_session_codec (sim_keyring (\<lambda>_. False)) demo_id32 (snd c') = (l, k') \<and>
     (read_error (operating_system_store (sim_keyring (\<lambda>_. False))) l \<or> l = Ok (Some (StoredOidc [0x72] [0x69] [0x75])))"
proof -
  let ?c = "demo_start (demo_login_keys 0)" and ?old = "StoredOidc [0x72] [0x69] [0x75]"
  have e: "ce_cred_codec demo_session_env = demo_session_codec" "ce_keys demo_session_env = sim_keyring (\<lambda>_. False)"
    "ce_generation_random demo_session_env = Some (replicate 16 8)" by (simp_all add: demo_session_env_def demo_cli_def)
  obtain n where l: "credential_load demo_session_codec (sim_keyring (\<lambda>_. False)) demo_id32 (demo_login_keys 0) = (Ok (Some ?old), demo_login_keys n)"
    using demo_load_login [of demo_session_codec ?old 0] by (auto simp: demo_session_codec_def demo_cred_codec_def demo_session_def)
  have load: "load_stored_credential demo_session_env (Some demo_id32) ?c = (Ok (Some ?old), (fst ?c, demo_login_keys n))"
    using l by (simp add: load_stored_credential_def login_load_def on_keys_def e)
  have "domain_oidc_config demo_password_domain MANAGED_OIDC_REDIRECT_URI = Err (Oidc ''the discovered domain does not use OIDC'')"
    by (simp add: domain_oidc_config_def demo_password_domain_def credential_auth_def)
  then have refresh: "refresh_oidc demo_login_env 0 demo_password_domain MANAGED_OIDC_REDIRECT_URI [0x72] [0x69] [0x75] [] =
      (Err (Oidc ''the discovered domain does not use OIDC''), [])"
    by (simp add: refresh_oidc_def)
  obtain err c' where r: "prepare_managed_oidc demo_session_env demo_login_env (demo_user None)
       demo_random 0 demo_password_domain demo_cli_context demo_auth_args LineAuto ReuseOrEphemeral [] ?c = Some (Err err, [], c')"
    by (simp add: prepare_managed_oidc_def demo_context_simps load is_stored_password_def managed_identity_def refresh_saved_oidc_def refresh)
  obtain x k' where k: "credential_load demo_session_codec (sim_keyring (\<lambda>_. False)) demo_id32 (snd c') = (x, k')" by fastforce
  have f: "fresh_generation (ce_cred_codec demo_session_env) (mem_view (snd ?c)) demo_id32 (replicate 16 8)"
    using demo_session_fresh by (simp add: e)
  have l': "credential_load (ce_cred_codec demo_session_env) (ce_keys demo_session_env) demo_id32 (snd ?c) = (Ok (Some ?old), demo_login_keys n)"
    using l by (simp add: e)
  have k2: "credential_load (ce_cred_codec demo_session_env) (ce_keys demo_session_env) demo_id32 (snd c') = (x, k')"
    using k by (simp add: e)
  from saved_session_survives [OF demo_session_world e(3) f demo_context_simps(2) l' r k2] refresh
  have "read_error (operating_system_store (sim_keyring (\<lambda>_. False))) x \<or> x = Ok (Some ?old)" by (auto simp: e)
  with r k show ?thesis by blast
qed

end
