(* ===== verification/Client_Run.thy ===== *)
theory Client_Run
  imports Cli_Login Session_Runtime
begin

text \<open>
  A connection of the command line program on Linux from its plan to its end (\<open>run_client\<close> and \<open>run_managed_client\<close> in
  \<open>src/bin/openiwan.rs\<close>): opening the device (\<open>src/tun.rs\<close>), the route guard, the DNS runtime, the sessions that run over
  them until the connection ends, and what is undone when the objects are dropped. The theory composes \<open>Cli_Routing\<close>,
  \<open>Route_Tables\<close>, \<open>Dns_Runtime\<close> and \<open>Session_Runtime\<close>. The calls on the device itself are the parameter \<open>create\<close>; the commands
  answer through \<open>answers\<close>, as in \<open>Route_Tables\<close>.
\<close>

section \<open>The device\<close>

record tun_configuration =
  tuc_name :: "ustr option"
  tuc_mtu :: u16
  tuc_address :: "(ip_addr \<times> ip_addr) option"

text \<open>IPv6 addresses are assigned by a command after the device exists.\<close>

definition linux_tun_configuration :: "interface_settings \<Rightarrow> tun_configuration" where
  "linux_tun_configuration s =
     \<lparr>tuc_name = is_name s, tuc_mtu = is_mtu s,
      tuc_address = (if is_ipv4 (is_address s) then Some (is_address s, is_netmask s) else None)\<rparr>"

definition address_command :: "addr_text \<Rightarrow> ustr \<Rightarrow> ip_addr \<Rightarrow> command" where
  "address_command T dev a =
     \<lparr>cmd_program = ''ip'',
      cmd_args = ip_args [''-6'', ''addr'', ''replace''] @ [at_show T a @ [SLASH] @ dec 128, ascii_str ''dev'', dev],
      cmd_stdin = []\<rparr>"

definition open_device ::
  "addr_text \<Rightarrow> answers \<Rightarrow> (tun_configuration \<Rightarrow> ustr result) \<Rightarrow> interface_settings \<Rightarrow> command list \<Rightarrow> ustr result \<times> command list" where
  "open_device T answer create s issued =
     (case create (linux_tun_configuration s) of
        Inl e \<Rightarrow> (Err e, issued)
      | Inr dev \<Rightarrow>
          if is_ipv4 (is_address s) then (Ok dev, issued)
          else case run_command answer (address_command T dev (is_address s)) issued of
            (Inl e, i) \<Rightarrow> (Err e, i)
          | (Inr _, i) \<Rightarrow> (Ok dev, i))"

definition tun_open ::
  "addr_text \<Rightarrow> answers \<Rightarrow> (tun_configuration \<Rightarrow> ustr result) \<Rightarrow> ustr option \<Rightarrow> session_info \<Rightarrow> command list \<Rightarrow> ustr result \<times> command list" where
  "tun_open T answer create requested info issued =
     (case interface_settings_of Linux requested info of
        Inl e \<Rightarrow> (Err e, issued)
      | Inr s \<Rightarrow> open_device T answer create s issued)"

definition device_dns_target :: "ustr \<Rightarrow> dns_platform_target" where
  "device_dns_target dev = \<lparr>dpt_interface_name = dev, dpt_platform_id = None\<rparr>"

section \<open>Setting up\<close>

text \<open>What a connection holds while it runs: the device, the route guard and the DNS runtime.\<close>

record client_parts =
  cp_device :: ustr
  cp_changes :: "linux_route_change list"
  cp_runtime :: dns_runtime

text \<open>The guard is dropped when the runtime cannot be created.\<close>

definition client_setup ::
  "addr_text \<Rightarrow> answers \<Rightarrow> (tun_configuration \<Rightarrow> ustr result) \<Rightarrow> ustr option \<Rightarrow> connection_plan \<Rightarrow> command list \<Rightarrow>
     client_parts result \<times> command list" where
  "client_setup T answer create requested plan issued =
     (case tun_open T answer create requested (plan_session plan) issued of
        (Inl e, i) \<Rightarrow> (Err e, i)
      | (Inr dev, i) \<Rightarrow>
          (case guard_configure T answer dev (plan_routes plan) i of
             (Inl e, i) \<Rightarrow> (Err e, i)
           | (Inr changes, i) \<Rightarrow>
               (case runtime_new (device_dns_target dev) (plan_defaults plan) (plan_overrides plan) (plan_physical plan) of
                  Inl e \<Rightarrow> (Err e, linux_cleanup dev changes i)
                | Inr rt \<Rightarrow>
                    (Ok \<lparr>cp_device = dev, cp_changes = changes,
                         cp_runtime = with_physical_ipv6 (\<not> plan_block_ipv6 plan) rt\<rparr>, i))))"

section \<open>Running\<close>

text \<open>\<open>ConnectedSession::run\<close> on the device of the program: the DNS runtime is activated before the session and deactivated
  after it; \<open>outcome\<close> is how the active session ends. The TUN device itself has nothing to activate.\<close>

definition session_run ::
  "answers \<Rightarrow> physical_resolver list result \<Rightarrow> session_info \<Rightarrow> session_end result \<Rightarrow> dns_runtime \<Rightarrow> command list \<Rightarrow>
     session_end result \<times> dns_runtime \<times> command list" where
  "session_run answer discovered info outcome rt issued =
     (case device_activate answer (Ok ()) discovered info rt issued of
        (Inl e, rt, i, _) \<Rightarrow> (Err e, rt, i)
      | (Inr _, rt, i, _) \<Rightarrow>
          (case device_deactivate (Ok ()) rt i of
             (d, rt, i, _) \<Rightarrow> (rbind outcome (\<lambda>end. rmap (\<lambda>_. end) d), rt, i)))"

text \<open>A round of the reconnect loop, where \<open>rr_run\<close> is how the active session would end, with the resolvers of the host that
  are found when it is activated.\<close>

record client_round =
  cl_round :: reconnect_round
  cl_discovered :: "physical_resolver list result"

definition run_round ::
  "answers \<Rightarrow> session_info option \<Rightarrow> session_info option \<Rightarrow> client_round \<Rightarrow> dns_runtime \<Rightarrow> command list \<Rightarrow>
     reconnect_round \<times> dns_runtime \<times> command list" where
  "run_round answer expected pending r rt issued =
     (case rbind (case pending of Some i \<Rightarrow> Ok i | None \<Rightarrow> rr_auth (cl_round r)) (\<lambda>info.
             rmap (\<lambda>_. info) (case expected of None \<Rightarrow> Ok () | Some x \<Rightarrow> ensure_same_tun_assignment x info)) of
        Inl _ \<Rightarrow> (cl_round r, rt, issued)
      | Inr info \<Rightarrow>
          (case session_run answer (cl_discovered r) info (rr_run (cl_round r)) rt issued of
             (res, rt, i) \<Rightarrow> ((cl_round r)\<lparr>rr_run := res\<rparr>, rt, i)))"

text \<open>The reconnect loop of \<open>Session_Runtime\<close> with the effects of its sessions.\<close>

fun client_loop ::
  "answers \<Rightarrow> reconnect_policy \<Rightarrow> session_info option \<Rightarrow> session_info option \<Rightarrow> u32 \<Rightarrow> duration \<Rightarrow> client_round list \<Rightarrow>
     dns_runtime \<Rightarrow> command list \<Rightarrow> session_end result option \<times> dns_runtime \<times> command list" where
  "client_loop answer pol expected pending retry delay [] rt issued = (None, rt, issued)"
| "client_loop answer pol expected pending retry delay (r # rs) rt issued =
     (if rr_shutdown (cl_round r) then (Some (Ok LocalShutdown), rt, issued)
      else
        case run_round answer expected pending r rt issued of (r', rt', i) \<Rightarrow>
          (case reconnect_round_outcome pol expected pending retry delay r' of
             Finish res \<Rightarrow> (Some res, rt', i)
           | Retry retry' delay' \<Rightarrow>
               if retry' \<ge> rc_attempts pol then (Some (Err (Timeout ''reconnection budget exhausted'')), rt', i)
               else client_loop answer pol expected None (retry' + 1) (min (delay' * 2) (from_millis (max_delay_ms pol))) rs rt' i))"

text \<open>The runtime is dropped with the packet device, then the guard.\<close>

definition client_end :: "client_parts \<Rightarrow> dns_runtime \<Rightarrow> command list \<Rightarrow> command list" where
  "client_end parts rt issued = linux_cleanup (cp_device parts) (cp_changes parts) (snd (runtime_deactivate rt issued))"

text \<open>From the plan to the end; \<open>handler\<close> is whether the signal handler could be installed. The result \<open>None\<close> is a
  connection that is still running.\<close>

definition client_run ::
  "addr_text \<Rightarrow> answers \<Rightarrow> (tun_configuration \<Rightarrow> ustr result) \<Rightarrow> ustr option \<Rightarrow> unit result \<Rightarrow> reconnect_policy \<Rightarrow> session_info \<Rightarrow>
     connection_plan \<Rightarrow> client_round list \<Rightarrow> session_end result option \<times> command list" where
  "client_run T answer create requested handler pol info plan rounds =
     (case client_setup T answer create requested plan [] of
        (Inl e, i) \<Rightarrow> (Some (Err e), i)
      | (Inr parts, i) \<Rightarrow>
          (case handler of
             Inl e \<Rightarrow> (Some (Err e), client_end parts (cp_runtime parts) i)
           | Inr _ \<Rightarrow>
               (case client_loop answer pol (Some info) (Some info) 0 (from_millis (initial_delay_ms pol)) rounds (cp_runtime parts) i of
                  (None, rt, i) \<Rightarrow> (None, i)
                | (Some res, rt, i) \<Rightarrow> (Some res, client_end parts rt i))))"

text \<open>A direct and a managed connection, from the authenticated session on.\<close>

definition run_client ::
  "addr_text \<Rightarrow> (ustr \<Rightarrow> error_kind + ip_addr list) \<Rightarrow> physical_resolver list result \<Rightarrow> answers \<Rightarrow>
     (tun_configuration \<Rightarrow> ustr result) \<Rightarrow> unit result \<Rightarrow> reconnect_policy \<Rightarrow> ustr option \<Rightarrow> route_args \<Rightarrow> dns_override_args \<Rightarrow>
     session_info \<Rightarrow> client_round list \<Rightarrow> session_end result option \<times> command list" where
  "run_client T resolver discovered answer create handler pol requested args dns_args info rounds =
     (case direct_plan T resolver discovered args dns_args info of
        Inl e \<Rightarrow> (Some (Err e), [])
      | Inr plan \<Rightarrow> client_run T answer create requested handler pol info plan rounds)"

definition run_managed_client ::
  "workflow_env \<Rightarrow> (ustr \<Rightarrow> error_kind + ip_addr list) \<Rightarrow> (ustr \<Rightarrow> error_kind + socket_addr list) \<Rightarrow> physical_resolver list result \<Rightarrow>
     answers \<Rightarrow> (tun_configuration \<Rightarrow> ustr result) \<Rightarrow> unit result \<Rightarrow> reconnect_policy \<Rightarrow> ustr option \<Rightarrow> prepared_connection \<Rightarrow>
     route_args \<Rightarrow> dns_overrides \<Rightarrow> dns_override_args \<Rightarrow> routing_overrides \<Rightarrow> session_info \<Rightarrow> client_round list \<Rightarrow>
     session_end result option \<times> command list" where
  "run_managed_client W resolver sockets discovered answer create handler pol requested prepared args profile_dns dns_args
     profile_routing info rounds =
     (case managed_plan W resolver sockets discovered prepared args profile_dns dns_args profile_routing info of
        Inl e \<Rightarrow> (Some (Err e), [])
      | Inr plan \<Rightarrow> client_run (we_text W) answer create requested handler pol info plan rounds)"

section \<open>What a connection leaves behind\<close>

text \<open>A setting is in force after a sequence of commands when a command that makes it succeeded and no command that undoes it
  succeeded afterwards. The program ignores what the undoing command answers, so what it owes is weaker: a setting is
  outstanding when the command that undoes it was not even issued.\<close>

definition succeeded :: "error_kind + command_output \<Rightarrow> bool" where
  "succeeded out = (case out of Inl _ \<Rightarrow> False | Inr o' \<Rightarrow> out_success o')"

definition outstanding :: "(command \<Rightarrow> bool) \<Rightarrow> command \<Rightarrow> answers \<Rightarrow> command list \<Rightarrow> bool" where
  "outstanding makes undo answer log \<longleftrightarrow>
     (\<exists>before c after. log = before @ c # after \<and> makes c \<and> succeeded (answer before c) \<and> undo \<notin> set after)"

definition in_force :: "(command \<Rightarrow> bool) \<Rightarrow> command \<Rightarrow> answers \<Rightarrow> command list \<Rightarrow> bool" where
  "in_force makes undo answer log \<longleftrightarrow>
     (\<exists>before c after. log = before @ c # after \<and> makes c \<and> succeeded (answer before c) \<and>
        (\<forall>mid rest. after = mid @ undo # rest \<longrightarrow> \<not> succeeded (answer (before @ c # mid) undo)))"

definition undo_failed :: "command \<Rightarrow> answers \<Rightarrow> command list \<Rightarrow> bool" where
  "undo_failed undo answer log \<longleftrightarrow> (\<exists>before after. log = before @ undo # after \<and> \<not> succeeded (answer before undo))"

lemma in_force_undo_failed:
  assumes "in_force m u answer log" "\<not> outstanding m u answer log"
  shows "undo_failed u answer log"
proof -
  obtain before c after where *: "log = before @ c # after" "m c" "succeeded (answer before c)"
    "\<And>mid rest. after = mid @ u # rest \<Longrightarrow> \<not> succeeded (answer (before @ c # mid) u)"
    using assms(1) by (auto simp: in_force_def)
  then have "u \<in> set after" using assms(2) by (auto simp: outstanding_def)
  then obtain mid rest where "after = mid @ u # rest" by (meson split_list)
  then show ?thesis unfolding undo_failed_def using * by (intro exI [of _ "before @ c # mid"] exI [of _ rest]) simp
qed

text \<open>The two ways to configure the resolver of the interface.\<close>

definition makes_resolved :: "ustr \<Rightarrow> command \<Rightarrow> bool" where
  "makes_resolved dev c \<longleftrightarrow> cmd_program c = ''resolvectl'' \<and>
     (\<exists>verb rest. cmd_args c = verb # dev # rest \<and> verb \<in> set (ip_args [''dns'', ''domain'', ''default-route'']))"

definition makes_resolvconf :: "ustr \<Rightarrow> command \<Rightarrow> bool" where
  "makes_resolvconf dev c \<longleftrightarrow> cmd_program c = ''resolvconf'' \<and> cmd_args c = [ascii_str ''-a'', dev]"

abbreviation (input) drop_resolvconf :: "ustr \<Rightarrow> command" where
  "drop_resolvconf dev \<equiv> resolvconf_command [ascii_str ''-d'', dev] []"

definition dns_outstanding :: "answers \<Rightarrow> ustr \<Rightarrow> command list \<Rightarrow> bool" where
  "dns_outstanding answer dev log \<longleftrightarrow>
     outstanding (makes_resolved dev) (revert_command dev) answer log \<or>
     outstanding (makes_resolvconf dev) (drop_resolvconf dev) answer log"

definition dns_in_force :: "answers \<Rightarrow> ustr \<Rightarrow> command list \<Rightarrow> bool" where
  "dns_in_force answer dev log \<longleftrightarrow>
     in_force (makes_resolved dev) (revert_command dev) answer log \<or>
     in_force (makes_resolvconf dev) (drop_resolvconf dev) answer log"

definition dns_undo_failed :: "answers \<Rightarrow> ustr \<Rightarrow> command list \<Rightarrow> bool" where
  "dns_undo_failed answer dev log \<longleftrightarrow>
     undo_failed (revert_command dev) answer log \<or> undo_failed (drop_resolvconf dev) answer log"

lemma dns_in_force_undo_failed: "\<not> dns_outstanding answer dev log \<Longrightarrow> dns_in_force answer dev log \<Longrightarrow> dns_undo_failed answer dev log"
  using in_force_undo_failed unfolding dns_outstanding_def dns_in_force_def dns_undo_failed_def by blast

lemma outstanding_Nil [simp]: "\<not> outstanding m u answer []"
  by (simp add: outstanding_def)

lemma outstanding_snoc [simp]:
  "outstanding m u answer (log @ [c]) \<longleftrightarrow> m c \<and> succeeded (answer log c) \<or> outstanding m u answer log \<and> c \<noteq> u"
proof
  assume "outstanding m u answer (log @ [c])"
  then obtain before d after where *: "log @ [c] = before @ d # after" "m d" "succeeded (answer before d)" "u \<notin> set after"
    by (auto simp: outstanding_def)
  then show "m c \<and> succeeded (answer log c) \<or> outstanding m u answer log \<and> c \<noteq> u"
    by (cases after rule: rev_cases) (auto simp: outstanding_def simp flip: append_assoc append_Cons)
next
  assume "m c \<and> succeeded (answer log c) \<or> outstanding m u answer log \<and> c \<noteq> u"
  then consider "m c" "succeeded (answer log c)" | before d after where "log = before @ d # after" "m d" "succeeded (answer before d)"
      "u \<notin> set after" "c \<noteq> u"
    by (auto simp: outstanding_def)
  then show "outstanding m u answer (log @ [c])"
  proof cases
    case 1
    then show ?thesis unfolding outstanding_def by (intro exI [of _ log] exI [of _ c] exI [of _ "[]"]) simp
  next
    case 2
    then show ?thesis unfolding outstanding_def by (intro exI [of _ before] exI [of _ d] exI [of _ "after @ [c]"]) simp
  qed
qed

lemma outstanding_other:
  assumes "\<forall>c \<in> set cs. \<not> m c" "outstanding m u answer (log @ cs)"
  shows "outstanding m u answer log"
  using assms
proof (induction cs rule: rev_induct)
  case (snoc c cs)
  then show ?case by (simp flip: append_assoc)
qed simp

text \<open>Other programs do not configure the resolver.\<close>

lemma dns_outstanding_ip:
  assumes "\<forall>c \<in> set cs. cmd_program c = ''ip''" "dns_outstanding answer dev (log @ cs)"
  shows "dns_outstanding answer dev log"
proof -
  have "\<forall>c \<in> set cs. \<not> makes_resolved dev c" "\<forall>c \<in> set cs. \<not> makes_resolvconf dev c"
    using assms(1) by (auto simp: makes_resolved_def makes_resolvconf_def)
  then show ?thesis using assms(2) outstanding_other unfolding dns_outstanding_def by blast
qed

lemma outstanding_run:
  assumes "run_command answer c log = (r, log')"
  shows "outstanding m u answer log' \<longleftrightarrow> m c \<and> is_ok r \<or> outstanding m u answer log \<and> c \<noteq> u"
  using assms by (auto simp: run_command_def succeeded_def split: sum.splits if_splits)

lemma resolved_simps [simp]:
  "makes_resolved dev (resolvectl_command (v # d # rest)) \<longleftrightarrow> d = dev \<and> v \<in> set (ip_args [''dns'', ''domain'', ''default-route''])"
  "\<not> makes_resolved dev (resolvectl_command [v])" "\<not> makes_resolved dev (resolvconf_command args input)"
  "\<not> makes_resolved dev (revert_command d)" "\<not> makes_resolvconf dev (revert_command d)"
  "\<not> makes_resolvconf dev (resolvectl_command args)" "\<not> makes_resolvconf dev (drop_resolvconf d)"
  "makes_resolvconf dev (resolvconf_command [ascii_str ''-a'', d] input) \<longleftrightarrow> d = dev"
  "revert_command dev = revert_command d \<longleftrightarrow> dev = d" "drop_resolvconf dev = drop_resolvconf d \<longleftrightarrow> dev = d"
  by (auto simp: makes_resolved_def makes_resolvconf_def resolvectl_command_def resolvconf_command_def revert_command_def ascii_str_def)

text \<open>What is in force belongs to the lease, and since the commands \<open>base\<close> only the resolver was configured.\<close>

definition dns_command :: "command \<Rightarrow> bool" where
  "dns_command c \<longleftrightarrow> cmd_program c \<in> {''resolvectl'', ''resolvconf''}"

definition dns_appended :: "command list \<Rightarrow> command list \<Rightarrow> bool" where
  "dns_appended base log \<longleftrightarrow> (\<exists>ds. log = base @ ds \<and> (\<forall>c \<in> set ds. dns_command c))"

definition lease_covers :: "command list \<Rightarrow> answers \<Rightarrow> command list \<Rightarrow> platform_lease option \<Rightarrow> bool" where
  "lease_covers base answer log lease \<longleftrightarrow> dns_appended base log \<and> (\<forall>dev.
     (outstanding (makes_resolved dev) (revert_command dev) answer log \<longrightarrow> lease = Some (LeaseResolved dev)) \<and>
     (outstanding (makes_resolvconf dev) (drop_resolvconf dev) answer log \<longrightarrow> lease = Some (LeaseResolvconf dev)))"

lemma dns_commands [simp]:
  "dns_command (resolvectl_command args)" "dns_command (resolvconf_command args input)" "dns_command (revert_command dev)"
  by (simp_all add: dns_command_def resolvectl_command_def resolvconf_command_def revert_command_def)

lemma dns_appended_append [simp]: "dns_appended base log \<Longrightarrow> \<forall>c \<in> set cs. dns_command c \<Longrightarrow> dns_appended base (log @ cs)"
proof -
  assume "dns_appended base log" "\<forall>c \<in> set cs. dns_command c"
  moreover then obtain ds where "log = base @ ds" "\<forall>c \<in> set ds. dns_command c" by (auto simp: dns_appended_def)
  ultimately show ?thesis unfolding dns_appended_def by (intro exI [of _ "ds @ cs"]) auto
qed

lemma lease_covers_none: "lease_covers base answer log None \<Longrightarrow> \<not> dns_outstanding answer dev log"
  by (auto simp: lease_covers_def dns_outstanding_def)

lemma lease_released:
  "lease_covers base answer log (Some l) \<Longrightarrow> lease_covers base answer (log @ lease_drop l) None"
  by (cases l) (auto simp: lease_covers_def lease_drop_def)

lemma command_exists_covers:
  assumes "lease_covers base answer log l" "command_exists answer program log = (b, log')" "program \<in> {''resolvectl'', ''resolvconf''}"
  shows "lease_covers base answer log' l"
proof -
  let ?c = "\<lparr>cmd_program = program, cmd_args = [ascii_str ''--help''], cmd_stdin = []\<rparr> :: command"
  have n: "\<not> makes_resolved dev ?c" "\<not> makes_resolvconf dev ?c" "?c \<noteq> revert_command dev" "?c \<noteq> drop_resolvconf dev" for dev
    by (auto simp: makes_resolved_def makes_resolvconf_def revert_command_def resolvectl_command_def resolvconf_command_def)
  have "log' = log @ [?c]" using assms(2) by (simp add: command_exists_def Let_def)
  then show ?thesis using n assms(1,3) by (auto simp: lease_covers_def dns_command_def)
qed

lemma apply_resolved_covers:
  assumes "lease_covers base answer log None" "apply_resolved answer dev servers log = (r, log')"
  shows "lease_covers base answer log' (case r of Inl _ \<Rightarrow> None | Inr _ \<Rightarrow> Some (LeaseResolved dev))"
proof -
  have none: "dns_appended base log" "\<not> outstanding (makes_resolved d) (revert_command d) answer log"
    "\<not> outstanding (makes_resolvconf d) (drop_resolvconf d) answer log" for d
    using assms(1) by (auto simp: lease_covers_def)
  have "dns_appended base log'"
    using assms(2) none(1) by (auto simp: apply_resolved_def split: prod.splits sum.splits dest!: run_command_log)
  then show ?thesis using assms(2)
    by (auto simp: apply_resolved_def lease_covers_def none outstanding_run split: prod.splits sum.splits)
qed

lemma apply_resolvconf_covers:
  assumes "lease_covers base answer log None" "apply_resolvconf answer dev servers log = (r, log')"
  shows "lease_covers base answer log' (case r of Inl _ \<Rightarrow> None | Inr _ \<Rightarrow> Some (LeaseResolvconf dev))"
proof -
  let ?c = "resolvconf_command [ascii_str ''-a'', dev] (resolvconf_input servers)"
  have none: "dns_appended base log" "\<not> outstanding (makes_resolved d) (revert_command d) answer log"
    "\<not> outstanding (makes_resolvconf d) (drop_resolvconf d) answer log" for d
    using assms(1) by (auto simp: lease_covers_def)
  have two: "outstanding m u answer (log @ [?c, d]) \<longleftrightarrow>
      m d \<and> succeeded (answer (log @ [?c]) d) \<or> (m ?c \<and> succeeded (answer log ?c) \<or> outstanding m u answer log \<and> ?c \<noteq> u) \<and> d \<noteq> u" for m u d
    using outstanding_snoc [of m u answer "log @ [?c]" d] by simp
  show ?thesis using assms(2)
    by (auto simp: apply_resolvconf_def lease_covers_def none two succeeded_def Let_def split: sum.splits if_splits)
qed

lemma lease_apply_covers:
  assumes "lease_covers base answer log None" "lease_apply answer target servers log = (r, log')"
  shows "lease_covers base answer log' (case r of Inl _ \<Rightarrow> None | Inr l \<Rightarrow> Some l)"
proof (cases "\<exists>e. target_validate target = Inl e \<or> servers = []")
  case True
  have "lease_covers base answer log (Some LeaseNone)" using assms(1) by (simp add: lease_covers_def)
  with True assms show ?thesis by (auto simp: lease_apply_def split: sum.splits if_splits)
next
  case False
  then obtain u where v: "target_validate target = Inr u" "servers \<noteq> []" by (metis sum.exhaust)
  let ?dev = "dpt_interface_name target"
  obtain b i where 1: "command_exists answer ''resolvectl'' log = (b, i)" by fastforce
  have c1: "lease_covers base answer i None" using command_exists_covers [OF assms(1) 1] by simp
  show ?thesis
  proof (cases b)
    case True
    obtain q k where 2: "apply_resolved answer ?dev servers i = (q, k)" by fastforce
    from apply_resolved_covers [OF c1 2] show ?thesis using assms(2) v 1 2 True
      by (cases q) (auto simp: lease_apply_def)
  next
    case no: False
    obtain b2 i2 where 2: "command_exists answer ''resolvconf'' i = (b2, i2)" by fastforce
    have c2: "lease_covers base answer i2 None" using command_exists_covers [OF c1 2] by simp
    obtain q k where 3: "apply_resolvconf answer ?dev servers i2 = (q, k)" by fastforce
    from apply_resolvconf_covers [OF c2 3] c2 show ?thesis using assms(2) v 1 2 3 no
      by (cases q; cases b2) (auto simp: lease_apply_def)
  qed
qed

text \<open>The runtime keeps the lease of what is in force, whatever is done with it, and deactivating it leaves nothing.\<close>

definition runtime_covers :: "command list \<Rightarrow> answers \<Rightarrow> command list \<Rightarrow> dns_runtime \<Rightarrow> bool" where
  "runtime_covers base answer log rt \<longleftrightarrow> lease_covers base answer log (map_option fst (drt_lease rt))"

lemma activate_policy_covers:
  assumes "runtime_covers base answer log rt" "activate_policy answer policy rt log = (r, rt', log')"
  shows "runtime_covers base answer log' rt'"
proof -
  define i where "i = (case drt_lease rt of None \<Rightarrow> log | Some (l, _) \<Rightarrow> log @ lease_drop l)"
  have c: "lease_covers base answer i None"
    using assms(1) lease_released [of base answer log] by (auto simp: runtime_covers_def i_def split: option.splits)
  obtain q j where 1: "lease_apply answer (drt_target rt) (pol_servers policy) i = (q, j)" by fastforce
  note c1 = lease_apply_covers [OF c 1]
  show ?thesis
  proof (cases q)
    case (Inr l)
    then show ?thesis using assms(2) 1 c1 by (auto simp: activate_policy_def i_def [symmetric] runtime_covers_def)
  next
    case (Inl e)
    obtain q2 j2 where 2: "lease_apply answer (drt_target rt) (pol_servers (drt_policy rt)) j = (q2, j2)" by fastforce
    have "lease_covers base answer j None" using c1 Inl by simp
    from lease_apply_covers [OF this 2] show ?thesis using assms(2) 1 2 Inl
      by (auto simp: activate_policy_def i_def [symmetric] runtime_covers_def split: sum.splits)
  qed
qed

lemma runtime_activate_covers:
  assumes "runtime_covers base answer log rt" "runtime_activate answer discovered info rt log = (r, rt', log')"
  shows "runtime_covers base answer log' rt'"
proof -
  define rt1 where "rt1 = (case discovered of Inl _ \<Rightarrow> rt | Inr rs \<Rightarrow> rt\<lparr>drt_physical := rs\<rparr>)"
  have c: "runtime_covers base answer log rt1"
    using assms(1) by (cases discovered) (simp_all add: rt1_def runtime_covers_def)
  show ?thesis
  proof (cases "resolve_policy (drt_defaults rt1) (drt_overrides rt1) (info_dns_servers info)")
    case (Inl e)
    then show ?thesis using assms(2) c by (simp add: runtime_activate_def rt1_def [symmetric])
  next
    case (Inr policy)
    then have "activate_policy answer policy rt1 log = (r, rt', log')"
      using assms(2) by (simp add: runtime_activate_def rt1_def [symmetric])
    with c show ?thesis by (rule activate_policy_covers)
  qed
qed

lemma device_activate_covers:
  assumes "runtime_covers base answer log rt" "device_activate answer inner discovered info rt log = (r, rt', log', calls)"
  shows "runtime_covers base answer log' rt'"
proof (cases inner)
  case (Inl e)
  then show ?thesis using assms by (simp add: device_activate_def)
next
  case (Inr u)
  obtain q rt1 i where 1: "runtime_activate answer discovered info rt log = (q, rt1, i)" by (metis prod_cases3)
  from runtime_activate_covers [OF assms(1) 1] show ?thesis using assms(2) Inr 1
    by (cases q) (simp_all add: device_activate_def)
qed

lemma runtime_deactivate_covers:
  assumes "runtime_covers base answer log rt" "runtime_deactivate rt log = (rt', log')"
  shows "runtime_covers base answer log' rt'" "\<not> dns_outstanding answer dev log'"
proof -
  have "lease_covers base answer log' None"
    using assms lease_released [of base answer log] by (auto simp: runtime_deactivate_def runtime_covers_def split: option.splits)
  then show "runtime_covers base answer log' rt'" "\<not> dns_outstanding answer dev log'"
    using assms(2) lease_covers_none by (auto simp: runtime_deactivate_def runtime_covers_def)
qed

lemma session_run_covers:
  assumes "runtime_covers base answer log rt" "session_run answer discovered info outcome rt log = (r, rt', log')"
  shows "runtime_covers base answer log' rt'"
proof -
  obtain q rt1 i calls where 1: "device_activate answer (Ok ()) discovered info rt log = (q, rt1, i, calls)"
    by (cases "device_activate answer (Ok ()) discovered info rt log") auto
  note c = device_activate_covers [OF assms(1) 1]
  obtain rt2 j where 2: "runtime_deactivate rt1 i = (rt2, j)" by fastforce
  show ?thesis using assms(2) 1 2 c runtime_deactivate_covers(1) [OF c 2]
    by (cases q) (simp_all add: session_run_def device_deactivate_def)
qed

lemma run_round_covers:
  assumes "runtime_covers base answer log rt" "run_round answer expected pending r rt log = (r', rt', log')"
  shows "runtime_covers base answer log' rt'"
proof -
  let ?go = "rbind (case pending of Some i \<Rightarrow> Ok i | None \<Rightarrow> rr_auth (cl_round r)) (\<lambda>info.
     rmap (\<lambda>_. info) (case expected of None \<Rightarrow> Ok () | Some x \<Rightarrow> ensure_same_tun_assignment x info))"
  show ?thesis
  proof (cases ?go)
    case (Inl e)
    then show ?thesis using assms by (simp add: run_round_def)
  next
    case (Inr info)
    obtain q rt1 i where 1: "session_run answer (cl_discovered r) info (rr_run (cl_round r)) rt log = (q, rt1, i)" by (metis prod_cases3)
    from session_run_covers [OF assms(1) 1] show ?thesis using assms(2) Inr 1 by (simp add: run_round_def)
  qed
qed

lemma client_loop_covers:
  "client_loop answer pol expected pending retry delay rounds rt log = (r, rt', log') \<Longrightarrow> runtime_covers base answer log rt \<Longrightarrow>
     runtime_covers base answer log' rt'"
proof (induction answer pol expected pending retry delay rounds rt log rule: client_loop.induct)
  case (2 answer pol expected pending retry delay r rs rt issued)
  obtain r1 rt1 i where 1: "run_round answer expected pending r rt issued = (r1, rt1, i)" by (metis prod_cases3)
  have c: "runtime_covers base answer i rt1" using run_round_covers [OF 2(3) 1] .
  show ?case
  proof (cases "rr_shutdown (cl_round r)")
    case True
    then show ?thesis using 2(2,3) by simp
  next
    case run: False
    show ?thesis
    proof (cases "reconnect_round_outcome pol expected pending retry delay r1")
      case (Finish res)
      then show ?thesis using 2(2) 1 run c by simp
    next
      case (Retry a d)
      show ?thesis
      proof (cases "a \<ge> rc_attempts pol")
        case True
        then show ?thesis using 2(2) 1 run c Retry by simp
      next
        case False
        then show ?thesis using 2(1) [OF run 1 [symmetric] refl Retry False _ c] 2(2) 1 run Retry by simp
      qed
    qed
  qed
qed simp

section \<open>The commands of a whole connection\<close>

lemma ip_commands:
  "c \<in> set (install_commands dev change) \<Longrightarrow> cmd_program c = ''ip''" "c \<in> set (undo_commands dev change) \<Longrightarrow> cmd_program c = ''ip''"
  "cmd_program (show_command r) = ''ip''" "cmd_program (replace_command dev r) = ''ip''" "cmd_program (link_down_command dev) = ''ip''"
  "cmd_program (address_command T dev a) = ''ip''"
  by (auto simp: install_commands_def undo_commands_def show_command_def replace_command_def link_down_command_def
      address_command_def del_command_def restore_command_def)

lemma tun_open_log:
  assumes "tun_open T answer create requested info issued = (res, log)"
  shows "\<exists>dev addressing. log = issued @ addressing \<and> (\<forall>c \<in> set addressing. \<exists>a. c = address_command T dev a) \<and> (\<forall>d. res = Ok d \<longrightarrow> d = dev)"
proof (cases "interface_settings_of Linux requested info")
  case (Inl e)
  then show ?thesis using assms by (auto simp: tun_open_def)
next
  case (Inr s)
  show ?thesis
  proof (cases "create (linux_tun_configuration s)")
    case (Inl e)
    then show ?thesis using assms Inr by (auto simp: tun_open_def open_device_def)
  next
    case (Inr dev)
    then have "(case is_ipv4 (is_address s) of True \<Rightarrow> log = issued | False \<Rightarrow> log = issued @ [address_command T dev (is_address s)]) \<and>
        (\<forall>d. res = Ok d \<longrightarrow> d = dev)"
      using assms \<open>interface_settings_of Linux requested info = Inr s\<close>
      by (auto simp: tun_open_def open_device_def split: prod.splits sum.splits bool.splits dest!: run_command_log)
    then show ?thesis by (intro exI [of _ dev]) (auto split: bool.splits)
  qed
qed

lemma guard_configure_log:
  assumes "guard_configure T answer dev routes issued = (res, log)"
  shows "\<exists>cs r attempt. log = issued @ concat (map (install_commands dev) cs) @ attempt @
      (case res of Inl _ \<Rightarrow> concat (map (undo_commands dev) (rev cs)) | Inr _ \<Rightarrow> []) \<and>
    set attempt \<subseteq> {show_command r, replace_command dev r} \<and> (\<forall>all. res = Ok all \<longrightarrow> all = cs \<and> attempt = [])"
proof (cases "rmapM (route_parse T) routes")
  case (Inl e)
  then have "res = Err e" "log = issued" using assms by (auto simp: guard_configure_def)
  then show ?thesis by (intro exI [of _ "[]"]) simp
next
  case (Inr parsed)
  let ?rs = "map (route_to_string T) parsed"
  have "linux_configure answer dev [] ?rs issued = (res, log)" using assms Inr by (simp add: guard_configure_def)
  from linux_configure_log [OF this] obtain cs where
    rest: "case res of
       Inr all \<Rightarrow> all = cs \<and> length cs = length ?rs \<and> log = issued @ concat (map (install_commands dev) cs)
     | Inl _ \<Rightarrow> length cs < length ?rs \<and>
         (\<exists>n \<in> {1, 2}. log = issued @ concat (map (install_commands dev) cs) @
            take n [show_command (?rs ! length cs), replace_command dev (?rs ! length cs)] @ concat (map (undo_commands dev) (rev cs)))"
    unfolding append_Nil by blast
  show ?thesis
  proof (cases res)
    case (Inl e)
    then obtain n where "log = issued @ concat (map (install_commands dev) cs) @
        take n [show_command (?rs ! length cs), replace_command dev (?rs ! length cs)] @ concat (map (undo_commands dev) (rev cs))"
      using rest unfolding \<open>res = Inl e\<close> sum.case by blast
    moreover have "set (take n [show_command (?rs ! length cs), replace_command dev (?rs ! length cs)]) \<subseteq>
        {show_command (?rs ! length cs), replace_command dev (?rs ! length cs)}" using set_take_subset by fastforce
    ultimately show ?thesis using Inl
      by (intro exI [of _ cs] exI [of _ "?rs ! length cs"]
          exI [of _ "take n [show_command (?rs ! length cs), replace_command dev (?rs ! length cs)]"]) simp
  next
    case (Inr all)
    then show ?thesis using rest by (intro exI [of _ cs] exI [of _ "[]"] exI [of _ "[]"]) simp
  qed
qed

text \<open>The shape of the commands of a connection that has ended.\<close>

definition all_undone :: "addr_text \<Rightarrow> answers \<Rightarrow> 'a result \<Rightarrow> command list \<Rightarrow> bool" where
  "all_undone T answer res log \<longleftrightarrow> (\<forall>d. \<not> dns_outstanding answer d log \<and> (dns_in_force answer d log \<longrightarrow> dns_undo_failed answer d log)) \<and>
     (\<exists>dev cs r addressing attempt dns closing.
        log = addressing @ concat (map (install_commands dev) cs) @ attempt @ dns @ concat (map (undo_commands dev) (rev cs)) @ closing \<and>
        (\<forall>c \<in> set addressing. \<exists>a. c = address_command T dev a) \<and>
        set attempt \<subseteq> {show_command r, replace_command dev r} \<and> (attempt \<noteq> [] \<longrightarrow> \<not> is_ok res \<and> dns = []) \<and>
        (\<forall>c \<in> set dns. dns_command c) \<and> set closing \<subseteq> {link_down_command dev})"

lemma all_undoneI:
  assumes "\<And>d. \<not> dns_outstanding answer d log"
    "log = addressing @ concat (map (install_commands dev) cs) @ attempt @ dns @ concat (map (undo_commands dev) (rev cs)) @ closing"
    "\<forall>c \<in> set addressing. \<exists>a. c = address_command T dev a" "set attempt \<subseteq> {show_command r, replace_command dev r}"
    "attempt \<noteq> [] \<Longrightarrow> \<not> is_ok res \<and> dns = []" "\<forall>c \<in> set dns. dns_command c" "set closing \<subseteq> {link_down_command dev}"
  shows "all_undone T answer res log"
  using assms dns_in_force_undo_failed unfolding all_undone_def by blast

lemma only_ip_clean: "\<forall>c \<in> set log. cmd_program c = ''ip'' \<Longrightarrow> \<not> dns_outstanding answer d log"
  using dns_outstanding_ip [of log answer d "[]"] by (auto simp: dns_outstanding_def)

lemma setup_log:
  assumes "client_setup T answer create requested plan [] = (res, log)"
  shows "case res of
      Inl e \<Rightarrow> all_undone T answer (Err e) log
    | Inr parts \<Rightarrow> runtime_covers log answer log (cp_runtime parts) \<and>
        (\<exists>addressing. log = addressing @ concat (map (install_commands (cp_device parts)) (cp_changes parts)) \<and>
           (\<forall>c \<in> set addressing. \<exists>a. c = address_command T (cp_device parts) a))"
proof -
  obtain q0 i0 where 0: "tun_open T answer create requested (plan_session plan) [] = (q0, i0)" by fastforce
  from tun_open_log [OF 0] obtain dev addressing where
    o: "i0 = addressing" "\<forall>c \<in> set addressing. \<exists>a. c = address_command T dev a" "\<And>d. q0 = Ok d \<Longrightarrow> d = dev" by auto
  have oip: "\<forall>c \<in> set addressing. cmd_program c = ''ip''" using o(2) ip_commands(6) by fastforce
  show ?thesis
  proof (cases q0)
    case (Inl e)
    then have "res = Err e" "log = addressing" using assms 0 o(1) by (simp_all add: client_setup_def)
    moreover have "all_undone T answer (Err e) addressing"
      by (rule all_undoneI [where addressing = addressing and cs = "[]" and attempt = "[]" and dns = "[]" and closing = "[]"])
        (use only_ip_clean [OF oip] o(2) in simp_all)
    ultimately show ?thesis by simp
  next
    case (Inr d)
    then have d: "q0 = Ok dev" using o(3) by simp
    obtain q1 i1 where 1: "guard_configure T answer dev (plan_routes plan) addressing = (q1, i1)" by fastforce
    from guard_configure_log [OF 1] obtain cs r attempt where
      g: "i1 = addressing @ concat (map (install_commands dev) cs) @ attempt @
        (case q1 of Inl _ \<Rightarrow> concat (map (undo_commands dev) (rev cs)) | Inr _ \<Rightarrow> [])"
      "set attempt \<subseteq> {show_command r, replace_command dev r}" "\<And>all. q1 = Ok all \<Longrightarrow> all = cs \<and> attempt = []" by blast
    have ip: "\<forall>c \<in> set (addressing @ concat (map (install_commands dev) cs) @ attempt @ concat (map (undo_commands dev) (rev cs)) @
        [link_down_command dev]). cmd_program c = ''ip''"
      using oip g(2) ip_commands by fastforce
    show ?thesis
    proof (cases q1)
      case (Inl e)
      then have r: "res = Err e" "log = addressing @ concat (map (install_commands dev) cs) @ attempt @ [] @ concat (map (undo_commands dev) (rev cs)) @ []"
        using assms 0 d 1 o(1) g(1) by (simp_all add: client_setup_def)
      have "\<forall>c \<in> set log. cmd_program c = ''ip''" using ip r(2) by auto
      note clean = only_ip_clean [OF this]
      have "all_undone T answer (Err e) log"
        by (rule all_undoneI [OF clean r(2) o(2) g(2)]) simp_all
      then show ?thesis using r(1) by simp
    next
      case (Inr changes)
      then have c: "changes = cs" "attempt = []" using g(3) by simp_all
      then have i1: "i1 = addressing @ concat (map (install_commands dev) cs)" using g(1) Inr by simp
      show ?thesis
      proof (cases "runtime_new (device_dns_target dev) (plan_defaults plan) (plan_overrides plan) (plan_physical plan)")
        case (Inl e)
        then have r: "res = Err e" "log = addressing @ concat (map (install_commands dev) cs) @ [] @ [] @ concat (map (undo_commands dev) (rev cs)) @
            [link_down_command dev]"
          using assms 0 d 1 o(1) i1 c Inr by (simp_all add: client_setup_def linux_cleanup_def linux_rollback_def)
        have "\<forall>c \<in> set log. cmd_program c = ''ip''" using ip r(2) by auto
        note clean = only_ip_clean [OF this]
        have "all_undone T answer (Err e) log"
          by (rule all_undoneI [OF clean r(2) o(2)]) simp_all
        then show ?thesis using r(1) by simp
      next
        case (Inr rt)
        then have r: "res = Ok \<lparr>cp_device = dev, cp_changes = cs, cp_runtime = with_physical_ipv6 (\<not> plan_block_ipv6 plan) rt\<rparr>" "log = i1"
          using assms 0 d 1 o(1) c \<open>q1 = Inr changes\<close> by (simp_all add: client_setup_def)
        have "\<forall>c \<in> set log. cmd_program c = ''ip''" using ip r(2) i1 by auto
        then have "\<not> dns_outstanding answer d log" for d by (rule only_ip_clean)
        moreover have "drt_lease rt = None" using Inr by (auto simp: runtime_new_def rbind_eq_Ok)
        ultimately have "runtime_covers log answer log (with_physical_ipv6 (\<not> plan_block_ipv6 plan) rt)"
          by (auto simp: runtime_covers_def lease_covers_def dns_outstanding_def with_physical_ipv6_def dns_appended_def)
        then show ?thesis using r i1 o(2) by auto
      qed
    qed
  qed
qed

lemma client_end_undone:
  assumes "runtime_covers base answer log rt"
    "base = addressing @ concat (map (install_commands (cp_device parts)) (cp_changes parts))"
    "\<forall>c \<in> set addressing. \<exists>a. c = address_command T (cp_device parts) a"
  shows "all_undone T answer res (client_end parts rt log)"
proof -
  obtain rt' j where 1: "runtime_deactivate rt log = (rt', j)" by fastforce
  let ?dev = "cp_device parts" and ?cs = "cp_changes parts"
  have "\<not> dns_outstanding answer d j" for d using runtime_deactivate_covers(2) [OF assms(1) 1] .
  moreover have e: "client_end parts rt log = j @ concat (map (undo_commands ?dev) (rev ?cs)) @ [link_down_command ?dev]"
    by (simp add: client_end_def 1 linux_cleanup_def linux_rollback_def)
  moreover have "\<forall>c \<in> set (concat (map (undo_commands ?dev) (rev ?cs)) @ [link_down_command ?dev]). cmd_program c = ''ip''"
    using ip_commands by fastforce
  ultimately have clean: "\<not> dns_outstanding answer d (client_end parts rt log)" for d using dns_outstanding_ip by metis
  from runtime_deactivate_covers(1) [OF assms(1) 1] obtain ds where "j = base @ ds" "\<forall>c \<in> set ds. dns_command c"
    by (auto simp: runtime_covers_def lease_covers_def dns_appended_def)
  then have "client_end parts rt log = addressing @ concat (map (install_commands ?dev) ?cs) @ [] @ ds @
      concat (map (undo_commands ?dev) (rev ?cs)) @ [link_down_command ?dev]" using e assms(2) by simp
  from all_undoneI [OF clean this assms(3)] show ?thesis using \<open>\<forall>c \<in> set ds. dns_command c\<close> by simp
qed

text \<open>C13 (a connection is undone). However a connection of the program ends, at whatever point of its setup it fails, however its
  sessions end or are refused, and whatever the commands answer, every setting of the resolver that was made successfully, for
  any interface, is followed by the command that undoes it, and none is in force unless such a command failed (its answer is
  ignored). The commands in all are: the address, the installation of routes, at most one attempt that failed, the
  configuration of the resolver, and then, last first, the commands that undo exactly the routes installed, with the link
  taken down.\<close>

theorem connection_undone:
  assumes "client_run T answer create requested handler pol info plan rounds = (Some res, log)"
  shows "all_undone T answer res log"
proof -
  obtain q i where 1: "client_setup T answer create requested plan [] = (q, i)" by fastforce
  note s = setup_log [OF 1]
  show ?thesis
  proof (cases q)
    case (Inl e)
    then show ?thesis using assms 1 s by (auto simp: client_run_def)
  next
    case (Inr parts)
    then obtain addressing where o: "runtime_covers i answer i (cp_runtime parts)"
      "i = addressing @ concat (map (install_commands (cp_device parts)) (cp_changes parts))"
      "\<forall>c \<in> set addressing. \<exists>a. c = address_command T (cp_device parts) a" using s by auto
    show ?thesis
    proof (cases handler)
      case (Inl e)
      then have "log = client_end parts (cp_runtime parts) i" using assms 1 Inr by (simp add: client_run_def)
      then show ?thesis using client_end_undone [OF o] by simp
    next
      case ok: (Inr u)
      obtain r rt j where 2: "client_loop answer pol (Some info) (Some info) 0 (from_millis (initial_delay_ms pol)) rounds
          (cp_runtime parts) i = (r, rt, j)" by (metis prod_cases3)
      from client_loop_covers [OF 2 o(1)] have c: "runtime_covers i answer j rt" .
      have "r = Some res" "log = client_end parts rt j"
        using assms 1 2 Inr ok by (auto simp: client_run_def split: option.splits)
      then show ?thesis using client_end_undone [OF c o(2,3)] by simp
    qed
  qed
qed

text \<open>A connection with one route and one resolver, whose session ends when the user asks for it.\<close>

abbreviation yes_answers :: answers where
  "yes_answers \<equiv> \<lambda>_ _. Inr \<lparr>out_success = True, out_stdout = []\<rparr>"

abbreviation demo_client_info :: session_info where
  "demo_client_info \<equiv> demo_addressed_info\<lparr>info_dns_servers := [V4 0x0a000035]\<rparr>"

definition demo_client_plan :: "effective_dns_policy \<Rightarrow> connection_plan" where
  "demo_client_plan p =
     \<lparr>plan_defaults = dns_defaults_default, plan_overrides = dns_overrides_default, plan_physical = [], plan_policy = p,
      plan_routes = [route_to_string demo_text (host_route (V4 9))], plan_session = demo_client_info, plan_block_ipv6 = False\<rparr>"

definition demo_client_round :: client_round where
  "demo_client_round =
     \<lparr>cl_round = \<lparr>rr_shutdown = False, rr_auth = Err (Io Interrupted), rr_run = Ok LocalShutdown, rr_elapsed = 0,
                  rr_flag = (\<lambda>_. False)\<rparr>, cl_discovered = Ok []\<rparr>"

lemma default_policies:
  "a \<in> {0x0a000035, 0x0a000036} \<Longrightarrow> \<exists>p. resolve_policy dns_defaults_default dns_overrides_default [V4 a] = Ok p \<and> pol_servers p = [a]"
  "\<exists>p. resolve_policy dns_defaults_default dns_overrides_default [] = Ok p"
proof -
  have c: "normalize_names [DEFAULT_DOH_CANARY] = Ok [DEFAULT_DOH_CANARY]"
    using canary_valid by (simp add: normalize_names_def dedup_def Let_def)
  have "resolve_server_dns dns_defaults_default [V4 0x0a000035] = [0x0a000035]"
    "resolve_server_dns dns_defaults_default [V4 0x0a000036] = [0x0a000036]" by code_simp+
  then show "a \<in> {0x0a000035, 0x0a000036} \<Longrightarrow> \<exists>p. resolve_policy dns_defaults_default dns_overrides_default [V4 a] = Ok p \<and> pol_servers p = [a]"
    "\<exists>p. resolve_policy dns_defaults_default dns_overrides_default [] = Ok p"
    using c by (auto simp: resolve_policy_def overrides_validate_def dns_overrides_default_def unwrap_or_def resolve_domains_def
        dns_defaults_default_def Let_def)
qed

lemma demo_client_setup:
  "\<exists>cs log rt. client_setup demo_text yes_answers (\<lambda>_. Ok [0x74]) None (demo_client_plan p) [] =
      (Ok \<lparr>cp_device = [0x74], cp_changes = cs, cp_runtime = rt\<rparr>, log) \<and>
    drt_target rt = device_dns_target [0x74] \<and> drt_defaults rt = dns_defaults_default \<and> drt_overrides rt = dns_overrides_default \<and>
    drt_lease rt = None"
proof -
  have s: "\<exists>s. interface_settings_of Linux None demo_client_info = Ok s \<and> is_address s = V4 5"
    by (simp add: interface_settings_of_def platform_tun_name_def demo_info_def)
  then have o: "tun_open demo_text yes_answers (\<lambda>_. Ok [0x74]) None demo_client_info [] = (Ok [0x74], [])"
    by (auto simp: tun_open_def open_device_def)
  let ?r = "host_route (V4 9)"
  have "route_parse demo_text (route_to_string demo_text ?r) = Ok ?r"
    by (simp add: route_parse_def parse_route_to_string [OF demo_text_ok host_route_ok])
      (simp add: host_route_def addr_bits_def)
  then obtain cs log where g: "guard_configure demo_text yes_answers [0x74] [route_to_string demo_text ?r] [] = (Ok cs, log)"
    by (simp add: guard_configure_def snapshot_linux_route_def run_command_def)
  have "target_validate (device_dns_target [0x74]) = Ok ()"
    by (simp add: target_validate_def device_dns_target_def is_ascii_alphanumeric_def)
  moreover have "overrides_validate dns_overrides_default = Ok ()" by code_simp
  ultimately show ?thesis using o g default_policies(2)
    by (auto simp: client_setup_def demo_client_plan_def runtime_new_def with_physical_ipv6_def)
qed

lemma demo_client_runs:
  "\<exists>log. client_run demo_text yes_answers (\<lambda>_. Ok [0x74]) None (Ok ()) reconnect_default demo_client_info (demo_client_plan p)
      [demo_client_round] = (Some (Ok LocalShutdown), log) \<and>
    resolvectl_command [ascii_str ''dns'', [0x74], ipv4_display 0x0a000035] \<in> set log"
proof -
  obtain cs log rt where 1: "client_setup demo_text yes_answers (\<lambda>_. Ok [0x74]) None (demo_client_plan p) [] =
      (Ok \<lparr>cp_device = [0x74], cp_changes = cs, cp_runtime = rt\<rparr>, log)"
    "drt_target rt = device_dns_target [0x74]" "drt_defaults rt = dns_defaults_default" "drt_overrides rt = dns_overrides_default"
    "drt_lease rt = None"
    using demo_client_setup by blast
  obtain q where q: "resolve_policy dns_defaults_default dns_overrides_default [V4 0x0a000035] = Ok q" "pol_servers q = [0x0a000035]"
    using default_policies(1) [of "0x0a000035"] by blast
  have v: "target_validate (device_dns_target [0x74]) = Ok ()"
    by (simp add: target_validate_def device_dns_target_def is_ascii_alphanumeric_def)
  have n: "dpt_interface_name (device_dns_target [0x74]) = [0x74]" by (simp add: device_dns_target_def)
  have "\<exists>ds. lease_apply yes_answers (device_dns_target [0x74]) [0x0a000035] log = (Ok (LeaseResolved [0x74]), log @ ds) \<and>
      resolvectl_command [ascii_str ''dns'', [0x74], ipv4_display 0x0a000035] \<in> set ds"
    by (simp add: lease_apply_def v n command_exists_def apply_resolved_def run_command_def Let_def)
  then obtain ds where ds: "lease_apply yes_answers (device_dns_target [0x74]) [0x0a000035] log = (Ok (LeaseResolved [0x74]), log @ ds)"
    "resolvectl_command [ascii_str ''dns'', [0x74], ipv4_display 0x0a000035] \<in> set ds" by blast
  have i: "info_dns_servers demo_client_info = [V4 0x0a000035]" by simp
  have "\<exists>rt' es. session_run yes_answers (Ok []) demo_client_info (Ok LocalShutdown) rt log = (Ok LocalShutdown, rt', log @ ds @ es)"
    by (simp add: session_run_def device_activate_def runtime_activate_def 1 q ds activate_policy_def device_deactivate_def
        runtime_deactivate_def)
  then obtain rt' es where s: "session_run yes_answers (Ok []) demo_client_info (Ok LocalShutdown) rt log = (Ok LocalShutdown, rt', log @ ds @ es)"
    by blast
  have r: "\<not> rr_shutdown (cl_round demo_client_round)" "rr_run (cl_round demo_client_round) = Ok LocalShutdown"
    "cl_discovered demo_client_round = Ok []" by (simp_all add: demo_client_round_def)
  have "client_loop yes_answers reconnect_default (Some demo_client_info) (Some demo_client_info) 0
      (from_millis (initial_delay_ms reconnect_default)) [demo_client_round] rt log = (Some (Ok LocalShutdown), rt', log @ ds @ es)"
    by (simp add: r run_round_def ensure_same_tun_assignment_def s reconnect_round_outcome_def)
  then show ?thesis using 1(1) ds(2)
    by (simp add: client_run_def client_end_def linux_cleanup_def linux_rollback_def runtime_deactivate_def split: option.splits)
qed

theorem connection_undone_witness:
  "\<exists>p log. client_run demo_text yes_answers (\<lambda>_. Ok [0x74]) None (Ok ()) reconnect_default demo_client_info (demo_client_plan p)
      [demo_client_round] = (Some (Ok LocalShutdown), log) \<and>
    resolvectl_command [ascii_str ''dns'', [0x74], ipv4_display 0x0a000035] \<in> set log \<and>
    all_undone demo_text yes_answers (Ok LocalShutdown) log"
  using demo_client_runs connection_undone by blast

section \<open>The runtime follows the plan\<close>

text \<open>Whether a policy resolves does not depend on the servers a session brings.\<close>

lemma resolve_policy_other_dns:
  assumes "resolve_policy d ov dns = Ok p"
  shows "\<exists>q. resolve_policy d ov dns' = Ok q"
  using assms
  by (cases "resolve_domains d (unwrap_or (ov_split_mode ov) (def_split_mode d)) (unwrap_or (ov_split_domains ov) (def_custom_domains d))")
    (auto simp: resolve_policy_def Let_def rbind_eq_Ok split: dns_server_mode.splits)

lemma resolve_policy_overrides: "resolve_policy d ov dns = Ok p \<Longrightarrow> overrides_validate ov = Ok ()"
  by (auto simp: resolve_policy_def rbind_eq_Ok)

lemma plan_resolves:
  "direct_plan T resolver discovered args dns_args info = Ok plan \<Longrightarrow>
     resolve_policy (plan_defaults plan) (plan_overrides plan) (info_dns_servers info) = Ok (plan_policy plan)"
  "managed_plan W resolver sockets discovered prepared args profile_dns dns_args profile_routing info = Ok plan \<Longrightarrow>
     resolve_policy (plan_defaults plan) (plan_overrides plan) (info_dns_servers info) = Ok (plan_policy plan)"
  by (auto simp: direct_plan_def managed_plan_def Let_def rbind_eq_Ok split: if_split_asm)

text \<open>C14 (the runtime follows the plan). Once the device is open and the routes of a plan are installed, the setup of a direct or
  a managed connection cannot fail any more but for a name of the interface the resolver tools do not take; and when the
  session the plan was made for is activated, the policy in force is that of the plan, from which the routes were computed,
  the interface is configured with exactly its servers, and the relay asks neither one of them nor, if IPv6 is blocked, an
  IPv6 address.\<close>

theorem runtime_follows_plan:
  assumes "direct_plan T resolver discovered args dns_args info = Ok plan \<or>
      managed_plan W resolver sockets discovered prepared args profile_dns dns_args profile_routing info = Ok plan"
    and "tun_open T answer create requested (plan_session plan) issued = (Ok dev, i)"
    and "guard_configure T answer dev (plan_routes plan) i = (Ok changes, i')"
    and "target_validate (device_dns_target dev) = Ok ()"
  shows "\<exists>rt. client_setup T answer create requested plan issued = (Ok \<lparr>cp_device = dev, cp_changes = changes, cp_runtime = rt\<rparr>, i') \<and>
    (\<forall>inner found log rt' log' calls. device_activate answer inner found info rt log = (Ok (), rt', log', calls) \<longrightarrow>
       drt_active rt' \<and> drt_policy rt' = plan_policy plan \<and> (\<exists>l. drt_lease rt' = Some (l, pol_servers (plan_policy plan))) \<and>
       (\<forall>r \<in> set (dr_resolvers (drt_relay rt')). sa_ip (pr_address r) \<notin> V4 ` set (pol_servers (plan_policy plan)) \<and>
          (plan_block_ipv6 plan \<longrightarrow> is_ipv4 (sa_ip (pr_address r)))))"
proof -
  have p: "resolve_policy (plan_defaults plan) (plan_overrides plan) (info_dns_servers info) = Ok (plan_policy plan)"
    using assms(1) plan_resolves by blast
  obtain q where q: "resolve_policy (plan_defaults plan) (plan_overrides plan) [] = Ok q" using resolve_policy_other_dns [OF p] by blast
  let ?rt = "with_physical_ipv6 (\<not> plan_block_ipv6 plan)
     \<lparr>drt_target = device_dns_target dev, drt_defaults = plan_defaults plan, drt_overrides = plan_overrides plan, drt_policy = q,
      drt_physical = plan_physical plan, drt_relay = relay_new (plan_physical plan), drt_lease = None, drt_active = False,
      drt_physical_ipv6 = True\<rparr>"
  have new: "client_setup T answer create requested plan issued = (Ok \<lparr>cp_device = dev, cp_changes = changes, cp_runtime = ?rt\<rparr>, i')"
    using assms(2-4) q resolve_policy_overrides [OF p] by (simp add: client_setup_def runtime_new_def)
  have "drt_active rt' \<and> drt_policy rt' = plan_policy plan \<and> (\<exists>l. drt_lease rt' = Some (l, pol_servers (plan_policy plan))) \<and>
      (\<forall>r \<in> set (dr_resolvers (drt_relay rt')). sa_ip (pr_address r) \<notin> V4 ` set (pol_servers (plan_policy plan)) \<and>
         (plan_block_ipv6 plan \<longrightarrow> is_ipv4 (sa_ip (pr_address r))))"
    if a: "device_activate answer inner found info ?rt log = (Ok (), rt', log', calls)" for inner found log rt' log' calls
  proof -
    obtain physical where "activate_policy answer (plan_policy plan) (?rt\<lparr>drt_physical := physical\<rparr>) log = (Ok (), rt', log')"
      using a p by (auto simp: device_activate_def runtime_activate_def with_physical_ipv6_def Let_def split: sum.splits prod.splits)
    then show ?thesis
      by (auto simp: activate_policy_def with_physical_ipv6_def update_resolvers_def filter_physical_resolvers_def Let_def
          split: sum.splits prod.splits)
  qed
  with new show ?thesis by blast
qed

text \<open>A direct connection without options, whose session brings one resolver.\<close>

definition demo_client_args :: route_args where
  "demo_client_args =
     \<lparr>rt_policy = \<lparr>ra_mode = None, ra_block_ipv6 = False, ra_allow_ipv6 = False\<rparr>, rt_routes = [], rt_route_ips = [], rt_route_domains = []\<rparr>"

lemma no_overrides: "applied_to dns_args_default dns_overrides_default = dns_overrides_default"
  by (simp add: applied_to_def dns_args_default_def with_servers_def with_split_domains_def with_doh_hosts_def dns_overrides_default_def)

lemma demo_direct_plan:
  "\<exists>plan. direct_plan demo_text (\<lambda>_. Inr []) (Ok []) demo_client_args dns_args_default demo_client_info = Ok plan \<and>
     plan_routes plan = [route_to_string demo_text (host_route (V4 0x0a000035))] \<and> plan_session plan = demo_client_info \<and>
     plan_defaults plan = dns_defaults_default \<and> plan_overrides plan = dns_overrides_default"
proof -
  obtain p where p: "resolve_policy dns_defaults_default dns_overrides_default [V4 0x0a000035] = Ok p" "pol_servers p = [0x0a000035]"
    using default_policies(1) [of "0x0a000035"] by blast
  let ?a = "V4 0x0a000035" and ?r = "host_route (V4 0x0a000035)"
  have "str_trim (at_show demo_text ?a) = at_show demo_text ?a"
    using demo_text_ok ipv4_display_trim by (auto simp: addr_text_ok_def intro!: str_trim_all)
  then have t: "parse_target demo_text (at_show demo_text ?a) = Ok ?a"
    using demo_text_ok unfolding parse_target_def addr_text_ok_def by (metis ok_or_simps(2))
  have "subtract_all [?r] [host_route (V4 1)] = [?r]" by code_simp
  with t have r: "resolve_route_policy demo_text (\<lambda>_. Inr []) [] [at_show demo_text ?a] [] [] (V4 1) False = Ok [route_to_string demo_text ?r]"
    by (simp add: resolve_route_policy_def collect_route_targets_def rmap_def push_unique_def)
  have x: "resolver_exclusions T policy [] b = []" for T policy b by (simp add: resolver_exclusions_def)
  have i: "info_dns_servers demo_client_info = [?a]" "sa_ip (peer demo_info) = V4 1" by (simp_all add: demo_info_def)
  have s: "ov_split_mode dns_overrides_default = None" by code_simp
  show ?thesis
    by (simp add: direct_plan_def no_overrides demo_client_args_def ipv6_override_def append_ipv6_capture_routes_def s i p r x Let_def)
qed

theorem runtime_follows_plan_witness:
  "\<exists>plan i changes i' parts. direct_plan demo_text (\<lambda>_. Inr []) (Ok []) demo_client_args dns_args_default demo_client_info = Ok plan \<and>
     tun_open demo_text yes_answers (\<lambda>_. Ok [0x74]) None (plan_session plan) [] = (Ok [0x74], i) \<and>
     guard_configure demo_text yes_answers [0x74] (plan_routes plan) i = (Ok changes, i') \<and>
     client_setup demo_text yes_answers (\<lambda>_. Ok [0x74]) None plan [] = (Ok parts, i') \<and> cp_changes parts = changes"
proof -
  obtain plan where p: "direct_plan demo_text (\<lambda>_. Inr []) (Ok []) demo_client_args dns_args_default demo_client_info = Ok plan"
    "plan_routes plan = [route_to_string demo_text (host_route (V4 0x0a000035))]" "plan_session plan = demo_client_info"
    using demo_direct_plan by blast
  have "\<exists>s. interface_settings_of Linux None demo_client_info = Ok s \<and> is_address s = V4 5"
    by (simp add: interface_settings_of_def platform_tun_name_def demo_info_def)
  then have o: "tun_open demo_text yes_answers (\<lambda>_. Ok [0x74]) None (plan_session plan) [] = (Ok [0x74], [])"
    by (auto simp: tun_open_def open_device_def p(3))
  let ?r = "host_route (V4 0x0a000035)"
  have "route_parse demo_text (route_to_string demo_text ?r) = Ok ?r"
    by (simp add: route_parse_def parse_route_to_string [OF demo_text_ok host_route_ok])
      (simp add: host_route_def addr_bits_def)
  then obtain cs log where g: "guard_configure demo_text yes_answers [0x74] (plan_routes plan) [] = (Ok cs, log)"
    by (simp add: guard_configure_def snapshot_linux_route_def run_command_def p(2))
  have v: "target_validate (device_dns_target [0x74]) = Ok ()"
    by (simp add: target_validate_def device_dns_target_def is_ascii_alphanumeric_def)
  from runtime_follows_plan [OF disjI1 [OF p(1)] o g v] p(1) o g show ?thesis by fastforce
qed

text \<open>(a new resolver has no route). A reconnection may bring another resolver: the check of the assignment ignores resolvers and the
  runtime configures the new one, but the routes stay those of the plan, so that without further routes the new resolver is
  asked outside the tunnel.\<close>

theorem reconnected_resolver_unrouted:
  "\<exists>plan p. direct_plan demo_text (\<lambda>_. Inr []) (Ok []) demo_client_args dns_args_default demo_client_info = Ok plan \<and>
     plan_routes plan = [route_to_string demo_text (host_route (V4 0x0a000035))] \<and>
     ensure_same_tun_assignment demo_client_info (demo_client_info\<lparr>info_dns_servers := [V4 0x0a000036]\<rparr>) = Ok () \<and>
     resolve_policy (plan_defaults plan) (plan_overrides plan) (info_dns_servers (demo_client_info\<lparr>info_dns_servers := [V4 0x0a000036]\<rparr>)) = Ok p \<and>
     pol_servers p = [0x0a000036] \<and> V4 0x0a000036 \<notin> covers (host_route (V4 0x0a000035))"
  using demo_direct_plan default_policies(1) [of "0x0a000036"] by (auto simp: ensure_same_tun_assignment_def)


end
