(* ===== verification/Spec2Isabelle.thy ===== *)
theory Spec2Isabelle
  imports Session_Runtime Dns_Runtime Dns_Transport Managed_Workflow Http_Forward Credentials State_Store Cli_Login Client_Run
begin

text \<open>
  Verification of the iWAN client.

  \<^bold>\<open>The program.\<close> The client opens an authenticated UDP session with an iWAN server
  (\<open>src/src/client.rs\<close>), encapsulates the IP packets of a TUN device into datagrams
  (\<open>protocol.rs\<close>, \<open>crypto.rs\<close>), optionally over a Segment Routing path (\<open>sr.rs\<close>), splits and
  reassembles packets that do not fit (\<open>fragment.rs\<close>), installs routes on the host (\<open>tun.rs\<close>)
  and takes part in name resolution: it classifies DNS packets by a policy, answers, relays or
  passes them, and configures the resolver of the host (\<open>dns/\<close>). The controller of a managed
  domain tells it the authentication method, the servers and their credentials, the routes and
  the DNS defaults (\<open>managed/\<close>). The command line program (\<open>bin/\<close>) keeps profiles and logins,
  makes a plan of routes and resolvers for a connection and runs it, or forwards single TCP
  and HTTP connections through the tunnel without touching the host.

  \<^bold>\<open>The theories.\<close> All paths are below \<open>src/src\<close>.

  \<^item> \<open>Prelude\<close>, \<open>Collections\<close>, \<open>Rust_Text\<close>, \<open>Utf8\<close>, \<open>Json\<close>: results as sums with \<open>Inl\<close> the error, byte
    codecs, checked and saturating arithmetic, hash maps as association lists, text functions of
    the standard library, UTF-8, and JSON values as \<open>serde_json\<close> presents them. Three interfaces
    are locales of \<open>Prelude\<close>: \<open>byte_registry\<close> (one-byte codes), \<open>wire_struct\<close> (fixed-size codecs) and
    \<open>invariant_system\<close> (invariants of step relations); each is interpreted where a component
    implements it.
  \<^item> \<open>Errors\<close>: \<open>error.rs\<close> and the addresses of \<open>std::net\<close>.
  \<^item> \<open>Packet_Types\<close>, \<open>Protocol\<close>: \<open>protocol.rs\<close>. The decoders accept exactly what the encoders
    produce; a control packet is accepted only with its signature.
  \<^item> \<open>Crypto_Primitives\<close>, \<open>Crypto\<close>: \<open>crypto.rs\<close>. The digests and block ciphers of the crates are
    the parameter \<open>crypto_prims\<close> with the hypothesis \<open>prims_ok\<close>; \<open>cipher_contract\<close> is the contract
    of \<open>DataCipher\<close>, interpreted on the three session ciphers.
  \<^item> \<open>Fragment\<close>, \<open>Reassembly\<close>: \<open>fragment.rs\<close>. \<open>bounded_reassembler\<close> is the contract of both
    reassemblers. Fragments in any order give the packet back, a completed packet consists of
    pending fragments without gaps, and the buffers are bounded.
  \<^item> \<open>Sr_Monitor\<close>, \<open>Segment_Routing\<close>: \<open>sr.rs\<close>. Data returned on the reversed path decodes to what
    was sent; what is accepted came over the configured path with the tuple of the session.
  \<^item> \<open>Config\<close>: \<open>config.rs\<close>.
  \<^item> \<open>Session_Open\<close>, \<open>Session\<close>, \<open>Session_Runtime\<close>: \<open>client.rs\<close>. \<open>Session_Open\<close> reads the answers to
    an OPEN. \<open>Session\<close> has the data path: the effects of a datagram are a log of device writes
    and socket sends. \<open>Session_Runtime\<close> has the authentication and reconnect loops, the threads
    of a running session as the step relation \<open>thread_step\<close>, and closing.
  \<^item> \<open>Routes\<close>, \<open>Route_Tables\<close>: \<open>tun.rs\<close>. \<open>Routes\<close> relates route arithmetic to sets of addresses:
    the policy covers exactly the included addresses without the excluded ones.
    \<open>Route_Tables\<close> has the route guards; on Linux and macOS they are sequences of
    commands whose answers are a parameter (a function of the commands issued before), on
    Windows a transaction over the trait \<open>RouteBackend\<close>, whose laws are the locale
    \<open>route_backend\<close>, interpreted on the Windows backend over a simulated IP Helper table that
    may refuse any call and adds host rows of its own, of which the laws say nothing.
  \<^item> \<open>Dns_Policy\<close>, \<open>Dns_Packet\<close>, \<open>Dns_Relay\<close>, \<open>Dns_Transport\<close>, \<open>Dns_Runtime\<close>: \<open>dns/policy.rs\<close>,
    \<open>dns/packet.rs\<close>, \<open>dns/relay.rs\<close>, \<open>dns/transport.rs\<close> with \<open>dns/resolver.rs\<close>, and
    \<open>dns/platform.rs\<close> with \<open>dns/runtime.rs\<close>. The message codec is the crate \<open>hickory-proto\<close> and
    appears as the parameter \<open>dns_lib\<close>. Permits are a step relation over any number of threads
    with the loads and exchanges of the atomic counter as separate steps; the runtime is a
    step relation over its operations.
  \<^item> \<open>Managed_Security\<close> (\<open>managed/security.rs\<close>): signed requests; the signature depends on
    the first value of each name of the query only. \<open>Managed_Lookup\<close> (\<open>managed/lookup.rs\<close>): domain lookup with its cache over
    the file system of the locale \<open>file_store\<close>. \<open>Managed_Posture\<close> (\<open>managed/posture.rs\<close>,
    \<open>managed/keepalive.rs\<close>), \<open>Managed_Controller\<close> (\<open>managed/controller.rs\<close>, \<open>managed/password.rs\<close>) and
    \<open>Managed_Auth\<close> (\<open>managed/auth.rs\<close>, \<open>managed/oidc.rs\<close>): what the controller and the identity provider
    answer, and the conditions under which it is believed.
  \<^item> \<open>Managed_Lines\<close>, \<open>Managed_Workflow\<close>: \<open>managed/workflow.rs\<close>. The lines of a domain, sanitized and
    selected, and the two login flows, which compose the previous theories and, for a password,
    the authentication of \<open>Session_Runtime\<close>.
  \<^item> \<open>Forward\<close>, \<open>Http_Forward\<close>: \<open>bin/openiwan/forward.rs\<close>, \<open>bin/openiwan/http_forward.rs\<close>. Resolution of a target
    with its cache, attempts within the connect timeout, admission of connections as a step
    relation, and what the HTTP proxy changes.
  \<^item> \<open>Credentials\<close>, \<open>State_Store\<close>: \<open>bin/openiwan/credentials.rs\<close>, \<open>bin/openiwan/state.rs\<close>. A credential is a
    set of chunks and a manifest in a key store whose calls may fail: \<open>secret_vault\<close> is the contract of
    the trait \<open>SecretStore\<close>, which \<open>lawful_keyring\<close> gives to the store on the keys of the operating
    system; the document with the profiles is replaced through the files of the locale \<open>state_files\<close>.
  \<^item> \<open>Cli_Routing\<close>, \<open>Cli_Profiles\<close>, \<open>Cli_Login\<close>, \<open>Client_Run\<close>: \<open>bin/openiwan.rs\<close>. \<open>Cli_Routing\<close> makes the plan
    of a connection or a forward from arguments, profile and controller. \<open>Cli_Profiles\<close> has the
    commands on profiles and the saving of logins over both stores at once; the locale \<open>cli_world\<close>
    puts the contracts of the two together. \<open>Cli_Login\<close> has the commands that log in. \<open>Client_Run\<close>
    runs a plan on Linux: device, route guard, DNS runtime and reconnecting sessions, and the commands
    that undo all of it in the end.

  \<^bold>\<open>Across components.\<close> \<open>Client_Run.connection_undone\<close>: whatever fails and however a connection ends,
  the commands that undo its resolver settings and routes are issued, and no setting stays in force unless
  its command failed. \<open>Client_Run.runtime_follows_plan\<close>: the
  resolvers in force are those the routes were made from. \<open>Cli_Profiles.login_is_found\<close> and its
  companions: profiles and saved logins stay consistent. \<open>Managed_Workflow.password_login_probed\<close>:
  a login rests on an authenticated answer of the server.

  \<^bold>\<open>State and time.\<close> A method that changes its object returns the changed record. Clock
  readings, random numbers, results of system calls and received datagrams are arguments, and
  what a call asks of the system is a log in the order of the calls. Integers whose width
  matters are words. Lengths are natural numbers; the additions the source checks for overflow
  are checked. Values interpolated into the text of an error are left as they stand in the format.

  \<^bold>\<open>Termination.\<close> Every definition is total. Loops that read from a device or a socket recurse
  over the list of what is read. The authentication and reconnect loops recurse over an
  explicit bound, for which it is proved that the loop ends before it is used up. Route
  subtraction has a termination proof by the remaining prefix length. A login flow, and a
  connection that still runs, have the result \<open>None\<close> when the input they are given is used up.

  \<^bold>\<open>Not modelled.\<close> Creating, reading and writing the TUN device and the Wintun binding; opening the
  device on macOS and Windows and the macOS and Windows parts of \<open>dns/platform.rs\<close>, which only call the
  operating system; the HTTP transport, the TLS streams and the adapters to asynchronous traits,
  which only call crates; the serialized metrics of keepalives; the argument parser, the printed
  output and the log of the command line program.
\<close>

end
